(* ===== verification/Prelude.thy ===== *)
theory Prelude
  imports Main "HOL-Library.AList"
begin

text \<open>
  Shared vocabulary of the development: the exceptions the modelled code raises, the result of
  a method that may raise after having changed its object, Python dictionaries as association
  lists that keep insertion order, event counters, and the lemmas on them that the components
  share.
\<close>

section \<open>Exceptions and results\<close>

text \<open>One constructor per exception class that the modelled code raises; the argument is the
  message (its constant part, where the code interpolates values into it).\<close>

datatype exn =
    ValueError string
  | TypeError string
  | RuntimeError string
  | AssertionError string
  | KeyError
  | IndexError
  | LeaseStateError string
  | LeaseFenceError string
  | CodecError string
  | CacheFormatError string
  | IncompatibleManifest string
  | CommitConflict string
  | IncompleteEntry string
  | PageDeltaDepthExceeded string
  | HybridCodecError string
  | PageDeltaPayloadChecksum string
  | OSError
  | FileNotFound
  | OverflowError
  | ZeroDivision
  | StructError

text \<open>A method returns a value or raises, and leaves its object in a new state either way.\<close>

type_synonym ('a, 's) outcome = "(exn + 'a) \<times> 's"

abbreviation returns :: "'a \<Rightarrow> 's \<Rightarrow> ('a, 's) outcome" where
  "returns x s \<equiv> (Inr x, s)"

abbreviation raises :: "exn \<Rightarrow> 's \<Rightarrow> ('a, 's) outcome" where
  "raises e s \<equiv> (Inl e, s)"

text \<open>Sequencing of steps that may raise, and a check that raises when it fails.\<close>

definition bindE :: "exn + 'a \<Rightarrow> ('a \<Rightarrow> exn + 'b) \<Rightarrow> exn + 'b" where
  "bindE m k = (case m of Inl e \<Rightarrow> Inl e | Inr x \<Rightarrow> k x)"

definition require :: "bool \<Rightarrow> exn \<Rightarrow> exn + unit" where
  "require b e = (if b then Inr () else Inl e)"

lemma bindE_simps [simp]: "bindE (Inr x) k = k x" "bindE (Inl e) k = Inl e"
  by (simp_all add: bindE_def)

lemma bindE_Inr: "bindE m k = Inr y \<longleftrightarrow> (\<exists>x. m = Inr x \<and> k x = Inr y)"
  by (cases m) auto

lemma require_simps [simp]:
  "require True e = Inr ()" "require False e = Inl e" "require b e = Inr u \<longleftrightarrow> b"
  by (simp_all add: require_def)

text \<open>A guarded raise returns exactly when the guard is false: with \<open>bindE_Inr\<close>, this turns the
  success of a validator into the conjunction of its checks.\<close>

lemma raise_unless: "(if b then Inl e else m) = Inr y \<longleftrightarrow> \<not> b \<and> m = Inr y"
  by simp

lemma return_if: "(if b then m else Inl e) = Inr y \<longleftrightarrow> b \<and> m = Inr y"
  by simp

lemma case_success:
  "(case m of None \<Rightarrow> Inl e | Some x \<Rightarrow> f x) = Inr y \<longleftrightarrow> (\<exists>x. m = Some x \<and> f x = Inr y)"
  by (cases m) simp_all

lemmas success_iff = bindE_Inr raise_unless return_if case_success prod.case option.case
  sum.inject de_Morgan_disj not_not not_less not_le ex_simps simp_thms

text \<open>Applying a function that may raise to every element, in order.\<close>

fun mapE :: "('a \<Rightarrow> exn + 'b) \<Rightarrow> 'a list \<Rightarrow> exn + 'b list" where
  "mapE f [] = Inr []"
| "mapE f (x # xs) = bindE (f x) (\<lambda>y. bindE (mapE f xs) (\<lambda>ys. Inr (y # ys)))"

lemma mapE_Inr: "mapE f xs = Inr ys \<longleftrightarrow> list_all2 (\<lambda>x y. f x = Inr y) xs ys"
proof (induction xs arbitrary: ys)
  case (Cons x xs)
  then show ?case by (cases ys) (auto simp: bindE_Inr)
qed auto

text \<open>Running a step that changes the state for every element, until one raises.\<close>

fun run_all :: "('a \<Rightarrow> 's \<Rightarrow> (unit, 's) outcome) \<Rightarrow> 'a list \<Rightarrow> 's \<Rightarrow> (unit, 's) outcome" where
  "run_all f [] s = returns () s"
| "run_all f (x # xs) s = (case f x s of (Inl e, t) \<Rightarrow> raises e t | (Inr _, t) \<Rightarrow> run_all f xs t)"

text \<open>The exceptions caught by \<open>except ValueError\<close> and by \<open>except OSError\<close>, subclasses included.\<close>

fun is_value_error :: "exn \<Rightarrow> bool" where
  "is_value_error (ValueError m) = True"
| "is_value_error (CacheFormatError m) = True"
| "is_value_error (IncompatibleManifest m) = True"
| "is_value_error (IncompleteEntry m) = True"
| "is_value_error (CodecError m) = True"
| "is_value_error (PageDeltaDepthExceeded m) = True"
| "is_value_error (HybridCodecError m) = True"
| "is_value_error (PageDeltaPayloadChecksum m) = True"
| "is_value_error e = False"

fun is_type_error :: "exn \<Rightarrow> bool" where
  "is_type_error (TypeError m) = True"
| "is_type_error e = False"

fun is_os_error :: "exn \<Rightarrow> bool" where
  "is_os_error OSError = True"
| "is_os_error FileNotFound = True"
| "is_os_error e = False"

section \<open>Counters\<close>

type_synonym counters = "string \<Rightarrow> int"

definition no_counts :: counters where
  "no_counts = (\<lambda>_. 0)"

definition bump :: "string \<Rightarrow> int \<Rightarrow> counters \<Rightarrow> counters" where
  "bump k n c = c(k := c k + n)"

section \<open>Dictionaries\<close>

text \<open>
  A Python dictionary iterates in insertion order, overwrites a present key in place and
  appends a new one: exactly \<open>AList.update\<close>. Lookup is \<open>map_of\<close>, deletion \<open>AList.delete\<close>.
\<close>

type_synonym ('k, 'v) dict = "('k \<times> 'v) list"

abbreviation dget :: "('k, 'v) dict \<Rightarrow> 'k \<Rightarrow> 'v option" where
  "dget d k \<equiv> map_of d k"

abbreviation dput :: "'k \<Rightarrow> 'v \<Rightarrow> ('k, 'v) dict \<Rightarrow> ('k, 'v) dict" where
  "dput \<equiv> AList.update"

abbreviation ddel :: "'k \<Rightarrow> ('k, 'v) dict \<Rightarrow> ('k, 'v) dict" where
  "ddel \<equiv> AList.delete"

abbreviation dkeys :: "('k, 'v) dict \<Rightarrow> 'k list" where
  "dkeys d \<equiv> map fst d"

abbreviation dvals :: "('k, 'v) dict \<Rightarrow> 'v list" where
  "dvals d \<equiv> map snd d"

definition dict_ok :: "('k, 'v) dict \<Rightarrow> bool" where
  "dict_ok d \<longleftrightarrow> distinct (dkeys d)"

named_theorems dict_simps

lemma dget_dput [simp, dict_simps]: "map_of (dput k v d) = (map_of d)(k \<mapsto> v)"
  by (rule update_conv')

lemma dget_ddel [simp, dict_simps]: "map_of (ddel k d) = (map_of d)(k := None)"
  by (rule delete_conv')

lemma dict_ok_Nil [simp]: "dict_ok []"
  by (simp add: dict_ok_def)

lemma dict_ok_dput [simp, intro]: "dict_ok d \<Longrightarrow> dict_ok (dput k v d)"
  by (simp add: dict_ok_def distinct_update)

lemma dict_ok_ddel [simp, intro]: "dict_ok d \<Longrightarrow> dict_ok (ddel k d)"
  by (simp add: dict_ok_def distinct_delete)

lemma dict_ok_get: "dict_ok d \<Longrightarrow> (k, v) \<in> set d \<longleftrightarrow> dget d k = Some v"
  by (simp add: dict_ok_def)

lemma dict_ok_vals: "dict_ok d \<Longrightarrow> v \<in> set (dvals d) \<longleftrightarrow> (\<exists>k. dget d k = Some v)"
  by (force simp: dict_ok_get [symmetric])

lemma dget_None: "dget d k = None \<longleftrightarrow> k \<notin> set (dkeys d)"
  by (simp add: map_of_eq_None_iff)

lemma dput_fresh: "dget d k = None \<Longrightarrow> dput k v d = d @ [(k, v)]"
  by (induction d) (auto split: if_splits)

lemma ddel_fresh: "dget d k = None \<Longrightarrow> ddel k d = d"
  by (induction d) (auto split: if_splits)

lemma ddel_dput: "ddel k (dput k v d) = ddel k d"
  by (induction d) auto

text \<open>The length of a dictionary and sums over its values, after an update or a deletion.\<close>

definition dsum :: "('v \<Rightarrow> int) \<Rightarrow> ('k, 'v) dict \<Rightarrow> int" where
  "dsum f d = sum_list (map (f \<circ> snd) d)"

lemma dsum_simps [simp, dict_simps]:
  "dsum f [] = 0"
  "dsum f ((k, v) # d) = f v + dsum f d"
  "dsum f (d @ d') = dsum f d + dsum f d'"
  by (simp_all add: dsum_def)

lemma dsum_dput_new [simp]: "dget d k = None \<Longrightarrow> dsum f (dput k v d) = dsum f d + f v"
  by (simp add: dput_fresh)

lemma dsum_dput_old:
  assumes "dget d k = Some w"
  shows "dsum f (dput k v d) = dsum f d - f w + f v"
  using assms by (induction d) (auto split: if_splits)

lemma dsum_ddel:
  assumes "dict_ok d" "dget d k = Some w"
  shows "dsum f (ddel k d) = dsum f d - f w"
  using assms
proof (induction d)
  case (Cons p d)
  then show ?case
    by (cases p) (auto simp: dict_ok_def ddel_fresh dget_None split: if_splits)
qed simp

lemma length_dput [simp]:
  "length (dput k v d) = (if dget d k = None then Suc (length d) else length d)"
  by (induction d) (auto split: if_splits)

lemma length_ddel:
  assumes "dict_ok d" "dget d k = Some w"
  shows "int (length (ddel k d)) = int (length d) - 1"
proof -
  have "dsum (\<lambda>_. 1) e = int (length e)" for e :: "('a, 'b) dict"
    by (induction e) auto
  then show ?thesis using dsum_ddel [OF assms, of "\<lambda>_. 1"] by simp
qed

lemma length_ddel_le: "length (ddel k d) \<le> length d"
  by (rule length_delete_le)

lemma dsum_nonneg: "(\<And>v. 0 \<le> f v) \<Longrightarrow> 0 \<le> dsum f d"
  by (induction d) auto

lemma dsum_ge:
  assumes "\<And>v. 0 \<le> f v" "dget d k = Some w"
  shows "f w \<le> dsum f d"
  using assms(2)
proof (induction d)
  case (Cons p d)
  then show ?case
    using assms(1) dsum_nonneg [of f d, OF assms(1)] by (cases p) (auto split: if_splits intro: order_trans add_increasing)
qed simp

text \<open>Storing one value under several keys, and deleting several keys.\<close>

lemma dget_fold_dput:
  "map_of (fold (\<lambda>k. dput k v) ks d) k = (if k \<in> set ks then Some v else map_of d k)"
  by (induction ks arbitrary: d) auto

lemma dict_ok_fold_dput: "dict_ok d \<Longrightarrow> dict_ok (fold (\<lambda>k. dput k v) ks d)"
  by (induction ks arbitrary: d) auto

lemma length_fold_dput:
  assumes "distinct ks" "\<forall>k\<in>set ks. dget d k = None"
  shows "length (fold (\<lambda>k. dput k v) ks d) = length d + length ks"
  using assms
proof (induction ks arbitrary: d)
  case (Cons k ks)
  then have "\<forall>k'\<in>set ks. dget (dput k v d) k' = None" by auto
  from Cons.IH [OF _ this] Cons.prems show ?case by simp
qed simp

lemma dget_fold_ddel:
  "map_of (fold ddel ks d) k = (if k \<in> set ks then None else map_of d k)"
  by (induction ks arbitrary: d) auto

lemma dict_ok_fold_ddel: "dict_ok d \<Longrightarrow> dict_ok (fold ddel ks d)"
  by (induction ks arbitrary: d) auto

lemma length_fold_ddel_le: "length (fold ddel ks d) \<le> length d"
  by (induction ks arbitrary: d) (auto intro: order_trans length_ddel_le)

section \<open>Sets kept as lists\<close>

text \<open>A Python set of integers or strings, as a list without duplicates.\<close>

definition set_add :: "'a \<Rightarrow> 'a list \<Rightarrow> 'a list" where
  "set_add x xs = (if x \<in> set xs then xs else xs @ [x])"

lemma set_set_add [simp]: "set (set_add x xs) = insert x (set xs)"
  by (auto simp: set_add_def)

lemma distinct_set_add [simp]: "distinct (set_add x xs) \<longleftrightarrow> distinct xs"
  by (simp add: set_add_def)

lemma set_add_not_Nil [simp]: "set_add x xs \<noteq> []"
  by (auto simp: set_add_def)

section \<open>State machines and their invariants\<close>

text \<open>
  The contract between a component's operations and a property of its state: it holds at the
  start and every step keeps it. Each component interprets this locale on its own step relation
  and its own well-formedness predicate, and its safety properties rest on \<open>reachable_inv\<close>.
\<close>

locale invariant_system =
  fixes start :: "'s \<Rightarrow> bool"
    and step :: "'s \<Rightarrow> 's \<Rightarrow> bool"
    and inv :: "'s \<Rightarrow> bool"
  assumes inv_start: "start s \<Longrightarrow> inv s"
    and inv_step: "step s t \<Longrightarrow> inv s \<Longrightarrow> inv t"
begin

lemma inv_steps: "rtranclp step s t \<Longrightarrow> inv s \<Longrightarrow> inv t"
  by (induction rule: rtranclp_induct) (auto intro: inv_step)

lemma reachable_inv: "start s \<Longrightarrow> rtranclp step s t \<Longrightarrow> inv t"
  by (blast intro: inv_steps inv_start)

text \<open>What every step from a good state keeps, every run from the start keeps.\<close>

lemma reachable_stable:
  assumes "start s" "rtranclp step s t" "rtranclp step t u" "P t"
    and "\<And>x y. inv x \<Longrightarrow> step x y \<Longrightarrow> P x \<Longrightarrow> P y"
  shows "P u"
proof -
  have "inv t" using assms(1,2) by (rule reachable_inv)
  with assms(3,4) have "inv u \<and> P u"
    by (induction rule: rtranclp_induct) (use assms(5) inv_step in blast)+
  then show ?thesis ..
qed

end

section \<open>Python indexing\<close>

text \<open>\<open>xs[i]\<close>: a negative index counts from the end, anything else out of range raises.\<close>

definition py_index :: "'a list \<Rightarrow> int \<Rightarrow> nat option" where
  "py_index xs i =
     (let n = int (length xs); j = (if i < 0 then n + i else i)
      in if 0 \<le> j \<and> j < n then Some (nat j) else None)"

lemma py_index_bound: "py_index xs i = Some j \<Longrightarrow> j < length xs"
  by (auto simp: py_index_def Let_def split: if_splits)

text \<open>\<open>xs[a:b]\<close>: bounds clamp to the sequence, negative ones count from its end.\<close>

definition py_bound :: "'a list \<Rightarrow> int \<Rightarrow> nat" where
  "py_bound xs i = nat (if i < 0 then max 0 (i + int (length xs)) else min i (int (length xs)))"

definition py_slice :: "'a list \<Rightarrow> int \<Rightarrow> int \<Rightarrow> 'a list" where
  "py_slice xs a b = take (py_bound xs b - py_bound xs a) (drop (py_bound xs a) xs)"

lemma py_slice_inside:
  "0 \<le> a \<Longrightarrow> a \<le> b \<Longrightarrow> b \<le> int (length xs) \<Longrightarrow> py_slice xs a b = take (nat (b - a)) (drop (nat a) xs)"
  by (simp add: py_slice_def py_bound_def nat_diff_distrib)

section \<open>Unique elements\<close>

text \<open>\<open>tuple(dict.fromkeys(xs))\<close>: first occurrences, in order.\<close>

fun unique_first :: "'a list \<Rightarrow> 'a list" where
  "unique_first [] = []"
| "unique_first (x # xs) = x # filter (\<lambda>y. y \<noteq> x) (unique_first xs)"

lemma set_unique_first [simp]: "set (unique_first xs) = set xs"
  by (induction xs) auto

lemma distinct_unique_first [simp]: "distinct (unique_first xs)"
  by (induction xs) auto

lemma unique_first_Nil [simp]: "unique_first xs = [] \<longleftrightarrow> xs = []"
  by (cases xs) auto

end
