(* ===== verification/Py_Value.thy ===== *)
theory Py_Value
  imports Prelude "HOL-Library.Char_ord" "HOL-Library.List_Lexorder"
begin

text \<open>
  Dynamically typed Python values, for the handlers whose argument is \<open>Any\<close>: reports that cross
  a process boundary are checked field by field before they are believed, and the model keeps
  every such check. \<open>PObject\<close> stands for any value of another type.
\<close>

datatype pyval =
    PNone
  | PBool bool
  | PInt int
  | PStr string
  | PList "pyval list"
  | PDict "(string \<times> pyval) list"
  | PObject

text \<open>\<open>d.get(k)\<close>.\<close>

definition py_get :: "(string \<times> pyval) list \<Rightarrow> string \<Rightarrow> pyval" where
  "py_get d k = (case map_of d k of None \<Rightarrow> PNone | Some v \<Rightarrow> v)"

text \<open>\<open>type(v) is int\<close> (a Boolean is not accepted), \<open>isinstance(v, str)\<close>, \<open>isinstance(v, list)\<close>,
  \<open>isinstance(v, dict)\<close>, each with the value it admits.\<close>

fun as_int :: "pyval \<Rightarrow> int option" where
  "as_int (PInt n) = Some n"
| "as_int _ = None"

fun as_str :: "pyval \<Rightarrow> string option" where
  "as_str (PStr s) = Some s"
| "as_str _ = None"

fun as_list :: "pyval \<Rightarrow> pyval list option" where
  "as_list (PList vs) = Some vs"
| "as_list _ = None"

fun as_dict :: "pyval \<Rightarrow> (string \<times> pyval) list option" where
  "as_dict (PDict d) = Some d"
| "as_dict _ = None"

lemma as_int_Some [simp]: "as_int v = Some n \<longleftrightarrow> v = PInt n"
  by (cases v) auto

lemma as_str_Some [simp]: "as_str v = Some s \<longleftrightarrow> v = PStr s"
  by (cases v) auto

lemma as_list_Some [simp]: "as_list v = Some vs \<longleftrightarrow> v = PList vs"
  by (cases v) auto

lemma as_dict_Some [simp]: "as_dict v = Some d \<longleftrightarrow> v = PDict d"
  by (cases v) auto

section \<open>Digests\<close>

text \<open>\<open>SHA256_RE\<close>: 64 lowercase hexadecimal characters.\<close>

definition hex_digits :: string where
  "hex_digits = ''0123456789abcdef''"

definition is_sha256 :: "string \<Rightarrow> bool" where
  "is_sha256 s \<longleftrightarrow> length s = 64 \<and> (\<forall>c\<in>set s. c \<in> set hex_digits)"

text \<open>The digests among some values, in order.\<close>

fun digest_strings :: "pyval list \<Rightarrow> string list" where
  "digest_strings [] = []"
| "digest_strings (v # vs) =
     (case v of PStr s \<Rightarrow> if is_sha256 s then s # digest_strings vs else digest_strings vs
              | _ \<Rightarrow> digest_strings vs)"

lemma digest_strings_map [simp]:
  "(\<forall>d\<in>set ds. is_sha256 d) \<Longrightarrow> digest_strings (map PStr ds) = ds"
  by (induction ds) auto

lemma digest_strings_PStr: "digest_strings (map PStr ds) = filter is_sha256 ds"
  by (induction ds) auto

lemma length_digest_strings: "length (digest_strings vs) \<le> length vs"
  by (induction vs) (auto split: pyval.split)

lemma set_digest_strings: "d \<in> set (digest_strings vs) \<longleftrightarrow> PStr d \<in> set vs \<and> is_sha256 d"
  by (induction vs) (auto split: pyval.split)

end
