(* ===== verification/Block_Lease.thy ===== *)
theory Block_Lease
  imports Prelude
begin

text \<open>
  The ownership leases of \<open>sparkcache/streaming/block_lease.py\<close>: which physical KV blocks an
  asynchronous gather may still read. A lease is reserved, submitted with a completion fence,
  and released once the fence reports done. The registry's lock makes each method's locked
  section one step; fence queries and synchronisation happen outside the lock, so \<open>poll\<close> and
  \<open>abort_request\<close> are given as whole methods and, from the same parts, as calls that stop between
  their locked sections (\<open>poll_run\<close>, \<open>abort_request_run\<close>); \<open>lease_step\<close> takes both. A completion fence is an opaque handle of type \<open>'f\<close>; what
  \<open>query()\<close> and \<open>synchronize()\<close> answer is an argument of the methods.
\<close>

section \<open>State\<close>

record lease_capacity =
  max_active_leases :: int
  max_leased_blocks :: int

definition LeaseCapacity :: "int \<Rightarrow> int \<Rightarrow> exn + lease_capacity" where
  "LeaseCapacity active blocks =
     (if active \<le> 0 then Inl (ValueError ''max_active_leases must be positive'')
      else if blocks \<le> 0 then Inl (ValueError ''max_leased_blocks must be positive'')
      else Inr \<lparr>max_active_leases = active, max_leased_blocks = blocks\<rparr>)"

datatype lease_state = RESERVED | SUBMITTING | ARMED | SUBMISSION_UNKNOWN

record 'f lease =
  lease_id :: int
  lease_request :: string
  lease_blocks :: "int list"
  l_state :: lease_state
  l_fence :: "'f option"

record 'f registry =
  capacity :: lease_capacity
  r_counters :: counters
  next_id :: int
  leases :: "(int, 'f lease) dict"
  by_request :: "(string, int list) dict"
  block_owner :: "(int, int) dict"

definition new_registry :: "lease_capacity \<Rightarrow> 'f registry" where
  "new_registry c = \<lparr>capacity = c, r_counters = no_counts, next_id = 1, leases = [],
     by_request = [], block_owner = []\<rparr>"

abbreviation count :: "string \<Rightarrow> int \<Rightarrow> 'f registry \<Rightarrow> 'f registry" where
  "count k n r \<equiv> r\<lparr>r_counters := bump k n (r_counters r)\<rparr>"

abbreviation put_lease :: "int \<Rightarrow> 'f lease \<Rightarrow> 'f registry \<Rightarrow> 'f registry" where
  "put_lease i l r \<equiv> r\<lparr>leases := dput i l (leases r)\<rparr>"

text \<open>\<open>_by_request\<close> is a \<open>defaultdict(set)\<close>: a missing request owns no lease.\<close>

definition ids_of :: "'f registry \<Rightarrow> string \<Rightarrow> int list" where
  "ids_of r rid = (case dget (by_request r) rid of None \<Rightarrow> [] | Some ids \<Rightarrow> ids)"

section \<open>Operations\<close>

definition try_reserve ::
    "string \<Rightarrow> int list \<Rightarrow> 'f registry \<Rightarrow> (int option, 'f registry) outcome" where
  "try_reserve rid blocks r =
     (if rid = '''' then raises (ValueError ''request_id must not be empty'') r
      else if blocks = [] then raises (ValueError ''block_ids must not be empty'') r
      else if \<not> distinct blocks then raises (ValueError ''block_ids must be unique'') r
      else if \<exists>b\<in>set blocks. b < 0
        then raises (ValueError ''block_ids must contain non-negative integers'') r
      else if int (length (leases r)) \<ge> max_active_leases (capacity r)
        then returns None (count ''rejected_lease_capacity'' 1 r)
      else if int (length (block_owner r)) + int (length blocks) > max_leased_blocks (capacity r)
        then returns None (count ''rejected_block_capacity'' 1 r)
      else if \<exists>b\<in>set blocks. dget (block_owner r) b \<noteq> None
        then returns None (count ''rejected_overlap'' 1 r)
      else
        (let i = next_id r;
             l = \<lparr>lease_id = i, lease_request = rid, lease_blocks = blocks,
                  l_state = RESERVED, l_fence = None\<rparr>
         in returns (Some i)
              (count ''reserved'' 1
                (r\<lparr>next_id := i + 1,
                   leases := dput i l (leases r),
                   by_request := dput rid (set_add i (ids_of r rid)) (by_request r),
                   block_owner := fold (\<lambda>b. dput b i) blocks (block_owner r)\<rparr>))))"

text \<open>What the submission callback does: it is not callable, it raises, it returns something
  that is no fence, or it returns a fence.\<close>

datatype 'f submission = Not_callable | Callback_raises | Not_a_fence | Fence 'f

definition submit ::
    "int \<Rightarrow> 'f submission \<Rightarrow> 'f registry \<Rightarrow> (unit, 'f registry) outcome" where
  "submit i sub r =
     (if (case sub of Not_callable \<Rightarrow> True | _ \<Rightarrow> False)
      then raises (TypeError ''submitter must be callable'') r
      else case dget (leases r) i of
        None \<Rightarrow> raises (LeaseStateError ''lease is no longer active'') r
      | Some l \<Rightarrow>
          if l_state l \<noteq> RESERVED
          then raises (LeaseStateError ''lease has already entered submission'') r
          else
            (let l1 = l\<lparr>l_state := SUBMITTING\<rparr>;
                 r1 = count ''submitting'' 1 (put_lease i l1 r)
             in case sub of
                  Fence f \<Rightarrow> returns ()
                    (count ''armed'' 1 (put_lease i (l1\<lparr>l_fence := Some f, l_state := ARMED\<rparr>) r1))
                | _ \<Rightarrow> raises (LeaseFenceError ''submission status unknown for lease'')
                    (count ''submission_unknown'' 1
                       (put_lease i (l1\<lparr>l_state := SUBMISSION_UNKNOWN\<rparr>) r1))))"

text \<open>\<open>_release_locked\<close>: the corruption checks are branches of the model.\<close>

fun release_blocks ::
    "int \<Rightarrow> int list \<Rightarrow> 'f registry \<Rightarrow> (unit, 'f registry) outcome" where
  "release_blocks i [] r = returns () r"
| "release_blocks i (b # bs) r =
     (case dget (block_owner r) b of
        None \<Rightarrow> raises KeyError r
      | Some own \<Rightarrow>
          (let r' = r\<lparr>block_owner := ddel b (block_owner r)\<rparr>
           in if own \<noteq> i then raises (AssertionError ''block lease ownership corrupted'') r'
              else release_blocks i bs r'))"

definition release_locked :: "'f lease \<Rightarrow> 'f registry \<Rightarrow> (unit, 'f registry) outcome" where
  "release_locked l r =
     (let i = lease_id l; rid = lease_request l
      in if dget (leases r) i = None then raises KeyError r
         else
           (let r1 = r\<lparr>leases := ddel i (leases r)\<rparr>; ids = ids_of r rid
            in if i \<notin> set ids
               then raises KeyError (r1\<lparr>by_request := dput rid ids (by_request r1)\<rparr>)
               else
                 (let ids' = removeAll i ids
                  in release_blocks i (lease_blocks l)
                       (r1\<lparr>by_request :=
                             (if ids' = [] then ddel rid (by_request r1)
                              else dput rid ids' (by_request r1))\<rparr>))))"

definition cancel_before_submit :: "int \<Rightarrow> 'f registry \<Rightarrow> (unit, 'f registry) outcome" where
  "cancel_before_submit i r =
     (case dget (leases r) i of
        None \<Rightarrow> raises (LeaseStateError ''lease is no longer active'') r
      | Some l \<Rightarrow>
          if l_state l \<noteq> RESERVED
          then raises (LeaseStateError ''a submitted lease must be drained, never cancelled'') r
          else (case release_locked l r of
                  (Inl e, r') \<Rightarrow> raises e r'
                | (Inr _, r') \<Rightarrow> returns () (count ''cancelled_before_submit'' 1 r')))"

text \<open>The three phases of \<open>poll\<close>: collect the armed leases (locked), query their fences in
  order until one raises (unlocked), release those still present (locked).\<close>

datatype fence_status = Fence_done | Fence_pending | Fence_raises

definition armed_leases :: "'f lease list \<Rightarrow> 'f lease list" where
  "armed_leases ls = filter (\<lambda>l. l_state l = ARMED) ls"

fun query_fences ::
    "('f \<Rightarrow> fence_status) \<Rightarrow> 'f lease list \<Rightarrow> exn + int list" where
  "query_fences q [] = Inr []"
| "query_fences q (l # ls) =
     (case l_fence l of
        None \<Rightarrow> Inl (AssertionError ''lease.fence is not None'')
      | Some f \<Rightarrow>
          (case q f of
             Fence_raises \<Rightarrow> Inl (LeaseFenceError ''completion status unknown for lease'')
           | Fence_done \<Rightarrow> map_sum id (\<lambda>is. lease_id l # is) (query_fences q ls)
           | Fence_pending \<Rightarrow> query_fences q ls))"

fun release_each ::
    "int list \<Rightarrow> int \<Rightarrow> 'f registry \<Rightarrow> (int, 'f registry) outcome" where
  "release_each [] n r = returns n r"
| "release_each (i # is) n r =
     (case dget (leases r) i of
        None \<Rightarrow> release_each is n r
      | Some l \<Rightarrow> (case release_locked l r of
                     (Inl e, r') \<Rightarrow> raises e r'
                   | (Inr _, r') \<Rightarrow> release_each is (n + 1) r'))"

definition fence_failed :: "string \<Rightarrow> exn \<Rightarrow> 'f registry \<Rightarrow> 'f registry" where
  "fence_failed k e r = (case e of LeaseFenceError _ \<Rightarrow> count k 1 r | _ \<Rightarrow> r)"

definition poll :: "('f \<Rightarrow> fence_status) \<Rightarrow> 'f registry \<Rightarrow> (int, 'f registry) outcome" where
  "poll q r =
     (case query_fences q (armed_leases (dvals (leases r))) of
        Inl e \<Rightarrow> raises e (fence_failed ''fence_query_failed'' e r)
      | Inr completed \<Rightarrow>
          (case release_each completed 0 r of
             (Inl e, r') \<Rightarrow> raises e r'
           | (Inr n, r') \<Rightarrow> returns n (count ''completed'' n r')))"

definition take_finished ::
    "('f \<Rightarrow> fence_status) \<Rightarrow> string set \<Rightarrow> 'f registry \<Rightarrow> (string set, 'f registry) outcome" where
  "take_finished q ids r =
     (case poll q r of
        (Inl e, r') \<Rightarrow> raises e r'
      | (Inr _, r') \<Rightarrow>
          (let ready = ids - set (dkeys (by_request r'))
           in returns ready (count ''requests_finished'' (int (card ready)) r')))"

text \<open>\<open>abort_request\<close>: phase one releases the unsubmitted leases and refuses a request with an
  unknown submission; phase two queries (\<open>wait=False\<close>) or synchronises (\<open>wait=True\<close>) the armed
  fences; phase three releases the leases that are still present.\<close>

fun owned_leases :: "(int, 'f lease) dict \<Rightarrow> int list \<Rightarrow> 'f lease list option" where
  "owned_leases d [] = Some []"
| "owned_leases d (i # is) =
     (case dget d i of
        None \<Rightarrow> None
      | Some l \<Rightarrow> map_option (\<lambda>ls. l # ls) (owned_leases d is))"

definition abort_reserved ::
    "string \<Rightarrow> 'f registry \<Rightarrow> ('f lease list \<times> int, 'f registry) outcome" where
  "abort_reserved rid r =
     (case owned_leases (leases r) (ids_of r rid) of
        None \<Rightarrow> raises KeyError r
      | Some ls \<Rightarrow>
          (let reserved = filter (\<lambda>l. l_state l = RESERVED) ls;
               armed = armed_leases ls;
               unknown = filter (\<lambda>l. l_state l = SUBMISSION_UNKNOWN) ls
           in case release_each (map lease_id reserved) 0 r of
                (Inl e, r') \<Rightarrow> raises e r'
              | (Inr n, r') \<Rightarrow>
                  if unknown \<noteq> []
                  then raises (LeaseFenceError ''cannot safely abort lease(s) with unknown submission state'')
                         (count ''submission_unknown_abort'' (int (length unknown)) r')
                  else returns (armed, n) r'))"

fun synchronize_fences :: "('f \<Rightarrow> bool) \<Rightarrow> 'f lease list \<Rightarrow> exn + unit" where
  "synchronize_fences sync [] = Inr ()"
| "synchronize_fences sync (l # ls) =
     (case l_fence l of
        None \<Rightarrow> Inl (AssertionError ''lease.fence is not None'')
      | Some f \<Rightarrow> if sync f then synchronize_fences sync ls
                  else Inl (LeaseFenceError ''cannot safely abort lease''))"

definition abort_request ::
    "('f \<Rightarrow> fence_status) \<Rightarrow> ('f \<Rightarrow> bool) \<Rightarrow> string \<Rightarrow> bool \<Rightarrow> 'f registry
       \<Rightarrow> (int, 'f registry) outcome" where
  "abort_request q sync rid wait r =
     (case abort_reserved rid r of
        (Inl e, r') \<Rightarrow> raises e r'
      | (Inr (armed, n), r') \<Rightarrow>
          if \<not> wait then
            (case query_fences q armed of
               Inl e \<Rightarrow> raises e (fence_failed ''fence_query_failed'' e r')
             | Inr dn \<Rightarrow>
                 (case release_each dn n r' of
                    (Inl e, r'') \<Rightarrow> raises e r''
                  | (Inr m, r'') \<Rightarrow>
                      returns m (count ''deferred_abort_leases''
                        (int (length armed) - int (length dn)) r'')))
          else
            (case synchronize_fences sync armed of
               Inl e \<Rightarrow> raises e (fence_failed ''fence_synchronize_failed'' e r')
             | Inr _ \<Rightarrow>
                 (case release_each (map lease_id armed) n r' of
                    (Inl e, r'') \<Rightarrow> raises e r''
                  | (Inr m, r'') \<Rightarrow> returns m (count ''aborted_leases'' m r''))))"

fun abort_each ::
    "('f \<Rightarrow> bool) \<Rightarrow> string list \<Rightarrow> int \<Rightarrow> 'f registry \<Rightarrow> (int, 'f registry) outcome" where
  "abort_each sync [] n r = returns n r"
| "abort_each sync (rid # rids) n r =
     (case abort_request (\<lambda>_. Fence_pending) sync rid True r of
        (Inl e, r') \<Rightarrow> raises e r'
      | (Inr m, r') \<Rightarrow> abort_each sync rids (n + m) r')"

definition abort_all :: "('f \<Rightarrow> bool) \<Rightarrow> 'f registry \<Rightarrow> (int, 'f registry) outcome" where
  "abort_all sync r = abort_each sync (dkeys (by_request r)) 0 r"

definition has_pending :: "string option \<Rightarrow> 'f registry \<Rightarrow> bool" where
  "has_pending rid r =
     (case rid of None \<Rightarrow> leases r \<noteq> [] | Some q \<Rightarrow> ids_of r q \<noteq> [])"

definition active_leases_for :: "string \<Rightarrow> 'f registry \<Rightarrow> exn + int" where
  "active_leases_for rid r =
     (if rid = '''' then Inl (ValueError ''request_id must be nonempty'')
      else Inr (int (length (ids_of r rid))))"

section \<open>Well-formed registries\<close>

definition leases_ok :: "'f registry \<Rightarrow> bool" where
  "leases_ok r \<longleftrightarrow> dict_ok (leases r) \<and>
     (\<forall>i l. dget (leases r) i = Some l \<longrightarrow>
        lease_id l = i \<and> i < next_id r \<and> lease_request l \<noteq> '''' \<and> lease_blocks l \<noteq> [] \<and>
        distinct (lease_blocks l) \<and> l_state l \<noteq> SUBMITTING \<and>
        (l_state l = ARMED \<longrightarrow> l_fence l \<noteq> None))"

definition owners_ok :: "'f registry \<Rightarrow> bool" where
  "owners_ok r \<longleftrightarrow> dict_ok (block_owner r) \<and>
     (\<forall>b i. dget (block_owner r) b = Some i \<longleftrightarrow>
        (\<exists>l. dget (leases r) i = Some l \<and> b \<in> set (lease_blocks l)))"

definition requests_ok :: "'f registry \<Rightarrow> bool" where
  "requests_ok r \<longleftrightarrow> dict_ok (by_request r) \<and>
     (\<forall>rid. dget (by_request r) rid \<noteq> Some []) \<and>
     (\<forall>rid. distinct (ids_of r rid)) \<and>
     (\<forall>rid i. i \<in> set (ids_of r rid) \<longleftrightarrow>
        (\<exists>l. dget (leases r) i = Some l \<and> lease_request l = rid))"

definition bounds_ok :: "'f registry \<Rightarrow> bool" where
  "bounds_ok r \<longleftrightarrow>
     int (length (leases r)) \<le> max_active_leases (capacity r) \<and>
     int (length (block_owner r)) \<le> max_leased_blocks (capacity r)"

definition registry_ok :: "'f registry \<Rightarrow> bool" where
  "registry_ok r \<longleftrightarrow> leases_ok r \<and> owners_ok r \<and> requests_ok r \<and> bounds_ok r"

lemmas registry_ok_defs = registry_ok_def leases_ok_def owners_ok_def requests_ok_def bounds_ok_def

lemma registry_ok_count [simp]: "registry_ok (r\<lparr>r_counters := c\<rparr>) = registry_ok r"
  by (simp add: registry_ok_defs ids_of_def)

lemma new_registry_ok: "LeaseCapacity a b = Inr c \<Longrightarrow> registry_ok (new_registry c)"
  by (auto simp: LeaseCapacity_def new_registry_def registry_ok_defs ids_of_def split: if_splits)

lemma lease_facts:
  assumes "registry_ok r" "dget (leases r) i = Some l"
  shows "lease_id l = i" "i < next_id r" "distinct (lease_blocks l)" "lease_blocks l \<noteq> []"
    "lease_request l \<noteq> ''''" "l_state l = ARMED \<Longrightarrow> l_fence l \<noteq> None" "l_state l \<noteq> SUBMITTING"
    "i \<in> set (ids_of r (lease_request l))"
  using assms by (auto simp: registry_ok_defs)

lemma owner_iff:
  assumes "registry_ok r"
  shows "dget (block_owner r) b = Some i \<longleftrightarrow>
    (\<exists>l. dget (leases r) i = Some l \<and> b \<in> set (lease_blocks l))"
  using assms by (simp add: registry_ok_defs)

subsection \<open>Release\<close>

lemma release_blocks_owned:
  assumes "distinct bs" "\<forall>b\<in>set bs. dget (block_owner r) b = Some i"
  shows "release_blocks i bs r = returns () (r\<lparr>block_owner := fold ddel bs (block_owner r)\<rparr>)"
  using assms
proof (induction bs arbitrary: r)
  case (Cons b bs)
  then have "\<forall>c\<in>set bs. dget (block_owner (r\<lparr>block_owner := ddel b (block_owner r)\<rparr>)) c = Some i"
    by auto
  from Cons.IH [OF _ this] Cons.prems show ?case by (simp add: Let_def)
qed simp

definition released :: "'f lease \<Rightarrow> 'f registry \<Rightarrow> 'f registry" where
  "released l r =
     (let ids' = removeAll (lease_id l) (ids_of r (lease_request l))
      in r\<lparr>leases := ddel (lease_id l) (leases r),
           by_request := (if ids' = [] then ddel (lease_request l) (by_request r)
                          else dput (lease_request l) ids' (by_request r)),
           block_owner := fold ddel (lease_blocks l) (block_owner r)\<rparr>)"

lemma release_locked_eq:
  assumes ok: "registry_ok r" and l: "dget (leases r) i = Some l"
  shows "release_locked l r = returns () (released l r)"
proof -
  note f = lease_facts [OF ok l]
  have "\<forall>b\<in>set (lease_blocks l). dget (block_owner r) b = Some i"
    using l by (auto simp: owner_iff [OF ok])
  then show ?thesis
    using f l by (simp add: release_locked_def released_def Let_def release_blocks_owned)
qed

lemma ids_of_released:
  "ids_of (released l r) rid =
    (if rid = lease_request l then removeAll (lease_id l) (ids_of r rid) else ids_of r rid)"
  by (auto simp: released_def ids_of_def Let_def)

lemma released_simps [simp]:
  "leases (released l r) = ddel (lease_id l) (leases r)"
  "block_owner (released l r) = fold ddel (lease_blocks l) (block_owner r)"
  "capacity (released l r) = capacity r"
  "next_id (released l r) = next_id r"
  "r_counters (released l r) = r_counters r"
  by (simp_all add: released_def Let_def)

lemma released_ok:
  assumes ok: "registry_ok r" and l: "dget (leases r) i = Some l"
  shows "registry_ok (released l r)"
proof -
  note f = lease_facts [OF ok l]
  have "leases_ok (released l r)"
    using ok by (auto simp: registry_ok_defs)
  moreover have "owners_ok (released l r)"
  proof -
    have "dget (block_owner (released l r)) b = Some j \<longleftrightarrow>
        (\<exists>k. dget (leases (released l r)) j = Some k \<and> b \<in> set (lease_blocks k))" for b j
      using l f(1) owner_iff [OF ok, of b j] owner_iff [OF ok, of b i]
      by (auto simp: dget_fold_ddel)
    then show ?thesis
      using ok by (simp add: owners_ok_def registry_ok_def dict_ok_fold_ddel)
  qed
  moreover have "requests_ok (released l r)"
  proof -
    have "dict_ok (by_request (released l r))"
      using ok by (auto simp: released_def Let_def registry_ok_defs)
    moreover have "dget (by_request (released l r)) rid \<noteq> Some []" for rid
      using ok by (auto simp: released_def Let_def registry_ok_defs)
    moreover have "distinct (ids_of (released l r) rid)" for rid
      using ok by (simp add: ids_of_released registry_ok_defs distinct_removeAll)
    moreover have "j \<in> set (ids_of (released l r) rid) \<longleftrightarrow>
        (\<exists>k. dget (leases (released l r)) j = Some k \<and> lease_request k = rid)" for rid j
      using ok l f(1) by (auto simp: ids_of_released registry_ok_defs)
    ultimately show ?thesis by (simp add: requests_ok_def)
  qed
  moreover have "bounds_ok (released l r)"
    using ok length_ddel_le [of "lease_id l" "leases r"]
      length_fold_ddel_le [of "lease_blocks l" "block_owner r"]
    by (simp add: bounds_ok_def registry_ok_def)
  ultimately show ?thesis by (simp add: registry_ok_def)
qed

text \<open>Releasing a list of leases never hits the corruption checks and frees exactly the leases
  of the list that are still present.\<close>

lemma release_each_ok:
  assumes "registry_ok r"
  shows "\<exists>m r'. release_each is n r = (Inr m, r') \<and> registry_ok r' \<and>
    (\<forall>j. dget (leases r') j = (if j \<in> set is then None else dget (leases r) j)) \<and>
    next_id r' = next_id r \<and> capacity r' = capacity r"
  using assms
proof (induction "is" arbitrary: n r)
  case Nil
  then show ?case by simp
next
  case (Cons i "is")
  show ?case
  proof (cases "dget (leases r) i")
    case None
    with Cons.IH [OF Cons.prems, of n] show ?thesis by (fastforce split: if_splits)
  next
    case (Some l)
    note f = lease_facts(1) [OF Cons.prems Some]
    from Cons.IH [OF released_ok [OF Cons.prems Some], of "n + 1"] obtain m r' where
      "release_each is (n + 1) (released l r) = (Inr m, r')" "registry_ok r'"
      "\<forall>j. dget (leases r') j = (if j \<in> set is then None else dget (leases (released l r)) j)"
      "next_id r' = next_id r" "capacity r' = capacity r" by auto
    with Some f show ?thesis
      by (auto simp: release_locked_eq [OF Cons.prems Some])
  qed
qed

subsection \<open>Admission, submission, cancellation\<close>

text \<open>The state a successful reservation leaves behind, before the counters.\<close>

definition reserved_state :: "string \<Rightarrow> int list \<Rightarrow> 'f registry \<Rightarrow> 'f registry" where
  "reserved_state rid blocks r =
     r\<lparr>next_id := next_id r + 1,
       leases := dput (next_id r) \<lparr>lease_id = next_id r, lease_request = rid,
         lease_blocks = blocks, l_state = RESERVED, l_fence = None\<rparr> (leases r),
       by_request := dput rid (set_add (next_id r) (ids_of r rid)) (by_request r),
       block_owner := fold (\<lambda>b. dput b (next_id r)) blocks (block_owner r)\<rparr>"

definition admissible :: "int list \<Rightarrow> 'f registry \<Rightarrow> bool" where
  "admissible blocks r \<longleftrightarrow>
     int (length (leases r)) < max_active_leases (capacity r) \<and>
     int (length (block_owner r)) + int (length blocks) \<le> max_leased_blocks (capacity r) \<and>
     (\<forall>b\<in>set blocks. dget (block_owner r) b = None)"

lemma try_reserve_admitted:
  assumes "rid \<noteq> ''''" "blocks \<noteq> []" "distinct blocks" "\<forall>b\<in>set blocks. 0 \<le> b" "admissible blocks r"
  shows "try_reserve rid blocks r =
    returns (Some (next_id r)) (count ''reserved'' 1 (reserved_state rid blocks r))"
  using assms by (auto simp: try_reserve_def reserved_state_def admissible_def Let_def)

text \<open>Every other outcome leaves everything but the counters alone.\<close>

lemma try_reserve_cases:
  obtains (admitted) "rid \<noteq> ''''" "blocks \<noteq> []" "distinct blocks" "\<forall>b\<in>set blocks. 0 \<le> b"
      "admissible blocks r"
      "try_reserve rid blocks r =
         returns (Some (next_id r)) (count ''reserved'' 1 (reserved_state rid blocks r))"
  | (other) res c where "try_reserve rid blocks r = (res, r\<lparr>r_counters := c\<rparr>)"
      "res = Inr None \<or> (\<exists>m. res = Inl (ValueError m))"
proof (cases "rid \<noteq> '''' \<and> blocks \<noteq> [] \<and> distinct blocks \<and> (\<forall>b\<in>set blocks. 0 \<le> b) \<and>
    admissible blocks r")
  case True
  then show ?thesis using admitted try_reserve_admitted by blast
next
  case False
  have self: "\<exists>c. r = r\<lparr>r_counters := c\<rparr>" "\<exists>c. count k n r = r\<lparr>r_counters := c\<rparr>" for k n
    by (rule exI [of _ "r_counters r"], simp) blast
  have "(\<exists>c. snd (try_reserve rid blocks r) = r\<lparr>r_counters := c\<rparr>) \<and>
      (fst (try_reserve rid blocks r) = Inr None \<or>
       (\<exists>m. fst (try_reserve rid blocks r) = Inl (ValueError m)))"
    using False self by (auto simp: try_reserve_def admissible_def not_less not_le)
  then show ?thesis using other by (metis prod.collapse)
qed

lemma reserved_state_simps [simp]:
  "next_id (reserved_state rid blocks r) = next_id r + 1"
  "leases (reserved_state rid blocks r) = dput (next_id r) \<lparr>lease_id = next_id r,
     lease_request = rid, lease_blocks = blocks, l_state = RESERVED, l_fence = None\<rparr> (leases r)"
  "by_request (reserved_state rid blocks r) =
     dput rid (set_add (next_id r) (ids_of r rid)) (by_request r)"
  "block_owner (reserved_state rid blocks r) =
     fold (\<lambda>b. dput b (next_id r)) blocks (block_owner r)"
  "capacity (reserved_state rid blocks r) = capacity r"
  by (simp_all add: reserved_state_def)

lemma ids_of_reserved:
  "ids_of (reserved_state rid blocks r) q =
    (if q = rid then set_add (next_id r) (ids_of r rid) else ids_of r q)"
  by (simp add: ids_of_def)

lemma fresh_id: "registry_ok r \<Longrightarrow> dget (leases r) (next_id r) = None"
  by (metis lease_facts(2) not_None_eq order_less_irrefl)

lemma reserved_ok:
  assumes ok: "registry_ok r" and args: "rid \<noteq> ''''" "blocks \<noteq> []" "distinct blocks"
    and adm: "admissible blocks r"
  shows "registry_ok (reserved_state rid blocks r)"
proof -
  let ?r = "reserved_state rid blocks r" and ?n = "next_id r"
  note new = fresh_id [OF ok]
  have free: "\<forall>b\<in>set blocks. dget (block_owner r) b = None"
    using adm by (simp add: admissible_def)
  have "leases_ok ?r"
  proof -
    have "\<forall>i l. dget (leases r) i = Some l \<longrightarrow> i < ?n + 1"
      using lease_facts(2) [OF ok] by fastforce
    then show ?thesis
      using ok args by (simp add: leases_ok_def registry_ok_def)
  qed
  moreover have "owners_ok ?r"
  proof -
    have "dget (block_owner ?r) b = Some i \<longleftrightarrow>
        (\<exists>l. dget (leases ?r) i = Some l \<and> b \<in> set (lease_blocks l))" for b i
      using free new owner_iff [OF ok, of b i] by (auto simp: dget_fold_dput)
    then show ?thesis
      using ok by (simp add: owners_ok_def registry_ok_def dict_ok_fold_dput)
  qed
  moreover have "requests_ok ?r"
  proof -
    have "j \<in> set (ids_of ?r q) \<longleftrightarrow> (\<exists>k. dget (leases ?r) j = Some k \<and> lease_request k = q)" for q j
      using ok new by (auto simp: ids_of_reserved registry_ok_defs)
    moreover have "dict_ok (by_request ?r) \<and> (\<forall>q. dget (by_request ?r) q \<noteq> Some [])"
      using ok by (auto simp: registry_ok_defs)
    ultimately show ?thesis
      using ok by (simp add: requests_ok_def ids_of_reserved registry_ok_def)
  qed
  moreover have "bounds_ok ?r"
    using adm new free args(3)
    by (simp add: bounds_ok_def admissible_def length_fold_dput)
  ultimately show ?thesis by (simp add: registry_ok_def)
qed

lemma try_reserve_ok: "registry_ok r \<Longrightarrow> registry_ok (snd (try_reserve rid blocks r))"
  by (cases rid blocks r rule: try_reserve_cases) (auto simp: reserved_ok)

text \<open>Submission rewrites one lease without touching its identity or its blocks.\<close>

lemma put_lease_ok:
  assumes ok: "registry_ok r" and l: "dget (leases r) i = Some l"
    and same: "lease_id k = i" "lease_request k = lease_request l" "lease_blocks k = lease_blocks l"
    and st: "l_state k \<noteq> SUBMITTING" "l_state k = ARMED \<Longrightarrow> l_fence k \<noteq> None"
  shows "registry_ok (put_lease i k r)"
proof -
  note f = lease_facts [OF ok l]
  have eq: "(\<exists>m. ((map_of (leases r))(i \<mapsto> k)) j = Some m \<and> P m) =
      (\<exists>m. dget (leases r) j = Some m \<and> P m)" if "P k = P l" for j P
    using l that by auto
  have "leases_ok (put_lease i k r)"
    using ok f same st by (auto simp: leases_ok_def registry_ok_def)
  moreover have "owners_ok (put_lease i k r)"
    using ok same l by (auto simp: owners_ok_def registry_ok_def eq)
  moreover have "requests_ok (put_lease i k r)"
    using ok same l by (auto simp: requests_ok_def registry_ok_def ids_of_def eq)
  moreover have "bounds_ok (put_lease i k r)"
    using ok l by (simp add: bounds_ok_def registry_ok_def)
  ultimately show ?thesis by (simp add: registry_ok_def)
qed

lemma submit_cases:
  obtains (same) e where "submit i sub r = raises e r"
  | (moved) l k res c where "dget (leases r) i = Some l" "l_state l = RESERVED"
      "submit i sub r = (res, (put_lease i k r)\<lparr>r_counters := c\<rparr>)"
      "lease_id k = lease_id l" "lease_request k = lease_request l" "lease_blocks k = lease_blocks l"
      "(\<exists>f. sub = Fence f \<and> l_state k = ARMED \<and> l_fence k = Some f \<and> res = Inr ()) \<or>
       (l_state k = SUBMISSION_UNKNOWN \<and> (\<exists>m. res = Inl (LeaseFenceError m)))"
proof -
  have upd: "dput i b (dput i a d) = dput i b d" for a b :: "'a lease" and d
    by (induction d) auto
  show ?thesis
  proof (cases "dget (leases r) i")
    case None
    then show ?thesis using same by (cases sub) (auto simp: submit_def)
  next
    case (Some l)
    show ?thesis
    proof (cases "l_state l = RESERVED \<and> sub \<noteq> Not_callable")
      case False
      with Some show ?thesis using same by (cases sub) (auto simp: submit_def)
    next
      case True
      show ?thesis
      proof (cases sub)
        case (Fence f)
        with Some True show ?thesis
          by (intro moved [where l = l and k = "l\<lparr>l_fence := Some f, l_state := ARMED\<rparr>" and res = "Inr ()"
                 and c = "bump ''armed'' 1 (bump ''submitting'' 1 (r_counters r))"])
             (auto simp: submit_def Let_def upd)
      qed (use Some True in \<open>auto simp: submit_def Let_def upd
            intro!: moved [where l = l and k = "l\<lparr>l_state := SUBMISSION_UNKNOWN\<rparr>"
              and res = "Inl (LeaseFenceError ''submission status unknown for lease'')"
              and c = "bump ''submission_unknown'' 1 (bump ''submitting'' 1 (r_counters r))"]\<close>)
    qed
  qed
qed

lemma submit_ok: "registry_ok r \<Longrightarrow> registry_ok (snd (submit i sub r))"
  by (cases i sub r rule: submit_cases) (auto intro!: put_lease_ok simp: lease_facts(1))

lemma cancel_before_submit_eq:
  assumes "registry_ok r"
  shows "cancel_before_submit i r =
    (case dget (leases r) i of
       None \<Rightarrow> raises (LeaseStateError ''lease is no longer active'') r
     | Some l \<Rightarrow>
         if l_state l \<noteq> RESERVED
         then raises (LeaseStateError ''a submitted lease must be drained, never cancelled'') r
         else returns () (count ''cancelled_before_submit'' 1 (released l r)))"
  using assms by (auto simp: cancel_before_submit_def release_locked_eq split: option.split)

lemma cancel_ok: "registry_ok r \<Longrightarrow> registry_ok (snd (cancel_before_submit i r))"
  by (auto simp: cancel_before_submit_eq released_ok split: option.split)

section \<open>Threads interleaved at the lock\<close>

text \<open>
  A call of \<open>poll\<close> or \<open>abort_request\<close> releases the lock twice: after it has collected the leases to
  look at, and after it has queried or synchronised their fences. A thread that is suspended there is
  a \<open>call\<close>, with what the call holds in its local variables.
\<close>

datatype 'f call =
    Polling "'f lease list"                 \<comment> \<open>\<open>armed\<close> collected\<close>
  | Polled "int list"                       \<comment> \<open>\<open>completed\<close> known\<close>
  | Aborting bool "'f lease list" int       \<comment> \<open>\<open>wait\<close>, \<open>armed\<close>, \<open>released\<close>\<close>
  | Abort_queried "int list" int int        \<comment> \<open>\<open>done\<close>, \<open>pending\<close>, \<open>released\<close>\<close>
  | Abort_synchronized "int list" int       \<comment> \<open>\<open>armed\<close>, \<open>released\<close>\<close>

text \<open>The unlocked middle of a call, with the answers the fences give.\<close>

fun ask_fences ::
    "('f \<Rightarrow> fence_status) \<Rightarrow> ('f \<Rightarrow> bool) \<Rightarrow> 'f call \<Rightarrow> 'f registry \<Rightarrow> ('f call, 'f registry) outcome" where
  "ask_fences q sync (Polling ls) r =
     (case query_fences q ls of
        Inl e \<Rightarrow> raises e (fence_failed ''fence_query_failed'' e r)
      | Inr completed \<Rightarrow> returns (Polled completed) r)"
| "ask_fences q sync (Aborting wait ls n) r =
     (if \<not> wait then
        (case query_fences q ls of
           Inl e \<Rightarrow> raises e (fence_failed ''fence_query_failed'' e r)
         | Inr dn \<Rightarrow> returns (Abort_queried dn (int (length ls) - int (length dn)) n) r)
      else
        (case synchronize_fences sync ls of
           Inl e \<Rightarrow> raises e (fence_failed ''fence_synchronize_failed'' e r)
         | Inr _ \<Rightarrow> returns (Abort_synchronized (map lease_id ls) n) r))"
| "ask_fences q sync c r = returns c r"

text \<open>The locked end of a call.\<close>

fun finish_call :: "'f call \<Rightarrow> 'f registry \<Rightarrow> (int, 'f registry) outcome" where
  "finish_call (Polled completed) r =
     (case release_each completed 0 r of
        (Inl e, r') \<Rightarrow> raises e r'
      | (Inr n, r') \<Rightarrow> returns n (count ''completed'' n r'))"
| "finish_call (Abort_queried dn pending n) r =
     (case release_each dn n r of
        (Inl e, r') \<Rightarrow> raises e r'
      | (Inr m, r') \<Rightarrow> returns m (count ''deferred_abort_leases'' pending r'))"
| "finish_call (Abort_synchronized armed n) r =
     (case release_each armed n r of
        (Inl e, r') \<Rightarrow> raises e r'
      | (Inr m, r') \<Rightarrow> returns m (count ''aborted_leases'' m r'))"
| "finish_call c r = returns 0 r"

text \<open>A call that no other thread comes between is the whole method.\<close>

definition run_call ::
    "('f \<Rightarrow> fence_status) \<Rightarrow> ('f \<Rightarrow> bool) \<Rightarrow> 'f call \<Rightarrow> 'f registry \<Rightarrow> (int, 'f registry) outcome" where
  "run_call q sync c r =
     (case ask_fences q sync c r of (Inl e, r') \<Rightarrow> raises e r' | (Inr c', r') \<Rightarrow> finish_call c' r')"

lemma poll_run: "poll q r = run_call q sync (Polling (armed_leases (dvals (leases r)))) r"
  by (simp add: poll_def run_call_def split: sum.split)

lemma abort_request_run:
  "abort_request q sync rid wait r =
     (case abort_reserved rid r of
        (Inl e, r') \<Rightarrow> raises e r'
      | (Inr (armed, n), r') \<Rightarrow> run_call q sync (Aborting wait armed n) r')"
  by (simp add: abort_request_def run_call_def split: sum.split prod.split)

text \<open>
  Threads run the methods whole or stop at the gaps. \<open>finished\<close> is the set of fences whose GPU read
  is over; \<open>query()\<close> answers true, and \<open>synchronize()\<close> returns, only for such a fence.
\<close>

record 'f world =
  reg :: "'f registry"
  finished :: "'f set"
  threads :: "nat \<Rightarrow> 'f call option"

definition truthful :: "('f \<Rightarrow> fence_status) \<Rightarrow> ('f \<Rightarrow> bool) \<Rightarrow> 'f set \<Rightarrow> bool" where
  "truthful q sync F \<longleftrightarrow> (\<forall>f. q f = Fence_done \<longrightarrow> f \<in> F) \<and> (\<forall>f. sync f \<longrightarrow> f \<in> F)"

abbreviation suspend :: "nat \<Rightarrow> 'f call option \<Rightarrow> 'f world \<Rightarrow> 'f world" where
  "suspend t c w \<equiv> w\<lparr>threads := (threads w)(t := c)\<rparr>"

inductive lease_step :: "'f world \<Rightarrow> 'f world \<Rightarrow> bool" where
  step_reserve: "lease_step w (w\<lparr>reg := snd (try_reserve rid blocks (reg w))\<rparr>)"
| step_submit: "lease_step w (w\<lparr>reg := snd (submit i sub (reg w))\<rparr>)"
| step_cancel: "lease_step w (w\<lparr>reg := snd (cancel_before_submit i (reg w))\<rparr>)"
| step_read_done: "lease_step w (w\<lparr>finished := insert f (finished w)\<rparr>)"
| step_poll: "truthful q sync (finished w) \<Longrightarrow> lease_step w (w\<lparr>reg := snd (poll q (reg w))\<rparr>)"
| step_take_finished: "truthful q sync (finished w) \<Longrightarrow>
    lease_step w (w\<lparr>reg := snd (take_finished q ids (reg w))\<rparr>)"
| step_abort_request: "truthful q sync (finished w) \<Longrightarrow>
    lease_step w (w\<lparr>reg := snd (abort_request q sync rid wait (reg w))\<rparr>)"
| step_abort_all: "truthful q sync (finished w) \<Longrightarrow>
    lease_step w (w\<lparr>reg := snd (abort_all sync (reg w))\<rparr>)"
| step_poll_begin: "threads w t = None \<Longrightarrow>
    lease_step w (suspend t (Some (Polling (armed_leases (dvals (leases (reg w)))))) w)"
| step_abort_begin: "threads w t = None \<Longrightarrow> abort_reserved rid (reg w) = (Inr (armed, n), r) \<Longrightarrow>
    lease_step w (suspend t (Some (Aborting wait armed n)) (w\<lparr>reg := r\<rparr>))"
| step_abort_refused: "abort_reserved rid (reg w) = (Inl e, r) \<Longrightarrow> lease_step w (w\<lparr>reg := r\<rparr>)"
| step_fences: "threads w t = Some c \<Longrightarrow> truthful q sync (finished w) \<Longrightarrow>
    ask_fences q sync c (reg w) = (Inr c', r) \<Longrightarrow> lease_step w (suspend t (Some c') (w\<lparr>reg := r\<rparr>))"
| step_fences_failed: "threads w t = Some c \<Longrightarrow> ask_fences q sync c (reg w) = (Inl e, r) \<Longrightarrow>
    lease_step w (suspend t None (w\<lparr>reg := r\<rparr>))"
| step_finish: "threads w t = Some c \<Longrightarrow>
    lease_step w (suspend t None (w\<lparr>reg := snd (finish_call c (reg w))\<rparr>))"

inductive_cases lease_stepE: "lease_step w v"

definition initial_world :: "'f world \<Rightarrow> bool" where
  "initial_world w \<longleftrightarrow> (\<exists>a b c. LeaseCapacity a b = Inr c \<and> reg w = new_registry c) \<and>
     threads w = (\<lambda>_. None)"

text \<open>A suspended call holds leases it saw armed, which are armed still if they are there at all, or
  identifiers of leases whose fence it saw complete.\<close>

definition seen_armed :: "'f lease list \<Rightarrow> 'f registry \<Rightarrow> bool" where
  "seen_armed ls r \<longleftrightarrow> (\<forall>l\<in>set ls. lease_id l < next_id r \<and> l_state l = ARMED \<and>
     (\<forall>k. dget (leases r) (lease_id l) = Some k \<longrightarrow> k = l))"

definition seen_done :: "'f set \<Rightarrow> int list \<Rightarrow> 'f registry \<Rightarrow> bool" where
  "seen_done F is r \<longleftrightarrow> (\<forall>i\<in>set is. i < next_id r \<and> (\<forall>l. dget (leases r) i = Some l \<longrightarrow>
     l_state l = ARMED \<and> (\<exists>f\<in>F. l_fence l = Some f)))"

fun call_ok :: "'f set \<Rightarrow> 'f registry \<Rightarrow> 'f call \<Rightarrow> bool" where
  "call_ok F r (Polling ls) = seen_armed ls r"
| "call_ok F r (Polled is) = seen_done F is r"
| "call_ok F r (Aborting wait ls n) = seen_armed ls r"
| "call_ok F r (Abort_queried is m n) = seen_done F is r"
| "call_ok F r (Abort_synchronized is n) = seen_done F is r"

definition world_ok :: "'f world \<Rightarrow> bool" where
  "world_ok w \<longleftrightarrow> registry_ok (reg w) \<and>
     (\<forall>t c. threads w t = Some c \<longrightarrow> call_ok (finished w) (reg w) c)"

text \<open>What a registry operation may do to the leases that exist: nothing but a release or, for a
  reserved lease, a submission; identifiers are never used again.\<close>

definition evolves :: "'f registry \<Rightarrow> 'f registry \<Rightarrow> bool" where
  "evolves r r' \<longleftrightarrow> next_id r \<le> next_id r' \<and>
     (\<forall>i l'. i < next_id r \<longrightarrow> dget (leases r') i = Some l' \<longrightarrow>
        (\<exists>l. dget (leases r) i = Some l \<and> (l_state l \<noteq> RESERVED \<longrightarrow> l' = l)))"

lemma evolves_reserve: "registry_ok r \<Longrightarrow> evolves r (snd (try_reserve rid blocks r))"
  by (cases rid blocks r rule: try_reserve_cases) (auto simp: evolves_def)

lemma evolves_submit: "registry_ok r \<Longrightarrow> evolves r (snd (submit i sub r))"
  by (cases i sub r rule: submit_cases) (auto simp: evolves_def split: if_splits)

lemma evolves_cancel: "registry_ok r \<Longrightarrow> evolves r (snd (cancel_before_submit i r))"
  by (auto simp: cancel_before_submit_eq evolves_def lease_facts(1) split: option.split if_splits)

lemma release_each_evolves:
  "registry_ok r \<Longrightarrow>
    registry_ok (snd (release_each is n r)) \<and> evolves r (snd (release_each is n r))"
proof -
  assume "registry_ok r"
  then obtain m r' where rel: "release_each is n r = (Inr m, r')" "registry_ok r'"
      "\<And>j. dget (leases r') j = (if j \<in> set is then None else dget (leases r) j)"
      "next_id r' = next_id r"
    using release_each_ok [of r "is" n] by blast
  have "dget (leases r) i = Some l'" if "dget (leases r') i = Some l'" for i l'
    using that rel(3) [of i] by (simp split: if_splits)
  then show ?thesis using rel by (auto simp: evolves_def)
qed

text \<open>The leases a request owns, as \<open>abort_request\<close> reads them.\<close>

lemma owned_leases_eq:
  "\<forall>i\<in>set is. dget d i \<noteq> None \<Longrightarrow> owned_leases d is = Some (map (\<lambda>i. the (dget d i)) is)"
  by (induction "is") auto

definition leases_of :: "'f registry \<Rightarrow> string \<Rightarrow> 'f lease list" where
  "leases_of r rid = map (\<lambda>i. the (dget (leases r) i)) (ids_of r rid)"

lemma owned_leases_of:
  assumes "registry_ok r"
  shows "owned_leases (leases r) (ids_of r rid) = Some (leases_of r rid)"
    and "l \<in> set (leases_of r rid) \<longleftrightarrow>
      (\<exists>i. dget (leases r) i = Some l \<and> lease_request l = rid)"
proof -
  have own: "i \<in> set (ids_of r rid) \<longleftrightarrow>
      (\<exists>l. dget (leases r) i = Some l \<and> lease_request l = rid)" for i
    using assms by (simp add: registry_ok_defs)
  then show "owned_leases (leases r) (ids_of r rid) = Some (leases_of r rid)"
    unfolding leases_of_def by (intro owned_leases_eq) auto
  show "l \<in> set (leases_of r rid) \<longleftrightarrow>
      (\<exists>i. dget (leases r) i = Some l \<and> lease_request l = rid)"
    by (auto simp: leases_of_def own image_iff Bex_def)
qed

text \<open>Phase one of an abort: the reserved leases of the request go, nothing else changes, and an
  unknown submission stops the abort.\<close>

lemma abort_reserved_ok:
  assumes ok: "registry_ok r"
  shows "\<exists>n r' c. registry_ok r' \<and> next_id r' = next_id r \<and>
    (\<forall>j. dget (leases r') j =
       (case dget (leases r) j of
          None \<Rightarrow> None
        | Some l \<Rightarrow> if lease_request l = rid \<and> l_state l = RESERVED then None else Some l)) \<and>
    abort_reserved rid r =
      (if \<exists>j l. dget (leases r) j = Some l \<and> lease_request l = rid \<and> l_state l = SUBMISSION_UNKNOWN
       then raises (LeaseFenceError ''cannot safely abort lease(s) with unknown submission state'')
              (r'\<lparr>r_counters := c\<rparr>)
       else returns (armed_leases (leases_of r rid), n) r')"
proof -
  let ?ls = "leases_of r rid"
  let ?res = "filter (\<lambda>l. l_state l = RESERVED) ?ls"
  let ?unk = "filter (\<lambda>l. l_state l = SUBMISSION_UNKNOWN) ?ls"
  note own = owned_leases_of [OF ok]
  obtain n r' where rel: "release_each (map lease_id ?res) 0 r = (Inr n, r')" "registry_ok r'"
      "\<forall>j. dget (leases r') j =
         (if j \<in> set (map lease_id ?res) then None else dget (leases r) j)"
      "next_id r' = next_id r"
    using release_each_ok [OF ok, of "map lease_id ?res" 0] by blast
  have mem: "j \<in> set (map lease_id ?res) \<longleftrightarrow>
      (\<exists>l. dget (leases r) j = Some l \<and> lease_request l = rid \<and> l_state l = RESERVED)" for j
    using own(2) [of _ rid] lease_facts(1) [OF ok] by (auto simp: image_iff)
  have get: "dget (leases r') j =
       (case dget (leases r) j of
          None \<Rightarrow> None
        | Some l \<Rightarrow> if lease_request l = rid \<and> l_state l = RESERVED then None else Some l)" for j
    using rel(3) mem [of j] by (auto split: option.split)
  have unk: "?unk \<noteq> [] \<longleftrightarrow>
      (\<exists>j l. dget (leases r) j = Some l \<and> lease_request l = rid \<and> l_state l = SUBMISSION_UNKNOWN)"
    unfolding filter_empty_conv using own(2) [of _ rid] by metis
  show ?thesis
    by (rule exI [of _ n], rule exI [of _ r'],
        rule exI [of _ "bump ''submission_unknown_abort'' (int (length ?unk)) (r_counters r')"])
       (simp add: abort_reserved_def own(1) rel(1,2,4) get unk [symmetric] Let_def)
qed

lemma abort_reserved_evolves:
  assumes "registry_ok r"
  shows "registry_ok (snd (abort_reserved rid r)) \<and> evolves r (snd (abort_reserved rid r))"
proof -
  obtain n r' c where ok: "registry_ok r'" and id: "next_id r' = next_id r"
    and get: "\<And>j. dget (leases r') j = (case dget (leases r) j of None \<Rightarrow> None
        | Some l \<Rightarrow> if lease_request l = rid \<and> l_state l = RESERVED then None else Some l)"
    and eq: "abort_reserved rid r =
      (if \<exists>j l. dget (leases r) j = Some l \<and> lease_request l = rid \<and> l_state l = SUBMISSION_UNKNOWN
       then raises (LeaseFenceError ''cannot safely abort lease(s) with unknown submission state'')
              (r'\<lparr>r_counters := c\<rparr>)
       else returns (armed_leases (leases_of r rid), n) r')"
    using abort_reserved_ok [OF assms, of rid] by blast
  have res: "snd (abort_reserved rid r) = r'\<lparr>r_counters := c\<rparr> \<or> snd (abort_reserved rid r) = r'"
    unfolding eq by simp
  have "\<exists>l. dget (leases r) i = Some l \<and> (l_state l \<noteq> RESERVED \<longrightarrow> l' = l)"
    if "dget (leases r') i = Some l'" for i l'
    using that get [of i] by (auto split: option.splits if_splits)
  then have "evolves r r'" by (simp add: evolves_def id)
  then show ?thesis using ok res by (auto simp: evolves_def)
qed

text \<open>Every operation but a release keeps the leases that have left the reserved state.\<close>

definition keeps :: "'f registry \<Rightarrow> 'f registry \<Rightarrow> bool" where
  "keeps r r' \<longleftrightarrow> (\<forall>i l. dget (leases r) i = Some l \<longrightarrow> l_state l \<noteq> RESERVED \<longrightarrow>
     dget (leases r') i = Some l)"

lemma keeps_reserve: "registry_ok r \<Longrightarrow> keeps r (snd (try_reserve rid blocks r))"
  by (cases rid blocks r rule: try_reserve_cases) (auto simp: keeps_def fresh_id)

lemma keeps_submit: "registry_ok r \<Longrightarrow> keeps r (snd (submit i sub r))"
  by (cases i sub r rule: submit_cases) (auto simp: keeps_def)

lemma keeps_cancel: "registry_ok r \<Longrightarrow> keeps r (snd (cancel_before_submit i r))"
  by (auto simp: cancel_before_submit_eq keeps_def lease_facts(1) split: option.split)

lemma keeps_abort_reserved:
  assumes "registry_ok r"
  shows "keeps r (snd (abort_reserved rid r))"
proof -
  obtain n r' c where
    get: "\<And>j. dget (leases r') j = (case dget (leases r) j of None \<Rightarrow> None
        | Some l \<Rightarrow> if lease_request l = rid \<and> l_state l = RESERVED then None else Some l)"
    and eq: "abort_reserved rid r =
      (if \<exists>j l. dget (leases r) j = Some l \<and> lease_request l = rid \<and> l_state l = SUBMISSION_UNKNOWN
       then raises (LeaseFenceError ''cannot safely abort lease(s) with unknown submission state'')
              (r'\<lparr>r_counters := c\<rparr>)
       else returns (armed_leases (leases_of r rid), n) r')"
    using abort_reserved_ok [OF assms, of rid] by blast
  show ?thesis unfolding eq by (auto simp: keeps_def get)
qed

text \<open>What every step does to a well-formed registry: it stays well formed and evolves, and a lease
  past the reserved state goes only when it is armed on a finished fence.\<close>

definition drains :: "'f set \<Rightarrow> 'f registry \<Rightarrow> 'f registry \<Rightarrow> bool" where
  "drains F r r' \<longleftrightarrow> registry_ok r' \<and> evolves r r' \<and>
     (\<forall>i l. dget (leases r) i = Some l \<longrightarrow> l_state l \<noteq> RESERVED \<longrightarrow>
        dget (leases r') i = Some l \<or> (l_state l = ARMED \<and> (\<exists>f\<in>F. l_fence l = Some f)))"

lemma evolves_trans: "evolves r r' \<Longrightarrow> evolves r' r'' \<Longrightarrow> evolves r r''"
  unfolding evolves_def by (metis order_less_le_trans order_trans)

lemma drainsD:
  assumes "drains F r r'" "dget (leases r) i = Some l" "l_state l \<noteq> RESERVED"
  shows "dget (leases r') i = Some l \<or> (l_state l = ARMED \<and> (\<exists>f\<in>F. l_fence l = Some f))"
  using assms unfolding drains_def by blast

lemma drains_trans:
  assumes "drains F r r'" "drains F r' r''" shows "drains F r r''"
proof -
  have "registry_ok r''" "evolves r r''"
    using assms evolves_trans [of r r' r''] by (simp_all add: drains_def)
  then show ?thesis
    unfolding drains_def using drainsD [OF assms(1)] drainsD [OF assms(2)] by blast
qed

lemma drains_keeps: "registry_ok r' \<Longrightarrow> evolves r r' \<Longrightarrow> keeps r r' \<Longrightarrow> drains F r r'"
  by (simp add: drains_def keeps_def)

lemma drains_count [simp]: "drains F r (r'\<lparr>r_counters := c\<rparr>) = drains F r r'"
  by (simp add: drains_def evolves_def)

lemma drains_refl: "registry_ok r \<Longrightarrow> drains F r r"
  by (simp add: drains_def evolves_def)

lemma drains_locked:
  assumes "registry_ok r"
  shows "drains F r (snd (try_reserve rid blocks r))" "drains F r (snd (submit i sub r))"
    "drains F r (snd (cancel_before_submit i r))" "drains F r (snd (abort_reserved rid r))"
  using assms
  by (simp_all add: drains_keeps try_reserve_ok submit_ok cancel_ok evolves_reserve evolves_submit
      evolves_cancel keeps_reserve keeps_submit keeps_cancel keeps_abort_reserved
      abort_reserved_evolves)

lemma drains_release_each:
  assumes "registry_ok r" "seen_done F is r"
  shows "drains F r (snd (release_each is n r))"
proof -
  obtain m r' where rel: "release_each is n r = (Inr m, r')"
      "\<And>j. dget (leases r') j = (if j \<in> set is then None else dget (leases r) j)"
    using release_each_ok [OF assms(1), of "is" n] by blast
  then show ?thesis
    using release_each_evolves [OF assms(1), of "is" n] assms(2)
    by (auto simp: drains_def seen_done_def)
qed

text \<open>What the answers of truthful fences say of the leases they are asked about.\<close>

lemma query_fences_done:
  assumes "query_fences q ls = Inr is" "i \<in> set is"
  shows "\<exists>l\<in>set ls. lease_id l = i \<and> (\<exists>f. l_fence l = Some f \<and> q f = Fence_done)"
  using assms
  by (induction ls arbitrary: "is")
     (auto split: option.splits fence_status.splits simp: map_sum_def sum.splits split: sum.splits)

lemma synchronize_fences_done:
  "synchronize_fences sync ls = Inr u \<Longrightarrow> l \<in> set ls \<Longrightarrow> \<exists>f. l_fence l = Some f \<and> sync f"
  by (induction ls) (auto split: option.splits if_splits)

lemma armed_leases_mem:
  assumes "registry_ok r"
  shows "l \<in> set (armed_leases (dvals (leases r))) \<longleftrightarrow>
    dget (leases r) (lease_id l) = Some l \<and> l_state l = ARMED"
  using assms lease_facts(1) [OF assms]
  by (auto simp: armed_leases_def registry_ok_defs dict_ok_vals simp del: set_map)

lemma seen_armed_collect:
  assumes "registry_ok r" shows "seen_armed (armed_leases (dvals (leases r))) r"
  using armed_leases_mem [OF assms] lease_facts(2) [OF assms] by (auto simp: seen_armed_def)

lemma seen_armed_aborting:
  assumes "registry_ok r" "abort_reserved rid r = (Inr (armed, n), r')"
  shows "seen_armed armed r'"
proof -
  obtain m u c where ok: "registry_ok u" "next_id u = next_id r"
    and get: "\<And>j. dget (leases u) j = (case dget (leases r) j of None \<Rightarrow> None
        | Some l \<Rightarrow> if lease_request l = rid \<and> l_state l = RESERVED then None else Some l)"
    and eq: "abort_reserved rid r =
      (if \<exists>j l. dget (leases r) j = Some l \<and> lease_request l = rid \<and> l_state l = SUBMISSION_UNKNOWN
       then raises (LeaseFenceError ''cannot safely abort lease(s) with unknown submission state'')
              (u\<lparr>r_counters := c\<rparr>)
       else returns (armed_leases (leases_of r rid), m) u)"
    using abort_reserved_ok [OF assms(1), of rid] by blast
  have r': "r' = u" "armed = armed_leases (leases_of r rid)" using assms(2) unfolding eq by (auto split: if_splits)
  have "dget (leases r) (lease_id l) = Some l \<and> l_state l = ARMED" if "l \<in> set armed" for l
    using that owned_leases_of(2) [OF assms(1), of l rid] lease_facts(1) [OF assms(1)]
    by (auto simp: r' armed_leases_def)
  then show ?thesis
    using lease_facts(2) [OF assms(1)] by (auto simp: seen_armed_def r'(1) ok(2) get)
qed

lemma ask_fences_ok:
  assumes "truthful q sync F" "call_ok F r c" "ask_fences q sync c r = (Inr c', r')"
  shows "call_ok F r' c' \<and> r' = r"
proof -
  have queried: "seen_done F is r" if "seen_armed ls r" "query_fences q ls = Inr is" for ls "is"
    using query_fences_done [OF that(2)] that(1) assms(1)
    unfolding seen_done_def seen_armed_def truthful_def by metis
  have synced: "seen_done F (map lease_id ls) r"
    if "seen_armed ls r" "synchronize_fences sync ls = Inr u" for ls u
    using synchronize_fences_done [OF that(2)] that(1) assms(1)
    unfolding seen_done_def seen_armed_def truthful_def by (auto, metis+)
  show ?thesis
    using assms(2,3) queried synced by (cases c) (auto split: sum.splits if_splits)
qed

lemma ask_fences_failed: "ask_fences q sync c r = (Inl e, r') \<Longrightarrow> \<exists>k. r' = r\<lparr>r_counters := k\<rparr>"
proof -
  have f: "\<exists>k. fence_failed x e r = r\<lparr>r_counters := k\<rparr>" for x e
    by (cases e) (auto simp: fence_failed_def intro: exI [of _ "r_counters r"])
  show "ask_fences q sync c r = (Inl e, r') \<Longrightarrow> \<exists>k. r' = r\<lparr>r_counters := k\<rparr>"
    using f by (cases c) (auto split: sum.splits if_splits)
qed

lemma drains_finish:
  assumes "registry_ok r" "call_ok F r c" shows "drains F r (snd (finish_call c r))"
proof -
  have "drains F r r'" if "release_each is n r = (x, r')" "seen_done F is r" for "is" n x r'
    using drains_release_each [OF assms(1) that(2), of n] that(1) by simp
  then show ?thesis
    using assms drains_refl [OF assms(1)] by (cases c) (auto split: prod.split sum.split)
qed

lemma drains_run:
  assumes "truthful q sync F" "registry_ok r" "call_ok F r c"
  shows "drains F r (snd (run_call q sync c r))"
proof (cases "ask_fences q sync c r")
  case (Pair x r')
  show ?thesis
  proof (cases x)
    case (Inl e)
    then show ?thesis
      using ask_fences_failed [of q sync c r e r'] Pair drains_refl [OF assms(2)]
      by (auto simp: run_call_def)
  next
    case (Inr c')
    then show ?thesis
      using ask_fences_ok [OF assms(1,3), of c' r'] Pair drains_finish [OF assms(2), of F c']
      by (auto simp: run_call_def)
  qed
qed

lemma drains_poll:
  assumes "truthful q sync F" "registry_ok r" shows "drains F r (snd (poll q r))"
  unfolding poll_run [of q r sync]
  using drains_run [OF assms] seen_armed_collect [OF assms(2)] by simp

lemma drains_take_finished:
  assumes "truthful q sync F" "registry_ok r" shows "drains F r (snd (take_finished q ids r))"
  using drains_poll [OF assms] by (auto simp: take_finished_def Let_def split: prod.split sum.split)

lemma drains_abort_request:
  assumes t: "truthful q sync F" and ok: "registry_ok r"
  shows "drains F r (snd (abort_request q sync rid wait r))"
proof (cases "abort_reserved rid r")
  case (Pair x r')
  have d: "drains F r r'" using drains_locked(4) [OF ok, of F rid] Pair by simp
  show ?thesis
  proof (cases x)
    case (Inr a)
    obtain armed n where a: "a = (armed, n)" by (cases a)
    have "seen_armed armed r'" using seen_armed_aborting [OF ok] Pair Inr a by blast
    moreover have "registry_ok r'" using d by (simp add: drains_def)
    ultimately have "drains F r' (snd (run_call q sync (Aborting wait armed n) r'))"
      by (intro drains_run [OF t]) simp_all
    with d show ?thesis by (simp add: abort_request_run Pair Inr a drains_trans)
  qed (simp add: abort_request_run Pair d)
qed

lemma drains_abort_each:
  assumes "truthful q sync F" "registry_ok r"
  shows "drains F r (snd (abort_each sync rids n r))"
  using assms(2)
proof (induction rids arbitrary: n r)
  case (Cons rid rids)
  have t: "truthful (\<lambda>_. Fence_pending) sync F" using assms(1) by (simp add: truthful_def)
  obtain x r' where x: "abort_request (\<lambda>_. Fence_pending) sync rid True r = (x, r')" by fastforce
  then have d: "drains F r r'"
    using drains_abort_request [OF t Cons.prems, of rid True] by simp
  then have "drains F r' (snd (abort_each sync rids m r'))" for m
    by (intro Cons.IH) (simp add: drains_def)
  then show ?case using d x by (auto split: sum.split intro: drains_trans)
qed (simp add: drains_refl)

text \<open>The invariant of the interleaving.\<close>

lemma call_ok_drains:
  assumes "drains F r r'" "call_ok F r c" shows "call_ok F r' c"
proof -
  have e: "next_id r \<le> next_id r'"
    "\<And>i l'. i < next_id r \<Longrightarrow> dget (leases r') i = Some l' \<Longrightarrow>
      \<exists>l. dget (leases r) i = Some l \<and> (l_state l \<noteq> RESERVED \<longrightarrow> l' = l)"
    using assms(1) by (auto simp: drains_def evolves_def)
  have "seen_armed ls r'" if "seen_armed ls r" for ls
    using that e unfolding seen_armed_def by (metis lease_state.distinct(3) order_less_le_trans)
  moreover have "seen_done F is r'" if "seen_done F is r" for "is"
    using that e unfolding seen_done_def by (metis lease_state.distinct(3) order_less_le_trans)
  ultimately show ?thesis using assms(2) by (cases c) auto
qed

lemma call_ok_finished: "call_ok F r c \<Longrightarrow> F \<subseteq> G \<Longrightarrow> call_ok G r c"
  by (cases c) (auto simp: seen_done_def, blast+)

text \<open>Every step drains the registry, lets the finished fences grow, and leaves a well-formed call
  at the thread it moves.\<close>

lemma lease_step_drains:
  assumes "lease_step w v" "world_ok w"
  shows "drains (finished w) (reg w) (reg v) \<and> finished w \<subseteq> finished v \<and>
    (\<exists>t c. threads v = (threads w)(t := c) \<and> (\<forall>k. c = Some k \<longrightarrow> call_ok (finished w) (reg v) k))"
proof -
  have ok: "registry_ok (reg w)" and calls: "\<And>t c. threads w t = Some c \<Longrightarrow> call_ok (finished w) (reg w) c"
    using assms(2) by (simp_all add: world_ok_def)
  note d = drains_locked [OF ok] drains_refl [OF ok]
  let ?D = "\<lambda>v'. drains (finished w) (reg w) (reg v') \<and> finished w \<subseteq> finished v' \<and>
    (\<exists>t c. threads v' = (threads w)(t := c) \<and> (\<forall>k. c = Some k \<longrightarrow> call_ok (finished w) (reg v') k))"
  have whole: "?D (w\<lparr>reg := r'\<rparr>)" if "drains (finished w) (reg w) r'" for r'
    using that calls [of 0] call_ok_drains [OF that]
    by (auto intro!: exI [of _ 0] exI [of _ "threads w 0"])
  have moved: "?D (suspend t c (w\<lparr>reg := r'\<rparr>))"
    if "drains (finished w) (reg w) r'" "\<And>k. c = Some k \<Longrightarrow> call_ok (finished w) r' k" for t c r'
    using that by auto
  from assms(1) show ?thesis
  proof cases
    case (step_read_done f)
    then show ?thesis using whole [of "reg w"] d by auto
  next
    case (step_poll_begin t)
    then show ?thesis
      using moved [of "reg w" "Some (Polling (armed_leases (dvals (leases (reg w)))))" t]
        seen_armed_collect [OF ok] d(5) by simp
  next
    case (step_abort_begin t rid armed n r wait)
    then show ?thesis
      using moved [of r "Some (Aborting wait armed n)" t] d(4) [of "finished w" rid]
        seen_armed_aborting [OF ok, of rid armed n r] by simp
  next
    case (step_abort_refused rid e r)
    then show ?thesis using whole [of r] d(4) [of "finished w" rid] by simp
  next
    case (step_fences t c q sync c' r)
    then show ?thesis
      using moved [of r "Some c'" t] ask_fences_ok [OF _ calls, of q sync t c c' r] d(5) by simp
  next
    case (step_fences_failed t c q sync e r)
    then show ?thesis using moved [of r None t] ask_fences_failed [of q sync c "reg w" e r] d(5) by auto
  next
    case (step_finish t c)
    then show ?thesis
      using moved [of "snd (finish_call c (reg w))" None t] drains_finish [OF ok calls] by simp
  qed (use whole d drains_poll [OF _ ok] drains_take_finished [OF _ ok]
         drains_abort_request [OF _ ok] drains_abort_each [OF _ ok] in \<open>simp_all add: abort_all_def\<close>)
qed

lemma world_step_ok:
  assumes "lease_step w v" "world_ok w"
  shows "world_ok v"
proof -
  note d = lease_step_drains [OF assms]
  then obtain t c where t: "threads v = (threads w)(t := c)" "\<And>k. c = Some k \<Longrightarrow> call_ok (finished w) (reg v) k"
    by blast
  have "call_ok (finished w) (reg v) k" if "threads v u = Some k" for u k
  proof (cases "u = t")
    case False
    then have "call_ok (finished w) (reg w) k" using that t(1) assms(2) by (simp add: world_ok_def)
    then show ?thesis using d by (blast intro: call_ok_drains)
  qed (use that t in simp)
  then have "call_ok (finished v) (reg v) k" if "threads v u = Some k" for u k
    using that d by (blast intro: call_ok_finished)
  then show ?thesis using d by (simp add: world_ok_def drains_def)
qed

interpretation lease_world: invariant_system initial_world lease_step world_ok
proof
  fix s t :: "'a world"
  show "world_ok s" if "initial_world s"
    using that by (auto simp: initial_world_def world_ok_def new_registry_ok)
  show "world_ok t" if "lease_step s t" "world_ok s"
    using that by (rule world_step_ok)
qed

section \<open>Properties\<close>

definition demo_world :: "string world" where
  "demo_world = \<lparr>reg = new_registry \<lparr>max_active_leases = 2, max_leased_blocks = 4\<rparr>,
     finished = {}, threads = (\<lambda>_. None)\<rparr>"

definition demo_reserved :: "string world" where
  "demo_reserved = demo_world\<lparr>reg := snd (try_reserve ''a'' [7, 8] (reg demo_world))\<rparr>"

definition demo_armed :: "string world" where
  "demo_armed = demo_reserved\<lparr>reg := snd (submit 1 (Fence ''f'') (reg demo_reserved))\<rparr>"

definition demo_two :: "string world" where
  "demo_two = demo_armed\<lparr>reg := snd (try_reserve ''b'' [9] (reg demo_armed))\<rparr>"

lemmas demo_defs = demo_world_def demo_reserved_def demo_armed_def demo_two_def
  new_registry_def no_counts_def try_reserve_def submit_def ids_of_def set_add_def Let_def

lemma demo_initial: "initial_world demo_world"
proof -
  have "LeaseCapacity 2 4 = Inr \<lparr>max_active_leases = 2, max_leased_blocks = 4\<rparr>"
    by (simp add: LeaseCapacity_def)
  then show ?thesis by (auto simp: initial_world_def demo_world_def)
qed

lemma demo_runs: "rtranclp lease_step demo_world demo_armed" "rtranclp lease_step demo_armed demo_two"
  "rtranclp lease_step demo_world demo_two"
proof -
  have "lease_step demo_world demo_reserved"
    unfolding demo_reserved_def by (rule step_reserve)
  moreover have "lease_step demo_reserved demo_armed"
    unfolding demo_armed_def by (rule step_submit)
  ultimately show a: "rtranclp lease_step demo_world demo_armed"
    by (rule converse_rtranclp_into_rtranclp [OF _ r_into_rtranclp])
  show b: "rtranclp lease_step demo_armed demo_two"
    unfolding demo_two_def by (rule r_into_rtranclp [of lease_step, OF step_reserve])
  show "rtranclp lease_step demo_world demo_two" using a b by (rule rtranclp_trans)
qed



text \<open>C16: However threads interleave, calling \<open>poll\<close>, \<open>take_finished\<close>, \<open>abort_request\<close> and
  \<open>abort_all\<close> whole or stopping in them while others run, a lease whose gather is armed on a fence that has not
  completed, or whose submission ended in an unknown state, is still registered with all its blocks:
  no method hands its blocks out for reuse.\<close>

theorem armed_blocks_pinned:
  assumes "initial_world w0" "rtranclp lease_step w0 w" "rtranclp lease_step w v"
    and "dget (leases (reg w)) i = Some l" "b \<in> set (lease_blocks l)"
    and "l_state l = ARMED \<and> (\<forall>f\<in>finished v. l_fence l \<noteq> Some f) \<or> l_state l = SUBMISSION_UNKNOWN"
  shows "dget (leases (reg v)) i = Some l \<and> dget (block_owner (reg v)) b = Some i"
proof -
  let ?P = "\<lambda>x. dget (leases (reg x)) i = Some l \<or>
    (l_state l = ARMED \<and> (\<exists>f\<in>finished x. l_fence l = Some f))"
  have nres: "l_state l \<noteq> RESERVED" using assms(6) by auto
  have "?P v"
  proof (rule lease_world.reachable_stable [OF assms(1-3)])
    show "?P y" if "world_ok x" "lease_step x y" "?P x" for x y
    proof (cases "dget (leases (reg x)) i = Some l")
      case True
      have d: "drains (finished x) (reg x) (reg y)" "finished x \<subseteq> finished y"
        using lease_step_drains [OF that(2,1)] by blast+
      with True nres show ?thesis unfolding drains_def by blast
    next
      case False
      have "finished x \<subseteq> finished y" using lease_step_drains [OF that(2,1)] by blast
      with False that(3) show ?thesis by blast
    qed
  qed (use assms(4) in simp)
  then have live: "dget (leases (reg v)) i = Some l" using assms(6) by auto
  have "registry_ok (reg v)"
    using lease_world.reachable_inv [OF assms(1) rtranclp_trans [OF assms(2,3)]]
    by (simp add: world_ok_def)
  with live assms(5) show ?thesis by (auto simp: owner_iff)
qed

theorem armed_blocks_pinned_witness:
  "dget (block_owner (reg demo_two)) 8 = Some 1"
proof -
  obtain l where l: "dget (leases (reg demo_armed)) 1 = Some l" "8 \<in> set (lease_blocks l)"
      "l_state l = ARMED"
    by (simp add: demo_defs)
  have "finished demo_two = {}" by (simp add: demo_defs)
  then show ?thesis
    using armed_blocks_pinned [OF demo_initial demo_runs(1,2) l(1,2)] l(3) by simp
qed

text \<open>Admission never waits: with well-formed arguments \<open>try_reserve\<close> grants a lease exactly
  when the lease bound, the block bound and disjointness from every leased block allow it, making
  the new lease the owner of exactly these blocks; otherwise it answers \<open>None\<close> and leaves every
  lease as it was.\<close>

theorem try_reserve_admission:
  assumes "rid \<noteq> ''''" "blocks \<noteq> []" "distinct blocks" "\<forall>b\<in>set blocks. 0 \<le> b"
  shows "\<exists>r'. try_reserve rid blocks r =
      returns (if admissible blocks r then Some (next_id r) else None) r' \<and>
    (\<forall>b. dget (block_owner r') b =
       (if admissible blocks r \<and> b \<in> set blocks then Some (next_id r) else dget (block_owner r) b)) \<and>
    (\<not> admissible blocks r \<longrightarrow> leases r' = leases r \<and> by_request r' = by_request r \<and>
       next_id r' = next_id r)"
proof (cases "admissible blocks r")
  case True
  then show ?thesis
    using assms by (simp add: try_reserve_admitted dget_fold_dput)
next
  case False
  show ?thesis
    by (cases rid blocks r rule: try_reserve_cases)
       (use False assms in \<open>auto simp: try_reserve_def Let_def split: if_splits\<close>)
qed

theorem try_reserve_admission_witness:
  "\<exists>r'. try_reserve ''b'' [8, 9] (reg demo_armed) = returns None r'"
proof -
  have "\<not> admissible [8, 9] (reg demo_armed)" by (simp add: admissible_def demo_defs)
  with try_reserve_admission [of "''b''" "[8, 9]" "reg demo_armed"] show ?thesis by auto
qed

subsection \<open>Whole methods\<close>

lemma query_fences_eq:
  assumes "\<forall>l\<in>set ls. l_fence l \<noteq> None"
  shows "query_fences q ls =
    (if \<exists>l\<in>set ls. q (the (l_fence l)) = Fence_raises
     then Inl (LeaseFenceError ''completion status unknown for lease'')
     else Inr (map lease_id (filter (\<lambda>l. q (the (l_fence l)) = Fence_done) ls)))"
  using assms by (induction ls) (auto split: option.split fence_status.split)

lemma release_each_count:
  assumes "registry_ok r" "distinct is" "\<forall>i\<in>set is. dget (leases r) i \<noteq> None"
  shows "fst (release_each is n r) = Inr (n + int (length is))"
  using assms
proof (induction "is" arbitrary: n r)
  case (Cons i "is")
  then obtain l where l: "dget (leases r) i = Some l" by auto
  have "\<forall>j\<in>set is. dget (leases (released l r)) j \<noteq> None"
    using Cons.prems lease_facts(1) [OF Cons.prems(1) l] by auto
  from Cons.IH [OF released_ok [OF Cons.prems(1) l] _ this, of "n + 1"] Cons.prems l
  show ?case by (simp add: release_locked_eq)
qed simp

lemma distinct_lease_ids:
  assumes "registry_ok r"
  shows "distinct (map lease_id (filter P (dvals (leases r))))"
proof -
  have ok: "dict_ok (leases r)" using assms by (simp add: registry_ok_defs)
  have "map lease_id (dvals (leases r)) = dkeys (leases r)"
    using lease_facts(1) [OF assms] by (auto simp: dict_ok_get [OF ok])
  then have "distinct (map lease_id (dvals (leases r)))"
    using ok by (simp only: dict_ok_def)
  then show ?thesis by (rule distinct_map_filter)
qed

lemma release_selected:
  assumes ok: "registry_ok r" and d: "distinct (map lease_id ls)"
    and mem: "\<forall>l\<in>set ls. dget (leases r) (lease_id l) = Some l"
  obtains r' where "release_each (map lease_id ls) n r = (Inr (n + int (length ls)), r')"
    "registry_ok r'"
    "\<And>j. dget (leases r') j =
       (case dget (leases r) j of None \<Rightarrow> None | Some l \<Rightarrow> if l \<in> set ls then None else Some l)"
proof -
  obtain m r' where rel: "release_each (map lease_id ls) n r = (Inr m, r')" "registry_ok r'"
      "\<And>j. dget (leases r') j = (if j \<in> set (map lease_id ls) then None else dget (leases r) j)"
    using release_each_ok [OF ok, of "map lease_id ls" n] by blast
  have "\<forall>i\<in>set (map lease_id ls). dget (leases r) i \<noteq> None"
    using mem by auto
  from release_each_count [OF ok d this, of n] have "m = n + int (length ls)"
    using rel(1) by simp
  moreover have "dget (leases r') j =
      (case dget (leases r) j of None \<Rightarrow> None | Some l \<Rightarrow> if l \<in> set ls then None else Some l)" for j
  proof (cases "dget (leases r) j")
    case (Some l)
    have "j \<in> set (map lease_id ls) \<longleftrightarrow> l \<in> set ls"
    proof
      assume "j \<in> set (map lease_id ls)"
      then obtain k where k: "k \<in> set ls" "lease_id k = j" by auto
      with mem have "dget (leases r) j = Some k" by blast
      with k Some show "l \<in> set ls" by simp
    qed (use lease_facts(1) [OF ok Some] in auto)
    with Some show ?thesis by (simp only: rel(3)) simp
  qed (simp only: rel(3), simp)
  ultimately show thesis using that rel(1,2) by blast
qed

definition drained :: "('f \<Rightarrow> fence_status) \<Rightarrow> 'f lease \<Rightarrow> bool" where
  "drained q l \<longleftrightarrow> l_state l = ARMED \<and> q (the (l_fence l)) = Fence_done"

text \<open>\<open>poll\<close> raises \<open>LeaseFenceError\<close> and releases nothing when the status of an armed fence
  is unknown; otherwise it returns how many leases it released, and these are exactly the armed
  leases whose fence reports done.\<close>

lemma poll_outcome:
  assumes ok: "registry_ok r"
  shows "\<exists>r'. registry_ok r' \<and> poll q r =
    (if \<exists>i l. dget (leases r) i = Some l \<and> l_state l = ARMED \<and> q (the (l_fence l)) = Fence_raises
     then raises (LeaseFenceError ''completion status unknown for lease'') r'
     else returns (int (length (filter (drained q) (dvals (leases r))))) r') \<and>
    (\<forall>i. dget (leases r') i =
      (if \<exists>i l. dget (leases r) i = Some l \<and> l_state l = ARMED \<and> q (the (l_fence l)) = Fence_raises
       then dget (leases r) i
       else case dget (leases r) i of
              None \<Rightarrow> None
            | Some l \<Rightarrow> if drained q l then None else Some l))"
proof -
  let ?ls = "armed_leases (dvals (leases r))"
  let ?dn = "filter (\<lambda>l. q (the (l_fence l)) = Fence_done) ?ls"
  have armed: "l \<in> set ?ls \<longleftrightarrow> (\<exists>i. dget (leases r) i = Some l \<and> l_state l = ARMED)" for l
    using ok lease_facts(1) [OF ok] by (auto simp: armed_leases_mem)
  have fences: "\<forall>l\<in>set ?ls. l_fence l \<noteq> None"
    using armed lease_facts(6) [OF ok] by blast
  have dn: "?dn = filter (drained q) (dvals (leases r))"
    by (auto simp: armed_leases_def drained_def intro: filter_cong)
  have raising: "(\<exists>l\<in>set ?ls. q (the (l_fence l)) = Fence_raises) \<longleftrightarrow>
      (\<exists>i l. dget (leases r) i = Some l \<and> l_state l = ARMED \<and> q (the (l_fence l)) = Fence_raises)"
    using armed by blast
  show ?thesis
  proof (cases "\<exists>l\<in>set ?ls. q (the (l_fence l)) = Fence_raises")
    case True
    then have "poll q r = raises (LeaseFenceError ''completion status unknown for lease'')
        (count ''fence_query_failed'' 1 r)"
      by (simp add: poll_def query_fences_eq [OF fences] fence_failed_def)
    then show ?thesis using True ok unfolding raising by (simp add: exI [of _ "count ''fence_query_failed'' 1 r"])
  next
    case False
    have dist: "distinct (map lease_id ?dn)"
      unfolding dn by (rule distinct_lease_ids [OF ok])
    have mem: "\<forall>l\<in>set ?dn. dget (leases r) (lease_id l) = Some l"
      using armed lease_facts(1) [OF ok] by auto
    obtain r' where rel: "release_each (map lease_id ?dn) 0 r = (Inr (0 + int (length ?dn)), r')"
        "registry_ok r'"
        "\<And>j. dget (leases r') j =
           (case dget (leases r) j of None \<Rightarrow> None | Some l \<Rightarrow> if l \<in> set ?dn then None else Some l)"
      using release_selected [OF ok dist mem, of 0] by blast
    have "l \<in> set ?dn \<longleftrightarrow> drained q l" if "dget (leases r) j = Some l" for j l
      using that armed [of l] by (auto simp: drained_def)
    then have get: "dget (leases r') j =
        (case dget (leases r) j of None \<Rightarrow> None | Some l \<Rightarrow> if drained q l then None else Some l)" for j
      by (auto simp: rel(3) split: option.split)
    have "poll q r = returns (int (length ?dn)) (count ''completed'' (int (length ?dn)) r')"
      using False rel(1) by (simp add: poll_def query_fences_eq [OF fences])
    then show ?thesis
      using False rel(2) get unfolding raising dn
      by (intro exI [of _ "count ''completed'' (int (length ?dn)) r'"]) (auto simp: dn)
  qed
qed

text \<open>A request's key is in \<open>_by_request\<close> exactly while it owns a lease.\<close>

lemma by_request_keys:
  assumes "registry_ok r"
  shows "rid \<in> set (dkeys (by_request r)) \<longleftrightarrow>
    (\<exists>i l. dget (leases r) i = Some l \<and> lease_request l = rid)"
proof -
  have "rid \<in> set (dkeys (by_request r)) \<longleftrightarrow> ids_of r rid \<noteq> []"
    using assms dget_None [of "by_request r" rid]
    by (auto simp: ids_of_def registry_ok_defs split: option.splits)
  also have "\<dots> \<longleftrightarrow> (\<exists>i. i \<in> set (ids_of r rid))" by (metis last_in_set list.set_cases neq_Nil_conv list.set_intros(1))
  also have "\<dots> \<longleftrightarrow> (\<exists>i l. dget (leases r) i = Some l \<and> lease_request l = rid)"
    using assms by (simp add: registry_ok_defs)
  finally show ?thesis .
qed

text \<open>Worker-side completion: when no armed fence has an unknown status, \<open>take_finished\<close>
  reports a finished request exactly when every lease it still owned was armed on a completed fence;
  a request with any reserved, unknown or unfinished lease is withheld.\<close>

theorem take_finished_withholds:
  assumes ok: "registry_ok r"
    and known: "\<forall>i l. dget (leases r) i = Some l \<longrightarrow> l_state l = ARMED \<longrightarrow>
      q (the (l_fence l)) \<noteq> Fence_raises"
  shows "\<exists>r'. take_finished q ids r =
    returns {rid \<in> ids. \<forall>i l. dget (leases r) i = Some l \<longrightarrow> lease_request l = rid \<longrightarrow> drained q l} r'"
proof -
  obtain n r' where p: "poll q r = returns n r'" and ok': "registry_ok r'"
    and get: "\<And>i. dget (leases r') i =
      (case dget (leases r) i of None \<Rightarrow> None | Some l \<Rightarrow> if drained q l then None else Some l)"
  proof -
    have nr: "(\<exists>i l. dget (leases r) i = Some l \<and> l_state l = ARMED \<and>
        q (the (l_fence l)) = Fence_raises) = False"
      using known by blast
    from poll_outcome [OF ok, of q] that show thesis unfolding nr if_False by blast
  qed
  have "rid \<in> set (dkeys (by_request r')) \<longleftrightarrow>
      (\<exists>i l. dget (leases r) i = Some l \<and> lease_request l = rid \<and> \<not> drained q l)" for rid
    unfolding by_request_keys [OF ok'] get by (auto split: option.splits if_splits)
  then have "ids - set (dkeys (by_request r')) =
      {rid \<in> ids. \<forall>i l. dget (leases r) i = Some l \<longrightarrow> lease_request l = rid \<longrightarrow> drained q l}"
    by blast
  then show ?thesis by (simp add: take_finished_def p Let_def del: set_map)
qed

theorem take_finished_withholds_witness:
  "\<exists>r' ready. take_finished (\<lambda>f. Fence_done) {''a'', ''b'', ''c''} (reg demo_two) = returns ready r' \<and>
     ''a'' \<in> ready \<and> ''b'' \<notin> ready \<and> ''c'' \<in> ready"
proof -
  have ok: "registry_ok (reg demo_two)"
    using lease_world.reachable_inv [OF demo_initial demo_runs(3)] by (simp add: world_ok_def)
  obtain r' where r': "take_finished (\<lambda>f. Fence_done) {''a'', ''b'', ''c''} (reg demo_two) =
      returns {rid \<in> {''a'', ''b'', ''c''}. \<forall>i l. dget (leases (reg demo_two)) i = Some l \<longrightarrow>
        lease_request l = rid \<longrightarrow> drained (\<lambda>f. Fence_done) l} r'"
    using take_finished_withholds [OF ok, of "\<lambda>f. Fence_done"] by blast
  have "\<exists>l. dget (leases (reg demo_two)) 2 = Some l \<and> lease_request l = ''b'' \<and>
      \<not> drained (\<lambda>f. Fence_done) l"
    by (simp add: demo_defs drained_def)
  moreover have "\<forall>i l. dget (leases (reg demo_two)) i = Some l \<longrightarrow>
      lease_request l = ''a'' \<or> lease_request l = ''c'' \<longrightarrow> drained (\<lambda>f. Fence_done) l"
    by (simp add: demo_defs drained_def)
  ultimately show ?thesis using r' by auto
qed

lemma synchronize_fences_ok:
  assumes "\<forall>l\<in>set ls. \<exists>f. l_fence l = Some f \<and> sync f"
  shows "synchronize_fences sync ls = Inr ()"
  using assms by (induction ls) (auto split: option.split)

text \<open>C17: Preemption drains: when no submission of the request is unknown and every armed fence of
  it can be synchronised, \<open>abort_request\<close> returns, and afterwards the request owns no lease while
  every lease of every other request is untouched.\<close>

theorem abort_request_drains:
  assumes ok: "registry_ok r"
    and own: "\<forall>i l. dget (leases r) i = Some l \<longrightarrow> lease_request l = rid \<longrightarrow>
      l_state l \<noteq> SUBMISSION_UNKNOWN \<and> (l_state l = ARMED \<longrightarrow> sync (the (l_fence l)))"
  shows "\<exists>n r'. abort_request q sync rid True r = returns n r' \<and> registry_ok r' \<and>
    (\<forall>i. dget (leases r') i =
       (case dget (leases r) i of
          None \<Rightarrow> None | Some l \<Rightarrow> if lease_request l = rid then None else Some l))"
proof -
  let ?armed = "armed_leases (leases_of r rid)"
  obtain n r1 where ok1: "registry_ok r1"
    and get1: "\<And>j. dget (leases r1) j = (case dget (leases r) j of None \<Rightarrow> None
        | Some l \<Rightarrow> if lease_request l = rid \<and> l_state l = RESERVED then None else Some l)"
    and eq: "abort_reserved rid r = returns (?armed, n) r1"
    using abort_reserved_ok [OF ok, of rid] own by (auto split: if_splits)
  have armed: "l \<in> set ?armed \<longleftrightarrow>
      (\<exists>i. dget (leases r) i = Some l \<and> lease_request l = rid \<and> l_state l = ARMED)" for l
    using owned_leases_of(2) [OF ok, of l rid] by (auto simp: armed_leases_def)
  have "\<exists>f. l_fence l = Some f \<and> sync f" if mem: "l \<in> set ?armed" for l
  proof -
    obtain i where i: "dget (leases r) i = Some l" "lease_request l = rid" "l_state l = ARMED"
      using mem armed by blast
    have "l_fence l \<noteq> None" by (rule lease_facts(6) [OF ok i(1,3)])
    moreover have "sync (the (l_fence l))" using own i by blast
    ultimately show ?thesis by (metis option.collapse)
  qed
  then have sync: "synchronize_fences sync ?armed = Inr ()"
    by (simp add: synchronize_fences_ok)
  obtain m r2 where rel: "release_each (map lease_id ?armed) n r1 = (Inr m, r2)" "registry_ok r2"
      "\<And>j. dget (leases r2) j =
         (if j \<in> set (map lease_id ?armed) then None else dget (leases r1) j)"
    using release_each_ok [OF ok1, of "map lease_id ?armed" n] by blast
  have "\<forall>j. dget (leases r2) j =
      (case dget (leases r) j of None \<Rightarrow> None | Some l \<Rightarrow> if lease_request l = rid then None else Some l)"
  proof
    fix j
    show "dget (leases r2) j =
      (case dget (leases r) j of None \<Rightarrow> None | Some l \<Rightarrow> if lease_request l = rid then None else Some l)"
  proof (cases "dget (leases r) j")
    case (Some l)
    have "j \<in> set (map lease_id ?armed) \<longleftrightarrow> lease_request l = rid \<and> l_state l = ARMED"
      using Some armed lease_facts(1) [OF ok] by (auto simp: image_iff)
    moreover have "lease_request l = rid \<Longrightarrow> l_state l = RESERVED \<or> l_state l = ARMED"
      using own Some lease_facts(7) [OF ok Some] by (cases "l_state l") auto
    ultimately show ?thesis unfolding rel(3) get1 Some by auto
  next
    case None
    then show ?thesis unfolding rel(3) get1 by simp
  qed
  qed
  moreover have "abort_request q sync rid True r = returns m (count ''aborted_leases'' m r2)"
    by (simp add: abort_request_def eq sync rel(1))
  ultimately show ?thesis
    using rel(2) by (intro exI [of _ m] exI [of _ "count ''aborted_leases'' m r2"]) simp
qed

theorem abort_request_drains_witness:
  "\<exists>n r'. abort_request (\<lambda>_. Fence_pending) (\<lambda>_. True) ''a'' True (reg demo_two) = returns n r' \<and>
     dget (leases r') 1 = None \<and> dget (leases r') 2 \<noteq> None"
proof -
  have ok: "registry_ok (reg demo_two)"
    using lease_world.reachable_inv [OF demo_initial demo_runs(3)] by (simp add: world_ok_def)
  have own: "\<forall>i l. dget (leases (reg demo_two)) i = Some l \<longrightarrow> lease_request l = ''a'' \<longrightarrow>
      l_state l \<noteq> SUBMISSION_UNKNOWN \<and> (l_state l = ARMED \<longrightarrow> (\<lambda>_. True) (the (l_fence l)))"
    by (simp add: demo_defs)
  obtain l k where "dget (leases (reg demo_two)) 1 = Some l" "lease_request l = ''a''"
      "dget (leases (reg demo_two)) 2 = Some k" "lease_request k \<noteq> ''a''"
    by (simp add: demo_defs)
  with abort_request_drains [OF ok own, of "\<lambda>_. Fence_pending"] show ?thesis by fastforce
qed

end
