(* ===== verification/Held_Inventory.thy ===== *)
theory Held_Inventory
  imports Prelude
begin

text \<open>
  \<open>sparkcache/held_inventory.py\<close>: the set of digests a worker offers, with a revision that tells
  whether its content may have changed since the last report. \<open>inventory_step\<close> is one public
  mutation, whether it returns or raises.
\<close>

record held_inventory =
  hvalues :: "string set"
  revision :: int

definition HeldInventory :: "string list \<Rightarrow> held_inventory" where
  "HeldInventory vs = \<lparr>hvalues = set vs, revision = 0\<rparr>"

text \<open>The revision grows by one when the size has changed.\<close>

definition revised :: "string set \<Rightarrow> held_inventory \<Rightarrow> held_inventory" where
  "revised V h = h\<lparr>hvalues := V,
     revision := revision h + (if card V \<noteq> card (hvalues h) then 1 else 0)\<rparr>"

definition inv_add :: "string \<Rightarrow> held_inventory \<Rightarrow> held_inventory" where
  "inv_add x h = revised (insert x (hvalues h)) h"

definition inv_discard :: "string \<Rightarrow> held_inventory \<Rightarrow> held_inventory" where
  "inv_discard x h = revised (hvalues h - {x}) h"

definition inv_remove :: "string \<Rightarrow> held_inventory \<Rightarrow> (unit, held_inventory) outcome" where
  "inv_remove x h =
     (if x \<in> hvalues h then returns () (h\<lparr>hvalues := hvalues h - {x}, revision := revision h + 1\<rparr>)
      else raises KeyError h)"

text \<open>\<open>pop()\<close> removes an element that the set chooses; the choice is the argument \<open>x\<close>.\<close>

definition inv_pop :: "string \<Rightarrow> held_inventory \<Rightarrow> (string, held_inventory) outcome" where
  "inv_pop x h =
     (if hvalues h = {} then raises KeyError h
      else returns x (h\<lparr>hvalues := hvalues h - {x}, revision := revision h + 1\<rparr>))"

definition inv_clear :: "held_inventory \<Rightarrow> held_inventory" where
  "inv_clear h =
     (if hvalues h \<noteq> {} then h\<lparr>hvalues := {}, revision := revision h + 1\<rparr> else h)"

text \<open>\<open>update(*values)\<close> and \<open>difference_update(*values)\<close>: \<open>vs\<close> are the elements the iterables
  yielded; with \<open>fails\<close> an iterator raised after them, and the \<open>finally\<close> block still runs.\<close>

definition inv_update ::
    "string list \<Rightarrow> bool \<Rightarrow> held_inventory \<Rightarrow> (unit, held_inventory) outcome" where
  "inv_update vs fails h =
     ((if fails then Inl (RuntimeError ''iterator'') else Inr ()), revised (hvalues h \<union> set vs) h)"

definition inv_difference_update ::
    "string list \<Rightarrow> bool \<Rightarrow> held_inventory \<Rightarrow> (unit, held_inventory) outcome" where
  "inv_difference_update vs fails h =
     ((if fails then Inl (RuntimeError ''iterator'') else Inr ()), revised (hvalues h - set vs) h)"

text \<open>\<open>intersection_update\<close> computes the intersection before it changes the set, so a failing
  iterator leaves it alone.\<close>

definition inv_intersection_update ::
    "string list \<Rightarrow> bool \<Rightarrow> held_inventory \<Rightarrow> (unit, held_inventory) outcome" where
  "inv_intersection_update vs fails h =
     (if fails then (Inl (RuntimeError ''iterator''), revised (hvalues h) h)
      else (Inr (), revised (hvalues h \<inter> set vs) h))"

definition inv_symmetric_difference_update ::
    "string list \<Rightarrow> held_inventory \<Rightarrow> held_inventory" where
  "inv_symmetric_difference_update vs h =
     (if set vs \<noteq> {}
      then h\<lparr>hvalues := (hvalues h - set vs) \<union> (set vs - hvalues h), revision := revision h + 1\<rparr>
      else h)"

inductive inventory_step :: "held_inventory \<Rightarrow> held_inventory \<Rightarrow> bool" where
  add: "inventory_step h (inv_add x h)"
| discard: "inventory_step h (inv_discard x h)"
| remove: "inventory_step h (snd (inv_remove x h))"
| pop: "x \<in> hvalues h \<or> hvalues h = {} \<Longrightarrow> inventory_step h (snd (inv_pop x h))"
| clear: "inventory_step h (inv_clear h)"
| update: "inventory_step h (snd (inv_update vs b h))"
| difference: "inventory_step h (snd (inv_difference_update vs b h))"
| intersection: "inventory_step h (snd (inv_intersection_update vs b h))"
| symmetric: "inventory_step h (inv_symmetric_difference_update vs h)"

definition new_inventory :: "held_inventory \<Rightarrow> bool" where
  "new_inventory h \<longleftrightarrow> (\<exists>vs. h = HeldInventory vs)"

definition inventory_ok :: "held_inventory \<Rightarrow> bool" where
  "inventory_ok h \<longleftrightarrow> finite (hvalues h) \<and> 0 \<le> revision h"

lemmas inventory_defs = inv_add_def inv_discard_def inv_remove_def inv_pop_def inv_clear_def
  inv_update_def inv_difference_update_def inv_intersection_update_def
  inv_symmetric_difference_update_def revised_def

lemma inventory_step_ok: "inventory_step h h' \<Longrightarrow> inventory_ok h \<Longrightarrow> inventory_ok h'"
  by (induction rule: inventory_step.induct) (auto simp: inventory_ok_def inventory_defs)

interpretation held: invariant_system new_inventory inventory_step inventory_ok
proof
  show "inventory_ok h" if "new_inventory h" for h
    using that by (auto simp: new_inventory_def HeldInventory_def inventory_ok_def)
qed (rule inventory_step_ok)

text \<open>Growing or shrinking a finite set changes its size exactly when it changes the set.\<close>

lemma card_insert_eq: "finite A \<Longrightarrow> card (insert x A) = card A \<longleftrightarrow> x \<in> A"
  by (cases "x \<in> A") (auto simp: insert_absorb)

lemma card_sub_eq: "finite A \<Longrightarrow> B \<subseteq> A \<Longrightarrow> card B = card A \<longleftrightarrow> B = A"
  by (metis card_subset_eq)

lemma card_sup_eq: "finite B \<Longrightarrow> A \<subseteq> B \<Longrightarrow> card B = card A \<longleftrightarrow> B = A"
  by (metis card_subset_eq)

lemma inventory_step_tracks:
  assumes "inventory_step h h'" "inventory_ok h"
  shows "revision h \<le> revision h' \<and> (revision h' = revision h \<longleftrightarrow> hvalues h' = hvalues h)"
proof -
  have fin: "finite (hvalues h)" using assms(2) by (simp add: inventory_ok_def)
  have rev: "revision h \<le> revision (revised V h) \<and>
      (revision (revised V h) = revision h \<longleftrightarrow> hvalues (revised V h) = hvalues h)"
    if "finite V" "V \<subseteq> hvalues h \<or> hvalues h \<subseteq> V" for V
    using that fin card_sub_eq [OF fin, of V] card_sup_eq [OF that(1), of "hvalues h"]
    by (auto simp: revised_def)
  from assms(1) show ?thesis
  proof cases
    case (symmetric vs)
    have "(hvalues h - set vs) \<union> (set vs - hvalues h) \<noteq> hvalues h" if "x \<in> set vs" for x
      using that by blast
    then show ?thesis
      using symmetric by (cases vs) (auto simp: inv_symmetric_difference_update_def)
  qed (auto simp: inv_add_def inv_discard_def inv_remove_def inv_pop_def inv_clear_def
      inv_update_def inv_difference_update_def inv_intersection_update_def fin intro!: rev)
qed

lemma inventory_run_tracks:
  assumes "rtranclp inventory_step h h'" "inventory_ok h"
  shows "revision h \<le> revision h' \<and> (revision h' = revision h \<longrightarrow> hvalues h' = hvalues h)"
  using assms
proof (induction rule: rtranclp_induct)
  case (step y z)
  then have "inventory_ok y" by (blast intro: held.inv_steps)
  note last = inventory_step_tracks [OF step.hyps(2) this]
  show ?case
  proof (intro conjI impI)
    show "revision h \<le> revision z" using last step.IH [OF step.prems] by linarith
    assume "revision z = revision h"
    then have "revision y = revision h" and "revision z = revision y"
      using last step.IH [OF step.prems] by linarith+
    then show "hvalues z = hvalues h" using last step.IH [OF step.prems] by metis
  qed
qed simp

text \<open>From its creation on, whatever sequence of mutations (failing iterators included) an
  inventory goes through, an unchanged revision means unchanged content, so a report may skip
  comparing the sets when the revision it observed is still current.\<close>

theorem revision_tracks_content:
  assumes "rtranclp inventory_step (HeldInventory vs) h" "rtranclp inventory_step h h'"
  shows "revision h \<le> revision h' \<and> (revision h' = revision h \<longrightarrow> hvalues h' = hvalues h)"
proof -
  have "inventory_ok h"
    using held.reachable_inv [of "HeldInventory vs" h] assms(1) by (auto simp: new_inventory_def)
  with assms(2) show ?thesis by (rule inventory_run_tracks)
qed

theorem revision_tracks_content_witness:
  "revision (inv_add ''a'' (HeldInventory [''a''])) = revision (HeldInventory [''a'']) \<and>
   hvalues (inv_add ''a'' (HeldInventory [''a''])) = hvalues (HeldInventory [''a''])"
proof -
  have "revision (inv_add ''a'' (HeldInventory [''a''])) = revision (HeldInventory [''a''])"
    by (simp add: inv_add_def revised_def HeldInventory_def)
  with revision_tracks_content [OF rtranclp.rtrancl_refl r_into_rtranclp [of inventory_step, OF add]]
  show ?thesis by blast
qed

end
