(* ===== verification/Quorum.thy ===== *)
theory Quorum
  imports Py_Value Held_Inventory
begin

text \<open>
  The admission quorum of \<open>sparkcache/spark_context_cache_connector.py\<close>: every worker reports the
  digests it can serve as bounded deltas and rolling checkpoint chunks, the scheduler rebuilds each
  worker's inventory from whatever reports reach it, and offers a restore only when every physical
  worker confirms the digest. This theory has the scheduler's side: the absorption of statistics reports
  and of the announcements of the startup handshake. The worker's side and the channel are in
  \<open>Quorum_Channel\<close>.
\<close>

section \<open>Scheduler state\<close>

definition BATCH :: int where "BATCH = 64"          \<comment> \<open>\<open>_QUORUM_REPORT_BATCH_SIZE\<close>\<close>
definition HISTORY :: int where "HISTORY = 64"      \<comment> \<open>\<open>_QUORUM_DELTA_HISTORY_SIZE\<close>\<close>
definition PENDING :: int where "PENDING = 64"      \<comment> \<open>\<open>_QUORUM_PENDING_DELTA_LIMIT\<close>\<close>
definition RETIRED :: int where "RETIRED = 64"      \<comment> \<open>\<open>_QUORUM_RETIRED_GENERATION_LIMIT\<close>\<close>

definition DELTA_PROTOCOL :: string where
  "DELTA_PROTOCOL = ''sparkcache-quorum-delta-v1''"

definition MISSING_GENERATION :: string where
  "MISSING_GENERATION = ''missing-generation-field''"

record delta =
  delta_seq :: int
  delta_base :: int
  delta_added :: "string list"
  delta_removed :: "string list"

record checkpoint =
  cp_state :: int
  cp_cycle :: int
  cp_count :: int
  cp_held_count :: int
  cp_chunks :: "(int, string list) dict"

record scheduler =
  tp_degree :: int
  quorum :: "string \<Rightarrow> int set option"
  q_counters :: counters
  generations :: "int \<Rightarrow> string option"
  epochs :: "int \<Rightarrow> int option"
  retired :: "int \<Rightarrow> string list option"
  sequences :: "int \<Rightarrow> int option"
  held :: "int \<Rightarrow> string set option"
  pendings :: "int \<Rightarrow> (int, delta) dict option"
  checkpoints :: "int \<Rightarrow> checkpoint option"
  desync :: "int set"
  needs_checkpoint :: "int set"

definition new_scheduler :: "int \<Rightarrow> scheduler" where
  "new_scheduler tp = \<lparr>tp_degree = tp, quorum = Map.empty, q_counters = no_counts,
     generations = Map.empty, epochs = Map.empty, retired = Map.empty, sequences = Map.empty,
     held = Map.empty, pendings = Map.empty, checkpoints = Map.empty, desync = {},
     needs_checkpoint = {}\<rparr>"

text \<open>The \<open>get\<close> calls with a default.\<close>

definition ranks_of :: "scheduler \<Rightarrow> string \<Rightarrow> int set" where
  "ranks_of s d = (case quorum s d of None \<Rightarrow> {} | Some R \<Rightarrow> R)"

definition held_of :: "scheduler \<Rightarrow> int \<Rightarrow> string set" where
  "held_of s r = (case held s r of None \<Rightarrow> {} | Some H \<Rightarrow> H)"

definition seq_of :: "scheduler \<Rightarrow> int \<Rightarrow> int" where
  "seq_of s r = (case sequences s r of None \<Rightarrow> 0 | Some n \<Rightarrow> n)"

definition pending_of :: "scheduler \<Rightarrow> int \<Rightarrow> (int, delta) dict" where
  "pending_of s r = (case pendings s r of None \<Rightarrow> [] | Some d \<Rightarrow> d)"

text \<open>\<open>_has_full_quorum\<close>.\<close>

definition has_full_quorum :: "scheduler \<Rightarrow> string \<Rightarrow> bool" where
  "has_full_quorum s d = list_all (\<lambda>r. r \<in> ranks_of s d) [0..tp_degree s - 1]"

section \<open>Scheduler operations\<close>

text \<open>\<open>ranks.discard(rank)\<close>, dropping the key when no rank is left.\<close>

definition discard_rank :: "int \<Rightarrow> int set option \<Rightarrow> int set option" where
  "discard_rank r R = (case R of None \<Rightarrow> None
     | Some X \<Rightarrow> if X - {r} = {} then None else Some (X - {r}))"

definition add_rank :: "int \<Rightarrow> int set option \<Rightarrow> int set option" where
  "add_rank r R = Some (insert r (case R of None \<Rightarrow> {} | Some X \<Rightarrow> X))"

definition withdraw :: "int \<Rightarrow> scheduler \<Rightarrow> scheduler" where
  "withdraw r s = s\<lparr>quorum := (\<lambda>d. discard_rank r (quorum s d))\<rparr>"

definition publish :: "int \<Rightarrow> scheduler \<Rightarrow> scheduler" where
  "publish r s = s\<lparr>quorum :=
     (\<lambda>d. if d \<in> held_of s r then add_rank r (quorum s d) else quorum s d)\<rparr>"

definition mark_desynchronized :: "int \<Rightarrow> scheduler \<Rightarrow> scheduler" where
  "mark_desynchronized r s =
     (if r \<notin> desync s then (withdraw r s)\<lparr>desync := insert r (desync s)\<rparr> else s)"

definition replace_held :: "int \<Rightarrow> string set \<Rightarrow> scheduler \<Rightarrow> scheduler" where
  "replace_held r H s =
     (let s' = (withdraw r s)\<lparr>held := (held s)(r \<mapsto> H)\<rparr>
      in if r \<notin> desync s then publish r s' else s')"

definition begin_generation :: "int \<Rightarrow> string \<Rightarrow> int option \<Rightarrow> scheduler \<Rightarrow> scheduler" where
  "begin_generation r g e s =
     (withdraw r s)\<lparr>
       generations := (generations s)(r \<mapsto> g),
       epochs := (epochs s)(r := e),
       sequences := (sequences s)(r \<mapsto> 0),
       held := (held s)(r \<mapsto> {}),
       pendings := (pendings s)(r := None),
       checkpoints := (checkpoints s)(r := None),
       desync := desync s - {r},
       needs_checkpoint := needs_checkpoint s - {r}\<rparr>"

text \<open>\<open>del retired[:-n]\<close>: only the last \<open>n\<close> stay.\<close>

definition last_n :: "nat \<Rightarrow> 'a list \<Rightarrow> 'a list" where
  "last_n n xs = drop (length xs - n) xs"

definition accept_generation ::
    "int \<Rightarrow> string \<Rightarrow> int option \<Rightarrow> scheduler \<Rightarrow> bool \<times> scheduler" where
  "accept_generation r g e s =
     (let previous = generations s r
      in if previous = Some g
         then (case epochs s r of None \<Rightarrow> (True, s) | Some x \<Rightarrow> (e = Some x, s))
         else
           (let old = (case retired s r of None \<Rightarrow> [] | Some xs \<Rightarrow> xs);
                s0 = s\<lparr>retired := (retired s)(r \<mapsto> old)\<rparr>
            in if g \<in> set old then (False, s0)
               else if g = MISSING_GENERATION \<and> previous \<noteq> None then (False, s0)
               else
                 (let s1 = (case previous of
                      None \<Rightarrow> s0
                    | Some p \<Rightarrow> s0\<lparr>retired := (retired s0)(r \<mapsto> last_n (nat RETIRED) (old @ [p])),
                        q_counters := bump ''quorum_generation_resets'' 1 (q_counters s0)\<rparr>)
                  in (True, begin_generation r g e s1))))"

definition apply_delta :: "int \<Rightarrow> string set \<Rightarrow> string set \<Rightarrow> scheduler \<Rightarrow> scheduler" where
  "apply_delta r added removed s =
     (let s' = s\<lparr>held := (held s)(r \<mapsto> (held_of s r - removed) \<union> added)\<rparr>
      in if r \<in> desync s then s'
         else s'\<lparr>quorum := (\<lambda>d.
           (let R = (if d \<in> removed then discard_rank r (quorum s d) else quorum s d)
            in if d \<in> added then add_rank r R else R))\<rparr>)"

lemma apply_delta_simps [simp]:
  "pendings (apply_delta r A B s) = pendings s"
  "sequences (apply_delta r A B s) = sequences s"
  "desync (apply_delta r A B s) = desync s"
  "needs_checkpoint (apply_delta r A B s) = needs_checkpoint s"
  "generations (apply_delta r A B s) = generations s"
  "checkpoints (apply_delta r A B s) = checkpoints s"
  "tp_degree (apply_delta r A B s) = tp_degree s"
  "held (apply_delta r A B s) = (held s)(r \<mapsto> (held_of s r - B) \<union> A)"
  by (simp_all add: apply_delta_def Let_def)

text \<open>The \<open>while True\<close> loop of \<open>_drain_worker_deltas\<close>: every round removes a pending delta.\<close>

definition take_pending :: "int \<Rightarrow> delta \<Rightarrow> scheduler \<Rightarrow> scheduler" where
  "take_pending r x s =
     (let n = seq_of s r;
          s1 = s\<lparr>pendings := (pendings s)(r \<mapsto> ddel (n + 1) (pending_of s r))\<rparr>;
          s2 = apply_delta r (set (delta_added x)) (set (delta_removed x)) s1
      in s2\<lparr>sequences := (sequences s2)(r \<mapsto> n + 1)\<rparr>)"

lemma length_ddel_less: "dget d k = Some v \<Longrightarrow> length (ddel k d) < length d"
  by (induction d) (auto split: if_splits simp: less_Suc_eq_le length_ddel_le)

lemma pending_take: "pending_of (take_pending r x s) r = ddel (seq_of s r + 1) (pending_of s r)"
  by (simp add: take_pending_def Let_def pending_of_def)

function drain_loop :: "int \<Rightarrow> scheduler \<Rightarrow> scheduler" where
  "drain_loop r s =
     (case dget (pending_of s r) (seq_of s r + 1) of
        None \<Rightarrow> s
      | Some x \<Rightarrow> if delta_base x \<noteq> seq_of s r then s else drain_loop r (take_pending r x s))"
  by pat_completeness auto
termination
  by (relation "measure (\<lambda>(r, s). length (pending_of s r))")
     (auto simp: pending_take length_ddel_less)

declare drain_loop.simps [simp del]

definition drain_deltas :: "int \<Rightarrow> scheduler \<Rightarrow> scheduler" where
  "drain_deltas r s =
     (let s1 = drain_loop r (s\<lparr>pendings := (pendings s)(r \<mapsto> pending_of s r)\<rparr>)
      in if pending_of s1 r \<noteq> [] then mark_desynchronized r s1
         else if r \<in> needs_checkpoint s1 then mark_desynchronized r s1
         else if r \<in> desync s1 then publish r (s1\<lparr>desync := desync s1 - {r}\<rparr>)
         else s1)"

text \<open>The shape checks of \<open>_absorb_worker_delta\<close>: \<open>None\<close> is the early return.\<close>

definition parse_delta :: "pyval \<Rightarrow> delta option" where
  "parse_delta v =
     (case as_dict v of
        None \<Rightarrow> None
      | Some d \<Rightarrow>
          (case (as_int (py_get d ''sequence''), as_int (py_get d ''base_sequence''),
                 as_list (py_get d ''added''), as_list (py_get d ''removed'')) of
             (Some n, Some b, Some added, Some removed) \<Rightarrow>
               if n \<noteq> b + 1 \<or> b < 0 \<or> int (length added) + int (length removed) > BATCH then None
               else
                 (let A = set (digest_strings added); R = set (digest_strings removed)
                  in if card A \<noteq> length added \<or> card R \<noteq> length removed \<or> A \<inter> R \<noteq> {} then None
                     else Some \<lparr>delta_seq = n, delta_base = b,
                       delta_added = sorted_list_of_set A, delta_removed = sorted_list_of_set R\<rparr>)
           | _ \<Rightarrow> None))"

definition require_checkpoint :: "int \<Rightarrow> scheduler \<Rightarrow> scheduler" where
  "require_checkpoint r s =
     mark_desynchronized r (s\<lparr>needs_checkpoint := insert r (needs_checkpoint s)\<rparr>)"

definition put_pending :: "int \<Rightarrow> (int, delta) dict \<Rightarrow> scheduler \<Rightarrow> scheduler" where
  "put_pending r p s = s\<lparr>pendings := (pendings s)(r \<mapsto> p)\<rparr>"

definition store_delta :: "int \<Rightarrow> int \<Rightarrow> delta \<Rightarrow> (int, delta) dict \<Rightarrow> scheduler \<Rightarrow> scheduler" where
  "store_delta r accepted x p s =
     (let s1 = put_pending r (dput (delta_seq x) x p) s
      in drain_deltas r (if delta_base x \<noteq> accepted then mark_desynchronized r s1 else s1))"

definition absorb_delta :: "int \<Rightarrow> pyval \<Rightarrow> scheduler \<Rightarrow> scheduler" where
  "absorb_delta r v s =
     (case parse_delta v of
        None \<Rightarrow> s
      | Some x \<Rightarrow>
          (let accepted = seq_of s r
           in if delta_seq x \<le> accepted then s
              else
                (let p = pending_of s r; s0 = put_pending r p s
                 in case dget p (delta_seq x) of
                      Some y \<Rightarrow> if y \<noteq> x then require_checkpoint r s0 else s0
                    | None \<Rightarrow>
                        if int (length p) \<ge> PENDING then
                          (let top = Max (set (dkeys p)); s1 = require_checkpoint r s0
                           in if delta_seq x \<ge> top then s1
                              else store_delta r accepted x (ddel top p) s1)
                        else store_delta r accepted x p s0)))"

text \<open>The shape checks of \<open>_absorb_worker_checkpoint\<close>; \<open>math.ceil\<close> of the division by 64.\<close>

definition chunk_total :: "int \<Rightarrow> int" where
  "chunk_total n = max 1 ((n + BATCH - 1) div BATCH)"

definition parse_checkpoint :: "pyval \<Rightarrow> (int \<times> int \<times> int \<times> int \<times> int \<times> string list) option" where
  "parse_checkpoint v =
     (case as_dict v of
        None \<Rightarrow> None
      | Some d \<Rightarrow>
          (case (as_int (py_get d ''state_sequence''), as_int (py_get d ''cycle''),
                 as_int (py_get d ''index''), as_int (py_get d ''count''),
                 as_int (py_get d ''held_count''), as_list (py_get d ''held'')) of
             (Some n, Some c, Some i, Some k, Some h, Some vs) \<Rightarrow>
               if n < 0 \<or> c < 1 \<or> k < 1 \<or> \<not> (0 \<le> i \<and> i < k) \<or> h < 0 \<or> int (length vs) > BATCH then None
               else if k \<noteq> chunk_total h \<or> int (length vs) \<noteq> min BATCH (max 0 (h - i * BATCH)) then None
               else
                 (let chunk = digest_strings vs
                  in if length chunk \<noteq> length vs \<or> \<not> distinct chunk then None
                     else Some (n, c, i, k, h, chunk))
           | _ \<Rightarrow> None))"

definition put_checkpoint :: "int \<Rightarrow> checkpoint option \<Rightarrow> scheduler \<Rightarrow> scheduler" where
  "put_checkpoint r c s = s\<lparr>checkpoints := (checkpoints s)(r := c)\<rparr>"

text \<open>The assembled checkpoint replaces the inventory; older pending deltas are dropped and the
  rest are applied on top.\<close>

definition install_checkpoint :: "int \<Rightarrow> int \<Rightarrow> string set \<Rightarrow> scheduler \<Rightarrow> scheduler" where
  "install_checkpoint r n H s =
     (let s1 = replace_held r H (s\<lparr>desync := insert r (desync s)\<rparr>);
          s2 = s1\<lparr>sequences := (sequences s1)(r \<mapsto> n),
                 pendings := (pendings s1)(r \<mapsto> filter (\<lambda>(k, _). \<not> k \<le> n) (pending_of s1 r)),
                 needs_checkpoint := needs_checkpoint s1 - {r},
                 checkpoints := (checkpoints s1)(r := None)\<rparr>
      in drain_deltas r s2)"

definition finish_checkpoint :: "int \<Rightarrow> checkpoint \<Rightarrow> scheduler \<Rightarrow> scheduler" where
  "finish_checkpoint r a s =
     (if int (length (cp_chunks a)) \<noteq> cp_count a then s
      else
        (let H = \<Union>(set (map (\<lambda>j. set (the (dget (cp_chunks a) j))) [0..cp_count a - 1]))
         in if int (card H) \<noteq> cp_held_count a then require_checkpoint r s
            else install_checkpoint r (cp_state a) H s))"

definition add_chunk :: "int \<Rightarrow> checkpoint \<Rightarrow> int \<Rightarrow> string list \<Rightarrow> scheduler \<Rightarrow> scheduler" where
  "add_chunk r a i chunk s =
     (if dget (cp_chunks a) i \<noteq> None \<and> dget (cp_chunks a) i \<noteq> Some chunk then require_checkpoint r s
      else
        (let a' = a\<lparr>cp_chunks := dput i chunk (cp_chunks a)\<rparr>
         in finish_checkpoint r a' (put_checkpoint r (Some a') s)))"

definition absorb_checkpoint :: "int \<Rightarrow> pyval \<Rightarrow> scheduler \<Rightarrow> scheduler" where
  "absorb_checkpoint r v s =
     (case parse_checkpoint v of
        None \<Rightarrow> s
      | Some (n, c, i, k, h, chunk) \<Rightarrow>
          (let accepted = seq_of s r
           in if n < accepted then s
              else if n = accepted \<and> r \<notin> desync s \<and> r \<notin> needs_checkpoint s
                then put_checkpoint r None s
              else
                (let s1 = (if n > accepted then mark_desynchronized r s else s);
                     fresh = \<lparr>cp_state = n, cp_cycle = c, cp_count = k, cp_held_count = h,
                       cp_chunks = []\<rparr>
                 in case checkpoints s1 r of
                      None \<Rightarrow> add_chunk r fresh i chunk (put_checkpoint r (Some fresh) s1)
                    | Some a \<Rightarrow>
                        if n < cp_state a \<or> (n = cp_state a \<and> c < cp_cycle a) then s1
                        else if n \<noteq> cp_state a \<or> c \<noteq> cp_cycle a
                          then add_chunk r fresh i chunk (put_checkpoint r (Some fresh) s1)
                        else if cp_count a \<noteq> k \<or> cp_held_count a \<noteq> h then require_checkpoint r s1
                        else add_chunk r a i chunk s1)))"

definition report_generation :: "(string \<times> pyval) list \<Rightarrow> string" where
  "report_generation d =
     (case as_str (py_get d ''generation'') of
        Some g \<Rightarrow> if g = '''' then MISSING_GENERATION else g
      | None \<Rightarrow> MISSING_GENERATION)"

definition report_epoch :: "(string \<times> pyval) list \<Rightarrow> int option" where
  "report_epoch d =
     (case as_int (py_get d ''generation_epoch'') of
        Some e \<Rightarrow> if e < 0 then None else Some e
      | None \<Rightarrow> None)"

fun strings_of :: "pyval list \<Rightarrow> string set" where
  "strings_of [] = {}"
| "strings_of (v # vs) = (case as_str v of Some x \<Rightarrow> insert x (strings_of vs) | None \<Rightarrow> strings_of vs)"

text \<open>One round of the loop in \<open>_absorb_quorum\<close>: a versioned report carries a delta and a checkpoint
  chunk, an unversioned one the full set.\<close>

definition absorb_versioned ::
    "int \<Rightarrow> string \<Rightarrow> int option \<Rightarrow> pyval \<Rightarrow> pyval \<Rightarrow> scheduler \<Rightarrow> scheduler" where
  "absorb_versioned r g e delta_val checkpoint_val s =
     (let s1 = snd (accept_generation r g e s)
      in if \<not> fst (accept_generation r g e s) then s1
         else absorb_checkpoint r checkpoint_val (absorb_delta r delta_val s1))"

definition absorb_full_set ::
    "int \<Rightarrow> string \<Rightarrow> int option \<Rightarrow> pyval list \<Rightarrow> scheduler \<Rightarrow> scheduler" where
  "absorb_full_set r g e vs s =
     (let s1 = snd (accept_generation r g e s)
      in if \<not> fst (accept_generation r g e s) then s1
         else replace_held r (strings_of vs)
           (s1\<lparr>pendings := (pendings s1)(r := None),
               checkpoints := (checkpoints s1)(r := None),
               desync := desync s1 - {r},
               needs_checkpoint := needs_checkpoint s1 - {r}\<rparr>))"

definition absorb_report :: "pyval \<Rightarrow> scheduler \<Rightarrow> scheduler" where
  "absorb_report v s =
     (case as_dict v of
        None \<Rightarrow> s
      | Some d \<Rightarrow>
          (case as_int (py_get d ''rank'') of
             None \<Rightarrow> s
           | Some r \<Rightarrow>
               if \<not> (0 \<le> r \<and> r < tp_degree s) then s
               else if py_get d ''protocol'' = PStr DELTA_PROTOCOL then
                 (if report_generation d = MISSING_GENERATION \<or> report_epoch d = None then s
                  else absorb_versioned r (report_generation d) (report_epoch d)
                    (py_get d ''delta'') (py_get d ''checkpoint'') s)
               else
                 (case as_list (py_get d ''held'') of
                    None \<Rightarrow> s
                  | Some vs \<Rightarrow> absorb_full_set r (report_generation d) (report_epoch d) vs s)))"

definition absorb_quorum :: "pyval \<Rightarrow> scheduler \<Rightarrow> scheduler" where
  "absorb_quorum data s =
     (case as_dict data of
        None \<Rightarrow> s
      | Some d \<Rightarrow>
          (let payload = (case map_of d ''reports'' of
                            Some v \<Rightarrow> v | None \<Rightarrow> py_get d ''spark_context_cache'')
           in case as_list payload of
                Some rs \<Rightarrow> fold absorb_report rs s
              | None \<Rightarrow> absorb_report payload s))"

text \<open>The startup handshake at the scheduler: the metadata maps the transport's rank of every worker
  to the reports of its \<open>SparkCacheHandshakeMetadata\<close>, \<open>None\<close> standing for a value of another type.
  The rank a report claims is compared by Python's \<open>==\<close>, for which \<open>True\<close> is 1.\<close>

fun equals_int :: "pyval \<Rightarrow> int \<Rightarrow> bool" where
  "equals_int (PInt n) t = (n = t)"
| "equals_int (PBool b) t = ((if b then 1 else 0) = t)"
| "equals_int _ t = False"

definition absorb_handshake_report :: "int \<Rightarrow> pyval \<Rightarrow> scheduler \<Rightarrow> scheduler" where
  "absorb_handshake_report t v s =
     (case as_dict v of
        None \<Rightarrow> s
      | Some d \<Rightarrow> if \<not> equals_int (py_get d ''rank'') t then s
                  else absorb_quorum (PDict [(''reports'', PList [v])]) s)"

definition set_xfer_handshake_metadata ::
    "(int \<times> pyval list option) list \<Rightarrow> scheduler \<Rightarrow> scheduler" where
  "set_xfer_handshake_metadata metadata s =
     fold (\<lambda>(t, handshake) s. case handshake of None \<Rightarrow> s
            | Some reports \<Rightarrow> fold (absorb_handshake_report t) reports s)
       (sort_key fst metadata) s"

text \<open>\<open>self._quorum.pop(digest, None)\<close>, by which \<open>update_connector_output\<close> withdraws an entry that
  a load error condemned.\<close>

definition drop_digest :: "string \<Rightarrow> scheduler \<Rightarrow> scheduler" where
  "drop_digest d s = s\<lparr>quorum := (quorum s)(d := None)\<rparr>"

section \<open>Who is in the quorum: the published set is backed by the inventories\<close>

text \<open>\<open>backed_but r\<close> says it of every rank but \<open>r\<close>, the state some operations pass through.\<close>

definition backed_but :: "int \<Rightarrow> scheduler \<Rightarrow> bool" where
  "backed_but r0 s \<longleftrightarrow>
     (\<forall>d r. r \<in> ranks_of s d \<longrightarrow> r \<noteq> r0 \<longrightarrow> 0 \<le> r \<and> r < tp_degree s \<and>
       generations s r \<noteq> None \<and> r \<notin> desync s \<and> d \<in> held_of s r)"

definition backed :: "scheduler \<Rightarrow> bool" where
  "backed s \<longleftrightarrow>
     (\<forall>d r. r \<in> ranks_of s d \<longrightarrow> 0 \<le> r \<and> r < tp_degree s \<and>
       generations s r \<noteq> None \<and> r \<notin> desync s \<and> d \<in> held_of s r)"

text \<open>A physical worker that has reported.\<close>

definition physical :: "int \<Rightarrow> scheduler \<Rightarrow> bool" where
  "physical r s \<longleftrightarrow> 0 \<le> r \<and> r < tp_degree s \<and> generations s r \<noteq> None"

named_theorems ranks_simps

lemma discard_rank_ranks:
  "(case discard_rank r R of None \<Rightarrow> {} | Some X \<Rightarrow> X) = (case R of None \<Rightarrow> {} | Some X \<Rightarrow> X) - {r}"
  by (cases R) (auto simp: discard_rank_def)

lemma add_rank_ranks:
  "(case add_rank r R of None \<Rightarrow> {} | Some X \<Rightarrow> X) = insert r (case R of None \<Rightarrow> {} | Some X \<Rightarrow> X)"
  by (cases R) (auto simp: add_rank_def)

lemma ranks_of_withdraw [ranks_simps]: "ranks_of (withdraw r s) d = ranks_of s d - {r}"
  by (simp add: ranks_of_def withdraw_def discard_rank_ranks)

lemma ranks_of_publish [ranks_simps]:
  "ranks_of (publish r s) d = ranks_of s d \<union> (if d \<in> held_of s r then {r} else {})"
  by (simp add: ranks_of_def publish_def add_rank_ranks)

lemma ranks_of_mark [ranks_simps]:
  "ranks_of (mark_desynchronized r s) d = ranks_of s d - (if r \<in> desync s then {} else {r})"
  by (simp add: mark_desynchronized_def ranks_of_def withdraw_def discard_rank_ranks)

lemma ranks_of_apply_delta [ranks_simps]:
  "ranks_of (apply_delta r A B s) d =
     (if r \<in> desync s then ranks_of s d
      else (ranks_of s d - (if d \<in> B then {r} else {})) \<union> (if d \<in> A then {r} else {}))"
  by (auto simp: apply_delta_def Let_def ranks_of_def discard_rank_ranks add_rank_ranks)

lemma withdraw_fields [simp]:
  "tp_degree (withdraw r s) = tp_degree s" "generations (withdraw r s) = generations s"
  "epochs (withdraw r s) = epochs s" "sequences (withdraw r s) = sequences s"
  "held (withdraw r s) = held s" "pendings (withdraw r s) = pendings s"
  "checkpoints (withdraw r s) = checkpoints s" "desync (withdraw r s) = desync s"
  "needs_checkpoint (withdraw r s) = needs_checkpoint s" "retired (withdraw r s) = retired s"
  by (simp_all add: withdraw_def)

lemma publish_fields [simp]:
  "tp_degree (publish r s) = tp_degree s" "generations (publish r s) = generations s"
  "epochs (publish r s) = epochs s" "sequences (publish r s) = sequences s"
  "held (publish r s) = held s" "pendings (publish r s) = pendings s"
  "checkpoints (publish r s) = checkpoints s" "desync (publish r s) = desync s"
  "needs_checkpoint (publish r s) = needs_checkpoint s" "retired (publish r s) = retired s"
  by (simp_all add: publish_def)

lemma mark_fields [simp]:
  "tp_degree (mark_desynchronized r s) = tp_degree s"
  "generations (mark_desynchronized r s) = generations s"
  "epochs (mark_desynchronized r s) = epochs s"
  "sequences (mark_desynchronized r s) = sequences s"
  "held (mark_desynchronized r s) = held s"
  "pendings (mark_desynchronized r s) = pendings s"
  "checkpoints (mark_desynchronized r s) = checkpoints s"
  "desync (mark_desynchronized r s) = insert r (desync s)"
  "needs_checkpoint (mark_desynchronized r s) = needs_checkpoint s"
  by (auto simp: mark_desynchronized_def)

lemma require_fields [simp]:
  "tp_degree (require_checkpoint r s) = tp_degree s"
  "generations (require_checkpoint r s) = generations s"
  "epochs (require_checkpoint r s) = epochs s"
  "sequences (require_checkpoint r s) = sequences s"
  "held (require_checkpoint r s) = held s"
  "pendings (require_checkpoint r s) = pendings s"
  "checkpoints (require_checkpoint r s) = checkpoints s"
  "desync (require_checkpoint r s) = insert r (desync s)"
  by (simp_all add: require_checkpoint_def)

lemma put_pending_fields [simp]:
  "tp_degree (put_pending r p s) = tp_degree s"
  "generations (put_pending r p s) = generations s"
  "epochs (put_pending r p s) = epochs s"
  "sequences (put_pending r p s) = sequences s"
  "held (put_pending r p s) = held s"
  "pendings (put_pending r p s) = (pendings s)(r \<mapsto> p)"
  "checkpoints (put_pending r p s) = checkpoints s"
  "desync (put_pending r p s) = desync s"
  "needs_checkpoint (put_pending r p s) = needs_checkpoint s"
  "quorum (put_pending r p s) = quorum s"
  by (simp_all add: put_pending_def)

lemma put_checkpoint_fields [simp]:
  "tp_degree (put_checkpoint r c s) = tp_degree s"
  "generations (put_checkpoint r c s) = generations s"
  "epochs (put_checkpoint r c s) = epochs s"
  "sequences (put_checkpoint r c s) = sequences s"
  "held (put_checkpoint r c s) = held s"
  "pendings (put_checkpoint r c s) = pendings s"
  "checkpoints (put_checkpoint r c s) = (checkpoints s)(r := c)"
  "desync (put_checkpoint r c s) = desync s"
  "needs_checkpoint (put_checkpoint r c s) = needs_checkpoint s"
  "quorum (put_checkpoint r c s) = quorum s"
  by (simp_all add: put_checkpoint_def)

lemma epochs_apply_delta [simp]: "epochs (apply_delta r A B s) = epochs s"
  by (simp add: apply_delta_def Let_def)

lemma take_pending_fields [simp]:
  "tp_degree (take_pending r x s) = tp_degree s"
  "generations (take_pending r x s) = generations s"
  "epochs (take_pending r x s) = epochs s"
  "sequences (take_pending r x s) = (sequences s)(r \<mapsto> seq_of s r + 1)"
  "held (take_pending r x s) = (held s)(r \<mapsto> (held_of s r - set (delta_removed x)) \<union> set (delta_added x))"
  "pendings (take_pending r x s) = (pendings s)(r \<mapsto> ddel (seq_of s r + 1) (pending_of s r))"
  "checkpoints (take_pending r x s) = checkpoints s"
  "desync (take_pending r x s) = desync s"
  "needs_checkpoint (take_pending r x s) = needs_checkpoint s"
  by (simp_all add: take_pending_def Let_def held_of_def)

lemma held_of_cong: "held s r = held t r \<Longrightarrow> held_of s r = held_of t r"
  by (simp add: held_of_def)

lemma seq_of_cong: "sequences s r = sequences t r \<Longrightarrow> seq_of s r = seq_of t r"
  by (simp add: seq_of_def)

lemma pending_of_cong: "pendings s r = pendings t r \<Longrightarrow> pending_of s r = pending_of t r"
  by (simp add: pending_of_def)

lemma ranks_of_quorum: "quorum s = quorum t \<Longrightarrow> ranks_of s d = ranks_of t d"
  by (simp add: ranks_of_def)

text \<open>The frame: an operation on one rank leaves every other rank's inventory alone.\<close>

definition frame :: "int \<Rightarrow> scheduler \<Rightarrow> scheduler \<Rightarrow> bool" where
  "frame r s t \<longleftrightarrow> tp_degree t = tp_degree s \<and> generations t = generations s \<and> epochs t = epochs s \<and>
     (\<forall>r'. r' \<noteq> r \<longrightarrow> sequences t r' = sequences s r' \<and> held t r' = held s r' \<and>
       pendings t r' = pendings s r' \<and> checkpoints t r' = checkpoints s r')"

named_theorems frame_intros

lemma frame_primitives [frame_intros]:
  "frame r s s"
  "frame r s t \<Longrightarrow> frame r s (withdraw r t)"
  "frame r s t \<Longrightarrow> frame r s (publish r t)"
  "frame r s t \<Longrightarrow> frame r s (mark_desynchronized r t)"
  "frame r s t \<Longrightarrow> frame r s (require_checkpoint r t)"
  "frame r s t \<Longrightarrow> frame r s (put_pending r p t)"
  "frame r s t \<Longrightarrow> frame r s (put_checkpoint r c t)"
  "frame r s t \<Longrightarrow> frame r s (take_pending r x t)"
  "frame r s t \<Longrightarrow> frame r s (t\<lparr>desync := D\<rparr>)"
  "frame r s t \<Longrightarrow> frame r s (t\<lparr>needs_checkpoint := D\<rparr>)"
  "frame r s t \<Longrightarrow> frame r s (t\<lparr>held := (held t)(r := H)\<rparr>)"
  "frame r s t \<Longrightarrow> frame r s (t\<lparr>pendings := (pendings t)(r := P)\<rparr>)"
  "frame r s t \<Longrightarrow> frame r s (t\<lparr>sequences := (sequences t)(r := q)\<rparr>)"
  "frame r s t \<Longrightarrow> frame r s (t\<lparr>checkpoints := (checkpoints t)(r := C)\<rparr>)"
  by (simp_all add: frame_def)

lemma frame_drain_loop [frame_intros]: "frame r s t \<Longrightarrow> frame r s (drain_loop r t)"
proof (induction r t rule: drain_loop.induct)
  case (1 r t)
  then show ?case
    by (subst drain_loop.simps) (auto split: option.splits intro: frame_intros)
qed

lemma frame_drain_deltas [frame_intros]: "frame r s t \<Longrightarrow> frame r s (drain_deltas r t)"
  by (auto simp: drain_deltas_def Let_def intro!: frame_intros)

lemma frame_store_delta [frame_intros]: "frame r s t \<Longrightarrow> frame r s (store_delta r n x p t)"
  by (simp add: store_delta_def Let_def frame_intros)

lemma frame_absorb_delta [frame_intros]: "frame r s t \<Longrightarrow> frame r s (absorb_delta r v t)"
  by (auto simp: absorb_delta_def Let_def split: option.splits intro!: frame_intros)

lemma frame_replace_held [frame_intros]: "frame r s t \<Longrightarrow> frame r s (replace_held r H t)"
  using frame_primitives(11) [of r s "withdraw r t" "Some H"]
  by (simp add: replace_held_def Let_def frame_intros)

lemma install_checkpoint_eq:
  "install_checkpoint r n H s =
     (let s1 = replace_held r H (s\<lparr>desync := insert r (desync s)\<rparr>);
          s2 = s1\<lparr>sequences := (sequences s1)(r \<mapsto> n)\<rparr>;
          s3 = s2\<lparr>pendings := (pendings s2)(r \<mapsto> filter (\<lambda>(k, _). \<not> k \<le> n) (pending_of s1 r))\<rparr>;
          s4 = s3\<lparr>needs_checkpoint := needs_checkpoint s3 - {r}\<rparr>
      in drain_deltas r (s4\<lparr>checkpoints := (checkpoints s4)(r := None)\<rparr>))"
  by (simp add: install_checkpoint_def Let_def)

lemma frame_install_checkpoint [frame_intros]:
  "frame r s t \<Longrightarrow> frame r s (install_checkpoint r n H t)"
  unfolding install_checkpoint_eq Let_def by (intro frame_intros)

lemma frame_add_chunk [frame_intros]: "frame r s t \<Longrightarrow> frame r s (add_chunk r a i c t)"
  by (simp add: add_chunk_def finish_checkpoint_def Let_def frame_intros)

lemma frame_absorb_checkpoint [frame_intros]:
  "frame r s t \<Longrightarrow> frame r s (absorb_checkpoint r v t)"
  by (auto simp: absorb_checkpoint_def Let_def split: option.splits prod.splits intro!: frame_intros)

text \<open>Every scheduler operation on a physical rank keeps the published set backed.\<close>

definition unpublished :: "int \<Rightarrow> scheduler \<Rightarrow> bool" where
  "unpublished r s \<longleftrightarrow> (\<forall>d. r \<notin> ranks_of s d)"

lemma backed_but_all: "backed s \<Longrightarrow> backed_but r s"
  by (simp add: backed_def backed_but_def)

lemma backed_unpublished: "backed_but r s \<Longrightarrow> unpublished r s \<Longrightarrow> backed s"
  unfolding backed_def backed_but_def unpublished_def by metis

lemma unpublished_desync: "backed s \<Longrightarrow> r \<in> desync s \<Longrightarrow> unpublished r s"
  by (auto simp: backed_def unpublished_def)

lemma unpublished_withdraw [simp]: "unpublished r (withdraw r s)"
  by (simp add: unpublished_def ranks_simps)

lemma ranks_of_fields [simp]:
  "ranks_of (s\<lparr>held := a\<rparr>) = ranks_of s" "ranks_of (s\<lparr>sequences := b\<rparr>) = ranks_of s"
  "ranks_of (s\<lparr>pendings := c\<rparr>) = ranks_of s" "ranks_of (s\<lparr>checkpoints := e\<rparr>) = ranks_of s"
  "ranks_of (s\<lparr>desync := f\<rparr>) = ranks_of s" "ranks_of (s\<lparr>needs_checkpoint := h\<rparr>) = ranks_of s"
  "ranks_of (s\<lparr>generations := i\<rparr>) = ranks_of s" "ranks_of (s\<lparr>epochs := j\<rparr>) = ranks_of s"
  "ranks_of (s\<lparr>retired := k\<rparr>) = ranks_of s" "ranks_of (s\<lparr>q_counters := l\<rparr>) = ranks_of s"
  by (simp_all add: ranks_of_def fun_eq_iff)

lemma held_of_fields [simp]:
  "held_of (s\<lparr>quorum := a\<rparr>) = held_of s" "held_of (s\<lparr>sequences := b\<rparr>) = held_of s"
  "held_of (s\<lparr>pendings := c\<rparr>) = held_of s" "held_of (s\<lparr>checkpoints := e\<rparr>) = held_of s"
  "held_of (s\<lparr>desync := f\<rparr>) = held_of s" "held_of (s\<lparr>needs_checkpoint := h\<rparr>) = held_of s"
  "held_of (s\<lparr>generations := i\<rparr>) = held_of s" "held_of (s\<lparr>epochs := j\<rparr>) = held_of s"
  "held_of (s\<lparr>retired := k\<rparr>) = held_of s" "held_of (s\<lparr>q_counters := l\<rparr>) = held_of s"
  by (simp_all add: held_of_def fun_eq_iff)

lemma held_of_update: "held_of (s\<lparr>held := (held t)(r \<mapsto> H)\<rparr>) = (held_of t)(r := H)"
  by (simp add: held_of_def fun_eq_iff)

lemma ops_held_of [simp]:
  "held_of (withdraw r s) = held_of s" "held_of (publish r s) = held_of s"
  "held_of (mark_desynchronized r s) = held_of s" "held_of (require_checkpoint r s) = held_of s"
  "held_of (put_pending r p s) = held_of s" "held_of (put_checkpoint r c s) = held_of s"
  by (simp_all add: held_of_def fun_eq_iff)

lemma ops_ranks_of [simp]:
  "ranks_of (put_pending r p s) = ranks_of s" "ranks_of (put_checkpoint r c s) = ranks_of s"
  by (simp_all add: ranks_of_def fun_eq_iff)

named_theorems backed_intros

lemma backed_fields [backed_intros]:
  "backed s \<Longrightarrow> backed (s\<lparr>sequences := b\<rparr>)"
  "backed s \<Longrightarrow> backed (s\<lparr>pendings := c\<rparr>)"
  "backed s \<Longrightarrow> backed (s\<lparr>checkpoints := e\<rparr>)"
  "backed s \<Longrightarrow> backed (s\<lparr>needs_checkpoint := h\<rparr>)"
  "backed s \<Longrightarrow> backed (s\<lparr>desync := desync s - {r}\<rparr>)"
  "backed s \<Longrightarrow> backed (withdraw r s)"
  "backed s \<Longrightarrow> backed (mark_desynchronized r s)"
  "backed s \<Longrightarrow> backed (put_pending r p s)"
  "backed s \<Longrightarrow> backed (put_checkpoint r k s)"
  by (auto simp: backed_def ranks_simps)

lemma backed_require [backed_intros]: "backed s \<Longrightarrow> backed (require_checkpoint r s)"
  by (simp add: require_checkpoint_def backed_intros)

lemma backed_publish: "backed s \<Longrightarrow> physical r s \<Longrightarrow> r \<notin> desync s \<Longrightarrow> backed (publish r s)"
  by (auto simp: backed_def physical_def ranks_simps)

lemma ranks_of_take_pending:
  "ranks_of (take_pending r x s) d =
     (if r \<in> desync s then ranks_of s d
      else (ranks_of s d - (if d \<in> set (delta_removed x) then {r} else {})) \<union>
        (if d \<in> set (delta_added x) then {r} else {}))"
  by (simp add: take_pending_def Let_def ranks_simps)

lemma backed_take_pending: "backed s \<Longrightarrow> physical r s \<Longrightarrow> backed (take_pending r x s)"
  by (auto simp: backed_def physical_def ranks_of_take_pending held_of_def split: if_splits)

lemma physical_take: "physical r s \<Longrightarrow> physical r (take_pending r x s)"
  by (simp add: physical_def)

lemma backed_drain_loop: "backed s \<Longrightarrow> physical r s \<Longrightarrow> backed (drain_loop r s)"
proof (induction r s rule: drain_loop.induct)
  case (1 r s)
  then show ?case
    by (subst drain_loop.simps) (auto split: option.splits intro: backed_take_pending physical_take)
qed

lemma frame_physical: "frame r s t \<Longrightarrow> physical r t \<longleftrightarrow> physical r s"
  by (simp add: frame_def physical_def)

lemma backed_drain_deltas [backed_intros]:
  assumes "backed s" "physical r s"
  shows "backed (drain_deltas r s)"
proof -
  let ?s = "s\<lparr>pendings := (pendings s)(r \<mapsto> pending_of s r)\<rparr>"
  have "frame r s (drain_loop r ?s)" by (intro frame_intros)
  with assms(2) have p: "physical r (drain_loop r ?s)" by (simp add: frame_physical)
  have b: "backed (drain_loop r ?s)"
    using assms by (intro backed_drain_loop backed_intros) (simp_all add: physical_def)
  have "backed (publish r (drain_loop r ?s\<lparr>desync := desync (drain_loop r ?s) - {r}\<rparr>))"
    using b p by (intro backed_publish backed_intros) (auto simp: physical_def)
  then show ?thesis using b by (simp add: drain_deltas_def Let_def backed_intros)
qed

lemma ops_physical [simp]:
  "physical r (put_pending r' p s) = physical r s" "physical r (require_checkpoint r' s) = physical r s"
  "physical r (mark_desynchronized r' s) = physical r s"
  "physical r (put_checkpoint r' k s) = physical r s"
  by (simp_all add: physical_def)

lemma backed_absorb_delta: "backed s \<Longrightarrow> physical r s \<Longrightarrow> backed (absorb_delta r v s)"
  by (auto simp: absorb_delta_def store_delta_def Let_def split: option.splits intro!: backed_intros)

lemma backed_replace_held:
  assumes "backed_but r s" "physical r s"
  shows "backed (replace_held r H s)"
proof -
  let ?s = "(withdraw r s)\<lparr>held := (held s)(r \<mapsto> H)\<rparr>"
  have "backed_but r ?s"
    using assms(1) by (auto simp: backed_but_def ranks_simps held_of_update)
  moreover have "unpublished r ?s" by (simp add: unpublished_def ranks_simps)
  ultimately have b: "backed ?s" by (rule backed_unpublished)
  show ?thesis
  proof (cases "r \<in> desync s")
    case False
    then have "backed (publish r ?s)" using b assms(2) by (intro backed_publish) (simp_all add: physical_def)
    with False show ?thesis by (simp add: replace_held_def Let_def)
  qed (use b in \<open>simp add: replace_held_def Let_def\<close>)
qed

lemma backed_install_checkpoint [backed_intros]:
  assumes "backed s" "physical r s"
  shows "backed (install_checkpoint r n H s)"
proof -
  let ?s = "s\<lparr>desync := insert r (desync s)\<rparr>"
  have "backed_but r ?s" using assms(1) by (auto simp: backed_def backed_but_def)
  then have b: "backed (replace_held r H ?s)"
    using assms(2) by (intro backed_replace_held) (simp_all add: physical_def)
  have "frame r s (replace_held r H ?s)" by (intro frame_intros)
  then have "physical r (replace_held r H ?s)" using assms(2) by (simp add: frame_physical)
  then show ?thesis using b
    unfolding install_checkpoint_eq Let_def by (intro backed_intros) (simp_all add: physical_def)
qed

lemma backed_add_chunk [backed_intros]:
  "backed s \<Longrightarrow> physical r s \<Longrightarrow> backed (add_chunk r a i c s)"
  by (simp add: add_chunk_def finish_checkpoint_def Let_def backed_intros)

lemma backed_absorb_checkpoint:
  "backed s \<Longrightarrow> physical r s \<Longrightarrow> backed (absorb_checkpoint r v s)"
  by (auto simp: absorb_checkpoint_def Let_def split: option.splits prod.splits intro!: backed_intros)

lemma backed_begin_generation: "backed s \<Longrightarrow> backed (begin_generation r g e s)"
  by (intro backed_unpublished [of r])
     (auto simp: begin_generation_def backed_def backed_but_def unpublished_def ranks_simps held_of_def)

lemma backed_retire: "backed s \<Longrightarrow> backed (s\<lparr>retired := x\<rparr>)" "backed s \<Longrightarrow> backed (s\<lparr>q_counters := y\<rparr>)"
  by (simp_all add: backed_def)

lemma backed_accept: "backed s \<Longrightarrow> backed (snd (accept_generation r g e s))"
  by (auto simp: accept_generation_def Let_def split: option.splits
      intro!: backed_retire backed_begin_generation)

lemma tp_accept [simp]: "tp_degree (snd (accept_generation r g e s)) = tp_degree s"
  by (auto simp: accept_generation_def begin_generation_def Let_def split: option.splits)

lemma accepted_known:
  "fst (accept_generation r g e s) \<Longrightarrow> generations (snd (accept_generation r g e s)) r = Some g"
  by (auto simp: accept_generation_def begin_generation_def Let_def split: option.splits if_splits)

lemma backed_absorb_versioned:
  assumes "backed s" "0 \<le> r" "r < tp_degree s"
  shows "backed (absorb_versioned r g e x c s)"
proof (cases "fst (accept_generation r g e s)")
  case True
  let ?s = "snd (accept_generation r g e s)"
  have b: "backed ?s" and p: "physical r ?s"
    using assms accepted_known [OF True] by (simp_all add: backed_accept physical_def)
  have "frame r ?s (absorb_delta r x ?s)" by (intro frame_intros)
  with p have "physical r (absorb_delta r x ?s)" by (simp add: frame_physical)
  with b p show ?thesis
    by (simp add: absorb_versioned_def Let_def backed_absorb_checkpoint backed_absorb_delta)
qed (simp add: absorb_versioned_def Let_def assms backed_accept)

lemma backed_absorb_full_set:
  assumes "backed s" "0 \<le> r" "r < tp_degree s"
  shows "backed (absorb_full_set r g e vs s)"
proof (cases "fst (accept_generation r g e s)")
  case True
  let ?s = "snd (accept_generation r g e s)"
  have b: "backed ?s" using assms(1) by (rule backed_accept)
  then have "backed_but r (?s\<lparr>pendings := (pendings ?s)(r := None),
      checkpoints := (checkpoints ?s)(r := None), desync := desync ?s - {r},
      needs_checkpoint := needs_checkpoint ?s - {r}\<rparr>)"
    by (auto simp: backed_def backed_but_def)
  then show ?thesis
    using assms(2,3) accepted_known [OF True]
    by (auto simp: absorb_full_set_def Let_def physical_def True intro!: backed_replace_held)
qed (simp add: absorb_full_set_def Let_def assms backed_accept)

lemma backed_absorb_report: "backed s \<Longrightarrow> backed (absorb_report v s)"
  by (auto simp: absorb_report_def split: option.splits
      intro!: backed_absorb_versioned backed_absorb_full_set)

text \<open>The scheduler as a state machine: any data may arrive, in a statistics report or in the startup
  handshake, and any entry may be dropped.\<close>

definition reports_of :: "pyval \<Rightarrow> pyval list" where
  "reports_of data =
     (case as_dict data of
        None \<Rightarrow> []
      | Some d \<Rightarrow>
          (let payload = (case map_of d ''reports'' of
                            Some v \<Rightarrow> v | None \<Rightarrow> py_get d ''spark_context_cache'')
           in case as_list payload of Some rs \<Rightarrow> rs | None \<Rightarrow> [payload]))"

lemma absorb_quorum_fold: "absorb_quorum data s = fold absorb_report (reports_of data) s"
  by (simp add: absorb_quorum_def reports_of_def Let_def split: option.split)

lemma absorb_handshake_report_cases:
  "absorb_handshake_report t v s = s \<or> absorb_handshake_report t v s = absorb_report v s"
  by (auto simp: absorb_handshake_report_def absorb_quorum_def py_get_def split: option.split)

text \<open>What every absorbed report keeps, the handshake keeps.\<close>

lemma set_xfer_handshake_keeps:
  assumes "P s"
    and step: "\<And>t reports v u. (t, Some reports) \<in> set metadata \<Longrightarrow> v \<in> set reports \<Longrightarrow> P u \<Longrightarrow>
      P (absorb_report v u)"
  shows "P (set_xfer_handshake_metadata metadata s)"
proof -
  have inner: "P (fold (absorb_handshake_report t) vs u)"
    if "(t, Some reports) \<in> set metadata" "set vs \<subseteq> set reports" "P u" for t reports vs u
    using that(2,3)
  proof (induction vs arbitrary: u)
    case (Cons v vs)
    then have "P (absorb_report v u)" using step [OF that(1)] by simp
    then have "P (absorb_handshake_report t v u)"
      using absorb_handshake_report_cases [of t v u] Cons.prems by presburger
    then show ?case using Cons by simp
  qed simp
  have "P (fold (\<lambda>(t, handshake) s. case handshake of None \<Rightarrow> s
            | Some reports \<Rightarrow> fold (absorb_handshake_report t) reports s) ms u)"
    if "set ms \<subseteq> set metadata" "P u" for ms u
    using that
  proof (induction ms arbitrary: u)
    case (Cons m ms)
    obtain t h where m: "m = (t, h)" by (cases m)
    have "P (case h of None \<Rightarrow> u | Some reports \<Rightarrow> fold (absorb_handshake_report t) reports u)"
    proof (cases h)
      case (Some reports)
      have "P (fold (absorb_handshake_report t) reports u)"
        using inner [of t reports reports u] Cons.prems Some m by simp
      then show ?thesis by (simp add: Some)
    qed (simp add: Cons.prems(2))
    then show ?case using Cons.IH Cons.prems(1) m by simp
  qed simp
  then show ?thesis using assms(1) by (simp add: set_xfer_handshake_metadata_def)
qed

inductive scheduler_step :: "scheduler \<Rightarrow> scheduler \<Rightarrow> bool" where
  absorb: "scheduler_step s (absorb_quorum data s)"
| handshake: "scheduler_step s (set_xfer_handshake_metadata metadata s)"
| drop: "scheduler_step s (drop_digest d s)"

inductive_cases scheduler_stepE: "scheduler_step s t"

definition empty_scheduler :: "scheduler \<Rightarrow> bool" where
  "empty_scheduler s \<longleftrightarrow> (\<exists>tp. s = new_scheduler tp)"

lemma backed_fold: "backed s \<Longrightarrow> backed (fold absorb_report vs s)"
  by (induction vs arbitrary: s) (simp_all add: backed_absorb_report)

lemma backed_drop: "backed s \<Longrightarrow> backed (drop_digest d s)"
  by (auto simp: backed_def drop_digest_def ranks_of_def split: if_splits)

interpretation quorum_machine: invariant_system empty_scheduler scheduler_step backed
proof
  show "backed s" if "empty_scheduler s" for s
    using that by (auto simp: empty_scheduler_def backed_def new_scheduler_def ranks_of_def)
  show "backed t" if "scheduler_step s t" "backed s" for s t
    using that by (auto simp: absorb_quorum_fold backed_fold backed_drop
        elim!: scheduler_stepE intro: set_xfer_handshake_keeps backed_absorb_report)
qed

lemma has_full_quorum_iff:
  "has_full_quorum s d \<longleftrightarrow> (\<forall>r. 0 \<le> r \<and> r < tp_degree s \<longrightarrow> r \<in> ranks_of s d)"
  by (auto simp: has_full_quorum_def list_all_iff)

text \<open>C14: Whatever data reaches the scheduler, malformed or hostile reports included, a digest has
  the full quorum only when every physical worker is synchronised and the inventory last
  accepted from it holds the digest.\<close>

theorem full_quorum_backed:
  assumes "rtranclp scheduler_step (new_scheduler tp) s" "has_full_quorum s d"
    "0 \<le> r" "r < tp_degree s"
  shows "r \<notin> desync s \<and> d \<in> held_of s r"
proof -
  have "backed s"
    using quorum_machine.reachable_inv [of "new_scheduler tp"] assms(1)
    by (auto simp: empty_scheduler_def)
  with assms(2-4) show ?thesis by (auto simp: has_full_quorum_iff backed_def)
qed

definition demo_digest :: string where
  "demo_digest = replicate 64 (CHR ''a'')"

definition full_set_data :: "int \<Rightarrow> string list \<Rightarrow> pyval" where
  "full_set_data r ds = PDict [(''reports'', PList [PDict [(''rank'', PInt r),
     (''generation'', PStr ''g1''), (''held'', PList (map PStr ds))]])]"

lemmas quorum_eval =
  absorb_quorum_def absorb_report_def absorb_full_set_def accept_generation_def
  begin_generation_def replace_held_def publish_def withdraw_def discard_rank_def add_rank_def
  report_generation_def report_epoch_def new_scheduler_def py_get_def full_set_data_def
  held_of_def DELTA_PROTOCOL_def MISSING_GENERATION_def Let_def

theorem full_quorum_backed_witness:
  "(0::int) \<notin> desync (absorb_quorum (full_set_data 0 [demo_digest]) (new_scheduler 1)) \<and>
   demo_digest \<in> held_of (absorb_quorum (full_set_data 0 [demo_digest]) (new_scheduler 1)) 0"
proof (rule full_quorum_backed)
  let ?s = "absorb_quorum (full_set_data 0 [demo_digest]) (new_scheduler 1)"
  show "rtranclp scheduler_step (new_scheduler 1) ?s"
    by (rule r_into_rtranclp) (rule scheduler_step.absorb)
  have tp: "tp_degree ?s = 1" by (simp add: quorum_eval)
  then show "0 < tp_degree ?s" by simp
  have "0 \<in> ranks_of ?s demo_digest" by (simp add: quorum_eval ranks_of_def)
  then show "has_full_quorum ?s demo_digest" by (simp add: has_full_quorum_def tp)
qed simp

end
