(* ===== verification/Quorum_Channel.thy ===== *)
theory Quorum_Channel
  imports Quorum
begin

text \<open>
  The worker's half of the admission quorum (\<open>_build_quorum_report_locked\<close> of
  \<open>sparkcache/spark_context_cache_connector.py\<close>) and the protocol as a whole: worker processes
  build reports while their inventories change, the network loses, repeats and reorders what they
  sent, workers restart under new generations, and the scheduler absorbs whatever arrives. The
  startup handshake (\<open>get_handshake_metadata\<close>) is a second kind of report: it announces at most 512 digests
  under the sequence number the next statistics report will use, and the scheduler absorbs it like the
  others. The ghosts \<open>snapshots\<close> and \<open>announced\<close> remember which inventory each sequence number of a
  process stood for and what was announced under it.
\<close>

section \<open>Worker state and report\<close>

record worker =
  w_rank :: int
  w_generation :: string
  w_epoch :: int
  w_object :: nat
  w_inventory :: held_inventory
  w_seen_object :: "nat option"
  w_observed_held :: "string set"
  w_observed_revision :: int
  w_sequence :: int
  w_history :: "delta list"
  w_cursor :: nat
  w_items :: "string list"
  w_cp_sequence :: int
  w_cp_cycle :: int
  w_cp_index :: int

text \<open>The fields as \<open>__init__\<close> leaves them; \<open>_held\<close> starts as an empty inventory. Two inventory
  objects are told apart by the number \<open>w_object\<close>, which stands for the object's identity.\<close>

definition new_worker :: "int \<Rightarrow> string \<Rightarrow> int \<Rightarrow> worker" where
  "new_worker r g e = \<lparr>w_rank = r, w_generation = g, w_epoch = e, w_object = 0,
     w_inventory = HeldInventory [], w_seen_object = None, w_observed_held = {},
     w_observed_revision = -1, w_sequence = 0, w_history = [], w_cursor = 0, w_items = [],
     w_cp_sequence = 0, w_cp_cycle = 1, w_cp_index = 0\<rparr>"

text \<open>The \<open>_held\<close> setter with a value that is not the present inventory.\<close>

definition assign_held :: "string list \<Rightarrow> worker \<Rightarrow> worker" where
  "assign_held vs w = w\<lparr>w_object := Suc (w_object w), w_inventory := HeldInventory vs\<rparr>"

text \<open>A change of the observed inventory becomes a new sequence number and restarts the checkpoint
  cycle; it is put on the delta history only when it fits into one batch.\<close>

definition record_delta :: "string set \<Rightarrow> string set \<Rightarrow> worker \<Rightarrow> worker" where
  "record_delta added removed w =
     (if int (card added) + int (card removed) \<le> BATCH then
        (let h = w_history w @ [\<lparr>delta_seq = w_sequence w, delta_base = w_sequence w - 1,
                   delta_added = sorted_list_of_set added,
                   delta_removed = sorted_list_of_set removed\<rparr>];
             h' = (if int (length h) > HISTORY then last_n (nat HISTORY) h else h)
         in w\<lparr>w_history := h', w_cursor := w_cursor w mod length h'\<rparr>)
      else w)"

definition observe_inventory :: "worker \<Rightarrow> worker" where
  "observe_inventory w =
     (let inventory = w_inventory w in
      if w_seen_object w \<noteq> Some (w_object w) \<or> w_observed_revision w \<noteq> revision inventory then
        (let H = hvalues inventory;
             w1 = (if H \<noteq> w_observed_held w then
                     (let n = w_sequence w + 1;
                          w0 = record_delta (H - w_observed_held w) (w_observed_held w - H)
                                 (w\<lparr>w_sequence := n\<rparr>)
                      in w0\<lparr>w_observed_held := H, w_items := sorted_list_of_set H,
                          w_cp_sequence := n, w_cp_cycle := w_cp_cycle w0 + 1, w_cp_index := 0\<rparr>)
                   else w)
         in w1\<lparr>w_seen_object := Some (w_object w), w_observed_revision := revision inventory\<rparr>)
      else w)"

definition slice :: "int \<Rightarrow> 'a list \<Rightarrow> 'a list" where
  "slice i xs = take (nat BATCH) (drop (nat (i * BATCH)) xs)"

definition checkpoint_value :: "worker \<Rightarrow> pyval" where
  "checkpoint_value w = PDict [
     (''state_sequence'', PInt (w_cp_sequence w)),
     (''cycle'', PInt (w_cp_cycle w)),
     (''index'', PInt (w_cp_index w)),
     (''count'', PInt (chunk_total (int (length (w_items w))))),
     (''held_count'', PInt (int (length (w_items w)))),
     (''held'', PList (map PStr (slice (w_cp_index w) (w_items w))))]"

definition advance_checkpoint :: "worker \<Rightarrow> worker" where
  "advance_checkpoint w =
     (let i = w_cp_index w + 1
      in if i \<ge> chunk_total (int (length (w_items w)))
         then w\<lparr>w_cp_cycle := w_cp_cycle w + 1, w_cp_index := 0\<rparr>
         else w\<lparr>w_cp_index := i\<rparr>)"

definition delta_value :: "delta \<Rightarrow> pyval" where
  "delta_value x = PDict [
     (''sequence'', PInt (delta_seq x)),
     (''base_sequence'', PInt (delta_base x)),
     (''added'', PList (map PStr (delta_added x))),
     (''removed'', PList (map PStr (delta_removed x)))]"

definition delta_field :: "worker \<Rightarrow> (string \<times> pyval) list" where
  "delta_field w =
     (if w_history w = [] then []
      else [(''delta'', delta_value (w_history w ! (w_cursor w mod length (w_history w))))])"

definition advance_cursor :: "worker \<Rightarrow> worker" where
  "advance_cursor w =
     (if w_history w = [] then w
      else w\<lparr>w_cursor := (w_cursor w mod length (w_history w) + 1) mod length (w_history w)\<rparr>)"

definition build_report :: "worker \<Rightarrow> pyval \<times> worker" where
  "build_report w0 =
     (let w = observe_inventory w0 in
      (PDict ([
         (''rank'', PInt (w_rank w)),
         (''protocol'', PStr DELTA_PROTOCOL),
         (''generation'', PStr (w_generation w)),
         (''generation_epoch'', PInt (w_epoch w)),
         (''held_count'', PInt (int (card (hvalues (w_inventory w))))),
         (''held'', PList []),
         (''checkpoint'', checkpoint_value w)] @ delta_field w),
       advance_cursor (advance_checkpoint w)))"

section \<open>The startup handshake of a worker\<close>

text \<open>\<open>get_handshake_metadata\<close> announces the first 512 digests of the sorted inventory, in checkpoint
  chunks under the sequence number that the next statistics report would give the inventory. It
  changes nothing of the worker: the number is not taken.\<close>

definition HANDSHAKE_MAX :: int where
  "HANDSHAKE_MAX = 8 * BATCH"          \<comment> \<open>\<open>_STARTUP_HANDSHAKE_MAX_DIGESTS\<close>\<close>

definition handshake_held :: "worker \<Rightarrow> string list" where
  "handshake_held w = take (nat HANDSHAKE_MAX) (sorted_list_of_set (hvalues (w_inventory w)))"

definition handshake_sequence :: "worker \<Rightarrow> int" where
  "handshake_sequence w =
     w_sequence w + (if hvalues (w_inventory w) \<noteq> w_observed_held w then 1 else 0)"

definition handshake_report :: "worker \<Rightarrow> int \<Rightarrow> pyval" where
  "handshake_report w index =
     (let held = handshake_held w in
      PDict [
        (''rank'', PInt (w_rank w)),
        (''protocol'', PStr DELTA_PROTOCOL),
        (''generation'', PStr (w_generation w)),
        (''generation_epoch'', PInt (w_epoch w)),
        (''held_count'', PInt (int (length held))),
        (''held'', PList []),
        (''checkpoint'', PDict [
           (''state_sequence'', PInt (handshake_sequence w)),
           (''cycle'', PInt (w_cp_cycle w)),
           (''index'', PInt index),
           (''count'', PInt (chunk_total (int (length held)))),
           (''held_count'', PInt (int (length held))),
           (''held'', PList (map PStr (slice index held)))])])"

text \<open>\<open>enabled\<close> is the role and configuration test at its head; \<open>None\<close> announces nothing.\<close>

definition get_handshake_metadata :: "bool \<Rightarrow> worker \<Rightarrow> pyval list option" where
  "get_handshake_metadata enabled w =
     (if \<not> enabled then None
      else Some (map (handshake_report w) [0..chunk_total (int (length (handshake_held w))) - 1]))"

section \<open>What a worker has told about its inventory\<close>

text \<open>\<open>H n\<close> is the inventory that sequence number \<open>n\<close> stands for, nothing for the numbers not yet
  reached, and \<open>A\<close> the startup announcements: pairs of a sequence number and the digests announced
  under it, before any statistics report may have fixed what the number stands for. \<open>told H A n\<close> is
  what a scheduler that accepted number \<open>n\<close> can believe: the inventory, and whatever was announced
  under a number up to \<open>n\<close> that turned out not to hold it. A delta or a checkpoint is genuine when it
  says no more than that; a report value is genuine when everything the scheduler can parse out of
  it is.\<close>

type_synonym announcements = "(int \<times> string set) set"

definition told :: "(int \<Rightarrow> string set) \<Rightarrow> announcements \<Rightarrow> int \<Rightarrow> string set" where
  "told H A n = H n \<union> {d. \<exists>j a. (j, a) \<in> A \<and> j \<le> n \<and> d \<in> a \<and> d \<notin> H j}"

definition genuine_delta :: "(int \<Rightarrow> string set) \<Rightarrow> int \<Rightarrow> delta \<Rightarrow> bool" where
  "genuine_delta H n x \<longleftrightarrow> delta_base x = delta_seq x - 1 \<and> 1 \<le> delta_seq x \<and> delta_seq x \<le> n \<and>
     H (delta_seq x) = (H (delta_base x) - set (delta_removed x)) \<union> set (delta_added x)"

definition genuine_checkpoint ::
    "(int \<Rightarrow> string set) \<Rightarrow> announcements \<Rightarrow> int \<Rightarrow> checkpoint \<Rightarrow> bool" where
  "genuine_checkpoint H A n a \<longleftrightarrow> 0 \<le> cp_state a \<and> cp_state a \<le> n + 1 \<and> dict_ok (cp_chunks a) \<and>
     (\<forall>i c. dget (cp_chunks a) i = Some c \<longrightarrow>
        0 \<le> i \<and> i < cp_count a \<and> set c \<subseteq> told H A (cp_state a))"

definition genuine_chunk :: "(int \<Rightarrow> string set) \<Rightarrow> announcements \<Rightarrow> int \<Rightarrow>
    int \<times> int \<times> int \<times> int \<times> int \<times> string list \<Rightarrow> bool" where
  "genuine_chunk H A n m = (case m of (st, c, i, k, h, chunk) \<Rightarrow>
     0 \<le> st \<and> st \<le> n + 1 \<and> set chunk \<subseteq> told H A st)"

definition genuine_fields ::
    "(int \<Rightarrow> string set) \<Rightarrow> announcements \<Rightarrow> int \<Rightarrow> pyval \<Rightarrow> pyval \<Rightarrow> bool" where
  "genuine_fields H A n x c \<longleftrightarrow>
     (\<forall>y. parse_delta x = Some y \<longrightarrow> genuine_delta H n y) \<and>
     (\<forall>m. parse_checkpoint c = Some m \<longrightarrow> genuine_chunk H A n m)"

text \<open>The scheduler's knowledge of rank \<open>r\<close> is what the process has told.\<close>

definition tracks ::
    "(int \<Rightarrow> string set) \<Rightarrow> announcements \<Rightarrow> int \<Rightarrow> int \<Rightarrow> scheduler \<Rightarrow> bool" where
  "tracks H A n r s \<longleftrightarrow> 0 \<le> seq_of s r \<and> seq_of s r \<le> n + 1 \<and> held_of s r \<subseteq> told H A (seq_of s r) \<and>
     (\<forall>k x. dget (pending_of s r) k = Some x \<longrightarrow> k = delta_seq x \<and> genuine_delta H n x) \<and>
     dict_ok (pending_of s r) \<and>
     (\<forall>a. checkpoints s r = Some a \<longrightarrow> genuine_checkpoint H A n a)"

text \<open>A later state of the same process: the numbers reached keep their inventories, new ones may have
  been reached and more may have been announced.\<close>

definition later :: "(int \<Rightarrow> string set) \<Rightarrow> announcements \<Rightarrow> int \<Rightarrow>
    (int \<Rightarrow> string set) \<Rightarrow> announcements \<Rightarrow> int \<Rightarrow> bool" where
  "later H A n H' A' n' \<longleftrightarrow> n \<le> n' \<and> (\<forall>k\<le>n. H' k = H k) \<and> A \<subseteq> A' \<and> (\<forall>k>n. H k = {})"

lemma told_later:
  assumes l: "later H A n H' A' n'" and k: "k \<le> n + 1" shows "told H A k \<subseteq> told H' A' k"
proof
  have l: "\<forall>k\<le>n. H' k = H k" "A \<subseteq> A'" "\<forall>k>n. H k = {}" using l by (simp_all add: later_def)
  fix d assume "d \<in> told H A k"
  then consider (now) "d \<in> H k" | (early) j a where "(j, a) \<in> A" "j \<le> k" "d \<in> a" "d \<notin> H j"
    by (auto simp: told_def)
  then show "d \<in> told H' A' k"
  proof cases
    case now
    then have "k \<le> n" using l(3) by (metis empty_iff not_le)
    then have "H' k = H k" using l(1) by blast
    then show ?thesis using now by (simp add: told_def)
  next
    case early
    show ?thesis
    proof (cases "j \<le> n")
      case True
      then have "d \<notin> H' j" "(j, a) \<in> A'" using early l(1,2) by auto
      then show ?thesis using early(2,3) unfolding told_def by blast
    next
      case False
      then have "j = k" using early(2) k by linarith
      moreover have "(j, a) \<in> A'" using early(1) l(2) by blast
      ultimately show ?thesis using early(3) unfolding told_def by blast
    qed
  qed
qed

lemma genuine_delta_later:
  "genuine_delta H n x \<Longrightarrow> later H A n H' A' n' \<Longrightarrow> genuine_delta H' n' x"
  by (simp add: genuine_delta_def later_def)

lemma genuine_checkpoint_later:
  assumes "genuine_checkpoint H A n a" "later H A n H' A' n'" shows "genuine_checkpoint H' A' n' a"
proof -
  have "told H A (cp_state a) \<subseteq> told H' A' (cp_state a)"
    using assms(1) by (intro told_later [OF assms(2)]) (simp add: genuine_checkpoint_def)
  moreover have "n \<le> n'" using assms(2) by (simp add: later_def)
  ultimately show ?thesis using assms(1) by (fastforce simp: genuine_checkpoint_def)
qed

lemma genuine_chunk_later:
  assumes "genuine_chunk H A n m" "later H A n H' A' n'" shows "genuine_chunk H' A' n' m"
proof -
  obtain st c i k h chunk where m: "m = (st, c, i, k, h, chunk)" by (cases m) auto
  have "told H A st \<subseteq> told H' A' st" using assms(1) by (intro told_later [OF assms(2)]) (simp add: genuine_chunk_def m)
  moreover have "n \<le> n'" using assms(2) by (simp add: later_def)
  ultimately show ?thesis using assms(1) by (auto simp: genuine_chunk_def m)
qed

lemma genuine_fields_later:
  assumes "genuine_fields H A n x c" "later H A n H' A' n'" shows "genuine_fields H' A' n' x c"
  using assms(1) genuine_delta_later [OF _ assms(2)] genuine_chunk_later [OF _ assms(2)]
  by (auto simp: genuine_fields_def)

lemma tracks_later:
  assumes t: "tracks H A n r s" and l: "later H A n H' A' n'" shows "tracks H' A' n' r s"
proof -
  have "told H A (seq_of s r) \<subseteq> told H' A' (seq_of s r)"
    using t by (intro told_later [OF l]) (simp add: tracks_def)
  moreover have "n \<le> n'" using l by (simp add: later_def)
  ultimately show ?thesis
    using t genuine_delta_later [OF _ l] genuine_checkpoint_later [OF _ l]
    unfolding tracks_def by (meson order_trans add_right_mono)
qed

text \<open>What a genuine delta does to what was told.\<close>

lemma told_delta:
  assumes "genuine_delta H n x"
  shows "(told H A (delta_base x) - set (delta_removed x)) \<union> set (delta_added x) \<subseteq> told H A (delta_seq x)"
proof -
  have "H (delta_seq x) = (H (delta_base x) - set (delta_removed x)) \<union> set (delta_added x)"
    "delta_base x \<le> delta_seq x" using assms by (auto simp: genuine_delta_def)
  then show ?thesis unfolding told_def by (auto intro: order_trans)
qed

lemma tracks_cong:
  assumes "sequences s r = sequences t r" "held s r = held t r" "pendings s r = pendings t r"
    "checkpoints s r = checkpoints t r"
  shows "tracks H A n r s \<longleftrightarrow> tracks H A n r t"
  using assms by (simp add: tracks_def seq_of_def held_of_def pending_of_def)

text \<open>The operations that do not touch what is known of the rank, or only move it along.\<close>

named_theorems tracks_intros

lemma tracks_simple [tracks_intros]:
  "tracks H A n r s \<Longrightarrow> tracks H A n r (withdraw r' s)"
  "tracks H A n r s \<Longrightarrow> tracks H A n r (publish r' s)"
  "tracks H A n r s \<Longrightarrow> tracks H A n r (mark_desynchronized r' s)"
  "tracks H A n r s \<Longrightarrow> tracks H A n r (require_checkpoint r' s)"
  "tracks H A n r s \<Longrightarrow> tracks H A n r (s\<lparr>desync := D\<rparr>)"
  "tracks H A n r s \<Longrightarrow> tracks H A n r (s\<lparr>needs_checkpoint := E\<rparr>)"
  by (simp_all add: tracks_def seq_of_def held_of_def pending_of_def)

lemma tracks_put_checkpoint [tracks_intros]:
  "tracks H A n r s \<Longrightarrow> (\<And>a. c = Some a \<Longrightarrow> genuine_checkpoint H A n a) \<Longrightarrow> tracks H A n r (put_checkpoint r c s)"
  by (simp add: tracks_def seq_of_def pending_of_def)

lemma tracks_put_pending [tracks_intros]:
  "tracks H A n r s \<Longrightarrow> dict_ok p \<Longrightarrow>
   (\<And>k x. dget p k = Some x \<Longrightarrow> k = delta_seq x \<and> genuine_delta H n x) \<Longrightarrow> tracks H A n r (put_pending r p s)"
  by (simp add: tracks_def seq_of_def pending_of_def)

lemma tracks_pending:
  assumes "tracks H A n r s"
  shows "dict_ok (pending_of s r)"
    "dget (pending_of s r) k = Some x \<Longrightarrow> k = delta_seq x \<and> genuine_delta H n x"
  using assms by (auto simp: tracks_def)

lemma tracks_take_pending:
  assumes t: "tracks H A n r s" and x: "dget (pending_of s r) (seq_of s r + 1) = Some x"
  shows "tracks H A n r (take_pending r x s)"
proof -
  have g: "genuine_delta H n x" "delta_seq x = seq_of s r + 1" using tracks_pending(2) [OF t x] by auto
  have b: "delta_base x = seq_of s r" using g by (simp add: genuine_delta_def)
  have "held_of s r \<subseteq> told H A (seq_of s r)" using t by (simp add: tracks_def)
  then have "(held_of s r - set (delta_removed x)) \<union> set (delta_added x) \<subseteq> told H A (seq_of s r + 1)"
    using told_delta [OF g(1), of A] unfolding b g(2) by blast
  moreover have "seq_of s r + 1 \<le> n + 1" "0 \<le> seq_of s r"
    using t g by (simp_all add: tracks_def genuine_delta_def)
  moreover have "seq_of (take_pending r x s) r = seq_of s r + 1"
    "held_of (take_pending r x s) r = (held_of s r - set (delta_removed x)) \<union> set (delta_added x)"
    by (simp_all add: seq_of_def held_of_def)
  ultimately show ?thesis
    using t by (auto simp: tracks_def pending_take)
qed

lemma tracks_drain_loop: "tracks H A n r s \<Longrightarrow> tracks H A n r (drain_loop r s)"
proof (induction r s rule: drain_loop.induct)
  case (1 r s)
  then show ?case
    by (subst drain_loop.simps) (auto split: option.splits intro: tracks_take_pending)
qed

lemma tracks_drain_deltas [tracks_intros]:
  assumes "tracks H A n r s" shows "tracks H A n r (drain_deltas r s)"
proof -
  have "tracks H A n r (s\<lparr>pendings := (pendings s)(r \<mapsto> pending_of s r)\<rparr>)"
    using assms by (simp add: tracks_def seq_of_def pending_of_def held_of_def)
  then show ?thesis
    by (auto simp: drain_deltas_def Let_def intro!: tracks_intros tracks_drain_loop)
qed

lemma tracks_absorb_delta:
  assumes t: "tracks H A n r s" and v: "\<And>x. parse_delta v = Some x \<Longrightarrow> genuine_delta H n x"
  shows "tracks H A n r (absorb_delta r v s)"
proof (cases "parse_delta v")
  case (Some x)
  note pend = tracks_pending [OF t] and g = v [OF Some]
  have store: "tracks H A n r (store_delta r m x p u)"
    if "tracks H A n r u" "p = pending_of s r \<or> p = ddel top (pending_of s r)" for m p u top
    using that pend g
    by (auto simp: store_delta_def Let_def split: if_splits intro!: tracks_intros)
  have put: "tracks H A n r (put_pending r (pending_of s r) s)"
    using t pend by (auto intro!: tracks_intros)
  then show ?thesis
    using t Some by (auto simp: absorb_delta_def Let_def split: option.splits
        intro!: tracks_intros store)
qed (simp add: absorb_delta_def t)

text \<open>A complete checkpoint says no more than its chunks were told.\<close>

lemma full_keys:
  assumes "dict_ok d" "\<forall>i c. dget d i = Some c \<longrightarrow> 0 \<le> i \<and> i < k" "int (length d) = k"
  shows "set (dkeys d) = {0..<k}"
proof (rule card_subset_eq)
  show "set (dkeys d) \<subseteq> {0..<k}" using assms(1,2) dict_ok_get [OF assms(1)] by auto
  have "card (set (dkeys d)) = length d"
    using distinct_card [of "dkeys d"] assms(1) by (simp add: dict_ok_def)
  then show "card (set (dkeys d)) = card {0..<k}" using assms(3) by simp
qed simp

lemma assembled_checkpoint:
  assumes g: "genuine_checkpoint H A n a" and full: "int (length (cp_chunks a)) = cp_count a"
  shows "\<Union>(set (map (\<lambda>j. set (the (dget (cp_chunks a) j))) [0..cp_count a - 1])) \<subseteq> told H A (cp_state a)"
proof -
  have keys: "set (dkeys (cp_chunks a)) = {0..<cp_count a}"
    using g full by (intro full_keys) (auto simp: genuine_checkpoint_def)
  have "set (the (dget (cp_chunks a) j)) \<subseteq> told H A (cp_state a)" if "j \<in> {0..<cp_count a}" for j
  proof -
    have "dget (cp_chunks a) j \<noteq> None" using that keys unfolding dget_None by auto
    then show ?thesis using g by (auto simp: genuine_checkpoint_def)
  qed
  then show ?thesis by fastforce
qed

lemma dict_ok_filter: "dict_ok d \<Longrightarrow> dict_ok (filter P d)"
  by (induction d) (auto simp: dict_ok_def)

lemma dget_filter: "dict_ok d \<Longrightarrow> dget (filter P d) k = Some v \<Longrightarrow> dget d k = Some v"
  using dict_ok_get [of d k v] dict_ok_get [of "filter P d" k v] dict_ok_filter [of d P] by auto

lemma replace_held_fields [simp]:
  "sequences (replace_held r H s) = sequences s" "pendings (replace_held r H s) = pendings s"
  "checkpoints (replace_held r H s) = checkpoints s" "held (replace_held r H s) = (held s)(r \<mapsto> H)"
  "generations (replace_held r H s) = generations s" "epochs (replace_held r H s) = epochs s"
  "desync (replace_held r H s) = desync s" "needs_checkpoint (replace_held r H s) = needs_checkpoint s"
  by (simp_all add: replace_held_def Let_def)

lemma tracks_install:
  assumes t: "tracks H A n r s" and st: "0 \<le> st" "st \<le> n + 1" and X: "X \<subseteq> told H A st"
  shows "tracks H A n r (install_checkpoint r st X s)"
proof -
  define u where "u = replace_held r X (s\<lparr>desync := insert r (desync s)\<rparr>)"
  have p: "pending_of u r = pending_of s r" by (simp add: u_def pending_of_def)
  have "tracks H A n r (u\<lparr>sequences := (sequences u)(r \<mapsto> st),
      pendings := (pendings u)(r \<mapsto> filter (\<lambda>(k, _). \<not> k \<le> st) (pending_of u r)),
      needs_checkpoint := needs_checkpoint u - {r}, checkpoints := (checkpoints u)(r := None)\<rparr>)"
    using t st X tracks_pending [OF t] unfolding p
    by (auto simp: tracks_def u_def seq_of_def held_of_def pending_of_def dict_ok_filter
        dest!: dget_filter split: option.splits)
  then show ?thesis by (simp add: install_checkpoint_def Let_def u_def [symmetric] tracks_intros)
qed

lemma tracks_add_chunk:
  assumes t: "tracks H A n r s" and g: "genuine_checkpoint H A n a" and i: "0 \<le> i" "i < cp_count a"
    and c: "set chunk \<subseteq> told H A (cp_state a)"
  shows "tracks H A n r (add_chunk r a i chunk s)"
proof -
  let ?a = "a\<lparr>cp_chunks := dput i chunk (cp_chunks a)\<rparr>"
  let ?X = "\<Union>(set (map (\<lambda>j. set (the (dget (cp_chunks ?a) j))) [0..cp_count ?a - 1]))"
  have g': "genuine_checkpoint H A n ?a" using g i c by (auto simp: genuine_checkpoint_def)
  then have t': "tracks H A n r (put_checkpoint r (Some ?a) s)" using t by (auto intro: tracks_intros)
  moreover have "tracks H A n r (finish_checkpoint r ?a (put_checkpoint r (Some ?a) s))"
  proof (cases "int (length (cp_chunks ?a)) = cp_count ?a")
    case True
    have "?X \<subseteq> told H A (cp_state ?a)" by (rule assembled_checkpoint [OF g' True])
    then have "tracks H A n r (install_checkpoint r (cp_state ?a) ?X (put_checkpoint r (Some ?a) s))"
      using g' by (intro tracks_install [OF t']) (simp_all add: genuine_checkpoint_def)
    then show ?thesis
      using t' unfolding finish_checkpoint_def Let_def by (auto intro: tracks_intros)
  qed (simp add: finish_checkpoint_def t')
  ultimately show ?thesis using t by (simp add: add_chunk_def Let_def tracks_intros)
qed

lemma parse_checkpoint_bounds:
  "parse_checkpoint v = Some (st, c, i, k, h, chunk) \<Longrightarrow> 0 \<le> i \<and> i < k \<and> k = chunk_total h"
  by (auto simp: parse_checkpoint_def Let_def split: option.splits if_splits)

lemma tracks_absorb_checkpoint:
  assumes t: "tracks H A n r s" and v: "\<And>m. parse_checkpoint v = Some m \<Longrightarrow> genuine_chunk H A n m"
  shows "tracks H A n r (absorb_checkpoint r v s)"
proof (cases "parse_checkpoint v")
  case (Some m)
  obtain st c i k h chunk where m: "m = (st, c, i, k, h, chunk)" by (cases m) auto
  have b: "0 \<le> i" "i < k" and g: "0 \<le> st" "st \<le> n + 1" "set chunk \<subseteq> told H A st"
    using parse_checkpoint_bounds [of v st c i k h chunk] v [OF Some] Some m
    by (auto simp: genuine_chunk_def)
  define fresh where "fresh = \<lparr>cp_state = st, cp_cycle = c, cp_count = k, cp_held_count = h, cp_chunks = []\<rparr>"
  have fresh: "genuine_checkpoint H A n fresh" using g by (simp add: fresh_def genuine_checkpoint_def)
  define u where "u = (if st > seq_of s r then mark_desynchronized r s else s)"
  have u: "tracks H A n r u" using t by (simp add: u_def tracks_intros)
  have new: "tracks H A n r (add_chunk r fresh i chunk (put_checkpoint r (Some fresh) u))"
    using u fresh b g by (intro tracks_add_chunk tracks_intros) (auto simp: fresh_def)
  have old: "tracks H A n r (add_chunk r a i chunk u)"
    if "checkpoints u r = Some a" "cp_state a = st" "cp_count a = k" for a
    using u that b g by (intro tracks_add_chunk) (auto simp: tracks_def)
  show ?thesis
    using t u new old
    by (auto simp: absorb_checkpoint_def Let_def Some m u_def [symmetric] fresh_def [symmetric]
        split: option.splits intro: tracks_intros)
qed (simp add: absorb_checkpoint_def t)

section \<open>The worker keeps its reports genuine\<close>

definition worker_ok :: "(int \<Rightarrow> string set) \<Rightarrow> worker \<Rightarrow> bool" where
  "worker_ok H w \<longleftrightarrow> inventory_ok (w_inventory w) \<and> 0 \<le> w_sequence w \<and> H 0 = {} \<and>
     (\<forall>k. finite (H k)) \<and> w_observed_held w = H (w_sequence w) \<and>
     (\<forall>o'. w_seen_object w = Some o' \<longrightarrow> o' \<le> w_object w) \<and>
     (w_seen_object w = Some (w_object w) \<longrightarrow> w_observed_revision w \<le> revision (w_inventory w)) \<and>
     (w_seen_object w = Some (w_object w) \<longrightarrow> w_observed_revision w = revision (w_inventory w) \<longrightarrow>
       w_observed_held w = hvalues (w_inventory w)) \<and>
     (\<forall>x\<in>set (w_history w). genuine_delta H (w_sequence w) x) \<and>
     w_cp_sequence w = w_sequence w \<and> w_items w = sorted_list_of_set (H (w_sequence w)) \<and>
     (\<forall>k>w_sequence w. H k = {})"

lemma last_n_subset: "set (last_n n xs) \<subseteq> set xs"
  by (auto simp: last_n_def dest: in_set_dropD)

lemma record_delta_fields [simp]:
  "w_rank (record_delta A B w) = w_rank w" "w_generation (record_delta A B w) = w_generation w"
  "w_epoch (record_delta A B w) = w_epoch w" "w_object (record_delta A B w) = w_object w"
  "w_inventory (record_delta A B w) = w_inventory w" "w_sequence (record_delta A B w) = w_sequence w"
  "w_seen_object (record_delta A B w) = w_seen_object w"
  by (simp_all add: record_delta_def Let_def)

lemma record_delta_history:
  "x \<in> set (w_history (record_delta A B w)) \<Longrightarrow>
   x \<in> set (w_history w) \<or> x = \<lparr>delta_seq = w_sequence w, delta_base = w_sequence w - 1,
     delta_added = sorted_list_of_set A, delta_removed = sorted_list_of_set B\<rparr>"
  by (auto simp: record_delta_def Let_def split: if_splits dest!: subsetD [OF last_n_subset])

text \<open>Observing the inventory extends the history by at most one snapshot, the present content.\<close>

lemma observe_inventory_ok:
  assumes w: "worker_ok H w" and v: "v = observe_inventory w"
  defines "H' \<equiv> H(w_sequence v := hvalues (w_inventory w))"
  shows "worker_ok H' v" "w_sequence w \<le> w_sequence v" "\<And>k. k \<le> w_sequence w \<Longrightarrow> H' k = H k"
    "w_inventory v = w_inventory w" "w_rank v = w_rank w" "w_generation v = w_generation w"
    "w_epoch v = w_epoch w" "w_object v = w_object w"
proof -
  let ?I = "hvalues (w_inventory w)" and ?n = "w_sequence w"
  let ?seen = "w_seen_object w \<noteq> Some (w_object w) \<or> w_observed_revision w \<noteq> revision (w_inventory w)"
  have fin: "finite ?I" "finite (H ?n)" using w by (auto simp: worker_ok_def inventory_ok_def)
  have obs: "w_observed_held w = H ?n" using w by (simp add: worker_ok_def)
  have "?seen \<or> ?I = H ?n" using w by (auto simp: worker_ok_def)
  then consider (same) "\<not> ?seen" "?I = H ?n" | (equal) "?seen" "?I = H ?n" | (new) "?seen" "?I \<noteq> H ?n"
    by blast
  then have "worker_ok H' v \<and> ?n \<le> w_sequence v \<and> (\<forall>k\<le>?n. H' k = H k) \<and>
    w_inventory v = w_inventory w \<and> w_rank v = w_rank w \<and> w_generation v = w_generation w \<and>
    w_epoch v = w_epoch w \<and> w_object v = w_object w"
  proof cases
    case same
    then have "v = w" by (auto simp: v observe_inventory_def Let_def)
    moreover from this have "H' = H" using same by (simp add: H'_def fun_eq_iff)
    ultimately show ?thesis using w by simp
  next
    case equal
    then have v': "v = w\<lparr>w_seen_object := Some (w_object w), w_observed_revision := revision (w_inventory w)\<rparr>"
      using obs by (auto simp: v observe_inventory_def Let_def)
    have "H' = H" using equal by (simp add: H'_def v' fun_eq_iff)
    then show ?thesis using w equal by (simp add: v' worker_ok_def)
  next
    case new
    define u where "u = record_delta (?I - H ?n) (H ?n - ?I) (w\<lparr>w_sequence := ?n + 1\<rparr>)"
    have v': "v = u\<lparr>w_observed_held := ?I, w_items := sorted_list_of_set ?I, w_cp_sequence := ?n + 1,
        w_cp_cycle := w_cp_cycle u + 1, w_cp_index := 0, w_seen_object := Some (w_object w),
        w_observed_revision := revision (w_inventory w)\<rparr>"
      using new obs by (simp add: v observe_inventory_def Let_def u_def)
    have u: "w_sequence u = ?n + 1" "w_inventory u = w_inventory w" "w_object u = w_object w"
      "w_rank u = w_rank w" "w_generation u = w_generation w" "w_epoch u = w_epoch w"
      by (simp_all add: u_def)
    have H': "H' = H(?n + 1 := ?I)" by (simp add: H'_def v' u)
    have "genuine_delta H' (?n + 1) x" if "x \<in> set (w_history u)" for x
      using record_delta_history [OF that [unfolded u_def]]
    proof
      assume "x \<in> set (w_history (w\<lparr>w_sequence := ?n + 1\<rparr>))"
      then have "genuine_delta H ?n x" using w by (simp add: worker_ok_def)
      then show ?thesis by (simp add: genuine_delta_def H')
    qed (use fin w in \<open>auto simp: genuine_delta_def H' worker_ok_def\<close>)
    then show ?thesis
      using w fin by (auto simp: worker_ok_def v' u H')
  qed
  then show "worker_ok H' v" "w_sequence w \<le> w_sequence v" "\<And>k. k \<le> w_sequence w \<Longrightarrow> H' k = H k"
    "w_inventory v = w_inventory w" "w_rank v = w_rank w" "w_generation v = w_generation w"
    "w_epoch v = w_epoch w" "w_object v = w_object w" by auto
qed

lemma filter_card:
  assumes "card {x \<in> set xs. P x} = length xs" shows "{x \<in> set xs. P x} = set xs"
proof (rule card_subset_eq)
  have "card {x \<in> set xs. P x} \<le> card (set xs)" by (intro card_mono) auto
  then show "card {x \<in> set xs. P x} = card (set xs)" using assms card_length [of xs] by linarith
qed auto

lemma parse_delta_value:
  assumes "parse_delta (delta_value x) = Some y" "genuine_delta H n x"
  shows "genuine_delta H n y"
proof -
  let ?A = "{d \<in> set (delta_added x). is_sha256 d}" and ?R = "{d \<in> set (delta_removed x). is_sha256 d}"
  have cards: "card ?A = length (delta_added x)" "card ?R = length (delta_removed x)"
    and y: "y = \<lparr>delta_seq = delta_seq x, delta_base = delta_base x,
      delta_added = sorted_list_of_set ?A, delta_removed = sorted_list_of_set ?R\<rparr>"
    using assms(1) by (auto simp: parse_delta_def delta_value_def py_get_def Let_def
        digest_strings_PStr split: if_splits)
  from assms(2) show ?thesis
    by (simp add: y genuine_delta_def filter_card [OF cards(1)] filter_card [OF cards(2)])
qed

lemma parse_checkpoint_value:
  assumes "parse_checkpoint (checkpoint_value w) = Some m" "worker_ok H w"
  shows "genuine_chunk H A (w_sequence w) m"
proof -
  let ?xs = "slice (w_cp_index w) (w_items w)"
  have m: "m = (w_cp_sequence w, w_cp_cycle w, w_cp_index w, chunk_total (int (length (w_items w))),
      int (length (w_items w)), filter is_sha256 ?xs)"
    using assms(1) by (simp add: parse_checkpoint_def checkpoint_value_def py_get_def Let_def
        digest_strings_PStr split: if_splits)
  have "set ?xs \<subseteq> set (w_items w)" by (auto simp: slice_def dest: in_set_takeD in_set_dropD)
  moreover have "finite (H (w_sequence w))" using assms(2) by (simp add: worker_ok_def)
  ultimately show ?thesis using assms(2) by (auto simp: m genuine_chunk_def worker_ok_def told_def)
qed

lemma parse_handshake_checkpoint:
  assumes "handshake_report w i = PDict d" "parse_checkpoint (py_get d ''checkpoint'') = Some m"
    and w: "worker_ok H w"
  shows "genuine_chunk H (insert (handshake_sequence w, set (handshake_held w)) A) (w_sequence w) m"
proof -
  let ?xs = "slice i (handshake_held w)" and ?n = "int (length (handshake_held w))"
  have m: "m = (handshake_sequence w, w_cp_cycle w, i, chunk_total ?n, ?n, filter is_sha256 ?xs)"
    using assms(1,2) by (auto simp: handshake_report_def Let_def parse_checkpoint_def py_get_def
        digest_strings_PStr split: if_splits)
  have "set ?xs \<subseteq> set (handshake_held w)" by (auto simp: slice_def dest: in_set_takeD in_set_dropD)
  then have "set (filter is_sha256 ?xs) \<subseteq> set (handshake_held w)" by auto
  moreover have "0 \<le> handshake_sequence w" "handshake_sequence w \<le> w_sequence w + 1"
    using w by (auto simp: handshake_sequence_def worker_ok_def)
  ultimately show ?thesis unfolding m genuine_chunk_def told_def by auto
qed

section \<open>The scheduler follows every process\<close>

type_synonym process = "int \<times> string"

definition tracked :: "(process \<Rightarrow> int \<Rightarrow> string set) \<Rightarrow> (process \<Rightarrow> announcements) \<Rightarrow>
    (process \<Rightarrow> int) \<Rightarrow> scheduler \<Rightarrow> bool" where
  "tracked H A N s \<longleftrightarrow> (\<forall>r g. generations s r = Some g \<longrightarrow> g \<noteq> MISSING_GENERATION \<longrightarrow>
     tracks (H (r, g)) (A (r, g)) (N (r, g)) r s)"

definition report_from ::
    "(int \<Rightarrow> string set) \<Rightarrow> announcements \<Rightarrow> int \<Rightarrow> process \<Rightarrow> pyval \<Rightarrow> bool" where
  "report_from H A n p v \<longleftrightarrow> (\<exists>d. v = PDict d \<and> py_get d ''rank'' = PInt (fst p) \<and>
     report_generation d = snd p \<and> py_get d ''protocol'' = PStr DELTA_PROTOCOL \<and>
     genuine_fields H A n (py_get d ''delta'') (py_get d ''checkpoint''))"

definition unversioned :: "pyval \<Rightarrow> bool" where
  "unversioned v \<longleftrightarrow> (case as_dict v of None \<Rightarrow> True | Some d \<Rightarrow> report_generation d = MISSING_GENERATION)"

definition same_state :: "scheduler \<Rightarrow> scheduler \<Rightarrow> bool" where
  "same_state s t \<longleftrightarrow> generations t = generations s \<and> sequences t = sequences s \<and> held t = held s \<and>
     pendings t = pendings s \<and> checkpoints t = checkpoints s"

lemma accept_generation_cases:
  obtains (current) "generations s r = Some g" "snd (accept_generation r g e s) = s"
  | (rejected) "\<not> fst (accept_generation r g e s)" "same_state s (snd (accept_generation r g e s))"
  | (fresh) x where "accept_generation r g e s = (True, begin_generation r g e x)" "same_state s x"
      "g = MISSING_GENERATION \<longrightarrow> generations s r = None"
proof (cases "generations s r = Some g")
  case True
  then have "snd (accept_generation r g e s) = s"
    by (simp add: accept_generation_def split: option.split)
  with True show thesis by (rule current)
next
  case False
  let ?old = "case retired s r of None \<Rightarrow> [] | Some xs \<Rightarrow> xs"
  let ?s = "s\<lparr>retired := (retired s)(r \<mapsto> ?old)\<rparr>"
  define x where "x = (case generations s r of None \<Rightarrow> ?s
    | Some q \<Rightarrow> ?s\<lparr>retired := (retired ?s)(r \<mapsto> last_n (nat RETIRED) (?old @ [q])),
        q_counters := bump ''quorum_generation_resets'' 1 (q_counters ?s)\<rparr>)"
  have eq: "accept_generation r g e s = (if g \<in> set ?old then (False, ?s)
      else if g = MISSING_GENERATION \<and> generations s r \<noteq> None then (False, ?s)
      else (True, begin_generation r g e x))"
    using False unfolding accept_generation_def Let_def x_def by (simp only: if_False)
  have same: "same_state s ?s" "same_state s x"
    by (simp_all add: same_state_def x_def split: option.split)
  show thesis
  proof (cases "g \<in> set ?old \<or> g = MISSING_GENERATION \<and> generations s r \<noteq> None")
    case True
    then have "accept_generation r g e s = (False, ?s)" unfolding eq by (simp only: if_True split: if_split) blast
    then show thesis using rejected same(1) by (simp only: fst_conv snd_conv not_False_eq_True)
  next
    case accepted: False
    then have "accept_generation r g e s = (True, begin_generation r g e x)"
      unfolding eq by (simp only: if_False split: if_split) blast
    moreover have "g = MISSING_GENERATION \<longrightarrow> generations s r = None" using accepted by argo
    ultimately show thesis using same(2) by (intro fresh [of x])
  qed
qed

lemma tracked_same: "same_state s t \<Longrightarrow> tracked H A N s \<Longrightarrow> tracked H A N t"
  by (simp add: tracked_def tracks_def same_state_def seq_of_def held_of_def pending_of_def)

lemma tracks_begin:
  "0 \<le> n \<Longrightarrow> tracks H A n r (begin_generation r g e s)"
  by (simp add: tracks_def begin_generation_def seq_of_def held_of_def pending_of_def)

lemma tracked_begin:
  assumes "tracked H A N s" "\<And>p. 0 \<le> N p"
  shows "tracked H A N (begin_generation r g e s)"
proof -
  have "tracks (H (r', g')) (A (r', g')) (N (r', g')) r' (begin_generation r g e s)"
    if "generations (begin_generation r g e s) r' = Some g'" "g' \<noteq> MISSING_GENERATION" for r' g'
  proof (cases "r' = r")
    case True
    then show ?thesis using assms(2) by (simp add: tracks_begin)
  next
    case False
    have "tracks (H (r', g')) (A (r', g')) (N (r', g')) r' s"
      using that False assms(1) by (simp add: tracked_def begin_generation_def)
    then show ?thesis using False
      by (subst tracks_cong [of _ _ s]) (simp_all add: begin_generation_def)
  qed
  then show ?thesis by (simp add: tracked_def)
qed

lemma tracked_accept:
  assumes "tracked H A N s" "\<And>p. 0 \<le> N p"
  shows "tracked H A N (snd (accept_generation r g e s))"
  by (cases rule: accept_generation_cases [of s r g e])
     (simp_all add: assms tracked_same tracked_begin)

lemma tracked_frame:
  assumes "tracked H A N s" "frame r s t"
    "\<And>g. generations s r = Some g \<Longrightarrow> g \<noteq> MISSING_GENERATION \<Longrightarrow> tracks (H (r, g)) (A (r, g)) (N (r, g)) r t"
  shows "tracked H A N t"
proof -
  have "tracks (H (r', g')) (A (r', g')) (N (r', g')) r' t"
    if "generations t r' = Some g'" "g' \<noteq> MISSING_GENERATION" for r' g'
  proof (cases "r' = r")
    case False
    then have "sequences t r' = sequences s r'" "held t r' = held s r'"
      "pendings t r' = pendings s r'" "checkpoints t r' = checkpoints s r'"
      using assms(2) by (auto simp: frame_def)
    then show ?thesis
      using that assms(1,2) by (subst tracks_cong [of _ _ s]) (auto simp: tracked_def frame_def)
  qed (use that assms(2,3) in \<open>auto simp: frame_def\<close>)
  then show ?thesis by (simp add: tracked_def)
qed

lemma tracked_absorb_versioned:
  assumes t: "tracked H A N s" and h: "\<And>p. 0 \<le> N p"
    and g: "genuine_fields (H (r, g)) (A (r, g)) (N (r, g)) x c"
  shows "tracked H A N (absorb_versioned r g e x c s)"
proof -
  let ?s = "snd (accept_generation r g e s)"
  have a: "tracked H A N ?s" using t h by (simp add: tracked_accept)
  show ?thesis
  proof (cases "fst (accept_generation r g e s)")
    case True
    note gen = accepted_known [OF True]
    have "tracks (H (r, g)) (A (r, g)) (N (r, g)) r (absorb_checkpoint r c (absorb_delta r x ?s))"
      if "g \<noteq> MISSING_GENERATION"
      using a gen that g h
      by (intro tracks_absorb_checkpoint tracks_absorb_delta) (auto simp: tracked_def genuine_fields_def)
    then have "tracked H A N (absorb_checkpoint r c (absorb_delta r x ?s))"
      using gen by (intro tracked_frame [OF a, of r] frame_intros) auto
    then show ?thesis using True by (simp add: absorb_versioned_def Let_def)
  qed (simp add: absorb_versioned_def Let_def a)
qed

lemma tracked_full_set:
  assumes t: "tracked H A N s" and h: "\<And>p. 0 \<le> N p"
  shows "tracked H A N (absorb_full_set r MISSING_GENERATION e vs s)"
proof -
  let ?s = "snd (accept_generation r MISSING_GENERATION e s)"
  have a: "tracked H A N ?s" using t h by (simp add: tracked_accept)
  show ?thesis
  proof (cases "fst (accept_generation r MISSING_GENERATION e s)")
    case True
    let ?u = "?s\<lparr>pendings := (pendings ?s)(r := None), checkpoints := (checkpoints ?s)(r := None),
      desync := desync ?s - {r}, needs_checkpoint := needs_checkpoint ?s - {r}\<rparr>"
    have "frame r ?s ?u" by (simp add: frame_def)
    then have "frame r ?s (replace_held r (strings_of vs) ?u)" by (rule frame_intros)
    then have "tracked H A N (replace_held r (strings_of vs) ?u)"
      using accepted_known [OF True] by (intro tracked_frame [OF a, of r]) auto
    then show ?thesis using True by (simp add: absorb_full_set_def Let_def)
  qed (simp add: absorb_full_set_def Let_def a)
qed

lemma tracked_absorb_report:
  assumes t: "tracked H A N s" and h: "\<And>p. 0 \<le> N p"
    and v: "unversioned v \<or> (\<exists>p. report_from (H p) (A p) (N p) p v)"
  shows "tracked H A N (absorb_report v s)"
  using v
proof
  assume "unversioned v"
  then show ?thesis
    using t h by (auto simp: absorb_report_def unversioned_def split: option.splits intro!: tracked_full_set)
next
  assume "\<exists>p. report_from (H p) (A p) (N p) p v"
  then show ?thesis
    using t h by (auto simp: absorb_report_def report_from_def split: option.splits
        intro!: tracked_absorb_versioned)
qed

section \<open>Workers, network and scheduler together\<close>

record quorum_world =
  procs :: "process \<Rightarrow> worker"
  sched :: scheduler
  snapshots :: "process \<Rightarrow> int \<Rightarrow> string set"
  announced :: "process \<Rightarrow> announcements"
  sent :: "pyval set"

text \<open>A process is a rank with the UUID of one connector construction, so a restarted worker is
  another process. Its generation is a UUID: neither empty nor the scheduler's sentinel.\<close>

definition proper :: "process \<Rightarrow> bool" where
  "proper p \<longleftrightarrow> snd p \<noteq> '''' \<and> snd p \<noteq> MISSING_GENERATION"

inductive quorum_step :: "quorum_world \<Rightarrow> quorum_world \<Rightarrow> bool" where
  mutate: "inventory_step (w_inventory (procs W p)) h \<Longrightarrow>
    quorum_step W (W\<lparr>procs := (procs W)(p := (procs W p)\<lparr>w_inventory := h\<rparr>)\<rparr>)"
| assign: "quorum_step W (W\<lparr>procs := (procs W)(p := assign_held vs (procs W p))\<rparr>)"
| report: "proper p \<Longrightarrow> build_report (procs W p) = (v, w) \<Longrightarrow>
    quorum_step W (W\<lparr>procs := (procs W)(p := w), sent := insert v (sent W),
      snapshots := (snapshots W)(p := (snapshots W p)(w_sequence w := w_observed_held w))\<rparr>)"
| announce: "proper p \<Longrightarrow> get_handshake_metadata enabled (procs W p) = Some vs \<Longrightarrow>
    quorum_step W (W\<lparr>sent := sent W \<union> set vs,
      announced := (announced W)(p := insert (handshake_sequence (procs W p),
        set (handshake_held (procs W p))) (announced W p))\<rparr>)"
| handshake: "\<forall>t vs. (t, Some vs) \<in> set metadata \<longrightarrow> (\<forall>v\<in>set vs. v \<in> sent W \<or> unversioned v) \<Longrightarrow>
    quorum_step W (W\<lparr>sched := set_xfer_handshake_metadata metadata (sched W)\<rparr>)"
| deliver: "\<forall>v\<in>set (reports_of data). v \<in> sent W \<or> unversioned v \<Longrightarrow>
    quorum_step W (W\<lparr>sched := absorb_quorum data (sched W)\<rparr>)"
| drop: "quorum_step W (W\<lparr>sched := drop_digest d (sched W)\<rparr>)"

inductive_cases quorum_stepE: "quorum_step W V"

definition initial_quorum :: "quorum_world \<Rightarrow> bool" where
  "initial_quorum W \<longleftrightarrow> (\<exists>tp. sched W = new_scheduler tp) \<and> sent W = {} \<and>
     (\<forall>p. \<exists>e. procs W p = new_worker (fst p) (snd p) e) \<and> snapshots W = (\<lambda>_ _. {}) \<and>
     announced W = (\<lambda>_. {})"

definition consistent :: "(process \<Rightarrow> worker) \<Rightarrow> scheduler \<Rightarrow> (process \<Rightarrow> int \<Rightarrow> string set) \<Rightarrow>
    (process \<Rightarrow> announcements) \<Rightarrow> pyval set \<Rightarrow> bool" where
  "consistent P s H A S \<longleftrightarrow> backed s \<and>
     (\<forall>p. worker_ok (H p) (P p) \<and> w_rank (P p) = fst p \<and> w_generation (P p) = snd p) \<and>
     (\<forall>v\<in>S. \<exists>p. report_from (H p) (A p) (w_sequence (P p)) p v) \<and>
     tracked H A (\<lambda>p. w_sequence (P p)) s"

definition quorum_ok :: "quorum_world \<Rightarrow> bool" where
  "quorum_ok W \<longleftrightarrow> consistent (procs W) (sched W) (snapshots W) (announced W) (sent W)"

lemma advance_fields [simp]:
  "w_rank (advance_checkpoint w) = w_rank w" "w_rank (advance_cursor w) = w_rank w"
  "w_generation (advance_checkpoint w) = w_generation w" "w_generation (advance_cursor w) = w_generation w"
  "w_sequence (advance_checkpoint w) = w_sequence w" "w_sequence (advance_cursor w) = w_sequence w"
  "w_observed_held (advance_checkpoint w) = w_observed_held w"
  "w_observed_held (advance_cursor w) = w_observed_held w"
  "w_inventory (advance_checkpoint w) = w_inventory w" "w_inventory (advance_cursor w) = w_inventory w"
  "w_object (advance_checkpoint w) = w_object w" "w_object (advance_cursor w) = w_object w"
  by (simp_all add: advance_checkpoint_def advance_cursor_def Let_def)

lemma worker_ok_advance:
  assumes "worker_ok H w" shows "worker_ok H (advance_cursor (advance_checkpoint w))"
proof -
  have same: "w_seen_object (advance_cursor (advance_checkpoint w)) = w_seen_object w"
    "w_observed_revision (advance_cursor (advance_checkpoint w)) = w_observed_revision w"
    "w_history (advance_cursor (advance_checkpoint w)) = w_history w"
    "w_cp_sequence (advance_cursor (advance_checkpoint w)) = w_cp_sequence w"
    "w_items (advance_cursor (advance_checkpoint w)) = w_items w"
    by (simp_all add: advance_checkpoint_def advance_cursor_def Let_def)
  show ?thesis using assms unfolding worker_ok_def advance_fields same by assumption
qed

lemma py_get_append: "py_get (d @ e) k = (if k \<in> fst ` set d then py_get d k else py_get e k)"
  by (cases "map_of d k")
     (force simp: py_get_def map_add_def dest: map_of_SomeD simp: map_of_eq_None_iff split: option.split)+

lemma delta_field_genuine:
  assumes "worker_ok H w"
  shows "py_get (delta_field w) ''delta'' = PNone \<or>
    (\<exists>x. py_get (delta_field w) ''delta'' = delta_value x \<and> genuine_delta H (w_sequence w) x)"
  using assms by (auto simp: delta_field_def worker_ok_def py_get_def)

lemma build_report_ok:
  assumes ok: "worker_ok H w" and b: "build_report w = (v, w')"
  defines "H' \<equiv> H(w_sequence w' := w_observed_held w')"
  shows "worker_ok H' w'" "w_sequence w \<le> w_sequence w'" "\<And>k. k \<le> w_sequence w \<Longrightarrow> H' k = H k"
    "w_rank w' = w_rank w" "w_generation w' = w_generation w" "w_inventory w' = w_inventory w"
    "w_observed_held w' = hvalues (w_inventory w')"
    "proper (w_rank w, w_generation w) \<Longrightarrow> report_from H' A (w_sequence w') (w_rank w, w_generation w) v"
proof -
  define u where "u = observe_inventory w"
  note obs = observe_inventory_ok [OF ok u_def]
  have w': "w' = advance_cursor (advance_checkpoint u)"
    using b by (simp add: build_report_def Let_def u_def)
  have held: "w_observed_held u = hvalues (w_inventory w)" using obs(1) by (simp add: worker_ok_def)
  have H': "H' = H(w_sequence u := hvalues (w_inventory w))" by (simp add: H'_def w' held)
  show "worker_ok H' w'" using obs(1) by (simp add: w' H' worker_ok_advance)
  show "w_sequence w \<le> w_sequence w'" using obs(2) by (simp add: w')
  show "H' k = H k" if "k \<le> w_sequence w" for k using obs(3) [OF that] by (simp add: H')
  show "w_rank w' = w_rank w" "w_generation w' = w_generation w" "w_inventory w' = w_inventory w"
    "w_observed_held w' = hvalues (w_inventory w')"
    using obs(4-6) held by (simp_all add: w')
  assume "proper (w_rank w, w_generation w)"
  then have p: "w_generation u \<noteq> ''''" "w_generation u \<noteq> MISSING_GENERATION"
    using obs(6) by (auto simp: proper_def)
  let ?d = "[(''rank'', PInt (w_rank u)), (''protocol'', PStr DELTA_PROTOCOL),
         (''generation'', PStr (w_generation u)), (''generation_epoch'', PInt (w_epoch u)),
         (''held_count'', PInt (int (card (hvalues (w_inventory u))))),
         (''held'', PList []), (''checkpoint'', checkpoint_value u)] @ delta_field u"
  have v: "v = PDict ?d" using b by (simp add: build_report_def Let_def u_def)
  have fields: "py_get ?d ''rank'' = PInt (w_rank u)" "py_get ?d ''protocol'' = PStr DELTA_PROTOCOL"
    "py_get ?d ''generation'' = PStr (w_generation u)" "py_get ?d ''checkpoint'' = checkpoint_value u"
    "py_get ?d ''delta'' = py_get (delta_field u) ''delta''"
    by (simp_all add: py_get_def)
  have "genuine_fields H' A (w_sequence u) (py_get ?d ''delta'') (py_get ?d ''checkpoint'')"
    using delta_field_genuine [OF obs(1)] parse_checkpoint_value [OF _ obs(1)] parse_delta_value
    unfolding fields genuine_fields_def by (auto simp: H' parse_delta_def)
  then show "report_from H' A (w_sequence w') (w_rank w, w_generation w) v"
    using fields p obs(5,6) unfolding report_from_def v
    by (intro exI [of _ ?d]) (simp add: w' report_generation_def)
qed

lemma report_from_later:
  assumes "report_from H A n p v" "later H A n H' A' n'"
  shows "report_from H' A' n' p v"
  using assms(1) genuine_fields_later [OF _ assms(2)] by (auto simp: report_from_def)

text \<open>Everything a worker announces is genuine under the log of the announcement.\<close>

lemma handshake_report_from:
  assumes w: "worker_ok H w" and p: "proper (w_rank w, w_generation w)"
    and v: "get_handshake_metadata enabled w = Some vs" "v \<in> set vs"
  shows "report_from H (insert (handshake_sequence w, set (handshake_held w)) A) (w_sequence w)
    (w_rank w, w_generation w) v"
proof -
  obtain i where i: "v = handshake_report w i"
    using v by (auto simp: get_handshake_metadata_def split: if_splits)
  then obtain d where d: "handshake_report w i = PDict d" by (simp add: handshake_report_def Let_def)
  have fields: "py_get d ''rank'' = PInt (w_rank w)" "py_get d ''protocol'' = PStr DELTA_PROTOCOL"
    "py_get d ''generation'' = PStr (w_generation w)" "py_get d ''delta'' = PNone"
    using d by (auto simp: handshake_report_def Let_def py_get_def)
  have "genuine_fields H (insert (handshake_sequence w, set (handshake_held w)) A) (w_sequence w)
      (py_get d ''delta'') (py_get d ''checkpoint'')"
    using parse_handshake_checkpoint [OF d _ w] unfolding genuine_fields_def fields
    by (simp add: parse_delta_def)
  then show ?thesis
    using fields p unfolding report_from_def i d
    by (intro exI [of _ d]) (simp add: report_generation_def proper_def)
qed

lemma worker_ok_mutate:
  assumes "worker_ok H w" "inventory_step (w_inventory w) h"
  shows "worker_ok H (w\<lparr>w_inventory := h\<rparr>)"
  using assms inventory_step_ok [OF assms(2)] inventory_step_tracks [OF assms(2)]
  by (auto simp: worker_ok_def)

lemma worker_ok_assign: "worker_ok H w \<Longrightarrow> worker_ok H (assign_held vs w)"
  by (auto simp: worker_ok_def assign_held_def HeldInventory_def inventory_ok_def)

lemma quorum_okD:
  assumes "quorum_ok W"
  shows "backed (sched W)" "worker_ok (snapshots W p) (procs W p)" "w_rank (procs W p) = fst p"
    "w_generation (procs W p) = snd p"
    "v \<in> sent W \<Longrightarrow> \<exists>p. report_from (snapshots W p) (announced W p) (w_sequence (procs W p)) p v"
    "tracked (snapshots W) (announced W) (\<lambda>p. w_sequence (procs W p)) (sched W)"
  using assms unfolding quorum_ok_def consistent_def by blast+

lemma quorum_ok_procs:
  assumes ok: "quorum_ok W" and w: "worker_ok (snapshots W p) w" "w_rank w = fst p"
    "w_generation w = snd p" "w_sequence w = w_sequence (procs W p)"
  shows "quorum_ok (W\<lparr>procs := (procs W)(p := w)\<rparr>)"
proof -
  have seq: "w_sequence (((procs W)(p := w)) q) = w_sequence (procs W q)" for q using w(4) by simp
  have procs: "worker_ok (snapshots W q) (((procs W)(p := w)) q) \<and>
      w_rank (((procs W)(p := w)) q) = fst q \<and> w_generation (((procs W)(p := w)) q) = snd q" for q
    using quorum_okD(2-4) [OF ok, of q] w(1-3) by simp
  have "consistent ((procs W)(p := w)) (sched W) (snapshots W) (announced W) (sent W)"
    unfolding consistent_def seq using procs quorum_okD(1,5,6) [OF ok] by blast
  then show ?thesis by (simp add: quorum_ok_def)
qed

text \<open>A later history of every process, with the new reports genuine under it.\<close>

lemma consistent_later:
  assumes c: "consistent P s H A S"
    and l: "\<And>p. later (H p) (A p) (w_sequence (P p)) (H' p) (A' p) (w_sequence (P' p))"
    and w: "\<And>p. worker_ok (H' p) (P' p) \<and> w_rank (P' p) = fst p \<and> w_generation (P' p) = snd p"
    and n: "\<And>v. v \<in> N \<Longrightarrow> \<exists>p. report_from (H' p) (A' p) (w_sequence (P' p)) p v"
  shows "consistent P' s H' A' (S \<union> N)"
proof -
  have t: "tracked H' A' (\<lambda>p. w_sequence (P' p)) s"
    using c tracks_later [OF _ l] unfolding consistent_def tracked_def by blast
  have "\<exists>p. report_from (H' p) (A' p) (w_sequence (P' p)) p v" if v: "v \<in> S \<union> N" for v
  proof (cases "v \<in> N")
    case False
    then obtain p where "report_from (H p) (A p) (w_sequence (P p)) p v"
      using v c unfolding consistent_def by blast
    then show ?thesis using report_from_later [OF _ l] by blast
  qed (rule n)
  moreover have "backed s" using c by (simp add: consistent_def)
  ultimately show ?thesis unfolding consistent_def using t w by blast
qed

lemma quorum_ok_report:
  assumes ok: "quorum_ok W" and p: "proper p" and b: "build_report (procs W p) = (v, w)"
  shows "quorum_ok (W\<lparr>procs := (procs W)(p := w), sent := insert v (sent W),
      snapshots := (snapshots W)(p := (snapshots W p)(w_sequence w := w_observed_held w))\<rparr>)"
proof -
  let ?H = "snapshots W" and ?A = "announced W" and ?P = "procs W"
  let ?H' = "?H(p := (?H p)(w_sequence w := w_observed_held w))" and ?P' = "?P(p := w)"
  note wp = quorum_okD(2-4) [OF ok, of p]
  note br = build_report_ok [OF wp(1) b]
  have l: "later (?H q) (?A q) (w_sequence (?P q)) (?H' q) (?A q) (w_sequence (?P' q))" for q
    using br(2,3) quorum_okD(2) [OF ok, of q] by (simp add: later_def worker_ok_def)
  have procs: "worker_ok (?H' q) (?P' q) \<and> w_rank (?P' q) = fst q \<and> w_generation (?P' q) = snd q" for q
    using quorum_okD(2-4) [OF ok, of q] br(1,4,5) wp(2,3) by simp
  have "report_from (?H' p) (?A p) (w_sequence (?P' p)) p v" using br(8) p wp(2,3) by simp
  then have "consistent ?P' (sched W) ?H' ?A (sent W \<union> {v})"
    using ok procs l unfolding quorum_ok_def by (intro consistent_later [where P = ?P]) blast+
  then show ?thesis by (simp add: quorum_ok_def)
qed

lemma quorum_ok_announce:
  assumes ok: "quorum_ok W" and p: "proper p"
    and v: "get_handshake_metadata enabled (procs W p) = Some vs"
  shows "quorum_ok (W\<lparr>sent := sent W \<union> set vs,
      announced := (announced W)(p := insert (handshake_sequence (procs W p),
        set (handshake_held (procs W p))) (announced W p))\<rparr>)"
proof -
  let ?H = "snapshots W" and ?A = "announced W" and ?P = "procs W"
  let ?A' = "?A(p := insert (handshake_sequence (?P p), set (handshake_held (?P p))) (?A p))"
  note wp = quorum_okD(2-4) [OF ok]
  have l: "later (?H q) (?A q) (w_sequence (?P q)) (?H q) (?A' q) (w_sequence (?P q))" for q
    using wp(1) [of q] by (auto simp: later_def worker_ok_def)
  have "report_from (?H p) (?A' p) (w_sequence (?P p)) p u" if "u \<in> set vs" for u
    using handshake_report_from [OF wp(1) _ v that, of "?A p"] p wp(2,3) [of p] by simp
  then have "consistent ?P (sched W) ?H ?A' (sent W \<union> set vs)"
    using ok wp l unfolding quorum_ok_def by (intro consistent_later [where P = ?P]) blast+
  then show ?thesis by (simp add: quorum_ok_def)
qed

lemma quorum_ok_absorb_report:
  assumes ok: "quorum_ok W" and v: "v \<in> sent W \<or> unversioned v"
    and t: "tracked (snapshots W) (announced W) (\<lambda>p. w_sequence (procs W p)) s"
  shows "tracked (snapshots W) (announced W) (\<lambda>p. w_sequence (procs W p)) (absorb_report v s)"
proof -
  have n: "0 \<le> w_sequence (procs W p)" for p
    using quorum_okD(2) [OF ok, of p] by (simp add: worker_ok_def)
  have "unversioned v \<or> (\<exists>p. report_from (snapshots W p) (announced W p) (w_sequence (procs W p)) p v)"
    using v quorum_okD(5) [OF ok] by blast
  with t n show ?thesis by (rule tracked_absorb_report)
qed

lemma quorum_ok_deliver:
  assumes ok: "quorum_ok W" and d: "\<forall>v\<in>set vs. v \<in> sent W \<or> unversioned v"
  shows "tracked (snapshots W) (announced W) (\<lambda>p. w_sequence (procs W p)) (fold absorb_report vs (sched W))"
proof -
  let ?T = "tracked (snapshots W) (announced W) (\<lambda>p. w_sequence (procs W p))"
  have "?T (fold absorb_report vs s)" if "?T s" for s
    using d that
    by (induction vs arbitrary: s) (simp_all add: quorum_ok_absorb_report [OF ok])
  then show ?thesis using quorum_okD(6) [OF ok] by blast
qed

lemma quorum_ok_sched:
  assumes "quorum_ok W" "backed s"
    "tracked (snapshots W) (announced W) (\<lambda>p. w_sequence (procs W p)) s"
  shows "quorum_ok (W\<lparr>sched := s\<rparr>)"
proof -
  have "consistent (procs W) s (snapshots W) (announced W) (sent W)"
    unfolding consistent_def using assms(2,3) quorum_okD(2-5) [OF assms(1)] by blast
  then show ?thesis by (simp add: quorum_ok_def)
qed

lemma quorum_ok_handshake:
  assumes ok: "quorum_ok W"
    and d: "\<forall>t vs. (t, Some vs) \<in> set metadata \<longrightarrow> (\<forall>v\<in>set vs. v \<in> sent W \<or> unversioned v)"
  shows "quorum_ok (W\<lparr>sched := set_xfer_handshake_metadata metadata (sched W)\<rparr>)"
proof (rule quorum_ok_sched [OF ok])
  show "backed (set_xfer_handshake_metadata metadata (sched W))"
    by (rule set_xfer_handshake_keeps) (simp_all add: quorum_okD(1) [OF ok] backed_absorb_report)
  show "tracked (snapshots W) (announced W) (\<lambda>p. w_sequence (procs W p))
      (set_xfer_handshake_metadata metadata (sched W))"
    by (rule set_xfer_handshake_keeps)
       (use quorum_okD(6) [OF ok] d quorum_ok_absorb_report [OF ok] in blast)+
qed

lemma same_state_drop: "same_state s (drop_digest d s)"
  by (simp add: same_state_def drop_digest_def)

lemma quorum_ok_step:
  assumes "quorum_step W V" "quorum_ok W" shows "quorum_ok V"
  using assms(1)
proof cases
  case (mutate p h)
  then show ?thesis
    using quorum_okD(2-4) [OF assms(2), of p] assms(2) by (simp add: quorum_ok_procs worker_ok_mutate)
next
  case (assign p vs)
  then show ?thesis
    using quorum_okD(2-4) [OF assms(2), of p] assms(2) worker_ok_assign [of "snapshots W p" "procs W p" vs]
    by (simp add: quorum_ok_procs assign_held_def)
next
  case (report p v w)
  then show ?thesis using assms(2) by (simp add: quorum_ok_report)
next
  case (announce p enabled vs)
  then show ?thesis using assms(2) by (simp add: quorum_ok_announce)
next
  case (handshake metadata)
  then show ?thesis using assms(2) by (simp add: quorum_ok_handshake)
next
  case (deliver data)
  then show ?thesis
    using quorum_okD(1) [OF assms(2)] quorum_ok_deliver [OF assms(2)] assms(2)
    by (simp add: quorum_ok_sched absorb_quorum_fold backed_fold)
next
  case (drop d)
  then show ?thesis
    using quorum_okD(1,6) [OF assms(2)] assms(2)
    by (simp add: quorum_ok_sched backed_drop tracked_same [OF same_state_drop])
qed

lemma initial_quorum_ok: "initial_quorum W \<Longrightarrow> quorum_ok W"
proof -
  assume i: "initial_quorum W"
  then obtain tp where s: "sched W = new_scheduler tp" by (auto simp: initial_quorum_def)
  have "empty_scheduler (sched W)" by (auto simp: s empty_scheduler_def)
  then have "backed (sched W)" by (rule quorum_machine.inv_start)
  moreover have "tracked H A N (sched W)" for H A N by (simp add: s tracked_def new_scheduler_def)
  moreover have "worker_ok (snapshots W p) (procs W p) \<and> w_rank (procs W p) = fst p \<and>
      w_generation (procs W p) = snd p" for p
  proof -
    obtain e where "procs W p = new_worker (fst p) (snd p) e" using i unfolding initial_quorum_def by blast
    moreover have "snapshots W p = (\<lambda>_. {})" using i by (simp add: initial_quorum_def)
    ultimately show ?thesis
      by (simp add: worker_ok_def new_worker_def HeldInventory_def inventory_ok_def)
  qed
  ultimately show ?thesis using i unfolding quorum_ok_def consistent_def initial_quorum_def by blast
qed

interpretation quorum_protocol: invariant_system initial_quorum quorum_step quorum_ok
  by unfold_locales (auto intro: initial_quorum_ok quorum_ok_step)

lemma quorum_member_told:
  assumes "quorum_ok W" "r \<in> ranks_of (sched W) d"
  obtains g where "generations (sched W) r = Some g" "r \<notin> desync (sched W)"
    "g \<noteq> MISSING_GENERATION \<Longrightarrow> seq_of (sched W) r \<le> w_sequence (procs W (r, g)) + 1"
    "g \<noteq> MISSING_GENERATION \<Longrightarrow>
       d \<in> told (snapshots W (r, g)) (announced W (r, g)) (seq_of (sched W) r)"
proof -
  have b: "generations (sched W) r \<noteq> None" "r \<notin> desync (sched W)" "d \<in> held_of (sched W) r"
    using quorum_okD(1) [OF assms(1)] assms(2) by (auto simp: backed_def)
  then obtain g where g: "generations (sched W) r = Some g" by blast
  have "tracks (snapshots W (r, g)) (announced W (r, g)) (w_sequence (procs W (r, g))) r (sched W)"
    if "g \<noteq> MISSING_GENERATION"
    using quorum_okD(6) [OF assms(1)] g that unfolding tracked_def by blast
  then show thesis using that [OF g b(2)] b(3) by (auto simp: tracks_def)
qed

text \<open>The steps of the demonstration: worker 0 offers a digest, announces it at startup, and reports
  it to a scheduler of one.\<close>

definition demo_process :: process where
  "demo_process = (0, ''g1'')"

definition quorum_start :: quorum_world where
  "quorum_start = \<lparr>procs = (\<lambda>p. new_worker (fst p) (snd p) 7), sched = new_scheduler 1,
     snapshots = (\<lambda>_ _. {}), announced = (\<lambda>_. {}), sent = {}\<rparr>"

definition quorum_offer :: quorum_world where
  "quorum_offer = quorum_start\<lparr>procs := (procs quorum_start)(demo_process :=
     (procs quorum_start demo_process)\<lparr>w_inventory :=
        inv_add demo_digest (w_inventory (procs quorum_start demo_process))\<rparr>)\<rparr>"

definition quorum_told :: quorum_world where
  "quorum_told = (case build_report (procs quorum_offer demo_process) of (v, w) \<Rightarrow>
     quorum_offer\<lparr>procs := (procs quorum_offer)(demo_process := w),
       sent := insert v (sent quorum_offer),
       snapshots := (snapshots quorum_offer)(demo_process :=
         (snapshots quorum_offer demo_process)(w_sequence w := w_observed_held w))\<rparr>)"

definition quorum_heard :: quorum_world where
  "quorum_heard = quorum_told\<lparr>sched := absorb_quorum
     (PDict [(''reports'', PList [fst (build_report (procs quorum_offer demo_process))])])
     (sched quorum_told)\<rparr>"

lemma demo_digest_sha256: "is_sha256 demo_digest"
  by (simp add: is_sha256_def demo_digest_def hex_digits_def)

lemmas report_eval =
  build_report_def observe_inventory_def record_delta_def inv_add_def revised_def HeldInventory_def
  new_worker_def checkpoint_value_def delta_field_def delta_value_def advance_checkpoint_def
  advance_cursor_def slice_def chunk_total_def BATCH_def HISTORY_def

lemmas absorb_eval =
  absorb_quorum_def absorb_report_def absorb_versioned_def accept_generation_def
  begin_generation_def absorb_delta_def parse_delta_def store_delta_def drain_deltas_def
  drain_loop.simps take_pending_def apply_delta_def put_pending_def
  absorb_checkpoint_def parse_checkpoint_def put_checkpoint_def publish_def withdraw_def
  discard_rank_def add_rank_def report_generation_def report_epoch_def new_scheduler_def
  py_get_def held_of_def seq_of_def pending_of_def chunk_total_def
  BATCH_def PENDING_def DELTA_PROTOCOL_def MISSING_GENERATION_def

lemma quorum_heard_eval:
  "tp_degree (sched quorum_heard) = 1" "ranks_of (sched quorum_heard) demo_digest = {0}"
  "generations (sched quorum_heard) 0 = Some ''g1''" "seq_of (sched quorum_heard) 0 = 1"
  by (simp_all add: quorum_heard_def quorum_told_def quorum_offer_def quorum_start_def
      demo_process_def report_eval absorb_eval ranks_of_def demo_digest_sha256 Let_def)

lemma quorum_heard_reachable: "rtranclp quorum_step quorum_start quorum_heard"
proof -
  have "quorum_step quorum_start quorum_offer"
    unfolding quorum_offer_def by (rule quorum_step.mutate) (rule inventory_step.add)
  moreover have "quorum_step quorum_offer quorum_told"
  proof -
    have "proper demo_process" by (simp add: proper_def demo_process_def MISSING_GENERATION_def)
    then show ?thesis unfolding quorum_told_def
      by (cases "build_report (procs quorum_offer demo_process)") (simp add: quorum_step.report)
  qed
  moreover have "quorum_step quorum_told quorum_heard"
    unfolding quorum_heard_def
    by (rule quorum_step.deliver)
       (simp add: reports_of_def quorum_told_def split: prod.split)
  ultimately show ?thesis by (meson converse_rtranclp_into_rtranclp r_into_rtranclp)
qed

lemma quorum_start_initial: "initial_quorum quorum_start"
  by (auto simp: initial_quorum_def quorum_start_def)

text \<open>The same worker announces its inventory at startup instead, and the scheduler has the quorum
  before any statistics report.\<close>

definition announce_world :: "process \<Rightarrow> quorum_world \<Rightarrow> quorum_world" where
  "announce_world p W = W\<lparr>sent := sent W \<union> set (the (get_handshake_metadata True (procs W p))),
     announced := (announced W)(p := insert (handshake_sequence (procs W p),
       set (handshake_held (procs W p))) (announced W p))\<rparr>"

definition quorum_greeted :: quorum_world where
  "quorum_greeted = (announce_world demo_process quorum_offer)\<lparr>sched := set_xfer_handshake_metadata
     [(0, get_handshake_metadata True (procs quorum_offer demo_process))] (sched quorum_offer)\<rparr>"

lemmas handshake_eval =
  announce_world_def get_handshake_metadata_def handshake_report_def handshake_sequence_def
  handshake_held_def HANDSHAKE_MAX_def set_xfer_handshake_metadata_def absorb_handshake_report_def
  add_chunk_def finish_checkpoint_def install_checkpoint_def replace_held_def mark_desynchronized_def

lemma quorum_greeted_sched:
  "sched quorum_greeted = \<lparr>tp_degree = 1, quorum = [demo_digest \<mapsto> {0}], q_counters = no_counts,
     generations = [0 \<mapsto> ''g1''], epochs = [0 \<mapsto> 7], retired = [0 \<mapsto> []], sequences = [0 \<mapsto> 1],
     held = [0 \<mapsto> {demo_digest}], pendings = [0 \<mapsto> []], checkpoints = Map.empty, desync = {},
     needs_checkpoint = {}\<rparr>"
  by (simp add: quorum_greeted_def quorum_offer_def quorum_start_def demo_process_def report_eval
      absorb_eval handshake_eval demo_digest_sha256 Let_def fun_eq_iff)

lemma quorum_greeted_proc:
  "procs quorum_greeted demo_process = \<lparr>w_rank = 0, w_generation = ''g1'', w_epoch = 7, w_object = 0,
     w_inventory = \<lparr>hvalues = {demo_digest}, revision = 1\<rparr>, w_seen_object = None, w_observed_held = {},
     w_observed_revision = - 1, w_sequence = 0, w_history = [], w_cursor = 0, w_items = [],
     w_cp_sequence = 0, w_cp_cycle = 1, w_cp_index = 0\<rparr>"
  by (simp add: quorum_greeted_def quorum_offer_def quorum_start_def demo_process_def
      report_eval announce_world_def)

lemma quorum_greeted_eval:
  "tp_degree (sched quorum_greeted) = 1" "ranks_of (sched quorum_greeted) demo_digest = {0}"
  "generations (sched quorum_greeted) 0 = Some ''g1''" "seq_of (sched quorum_greeted) 0 = 1"
  "w_sequence (procs quorum_greeted demo_process) = 0"
  by (simp_all add: quorum_greeted_sched quorum_greeted_proc ranks_of_def seq_of_def)

lemma proper_demo: "proper demo_process"
  by (simp add: proper_def demo_process_def MISSING_GENERATION_def)

lemma announce_world_step: "proper p \<Longrightarrow> quorum_step W (announce_world p W)"
  unfolding announce_world_def
  by (rule quorum_step.announce [where enabled = True]) (simp_all add: get_handshake_metadata_def)

lemma quorum_greeted_reachable: "rtranclp quorum_step quorum_start quorum_greeted"
proof -
  let ?A = "announce_world demo_process quorum_offer"
  have "quorum_step quorum_start quorum_offer"
    unfolding quorum_offer_def by (rule quorum_step.mutate) (rule inventory_step.add)
  moreover have "quorum_step quorum_offer ?A" using proper_demo by (rule announce_world_step)
  moreover have "quorum_step ?A (?A\<lparr>sched := set_xfer_handshake_metadata
      [(0, get_handshake_metadata True (procs quorum_offer demo_process))] (sched ?A)\<rparr>)"
    by (rule quorum_step.handshake) (auto simp: announce_world_def dest!: sym [of "Some _"])
  then have "quorum_step ?A quorum_greeted" by (simp add: quorum_greeted_def announce_world_def)
  ultimately show ?thesis by (meson converse_rtranclp_into_rtranclp r_into_rtranclp)
qed

text \<open>C12: The admission quorum is sound against the workers themselves. However reports and startup
  announcements are lost, repeated and reordered, however workers restart and unversioned reports
  intrude, a digest with the full quorum was told by every physical rank: the scheduler follows one
  generation of the rank and, unless that is the one without a name (a peer of the old protocol,
  whose full-set reports it takes as they come, so that nothing is claimed of it), the sequence
  number it accepted is at most one past the process's own, and the digest is in the inventory that
  number stands for, or else the process announced it at startup under a number so far accepted
  whose inventory, as reported later or not reported yet, does not hold it.\<close>

theorem full_quorum_truthful:
  assumes "initial_quorum W0" "rtranclp quorum_step W0 W" "has_full_quorum (sched W) d"
    "0 \<le> r" "r < tp_degree (sched W)"
  shows "\<exists>g. generations (sched W) r = Some g \<and> r \<notin> desync (sched W) \<and>
    (g \<noteq> MISSING_GENERATION \<longrightarrow> seq_of (sched W) r \<le> w_sequence (procs W (r, g)) + 1 \<and>
      (d \<in> snapshots W (r, g) (seq_of (sched W) r) \<or>
       (\<exists>j a. (j, a) \<in> announced W (r, g) \<and> j \<le> seq_of (sched W) r \<and> d \<in> a \<and>
         d \<notin> snapshots W (r, g) j)))"
proof -
  have ok: "quorum_ok W" using assms(1,2) by (rule quorum_protocol.reachable_inv)
  have "r \<in> ranks_of (sched W) d" using assms(3-5) by (simp add: has_full_quorum_iff)
  with ok show ?thesis by (rule quorum_member_told) (auto simp: told_def)
qed

theorem full_quorum_truthful_witness:
  "seq_of (sched quorum_greeted) 0 = w_sequence (procs quorum_greeted (0, ''g1'')) + 1 \<and>
   (demo_digest \<in> snapshots quorum_greeted (0, ''g1'') (seq_of (sched quorum_greeted) 0) \<or>
     (\<exists>j a. (j, a) \<in> announced quorum_greeted (0, ''g1'') \<and> j \<le> seq_of (sched quorum_greeted) 0 \<and>
       demo_digest \<in> a \<and> demo_digest \<notin> snapshots quorum_greeted (0, ''g1'') j))"
  using full_quorum_truthful [OF quorum_start_initial quorum_greeted_reachable, of demo_digest 0]
    quorum_greeted_eval(5)
  by (simp add: has_full_quorum_def quorum_greeted_eval(1-4) MISSING_GENERATION_def demo_process_def)

text \<open>C13: When the scheduler has caught up with the process it follows (it accepted the last
  sequence number, and the process has seen its inventory's present revision), a quorum
  membership is about the present inventory: the worker holds the digest now. The one exception is
  a digest announced at startup under a number whose reported inventory does not hold it, because
  the inventory changed between the announcement and the first report after it.\<close>

theorem quorum_member_current:
  assumes "initial_quorum W0" "rtranclp quorum_step W0 W" "r \<in> ranks_of (sched W) d"
    "generations (sched W) r = Some g" "g \<noteq> MISSING_GENERATION"
    "seq_of (sched W) r = w_sequence (procs W (r, g))"
    "w_seen_object (procs W (r, g)) = Some (w_object (procs W (r, g)))"
    "w_observed_revision (procs W (r, g)) = revision (w_inventory (procs W (r, g)))"
  shows "d \<in> hvalues (w_inventory (procs W (r, g))) \<or>
    (\<exists>j a. (j, a) \<in> announced W (r, g) \<and> j \<le> w_sequence (procs W (r, g)) \<and> d \<in> a \<and>
      d \<notin> snapshots W (r, g) j)"
proof -
  have ok: "quorum_ok W" using assms(1,2) by (rule quorum_protocol.reachable_inv)
  have "d \<in> told (snapshots W (r, g)) (announced W (r, g)) (seq_of (sched W) r)"
    using quorum_member_told [OF ok assms(3)] assms(4,5) by (metis option.inject)
  moreover have "snapshots W (r, g) (w_sequence (procs W (r, g))) = hvalues (w_inventory (procs W (r, g)))"
    using quorum_okD(2) [OF ok, of "(r, g)"] assms(7,8) unfolding worker_ok_def by metis
  ultimately show ?thesis unfolding told_def assms(6) by blast
qed

lemma quorum_heard_announced: "announced quorum_heard = (\<lambda>_. {})"
  by (simp add: quorum_heard_def quorum_told_def quorum_offer_def quorum_start_def split: prod.split)

lemma quorum_heard_worker:
  "w_sequence (procs quorum_heard (0, ''g1'')) = 1"
  "w_seen_object (procs quorum_heard (0, ''g1'')) = Some (w_object (procs quorum_heard (0, ''g1'')))"
  "w_observed_revision (procs quorum_heard (0, ''g1'')) = revision (w_inventory (procs quorum_heard (0, ''g1'')))"
  by (simp_all add: quorum_heard_def quorum_told_def quorum_offer_def quorum_start_def
      demo_process_def report_eval Let_def)

theorem quorum_member_current_witness:
  "demo_digest \<in> hvalues (w_inventory (procs quorum_heard (0, ''g1'')))"
  using quorum_member_current [OF quorum_start_initial quorum_heard_reachable, of 0 demo_digest "''g1''"]
  by (simp add: quorum_heard_eval quorum_heard_worker quorum_heard_announced MISSING_GENERATION_def)

section \<open>An announcement that its number does not keep\<close>

text \<open>The exception is real. Worker 0 announces \<open>demo_digest\<close> as sequence number 1, loses it and gains
  another digest, and its first statistics report is number 1 again: the scheduler takes neither its
  delta nor its checkpoint, being synchronised at 1 already, and keeps the quorum for a digest that
  the worker does not hold and will not offer a correction for until its inventory changes again.\<close>

definition other_digest :: string where
  "other_digest = replicate 64 (CHR ''b'')"

definition quorum_changed :: quorum_world where
  "quorum_changed = quorum_greeted\<lparr>procs := (procs quorum_greeted)(demo_process :=
     (procs quorum_greeted demo_process)\<lparr>w_inventory := inv_add other_digest (inv_discard demo_digest
        (w_inventory (procs quorum_greeted demo_process)))\<rparr>)\<rparr>"

definition report_world :: "process \<Rightarrow> quorum_world \<Rightarrow> quorum_world" where
  "report_world p W = (case build_report (procs W p) of (v, w) \<Rightarrow>
     W\<lparr>procs := (procs W)(p := w), sent := insert v (sent W),
       snapshots := (snapshots W)(p := (snapshots W p)(w_sequence w := w_observed_held w))\<rparr>)"

definition quorum_behind :: quorum_world where
  "quorum_behind = (report_world demo_process quorum_changed)\<lparr>sched := absorb_quorum
     (PDict [(''reports'', PList [fst (build_report (procs quorum_changed demo_process))])])
     (sched quorum_changed)\<rparr>"

lemma digests_differ [simp]: "demo_digest \<noteq> other_digest" "other_digest \<noteq> demo_digest"
  by (simp_all add: demo_digest_def other_digest_def)

lemma other_digest_sha256: "is_sha256 other_digest"
  by (simp add: is_sha256_def other_digest_def hex_digits_def)

lemma quorum_changed_report:
  "build_report (procs quorum_changed demo_process) = (v, w) \<Longrightarrow>
   w_sequence w = 1 \<and> hvalues (w_inventory w) = {other_digest} \<and>
   v = PDict [(''rank'', PInt 0), (''protocol'', PStr DELTA_PROTOCOL), (''generation'', PStr ''g1''),
     (''generation_epoch'', PInt 7), (''held_count'', PInt 1), (''held'', PList []),
     (''checkpoint'', PDict [(''state_sequence'', PInt 1), (''cycle'', PInt 2), (''index'', PInt 0),
        (''count'', PInt 1), (''held_count'', PInt 1), (''held'', PList [PStr other_digest])]),
     (''delta'', PDict [(''sequence'', PInt 1), (''base_sequence'', PInt 0),
        (''added'', PList [PStr other_digest]), (''removed'', PList [])])]"
  by (auto simp: quorum_changed_def quorum_greeted_proc report_eval inv_discard_def insert_Diff_if Let_def)

lemma quorum_behind_eval:
  "seq_of (sched quorum_behind) 0 = w_sequence (procs quorum_behind demo_process)"
  "ranks_of (sched quorum_behind) demo_digest = {0}"
  "hvalues (w_inventory (procs quorum_behind demo_process)) = {other_digest}"
proof -
  obtain v w where b: "build_report (procs quorum_changed demo_process) = (v, w)" by fastforce
  note r = quorum_changed_report [OF b]
  have "sched quorum_changed = sched quorum_greeted" by (simp add: quorum_changed_def)
  then have s: "sched quorum_behind = absorb_report v (sched quorum_greeted)"
    by (simp add: quorum_behind_def b absorb_quorum_def)
  have p: "procs quorum_behind demo_process = w" by (simp add: quorum_behind_def report_world_def b)
  show "seq_of (sched quorum_behind) 0 = w_sequence (procs quorum_behind demo_process)"
    "ranks_of (sched quorum_behind) demo_digest = {0}"
    unfolding s p using r
    by (simp_all add: quorum_greeted_sched absorb_eval ranks_of_def other_digest_sha256)
  show "hvalues (w_inventory (procs quorum_behind demo_process)) = {other_digest}" using r p by simp
qed

lemma report_world_step: "proper p \<Longrightarrow> quorum_step W (report_world p W)"
  unfolding report_world_def by (cases "build_report (procs W p)") (simp add: quorum_step.report)

lemma handshake_number_ambiguous:
  "rtranclp quorum_step quorum_start quorum_behind \<and>
   seq_of (sched quorum_behind) 0 = w_sequence (procs quorum_behind demo_process) \<and>
   ranks_of (sched quorum_behind) demo_digest = {0} \<and>
   hvalues (w_inventory (procs quorum_behind demo_process)) = {other_digest}"
proof -
  let ?w = "procs quorum_greeted demo_process"
  let ?D = "quorum_greeted\<lparr>procs := (procs quorum_greeted)(demo_process :=
      ?w\<lparr>w_inventory := inv_discard demo_digest (w_inventory ?w)\<rparr>)\<rparr>"
  let ?R = "report_world demo_process quorum_changed"
  have "quorum_step quorum_greeted ?D" by (rule quorum_step.mutate) (rule inventory_step.discard)
  moreover have "quorum_step ?D (?D\<lparr>procs := (procs ?D)(demo_process := (procs ?D demo_process)\<lparr>w_inventory :=
      inv_add other_digest (w_inventory (procs ?D demo_process))\<rparr>)\<rparr>)"
    by (rule quorum_step.mutate) (rule inventory_step.add)
  then have "quorum_step ?D quorum_changed" by (simp add: quorum_changed_def)
  moreover have "quorum_step quorum_changed ?R" using proper_demo by (rule report_world_step)
  moreover have "sched ?R = sched quorum_changed"
    "fst (build_report (procs quorum_changed demo_process)) \<in> sent ?R"
    by (simp_all add: report_world_def split: prod.split)
  then have "quorum_step ?R quorum_behind"
    using quorum_step.deliver [of "PDict [(''reports'', PList [fst (build_report (procs quorum_changed demo_process))])]" ?R]
    by (simp add: quorum_behind_def reports_of_def)
  ultimately have "rtranclp quorum_step quorum_start quorum_behind"
    using quorum_greeted_reachable by (meson rtranclp.rtrancl_into_rtrancl)
  with quorum_behind_eval show ?thesis by blast
qed

end
