(* ===== verification/Snapshot_Planner.thy ===== *)
theory Snapshot_Planner
  imports Prelude "HOL-Library.Multiset"
begin

text \<open>
  \<open>sparkcache/streaming/planner.py\<close>: the coordinator that cuts completed prefill spans into bounded
  batches whose source blocks stay leased until their gather completes, and that gives up a cache
  entry rather than make inference wait. First the operations, then the coordinator as a state
  machine with a ghost log of the batches it emitted and of those that completed.
\<close>

section \<open>The block table mapper\<close>

record range_mapper =
  table_blocks :: "int list"
  tokens_per_block :: int

definition BlockTableRangeMapper :: "int list \<Rightarrow> int \<Rightarrow> exn + range_mapper" where
  "BlockTableRangeMapper bs n =
     (if n \<le> 0 then Inl (ValueError ''logical_tokens_per_block must be positive'')
      else if bs = [] then Inl (ValueError ''block_ids must not be empty'')
      else if \<exists>b\<in>set bs. b < 0 then Inl (ValueError ''block_ids must contain non-negative integers'')
      else Inr \<lparr>table_blocks = bs, tokens_per_block = n\<rparr>)"

definition blocks_for_range :: "range_mapper \<Rightarrow> int \<Rightarrow> int \<Rightarrow> exn + int list" where
  "blocks_for_range m s e =
     (if s < 0 \<or> e \<le> s then Inl (ValueError ''logical range must be positive and ordered'')
      else
        (let first = s div tokens_per_block m;
             last = (e + tokens_per_block m - 1) div tokens_per_block m
         in if last > int (length (table_blocks m))
            then Inl (ValueError ''logical range exceeds the physical block table'')
            else
              (let bs = take (nat (last - first)) (drop (nat first) (table_blocks m))
               in if bs = [] then Inl (ValueError ''logical range maps to no physical blocks'')
                  else Inr bs)))"

section \<open>Coordinator state\<close>

datatype snapshot_state = ACTIVE | READY_TO_COMMIT | ABORTED | COMMITTED

record snapshot_batch =
  b_request :: string
  b_digest :: string
  b_index :: int
  b_start :: int
  b_end :: int
  b_chunk_tokens :: int
  b_blocks :: "int list"

definition chunk_count :: "snapshot_batch \<Rightarrow> int" where
  "chunk_count b = (b_end b - b_start b) div b_chunk_tokens b"

definition chunk_indexes :: "snapshot_batch \<Rightarrow> int list" where
  "chunk_indexes b = [b_start b div b_chunk_tokens b..b_end b div b_chunk_tokens b - 1]"

record snapshot_offer =
  o_batches :: "snapshot_batch list"
  o_aborted :: bool
  o_release :: "snapshot_batch list"

definition no_offer :: snapshot_offer where
  "no_offer = \<lparr>o_batches = [], o_aborted = False, o_release = []\<rparr>"

record session =
  s_request :: string
  s_digest :: string
  s_span :: int
  s_state :: snapshot_state
  s_next :: int
  s_next_index :: int
  s_pending :: "(int, snapshot_batch) dict"

record coordinator =
  chunk_tokens :: int
  chunks_per_batch :: int
  max_inflight :: int
  max_sessions :: int
  sessions :: "(string, session) dict"
  digest_owner :: "(string, string) dict"
  c_counters :: counters

definition new_coordinator :: "int \<Rightarrow> int \<Rightarrow> int \<Rightarrow> int \<Rightarrow> exn + coordinator" where
  "new_coordinator ct cpb inflight ns =
     (if ct \<le> 0 then Inl (ValueError ''chunk_tokens must be positive'')
      else if cpb \<le> 0 then Inl (ValueError ''chunks_per_batch must be positive'')
      else if inflight \<le> 0 then Inl (ValueError ''max_inflight_batches must be positive'')
      else if ns \<le> 0 then Inl (ValueError ''max_sessions must be positive'')
      else Inr \<lparr>chunk_tokens = ct, chunks_per_batch = cpb, max_inflight = inflight,
        max_sessions = ns, sessions = [], digest_owner = [], c_counters = no_counts\<rparr>)"

definition inflight_batches :: "coordinator \<Rightarrow> int" where
  "inflight_batches c = dsum (\<lambda>s. int (length (s_pending s))) (sessions c)"

abbreviation tally :: "string \<Rightarrow> int \<Rightarrow> coordinator \<Rightarrow> coordinator" where
  "tally k n c \<equiv> c\<lparr>c_counters := bump k n (c_counters c)\<rparr>"

section \<open>Coordinator operations\<close>

definition begin_snapshot ::
    "string \<Rightarrow> string \<Rightarrow> int \<Rightarrow> coordinator \<Rightarrow> (bool, coordinator) outcome" where
  "begin_snapshot rid dg span c =
     (if rid = '''' \<or> dg = '''' then raises (ValueError ''request_id and context_digest are required'') c
      else if span \<le> 0 \<or> span mod chunk_tokens c \<noteq> 0
        then raises (ValueError ''span_tokens must be a positive chunk multiple'') c
      else (case dget (sessions c) rid of
              Some s \<Rightarrow>
                if s_digest s \<noteq> dg \<or> s_span s \<noteq> span
                then raises (ValueError ''request_id already owns a different snapshot'') c
                else returns (s_state s = ACTIVE \<or> s_state s = READY_TO_COMMIT) c
            | None \<Rightarrow>
                if dget (digest_owner c) dg \<noteq> None
                then returns False (tally ''duplicate_suppressed'' 1 c)
                else if int (length (sessions c)) \<ge> max_sessions c
                then returns False (tally ''capacity_suppressed'' 1 c)
                else returns True (tally ''admitted'' 1
                  (c\<lparr>sessions := dput rid \<lparr>s_request = rid, s_digest = dg, s_span = span,
                       s_state = ACTIVE, s_next = 0, s_next_index = 0, s_pending = []\<rparr> (sessions c),
                     digest_owner := dput dg rid (digest_owner c)\<rparr>))))"

definition retire :: "session \<Rightarrow> coordinator \<Rightarrow> coordinator" where
  "retire s c = c\<lparr>sessions := ddel (s_request s) (sessions c),
     digest_owner := (if dget (digest_owner c) (s_digest s) = Some (s_request s)
       then ddel (s_digest s) (digest_owner c) else digest_owner c)\<rparr>"

text \<open>The loop of \<open>offer_completed\<close> that maps every batch before any is emitted; \<open>None\<close> is the
  exception that the \<open>except\<close> clause catches, raised by the mapper or by the checks on its answer.
  The guard on the batch size is the constructor's; the Python loop would not end without it.\<close>

function map_spans ::
    "(int \<Rightarrow> int \<Rightarrow> exn + int list) \<Rightarrow> int \<Rightarrow> int \<Rightarrow> int \<Rightarrow> (int \<times> int \<times> int list) list option" where
  "map_spans mapper cursor stop width =
     (if cursor < stop \<and> 0 < width then
        (let e = min (cursor + width) stop
         in case mapper cursor e of
              Inl _ \<Rightarrow> None
            | Inr bs \<Rightarrow>
                if bs = [] \<or> \<not> distinct bs \<or> (\<exists>b\<in>set bs. b < 0) then None
                else map_option (\<lambda>rest. (cursor, e, bs) # rest) (map_spans mapper e stop width))
      else Some [])"
  by pat_completeness auto
termination by (relation "measure (\<lambda>(_, cursor, stop, _). nat (stop - cursor))") auto

declare map_spans.simps [simp del]

definition batches_of ::
    "session \<Rightarrow> int \<Rightarrow> (int \<times> int \<times> int list) list \<Rightarrow> snapshot_batch list" where
  "batches_of s ct spans =
     map (\<lambda>(i, (a, e, bs)). \<lparr>b_request = s_request s, b_digest = s_digest s,
            b_index = s_next_index s + int i, b_start = a, b_end = e, b_chunk_tokens = ct,
            b_blocks = bs\<rparr>)
       (enumerate 0 spans)"

definition abandon :: "string \<Rightarrow> session \<Rightarrow> coordinator \<Rightarrow> (snapshot_offer, coordinator) outcome" where
  "abandon k s c = returns \<lparr>o_batches = [], o_aborted = True, o_release = dvals (s_pending s)\<rparr>
     (retire s (tally k 1 c))"

definition offer_completed ::
    "string \<Rightarrow> int \<Rightarrow> (int \<Rightarrow> int \<Rightarrow> exn + int list) \<Rightarrow> coordinator
      \<Rightarrow> (snapshot_offer, coordinator) outcome" where
  "offer_completed rid done mapper c =
     (case dget (sessions c) rid of
        None \<Rightarrow> raises (ValueError ''unknown snapshot request'') c
      | Some s \<Rightarrow>
          if s_state s \<noteq> ACTIVE then returns no_offer c
          else if done < s_next s then raises (ValueError ''completed_tokens must be monotonic'') c
          else
            (let e0 = min done (s_span s); stop = e0 - e0 mod chunk_tokens c;
                 width = chunk_tokens c * chunks_per_batch c;
                 required = (stop - s_next s + width - 1) div width
             in if stop \<le> s_next s then returns no_offer c
                else if inflight_batches c + required > max_inflight c
                then abandon ''aborted_backpressure'' s c
                else (case map_spans mapper (s_next s) stop width of
                        None \<Rightarrow> abandon ''aborted_mapping'' s c
                      | Some spans \<Rightarrow>
                          (let bs = batches_of s (chunk_tokens c) spans;
                               s' = s\<lparr>s_next := stop, s_next_index := s_next_index s + int (length bs),
                                      s_pending := fold (\<lambda>b. dput (b_index b) b) bs (s_pending s)\<rparr>
                           in returns \<lparr>o_batches = bs, o_aborted = False, o_release = []\<rparr>
                                (tally ''batches_emitted'' (int (length bs))
                                  (c\<lparr>sessions := dput rid s' (sessions c)\<rparr>))))))"

definition complete_batch ::
    "string \<Rightarrow> int \<Rightarrow> coordinator \<Rightarrow> (bool, coordinator) outcome" where
  "complete_batch rid i c =
     (case dget (sessions c) rid of
        None \<Rightarrow> raises (ValueError ''unknown snapshot request'') c
      | Some s \<Rightarrow>
          if dget (s_pending s) i = None
          then raises (ValueError ''unknown or already completed snapshot batch'') c
          else
            (let s1 = s\<lparr>s_pending := ddel i (s_pending s)\<rparr>;
                 ready = (s_next s1 = s_span s1 \<and> s_pending s1 = []);
                 s2 = (if ready then s1\<lparr>s_state := READY_TO_COMMIT\<rparr> else s1)
             in returns ready (tally ''batches_completed'' 1 (c\<lparr>sessions := dput rid s2 (sessions c)\<rparr>))))"

definition abort_snapshot :: "string \<Rightarrow> coordinator \<Rightarrow> snapshot_batch list \<times> coordinator" where
  "abort_snapshot rid c =
     (case dget (sessions c) rid of
        None \<Rightarrow> ([], c)
      | Some s \<Rightarrow> (dvals (s_pending s), retire s (tally ''aborted_explicit'' 1 c)))"

definition commit_snapshot :: "string \<Rightarrow> coordinator \<Rightarrow> (unit, coordinator) outcome" where
  "commit_snapshot rid c =
     (case dget (sessions c) rid of
        None \<Rightarrow> raises (ValueError ''unknown snapshot request'') c
      | Some s \<Rightarrow>
          if s_state s \<noteq> READY_TO_COMMIT then raises (ValueError ''snapshot is not ready to commit'') c
          else returns () (retire s (tally ''committed'' 1 c)))"

definition snapshot_state_of :: "string \<Rightarrow> coordinator \<Rightarrow> snapshot_state option" where
  "snapshot_state_of rid c = map_option s_state (dget (sessions c) rid)"

section \<open>Spans tile the range they cover\<close>

fun tiles :: "int \<Rightarrow> int \<Rightarrow> (int \<times> int) list \<Rightarrow> bool" where
  "tiles a e [] = (a = e)"
| "tiles a e ((x, y) # ps) = (x = a \<and> a < y \<and> tiles y e ps)"

lemma tiles_append: "tiles a e ps \<Longrightarrow> tiles e f qs \<Longrightarrow> tiles a f (ps @ qs)"
  by (induction ps arbitrary: a) auto

text \<open>Every token of a tiled range is in exactly one tile.\<close>

lemma tiles_le: "tiles a e ps \<Longrightarrow> a \<le> e"
  by (induction ps arbitrary: a) fastforce+

lemma tiles_bounds: "tiles a e ps \<Longrightarrow> (x, y) \<in> set ps \<Longrightarrow> a \<le> x \<and> x < y \<and> y \<le> e"
  by (induction ps arbitrary: a) (fastforce dest: tiles_le)+

lemma tiles_cover:
  "tiles a e ps \<Longrightarrow> a \<le> t \<Longrightarrow> t < e \<Longrightarrow> \<exists>!i. i < length ps \<and> fst (ps ! i) \<le> t \<and> t < snd (ps ! i)"
proof (induction ps arbitrary: a)
  case (Cons p ps)
  obtain x y where p: "p = (x, y)" by (cases p)
  with Cons.prems have x: "x = a" "a < y" "tiles y e ps" by auto
  show ?case
  proof (cases "t < y")
    case True
    have "i = 0" if "i < length (p # ps)" "fst ((p # ps) ! i) \<le> t" for i
    proof (rule ccontr)
      assume "i \<noteq> 0"
      then obtain j where "i = Suc j" by (cases i) auto
      then have "(fst (ps ! j), snd (ps ! j)) \<in> set ps" using that by simp
      from tiles_bounds [OF x(3) this] that True \<open>i = Suc j\<close> show False by simp
    qed
    then show ?thesis using Cons.prems x p True by (intro ex1I [of _ 0]) auto
  next
    case False
    then obtain i where i: "i < length ps" "fst (ps ! i) \<le> t" "t < snd (ps ! i)"
      and u: "\<And>j. j < length ps \<Longrightarrow> fst (ps ! j) \<le> t \<Longrightarrow> t < snd (ps ! j) \<Longrightarrow> j = i"
      using Cons.IH [OF x(3)] Cons.prems by (metis not_le)
    show ?thesis
    proof (rule ex1I [of _ "Suc i"])
      show "j = Suc i" if "j < length (p # ps) \<and> fst ((p # ps) ! j) \<le> t \<and> t < snd ((p # ps) ! j)" for j
        using that u False p by (cases j) auto
    qed (use i in simp)
  qed
qed simp

lemma map_spans_tiles:
  "map_spans f cursor stop width = Some spans \<Longrightarrow> cursor \<le> stop \<Longrightarrow> 0 < width \<Longrightarrow>
   tiles cursor stop (map (\<lambda>(a, e, _). (a, e)) spans)"
proof (induction f cursor stop width arbitrary: spans rule: map_spans.induct)
  case (1 f cursor stop width)
  show ?case
  proof (cases "cursor < stop")
    case True
    obtain bs rest where f: "f cursor (min (cursor + width) stop) = Inr bs"
      and ok: "\<not> (bs = [] \<or> \<not> distinct bs \<or> (\<exists>b\<in>set bs. b < 0))"
      and rest: "map_spans f (min (cursor + width) stop) stop width = Some rest"
      and s: "spans = (cursor, min (cursor + width) stop, bs) # rest"
      using "1.prems"(1,3) True
      by (subst (asm) map_spans.simps) (auto simp: Let_def split: sum.splits if_splits)
    have "tiles (min (cursor + width) stop) stop (map (\<lambda>(a, e, _). (a, e)) rest)"
      using "1.prems"(3) True by (intro "1.IH" [OF _ refl f ok rest]) auto
    then show ?thesis using s True "1.prems"(3) by auto
  next
    case False
    then show ?thesis using "1.prems" by (simp add: map_spans.simps)
  qed
qed

lemma map_spans_blocks:
  "map_spans f cursor stop width = Some spans \<Longrightarrow> (a, e, bs) \<in> set spans \<Longrightarrow>
   f a e = Inr bs \<and> bs \<noteq> [] \<and> distinct bs \<and> (\<forall>b\<in>set bs. 0 \<le> b)"
proof (induction f cursor stop width arbitrary: spans rule: map_spans.induct)
  case (1 f cursor stop width)
  show ?case
  proof (cases "cursor < stop \<and> 0 < width")
    case True
    obtain cs rest where f: "f cursor (min (cursor + width) stop) = Inr cs"
      and ok: "\<not> (cs = [] \<or> \<not> distinct cs \<or> (\<exists>b\<in>set cs. b < 0))"
      and rest: "map_spans f (min (cursor + width) stop) stop width = Some rest"
      and s: "spans = (cursor, min (cursor + width) stop, cs) # rest"
      using "1.prems"(1) True
      by (subst (asm) map_spans.simps) (auto simp: Let_def split: sum.splits if_splits)
    then show ?thesis
      using "1.IH" [OF True refl f ok rest] "1.prems"(2) by (auto simp: not_less)
  next
    case False
    then have "spans = []" using "1.prems"(1) by (subst (asm) map_spans.simps) auto
    then show ?thesis using "1.prems"(2) by simp
  qed
qed

text \<open>The number of batches is the ceiling that the capacity check uses.\<close>

lemma ceil_step:
  fixes n w :: int
  assumes "0 < w" "w < n"
  shows "(n + w - 1) div w = (n - w + w - 1) div w + 1"
  using div_add_self2 [of w "n - 1"] assms by (simp add: algebra_simps)

lemma map_spans_length:
  "map_spans f cursor stop width = Some spans \<Longrightarrow> cursor \<le> stop \<Longrightarrow> 0 < width \<Longrightarrow>
   int (length spans) = (stop - cursor + width - 1) div width"
proof (induction f cursor stop width arbitrary: spans rule: map_spans.induct)
  case (1 f cursor stop width)
  show ?case
  proof (cases "cursor < stop")
    case True
    obtain bs rest where f: "f cursor (min (cursor + width) stop) = Inr bs"
      and ok: "\<not> (bs = [] \<or> \<not> distinct bs \<or> (\<exists>b\<in>set bs. b < 0))"
      and rest: "map_spans f (min (cursor + width) stop) stop width = Some rest"
      and s: "spans = (cursor, min (cursor + width) stop, bs) # rest"
      using "1.prems"(1,3) True
      by (subst (asm) map_spans.simps) (auto simp: Let_def split: sum.splits if_splits)
    have ih: "int (length rest) = (stop - min (cursor + width) stop + width - 1) div width"
      using "1.prems"(3) True by (intro "1.IH" [OF _ refl f ok rest]) auto
    show ?thesis
    proof (cases "cursor + width < stop")
      case True
      then show ?thesis
        using ih s "1.prems"(3) ceil_step [of width "stop - cursor"]
        by (simp add: min_def algebra_simps)
    next
      case False
      have "(stop - cursor + width - 1) div width = 1"
        using False True "1.prems"(3) by (intro int_div_pos_eq [of _ _ _ "stop - cursor - 1"]) auto
      moreover have "(width - 1) div width = 0" using "1.prems"(3) by simp
      ultimately show ?thesis using ih s False by (simp add: min_def)
    qed
  next
    case False
    then show ?thesis using "1.prems" by (simp add: map_spans.simps)
  qed
qed

lemma map_spans_aligned:
  "map_spans f cursor stop width = Some spans \<Longrightarrow> (a, e, bs) \<in> set spans \<Longrightarrow>
   k dvd cursor \<Longrightarrow> k dvd stop \<Longrightarrow> k dvd width \<Longrightarrow> k dvd a \<and> k dvd e"
proof (induction f cursor stop width arbitrary: spans rule: map_spans.induct)
  case (1 f cursor stop width)
  show ?case
  proof (cases "cursor < stop \<and> 0 < width")
    case True
    obtain cs rest where f: "f cursor (min (cursor + width) stop) = Inr cs"
      and ok: "\<not> (cs = [] \<or> \<not> distinct cs \<or> (\<exists>b\<in>set cs. b < 0))"
      and rest: "map_spans f (min (cursor + width) stop) stop width = Some rest"
      and s: "spans = (cursor, min (cursor + width) stop, cs) # rest"
      using "1.prems"(1) True
      by (subst (asm) map_spans.simps) (auto simp: Let_def split: sum.splits if_splits)
    have k: "k dvd min (cursor + width) stop" using "1.prems"(3-5) by (simp add: min_def)
    show ?thesis
      using "1.IH" [OF True refl f ok rest _ k "1.prems"(4,5)] "1.prems"(2,3) s k by auto
  next
    case False
    then have "spans = []" using "1.prems"(1) by (subst (asm) map_spans.simps) auto
    then show ?thesis using "1.prems"(2) by simp
  qed
qed

section \<open>The coordinator with its history\<close>

text \<open>For every request the ghosts keep the batches its current session has emitted, in order, and
  those of them that have completed.\<close>

record planner_world =
  coord :: coordinator
  emitted :: "string \<Rightarrow> snapshot_batch list"
  finished :: "string \<Rightarrow> snapshot_batch list"

abbreviation spans_of :: "snapshot_batch list \<Rightarrow> (int \<times> int) list" where
  "spans_of E \<equiv> map (\<lambda>b. (b_start b, b_end b)) E"

inductive planner_step :: "planner_world \<Rightarrow> planner_world \<Rightarrow> bool" where
  begin_new: "dget (sessions (coord W)) rid = None \<Longrightarrow> begin_snapshot rid dg span (coord W) = (Inr True, c) \<Longrightarrow>
    planner_step W (W\<lparr>coord := c, emitted := (emitted W)(rid := []), finished := (finished W)(rid := [])\<rparr>)"
| begin_other: "begin_snapshot rid dg span (coord W) = (res, c) \<Longrightarrow>
    dget (sessions (coord W)) rid \<noteq> None \<or> res \<noteq> Inr True \<Longrightarrow> planner_step W (W\<lparr>coord := c\<rparr>)"
| offer: "offer_completed rid done f (coord W) = (Inr off, c) \<Longrightarrow>
    planner_step W (W\<lparr>coord := c, emitted := (emitted W)(rid := emitted W rid @ o_batches off)\<rparr>)"
| offer_raises: "offer_completed rid done f (coord W) = (Inl x, c) \<Longrightarrow> planner_step W (W\<lparr>coord := c\<rparr>)"
| complete: "dget (sessions (coord W)) rid = Some s \<Longrightarrow> dget (s_pending s) i = Some b \<Longrightarrow>
    planner_step W (W\<lparr>coord := snd (complete_batch rid i (coord W)),
      finished := (finished W)(rid := finished W rid @ [b])\<rparr>)"
| complete_raises: "complete_batch rid i (coord W) = (Inl x, c) \<Longrightarrow> planner_step W (W\<lparr>coord := c\<rparr>)"
| abort: "planner_step W (W\<lparr>coord := snd (abort_snapshot rid (coord W))\<rparr>)"
| commit: "planner_step W (W\<lparr>coord := snd (commit_snapshot rid (coord W))\<rparr>)"

inductive_cases planner_stepE: "planner_step W V"

definition initial_planner :: "planner_world \<Rightarrow> bool" where
  "initial_planner W \<longleftrightarrow> (\<exists>ct cpb k n. new_coordinator ct cpb k n = Inr (coord W))"

definition batch_ok :: "int \<Rightarrow> session \<Rightarrow> snapshot_batch \<Rightarrow> bool" where
  "batch_ok ct s b \<longleftrightarrow> b_request b = s_request s \<and> b_digest b = s_digest s \<and> b_chunk_tokens b = ct \<and>
     ct dvd b_start b \<and> ct dvd b_end b \<and>
     b_blocks b \<noteq> [] \<and> distinct (b_blocks b) \<and> (\<forall>x\<in>set (b_blocks b). 0 \<le> x)"

definition session_ok ::
    "int \<Rightarrow> snapshot_batch list \<Rightarrow> snapshot_batch list \<Rightarrow> session \<Rightarrow> bool" where
  "session_ok ct E D s \<longleftrightarrow> 0 < s_span s \<and> ct dvd s_span s \<and> ct dvd s_next s \<and> s_next s \<le> s_span s \<and>
     tiles 0 (s_next s) (spans_of E) \<and> s_next_index s = int (length E) \<and>
     (\<forall>i<length E. b_index (E ! i) = int i) \<and> (\<forall>b\<in>set E. batch_ok ct s b) \<and>
     dict_ok (s_pending s) \<and> (\<forall>i b. dget (s_pending s) i = Some b \<longrightarrow> b_index b = i \<and> b \<in> set E) \<and>
     mset E = mset D + mset (dvals (s_pending s)) \<and>
     (s_state s = ACTIVE \<or> s_state s = READY_TO_COMMIT \<and> s_next s = s_span s \<and> s_pending s = [])"

definition owners_match :: "coordinator \<Rightarrow> bool" where
  "owners_match c \<longleftrightarrow> (\<forall>d rid. dget (digest_owner c) d = Some rid \<longleftrightarrow>
     (\<exists>s. dget (sessions c) rid = Some s \<and> s_digest s = d))"

definition coord_ok :: "coordinator \<Rightarrow> bool" where
  "coord_ok c \<longleftrightarrow> 0 < chunk_tokens c \<and> 0 < chunks_per_batch c \<and> dict_ok (sessions c) \<and>
     inflight_batches c \<le> max_inflight c \<and> int (length (sessions c)) \<le> max_sessions c \<and>
     (\<forall>rid s. dget (sessions c) rid = Some s \<longrightarrow> s_request s = rid) \<and> owners_match c"

definition planner_ok :: "planner_world \<Rightarrow> bool" where
  "planner_ok W \<longleftrightarrow> coord_ok (coord W) \<and>
     (\<forall>rid s. dget (sessions (coord W)) rid = Some s \<longrightarrow>
        session_ok (chunk_tokens (coord W)) (emitted W rid) (finished W rid) s)"

lemma inflight_pending_nonneg: "0 \<le> int (length (s_pending s))"
  by simp

lemma retire_ok:
  assumes c: "coord_ok c" and s: "dget (sessions c) rid = Some s"
  shows "coord_ok (retire s (tally k n c))"
    "dget (sessions (retire s (tally k n c))) r' = (if r' = rid then None else dget (sessions c) r')"
    "chunk_tokens (retire s (tally k n c)) = chunk_tokens c"
proof -
  have r: "s_request s = rid" using c s by (simp add: coord_ok_def)
  have own: "dget (digest_owner c) (s_digest s) = Some rid"
    using c s by (auto simp: coord_ok_def owners_match_def)
  have uniq: "r' = rid" if "dget (sessions c) r' = Some t" "s_digest t = s_digest s" for r' t
  proof -
    have "dget (digest_owner c) (s_digest s) = Some r'"
      using c that unfolding coord_ok_def owners_match_def by blast
    with own show ?thesis by simp
  qed
  have "inflight_batches (retire s (tally k n c)) \<le> inflight_batches c"
    using c s r by (simp add: inflight_batches_def retire_def dsum_ddel coord_ok_def)
  moreover have "int (length (sessions (retire s (tally k n c)))) \<le> int (length (sessions c))"
    by (simp add: retire_def length_ddel_le)
  moreover have "dget (digest_owner (retire s (tally k n c))) d = Some r' \<longleftrightarrow>
      (\<exists>t. dget (sessions (retire s (tally k n c))) r' = Some t \<and> s_digest t = d)" for d r'
  proof -
    have old: "dget (digest_owner c) d = Some r' \<longleftrightarrow> (\<exists>t. dget (sessions c) r' = Some t \<and> s_digest t = d)"
      using c unfolding coord_ok_def owners_match_def by blast
    show ?thesis
    proof (cases "d = s_digest s")
      case True
      then show ?thesis using own r uniq by (auto simp: retire_def)
    next
      case False
      then show ?thesis using old own r s by (auto simp: retire_def)
    qed
  qed
  then have "owners_match (retire s (tally k n c))" unfolding owners_match_def by blast
  ultimately show "coord_ok (retire s (tally k n c))"
    using c by (simp add: coord_ok_def retire_def)
  show "dget (sessions (retire s (tally k n c))) r' = (if r' = rid then None else dget (sessions c) r')"
    "chunk_tokens (retire s (tally k n c)) = chunk_tokens c"
    by (simp_all add: retire_def r)
qed

lemma planner_ok_retire:
  assumes w: "planner_ok W" and s: "dget (sessions (coord W)) rid = Some s"
  shows "planner_ok (W\<lparr>coord := retire s (tally k n (coord W))\<rparr>)"
  using w retire_ok [OF _ s, of k n] by (auto simp: planner_ok_def split: if_splits)

lemma update_session_ok:
  assumes c: "coord_ok c" and s: "dget (sessions c) rid = Some s"
    and t: "s_request t = rid" "s_digest t = s_digest s"
    and b: "inflight_batches c + int (length (s_pending t)) - int (length (s_pending s)) \<le> max_inflight c"
  shows "coord_ok (tally k n (c\<lparr>sessions := dput rid t (sessions c)\<rparr>))"
proof -
  have "inflight_batches (tally k n (c\<lparr>sessions := dput rid t (sessions c)\<rparr>))
      = inflight_batches c - int (length (s_pending s)) + int (length (s_pending t))"
    using s by (simp add: inflight_batches_def dsum_dput_old)
  moreover have "owners_match (tally k n (c\<lparr>sessions := dput rid t (sessions c)\<rparr>))"
    using c s t(2) by (auto simp: coord_ok_def owners_match_def)
  ultimately show ?thesis using c s t b by (auto simp: coord_ok_def)
qed

lemma session_batch_index:
  assumes "session_ok ct E D s" "b \<in> set E"
  shows "0 \<le> b_index b \<and> b_index b < int (length E)"
  using assms by (auto simp: session_ok_def in_set_conv_nth)

lemma fold_dput_batches:
  assumes "distinct (map b_index bs)" "\<forall>b\<in>set bs. dget d (b_index b) = None"
  shows "fold (\<lambda>b. dput (b_index b) b) bs d = d @ map (\<lambda>b. (b_index b, b)) bs"
  using assms
proof (induction bs arbitrary: d)
  case (Cons b bs)
  have "\<forall>b'\<in>set bs. b_index b' \<noteq> b_index b" using Cons.prems(1) by (metis distinct.simps(2) image_eqI list.simps(9) set_map)
  then have "\<forall>b'\<in>set bs. dget (dput (b_index b) b d) (b_index b') = None" using Cons.prems by auto
  with Cons show ?case by (simp add: dput_fresh)
qed simp

lemma batches_of_facts:
  "length (batches_of s ct spans) = length spans"
  "i < length spans \<Longrightarrow> b_index (batches_of s ct spans ! i) = s_next_index s + int i"
  "spans_of (batches_of s ct spans) = map (\<lambda>(a, e, _). (a, e)) spans"
proof -
  show l: "length (batches_of s ct spans) = length spans" by (simp add: batches_of_def)
  have nth: "batches_of s ct spans ! i = (case spans ! i of (a, e, bs) \<Rightarrow>
      \<lparr>b_request = s_request s, b_digest = s_digest s, b_index = s_next_index s + int i, b_start = a,
       b_end = e, b_chunk_tokens = ct, b_blocks = bs\<rparr>)" if "i < length spans" for i
    using that by (simp add: batches_of_def nth_enumerate_eq split: prod.split)
  then show "i < length spans \<Longrightarrow> b_index (batches_of s ct spans ! i) = s_next_index s + int i"
    by (simp split: prod.split)
  show "spans_of (batches_of s ct spans) = map (\<lambda>(a, e, _). (a, e)) spans"
    by (rule nth_equalityI) (simp_all add: l nth split: prod.split)
qed

lemma batches_of_mem:
  assumes "b \<in> set (batches_of s ct spans)"
  obtains a e bs where "(a, e, bs) \<in> set spans" "b_request b = s_request s" "b_digest b = s_digest s"
    "b_start b = a" "b_end b = e" "b_chunk_tokens b = ct" "b_blocks b = bs"
proof -
  obtain i a e bs where "(i, a, e, bs) \<in> set (enumerate 0 spans)"
    and b: "b = \<lparr>b_request = s_request s, b_digest = s_digest s, b_index = s_next_index s + int i,
      b_start = a, b_end = e, b_chunk_tokens = ct, b_blocks = bs\<rparr>"
    using assms by (auto simp: batches_of_def)
  then have "(a, e, bs) \<in> set spans" by (metis map_snd_enumerate imageI snd_conv set_map)
  then show thesis using b by (intro that) auto
qed

lemma batches_of_distinct: "distinct (map b_index (batches_of s ct spans))"
  by (auto simp: distinct_conv_nth batches_of_facts)

text \<open>Emitting mapped spans extends the tiling and leaves nothing lost.\<close>

lemma session_ok_emit:
  assumes s: "session_ok ct E D s" and ct: "0 < ct" "0 < cpb"
    and m: "map_spans f (s_next s) stop (ct * cpb) = Some spans"
    and stop: "s_next s < stop" "stop \<le> s_span s" "ct dvd stop" and act: "s_state s = ACTIVE"
  defines "bs \<equiv> batches_of s ct spans"
  defines "s' \<equiv> s\<lparr>s_next := stop, s_next_index := s_next_index s + int (length bs),
            s_pending := fold (\<lambda>b. dput (b_index b) b) bs (s_pending s)\<rparr>"
  shows "session_ok ct (E @ bs) D s'" "length (s_pending s') = length (s_pending s) + length spans"
proof -
  have n: "s_next_index s = int (length E)" using s by (simp add: session_ok_def)
  have idx: "b_index (bs ! i) = int (length E) + int i" if "i < length bs" for i
    using that batches_of_facts(2) [of i spans s ct] by (simp add: bs_def n batches_of_facts(1))
  have fresh: "dget (s_pending s) (b_index b) = None" if "b \<in> set bs" for b
  proof (rule ccontr)
    assume "dget (s_pending s) (b_index b) \<noteq> None"
    then obtain b' where "dget (s_pending s) (b_index b) = Some b'" by blast
    then have "b_index b' = b_index b" "b' \<in> set E" using s by (auto simp: session_ok_def)
    then have "b_index b < int (length E)" using session_batch_index [OF s] by metis
    moreover obtain i where "i < length bs" "bs ! i = b" using \<open>b \<in> set bs\<close> by (auto simp: in_set_conv_nth)
    ultimately show False using idx [of i] by auto
  qed
  have pend: "fold (\<lambda>b. dput (b_index b) b) bs (s_pending s)
      = s_pending s @ map (\<lambda>b. (b_index b, b)) bs"
    using fresh by (intro fold_dput_batches) (simp_all add: bs_def batches_of_distinct)
  have disj: "dict_ok (s_pending s @ map (\<lambda>b. (b_index b, b)) bs)"
  proof -
    have "set (dkeys (s_pending s)) \<inter> b_index ` set bs = {}" using fresh unfolding dget_None by blast
    then show ?thesis
      using s batches_of_distinct [of s ct spans]
      by (simp add: dict_ok_def session_ok_def o_def bs_def [symmetric])
  qed
  have sp: "tiles (s_next s) stop (spans_of bs)"
    using map_spans_tiles [OF m] stop ct by (simp add: bs_def batches_of_facts)
  have ok: "batch_ok ct s b" if b: "b \<in> set bs" for b
  proof -
    obtain a e xs where "(a, e, xs) \<in> set spans" "b_request b = s_request s" "b_digest b = s_digest s"
      "b_start b = a" "b_end b = e" "b_chunk_tokens b = ct" "b_blocks b = xs"
      using b unfolding bs_def by (rule batches_of_mem)
    then show ?thesis
      using map_spans_blocks [OF m] map_spans_aligned [OF m, of a e xs ct] s stop(3)
      by (auto simp: batch_ok_def session_ok_def)
  qed
  have nth: "b_index ((E @ bs) ! i) = int i" if "i < length (E @ bs)" for i
    using that s idx [of "i - length E"] by (auto simp: nth_append session_ok_def)
  have mem: "b_index b = i \<and> b \<in> set (E @ bs)"
    if "dget (s_pending s @ map (\<lambda>b. (b_index b, b)) bs) i = Some b" for i b
    using that s map_of_SomeD [of "map (\<lambda>b. (b_index b, b)) bs" i b]
    by (auto simp: map_add_Some_iff session_ok_def)
  show "session_ok ct (E @ bs) D s'"
    using s sp ok nth mem disj stop act
    unfolding session_ok_def s'_def
    by (auto simp: pend n o_def batch_ok_def intro: tiles_append)
  show "length (s_pending s') = length (s_pending s) + length spans"
    using pend [unfolded bs_def] by (simp add: s'_def bs_def batches_of_facts)
qed

text \<open>Every operation keeps the coordinator and its sessions well-formed.\<close>

lemma planner_okD:
  assumes "planner_ok W"
  shows "coord_ok (coord W)" "dget (sessions (coord W)) rid = Some s \<Longrightarrow>
    session_ok (chunk_tokens (coord W)) (emitted W rid) (finished W rid) s"
  using assms by (auto simp: planner_ok_def)

lemma planner_ok_tally: "planner_ok W \<Longrightarrow> planner_ok (W\<lparr>coord := tally k n (coord W)\<rparr>)"
  by (simp add: planner_ok_def coord_ok_def inflight_batches_def owners_match_def)

lemma begin_snapshot_cases:
  assumes "begin_snapshot rid dg span c = (res, c')"
  obtains (same) "c' = c" "dget (sessions c) rid \<noteq> None \<or> res \<noteq> Inr True"
  | (refused) k where "c' = tally k 1 c" "res = Inr False"
  | (admitted) "dget (sessions c) rid = None" "res = Inr True" "rid \<noteq> ''''" "dg \<noteq> ''''" "0 < span"
      "span mod chunk_tokens c = 0" "dget (digest_owner c) dg = None"
      "int (length (sessions c)) < max_sessions c"
      "c' = tally ''admitted'' 1 (c\<lparr>sessions := dput rid \<lparr>s_request = rid, s_digest = dg, s_span = span,
         s_state = ACTIVE, s_next = 0, s_next_index = 0, s_pending = []\<rparr> (sessions c),
         digest_owner := dput dg rid (digest_owner c)\<rparr>)"
proof (cases "dget (sessions c) rid = None \<and> rid \<noteq> '''' \<and> dg \<noteq> '''' \<and> 0 < span \<and>
    span mod chunk_tokens c = 0")
  case False
  then show thesis using assms
    by (intro same) (auto simp: begin_snapshot_def split: if_splits option.splits)
next
  case fresh: True
  show thesis
  proof (cases "dget (digest_owner c) dg = None")
    case False
    then show thesis using assms fresh
      by (intro refused [of "''duplicate_suppressed''"]) (auto simp: begin_snapshot_def)
  next
    case unowned: True
    show thesis
    proof (cases "int (length (sessions c)) < max_sessions c")
      case True
      then show thesis using assms fresh unowned by (intro admitted) (auto simp: begin_snapshot_def)
    next
      case False
      then show thesis using assms fresh unowned
        by (intro refused [of "''capacity_suppressed''"]) (auto simp: begin_snapshot_def)
    qed
  qed
qed

lemma planner_ok_begin:
  assumes w: "planner_ok W" and b: "begin_snapshot rid dg span (coord W) = (res, c)"
  shows "dget (sessions (coord W)) rid = None \<Longrightarrow> res = Inr True \<Longrightarrow>
      planner_ok (W\<lparr>coord := c, emitted := (emitted W)(rid := []), finished := (finished W)(rid := [])\<rparr>)"
    "dget (sessions (coord W)) rid \<noteq> None \<or> res \<noteq> Inr True \<Longrightarrow> planner_ok (W\<lparr>coord := c\<rparr>)"
proof -
  show "planner_ok (W\<lparr>coord := c\<rparr>)" if "dget (sessions (coord W)) rid \<noteq> None \<or> res \<noteq> Inr True"
    using b that by (cases rule: begin_snapshot_cases) (use w in \<open>auto simp: planner_ok_tally\<close>)
  show "planner_ok (W\<lparr>coord := c, emitted := (emitted W)(rid := []), finished := (finished W)(rid := [])\<rparr>)"
    if n: "dget (sessions (coord W)) rid = None" and r: "res = Inr True"
    using b
  proof (cases rule: begin_snapshot_cases)
    case admitted
    let ?c = "coord W"
    let ?s = "\<lparr>s_request = rid, s_digest = dg, s_span = span, s_state = ACTIVE, s_next = 0,
      s_next_index = 0, s_pending = []\<rparr>"
    have c: "coord_ok ?c" using w by (rule planner_okD)
    have "inflight_batches c = inflight_batches ?c"
      using n by (simp add: admitted inflight_batches_def)
    moreover have "owners_match c"
    proof -
      have "s_digest t \<noteq> dg" if "dget (sessions ?c) r = Some t" for r t
      proof
        assume "s_digest t = dg"
        then have "dget (digest_owner ?c) dg = Some r"
          using c that unfolding coord_ok_def owners_match_def by blast
        with admitted(7) show False by simp
      qed
      then show ?thesis using c admitted(1,7) by (auto simp: coord_ok_def owners_match_def admitted(9))
    qed
    ultimately have "coord_ok c" using c admitted(1,8) by (simp add: coord_ok_def admitted(9))
    moreover have "session_ok (chunk_tokens ?c) [] [] ?s"
      using admitted(5,6) by (auto simp: session_ok_def)
    ultimately show ?thesis
      using planner_okD(2) [OF w] by (auto simp: planner_ok_def admitted(9))
  qed (use n r in auto)
qed

lemma offer_completed_cases:
  assumes "offer_completed rid done f c = (res, c')"
  obtains (raised) x where "res = Inl x" "c' = c"
  | (none) "res = Inr no_offer" "c' = c"
  | (aborted) s k where "dget (sessions c) rid = Some s" "s_state s = ACTIVE"
      "res = Inr \<lparr>o_batches = [], o_aborted = True, o_release = dvals (s_pending s)\<rparr>"
      "c' = retire s (tally k 1 c)"
  | (emitted) s stop spans bs where "dget (sessions c) rid = Some s" "s_state s = ACTIVE"
      "stop = min done (s_span s) - min done (s_span s) mod chunk_tokens c" "s_next s < stop"
      "inflight_batches c + (stop - s_next s + chunk_tokens c * chunks_per_batch c - 1)
        div (chunk_tokens c * chunks_per_batch c) \<le> max_inflight c"
      "map_spans f (s_next s) stop (chunk_tokens c * chunks_per_batch c) = Some spans"
      "bs = batches_of s (chunk_tokens c) spans"
      "res = Inr \<lparr>o_batches = bs, o_aborted = False, o_release = []\<rparr>"
      "c' = tally ''batches_emitted'' (int (length bs)) (c\<lparr>sessions := dput rid
         (s\<lparr>s_next := stop, s_next_index := s_next_index s + int (length bs),
            s_pending := fold (\<lambda>b. dput (b_index b) b) bs (s_pending s)\<rparr>) (sessions c)\<rparr>)"
proof (cases "dget (sessions c) rid")
  case None
  then show thesis
    using assms by (intro raised [of "ValueError ''unknown snapshot request''"])
      (simp_all add: offer_completed_def)
next
  case (Some s)
  let ?w = "chunk_tokens c * chunks_per_batch c"
  let ?stop = "min done (s_span s) - min done (s_span s) mod chunk_tokens c"
  note eq = assms [unfolded offer_completed_def Let_def, simplified Some option.case]
  show thesis
  proof (cases "s_state s = ACTIVE \<and> s_next s \<le> done \<and> s_next s < ?stop")
    case False
    with eq show thesis using raised none by (auto split: if_splits)
  next
    case live: True
    show thesis
    proof (cases "inflight_batches c + (?stop - s_next s + ?w - 1) div ?w \<le> max_inflight c")
      case False
      with eq live show thesis
        by (intro aborted [OF Some, of "''aborted_backpressure''"]) (simp_all add: abandon_def)
    next
      case room: True
      show thesis
      proof (cases "map_spans f (s_next s) ?stop ?w")
        case None
        with eq live room show thesis
          by (intro aborted [OF \<open>dget (sessions c) rid = Some s\<close>, of "''aborted_mapping''"])
            (simp_all add: abandon_def)
      next
        case (Some spans)
        with eq live room show thesis
          using emitted [OF \<open>dget (sessions c) rid = Some s\<close> _ refl _ _ Some refl] by simp
      qed
    qed
  qed
qed

lemma planner_ok_offer:
  assumes w: "planner_ok W" and o: "offer_completed rid done f (coord W) = (Inr off, c)"
  shows "planner_ok (W\<lparr>coord := c, emitted := (emitted W)(rid := emitted W rid @ o_batches off)\<rparr>)"
  using o
proof (cases rule: offer_completed_cases)
  case none
  then show ?thesis using w by (simp add: no_offer_def)
next
  case (aborted s k)
  then show ?thesis using planner_ok_retire [OF w aborted(1), of k 1] by simp
next
  case (emitted s stop spans bs)
  let ?c = "coord W"
  let ?t = "s\<lparr>s_next := stop, s_next_index := s_next_index s + int (length bs),
            s_pending := fold (\<lambda>b. dput (b_index b) b) bs (s_pending s)\<rparr>"
  let ?w = "chunk_tokens ?c * chunks_per_batch ?c"
  have c: "coord_ok ?c" using w by (rule planner_okD)
  then have pos: "0 < chunk_tokens ?c" "0 < chunks_per_batch ?c" "0 < ?w" by (auto simp: coord_ok_def)
  have s: "session_ok (chunk_tokens ?c) (planner_world.emitted W rid) (finished W rid) s"
    using planner_okD(2) [OF w emitted(1)] .
  have stop: "chunk_tokens ?c dvd stop" "stop \<le> s_span s"
  proof -
    have "0 \<le> min done (s_span s) mod chunk_tokens ?c" using pos(1) by simp
    then show "stop \<le> s_span s" unfolding emitted(3) by linarith
    show "chunk_tokens ?c dvd stop" by (simp add: emitted(3) minus_mod_eq_div_mult)
  qed
  note emit = session_ok_emit [OF s pos(1,2) emitted(6,4) stop(2,1) emitted(2), folded emitted(7)]
  have "int (length spans) = (stop - s_next s + ?w - 1) div ?w"
    using map_spans_length [OF emitted(6)] emitted(4) pos(3) by simp
  then have "coord_ok c"
    unfolding emitted(9) using emit(2) emitted(5) c s
    by (intro update_session_ok [OF c emitted(1)]) (auto simp: coord_ok_def emitted(1))
  moreover have "off = \<lparr>o_batches = bs, o_aborted = False, o_release = []\<rparr>" using emitted(8) by simp
  ultimately show ?thesis
    using emit(1) planner_okD(2) [OF w] by (auto simp: planner_ok_def emitted(9))
qed simp

lemma mset_ddel:
  "dict_ok d \<Longrightarrow> dget d k = Some v \<Longrightarrow> mset (dvals d) = add_mset v (mset (dvals (ddel k d)))"
proof (induction d)
  case (Cons p d)
  obtain j w where p: "p = (j, w)" by (cases p)
  have d: "dict_ok d" "dget d j = None" using Cons.prems(1) p by (simp_all add: dict_ok_def dget_None)
  show ?case
  proof (cases "j = k")
    case True
    then show ?thesis using Cons.prems(2) p ddel_fresh [OF d(2)] by simp
  next
    case False
    then show ?thesis using Cons.IH [OF d(1)] Cons.prems(2) p by simp
  qed
qed simp

lemma session_ok_complete:
  assumes s: "session_ok ct E D s" and b: "dget (s_pending s) i = Some b"
  defines "s1 \<equiv> s\<lparr>s_pending := ddel i (s_pending s)\<rparr>"
  shows "session_ok ct E (D @ [b])
    (if s_next s1 = s_span s1 \<and> s_pending s1 = [] then s1\<lparr>s_state := READY_TO_COMMIT\<rparr> else s1)"
proof -
  have d: "dict_ok (s_pending s)" using s by (simp add: session_ok_def)
  have m: "mset E = mset (D @ [b]) + mset (dvals (ddel i (s_pending s)))"
    using s mset_ddel [OF d b] by (simp add: session_ok_def)
  have p: "b_index b' = j \<and> b' \<in> set E" if "dget (ddel i (s_pending s)) j = Some b'" for j b'
    using s that by (auto simp: session_ok_def split: if_splits)
  have "s_state s = ACTIVE" using s b by (auto simp: session_ok_def)
  then show ?thesis using s m p d unfolding session_ok_def s1_def by (auto simp: batch_ok_def)
qed

lemma planner_ok_complete:
  assumes w: "planner_ok W" and s: "dget (sessions (coord W)) rid = Some s"
    and b: "dget (s_pending s) i = Some b"
  shows "planner_ok (W\<lparr>coord := snd (complete_batch rid i (coord W)),
      finished := (finished W)(rid := finished W rid @ [b])\<rparr>)"
proof -
  let ?c = "coord W" and ?s = "s\<lparr>s_pending := ddel i (s_pending s)\<rparr>"
  define t where "t = (if s_next ?s = s_span ?s \<and> s_pending ?s = [] then ?s\<lparr>s_state := READY_TO_COMMIT\<rparr> else ?s)"
  have eq: "snd (complete_batch rid i ?c) = tally ''batches_completed'' 1 (?c\<lparr>sessions := dput rid t (sessions ?c)\<rparr>)"
    using s b by (simp add: complete_batch_def Let_def t_def)
  note c = planner_okD(1) [OF w]
  have "int (length (s_pending t)) \<le> int (length (s_pending s))" "s_request t = s_request s"
    "s_digest t = s_digest s"
    by (simp_all add: t_def length_ddel_le)
  then have "coord_ok (snd (complete_batch rid i ?c))"
    unfolding eq using c s by (intro update_session_ok [OF c s]) (auto simp: coord_ok_def)
  moreover have "session_ok (chunk_tokens ?c) (emitted W rid) (finished W rid @ [b]) t"
    using session_ok_complete [OF planner_okD(2) [OF w s] b] by (simp only: t_def)
  ultimately show ?thesis
    using planner_okD(2) [OF w] by (simp add: planner_ok_def eq)
qed

lemma planner_ok_step: "planner_step W V \<Longrightarrow> planner_ok W \<Longrightarrow> planner_ok V"
proof (induction rule: planner_step.induct)
  case (offer_raises rid n f W x c)
  then show ?case by (cases rule: offer_completed_cases) auto
next
  case (complete_raises rid i W x c)
  then have "c = coord W" by (auto simp: complete_batch_def Let_def split: option.splits if_splits)
  then show ?case using complete_raises by simp
next
  case (abort W rid)
  then show ?case
    using planner_ok_retire [of W rid _ "''aborted_explicit''" 1]
    by (cases "dget (sessions (coord W)) rid") (auto simp: abort_snapshot_def)
next
  case (commit W rid)
  then show ?case
    using planner_ok_retire [of W rid _ "''committed''" 1]
    by (cases "dget (sessions (coord W)) rid") (auto simp: commit_snapshot_def)
qed (auto intro: planner_ok_begin planner_ok_offer planner_ok_complete)

interpretation planner: invariant_system initial_planner planner_step planner_ok
proof
  fix W :: planner_world
  assume "initial_planner W"
  then obtain ct cpb k n where "new_coordinator ct cpb k n = Inr (coord W)"
    by (auto simp: initial_planner_def)
  then have "0 < ct" "0 < cpb" "0 < k" "0 < n" "coord W = \<lparr>chunk_tokens = ct, chunks_per_batch = cpb,
      max_inflight = k, max_sessions = n, sessions = [], digest_owner = [], c_counters = no_counts\<rparr>"
    by (simp_all add: new_coordinator_def split: if_splits)
  then show "planner_ok W"
    by (simp add: planner_ok_def coord_ok_def inflight_batches_def owners_match_def)
qed (rule planner_ok_step)

section \<open>What the coordinator promises\<close>

section \<open>What the coordinator promises\<close>

text \<open>A demonstration: chunks of 4 tokens, one request with a span of one chunk in block 7.\<close>

definition demo_coord :: "(string, session) dict \<Rightarrow> (string, string) dict \<Rightarrow> counters \<Rightarrow> coordinator" where
  "demo_coord ss owner k = \<lparr>chunk_tokens = 4, chunks_per_batch = 2, max_inflight = 3, max_sessions = 8,
     sessions = ss, digest_owner = owner, c_counters = k\<rparr>"

definition demo_session :: "snapshot_state \<Rightarrow> int \<Rightarrow> int \<Rightarrow> (int, snapshot_batch) dict \<Rightarrow> session" where
  "demo_session st n i p = \<lparr>s_request = ''r'', s_digest = ''d'', s_span = 4, s_state = st, s_next = n,
     s_next_index = i, s_pending = p\<rparr>"

definition demo_batch :: snapshot_batch where
  "demo_batch = \<lparr>b_request = ''r'', b_digest = ''d'', b_index = 0, b_start = 0, b_end = 4,
     b_chunk_tokens = 4, b_blocks = [7]\<rparr>"

definition demo_mapper :: "int \<Rightarrow> int \<Rightarrow> exn + int list" where
  "demo_mapper a e = Inr [7]"

lemma demo_begin:
  "begin_snapshot ''r'' ''d'' 4 (demo_coord [] [] k) =
     (Inr True, demo_coord [(''r'', demo_session ACTIVE 0 0 [])] [(''d'', ''r'')] (bump ''admitted'' 1 k))"
  by (simp add: begin_snapshot_def demo_coord_def demo_session_def)

lemma demo_spans: "map_spans demo_mapper 0 4 8 = Some [(0, 4, [7])]"
  by (subst map_spans.simps, subst map_spans.simps) (simp add: demo_mapper_def)

lemma demo_offer:
  "offer_completed ''r'' 5 demo_mapper (demo_coord [(''r'', demo_session ACTIVE 0 0 [])] own k) =
     (Inr \<lparr>o_batches = [demo_batch], o_aborted = False, o_release = []\<rparr>,
      demo_coord [(''r'', demo_session ACTIVE 4 1 [(0, demo_batch)])] own (bump ''batches_emitted'' 1 k))"
  by (simp add: offer_completed_def demo_coord_def demo_session_def inflight_batches_def demo_spans
      batches_of_def demo_batch_def)

lemma demo_complete:
  "complete_batch ''r'' 0 (demo_coord [(''r'', demo_session ACTIVE 4 1 [(0, demo_batch)])] own k) =
     (Inr True, demo_coord [(''r'', demo_session READY_TO_COMMIT 4 1 [])] own (bump ''batches_completed'' 1 k))"
  by (simp add: complete_batch_def demo_coord_def demo_session_def)

definition planner_start :: planner_world where
  "planner_start = \<lparr>coord = demo_coord [] [] no_counts, emitted = (\<lambda>_. []), finished = (\<lambda>_. [])\<rparr>"

definition planner_end :: planner_world where
  "planner_end = \<lparr>coord = demo_coord [(''r'', demo_session READY_TO_COMMIT 4 1 [])] [(''d'', ''r'')]
       (bump ''batches_completed'' 1 (bump ''batches_emitted'' 1 (bump ''admitted'' 1 no_counts))),
     emitted = (\<lambda>_. [])(''r'' := [demo_batch]), finished = (\<lambda>_. [])(''r'' := [demo_batch])\<rparr>"

lemma planner_demo_run: "initial_planner planner_start" "rtranclp planner_step planner_start planner_end"
proof -
  have "new_coordinator 4 2 3 8 = Inr (coord planner_start)"
    by (simp add: new_coordinator_def planner_start_def demo_coord_def)
  then show "initial_planner planner_start" unfolding initial_planner_def by blast
  let ?c1 = "demo_coord [(''r'', demo_session ACTIVE 0 0 [])] [(''d'', ''r'')] (bump ''admitted'' 1 no_counts)"
  let ?c2 = "demo_coord [(''r'', demo_session ACTIVE 4 1 [(0, demo_batch)])] [(''d'', ''r'')]
    (bump ''batches_emitted'' 1 (bump ''admitted'' 1 no_counts))"
  let ?w1 = "planner_start\<lparr>coord := ?c1, emitted := (emitted planner_start)(''r'' := []),
    finished := (finished planner_start)(''r'' := [])\<rparr>"
  let ?w2 = "?w1\<lparr>coord := ?c2, emitted := (emitted ?w1)(''r'' := emitted ?w1 ''r'' @ [demo_batch])\<rparr>"
  have "planner_step planner_start ?w1"
    by (rule planner_step.begin_new [where dg = "''d''" and span = 4])
       (simp_all add: planner_start_def demo_begin, simp add: demo_coord_def)
  moreover have "planner_step ?w1 ?w2"
    using planner_step.offer [of "''r''" 5 demo_mapper ?w1] demo_offer by simp
  moreover have "planner_step ?w2 planner_end"
  proof -
    have "planner_step ?w2 (?w2\<lparr>coord := snd (complete_batch ''r'' 0 (coord ?w2)),
        finished := (finished ?w2)(''r'' := finished ?w2 ''r'' @ [demo_batch])\<rparr>)"
      by (rule planner_step.complete [where s = "demo_session ACTIVE 4 1 [(0, demo_batch)]"])
         (simp_all add: demo_coord_def demo_session_def)
    then show ?thesis by (simp add: demo_complete planner_end_def planner_start_def)
  qed
  ultimately show "rtranclp planner_step planner_start planner_end"
    by (meson converse_rtranclp_into_rtranclp r_into_rtranclp)
qed

text \<open>C20: A snapshot that is ready to commit is whole: the batches its session emitted tile the
  span, so every token of it is in exactly one of them, every one has completed exactly once, and
  each carries distinct, non-negative blocks on chunk boundaries.\<close>

theorem ready_snapshot_complete:
  assumes "initial_planner W0" "rtranclp planner_step W0 W"
    "dget (sessions (coord W)) rid = Some s" "s_state s = READY_TO_COMMIT"
  shows "tiles 0 (s_span s) (spans_of (emitted W rid)) \<and> mset (finished W rid) = mset (emitted W rid) \<and>
    (\<forall>b\<in>set (emitted W rid). batch_ok (chunk_tokens (coord W)) s b) \<and>
    (\<forall>t. 0 \<le> t \<and> t < s_span s \<longrightarrow> (\<exists>!i. i < length (emitted W rid) \<and>
       b_start (emitted W rid ! i) \<le> t \<and> t < b_end (emitted W rid ! i)))"
proof -
  have "planner_ok W" using assms(1,2) by (rule planner.reachable_inv)
  then have ok: "session_ok (chunk_tokens (coord W)) (emitted W rid) (finished W rid) s"
    using assms(3) by (rule planner_okD)
  then have full: "s_next s = s_span s" "s_pending s = []"
    using assms(4) by (auto simp: session_ok_def)
  then have t: "tiles 0 (s_span s) (spans_of (emitted W rid))" using ok by (simp add: session_ok_def)
  have "\<exists>!i. i < length (emitted W rid) \<and> b_start (emitted W rid ! i) \<le> t \<and> t < b_end (emitted W rid ! i)"
    if "0 \<le> t" "t < s_span s" for t
    using tiles_cover [OF t that] by (simp cong: conj_cong)
  then show ?thesis using ok full t by (auto simp: session_ok_def)
qed

theorem ready_snapshot_complete_witness:
  "tiles 0 4 (spans_of (emitted planner_end ''r'')) \<and>
   mset (finished planner_end ''r'') = mset (emitted planner_end ''r'')"
proof -
  have s: "dget (sessions (coord planner_end)) ''r'' = Some (demo_session READY_TO_COMMIT 4 1 [])"
    by (simp add: planner_end_def demo_coord_def)
  show ?thesis using ready_snapshot_complete [OF planner_demo_run s] by (simp add: demo_session_def)
qed

text \<open>In every reachable state the batches in flight over all sessions stay within the ring, the
  sessions stay within their bound, and two requests never stream the same digest.\<close>

theorem planner_bounds:
  assumes "initial_planner W0" "rtranclp planner_step W0 W"
  shows "inflight_batches (coord W) \<le> max_inflight (coord W) \<and>
    int (length (sessions (coord W))) \<le> max_sessions (coord W) \<and>
    (\<forall>r r' s s'. dget (sessions (coord W)) r = Some s \<longrightarrow> dget (sessions (coord W)) r' = Some s' \<longrightarrow>
       s_digest s = s_digest s' \<longrightarrow> r = r')"
proof -
  have ok: "coord_ok (coord W)" using planner.reachable_inv [OF assms] by (rule planner_okD)
  have "r = r'" if "dget (sessions (coord W)) r = Some s" "dget (sessions (coord W)) r' = Some s'"
    "s_digest s = s_digest s'" for r r' s s'
  proof -
    have "dget (digest_owner (coord W)) (s_digest s) = Some r"
      "dget (digest_owner (coord W)) (s_digest s) = Some r'"
      using ok that unfolding coord_ok_def owners_match_def by metis+
    then show ?thesis by simp
  qed
  then show ?thesis using ok unfolding coord_ok_def by blast
qed

theorem planner_bounds_witness:
  "inflight_batches (coord planner_end) \<le> max_inflight (coord planner_end)"
  using planner_bounds [OF planner_demo_run] by blast

lemma stop_bounds:
  assumes "planner_ok W" "dget (sessions (coord W)) rid = Some s"
    "stop = min n (s_span s) - min n (s_span s) mod chunk_tokens (coord W)" "s_next s < stop"
  shows "chunk_tokens (coord W) dvd stop" "stop \<le> s_span s" "s_next s \<le> n"
proof -
  have "0 \<le> min n (s_span s) mod chunk_tokens (coord W)"
    using planner_okD(1) [OF assms(1)] by (simp add: coord_ok_def)
  then show "stop \<le> s_span s" "s_next s \<le> n" using assms(3,4) by linarith+
  show "chunk_tokens (coord W) dvd stop" by (simp add: assms(3) minus_mod_eq_div_mult)
qed

text \<open>Offering completed tokens never waits: for an active session with at least one new whole
  chunk the answer is either the batches that tile exactly the new chunks, counted in flight and
  within the ring, or the session is given up, its digest free again and exactly its pending
  batches handed back for release.\<close>

theorem offer_completed_outcome:
  assumes w: "planner_ok W" and s: "dget (sessions (coord W)) rid = Some s" "s_state s = ACTIVE"
    and stop: "stop = min n (s_span s) - min n (s_span s) mod chunk_tokens (coord W)" "s_next s < stop"
    and r: "offer_completed rid n f (coord W) = (res, c)"
  shows "(\<exists>bs. res = Inr \<lparr>o_batches = bs, o_aborted = False, o_release = []\<rparr> \<and>
      tiles (s_next s) stop (spans_of bs) \<and>
      inflight_batches c = inflight_batches (coord W) + int (length bs) \<and>
      inflight_batches c \<le> max_inflight c) \<or>
    (res = Inr \<lparr>o_batches = [], o_aborted = True, o_release = dvals (s_pending s)\<rparr> \<and>
      dget (sessions c) rid = None \<and> dget (digest_owner c) (s_digest s) = None)"
  using r
proof (cases rule: offer_completed_cases)
  case (raised x)
  have "fst (offer_completed rid n f (coord W)) \<noteq> Inl x"
    using s stop_bounds(3) [OF w s(1) stop]
    by (auto simp: offer_completed_def Let_def abandon_def split: option.splits)
  with raised r show ?thesis by simp
next
  case none
  have "fst (offer_completed rid n f (coord W)) \<noteq> Inr no_offer"
  proof -
    have "spans \<noteq> []" if "map_spans f (s_next s) stop (chunk_tokens (coord W) * chunks_per_batch (coord W)) = Some spans" for spans
      using map_spans_tiles [OF that] stop(2) planner_okD(1) [OF w] by (auto simp: coord_ok_def)
    then have "batches_of s (chunk_tokens (coord W)) spans \<noteq> []"
      if "map_spans f (s_next s) stop (chunk_tokens (coord W) * chunks_per_batch (coord W)) = Some spans" for spans
      using that batches_of_facts(1) [of s "chunk_tokens (coord W)" spans] by force
    then show ?thesis using s stop stop_bounds(3) [OF w s(1) stop]
      by (auto simp: offer_completed_def Let_def abandon_def no_offer_def split: option.splits)
  qed
  with none r show ?thesis by simp
next
  case (aborted s' k)
  have c: "coord_ok (coord W)" using w by (rule planner_okD)
  have "s' = s" "s_request s = rid" using aborted(1) s(1) c by (auto simp: coord_ok_def)
  moreover have "dget (digest_owner (coord W)) (s_digest s) = Some rid"
    using c s(1) unfolding coord_ok_def owners_match_def by blast
  ultimately show ?thesis using aborted by (simp add: retire_def)
next
  case (emitted s' stop' spans bs)
  have c: "coord_ok (coord W)" using w by (rule planner_okD)
  have eq: "s' = s" "stop' = stop" using emitted(1,3) s(1) stop(1) by auto
  let ?w = "chunk_tokens (coord W) * chunks_per_batch (coord W)"
  have pos: "0 < chunk_tokens (coord W)" "0 < chunks_per_batch (coord W)" "0 < ?w"
    using c by (auto simp: coord_ok_def)
  note le = stop_bounds(1,2) [OF w s(1) stop]
  have m: "map_spans f (s_next s) stop ?w = Some spans" using emitted(6) eq by simp
  note emit = session_ok_emit [OF planner_okD(2) [OF w s(1)] pos(1,2) m stop(2) le(2,1) s(2)]
  have t: "tiles (s_next s) stop (spans_of bs)"
    using map_spans_tiles [OF m] stop(2) pos(3) by (simp add: emitted(7) batches_of_facts eq)
  have len: "int (length bs) = (stop - s_next s + ?w - 1) div ?w"
    using map_spans_length [OF m] stop(2) pos(3) by (simp add: emitted(7) batches_of_facts)
  have "inflight_batches c = inflight_batches (coord W) + int (length bs)"
    using emit(2) s(1) by (simp add: emitted(7,9) eq inflight_batches_def dsum_dput_old batches_of_facts)
  moreover have "max_inflight c = max_inflight (coord W)" by (simp add: emitted(9))
  ultimately show ?thesis using emitted(5,8) t len eq by simp
qed

theorem offer_completed_outcome_witness:
  "tiles 0 4 (spans_of [demo_batch])"
proof -
  let ?c = "demo_coord [(''r'', demo_session ACTIVE 0 0 [])] [(''d'', ''r'')] (bump ''admitted'' 1 no_counts)"
  let ?w = "planner_start\<lparr>coord := ?c, emitted := (emitted planner_start)(''r'' := []),
    finished := (finished planner_start)(''r'' := [])\<rparr>"
  have "planner_ok planner_start" using planner_demo_run(1) by (rule planner.inv_start)
  then have ok: "planner_ok ?w"
    by (rule planner_ok_begin(1) [where dg = "''d''" and span = 4])
       (simp_all add: planner_start_def demo_begin, simp add: demo_coord_def)
  have s: "dget (sessions (coord ?w)) ''r'' = Some (demo_session ACTIVE 0 0 [])"
    by (simp add: demo_coord_def)
  have stop: "4 = min 5 (s_span (demo_session ACTIVE 0 0 [])) -
      min 5 (s_span (demo_session ACTIVE 0 0 [])) mod chunk_tokens (coord ?w)"
    by (simp add: demo_coord_def demo_session_def)
  from offer_completed_outcome [OF ok s _ stop, of demo_mapper] show ?thesis
    by (simp add: demo_offer) (simp add: demo_session_def)
qed

text \<open>The block table adapter is exact: it answers a range precisely when the table reaches its
  last token, and then with one block per table row the range touches, in order, so that every
  token of the range finds its own physical block.\<close>

theorem blocks_for_range_exact:
  assumes m: "BlockTableRangeMapper bs k = Inr m" and r: "0 \<le> s" "s < e"
  shows "blocks_for_range m s e =
      (if (e - 1) div k < int (length bs)
       then Inr (map (\<lambda>i. bs ! nat i) [s div k..(e - 1) div k])
       else Inl (ValueError ''logical range exceeds the physical block table''))"
proof -
  have k: "0 < k" and m': "m = \<lparr>table_blocks = bs, tokens_per_block = k\<rparr>"
    using m by (auto simp: BlockTableRangeMapper_def split: if_splits)
  have last: "(e + k - 1) div k = (e - 1) div k + 1"
    using k div_add_self2 [of k "e - 1"] by (simp add: algebra_simps)
  have first: "0 \<le> s div k" "s div k \<le> (e - 1) div k"
    using k r by (simp_all add: pos_imp_zdiv_nonneg_iff zdiv_mono1)
  show ?thesis
  proof (cases "(e - 1) div k < int (length bs)")
    case False
    then show ?thesis using r by (simp add: blocks_for_range_def m' last)
  next
    case True
    let ?out = "take (nat ((e - 1) div k + 1 - s div k)) (drop (nat (s div k)) bs)"
    have len: "length ?out = nat ((e - 1) div k + 1 - s div k)" using True first by simp
    have "?out = map (\<lambda>i. bs ! nat i) [s div k..(e - 1) div k]"
    proof (rule nth_equalityI)
      show "length ?out = length (map (\<lambda>i. bs ! nat i) [s div k..(e - 1) div k])"
        using len by simp
      show "?out ! i = map (\<lambda>i. bs ! nat i) [s div k..(e - 1) div k] ! i" if "i < length ?out" for i
        using that len first True by (simp add: nat_add_distrib)
    qed
    moreover have "nat (s div k) < length bs" "\<not> (e - 1) div k + 1 \<le> s div k" using first True by linarith+
    ultimately show ?thesis using r True by (simp add: blocks_for_range_def m' last Let_def)
  qed
qed

theorem blocks_for_range_exact_witness:
  "blocks_for_range \<lparr>table_blocks = [5, 9, 2], tokens_per_block = 4\<rparr> 2 9 =
    Inr (map (\<lambda>i. [5, 9, 2] ! nat i) [0..2])"
  using blocks_for_range_exact [of "[5, 9, 2]" 4 "\<lparr>table_blocks = [5, 9, 2], tokens_per_block = 4\<rparr>" 2 9]
  by (simp add: BlockTableRangeMapper_def)

end
