(* ===== verification/Capture_Leases.thy ===== *)
theory Capture_Leases
  imports Prelude
begin

text \<open>
  \<open>sparkcache/capture_read_leases.py\<close> and the messages around it in
  \<open>sparkcache/spark_context_cache_connector.py\<close>: the scheduler pins the source blocks of an
  asynchronous capture until every physical worker has reported that its read is done. The block
  pool belongs to vLLM; the model records the \<open>touch\<close> and \<open>free_blocks\<close> calls made on it, the first
  of which takes one reference per listed block and the second of which gives one back.
\<close>

section \<open>The lease table\<close>

type_synonym job = "string \<times> int"   \<comment> \<open>\<open>f"{epoch}:{sequence}"\<close>\<close>

datatype pool_call = Touch "int list" | Free_blocks "int list"

record read_lease =
  rl_blocks :: "int list"
  rl_ranks :: "int set"
  rl_quarantined :: bool

record capture_reads =
  cr_ranks :: int
  cr_max_jobs :: int
  cr_epoch :: string
  cr_sequence :: int
  cr_leases :: "(job, read_lease) dict"
  cr_disabled :: bool
  cr_pool :: "pool_call list"

definition CaptureReadLeases :: "string \<Rightarrow> int \<Rightarrow> int \<Rightarrow> exn + capture_reads" where
  "CaptureReadLeases epoch n k =
     (if n \<le> 0 \<or> k \<le> 0 then Inl (ValueError ''capture leases require positive rank and job bounds'')
      else Inr \<lparr>cr_ranks = n, cr_max_jobs = k, cr_epoch = epoch, cr_sequence = 0, cr_leases = [],
        cr_disabled = False, cr_pool = []\<rparr>)"

definition has_pending_reads :: "capture_reads \<Rightarrow> bool" where
  "has_pending_reads c = (\<exists>l\<in>set (dvals (cr_leases c)). \<not> rl_quarantined l)"

text \<open>The pool has \<open>n\<close> blocks; \<open>usable b\<close> says that block \<open>b\<close> is not null and has a hash.\<close>

definition reserve_read ::
    "int \<Rightarrow> (int \<Rightarrow> bool) \<Rightarrow> int list \<Rightarrow> capture_reads \<Rightarrow> (job option, capture_reads) outcome" where
  "reserve_read n usable supplied c =
     (if cr_disabled c \<or> int (length (cr_leases c)) \<ge> cr_max_jobs c then returns None c
      else if supplied = [] \<or> (\<exists>b\<in>set supplied. \<not> (0 < b \<and> b < n))
        then raises (ValueError ''capture source contains an invalid or null block'') c
      else
        (let ids = unique_first supplied
         in if \<exists>b\<in>set ids. \<not> usable b
            then raises (ValueError ''capture sources must be hash-proven immutable blocks'') c
            else
              (let k = cr_sequence c + 1; job = (cr_epoch c, k)
               in returns (Some job)
                    (c\<lparr>cr_pool := cr_pool c @ [Touch ids], cr_sequence := k,
                       cr_leases := dput job \<lparr>rl_blocks = ids, rl_ranks = {}, rl_quarantined = False\<rparr>
                         (cr_leases c)\<rparr>))))"

definition valid_ranks :: "capture_reads \<Rightarrow> int set \<Rightarrow> bool" where
  "valid_ranks c R \<longleftrightarrow> (\<forall>r\<in>R. 0 \<le> r \<and> r < cr_ranks c)"

definition complete_read ::
    "job \<Rightarrow> int set \<Rightarrow> capture_reads \<Rightarrow> (bool, capture_reads) outcome" where
  "complete_read job R c =
     (case dget (cr_leases c) job of
        None \<Rightarrow> returns False c
      | Some l \<Rightarrow>
          if \<not> valid_ranks c R
          then raises (ValueError ''capture completion names an invalid physical rank'') c
          else
            (let l' = l\<lparr>rl_ranks := rl_ranks l \<union> R\<rparr>
             in if int (card (rl_ranks l')) \<noteq> cr_ranks c
                then returns False (c\<lparr>cr_leases := dput job l' (cr_leases c)\<rparr>)
                else returns True
                  (c\<lparr>cr_pool := cr_pool c @ [Free_blocks (rev (rl_blocks l))],
                     cr_leases := ddel job (cr_leases c)\<rparr>)))"

definition quarantine_read :: "job \<Rightarrow> int set \<Rightarrow> capture_reads \<Rightarrow> (unit, capture_reads) outcome" where
  "quarantine_read job R c =
     (case dget (cr_leases c) job of
        None \<Rightarrow> returns () c
      | Some l \<Rightarrow>
          if \<not> valid_ranks c R
          then raises (ValueError ''capture failure names an invalid physical rank'') c
          else returns () (c\<lparr>cr_leases := dput job (l\<lparr>rl_quarantined := True\<rparr>) (cr_leases c),
                             cr_disabled := True\<rparr>))"

section \<open>Completion messages\<close>

record read_completion =
  completed_reads :: "(job, int set) dict"
  uncertain_reads :: "(job, int set) dict"

text \<open>\<open>aggregate\<close>, field by field.\<close>

definition merge_ranks :: "(job, int set) dict \<Rightarrow> (job, int set) dict \<Rightarrow> (job, int set) dict" where
  "merge_ranks other mine =
     fold (\<lambda>(j, R) d. dput j ((case dget d j of None \<Rightarrow> {} | Some X \<Rightarrow> X) \<union> R) d) other mine"

definition aggregate_reads :: "read_completion \<Rightarrow> read_completion \<Rightarrow> read_completion" where
  "aggregate_reads mine other =
     \<lparr>completed_reads = merge_ranks (completed_reads other) (completed_reads mine),
      uncertain_reads = merge_ranks (uncertain_reads other) (uncertain_reads mine)\<rparr>"

text \<open>The two loops of \<open>update_connector_output\<close>; an exception leaves the remaining entries unread.\<close>

fun quarantine_all :: "(job \<times> int set) list \<Rightarrow> capture_reads \<Rightarrow> (unit, capture_reads) outcome" where
  "quarantine_all [] c = returns () c"
| "quarantine_all ((j, R) # ms) c =
     (case quarantine_read j R c of
        (Inl e, c') \<Rightarrow> raises e c'
      | (Inr _, c') \<Rightarrow> quarantine_all ms c')"

fun complete_all :: "(job \<times> int set) list \<Rightarrow> capture_reads \<Rightarrow> (unit, capture_reads) outcome" where
  "complete_all [] c = returns () c"
| "complete_all ((j, R) # ms) c =
     (case complete_read j R c of
        (Inl e, c') \<Rightarrow> raises e c'
      | (Inr _, c') \<Rightarrow> complete_all ms c')"

definition absorb_reads :: "read_completion \<Rightarrow> capture_reads \<Rightarrow> (unit, capture_reads) outcome" where
  "absorb_reads m c =
     (case quarantine_all (uncertain_reads m) c of
        (Inl e, c') \<Rightarrow> raises e c'
      | (Inr _, c') \<Rightarrow> complete_all (completed_reads m) c')"

text \<open>The worker's outbox: jobs whose read finished or failed, drained into one message.\<close>

record read_worker =
  read_done :: "job list"
  read_uncertain :: "job list"

definition capture_read_completed :: "job \<Rightarrow> read_worker \<Rightarrow> read_worker" where
  "capture_read_completed j w = w\<lparr>read_done := set_add j (read_done w)\<rparr>"

definition capture_read_failed :: "job \<Rightarrow> read_worker \<Rightarrow> read_worker" where
  "capture_read_failed j w = w\<lparr>read_uncertain := set_add j (read_uncertain w)\<rparr>"

definition build_worker_meta :: "int \<Rightarrow> read_worker \<Rightarrow> read_completion option \<times> read_worker" where
  "build_worker_meta r w =
     (let w' = w\<lparr>read_done := [], read_uncertain := []\<rparr>
      in if read_done w = [] \<and> read_uncertain w = [] then (None, w')
         else (Some \<lparr>completed_reads = map (\<lambda>j. (j, {r})) (read_done w),
                 uncertain_reads = map (\<lambda>j. (j, {r})) (read_uncertain w)\<rparr>, w'))"

section \<open>References held on the pool\<close>

definition call_refs :: "int \<Rightarrow> pool_call \<Rightarrow> int" where
  "call_refs b x = (case x of Touch bs \<Rightarrow> int (count_list bs b) | Free_blocks bs \<Rightarrow> - int (count_list bs b))"

definition pool_refs :: "pool_call list \<Rightarrow> int \<Rightarrow> int" where
  "pool_refs xs b = sum_list (map (call_refs b) xs)"

definition lease_refs :: "int \<Rightarrow> read_lease \<Rightarrow> int" where
  "lease_refs b l = (if b \<in> set (rl_blocks l) then 1 else 0)"

definition read_lease_ok :: "int \<Rightarrow> int \<Rightarrow> string \<Rightarrow> string \<Rightarrow> int \<Rightarrow> read_lease \<Rightarrow> bool" where
  "read_lease_ok n m x e k l \<longleftrightarrow> e = x \<and> 0 < k \<and> k \<le> m \<and> distinct (rl_blocks l) \<and>
     rl_ranks l \<subseteq> {0..<n} \<and> rl_ranks l \<noteq> {0..<n}"

definition capture_ok :: "capture_reads \<Rightarrow> bool" where
  "capture_ok c \<longleftrightarrow> 0 < cr_ranks c \<and> dict_ok (cr_leases c) \<and> 0 \<le> cr_sequence c \<and>
     int (length (cr_leases c)) \<le> cr_max_jobs c \<and>
     (\<forall>e k l. dget (cr_leases c) (e, k) = Some l \<longrightarrow>
        read_lease_ok (cr_ranks c) (cr_sequence c) (cr_epoch c) e k l) \<and>
     (\<forall>b. pool_refs (cr_pool c) b = dsum (lease_refs b) (cr_leases c))"

lemma count_list_distinct: "distinct xs \<Longrightarrow> count_list xs b = (if b \<in> set xs then 1 else 0)"
  by (induction xs) auto

lemma count_list_rev' [simp]: "count_list (rev xs) b = count_list xs b"
  by (induction xs) auto

lemma pool_refs_append: "pool_refs (xs @ [x]) b = pool_refs xs b + call_refs b x"
  by (simp add: pool_refs_def)

lemma full_ranks: "R \<subseteq> {0..<n} \<Longrightarrow> 0 \<le> n \<Longrightarrow> int (card R) = n \<longleftrightarrow> R = {0..<n}"
  using card_subset_eq [of "{0..<n}" R] by auto

lemma reserve_read_ok:
  assumes c: "capture_ok c" shows "capture_ok (snd (reserve_read n u bs c))"
proof -
  have fresh: "dget (cr_leases c) (cr_epoch c, cr_sequence c + 1) = None"
  proof (rule ccontr)
    assume "dget (cr_leases c) (cr_epoch c, cr_sequence c + 1) \<noteq> None"
    then show False using c unfolding capture_ok_def read_lease_ok_def by fastforce
  qed
  have "0 < cr_ranks c" using c by (simp add: capture_ok_def)
  then have new: "read_lease_ok (cr_ranks c) (cr_sequence c + 1) (cr_epoch c) (cr_epoch c) (cr_sequence c + 1)
      \<lparr>rl_blocks = unique_first bs, rl_ranks = {}, rl_quarantined = False\<rparr>"
    using c by (auto simp: read_lease_ok_def capture_ok_def)
  have old: "read_lease_ok m (t + 1) x e k l" if "read_lease_ok m t x e k l" for m t x e k l
    using that by (simp add: read_lease_ok_def)
  show ?thesis
    using c fresh new
    by (auto simp: reserve_read_def Let_def capture_ok_def pool_refs_append call_refs_def lease_refs_def
        count_list_distinct intro: old)
qed

lemma complete_read_cases:
  assumes c: "capture_ok c" and j: "dget (cr_leases c) j = Some l" and v: "valid_ranks c R"
  obtains (freed) "rl_ranks l \<union> R = {0..<cr_ranks c}" "complete_read j R c = (Inr True,
      c\<lparr>cr_pool := cr_pool c @ [Free_blocks (rev (rl_blocks l))], cr_leases := ddel j (cr_leases c)\<rparr>)"
  | (waits) "rl_ranks l \<union> R \<subseteq> {0..<cr_ranks c}" "rl_ranks l \<union> R \<noteq> {0..<cr_ranks c}"
      "complete_read j R c = (Inr False,
        c\<lparr>cr_leases := dput j (l\<lparr>rl_ranks := rl_ranks l \<union> R\<rparr>) (cr_leases c)\<rparr>)"
proof -
  obtain e k where "j = (e, k)" by (cases j)
  then have "rl_ranks l \<subseteq> {0..<cr_ranks c}" "0 \<le> cr_ranks c"
    using c j by (auto simp: capture_ok_def read_lease_ok_def)
  then have sub: "rl_ranks l \<union> R \<subseteq> {0..<cr_ranks c}" using v by (auto simp: valid_ranks_def)
  note full = full_ranks [OF sub \<open>0 \<le> cr_ranks c\<close>]
  show thesis
  proof (cases "rl_ranks l \<union> R = {0..<cr_ranks c}")
    case True
    then show thesis using full j v by (intro freed) (simp_all add: complete_read_def)
  next
    case False
    then show thesis using full j v sub by (intro waits) (simp_all add: complete_read_def)
  qed
qed

lemma complete_read_ok:
  assumes c: "capture_ok c" shows "capture_ok (snd (complete_read j R c))"
proof (cases "dget (cr_leases c) j")
  case (Some l)
  obtain e k where j: "j = (e, k)" by (cases j)
  have l: "read_lease_ok (cr_ranks c) (cr_sequence c) (cr_epoch c) e k l"
    using c Some j by (auto simp: capture_ok_def)
  have d: "dict_ok (cr_leases c)" using c by (simp add: capture_ok_def)
  have len: "int (length (ddel j (cr_leases c))) \<le> cr_max_jobs c"
    using c length_ddel_le [of j "cr_leases c"] by (simp add: capture_ok_def)
  show ?thesis
  proof (cases "valid_ranks c R")
    case True
    show ?thesis
    proof (cases rule: complete_read_cases [OF c Some True])
      case 1
      have "pool_refs (cr_pool c @ [Free_blocks (rev (rl_blocks l))]) b =
          dsum (lease_refs b) (ddel j (cr_leases c))" for b
        using c l dsum_ddel [OF d Some, of "lease_refs b"]
        by (simp add: capture_ok_def pool_refs_append call_refs_def lease_refs_def count_list_distinct
            read_lease_ok_def)
      then show ?thesis using c d len by (simp add: 1(2) capture_ok_def)
    next
      case 2
      have "dsum (lease_refs b) (dput j (l\<lparr>rl_ranks := rl_ranks l \<union> R\<rparr>) (cr_leases c)) =
          dsum (lease_refs b) (cr_leases c)" for b
        using dsum_dput_old [OF Some] by (simp add: lease_refs_def)
      moreover have "read_lease_ok (cr_ranks c) (cr_sequence c) (cr_epoch c) e k (l\<lparr>rl_ranks := rl_ranks l \<union> R\<rparr>)"
        using l 2(1,2) by (simp add: read_lease_ok_def)
      ultimately show ?thesis using c Some by (simp add: 2(3) [unfolded j] capture_ok_def j)
    qed
  qed (simp add: complete_read_def Some c)
qed (simp add: complete_read_def c)

lemma quarantine_read_ok:
  assumes c: "capture_ok c" shows "capture_ok (snd (quarantine_read j R c))"
proof (cases "dget (cr_leases c) j")
  case (Some l)
  obtain e k where j: "j = (e, k)" by (cases j)
  have "read_lease_ok (cr_ranks c) (cr_sequence c) (cr_epoch c) e k (l\<lparr>rl_quarantined := True\<rparr>)"
    using c Some j by (auto simp: capture_ok_def read_lease_ok_def)
  moreover have "dsum (lease_refs b) (dput j (l\<lparr>rl_quarantined := True\<rparr>) (cr_leases c)) =
      dsum (lease_refs b) (cr_leases c)" for b
    using dsum_dput_old [OF Some] by (simp add: lease_refs_def)
  ultimately show ?thesis using c Some by (simp add: quarantine_read_def capture_ok_def j)
qed (simp add: quarantine_read_def c)

section \<open>Scheduler, workers and messages\<close>

text \<open>The ghost \<open>finished_reads\<close> records which worker has finished which job's read.\<close>

record capture_world =
  cw_leases :: capture_reads
  cw_workers :: "int \<Rightarrow> read_worker"
  cw_sent :: "read_completion set"
  finished_reads :: "(job \<times> int) set"

inductive capture_step :: "capture_world \<Rightarrow> capture_world \<Rightarrow> bool" where
  reserve: "capture_step W (W\<lparr>cw_leases := snd (reserve_read n u bs (cw_leases W))\<rparr>)"
| worker_done: "0 \<le> r \<Longrightarrow> r < cr_ranks (cw_leases W) \<Longrightarrow>
    capture_step W (W\<lparr>cw_workers := (cw_workers W)(r := capture_read_completed j (cw_workers W r)),
      finished_reads := insert (j, r) (finished_reads W)\<rparr>)"
| worker_failed: "0 \<le> r \<Longrightarrow> r < cr_ranks (cw_leases W) \<Longrightarrow>
    capture_step W (W\<lparr>cw_workers := (cw_workers W)(r := capture_read_failed j (cw_workers W r))\<rparr>)"
| send: "build_worker_meta r (cw_workers W r) = (Some m, w) \<Longrightarrow>
    capture_step W (W\<lparr>cw_workers := (cw_workers W)(r := w), cw_sent := insert m (cw_sent W)\<rparr>)"
| aggregate: "m \<in> cw_sent W \<Longrightarrow> m' \<in> cw_sent W \<Longrightarrow>
    capture_step W (W\<lparr>cw_sent := insert (aggregate_reads m m') (cw_sent W)\<rparr>)"
| deliver: "m \<in> cw_sent W \<Longrightarrow>
    capture_step W (W\<lparr>cw_leases := snd (absorb_reads m (cw_leases W))\<rparr>)"

inductive_cases capture_stepE: "capture_step W V"

definition initial_capture :: "capture_world \<Rightarrow> bool" where
  "initial_capture W \<longleftrightarrow> (\<exists>e n k. CaptureReadLeases e n k = Inr (cw_leases W)) \<and>
     cw_workers W = (\<lambda>_. \<lparr>read_done = [], read_uncertain = []\<rparr>) \<and> cw_sent W = {} \<and> finished_reads W = {}"

text \<open>An acknowledgement set is true for \<open>F\<close> when everyone it names has finished that job's read.\<close>

definition acks_true :: "(job \<times> int) set \<Rightarrow> (job, int set) dict \<Rightarrow> bool" where
  "acks_true F d \<longleftrightarrow> (\<forall>j R r. (j, R) \<in> set d \<longrightarrow> r \<in> R \<longrightarrow> (j, r) \<in> F)"

text \<open>Recorded acknowledgements are true, and a job that was issued and is gone was read by all.\<close>

definition leases_true :: "(job \<times> int) set \<Rightarrow> capture_reads \<Rightarrow> bool" where
  "leases_true F c \<longleftrightarrow>
     (\<forall>j l r. dget (cr_leases c) j = Some l \<longrightarrow> r \<in> rl_ranks l \<longrightarrow> (j, r) \<in> F) \<and>
     (\<forall>k. 0 < k \<longrightarrow> k \<le> cr_sequence c \<longrightarrow> dget (cr_leases c) (cr_epoch c, k) = None \<longrightarrow>
        (\<forall>r. 0 \<le> r \<longrightarrow> r < cr_ranks c \<longrightarrow> ((cr_epoch c, k), r) \<in> F))"

definition capture_world_ok :: "capture_world \<Rightarrow> bool" where
  "capture_world_ok W \<longleftrightarrow> capture_ok (cw_leases W) \<and> leases_true (finished_reads W) (cw_leases W) \<and>
     (\<forall>r j. j \<in> set (read_done (cw_workers W r)) \<longrightarrow> (j, r) \<in> finished_reads W) \<and>
     (\<forall>m\<in>cw_sent W. acks_true (finished_reads W) (completed_reads m))"

lemma acks_true_merge: "acks_true F d \<Longrightarrow> acks_true F e \<Longrightarrow> acks_true F (merge_ranks e d)"
proof -
  have put: "acks_true F (dput j (X \<union> R) d')"
    if "acks_true F d'" "\<forall>r\<in>R. (j, r) \<in> F" "X = {} \<or> (j, X) \<in> set d'" for j R X d'
  proof -
    have "set (dput j (X \<union> R) d') \<subseteq> insert (j, X \<union> R) (set d')"
      by (induction d') auto
    then show ?thesis using that unfolding acks_true_def by blast
  qed
  have gen: "acks_true F d \<Longrightarrow> (\<And>j R. (j, R) \<in> set ms \<Longrightarrow> \<forall>r\<in>R. (j, r) \<in> F) \<Longrightarrow>
      acks_true F (fold (\<lambda>(j, R) d. dput j ((case dget d j of None \<Rightarrow> {} | Some X \<Rightarrow> X) \<union> R) d) ms d)" for ms d
  proof (induction ms arbitrary: d)
    case (Cons m ms)
    obtain j R where m: "m = (j, R)" by (cases m)
    have "acks_true F (dput j ((case dget d j of None \<Rightarrow> {} | Some X \<Rightarrow> X) \<union> R) d)"
      using Cons.prems(1) Cons.prems(2) [of j R] m
      by (intro put) (auto split: option.split dest: map_of_SomeD)
    moreover have "\<forall>r\<in>R'. (j', r) \<in> F" if "(j', R') \<in> set ms" for j' R'
      using Cons.prems(2) [of j' R'] that by simp
    ultimately show ?case using Cons.IH m by simp
  qed simp
  assume d: "acks_true F d" and e: "acks_true F e"
  have "\<forall>r\<in>R. (j, r) \<in> F" if "(j, R) \<in> set e" for j R
    using e that unfolding acks_true_def by blast
  with d show ?thesis unfolding merge_ranks_def by (rule gen)
qed

lemma leases_true_mono: "leases_true F c \<Longrightarrow> F \<subseteq> G \<Longrightarrow> leases_true G c"
  unfolding leases_true_def by blast

lemma leases_true_reserve:
  assumes "leases_true F c" shows "leases_true F (snd (reserve_read n u bs c))"
proof -
  have "k \<le> cr_sequence c" if "k \<le> cr_sequence c + 1" "k \<noteq> cr_sequence c + 1" for k
    using that by linarith
  then show ?thesis
    using assms by (auto simp: reserve_read_def Let_def leases_true_def split: if_splits)
qed

lemma leases_true_quarantine:
  assumes "leases_true F c" shows "leases_true F (snd (quarantine_read j R c))"
proof (cases "dget (cr_leases c) j")
  case (Some l)
  then show ?thesis
    using assms unfolding quarantine_read_def leases_true_def by (simp del: split_paired_All)
qed (simp add: quarantine_read_def assms)

lemma leases_true_complete:
  assumes c: "capture_ok c" and t: "leases_true F c" and R: "\<forall>r\<in>R. (j, r) \<in> F"
  shows "leases_true F (snd (complete_read j R c))"
proof (cases "dget (cr_leases c) j")
  case (Some l)
  have l: "\<forall>r\<in>rl_ranks l \<union> R. (j, r) \<in> F" using t Some R unfolding leases_true_def by blast
  show ?thesis
  proof (cases "valid_ranks c R")
    case True
    show ?thesis
    proof (cases rule: complete_read_cases [OF c Some True])
      case 1
      then have "(j, r) \<in> F" if "0 \<le> r" "r < cr_ranks c" for r using l that by simp
      then show ?thesis using t unfolding leases_true_def 1(2)
        by (simp del: split_paired_All)
    next
      case 2
      then show ?thesis using t l Some unfolding leases_true_def 2(3)
        by (simp del: split_paired_All)
    qed
  qed (simp add: complete_read_def Some t)
qed (simp add: complete_read_def t)

lemma absorb_reads_invariant:
  assumes m: "acks_true F (completed_reads m)" and c: "capture_ok c" "leases_true F c"
  shows "capture_ok (snd (absorb_reads m c)) \<and> leases_true F (snd (absorb_reads m c))"
proof -
  have q: "capture_ok (snd (quarantine_all ms c)) \<and> leases_true F (snd (quarantine_all ms c))"
    if "capture_ok c" "leases_true F c" for ms c
    using that
  proof (induction ms arbitrary: c)
    case (Cons x ms)
    obtain j R where x: "x = (j, R)" by (cases x)
    show ?case
      using Cons.IH [of "snd (quarantine_read j R c)"] quarantine_read_ok [OF Cons.prems(1), of j R]
        leases_true_quarantine [OF Cons.prems(2), of j R] x
      by (auto split: prod.split sum.split)
  qed simp
  have d: "capture_ok (snd (complete_all ms c)) \<and> leases_true F (snd (complete_all ms c))"
    if "capture_ok c" "leases_true F c" "\<And>j R. (j, R) \<in> set ms \<Longrightarrow> \<forall>r\<in>R. (j, r) \<in> F" for ms c
    using that
  proof (induction ms arbitrary: c)
    case (Cons x ms)
    obtain j R where x: "x = (j, R)" by (cases x)
    have R: "\<forall>r\<in>R. (j, r) \<in> F" using Cons.prems(3) [of j R] x by simp
    have rest: "\<forall>r\<in>R'. (j', r) \<in> F" if "(j', R') \<in> set ms" for j' R'
      using Cons.prems(3) [of j' R'] that by simp
    show ?case
      using Cons.IH [OF _ _ rest, of "snd (complete_read j R c)"] complete_read_ok [OF Cons.prems(1), of j R]
        leases_true_complete [OF Cons.prems(1,2) R] x
      by (auto split: prod.split sum.split)
  qed simp
  have "\<forall>r\<in>R. (j, r) \<in> F" if "(j, R) \<in> set (completed_reads m)" for j R
    using m that unfolding acks_true_def by blast
  then show ?thesis
    using q [OF c, of "uncertain_reads m"] d [of "snd (quarantine_all (uncertain_reads m) c)"]
    by (auto simp: absorb_reads_def split: prod.split sum.split)
qed

lemma ranks_preserved:
  "cr_ranks (snd (reserve_read n u bs c)) = cr_ranks c"
  by (simp add: reserve_read_def Let_def)

lemma capture_world_ok_step:
  assumes "capture_step W V" and w: "capture_world_ok W" shows "capture_world_ok V"
  using assms(1)
proof cases
  case (reserve n u bs)
  then show ?thesis using w by (simp add: capture_world_ok_def reserve_read_ok leases_true_reserve)
next
  case (worker_done r j)
  have "acks_true (insert (j, r) (finished_reads W)) d" if "acks_true (finished_reads W) d" for d
    using that unfolding acks_true_def by blast
  then show ?thesis
    using w leases_true_mono [of "finished_reads W" "cw_leases W" "insert (j, r) (finished_reads W)"]
    unfolding worker_done capture_world_ok_def
    by (simp del: split_paired_All add: capture_read_completed_def subset_insertI)
next
  case (worker_failed r j)
  then show ?thesis using w unfolding capture_world_ok_def
    by (simp del: split_paired_All add: capture_read_failed_def)
next
  case (send r m x)
  have "acks_true (finished_reads W) (completed_reads m)" "read_done x = []"
    using send(2) w unfolding capture_world_ok_def acks_true_def
    by (auto simp: build_worker_meta_def Let_def split: if_splits)
  then show ?thesis using w unfolding send(1) capture_world_ok_def
    by (simp del: split_paired_All)
next
  case (aggregate m m')
  then have "acks_true (finished_reads W) (completed_reads (aggregate_reads m m'))"
    using w by (simp add: capture_world_ok_def aggregate_reads_def acks_true_merge)
  then show ?thesis using w unfolding aggregate(1) capture_world_ok_def
    by (simp del: split_paired_All)
next
  case (deliver m)
  then show ?thesis using w absorb_reads_invariant [of "finished_reads W" m "cw_leases W"]
    unfolding capture_world_ok_def by (simp del: split_paired_All)
qed

lemma initial_capture_ok: "initial_capture W \<Longrightarrow> capture_world_ok W"
proof -
  assume i: "initial_capture W"
  then obtain e n k where "CaptureReadLeases e n k = Inr (cw_leases W)" by (auto simp: initial_capture_def)
  then have n: "0 < n" "0 < k" and c: "cw_leases W = \<lparr>cr_ranks = n, cr_max_jobs = k, cr_epoch = e,
      cr_sequence = 0, cr_leases = [], cr_disabled = False, cr_pool = []\<rparr>"
    by (simp_all add: CaptureReadLeases_def split: if_splits)
  then show ?thesis
    using i by (simp add: initial_capture_def capture_world_ok_def capture_ok_def leases_true_def c
        pool_refs_def)
qed

interpretation capture: invariant_system initial_capture capture_step capture_world_ok
  by unfold_locales (auto intro: initial_capture_ok capture_world_ok_step)

section \<open>What the leases promise\<close>

definition demo_capture :: capture_world where
  "demo_capture = \<lparr>cw_leases = \<lparr>cr_ranks = 1, cr_max_jobs = 2, cr_epoch = ''e'', cr_sequence = 0,
     cr_leases = [], cr_disabled = False, cr_pool = []\<rparr>,
     cw_workers = (\<lambda>_. \<lparr>read_done = [], read_uncertain = []\<rparr>), cw_sent = {}, finished_reads = {}\<rparr>"

definition demo_captured :: capture_world where
  "demo_captured = demo_capture\<lparr>cw_leases :=
     snd (reserve_read 9 (\<lambda>_. True) [3, 5, 3] (cw_leases demo_capture))\<rparr>"

lemma demo_capture_run: "initial_capture demo_capture" "rtranclp capture_step demo_capture demo_captured"
proof -
  have "CaptureReadLeases ''e'' 1 2 = Inr (cw_leases demo_capture)"
    by (simp add: CaptureReadLeases_def demo_capture_def)
  then show "initial_capture demo_capture"
    unfolding initial_capture_def by (simp add: demo_capture_def) blast
  show "rtranclp capture_step demo_capture demo_captured"
    unfolding demo_captured_def by (rule r_into_rtranclp) (rule capture_step.reserve)
qed

text \<open>C18: Capture reads are pinned until everyone is done. However acknowledgements are combined,
  repeated, delayed or lost, and whatever workers report as uncertain, a job that some physical
  worker has not finished reading still has its lease, and every one of its source blocks still
  carries at least one reference in the pool.\<close>

theorem capture_pinned_until_all_ranks:
  assumes "initial_capture W0" "rtranclp capture_step W0 W"
    "0 < k" "k \<le> cr_sequence (cw_leases W)" "0 \<le> r" "r < cr_ranks (cw_leases W)"
    "((cr_epoch (cw_leases W), k), r) \<notin> finished_reads W"
  shows "\<exists>l. dget (cr_leases (cw_leases W)) (cr_epoch (cw_leases W), k) = Some l \<and>
    (\<forall>b\<in>set (rl_blocks l). 1 \<le> pool_refs (cr_pool (cw_leases W)) b)"
proof -
  let ?c = "cw_leases W"
  have ok: "capture_ok ?c" "leases_true (finished_reads W) ?c"
    using capture.reachable_inv [OF assms(1,2)] by (simp_all add: capture_world_ok_def)
  then obtain l where l: "dget (cr_leases ?c) (cr_epoch ?c, k) = Some l"
    using assms(3-7) unfolding leases_true_def by blast
  have "1 \<le> pool_refs (cr_pool ?c) b" if "b \<in> set (rl_blocks l)" for b
    using dsum_ge [of "lease_refs b", OF _ l] that ok(1) by (simp add: lease_refs_def capture_ok_def)
  with l show ?thesis by blast
qed

theorem capture_pinned_until_all_ranks_witness:
  "\<exists>l. dget (cr_leases (cw_leases demo_captured)) (''e'', 1) = Some l \<and>
    (\<forall>b\<in>set (rl_blocks l). 1 \<le> pool_refs (cr_pool (cw_leases demo_captured)) b)"
  using capture_pinned_until_all_ranks [OF demo_capture_run, of 1 0]
  by (simp add: demo_captured_def demo_capture_def reserve_read_def Let_def)

text \<open>C19: The references are exact: a block carries one reference for each live lease that names it,
  so a capture never leaks a block and never gives back a reference it does not hold; the number
  of live jobs stays within its bound.\<close>

theorem capture_references_exact:
  assumes "initial_capture W0" "rtranclp capture_step W0 W"
  shows "pool_refs (cr_pool (cw_leases W)) b =
      int (length (filter (\<lambda>l. b \<in> set (rl_blocks l)) (dvals (cr_leases (cw_leases W))))) \<and>
    int (length (cr_leases (cw_leases W))) \<le> cr_max_jobs (cw_leases W)"
proof -
  have ok: "capture_ok (cw_leases W)"
    using capture.reachable_inv [OF assms] by (simp add: capture_world_ok_def)
  have "dsum (lease_refs b) d = int (length (filter (\<lambda>l. b \<in> set (rl_blocks l)) (dvals d)))" for d :: "(job, read_lease) dict"
    by (induction d) (auto simp: lease_refs_def)
  with ok show ?thesis by (simp add: capture_ok_def)
qed

theorem capture_references_exact_witness:
  "pool_refs (cr_pool (cw_leases demo_captured)) 3 = 1"
  using capture_references_exact [OF demo_capture_run, of 3]
  by (simp add: demo_captured_def demo_capture_def reserve_read_def Let_def)

end
