(* ===== verification/Snapshot_Ring.thy ===== *)
theory Snapshot_Ring
  imports Prelude
begin

text \<open>
  \<open>sparkcache/native/python/snapshot_ring_state_model.py\<close>: the two or three slots into which
  snapshots are gathered. A slot is filled by the GPU, becomes ready, is written out by a claimed
  writer and is freed; a full ring drops the snapshot instead of making inference wait. The
  messages the methods return are the constructors of \<open>ring_reply\<close>.
\<close>

section \<open>Slots and operations\<close>

datatype slot_state = FREE | GPU_FILLING | READY | WRITING

record slot =
  slot_state :: slot_state
  generation :: int
  slot_context :: int
  discarded :: bool

record ring =
  slots :: "slot list"
  would_block :: int

datatype ring_reply =
    Submitted int nat
  | Would_block
  | Not_filling int
  | Drained int
  | Now_ready int
  | Not_claimable int
  | Writer_owns int
  | Not_releasable int
  | Now_free int
  | Abandoned int int

definition fresh_slot :: slot where
  "fresh_slot = \<lparr>slot_state = FREE, generation = 0, slot_context = 0, discarded = False\<rparr>"

definition SnapshotRing :: "int \<Rightarrow> exn + ring" where
  "SnapshotRing n =
     (if n \<noteq> 2 \<and> n \<noteq> 3 then Inl (ValueError ''snapshot ring requires two or three slots'')
      else Inr \<lparr>slots = replicate (nat n) fresh_slot, would_block = 0\<rparr>)"

definition free_slot :: "slot \<Rightarrow> slot" where
  "free_slot s = s\<lparr>slot_state := FREE, slot_context := 0, discarded := False\<rparr>"

fun first_free :: "nat \<Rightarrow> slot list \<Rightarrow> nat option" where
  "first_free k [] = None"
| "first_free k (s # ss) = (if slot_state s = FREE then Some k else first_free (Suc k) ss)"

definition ring_submit :: "int \<Rightarrow> ring \<Rightarrow> ring_reply \<times> ring" where
  "ring_submit ctx r =
     (case first_free 0 (slots r) of
        Some k \<Rightarrow>
          (let s = slots r ! k
           in (Submitted ctx k, r\<lparr>slots := (slots r)[k := s\<lparr>slot_state := GPU_FILLING,
                 generation := generation s + 1, slot_context := ctx, discarded := False\<rparr>]\<rparr>))
      | None \<Rightarrow> (Would_block, r\<lparr>would_block := would_block r + 1\<rparr>))"

definition ring_complete :: "int \<Rightarrow> ring \<Rightarrow> (ring_reply, ring) outcome" where
  "ring_complete i r =
     (case py_index (slots r) i of
        None \<Rightarrow> raises IndexError r
      | Some k \<Rightarrow>
          (let s = slots r ! k
           in if slot_state s \<noteq> GPU_FILLING then returns (Not_filling i) r
              else if discarded s
              then returns (Drained i) (r\<lparr>slots := (slots r)[k := free_slot s]\<rparr>)
              else returns (Now_ready i) (r\<lparr>slots := (slots r)[k := s\<lparr>slot_state := READY\<rparr>]\<rparr>)))"

definition ring_claim :: "int \<Rightarrow> ring \<Rightarrow> (ring_reply, ring) outcome" where
  "ring_claim i r =
     (case py_index (slots r) i of
        None \<Rightarrow> raises IndexError r
      | Some k \<Rightarrow>
          (let s = slots r ! k
           in if slot_state s \<noteq> READY \<or> discarded s then returns (Not_claimable i) r
              else returns (Writer_owns i) (r\<lparr>slots := (slots r)[k := s\<lparr>slot_state := WRITING\<rparr>]\<rparr>)))"

definition ring_release :: "int \<Rightarrow> ring \<Rightarrow> (ring_reply, ring) outcome" where
  "ring_release i r =
     (case py_index (slots r) i of
        None \<Rightarrow> raises IndexError r
      | Some k \<Rightarrow>
          (let s = slots r ! k
           in if slot_state s \<noteq> READY \<and> slot_state s \<noteq> WRITING then returns (Not_releasable i) r
              else returns (Now_free i) (r\<lparr>slots := (slots r)[k := free_slot s]\<rparr>)))"

definition abandons :: "int \<Rightarrow> slot \<Rightarrow> bool" where
  "abandons ctx s \<longleftrightarrow> slot_state s \<noteq> FREE \<and> slot_context s = ctx"

definition abandon_slot :: "int \<Rightarrow> slot \<Rightarrow> slot" where
  "abandon_slot ctx s =
     (if \<not> abandons ctx s then s
      else if slot_state s = GPU_FILLING \<or> slot_state s = WRITING then s\<lparr>discarded := True\<rparr>
      else free_slot s)"

definition ring_abandon :: "int \<Rightarrow> ring \<Rightarrow> ring_reply \<times> ring" where
  "ring_abandon ctx r =
     (Abandoned ctx (int (length (filter (abandons ctx) (slots r)))),
      r\<lparr>slots := map (abandon_slot ctx) (slots r)\<rparr>)"

section \<open>Runs of the ring\<close>

datatype ring_op = Submit int | Complete int | Claim int | Release int | Abandon int

fun ring_apply :: "ring_op \<Rightarrow> ring \<Rightarrow> ring" where
  "ring_apply (Submit c) r = snd (ring_submit c r)"
| "ring_apply (Complete i) r = snd (ring_complete i r)"
| "ring_apply (Claim i) r = snd (ring_claim i r)"
| "ring_apply (Release i) r = snd (ring_release i r)"
| "ring_apply (Abandon c) r = snd (ring_abandon c r)"

definition ring_step :: "ring \<Rightarrow> ring \<Rightarrow> bool" where
  "ring_step r r' \<longleftrightarrow> (\<exists>x. r' = ring_apply x r)"

definition new_ring :: "ring \<Rightarrow> bool" where
  "new_ring r \<longleftrightarrow> (\<exists>n. SnapshotRing n = Inr r)"

definition slot_ok :: "slot \<Rightarrow> bool" where
  "slot_ok s \<longleftrightarrow> 0 \<le> generation s \<and> (slot_state s = FREE \<longrightarrow> slot_context s = 0 \<and> \<not> discarded s) \<and>
     (slot_state s = READY \<longrightarrow> \<not> discarded s) \<and> (slot_state s \<noteq> FREE \<longrightarrow> 0 < generation s)"

definition ring_ok :: "ring \<Rightarrow> bool" where
  "ring_ok r \<longleftrightarrow> (length (slots r) = 2 \<or> length (slots r) = 3) \<and> (\<forall>s\<in>set (slots r). slot_ok s) \<and>
     0 \<le> would_block r"

lemma first_free_Some:
  "first_free n ss = Some k \<Longrightarrow> n \<le> k \<and> k - n < length ss \<and> slot_state (ss ! (k - n)) = FREE"
proof (induction n ss rule: first_free.induct)
  case (2 n s ss)
  then show ?case by (cases "slot_state s = FREE") (auto simp: Suc_diff_le Suc_le_eq nth_Cons')
qed simp

lemma first_free_None: "first_free n ss = None \<longleftrightarrow> (\<forall>s\<in>set ss. slot_state s \<noteq> FREE)"
  by (induction n ss rule: first_free.induct) auto

lemma first_free_slot:
  "first_free 0 ss = Some k \<Longrightarrow> k < length ss \<and> slot_state (ss ! k) = FREE"
  using first_free_Some [of 0 ss k] by simp

lemma update_slot_ok:
  "(\<forall>s\<in>set ss. slot_ok s) \<Longrightarrow> slot_ok t \<Longrightarrow> \<forall>s\<in>set (ss[k := t]). slot_ok s"
  using set_update_subset_insert [of ss k t] by blast

lemma free_slot_ok: "slot_ok s \<Longrightarrow> slot_ok (free_slot s)"
  by (simp add: slot_ok_def free_slot_def)

lemma ring_apply_length: "length (slots (ring_apply x r)) = length (slots r)"
  by (cases x) (auto simp: ring_submit_def ring_complete_def ring_claim_def ring_release_def
      ring_abandon_def Let_def split: option.split)

lemma ring_apply_ok:
  assumes "ring_ok r" shows "ring_ok (ring_apply x r)"
proof -
  have all: "\<forall>s\<in>set (slots r). slot_ok s" and nth: "k < length (slots r) \<Longrightarrow> slot_ok (slots r ! k)" for k
    using assms by (auto simp: ring_ok_def)
  have slots: "\<forall>s\<in>set (slots (ring_apply x r)). slot_ok s"
  proof (cases x)
    case (Submit c)
    then show ?thesis
      using all nth by (auto simp: ring_submit_def Let_def slot_ok_def split: option.split
          dest!: first_free_slot subsetD [OF set_update_subset_insert])
  next
    case (Abandon c)
    then show ?thesis
      using all by (auto simp: ring_abandon_def abandon_slot_def slot_ok_def free_slot_def)
  qed (use all nth py_index_bound [of "slots r"] in
        \<open>auto simp: ring_complete_def ring_claim_def ring_release_def Let_def split: option.split
           intro!: free_slot_ok dest!: subsetD [OF set_update_subset_insert],
         auto simp: slot_ok_def\<close>)
  have "0 \<le> would_block (ring_apply x r)"
    using assms by (cases x) (auto simp: ring_ok_def ring_submit_def ring_complete_def ring_claim_def
        ring_release_def ring_abandon_def Let_def split: option.split)
  with slots show ?thesis using assms ring_apply_length [of x r] by (simp add: ring_ok_def)
qed

interpretation ring: invariant_system new_ring ring_step ring_ok
proof
  show "ring_ok r" if "new_ring r" for r
    using that by (auto simp: new_ring_def SnapshotRing_def ring_ok_def slot_ok_def fresh_slot_def
        split: if_splits)
  show "ring_ok t" if "ring_step s t" "ring_ok s" for s t
    using that by (auto simp: ring_step_def ring_apply_ok)
qed

section \<open>What the ring promises\<close>

lemma nth_update_if: "k < length ss \<Longrightarrow> ss[j := t] ! k = (if j = k then t else ss ! k)"
  by (simp add: nth_list_update)

text \<open>C21: A slot that the GPU is filling, that is ready or that a writer owns is never reused under
  them: whatever operation runs, the slot keeps its generation and its context, unless the operation
  is the one entitled to free it (its release, the completion of a discarded fill, or abandoning
  the context of a ready slot no writer has claimed).\<close>

theorem busy_slot_preserved:
  assumes "new_ring r0" "rtranclp ring_step r0 r" "k < length (slots r)"
    "s = slots r ! k" "t = slots (ring_apply x r) ! k" "slot_state s \<noteq> FREE"
  shows "generation t = generation s \<and>
    (slot_state t \<noteq> FREE \<and> slot_context t = slot_context s \<or>
     slot_state t = FREE \<and>
       ((\<exists>i. x = Release i \<and> py_index (slots r) i = Some k \<and> slot_state s \<noteq> GPU_FILLING) \<or>
        (\<exists>i. x = Complete i \<and> py_index (slots r) i = Some k \<and> slot_state s = GPU_FILLING \<and> discarded s) \<or>
        (x = Abandon (slot_context s) \<and> slot_state s = READY)))"
proof (cases x)
  case (Submit c)
  then show ?thesis
    using assms(3-6) first_free_slot [of "slots r"]
    by (auto simp: ring_submit_def Let_def nth_update_if split: option.split)
next
  case (Complete i)
  then show ?thesis
    using assms(3-6)
    by (auto simp: ring_complete_def Let_def nth_update_if free_slot_def split: option.split)
next
  case (Claim i)
  then show ?thesis
    using assms(3-6)
    by (auto simp: ring_claim_def Let_def nth_update_if split: option.split)
next
  case (Release i)
  then show ?thesis
    using assms(3-6) slot_state.exhaust [of "slot_state s"]
    by (auto simp: ring_release_def Let_def nth_update_if free_slot_def split: option.split)
next
  case (Abandon c)
  then show ?thesis
    using assms(3-6) slot_state.exhaust [of "slot_state s"]
    by (auto simp: ring_abandon_def abandon_slot_def abandons_def free_slot_def)
qed

definition demo_ring :: ring where
  "demo_ring = \<lparr>slots = replicate 2 fresh_slot, would_block = 0\<rparr>"

lemma demo_ring_new: "new_ring demo_ring"
proof -
  have "SnapshotRing 2 = Inr demo_ring" by (simp add: SnapshotRing_def demo_ring_def)
  then show ?thesis unfolding new_ring_def by blast
qed

lemma ring_run: "rtranclp ring_step r (fold ring_apply xs r)"
proof (induction xs arbitrary: r)
  case (Cons x xs)
  have "ring_step r (ring_apply x r)" unfolding ring_step_def by blast
  with Cons.IH show ?case by (simp add: converse_rtranclp_into_rtranclp)
qed simp

theorem busy_slot_preserved_witness:
  "generation (slots (ring_apply (Submit 8) (fold ring_apply [Submit 7, Complete 0, Claim 0] demo_ring)) ! 0) = 1"
proof -
  define r where "r = fold ring_apply [Submit 7, Complete 0, Claim 0] demo_ring"
  have e: "slots r = [\<lparr>slot_state = WRITING, generation = 1, slot_context = 7, discarded = False\<rparr>, fresh_slot]"
    by (simp add: r_def demo_ring_def fresh_slot_def ring_submit_def ring_complete_def ring_claim_def
        py_index_def Let_def numeral_2_eq_2)
  have "rtranclp ring_step demo_ring r" unfolding r_def by (rule ring_run)
  from busy_slot_preserved [OF demo_ring_new this, of 0 _ _ "Submit 8", OF _ refl refl]
  have "generation (slots (ring_apply (Submit 8) r) ! 0) = 1"
    by (simp add: e del: ring_apply.simps)
  then show ?thesis by (simp only: r_def)
qed

text \<open>Submission never waits: it is refused, and only counted, exactly when no slot is free;
  otherwise the first free slot starts filling for the context under a generation it never had
  before, and every other slot is left as it was.\<close>

theorem submit_never_waits:
  assumes "new_ring r0" "rtranclp ring_step r0 r" "ring_submit c r = (rep, r')"
  shows "(\<forall>s\<in>set (slots r). slot_state s \<noteq> FREE) \<and> rep = Would_block \<and> slots r' = slots r \<and>
      would_block r' = would_block r + 1 \<or>
    (\<exists>k. rep = Submitted c k \<and> k < length (slots r) \<and> slot_state (slots r ! k) = FREE \<and>
      (\<forall>j<k. slot_state (slots r ! j) \<noteq> FREE) \<and> would_block r' = would_block r \<and>
      slots r' = (slots r)[k := \<lparr>slot_state = GPU_FILLING, generation = generation (slots r ! k) + 1,
        slot_context = c, discarded = False\<rparr>])"
proof (cases "first_free 0 (slots r)")
  case None
  then have "ring_submit c r = (Would_block, r\<lparr>would_block := would_block r + 1\<rparr>)"
    by (simp add: ring_submit_def)
  moreover have "\<forall>s\<in>set (slots r). slot_state s \<noteq> FREE" using None by (simp only: first_free_None)
  ultimately show ?thesis using assms(3) by auto
next
  case (Some k)
  have first: "first_free n ss = Some k \<Longrightarrow> j < k - n \<Longrightarrow> slot_state (ss ! j) \<noteq> FREE" for n ss j
  proof (induction n ss arbitrary: j rule: first_free.induct)
    case (2 n s ss)
    then show ?case by (cases j) (auto split: if_splits)
  qed simp
  obtain st g x d where k: "slots r ! k = \<lparr>slot_state = st, generation = g, slot_context = x, discarded = d\<rparr>"
    by (cases "slots r ! k")
  then show ?thesis
    using assms(3) Some first [OF Some] first_free_slot [OF Some]
    by (intro disjI2 exI [of _ k]) (auto simp: ring_submit_def Let_def)
qed

theorem submit_never_waits_witness:
  "fst (ring_submit 9 (fold ring_apply [Submit 7, Submit 8] demo_ring)) = Would_block"
proof -
  define r where "r = fold ring_apply [Submit 7, Submit 8] demo_ring"
  have e: "slots r = [\<lparr>slot_state = GPU_FILLING, generation = 1, slot_context = 7, discarded = False\<rparr>,
      \<lparr>slot_state = GPU_FILLING, generation = 1, slot_context = 8, discarded = False\<rparr>]"
    by (simp add: r_def demo_ring_def fresh_slot_def ring_submit_def Let_def numeral_2_eq_2)
  have run: "rtranclp ring_step demo_ring r" unfolding r_def by (rule ring_run)
  obtain rep r' where s: "ring_submit 9 r = (rep, r')" by (cases "ring_submit 9 r")
  from submit_never_waits [OF demo_ring_new run s]
  have "rep = Would_block" by (auto simp: e less_Suc_eq)
  then show ?thesis using s by (simp add: r_def)
qed

end
