(* ===== verification/Sha256.thy ===== *)
theory Sha256
  imports Py_Value "HOL-Library.Word"
begin

text \<open>
  \<open>hashlib.sha256(b).hexdigest()\<close>, the digest by which every stored object of SparkCache is named and
  checked: FIPS 180-4 on 32-bit words. Bytes are characters. What the components need of it is that
  a digest is 64 lowercase hexadecimal characters.
\<close>

unbundle bit_operations_syntax

type_synonym u32 = "32 word"

definition sha_k :: "u32 list" where
  "sha_k =
    [0x428A2F98, 0x71374491, 0xB5C0FBCF, 0xE9B5DBA5, 0x3956C25B, 0x59F111F1, 0x923F82A4, 0xAB1C5ED5,
     0xD807AA98, 0x12835B01, 0x243185BE, 0x550C7DC3, 0x72BE5D74, 0x80DEB1FE, 0x9BDC06A7, 0xC19BF174,
     0xE49B69C1, 0xEFBE4786, 0x0FC19DC6, 0x240CA1CC, 0x2DE92C6F, 0x4A7484AA, 0x5CB0A9DC, 0x76F988DA,
     0x983E5152, 0xA831C66D, 0xB00327C8, 0xBF597FC7, 0xC6E00BF3, 0xD5A79147, 0x06CA6351, 0x14292967,
     0x27B70A85, 0x2E1B2138, 0x4D2C6DFC, 0x53380D13, 0x650A7354, 0x766A0ABB, 0x81C2C92E, 0x92722C85,
     0xA2BFE8A1, 0xA81A664B, 0xC24B8B70, 0xC76C51A3, 0xD192E819, 0xD6990624, 0xF40E3585, 0x106AA070,
     0x19A4C116, 0x1E376C08, 0x2748774C, 0x34B0BCB5, 0x391C0CB3, 0x4ED8AA4A, 0x5B9CCA4F, 0x682E6FF3,
     0x748F82EE, 0x78A5636F, 0x84C87814, 0x8CC70208, 0x90BEFFFA, 0xA4506CEB, 0xBEF9A3F7, 0xC67178F2]"

definition sha_init :: "u32 list" where
  "sha_init = [0x6A09E667, 0xBB67AE85, 0x3C6EF372, 0xA54FF53A, 0x510E527F, 0x9B05688C, 0x1F83D9AB, 0x5BE0CD19]"

definition rotr :: "nat \<Rightarrow> u32 \<Rightarrow> u32" where
  "rotr n x = drop_bit n x OR push_bit (32 - n) x"

definition small_sigma0 :: "u32 \<Rightarrow> u32" where
  "small_sigma0 x = rotr 7 x XOR rotr 18 x XOR drop_bit 3 x"

definition small_sigma1 :: "u32 \<Rightarrow> u32" where
  "small_sigma1 x = rotr 17 x XOR rotr 19 x XOR drop_bit 10 x"

definition big_sigma0 :: "u32 \<Rightarrow> u32" where
  "big_sigma0 x = rotr 2 x XOR rotr 13 x XOR rotr 22 x"

definition big_sigma1 :: "u32 \<Rightarrow> u32" where
  "big_sigma1 x = rotr 6 x XOR rotr 11 x XOR rotr 25 x"

definition choose_bits :: "u32 \<Rightarrow> u32 \<Rightarrow> u32 \<Rightarrow> u32" where
  "choose_bits x y z = (x AND y) XOR (NOT x AND z)"

definition majority :: "u32 \<Rightarrow> u32 \<Rightarrow> u32 \<Rightarrow> u32" where
  "majority x y z = (x AND y) XOR (x AND z) XOR (y AND z)"

text \<open>The message as bytes (in words), padded to a multiple of 64.\<close>

fun big_endian :: "nat \<Rightarrow> nat \<Rightarrow> u32 list" where
  "big_endian 0 n = []"
| "big_endian (Suc k) n = big_endian k (n div 256) @ [of_nat (n mod 256)]"

definition sha_pad :: "u32 list \<Rightarrow> u32 list" where
  "sha_pad m = m @ [128] @ replicate ((119 - length m mod 64) mod 64) 0 @ big_endian 8 (8 * length m)"

fun words_of :: "u32 list \<Rightarrow> u32 list" where
  "words_of (a # b # c # d # bs) =
     (push_bit 24 a OR push_bit 16 b OR push_bit 8 c OR d) # words_of bs"
| "words_of _ = []"

fun expand :: "nat \<Rightarrow> u32 list \<Rightarrow> u32 list" where
  "expand 0 ws = ws"
| "expand (Suc n) ws =
     (let k = length ws
      in expand n (ws @ [small_sigma1 (ws ! (k - 2)) + ws ! (k - 7) + small_sigma0 (ws ! (k - 15)) + ws ! (k - 16)]))"

fun sha_round :: "u32 \<times> u32 \<Rightarrow> u32 list \<Rightarrow> u32 list" where
  "sha_round (k, w) [a, b, c, d, e, f, g, h] =
     (let t1 = h + big_sigma1 e + choose_bits e f g + k + w;
          t2 = big_sigma0 a + majority a b c
      in [t1 + t2, a, b, c, d + t1, e, f, g])"
| "sha_round _ hs = hs"

definition sha_block :: "u32 list \<Rightarrow> u32 list \<Rightarrow> u32 list" where
  "sha_block ws hs = map2 (+) hs (fold sha_round (zip sha_k (expand 48 ws)) hs)"

function sha_blocks :: "u32 list \<Rightarrow> u32 list \<Rightarrow> u32 list" where
  "sha_blocks ws hs = (if ws = [] then hs else sha_blocks (drop 16 ws) (sha_block (take 16 ws) hs))"
  by pat_completeness auto
termination by (relation "measure (length \<circ> fst)") (auto simp: Suc_le_eq)

declare sha_blocks.simps [simp del]

fun hex_word :: "nat \<Rightarrow> u32 \<Rightarrow> string" where
  "hex_word 0 x = []"
| "hex_word (Suc k) x = hex_word k (drop_bit 4 x) @ [hex_digits ! (unat x mod 16)]"

definition sha256 :: "string \<Rightarrow> string" where
  "sha256 m = concat (map (\<lambda>w. hex_word 8 w) (sha_blocks (words_of (sha_pad (map of_char m))) sha_init))"

section \<open>The shape of a digest\<close>

lemma length_sha_round [simp]: "length (sha_round p hs) = length hs"
  by (induction p hs rule: sha_round.induct) (auto simp: Let_def)

lemma length_sha_rounds: "length (fold sha_round ps hs) = length hs"
  by (induction ps arbitrary: hs) auto

lemma length_sha_blocks: "length (sha_blocks ws hs) = length hs"
proof (induction ws hs rule: sha_blocks.induct)
  case (1 ws hs)
  then show ?case by (subst sha_blocks.simps) (simp add: sha_block_def length_sha_rounds)
qed

lemma length_hex_word [simp]: "length (hex_word k n) = k"
  by (induction k arbitrary: n) auto

lemma hex_word_digits: "set (hex_word k n) \<subseteq> set hex_digits"
proof (induction k arbitrary: n)
  case (Suc k)
  have "hex_digits ! (unat n mod 16) \<in> set hex_digits" by (rule nth_mem) (simp add: hex_digits_def)
  with Suc show ?case by simp
qed simp

lemma sha256_digest: "is_sha256 (sha256 m)"
proof -
  have "length (concat (map (\<lambda>w. hex_word 8 w) ws)) = 8 * length ws" for ws :: "u32 list"
    by (induction ws) auto
  moreover have "set (concat (map (\<lambda>w. hex_word 8 w) ws)) \<subseteq> set hex_digits" for ws :: "u32 list"
    using hex_word_digits by (induction ws) auto
  ultimately show ?thesis
    by (auto simp: is_sha256_def sha256_def length_sha_blocks sha_init_def)
qed


section \<open>CRC-32\<close>

text \<open>\<open>zlib.crc32(b)\<close>: the reflected polynomial, bit by bit.\<close>

definition crc_bit :: "u32 \<Rightarrow> u32" where
  "crc_bit x = (if x AND 1 = 1 then drop_bit 1 x XOR 0xEDB88320 else drop_bit 1 x)"

definition crc_byte :: "u32 \<Rightarrow> char \<Rightarrow> u32" where
  "crc_byte x c = (crc_bit ^^ 8) (x XOR of_nat (of_char c))"

definition crc32 :: "string \<Rightarrow> int" where
  "crc32 s = uint (NOT (foldl crc_byte (NOT 0) s))"

lemma crc32_range: "0 \<le> crc32 s \<and> crc32 s < 2 ^ 32"
  unfolding crc32_def by (intro conjI uint_ge_0) (rule order_less_le_trans [OF uint_lt2p], simp)

lemma length_sha256 [simp]: "length (sha256 m) = 64"
  using sha256_digest [of m] by (simp add: is_sha256_def)

end
