(* ===== verification/Json.thy ===== *)
theory Json
  imports Py_Value
begin

text \<open>
  \<open>json.loads\<close> and the canonical \<open>json.dumps(v, sort_keys=True, separators=(",", ":"),
  ensure_ascii=True)\<close>, through which every manifest and every chunk header is written and read. Text
  is a list of characters up to 255: the writer escapes everything outside printable ASCII, and the
  reader takes a raw byte above 127 or a \<open>\u\<close> escape above 255 for malformed. A number with a fraction or
  an exponent is kept as its text. The main result is the round trip: reading what was written gives
  the value back.
\<close>

datatype json =
    JNull
  | JBool bool
  | JInt int
  | JFloat string
  | JStr string
  | JList "json list"
  | JObj "(string \<times> json) list"

section \<open>Writing\<close>

definition digit_char :: "nat \<Rightarrow> char" where
  "digit_char n = hex_digits ! n"

function dec :: "nat \<Rightarrow> string" where
  "dec n = (if n < 10 then [digit_char n] else dec (n div 10) @ [digit_char (n mod 10)])"
  by pat_completeness auto
termination by (relation "measure id") auto

declare dec.simps [simp del]

definition enc_int :: "int \<Rightarrow> string" where
  "enc_int n = (if n < 0 then CHR ''-'' # dec (nat (- n)) else dec (nat n))"

definition escape :: "char \<Rightarrow> string" where
  "escape c =
     (let n = (of_char c :: nat) in
      if n = 34 then [CHR 0x5C, CHR 0x22]
      else if n = 92 then [CHR 0x5C, CHR 0x5C]
      else if n = 8 then [CHR 0x5C, CHR ''b'']
      else if n = 9 then [CHR 0x5C, CHR ''t'']
      else if n = 10 then [CHR 0x5C, CHR ''n'']
      else if n = 12 then [CHR 0x5C, CHR ''f'']
      else if n = 13 then [CHR 0x5C, CHR ''r'']
      else if 32 \<le> n \<and> n \<le> 126 then [c]
      else [CHR 0x5C, CHR ''u'', CHR ''0'', CHR ''0'', digit_char (n div 16), digit_char (n mod 16)])"

definition enc_str :: "string \<Rightarrow> string" where
  "enc_str s = CHR 0x22 # concat (map escape s) @ [CHR 0x22]"

fun commas :: "string list \<Rightarrow> string" where
  "commas [] = []"
| "commas [s] = s"
| "commas (s # ss) = s @ CHR '','' # commas ss"

fun enc :: "json \<Rightarrow> string"
  and enc_list :: "json list \<Rightarrow> string list"
  and enc_items :: "(string \<times> json) list \<Rightarrow> (string \<times> string) list" where
  "enc JNull = ''null''"
| "enc (JBool b) = (if b then ''true'' else ''false'')"
| "enc (JInt n) = enc_int n"
| "enc (JFloat s) = s"
| "enc (JStr s) = enc_str s"
| "enc (JList vs) = CHR ''['' # commas (enc_list vs) @ '']''"
| "enc (JObj d) =
     CHR ''{'' # commas (map (\<lambda>(k, s). enc_str k @ CHR '':'' # s) (sort_key fst (enc_items d))) @ ''}''"
| "enc_list [] = []"
| "enc_list (v # vs) = enc v # enc_list vs"
| "enc_items [] = []"
| "enc_items ((k, v) # d) = (k, enc v) # enc_items d"

definition canonical_json :: "json \<Rightarrow> string" where
  "canonical_json v = enc v"

section \<open>Reading\<close>

definition is_space :: "char \<Rightarrow> bool" where
  "is_space c \<longleftrightarrow> c \<in> {CHR '' '', CHR 0x09, CHR 0x0A, CHR 0x0D}"

definition skip :: "string \<Rightarrow> string" where
  "skip s = dropWhile is_space s"

definition is_digit :: "char \<Rightarrow> bool" where
  "is_digit c \<longleftrightarrow> 48 \<le> (of_char c :: nat) \<and> (of_char c :: nat) \<le> 57"

definition digit_value :: "char \<Rightarrow> nat" where
  "digit_value c = of_char c - 48"

definition number_of :: "string \<Rightarrow> nat" where
  "number_of s = foldl (\<lambda>a c. 10 * a + digit_value c) 0 s"

text \<open>\<open>-?(0|[1-9][0-9]*)\<close>, then a fraction and an exponent, each with at least one digit.\<close>

definition int_part :: "string \<Rightarrow> (string \<times> string) option" where
  "int_part s =
     (case s of
        [] \<Rightarrow> None
      | c # r \<Rightarrow>
          if c = CHR ''0'' then Some ([c], r)
          else if is_digit c then Some (c # takeWhile is_digit r, dropWhile is_digit r)
          else None)"

definition frac_part :: "string \<Rightarrow> string \<times> string" where
  "frac_part s =
     (case s of
        c # d # r \<Rightarrow>
          if c = CHR ''.'' \<and> is_digit d
          then (c # d # takeWhile is_digit r, dropWhile is_digit r) else ([], s)
      | _ \<Rightarrow> ([], s))"

definition exp_part :: "string \<Rightarrow> string \<times> string" where
  "exp_part s =
     (case s of
        c # r \<Rightarrow>
          if c = CHR ''e'' \<or> c = CHR ''E'' then
            (let sign = (case r of x # _ \<Rightarrow> if x = CHR ''+'' \<or> x = CHR ''-'' then [x] else [] | [] \<Rightarrow> []);
                 ds = drop (length sign) r
             in if ds \<noteq> [] \<and> is_digit (hd ds)
                then (c # sign @ takeWhile is_digit ds, dropWhile is_digit ds) else ([], s))
          else ([], s)
      | [] \<Rightarrow> ([], s))"

definition parse_num :: "string \<Rightarrow> (json \<times> string) option" where
  "parse_num s =
     (let neg = (s \<noteq> [] \<and> hd s = CHR ''-''); body = (if neg then tl s else s)
      in case int_part body of
           None \<Rightarrow> None
         | Some (ds, r) \<Rightarrow>
             (let (f, r1) = frac_part r; (e, r2) = exp_part r1
              in if f = [] \<and> e = []
                 then Some (JInt (if neg then - int (number_of ds) else int (number_of ds)), r2)
                 else Some (JFloat ((if neg then ''-'' else []) @ ds @ f @ e), r2)))"

definition hex_value :: "char \<Rightarrow> nat option" where
  "hex_value c =
     (let n = (of_char c :: nat) in
      if is_digit c then Some (n - 48)
      else if 97 \<le> n \<and> n \<le> 102 then Some (n - 87)
      else if 65 \<le> n \<and> n \<le> 70 then Some (n - 55)
      else None)"

definition unicode_escape :: "char \<Rightarrow> char \<Rightarrow> char \<Rightarrow> char \<Rightarrow> char option" where
  "unicode_escape a b c d =
     (case (hex_value a, hex_value b, hex_value c, hex_value d) of
        (Some w, Some x, Some y, Some z) \<Rightarrow>
          if w = 0 \<and> x = 0 then Some (char_of (16 * y + z)) else None
      | _ \<Rightarrow> None)"

definition simple_escape :: "char \<Rightarrow> char option" where
  "simple_escape c =
     (if c = CHR 0x22 then Some c
      else if c = CHR 0x5C then Some c
      else if c = CHR ''/'' then Some c
      else if c = CHR ''b'' then Some (CHR 0x08)
      else if c = CHR ''f'' then Some (CHR 0x0C)
      else if c = CHR ''n'' then Some (CHR 0x0A)
      else if c = CHR ''r'' then Some (CHR 0x0D)
      else if c = CHR ''t'' then Some (CHR 0x09)
      else None)"

abbreviation cons_text :: "char \<Rightarrow> (string \<times> string) option \<Rightarrow> (string \<times> string) option" where
  "cons_text c \<equiv> map_option (\<lambda>(t, r). (c # t, r))"

fun parse_str :: "string \<Rightarrow> (string \<times> string) option" where
  "parse_str [] = None"
| "parse_str (c # r) =
     (if c = CHR 0x22 then Some ([], r)
      else if c = CHR 0x5C then
        (case r of
           [] \<Rightarrow> None
         | x # r1 \<Rightarrow>
             if x = CHR ''u'' then
               (case r1 of
                  h1 # h2 # h3 # h4 # r2 \<Rightarrow>
                    (case unicode_escape h1 h2 h3 h4 of
                       None \<Rightarrow> None | Some u \<Rightarrow> cons_text u (parse_str r2))
                | _ \<Rightarrow> None)
             else (case simple_escape x of None \<Rightarrow> None | Some u \<Rightarrow> cons_text u (parse_str r1)))
      else if 32 \<le> (of_char c :: nat) \<and> (of_char c :: nat) \<le> 127 then cons_text c (parse_str r)
      else None)"

text \<open>A dictionary from its pairs: a repeated key keeps its first place and its last value.\<close>

definition object_of :: "(string \<times> json) list \<Rightarrow> (string \<times> json) list" where
  "object_of ps = fold (\<lambda>(k, v). dput k v) ps []"

definition literal :: "string \<Rightarrow> json \<Rightarrow> string \<Rightarrow> (json \<times> string) option" where
  "literal w v s = (if take (length w) s = w then Some (v, drop (length w) s) else None)"

text \<open>Recursive descent; the fuel bounds the nesting and the length of the input is enough.\<close>

fun parse_value :: "nat \<Rightarrow> string \<Rightarrow> (json \<times> string) option"
  and parse_elements :: "nat \<Rightarrow> string \<Rightarrow> (json list \<times> string) option"
  and parse_members :: "nat \<Rightarrow> string \<Rightarrow> ((string \<times> json) list \<times> string) option" where
  "parse_value 0 s = None"
| "parse_value (Suc n) s =
     (case skip s of
        [] \<Rightarrow> None
      | c # r \<Rightarrow>
          if c = CHR 0x22 then map_option (\<lambda>(t, r'). (JStr t, r')) (parse_str r)
          else if c = CHR ''['' then
            (if skip r \<noteq> [] \<and> hd (skip r) = CHR '']'' then Some (JList [], tl (skip r))
             else map_option (\<lambda>(vs, r'). (JList vs, r')) (parse_elements n r))
          else if c = CHR ''{'' then
            (if skip r \<noteq> [] \<and> hd (skip r) = CHR ''}'' then Some (JObj [], tl (skip r))
             else map_option (\<lambda>(d, r'). (JObj (object_of d), r')) (parse_members n r))
          else if c = CHR ''n'' then literal ''null'' JNull (c # r)
          else if c = CHR ''t'' then literal ''true'' (JBool True) (c # r)
          else if c = CHR ''f'' then literal ''false'' (JBool False) (c # r)
          else if c = CHR ''N'' then literal ''NaN'' (JFloat ''NaN'') (c # r)
          else if c = CHR ''I'' then literal ''Infinity'' (JFloat ''Infinity'') (c # r)
          else if take 9 (c # r) = ''-Infinity'' then Some (JFloat ''-Infinity'', drop 9 (c # r))
          else parse_num (c # r))"
| "parse_elements 0 s = None"
| "parse_elements (Suc n) s =
     (case parse_value n s of
        None \<Rightarrow> None
      | Some (v, r) \<Rightarrow>
          (case skip r of
             [] \<Rightarrow> None
           | c # r' \<Rightarrow>
               if c = CHR '']'' then Some ([v], r')
               else if c = CHR '','' then map_option (\<lambda>(vs, r''). (v # vs, r'')) (parse_elements n r')
               else None))"
| "parse_members 0 s = None"
| "parse_members (Suc n) s =
     (if skip s = [] \<or> hd (skip s) \<noteq> CHR 0x22 then None
      else (case parse_str (tl (skip s)) of
              None \<Rightarrow> None
            | Some (k, r) \<Rightarrow>
                if skip r = [] \<or> hd (skip r) \<noteq> CHR '':'' then None
                else (case parse_value n (tl (skip r)) of
                        None \<Rightarrow> None
                      | Some (v, r1) \<Rightarrow>
                          (case skip r1 of
                             [] \<Rightarrow> None
                           | c # r2 \<Rightarrow>
                               if c = CHR ''}'' then Some ([(k, v)], r2)
                               else if c = CHR '','' then
                                 map_option (\<lambda>(d, r3). ((k, v) # d, r3)) (parse_members n r2)
                               else None))))"

definition json_loads :: "string \<Rightarrow> json option" where
  "json_loads s =
     (case parse_value (length s + 1) s of
        None \<Rightarrow> None
      | Some (v, r) \<Rightarrow> if skip r = [] then Some v else None)"

section \<open>Reading back numbers and strings\<close>

lemma char_eq_nat: "c = d \<longleftrightarrow> (of_char c :: nat) = of_char d"
  by (metis char_of_char)

lemma of_char_less: "(of_char c :: nat) < 256"
  by simp

lemma digit_char_digit: "n < 10 \<Longrightarrow> is_digit (digit_char n) \<and> digit_value (digit_char n) = n"
  by (auto simp: less_Suc_eq numeral_eq_Suc is_digit_def digit_value_def digit_char_def hex_digits_def)

lemma dec_nonempty [simp]: "dec n \<noteq> []"
  by (subst dec.simps) simp

lemma dec_digits: "\<forall>c\<in>set (dec n). is_digit c"
proof (induction n rule: dec.induct)
  case (1 n)
  then show ?case by (subst dec.simps) (auto simp: digit_char_digit)
qed

lemma number_of_append: "number_of (s @ [c]) = 10 * number_of s + digit_value c"
  by (simp add: number_of_def)

lemma number_of_dec [simp]: "number_of (dec n) = n"
proof (induction n rule: dec.induct)
  case (1 n)
  show ?case
  proof (cases "n < 10")
    case True
    then show ?thesis by (subst dec.simps) (simp add: number_of_def digit_char_digit)
  next
    case False
    then show ?thesis using 1
      by (subst dec.simps) (simp add: number_of_append digit_char_digit)
  qed
qed

lemma dec_head: "0 < n \<Longrightarrow> hd (dec n) \<noteq> CHR ''0''"
proof (induction n rule: dec.induct)
  case (1 n)
  show ?case
  proof (cases "n < 10")
    case True
    with "1.prems" have "n \<in> {1..9}" by simp
    then have "digit_char n \<noteq> CHR ''0''"
      by (auto simp: digit_char_def hex_digits_def atLeastAtMost_def numeral_eq_Suc le_Suc_eq Suc_le_eq less_Suc_eq)
    with True show ?thesis by (subst dec.simps) simp
  next
    case False
    then have "0 < n div 10" by simp
    then show ?thesis using 1 False by (subst dec.simps) simp
  qed
qed

definition ends :: "string \<Rightarrow> bool" where
  "ends r \<longleftrightarrow> r = [] \<or> hd r \<in> {CHR '','', CHR '']'', CHR ''}''}"

lemma ends_facts:
  assumes "ends r"
  shows "takeWhile is_digit r = []" "dropWhile is_digit r = r" "frac_part r = ([], r)" "exp_part r = ([], r)"
  using assms by (cases r; auto simp: ends_def is_digit_def frac_part_def exp_part_def split: list.split)+

lemma int_part_dec:
  assumes "ends r" shows "int_part (dec n @ r) = Some (dec n, r)"
proof -
  obtain c s where d: "dec n = c # s" by (cases "dec n") simp_all
  have ds: "is_digit c" "\<forall>x\<in>set s. is_digit x" using dec_digits [of n] d by auto
  show ?thesis
  proof (cases "n = 0")
    case True
    then have "dec n = [CHR ''0'']" by (subst dec.simps) (simp add: digit_char_def hex_digits_def)
    then show ?thesis by (simp add: int_part_def)
  next
    case False
    then have "c \<noteq> CHR ''0''" using dec_head [of n] d by simp
    moreover have "takeWhile is_digit (s @ r) = s" "dropWhile is_digit (s @ r) = r"
      using ds(2) ends_facts [OF assms] by (simp_all add: takeWhile_append2 dropWhile_append2)
    ultimately show ?thesis using d ds(1) by (simp add: int_part_def)
  qed
qed

lemma parse_num_enc:
  assumes "ends r" shows "parse_num (enc_int n @ r) = Some (JInt n, r)"
proof -
  have h: "hd (dec k @ r) \<noteq> CHR ''-''" for k
    using dec_digits [of k] by (cases "dec k") (auto simp: is_digit_def)
  show ?thesis
    using h [of "nat n"]
    by (simp add: parse_num_def enc_int_def int_part_dec [OF assms] ends_facts [OF assms] Let_def)
qed

lemma hex_value_digit_char: "n < 16 \<Longrightarrow> hex_value (digit_char n) = Some n"
  by (auto simp: less_Suc_eq numeral_eq_Suc hex_value_def is_digit_def digit_char_def hex_digits_def)

lemma parse_str_escape: "parse_str (escape c @ r) = cons_text c (parse_str r)"
proof -
  define n where "n = (of_char c :: nat)"
  have n: "n < 256" and c: "c = char_of n" by (simp_all add: n_def)
  have hex: "unicode_escape (CHR ''0'') (CHR ''0'') (digit_char (n div 16)) (digit_char (n mod 16)) = Some c"
  proof -
    have "n div 16 < 16" "n mod 16 < 16" using n by simp_all
    moreover have "hex_value (CHR ''0'') = Some 0" by (simp add: hex_value_def is_digit_def)
    ultimately show ?thesis by (simp add: unicode_escape_def hex_value_digit_char c)
  qed
  have special: "n = 34 \<Longrightarrow> c = CHR 0x22" "n = 92 \<Longrightarrow> c = CHR 0x5C" "n = 8 \<Longrightarrow> c = CHR 0x08"
    "n = 9 \<Longrightarrow> c = CHR 0x09" "n = 10 \<Longrightarrow> c = CHR 0x0A" "n = 12 \<Longrightarrow> c = CHR 0x0C"
    "n = 13 \<Longrightarrow> c = CHR 0x0D"
    by (simp_all add: char_eq_nat n_def)
  consider "n = 34" | "n = 92" | "n = 8" | "n = 9" | "n = 10" | "n = 12" | "n = 13"
    | (plain) "n \<notin> {34, 92, 8, 9, 10, 12, 13}" "32 \<le> n" "n \<le> 126"
    | (uni) "n \<notin> {34, 92, 8, 9, 10, 12, 13}" "\<not> (32 \<le> n \<and> n \<le> 126)"
    by blast
  then show ?thesis
  proof cases
    case plain
    then have "escape c = [c]" by (simp add: escape_def Let_def n_def)
    moreover have "c \<noteq> CHR 0x22" "c \<noteq> CHR 0x5C" using plain(1) by (auto simp: n_def)
    ultimately show ?thesis using plain by (simp add: n_def)
  next
    case uni
    then have "escape c = [CHR 0x5C, CHR ''u'', CHR ''0'', CHR ''0'', digit_char (n div 16), digit_char (n mod 16)]"
      by (auto simp: escape_def Let_def n_def)
    then show ?thesis by (simp add: hex)
  qed (use special in \<open>simp_all add: escape_def simple_escape_def\<close>)
qed

lemma parse_str_enc: "parse_str (concat (map escape s) @ CHR 0x22 # r) = Some (s, r)"
  by (induction s) (simp_all add: parse_str_escape)

section \<open>The round trip\<close>

text \<open>The values the writer writes and the reader gives back as they are: no opaque numbers, and
  objects with distinct keys in order (a dictionary's order does not matter to Python).\<close>

fun plain_json :: "json \<Rightarrow> bool"
  and plain_list :: "json list \<Rightarrow> bool"
  and plain_items :: "(string \<times> json) list \<Rightarrow> bool" where
  "plain_json JNull = True"
| "plain_json (JBool b) = True"
| "plain_json (JInt n) = True"
| "plain_json (JFloat s) = False"
| "plain_json (JStr s) = True"
| "plain_json (JList vs) = plain_list vs"
| "plain_json (JObj d) = (sorted (dkeys d) \<and> distinct (dkeys d) \<and> plain_items d)"
| "plain_list [] = True"
| "plain_list (v # vs) = (plain_json v \<and> plain_list vs)"
| "plain_items [] = True"
| "plain_items ((k, v) # d) = (plain_json v \<and> plain_items d)"

lemma keys_enc_items [simp]: "map fst (enc_items d) = dkeys d"
  by (induction d) auto

lemma sort_enc_items: "sorted (dkeys d) \<Longrightarrow> sort_key fst (enc_items d) = enc_items d"
  by (rule sort_key_id_if_sorted) simp

definition starts :: "string \<Rightarrow> bool" where
  "starts s \<longleftrightarrow> s \<noteq> [] \<and> \<not> is_space (hd s) \<and> hd s \<noteq> CHR '']'' \<and> hd s \<noteq> CHR ''}''"

lemma skip_starts: "starts s \<Longrightarrow> skip (s @ r) = s @ r"
  by (cases s) (auto simp: starts_def skip_def)

lemma skip_ends: "ends r \<Longrightarrow> skip r = r"
  by (cases r) (auto simp: ends_def skip_def is_space_def)

lemma starts_dec: "starts (dec n @ r)"
  using dec_digits [of n] by (cases "dec n") (auto simp: starts_def is_digit_def is_space_def)

lemma starts_enc_int: "starts (enc_int n)"
  using starts_dec [of _ "[]"] by (simp add: enc_int_def) (simp add: starts_def is_space_def)

lemma starts_enc: "plain_json v \<Longrightarrow> starts (enc v)"
  by (cases v) (auto simp: starts_enc_int, auto simp: starts_def is_space_def enc_str_def)

lemma object_of_distinct:
  assumes "distinct (dkeys d)" shows "object_of d = d"
proof -
  have "distinct (dkeys e @ dkeys d) \<Longrightarrow> fold (\<lambda>(k, v). dput k v) d e = e @ d" for e
  proof (induction d arbitrary: e)
    case (Cons p d)
    obtain k v where p: "p = (k, v)" by (cases p)
    have "dget e k = None" using Cons.prems p by (auto simp: dget_None)
    then show ?case using Cons.IH [of "e @ [(k, v)]"] Cons.prems p by (simp add: dput_fresh)
  qed simp
  from this [of "[]"] assms show ?thesis by (simp add: object_of_def)
qed

lemma int_head: "CHR 0x22 \<noteq> hd (enc_int n)" "CHR ''['' \<noteq> hd (enc_int n)" "CHR ''{'' \<noteq> hd (enc_int n)"
  "CHR ''n'' \<noteq> hd (enc_int n)" "CHR ''t'' \<noteq> hd (enc_int n)" "CHR ''f'' \<noteq> hd (enc_int n)"
  "CHR ''N'' \<noteq> hd (enc_int n)" "CHR ''I'' \<noteq> hd (enc_int n)"
  using dec_digits [of "nat n"] by (cases "dec (nat n)"; auto simp: enc_int_def is_digit_def)+

lemma not_minus_infinity: "take 9 (enc_int n @ r) \<noteq> ''-Infinity''"
proof
  assume "take 9 (enc_int n @ r) = ''-Infinity''"
  then have "hd (dec (nat (- n))) = CHR ''I'' \<and> n < 0"
    using dec_digits [of "nat n"] 
    by (cases "dec (nat n)"; cases "dec (nat (- n))")
       (auto simp: enc_int_def is_digit_def take_Cons' split: if_splits)
  then show False using dec_digits [of "nat (- n)"] by (cases "dec (nat (- n))") (auto simp: is_digit_def)
qed

lemma parse_value_int:
  assumes "ends r" shows "parse_value (Suc f) (enc_int n @ r) = Some (JInt n, r)"
proof -
  obtain c s where e: "enc_int n = c # s"
    using starts_enc_int [of n] by (cases "enc_int n") (auto simp: starts_def)
  have "skip (enc_int n @ r) = c # (s @ r)" using skip_starts [OF starts_enc_int [of n], of r] by (simp add: e)
  then show ?thesis
    using int_head [of n] not_minus_infinity [of n r] parse_num_enc [OF assms, of n] e by simp
qed

lemma commas_Cons: "commas (s # ss) = (if ss = [] then s else s @ CHR '','' # commas ss)"
  by (cases ss) auto

lemma enc_list_Nil [simp]: "enc_list vs = [] \<longleftrightarrow> vs = []"
  by (cases vs) auto

lemma enc_items_Nil [simp]: "enc_items d = [] \<longleftrightarrow> d = []"
  by (cases d) auto

lemma starts_commas: "starts s \<Longrightarrow> starts (commas (s # ss))"
  by (cases ss; cases s) (auto simp: starts_def)

abbreviation item_texts :: "(string \<times> json) list \<Rightarrow> string list" where
  "item_texts d \<equiv> map (\<lambda>(k, s). enc_str k @ CHR '':'' # s) (enc_items d)"

lemma skip_hd: "c \<notin> {CHR '' '', CHR 0x09, CHR 0x0A, CHR 0x0D} \<Longrightarrow> skip (c # s) = c # s"
  by (simp add: skip_def is_space_def)

lemma parse_str_key: "parse_str (concat (map escape k) @ CHR 0x22 # CHR '':'' # r) = Some (k, CHR '':'' # r)"
  by (rule parse_str_enc)

lemma round_trip:
  "plain_json v \<Longrightarrow> length (enc v) \<le> f \<Longrightarrow> ends r \<Longrightarrow> parse_value (Suc f) (enc v @ r) = Some (v, r)"
  "plain_list vs \<Longrightarrow> vs \<noteq> [] \<Longrightarrow> length (commas (enc_list vs)) + 1 \<le> f \<Longrightarrow>
    parse_elements (Suc f) (commas (enc_list vs) @ CHR '']'' # r) = Some (vs, r)"
  "plain_items d \<Longrightarrow> d \<noteq> [] \<Longrightarrow> length (commas (item_texts d)) + 1 \<le> f \<Longrightarrow>
    parse_members (Suc f) (commas (item_texts d) @ CHR ''}'' # r) = Some (d, r)"
proof (induction v and vs and d arbitrary: f r and f r and f r rule: enc_enc_list_enc_items.induct)
  case (3 n)
  then show ?case by (simp del: parse_value.simps add: parse_value_int)
next
  case (5 s)
  then show ?case by (simp add: enc_str_def skip_hd parse_str_enc)
next
  case (6 vs)
  show ?case
  proof (cases vs)
    case Nil
    then show ?thesis by (simp add: skip_hd)
  next
    case (Cons v vs')
    obtain f' where f: "f = Suc f'" "length (commas (enc_list vs)) + 1 \<le> f'"
      using "6.prems"(2) by (cases f) auto
    have st: "starts (commas (enc_list vs))"
      using starts_commas [OF starts_enc] "6.prems"(1) Cons by simp
    then have "skip (commas (enc_list vs) @ CHR '']'' # r) = commas (enc_list vs) @ CHR '']'' # r"
      by (rule skip_starts)
    moreover have "hd (commas (enc_list vs) @ CHR '']'' # r) \<noteq> CHR '']''"
      using st by (simp add: starts_def)
    ultimately show ?thesis
      using "6.IH" [of f' r] "6.prems"(1) Cons f
      by (simp add: skip_hd del: enc_list.simps)
  qed
next
  case (7 d)
  have srt: "sort_key fst (enc_items d) = enc_items d" using "7.prems"(1) by (simp add: sort_enc_items)
  show ?case
  proof (cases d)
    case Nil
    then show ?thesis by (simp add: skip_hd)
  next
    case (Cons p d')
    then have ne: "d \<noteq> []" by simp
    obtain k v where p: "p = (k, v)" by (cases p)
    obtain f' where f: "f = Suc f'" "length (commas (item_texts d)) + 1 \<le> f'"
      using "7.prems"(2) srt by (cases f) auto
    have st: "starts (commas (item_texts d))"
      unfolding Cons p by (simp add: commas_Cons) (auto simp: starts_def enc_str_def is_space_def)
    then have "skip (commas (item_texts d) @ CHR ''}'' # r) = commas (item_texts d) @ CHR ''}'' # r"
      by (rule skip_starts)
    moreover have "hd (commas (item_texts d) @ CHR ''}'' # r) \<noteq> CHR ''}''"
      using st by (simp add: starts_def)
    ultimately show ?thesis
      using "7.IH" [of f' r] "7.prems"(1) ne f object_of_distinct [of d]
      by (simp add: skip_hd srt del: enc_items.simps parse_members.simps)
  qed
next
  case (9 v vs)
  obtain f' where f: "f = Suc f'" "length (enc v) \<le> f'"
    using "9.prems"(3) by (cases f) (auto simp: commas_Cons split: if_splits)
  show ?case
  proof (cases vs)
    case Nil
    then show ?thesis using "9.IH"(1) [of f' "CHR '']'' # r"] "9.prems" f
      by (simp add: ends_def skip_hd)
  next
    case (Cons v' vs')
    have "length (commas (enc_list vs)) + 1 \<le> f'" using "9.prems"(3) f Cons by (simp add: commas_Cons)
    then show ?thesis
      using "9.IH"(1) [of f' "CHR '','' # commas (enc_list vs) @ CHR '']'' # r"] "9.IH"(2) [of f' r] "9.prems" f Cons
      by (simp add: commas_Cons ends_def skip_hd del: parse_value.simps parse_elements.simps enc_list.simps)
         (simp add: commas_Cons ends_def skip_hd del: parse_value.simps)
  qed
next
  case (11 k v d)
  let ?t = "enc_str k @ CHR '':'' # enc v"
  obtain f' where f: "f = Suc f'" "length (enc v) \<le> f'"
    using "11.prems"(3) by (cases f) (auto simp: commas_Cons split: if_splits)
  show ?case
  proof (cases d)
    case Nil
    then show ?thesis using "11.IH"(1) [of f' "CHR ''}'' # r"] "11.prems" f
      by (simp add: enc_str_def skip_hd parse_str_key ends_def)
  next
    case (Cons p d')
    define rest where "rest = commas (item_texts d) @ CHR ''}'' # r"
    have "d \<noteq> []" "length (commas (item_texts d)) + 1 \<le> f'"
      using "11.prems"(3) f Cons by (simp_all add: commas_Cons)
    then have pm: "parse_members (Suc f') rest = Some (d, r)"
      using "11.IH"(2) [of f' r] "11.prems"(1) by (simp add: rest_def del: parse_members.simps)
    have pv: "parse_value (Suc f') (enc v @ CHR '','' # rest) = Some (v, CHR '','' # rest)"
      using "11.IH"(1) [of f'] "11.prems"(1) f by (simp add: ends_def del: parse_value.simps)
    have "commas (item_texts ((k, v) # d)) @ CHR ''}'' # r
        = CHR 0x22 # concat (map escape k) @ CHR 0x22 # CHR '':'' # enc v @ CHR '','' # rest"
      using \<open>d \<noteq> []\<close> by (simp add: commas_Cons enc_str_def rest_def)
    then show ?thesis
      using pm pv by (simp add: skip_hd parse_str_key f(1) del: parse_value.simps
        parse_members.simps(2) enc_items.simps add: parse_members.simps(2) [of "Suc f'"])
  qed
qed (simp_all add: skip_hd literal_def)


lemma json_loads_enc:
  assumes "plain_json v" shows "json_loads (canonical_json v) = Some v"
proof -
  have "parse_value (Suc (length (enc v))) (enc v @ []) = Some (v, [])"
    by (rule round_trip(1) [OF assms order_refl]) (simp add: ends_def)
  then have eq: "parse_value (length (enc v) + 1) (enc v) = Some (v, [])" by (simp only: Suc_eq_plus1 append_Nil2)
  show ?thesis
    unfolding json_loads_def canonical_json_def eq option.case prod.case
    by (simp only: skip_def dropWhile.simps if_True refl)
qed

lemma canonical_json_eq_iff:
  assumes "plain_json v" "plain_json w" shows "canonical_json v = canonical_json w \<longleftrightarrow> v = w"
  by (metis json_loads_enc [OF assms(1)] json_loads_enc [OF assms(2)] option.inject)


section \<open>Objects in any order\<close>

text \<open>What reading back gives for an object whose keys were not in order: the same object, sorted.\<close>

fun sorted_json :: "json \<Rightarrow> json"
  and sorted_list :: "json list \<Rightarrow> json list"
  and sorted_items :: "(string \<times> json) list \<Rightarrow> (string \<times> json) list" where
  "sorted_json JNull = JNull"
| "sorted_json (JBool b) = JBool b"
| "sorted_json (JInt n) = JInt n"
| "sorted_json (JFloat s) = JFloat s"
| "sorted_json (JStr s) = JStr s"
| "sorted_json (JList vs) = JList (sorted_list vs)"
| "sorted_json (JObj d) = JObj (sort_key fst (sorted_items d))"
| "sorted_list [] = []"
| "sorted_list (v # vs) = sorted_json v # sorted_list vs"
| "sorted_items [] = []"
| "sorted_items ((k, v) # d) = (k, sorted_json v) # sorted_items d"

text \<open>The values \<open>json.dumps\<close> is given: no floats, dictionaries with distinct keys.\<close>

fun writable :: "json \<Rightarrow> bool"
  and writable_list :: "json list \<Rightarrow> bool"
  and writable_items :: "(string \<times> json) list \<Rightarrow> bool" where
  "writable JNull = True"
| "writable (JBool b) = True"
| "writable (JInt n) = True"
| "writable (JFloat s) = False"
| "writable (JStr s) = True"
| "writable (JList vs) = writable_list vs"
| "writable (JObj d) = (distinct (dkeys d) \<and> writable_items d)"
| "writable_list [] = True"
| "writable_list (v # vs) = (writable v \<and> writable_list vs)"
| "writable_items [] = True"
| "writable_items ((k, v) # d) = (writable v \<and> writable_items d)"

lemma keys_sorted_items [simp]: "dkeys (sorted_items d) = dkeys d"
  by (induction d) auto

lemma writable_items_iff: "writable_items d \<longleftrightarrow> (\<forall>(k, v)\<in>set d. writable v)"
  by (induction d) auto

lemma writable_list_iff: "writable_list vs \<longleftrightarrow> (\<forall>v\<in>set vs. writable v)"
  by (induction vs) auto

lemma plain_items_iff: "plain_items d \<longleftrightarrow> (\<forall>(k, v)\<in>set d. plain_json v)"
  by (induction d) auto

lemma sorted_list_map: "sorted_list vs = map sorted_json vs"
  by (induction vs) auto

lemma sorted_items_map: "sorted_items d = map (\<lambda>(k, v). (k, sorted_json v)) d"
  by (induction d) auto

lemma enc_items_map: "enc_items d = map (\<lambda>(k, v). (k, enc v)) d"
  by (induction d) auto

lemma sort_key_map_keys:
  "(\<And>p. fst (f p) = fst p) \<Longrightarrow> sort_key fst (map f d) = map f (sort_key fst d)"
proof (induction d)
  case (Cons p d)
  have "insort_key fst (f p) (map f e) = map f (insort_key fst p e)" for e
    by (induction e) (auto simp: Cons.prems)
  then show ?case using Cons by simp
qed simp

lemma enc_items_sort: "sort_key fst (enc_items (sort_key fst d)) = sort_key fst (enc_items d)"
proof -
  have "sort_key fst (enc_items e) = enc_items (sort_key fst e)" for e :: "(string \<times> json) list"
    unfolding enc_items_map by (rule sort_key_map_keys) (simp add: case_prod_beta)
  then show ?thesis by (simp add: sort_key_id_if_sorted)
qed

lemma enc_sorted:
  "enc (sorted_json v) = enc v"
  "enc_list (sorted_list vs) = enc_list vs"
  "enc_items (sorted_items d) = enc_items d"
  by (induction v and vs and d rule: sorted_json_sorted_list_sorted_items.induct)
     (simp_all add: enc_items_sort)

lemma plain_sorted:
  "writable v \<Longrightarrow> plain_json (sorted_json v)"
  "writable_list vs \<Longrightarrow> plain_list (sorted_list vs)"
  "writable_items d \<Longrightarrow> plain_items (sorted_items d)"
proof (induction v and vs and d rule: sorted_json_sorted_list_sorted_items.induct)
  case (7 d)
  have "distinct (dkeys (sorted_items d))" using "7.prems" by simp
  then have "distinct (dkeys (sort_key fst (sorted_items d)))"
    by (simp only: distinct_map distinct_sort set_sort)
  then show ?case using 7 by (simp add: plain_items_iff)
qed simp_all

lemma json_loads_canonical: "writable v \<Longrightarrow> json_loads (canonical_json v) = Some (sorted_json v)"
  using json_loads_enc [OF plain_sorted(1), of v] by (simp add: canonical_json_def enc_sorted)

end
