(* ===== verification/Json_Values.thy ===== *)
theory Json_Values
  imports Json
begin

text \<open>
  What Python's operators do on values read from JSON: the exact-integer test, truth, \<open>==\<close>, which
  equates \<open>True\<close>, \<open>1\<close> and \<open>1.0\<close> and ignores the order of dictionary entries, \<open>int()\<close>, and the
  dictionary access of the validators. A float is compared by the exact value of its decimal text.
\<close>

type_synonym jdict = "(string \<times> json) list"

text \<open>\<open>d[k]\<close> once the keys of \<open>d\<close> have been checked, and \<open>d.get(k)\<close>: an absent key reads as \<open>None\<close>.\<close>

definition jget :: "jdict \<Rightarrow> string \<Rightarrow> json" where
  "jget d k = (case map_of d k of None \<Rightarrow> JNull | Some v \<Rightarrow> v)"

text \<open>\<open>type(v) is int\<close>, with the integer; a Boolean is not accepted. \<open>isinstance\<close> tests likewise.\<close>

fun the_int :: "json \<Rightarrow> int option" where
  "the_int (JInt n) = Some n"
| "the_int _ = None"

fun the_str :: "json \<Rightarrow> string option" where
  "the_str (JStr s) = Some s"
| "the_str _ = None"

fun the_list :: "json \<Rightarrow> json list option" where
  "the_list (JList vs) = Some vs"
| "the_list _ = None"

fun the_obj :: "json \<Rightarrow> jdict option" where
  "the_obj (JObj d) = Some d"
| "the_obj _ = None"

lemma the_Some [simp]:
  "the_int v = Some n \<longleftrightarrow> v = JInt n" "the_str v = Some s \<longleftrightarrow> v = JStr s"
  "the_list v = Some vs \<longleftrightarrow> v = JList vs" "the_obj v = Some d \<longleftrightarrow> v = JObj d"
  by (cases v; simp)+

section \<open>Numbers\<close>

text \<open>A finite number as mantissa and power of ten; the text of a float has the form the reader keeps.\<close>

definition signed :: "string \<Rightarrow> int" where
  "signed s = (if s \<noteq> [] \<and> hd s = CHR ''-'' then - int (number_of (tl s))
     else if s \<noteq> [] \<and> hd s = CHR ''+'' then int (number_of (tl s)) else int (number_of s))"

definition float_parts :: "string \<Rightarrow> int \<times> int" where
  "float_parts s =
     (let neg = (s \<noteq> [] \<and> hd s = CHR ''-'');
          body = (if neg then tl s else s);
          mant = takeWhile (\<lambda>c. c \<noteq> CHR ''e'' \<and> c \<noteq> CHR ''E'') body;
          ex = drop (length mant + 1) body;
          whole = takeWhile is_digit mant;
          frac = drop (length whole + 1) mant;
          m = int (number_of (whole @ frac))
      in (if neg then - m else m, signed ex - int (length frac)))"

definition is_finite_float :: "string \<Rightarrow> bool" where
  "is_finite_float s \<longleftrightarrow> s \<notin> {''NaN'', ''Infinity'', ''-Infinity''}"

fun decimal_of :: "json \<Rightarrow> (int \<times> int) option" where
  "decimal_of (JBool b) = Some (if b then 1 else 0, 0)"
| "decimal_of (JInt n) = Some (n, 0)"
| "decimal_of (JFloat s) = (if is_finite_float s then Some (float_parts s) else None)"
| "decimal_of _ = None"

definition same_decimal :: "int \<times> int \<Rightarrow> int \<times> int \<Rightarrow> bool" where
  "same_decimal x y =
     (let (m, e) = x; (n, f) = y; g = min e f
      in m * 10 ^ nat (e - g) = n * 10 ^ nat (f - g))"

section \<open>Equality, truth and conversion\<close>

fun py_eq :: "json \<Rightarrow> json \<Rightarrow> bool"
  and py_eq_list :: "json list \<Rightarrow> json list \<Rightarrow> bool"
  and py_eq_items :: "jdict \<Rightarrow> jdict \<Rightarrow> bool" where
  "py_eq (JStr s) w = (w = JStr s)"
| "py_eq JNull w = (w = JNull)"
| "py_eq (JList vs) w = (case the_list w of None \<Rightarrow> False | Some ws \<Rightarrow> py_eq_list vs ws)"
| "py_eq (JObj d) w =
     (case the_obj w of None \<Rightarrow> False | Some e \<Rightarrow> length d = length e \<and> py_eq_items d e)"
| "py_eq (JBool b) w = (case decimal_of w of None \<Rightarrow> False | Some y \<Rightarrow> same_decimal (if b then 1 else 0, 0) y)"
| "py_eq (JInt n) w = (case decimal_of w of None \<Rightarrow> False | Some y \<Rightarrow> same_decimal (n, 0) y)"
| "py_eq (JFloat s) w =
     (if is_finite_float s
      then (case decimal_of w of None \<Rightarrow> False | Some y \<Rightarrow> same_decimal (float_parts s) y)
      else w = JFloat s \<and> s \<noteq> ''NaN'')"
| "py_eq_list [] ws = (ws = [])"
| "py_eq_list (v # vs) ws = (case ws of [] \<Rightarrow> False | w # ws' \<Rightarrow> py_eq v w \<and> py_eq_list vs ws')"
| "py_eq_items [] e = True"
| "py_eq_items ((k, v) # d) e =
     ((case map_of e k of None \<Rightarrow> False | Some w \<Rightarrow> py_eq v w) \<and> py_eq_items d e)"

text \<open>\<open>if v\<close>.\<close>

fun truthy :: "json \<Rightarrow> bool" where
  "truthy JNull = False"
| "truthy (JBool b) = b"
| "truthy (JInt n) = (n \<noteq> 0)"
| "truthy (JFloat s) = (is_finite_float s \<longrightarrow> fst (float_parts s) \<noteq> 0)"
| "truthy (JStr s) = (s \<noteq> [])"
| "truthy (JList vs) = (vs \<noteq> [])"
| "truthy (JObj d) = (d \<noteq> [])"

text \<open>The digits of \<open>int("...")\<close>: a sign, then digits with single underscores between them.\<close>

fun int_digits :: "string \<Rightarrow> string option" where
  "int_digits [] = None"
| "int_digits [c] = (if is_digit c then Some [c] else None)"
| "int_digits (c # d # r) =
     (if is_digit c
      then map_option (\<lambda>ds. c # ds) (int_digits (if d = CHR ''_'' then r else d # r)) else None)"

definition strip :: "string \<Rightarrow> string" where
  "strip s = rev (skip (rev (skip s)))"

definition int_of_text :: "string \<Rightarrow> int option" where
  "int_of_text s =
     (let t = strip s; neg = (t \<noteq> [] \<and> hd t = CHR ''-'');
          body = (if t \<noteq> [] \<and> (hd t = CHR ''-'' \<or> hd t = CHR ''+'') then tl t else t)
      in map_option (\<lambda>ds. if neg then - int (number_of ds) else int (number_of ds)) (int_digits body))"

text \<open>\<open>int(v)\<close>: a float is truncated towards zero.\<close>

definition truncate :: "int \<times> int \<Rightarrow> int" where
  "truncate x =
     (let (m, e) = x in
      if 0 \<le> e then m * 10 ^ nat e
      else if 0 \<le> m then m div 10 ^ nat (- e) else - ((- m) div 10 ^ nat (- e)))"

fun py_int :: "json \<Rightarrow> exn + int" where
  "py_int (JInt n) = Inr n"
| "py_int (JBool b) = Inr (if b then 1 else 0)"
| "py_int (JFloat s) =
     (if s = ''NaN'' then Inl (ValueError ''cannot convert float NaN to integer'')
      else if \<not> is_finite_float s then Inl OverflowError
      else Inr (truncate (float_parts s)))"
| "py_int (JStr s) =
     (case int_of_text s of None \<Rightarrow> Inl (ValueError ''invalid literal for int()'') | Some n \<Rightarrow> Inr n)"
| "py_int v = Inl (TypeError ''int() argument must be a string or a number'')"

lemma same_decimal_ints [simp]: "same_decimal (m, 0) (n, 0) \<longleftrightarrow> m = n"
  by (simp add: same_decimal_def)

lemma py_eq_ints [simp]: "py_eq (JInt m) (JInt n) \<longleftrightarrow> m = n"
  by simp

lemma py_eq_items_mono:
  assumes "\<And>k w. map_of e k = Some w \<Longrightarrow> map_of e' k = Some w" "py_eq_items d e"
  shows "py_eq_items d e'"
  using assms(2) by (induction d) (auto split: option.splits, (metis assms(1) option.distinct(1) option.inject)+)

lemma py_eq_refl:
  "writable v \<Longrightarrow> py_eq v v"
  "writable_list vs \<Longrightarrow> py_eq_list vs vs"
  "writable_items d \<Longrightarrow> distinct (dkeys d) \<Longrightarrow> py_eq_items d d"
proof (induction v and vs and d rule: writable_writable_list_writable_items.induct)
  case (11 k v d)
  then have "py_eq_items d d" by simp
  then have "py_eq_items d ((k, v) # d)"
    by (rule py_eq_items_mono [rotated])
       (use "11.prems"(2) in \<open>auto dest: map_of_SomeD simp: image_iff\<close>)
  with 11 show ?case by simp
qed simp_all

section \<open>The validators' checks\<close>

text \<open>\<open>_strict_keys\<close>, \<open>_validate_digest\<close> and the digest test behind them.\<close>

definition strict_keys :: "jdict \<Rightarrow> string list \<Rightarrow> exn + unit" where
  "strict_keys d ks = require (set (dkeys d) = set ks) (CacheFormatError ''fields differ'')"

fun is_digest :: "json \<Rightarrow> bool" where
  "is_digest (JStr s) = is_sha256 s"
| "is_digest _ = False"

definition validate_digest :: "json \<Rightarrow> exn + unit" where
  "validate_digest v = require (is_digest v) (ValueError ''must be a lowercase SHA-256 digest'')"

text \<open>The same check where the code turns its \<open>ValueError\<close> into a format error.\<close>

definition format_digest :: "json \<Rightarrow> exn + unit" where
  "format_digest v = require (is_digest v) (CacheFormatError ''must be a lowercase SHA-256 digest'')"

lemma validators_Inr [simp]:
  "strict_keys d ks = Inr u \<longleftrightarrow> set (dkeys d) = set ks"
  "validate_digest v = Inr u \<longleftrightarrow> is_digest v"
  "format_digest v = Inr u \<longleftrightarrow> is_digest v"
  by (simp_all add: strict_keys_def validate_digest_def format_digest_def)

lemma is_digest_iff: "is_digest v \<longleftrightarrow> (\<exists>s. v = JStr s \<and> is_sha256 s)"
  by (cases v) auto

lemma jget_simps [simp]:
  "jget [] k = JNull" "jget ((a, v) # d) k = (if k = a then v else jget d k)"
  by (auto simp: jget_def)

text \<open>The fields of a dictionary do not depend on the order of its entries.\<close>

lemma map_of_sort_key:
  assumes "distinct (dkeys d)" shows "map_of (sort_key fst d) k = map_of d k"
proof -
  have "distinct (dkeys (sort_key fst d))" using assms by (simp add: distinct_map)
  then show ?thesis using assms by (metis map_of_inject_set set_sort)
qed

lemma jget_sort_key: "distinct (dkeys d) \<Longrightarrow> jget (sort_key fst d) k = jget d k"
  by (simp add: jget_def map_of_sort_key)

lemma jget_sorted_items: "jget (sorted_items d) k = sorted_json (jget d k)"
  by (induction d) auto

text \<open>A written dictionary read back.\<close>

lemma map_of_sort_key_any: "map_of (sort_key fst d) k = map_of d k"
proof -
  have find: "map_of e k = map_option snd (find (\<lambda>x. fst x = k) e)" for e :: "('e \<times> 'f) list" and k
    by (induction e) auto
  have first: "find P e = (case filter P e of [] \<Rightarrow> None | x # xs \<Rightarrow> Some x)" for P and e :: "('e \<times> 'f) list"
    by (induction e) auto
  show ?thesis unfolding find first sort_key_stable ..
qed

definition read_dict :: "jdict \<Rightarrow> jdict" where
  "read_dict d = sort_key fst (sorted_items d)"

lemma sorted_JObj: "sorted_json (JObj d) = JObj (read_dict d)"
  by (simp add: read_dict_def)

lemma map_of_sorted_items: "map_of (sorted_items d) k = map_option sorted_json (map_of d k)"
  by (induction d) auto

lemma map_of_read_dict: "map_of (read_dict d) k = map_option sorted_json (map_of d k)"
  by (simp add: read_dict_def map_of_sort_key_any map_of_sorted_items)

lemma jget_read_dict: "jget (read_dict d) k = sorted_json (jget d k)"
  by (simp add: jget_def map_of_read_dict split: option.split)

lemma keys_read_dict: "set (dkeys (read_dict d)) = set (dkeys d)"
proof -
  have "set (dkeys (read_dict d)) = fst ` set (sorted_items d)" by (simp add: read_dict_def)
  also have "\<dots> = set (dkeys (sorted_items d))" by (simp only: set_map)
  finally show ?thesis by simp
qed

text \<open>How long a text can get.\<close>

lemma length_escape: "length (escape c) \<le> 6"
  by (simp add: escape_def Let_def)

lemma length_enc_str: "length (enc_str s) \<le> 6 * length s + 2"
proof -
  have "length (concat (map escape s)) \<le> 6 * length s"
    using length_escape by (induction s) (auto intro: add_mono)
  then show ?thesis by (simp add: enc_str_def)
qed

lemma dec_small: "n < 10 \<Longrightarrow> length (dec n) = 1"
  by (subst dec.simps) simp

lemma length_enc_int_small: "0 \<le> n \<Longrightarrow> n < 10 \<Longrightarrow> length (enc_int n) = 1"
  by (simp add: enc_int_def dec_small)

lemma length_dec: "length (dec n) \<le> n + 1"
proof (induction n rule: dec.induct)
  case (1 n)
  then show ?case by (subst dec.simps) (force simp: not_less)
qed

fun json_bound :: "json \<Rightarrow> nat" and items_bound :: "(string \<times> json) list \<Rightarrow> nat" and list_bound :: "json list \<Rightarrow> nat" where
  "json_bound JNull = 4"
| "json_bound (JBool b) = 5"
| "json_bound (JInt n) = nat \<bar>n\<bar> + 2"
| "json_bound (JFloat s) = length s"
| "json_bound (JStr s) = 6 * length s + 2"
| "json_bound (JList vs) = 2 + list_bound vs"
| "json_bound (JObj d) = 2 + items_bound d"
| "items_bound [] = 0"
| "items_bound ((k, v) # d) = 6 * length k + 4 + json_bound v + items_bound d"
| "list_bound [] = 0"
| "list_bound (v # vs) = 1 + json_bound v + list_bound vs"

lemma sum_list_sort_key: "sum_list (map f (sort_key g xs)) = sum_list (map f xs)" for f :: "'e \<Rightarrow> nat"
proof -
  have "sum_list (map f (insort_key g x xs)) = f x + sum_list (map f xs)" for x and xs :: "'e list"
    by (induction xs) auto
  then show ?thesis by (induction xs) auto
qed

lemma length_commas: "length (commas ss) \<le> sum_list (map length ss) + length ss"
  by (induction ss rule: commas.induct) auto

lemma length_enc:
  "length (enc v) \<le> json_bound v"
  "sum_list (map length (enc_list vs)) + length (enc_list vs) \<le> list_bound vs"
  "sum_list (map (\<lambda>(k, s). length (enc_str k) + 1 + length s) (enc_items d)) + length (enc_items d) \<le> items_bound d"
proof (induction v and vs and d rule: enc_enc_list_enc_items.induct)
  case (3 n)
  show ?case using length_dec [of "nat \<bar>n\<bar>"] by (auto simp: enc_int_def)
next
  case (6 vs)
  then show ?case using length_commas [of "enc_list vs"] by simp
next
  case (7 d)
  let ?f = "\<lambda>(k, s). enc_str k @ CHR '':'' # s"
  have "sum_list (map (\<lambda>x. length (?f x)) (sort_key fst (enc_items d))) = sum_list (map (\<lambda>x. length (?f x)) (enc_items d))"
    by (rule sum_list_sort_key)
  moreover have "map (\<lambda>x. length (?f x)) (enc_items d) = map (\<lambda>(k, s). length (enc_str k) + 1 + length s) (enc_items d)" by auto
  ultimately show ?case using 7 length_commas [of "map ?f (sort_key fst (enc_items d))"] by (simp add: comp_def)
next
  case (11 k v d)
  then show ?case using length_enc_str [of k] by simp
qed (use length_enc_str in auto)

end
