(* ===== verification/Cache_Identity.thy ===== *)
theory Cache_Identity
  imports Sha256 Json_Values
begin

text \<open>
  Who a cache entry belongs to (\<open>cache_manifest.py\<close>): the identity of checkpoint, layout and worker
  rank, its wire form and storage key, the records it requires, and the check of an identity read
  back from a manifest. The request scope that separates salted namespaces is here as well.
\<close>

datatype state_record = TARGET_CKV | SPARSE_INDEXER | MTP_DRAFT_KV | BOUNDARY_HIDDEN | LOGICAL_POSITIONS

fun record_value :: "state_record \<Rightarrow> string" where
  "record_value TARGET_CKV = ''target_ckv''"
| "record_value SPARSE_INDEXER = ''sparse_indexer''"
| "record_value MTP_DRAFT_KV = ''mtp_draft_kv''"
| "record_value BOUNDARY_HIDDEN = ''boundary_hidden''"
| "record_value LOGICAL_POSITIONS = ''logical_positions''"

definition all_records :: "state_record list" where
  "all_records = [TARGET_CKV, SPARSE_INDEXER, MTP_DRAFT_KV, BOUNDARY_HIDDEN, LOGICAL_POSITIONS]"

text \<open>\<open>StateRecord(value)\<close>, \<open>None\<close> where it raises.\<close>

definition StateRecord :: "string \<Rightarrow> state_record option" where
  "StateRecord s = find (\<lambda>k. record_value k = s) all_records"

lemma all_records_complete [simp]: "k \<in> set all_records"
  by (cases k) (auto simp: all_records_def)

lemma StateRecord_value [simp]: "StateRecord (record_value k) = Some k"
  by (cases k) (simp_all add: StateRecord_def all_records_def)

lemma StateRecord_Some: "StateRecord s = Some k \<longleftrightarrow> s = record_value k"
  by (auto simp: StateRecord_def find_Some_iff) (metis StateRecord_def StateRecord_value find_Some_iff)

definition FORMAT_ABI :: int where "FORMAT_ABI = 1"

definition PUBLICATION_SCHEMAS :: "string list" where
  "PUBLICATION_SCHEMAS = ['''', ''tail-cow-v1'', ''page-tail-cow-v1'', ''page-tail-cow-v2'',
     ''page-tail-cow-v3-fast'', ''page-tail-cow-v3-none'']"

record cache_identity =
  target_checkpoint :: string
  draft_checkpoint :: string
  quantization_layout :: string
  rope_layout :: string
  tp_degree :: int
  dcp_degree :: int
  cp_kv_cache_interleave_size :: int
  chunk_tokens :: int
  dcp_shard_rank :: int
  tp_shard_rank :: int
  boundary_hidden_policy :: string
  draft_kv_policy :: string
  record_schema :: "string list"
  publication_schema :: string

definition CacheIdentity :: "cache_identity \<Rightarrow> exn + cache_identity" where
  "CacheIdentity i =
     (if \<not> is_sha256 (target_checkpoint i) \<or> \<not> is_sha256 (draft_checkpoint i)
      then Inl (ValueError ''must be a 64-character lowercase SHA-256'')
      else if quantization_layout i = [] \<or> rope_layout i = []
      then Inl (ValueError ''must be non-empty'')
      else if tp_degree i \<le> 0 \<or> dcp_degree i \<le> 0 \<or> cp_kv_cache_interleave_size i \<le> 0 \<or> chunk_tokens i \<le> 0
      then Inl (ValueError ''must be positive'')
      else if boundary_hidden_policy i \<notin> {''persisted'', ''live_forward''}
      then Inl (ValueError ''boundary_hidden_policy must be persisted or live_forward'')
      else if draft_kv_policy i \<notin> {''separate'', ''colocated_target''}
      then Inl (ValueError ''draft_kv_policy must be separate or colocated_target'')
      else if \<not> (- 1 \<le> dcp_shard_rank i \<and> dcp_shard_rank i < dcp_degree i)
      then Inl (ValueError ''dcp_shard_rank must be -1 or in [0, dcp_degree)'')
      else if \<not> (- 1 \<le> tp_shard_rank i \<and> tp_shard_rank i < tp_degree i)
      then Inl (ValueError ''tp_shard_rank must be -1 or in [0, tp_degree)'')
      else if record_schema i \<noteq> [] \<and> (\<exists>s\<in>set (record_schema i). StateRecord s = None)
      then Inl (ValueError ''record_schema contains an unknown record'')
      else if record_schema i \<noteq> [] \<and> \<not> distinct (record_schema i)
      then Inl (ValueError ''record_schema records must be unique'')
      else if record_schema i \<noteq> [] \<and> ''logical_positions'' \<notin> set (record_schema i)
      then Inl (ValueError ''record_schema must include logical_positions'')
      else if publication_schema i \<notin> set PUBLICATION_SCHEMAS
      then Inl (ValueError ''publication_schema is unsupported'')
      else Inr i)"

definition policy_records :: "bool \<Rightarrow> bool \<Rightarrow> state_record set" where
  "policy_records live colocated =
     set all_records - (if live then {BOUNDARY_HIDDEN} else {}) - (if colocated then {MTP_DRAFT_KV} else {})"

definition required_records :: "cache_identity \<Rightarrow> state_record set" where
  "required_records i =
     (if record_schema i \<noteq> [] then set (List.map_filter StateRecord (record_schema i))
      else policy_records (boundary_hidden_policy i = ''live_forward'') (draft_kv_policy i = ''colocated_target''))"

definition to_wire :: "cache_identity \<Rightarrow> json" where
  "to_wire i = JObj
     ([(''target_checkpoint'', JStr (target_checkpoint i)),
       (''draft_checkpoint'', JStr (draft_checkpoint i)),
       (''quantization_layout'', JStr (quantization_layout i)),
       (''rope_layout'', JStr (rope_layout i)),
       (''tp_degree'', JInt (tp_degree i)),
       (''dcp_degree'', JInt (dcp_degree i)),
       (''cp_kv_cache_interleave_size'', JInt (cp_kv_cache_interleave_size i)),
       (''chunk_tokens'', JInt (chunk_tokens i)),
       (''dcp_shard_rank'', JInt (dcp_shard_rank i)),
       (''tp_shard_rank'', JInt (tp_shard_rank i)),
       (''boundary_hidden_policy'', JStr (boundary_hidden_policy i)),
       (''draft_kv_policy'', JStr (draft_kv_policy i))]
      @ (if record_schema i \<noteq> [] then [(''record_schema'', JList (map JStr (record_schema i)))] else [])
      @ (if publication_schema i \<noteq> [] then [(''publication_schema'', JStr (publication_schema i))] else []))"

definition storage_key :: "cache_identity \<Rightarrow> string" where
  "storage_key i = sha256 (canonical_json (to_wire i))"

section \<open>Identities read back\<close>

definition BASE_FIELDS :: "string list" where
  "BASE_FIELDS = [''target_checkpoint'', ''draft_checkpoint'', ''quantization_layout'', ''rope_layout'',
     ''tp_degree'', ''dcp_degree'', ''cp_kv_cache_interleave_size'', ''chunk_tokens'',
     ''dcp_shard_rank'', ''tp_shard_rank'', ''boundary_hidden_policy'', ''draft_kv_policy'']"

text \<open>
  \<open>CacheIdentity(**wire)\<close>, the exact-integer tests and \<open>to_wire() != wire\<close>, all of which raise a
  format error: every base field must be spelt out, an optional field may only be present with a
  value that \<open>to_wire\<close> would write. The interleave size may be any positive number.
\<close>

definition positive_number :: "json \<Rightarrow> bool" where
  "positive_number v = (case v of
       JFloat s \<Rightarrow> (if is_finite_float s then fst (float_parts s) > 0 else s \<noteq> ''-Infinity'')
     | _ \<Rightarrow> (case decimal_of v of None \<Rightarrow> False | Some x \<Rightarrow> fst x > 0))"

definition int_where :: "(int \<Rightarrow> bool) \<Rightarrow> json \<Rightarrow> bool" where
  "int_where p v = (case the_int v of None \<Rightarrow> False | Some n \<Rightarrow> p n)"

definition schema_list_ok :: "json \<Rightarrow> bool" where
  "schema_list_ok v =
     (case the_list v of None \<Rightarrow> False
      | Some vs \<Rightarrow> vs \<noteq> [] \<and> distinct vs \<and> JStr ''logical_positions'' \<in> set vs
          \<and> (\<forall>x\<in>set vs. \<exists>k\<in>set all_records. x = JStr (record_value k)))"

definition wire_identity_ok :: "jdict \<Rightarrow> bool" where
  "wire_identity_ok d \<longleftrightarrow>
     set BASE_FIELDS \<subseteq> set (dkeys d)
     \<and> set (dkeys d) \<subseteq> set BASE_FIELDS \<union> {''record_schema'', ''publication_schema''}
     \<and> is_digest (jget d ''target_checkpoint'') \<and> is_digest (jget d ''draft_checkpoint'')
     \<and> truthy (jget d ''quantization_layout'') \<and> truthy (jget d ''rope_layout'')
     \<and> int_where (\<lambda>n. n > 0) (jget d ''tp_degree'')
     \<and> int_where (\<lambda>n. n > 0) (jget d ''dcp_degree'')
     \<and> positive_number (jget d ''cp_kv_cache_interleave_size'')
     \<and> int_where (\<lambda>n. n > 0) (jget d ''chunk_tokens'')
     \<and> jget d ''boundary_hidden_policy'' \<in> {JStr ''persisted'', JStr ''live_forward''}
     \<and> jget d ''draft_kv_policy'' \<in> {JStr ''separate'', JStr ''colocated_target''}
     \<and> int_where (\<lambda>n. - 1 \<le> n \<and> int_where (\<lambda>m. n < m) (jget d ''dcp_degree'')) (jget d ''dcp_shard_rank'')
     \<and> int_where (\<lambda>n. - 1 \<le> n \<and> int_where (\<lambda>m. n < m) (jget d ''tp_degree'')) (jget d ''tp_shard_rank'')
     \<and> (''record_schema'' \<in> set (dkeys d) \<longrightarrow> schema_list_ok (jget d ''record_schema''))
     \<and> (''publication_schema'' \<in> set (dkeys d) \<longrightarrow>
          (\<exists>s\<in>set PUBLICATION_SCHEMAS. s \<noteq> [] \<and> jget d ''publication_schema'' = JStr s))"

definition required_records_for_identity_wire :: "jdict \<Rightarrow> exn + state_record set" where
  "required_records_for_identity_wire d =
     (if jget d ''record_schema'' \<noteq> JNull
      then (if \<not> schema_list_ok (jget d ''record_schema'')
            then Inl (CacheFormatError ''identity record_schema is invalid'')
            else Inr {k \<in> set all_records. case the_list (jget d ''record_schema'') of None \<Rightarrow> False
                                           | Some vs \<Rightarrow> JStr (record_value k) \<in> set vs})
      else Inr (policy_records (jget d ''boundary_hidden_policy'' = JStr ''live_forward'')
                  (jget d ''draft_kv_policy'' = JStr ''colocated_target'')))"


section \<open>The wire form determines the identity\<close>

definition wire_items :: "cache_identity \<Rightarrow> jdict" where
  "wire_items i = the (the_obj (to_wire i))"

lemma to_wire_items: "to_wire i = JObj (wire_items i)"
  by (simp add: wire_items_def to_wire_def)

lemma wire_keys:
  "dkeys (wire_items i) = BASE_FIELDS
     @ (if record_schema i \<noteq> [] then [''record_schema''] else [])
     @ (if publication_schema i \<noteq> [] then [''publication_schema''] else [])"
  by (simp add: wire_items_def to_wire_def BASE_FIELDS_def)

lemma wire_distinct: "distinct (dkeys (wire_items i))"
  by (simp add: wire_keys) (simp add: BASE_FIELDS_def)

lemma jget_wire:
  "jget (wire_items i) ''target_checkpoint'' = JStr (target_checkpoint i)"
  "jget (wire_items i) ''draft_checkpoint'' = JStr (draft_checkpoint i)"
  "jget (wire_items i) ''quantization_layout'' = JStr (quantization_layout i)"
  "jget (wire_items i) ''rope_layout'' = JStr (rope_layout i)"
  "jget (wire_items i) ''tp_degree'' = JInt (tp_degree i)"
  "jget (wire_items i) ''dcp_degree'' = JInt (dcp_degree i)"
  "jget (wire_items i) ''cp_kv_cache_interleave_size'' = JInt (cp_kv_cache_interleave_size i)"
  "jget (wire_items i) ''chunk_tokens'' = JInt (chunk_tokens i)"
  "jget (wire_items i) ''dcp_shard_rank'' = JInt (dcp_shard_rank i)"
  "jget (wire_items i) ''tp_shard_rank'' = JInt (tp_shard_rank i)"
  "jget (wire_items i) ''boundary_hidden_policy'' = JStr (boundary_hidden_policy i)"
  "jget (wire_items i) ''draft_kv_policy'' = JStr (draft_kv_policy i)"
  "jget (wire_items i) ''record_schema'' =
     (if record_schema i \<noteq> [] then JList (map JStr (record_schema i)) else JNull)"
  "jget (wire_items i) ''publication_schema'' =
     (if publication_schema i \<noteq> [] then JStr (publication_schema i) else JNull)"
  by (simp_all add: wire_items_def to_wire_def)

lemma writable_strs [simp]: "writable_list (map JStr ss)" "sorted_list (map JStr ss) = map JStr ss"
  by (induction ss) auto

lemma writable_to_wire [simp]: "writable (to_wire i)"
proof -
  have "writable_items (wire_items i)"
    by (auto simp: wire_items_def to_wire_def writable_items_iff)
  then show ?thesis using wire_distinct by (simp add: to_wire_items)
qed

text \<open>What reading the canonical text of an identity gives: the same fields, sorted by key.\<close>

definition read_items :: "cache_identity \<Rightarrow> jdict" where
  "read_items i = sort_key fst (sorted_items (wire_items i))"

lemma sorted_to_wire: "sorted_json (to_wire i) = JObj (read_items i)"
  by (simp add: to_wire_items read_items_def)

lemma read_keys: "set (dkeys (read_items i)) = set (dkeys (wire_items i))"
  "distinct (dkeys (read_items i))"
proof -
  have "set (dkeys (read_items i)) = fst ` set (sorted_items (wire_items i))"
    by (simp add: read_items_def)
  also have "\<dots> = set (dkeys (sorted_items (wire_items i)))" by (simp only: set_map)
  finally show "set (dkeys (read_items i)) = set (dkeys (wire_items i))" by simp
  have "distinct (dkeys (sorted_items (wire_items i)))" using wire_distinct by simp
  then show "distinct (dkeys (read_items i))"
    by (simp only: read_items_def distinct_map distinct_sort set_sort)
qed

lemma jget_read: "jget (read_items i) k = sorted_json (jget (wire_items i) k)"
  using wire_distinct [of i]
  by (simp add: read_items_def jget_sort_key jget_sorted_items)

lemmas read_fields = jget_read jget_wire

lemma sorted_strs [simp]: "sorted_json (if b then JList (map JStr ss) else JNull) = (if b then JList (map JStr ss) else JNull)"
  by simp

lemma JStr_map_inj: "map JStr xs = map JStr ys \<longleftrightarrow> xs = ys"
  by (induction xs arbitrary: ys) (case_tac ys; auto)+

lemma canonical_wire_inject:
  assumes "canonical_json (to_wire i) = canonical_json (to_wire j)" shows "i = j"
proof -
  have "sorted_json (to_wire i) = sorted_json (to_wire j)"
    using assms json_loads_canonical [of "to_wire i"] json_loads_canonical [of "to_wire j"] by simp
  then have eq: "jget (read_items i) k = jget (read_items j) k" for k
    by (simp add: sorted_to_wire)
  have "record_schema i = record_schema j"
    using eq [of "''record_schema''"] by (auto simp: read_fields JStr_map_inj split: if_splits)
  moreover have "publication_schema i = publication_schema j"
    using eq [of "''publication_schema''"] by (auto simp: read_fields split: if_splits)
  moreover note eq [of "''target_checkpoint''"] eq [of "''draft_checkpoint''"]
    eq [of "''quantization_layout''"] eq [of "''rope_layout''"] eq [of "''tp_degree''"]
    eq [of "''dcp_degree''"] eq [of "''cp_kv_cache_interleave_size''"] eq [of "''chunk_tokens''"]
    eq [of "''dcp_shard_rank''"] eq [of "''tp_shard_rank''"] eq [of "''boundary_hidden_policy''"]
    eq [of "''draft_kv_policy''"]
  ultimately show ?thesis by (simp add: read_fields)
qed


lemma CacheIdentity_Inr:
  assumes "CacheIdentity i = Inr j"
  shows "j = i" "is_sha256 (target_checkpoint i)" "is_sha256 (draft_checkpoint i)"
    "quantization_layout i \<noteq> []" "rope_layout i \<noteq> []" "0 < tp_degree i" "0 < dcp_degree i"
    "0 < cp_kv_cache_interleave_size i" "0 < chunk_tokens i"
    "boundary_hidden_policy i \<in> {''persisted'', ''live_forward''}"
    "draft_kv_policy i \<in> {''separate'', ''colocated_target''}"
    "- 1 \<le> dcp_shard_rank i" "dcp_shard_rank i < dcp_degree i"
    "- 1 \<le> tp_shard_rank i" "tp_shard_rank i < tp_degree i"
    "\<forall>s\<in>set (record_schema i). StateRecord s \<noteq> None" "distinct (record_schema i)"
    "record_schema i \<noteq> [] \<Longrightarrow> ''logical_positions'' \<in> set (record_schema i)"
    "publication_schema i \<in> set PUBLICATION_SCHEMAS"
  using assms by (auto simp: CacheIdentity_def split: if_splits)

definition valid_identity :: "cache_identity \<Rightarrow> bool" where
  "valid_identity i \<longleftrightarrow> CacheIdentity i = Inr i"

lemma schema_list_ok_wire:
  assumes "valid_identity i" "record_schema i \<noteq> []"
  shows "schema_list_ok (JList (map JStr (record_schema i)))"
proof -
  note v = CacheIdentity_Inr [OF assms(1) [unfolded valid_identity_def]]
  have "distinct (map JStr (record_schema i))" using v(17) by (simp add: distinct_map inj_on_def)
  moreover have "\<exists>k\<in>set all_records. s = record_value k" if "s \<in> set (record_schema i)" for s
    using v(16) that all_records_complete by (fastforce simp: StateRecord_Some)
  ultimately show ?thesis using assms(2) v(18) by (auto simp: schema_list_ok_def)
qed

lemma wire_identity_read:
  assumes "valid_identity i" shows "wire_identity_ok (read_items i)"
proof -
  note v = CacheIdentity_Inr [OF assms [unfolded valid_identity_def]]
  have keys: "set (dkeys (read_items i)) = set BASE_FIELDS
      \<union> {k. k = ''record_schema'' \<and> record_schema i \<noteq> []}
      \<union> {k. k = ''publication_schema'' \<and> publication_schema i \<noteq> []}"
    unfolding read_keys wire_keys by auto
  have "''record_schema'' \<notin> set BASE_FIELDS" "''publication_schema'' \<notin> set BASE_FIELDS"
    by (simp_all add: BASE_FIELDS_def)
  then have "''record_schema'' \<in> set (dkeys (read_items i)) \<longleftrightarrow> record_schema i \<noteq> []"
    "''publication_schema'' \<in> set (dkeys (read_items i)) \<longleftrightarrow> publication_schema i \<noteq> []"
    unfolding keys by auto
  then show ?thesis
    unfolding wire_identity_ok_def keys
    using v schema_list_ok_wire [OF assms]
    by (auto simp: read_fields int_where_def positive_number_def)
qed

lemma required_records_read:
  assumes "valid_identity i"
  shows "required_records_for_identity_wire (read_items i) = Inr (required_records i)"
proof (cases "record_schema i = []")
  case True
  then show ?thesis by (simp add: required_records_for_identity_wire_def required_records_def read_fields)
next
  case False
  have "k \<in> set (List.map_filter StateRecord (record_schema i)) \<longleftrightarrow> record_value k \<in> set (record_schema i)" for k
    by (auto simp: map_filter_def StateRecord_Some image_iff)
  with False show ?thesis
    using schema_list_ok_wire [OF assms False]
    by (auto simp: required_records_for_identity_wire_def required_records_def read_fields)
qed

end
