(* ===== verification/Context_Chunk.thy ===== *)
theory Context_Chunk
  imports Cache_Identity
begin

text \<open>
  The stored unit of context (\<open>ContextChunk\<close>, \<open>_encode_chunk\<close>, \<open>_decode_chunk\<close> of
  \<open>cache_manifest.py\<close>): a range of tokens with one payload per record kind, encoded as a fixed prefix,
  a JSON header with the offset, length and digest of every payload, and the payloads. The reader
  accepts nothing but what it can account for byte by byte.
\<close>

record context_chunk =
  logical_start :: int
  logical_end :: int
  records :: "state_record \<Rightarrow> string option"

text \<open>The records in the order of their names, as the encoder sorts them.\<close>

definition sorted_records :: "state_record list" where
  "sorted_records = [BOUNDARY_HIDDEN, LOGICAL_POSITIONS, MTP_DRAFT_KV, SPARSE_INDEXER, TARGET_CKV]"

definition ContextChunk :: "int \<Rightarrow> int \<Rightarrow> (state_record \<Rightarrow> string option) \<Rightarrow> exn + context_chunk" where
  "ContextChunk s e recs =
     (if s < 0 \<or> e \<le> s then Inl (ValueError ''chunk logical range must be positive and ordered'')
      else if \<exists>k\<in>set sorted_records. recs k = Some []
      then Inl (IncompleteEntry ''payload must not be empty'')
      else if \<forall>k\<in>set sorted_records. recs k = None
      then Inl (IncompleteEntry ''cache chunk carries no records'')
      else Inr \<lparr>logical_start = s, logical_end = e, records = recs\<rparr>)"

definition require_complete_chunk :: "context_chunk \<Rightarrow> state_record set \<Rightarrow> exn + unit" where
  "require_complete_chunk c required =
     require (\<forall>k\<in>required. records c k \<noteq> None)
       (IncompleteEntry ''incomplete speculative cache chunk'')"

section \<open>Encoding\<close>

definition CHUNK_MAGIC :: string where "CHUNK_MAGIC = ''SPCKV001''"

definition PREFIX_SIZE :: nat where "PREFIX_SIZE = 16"

fun little_endian :: "nat \<Rightarrow> nat \<Rightarrow> string" where
  "little_endian 0 n = []"
| "little_endian (Suc k) n = char_of (n mod 256) # little_endian k (n div 256)"

fun of_little_endian :: "string \<Rightarrow> nat" where
  "of_little_endian [] = 0"
| "of_little_endian (c # s) = of_char c + 256 * of_little_endian s"

fun present :: "(state_record \<Rightarrow> string option) \<Rightarrow> state_record list \<Rightarrow> (state_record \<times> string) list" where
  "present recs [] = []"
| "present recs (k # ks) =
     (case recs k of None \<Rightarrow> present recs ks | Some v \<Rightarrow> (k, v) # present recs ks)"

fun record_descriptors :: "int \<Rightarrow> (state_record \<times> string) list \<Rightarrow> json list" where
  "record_descriptors off [] = []"
| "record_descriptors off ((k, v) # rs) =
     JObj [(''kind'', JStr (record_value k)), (''offset'', JInt off),
           (''length'', JInt (int (length v))), (''sha256'', JStr (sha256 v))]
     # record_descriptors (off + int (length v)) rs"

definition chunk_header :: "context_chunk \<Rightarrow> json" where
  "chunk_header c = JObj
     [(''format_abi'', JInt FORMAT_ABI), (''logical_start'', JInt (logical_start c)),
      (''logical_end'', JInt (logical_end c)),
      (''records'', JList (record_descriptors 0 (present (records c) sorted_records)))]"

text \<open>\<open>struct.pack("<8sII", ...)\<close> raises when the header is longer than 32 bits can say.\<close>

definition encode_chunk :: "context_chunk \<Rightarrow> exn + string" where
  "encode_chunk c =
     (let header = canonical_json (chunk_header c) in
      if 2 ^ 32 \<le> length header then Inl StructError
      else Inr (CHUNK_MAGIC @ little_endian 4 (nat FORMAT_ABI) @ little_endian 4 (length header)
                @ header @ concat (map snd (present (records c) sorted_records))))"

section \<open>Decoding\<close>

text \<open>\<open>except (ValueError, TypeError): raise CacheFormatError\<close>.\<close>

definition as_format_error :: "exn + 'a \<Rightarrow> exn + 'a" where
  "as_format_error m =
     (case m of
        Inr x \<Rightarrow> Inr x
      | Inl e \<Rightarrow> Inl (if is_value_error e \<or> is_type_error e then CacheFormatError ''invalid'' else e))"

lemma as_format_error_simps [simp]:
  "as_format_error (Inr x) = Inr x" "as_format_error m = Inr x \<longleftrightarrow> m = Inr x"
  by (cases m; simp add: as_format_error_def)+

fun record_kind :: "json \<Rightarrow> state_record option" where
  "record_kind (JStr s) = StateRecord s"
| "record_kind _ = None"

fun decode_records ::
    "bool \<Rightarrow> string \<Rightarrow> int \<Rightarrow> (state_record \<Rightarrow> string option) \<Rightarrow> json list
      \<Rightarrow> exn + int \<times> (state_record \<Rightarrow> string option)" where
  "decode_records verify payload expected recs [] = Inr (expected, recs)"
| "decode_records verify payload expected recs (item # items) =
     (case the_obj item of
        None \<Rightarrow> Inl (CacheFormatError ''record descriptor is not an object'')
      | Some d \<Rightarrow>
          bindE (strict_keys d [''kind'', ''offset'', ''length'', ''sha256'']) (\<lambda>_.
          case record_kind (jget d ''kind'') of
            None \<Rightarrow> Inl (CacheFormatError ''invalid record descriptor'')
          | Some k \<Rightarrow>
              bindE (as_format_error (py_int (jget d ''offset''))) (\<lambda>off.
              bindE (as_format_error (py_int (jget d ''length''))) (\<lambda>len.
              if recs k \<noteq> None \<or> off < 0 \<or> len < 0 \<or> off \<noteq> expected
              then Inl (CacheFormatError ''duplicate or invalid record descriptor'')
              else
                (let v = take (nat len) (drop (nat off) payload) in
                 if int (length v) \<noteq> len \<or> (verify \<and> JStr (sha256 v) \<noteq> jget d ''sha256'')
                 then Inl (CacheFormatError ''record payload checksum mismatch'')
                 else decode_records verify payload (expected + len) (recs(k \<mapsto> v)) items)))))"

definition decode_chunk :: "bool \<Rightarrow> string \<Rightarrow> exn + context_chunk" where
  "decode_chunk verify encoded =
     (if length encoded < PREFIX_SIZE then Inl (CacheFormatError ''truncated chunk prefix'')
      else if take 8 encoded \<noteq> CHUNK_MAGIC
        \<or> of_little_endian (take 4 (drop 8 encoded)) \<noteq> nat FORMAT_ABI
      then Inl (CacheFormatError ''unsupported chunk magic or ABI'')
      else
        (let n = of_little_endian (take 4 (drop 12 encoded)); header_end = PREFIX_SIZE + n in
         if header_end > length encoded then Inl (CacheFormatError ''truncated chunk header'')
         else
           (case json_loads (take n (drop PREFIX_SIZE encoded)) of
              None \<Rightarrow> Inl (CacheFormatError ''invalid chunk header'')
            | Some header \<Rightarrow>
                (case the_obj header of
                   None \<Rightarrow> Inl (CacheFormatError ''chunk header is not an object'')
                 | Some h \<Rightarrow>
                     bindE (strict_keys h [''format_abi'', ''logical_start'', ''logical_end'', ''records'']) (\<lambda>_.
                     if \<not> py_eq (jget h ''format_abi'') (JInt FORMAT_ABI)
                     then Inl (CacheFormatError ''unsupported chunk header'')
                     else
                       (case the_list (jget h ''records'') of
                          None \<Rightarrow> Inl (CacheFormatError ''unsupported chunk header'')
                        | Some items \<Rightarrow>
                            (let payload = drop header_end encoded in
                             bindE (decode_records verify payload 0 (\<lambda>_. None) items) (\<lambda>(claimed, recs).
                             if claimed \<noteq> int (length payload)
                             then Inl (CacheFormatError ''chunk payload contains unclaimed bytes'')
                             else
                               as_format_error
                                 (bindE (py_int (jget h ''logical_start'')) (\<lambda>s.
                                  bindE (py_int (jget h ''logical_end'')) (\<lambda>e.
                                  ContextChunk s e recs)))))))))))"

section \<open>Reading back what was written\<close>

lemma length_little_endian [simp]: "length (little_endian k n) = k"
  by (induction k arbitrary: n) auto

lemma of_little_endian [simp]: "n < 256 ^ k \<Longrightarrow> of_little_endian (little_endian k n) = n"
proof (induction k arbitrary: n)
  case (Suc k)
  then have "n div 256 < 256 ^ k" by (simp add: less_mult_imp_div_less mult.commute)
  with Suc.IH show ?case by simp
qed simp

definition valid_chunk :: "context_chunk \<Rightarrow> bool" where
  "valid_chunk c \<longleftrightarrow> ContextChunk (logical_start c) (logical_end c) (records c) = Inr c"

lemma ContextChunk_Inr: "ContextChunk s e recs = Inr c \<Longrightarrow>
    c = \<lparr>logical_start = s, logical_end = e, records = recs\<rparr> \<and> valid_chunk c"
  by (auto simp: ContextChunk_def valid_chunk_def split: if_splits)

lemma valid_chunk_facts:
  assumes "valid_chunk c"
  shows "0 \<le> logical_start c" "logical_start c < logical_end c" "\<exists>k. records c k \<noteq> None"
    "records c k \<noteq> Some []"
proof -
  have k: "k \<in> set sorted_records" for k by (cases k) (auto simp: sorted_records_def)
  show "0 \<le> logical_start c" "logical_start c < logical_end c" "\<exists>k. records c k \<noteq> None"
    "records c k \<noteq> Some []"
    using assms k by (auto simp: valid_chunk_def ContextChunk_def split: if_splits)
qed

lemma record_descriptor_read:
  "sorted_json (JObj [(''kind'', JStr a), (''offset'', JInt n), (''length'', JInt m), (''sha256'', JStr b)])
   = JObj [(''kind'', JStr a), (''length'', JInt m), (''offset'', JInt n), (''sha256'', JStr b)]"
  by simp

lemma writable_descriptors: "writable_list (record_descriptors off rs)"
  by (induction off rs rule: record_descriptors.induct) auto

lemma writable_header: "writable (chunk_header c)"
  by (simp add: chunk_header_def writable_descriptors)


lemma record_kind_value [simp]: "record_kind (JStr (record_value k)) = Some k"
  by simp

lemma decode_written_records:
  assumes "distinct (map fst rs)" "\<forall>k\<in>fst ` set rs. recs k = None" "length pre = nat off" "0 \<le> off"
  shows "decode_records verify (pre @ concat (map snd rs)) off recs (sorted_list (record_descriptors off rs))
       = Inr (off + int (length (concat (map snd rs))), recs ++ map_of rs)"
  using assms
proof (induction rs arbitrary: off recs pre)
  case (Cons p rs)
  obtain k v where p: "p = (k, v)" by (cases p)
  define rest where "rest = concat (map snd rs)"
  have len: "length (pre @ v) = nat (off + int (length v))" using Cons.prems by simp
  have "decode_records verify ((pre @ v) @ rest) (off + int (length v)) (recs(k \<mapsto> v))
      (sorted_list (record_descriptors (off + int (length v)) rs))
    = Inr (off + int (length v) + int (length rest), recs(k \<mapsto> v) ++ map_of rs)"
    unfolding rest_def by (rule Cons.IH) (use Cons.prems p len in \<open>auto simp: image_iff\<close>)
  moreover have "recs(k \<mapsto> v) ++ map_of rs = recs ++ map_of (p # rs)"
  proof -
    have "map_of rs k = None" using Cons.prems(1) p by (simp add: map_of_eq_None_iff)
    then show ?thesis using p by (simp add: map_add_upd_left domIff)
  qed
  moreover have "recs k = None" using Cons.prems p by simp
  ultimately show ?case
    using Cons.prems(3,4) p
    by (simp add: strict_keys_def insert_commute rest_def [symmetric]) (simp add: fun_eq_iff map_add_def split: option.splits)
qed simp

lemma present_facts:
  "distinct ks \<Longrightarrow> distinct (map fst (present recs ks))"
  "fst ` set (present recs ks) \<subseteq> set ks"
  "map_of (present recs ks) k = (if k \<in> set ks then recs k else None)"
proof -
  show keys: "fst ` set (present recs ks) \<subseteq> set ks" for ks by (induction ks) (auto split: option.splits)
  show "distinct ks \<Longrightarrow> distinct (map fst (present recs ks))"
    by (induction ks) (use keys in \<open>auto split: option.splits\<close>)
  show "map_of (present recs ks) k = (if k \<in> set ks then recs k else None)"
    by (induction ks) (auto split: option.splits)
qed

lemma sorted_records_all [simp]: "set sorted_records = UNIV" "distinct sorted_records"
  using state_record.exhaust by (auto simp: sorted_records_def)

lemma decode_encode:
  assumes "valid_chunk c" "encode_chunk c = Inr b" shows "decode_chunk verify b = Inr c"
proof -
  define header where "header = canonical_json (chunk_header c)"
  define rs where "rs = present (records c) sorted_records"
  define payload where "payload = concat (map snd rs)"
  have b: "b = CHUNK_MAGIC @ little_endian 4 (nat FORMAT_ABI) @ little_endian 4 (length header) @ header @ payload"
    and n: "length header < 2 ^ 32"
    using assms(2) by (auto simp: encode_chunk_def Let_def header_def payload_def rs_def split: if_splits)
  have pieces: "take 8 b = CHUNK_MAGIC" "take 4 (drop 8 b) = little_endian 4 (nat FORMAT_ABI)"
    "take 4 (drop 12 b) = little_endian 4 (length header)" "drop PREFIX_SIZE b = header @ payload"
    "length b = PREFIX_SIZE + length header + length payload"
    by (simp_all add: b CHUNK_MAGIC_def PREFIX_SIZE_def)
  have h: "json_loads header = Some (sorted_json (chunk_header c))"
    unfolding header_def by (rule json_loads_canonical [OF writable_header])
  have recs: "decode_records verify ([] @ payload) 0 (\<lambda>_. None) (sorted_list (record_descriptors 0 rs))
      = Inr (0 + int (length payload), (\<lambda>_. None) ++ map_of rs)"
    unfolding payload_def
    by (rule decode_written_records) (simp_all add: rs_def present_facts(1))
  have all: "map_of rs = records c" by (simp add: rs_def present_facts(3) fun_eq_iff)
  have "drop (PREFIX_SIZE + length header) b = payload"
    using arg_cong [OF pieces(4), of "drop (length header)"] by (simp add: add.commute)
  moreover define d where "d = [(''format_abi'', JInt FORMAT_ABI), (''logical_end'', JInt (logical_end c)),
      (''logical_start'', JInt (logical_start c)), (''records'', JList (sorted_list (record_descriptors 0 rs)))]"
  moreover have "sorted_json (chunk_header c) = JObj d"
    by (simp add: chunk_header_def d_def rs_def)
  moreover have "set (dkeys d) = set [''format_abi'', ''logical_start'', ''logical_end'', ''records'']"
    by (simp add: d_def insert_commute)
  moreover have "jget d ''format_abi'' = JInt FORMAT_ABI" "jget d ''logical_start'' = JInt (logical_start c)"
    "jget d ''logical_end'' = JInt (logical_end c)"
    "jget d ''records'' = JList (sorted_list (record_descriptors 0 rs))"
    by (simp_all add: d_def)
  moreover have "take (length header) (drop PREFIX_SIZE b) = header" by (simp add: pieces(4))
  moreover have "of_little_endian (little_endian 4 (length header)) = length header"
    "of_little_endian (little_endian 4 (nat FORMAT_ABI)) = nat FORMAT_ABI"
    using n by (simp_all add: FORMAT_ABI_def)
  ultimately show ?thesis
    using pieces(1-3,5) h recs all assms(1)
    by (simp add: decode_chunk_def strict_keys_def valid_chunk_def del: py_eq.simps add: py_eq_ints)
qed


section \<open>Every byte is accounted for\<close>

lemma decode_records_Cons:
  assumes "decode_records verify payload off recs (item # items) = Inr r"
  obtains k len v where "recs k = None" "0 \<le> off" "0 \<le> len"
    "v = take (nat len) (drop (nat off) payload)" "int (length v) = len"
    "decode_records verify payload (off + len) (recs(k \<mapsto> v)) items = Inr r"
  using assms
  by (auto simp: bindE_Inr Let_def split: option.splits if_splits)

lemma decode_records_sound:
  assumes "decode_records verify payload off recs items = Inr (claimed, recs')" "0 \<le> off"
  shows "\<exists>ks. distinct ks \<and> set ks \<inter> dom recs = {} \<and> dom recs' = dom recs \<union> set ks
    \<and> (\<forall>k\<in>dom recs. recs' k = recs k)
    \<and> off \<le> claimed \<and> take (nat (claimed - off)) (drop (nat off) payload) = concat (map (\<lambda>k. the (recs' k)) ks)"
  using assms
proof (induction items arbitrary: off recs)
  case Nil
  then show ?case by (intro exI [of _ "[]"]) simp
next
  case (Cons item items)
  from Cons.prems(1) obtain k len v where s: "recs k = None" "0 \<le> off" "0 \<le> len"
    "v = take (nat len) (drop (nat off) payload)" "int (length v) = len"
    "decode_records verify payload (off + len) (recs(k \<mapsto> v)) items = Inr (claimed, recs')"
    by (rule decode_records_Cons)
  have "0 \<le> off + len" using s(2,3) by simp
  from Cons.IH [OF s(6) this] obtain ks where ks: "distinct ks" "set ks \<inter> dom (recs(k \<mapsto> v)) = {}"
    "dom recs' = dom (recs(k \<mapsto> v)) \<union> set ks" "\<forall>j\<in>dom (recs(k \<mapsto> v)). recs' j = (recs(k \<mapsto> v)) j"
    "off + len \<le> claimed"
    "take (nat (claimed - (off + len))) (drop (nat (off + len)) payload) = concat (map (\<lambda>k. the (recs' k)) ks)"
    by blast
  have "nat (claimed - off) = nat len + nat (claimed - (off + len))" "nat (off + len) = nat len + nat off"
    using s(2,3) ks(5) by auto
  then have "take (nat (claimed - off)) (drop (nat off) payload) = v @ concat (map (\<lambda>k. the (recs' k)) ks)"
    using ks(6) s(4) by (simp add: take_add)
  moreover have "recs' k = Some v" "k \<notin> set ks" using ks(2,4) by auto
  moreover have "\<forall>j\<in>dom recs. recs' j = recs j" using ks(4) s(1) by (auto simp: dom_def)
  ultimately show ?case using ks s(1,3)
    by (intro exI [of _ "k # ks"]) auto
qed

definition header_length :: "string \<Rightarrow> nat" where
  "header_length b = of_little_endian (take 4 (drop 12 b))"

lemma decode_chunk_Inr:
  assumes "decode_chunk verify b = Inr c"
  obtains h items claimed recs s e where
    "json_loads (take (header_length b) (drop PREFIX_SIZE b)) = Some (JObj h)"
    "jget h ''records'' = JList items"
    "decode_records verify (drop (PREFIX_SIZE + header_length b) b) 0 (\<lambda>_. None) items = Inr (claimed, recs)"
    "claimed = int (length (drop (PREFIX_SIZE + header_length b) b))"
    "py_int (jget h ''logical_start'') = Inr s" "py_int (jget h ''logical_end'') = Inr e"
    "ContextChunk s e recs = Inr c"
  using assms
  unfolding decode_chunk_def Let_def header_length_def [symmetric]
  by (auto simp: bindE_Inr split: if_splits option.splits prod.splits simp del: py_eq.simps)

lemma decode_accounts:
  assumes "decode_chunk verify b = Inr c"
  shows "valid_chunk c \<and> (\<exists>ks. distinct ks \<and> set ks = dom (records c)
    \<and> drop (PREFIX_SIZE + header_length b) b = concat (map (\<lambda>k. the (records c k)) ks))"
proof -
  from assms obtain h items claimed recs s e where d:
    "decode_records verify (drop (PREFIX_SIZE + header_length b) b) 0 (\<lambda>_. None) items = Inr (claimed, recs)"
    "claimed = int (length (drop (PREFIX_SIZE + header_length b) b))" "ContextChunk s e recs = Inr c"
    by (rule decode_chunk_Inr)
  from decode_records_sound [OF d(1)] obtain ks where "distinct ks" "dom recs = set ks"
    "take (nat claimed) (drop (PREFIX_SIZE + header_length b) b) = concat (map (\<lambda>k. the (recs k)) ks)"
    by auto
  then show ?thesis using d(2) ContextChunk_Inr [OF d(3)] by (auto intro!: exI [of _ ks])
qed

end
