(* ===== verification/Manifest_Format.thy ===== *)
theory Manifest_Format
  imports Context_Chunk
begin

text \<open>
  The roots of the manifest store (\<open>cache_manifest.py\<close>) and their validators: plain manifests, prefix
  segments and aliases, copy-on-write tail manifests, flat page snapshots and page deltas. A validator
  is given whatever JSON was read and either raises or returns the descriptors of the objects the
  root refers to, as dictionaries.
\<close>

record entry_key =
  ek_storage :: string
  ek_context :: string
  ek_root_kind :: string

definition EntryKey :: "string \<Rightarrow> string \<Rightarrow> entry_key" where
  "EntryKey s c = \<lparr>ek_storage = s, ek_context = c, ek_root_kind = ''manifest''\<rparr>"

definition CHUNK_KEYS :: "string list" where
  "CHUNK_KEYS = [''sha256'', ''bytes'', ''logical_start'', ''logical_end'']"

definition dicts :: "json list \<Rightarrow> jdict list" where
  "dicts vs = List.map_filter the_obj vs"

section \<open>Plain manifests\<close>

text \<open>The loop over the chunk descriptors: contiguous from \<open>start\<close>, every chunk full but the last.\<close>

fun check_chunks :: "int \<Rightarrow> int \<Rightarrow> json list \<Rightarrow> exn + int" where
  "check_chunks full start [] = Inr start"
| "check_chunks full start (v # vs) =
     (case the_obj v of
        None \<Rightarrow> Inl (CacheFormatError ''chunk descriptor is not an object'')
      | Some d \<Rightarrow>
          bindE (strict_keys d CHUNK_KEYS) (\<lambda>_.
          bindE (validate_digest (jget d ''sha256'')) (\<lambda>_.
          if \<not> int_where (\<lambda>n. n > 0) (jget d ''bytes'')
          then Inl (CacheFormatError ''chunk bytes must be a positive integer'')
          else
            (case (the_int (jget d ''logical_start''), the_int (jget d ''logical_end'')) of
               (Some s, Some e) \<Rightarrow>
                 if s \<noteq> start \<or> e \<le> start
                 then Inl (CacheFormatError ''non-contiguous logical chunk range'')
                 else if e - s > full \<or> (vs \<noteq> [] \<and> e - s \<noteq> full)
                 then Inl (CacheFormatError ''chunk range disagrees with identity geometry'')
                 else check_chunks full e vs
             | _ \<Rightarrow> Inl (CacheFormatError ''non-contiguous logical chunk range'')))))"

definition same_identity :: "json \<Rightarrow> cache_identity \<Rightarrow> bool" where
  "same_identity wire i \<longleftrightarrow> py_eq wire (to_wire i)"

definition validate_manifest_metadata ::
    "json \<Rightarrow> entry_key \<Rightarrow> cache_identity option \<Rightarrow> exn + jdict list" where
  "validate_manifest_metadata manifest key expected =
     (case the_obj manifest of
        None \<Rightarrow> Inl (CacheFormatError ''manifest is not an object'')
      | Some m \<Rightarrow>
          bindE (strict_keys m [''format_abi'', ''identity'', ''context_digest'', ''committed_tokens'', ''chunks'']) (\<lambda>_.
          case the_obj (jget m ''identity'') of
            None \<Rightarrow> Inl (CacheFormatError ''manifest identity is not an object'')
          | Some w \<Rightarrow>
              if \<not> wire_identity_ok w then Inl (CacheFormatError ''manifest identity is invalid'')
              else if jget m ''format_abi'' \<noteq> JInt FORMAT_ABI
                \<or> sha256 (canonical_json (JObj w)) \<noteq> ek_storage key
                \<or> jget m ''context_digest'' \<noteq> JStr (ek_context key)
                \<or> (case expected of None \<Rightarrow> False
                   | Some i \<Rightarrow> \<not> same_identity (JObj w) i
                       \<or> canonical_json (JObj w) \<noteq> canonical_json (to_wire i))
              then Inl (if expected \<noteq> None then IncompatibleManifest ''manifest identity differs''
                        else CacheFormatError ''manifest identity differs'')
              else if \<not> int_where (\<lambda>n. n > 0) (jget m ''committed_tokens'')
              then Inl (CacheFormatError ''committed_tokens must be a positive integer'')
              else
                (case (the_list (jget m ''chunks''), the_int (jget w ''chunk_tokens'')) of
                   (Some chunks, Some full) \<Rightarrow>
                     if chunks = [] then Inl (CacheFormatError ''manifest has no chunks'')
                     else bindE (check_chunks full 0 chunks) (\<lambda>stop.
                       if JInt stop \<noteq> jget m ''committed_tokens''
                       then Inl (CacheFormatError ''committed token count mismatch'')
                       else Inr (dicts chunks))
                 | _ \<Rightarrow> Inl (CacheFormatError ''manifest has no chunks''))))"

section \<open>Prefix segments and aliases\<close>

definition PREFIX_SEGMENT_SCHEMA :: string where
  "PREFIX_SEGMENT_SCHEMA = ''sparkcache-prefix-descriptor-segment/v1''"
definition PREFIX_ALIAS_SCHEMA :: string where
  "PREFIX_ALIAS_SCHEMA = ''sparkcache-prefix-alias/v1''"
definition TAIL_MANIFEST_SCHEMA :: string where
  "TAIL_MANIFEST_SCHEMA = ''sparkcache-tail-manifest/v1''"
definition PREFIX_SEGMENT_DESCRIPTORS :: int where
  "PREFIX_SEGMENT_DESCRIPTORS = 16"

fun check_descriptor_dicts :: "json list \<Rightarrow> exn + unit" where
  "check_descriptor_dicts [] = Inr ()"
| "check_descriptor_dicts (v # vs) =
     (case the_obj v of
        None \<Rightarrow> Inl (CacheFormatError ''prefix chunk descriptor is not an object'')
      | Some d \<Rightarrow> bindE (strict_keys d CHUNK_KEYS) (\<lambda>_. check_descriptor_dicts vs))"

definition validate_prefix_segment :: "json \<Rightarrow> string \<Rightarrow> int \<Rightarrow> exn + jdict list" where
  "validate_prefix_segment segment key first =
     (case the_obj segment of
        None \<Rightarrow> Inl (CacheFormatError ''prefix descriptor segment is not an object'')
      | Some g \<Rightarrow>
          bindE (strict_keys g [''schema'', ''storage_key'', ''parent_sha256'', ''first_chunk_index'', ''descriptors'']) (\<lambda>_.
          if jget g ''schema'' \<noteq> JStr PREFIX_SEGMENT_SCHEMA \<or> jget g ''storage_key'' \<noteq> JStr key
            \<or> jget g ''first_chunk_index'' \<noteq> JInt first
          then Inl (CacheFormatError ''prefix descriptor segment identity differs'')
          else bindE (if jget g ''parent_sha256'' \<noteq> JNull
                      then format_digest (jget g ''parent_sha256'') else Inr ()) (\<lambda>_.
            case the_list (jget g ''descriptors'') of
              None \<Rightarrow> Inl (CacheFormatError ''prefix descriptor segment size is invalid'')
            | Some ds \<Rightarrow>
                if ds = [] \<or> int (length ds) > PREFIX_SEGMENT_DESCRIPTORS
                then Inl (CacheFormatError ''prefix descriptor segment size is invalid'')
                else bindE (check_descriptor_dicts ds) (\<lambda>_. Inr (dicts ds)))))"

text \<open>The digest over the rest of a root that carries its own \<open>metadata_sha256\<close>.\<close>

definition metadata_authentic :: "jdict \<Rightarrow> bool" where
  "metadata_authentic d \<longleftrightarrow>
     jget d ''metadata_sha256'' = JStr (sha256 (canonical_json (JObj (ddel ''metadata_sha256'' d))))"

definition validate_prefix_alias :: "json \<Rightarrow> cache_identity \<Rightarrow> string \<Rightarrow> exn + int \<times> int \<times> string" where
  "validate_prefix_alias alias i context =
     (case the_obj alias of
        None \<Rightarrow> Inl (CacheFormatError ''prefix alias is not an object'')
      | Some a \<Rightarrow>
          bindE (strict_keys a [''schema'', ''format_abi'', ''storage_mode'', ''identity'', ''context_digest'',
            ''committed_tokens'', ''chunk_count'', ''tail_segment_sha256'', ''source_manifest_digest'',
            ''metadata_sha256'']) (\<lambda>_.
          if jget a ''schema'' \<noteq> JStr PREFIX_ALIAS_SCHEMA \<or> jget a ''format_abi'' \<noteq> JInt FORMAT_ABI
            \<or> jget a ''storage_mode'' \<noteq> JStr ''per_token_rows''
            \<or> \<not> same_identity (jget a ''identity'') i
            \<or> jget a ''context_digest'' \<noteq> JStr context
          then Inl (IncompatibleManifest ''prefix alias identity differs'')
          else
            (case (the_int (jget a ''committed_tokens''), the_int (jget a ''chunk_count'')) of
               (Some tokens, Some count) \<Rightarrow>
                 if tokens \<le> 0 \<or> count \<le> 0
                 then Inl (CacheFormatError ''prefix alias geometry is invalid'')
                 else
                   bindE (format_digest (jget a ''tail_segment_sha256'')) (\<lambda>_.
                   bindE (format_digest (jget a ''source_manifest_digest'')) (\<lambda>_.
                   bindE (format_digest (jget a ''metadata_sha256'')) (\<lambda>_.
                   if \<not> metadata_authentic a
                   then Inl (CacheFormatError ''prefix alias metadata checksum mismatch'')
                   else
                     (case the_str (jget a ''tail_segment_sha256'') of
                        None \<Rightarrow> Inl (CacheFormatError ''tail_segment_sha256'')
                      | Some t \<Rightarrow> Inr (tokens, count, t)))))
             | _ \<Rightarrow> Inl (CacheFormatError ''prefix alias geometry is invalid''))))"

section \<open>Tail manifests\<close>

record tail_root =
  tr_committed :: int
  tr_reused :: int
  tr_chunk_count :: int
  tr_segment :: "string option"
  tr_chunks :: "json list"

definition TAIL_KEYS :: "string list" where
  "TAIL_KEYS = [''schema'', ''format_abi'', ''identity'', ''context_digest'', ''committed_tokens'',
     ''base_context_digest'', ''base_manifest_sha256'', ''base_committed_tokens'', ''reused_tokens'',
     ''base_chunk_count'', ''base_tail_segment_sha256'', ''tail_chunks'', ''metadata_sha256'']"

definition validate_tail_manifest_root :: "json \<Rightarrow> cache_identity \<Rightarrow> string \<Rightarrow> exn + tail_root" where
  "validate_tail_manifest_root manifest i context =
     (case the_obj manifest of
        None \<Rightarrow> Inl (CacheFormatError ''tail manifest is not an object'')
      | Some m \<Rightarrow>
          bindE (strict_keys m TAIL_KEYS) (\<lambda>_.
          bindE (format_digest (jget m ''base_context_digest'')) (\<lambda>_.
          bindE (format_digest (jget m ''base_manifest_sha256'')) (\<lambda>_.
          bindE (format_digest (jget m ''metadata_sha256'')) (\<lambda>_.
          if \<not> metadata_authentic m
          then Inl (CacheFormatError ''tail manifest metadata checksum mismatch'')
          else if jget m ''schema'' \<noteq> JStr TAIL_MANIFEST_SCHEMA \<or> jget m ''format_abi'' \<noteq> JInt FORMAT_ABI
            \<or> publication_schema i \<noteq> ''tail-cow-v1''
            \<or> \<not> same_identity (jget m ''identity'') i
            \<or> jget m ''context_digest'' \<noteq> JStr context
          then Inl (IncompatibleManifest ''tail manifest identity differs'')
          else
            (case (the_int (jget m ''committed_tokens''), the_int (jget m ''base_committed_tokens''),
                   the_int (jget m ''reused_tokens''), the_int (jget m ''base_chunk_count'')) of
               (Some committed, Some base, Some reused, Some count) \<Rightarrow>
                 if \<not> (committed > base \<and> base > 0 \<and> 0 \<le> reused \<and> reused \<le> base
                       \<and> reused mod chunk_tokens i = 0 \<and> count = reused div chunk_tokens i)
                 then Inl (CacheFormatError ''tail manifest boundary geometry differs'')
                 else
                   bindE (if count = 0
                          then (if jget m ''base_tail_segment_sha256'' \<noteq> JNull
                                then Inl (CacheFormatError ''tail manifest has a segment without base chunks'')
                                else Inr None)
                          else (case the_str (jget m ''base_tail_segment_sha256'') of
                                  None \<Rightarrow> Inl (CacheFormatError ''tail manifest base descriptor chain is missing'')
                                | Some t \<Rightarrow> bindE (format_digest (JStr t)) (\<lambda>_. Inr (Some t)))) (\<lambda>segment.
                   case the_list (jget m ''tail_chunks'') of
                     None \<Rightarrow> Inl (CacheFormatError ''tail manifest has no tail chunks'')
                   | Some tail \<Rightarrow>
                       if tail = [] then Inl (CacheFormatError ''tail manifest has no tail chunks'')
                       else bindE (check_descriptor_dicts tail) (\<lambda>_.
                         Inr \<lparr>tr_committed = committed, tr_reused = reused, tr_chunk_count = count,
                              tr_segment = segment, tr_chunks = tail\<rparr>))
             | _ \<Rightarrow> Inl (CacheFormatError ''tail manifest token and chunk counts must be integers'')))))))"

end
