(* ===== verification/Page_Roots.thy ===== *)
theory Page_Roots
  imports Manifest_Format
begin

text \<open>
  Payload objects and the roots of page storage (\<open>cache_manifest.py\<close>): the three integrity modes of an
  object descriptor, flat page snapshots, the three schemas of page deltas and the bounded walk of a
  page graph to the descriptors it refers to.
\<close>

section \<open>Object descriptors\<close>

definition FLAT_PAGE_SCHEMAS :: "string list" where
  "FLAT_PAGE_SCHEMAS = [''page-tail-cow-v2'', ''page-tail-cow-v3-fast'', ''page-tail-cow-v3-none'']"

definition PAGE_TAIL_SCHEMAS :: "string list" where
  "PAGE_TAIL_SCHEMAS = ''page-tail-cow-v1'' # FLAT_PAGE_SCHEMAS"

definition payload_integrity :: "string \<Rightarrow> string" where
  "payload_integrity s =
     (if s = ''page-tail-cow-v3-fast'' then ''fast''
      else if s = ''page-tail-cow-v3-none'' then ''none'' else ''sha256'')"

definition boundary_token :: "string \<Rightarrow> int \<Rightarrow> string" where
  "boundary_token context_digest tokens =
     sha256 (''sparkcache-boundary-token/v1'' @ [CHR 0x00] @ context_digest @ '':'' @ enc_int tokens)"

definition derived_object_name :: "cache_identity \<Rightarrow> string \<Rightarrow> string \<Rightarrow> int \<Rightarrow> string \<Rightarrow> string" where
  "derived_object_name i context_digest kind index nonce =
     sha256 (''sparkcache-object-name/v1'' @ [CHR 0x00] @ storage_key i @ '':'' @ context_digest
             @ '':'' @ kind @ '':'' @ enc_int index @ '':'' @ nonce)"

definition object_descriptor :: "string \<Rightarrow> string \<Rightarrow> string \<Rightarrow> int \<Rightarrow> int \<Rightarrow> jdict" where
  "object_descriptor integrity name encoded start stop =
     [(''sha256'', JStr name), (''bytes'', JInt (int (length encoded))),
      (''encoded_start'', JInt start), (''encoded_end'', JInt stop)]
     @ (if integrity = ''fast'' then [(''crc32'', JInt (crc32 encoded))]
        else if integrity = ''none'' then [(''crc32'', JNull)] else [])"

definition descriptor_integrity :: "jdict \<Rightarrow> string" where
  "descriptor_integrity d =
     (case map_of d ''crc32'' of
        None \<Rightarrow> ''sha256'' | Some v \<Rightarrow> if v = JNull then ''none'' else ''fast'')"

text \<open>An absent field raises \<open>KeyError\<close>; \<open>int()\<close> may raise as well.\<close>

definition payload_matches_descriptor :: "jdict \<Rightarrow> string \<Rightarrow> exn + bool" where
  "payload_matches_descriptor d encoded =
     (case map_of d ''bytes'' of
        None \<Rightarrow> Inl KeyError
      | Some n \<Rightarrow>
          bindE (py_int n) (\<lambda>n.
          if int (length encoded) \<noteq> n then Inr False
          else if descriptor_integrity d = ''sha256''
          then (case map_of d ''sha256'' of
                  None \<Rightarrow> Inl KeyError | Some v \<Rightarrow> Inr (v = JStr (sha256 encoded)))
          else if descriptor_integrity d = ''fast''
          then Inr (py_eq (JInt (crc32 encoded)) (jget d ''crc32''))
          else Inr True))"

definition validate_object_descriptor_keys :: "jdict \<Rightarrow> exn + unit" where
  "validate_object_descriptor_keys d =
     (if ''crc32'' \<notin> set (dkeys d)
      then strict_keys d [''sha256'', ''bytes'', ''encoded_start'', ''encoded_end'']
      else if jget d ''crc32'' \<noteq> JNull
        \<and> \<not> int_where (\<lambda>n. 0 \<le> n \<and> n \<le> 0xFFFFFFFF) (jget d ''crc32'')
      then Inl (CacheFormatError ''crc32 is invalid'')
      else strict_keys d [''sha256'', ''bytes'', ''encoded_start'', ''encoded_end'', ''crc32''])"

text \<open>The loop over object descriptors: contiguous from \<open>start\<close>, every object of \<open>full\<close> bytes but the
  last, which is at most that.\<close>

fun check_objects :: "(jdict \<Rightarrow> exn + unit) \<Rightarrow> int \<Rightarrow> int \<Rightarrow> json list \<Rightarrow> exn + int" where
  "check_objects keys full start [] = Inr start"
| "check_objects keys full start (v # vs) =
     (case the_obj v of
        None \<Rightarrow> Inl (CacheFormatError ''object descriptor is not an object'')
      | Some d \<Rightarrow>
          bindE (keys d) (\<lambda>_.
          bindE (format_digest (jget d ''sha256'')) (\<lambda>_.
          case (the_int (jget d ''bytes''), the_int (jget d ''encoded_start''), the_int (jget d ''encoded_end'')) of
            (Some n, Some s, Some e) \<Rightarrow>
              if n \<le> 0 \<or> s \<noteq> start \<or> e \<noteq> s + n \<or> (vs \<noteq> [] \<and> n \<noteq> full) \<or> n > full
              then Inl (CacheFormatError ''object descriptor geometry differs'')
              else check_objects keys full e vs
          | _ \<Rightarrow> Inl (CacheFormatError ''object descriptor geometry differs''))))"

section \<open>Page snapshots\<close>

definition PAGE_SNAPSHOT_SCHEMA :: string where
  "PAGE_SNAPSHOT_SCHEMA = ''sparkcache-page-snapshot-manifest/v2''"
definition PAGE_DELTA_SCHEMA :: string where
  "PAGE_DELTA_SCHEMA = ''sparkcache-page-delta-manifest/v1''"
definition PAGE_DELTA_SCHEMA_V2 :: string where
  "PAGE_DELTA_SCHEMA_V2 = ''sparkcache-page-delta-manifest/v2''"
definition PAGE_DELTA_SCHEMA_V3 :: string where
  "PAGE_DELTA_SCHEMA_V3 = ''sparkcache-page-delta-manifest/v3''"
definition OBJECT_BYTES :: int where "OBJECT_BYTES = 64 * 1024 * 1024"
definition MAX_PAGE_DELTA_DEPTH :: nat where "MAX_PAGE_DELTA_DEPTH = 2"

text \<open>A schema that cannot be hashed makes the set test raise.\<close>

definition is_page_delta_root :: "json \<Rightarrow> exn + bool" where
  "is_page_delta_root v =
     (case the_obj v of
        None \<Rightarrow> Inr False
      | Some d \<Rightarrow>
          if the_list (jget d ''schema'') \<noteq> None \<or> the_obj (jget d ''schema'') \<noteq> None
          then Inl (TypeError ''unhashable type'')
          else Inr (jget d ''schema'' \<in>
            {JStr PAGE_DELTA_SCHEMA, JStr PAGE_DELTA_SCHEMA_V2, JStr PAGE_DELTA_SCHEMA_V3}))"

definition is_page_snapshot_root :: "json \<Rightarrow> bool" where
  "is_page_snapshot_root v =
     (case the_obj v of None \<Rightarrow> False | Some d \<Rightarrow> jget d ''schema'' = JStr PAGE_SNAPSHOT_SCHEMA)"

definition SNAPSHOT_KEYS :: "string list" where
  "SNAPSHOT_KEYS = [''schema'', ''format_abi'', ''storage_mode'', ''identity'', ''context_digest'',
     ''committed_tokens'', ''snapshot_encoded_bytes'', ''snapshot_object_bytes'', ''snapshot_objects'',
     ''snapshot_sha256'', ''logical_chunk_tokens'', ''logical_chunk_count'', ''metadata_sha256'']"

definition validate_page_snapshot_root :: "json \<Rightarrow> cache_identity \<Rightarrow> string \<Rightarrow> exn + jdict list" where
  "validate_page_snapshot_root manifest i context_digest =
     (case the_obj manifest of
        None \<Rightarrow> Inl (CacheFormatError ''page snapshot manifest is not an object'')
      | Some m \<Rightarrow>
          bindE (strict_keys m SNAPSHOT_KEYS) (\<lambda>_.
          bindE (format_digest (jget m ''metadata_sha256'')) (\<lambda>_.
          bindE (format_digest (jget m ''snapshot_sha256'')) (\<lambda>_.
          if \<not> metadata_authentic m
          then Inl (CacheFormatError ''page snapshot metadata checksum mismatch'')
          else if jget m ''schema'' \<noteq> JStr PAGE_SNAPSHOT_SCHEMA \<or> jget m ''format_abi'' \<noteq> JInt FORMAT_ABI
            \<or> jget m ''storage_mode'' \<noteq> JStr ''block_pages_v1''
            \<or> publication_schema i \<notin> set ('''' # PAGE_TAIL_SCHEMAS)
            \<or> required_records i \<noteq> {TARGET_CKV, LOGICAL_POSITIONS}
            \<or> \<not> same_identity (jget m ''identity'') i
            \<or> jget m ''context_digest'' \<noteq> JStr context_digest
          then Inl (IncompatibleManifest ''page snapshot manifest identity differs'')
          else
            (case (the_int (jget m ''committed_tokens''), the_int (jget m ''snapshot_encoded_bytes''),
                   the_int (jget m ''snapshot_object_bytes''), the_int (jget m ''logical_chunk_count'')) of
               (Some committed, Some encoded, Some full, Some count) \<Rightarrow>
                 if committed \<le> 0 \<or> committed mod chunk_tokens i \<noteq> 0 \<or> encoded \<le> 0
                   \<or> \<not> (0 < full \<and> full \<le> OBJECT_BYTES)
                   \<or> \<not> py_eq (jget m ''logical_chunk_tokens'') (JInt (chunk_tokens i))
                   \<or> count \<noteq> committed div chunk_tokens i
                 then Inl (CacheFormatError ''page snapshot object geometry differs'')
                 else
                   (case the_list (jget m ''snapshot_objects'') of
                      None \<Rightarrow> Inl (CacheFormatError ''page snapshot object descriptors are invalid'')
                    | Some objects \<Rightarrow>
                        if objects = []
                        then Inl (CacheFormatError ''page snapshot object descriptors are invalid'')
                        else
                          bindE (check_objects validate_object_descriptor_keys full 0 objects) (\<lambda>stop.
                          if stop \<noteq> encoded
                          then Inl (CacheFormatError ''page snapshot object coverage differs'')
                          else Inr (dicts objects)))
             | _ \<Rightarrow> Inl (CacheFormatError ''page snapshot object geometry differs''))))))"


section \<open>Page deltas\<close>

text \<open>One stage of a flat delta: it must start where the previous one ended. The state is the digest, the
  boundary and the block counts reached so far.\<close>

record delta_point =
  dp_digest :: json
  dp_tokens :: int
  dp_counts :: json

definition STAGE_KEYS :: "string list" where
  "STAGE_KEYS = [''context_digest'', ''committed_tokens'', ''base_context_digest'', ''base_committed_tokens'',
     ''base_block_counts'', ''result_block_counts'', ''delta_encoded_bytes'', ''delta_object_bytes'',
     ''delta_objects'', ''delta_sha256'']"

definition check_stage ::
    "cache_identity \<Rightarrow> nat \<Rightarrow> delta_point \<Rightarrow> json \<Rightarrow> exn + delta_point \<times> json list" where
  "check_stage i width prior stage =
     (case the_obj stage of
        None \<Rightarrow> Inl (CacheFormatError ''flat page delta stage is not an object'')
      | Some g \<Rightarrow>
          bindE (strict_keys g (STAGE_KEYS @
            (if publication_schema i \<noteq> ''page-tail-cow-v2'' then [''header_sha256''] else []))) (\<lambda>_.
          bindE (format_digest (jget g ''context_digest'')) (\<lambda>_.
          bindE (format_digest (jget g ''delta_sha256'')) (\<lambda>_.
          bindE (if ''header_sha256'' \<in> set (dkeys g) then format_digest (jget g ''header_sha256'') else Inr ()) (\<lambda>_.
          (case (the_int (jget g ''committed_tokens''), the_list (jget g ''result_block_counts''),
                 the_int (jget g ''delta_encoded_bytes''), the_list (jget g ''delta_objects'')) of
             (Some committed, Some counts, Some encoded, Some objects) \<Rightarrow>
               if \<not> py_eq (jget g ''base_context_digest'') (dp_digest prior)
                 \<or> \<not> py_eq (jget g ''base_committed_tokens'') (JInt (dp_tokens prior))
                 \<or> \<not> py_eq (jget g ''base_block_counts'') (dp_counts prior)
                 \<or> committed \<le> dp_tokens prior \<or> length counts \<noteq> width \<or> encoded \<le> 0
                 \<or> \<not> py_eq (jget g ''delta_object_bytes'') (JInt OBJECT_BYTES) \<or> objects = []
               then Inl (CacheFormatError ''flat page delta stage geometry differs'')
               else
                 bindE (check_objects validate_object_descriptor_keys OBJECT_BYTES 0 objects) (\<lambda>stop.
                 if stop \<noteq> encoded
                 then Inl (CacheFormatError ''flat page delta object coverage differs'')
                 else Inr (\<lparr>dp_digest = jget g ''context_digest'', dp_tokens = committed,
                            dp_counts = JList counts\<rparr>, objects))
           | _ \<Rightarrow> Inl (CacheFormatError ''flat page delta stage geometry differs'')))))))"

fun check_stages ::
    "cache_identity \<Rightarrow> nat \<Rightarrow> delta_point \<Rightarrow> json list \<Rightarrow> exn + delta_point \<times> json list" where
  "check_stages i width prior [] = Inr (prior, [])"
| "check_stages i width prior (g # gs) =
     bindE (check_stage i width prior g) (\<lambda>(p, objects).
     bindE (check_stages i width p gs) (\<lambda>(q, rest). Inr (q, objects @ rest)))"

definition FLAT_DELTA_KEYS :: "string list" where
  "FLAT_DELTA_KEYS = [''schema'', ''format_abi'', ''identity'', ''context_digest'', ''committed_tokens'',
     ''base_context_digest'', ''base_committed_tokens'', ''base_root'', ''base_root_sha256'',
     ''layout_sha256'', ''base_block_counts'', ''result_block_counts'', ''delta_stages'',
     ''logical_chunk_tokens'', ''metadata_sha256'']"

definition base_root_bound :: "jdict \<Rightarrow> bool" where
  "base_root_bound m \<longleftrightarrow> the_obj (jget m ''base_root'') \<noteq> None
     \<and> JStr (sha256 (canonical_json (jget m ''base_root''))) = jget m ''base_root_sha256''"

definition validate_flat_delta_root :: "jdict \<Rightarrow> cache_identity \<Rightarrow> string \<Rightarrow> exn + json \<times> jdict list" where
  "validate_flat_delta_root m i context_digest =
     bindE (strict_keys m FLAT_DELTA_KEYS) (\<lambda>_.
     bindE (format_digest (jget m ''metadata_sha256'')) (\<lambda>_.
     bindE (format_digest (jget m ''context_digest'')) (\<lambda>_.
     bindE (format_digest (jget m ''base_context_digest'')) (\<lambda>_.
     bindE (format_digest (jget m ''base_root_sha256'')) (\<lambda>_.
     bindE (format_digest (jget m ''layout_sha256'')) (\<lambda>_.
     if \<not> metadata_authentic m \<or> \<not> py_eq (jget m ''format_abi'') (JInt FORMAT_ABI)
       \<or> publication_schema i \<notin> set FLAT_PAGE_SCHEMAS
       \<or> \<not> same_identity (jget m ''identity'') i
       \<or> jget m ''context_digest'' \<noteq> JStr context_digest
       \<or> \<not> py_eq (jget m ''logical_chunk_tokens'') (JInt (chunk_tokens i))
       \<or> \<not> base_root_bound m
     then Inl (IncompatibleManifest ''flat page delta manifest identity differs'')
     else
       (case (the_int (jget m ''base_committed_tokens''), the_int (jget m ''committed_tokens''),
              the_list (jget m ''base_block_counts''), the_list (jget m ''result_block_counts''),
              the_list (jget m ''delta_stages'')) of
          (Some base, Some committed, Some base_counts, Some result_counts, Some stages) \<Rightarrow>
            if (committed \<le> base \<and> base \<le> 0) \<or> base_counts = []
              \<or> length result_counts \<noteq> length base_counts \<or> stages = []
            then Inl (CacheFormatError ''flat page delta geometry differs'')
            else
              bindE (check_stages i (length base_counts)
                \<lparr>dp_digest = jget m ''base_context_digest'', dp_tokens = base, dp_counts = JList base_counts\<rparr>
                stages) (\<lambda>(p, objects).
              if \<not> py_eq (dp_digest p) (jget m ''context_digest'') \<or> dp_tokens p \<noteq> committed
                \<or> \<not> py_eq (dp_counts p) (JList result_counts)
              then Inl (CacheFormatError ''flat page delta terminal stage differs'')
              else Inr (jget m ''base_root'', dicts objects))
        | _ \<Rightarrow> Inl (CacheFormatError ''flat page delta geometry differs''))))))))"

definition DELTA_KEYS :: "string list" where
  "DELTA_KEYS = [''schema'', ''format_abi'', ''identity'', ''context_digest'', ''committed_tokens'',
     ''base_context_digest'', ''base_committed_tokens'', ''base_root'', ''base_root_sha256'',
     ''layout_sha256'', ''base_block_counts'', ''result_block_counts'', ''metadata_sha256'']"

text \<open>The comparison is a Python chain: \<open>committed <= base <= 0\<close> is \<open>committed <= base and base <= 0\<close>.\<close>

definition delta_geometry_differs :: "jdict \<Rightarrow> bool" where
  "delta_geometry_differs m \<longleftrightarrow>
     (case (the_int (jget m ''committed_tokens''), the_int (jget m ''base_committed_tokens''),
            the_list (jget m ''base_block_counts''), the_list (jget m ''result_block_counts'')) of
        (Some committed, Some base, Some base_counts, Some result_counts) \<Rightarrow>
          (committed \<le> base \<and> base \<le> 0) \<or> \<not> base_root_bound m
          \<or> base_counts = [] \<or> length base_counts \<noteq> length result_counts
      | _ \<Rightarrow> True)"

definition delta_objects :: "jdict \<Rightarrow> cache_identity \<Rightarrow> exn + jdict list" where
  "delta_objects m i =
     bindE (format_digest (jget m ''delta_sha256'')) (\<lambda>_.
     (case (the_int (jget m ''delta_encoded_bytes''), the_int (jget m ''delta_object_bytes'')) of
        (Some encoded, Some full) \<Rightarrow>
          if encoded \<le> 0 \<or> \<not> (0 < full \<and> full \<le> OBJECT_BYTES)
            \<or> \<not> py_eq (jget m ''logical_chunk_tokens'') (JInt (chunk_tokens i))
          then Inl (CacheFormatError ''page delta object geometry differs'')
          else
            (case the_list (jget m ''delta_objects'') of
               None \<Rightarrow> Inl (CacheFormatError ''page delta object descriptors are invalid'')
             | Some objects \<Rightarrow>
                 if objects = []
                 then Inl (CacheFormatError ''page delta object descriptors are invalid'')
                 else
                   bindE (check_objects
                     (\<lambda>d. strict_keys d [''sha256'', ''bytes'', ''encoded_start'', ''encoded_end''])
                     full 0 objects) (\<lambda>stop.
                   if stop \<noteq> encoded
                   then Inl (CacheFormatError ''page delta object coverage differs'')
                   else Inr (dicts objects)))
      | _ \<Rightarrow> Inl (CacheFormatError ''page delta object geometry differs'')))"

definition synthetic_manifest :: "cache_identity \<Rightarrow> string \<Rightarrow> json \<Rightarrow> json \<Rightarrow> json" where
  "synthetic_manifest i context_digest committed chunks = JObj
     [(''format_abi'', JInt FORMAT_ABI), (''identity'', to_wire i),
      (''context_digest'', JStr context_digest), (''committed_tokens'', committed), (''chunks'', chunks)]"

definition validate_page_delta_root :: "json \<Rightarrow> cache_identity \<Rightarrow> string \<Rightarrow> exn + json \<times> jdict list" where
  "validate_page_delta_root manifest i context_digest =
     (case the_obj manifest of
        None \<Rightarrow> Inl (CacheFormatError ''page delta manifest is not an object'')
      | Some m \<Rightarrow>
          if jget m ''schema'' = JStr PAGE_DELTA_SCHEMA_V3 then validate_flat_delta_root m i context_digest
          else if jget m ''schema'' \<notin> {JStr PAGE_DELTA_SCHEMA, JStr PAGE_DELTA_SCHEMA_V2}
          then Inl (IncompatibleManifest ''page delta manifest schema differs'')
          else
            bindE (strict_keys m (DELTA_KEYS @
              (if jget m ''schema'' = JStr PAGE_DELTA_SCHEMA then [''delta_chunks'']
               else [''delta_encoded_bytes'', ''delta_object_bytes'', ''delta_objects'', ''delta_sha256'',
                     ''logical_chunk_tokens'']))) (\<lambda>_.
            bindE (format_digest (jget m ''metadata_sha256'')) (\<lambda>_.
            bindE (format_digest (jget m ''base_context_digest'')) (\<lambda>_.
            bindE (format_digest (jget m ''base_root_sha256'')) (\<lambda>_.
            bindE (format_digest (jget m ''layout_sha256'')) (\<lambda>_.
            if \<not> metadata_authentic m
            then Inl (CacheFormatError ''page delta metadata checksum mismatch'')
            else if \<not> py_eq (jget m ''format_abi'') (JInt FORMAT_ABI)
              \<or> publication_schema i \<noteq> ''page-tail-cow-v1''
              \<or> \<not> same_identity (jget m ''identity'') i
              \<or> jget m ''context_digest'' \<noteq> JStr context_digest
            then Inl (IncompatibleManifest ''page delta manifest identity differs'')
            else if delta_geometry_differs m
            then Inl (CacheFormatError ''page delta manifest geometry differs'')
            else if jget m ''schema'' = JStr PAGE_DELTA_SCHEMA
            then bindE (validate_manifest_metadata
                   (synthetic_manifest i context_digest (jget m ''committed_tokens'') (jget m ''delta_chunks''))
                   (EntryKey (storage_key i) context_digest) (Some i)) (\<lambda>ds. Inr (jget m ''base_root'', ds))
            else bindE (delta_objects m i) (\<lambda>ds. Inr (jget m ''base_root'', ds))))))))"

text \<open>The walk down the bases; the first argument is how many deltas may still be opened.\<close>

fun page_graph_descriptors :: "nat \<Rightarrow> json \<Rightarrow> cache_identity \<Rightarrow> string \<Rightarrow> exn + jdict list" where
  "page_graph_descriptors 0 manifest i context_digest =
     Inl (CacheFormatError ''page delta graph exceeds the depth limit'')"
| "page_graph_descriptors (Suc n) manifest i context_digest =
     bindE (validate_page_delta_root manifest i context_digest) (\<lambda>(base_root, delta).
     case (the_obj manifest, the_obj base_root) of
       (Some m, Some b) \<Rightarrow>
         bindE (is_page_delta_root base_root) (\<lambda>is_delta.
         case the_str (jget m ''base_context_digest'') of
           None \<Rightarrow> Inl (CacheFormatError ''base_context_digest'')
         | Some base_digest \<Rightarrow>
             bindE (if is_delta then page_graph_descriptors n base_root i base_digest
                    else if is_page_snapshot_root base_root
                    then validate_page_snapshot_root base_root i base_digest
                    else validate_manifest_metadata base_root (EntryKey (storage_key i) base_digest) (Some i)) (\<lambda>base.
             if \<not> py_eq (jget b ''committed_tokens'') (jget m ''base_committed_tokens'')
             then Inl (CacheFormatError ''page delta base boundary differs'')
             else Inr (base @ delta)))
     | _ \<Rightarrow> Inl (CacheFormatError ''page delta manifest is not an object''))"

text \<open>How many deltas a root is stacked from; it ends because every base is nested in its delta.\<close>

lemma size_jget: "size (jget d k) < size (JObj d)"
proof (induction d)
  case (Cons p d)
  then show ?case by (cases p) auto
qed simp

function delta_root_count :: "json \<Rightarrow> exn + nat" where
  "delta_root_count root =
     (case the_obj root of
        None \<Rightarrow> Inr 0
      | Some d \<Rightarrow>
          bindE (is_page_delta_root root) (\<lambda>is_delta.
          if is_delta then bindE (delta_root_count (jget d ''base_root'')) (\<lambda>k. Inr (Suc k)) else Inr 0))"
  by pat_completeness auto
termination
  using size_jget by (relation "measure size") (auto simp del: json.size)

declare delta_root_count.simps [simp del]

section \<open>Extents\<close>

text \<open>A byte range of the encoded stream as pieces of the objects: name, object size, offset, length.\<close>

fun extent_pieces ::
    "int \<Rightarrow> int \<Rightarrow> (string \<times> int \<times> int \<times> int) list \<Rightarrow> exn + (string \<times> int \<times> int \<times> int) list \<times> int" where
  "extent_pieces cursor stop [] = Inr ([], cursor)"
| "extent_pieces cursor stop ((name, n, s, e) # ds) =
     (let piece_start = max cursor s; piece_end = min stop e in
      if piece_end \<le> piece_start then extent_pieces cursor stop ds
      else if piece_end = stop
      then Inr ([(name, n, piece_start - s, piece_end - piece_start)], piece_end)
      else bindE (extent_pieces piece_end stop ds) (\<lambda>(ps, c).
             Inr ((name, n, piece_start - s, piece_end - piece_start) # ps, c)))"

definition object_extent_pieces ::
    "(string \<times> int \<times> int \<times> int) list \<Rightarrow> int \<Rightarrow> int \<Rightarrow> exn + (string \<times> int \<times> int \<times> int) list" where
  "object_extent_pieces ds start stop =
     (if start < 0 \<or> stop < start then Inl (CacheFormatError ''page object extent is invalid'')
      else bindE (extent_pieces start stop ds) (\<lambda>(ps, c).
        if c \<noteq> stop then Inl (CacheFormatError ''page object extent is not covered'') else Inr ps))"

end
