(* ===== verification/Manifest_Store.thy ===== *)
theory Manifest_Store
  imports Page_Roots
begin

text \<open>
  The store on disk (\<open>ManifestStore\<close> and \<open>ManifestTransaction\<close> of \<open>cache_manifest.py\<close>): durable
  publication of immutable objects, transactions that append chunks and become visible with one
  manifest. A disk may refuse writes, syncs and unlinks, each path on its own.
\<close>

section \<open>Files\<close>

text \<open>The files below the root, by what the code calls them.\<close>

datatype path =
    Chunk_file string
  | Manifest_file string string
  | Segment_file string string
  | Alias_file string string

datatype directory = Chunks | Manifests string | Segments string | Aliases string

fun parent :: "path \<Rightarrow> directory" where
  "parent (Chunk_file d) = Chunks"
| "parent (Manifest_file s c) = Manifests s"
| "parent (Segment_file s d) = Segments s"
| "parent (Alias_file s c) = Aliases s"

datatype stored = Absent | Unreadable | Content string

text \<open>The files, and which operations the file system refuses: opening a file to write, the directory
  barrier, and removing a file.\<close>

record store =
  files :: "path \<Rightarrow> stored"
  write_fails :: "path \<Rightarrow> bool"
  sync_fails :: "directory \<Rightarrow> bool"
  unlink_fails :: "path \<Rightarrow> bool"

definition read_bytes :: "path \<Rightarrow> store \<Rightarrow> exn + string" where
  "read_bytes p s =
     (case files s p of Absent \<Rightarrow> Inl FileNotFound | Unreadable \<Rightarrow> Inl OSError | Content b \<Rightarrow> Inr b)"

definition put_file :: "path \<Rightarrow> string \<Rightarrow> store \<Rightarrow> store" where
  "put_file p b s = s\<lparr>files := (files s)(p := Content b)\<rparr>"

definition drop_file :: "path \<Rightarrow> store \<Rightarrow> store" where
  "drop_file p s = s\<lparr>files := (files s)(p := Absent)\<rparr>"

text \<open>\<open>Path.unlink\<close>.\<close>

definition unlink_path :: "path \<Rightarrow> store \<Rightarrow> (unit, store) outcome" where
  "unlink_path p s =
     (if files s p = Absent then raises FileNotFound s
      else if unlink_fails s p then raises OSError s
      else returns () (drop_file p s))"

definition manifest_path :: "cache_identity \<Rightarrow> string \<Rightarrow> path" where
  "manifest_path i c = Manifest_file (storage_key i) c"

definition prefix_segment_path :: "cache_identity \<Rightarrow> string \<Rightarrow> path" where
  "prefix_segment_path i d = Segment_file (storage_key i) d"

definition prefix_alias_path :: "cache_identity \<Rightarrow> string \<Rightarrow> path" where
  "prefix_alias_path i c = Alias_file (storage_key i) c"

section \<open>Publication\<close>

definition durable_payload_matches :: "path \<Rightarrow> string \<Rightarrow> store \<Rightarrow> exn + bool" where
  "durable_payload_matches p b s =
     (case files s p of
        Absent \<Rightarrow> Inr False
      | Unreadable \<Rightarrow> Inl (CommitConflict ''cannot verify existing immutable object'')
      | Content x \<Rightarrow> Inr (x = b))"

text \<open>The directory barrier of the \<open>finally\<close> block: its failure replaces whatever came before.\<close>

definition with_barrier :: "directory \<Rightarrow> ('a, store) outcome \<Rightarrow> ('a, store) outcome" where
  "with_barrier d r = (if sync_fails (snd r) d then (Inl OSError, snd r) else r)"

definition publish_immutable :: "path \<Rightarrow> string \<Rightarrow> store \<Rightarrow> (unit, store) outcome" where
  "publish_immutable p b s =
     with_barrier (parent p)
       (case durable_payload_matches p b s of
          Inl e \<Rightarrow> raises e s
        | Inr True \<Rightarrow> returns () s
        | Inr False \<Rightarrow>
            if write_fails s p then raises OSError s
            else if files s p = Absent then returns () (put_file p b s)
            else raises (CommitConflict ''different immutable object already committed'') s)"

text \<open>The first pass of a batch: repeated paths, then what already has the bytes; the rest is staged.\<close>

fun stage_batch ::
    "(path \<times> string) list \<Rightarrow> (path \<times> string) list \<Rightarrow> store \<Rightarrow> exn + (path \<times> string) list" where
  "stage_batch [] seen s = Inr []"
| "stage_batch ((p, b) # objs) seen s =
     (case map_of seen p of
        Some x \<Rightarrow>
          if x \<noteq> b then Inl (CommitConflict ''different immutable payloads in one batch'')
          else stage_batch objs seen s
      | None \<Rightarrow>
          bindE (durable_payload_matches p b s) (\<lambda>same.
          bindE (stage_batch objs ((p, b) # seen) s) (\<lambda>staged.
          Inr (if same then staged else (p, b) # staged))))"

text \<open>The name a content-addressed object must have to be repaired by replacement.\<close>

fun content_addressed :: "path \<Rightarrow> string \<Rightarrow> bool" where
  "content_addressed (Chunk_file d) b = (d = sha256 b)"
| "content_addressed (Segment_file s d) b = (d = sha256 b)"
| "content_addressed (Manifest_file s c) b = (c = sha256 b)"
| "content_addressed (Alias_file s c) b = (c = sha256 b)"

fun link_batch :: "(path \<times> string) list \<Rightarrow> store \<Rightarrow> (unit, store) outcome" where
  "link_batch [] s = returns () s"
| "link_batch ((p, b) # staged) s =
     (if files s p = Absent then link_batch staged (put_file p b s)
      else
        (case durable_payload_matches p b s of
           Inl e \<Rightarrow> raises e s
         | Inr True \<Rightarrow> link_batch staged s
         | Inr False \<Rightarrow>
             if \<not> content_addressed p b
             then raises (CommitConflict ''different immutable object already committed'') s
             else link_batch staged (put_file p b s)))"

definition publish_immutable_batch :: "(path \<times> string) list \<Rightarrow> store \<Rightarrow> (unit, store) outcome" where
  "publish_immutable_batch objs s =
     (case objs of
        [] \<Rightarrow> returns () s
      | (p0, _) # _ \<Rightarrow>
          if \<exists>(p, b)\<in>set objs. parent p \<noteq> parent p0
          then raises (ValueError ''immutable macro-batch must share one directory'') s
          else
            with_barrier (parent p0)
              (case stage_batch objs [] s of
                 Inl e \<Rightarrow> raises e s
               | Inr staged \<Rightarrow>
                   if \<exists>(p, b)\<in>set staged. write_fails s p then raises OSError s
                   else link_batch staged s))"

section \<open>Transactions\<close>

datatype tx_state = Open | Tx_committed | Tx_aborted

record chunk_receipt =
  cr_digest :: string
  cr_bytes :: int
  cr_start :: int
  cr_end :: int

record commit_receipt =
  rc_manifest_digest :: string
  rc_committed_tokens :: int
  rc_encoded_bytes :: int
  rc_allocated_bytes :: int

record transaction =
  tx_identity :: cache_identity
  tx_context :: string
  tx_span :: "int option"
  tx_descriptors :: "jdict list"
  tx_expected_start :: int
  tx_state :: tx_state
  tx_commit_failed :: bool
  tx_receipt :: "commit_receipt option"
  tx_guard :: bool

definition begin_transaction :: "cache_identity \<Rightarrow> string \<Rightarrow> int option \<Rightarrow> exn + transaction" where
  "begin_transaction i c span =
     (if \<not> is_sha256 c then Inl (ValueError ''context_digest must be a lowercase SHA-256 digest'')
      else if (case span of None \<Rightarrow> False | Some n \<Rightarrow> n \<le> 0)
      then Inl (ValueError ''span_tokens must be positive'')
      else Inr \<lparr>tx_identity = i, tx_context = c, tx_span = span, tx_descriptors = [],
                tx_expected_start = 0, tx_state = Open, tx_commit_failed = False,
                tx_receipt = None, tx_guard = True\<rparr>)"

definition chunk_descriptor :: "string \<Rightarrow> context_chunk \<Rightarrow> jdict" where
  "chunk_descriptor b c =
     [(''sha256'', JStr (sha256 b)), (''bytes'', JInt (int (length b))),
      (''logical_start'', JInt (logical_start c)), (''logical_end'', JInt (logical_end c))]"

definition descriptor_tokens :: "jdict \<Rightarrow> int" where
  "descriptor_tokens d =
     (case (the_int (jget d ''logical_start''), the_int (jget d ''logical_end'')) of
        (Some s, Some e) \<Rightarrow> e - s | _ \<Rightarrow> 0)"

definition find_range :: "int \<Rightarrow> int \<Rightarrow> jdict list \<Rightarrow> jdict option" where
  "find_range s e ds =
     find (\<lambda>d. jget d ''logical_start'' = JInt s \<and> jget d ''logical_end'' = JInt e) ds"

text \<open>The checks of one chunk of a batch; \<open>ds\<close> holds the descriptors so far, pending ones included.
  The result is the receipt and what is new: the descriptor and the object to publish.\<close>

definition admit_chunk ::
    "transaction \<Rightarrow> jdict list \<Rightarrow> int \<Rightarrow> context_chunk
      \<Rightarrow> exn + chunk_receipt \<times> (jdict \<times> (path \<times> string)) option" where
  "admit_chunk t ds expected c =
     (if logical_end c - logical_start c > chunk_tokens (tx_identity t)
      then Inl (ValueError ''chunk exceeds identity chunk_tokens'')
      else if (case tx_span t of None \<Rightarrow> False | Some n \<Rightarrow> logical_end c > n)
      then Inl (ValueError ''chunk exceeds the declared context span'')
      else
        bindE (require_complete_chunk c (required_records (tx_identity t))) (\<lambda>_.
        bindE (encode_chunk c) (\<lambda>b.
        let r = \<lparr>cr_digest = sha256 b, cr_bytes = int (length b),
                 cr_start = logical_start c, cr_end = logical_end c\<rparr>
        in case find_range (logical_start c) (logical_end c) ds of
             Some d \<Rightarrow>
               if jget d ''sha256'' \<noteq> JStr (sha256 b) \<or> jget d ''bytes'' \<noteq> JInt (int (length b))
               then Inl (CommitConflict ''different immutable chunk already appended'')
               else Inr (r, None)
           | None \<Rightarrow>
               if tx_state t \<noteq> Open then Inl (RuntimeError ''context transaction is not open'')
               else if logical_start c \<noteq> expected
               then Inl (ValueError ''chunk logical ranges must be contiguous from zero'')
               else if ds \<noteq> [] \<and> descriptor_tokens (last ds) \<noteq> chunk_tokens (tx_identity t)
               then Inl (ValueError ''only the final context chunk may be partial'')
               else Inr (r, Some (chunk_descriptor b c, (Chunk_file (sha256 b), b))))))"

fun admit_chunks ::
    "transaction \<Rightarrow> jdict list \<Rightarrow> int \<Rightarrow> context_chunk list
      \<Rightarrow> exn + chunk_receipt list \<times> jdict list \<times> (path \<times> string) list \<times> int" where
  "admit_chunks t ds expected [] = Inr ([], [], [], expected)"
| "admit_chunks t ds expected (c # cs) =
     bindE (admit_chunk t ds expected c) (\<lambda>(r, new).
     case new of
       None \<Rightarrow>
         bindE (admit_chunks t ds expected cs) (\<lambda>(rs, nds, objs, e). Inr (r # rs, nds, objs, e))
     | Some (d, obj) \<Rightarrow>
         bindE (admit_chunks t (ds @ [d]) (logical_end c) cs) (\<lambda>(rs, nds, objs, e).
         Inr (r # rs, d # nds, obj # objs, e)))"

definition append_chunks ::
    "context_chunk list \<Rightarrow> transaction \<times> store \<Rightarrow> (chunk_receipt list, transaction \<times> store) outcome" where
  "append_chunks cs ts =
     (let (t, s) = ts in
      if tx_state t = Tx_aborted then raises (RuntimeError ''context transaction is aborted'') ts
      else if cs = [] then raises (ValueError ''at least one context chunk is required'') ts
      else
        (case admit_chunks t (tx_descriptors t) (tx_expected_start t) cs of
           Inl e \<Rightarrow> raises e ts
         | Inr (rs, nds, objs, expected) \<Rightarrow>
             (case publish_immutable_batch objs s of
                (Inl e, s') \<Rightarrow> raises e (t, s')
              | (Inr _, s') \<Rightarrow>
                  returns rs (t\<lparr>tx_descriptors := tx_descriptors t @ nds, tx_expected_start := expected\<rparr>, s'))))"

definition descriptor_bytes :: "jdict \<Rightarrow> int" where
  "descriptor_bytes d = (case the_int (jget d ''bytes'') of None \<Rightarrow> 0 | Some n \<Rightarrow> n)"

definition page_rounded :: "int \<Rightarrow> int" where
  "page_rounded n = (n + 4095) div 4096 * 4096"

definition transaction_manifest :: "transaction \<Rightarrow> json" where
  "transaction_manifest t =
     synthetic_manifest (tx_identity t) (tx_context t) (JInt (tx_expected_start t))
       (JList (map JObj (tx_descriptors t)))"

definition commit_manifest :: "transaction \<times> store \<Rightarrow> (commit_receipt, transaction \<times> store) outcome" where
  "commit_manifest ts =
     (let (t, s) = ts in
      case (tx_state t, tx_receipt t) of
        (Tx_committed, Some r) \<Rightarrow> returns r ts
      | (Tx_committed, None) \<Rightarrow> raises (AssertionError ''receipt'') ts
      | (Tx_aborted, _) \<Rightarrow> raises (RuntimeError ''context transaction is aborted'') ts
      | (Open, _) \<Rightarrow>
          if tx_descriptors t = [] then raises (ValueError ''at least one context chunk is required'') ts
          else if (case tx_span t of None \<Rightarrow> False | Some n \<Rightarrow> tx_expected_start t \<noteq> n)
          then raises (IncompleteEntry ''transaction does not cover the declared context span'') ts
          else
            (let m = canonical_json (transaction_manifest t);
                 payload = sum_list (map descriptor_bytes (tx_descriptors t))
             in case publish_immutable (manifest_path (tx_identity t) (tx_context t)) m s of
                  (Inl e, s') \<Rightarrow> raises e (t\<lparr>tx_commit_failed := True\<rparr>, s')
                | (Inr _, s') \<Rightarrow>
                    (let r = \<lparr>rc_manifest_digest = sha256 m, rc_committed_tokens = tx_expected_start t,
                              rc_encoded_bytes = int (length m) + payload,
                              rc_allocated_bytes = page_rounded (int (length m))
                                + sum_list (map (page_rounded \<circ> descriptor_bytes) (tx_descriptors t))\<rparr>
                     in returns r (t\<lparr>tx_receipt := Some r, tx_state := Tx_committed, tx_guard := False\<rparr>, s'))))"

definition abort_transaction :: "transaction \<Rightarrow> (unit, transaction) outcome" where
  "abort_transaction t =
     (case tx_state t of
        Tx_committed \<Rightarrow> raises (RuntimeError ''context transaction is committed'') t
      | Tx_aborted \<Rightarrow> returns () t
      | Open \<Rightarrow> returns () (t\<lparr>tx_state := Tx_aborted, tx_descriptors := [], tx_guard := False\<rparr>))"

definition COMMIT_CHUNK_BATCH_SIZE :: nat where "COMMIT_CHUNK_BATCH_SIZE = 8"

function append_batches ::
    "context_chunk list \<Rightarrow> transaction \<times> store \<Rightarrow> (unit, transaction \<times> store) outcome" where
  "append_batches cs ts =
     (if cs = [] then returns () ts
      else
        (case append_chunks (take COMMIT_CHUNK_BATCH_SIZE cs) ts of
           (Inl e, ts') \<Rightarrow> raises e ts'
         | (Inr _, ts') \<Rightarrow> append_batches (drop COMMIT_CHUNK_BATCH_SIZE cs) ts'))"
  by pat_completeness auto
termination by (relation "measure (\<lambda>(cs, ts). length cs)") (auto simp: COMMIT_CHUNK_BATCH_SIZE_def)

declare append_batches.simps [simp del]

definition commit_entry ::
    "cache_identity \<Rightarrow> string \<Rightarrow> context_chunk list \<Rightarrow> int option \<Rightarrow> store \<Rightarrow> (commit_receipt, store) outcome" where
  "commit_entry i c cs span s =
     (case begin_transaction i c span of
        Inl e \<Rightarrow> raises e s
      | Inr t \<Rightarrow>
          (case append_batches cs (t, s) of
             (Inl e, (t', s')) \<Rightarrow> raises e s'
           | (Inr _, ts') \<Rightarrow>
               (case commit_manifest ts' of (res, (t', s')) \<Rightarrow> (res, s'))))"

end
