(* ===== verification/Manifest_Lookup.thy ===== *)
theory Manifest_Lookup
  imports Manifest_Store
begin

text \<open>
  Reading the manifest store (\<open>lookup\<close>, \<open>restore\<close> and the descriptor chains of
  \<open>cache_manifest.py\<close>). A lookup that cannot believe what it reads is a clean miss; restore reads and
  hashes every chunk again.
\<close>

definition read_json :: "string \<Rightarrow> exn + json" where
  "read_json b = (case json_loads b of None \<Rightarrow> Inl (ValueError ''JSONDecodeError'') | Some v \<Rightarrow> Inr v)"

section \<open>Descriptor chains\<close>

text \<open>From segment \<open>k - 1\<close> of \<open>segs\<close> back to the first; the descriptors come in order.\<close>

fun read_chain ::
    "cache_identity \<Rightarrow> store \<Rightarrow> nat \<Rightarrow> nat \<Rightarrow> string \<Rightarrow> string list \<Rightarrow> exn + jdict list \<times> string list" where
  "read_chain i s segs 0 d visited = Inr ([], visited)"
| "read_chain i s segs (Suc k) d visited =
     (if d \<in> set visited then Inl (CacheFormatError ''descriptor chain contains a cycle'')
      else
        bindE (read_bytes (prefix_segment_path i d) s) (\<lambda>b.
        if sha256 b \<noteq> d then Inl (CacheFormatError ''descriptor segment checksum mismatch'')
        else
          bindE (read_json b) (\<lambda>segment.
          bindE (validate_prefix_segment segment (storage_key i) (int k * PREFIX_SEGMENT_DESCRIPTORS)) (\<lambda>ds.
          if Suc k < segs \<and> int (length ds) \<noteq> PREFIX_SEGMENT_DESCRIPTORS
          then Inl (CacheFormatError ''non-tail descriptor segment is incomplete'')
          else
            (case the_obj segment of
               None \<Rightarrow> Inl (CacheFormatError ''prefix descriptor segment is not an object'')
             | Some g \<Rightarrow>
                 if k = 0
                 then (if jget g ''parent_sha256'' \<noteq> JNull
                       then Inl (CacheFormatError ''descriptor chain has an extra parent'')
                       else Inr (ds, d # visited))
                 else
                   (case the_str (jget g ''parent_sha256'') of
                      None \<Rightarrow> Inl (CacheFormatError ''descriptor chain is truncated'')
                    | Some p \<Rightarrow>
                        bindE (read_chain i s segs k p (d # visited)) (\<lambda>(earlier, seen).
                        Inr (earlier @ ds, seen))))))))"

definition segment_count :: "int \<Rightarrow> nat" where
  "segment_count n = nat ((n + PREFIX_SEGMENT_DESCRIPTORS - 1) div PREFIX_SEGMENT_DESCRIPTORS)"

definition read_descriptor_chain ::
    "cache_identity \<Rightarrow> store \<Rightarrow> string option \<Rightarrow> int \<Rightarrow> exn + jdict list \<times> string list" where
  "read_descriptor_chain i s segment n =
     (if n = 0
      then (if segment \<noteq> None then Inl (CacheFormatError ''descriptor chain has an unexpected root'')
            else Inr ([], []))
      else
        (case segment of
           None \<Rightarrow> Inl (CacheFormatError ''descriptor chain root is missing'')
         | Some d \<Rightarrow>
             bindE (read_chain i s (segment_count n) (segment_count n) d []) (\<lambda>(ds, seen).
             if int (length (take (nat n) ds)) \<noteq> n
             then Inl (CacheFormatError ''descriptor chain length differs'')
             else Inr (take (nat n) ds, sort seen))))"

definition resolve_tail_manifest ::
    "store \<Rightarrow> json \<Rightarrow> cache_identity \<Rightarrow> string \<Rightarrow> exn + json \<times> string list" where
  "resolve_tail_manifest s manifest i c =
     bindE (validate_tail_manifest_root manifest i c) (\<lambda>r.
     bindE (read_descriptor_chain i s (tr_segment r) (tr_chunk_count r)) (\<lambda>(base, segments).
     let synthetic = synthetic_manifest i c (JInt (tr_committed r)) (JList (map JObj base @ tr_chunks r))
     in bindE (validate_manifest_metadata synthetic (EntryKey (storage_key i) c) (Some i)) (\<lambda>_.
        Inr (synthetic, segments))))"

section \<open>Lookup\<close>

record lookup_result =
  is_hit :: bool
  reason :: string
  lr_digest :: string
  lr_manifest :: "json option"
  lr_root_kind :: string

definition miss :: "string \<Rightarrow> lookup_result" where
  "miss why = \<lparr>is_hit = False, reason = why, lr_digest = '''', lr_manifest = None, lr_root_kind = ''manifest''\<rparr>"

definition hit :: "string \<Rightarrow> json \<Rightarrow> string \<Rightarrow> lookup_result" where
  "hit encoded manifest kind =
     \<lparr>is_hit = True, reason = ''hit'', lr_digest = sha256 encoded, lr_manifest = Some manifest, lr_root_kind = kind\<rparr>"

definition descriptor_name :: "jdict \<Rightarrow> string" where
  "descriptor_name d = (case the_str (jget d ''sha256'') of None \<Rightarrow> [] | Some t \<Rightarrow> t)"

definition chunk_path :: "jdict \<Rightarrow> path" where
  "chunk_path d = Chunk_file (descriptor_name d)"

text \<open>One chunk of a row manifest: complete for the identity and of the range its descriptor gives.\<close>

definition decoded_as_described ::
    "state_record set \<Rightarrow> jdict \<Rightarrow> string \<Rightarrow> exn + context_chunk" where
  "decoded_as_described required d b =
     bindE (decode_chunk False b) (\<lambda>c.
     bindE (require_complete_chunk c required) (\<lambda>_.
     if \<not> py_eq (jget d ''logical_start'') (JInt (logical_start c))
       \<or> \<not> py_eq (jget d ''logical_end'') (JInt (logical_end c))
     then Inl (CacheFormatError ''chunk range disagrees with descriptor'')
     else Inr c))"

definition check_chunk_file :: "bool \<Rightarrow> bool \<Rightarrow> cache_identity \<Rightarrow> store \<Rightarrow> jdict \<Rightarrow> exn + unit" where
  "check_chunk_file verify meta i s d =
     (if verify then
        bindE (read_bytes (chunk_path d) s) (\<lambda>b.
        bindE (payload_matches_descriptor d b) (\<lambda>same.
        if \<not> same then Inl (CacheFormatError ''chunk checksum mismatch'')
        else if ''encoded_start'' \<in> set (dkeys d) then Inr ()
        else bindE (decoded_as_described (required_records i) d b) (\<lambda>_. Inr ())))
      else if meta then
        bindE (read_bytes (chunk_path d) s) (\<lambda>b.
        if \<not> py_eq (jget d ''bytes'') (JInt (int (length b)))
        then Inl (CacheFormatError ''chunk file size disagrees with descriptor'')
        else Inr ())
      else Inr ())"

fun check_chunk_files :: "bool \<Rightarrow> bool \<Rightarrow> cache_identity \<Rightarrow> store \<Rightarrow> jdict list \<Rightarrow> exn + unit" where
  "check_chunk_files verify meta i s [] = Inr ()"
| "check_chunk_files verify meta i s (d # ds) =
     bindE (check_chunk_file verify meta i s d) (\<lambda>_. check_chunk_files verify meta i s ds)"

definition has_schema :: "json \<Rightarrow> string \<Rightarrow> bool" where
  "has_schema v name = (case the_obj v of None \<Rightarrow> False | Some d \<Rightarrow> jget d ''schema'' = JStr name)"

text \<open>The descriptors a root refers to, by its kind, with the manifest that restore will use.\<close>

definition root_descriptors ::
    "store \<Rightarrow> json \<Rightarrow> cache_identity \<Rightarrow> string \<Rightarrow> exn + json \<times> string \<times> jdict list" where
  "root_descriptors s root i c =
     bindE (if has_schema root TAIL_MANIFEST_SCHEMA
            then bindE (resolve_tail_manifest s root i c) (\<lambda>(m, _). Inr m) else Inr root) (\<lambda>m.
     bindE (is_page_delta_root m) (\<lambda>is_delta.
     if is_delta
     then bindE (page_graph_descriptors MAX_PAGE_DELTA_DEPTH m i c) (\<lambda>ds. Inr (m, ''page_delta'', ds))
     else if is_page_snapshot_root m
     then bindE (validate_page_snapshot_root m i c) (\<lambda>ds. Inr (m, ''page_snapshot'', ds))
     else bindE (validate_manifest_metadata m (EntryKey (storage_key i) c) (Some i)) (\<lambda>ds.
       Inr (m, ''manifest'', ds))))"

text \<open>The handlers of \<open>lookup\<close>: a foreign root, anything malformed or unreadable; the rest propagates.\<close>

definition clean_miss :: "(exn \<Rightarrow> bool) \<Rightarrow> exn + lookup_result \<Rightarrow> exn + lookup_result" where
  "clean_miss absent r =
     (case r of
        Inr x \<Rightarrow> Inr x
      | Inl (IncompatibleManifest m) \<Rightarrow> Inr (miss ''incompatible'')
      | Inl e \<Rightarrow>
          if absent e then Inr (miss ''absent'')
          else if is_value_error e \<or> is_os_error e \<or> is_type_error e then Inr (miss ''corrupt'')
          else Inl e)"

definition lookup_prefix_alias ::
    "cache_identity \<Rightarrow> string \<Rightarrow> bool \<Rightarrow> bool \<Rightarrow> store \<Rightarrow> exn + lookup_result" where
  "lookup_prefix_alias i c verify meta s =
     clean_miss (\<lambda>e. e = FileNotFound)
       (bindE (read_bytes (prefix_alias_path i c) s) (\<lambda>encoded.
        bindE (read_json encoded) (\<lambda>alias.
        bindE (validate_prefix_alias alias i c) (\<lambda>(tokens, n, d).
        bindE (read_chain i s (segment_count n) (segment_count n) d []) (\<lambda>(ds, _).
        if int (length (take (nat n) ds)) \<noteq> n
        then Inl (CacheFormatError ''prefix descriptor chain length differs'')
        else
          (let m = synthetic_manifest i c (JInt tokens) (JList (map JObj (take (nat n) ds))) in
           bindE (validate_manifest_metadata m (EntryKey (storage_key i) c) (Some i)) (\<lambda>chunks.
           bindE (check_chunk_files verify meta i s chunks) (\<lambda>_.
           Inr (hit encoded m ''prefix_alias'')))))))))"

definition lookup ::
    "cache_identity \<Rightarrow> string \<Rightarrow> bool \<Rightarrow> bool \<Rightarrow> string option \<Rightarrow> store \<Rightarrow> exn + lookup_result" where
  "lookup i c verify meta mode s =
     (if \<not> is_sha256 c then Inr (miss ''corrupt'')
      else
        (case read_bytes (manifest_path i c) s of
           Inl FileNotFound \<Rightarrow>
             if mode \<noteq> Some ''per_token_rows'' then Inr (miss ''absent'')
             else lookup_prefix_alias i c verify meta s
         | Inl e \<Rightarrow> Inr (miss ''corrupt'')
         | Inr encoded \<Rightarrow>
             clean_miss (\<lambda>_. False)
               (bindE (read_json encoded) (\<lambda>root.
                bindE (root_descriptors s root i c) (\<lambda>(m, kind, chunks).
                bindE (check_chunk_files verify meta i s chunks) (\<lambda>_.
                Inr (hit encoded m kind)))))))"

section \<open>Restore\<close>

definition restore_one :: "state_record set \<Rightarrow> store \<Rightarrow> json \<Rightarrow> exn + context_chunk" where
  "restore_one required s v =
     (case the_obj v of
        None \<Rightarrow> Inl (CacheFormatError ''chunk descriptor is not an object'')
      | Some d \<Rightarrow>
          bindE (strict_keys d CHUNK_KEYS) (\<lambda>_.
          bindE (validate_digest (jget d ''sha256'')) (\<lambda>_.
          bindE (read_bytes (chunk_path d) s) (\<lambda>b.
          if \<not> py_eq (jget d ''bytes'') (JInt (int (length b))) \<or> JStr (sha256 b) \<noteq> jget d ''sha256''
          then Inl (CacheFormatError ''chunk checksum mismatch'')
          else decoded_as_described required d b))))"

definition restore :: "lookup_result \<Rightarrow> store \<Rightarrow> exn + context_chunk list option" where
  "restore r s =
     (case (is_hit r, lr_manifest r) of
        (True, Some manifest) \<Rightarrow>
          if lr_root_kind r \<in> {''page_delta'', ''page_snapshot''}
          then Inl (ValueError ''page restore requires restore_page_snapshot'')
          else
            (case the_obj manifest of
               None \<Rightarrow> Inl (TypeError ''manifest'')
             | Some m \<Rightarrow>
                 (case the_obj (jget m ''identity'') of
                    None \<Rightarrow> Inl (TypeError ''identity'')
                  | Some w \<Rightarrow>
                      bindE (required_records_for_identity_wire w) (\<lambda>required.
                      case the_list (jget m ''chunks'') of
                        None \<Rightarrow> Inl (TypeError ''chunks'')
                      | Some ds \<Rightarrow>
                          (case mapE (restore_one required s) ds of
                             Inr cs \<Rightarrow> Inr (Some cs)
                           | Inl e \<Rightarrow> if is_value_error e \<or> is_os_error e \<or> is_type_error e
                                      then Inr None else Inl e))))
      | _ \<Rightarrow> Inl (ValueError ''cannot restore a cache miss''))"

end
