(* ===== verification/Store_Laws.thy ===== *)
theory Store_Laws
  imports Manifest_Lookup
begin

text \<open>
  The laws of the manifest store: what publication does to the files, what the validators accept,
  and from them that a verified hit restores, that a commit is found and restored as committed, and
  that a transaction shows nothing before it commits.
\<close>

section \<open>Accepted descriptors\<close>

fun tiled_dicts :: "int \<Rightarrow> int \<Rightarrow> json list \<Rightarrow> int \<Rightarrow> bool" where
  "tiled_dicts full a [] b \<longleftrightarrow> a = b"
| "tiled_dicts full a (v # vs) b \<longleftrightarrow>
     (\<exists>d n e. v = JObj d \<and> set (dkeys d) = set CHUNK_KEYS \<and> is_digest (jget d ''sha256'')
        \<and> jget d ''bytes'' = JInt n \<and> 0 < n \<and> jget d ''logical_start'' = JInt a
        \<and> jget d ''logical_end'' = JInt e \<and> a < e \<and> e - a \<le> full \<and> (vs \<noteq> [] \<longrightarrow> e - a = full)
        \<and> tiled_dicts full e vs b)"

lemma int_where_iff: "int_where p v \<longleftrightarrow> (\<exists>n. v = JInt n \<and> p n)"
  by (cases v) (auto simp: int_where_def)

lemma check_chunks_iff: "check_chunks full a vs = Inr b \<longleftrightarrow> tiled_dicts full a vs b"
proof (induction vs arbitrary: a)
  case (Cons v vs)
  have "check_chunks full a (v # vs) = Inr b \<longleftrightarrow>
      (\<exists>d. v = JObj d \<and> set (dkeys d) = set CHUNK_KEYS \<and> is_digest (jget d ''sha256'')
        \<and> (\<exists>n. jget d ''bytes'' = JInt n \<and> 0 < n)
        \<and> (\<exists>s. jget d ''logical_start'' = JInt s \<and> (\<exists>e. jget d ''logical_end'' = JInt e
             \<and> s = a \<and> a < e \<and> e - s \<le> full \<and> \<not> (vs \<noteq> [] \<and> e - s \<noteq> full) \<and> tiled_dicts full e vs b)))"
    by (simp only: check_chunks.simps success_iff the_Some int_where_iff validators_Inr Cons.IH conj_assoc)
  also have "\<dots> \<longleftrightarrow> tiled_dicts full a (v # vs) b" by (simp only: tiled_dicts.simps) blast
  finally show ?case .
qed simp

lemma tiled_dicts_objects: "tiled_dicts full a vs b \<Longrightarrow> vs = map JObj (dicts vs)"
  by (induction vs arbitrary: a) (auto simp: dicts_def map_filter_simps)

lemma dicts_JObj [simp]: "dicts (map JObj ds) = ds"
  by (induction ds) (auto simp: dicts_def map_filter_simps)

lemma validate_manifest_Inr:
  assumes "validate_manifest_metadata v (EntryKey k c) (Some i) = Inr ds"
  obtains m w n full where "v = JObj m" "jget m ''identity'' = JObj w" "wire_identity_ok w"
    "same_identity (JObj w) i" "canonical_json (JObj w) = canonical_json (to_wire i)"
    "jget m ''committed_tokens'' = JInt n" "0 < n" "jget w ''chunk_tokens'' = JInt full"
    "jget m ''chunks'' = JList (map JObj ds)" "ds \<noteq> []" "tiled_dicts full 0 (map JObj ds) n"
    "jget m ''context_digest'' = JStr c"
proof -
  obtain m w full vs n n' where "v = JObj m" "jget m ''identity'' = JObj w" "jget m ''chunks'' = JList vs"
    "jget w ''chunk_tokens'' = JInt full" "wire_identity_ok w" "vs \<noteq> []" "dicts vs = ds"
    "JInt n = jget m ''committed_tokens''" "jget m ''committed_tokens'' = JInt n'" "0 < n'"
    "check_chunks full 0 vs = Inr n"
    "same_identity (JObj w) i" "canonical_json (JObj w) = canonical_json (to_wire i)"
    "jget m ''context_digest'' = JStr c"
    using assms [unfolded validate_manifest_metadata_def success_iff the_Some int_where_iff EntryKey_def entry_key.simps]
    by (elim exE conjE) (rule that; assumption)
  note f = this
  have t: "tiled_dicts full 0 vs n" using f(11) by (simp add: check_chunks_iff)
  have n: "n = n'" using f(8,9) by simp
  have objs: "vs = map JObj ds" using tiled_dicts_objects [OF t] f(7) by simp
  show ?thesis
    by (rule that [OF f(1,2,5,12,13,9,10,4)]) (use f t objs n in simp_all)
qed

section \<open>What was read has distinct keys\<close>

fun wf_json :: "json \<Rightarrow> bool"
  and wf_list :: "json list \<Rightarrow> bool"
  and wf_items :: "jdict \<Rightarrow> bool" where
  "wf_json (JList vs) = wf_list vs"
| "wf_json (JObj d) = (distinct (dkeys d) \<and> wf_items d)"
| "wf_json v = True"
| "wf_list [] = True"
| "wf_list (v # vs) = (wf_json v \<and> wf_list vs)"
| "wf_items [] = True"
| "wf_items ((k, v) # d) = (wf_json v \<and> wf_items d)"

lemma wf_items_iff: "wf_items d \<longleftrightarrow> (\<forall>v\<in>snd ` set d. wf_json v)"
  by (induction d) auto

lemma wf_list_iff: "wf_list vs \<longleftrightarrow> (\<forall>v\<in>set vs. wf_json v)"
  by (induction vs) auto

lemma wf_dput: "wf_items d \<Longrightarrow> wf_json v \<Longrightarrow> wf_items (dput k v d)"
  by (induction d) auto

lemma wf_object_of:
  assumes "wf_items ps" shows "wf_json (JObj (object_of ps))"
proof -
  have "distinct (dkeys e) \<and> wf_items e \<Longrightarrow> distinct (dkeys (fold (\<lambda>(k, v). dput k v) ps e))
      \<and> wf_items (fold (\<lambda>(k, v). dput k v) ps e)" for e
    using assms
  proof (induction ps arbitrary: e)
    case (Cons p ps)
    then show ?case by (cases p) (auto simp: wf_dput distinct_update)
  qed simp
  from this [of "[]"] show ?thesis by (simp add: object_of_def)
qed

lemma wf_parse_num: "parse_num s = Some (v, r) \<Longrightarrow> wf_json v"
  by (auto simp: parse_num_def Let_def split: option.splits prod.splits if_splits)

lemma wf_literal: "literal w v s = Some (u, r) \<Longrightarrow> wf_json v \<Longrightarrow> wf_json u"
  by (auto simp: literal_def split: if_splits)

lemma parse_value_cases:
  assumes "parse_value (Suc n) s = Some (v, r)"
  shows "wf_json v \<or> (\<exists>vs t u. v = JList vs \<and> parse_elements n t = Some (vs, u))
    \<or> (\<exists>d t u. v = JObj (object_of d) \<and> parse_members n t = Some (d, u))"
  using assms
  by (auto split: list.splits if_splits dest: wf_parse_num wf_literal)


lemma parse_elements_Cons:
  assumes "parse_elements (Suc n) s = Some (vs, r)"
  shows "\<exists>v t rest. parse_value n s = Some (v, t)
    \<and> (vs = [v] \<or> (\<exists>t' u. parse_elements n t' = Some (rest, u) \<and> vs = v # rest))"
proof -
  obtain v t where v: "parse_value n s = Some (v, t)"
    using assms by (cases "parse_value n s") (auto simp del: parse_value.simps)
  with assms show ?thesis
    by (cases "skip t") (auto simp del: parse_value.simps parse_elements.simps(2) [of n] split: if_splits)
qed

lemma parse_members_Cons:
  assumes "parse_members (Suc n) s = Some (d, r)"
  shows "\<exists>k t v u rest. parse_value n t = Some (v, u)
    \<and> (d = [(k, v)] \<or> (\<exists>t' u'. parse_members n t' = Some (rest, u') \<and> d = (k, v) # rest))"
proof -
  obtain k t where k: "parse_str (tl (skip s)) = Some (k, t)"
    using assms by (cases "parse_str (tl (skip s))") (auto split: if_splits)
  obtain v u where v: "parse_value n (tl (skip t)) = Some (v, u)"
    using assms k by (cases "parse_value n (tl (skip t))") (auto simp del: parse_value.simps split: if_splits)
  with assms k show ?thesis
    by (cases "skip u") (auto simp del: parse_value.simps split: if_splits, blast?)
qed

lemma wf_parse:
  "parse_value n s = Some (v, r) \<Longrightarrow> wf_json v"
  "parse_elements n s = Some (vs, r) \<Longrightarrow> wf_list vs"
  "parse_members n s = Some (d, r) \<Longrightarrow> wf_items d"
proof (induction n arbitrary: s v vs d r)
  case (Suc n)
  {
    case 1
    then show ?case using parse_value_cases [OF 1] Suc.IH wf_object_of by fastforce
  next
    case 2
    then show ?case using parse_elements_Cons [OF 2] Suc.IH by fastforce
  next
    case 3
    then show ?case using parse_members_Cons [OF 3] Suc.IH by fastforce
  }
qed simp_all

lemma wf_read: "read_json b = Inr v \<Longrightarrow> wf_json v"
  by (auto simp: read_json_def json_loads_def wf_parse(1) simp del: parse_value.simps split: option.splits if_splits)


section \<open>The identity a root carries\<close>

lemma py_eq_items_iff:
  "py_eq_items d e \<longleftrightarrow> (\<forall>(k, v)\<in>set d. \<exists>w. map_of e k = Some w \<and> py_eq v w)"
  by (induction d) (auto split: option.splits simp del: py_eq.simps)

lemma py_eq_dict_field:
  assumes "py_eq (JObj d) (JObj e)" "distinct (dkeys d)" "distinct (dkeys e)"
  shows "set (dkeys d) = set (dkeys e)" "k \<in> set (dkeys d) \<Longrightarrow> py_eq (jget d k) (jget e k)"
proof -
  have len: "length d = length e" and items: "py_eq_items d e" using assms(1) by auto
  have sub: "set (dkeys d) \<subseteq> set (dkeys e)"
    using items by (force simp: py_eq_items_iff dest: map_of_SomeD simp del: py_eq.simps)
  moreover have "card (set (dkeys d)) = card (set (dkeys e))"
    using len assms(2,3) by (simp add: distinct_card del: set_map)
  ultimately show "set (dkeys d) = set (dkeys e)" by (metis List.finite_set card_subset_eq)
  assume "k \<in> set (dkeys d)"
  then obtain v where v: "map_of d k = Some v" by (metis dget_None not_None_eq)
  then obtain w where "map_of e k = Some w" "py_eq v w"
    using items map_of_SomeD [OF v] by (auto simp: py_eq_items_iff simp del: py_eq.simps)
  with v show "py_eq (jget d k) (jget e k)" by (simp add: jget_def)
qed

lemma jget_absent: "k \<notin> set (dkeys d) \<Longrightarrow> jget d k = JNull"
  using dget_None [of d k] by (simp add: jget_def)

lemma py_eq_str [simp]: "py_eq (JStr s) w \<longleftrightarrow> w = JStr s" "py_eq v (JStr s) \<longleftrightarrow> v = JStr s"
  by (cases v; auto simp: is_finite_float_def)+

lemma py_eq_strs:
  "\<forall>x\<in>set vs. \<exists>s. x = JStr s \<Longrightarrow> py_eq_list vs (map JStr ss) \<longleftrightarrow> vs = map JStr ss"
proof (induction vs arbitrary: ss)
  case (Cons v vs)
  then show ?case by (cases ss) (auto simp del: py_eq.simps)
qed simp

lemma identity_fields:
  assumes "wf_json (JObj w)" "wire_identity_ok w" "same_identity (JObj w) i"
  shows "required_records_for_identity_wire w = Inr (required_records i)"
    and "jget w ''chunk_tokens'' = JInt (chunk_tokens i)"
proof -
  have eq: "py_eq (JObj w) (JObj (wire_items i))" and dw: "distinct (dkeys w)"
    using assms by (simp_all add: same_identity_def to_wire_items)
  note keys = py_eq_dict_field(1) [OF eq dw wire_distinct]
  note field = py_eq_dict_field(2) [OF eq dw wire_distinct]
  have base: "k \<in> set BASE_FIELDS \<Longrightarrow> k \<in> set (dkeys w)" for k
    using assms(2) by (auto simp: wire_identity_ok_def)
  have policy: "jget w ''boundary_hidden_policy'' = JStr (boundary_hidden_policy i)"
    "jget w ''draft_kv_policy'' = JStr (draft_kv_policy i)"
    using field [of "''boundary_hidden_policy''"] field [of "''draft_kv_policy''"]
      base [of "''boundary_hidden_policy''"] base [of "''draft_kv_policy''"]
    by (simp_all add: BASE_FIELDS_def jget_wire)
  obtain n where "jget w ''chunk_tokens'' = JInt n"
    using assms(2) by (auto simp: wire_identity_ok_def int_where_def split: option.splits)
  then show "jget w ''chunk_tokens'' = JInt (chunk_tokens i)"
    using field [of "''chunk_tokens''"] base [of "''chunk_tokens''"] by (simp add: BASE_FIELDS_def jget_wire)
  have rs: "''record_schema'' \<in> set (dkeys w) \<longleftrightarrow> record_schema i \<noteq> []"
    unfolding keys wire_keys by (simp add: BASE_FIELDS_def)
  show "required_records_for_identity_wire w = Inr (required_records i)"
  proof (cases "record_schema i = []")
    case True
    then show ?thesis using rs
      by (simp add: required_records_for_identity_wire_def required_records_def policy jget_absent)
  next
    case False
    then have ok: "schema_list_ok (jget w ''record_schema'')"
      using rs assms(2) by (simp add: wire_identity_ok_def)
    then obtain vs where vs: "jget w ''record_schema'' = JList vs" by (auto simp: schema_list_ok_def split: option.splits)
    have "py_eq_list vs (map JStr (record_schema i))"
      using field [of "''record_schema''"] rs False vs by (simp add: jget_wire)
    moreover have "\<forall>x\<in>set vs. \<exists>s. x = JStr s" using ok vs by (auto simp: schema_list_ok_def)
    ultimately have "vs = map JStr (record_schema i)" by (simp add: py_eq_strs)
    moreover have "k \<in> set (List.map_filter StateRecord (record_schema i)) \<longleftrightarrow> record_value k \<in> set (record_schema i)" for k
      by (auto simp: map_filter_def StateRecord_Some image_iff)
    ultimately show ?thesis using False ok vs
      by (auto simp: required_records_for_identity_wire_def required_records_def)
  qed
qed


section \<open>A verified hit restores\<close>

text \<open>Chunks that follow one another from \<open>a\<close> to \<open>b\<close>, every one but the last of exactly \<open>full\<close> tokens.\<close>

fun tiled :: "int \<Rightarrow> int \<Rightarrow> context_chunk list \<Rightarrow> int \<Rightarrow> bool" where
  "tiled full a [] b \<longleftrightarrow> a = b"
| "tiled full a (c # cs) b \<longleftrightarrow>
     logical_start c = a \<and> a < logical_end c \<and> logical_end c - a \<le> full
     \<and> (cs \<noteq> [] \<longrightarrow> logical_end c - a = full) \<and> tiled full (logical_end c) cs b"

definition complete_chunk :: "cache_identity \<Rightarrow> context_chunk \<Rightarrow> bool" where
  "complete_chunk i c \<longleftrightarrow> valid_chunk c \<and> (\<forall>k\<in>required_records i. records c k \<noteq> None)"

lemma decoded_as_described_Inr:
  assumes "decoded_as_described R d b = Inr c"
    "jget d ''logical_start'' = JInt a" "jget d ''logical_end'' = JInt e"
  shows "decode_chunk False b = Inr c" "\<forall>k\<in>R. records c k \<noteq> None"
    "logical_start c = a" "logical_end c = e" "valid_chunk c"
proof -
  note h = assms(1) [unfolded decoded_as_described_def success_iff require_complete_chunk_def require_simps]
  show *: "decode_chunk False b = Inr c" "\<forall>k\<in>R. records c k \<noteq> None"
    "logical_start c = a" "logical_end c = e"
    using h assms(2,3) by auto
  show "valid_chunk c" using decode_accounts [OF *(1)] by simp
qed

definition described :: "int \<Rightarrow> int \<Rightarrow> jdict \<Rightarrow> bool" where
  "described a e d \<longleftrightarrow> set (dkeys d) = set CHUNK_KEYS \<and> is_digest (jget d ''sha256'')
     \<and> (\<exists>n. jget d ''bytes'' = JInt n) \<and> jget d ''logical_start'' = JInt a \<and> jget d ''logical_end'' = JInt e"

lemma described_get:
  assumes "described a e d" "k \<in> set CHUNK_KEYS" shows "map_of d k = Some (jget d k)"
proof -
  have "k \<in> set (dkeys d)" using assms by (simp add: described_def)
  then obtain v where "map_of d k = Some v" by (metis dget_None not_None_eq)
  then show ?thesis by (simp add: jget_def)
qed

lemma matches_described:
  assumes "described a e d" "jget d ''bytes'' = JInt n"
  shows "payload_matches_descriptor d b = Inr (int (length b) = n \<and> jget d ''sha256'' = JStr (sha256 b))"
proof -
  have "''crc32'' \<notin> set (dkeys d)" using assms(1) by (simp add: described_def CHUNK_KEYS_def)
  then have "map_of d ''crc32'' = None" by (simp add: dget_None)
  then show ?thesis
    using described_get [OF assms(1), of "''bytes''"] described_get [OF assms(1), of "''sha256''"] assms(2)
    by (auto simp: payload_matches_descriptor_def descriptor_integrity_def CHUNK_KEYS_def)
qed

lemma checked_chunk:
  assumes "check_chunk_file True meta i s d = Inr ()" "described a e d"
  obtains b c where "files s (chunk_path d) = Content b" "jget d ''sha256'' = JStr (sha256 b)"
    "decode_chunk False b = Inr c" "restore_one (required_records i) s (JObj d) = Inr c"
    "complete_chunk i c" "logical_start c = a" "logical_end c = e"
proof -
  obtain n where n: "jget d ''bytes'' = JInt n" using assms(2) by (auto simp: described_def)
  obtain b where b: "files s (chunk_path d) = Content b"
    using assms(1) by (cases "files s (chunk_path d)") (auto simp: check_chunk_file_def read_bytes_def)
  have "''encoded_start'' \<notin> set (dkeys d)" using assms(2) by (simp add: described_def CHUNK_KEYS_def)
  then obtain c where c: "int (length b) = n" "jget d ''sha256'' = JStr (sha256 b)"
    "decoded_as_described (required_records i) d b = Inr c"
    using assms(1) b by (auto simp: check_chunk_file_def read_bytes_def matches_described [OF assms(2) n] success_iff)
  note f = decoded_as_described_Inr [OF c(3), of a e]
  have r: "restore_one (required_records i) s (JObj d) = Inr c"
    using assms(2) b c n by (simp add: restore_one_def strict_keys_def validate_digest_def described_def read_bytes_def)
  show ?thesis
    by (rule that [OF b c(2) f(1) r]) (use f assms(2) in \<open>auto simp: described_def complete_chunk_def\<close>)
qed

lemma checked_chunks_restore:
  assumes "tiled_dicts full a (map JObj ds) n" "check_chunk_files True meta i s ds = Inr ()"
  shows "\<exists>cs. mapE (restore_one (required_records i) s) (map JObj ds) = Inr cs
    \<and> tiled full a cs n \<and> (\<forall>c\<in>set cs. complete_chunk i c)"
  using assms
proof (induction ds arbitrary: a)
  case (Cons d ds)
  obtain e where e: "described a e d" "a < e" "e - a \<le> full" "ds \<noteq> [] \<longrightarrow> e - a = full"
    "tiled_dicts full e (map JObj ds) n"
    using Cons.prems(1) by (auto simp: described_def)
  have chk: "check_chunk_file True meta i s d = Inr ()" "check_chunk_files True meta i s ds = Inr ()"
    using Cons.prems(2) by (auto simp: bindE_Inr)
  obtain c where c: "restore_one (required_records i) s (JObj d) = Inr c" "complete_chunk i c"
    "logical_start c = a" "logical_end c = e"
    using checked_chunk [OF chk(1) e(1)] by metis
  obtain cs where cs: "mapE (restore_one (required_records i) s) (map JObj ds) = Inr cs"
    "tiled full e cs n" "\<forall>c\<in>set cs. complete_chunk i c"
    using Cons.IH [OF e(5) chk(2)] by auto
  have "cs \<noteq> [] \<longrightarrow> ds \<noteq> []" using cs(1) by auto
  then show ?case using c cs e(2-4) by (intro exI [of _ "c # cs"]) auto
qed simp


lemma wf_writable:
  "writable v \<Longrightarrow> wf_json v" "writable_list vs \<Longrightarrow> wf_list vs" "writable_items d \<Longrightarrow> wf_items d"
  by (induction v and vs and d rule: writable_writable_list_writable_items.induct) auto

lemma wf_field: "wf_items d \<Longrightarrow> wf_json (jget d k)"
  by (induction d) auto

lemma wf_list_field: "wf_json (JObj d) \<Longrightarrow> the_list (jget d k) = Some vs \<Longrightarrow> wf_list vs"
  using wf_field [of d k] by auto

lemma wf_synthetic: "wf_list vs \<Longrightarrow> wf_json (synthetic_manifest i c (JInt n) (JList vs))"
  using wf_writable(1) [OF writable_to_wire [of i]] by (simp add: synthetic_manifest_def)

lemma wf_dicts: "wf_list vs \<Longrightarrow> wf_list (map JObj (dicts vs))"
  by (induction vs) (auto simp: dicts_def map_filter_simps split: option.split)

lemma wf_segment: "validate_prefix_segment v k n = Inr ds \<Longrightarrow> wf_json v \<Longrightarrow> wf_list (map JObj ds)"
proof -
  assume v: "validate_prefix_segment v k n = Inr ds" "wf_json v"
  then obtain g where g: "v = JObj g" "dicts (case jget g ''descriptors'' of JList vs \<Rightarrow> vs | _ \<Rightarrow> []) = ds"
    by (auto simp: validate_prefix_segment_def bindE_Inr simp del: wf_json.simps split: option.splits if_splits)
  then have "wf_list (case jget g ''descriptors'' of JList vs \<Rightarrow> vs | _ \<Rightarrow> [])"
    using v(2) wf_field [of g "''descriptors''"] by (auto split: json.split)
  then show ?thesis using g(2) wf_dicts by blast
qed

lemma wf_append: "wf_list (vs @ ws) = (wf_list vs \<and> wf_list ws)"
  by (auto simp: wf_list_iff)

lemma wf_take: "wf_list (map JObj ds) \<Longrightarrow> wf_list (map JObj (take n ds))"
  by (auto simp: wf_list_iff dest: in_set_takeD)

text \<open>The descriptors of a chain were all read from segments.\<close>

lemma wf_chain: "read_chain i s segs k d visited = Inr (ds, seen) \<Longrightarrow> wf_list (map JObj ds)"
proof (induction k arbitrary: d visited ds seen)
  case (Suc k)
  obtain b v es where r: "read_json b = Inr v"
    "validate_prefix_segment v (storage_key i) (int k * PREFIX_SEGMENT_DESCRIPTORS) = Inr es"
    "ds = es \<or> (\<exists>p earlier. read_chain i s segs k p (d # visited) = Inr (earlier, seen) \<and> ds = earlier @ es)"
    using Suc.prems by (auto simp: bindE_Inr split: if_splits option.splits) blast+
  have "wf_list (map JObj es)" using wf_segment [OF r(2) wf_read [OF r(1)]] .
  then show ?case using r(3) Suc.IH by (auto simp: wf_append)
qed simp

lemma wf_tail_chunks: "validate_tail_manifest_root m i c = Inr r \<Longrightarrow> wf_json m \<Longrightarrow> wf_list (tr_chunks r)"
  unfolding validate_tail_manifest_root_def success_iff the_Some
  by (elim exE conjE) (auto dest: wf_list_field [where k = "''tail_chunks''"] simp del: wf_json.simps)

lemma wf_resolved: "resolve_tail_manifest s root i c = Inr (m, segs) \<Longrightarrow> wf_json root \<Longrightarrow> wf_json m"
  by (auto simp: resolve_tail_manifest_def read_descriptor_chain_def bindE_Inr wf_append Let_def
      intro!: wf_synthetic wf_tail_chunks wf_take dest: wf_chain
      simp del: wf_json.simps wf_list.simps split: if_splits option.splits)

lemma root_descriptors_manifest:
  assumes "root_descriptors s root i c = Inr (m, ''manifest'', ds)" "wf_json root"
  shows "validate_manifest_metadata m (EntryKey (storage_key i) c) (Some i) = Inr ds" "wf_json m"
proof -
  have "m = root \<or> (\<exists>segs. resolve_tail_manifest s root i c = Inr (m, segs))"
    and v: "validate_manifest_metadata m (EntryKey (storage_key i) c) (Some i) = Inr ds"
    using assms(1) by (auto simp: root_descriptors_def bindE_Inr split: if_splits prod.splits)
  then show "wf_json m" using assms(2) wf_resolved by blast
  show "validate_manifest_metadata m (EntryKey (storage_key i) c) (Some i) = Inr ds" by (rule v)
qed

lemma clean_miss_hit: "clean_miss p r = Inr x \<Longrightarrow> is_hit x \<Longrightarrow> r = Inr x"
  by (cases r) (auto simp: clean_miss_def miss_def split: exn.splits if_splits)

lemma miss_not_hit [simp]: "\<not> is_hit (miss w)"
  by (simp add: miss_def)

lemma row_hit:
  assumes "lookup i c verify meta mode s = Inr r" "is_hit r" "lr_root_kind r \<in> {''manifest'', ''prefix_alias''}"
  obtains enc m ds where "r = hit enc m (lr_root_kind r)"
    "validate_manifest_metadata m (EntryKey (storage_key i) c) (Some i) = Inr ds" "wf_json m"
    "check_chunk_files verify meta i s ds = Inr ()"
proof (cases "read_bytes (manifest_path i c) s")
  case (Inl e)
  then have "lookup_prefix_alias i c verify meta s = Inr r"
    using assms(1,2) by (cases e) (auto simp: lookup_def split: if_splits)
  from clean_miss_hit [OF this [unfolded lookup_prefix_alias_def] assms(2)]
  obtain enc ds x es where h: "r = hit enc (synthetic_manifest i c (JInt x) (JList (map JObj es))) ''prefix_alias''"
    "validate_manifest_metadata (synthetic_manifest i c (JInt x) (JList (map JObj es))) (EntryKey (storage_key i) c) (Some i) = Inr ds"
    "wf_list (map JObj es)" "check_chunk_files verify meta i s ds = Inr ()"
    by (auto simp: success_iff Let_def simp del: wf_list.simps split: prod.splits if_splits dest!: wf_chain)
       (blast intro: wf_take)
  show ?thesis
    by (rule that [OF _ h(2) wf_synthetic [OF h(3)] h(4)]) (simp add: h(1) hit_def)
next
  case (Inr enc)
  have "clean_miss (\<lambda>_. False) (bindE (read_json enc) (\<lambda>root.
      bindE (root_descriptors s root i c) (\<lambda>(m, kind, chunks).
      bindE (check_chunk_files verify meta i s chunks) (\<lambda>_. Inr (hit enc m kind))))) = Inr r"
    using assms(1,2) Inr by (auto simp: lookup_def split: if_splits)
  from clean_miss_hit [OF this assms(2)]
  obtain root m kind ds where h: "read_json enc = Inr root" "root_descriptors s root i c = Inr (m, kind, ds)"
    "check_chunk_files verify meta i s ds = Inr ()" "r = hit enc m kind"
    by (auto simp: bindE_Inr split: prod.splits)
  have "kind = ''manifest'' \<or> kind = ''page_delta'' \<or> kind = ''page_snapshot''"
    using h(2) by (auto simp: root_descriptors_def bindE_Inr split: if_splits prod.splits)
  then have k: "kind = ''manifest''" using assms(3) h(4) by (auto simp: hit_def)
  note v = root_descriptors_manifest [OF h(2) [unfolded k] wf_read [OF h(1)]]
  show ?thesis by (rule that [OF _ v h(3)]) (simp add: h(4) k hit_def)
qed

end
