(* ===== verification/Store_Commit.thy ===== *)
theory Store_Commit
  imports Store_Laws
begin

text \<open>
  Commit against lookup and restore: on a file system that does what it is told, committing chunks
  that tile a span succeeds, the entry is found, and restore returns the chunks that were committed.
\<close>

section \<open>Publishing objects\<close>

definition healthy :: "store \<Rightarrow> bool" where
  "healthy s \<longleftrightarrow> (\<forall>p. \<not> write_fails s p) \<and> (\<forall>d. \<not> sync_fails s d)"

definition put_all :: "(path \<times> string) list \<Rightarrow> store \<Rightarrow> store" where
  "put_all objs s = s\<lparr>files := (\<lambda>p. case map_of objs p of None \<Rightarrow> files s p | Some b \<Rightarrow> Content b)\<rparr>"

definition consistent :: "(path \<times> string) list \<Rightarrow> bool" where
  "consistent objs \<longleftrightarrow> (\<forall>p b b'. (p, b) \<in> set objs \<longrightarrow> (p, b') \<in> set objs \<longrightarrow> b = b')"

lemma put_all_simps [simp]:
  "put_all [] s = s"
  "write_fails (put_all objs s) = write_fails s" "sync_fails (put_all objs s) = sync_fails s"
  "unlink_fails (put_all objs s) = unlink_fails s"
  "files (put_all objs s) p = (case map_of objs p of None \<Rightarrow> files s p | Some b \<Rightarrow> Content b)"
  by (simp_all add: put_all_def)

lemma store_eqI:
  "\<lbrakk>\<And>p. files s p = files s' p; write_fails s = write_fails s'; sync_fails s = sync_fails s';
    unlink_fails s = unlink_fails s'\<rbrakk> \<Longrightarrow> s = (s' :: store)"
  by (cases s; cases s') (simp add: fun_eq_iff)

lemma consistent_map_of:
  "consistent objs \<Longrightarrow> (p, b) \<in> set objs \<Longrightarrow> map_of objs p = Some b"
  by (induction objs) (auto simp: consistent_def dest: map_of_SomeD)

lemma consistent_sub: "consistent objs \<Longrightarrow> set objs' \<subseteq> set objs \<Longrightarrow> consistent objs'"
  by (auto simp: consistent_def)

lemma put_all_Cons:
  assumes "consistent ((p, b) # objs)"
  shows "put_all objs (put_file p b s) = put_all ((p, b) # objs) s"
proof (rule store_eqI)
  fix q show "files (put_all objs (put_file p b s)) q = files (put_all ((p, b) # objs) s) q"
    using assms by (auto simp: put_file_def consistent_def split: option.split dest: map_of_SomeD)
qed (simp_all add: put_file_def)

lemma put_all_append:
  assumes "consistent (xs @ ys)" shows "put_all ys (put_all xs s) = put_all (xs @ ys) s"
proof (rule store_eqI)
  fix p
  show "files (put_all ys (put_all xs s)) p = files (put_all (xs @ ys) s) p"
    using assms by (cases "map_of xs p"; cases "map_of ys p")
      (auto simp: map_add_def consistent_def dest!: map_of_SomeD)
qed simp_all

lemma healthy_put_all [simp]: "healthy (put_all objs s) = healthy s"
  by (simp add: healthy_def)

lemma publish_fresh:
  assumes "healthy s" "files s p \<in> {Absent, Content b}"
  shows "publish_immutable p b s = (Inr (), put_file p b s)"
proof -
  have "files s p = Content b \<Longrightarrow> put_file p b s = s"
    by (intro store_eqI) (simp_all add: put_file_def)
  then show ?thesis using assms
    by (auto simp: publish_immutable_def with_barrier_def durable_payload_matches_def healthy_def
        put_file_def)
qed

lemma stage_batch_ok:
  assumes "consistent (seen @ objs)" "\<forall>(p, b)\<in>set objs. files s p \<noteq> Unreadable"
  shows "\<exists>staged. stage_batch objs seen s = Inr staged \<and> set staged \<subseteq> set objs
    \<and> (\<forall>(p, b)\<in>set objs. (p, b) \<in> set staged \<or> (p, b) \<in> set seen \<or> files s p = Content b)"
  using assms
proof (induction objs arbitrary: seen)
  case (Cons obj objs)
  obtain p b where o: "obj = (p, b)" by (cases obj)
  have cs: "consistent (((p, b) # seen) @ objs)" "consistent (seen @ objs)"
    using Cons.prems(1) by (auto simp: consistent_def o)
  have rd: "\<forall>(p, b)\<in>set objs. files s p \<noteq> Unreadable" "files s p \<noteq> Unreadable"
    using Cons.prems(2) by (auto simp: o)
  show ?case
  proof (cases "map_of seen p")
    case (Some x)
    then have m: "(p, x) \<in> set seen" by (rule map_of_SomeD)
    then have "x = b" using Cons.prems(1) by (auto simp: consistent_def o)
    then show ?thesis using Cons.IH [OF cs(2) rd(1)] Some m by (auto simp: o)
  next
    case None
    from Cons.IH [OF cs(1) rd(1)] obtain staged where st: "stage_batch objs ((p, b) # seen) s = Inr staged"
      "set staged \<subseteq> set objs"
      "\<forall>(q, c)\<in>set objs. (q, c) \<in> set staged \<or> (q, c) \<in> set ((p, b) # seen) \<or> files s q = Content c"
      by auto
    show ?thesis
    proof (cases "files s p = Content b")
      case True
      then show ?thesis using None st
        by (intro exI [of _ staged]) (auto simp: o durable_payload_matches_def)
    next
      case False
      then show ?thesis using None st rd(2)
        by (intro exI [of _ "(p, b) # staged"])
           (auto simp: o durable_payload_matches_def split: stored.splits)
    qed
  qed
qed simp

text \<open>A file that a batch may write: absent, of this content already, or repaired because its name is its
  digest.\<close>

definition object_free :: "store \<Rightarrow> path \<Rightarrow> string \<Rightarrow> bool" where
  "object_free s p b \<longleftrightarrow> files s p \<in> {Absent, Content b} \<or> (content_addressed p b \<and> files s p \<noteq> Unreadable)"

lemma object_free_readable: "object_free s p b \<Longrightarrow> files s p \<noteq> Unreadable"
  by (auto simp: object_free_def)

lemma link_batch_ok:
  assumes "consistent staged" "\<forall>(p, b)\<in>set staged. object_free s p b"
  shows "link_batch staged s = (Inr (), put_all staged s)"
  using assms
proof (induction staged arbitrary: s)
  case (Cons obj staged)
  obtain p b where o: "obj = (p, b)" by (cases obj)
  have c: "consistent staged" using Cons.prems(1) by (auto simp: consistent_def)
  have "link_batch staged (put_file p b s) = (Inr (), put_all staged (put_file p b s))"
    by (rule Cons.IH [OF c])
       (use Cons.prems in \<open>fastforce simp: put_file_def object_free_def consistent_def o split: if_splits\<close>)
  also have "\<dots> = (Inr (), put_all (obj # staged) s)"
    using put_all_Cons Cons.prems(1) by (simp add: o)
  finally have put: "link_batch staged (put_file p b s) = (Inr (), put_all (obj # staged) s)" .
  have same: "put_file p b s = s" if "files s p = Content b"
    using that by (intro store_eqI) (simp_all add: put_file_def)
  show ?case using put same Cons.prems(2)
    by (cases "files s p = Content b"; cases "files s p")
       (auto simp: o durable_payload_matches_def object_free_def split: bool.splits)
qed simp

lemma publish_batch_free:
  assumes "healthy s" "consistent objs" "\<forall>(p, b)\<in>set objs. object_free s p b \<and> parent p = dir"
  shows "publish_immutable_batch objs s = (Inr (), put_all objs s)"
proof (cases objs)
  case (Cons obj rest)
  obtain p0 b0 where o: "obj = (p0, b0)" by (cases obj)
  obtain staged where st: "stage_batch objs [] s = Inr staged" "set staged \<subseteq> set objs"
    "\<forall>(p, b)\<in>set objs. (p, b) \<in> set staged \<or> files s p = Content b"
    using stage_batch_ok [of "[]" objs s] assms(2,3) object_free_readable by fastforce
  have cs: "consistent staged" by (rule consistent_sub [OF assms(2) st(2)])
  have "link_batch staged s = (Inr (), put_all staged s)"
    by (rule link_batch_ok [OF cs]) (use assms(3) st(2) in fastforce)
  moreover have "put_all staged s = put_all objs s"
  proof (rule store_eqI)
    fix p
    show "files (put_all staged s) p = files (put_all objs s) p"
    proof (cases "map_of objs p")
      case None
      then have "map_of staged p = None" using st(2) by (force simp: map_of_eq_None_iff)
      with None show ?thesis by simp
    next
      case (Some b)
      then have "(p, b) \<in> set objs" by (rule map_of_SomeD)
      then have "map_of staged p = Some b \<or> (p, b) \<notin> set staged \<and> files s p = Content b"
        using st(3) consistent_map_of [OF cs] by blast
      moreover have "map_of staged p = Some x \<Longrightarrow> x = b" for x
        using st(2) assms(2) \<open>(p, b) \<in> set objs\<close> by (auto simp: consistent_def dest!: map_of_SomeD)
      ultimately show ?thesis using Some by (cases "map_of staged p") auto
    qed
  qed simp_all
  moreover have "\<not> (\<exists>(p, b)\<in>set objs. parent p \<noteq> parent p0)" using assms(3) Cons o by auto
  ultimately show ?thesis
    using st(1) assms(1) Cons o
    by (auto simp: publish_immutable_batch_def with_barrier_def healthy_def)
qed (simp add: publish_immutable_batch_def)

lemma publish_batch_ok:
  assumes "healthy s" "consistent objs"
    "\<forall>(p, b)\<in>set objs. files s p \<noteq> Unreadable \<and> content_addressed p b \<and> parent p = dir"
  shows "publish_immutable_batch objs s = (Inr (), put_all objs s)"
  by (rule publish_batch_free [OF assms(1,2), of dir]) (use assms(3) in \<open>auto simp: object_free_def\<close>)

section \<open>Appending chunks\<close>

definition chunk_objects :: "string list \<Rightarrow> (path \<times> string) list" where
  "chunk_objects bs = map (\<lambda>b. (Chunk_file (sha256 b), b)) bs"

definition descriptors_of :: "string list \<Rightarrow> context_chunk list \<Rightarrow> jdict list" where
  "descriptors_of bs cs = map2 chunk_descriptor bs cs"

lemma chunk_descriptor_get [simp]:
  "jget (chunk_descriptor b c) ''sha256'' = JStr (sha256 b)"
  "jget (chunk_descriptor b c) ''bytes'' = JInt (int (length b))"
  "jget (chunk_descriptor b c) ''logical_start'' = JInt (logical_start c)"
  "jget (chunk_descriptor b c) ''logical_end'' = JInt (logical_end c)"
  by (simp_all add: chunk_descriptor_def)

lemma descriptor_tokens_chunk [simp]:
  "descriptor_tokens (chunk_descriptor b c) = logical_end c - logical_start c"
  by (simp add: descriptor_tokens_def)

lemma tiled_le: "tiled f a cs n \<Longrightarrow> a \<le> n"
  by (induction cs arbitrary: a) force+

lemma tiled_append:
  "tiled f a (xs @ ys) n \<Longrightarrow> ys \<noteq> [] \<Longrightarrow>
    \<exists>m. tiled f a xs m \<and> tiled f m ys n \<and> (xs \<noteq> [] \<longrightarrow> logical_end (last xs) - logical_start (last xs) = f)"
proof (induction xs arbitrary: a)
  case (Cons x xs)
  then obtain m where "tiled f (logical_end x) xs m" "tiled f m ys n"
    "xs \<noteq> [] \<longrightarrow> logical_end (last xs) - logical_start (last xs) = f"
    by auto
  then show ?case using Cons.prems by (intro exI [of _ m]) auto
qed simp

lemma tiled_split:
  assumes "tiled f a (xs @ ys) n"
  shows "\<exists>m. tiled f a xs m \<and> tiled f m ys n
    \<and> (ys \<noteq> [] \<longrightarrow> xs \<noteq> [] \<longrightarrow> logical_end (last xs) - logical_start (last xs) = f)"
proof (cases "ys = []")
  case True
  then show ?thesis using assms by (intro exI [of _ n]) simp
qed (use tiled_append [OF assms] in blast)

definition starts_below :: "int \<Rightarrow> jdict list \<Rightarrow> bool" where
  "starts_below a ds \<longleftrightarrow> (\<forall>d\<in>set ds. \<exists>x. jget d ''logical_start'' = JInt x \<and> x < a)"

lemma find_range_below: "starts_below a ds \<Longrightarrow> find_range a e ds = None"
  by (auto simp: find_range_def find_None_iff starts_below_def)

text \<open>A transaction that can take the chunks from \<open>a\<close> on.\<close>

definition accepting :: "transaction \<Rightarrow> int \<Rightarrow> context_chunk list \<Rightarrow> int \<Rightarrow> bool" where
  "accepting t a cs n \<longleftrightarrow> tx_state t = Open \<and> tiled (chunk_tokens (tx_identity t)) a cs n
     \<and> (\<forall>m. tx_span t = Some m \<longrightarrow> n \<le> m)
     \<and> (\<forall>c\<in>set cs. complete_chunk (tx_identity t) c)"

definition resumes :: "int \<Rightarrow> int \<Rightarrow> jdict list \<Rightarrow> bool" where
  "resumes f a ds \<longleftrightarrow> starts_below a ds \<and> (ds \<noteq> [] \<longrightarrow> descriptor_tokens (last ds) = f)"

lemma admit_one:
  assumes "accepting t a (c # cs) n" "encode_chunk c = Inr b" "resumes (chunk_tokens (tx_identity t)) a ds"
  shows "\<exists>r. admit_chunk t ds a c = Inr (r, Some (chunk_descriptor b c, (Chunk_file (sha256 b), b)))"
proof -
  have "logical_end c \<le> n" using assms(1) tiled_le by (auto simp: accepting_def)
  moreover have "\<not> (case tx_span t of None \<Rightarrow> False | Some m \<Rightarrow> logical_end c > m)"
    using assms(1) calculation by (auto simp: accepting_def split: option.splits)
  moreover have "find_range (logical_start c) (logical_end c) ds = None"
    using assms(1,3) by (auto simp: accepting_def resumes_def find_range_below)
  ultimately show ?thesis
    using assms by (auto simp: admit_chunk_def accepting_def resumes_def complete_chunk_def
        require_complete_chunk_def Let_def)
qed

lemma admit_tiled:
  assumes "accepting t a cs n" "mapE encode_chunk cs = Inr bs"
    "cs \<noteq> [] \<Longrightarrow> resumes (chunk_tokens (tx_identity t)) a ds" "a \<le> n"
  shows "\<exists>rs. admit_chunks t ds a cs = Inr (rs, descriptors_of bs cs, chunk_objects bs, n)"
  using assms
proof (induction cs arbitrary: a bs ds)
  case Nil
  then show ?case by (simp add: descriptors_of_def chunk_objects_def accepting_def)
next
  case (Cons c cs)
  obtain b bs' where b: "encode_chunk c = Inr b" "mapE encode_chunk cs = Inr bs'" "bs = b # bs'"
    using Cons.prems(2) by (auto simp: bindE_Inr)
  let ?d = "chunk_descriptor b c"
  have acc: "accepting t (logical_end c) cs n" using Cons.prems(1) by (auto simp: accepting_def)
  have res: "resumes (chunk_tokens (tx_identity t)) (logical_end c) (ds @ [?d])" if "cs \<noteq> []"
    using Cons.prems(1,3) that by (auto simp: resumes_def starts_below_def accepting_def)
  have le: "logical_end c \<le> n" using Cons.prems(1) tiled_le by (auto simp: accepting_def)
  obtain rs where "admit_chunks t (ds @ [?d]) (logical_end c) cs
      = Inr (rs, descriptors_of bs' cs, chunk_objects bs', n)"
    using Cons.IH [OF acc b(2) res le] by blast
  moreover obtain r where "admit_chunk t ds a c = Inr (r, Some (?d, (Chunk_file (sha256 b), b)))"
    using admit_one [OF Cons.prems(1) b(1)] Cons.prems(3) by auto
  ultimately show ?case using b(3) by (simp add: descriptors_of_def chunk_objects_def)
qed

definition no_collision :: "string set \<Rightarrow> bool" where
  "no_collision B \<longleftrightarrow> (\<forall>b\<in>B. \<forall>b'\<in>B. sha256 b = sha256 b' \<longrightarrow> b = b')"

definition chunks_readable :: "string list \<Rightarrow> store \<Rightarrow> bool" where
  "chunks_readable bs s \<longleftrightarrow> (\<forall>b\<in>set bs. files s (Chunk_file (sha256 b)) \<noteq> Unreadable)"

lemma no_collision_sub: "no_collision B \<Longrightarrow> A \<subseteq> B \<Longrightarrow> no_collision A"
  unfolding no_collision_def by blast

lemma consistent_objects: "no_collision (set bs) \<Longrightarrow> consistent (chunk_objects bs)"
  by (auto simp: consistent_def chunk_objects_def no_collision_def)

lemma append_tiled:
  assumes "healthy s" "accepting t (tx_expected_start t) cs n" "mapE encode_chunk cs = Inr bs" "cs \<noteq> []"
    "resumes (chunk_tokens (tx_identity t)) (tx_expected_start t) (tx_descriptors t)"
    "no_collision (set bs)" "chunks_readable bs s"
  shows "\<exists>rs. append_chunks cs (t, s) = (Inr rs,
    (t\<lparr>tx_descriptors := tx_descriptors t @ descriptors_of bs cs, tx_expected_start := n\<rparr>,
     put_all (chunk_objects bs) s))"
proof -
  have "tx_expected_start t \<le> n" using assms(2) tiled_le by (auto simp: accepting_def)
  from admit_tiled [OF assms(2,3,5) this] obtain rs where
    "admit_chunks t (tx_descriptors t) (tx_expected_start t) cs = Inr (rs, descriptors_of bs cs, chunk_objects bs, n)"
    by blast
  moreover have "publish_immutable_batch (chunk_objects bs) s = (Inr (), put_all (chunk_objects bs) s)"
    by (rule publish_batch_ok [OF assms(1) consistent_objects [OF assms(6)], of Chunks])
       (use assms(7) in \<open>auto simp: chunk_objects_def chunks_readable_def\<close>)
  ultimately show ?thesis using assms(2,4) by (simp add: append_chunks_def accepting_def)
qed


lemma mapE_take_drop:
  assumes "mapE f xs = Inr ys"
  shows "mapE f (take n xs) = Inr (take n ys)" "mapE f (drop n xs) = Inr (drop n ys)"
  using assms by (simp_all add: mapE_Inr list_all2_takeI list_all2_dropI)

lemma mapE_length: "mapE f xs = Inr ys \<Longrightarrow> length ys = length xs"
  by (auto simp: mapE_Inr dest: list_all2_lengthD)

lemma descriptors_of_append:
  "length bs = length cs \<Longrightarrow> descriptors_of (bs @ bs') (cs @ cs') = descriptors_of bs cs @ descriptors_of bs' cs'"
  by (simp add: descriptors_of_def)

lemma last_descriptor:
  "length bs = length cs \<Longrightarrow> cs \<noteq> [] \<Longrightarrow> last (descriptors_of bs cs) = chunk_descriptor (last bs) (last cs)"
  by (induction bs cs rule: list_induct2) (auto simp: descriptors_of_def)

lemma starts_below_tiled:
  "tiled f a cs n \<Longrightarrow> length bs = length cs \<Longrightarrow> starts_below n (descriptors_of bs cs)"
proof (induction cs arbitrary: a bs)
  case (Cons c cs)
  then obtain b bs' where b: "bs = b # bs'" by (cases bs) auto
  have "logical_end c \<le> n" using Cons.prems(1) tiled_le by auto
  then show ?case using Cons b by (force simp: descriptors_of_def starts_below_def)
qed (simp add: descriptors_of_def starts_below_def)

lemma starts_below_mono: "starts_below a ds \<Longrightarrow> a \<le> b \<Longrightarrow> starts_below b ds"
  by (force simp: starts_below_def)

lemma append_batches_tiled:
  assumes "healthy s" "accepting t (tx_expected_start t) cs n" "mapE encode_chunk cs = Inr bs"
    "cs \<noteq> [] \<Longrightarrow> resumes (chunk_tokens (tx_identity t)) (tx_expected_start t) (tx_descriptors t)"
    "no_collision (set bs)" "chunks_readable bs s"
  shows "append_batches cs (t, s) = (Inr (),
    (t\<lparr>tx_descriptors := tx_descriptors t @ descriptors_of bs cs, tx_expected_start := n\<rparr>,
     put_all (chunk_objects bs) s))"
  using assms
proof (induction "length cs" arbitrary: cs bs t s rule: less_induct)
  case less
  let ?f = "chunk_tokens (tx_identity t)" and ?k = COMMIT_CHUNK_BATCH_SIZE
  show ?case
  proof (cases "cs = []")
    case True
    then show ?thesis using less.prems(2,3)
      by (simp add: append_batches.simps accepting_def descriptors_of_def chunk_objects_def)
  next
    case False
    let ?xs = "take ?k cs" and ?ys = "drop ?k cs" and ?us = "take ?k bs" and ?vs = "drop ?k bs"
    have k: "?xs \<noteq> []" using False by (simp add: COMMIT_CHUNK_BATCH_SIZE_def)
    have enc: "mapE encode_chunk ?xs = Inr ?us" "mapE encode_chunk ?ys = Inr ?vs"
      using mapE_take_drop [OF less.prems(3)] by simp_all
    have len: "length ?us = length ?xs" using mapE_length [OF enc(1)] .
    have "tiled ?f (tx_expected_start t) (?xs @ ?ys) n" using less.prems(2) by (simp add: accepting_def)
    from tiled_split [OF this] k obtain m where m: "tiled ?f (tx_expected_start t) ?xs m" "tiled ?f m ?ys n"
      "?ys \<noteq> [] \<longrightarrow> logical_end (last ?xs) - logical_start (last ?xs) = ?f"
      by blast
    have "\<forall>c\<in>set ?xs \<union> set ?ys. c \<in> set cs" by (auto dest: in_set_takeD in_set_dropD)
    then have acc: "accepting t (tx_expected_start t) ?xs m" "accepting t m ?ys n"
      using less.prems(2) m tiled_le [OF m(2)] by (force simp: accepting_def)+
    have sub: "set ?us \<subseteq> set bs" "set ?vs \<subseteq> set bs" by (auto dest: in_set_takeD in_set_dropD)
    then have coll: "no_collision (set ?us)" "no_collision (set ?vs)"
      using less.prems(5) no_collision_sub by blast+
    have rd: "chunks_readable ?us s" using less.prems(6) sub by (auto simp: chunks_readable_def)
    define t' where "t' = t\<lparr>tx_descriptors := tx_descriptors t @ descriptors_of ?us ?xs, tx_expected_start := m\<rparr>"
    define s' where "s' = put_all (chunk_objects ?us) s"
    obtain rs where app: "append_chunks ?xs (t, s) = (Inr rs, (t', s'))"
      using append_tiled [OF less.prems(1) acc(1) enc(1) k less.prems(4) [OF False] coll(1) rd]
      unfolding t'_def s'_def by blast
    have "append_batches ?ys (t', s') = (Inr (),
        (t'\<lparr>tx_descriptors := tx_descriptors t' @ descriptors_of ?vs ?ys, tx_expected_start := n\<rparr>,
         put_all (chunk_objects ?vs) s'))"
    proof (rule less.hyps)
      show "length ?ys < length cs" using False by (simp add: COMMIT_CHUNK_BATCH_SIZE_def)
      show "healthy s'" using less.prems(1) by (simp add: s'_def)
      show "accepting t' (tx_expected_start t') ?ys n" using acc(2) by (simp add: t'_def accepting_def)
      show "mapE encode_chunk ?ys = Inr ?vs" by (rule enc(2))
      show "no_collision (set ?vs)" by (rule coll(2))
      show "chunks_readable ?vs s'" using less.prems(6) sub(2)
        by (auto simp: chunks_readable_def s'_def split: option.split)
      assume ys: "?ys \<noteq> []"
      have "starts_below m (tx_descriptors t)"
        using less.prems(4) [OF False] tiled_le [OF m(1)] starts_below_mono by (auto simp: resumes_def)
      then have "starts_below m (tx_descriptors t')"
        using starts_below_tiled [OF m(1) len] by (auto simp: t'_def starts_below_def)
      moreover have "descriptors_of ?us ?xs \<noteq> []" using k len by (cases ?us; cases ?xs) (auto simp: descriptors_of_def)
      ultimately show "resumes (chunk_tokens (tx_identity t')) (tx_expected_start t') (tx_descriptors t')"
        using m(3) ys last_descriptor [OF len k] by (simp add: resumes_def t'_def)
    qed
    moreover have "descriptors_of ?us ?xs @ descriptors_of ?vs ?ys = descriptors_of bs cs"
      using descriptors_of_append [OF len, of ?vs ?ys] by simp
    moreover have "put_all (chunk_objects ?vs) s' = put_all (chunk_objects bs) s"
      using put_all_append [of "chunk_objects ?us" "chunk_objects ?vs" s] consistent_objects [OF less.prems(5)]
      by (simp add: s'_def chunk_objects_def flip: map_append)
    ultimately show ?thesis using False app by (subst append_batches.simps) (simp add: t'_def)
  qed
qed


section \<open>Committing and reading back\<close>

definition row_manifest :: "cache_identity \<Rightarrow> string \<Rightarrow> string list \<Rightarrow> context_chunk list \<Rightarrow> int \<Rightarrow> json" where
  "row_manifest i c bs cs n =
     synthetic_manifest i c (JInt n) (JList (map JObj (descriptors_of bs cs)))"

text \<open>What a commit needs: chunks that tile the span from zero, complete for the identity, encodable,
  and files that can be written; the entry is new.\<close>

definition committable ::
    "cache_identity \<Rightarrow> string \<Rightarrow> context_chunk list \<Rightarrow> int option \<Rightarrow> string list \<Rightarrow> int \<Rightarrow> store \<Rightarrow> bool" where
  "committable i c cs span bs n s \<longleftrightarrow>
     valid_identity i \<and> is_sha256 c \<and> cs \<noteq> [] \<and> tiled (chunk_tokens i) 0 cs n
     \<and> (\<forall>x\<in>set cs. complete_chunk i x) \<and> mapE encode_chunk cs = Inr bs
     \<and> (span = None \<or> span = Some n) \<and> healthy s \<and> no_collision (set bs) \<and> chunks_readable bs s
     \<and> files s (manifest_path i c) = Absent"

lemma descriptors_not_Nil: "length bs = length cs \<Longrightarrow> cs \<noteq> [] \<Longrightarrow> descriptors_of bs cs \<noteq> []"
  by (cases bs; cases cs) (auto simp: descriptors_of_def)

lemma commit_entry_ok:
  assumes "committable i c cs span bs n s"
  shows "\<exists>r. commit_entry i c cs span s = (Inr r,
      put_file (manifest_path i c) (canonical_json (row_manifest i c bs cs n)) (put_all (chunk_objects bs) s))
    \<and> rc_committed_tokens r = n \<and> rc_manifest_digest r = sha256 (canonical_json (row_manifest i c bs cs n))"
proof -
  note a = assms [unfolded committable_def]
  have n: "0 < n" using a tiled_le by (cases cs) (fastforce)+
  obtain t where t: "begin_transaction i c span = Inr t" "tx_identity t = i" "tx_context t = c" "tx_span t = span"
    "tx_descriptors t = []" "tx_expected_start t = 0" "tx_state t = Open"
    using a n by (auto simp: begin_transaction_def split: option.splits)
  have acc: "accepting t (tx_expected_start t) cs n" using a t by (auto simp: accepting_def)
  have enc: "mapE encode_chunk cs = Inr bs" and len: "length bs = length cs"
    using a mapE_length by blast+
  have res: "resumes (chunk_tokens (tx_identity t)) (tx_expected_start t) (tx_descriptors t)"
    using t by (simp add: resumes_def starts_below_def)
  define t' where "t' = t\<lparr>tx_descriptors := descriptors_of bs cs, tx_expected_start := n\<rparr>"
  define s' where "s' = put_all (chunk_objects bs) s"
  have app: "append_batches cs (t, s) = (Inr (), (t', s'))"
    using append_batches_tiled [OF _ acc enc res] a t by (simp add: t'_def s'_def)
  have m: "transaction_manifest t' = row_manifest i c bs cs n"
    by (simp add: transaction_manifest_def row_manifest_def t'_def t)
  have "map_of (chunk_objects bs) (manifest_path i c) = None"
    by (auto simp: map_of_eq_None_iff chunk_objects_def manifest_path_def)
  then have "files s' (manifest_path i c) = Absent" using a by (simp add: s'_def)
  then have "publish_immutable (manifest_path i c) (canonical_json (row_manifest i c bs cs n)) s'
      = (Inr (), put_file (manifest_path i c) (canonical_json (row_manifest i c bs cs n)) s')"
    using a by (intro publish_fresh) (simp_all add: s'_def)
  then show ?thesis
    using t app m a descriptors_not_Nil [OF len]
    by (auto simp: commit_entry_def commit_manifest_def Let_def t'_def s'_def split: option.splits)
qed

definition read_descriptor :: "string \<Rightarrow> context_chunk \<Rightarrow> jdict" where
  "read_descriptor b c =
     [(''bytes'', JInt (int (length b))), (''logical_end'', JInt (logical_end c)),
      (''logical_start'', JInt (logical_start c)), (''sha256'', JStr (sha256 b))]"

lemma sorted_descriptor: "sorted_json (JObj (chunk_descriptor b c)) = JObj (read_descriptor b c)"
  by (simp add: chunk_descriptor_def read_descriptor_def)

lemma sorted_descriptors:
  "sorted_list (map JObj (descriptors_of bs cs)) = map JObj (map2 read_descriptor bs cs)"
  by (auto simp: sorted_list_map descriptors_of_def sorted_descriptor simp del: sorted_json.simps)

lemma writable_row_manifest: "writable (row_manifest i c bs cs n)"
proof -
  have "writable_list (map JObj (descriptors_of bs cs))"
    by (auto simp: writable_list_iff descriptors_of_def chunk_descriptor_def)
  then show ?thesis by (simp add: row_manifest_def synthetic_manifest_def)
qed

lemma read_row_manifest:
  "read_json (canonical_json (row_manifest i c bs cs n)) = Inr (JObj
     [(''chunks'', JList (map JObj (map2 read_descriptor bs cs))), (''committed_tokens'', JInt n),
      (''context_digest'', JStr c), (''format_abi'', JInt FORMAT_ABI), (''identity'', JObj (read_items i))])"
  using sorted_to_wire [of i] sorted_descriptors [of bs cs]
  by (simp add: read_json_def json_loads_canonical [OF writable_row_manifest])
     (simp add: row_manifest_def synthetic_manifest_def)

lemma described_read: "described (logical_start c) (logical_end c) (read_descriptor b c)"
  by (auto simp: described_def read_descriptor_def CHUNK_KEYS_def sha256_digest)

lemma tiled_read_descriptors:
  assumes "tiled f a cs n" "mapE encode_chunk cs = Inr bs"
  shows "tiled_dicts f a (map JObj (map2 read_descriptor bs cs)) n"
  using assms
proof (induction cs arbitrary: a bs)
  case (Cons c cs)
  then obtain b bs' where b: "encode_chunk c = Inr b" "mapE encode_chunk cs = Inr bs'" "bs = b # bs'"
    by (auto simp: bindE_Inr)
  have "b \<noteq> []" using b(1) by (auto simp: encode_chunk_def CHUNK_MAGIC_def Let_def split: if_splits)
  moreover have "map2 read_descriptor bs' cs \<noteq> [] \<longrightarrow> cs \<noteq> []" by auto
  ultimately show ?case
    using Cons.prems(1) Cons.IH [OF _ b(2)] described_read [of c b]
    by (auto simp: b(3) described_def read_descriptor_def)
qed simp

lemma wire_ok_read: "same_identity (JObj (read_items i)) i"
  "canonical_json (JObj (read_items i)) = canonical_json (to_wire i)"
proof -
  show "canonical_json (JObj (read_items i)) = canonical_json (to_wire i)"
    using enc_sorted(1) [of "to_wire i"] by (simp add: canonical_json_def sorted_to_wire)
  have "writable_items (wire_items i)" using writable_to_wire [of i] by (simp add: to_wire_items)
  then have "py_eq v v" if "(k, v) \<in> set (wire_items i)" for k v
    using that py_eq_refl(1) by (auto simp: writable_items_iff)
  moreover have leaf: "sorted_json v = v" if "(k, v) \<in> set (wire_items i)" for k v
    using that by (auto simp: wire_items_def to_wire_def split: if_splits)
  have "set (read_items i) = set (wire_items i)"
    using leaf by (force simp: read_items_def sorted_items_map)
  moreover have "length (read_items i) = length (wire_items i)"
    by (simp add: read_items_def sorted_items_map)
  ultimately have "py_eq (JObj (read_items i)) (JObj (wire_items i))"
    using wire_distinct by (auto simp: py_eq_items_iff simp flip: dict_ok_get [unfolded dict_ok_def])
  then show "same_identity (JObj (read_items i)) i" by (simp add: same_identity_def to_wire_items)
qed


lemma validate_read_manifest:
  assumes "valid_identity i" "cs \<noteq> []" "tiled (chunk_tokens i) 0 cs n" "mapE encode_chunk cs = Inr bs"
    and m: "read_json (canonical_json (row_manifest i c bs cs n)) = Inr m"
  shows "validate_manifest_metadata m (EntryKey (storage_key i) c) (Some i) = Inr (map2 read_descriptor bs cs)"
proof -
  have "bs \<noteq> []" using mapE_length [OF assms(4)] assms(2) by auto
  then have ne: "map2 read_descriptor bs cs \<noteq> []" using assms(2) by (cases bs; cases cs) auto
  have chk: "check_chunks (chunk_tokens i) 0 (map JObj (map2 read_descriptor bs cs)) = Inr n"
    using tiled_read_descriptors [OF assms(3,4)] by (simp add: check_chunks_iff)
  have n: "0 < n" using assms(2,3) tiled_le by (cases cs) fastforce+
  have full: "jget (read_items i) ''chunk_tokens'' = JInt (chunk_tokens i)" by (simp add: read_fields)
  show ?thesis
    using m [unfolded read_row_manifest] wire_ok_read [of i] wire_identity_read [OF assms(1)] ne chk n full
    by (auto simp: validate_manifest_metadata_def strict_keys_def EntryKey_def storage_key_def
        int_where_def insert_commute simp del: map_map)
qed

lemma root_of_read_manifest:
  assumes "valid_identity i" "cs \<noteq> []" "tiled (chunk_tokens i) 0 cs n" "mapE encode_chunk cs = Inr bs"
    and m: "read_json (canonical_json (row_manifest i c bs cs n)) = Inr m"
  shows "root_descriptors s m i c = Inr (m, ''manifest'', map2 read_descriptor bs cs)"
proof -
  have "\<not> has_schema m TAIL_MANIFEST_SCHEMA" "is_page_delta_root m = Inr False" "\<not> is_page_snapshot_root m"
    using m [unfolded read_row_manifest]
    by (auto simp: has_schema_def is_page_delta_root_def is_page_snapshot_root_def)
  then show ?thesis using validate_read_manifest [OF assms] by (simp add: root_descriptors_def)
qed

definition has_chunks :: "store \<Rightarrow> string list \<Rightarrow> bool" where
  "has_chunks s bs \<longleftrightarrow> (\<forall>b\<in>set bs. files s (Chunk_file (sha256 b)) = Content b)"

lemma decoded_written:
  assumes "complete_chunk i c" "encode_chunk c = Inr b"
  shows "decoded_as_described (required_records i) (read_descriptor b c) b = Inr c"
  using assms decode_encode [of c b False]
  by (simp add: decoded_as_described_def complete_chunk_def require_complete_chunk_def read_descriptor_def)

lemma written_chunk:
  assumes "complete_chunk i c" "encode_chunk c = Inr b" "files s (Chunk_file (sha256 b)) = Content b"
  shows "check_chunk_file verify meta i s (read_descriptor b c) = Inr ()"
    and "restore_one (required_records i) s (JObj (read_descriptor b c)) = Inr c"
proof -
  have get: "jget (read_descriptor b c) ''bytes'' = JInt (int (length b))"
    "jget (read_descriptor b c) ''sha256'' = JStr (sha256 b)"
    by (simp_all add: read_descriptor_def)
  have path: "read_bytes (chunk_path (read_descriptor b c)) s = Inr b"
    using assms(3) by (simp add: chunk_path_def descriptor_name_def get read_bytes_def)
  have "payload_matches_descriptor (read_descriptor b c) b = Inr True"
    by (simp add: matches_described [OF described_read get(1)] get)
  moreover have "''encoded_start'' \<notin> set (dkeys (read_descriptor b c))" by (simp add: read_descriptor_def)
  ultimately show "check_chunk_file verify meta i s (read_descriptor b c) = Inr ()"
    using path decoded_written [OF assms(1,2)] by (simp add: check_chunk_file_def get)
  show "restore_one (required_records i) s (JObj (read_descriptor b c)) = Inr c"
    using path decoded_written [OF assms(1,2)] described_read [of c b]
    by (simp add: restore_one_def strict_keys_def validate_digest_def described_def get)
qed

lemma written_chunks:
  assumes "\<forall>c\<in>set cs. complete_chunk i c" "mapE encode_chunk cs = Inr bs" "has_chunks s bs"
  shows "check_chunk_files verify meta i s (map2 read_descriptor bs cs) = Inr ()"
    and "mapE (restore_one (required_records i) s) (map JObj (map2 read_descriptor bs cs)) = Inr cs"
proof -
  have "check_chunk_files verify meta i s (map2 read_descriptor bs cs) = Inr ()
    \<and> mapE (restore_one (required_records i) s) (map JObj (map2 read_descriptor bs cs)) = Inr cs"
    using assms
  proof (induction cs arbitrary: bs)
    case (Cons c cs)
    then obtain b bs' where b: "encode_chunk c = Inr b" "mapE encode_chunk cs = Inr bs'" "bs = b # bs'"
      by (auto simp: bindE_Inr)
    then show ?case using Cons written_chunk [of i c b s] by (auto simp: has_chunks_def)
  qed simp
  then show "check_chunk_files verify meta i s (map2 read_descriptor bs cs) = Inr ()"
    and "mapE (restore_one (required_records i) s) (map JObj (map2 read_descriptor bs cs)) = Inr cs"
    by simp_all
qed

text \<open>An entry that is on disk: its manifest and every chunk.\<close>

definition entry_on_disk ::
    "cache_identity \<Rightarrow> string \<Rightarrow> context_chunk list \<Rightarrow> string list \<Rightarrow> int \<Rightarrow> store \<Rightarrow> bool" where
  "entry_on_disk i c cs bs n s \<longleftrightarrow>
     valid_identity i \<and> is_sha256 c \<and> cs \<noteq> [] \<and> tiled (chunk_tokens i) 0 cs n
     \<and> (\<forall>x\<in>set cs. complete_chunk i x) \<and> mapE encode_chunk cs = Inr bs
     \<and> files s (manifest_path i c) = Content (canonical_json (row_manifest i c bs cs n))
     \<and> has_chunks s bs"

lemma lookup_on_disk:
  assumes "entry_on_disk i c cs bs n s"
  shows "\<exists>r. lookup i c verify meta mode s = Inr r \<and> is_hit r \<and> lr_root_kind r = ''manifest''
    \<and> lr_digest r = sha256 (canonical_json (row_manifest i c bs cs n)) \<and> restore r s = Inr (Some cs)"
proof -
  note e = assms [unfolded entry_on_disk_def]
  obtain m where m: "read_json (canonical_json (row_manifest i c bs cs n)) = Inr m"
    using read_row_manifest by blast
  let ?enc = "canonical_json (row_manifest i c bs cs n)"
  have root: "root_descriptors s m i c = Inr (m, ''manifest'', map2 read_descriptor bs cs)"
    using root_of_read_manifest m e by blast
  note w = written_chunks [of cs i bs s]
  have look: "lookup i c verify meta mode s = Inr (hit ?enc m ''manifest'')"
    using e m root w(1) by (simp add: lookup_def read_bytes_def clean_miss_def)
  have "restore (hit ?enc m ''manifest'') s = Inr (Some cs)"
    using e w(2) m [unfolded read_row_manifest] required_records_read [of i]
    by (auto simp: restore_def hit_def simp del: map_map)
  with look show ?thesis by (auto simp: hit_def)
qed

lemma committed_on_disk:
  assumes "committable i c cs span bs n s" "commit_entry i c cs span s = (Inr r, s')"
  shows "entry_on_disk i c cs bs n s'"
proof -
  note a = assms(1) [unfolded committable_def]
  have s': "s' = put_file (manifest_path i c) (canonical_json (row_manifest i c bs cs n)) (put_all (chunk_objects bs) s)"
    using commit_entry_ok [OF assms(1)] assms(2) by auto
  have "map_of (chunk_objects bs) (Chunk_file (sha256 b)) = Some b" if "b \<in> set bs" for b
    using consistent_map_of [OF consistent_objects] a that by (auto simp: chunk_objects_def)
  then have "has_chunks s' bs" by (simp add: has_chunks_def s' put_file_def manifest_path_def)
  then show ?thesis using a by (simp add: entry_on_disk_def s' put_file_def)
qed


text \<open>C1: On a healthy file system, committing chunks that tile a span and are complete for the identity
  succeeds, the receipt gives the span, every lookup of the entry hits (verified or not, in any storage
  mode), and restoring the hit returns exactly the committed chunks.\<close>

theorem commit_lookup_restore:
  assumes "committable i c cs span bs n s"
  shows "\<exists>r s' h. commit_entry i c cs span s = (Inr r, s') \<and> rc_committed_tokens r = n
    \<and> lookup i c verify meta mode s' = Inr h \<and> is_hit h \<and> lr_digest h = rc_manifest_digest r
    \<and> restore h s' = Inr (Some cs)"
proof -
  obtain r s' where c: "commit_entry i c cs span s = (Inr r, s')" "rc_committed_tokens r = n"
    "rc_manifest_digest r = sha256 (canonical_json (row_manifest i c bs cs n))"
    using commit_entry_ok [OF assms] by auto
  from lookup_on_disk [OF committed_on_disk [OF assms c(1)], of verify meta mode] c show ?thesis by auto
qed

text \<open>A store, an identity and a chunk at which it applies.\<close>

definition empty_store :: store where
  "empty_store = \<lparr>files = (\<lambda>_. Absent), write_fails = (\<lambda>_. False), sync_fails = (\<lambda>_. False),
     unlink_fails = (\<lambda>_. False)\<rparr>"

definition demo_identity :: cache_identity where
  "demo_identity =
     \<lparr>target_checkpoint = sha256 ''target'', draft_checkpoint = sha256 ''draft'',
      quantization_layout = ''fp8'', rope_layout = ''neox'', tp_degree = 2, dcp_degree = 1,
      cp_kv_cache_interleave_size = 1, chunk_tokens = 4, dcp_shard_rank = 0, tp_shard_rank = 1,
      boundary_hidden_policy = ''live_forward'', draft_kv_policy = ''colocated_target'',
      record_schema = [''target_ckv'', ''logical_positions''], publication_schema = ''''\<rparr>"

definition demo_chunk :: "int \<Rightarrow> int \<Rightarrow> context_chunk" where
  "demo_chunk a b =
     \<lparr>logical_start = a, logical_end = b,
      records = [TARGET_CKV \<mapsto> ''kv'', LOGICAL_POSITIONS \<mapsto> ''pos'']\<rparr>"

lemma demo_valid: "valid_identity demo_identity"
  using sha256_digest
  by (simp add: valid_identity_def CacheIdentity_def demo_identity_def StateRecord_def all_records_def
      PUBLICATION_SCHEMAS_def)

lemma demo_chunk_complete: "0 \<le> a \<Longrightarrow> a < b \<Longrightarrow> complete_chunk demo_identity (demo_chunk a b)"
  by (auto simp: complete_chunk_def valid_chunk_def ContextChunk_def demo_chunk_def required_records_def
      demo_identity_def StateRecord_def all_records_def map_filter_simps sorted_records_def)

lemma encode_demo:
  assumes "0 \<le> a" "a < 10" "0 \<le> b" "b < 10"
  shows "\<exists>x. encode_chunk (demo_chunk a b) = Inr x"
proof -
  let ?h = "chunk_header (demo_chunk a b)"
  have "length (canonical_json ?h) < 2 ^ 32"
    using length_enc_str [of "sha256 ''pos''"] length_enc_str [of "sha256 ''kv''"] assms
    by (simp add: canonical_json_def chunk_header_def demo_chunk_def sorted_records_def FORMAT_ABI_def
        length_enc_int_small enc_str_def [of "''kind''"])
       (simp add: enc_str_def escape_def)
  then show ?thesis by (simp add: encode_chunk_def Let_def)
qed


lemma demo_committable:
  "\<exists>b. committable demo_identity (sha256 ''context'') [demo_chunk 0 3] (Some 3) [b] 3 empty_store"
proof -
  obtain b where b: "encode_chunk (demo_chunk 0 3) = Inr b" using encode_demo [of 0 3] by auto
  have "chunk_tokens demo_identity = 4" by (simp add: demo_identity_def)
  then have "committable demo_identity (sha256 ''context'') [demo_chunk 0 3] (Some 3) [b] 3 empty_store"
    using demo_valid demo_chunk_complete [of 0 3] sha256_digest b
    by (simp add: committable_def empty_store_def healthy_def no_collision_def chunks_readable_def demo_chunk_def)
  then show ?thesis by blast
qed

theorem commit_lookup_restore_witness:
  "\<exists>b r s' h. committable demo_identity (sha256 ''context'') [demo_chunk 0 3] (Some 3) [b] 3 empty_store
    \<and> commit_entry demo_identity (sha256 ''context'') [demo_chunk 0 3] (Some 3) empty_store = (Inr r, s')
    \<and> rc_committed_tokens r = 3
    \<and> lookup demo_identity (sha256 ''context'') True False None s' = Inr h \<and> is_hit h
    \<and> restore h s' = Inr (Some [demo_chunk 0 3])"
proof -
  obtain b where b: "committable demo_identity (sha256 ''context'') [demo_chunk 0 3] (Some 3) [b] 3 empty_store"
    using demo_committable by blast
  from commit_lookup_restore [OF b, of True False None] b show ?thesis by blast
qed

lemma demo_entry:
  "\<exists>b s. entry_on_disk demo_identity (sha256 ''context'') [demo_chunk 0 3] [b] 3 s"
  using demo_committable commit_entry_ok committed_on_disk by blast

text \<open>C3: A verified lookup that hits an entry of rows, through a manifest, a tail manifest or a prefix
  alias, is a promise that restore keeps: on the same files it returns chunks that follow one
  another from token zero to the committed count in the identity's geometry, each complete for the
  identity.\<close>

theorem verified_hit_restores:
  assumes "lookup i c True meta mode s = Inr r" "is_hit r" "lr_root_kind r \<in> {''manifest'', ''prefix_alias''}"
  shows "\<exists>cs n. restore r s = Inr (Some cs) \<and> tiled (chunk_tokens i) 0 cs n \<and> 0 < n
    \<and> (\<forall>x\<in>set cs. complete_chunk i x)"
proof -
  obtain enc m ds where h: "r = hit enc m (lr_root_kind r)"
    "validate_manifest_metadata m (EntryKey (storage_key i) c) (Some i) = Inr ds" "wf_json m"
    "check_chunk_files True meta i s ds = Inr ()"
    by (rule row_hit [OF assms])
  obtain d w n full where m: "m = JObj d" "jget d ''identity'' = JObj w" "wire_identity_ok w"
    "same_identity (JObj w) i" "0 < n" "jget w ''chunk_tokens'' = JInt full"
    "jget d ''chunks'' = JList (map JObj ds)" "tiled_dicts full 0 (map JObj ds) n"
    using validate_manifest_Inr [OF h(2)] by metis
  have w: "wf_json (JObj w)" using h(3) m(1,2) wf_field [of d "''identity''"] by simp
  note f = identity_fields [OF w m(3,4)]
  have "full = chunk_tokens i" using f(2) m(6) by simp
  with checked_chunks_restore [OF m(8) h(4)] obtain cs where cs:
    "mapE (restore_one (required_records i) s) (map JObj ds) = Inr cs" "tiled (chunk_tokens i) 0 cs n"
    "\<forall>c\<in>set cs. complete_chunk i c" by auto
  have "restore (hit enc m (lr_root_kind r)) s = Inr (Some cs)"
    using assms(3) m(1,2,7) f(1) cs(1) by (auto simp: restore_def hit_def)
  with h(1) cs(2,3) m(5) show ?thesis by auto
qed

theorem verified_hit_restores_witness:
  "\<exists>s r cs n. lookup demo_identity (sha256 ''context'') True False None s = Inr r \<and> is_hit r
    \<and> restore r s = Inr (Some cs) \<and> tiled (chunk_tokens demo_identity) 0 cs n \<and> 0 < n"
proof -
  obtain b s where "entry_on_disk demo_identity (sha256 ''context'') [demo_chunk 0 3] [b] 3 s"
    using demo_entry by blast
  from lookup_on_disk [OF this, of True False None] obtain r where
    r: "lookup demo_identity (sha256 ''context'') True False None s = Inr r" "is_hit r"
      "lr_root_kind r = ''manifest''" by blast
  from verified_hit_restores [OF r(1,2)] r show ?thesis by fastforce
qed

definition collision_free_between :: "store \<Rightarrow> store \<Rightarrow> bool" where
  "collision_free_between s t \<longleftrightarrow>
     (\<forall>d b b'. files s (Chunk_file d) = Content b \<longrightarrow> files t (Chunk_file d) = Content b' \<longrightarrow>
        sha256 b = sha256 b' \<longrightarrow> b = b')"

lemma restore_one_Inr:
  assumes "restore_one R s (JObj d) = Inr c"
  obtains b where "files s (chunk_path d) = Content b" "jget d ''sha256'' = JStr (sha256 b)"
    "decoded_as_described R d b = Inr c"
  using assms [unfolded restore_one_def the_obj.simps success_iff]
  by (cases "files s (chunk_path d)") (auto simp: read_bytes_def)

lemma restore_one_same:
  assumes "restore_one R s v = Inr c" "restore_one R t v = Inr c'" "collision_free_between s t"
  shows "c = c'"
proof (cases "the_obj v")
  case (Some d)
  then have v: "v = JObj d" by simp
  obtain b where b: "files s (chunk_path d) = Content b" "jget d ''sha256'' = JStr (sha256 b)"
    "decoded_as_described R d b = Inr c" by (rule restore_one_Inr [OF assms(1) [unfolded v]])
  obtain b' where b': "files t (chunk_path d) = Content b'" "jget d ''sha256'' = JStr (sha256 b')"
    "decoded_as_described R d b' = Inr c'" by (rule restore_one_Inr [OF assms(2) [unfolded v]])
  have "b = b'" using assms(3) b b' by (simp add: collision_free_between_def chunk_path_def)
  then show ?thesis using b b' by simp
qed (use assms(1) in \<open>simp add: restore_one_def\<close>)

lemma mapE_same:
  assumes "mapE f xs = Inr ys" "mapE g xs = Inr zs"
    "\<And>x y z. x \<in> set xs \<Longrightarrow> f x = Inr y \<Longrightarrow> g x = Inr z \<Longrightarrow> y = z"
  shows "ys = zs"
  using assms
proof (induction xs arbitrary: ys zs)
  case (Cons x xs)
  from Cons.prems(1,2) obtain y ys' z zs' where
    "f x = Inr y" "mapE f xs = Inr ys'" "ys = y # ys'" "g x = Inr z" "mapE g xs = Inr zs'" "zs = z # zs'"
    by (auto simp: bindE_Inr)
  then show ?case using Cons.IH Cons.prems(3) by (metis list.set_intros(1,2))
qed simp

lemma restore_Inr:
  assumes "restore r s = Inr (Some cs)"
  shows "\<exists>m d w R vs. lr_manifest r = Some m \<and> m = JObj d \<and> jget d ''identity'' = JObj w
    \<and> required_records_for_identity_wire w = Inr R \<and> jget d ''chunks'' = JList vs
    \<and> mapE (restore_one R s) vs = Inr cs"
proof (cases "is_hit r \<and> lr_root_kind r \<notin> {''page_delta'', ''page_snapshot''}")
  case True
  obtain m d w where m: "lr_manifest r = Some m" "m = JObj d" "jget d ''identity'' = JObj w"
    using assms True by (auto simp: restore_def split: option.splits)
  then obtain R vs where R: "required_records_for_identity_wire w = Inr R" "jget d ''chunks'' = JList vs"
    using assms True by (auto simp: restore_def bindE_Inr split: option.splits)
  have "mapE (restore_one R s) vs = Inr cs"
    using assms True m R by (cases "mapE (restore_one R s) vs") (auto simp: restore_def split: if_splits)
  with m R show ?thesis by blast
qed (use assms in \<open>auto simp: restore_def split: bool.splits option.splits\<close>)

text \<open>C2: Restore never returns other content for the same lookup: whatever happened to the files in
  between, two restores of it that both return chunks return the same chunks, unless two stored
  objects have the same SHA-256.\<close>

theorem restore_never_differs:
  assumes "restore r s = Inr (Some cs)" "restore r t = Inr (Some cs')" "collision_free_between s t"
  shows "cs = cs'"
  using restore_Inr [OF assms(1)] restore_Inr [OF assms(2)] restore_one_same [OF _ _ assms(3)]
  by (auto dest: mapE_same)

theorem restore_never_differs_witness:
  "\<exists>s t r cs cs'. s \<noteq> t \<and> restore r s = Inr (Some cs) \<and> restore r t = Inr (Some cs') \<and> cs = cs'"
proof -
  obtain b s where e: "entry_on_disk demo_identity (sha256 ''context'') [demo_chunk 0 3] [b] 3 s"
    using demo_entry by blast
  define t where "t = drop_file (manifest_path demo_identity (sha256 ''context'')) s"
  from lookup_on_disk [OF e, of True False None] obtain r where r: "restore r s = Inr (Some [demo_chunk 0 3])"
    by blast
  have chunks: "files t (Chunk_file d) = files s (Chunk_file d)" for d
    by (simp add: t_def drop_file_def manifest_path_def)
  then have "read_bytes (chunk_path d) t = read_bytes (chunk_path d) s" for d
    by (simp add: read_bytes_def chunk_path_def)
  then have "restore_one R t = restore_one R s" for R
    by (intro ext) (simp only: restore_one_def)
  then have "restore r t = restore r s" by (simp only: restore_def)
  then have rt: "restore r t = Inr (Some [demo_chunk 0 3])" using r by simp
  have "collision_free_between s t" by (simp add: collision_free_between_def chunks)
  with restore_never_differs [OF r rt] r rt have "restore r s = Inr (Some [demo_chunk 0 3])"
    "restore r t = Inr (Some [demo_chunk 0 3])" "[demo_chunk 0 3] = [demo_chunk 0 3]" by blast+
  moreover have "files s (manifest_path demo_identity (sha256 ''context''))
      \<noteq> files t (manifest_path demo_identity (sha256 ''context''))"
    using e by (simp add: entry_on_disk_def t_def drop_file_def)
  then have "s \<noteq> t" by auto
  ultimately show ?thesis by blast
qed

end
