(* ===== verification/Store_Invalidate.thy ===== *)
theory Store_Invalidate
  imports Store_Commit
begin

text \<open>
  Removing a damaged entry (\<open>ManifestStore.invalidate\<close>): which root is removed, which chunk files go
  with it, and what escapes. The disk may refuse an unlink: a refused chunk is passed over, a refused root
  makes the answer \<open>False\<close>. Two of its behaviours differ from what its documentation promises; both
  are stated here as theorems.
\<close>

section \<open>The operation\<close>

text \<open>\<open>CacheIdentity(**wire)\<close> for a root that names its own identity; a wire form that the typed record
  cannot hold (another type, a missing field) counts as one the constructor rejects.\<close>

definition text_field :: "jdict \<Rightarrow> string \<Rightarrow> string" where
  "text_field d k = (case the_str (jget d k) of None \<Rightarrow> [] | Some t \<Rightarrow> t)"

definition int_field :: "jdict \<Rightarrow> string \<Rightarrow> int" where
  "int_field d k = (case the_int (jget d k) of None \<Rightarrow> 0 | Some n \<Rightarrow> n)"

definition identity_from_wire :: "jdict \<Rightarrow> cache_identity option" where
  "identity_from_wire w =
     (if \<not> wire_identity_ok w \<or> the_str (jget w ''quantization_layout'') = None
        \<or> the_str (jget w ''rope_layout'') = None \<or> the_int (jget w ''cp_kv_cache_interleave_size'') = None
      then None
      else Some
        \<lparr>target_checkpoint = text_field w ''target_checkpoint'', draft_checkpoint = text_field w ''draft_checkpoint'',
         quantization_layout = text_field w ''quantization_layout'', rope_layout = text_field w ''rope_layout'',
         tp_degree = int_field w ''tp_degree'', dcp_degree = int_field w ''dcp_degree'',
         cp_kv_cache_interleave_size = int_field w ''cp_kv_cache_interleave_size'',
         chunk_tokens = int_field w ''chunk_tokens'', dcp_shard_rank = int_field w ''dcp_shard_rank'',
         tp_shard_rank = int_field w ''tp_shard_rank'',
         boundary_hidden_policy = text_field w ''boundary_hidden_policy'',
         draft_kv_policy = text_field w ''draft_kv_policy'',
         record_schema = (case the_list (jget w ''record_schema'') of None \<Rightarrow> []
                          | Some vs \<Rightarrow> List.map_filter the_str vs),
         publication_schema = text_field w ''publication_schema''\<rparr>)"

text \<open>The values of a \<open>for\<close> loop over a JSON value: iterating a dictionary or a string gives strings, a
  number, a Boolean or null cannot be iterated.\<close>

fun iterated :: "json \<Rightarrow> exn + json list" where
  "iterated (JList vs) = Inr vs"
| "iterated (JObj d) = Inr (map JStr (dkeys d))"
| "iterated (JStr s) = Inr (map (\<lambda>c. JStr [c]) s)"
| "iterated v = Inl (TypeError ''object is not iterable'')"

definition graph_schema :: "json \<Rightarrow> bool" where
  "graph_schema v \<longleftrightarrow> v \<in> {JStr TAIL_MANIFEST_SCHEMA, JStr PAGE_DELTA_SCHEMA, JStr PAGE_DELTA_SCHEMA_V2,
     JStr PAGE_DELTA_SCHEMA_V3, JStr PAGE_SNAPSHOT_SCHEMA}"

text \<open>The descriptors of a root that refers to its objects through a validated graph.\<close>

definition graph_descriptors :: "store \<Rightarrow> jdict \<Rightarrow> string \<Rightarrow> exn + json list" where
  "graph_descriptors s m c =
     (case the_obj (jget m ''identity'') of
        None \<Rightarrow> Inl (TypeError ''identity'')
      | Some w \<Rightarrow>
          (case identity_from_wire w of
             None \<Rightarrow> Inl (ValueError ''identity'')
           | Some i \<Rightarrow>
               if jget m ''schema'' = JStr TAIL_MANIFEST_SCHEMA
               then bindE (resolve_tail_manifest s (JObj m) i c) (\<lambda>(r, _).
                 case the_obj r of None \<Rightarrow> Inl (TypeError ''manifest'') | Some d \<Rightarrow> iterated (jget d ''chunks''))
               else if jget m ''schema'' = JStr PAGE_SNAPSHOT_SCHEMA
               then bindE (validate_page_snapshot_root (JObj m) i c) (\<lambda>ds. Inr (map JObj ds))
               else bindE (page_graph_descriptors MAX_PAGE_DELTA_DEPTH (JObj m) i c) (\<lambda>ds. Inr (map JObj ds))))"

text \<open>The exceptions for which a root counts as naming no chunks. An \<open>OSError\<close> is not among them.\<close>

definition tolerated :: "exn \<Rightarrow> bool" where
  "tolerated e \<longleftrightarrow> is_value_error e \<or> is_type_error e \<or> e = KeyError"

text \<open>\<open>manifest.get("chunks", [])\<close>; a root that is no dictionary names no chunks. The schema test
  raises on a value that cannot be hashed, which is tolerated like the rest.\<close>

definition doomed_descriptors :: "store \<Rightarrow> string \<Rightarrow> string \<Rightarrow> exn + json" where
  "doomed_descriptors s raw c =
     (let found =
        bindE (read_json raw) (\<lambda>root.
        case the_obj root of
          None \<Rightarrow> Inr (JList [])
        | Some m \<Rightarrow>
            if graph_schema (jget m ''schema'') then bindE (graph_descriptors s m c) (\<lambda>vs. Inr (JList vs))
            else if the_list (jget m ''schema'') \<noteq> None \<or> the_obj (jget m ''schema'') \<noteq> None
            then Inl (TypeError ''unhashable type'')
            else Inr (case map_of m ''chunks'' of None \<Rightarrow> JList [] | Some v \<Rightarrow> v))
      in case found of
           Inr v \<Rightarrow> Inr v
         | Inl e \<Rightarrow> if tolerated e then Inr (JList []) else Inl e)"

definition is_healthy :: "jdict \<Rightarrow> store \<Rightarrow> exn + bool" where
  "is_healthy d s =
     (case bindE (read_bytes (chunk_path d) s) (payload_matches_descriptor d) of
        Inr b \<Rightarrow> Inr b
      | Inl e \<Rightarrow> if is_os_error e \<or> tolerated e then Inr False else Inl e)"

text \<open>An \<open>OSError\<close> of a chunk's unlinking is passed over; the chunk then stays.\<close>

fun sweep :: "bool \<Rightarrow> json list \<Rightarrow> store \<Rightarrow> (unit, store) outcome" where
  "sweep verify [] s = returns () s"
| "sweep verify (v # vs) s =
     (case the_obj v of
        None \<Rightarrow> sweep verify vs s
      | Some d \<Rightarrow>
          if \<not> is_digest (jget d ''sha256'') \<or> \<not> verify then sweep verify vs s
          else
            (case is_healthy d s of
               Inl e \<Rightarrow> raises e s
             | Inr True \<Rightarrow> sweep verify vs s
             | Inr False \<Rightarrow> sweep verify vs (snd (unlink_path (chunk_path d) s))))"

text \<open>The root goes last; what refuses that is the answer \<open>False\<close>.\<close>

definition remove_root :: "path \<Rightarrow> store \<Rightarrow> (bool, store) outcome" where
  "remove_root p s =
     (case unlink_path p s of (Inl e, s') \<Rightarrow> returns False s' | (Inr _, s') \<Rightarrow> returns True s')"

definition invalidate :: "cache_identity \<Rightarrow> string \<Rightarrow> bool \<Rightarrow> store \<Rightarrow> (bool, store) outcome" where
  "invalidate i c verify s =
     (if \<not> is_sha256 c then returns False s
      else
        (case read_bytes (manifest_path i c) s of
           Inr raw \<Rightarrow>
             (case bindE (doomed_descriptors s raw c) iterated of
                Inl e \<Rightarrow> raises e s
              | Inr vs \<Rightarrow>
                  (case sweep verify vs s of
                     (Inl e, s') \<Rightarrow> raises e s'
                   | (Inr _, s') \<Rightarrow> remove_root (manifest_path i c) s'))
         | Inl FileNotFound \<Rightarrow>
             (case read_bytes (prefix_alias_path i c) s of
                Inl e \<Rightarrow> returns False s
              | Inr raw \<Rightarrow> remove_root (prefix_alias_path i c) s)
         | Inl e \<Rightarrow> returns False s))"


section \<open>What is removed, and that the entry can come back\<close>

definition sound_file :: "store \<Rightarrow> string \<Rightarrow> bool" where
  "sound_file s b \<longleftrightarrow> (\<exists>x. files s (Chunk_file (sha256 b)) = Content x
     \<and> length x = length b \<and> sha256 x = sha256 b)"

lemma healthy_read_descriptor:
  "is_healthy (read_descriptor b c) s = Inr (sound_file s b)"
proof -
  have get: "jget (read_descriptor b c) ''bytes'' = JInt (int (length b))"
    "jget (read_descriptor b c) ''sha256'' = JStr (sha256 b)"
    by (simp_all add: read_descriptor_def)
  have "chunk_path (read_descriptor b c) = Chunk_file (sha256 b)"
    by (simp add: chunk_path_def descriptor_name_def get)
  then show ?thesis
    by (cases "files s (Chunk_file (sha256 b))")
       (auto simp: is_healthy_def read_bytes_def matches_described [OF described_read get(1)] get sound_file_def)
qed

text \<open>The chunks an invalidation takes: the ones found damaged whose removal is not refused.\<close>

definition doomed_chunk :: "string list \<Rightarrow> store \<Rightarrow> path \<Rightarrow> bool" where
  "doomed_chunk bs s p \<longleftrightarrow> (\<exists>b\<in>set bs. p = Chunk_file (sha256 b) \<and> \<not> sound_file s b) \<and> \<not> unlink_fails s p"

definition swept :: "string list \<Rightarrow> store \<Rightarrow> store" where
  "swept bs s = s\<lparr>files := (\<lambda>p. if doomed_chunk bs s p then Absent else files s p)\<rparr>"

lemma swept_simps [simp]:
  "write_fails (swept bs s) = write_fails s" "sync_fails (swept bs s) = sync_fails s"
  "unlink_fails (swept bs s) = unlink_fails s"
  by (simp_all add: swept_def)

lemma unlink_path_fields [simp]:
  "write_fails (snd (unlink_path p s)) = write_fails s" "sync_fails (snd (unlink_path p s)) = sync_fails s"
  "unlink_fails (snd (unlink_path p s)) = unlink_fails s"
  by (simp_all add: unlink_path_def drop_file_def)

lemma files_unlink_path:
  "files (snd (unlink_path p s)) q = (if q = p \<and> \<not> unlink_fails s p then Absent else files s q)"
  by (auto simp: unlink_path_def drop_file_def)

lemma sound_file_unlink:
  "sound_file (snd (unlink_path (Chunk_file (sha256 b)) s)) b' \<longleftrightarrow>
     sound_file s b' \<and> (sha256 b = sha256 b' \<longrightarrow> unlink_fails s (Chunk_file (sha256 b)))"
  by (auto simp: sound_file_def files_unlink_path)

lemma swept_unlink:
  assumes "\<not> sound_file s b"
  shows "swept bs (snd (unlink_path (Chunk_file (sha256 b)) s)) = swept (b # bs) s"
proof (rule store_eqI)
  fix p
  show "files (swept bs (snd (unlink_path (Chunk_file (sha256 b)) s))) p = files (swept (b # bs) s) p"
    using assms by (auto simp: swept_def doomed_chunk_def sound_file_unlink files_unlink_path)
qed simp_all

lemma sweep_read_descriptors:
  assumes "length bs = length cs"
  shows "sweep True (map JObj (map2 read_descriptor bs cs)) s = (Inr (), swept bs s)"
  using assms
proof (induction bs cs arbitrary: s rule: list_induct2)
  case Nil
  then show ?case by (simp add: swept_def doomed_chunk_def)
next
  case (Cons b bs c cs)
  have dig: "is_digest (jget (read_descriptor b c) ''sha256'')"
    and path: "chunk_path (read_descriptor b c) = Chunk_file (sha256 b)"
    by (simp_all add: read_descriptor_def sha256_digest chunk_path_def descriptor_name_def)
  show ?case
  proof (cases "sound_file s b")
    case True
    then have "swept (b # bs) s = swept bs s" by (intro store_eqI) (auto simp: swept_def doomed_chunk_def)
    then show ?thesis using True Cons.IH by (simp add: dig healthy_read_descriptor)
  next
    case False
    then show ?thesis using Cons.IH swept_unlink [OF False] by (simp add: dig healthy_read_descriptor path)
  qed
qed

lemma doomed_row_manifest:
  assumes "raw = canonical_json (row_manifest i c bs cs n)"
  shows "doomed_descriptors s raw c = Inr (JList (map JObj (map2 read_descriptor bs cs)))"
  using read_row_manifest [of i c bs cs n] assms
  by (simp add: doomed_descriptors_def graph_schema_def)

lemma invalidate_row:
  assumes "is_sha256 c" "length bs = length cs"
    "files s (manifest_path i c) = Content (canonical_json (row_manifest i c bs cs n))"
  shows "invalidate i c True s =
    (Inr (\<not> unlink_fails s (manifest_path i c)), snd (unlink_path (manifest_path i c) (swept bs s)))"
proof -
  have "files (swept bs s) (manifest_path i c) \<noteq> Absent"
    using assms(3) by (auto simp: swept_def doomed_chunk_def manifest_path_def)
  then show ?thesis
    using assms
    by (simp add: invalidate_def read_bytes_def doomed_row_manifest [OF refl] sweep_read_descriptors
        remove_root_def unlink_path_def del: map_map)
qed

lemma swept_recommittable:
  assumes "committable i c cs None bs n s0" "healthy s" "\<forall>p. \<not> unlink_fails s p"
  shows "committable i c cs None bs n (snd (unlink_path (manifest_path i c) (swept bs s)))"
proof -
  have "chunks_readable bs (snd (unlink_path (manifest_path i c) (swept bs s)))"
    using assms(3)
    by (auto simp: chunks_readable_def files_unlink_path swept_def doomed_chunk_def manifest_path_def sound_file_def)
  then show ?thesis using assms
    by (auto simp: committable_def files_unlink_path healthy_def)
qed

text \<open>C36: A damaged row entry recovers: however its chunk files were damaged, invalidation removes its
  manifest and exactly the chunk files whose bytes do not match, and committing the same chunks again
  makes the entry a hit that restores them. What the file system refuses to unlink stays: the answer is
  false exactly when the manifest is refused, a refused chunk is passed over, and the recovery is claimed
  where nothing is refused.\<close>

theorem damaged_entry_recovers:
  assumes "committable i c cs None bs n s0" "healthy s"
    "files s (manifest_path i c) = Content (canonical_json (row_manifest i c bs cs n))"
  shows "\<exists>s1. invalidate i c True s = (Inr (\<not> unlink_fails s (manifest_path i c)), s1)
    \<and> files s1 (manifest_path i c) =
        (if unlink_fails s (manifest_path i c) then files s (manifest_path i c) else Absent)
    \<and> (\<forall>d. files s1 (Chunk_file d) =
         (if (\<exists>b\<in>set bs. d = sha256 b \<and> \<not> sound_file s b) \<and> \<not> unlink_fails s (Chunk_file d)
          then Absent else files s (Chunk_file d)))
    \<and> ((\<forall>p. \<not> unlink_fails s p) \<longrightarrow> (\<exists>r s2 h. commit_entry i c cs None s1 = (Inr r, s2)
         \<and> lookup i c True meta mode s2 = Inr h \<and> is_hit h \<and> restore h s2 = Inr (Some cs)))"
proof -
  let ?s1 = "snd (unlink_path (manifest_path i c) (swept bs s))"
  have len: "length bs = length cs" and c: "is_sha256 c"
    using assms(1) mapE_length by (auto simp: committable_def)
  have inv: "invalidate i c True s = (Inr (\<not> unlink_fails s (manifest_path i c)), ?s1)"
    by (rule invalidate_row [OF c len assms(3)])
  have again: "\<exists>r s2 h. commit_entry i c cs None ?s1 = (Inr r, s2)
      \<and> lookup i c True meta mode s2 = Inr h \<and> is_hit h \<and> restore h s2 = Inr (Some cs)"
    if "\<forall>p. \<not> unlink_fails s p"
  proof -
    note ok = swept_recommittable [OF assms(1,2) that]
    obtain r s2 where com: "commit_entry i c cs None ?s1 = (Inr r, s2)" using commit_entry_ok [OF ok] by blast
    then show ?thesis using lookup_on_disk [OF committed_on_disk [OF ok com], of True meta mode] by blast
  qed
  have root: "files ?s1 (manifest_path i c) =
      (if unlink_fails s (manifest_path i c) then files s (manifest_path i c) else Absent)"
    by (auto simp: files_unlink_path swept_def doomed_chunk_def manifest_path_def)
  have chunks: "files ?s1 (Chunk_file d) =
      (if (\<exists>b\<in>set bs. d = sha256 b \<and> \<not> sound_file s b) \<and> \<not> unlink_fails s (Chunk_file d)
       then Absent else files s (Chunk_file d))" for d
    by (auto simp: files_unlink_path swept_def doomed_chunk_def manifest_path_def)
  show ?thesis using inv again root chunks by blast
qed

lemma demo_committable_open:
  "\<exists>b. committable demo_identity (sha256 ''context'') [demo_chunk 0 3] None [b] 3 empty_store"
  using demo_committable by (auto simp: committable_def)

theorem damaged_entry_recovers_witness:
  "\<exists>s s1 s2 r h. files s (manifest_path demo_identity (sha256 ''context'')) \<noteq> Absent
    \<and> invalidate demo_identity (sha256 ''context'') True s = (Inr True, s1)
    \<and> commit_entry demo_identity (sha256 ''context'') [demo_chunk 0 3] None s1 = (Inr r, s2)
    \<and> lookup demo_identity (sha256 ''context'') True False None s2 = Inr h
    \<and> restore h s2 = Inr (Some [demo_chunk 0 3])"
proof -
  let ?c = "sha256 ''context''"
  obtain b where b: "committable demo_identity ?c [demo_chunk 0 3] None [b] 3 empty_store"
    using demo_committable_open by blast
  define s where "s = put_file (manifest_path demo_identity ?c)
    (canonical_json (row_manifest demo_identity ?c [b] [demo_chunk 0 3] 3)) empty_store"
  have "healthy s" by (simp add: s_def healthy_def put_file_def empty_store_def)
  moreover have m: "files s (manifest_path demo_identity ?c)
      = Content (canonical_json (row_manifest demo_identity ?c [b] [demo_chunk 0 3] 3))"
    by (simp add: s_def put_file_def)
  moreover have "\<forall>p. \<not> unlink_fails s p" by (simp add: s_def put_file_def empty_store_def)
  ultimately obtain s1 r s2 h where "invalidate demo_identity ?c True s = (Inr True, s1)"
    "commit_entry demo_identity ?c [demo_chunk 0 3] None s1 = (Inr r, s2)"
    "lookup demo_identity ?c True False None s2 = Inr h" "restore h s2 = Inr (Some [demo_chunk 0 3])"
    using damaged_entry_recovers [OF b, of s False None] by auto
  with m show ?thesis by (metis stored.distinct(3))
qed


section \<open>Where the code does not do what it says\<close>

definition context_a :: string where "context_a = replicate 64 CHR ''a''"
definition context_b :: string where "context_b = replicate 64 CHR ''b''"

lemma contexts [simp]: "is_sha256 context_a" "is_sha256 context_b" "context_a \<noteq> context_b"
  by (simp_all add: context_a_def context_b_def is_sha256_def hex_digits_def)

lemma demo_committable_at:
  assumes "is_sha256 c"
  shows "\<exists>b. committable demo_identity c [demo_chunk 0 3] None [b] 3 empty_store"
  using demo_committable_open assms by (auto simp: committable_def empty_store_def)

text \<open>A root whose one descriptor lacks the size of the chunk it names.\<close>

definition sizeless_root :: "string \<Rightarrow> json" where
  "sizeless_root d = JObj [(''chunks'', JList [JObj [(''sha256'', JStr d)]])]"

lemma doomed_sizeless:
  "doomed_descriptors s (canonical_json (sizeless_root d)) c = Inr (JList [JObj [(''sha256'', JStr d)]])"
  by (simp add: doomed_descriptors_def read_json_def sizeless_root_def json_loads_canonical graph_schema_def)

lemma sizeless_unhealthy: "is_healthy [(''sha256'', JStr d)] s = Inr False"
  by (auto simp: is_healthy_def read_bytes_def payload_matches_descriptor_def tolerated_def split: stored.splits)

lemma invalidate_sizeless:
  assumes "is_sha256 c" "is_sha256 d" "files s (manifest_path i c) = Content (canonical_json (sizeless_root d))"
    "\<forall>p. \<not> unlink_fails s p"
  shows "invalidate i c True s =
    (Inr True, snd (unlink_path (manifest_path i c) (snd (unlink_path (Chunk_file d) s))))"
proof -
  have "remove_root (manifest_path i c) (snd (unlink_path (Chunk_file d) s))
      = returns True (snd (unlink_path (manifest_path i c) (snd (unlink_path (Chunk_file d) s))))"
    using assms(3,4) by (simp add: remove_root_def unlink_path_def manifest_path_def drop_file_def)
  then show ?thesis
    using assms
    by (simp add: invalidate_def read_bytes_def doomed_sizeless sizeless_unhealthy chunk_path_def descriptor_name_def)
qed

text \<open>C39: The documentation of \<open>invalidate\<close> says that chunks which still match their content address are
  left in place. They are not: a corrupt root that names a sound chunk with a wrong or missing size
  takes it along, and an intact entry that shares the chunk stops being a hit.\<close>

theorem invalidate_deletes_shared_chunk:
  "\<exists>s s' i a c b h. lookup i a True False None s = Inr h \<and> is_hit h
    \<and> files s (Chunk_file (sha256 b)) = Content b
    \<and> invalidate i c True s = (Inr True, s') \<and> c \<noteq> a
    \<and> files s' (Chunk_file (sha256 b)) = Absent
    \<and> lookup i a True False None s' = Inr (miss ''corrupt'')"
proof -
  let ?i = demo_identity and ?cs = "[demo_chunk 0 3]"
  obtain b where b: "committable ?i context_a ?cs None [b] 3 empty_store"
    using demo_committable_at [of context_a] by auto
  then obtain r s0 where com: "commit_entry ?i context_a ?cs None empty_store = (Inr r, s0)"
    using commit_entry_ok by blast
  note disk0 = committed_on_disk [OF b com]
  define s where "s = put_file (manifest_path ?i context_b) (canonical_json (sizeless_root (sha256 b))) s0"
  have disk: "entry_on_disk ?i context_a ?cs [b] 3 s"
    using disk0 by (simp add: entry_on_disk_def s_def put_file_def manifest_path_def has_chunks_def)
  obtain h where h: "lookup ?i context_a True False None s = Inr h" "is_hit h"
    using lookup_on_disk [OF disk, of True False None] by blast
  define s' where "s' = snd (unlink_path (manifest_path ?i context_b) (snd (unlink_path (Chunk_file (sha256 b)) s)))"
  have "unlink_fails s0 = unlink_fails empty_store"
    using commit_entry_ok [OF b] com by (auto simp: put_file_def)
  then have allowed: "\<forall>p. \<not> unlink_fails s p" by (simp add: s_def put_file_def empty_store_def)
  have inv: "invalidate ?i context_b True s = (Inr True, s')"
    unfolding s'_def by (rule invalidate_sizeless [OF _ _ _ allowed]) (simp_all add: sha256_digest s_def put_file_def)
  have gone: "files s' (Chunk_file (sha256 b)) = Absent"
    using allowed by (simp add: s'_def files_unlink_path manifest_path_def)
  obtain m where m: "read_json (canonical_json (row_manifest ?i context_a [b] ?cs 3)) = Inr m"
    using read_row_manifest by blast
  note e = disk [unfolded entry_on_disk_def]
  have "root_descriptors s' m ?i context_a = Inr (m, ''manifest'', map2 read_descriptor [b] ?cs)"
    using root_of_read_manifest [OF _ _ _ _ m] e by blast
  moreover have "read_bytes (manifest_path ?i context_a) s'
      = Inr (canonical_json (row_manifest ?i context_a [b] ?cs 3))"
    using e by (simp add: s'_def files_unlink_path manifest_path_def read_bytes_def)
  moreover have "check_chunk_file True False ?i s' (read_descriptor b (demo_chunk 0 3)) = Inl FileNotFound"
    using gone by (simp add: check_chunk_file_def chunk_path_def descriptor_name_def read_descriptor_def read_bytes_def)
  ultimately have "lookup ?i context_a True False None s' = Inr (miss ''corrupt'')"
    by (simp add: lookup_def m clean_miss_def)
  moreover have "files s (Chunk_file (sha256 b)) = Content b"
    using disk by (simp add: entry_on_disk_def has_chunks_def)
  ultimately show ?thesis using h inv gone contexts(3) by metis
qed

text \<open>A tail manifest with one reused chunk; its metadata digest is right.\<close>

definition tail_identity :: cache_identity where
  "tail_identity = demo_identity\<lparr>publication_schema := ''tail-cow-v1''\<rparr>"

definition tail_fields :: jdict where
  "tail_fields =
     [(''base_chunk_count'', JInt 1), (''base_committed_tokens'', JInt 4), (''base_context_digest'', JStr context_a),
      (''base_manifest_sha256'', JStr context_a), (''base_tail_segment_sha256'', JStr context_a),
      (''committed_tokens'', JInt 6), (''context_digest'', JStr context_b), (''format_abi'', JInt 1),
      (''identity'', JObj (read_items tail_identity)), (''reused_tokens'', JInt 4),
      (''schema'', JStr TAIL_MANIFEST_SCHEMA),
      (''tail_chunks'', JList [JObj (read_descriptor [] (demo_chunk 4 6))])]"

definition tail_root :: json where
  "tail_root = JObj (take 9 tail_fields
     @ (''metadata_sha256'', JStr (sha256 (canonical_json (JObj tail_fields)))) # drop 9 tail_fields)"

lemma tail_valid: "valid_identity tail_identity"
  using sha256_digest
  by (simp add: valid_identity_def CacheIdentity_def tail_identity_def demo_identity_def StateRecord_def all_records_def
      PUBLICATION_SCHEMAS_def)

lemma plain_read_items: "plain_json (JObj (read_items i))"
  using plain_sorted(1) [OF writable_to_wire [of i]] by (simp only: sorted_to_wire)

lemma read_tail_root: "read_json (canonical_json tail_root) = Inr tail_root"
proof -
  have "plain_json tail_root"
    using plain_read_items [of tail_identity]
    by (simp add: tail_root_def tail_fields_def read_descriptor_def del: plain_json.simps(7))
       (simp add: tail_fields_def read_descriptor_def)
  then show ?thesis by (simp add: read_json_def json_loads_enc)
qed

lemma tail_get:
  "the_obj tail_root = Some d \<Longrightarrow> jget d ''schema'' = JStr TAIL_MANIFEST_SCHEMA
    \<and> jget d ''identity'' = JObj (read_items tail_identity)"
  by (auto simp: tail_root_def tail_fields_def)

lemma tail_root_valid:
  "validate_tail_manifest_root tail_root tail_identity context_b = Inr
     \<lparr>tr_committed = 6, tr_reused = 4, tr_chunk_count = 1, tr_segment = Some context_a,
      tr_chunks = [JObj (read_descriptor [] (demo_chunk 4 6))]\<rparr>"
proof -
  have auth: "metadata_authentic (take 9 tail_fields
      @ (''metadata_sha256'', JStr (sha256 (canonical_json (JObj tail_fields)))) # drop 9 tail_fields)"
    by (simp add: metadata_authentic_def tail_fields_def)
  have "publication_schema tail_identity = ''tail-cow-v1''" "chunk_tokens tail_identity = 4"
    by (simp_all add: tail_identity_def demo_identity_def)
  then show ?thesis
    using auth wire_ok_read [of tail_identity] sha256_digest
    by (simp add: validate_tail_manifest_root_def tail_root_def strict_keys_def TAIL_KEYS_def tail_fields_def
        format_digest_def FORMAT_ABI_def CHUNK_KEYS_def read_descriptor_def insert_commute)
qed

lemma resolve_without_segment:
  assumes "files s (Segment_file (storage_key tail_identity) context_a) = Absent"
  shows "resolve_tail_manifest s tail_root tail_identity context_b = Inl FileNotFound"
  using assms
  by (simp add: resolve_tail_manifest_def tail_root_valid read_descriptor_chain_def segment_count_def
      PREFIX_SEGMENT_DESCRIPTORS_def prefix_segment_path_def read_bytes_def)

lemma identity_from_read:
  assumes "valid_identity i" shows "identity_from_wire (read_items i) = Some i"
proof -
  have "List.map_filter the_str (map JStr ss) = ss" for ss
    by (induction ss) (auto simp: map_filter_simps)
  then show ?thesis
    using wire_identity_read [OF assms]
    by (simp add: identity_from_wire_def read_fields text_field_def int_field_def)
qed

definition orphaned_tail :: store where
  "orphaned_tail = put_file (manifest_path tail_identity context_b) (canonical_json tail_root) empty_store"

definition null_chunks :: store where
  "null_chunks = put_file (manifest_path demo_identity context_a)
     (canonical_json (JObj [(''chunks'', JNull)])) empty_store"

text \<open>C40: Invalidation is there to clear an entry that lookup reports as corrupt, but some corrupt
  entries make it raise and stay: a tail manifest whose descriptor segment is missing raises
  \<open>FileNotFoundError\<close>, which the handler does not catch, and a root whose \<open>chunks\<close> is null raises
  \<open>TypeError\<close> from the loop. Either way nothing is removed and the entry stays corrupt.\<close>

theorem invalidate_can_escape:
  "lookup tail_identity context_b verify meta mode orphaned_tail = Inr (miss ''corrupt'')
    \<and> invalidate tail_identity context_b v orphaned_tail = (Inl FileNotFound, orphaned_tail)
    \<and> lookup demo_identity context_a verify meta mode null_chunks = Inr (miss ''corrupt'')
    \<and> (\<exists>m. invalidate demo_identity context_a v null_chunks = (Inl (TypeError m), null_chunks))"
proof -
  have raw: "read_bytes (manifest_path tail_identity context_b) orphaned_tail = Inr (canonical_json tail_root)"
    by (simp add: orphaned_tail_def put_file_def read_bytes_def)
  have res: "resolve_tail_manifest orphaned_tail tail_root tail_identity context_b = Inl FileNotFound"
    by (rule resolve_without_segment) (simp add: orphaned_tail_def put_file_def manifest_path_def empty_store_def)
  obtain d where d: "tail_root = JObj d" by (simp add: tail_root_def)
  note g = tail_get [of d, unfolded d]
  have "root_descriptors orphaned_tail tail_root tail_identity context_b = Inl FileNotFound"
    using res g by (simp add: root_descriptors_def has_schema_def d)
  then have "lookup tail_identity context_b verify meta mode orphaned_tail = Inr (miss ''corrupt'')"
    by (simp add: lookup_def raw read_tail_root clean_miss_def)
  moreover have "doomed_descriptors orphaned_tail (canonical_json tail_root) context_b = Inl FileNotFound"
    using res g identity_from_read [OF tail_valid] read_tail_root
    by (simp add: doomed_descriptors_def d graph_schema_def graph_descriptors_def tolerated_def)
  then have "invalidate tail_identity context_b v orphaned_tail = (Inl FileNotFound, orphaned_tail)"
    by (simp add: invalidate_def raw)
  moreover have read: "read_json (canonical_json (JObj [(''chunks'', JNull)])) = Inr (JObj [(''chunks'', JNull)])"
    by (simp add: read_json_def json_loads_canonical)
  have raw2: "read_bytes (manifest_path demo_identity context_a) null_chunks
      = Inr (canonical_json (JObj [(''chunks'', JNull)]))"
    by (simp add: null_chunks_def put_file_def read_bytes_def)
  have "lookup demo_identity context_a verify meta mode null_chunks = Inr (miss ''corrupt'')"
    by (simp add: lookup_def raw2 read root_descriptors_def has_schema_def is_page_delta_root_def
        is_page_snapshot_root_def validate_manifest_metadata_def strict_keys_def clean_miss_def) 
  moreover have "\<exists>m. invalidate demo_identity context_a v null_chunks = (Inl (TypeError m), null_chunks)"
    by (simp add: invalidate_def raw2 doomed_descriptors_def read graph_schema_def)
  ultimately show ?thesis by blast
qed

end
