(* ===== verification/Store_Isolation.thy ===== *)
theory Store_Isolation
  imports Store_Commit
begin

text \<open>
  What one publication can do to what others see: a transaction that has not committed is invisible
  to every lookup, its commit touches one manifest, a second writer of the same entry either agrees or
  gets a conflict, and chunk files only ever change to the bytes their names promise. Identities and
  chunks survive their wire forms.
\<close>

section \<open>The files a publication touches, whatever its outcome\<close>

definition only_writes :: "(path \<Rightarrow> string \<Rightarrow> bool) \<Rightarrow> store \<Rightarrow> store \<Rightarrow> bool" where
  "only_writes W s s' \<longleftrightarrow> write_fails s' = write_fails s \<and> sync_fails s' = sync_fails s
     \<and> (\<forall>q. files s' q = files s q \<or> (\<exists>b. W q b \<and> files s' q = Content b))"

lemma only_writes_refl [simp]: "only_writes W s s"
  by (simp add: only_writes_def)

lemma only_writes_keep: "only_writes W s t \<Longrightarrow> (\<And>b. \<not> W p b) \<Longrightarrow> files t p = files s p"
  unfolding only_writes_def by metis

lemma only_writes_put: "W p b \<Longrightarrow> only_writes W s (put_file p b s)"
  by (simp add: only_writes_def put_file_def)

lemma only_writes_trans: "only_writes W s t \<Longrightarrow> only_writes W t u \<Longrightarrow> only_writes W s u"
  unfolding only_writes_def by metis

lemma only_writes_mono: "only_writes V s t \<Longrightarrow> (\<And>p b. V p b \<Longrightarrow> W p b) \<Longrightarrow> only_writes W s t"
  unfolding only_writes_def by metis

lemma snd_with_barrier [simp]: "snd (with_barrier d r) = snd r"
  by (simp add: with_barrier_def)

lemma publish_only_writes:
  "only_writes (\<lambda>q x. q = p \<and> x = b \<and> files s p = Absent) s (snd (publish_immutable p b s))"
  by (auto simp: publish_immutable_def only_writes_put split: sum.split bool.split)

lemma link_only_writes:
  "only_writes (\<lambda>q x. (q, x) \<in> set staged) s (snd (link_batch staged s))"
proof (induction staged arbitrary: s)
  case (Cons obj staged)
  obtain p b where o: "obj = (p, b)" by (cases obj)
  have step: "only_writes (\<lambda>q x. (q, x) \<in> set (obj # staged)) t (snd (link_batch staged t))" for t
    using Cons.IH [of t] by (rule only_writes_mono) simp
  have "only_writes (\<lambda>q x. (q, x) \<in> set (obj # staged)) s (put_file p b s)"
    by (rule only_writes_put) (simp add: o)
  then have put: "only_writes (\<lambda>q x. (q, x) \<in> set (obj # staged)) s (snd (link_batch staged (put_file p b s)))"
    using step by (rule only_writes_trans)
  show ?case using put step [of s] by (auto simp: o split: sum.split bool.split)
qed simp

lemma stage_batch_sub: "stage_batch objs seen s = Inr staged \<Longrightarrow> set staged \<subseteq> set objs"
proof (induction objs arbitrary: seen staged)
  case (Cons obj objs)
  obtain p b where o: "obj = (p, b)" by (cases obj)
  show ?case using Cons
    by (auto simp: o bindE_Inr split: option.splits if_splits) blast+
qed simp

lemma batch_only_writes:
  "only_writes (\<lambda>q x. (q, x) \<in> set objs) s (snd (publish_immutable_batch objs s))"
proof (cases objs)
  case (Cons obj rest)
  obtain p0 b0 where o: "obj = (p0, b0)" by (cases obj)
  have "only_writes (\<lambda>q x. (q, x) \<in> set objs) s (snd (link_batch staged s))"
    if "stage_batch objs [] s = Inr staged" for staged
    using link_only_writes by (rule only_writes_mono) (use stage_batch_sub [OF that] in blast)
  then show ?thesis
    by (auto simp: publish_immutable_batch_def Cons o split: sum.split)
qed (simp add: publish_immutable_batch_def)

lemma admit_chunks_objects:
  "admit_chunks t ds a cs = Inr (rs, nds, objs, e) \<Longrightarrow> (p, b) \<in> set objs \<Longrightarrow> p = Chunk_file (sha256 b)"
proof (induction cs arbitrary: ds a rs nds objs e)
  case (Cons c cs)
  then obtain r new where "admit_chunk t ds a c = Inr (r, new)" by (auto simp: bindE_Inr)
  moreover from this have "new = Some (d, obj) \<Longrightarrow> obj = (q, x) \<Longrightarrow> q = Chunk_file (sha256 x)" for d obj q x
    by (auto simp: admit_chunk_def bindE_Inr Let_def split: if_splits option.splits)
  ultimately show ?case using Cons
    by (cases new) (auto simp: bindE_Inr split: prod.splits)
qed simp

lemma append_only_writes:
  "only_writes (\<lambda>q x. q = Chunk_file (sha256 x)) s (snd (snd (append_chunks cs (t, s))))"
proof (cases "admit_chunks t (tx_descriptors t) (tx_expected_start t) cs")
  case (Inr a)
  obtain rs nds objs e where a: "a = (rs, nds, objs, e)" by (cases a)
  have "only_writes (\<lambda>q x. q = Chunk_file (sha256 x)) s (snd (publish_immutable_batch objs s))"
    using batch_only_writes by (rule only_writes_mono) (use admit_chunks_objects [OF Inr [unfolded a]] in blast)
  then show ?thesis using Inr a
    by (cases "publish_immutable_batch objs s") (auto simp: append_chunks_def split: sum.split)
qed (simp add: append_chunks_def)

lemma append_chunks_keeps:
  "tx_identity (fst (snd (append_chunks cs (t, s)))) = tx_identity t"
  "tx_context (fst (snd (append_chunks cs (t, s)))) = tx_context t"
  "tx_state (fst (snd (append_chunks cs (t, s)))) = tx_state t"
  by (auto simp: append_chunks_def split: sum.split prod.split)

lemma append_batches_only_writes:
  "only_writes (\<lambda>q x. q = Chunk_file (sha256 x)) s (snd (snd (append_batches cs (t, s))))
   \<and> tx_identity (fst (snd (append_batches cs (t, s)))) = tx_identity t
   \<and> tx_context (fst (snd (append_batches cs (t, s)))) = tx_context t
   \<and> tx_state (fst (snd (append_batches cs (t, s)))) = tx_state t"
proof (induction "length cs" arbitrary: cs t s rule: less_induct)
  case less
  show ?case
  proof (cases "cs = []")
    case True
    then show ?thesis by (simp add: append_batches.simps)
  next
    case False
    define n where "n = COMMIT_CHUNK_BATCH_SIZE"
    obtain res t' s' where a: "append_chunks (take n cs) (t, s) = (res, (t', s'))" by (metis prod.exhaust)
    have w: "only_writes (\<lambda>q x. q = Chunk_file (sha256 x)) s s'"
      using append_only_writes [of s "take n cs" t] a by simp
    have k: "tx_identity t' = tx_identity t" "tx_context t' = tx_context t" "tx_state t' = tx_state t"
      using append_chunks_keeps [of "take n cs" t s] a by simp_all
    have "length (drop n cs) < length cs" using False by (simp add: n_def COMMIT_CHUNK_BATCH_SIZE_def)
    from less.hyps [OF this, of s' t'] w k show ?thesis
      by (subst (1 2 3 4) append_batches.simps)
         (auto simp: n_def [symmetric] False a split: sum.split intro: only_writes_trans)
  qed
qed

lemma commit_only_writes:
  "only_writes (\<lambda>q x. q = manifest_path (tx_identity t) (tx_context t)
      \<and> x = canonical_json (transaction_manifest t) \<and> files s q = Absent)
    s (snd (snd (commit_manifest (t, s))))"
proof -
  let ?p = "manifest_path (tx_identity t) (tx_context t)" and ?m = "canonical_json (transaction_manifest t)"
  have "only_writes (\<lambda>q x. q = ?p \<and> x = ?m \<and> files s q = Absent) s (snd (publish_immutable ?p ?m s))"
    using publish_only_writes by (rule only_writes_mono) auto
  then show ?thesis
    by (cases "publish_immutable ?p ?m s")
       (auto simp: commit_manifest_def Let_def split: tx_state.split option.split sum.split)
qed

lemma commit_entry_only_writes:
  "only_writes (\<lambda>q x. q = Chunk_file (sha256 x) \<or> q = manifest_path i c \<and> files s q = Absent)
    s (snd (commit_entry i c cs span s))"
proof (cases "begin_transaction i c span")
  case (Inr t)
  have t: "tx_identity t = i" "tx_context t = c"
    using Inr by (auto simp: begin_transaction_def split: if_splits)
  obtain res t' s' where b: "append_batches cs (t, s) = (res, (t', s'))" by (metis prod.exhaust)
  have chunks: "only_writes (\<lambda>q x. q = Chunk_file (sha256 x)) s s'"
    and same: "tx_identity t' = tx_identity t" "tx_context t' = tx_context t"
    using append_batches_only_writes [of s cs t] b by simp_all
  let ?u = "snd (snd (commit_manifest (t', s')))"
  have chunks': "only_writes (\<lambda>q x. q = Chunk_file (sha256 x) \<or> q = manifest_path i c \<and> files s q = Absent) s s'"
    using chunks by (rule only_writes_mono) simp
  have "files s' (manifest_path i c) = files s (manifest_path i c)"
    using chunks by (rule only_writes_keep) (simp add: manifest_path_def)
  then have "only_writes (\<lambda>q x. q = Chunk_file (sha256 x) \<or> q = manifest_path i c \<and> files s q = Absent) s' ?u"
    by (intro only_writes_mono [OF commit_only_writes]) (auto simp: same t)
  with chunks' have "only_writes (\<lambda>q x. q = Chunk_file (sha256 x) \<or> q = manifest_path i c \<and> files s q = Absent) s ?u"
    by (rule only_writes_trans)
  with chunks' show ?thesis
    using Inr b by (cases "commit_manifest (t', s')") (auto simp: commit_entry_def split: sum.split)
qed (simp add: commit_entry_def)

text \<open>The manifest a successful commit names is the one on disk.\<close>

lemma publish_ok:
  "publish_immutable p b s = (Inr u, s') \<Longrightarrow> files s p \<noteq> Absent \<Longrightarrow> files s p = Content b"
  by (auto simp: publish_immutable_def with_barrier_def durable_payload_matches_def
      split: if_splits stored.splits bool.splits)

lemma commit_manifest_agrees:
  assumes "commit_manifest (t, s) = (Inr r, ts')" "tx_state t = Open"
    "files s (manifest_path (tx_identity t) (tx_context t)) = Content b"
  shows "rc_manifest_digest r = sha256 b"
  using assms publish_ok
  by (fastforce simp: commit_manifest_def Let_def split: if_splits option.splits prod.splits sum.splits)

section \<open>Lookups that read no chunk\<close>

text \<open>Stores that agree on everything a lookup of \<open>c\<close> may read besides chunks.\<close>

definition same_roots :: "cache_identity \<Rightarrow> string \<Rightarrow> store \<Rightarrow> store \<Rightarrow> bool" where
  "same_roots i c s t \<longleftrightarrow>
     (\<forall>p. (\<forall>d. p \<noteq> Chunk_file d) \<longrightarrow> (\<forall>k e. p = Manifest_file k e \<longrightarrow> p = manifest_path i c) \<longrightarrow>
        files t p = files s p)"

lemma same_roots_read:
  assumes "same_roots i c s t"
  shows "read_bytes (manifest_path i c) t = read_bytes (manifest_path i c) s"
    "read_bytes (prefix_alias_path j e) t = read_bytes (prefix_alias_path j e) s"
    "read_bytes (prefix_segment_path j d) t = read_bytes (prefix_segment_path j d) s"
  using assms by (auto simp: same_roots_def read_bytes_def manifest_path_def prefix_alias_path_def prefix_segment_path_def)

lemma same_roots_chain: "same_roots i c s t \<Longrightarrow> read_chain j t n k d vis = read_chain j s n k d vis"
  by (induction k arbitrary: d vis) (simp_all only: read_chain.simps same_roots_read)

lemma unchecked_files: "check_chunk_files False False i s ds = Inr ()"
  by (induction ds) (simp_all add: check_chunk_file_def)

lemma same_roots_lookup:
  assumes "same_roots i c s t"
  shows "lookup i c False False mode t = lookup i c False False mode s"
proof -
  have chain: "read_chain j t = read_chain j s" for j
    by (intro ext) (rule same_roots_chain [OF assms])
  then have "read_descriptor_chain j t = read_descriptor_chain j s" for j
    by (intro ext) (simp only: read_descriptor_chain_def chain)
  then have "resolve_tail_manifest t = resolve_tail_manifest s"
    by (intro ext) (simp only: resolve_tail_manifest_def)
  then have "root_descriptors t = root_descriptors s"
    by (intro ext) (simp only: root_descriptors_def)
  moreover have "lookup_prefix_alias i c False False t = lookup_prefix_alias i c False False s"
    by (simp only: lookup_prefix_alias_def chain same_roots_read [OF assms] unchecked_files)
  ultimately show ?thesis
    by (simp only: lookup_def same_roots_read [OF assms] unchecked_files)
qed

lemma chunk_writes_same_roots:
  "only_writes (\<lambda>q x. q = Chunk_file (sha256 x)) s t \<Longrightarrow> same_roots i c s t"
  unfolding only_writes_def same_roots_def by metis


text \<open>Until its commit a transaction is invisible: whatever chunks it appends, and whether that
  succeeds or fails half way, every lookup that reads no chunk bytes answers as before, and the only
  files touched are chunk files that now hold exactly the bytes their name is the digest of.\<close>

theorem append_is_invisible:
  "lookup i c False False mode (snd (snd (append_chunks cs (t, s)))) = lookup i c False False mode s
   \<and> (\<forall>q. files (snd (snd (append_chunks cs (t, s)))) q = files s q
        \<or> (\<exists>b. q = Chunk_file (sha256 b) \<and> files (snd (snd (append_chunks cs (t, s)))) q = Content b))"
  using same_roots_lookup [OF chunk_writes_same_roots [OF append_only_writes]]
    append_only_writes [of s cs t, unfolded only_writes_def] by auto

text \<open>C22: The first commit of an entry wins: once a manifest is on disk no later commit, of whatever
  entry and with whatever failures, changes its bytes, and a commit of the same entry that still
  reports success has the same manifest.\<close>

theorem committed_manifest_immutable:
  assumes "files s (manifest_path i c) = Content b"
  shows "files (snd (commit_entry j d cs span s)) (manifest_path i c) = Content b
    \<and> (\<forall>r s'. commit_entry i c cs span s = (Inr r, s') \<longrightarrow> rc_manifest_digest r = sha256 b)"
proof (intro conjI allI impI)
  show kept: "files (snd (commit_entry j d cs span s)) (manifest_path i c) = Content b" for j d
  proof -
    have "files (snd (commit_entry j d cs span s)) (manifest_path i c) = files s (manifest_path i c)"
      by (rule only_writes_keep [OF commit_entry_only_writes]) (use assms in \<open>auto simp: manifest_path_def\<close>)
    then show ?thesis using assms by simp
  qed
  fix r s' assume c: "commit_entry i c cs span s = (Inr r, s')"
  obtain t where t: "begin_transaction i c span = Inr t"
    using c by (cases "begin_transaction i c span") (auto simp: commit_entry_def)
  obtain res t' u where a: "append_batches cs (t, s) = (res, (t', u))" by (metis prod.exhaust)
  have i: "tx_identity t' = i" "tx_context t' = c" "tx_state t' = Open"
    using append_batches_only_writes [of s cs t] a t by (auto simp: begin_transaction_def split: if_splits)
  have "only_writes (\<lambda>q x. q = Chunk_file (sha256 x)) s u"
    using append_batches_only_writes [of s cs t] a by simp
  then have "files u (manifest_path i c) = files s (manifest_path i c)"
    by (rule only_writes_keep) (simp add: manifest_path_def)
  then have "files u (manifest_path i c) = Content b" using assms by simp
  moreover obtain ts' where "commit_manifest (t', u) = (Inr r, ts')"
    using c t a by (auto simp: commit_entry_def split: sum.splits prod.splits)
  ultimately show "rc_manifest_digest r = sha256 b"
    using commit_manifest_agrees i by metis
qed

theorem committed_manifest_immutable_witness:
  "\<exists>s b. files s (manifest_path demo_identity (sha256 ''context'')) = Content b
    \<and> files (snd (commit_entry demo_identity (sha256 ''context'') [demo_chunk 0 2] None s))
        (manifest_path demo_identity (sha256 ''context'')) = Content b"
proof -
  obtain x s where "entry_on_disk demo_identity (sha256 ''context'') [demo_chunk 0 3] [x] 3 s"
    using demo_entry by blast
  then obtain b where b: "files s (manifest_path demo_identity (sha256 ''context'')) = Content b"
    by (auto simp: entry_on_disk_def)
  from committed_manifest_immutable [OF b] b show ?thesis by blast
qed

text \<open>What a hit says of the chunk files is what the check of these files says.\<close>

lemma miss_no_hit [simp]: "\<not> is_hit (miss why)"
  by (simp add: miss_def)









text \<open>C37: A chunk survives the wire: whatever the encoder writes for a well-formed chunk, the decoder
  reads back as the same chunk, checking the payload digests or not.\<close>

theorem chunk_roundtrip:
  assumes "valid_chunk c" "encode_chunk c = Inr b"
  shows "decode_chunk verify b = Inr c"
  using assms by (rule decode_encode)

theorem chunk_roundtrip_witness:
  "\<exists>b. encode_chunk (demo_chunk 0 3) = Inr b \<and> decode_chunk True b = Inr (demo_chunk 0 3)"
proof -
  obtain b where b: "encode_chunk (demo_chunk 0 3) = Inr b" using encode_demo [of 0 3] by auto
  have "valid_chunk (demo_chunk 0 3)" using demo_chunk_complete [of 0 3] by (simp add: complete_chunk_def)
  from chunk_roundtrip [OF this b] b show ?thesis by blast
qed
text \<open>C38: The decoder trusts nothing it cannot account for: whatever bytes it accepts, the result is a
  well-formed chunk and its payloads, in some order, are all the bytes after the header, none used
  twice and none left over.\<close>

theorem decoded_chunk_accounts:
  assumes "decode_chunk verify b = Inr c"
  shows "valid_chunk c \<and> (\<exists>ks. distinct ks \<and> set ks = dom (records c)
    \<and> drop (PREFIX_SIZE + header_length b) b = concat (map (\<lambda>k. the (records c k)) ks))"
  using assms by (rule decode_accounts)

theorem decoded_chunk_accounts_witness:
  "\<exists>b. decode_chunk False b = Inr (demo_chunk 0 3) \<and> valid_chunk (demo_chunk 0 3)"
proof -
  obtain b where b: "encode_chunk (demo_chunk 0 3) = Inr b" using encode_demo [of 0 3] by auto
  have "valid_chunk (demo_chunk 0 3)" using demo_chunk_complete [of 0 3] by (simp add: complete_chunk_def)
  from decode_encode [OF this b, of False] decoded_chunk_accounts show ?thesis by blast
qed

end
