(* ===== verification/Store_Capacity.thy ===== *)
theory Store_Capacity
  imports Store_Invalidate
begin

text \<open>
  Capacity maintenance of the manifest store (\<open>CapacityPolicy\<close>, \<open>_capacity_entry\<close>,
  \<open>_capacity_alias_entry\<close>, \<open>touch\<close>, \<open>expired\<close> and \<open>maintain\<close> of \<open>cache_manifest.py\<close>): one pass under the
  exclusive root lock takes an inventory of every root and the objects it refers to, selects expired,
  invalid and least recently used roots, unlinks them, and only then the segments and chunks that no
  remaining root refers to.
\<close>

section \<open>The directory tree\<close>

text \<open>A file as a directory scan finds it: one of the names the store uses, or anything else.\<close>

datatype listed = Named path | Stray directory string

record file_stat =
  st_size :: int
  st_blocks :: int
  st_mtime :: int

text \<open>What \<open>unlink\<close> reports: \<open>Vanished\<close> is \<open>FileNotFoundError\<close>, \<open>Refused\<close> any other \<open>OSError\<close>.\<close>

datatype unlinked = Unlinked | Vanished | Refused

record disk =
  d_store :: store
  d_files :: "listed list"
  d_stat :: "listed \<Rightarrow> file_stat"
  d_unlink :: "listed \<Rightarrow> unlinked"

fun directory_text :: "directory \<Rightarrow> string" where
  "directory_text Chunks = ''chunks/''"
| "directory_text (Manifests s) = ''manifests/'' @ s @ ''/''"
| "directory_text (Segments s) = ''prefix-index/'' @ s @ ''/''"
| "directory_text (Aliases s) = ''prefix-aliases/'' @ s @ ''/''"

text \<open>\<open>os.fspath\<close>, relative to the root: the order of every scan.\<close>

fun file_text :: "listed \<Rightarrow> string" where
  "file_text (Named (Chunk_file d)) = directory_text Chunks @ d @ ''.spcc''"
| "file_text (Named (Manifest_file s c)) = directory_text (Manifests s) @ c @ ''.json''"
| "file_text (Named (Segment_file s d)) = directory_text (Segments s) @ d @ ''.spix''"
| "file_text (Named (Alias_file s c)) = directory_text (Aliases s) @ c @ ''.json''"
| "file_text (Stray dir name) = directory_text dir @ name"

fun file_directory :: "listed \<Rightarrow> directory" where
  "file_directory (Named p) = parent p"
| "file_directory (Stray dir name) = dir"

definition allocated_bytes :: "file_stat \<Rightarrow> int" where
  "allocated_bytes st = (if st_blocks st \<noteq> 0 then st_blocks st * 512 else st_size st)"

definition remove_file :: "listed \<Rightarrow> disk \<Rightarrow> disk" where
  "remove_file f d =
     d\<lparr>d_files := removeAll f (d_files d),
       d_store := (case f of Named p \<Rightarrow> drop_file p (d_store d) | Stray _ _ \<Rightarrow> d_store d)\<rparr>"

definition unlink_file :: "listed \<Rightarrow> disk \<Rightarrow> unlinked \<times> disk" where
  "unlink_file f d =
     (d_unlink d f, if d_unlink d f = Refused then d else remove_file f d)"

section \<open>The policy\<close>

record capacity_policy =
  max_bytes :: int
  low_watermark_bytes :: int
  ttl_seconds :: int
  maintenance_max_deletions :: int
  maintenance_interval_ms :: int

definition CapacityPolicy :: "capacity_policy \<Rightarrow> exn + capacity_policy" where
  "CapacityPolicy p =
     (if max_bytes p < 0 \<or> low_watermark_bytes p < 0 \<or> ttl_seconds p < 0
        \<or> maintenance_max_deletions p < 0 \<or> maintenance_interval_ms p < 0
      then Inl (ValueError ''must be a non-negative integer'')
      else if max_bytes p = 0 \<and> low_watermark_bytes p \<noteq> 0
      then Inl (ValueError ''low_watermark_bytes requires max_bytes'')
      else if max_bytes p > 0 \<and> \<not> (0 < low_watermark_bytes p \<and> low_watermark_bytes p \<le> max_bytes p)
      then Inl (ValueError ''low_watermark_bytes must be in (0, max_bytes] when bounded'')
      else Inr p)"

definition policy_enabled :: "capacity_policy \<Rightarrow> bool" where
  "policy_enabled p \<longleftrightarrow> max_bytes p > 0 \<or> ttl_seconds p > 0"

section \<open>What a root refers to\<close>

record root_entry =
  ce_key :: entry_key
  ce_path :: path
  ce_bytes :: int
  ce_mtime :: int
  ce_chunks :: "(string \<times> int) list"
  ce_valid :: bool
  ce_segments :: "string list"

text \<open>The digests and sizes of the objects, once each; two sizes for one digest are refused.\<close>

fun capacity_chunks :: "(string \<times> int) list \<Rightarrow> jdict list \<Rightarrow> exn + (string \<times> int) list" where
  "capacity_chunks acc [] = Inr (sort_key fst acc)"
| "capacity_chunks acc (d # ds) =
     (let name = descriptor_name d; n = descriptor_bytes d in
      case map_of acc name of
        Some m \<Rightarrow>
          if m \<noteq> n then Inl (CacheFormatError ''capacity chunk descriptor differs'')
          else capacity_chunks acc ds
      | None \<Rightarrow> capacity_chunks (acc @ [(name, n)]) ds)"

text \<open>The objects of a root in the manifests directory, by its kind.\<close>

definition capacity_objects :: "store \<Rightarrow> json \<Rightarrow> entry_key \<Rightarrow> exn + jdict list \<times> string list" where
  "capacity_objects s v key =
     (let plain = bindE (validate_manifest_metadata v key None) (\<lambda>ds. Inr (ds, [])) in
      case the_obj v of
        None \<Rightarrow> plain
      | Some m \<Rightarrow>
          let schema = jget m ''schema''; c = ek_context key in
          if the_list schema \<noteq> None \<or> the_obj schema \<noteq> None then Inl (TypeError ''unhashable type'')
          else if \<not> graph_schema schema then plain
          else
            (case the_obj (jget m ''identity'') of
               None \<Rightarrow> Inl (TypeError ''identity'')
             | Some w \<Rightarrow>
                 (case identity_from_wire w of
                    None \<Rightarrow> Inl (CacheFormatError ''manifest identity is invalid'')
                  | Some i \<Rightarrow>
                      if storage_key i \<noteq> ek_storage key
                      then Inl (IncompatibleManifest ''manifest storage key differs'')
                      else if schema = JStr TAIL_MANIFEST_SCHEMA
                      then bindE (resolve_tail_manifest s v i c) (\<lambda>(r, segments).
                           bindE (validate_manifest_metadata r key (Some i)) (\<lambda>ds. Inr (ds, segments)))
                      else if schema = JStr PAGE_SNAPSHOT_SCHEMA
                      then bindE (validate_page_snapshot_root v i c) (\<lambda>ds. Inr (ds, []))
                      else bindE (page_graph_descriptors MAX_PAGE_DELTA_DEPTH v i c) (\<lambda>ds. Inr (ds, [])))))"

text \<open>The entry of a root: when its graph does not authenticate it refers to nothing and is invalid.\<close>

definition entry_of ::
    "path \<Rightarrow> entry_key \<Rightarrow> file_stat \<Rightarrow> exn + jdict list \<times> string list \<Rightarrow> exn + root_entry" where
  "entry_of p key st r =
     (case bindE r (\<lambda>(ds, segments). bindE (capacity_chunks [] ds) (\<lambda>cs. Inr (cs, segments))) of
        Inr (cs, segments) \<Rightarrow>
          Inr \<lparr>ce_key = key, ce_path = p, ce_bytes = allocated_bytes st, ce_mtime = st_mtime st,
               ce_chunks = cs, ce_valid = True, ce_segments = segments\<rparr>
      | Inl e \<Rightarrow>
          if is_value_error e \<or> is_os_error e \<or> is_type_error e
          then Inr \<lparr>ce_key = key, ce_path = p, ce_bytes = allocated_bytes st, ce_mtime = st_mtime st,
                    ce_chunks = [], ce_valid = False, ce_segments = []\<rparr>
          else Inl e)"

definition check_key :: "entry_key \<Rightarrow> exn + unit" where
  "check_key key =
     (if is_sha256 (ek_storage key) \<and> is_sha256 (ek_context key) then Inr ()
      else Inl (ValueError ''must be a lowercase SHA-256 digest''))"

definition capacity_entry :: "disk \<Rightarrow> string \<Rightarrow> string \<Rightarrow> exn + root_entry" where
  "capacity_entry d sk c =
     (let p = Manifest_file sk c; key = EntryKey sk c in
      entry_of p key (d_stat d (Named p))
        (bindE (check_key key) (\<lambda>_.
         bindE (read_bytes p (d_store d)) (\<lambda>raw.
         bindE (read_json raw) (\<lambda>v. capacity_objects (d_store d) v key)))))"

text \<open>
  The chain of an alias, with the segments already authenticated in this pass: namespace, digest and
  position give the descriptors and the parent.
\<close>

type_synonym segment_cache = "(string \<times> string \<times> nat) \<Rightarrow> (jdict list \<times> json) option"

definition read_segment :: "store \<Rightarrow> string \<Rightarrow> string \<Rightarrow> nat \<Rightarrow> exn + jdict list \<times> json" where
  "read_segment s sk d k =
     bindE (read_bytes (Segment_file sk d) s) (\<lambda>b.
     if sha256 b \<noteq> d then Inl (CacheFormatError ''prefix descriptor segment checksum mismatch'')
     else
       bindE (read_json b) (\<lambda>segment.
       bindE (validate_prefix_segment segment sk (int k * PREFIX_SEGMENT_DESCRIPTORS)) (\<lambda>ds.
       case the_obj segment of
         None \<Rightarrow> Inl (CacheFormatError ''prefix descriptor segment is not an object'')
       | Some g \<Rightarrow> Inr (ds, jget g ''parent_sha256''))))"

fun cached_chain ::
    "store \<Rightarrow> string \<Rightarrow> nat \<Rightarrow> nat \<Rightarrow> string \<Rightarrow> string list \<Rightarrow> segment_cache
      \<Rightarrow> (exn + jdict list \<times> string list) \<times> segment_cache" where
  "cached_chain s sk segs 0 d visited cache = (Inr ([], visited), cache)"
| "cached_chain s sk segs (Suc k) d visited cache =
     (if d \<in> set visited then (Inl (CacheFormatError ''prefix descriptor chain contains a cycle''), cache)
      else
        (case (case cache (sk, d, k) of Some r \<Rightarrow> Inr r | None \<Rightarrow> read_segment s sk d k) of
           Inl e \<Rightarrow> (Inl e, cache)
         | Inr (ds, up) \<Rightarrow>
             (let cache' = cache((sk, d, k) \<mapsto> (ds, up)) in
              if Suc k < segs \<and> int (length ds) \<noteq> PREFIX_SEGMENT_DESCRIPTORS
              then (Inl (CacheFormatError ''non-tail prefix segment is incomplete''), cache')
              else if k = 0
              then (if up \<noteq> JNull
                    then (Inl (CacheFormatError ''prefix descriptor chain has extra parent''), cache')
                    else (Inr (ds, d # visited), cache'))
              else
                (case the_str up of
                   None \<Rightarrow> (Inl (CacheFormatError ''prefix descriptor chain is truncated''), cache')
                 | Some p \<Rightarrow>
                     (case cached_chain s sk segs k p (d # visited) cache' of
                        (Inl e, cache'') \<Rightarrow> (Inl e, cache'')
                      | (Inr (earlier, seen), cache'') \<Rightarrow> (Inr (earlier @ ds, seen), cache''))))))"

text \<open>The part of an alias entry before its chain.\<close>

definition alias_root ::
    "store \<Rightarrow> entry_key \<Rightarrow> exn + cache_identity \<times> int \<times> int \<times> string" where
  "alias_root s key =
     bindE (check_key key) (\<lambda>_.
     bindE (read_bytes (Alias_file (ek_storage key) (ek_context key)) s) (\<lambda>raw.
     bindE (read_json raw) (\<lambda>v.
     case the_obj v of
       None \<Rightarrow> Inl (CacheFormatError ''prefix alias identity is invalid'')
     | Some m \<Rightarrow>
         (case the_obj (jget m ''identity'') of
            None \<Rightarrow> Inl (CacheFormatError ''prefix alias identity is invalid'')
          | Some w \<Rightarrow>
              (case identity_from_wire w of
                 None \<Rightarrow> Inl (CacheFormatError ''prefix alias identity is invalid'')
               | Some i \<Rightarrow>
                   if storage_key i \<noteq> ek_storage key
                   then Inl (IncompatibleManifest ''prefix alias storage key differs'')
                   else bindE (validate_prefix_alias v i (ek_context key)) (\<lambda>(tokens, n, d).
                        Inr (i, tokens, n, d)))))))"

definition capacity_alias_entry ::
    "disk \<Rightarrow> string \<Rightarrow> string \<Rightarrow> segment_cache \<Rightarrow> (exn + root_entry) \<times> segment_cache" where
  "capacity_alias_entry d sk c cache =
     (let p = Alias_file sk c; key = (EntryKey sk c)\<lparr>ek_root_kind := ''prefix_alias''\<rparr>;
          st = d_stat d (Named p)
      in case alias_root (d_store d) key of
           Inl e \<Rightarrow> (entry_of p key st (Inl e), cache)
         | Inr (i, tokens, n, digest) \<Rightarrow>
             (case cached_chain (d_store d) sk (segment_count n) (segment_count n) digest [] cache of
                (Inl e, cache') \<Rightarrow> (entry_of p key st (Inl e), cache')
              | (Inr (ds, visited), cache') \<Rightarrow>
                  (entry_of p key st
                     (bindE (validate_manifest_metadata
                        (synthetic_manifest i c (JInt tokens) (JList (map JObj (take (nat n) ds))))
                        (EntryKey sk c) (Some i))
                      (\<lambda>chunks. Inr (chunks, sort visited))), cache')))"

fun capacity_alias_entries ::
    "disk \<Rightarrow> (string \<times> string) list \<Rightarrow> segment_cache \<Rightarrow> exn + root_entry list" where
  "capacity_alias_entries d [] cache = Inr []"
| "capacity_alias_entries d ((sk, c) # as) cache =
     (case capacity_alias_entry d sk c cache of
        (Inl e, cache') \<Rightarrow> Inl e
      | (Inr x, cache') \<Rightarrow> bindE (capacity_alias_entries d as cache') (\<lambda>xs. Inr (x # xs)))"

section \<open>The inventory\<close>

definition listed_in :: "(listed \<Rightarrow> bool) \<Rightarrow> disk \<Rightarrow> listed list" where
  "listed_in P d = sort_key file_text (filter P (d_files d))"

fun manifest_names :: "listed list \<Rightarrow> (string \<times> string) list" where
  "manifest_names [] = []"
| "manifest_names (Named (Manifest_file s c) # fs) = (s, c) # manifest_names fs"
| "manifest_names (f # fs) = manifest_names fs"

fun alias_names :: "listed list \<Rightarrow> (string \<times> string) list" where
  "alias_names [] = []"
| "alias_names (Named (Alias_file s c) # fs) = (s, c) # alias_names fs"
| "alias_names (f # fs) = alias_names fs"

fun is_manifest_file :: "listed \<Rightarrow> bool" where
  "is_manifest_file (Named (Manifest_file s c)) = True"
| "is_manifest_file f = False"

fun is_alias_file :: "listed \<Rightarrow> bool" where
  "is_alias_file (Named (Alias_file s c)) = True"
| "is_alias_file f = False"

fun in_manifests :: "directory \<Rightarrow> bool" where
  "in_manifests (Manifests s) = True" | "in_manifests dir = False"

fun in_aliases :: "directory \<Rightarrow> bool" where
  "in_aliases (Aliases s) = True" | "in_aliases dir = False"

fun in_index :: "directory \<Rightarrow> bool" where
  "in_index (Segments s) = True" | "in_index dir = False"

record inventory =
  iv_entries :: "root_entry list"
  iv_debris :: "listed list"
  iv_segments :: "listed list"
  iv_chunks :: "listed list"

definition take_inventory :: "disk \<Rightarrow> exn + inventory" where
  "take_inventory d =
     bindE (mapE (\<lambda>(s, c). capacity_entry d s c) (manifest_names (listed_in is_manifest_file d))) (\<lambda>roots.
     bindE (capacity_alias_entries d (alias_names (listed_in is_alias_file d)) (\<lambda>_. None)) (\<lambda>aliases.
     Inr \<lparr>iv_entries = roots @ aliases,
          iv_debris = listed_in (\<lambda>f. in_manifests (file_directory f) \<and> \<not> is_manifest_file f) d
            @ listed_in (\<lambda>f. in_aliases (file_directory f) \<and> \<not> is_alias_file f) d,
          iv_segments = listed_in (\<lambda>f. in_index (file_directory f)) d,
          iv_chunks = listed_in (\<lambda>f. file_directory f = Chunks) d\<rparr>))"

definition file_bytes :: "disk \<Rightarrow> listed \<Rightarrow> int" where
  "file_bytes d f = allocated_bytes (d_stat d f)"

definition total_bytes :: "disk \<Rightarrow> listed list \<Rightarrow> int" where
  "total_bytes d fs = sum_list (map (file_bytes d) fs)"

definition inventory_bytes :: "disk \<Rightarrow> inventory \<Rightarrow> int" where
  "inventory_bytes d v =
     sum_list (map ce_bytes (iv_entries v)) + total_bytes d (iv_debris v)
       + total_bytes d (iv_segments v) + total_bytes d (iv_chunks v)"

text \<open>The two counters: how many roots refer to a chunk, and to a segment of a namespace.\<close>

definition chunk_references :: "root_entry list \<Rightarrow> string \<Rightarrow> int" where
  "chunk_references es c = sum_list (map (\<lambda>e. int (count_list (map fst (ce_chunks e)) c)) es)"

definition segment_references :: "root_entry list \<Rightarrow> string \<times> string \<Rightarrow> int" where
  "segment_references es r =
     sum_list (map (\<lambda>e. if ek_storage (ce_key e) = fst r
       then int (count_list (ce_segments e) (snd r)) else 0) es)"

text \<open>A file under its canonical name that somebody refers to.\<close>

fun chunk_kept :: "(string \<Rightarrow> int) \<Rightarrow> listed \<Rightarrow> bool" where
  "chunk_kept refs (Named (Chunk_file c)) = (is_sha256 c \<and> refs c > 0)"
| "chunk_kept refs f = False"

fun segment_kept :: "(string \<times> string \<Rightarrow> int) \<Rightarrow> listed \<Rightarrow> bool" where
  "segment_kept refs (Named (Segment_file s d)) = (is_sha256 s \<and> is_sha256 d \<and> refs (s, d) > 0)"
| "segment_kept refs f = False"

section \<open>Selection\<close>

record selection =
  sl_bytes :: int
  sl_chunks :: "string \<Rightarrow> int"
  sl_segments :: "string \<times> string \<Rightarrow> int"
  sl_roots :: "root_entry list"
  sl_pending :: bool

definition release_chunk :: "disk \<Rightarrow> inventory \<Rightarrow> string \<Rightarrow> selection \<Rightarrow> selection" where
  "release_chunk d v c s =
     (let n = sl_chunks s c - 1; f = Named (Chunk_file c) in
      s\<lparr>sl_chunks := (sl_chunks s)(c := n),
        sl_bytes := sl_bytes s -
          (if n = 0 \<and> is_sha256 c \<and> f \<in> set (iv_chunks v) then file_bytes d f else 0)\<rparr>)"

definition release_segment :: "disk \<Rightarrow> inventory \<Rightarrow> string \<times> string \<Rightarrow> selection \<Rightarrow> selection" where
  "release_segment d v r s =
     (let n = sl_segments s r - 1; f = Named (Segment_file (fst r) (snd r)) in
      s\<lparr>sl_segments := (sl_segments s)(r := n),
        sl_bytes := sl_bytes s -
          (if n = 0 \<and> is_sha256 (fst r) \<and> is_sha256 (snd r) \<and> f \<in> set (iv_segments v)
           then file_bytes d f else 0)\<rparr>)"

definition select_root ::
    "disk \<Rightarrow> inventory \<Rightarrow> capacity_policy \<Rightarrow> entry_key list \<Rightarrow> bool \<Rightarrow> root_entry \<Rightarrow> selection \<Rightarrow> selection" where
  "select_root d v p protected debt e s =
     (if ce_path e \<in> set (map ce_path (sl_roots s)) \<or> (ce_valid e \<and> ce_key e \<in> set protected) then s
      else if maintenance_max_deletions p > 0 \<and> debt then s\<lparr>sl_pending := True\<rparr>
      else if maintenance_max_deletions p > 0 \<and> int (length (sl_roots s)) \<ge> maintenance_max_deletions p
      then s\<lparr>sl_pending := True\<rparr>
      else
        fold (\<lambda>g. release_segment d v (ek_storage (ce_key e), g)) (ce_segments e)
          (fold (\<lambda>(c, n). release_chunk d v c) (ce_chunks e)
             (s\<lparr>sl_roots := sl_roots s @ [e], sl_bytes := sl_bytes s - ce_bytes e\<rparr>)))"

definition root_expired :: "capacity_policy \<Rightarrow> int \<Rightarrow> root_entry \<Rightarrow> bool" where
  "root_expired p now e \<longleftrightarrow> ttl_seconds p > 0 \<and> now - ce_mtime e \<ge> ttl_seconds p * 10 ^ 9"

fun select_stale ::
    "(root_entry \<Rightarrow> selection \<Rightarrow> selection) \<Rightarrow> capacity_policy \<Rightarrow> int \<Rightarrow> root_entry list
      \<Rightarrow> selection \<Rightarrow> selection" where
  "select_stale select p now [] s = s"
| "select_stale select p now (e # es) s =
     select_stale select p now es (if \<not> ce_valid e \<or> root_expired p now e then select e s else s)"

text \<open>The loop under pressure stops as soon as the projection reaches the low watermark.\<close>

fun select_pressure ::
    "(root_entry \<Rightarrow> selection \<Rightarrow> selection) \<Rightarrow> int \<Rightarrow> root_entry list \<Rightarrow> selection \<Rightarrow> selection" where
  "select_pressure select low [] s = s"
| "select_pressure select low (e # es) s =
     (let s' = select e s in
      if sl_bytes s' \<le> low then s' else select_pressure select low es s')"

text \<open>\<open>sorted(entries, key=(mtime_ns, path))\<close>, as two stable sorts.\<close>

definition by_age :: "root_entry list \<Rightarrow> root_entry list" where
  "by_age es = sort_key ce_mtime (sort_key (\<lambda>e. file_text (Named (ce_path e))) es)"

definition orphan_files :: "inventory \<Rightarrow> listed list" where
  "orphan_files v =
     iv_debris v
     @ filter (\<lambda>f. \<not> segment_kept (segment_references (iv_entries v)) f) (iv_segments v)
     @ filter (\<lambda>f. \<not> chunk_kept (chunk_references (iv_entries v)) f) (iv_chunks v)"

definition select_roots ::
    "disk \<Rightarrow> inventory \<Rightarrow> capacity_policy \<Rightarrow> entry_key list \<Rightarrow> int \<Rightarrow> bool \<Rightarrow> selection" where
  "select_roots d v p protected now pressure =
     (let debt = orphan_files v \<noteq> [];
          select = select_root d v p protected debt;
          s0 = \<lparr>sl_bytes = inventory_bytes d v - total_bytes d (orphan_files v),
                sl_chunks = chunk_references (iv_entries v),
                sl_segments = segment_references (iv_entries v), sl_roots = [], sl_pending = False\<rparr>;
          s1 = select_stale select p now (by_age (iv_entries v)) s0
      in if pressure \<and> sl_bytes s1 > low_watermark_bytes p
         then select_pressure select (low_watermark_bytes p) (by_age (iv_entries v)) s1
         else s1)"

section \<open>Deletion\<close>

record deletions =
  dl_attempts :: int
  dl_pending :: bool
  dl_disk :: disk

definition admit_deletion :: "capacity_policy \<Rightarrow> deletions \<Rightarrow> bool \<times> deletions" where
  "admit_deletion p x =
     (if maintenance_max_deletions p > 0 \<and> dl_attempts x \<ge> maintenance_max_deletions p
      then (False, x\<lparr>dl_pending := True\<rparr>)
      else (True, x\<lparr>dl_attempts := dl_attempts x + 1\<rparr>))"

text \<open>One pass over files: those of which the unlinking counts (\<open>done\<close> says of which reports), in order.\<close>

fun delete_files ::
    "capacity_policy \<Rightarrow> (unlinked \<Rightarrow> bool) \<Rightarrow> listed list \<Rightarrow> deletions \<Rightarrow> listed list \<times> deletions" where
  "delete_files p counts [] x = ([], x)"
| "delete_files p counts (f # fs) x =
     (case admit_deletion p x of
        (False, x1) \<Rightarrow> delete_files p counts fs x1
      | (True, x1) \<Rightarrow>
          (case unlink_file f (dl_disk x1) of
             (r, d) \<Rightarrow>
               (case delete_files p counts fs (x1\<lparr>dl_disk := d\<rparr>) of
                  (gone, x2) \<Rightarrow> (if counts r then f # gone else gone, x2))))"

definition root_counts :: "unlinked \<Rightarrow> bool" where
  "root_counts r \<longleftrightarrow> r \<noteq> Refused"

definition object_counts :: "unlinked \<Rightarrow> bool" where
  "object_counts r \<longleftrightarrow> r = Unlinked"

text \<open>\<open>_fsync_directory\<close> of every affected directory.\<close>

definition barrier_fails :: "disk \<Rightarrow> listed list \<Rightarrow> bool" where
  "barrier_fails d fs \<longleftrightarrow> (\<exists>f\<in>set fs. sync_fails (d_store d) (file_directory f))"

record maintenance_report =
  bytes_before :: int
  bytes_after :: int
  bytes_reclaimed :: int
  manifests_evicted :: nat
  chunks_deleted :: nat
  orphan_chunks_deleted :: nat
  evicted_entries :: "entry_key list"
  capacity_satisfied :: bool
  skipped_busy :: bool
  skipped_cooldown :: bool
  deletion_attempts :: int
  work_pending :: bool
  aliases_evicted :: nat
  segments_deleted :: nat
  orphan_segments_deleted :: nat
  surviving_entries :: "entry_key list option"

definition empty_report :: maintenance_report where
  "empty_report = \<lparr>bytes_before = 0, bytes_after = 0, bytes_reclaimed = 0, manifests_evicted = 0,
     chunks_deleted = 0, orphan_chunks_deleted = 0, evicted_entries = [], capacity_satisfied = True,
     skipped_busy = False, skipped_cooldown = False, deletion_attempts = 0, work_pending = False,
     aliases_evicted = 0, segments_deleted = 0, orphan_segments_deleted = 0, surviving_entries = None\<rparr>"

text \<open>The roots left after the pass whose every chunk is on disk with the size its descriptor gives.\<close>

definition survivors :: "disk \<Rightarrow> inventory \<Rightarrow> root_entry list \<Rightarrow> entry_key list" where
  "survivors d v remaining =
     (let exact = map (\<lambda>e. (ek_storage (ce_key e), ek_context (ce_key e)))
            (filter (\<lambda>e. ek_root_kind (ce_key e) = ''manifest'') remaining)
      in map ce_key (filter (\<lambda>e. ce_valid e
           \<and> (ek_root_kind (ce_key e) = ''manifest''
              \<or> (ek_storage (ce_key e), ek_context (ce_key e)) \<notin> set exact)
           \<and> (\<forall>(c, n)\<in>set (ce_chunks e). is_sha256 c \<and> Named (Chunk_file c) \<in> set (iv_chunks v)
                \<and> st_size (d_stat d (Named (Chunk_file c))) = n)) remaining))"

text \<open>The second half of a pass: from the selection to the deletions, with the three barriers.\<close>

record collection =
  cl_debris :: "listed list"
  cl_removed :: "root_entry list"
  cl_segments :: "listed list"
  cl_chunks :: "listed list"

definition remaining_entries :: "inventory \<Rightarrow> listed list \<Rightarrow> root_entry list" where
  "remaining_entries v gone = filter (\<lambda>e. Named (ce_path e) \<notin> set gone) (iv_entries v)"

definition collect ::
    "capacity_policy \<Rightarrow> inventory \<Rightarrow> selection \<Rightarrow> deletions \<Rightarrow> (collection, deletions) outcome" where
  "collect p v s x0 =
     (let (debris, x1) = delete_files p root_counts (iv_debris v) x0;
          (roots, x2) = delete_files p root_counts (map (\<lambda>e. Named (ce_path e)) (sl_roots s)) x1
      in if barrier_fails (dl_disk x2) (debris @ roots) then raises OSError x2
         else
           (let left = remaining_entries v roots;
                (segments, x3) = delete_files p object_counts
                  (filter (\<lambda>f. \<not> segment_kept (segment_references left) f) (iv_segments v)) x2
            in if barrier_fails (dl_disk x3) segments then raises OSError x3
               else
                 (let (chunks, x4) = delete_files p object_counts
                        (filter (\<lambda>f. \<not> chunk_kept (chunk_references left) f) (iv_chunks v)) x3
                  in if barrier_fails (dl_disk x4) chunks then raises OSError x4
                     else returns \<lparr>cl_debris = debris,
                            cl_removed = filter (\<lambda>e. Named (ce_path e) \<in> set roots) (sl_roots s),
                            cl_segments = segments, cl_chunks = chunks\<rparr> x4)))"

section \<open>The pass\<close>

text \<open>What the store object keeps between passes. Times of the monotonic clock are in milliseconds.\<close>

record maintainer =
  not_before :: int
  pressure_target :: "(int \<times> int) option"

definition maintain_locked ::
    "capacity_policy \<Rightarrow> int \<Rightarrow> entry_key list \<Rightarrow> maintainer \<times> disk \<Rightarrow> (maintenance_report, maintainer \<times> disk) outcome" where
  "maintain_locked p now protected md =
     (let (m, d) = md in
      case take_inventory d of
        Inl e \<Rightarrow> raises e md
      | Inr v \<Rightarrow>
          (let before = inventory_bytes d v;
               target = (max_bytes p, low_watermark_bytes p);
               pressure = (max_bytes p > 0 \<and> (before > max_bytes p
                 \<or> (maintenance_max_deletions p > 0 \<and> pressure_target m = Some target
                    \<and> before > low_watermark_bytes p)));
               m1 = m\<lparr>pressure_target :=
                 (if pressure \<and> maintenance_max_deletions p > 0 then Some target else None)\<rparr>;
               s = select_roots d v p protected now pressure
           in case collect p v s \<lparr>dl_attempts = 0, dl_pending = sl_pending s, dl_disk = d\<rparr> of
                (Inl e, x) \<Rightarrow> raises e (m1, dl_disk x)
              | (Inr c, x) \<Rightarrow>
                  (let after = max 0 (before - total_bytes d (cl_debris c) - sum_list (map ce_bytes (cl_removed c))
                         - total_bytes d (cl_segments c) - total_bytes d (cl_chunks c));
                       more = (pressure \<and> maintenance_max_deletions p > 0 \<and> after > low_watermark_bytes p);
                       left = remaining_entries v (map (\<lambda>e. Named (ce_path e)) (cl_removed c))
                   in returns
                        \<lparr>bytes_before = before, bytes_after = after, bytes_reclaimed = before - after,
                         manifests_evicted =
                           length (filter (\<lambda>e. ek_root_kind (ce_key e) = ''manifest'') (cl_removed c)),
                         chunks_deleted = length (cl_chunks c),
                         orphan_chunks_deleted =
                           length (filter (\<lambda>f. f \<in> set (orphan_files v)) (cl_chunks c)),
                         evicted_entries = map ce_key (cl_removed c),
                         capacity_satisfied = (max_bytes p = 0 \<or> after \<le> max_bytes p),
                         skipped_busy = False, skipped_cooldown = False,
                         deletion_attempts = dl_attempts x,
                         work_pending = (dl_pending x \<or> more),
                         aliases_evicted =
                           length (filter (\<lambda>e. ek_root_kind (ce_key e) = ''prefix_alias'') (cl_removed c)),
                         segments_deleted = length (cl_segments c),
                         orphan_segments_deleted =
                           length (filter (\<lambda>f. f \<in> set (orphan_files v)) (cl_segments c)),
                         surviving_entries = Some (survivors d v left)\<rparr>
                        (if more then m1 else m1\<lparr>pressure_target := None\<rparr>, dl_disk x))))"

text \<open>\<open>busy\<close>: another process or transaction holds the root lock; \<open>clock\<close> and \<open>clock_end\<close>: the monotonic
  clock at the start and in the \<open>finally\<close> block.\<close>

definition maintain ::
    "capacity_policy \<Rightarrow> int \<Rightarrow> entry_key list \<Rightarrow> bool \<Rightarrow> int \<Rightarrow> int \<Rightarrow> maintainer \<times> disk
      \<Rightarrow> (maintenance_report, maintainer \<times> disk) outcome" where
  "maintain p now protected busy clock clock_end md =
     (if \<not> policy_enabled p then returns empty_report md
      else if busy
      then returns (empty_report\<lparr>capacity_satisfied := False, skipped_busy := True\<rparr>) md
      else if clock < not_before (fst md)
      then returns (empty_report\<lparr>capacity_satisfied := False, skipped_cooldown := True\<rparr>) md
      else
        (case maintain_locked p now protected md of
           (r, (m, d)) \<Rightarrow> (r, (m\<lparr>not_before := clock_end + maintenance_interval_ms p\<rparr>, d))))"

section \<open>Use and age of an entry\<close>

definition root_file :: "cache_identity \<Rightarrow> string \<Rightarrow> disk \<Rightarrow> listed" where
  "root_file i c d =
     (if Named (manifest_path i c) \<in> set (d_files d) then Named (manifest_path i c)
      else Named (prefix_alias_path i c))"

definition touch ::
    "cache_identity \<Rightarrow> string \<Rightarrow> int \<Rightarrow> int \<Rightarrow> bool \<Rightarrow> disk \<Rightarrow> (bool, disk) outcome" where
  "touch i c now minimum_interval_seconds busy d =
     (let f = root_file i c d; st = d_stat d f in
      if minimum_interval_seconds < 0
      then raises (ValueError ''minimum_interval_seconds must be non-negative'') d
      else if busy \<or> f \<notin> set (d_files d) then returns False d
      else if now - st_mtime st < minimum_interval_seconds * 10 ^ 9 then returns False d
      else returns True (d\<lparr>d_stat := (d_stat d)(f := st\<lparr>st_mtime := now\<rparr>)\<rparr>))"

definition expired :: "cache_identity \<Rightarrow> string \<Rightarrow> int \<Rightarrow> int \<Rightarrow> disk \<Rightarrow> bool" where
  "expired i c ttl now d =
     (ttl > 0 \<and>
      (let f = root_file i c d in
       f \<notin> set (d_files d) \<or> now - st_mtime (d_stat d f) \<ge> ttl * 10 ^ 9))"

end
