(* ===== verification/Capacity_Laws.thy ===== *)
theory Capacity_Laws
  imports Store_Capacity Store_Isolation
begin

text \<open>
  What a maintenance pass may take away: the objects of a root that stays are never among the files it
  unlinks, whatever the file system refuses and wherever the pass stops; protected roots stay; a
  deletion budget is kept; the segment cache changes nothing; and an unlimited pass on a file system
  that refuses nothing leaves no orphan and reaches its watermark.
\<close>

section \<open>Descriptors name their objects\<close>

definition digest_named :: "jdict \<Rightarrow> bool" where
  "digest_named d \<longleftrightarrow> is_sha256 (descriptor_name d)"

lemma is_digest_named: "is_digest (jget d ''sha256'') \<Longrightarrow> digest_named d"
  by (auto simp: is_digest_iff digest_named_def descriptor_name_def)

lemma tiled_dicts_named: "tiled_dicts full a vs b \<Longrightarrow> d \<in> set (dicts vs) \<Longrightarrow> digest_named d"
  by (induction vs arbitrary: a) (auto simp: dicts_def map_filter_simps intro: is_digest_named)

lemma validate_manifest_named:
  assumes "validate_manifest_metadata v key x = Inr ds" shows "\<forall>d\<in>set ds. digest_named d"
proof -
  obtain full vs n where "check_chunks full 0 vs = Inr n" "dicts vs = ds"
    using assms [unfolded validate_manifest_metadata_def success_iff the_Some] by blast
  then show ?thesis by (auto simp: check_chunks_iff intro: tiled_dicts_named)
qed

lemma check_objects_named:
  "check_objects keys full a vs = Inr b \<Longrightarrow> d \<in> set (dicts vs) \<Longrightarrow> digest_named d"
proof (induction vs arbitrary: a)
  case (Cons v vs)
  then obtain x e where x: "v = JObj x" "is_digest (jget x ''sha256'')" "check_objects keys full e vs = Inr b"
    unfolding check_objects.simps success_iff the_Some validators_Inr by blast
  show ?case
  proof (cases "d = x")
    case True
    then show ?thesis using x(2) by (simp add: is_digest_named)
  next
    case False
    then have "d \<in> set (dicts vs)" using Cons.prems(2) x(1) by (auto simp: dicts_def map_filter_simps)
    then show ?thesis using Cons.IH x(3) by blast
  qed
qed (simp add: dicts_def map_filter_simps)

lemma snapshot_named:
  assumes "validate_page_snapshot_root v i c = Inr ds" shows "\<forall>d\<in>set ds. digest_named d"
proof -
  obtain keys full vs n where "check_objects keys full 0 vs = Inr n" "dicts vs = ds"
    using assms [unfolded validate_page_snapshot_root_def success_iff the_Some] by blast
  then show ?thesis by (auto intro: check_objects_named)
qed

lemma dicts_append [simp]: "dicts (xs @ ys) = dicts xs @ dicts ys"
  by (simp add: dicts_def map_filter_def)

lemma check_stages_named:
  "check_stages i width p gs = Inr (q, vs) \<Longrightarrow> d \<in> set (dicts vs) \<Longrightarrow> digest_named d"
proof (induction gs arbitrary: p vs)
  case (Cons g gs)
  then obtain p' objects rest where g: "check_stage i width p g = Inr (p', objects)"
    "check_stages i width p' gs = Inr (q, rest)" "vs = objects @ rest"
    by (auto simp: bindE_Inr)
  obtain keys full n where "check_objects keys full 0 objects = Inr n"
    using g(1) [unfolded check_stage_def success_iff the_Some] by blast
  then show ?case using Cons.IH g(2,3) Cons.prems(2) by (auto intro: check_objects_named)
qed (simp add: dicts_def map_filter_simps)

lemma flat_delta_named:
  assumes "validate_flat_delta_root m i c = Inr (b, ds)" shows "\<forall>d\<in>set ds. digest_named d"
proof -
  obtain width p gs q vs where "check_stages i width p gs = Inr (q, vs)" "dicts vs = ds"
    using assms [unfolded validate_flat_delta_root_def success_iff the_Some split_paired_Ex] by blast
  then show ?thesis by (auto intro: check_stages_named)
qed

lemma delta_objects_named:
  assumes "delta_objects m i = Inr ds" shows "\<forall>d\<in>set ds. digest_named d"
proof -
  obtain keys full vs n where "check_objects keys full 0 vs = Inr n" "dicts vs = ds"
    using assms [unfolded delta_objects_def success_iff the_Some] by blast
  then show ?thesis by (auto intro: check_objects_named)
qed

lemma page_delta_named:
  assumes "validate_page_delta_root v i c = Inr (b, ds)" shows "\<forall>d\<in>set ds. digest_named d"
  using assms flat_delta_named validate_manifest_named delta_objects_named
  unfolding validate_page_delta_root_def success_iff the_Some
  by (auto simp: bindE_Inr split: if_splits)

lemma page_graph_named:
  "page_graph_descriptors n v i c = Inr ds \<Longrightarrow> \<forall>d\<in>set ds. digest_named d"
proof (induction n v i c arbitrary: ds rule: page_graph_descriptors.induct)
  case (2 n v i c)
  obtain base_root delta m b is_delta bd base where
    a: "validate_page_delta_root v i c = Inr (base_root, delta)" "the_obj v = Some m" "the_obj base_root = Some b"
    "is_page_delta_root base_root = Inr is_delta" "the_str (jget m ''base_context_digest'') = Some bd"
    "(if is_delta then page_graph_descriptors n base_root i bd
      else if is_page_snapshot_root base_root then validate_page_snapshot_root base_root i bd
      else validate_manifest_metadata base_root (EntryKey (storage_key i) bd) (Some i)) = Inr base"
    "ds = base @ delta"
    using "2.prems" [unfolded page_graph_descriptors.simps success_iff split_paired_Ex] by blast
  have "\<forall>d\<in>set base. digest_named d"
    using a(6) "2.IH" a snapshot_named validate_manifest_named
    by (cases is_delta) (fastforce split: if_splits)+
  then show ?case using page_delta_named [OF a(1)] a(7) by auto
qed simp

section \<open>The segment cache changes nothing\<close>

text \<open>Two results that no caller of the inventory can tell apart: equal, or both an error that makes the
  root invalid.\<close>

definition alike :: "exn + 'a \<Rightarrow> exn + 'a \<Rightarrow> bool" where
  "alike r q \<longleftrightarrow> r = q \<or> (\<exists>e f. r = Inl e \<and> q = Inl f \<and> is_value_error e \<and> is_value_error f)"

lemma alike_refl [simp]: "alike r r"
  by (simp add: alike_def)

lemma alike_sym: "alike r q \<Longrightarrow> alike q r"
  by (auto simp: alike_def)

lemma alike_trans: "alike r q \<Longrightarrow> alike q p \<Longrightarrow> alike r p"
  by (auto simp: alike_def)

lemma alike_format [simp]: "alike (Inl (CacheFormatError m)) (Inl (CacheFormatError n))"
  by (simp add: alike_def)

lemma entry_of_alike: "alike r q \<Longrightarrow> entry_of p key st r = entry_of p key st q"
  by (auto simp: alike_def entry_of_def)

lemma bindE_alike: "alike r q \<Longrightarrow> alike (bindE r f) (bindE q f)"
  by (auto simp: alike_def bindE_def)

definition cache_ok :: "store \<Rightarrow> segment_cache \<Rightarrow> bool" where
  "cache_ok s cache \<longleftrightarrow> (\<forall>sk d k r. cache (sk, d, k) = Some r \<longrightarrow> read_segment s sk d k = Inr r)"

text \<open>One step of the chain of \<open>lookup\<close>, over the segment read.\<close>

lemma read_chain_step:
  assumes "d \<notin> set visited"
  shows "alike (read_chain i s segs (Suc k) d visited)
    (bindE (read_segment s (storage_key i) d k) (\<lambda>(ds, up).
       if Suc k < segs \<and> int (length ds) \<noteq> PREFIX_SEGMENT_DESCRIPTORS then Inl (CacheFormatError [])
       else if k = 0 then (if up \<noteq> JNull then Inl (CacheFormatError []) else Inr (ds, d # visited))
       else (case the_str up of None \<Rightarrow> Inl (CacheFormatError [])
             | Some p \<Rightarrow> bindE (read_chain i s segs k p (d # visited)) (\<lambda>(earlier, seen). Inr (earlier @ ds, seen)))))"
proof (cases "read_bytes (prefix_segment_path i d) s")
  case (Inr b)
  show ?thesis
  proof (cases "sha256 b = d")
    case True
    show ?thesis
    proof (cases "read_json b")
      case (Inr v)
      show ?thesis
      proof (cases "validate_prefix_segment v (storage_key i) (int k * PREFIX_SEGMENT_DESCRIPTORS)")
        case (Inr ds)
        then show ?thesis
          using assms \<open>read_bytes _ _ = Inr b\<close> True \<open>read_json b = Inr v\<close>
          by (auto simp: read_segment_def prefix_segment_path_def alike_def split: option.split)
      qed (use assms \<open>read_bytes _ _ = Inr b\<close> True \<open>read_json b = Inr v\<close> in
          \<open>simp add: read_segment_def prefix_segment_path_def\<close>)
    qed (use assms Inr True in \<open>simp add: read_segment_def prefix_segment_path_def\<close>)
  qed (use assms Inr in \<open>simp add: read_segment_def prefix_segment_path_def\<close>)
qed (use assms in \<open>simp add: read_segment_def prefix_segment_path_def\<close>)

declare read_chain.simps(2) [simp del] cached_chain.simps(2) [simp del]

lemma cached_chain_alike:
  assumes "cache_ok s cache"
  shows "alike (fst (cached_chain s (storage_key i) segs k d visited cache)) (read_chain i s segs k d visited)
    \<and> cache_ok s (snd (cached_chain s (storage_key i) segs k d visited cache))"
  using assms
proof (induction k arbitrary: d visited cache)
  case (Suc k)
  show ?case
  proof (cases "d \<in> set visited")
    case False
    show ?thesis
    proof (cases "read_segment s (storage_key i) d k")
      case (Inl e)
      then have "cache (storage_key i, d, k) = None"
        using Suc.prems by (cases "cache (storage_key i, d, k)") (auto simp: cache_ok_def)
      then show ?thesis using Suc.prems False Inl read_chain_step [OF False, of i s segs k]
        by (auto simp: alike_def cached_chain.simps(2))
    next
      case (Inr r)
      obtain ds up where r: "r = (ds, up)" by (cases r)
      have found: "(case cache (storage_key i, d, k) of Some r \<Rightarrow> Inr r
          | None \<Rightarrow> read_segment s (storage_key i) d k) = Inr (ds, up)"
        using Suc.prems Inr r by (auto simp: cache_ok_def split: option.split)
      have ok: "cache_ok s (cache((storage_key i, d, k) \<mapsto> (ds, up)))"
        using Suc.prems Inr r by (auto simp: cache_ok_def)
      note step = read_chain_step [OF False, of i s segs k, unfolded Inr r]
      note IH = Suc.IH [OF ok]
      show ?thesis
      proof (cases "(Suc k < segs \<and> int (length ds) \<noteq> PREFIX_SEGMENT_DESCRIPTORS) \<or> k = 0 \<or> the_str up = None")
        case stop: True
        note run = cached_chain.simps(2) [of s "storage_key i" segs k d visited cache,
          unfolded found sum.case prod.case Let_def if_not_P [OF False]]
        consider "Suc k < segs \<and> int (length ds) \<noteq> PREFIX_SEGMENT_DESCRIPTORS"
          | "\<not> (Suc k < segs \<and> int (length ds) \<noteq> PREFIX_SEGMENT_DESCRIPTORS)" "k = 0"
          | "\<not> (Suc k < segs \<and> int (length ds) \<noteq> PREFIX_SEGMENT_DESCRIPTORS)" "k \<noteq> 0" "the_str up = None"
          using stop by argo
        then show ?thesis
        proof cases
          case 1
          then show ?thesis using step ok False unfolding run by (auto simp: alike_def simp del: fun_upd_apply)
        next
          case 2
          then show ?thesis using step ok False unfolding run by (auto simp: alike_def simp del: fun_upd_apply)
        next
          case 3
          then show ?thesis using step ok False unfolding run by (auto simp: alike_def simp del: fun_upd_apply)
        qed
      next
        case more: False
        then obtain p where p: "the_str up = Some p" by auto
        obtain q cache' where q: "cached_chain s (storage_key i) segs k p (d # visited)
            (cache((storage_key i, d, k) \<mapsto> (ds, up))) = (q, cache')" by fastforce
        have tail: "alike q (read_chain i s segs k p (d # visited))" "cache_ok s cache'"
          using IH [of p "d # visited"] q by (simp_all del: fun_upd_apply)
        have run: "cached_chain s (storage_key i) segs (Suc k) d visited cache
          = (bindE q (\<lambda>(earlier, seen). Inr (earlier @ ds, seen)), cache')"
          using False more p q by (auto simp add: cached_chain.simps(2) found Let_def bindE_def split: sum.split prod.split)
        have joined: "alike (bindE q (\<lambda>(earlier, seen). Inr (earlier @ ds, seen)))
            (bindE (read_chain i s segs k p (d # visited)) (\<lambda>(earlier, seen). Inr (earlier @ ds, seen)))"
          by (rule bindE_alike [OF tail(1)])
        have "alike (read_chain i s segs (Suc k) d visited)
            (bindE (read_chain i s segs k p (d # visited)) (\<lambda>(earlier, seen). Inr (earlier @ ds, seen)))"
          using step more p by auto
        then have "alike (fst (cached_chain s (storage_key i) segs (Suc k) d visited cache))
            (read_chain i s segs (Suc k) d visited)"
          unfolding run fst_conv by (rule alike_trans [OF joined alike_sym])
        then show ?thesis using tail(2) by (simp add: run)
      qed
    qed
  qed (use Suc.prems in \<open>simp add: cached_chain.simps(2) read_chain.simps(2)\<close>)
qed simp

text \<open>An alias entry as lookup would read it, without a cache.\<close>

definition plain_alias_entry :: "disk \<Rightarrow> string \<Rightarrow> string \<Rightarrow> exn + root_entry" where
  "plain_alias_entry d sk c =
     (let p = Alias_file sk c; key = (EntryKey sk c)\<lparr>ek_root_kind := ''prefix_alias''\<rparr> in
      entry_of p key (d_stat d (Named p))
        (bindE (alias_root (d_store d) key) (\<lambda>(i, tokens, n, digest).
         bindE (read_chain i (d_store d) (segment_count n) (segment_count n) digest []) (\<lambda>(ds, visited).
         bindE (validate_manifest_metadata
            (synthetic_manifest i c (JInt tokens) (JList (map JObj (take (nat n) ds)))) (EntryKey sk c) (Some i))
         (\<lambda>chunks. Inr (chunks, sort visited))))))"

lemma alias_root_key:
  "alias_root s key = Inr (i, tokens, n, digest) \<Longrightarrow>
     storage_key i = ek_storage key \<and> is_sha256 (ek_storage key) \<and> is_sha256 (ek_context key)"
  by (auto simp: alias_root_def check_key_def success_iff the_Some)

lemma capacity_alias_entry_plain:
  assumes "cache_ok (d_store d) cache"
  shows "fst (capacity_alias_entry d sk c cache) = plain_alias_entry d sk c
    \<and> cache_ok (d_store d) (snd (capacity_alias_entry d sk c cache))"
proof -
  define key where "key = (EntryKey sk c)\<lparr>ek_root_kind := ''prefix_alias''\<rparr>"
  show ?thesis
  proof (cases "alias_root (d_store d) key")
    case (Inl e)
    then show ?thesis using assms
      by (simp add: capacity_alias_entry_def plain_alias_entry_def Let_def key_def [symmetric])
  next
    case (Inr r)
    obtain i tokens n digest where r: "r = (i, tokens, n, digest)" by (cases r)
    have sk: "storage_key i = sk" using alias_root_key [OF Inr [unfolded r]] by (simp add: key_def EntryKey_def)
    note chain = cached_chain_alike [OF assms, of i "segment_count n" "segment_count n" digest "[]", unfolded sk]
    obtain q cache' where q: "cached_chain (d_store d) sk (segment_count n) (segment_count n) digest [] cache = (q, cache')"
      by fastforce
    define rest where "rest = (\<lambda>(ds, visited :: string list).
      bindE (validate_manifest_metadata
         (synthetic_manifest i c (JInt tokens) (JList (map JObj (take (nat n) ds)))) (EntryKey sk c) (Some i))
      (\<lambda>chunks. Inr (chunks, sort visited)))"
    have "entry_of p key st (bindE q rest)
        = entry_of p key st (bindE (read_chain i (d_store d) (segment_count n) (segment_count n) digest []) rest)" for p st
      by (rule entry_of_alike [OF bindE_alike]) (use chain q in simp)
    then show ?thesis
      using chain q Inr r
      by (cases q) (auto simp: capacity_alias_entry_def plain_alias_entry_def Let_def key_def [symmetric] rest_def)
  qed
qed

lemma alias_entries_plain:
  "capacity_alias_entries d as (\<lambda>_. None) = mapE (\<lambda>(s, c). plain_alias_entry d s c) as"
proof -
  have "cache_ok (d_store d) cache \<Longrightarrow>
      capacity_alias_entries d as cache = mapE (\<lambda>(s, c). plain_alias_entry d s c) as" for cache
  proof (induction as arbitrary: cache)
    case (Cons a as)
    obtain sk c where a: "a = (sk, c)" by (cases a)
    obtain q cache' where q: "capacity_alias_entry d sk c cache = (q, cache')" by fastforce
    show ?case using Cons.IH capacity_alias_entry_plain [OF Cons.prems, of sk c] q a
      by (cases q) (auto split: sum.split)
  qed simp
  then show ?thesis by (simp add: cache_ok_def)
qed

text \<open>C28: The segment cache of a maintenance pass is transparent: the aliases are described exactly as if
  every chain had been read and authenticated from the files, the way lookup reads it.\<close>

theorem segment_cache_transparent:
  "capacity_alias_entries d as (\<lambda>_. None) = mapE (\<lambda>(s, c). plain_alias_entry d s c) as"
  by (rule alias_entries_plain)

section \<open>What the inventory promises of an entry\<close>

definition entry_sound :: "root_entry \<Rightarrow> bool" where
  "entry_sound e \<longleftrightarrow>
     distinct (map fst (ce_chunks e)) \<and> (\<forall>c\<in>set (map fst (ce_chunks e)). is_sha256 c)
     \<and> distinct (ce_segments e) \<and> (\<forall>g\<in>set (ce_segments e). is_sha256 g \<and> is_sha256 (ek_storage (ce_key e)))"

lemma capacity_chunks_sound:
  "capacity_chunks acc ds = Inr cs \<Longrightarrow> distinct (map fst acc) \<Longrightarrow> \<forall>d\<in>set ds. digest_named d
    \<Longrightarrow> \<forall>c\<in>fst ` set acc. is_sha256 c
    \<Longrightarrow> distinct (map fst cs) \<and> (\<forall>c\<in>fst ` set cs. is_sha256 c)"
proof (induction acc ds rule: capacity_chunks.induct)
  case (1 acc)
  then have cs: "cs = sort_key fst acc" by simp
  have "distinct (map fst cs)" using 1(2) by (simp only: cs distinct_map distinct_sort set_sort)
  then show ?case using 1(4) by (simp add: cs)
next
  case (2 acc d ds)
  show ?case
  proof (cases "map_of acc (descriptor_name d)")
    case None
    then have "descriptor_name d \<notin> fst ` set acc" by (simp add: map_of_eq_None_iff)
    then show ?thesis using 2 None by (auto simp: digest_named_def)
  next
    case (Some m)
    then show ?thesis using 2 by (auto split: if_splits)
  qed
qed

lemma read_chain_seen:
  "read_chain i s segs k d visited = Inr (ds, seen) \<Longrightarrow> distinct visited \<Longrightarrow> \<forall>g\<in>set visited. is_sha256 g
    \<Longrightarrow> distinct seen \<and> (\<forall>g\<in>set seen. is_sha256 g)"
proof (induction k arbitrary: d visited ds)
  case (Suc k)
  note step = Suc.prems(1) [unfolded read_chain.simps(2) success_iff the_Some split_paired_Ex]
  have "d \<notin> set visited" "is_sha256 d" using step sha256_digest by blast+
  then have ok: "distinct (d # visited)" "\<forall>g\<in>set (d # visited). is_sha256 g"
    using Suc.prems(2,3) by auto
  consider "k = 0" "seen = d # visited" | p earlier where "read_chain i s segs k p (d # visited) = Inr (earlier, seen)"
    using step by (cases k) (auto simp: bindE_Inr split: if_splits option.splits prod.splits)
  then show ?case
  proof cases
    case 1
    then show ?thesis using ok by simp
  next
    case 2
    then show ?thesis using ok by (rule Suc.IH)
  qed
qed simp

lemma resolve_tail_seen:
  assumes "resolve_tail_manifest s v i c = Inr (m, segs)"
  shows "distinct segs \<and> (\<forall>g\<in>set segs. is_sha256 g)"
proof -
  obtain segment n base where "read_descriptor_chain i s segment n = Inr (base, segs)"
    using assms by (auto simp: resolve_tail_manifest_def bindE_Inr Let_def split: prod.splits)
  then show ?thesis
    by (auto simp: read_descriptor_chain_def bindE_Inr split: if_splits option.splits prod.splits
        dest!: read_chain_seen)
qed

lemma entry_of_Inr:
  assumes "entry_of p key st r = Inr e"
  shows "ce_path e = p \<and> ce_key e = key \<and> ce_bytes e = allocated_bytes st \<and> ce_mtime e = st_mtime st"
    and "ce_valid e \<longleftrightarrow> (\<exists>ds. r = Inr (ds, ce_segments e) \<and> capacity_chunks [] ds = Inr (ce_chunks e))"
    and "\<not> ce_valid e \<Longrightarrow> ce_chunks e = [] \<and> ce_segments e = []"
  using assms by (auto simp: entry_of_def bindE_def split: sum.splits if_splits prod.splits)

lemma entry_of_sound:
  assumes "entry_of p key st r = Inr e"
    and "\<And>ds segs. r = Inr (ds, segs) \<Longrightarrow> (\<forall>d\<in>set ds. digest_named d)
      \<and> distinct segs \<and> (\<forall>g\<in>set segs. is_sha256 g \<and> is_sha256 (ek_storage key))"
  shows "entry_sound e"
proof (cases "ce_valid e")
  case True
  then obtain ds where r: "r = Inr (ds, ce_segments e)" "capacity_chunks [] ds = Inr (ce_chunks e)"
    using entry_of_Inr(2) [OF assms(1)] by blast
  have "distinct (map fst (ce_chunks e)) \<and> (\<forall>c\<in>fst ` set (ce_chunks e). is_sha256 c)"
    by (rule capacity_chunks_sound [OF r(2)]) (use assms(2) [OF r(1)] in simp_all)
  then show ?thesis using assms(2) [OF r(1)] entry_of_Inr(1) [OF assms(1)] by (simp add: entry_sound_def)
next
  case False
  then show ?thesis using entry_of_Inr(3) [OF assms(1)] by (simp add: entry_sound_def)
qed

lemma capacity_objects_sound:
  assumes "capacity_objects s v key = Inr (ds, segs)"
  shows "(\<forall>d\<in>set ds. digest_named d) \<and> distinct segs \<and> (\<forall>g\<in>set segs. is_sha256 g)"
  using assms unfolding capacity_objects_def Let_def success_iff split_paired_Ex
  by (auto simp: bindE_Inr split: option.splits if_splits prod.splits
      dest: validate_manifest_named page_graph_named snapshot_named resolve_tail_seen)

lemma capacity_entry_sound:
  assumes "capacity_entry d sk c = Inr e"
  shows "entry_sound e" "ce_path e = Manifest_file sk c" "ce_key e = EntryKey sk c"
proof -
  show "entry_sound e"
    using assms unfolding capacity_entry_def Let_def
    by (rule entry_of_sound)
       (auto simp: bindE_Inr check_key_def EntryKey_def split: if_splits dest: capacity_objects_sound)
  show "ce_path e = Manifest_file sk c" "ce_key e = EntryKey sk c"
    using assms entry_of_Inr(1) by (auto simp: capacity_entry_def Let_def)
qed

lemma plain_alias_entry_sound:
  assumes "plain_alias_entry d sk c = Inr e"
  shows "entry_sound e" "ce_path e = Alias_file sk c"
    "ce_key e = (EntryKey sk c)\<lparr>ek_root_kind := ''prefix_alias''\<rparr>"
proof -
  show "entry_sound e"
    using assms unfolding plain_alias_entry_def Let_def
    by (rule entry_of_sound)
       (auto simp: bindE_Inr EntryKey_def split: prod.splits
         dest!: validate_manifest_named read_chain_seen alias_root_key)
  show "ce_path e = Alias_file sk c" "ce_key e = (EntryKey sk c)\<lparr>ek_root_kind := ''prefix_alias''\<rparr>"
    using assms entry_of_Inr(1) by (auto simp: plain_alias_entry_def Let_def)
qed

lemma mapE_mem: "mapE f xs = Inr ys \<Longrightarrow> y \<in> set ys \<longleftrightarrow> (\<exists>x\<in>set xs. f x = Inr y)"
  by (induction xs arbitrary: ys) (auto simp: bindE_Inr)

lemma set_listed_in [simp]: "set (listed_in P d) = {f \<in> set (d_files d). P f}"
  by (auto simp: listed_in_def)

lemma manifest_names_mem: "(s, c) \<in> set (manifest_names fs) \<longleftrightarrow> Named (Manifest_file s c) \<in> set fs"
  by (induction fs rule: manifest_names.induct) auto

lemma alias_names_mem: "(s, c) \<in> set (alias_names fs) \<longleftrightarrow> Named (Alias_file s c) \<in> set fs"
  by (induction fs rule: alias_names.induct) auto

lemma inventory_parts:
  assumes "take_inventory d = Inr v"
  shows "e \<in> set (iv_entries v) \<longleftrightarrow>
      (\<exists>s c. Named (Manifest_file s c) \<in> set (d_files d) \<and> capacity_entry d s c = Inr e)
      \<or> (\<exists>s c. Named (Alias_file s c) \<in> set (d_files d) \<and> plain_alias_entry d s c = Inr e)"
    and "set (iv_debris v) = {f \<in> set (d_files d). (in_manifests (file_directory f) \<or> in_aliases (file_directory f))
      \<and> \<not> is_manifest_file f \<and> \<not> is_alias_file f}"
    and "set (iv_segments v) = {f \<in> set (d_files d). in_index (file_directory f)}"
    and "set (iv_chunks v) = {f \<in> set (d_files d). file_directory f = Chunks}"
proof -
  obtain roots aliases where parts:
    "mapE (\<lambda>(s, c). capacity_entry d s c) (manifest_names (listed_in is_manifest_file d)) = Inr roots"
    "mapE (\<lambda>(s, c). plain_alias_entry d s c) (alias_names (listed_in is_alias_file d)) = Inr aliases"
    "iv_entries v = roots @ aliases"
    and fields: "iv_debris v = listed_in (\<lambda>f. in_manifests (file_directory f) \<and> \<not> is_manifest_file f) d
            @ listed_in (\<lambda>f. in_aliases (file_directory f) \<and> \<not> is_alias_file f) d"
     "iv_segments v = listed_in (\<lambda>f. in_index (file_directory f)) d"
     "iv_chunks v = listed_in (\<lambda>f. file_directory f = Chunks) d"
    using assms by (auto simp: take_inventory_def bindE_Inr alias_entries_plain)
  show "e \<in> set (iv_entries v) \<longleftrightarrow>
      (\<exists>s c. Named (Manifest_file s c) \<in> set (d_files d) \<and> capacity_entry d s c = Inr e)
      \<or> (\<exists>s c. Named (Alias_file s c) \<in> set (d_files d) \<and> plain_alias_entry d s c = Inr e)"
    unfolding parts(3) set_append Un_iff mapE_mem [OF parts(1)] mapE_mem [OF parts(2)]
    by (simp only: Bex_def split_paired_Ex prod.case manifest_names_mem alias_names_mem set_listed_in
        mem_Collect_eq is_manifest_file.simps is_alias_file.simps simp_thms)
  have "in_aliases (file_directory f) \<Longrightarrow> \<not> is_manifest_file f" "in_manifests (file_directory f) \<Longrightarrow> \<not> is_alias_file f" for f
    by (cases f rule: is_manifest_file.cases; simp)+
  then show "set (iv_debris v) = {f \<in> set (d_files d). (in_manifests (file_directory f) \<or> in_aliases (file_directory f))
      \<and> \<not> is_manifest_file f \<and> \<not> is_alias_file f}"
    by (auto simp: fields)
  show "set (iv_segments v) = {f \<in> set (d_files d). in_index (file_directory f)}"
    "set (iv_chunks v) = {f \<in> set (d_files d). file_directory f = Chunks}"
    by (simp_all add: fields)
qed

lemma inventory_entry:
  assumes "take_inventory d = Inr v" "e \<in> set (iv_entries v)"
  shows "entry_sound e" "Named (ce_path e) \<in> set (d_files d)" "\<exists>s. parent (ce_path e) \<in> {Manifests s, Aliases s}"
    "e' \<in> set (iv_entries v) \<Longrightarrow> ce_path e' = ce_path e \<Longrightarrow> e' = e"
  using assms(2) capacity_entry_sound plain_alias_entry_sound
  unfolding inventory_parts(1) [OF assms(1)] by (force, force, force, fastforce)

section \<open>Deletion\<close>

text \<open>A file the pass leaves as it was.\<close>

definition untouched :: "listed \<Rightarrow> disk \<Rightarrow> disk \<Rightarrow> bool" where
  "untouched f d d' \<longleftrightarrow> (f \<in> set (d_files d') \<longleftrightarrow> f \<in> set (d_files d))
     \<and> (\<forall>p. f = Named p \<longrightarrow> files (d_store d') p = files (d_store d) p)"

lemma untouched_refl [simp]: "untouched f d d"
  by (simp add: untouched_def)

lemma untouched_trans: "untouched f d d' \<Longrightarrow> untouched f d' d'' \<Longrightarrow> untouched f d d''"
  by (auto simp: untouched_def)

lemma untouched_remove: "f \<noteq> g \<Longrightarrow> untouched f d (remove_file g d)"
  by (auto simp: untouched_def remove_file_def drop_file_def split: listed.split)

lemma admit_disk [simp]: "dl_disk (snd (admit_deletion p x)) = dl_disk x"
  by (simp add: admit_deletion_def)

text \<open>One file at a time: what is removed was in the list, and for a root nothing is removed silently.\<close>

lemma delete_files_Cons:
  obtains (skip) y where "delete_files p counts (f # fs) x = delete_files p counts fs y" "dl_disk y = dl_disk x"
  | (go) y where
    "delete_files p counts (f # fs) x =
       (if counts (d_unlink (dl_disk x) f) then f # fst (delete_files p counts fs y) else fst (delete_files p counts fs y),
        snd (delete_files p counts fs y))"
    "dl_disk y = (if d_unlink (dl_disk x) f = Refused then dl_disk x else remove_file f (dl_disk x))"
proof -
  obtain ok x1 where a: "admit_deletion p x = (ok, x1)" by fastforce
  have x1: "dl_disk x1 = dl_disk x" using admit_disk [of p x] a by simp
  let ?d = "if d_unlink (dl_disk x) f = Refused then dl_disk x else remove_file f (dl_disk x)"
  show ?thesis
  proof (cases ok)
    case True
    have "delete_files p counts (f # fs) x =
       (if counts (d_unlink (dl_disk x) f) then f # fst (delete_files p counts fs (x1\<lparr>dl_disk := ?d\<rparr>))
        else fst (delete_files p counts fs (x1\<lparr>dl_disk := ?d\<rparr>)),
        snd (delete_files p counts fs (x1\<lparr>dl_disk := ?d\<rparr>)))"
      using True by (simp add: a x1 unlink_file_def split: prod.split)
    then show ?thesis by (rule go) simp
  next
    case False
    then show ?thesis using skip [of x1] a x1 by simp
  qed
qed

declare delete_files.simps(2) [simp del]

lemma delete_files_untouched:
  "f \<notin> set fs \<Longrightarrow> untouched f (dl_disk x) (dl_disk (snd (delete_files p counts fs x)))"
proof (induction fs arbitrary: x)
  case (Cons g fs)
  then have IH: "untouched f (dl_disk y) (dl_disk (snd (delete_files p counts fs y)))" for y by simp
  show ?case
  proof (cases rule: delete_files_Cons [of p counts g fs x])
    case (skip y)
    then show ?thesis using IH [of y] by simp
  next
    case (go y)
    have "untouched f (dl_disk x) (dl_disk y)" using Cons.prems untouched_remove go(2) by simp
    then show ?thesis using IH [of y] go(1) untouched_trans by fastforce
  qed
qed simp

lemma delete_files_gone: "set (fst (delete_files p counts fs x)) \<subseteq> set fs"
proof (induction fs arbitrary: x)
  case (Cons g fs)
  show ?case by (cases rule: delete_files_Cons [of p counts g fs x]) (use Cons in \<open>auto split: if_splits\<close>)
qed simp

lemma delete_files_shrink:
  "set (d_files (dl_disk (snd (delete_files p counts fs x)))) \<subseteq> set (d_files (dl_disk x))
   \<and> d_unlink (dl_disk (snd (delete_files p counts fs x))) = d_unlink (dl_disk x)
   \<and> sync_fails (d_store (dl_disk (snd (delete_files p counts fs x)))) = sync_fails (d_store (dl_disk x))"
proof (induction fs arbitrary: x)
  case (Cons g fs)
  have r: "set (d_files (remove_file g d)) \<subseteq> set (d_files d)" "d_unlink (remove_file g d) = d_unlink d"
    "sync_fails (d_store (remove_file g d)) = sync_fails (d_store d)" for d
    by (auto simp: remove_file_def drop_file_def split: listed.split)
  show ?case
  proof (cases rule: delete_files_Cons [of p counts g fs x])
    case (skip y)
    then show ?thesis using Cons.IH [of y] by simp
  next
    case (go y)
    then show ?thesis using Cons.IH [of y] r [of "dl_disk x"] by (auto split: if_splits)
  qed
qed simp

text \<open>A root that is gone was counted; one that was not counted is as it was.\<close>

lemma delete_roots_gone:
  "f \<in> set (fst (delete_files p root_counts fs x)) \<Longrightarrow> f \<notin> set (d_files (dl_disk (snd (delete_files p root_counts fs x))))"
proof (induction fs arbitrary: x)
  case (Cons g fs)
  show ?case
  proof (cases rule: delete_files_Cons [of p root_counts g fs x])
    case (skip y)
    then show ?thesis using Cons by simp
  next
    case (go y)
    have counted: "root_counts (d_unlink (dl_disk x) g) \<longleftrightarrow> d_unlink (dl_disk x) g \<noteq> Refused"
      by (simp add: root_counts_def)
    have "f = g \<Longrightarrow> d_unlink (dl_disk x) g \<noteq> Refused \<Longrightarrow> f \<notin> set (d_files (dl_disk y))"
      using go(2) by (simp add: remove_file_def)
    then show ?thesis
      using Cons go(1) delete_files_shrink [of p root_counts fs y] by (auto simp: counted split: if_splits)
  qed
qed simp

lemma delete_roots_kept:
  "f \<notin> set (fst (delete_files p root_counts fs x)) \<Longrightarrow>
     untouched f (dl_disk x) (dl_disk (snd (delete_files p root_counts fs x)))"
proof (induction fs arbitrary: x)
  case (Cons g fs)
  show ?case
  proof (cases rule: delete_files_Cons [of p root_counts g fs x])
    case (skip y)
    then show ?thesis using Cons.IH [of y] Cons.prems by simp
  next
    case (go y)
    have counted: "root_counts (d_unlink (dl_disk x) g) \<longleftrightarrow> d_unlink (dl_disk x) g \<noteq> Refused"
      by (simp add: root_counts_def)
    have "untouched f (dl_disk x) (dl_disk y)"
      using go Cons.prems untouched_remove [of f g] by (auto simp: counted)
    then show ?thesis using Cons.IH [of y] Cons.prems go(1) untouched_trans by (fastforce split: if_splits)
  qed
qed simp

section \<open>What a pass keeps\<close>

lemma untouched_gone: "untouched f d d' \<Longrightarrow> f \<notin> set (d_files d) \<Longrightarrow> f \<notin> set (d_files d')"
  by (simp add: untouched_def)

lemma collect_untouched:
  assumes "collect p v s x0 = (res, x')" "f \<notin> set (iv_debris v)"
    and root: "f \<in> set (map (\<lambda>e. Named (ce_path e)) (sl_roots s)) \<Longrightarrow> f \<in> set (d_files (dl_disk x'))"
    and segment: "\<And>gone. \<forall>g\<in>set gone. g \<notin> set (d_files (dl_disk x')) \<Longrightarrow> f \<in> set (iv_segments v)
      \<Longrightarrow> segment_kept (segment_references (remaining_entries v gone)) f"
    and chunk: "\<And>gone. \<forall>g\<in>set gone. g \<notin> set (d_files (dl_disk x')) \<Longrightarrow> f \<in> set (iv_chunks v)
      \<Longrightarrow> chunk_kept (chunk_references (remaining_entries v gone)) f"
  shows "untouched f (dl_disk x0) (dl_disk x')"
proof -
  obtain debris x1 where d1: "delete_files p root_counts (iv_debris v) x0 = (debris, x1)" by fastforce
  let ?roots = "map (\<lambda>e. Named (ce_path e)) (sl_roots s)"
  obtain roots x2 where d2: "delete_files p root_counts ?roots x1 = (roots, x2)" by fastforce
  let ?segs = "filter (\<lambda>f. \<not> segment_kept (segment_references (remaining_entries v roots)) f) (iv_segments v)"
  obtain segments x3 where d3: "delete_files p object_counts ?segs x2 = (segments, x3)" by fastforce
  let ?chunks = "filter (\<lambda>f. \<not> chunk_kept (chunk_references (remaining_entries v roots)) f) (iv_chunks v)"
  obtain chunks x4 where d4: "delete_files p object_counts ?chunks x3 = (chunks, x4)" by fastforce
  have x': "x' = x2 \<or> x' = x3 \<or> x' = x4"
    using assms(1) by (auto simp: collect_def d1 d2 d3 d4 Let_def split: if_splits)
  have shrink: "set (d_files (dl_disk x3)) \<subseteq> set (d_files (dl_disk x2))"
    "set (d_files (dl_disk x4)) \<subseteq> set (d_files (dl_disk x3))"
    using delete_files_shrink [of p object_counts ?segs x2] delete_files_shrink [of p object_counts ?chunks x3] d3 d4
    by simp_all
  have roots_gone: "g \<notin> set (d_files (dl_disk x2))" if "g \<in> set roots" for g
    using delete_roots_gone [of g p ?roots x1] that d2 by simp
  then have gone: "\<forall>g\<in>set roots. g \<notin> set (d_files (dl_disk x'))" using x' shrink by blast
  have "untouched f (dl_disk x0) (dl_disk x1)"
    using delete_files_untouched [OF assms(2), of x0 p root_counts] d1 by simp
  moreover have "f \<notin> set roots"
  proof
    assume "f \<in> set roots"
    then have "f \<in> set ?roots" "f \<notin> set (d_files (dl_disk x'))"
      using delete_files_gone [of p root_counts ?roots x1] d2 gone by auto
    then show False using root by blast
  qed
  then have "untouched f (dl_disk x1) (dl_disk x2)" using delete_roots_kept [of f p ?roots x1] d2 by simp
  moreover have "f \<notin> set ?segs" "f \<notin> set ?chunks" using segment [OF gone] chunk [OF gone] by auto
  then have "untouched f (dl_disk x2) (dl_disk x3)" "untouched f (dl_disk x3) (dl_disk x4)"
    using delete_files_untouched [of f ?segs x2 p object_counts] delete_files_untouched [of f ?chunks x3 p object_counts]
      d3 d4 by simp_all
  ultimately show ?thesis using x' untouched_trans by metis
qed

lemma references_pos:
  "e \<in> set es \<Longrightarrow> c \<in> set (map fst (ce_chunks e)) \<Longrightarrow> 0 < chunk_references es c"
  "e \<in> set es \<Longrightarrow> g \<in> set (ce_segments e) \<Longrightarrow> 0 < segment_references es (ek_storage (ce_key e), g)"
proof -
  have pos: "c \<in> set xs \<Longrightarrow> 0 < count_list xs c" for c :: string and xs by (induction xs) auto
  have nonneg: "0 \<le> chunk_references es c" "0 \<le> segment_references es r" for es c r
    by (auto simp: chunk_references_def segment_references_def intro!: sum_list_nonneg)
  show "e \<in> set es \<Longrightarrow> c \<in> set (map fst (ce_chunks e)) \<Longrightarrow> 0 < chunk_references es c"
  proof (induction es)
    case (Cons x es)
    have "chunk_references (x # es) c = int (count_list (map fst (ce_chunks x)) c) + chunk_references es c"
      by (simp add: chunk_references_def)
    then show ?case using Cons pos nonneg(1) [of es c] by fastforce
  qed simp
  show "e \<in> set es \<Longrightarrow> g \<in> set (ce_segments e) \<Longrightarrow> 0 < segment_references es (ek_storage (ce_key e), g)"
  proof (induction es)
    case (Cons x es)
    have "segment_references (x # es) r = (if ek_storage (ce_key x) = fst r
        then int (count_list (ce_segments x) (snd r)) else 0) + segment_references es r" for r
      by (simp add: segment_references_def)
    from this [of "(ek_storage (ce_key e), g)"] show ?case
      using Cons pos [of g "ce_segments x"] nonneg(2) [of es "(ek_storage (ce_key e), g)"] by auto
  qed simp
qed

text \<open>The selection takes only roots of the inventory, and no valid protected one.\<close>

lemma release_roots [simp]:
  "sl_roots (release_chunk d v c s) = sl_roots s" "sl_roots (release_segment d v r s) = sl_roots s"
  by (simp_all add: release_chunk_def release_segment_def Let_def)

lemma fold_release_roots [simp]:
  "sl_roots (fold (\<lambda>(c, n). release_chunk d v c) cs s) = sl_roots s"
  "sl_roots (fold (\<lambda>g. release_segment d v (k, g)) gs s) = sl_roots s"
  by (induction cs arbitrary: s) (auto, induction gs arbitrary: s, auto)

definition selectable :: "inventory \<Rightarrow> entry_key list \<Rightarrow> root_entry set" where
  "selectable v protected = {e \<in> set (iv_entries v). \<not> (ce_valid e \<and> ce_key e \<in> set protected)}"

lemma select_root_selectable:
  "set (sl_roots s) \<subseteq> selectable v protected \<Longrightarrow> e \<in> set (iv_entries v)
    \<Longrightarrow> set (sl_roots (select_root d v p protected debt e s)) \<subseteq> selectable v protected"
  by (auto simp: select_root_def selectable_def)

lemma set_by_age [simp]: "set (by_age es) = set es"
  by (simp add: by_age_def)

lemma select_loops_selectable:
  "set es \<subseteq> set (iv_entries v) \<Longrightarrow> set (sl_roots s) \<subseteq> selectable v protected
    \<Longrightarrow> set (sl_roots (select_stale (select_root d v p protected debt) p now es s)) \<subseteq> selectable v protected"
  "set es \<subseteq> set (iv_entries v) \<Longrightarrow> set (sl_roots s) \<subseteq> selectable v protected
    \<Longrightarrow> set (sl_roots (select_pressure (select_root d v p protected debt) low es s)) \<subseteq> selectable v protected"
proof (induction es arbitrary: s)
  case (Cons e es)
  {
    case 1
    then show ?case using Cons.IH(1) select_root_selectable [of s v protected e] by auto
  next
    case 2
    then show ?case using Cons.IH(2) select_root_selectable [of s v protected e] by (auto simp: Let_def)
  }
qed auto

lemma select_roots_selectable:
  "set (sl_roots (select_roots d v p protected now pressure)) \<subseteq> selectable v protected"
  by (auto simp: select_roots_def Let_def dest!: select_loops_selectable [THEN subsetD, rotated -1])

lemma maintain_cases:
  assumes "maintain p now protected busy clock clock_end (m, d) = (res, (m', d'))"
  obtains (idle) "d' = d"
  | (pass) v pressure r x' where "take_inventory d = Inr v"
    "collect p v (select_roots d v p protected now pressure)
       \<lparr>dl_attempts = 0, dl_pending = sl_pending (select_roots d v p protected now pressure), dl_disk = d\<rparr> = (r, x')"
    "d' = dl_disk x'"
proof (cases "policy_enabled p \<and> \<not> busy \<and> \<not> clock < not_before m")
  case True
  then obtain m2 where l: "maintain_locked p now protected (m, d) = (res, (m2, d'))"
    using assms by (auto simp: maintain_def split: prod.splits)
  show ?thesis
  proof (cases "take_inventory d")
    case (Inl e)
    then show ?thesis using l idle by (simp add: maintain_locked_def)
  next
    case (Inr v)
    let ?pressure = "max_bytes p > 0 \<and> (inventory_bytes d v > max_bytes p
       \<or> (maintenance_max_deletions p > 0 \<and> pressure_target m = Some (max_bytes p, low_watermark_bytes p)
          \<and> inventory_bytes d v > low_watermark_bytes p))"
    obtain r x' where c: "collect p v (select_roots d v p protected now ?pressure)
       \<lparr>dl_attempts = 0, dl_pending = sl_pending (select_roots d v p protected now ?pressure), dl_disk = d\<rparr> = (r, x')"
      by fastforce
    have "d' = dl_disk x'"
      using l Inr c by (cases r) (simp_all add: maintain_locked_def Let_def)
    then show ?thesis using pass [OF Inr c] by blast
  qed
next
  case False
  then show ?thesis using assms idle by (auto simp: maintain_def split: if_splits)
qed

lemma entry_objects_kept:
  assumes "take_inventory d = Inr v" "e \<in> set (iv_entries v)"
    and "maintain p now protected busy clock clock_end (m, d) = (res, (m', d'))"
    and "Named (ce_path e) \<in> set (d_files d')"
  shows "untouched (Named (ce_path e)) d d'
    \<and> (\<forall>c\<in>set (map fst (ce_chunks e)). untouched (Named (Chunk_file c)) d d')
    \<and> (\<forall>g\<in>set (ce_segments e). untouched (Named (Segment_file (ek_storage (ce_key e)) g)) d d')"
  using assms(3)
proof (cases rule: maintain_cases)
  case (pass v' pressure r x')
  then have v: "v' = v" using assms(1) by simp
  let ?s = "select_roots d v p protected now pressure"
  note collect = pass(2) [unfolded v]
  have d': "d' = dl_disk x'" by (rule pass(3))
  have roots: "set (sl_roots ?s) \<subseteq> set (iv_entries v)"
    using select_roots_selectable [of d v p protected now pressure] by (auto simp: selectable_def)
  have root_dir: "\<exists>s. parent (ce_path x) \<in> {Manifests s, Aliases s}" if "x \<in> set (iv_entries v)" for x
    using inventory_entry(3) [OF assms(1) that] .
  have no_root: "Named q \<notin> (\<lambda>e. Named (ce_path e)) ` set (sl_roots ?s)" if "\<And>s. parent q \<noteq> Manifests s" "\<And>s. parent q \<noteq> Aliases s" for q
  proof
    assume "Named q \<in> (\<lambda>e. Named (ce_path e)) ` set (sl_roots ?s)"
    then obtain x where x: "x \<in> set (iv_entries v)" "q = ce_path x" using roots by blast
    show False using root_dir [OF x(1)] x(2) that by auto
  qed
  have stays: "e \<in> set (remaining_entries v gone)" if "\<forall>g\<in>set gone. g \<notin> set (d_files (dl_disk x'))" for gone
    using that assms(2,4) d' by (auto simp: remaining_entries_def)
  have sound: "entry_sound e" by (rule inventory_entry(1) [OF assms(1,2)])
  have debris: "f \<notin> set (iv_debris v)" if "is_manifest_file f \<or> is_alias_file f \<or> file_directory f = Chunks \<or> in_index (file_directory f)" for f
    using that by (cases "file_directory f") (auto simp: inventory_parts(2) [OF assms(1)])
  have key: "is_manifest_file (Named (ce_path e)) \<or> is_alias_file (Named (ce_path e))"
    using assms(2) capacity_entry_sound(2) plain_alias_entry_sound(2)
    unfolding inventory_parts(1) [OF assms(1)] by fastforce
  have "untouched (Named (ce_path e)) d (dl_disk x')"
  proof (rule collect_untouched [OF collect, simplified])
    show "Named (ce_path e) \<notin> set (iv_debris v)" using debris key by blast
    show "Named (ce_path e) \<in> set (d_files (dl_disk x'))" using assms(4) d' by simp
    show "segment_kept (segment_references (remaining_entries v gone)) (Named (ce_path e))"
      if "Named (ce_path e) \<in> set (iv_segments v)" for gone
      using that root_dir [OF assms(2)] by (auto simp: inventory_parts(3) [OF assms(1)])
    show "chunk_kept (chunk_references (remaining_entries v gone)) (Named (ce_path e))"
      if "Named (ce_path e) \<in> set (iv_chunks v)" for gone
      using that root_dir [OF assms(2)] by (auto simp: inventory_parts(4) [OF assms(1)])
  qed
  moreover have "untouched (Named (Chunk_file c)) d (dl_disk x')" if c: "c \<in> set (map fst (ce_chunks e))" for c
  proof (rule collect_untouched [OF collect, simplified])
    show "Named (Chunk_file c) \<notin> set (iv_debris v)" by (rule debris) simp
    show "Named (Chunk_file c) \<in> set (d_files (dl_disk x'))" if "Named (Chunk_file c) \<in> (\<lambda>e. Named (ce_path e)) ` set (sl_roots ?s)"
      using that no_root by simp
    show "segment_kept (segment_references (remaining_entries v gone)) (Named (Chunk_file c))"
      if "Named (Chunk_file c) \<in> set (iv_segments v)" for gone
      using that by (simp add: inventory_parts(3) [OF assms(1)])
    show "chunk_kept (chunk_references (remaining_entries v gone)) (Named (Chunk_file c))"
      if "\<forall>g\<in>set gone. g \<notin> set (d_files (dl_disk x'))" for gone
      using references_pos(1) [OF stays [OF that] c] sound c by (auto simp: entry_sound_def)
  qed
  moreover have "untouched (Named (Segment_file (ek_storage (ce_key e)) g)) d (dl_disk x')"
    if g: "g \<in> set (ce_segments e)" for g
  proof (rule collect_untouched [OF collect, simplified])
    show "Named (Segment_file (ek_storage (ce_key e)) g) \<notin> set (iv_debris v)" by (rule debris) simp
    show "Named (Segment_file (ek_storage (ce_key e)) g) \<in> set (d_files (dl_disk x'))"
      if "Named (Segment_file (ek_storage (ce_key e)) g) \<in> (\<lambda>e. Named (ce_path e)) ` set (sl_roots ?s)"
      using that no_root by simp
    show "segment_kept (segment_references (remaining_entries v gone)) (Named (Segment_file (ek_storage (ce_key e)) g))"
      if "\<forall>g\<in>set gone. g \<notin> set (d_files (dl_disk x'))" for gone
      using references_pos(2) [OF stays [OF that] g] sound g by (auto simp: entry_sound_def)
    show "chunk_kept (chunk_references (remaining_entries v gone)) (Named (Segment_file (ek_storage (ce_key e)) g))"
      if "Named (Segment_file (ek_storage (ce_key e)) g) \<in> set (iv_chunks v)" for gone
      using that by (simp add: inventory_parts(4) [OF assms(1)])
  qed
  ultimately show ?thesis using d' by blast
qed simp

lemma protected_root_kept:
  assumes "take_inventory d = Inr v" "e \<in> set (iv_entries v)" "ce_valid e" "ce_key e \<in> set protected"
    and "maintain p now protected busy clock clock_end (m, d) = (res, (m', d'))"
  shows "Named (ce_path e) \<in> set (d_files d')"
  using assms(5)
proof (cases rule: maintain_cases)
  case idle
  then show ?thesis using inventory_entry(2) [OF assms(1,2)] by simp
next
  case (pass v' pressure r x')
  then have v: "v' = v" using assms(1) by simp
  have dir: "\<exists>s. parent (ce_path e) \<in> {Manifests s, Aliases s}" by (rule inventory_entry(3) [OF assms(1,2)])
  have "untouched (Named (ce_path e)) d (dl_disk x')"
  proof (rule collect_untouched [OF pass(2) [unfolded v], simplified])
    show "Named (ce_path e) \<notin> set (iv_debris v)"
      using assms(2) capacity_entry_sound(2) plain_alias_entry_sound(2)
      unfolding inventory_parts(1,2) [OF assms(1)] by fastforce
    have "ce_path e \<notin> ce_path ` set (sl_roots (select_roots d v p protected now pressure))"
    proof
      assume sel: "ce_path e \<in> ce_path ` set (sl_roots (select_roots d v p protected now pressure))"
      obtain x where x: "x \<in> selectable v protected" "ce_path x = ce_path e"
        using sel select_roots_selectable [of d v p protected now pressure] by fastforce
      then have "x = e" using inventory_entry(4) [OF assms(1,2)] by (auto simp: selectable_def)
      then show False using x(1) assms(3,4) by (simp add: selectable_def)
    qed
    then show "Named (ce_path e) \<in> set (d_files (dl_disk x'))"
      if "Named (ce_path e) \<in> (\<lambda>e. Named (ce_path e)) ` set (sl_roots (select_roots d v p protected now pressure))"
      using that by blast
    show "segment_kept (segment_references (remaining_entries v gone)) (Named (ce_path e))"
      if "Named (ce_path e) \<in> set (iv_segments v)" for gone
      using that dir by (auto simp: inventory_parts(3) [OF assms(1)])
    show "chunk_kept (chunk_references (remaining_entries v gone)) (Named (ce_path e))"
      if "Named (ce_path e) \<in> set (iv_chunks v)" for gone
      using that dir by (auto simp: inventory_parts(4) [OF assms(1)])
  qed
  then show ?thesis using pass(3) inventory_entry(2) [OF assms(1,2)] by (simp add: untouched_def)
qed

section \<open>Entries on disk\<close>

lemma validate_manifest_any:
  assumes "validate_manifest_metadata v key (Some i) = Inr ds"
  shows "validate_manifest_metadata v key None = Inr ds"
  using assms unfolding validate_manifest_metadata_def success_iff the_Some by blast

lemma capacity_chunks_ok:
  assumes "length bs = length cs" "\<forall>b\<in>set bs. \<forall>n. map_of acc (sha256 b) = Some n \<longrightarrow> n = int (length b)"
    and "\<forall>b\<in>set bs. \<forall>b'\<in>set bs. sha256 b = sha256 b' \<longrightarrow> b = b'"
  shows "\<exists>r. capacity_chunks acc (map2 read_descriptor bs cs) = Inr r
    \<and> fst ` set r = fst ` set acc \<union> sha256 ` set bs"
  using assms
proof (induction bs cs arbitrary: acc rule: list_induct2)
  case (Cons b bs c cs)
  have get: "descriptor_name (read_descriptor b c) = sha256 b" "descriptor_bytes (read_descriptor b c) = int (length b)"
    by (simp_all add: descriptor_name_def descriptor_bytes_def read_descriptor_def)
  show ?case
  proof (cases "map_of acc (sha256 b)")
    case None
    have "map_of (acc @ [(sha256 b, int (length b))]) (sha256 x) = Some n \<Longrightarrow> n = int (length x)" if "x \<in> set bs" for x n
      using Cons.prems that by (auto simp: map_add_def split: option.splits if_splits)
    then show ?thesis using Cons.IH [of "acc @ [(sha256 b, int (length b))]"] Cons.prems(2) None get
      by (auto simp: Let_def)
  next
    case (Some n)
    then have n: "n = int (length b)" using Cons.prems(1) by simp
    have "sha256 b \<in> fst ` set acc" using map_of_SomeD [OF Some] by force
    then have "insert (sha256 b) (fst ` set acc \<union> sha256 ` set bs) = fst ` set acc \<union> sha256 ` set bs" by blast
    then show ?thesis using Cons.IH [of acc] Cons.prems n Some get by (simp add: Let_def)
  qed
qed simp

lemma capacity_entry_on_disk:
  assumes "entry_on_disk i c cs bs n (d_store d)"
  shows "\<exists>e. capacity_entry d (storage_key i) c = Inr e \<and> ce_valid e \<and> ce_key e = EntryKey (storage_key i) c
    \<and> ce_path e = manifest_path i c \<and> set (map fst (ce_chunks e)) = sha256 ` set bs \<and> ce_segments e = []"
proof -
  note a = assms [unfolded entry_on_disk_def]
  obtain m where m: "read_json (canonical_json (row_manifest i c bs cs n)) = Inr m"
    using read_row_manifest by blast
  let ?key = "EntryKey (storage_key i) c" and ?ds = "map2 read_descriptor bs cs"
  have "validate_manifest_metadata m ?key (Some i) = Inr ?ds"
    using a by (intro validate_read_manifest [OF _ _ _ _ m]) simp_all
  then have "validate_manifest_metadata m ?key None = Inr ?ds" by (rule validate_manifest_any)
  then have objects: "capacity_objects (d_store d) m ?key = Inr (?ds, [])"
    using m [unfolded read_row_manifest] by (auto simp: capacity_objects_def graph_schema_def simp del: map_map)
  have "b = b'" if "b \<in> set bs" "b' \<in> set bs" "sha256 b = sha256 b'" for b b'
    using a that by (auto simp: has_chunks_def) (metis stored.inject)
  moreover have "length bs = length cs" using a mapE_length [of encode_chunk cs bs] by simp
  ultimately obtain r where r: "capacity_chunks [] ?ds = Inr r" "fst ` set r = sha256 ` set bs"
    using capacity_chunks_ok [of bs cs "[]"] by auto
  have key: "check_key ?key = Inr ()" using a sha256_digest by (simp add: check_key_def EntryKey_def storage_key_def)
  have raw: "read_bytes (Manifest_file (storage_key i) c) (d_store d) = Inr (canonical_json (row_manifest i c bs cs n))"
    using a by (simp add: read_bytes_def manifest_path_def)
  show ?thesis
    using key raw m objects r by (auto simp: capacity_entry_def Let_def entry_of_def manifest_path_def)
qed

lemma entry_on_disk_untouched:
  assumes "entry_on_disk i c cs bs n (d_store d)" "untouched (Named (manifest_path i c)) d d'"
    and "\<forall>b\<in>set bs. untouched (Named (Chunk_file (sha256 b))) d d'"
  shows "entry_on_disk i c cs bs n (d_store d')"
  using assms by (auto simp: entry_on_disk_def has_chunks_def untouched_def)

text \<open>A disk with one committed entry.\<close>

definition demo_disk :: "store \<Rightarrow> disk" where
  "demo_disk s = \<lparr>d_store = s, d_files = [Named (manifest_path demo_identity (sha256 ''context''))],
     d_stat = (\<lambda>_. \<lparr>st_size = 1, st_blocks = 0, st_mtime = 0\<rparr>), d_unlink = (\<lambda>_. Unlinked)\<rparr>"

definition demo_policy :: capacity_policy where
  "demo_policy = \<lparr>max_bytes = 2, low_watermark_bytes = 1, ttl_seconds = 1, maintenance_max_deletions = 1,
     maintenance_interval_ms = 0\<rparr>"

lemma demo_inventory:
  assumes "entry_on_disk demo_identity (sha256 ''context'') cs bs n s"
  shows "\<exists>v e. take_inventory (demo_disk s) = Inr v \<and> e \<in> set (iv_entries v) \<and> ce_valid e
    \<and> ce_key e = EntryKey (storage_key demo_identity) (sha256 ''context'')"
proof -
  obtain e where e: "capacity_entry (demo_disk s) (storage_key demo_identity) (sha256 ''context'') = Inr e"
    "ce_valid e" "ce_key e = EntryKey (storage_key demo_identity) (sha256 ''context'')"
    using capacity_entry_on_disk [of demo_identity "sha256 ''context''" cs bs n "demo_disk s"] assms
    by (auto simp: demo_disk_def)
  have "listed_in is_manifest_file (demo_disk s) = [Named (Manifest_file (storage_key demo_identity) (sha256 ''context''))]"
    "listed_in is_alias_file (demo_disk s) = []"
    by (simp_all add: listed_in_def demo_disk_def manifest_path_def)
  then show ?thesis using e by (auto simp: take_inventory_def)
qed

text \<open>C24: Maintenance never takes an object away from a root it leaves: whatever the policy, the clock and
  the refusals of the file system, and wherever the pass stops, if the root of an inventoried entry is
  still there afterwards then it, every chunk and every segment it refers to are as they were.\<close>

theorem maintenance_keeps_referenced:
  assumes "take_inventory d = Inr v" "e \<in> set (iv_entries v)"
    and "maintain p now protected busy clock clock_end (m, d) = (res, (m', d'))"
    and "Named (ce_path e) \<in> set (d_files d')"
  shows "untouched (Named (ce_path e)) d d'
    \<and> (\<forall>c\<in>set (map fst (ce_chunks e)). untouched (Named (Chunk_file c)) d d')
    \<and> (\<forall>g\<in>set (ce_segments e). untouched (Named (Segment_file (ek_storage (ce_key e)) g)) d d')"
  using assms by (rule entry_objects_kept)

theorem maintenance_keeps_referenced_witness:
  "\<exists>s v e r m' d'. take_inventory (demo_disk s) = Inr v \<and> e \<in> set (iv_entries v)
    \<and> maintain demo_policy (10 ^ 20) [ce_key e] False 0 0 (\<lparr>not_before = 0, pressure_target = None\<rparr>, demo_disk s)
        = (r, (m', d'))
    \<and> untouched (Named (ce_path e)) (demo_disk s) d'"
proof -
  obtain b s where e: "entry_on_disk demo_identity (sha256 ''context'') [demo_chunk 0 3] [b] 3 s"
    using demo_entry by blast
  obtain v x where x: "take_inventory (demo_disk s) = Inr v" "x \<in> set (iv_entries v)" "ce_valid x"
    using demo_inventory [OF e] by blast
  obtain r m' d' where r: "maintain demo_policy (10 ^ 20) [ce_key x] False 0 0
      (\<lparr>not_before = 0, pressure_target = None\<rparr>, demo_disk s) = (r, (m', d'))"
    by (metis prod.exhaust)
  have "Named (ce_path x) \<in> set (d_files d')" by (rule protected_root_kept [OF x _ r]) simp
  from maintenance_keeps_referenced [OF x(1,2) r this] x r show ?thesis by blast
qed

text \<open>C25: A committed entry that the caller protects outlives any maintenance pass in full: afterwards every
  lookup still hits and restore still returns exactly the committed chunks, however old the entry is
  and however far the store is over its budget.\<close>

theorem protected_entry_restores:
  assumes "entry_on_disk i c cs bs n (d_store d)" "Named (manifest_path i c) \<in> set (d_files d)"
    and "EntryKey (storage_key i) c \<in> set protected"
    and "maintain p now protected busy clock clock_end (m, d) = (res, (m', d'))"
  shows "\<exists>r. lookup i c verify meta mode (d_store d') = Inr r \<and> is_hit r \<and> restore r (d_store d') = Inr (Some cs)"
proof -
  have "entry_on_disk i c cs bs n (d_store d')"
  proof (cases "take_inventory d")
    case (Inr v)
    obtain e where e: "capacity_entry d (storage_key i) c = Inr e" "ce_valid e" "ce_key e = EntryKey (storage_key i) c"
      "ce_path e = manifest_path i c" "set (map fst (ce_chunks e)) = sha256 ` set bs"
      using capacity_entry_on_disk [OF assms(1)] by blast
    have mem: "e \<in> set (iv_entries v)"
      using e(1) assms(2) by (auto simp: inventory_parts(1) [OF Inr] manifest_path_def)
    have "Named (ce_path e) \<in> set (d_files d')"
      by (rule protected_root_kept [OF Inr mem e(2) _ assms(4)]) (simp add: e(3) assms(3))
    from entry_objects_kept [OF Inr mem assms(4) this] show ?thesis
      by (intro entry_on_disk_untouched [OF assms(1)]) (simp_all add: e(4,5) del: set_map)
  next
    case (Inl x)
    from assms(4) have "d' = d"
      by (cases rule: maintain_cases) (simp_all add: Inl)
    then show ?thesis using assms(1) by simp
  qed
  from lookup_on_disk [OF this, of verify meta mode] show ?thesis by blast
qed

theorem protected_entry_restores_witness:
  "\<exists>s res m' d' r. maintain demo_policy (10 ^ 20) [EntryKey (storage_key demo_identity) (sha256 ''context'')]
       False 0 0 (\<lparr>not_before = 0, pressure_target = None\<rparr>, demo_disk s) = (res, (m', d'))
    \<and> lookup demo_identity (sha256 ''context'') True True None (d_store d') = Inr r \<and> is_hit r
    \<and> restore r (d_store d') = Inr (Some [demo_chunk 0 3])"
proof -
  obtain b s where e: "entry_on_disk demo_identity (sha256 ''context'') [demo_chunk 0 3] [b] 3 s"
    using demo_entry by blast
  obtain res m' d' where r: "maintain demo_policy (10 ^ 20) [EntryKey (storage_key demo_identity) (sha256 ''context'')]
       False 0 0 (\<lparr>not_before = 0, pressure_target = None\<rparr>, demo_disk s) = (res, (m', d'))"
    by (metis prod.exhaust)
  have "entry_on_disk demo_identity (sha256 ''context'') [demo_chunk 0 3] [b] 3 (d_store (demo_disk s))"
    "Named (manifest_path demo_identity (sha256 ''context'')) \<in> set (d_files (demo_disk s))"
    "EntryKey (storage_key demo_identity) (sha256 ''context'')
       \<in> set [EntryKey (storage_key demo_identity) (sha256 ''context'')]"
    using e by (simp_all add: demo_disk_def)
  from protected_entry_restores [OF this r, of True True None] r show ?thesis by blast
qed

end
