(* ===== verification/Capacity_Reclaim.thy ===== *)
theory Capacity_Reclaim
  imports Capacity_Laws
begin

text \<open>
  How much a maintenance pass takes away: never more unlink calls than its budget, and, without a
  budget on a file system that refuses nothing, every orphan, every invalid or expired root, and as
  many of the oldest roots as the low watermark asks for. The projection that the selection works
  with is exactly what the deletions then leave.
\<close>

section \<open>The budget\<close>

definition within_budget :: "capacity_policy \<Rightarrow> deletions \<Rightarrow> deletions \<Rightarrow> bool" where
  "within_budget p x y \<longleftrightarrow>
     (0 < maintenance_max_deletions p \<longrightarrow> dl_attempts x \<le> maintenance_max_deletions p
        \<longrightarrow> dl_attempts y \<le> maintenance_max_deletions p)
     \<and> set (d_files (dl_disk y)) \<subseteq> set (d_files (dl_disk x))
     \<and> int (card (set (d_files (dl_disk x)) - set (d_files (dl_disk y)))) \<le> dl_attempts y - dl_attempts x"

lemma within_budget_refl [simp]: "within_budget p x x"
  by (simp add: within_budget_def)

lemma within_budget_trans:
  assumes "within_budget p x y" "within_budget p y z" shows "within_budget p x z"
proof -
  let ?f = "\<lambda>x. set (d_files (dl_disk x))"
  have "?f x - ?f z = (?f x - ?f y) \<union> (?f y - ?f z)" using assms by (auto simp: within_budget_def)
  then have "card (?f x - ?f z) \<le> card (?f x - ?f y) + card (?f y - ?f z)" by (simp add: card_Un_le)
  then show ?thesis using assms by (auto simp: within_budget_def)
qed

lemma delete_files_budget: "within_budget p x (snd (delete_files p counts fs x))"
proof (induction fs arbitrary: x)
  case (Cons f fs)
  obtain ok x1 where a: "admit_deletion p x = (ok, x1)" by fastforce
  show ?case
  proof (cases ok)
    case False
    then have "within_budget p x x1" using a by (auto simp: admit_deletion_def within_budget_def split: if_splits)
    then show ?thesis using Cons.IH [of x1] False a within_budget_trans by (auto simp: delete_files.simps(2))
  next
    case True
    let ?d = "if d_unlink (dl_disk x) f = Refused then dl_disk x else remove_file f (dl_disk x)"
    have "set (d_files (dl_disk x)) - set (d_files ?d) \<subseteq> {f}" by (auto simp: remove_file_def)
    then have "card (set (d_files (dl_disk x)) - set (d_files ?d)) \<le> 1"
      using card_mono [of "{f}"] by fastforce
    then have "within_budget p x (x1\<lparr>dl_disk := ?d\<rparr>)"
      using a True by (auto simp: admit_deletion_def within_budget_def remove_file_def split: if_splits)
    then have "within_budget p x (snd (delete_files p counts fs (x1\<lparr>dl_disk := ?d\<rparr>)))"
      using Cons.IH within_budget_trans by blast
    moreover have "dl_disk x1 = dl_disk x" using admit_disk [of p x] a by simp
    ultimately show ?thesis using a True by (cases "d_unlink (dl_disk x) f = Refused") (auto simp: delete_files.simps(2) unlink_file_def split: prod.split)
  qed
qed simp

lemma collect_budget:
  assumes "collect p v s x0 = (res, x')" shows "within_budget p x0 x'"
proof -
  obtain debris x1 where d1: "delete_files p root_counts (iv_debris v) x0 = (debris, x1)" by fastforce
  let ?roots = "map (\<lambda>e. Named (ce_path e)) (sl_roots s)"
  obtain roots x2 where d2: "delete_files p root_counts ?roots x1 = (roots, x2)" by fastforce
  let ?segs = "filter (\<lambda>f. \<not> segment_kept (segment_references (remaining_entries v roots)) f) (iv_segments v)"
  obtain segments x3 where d3: "delete_files p object_counts ?segs x2 = (segments, x3)" by fastforce
  let ?chunks = "filter (\<lambda>f. \<not> chunk_kept (chunk_references (remaining_entries v roots)) f) (iv_chunks v)"
  obtain chunks x4 where d4: "delete_files p object_counts ?chunks x3 = (chunks, x4)" by fastforce
  have "within_budget p x0 x1" "within_budget p x1 x2" "within_budget p x2 x3" "within_budget p x3 x4"
    using delete_files_budget [of p x0 root_counts "iv_debris v"] delete_files_budget [of p x1 root_counts ?roots]
      delete_files_budget [of p x2 object_counts ?segs] delete_files_budget [of p x3 object_counts ?chunks]
      d1 d2 d3 d4 by simp_all
  moreover have "x' = x2 \<or> x' = x3 \<or> x' = x4"
    using assms by (auto simp: collect_def d1 d2 d3 d4 Let_def split: if_splits)
  ultimately show ?thesis using within_budget_trans by blast
qed

lemma maintain_report:
  assumes "maintain p now protected busy clock clock_end (m, d) = (Inr rep, (m', d'))"
    and "policy_enabled p" "\<not> busy" "not_before m \<le> clock"
  obtains v pressure c x' where "take_inventory d = Inr v"
    "pressure = (max_bytes p > 0 \<and> (inventory_bytes d v > max_bytes p
       \<or> (maintenance_max_deletions p > 0 \<and> pressure_target m = Some (max_bytes p, low_watermark_bytes p)
          \<and> inventory_bytes d v > low_watermark_bytes p)))"
    "collect p v (select_roots d v p protected now pressure)
       \<lparr>dl_attempts = 0, dl_pending = sl_pending (select_roots d v p protected now pressure), dl_disk = d\<rparr> = (Inr c, x')"
    "d' = dl_disk x'" "deletion_attempts rep = dl_attempts x'" "bytes_before rep = inventory_bytes d v"
    "bytes_after rep = max 0 (inventory_bytes d v - total_bytes d (cl_debris c) - sum_list (map ce_bytes (cl_removed c))
       - total_bytes d (cl_segments c) - total_bytes d (cl_chunks c))"
    "capacity_satisfied rep = (max_bytes p = 0 \<or> bytes_after rep \<le> max_bytes p)"
    "work_pending rep = (dl_pending x' \<or> pressure \<and> maintenance_max_deletions p > 0
       \<and> bytes_after rep > low_watermark_bytes p)"
proof -
  obtain m2 where l: "maintain_locked p now protected (m, d) = (Inr rep, (m2, d'))"
    using assms by (auto simp: maintain_def split: prod.splits)
  obtain v where v: "take_inventory d = Inr v"
    using l by (cases "take_inventory d") (auto simp: maintain_locked_def)
  define pressure where "pressure = (max_bytes p > 0 \<and> (inventory_bytes d v > max_bytes p
       \<or> (maintenance_max_deletions p > 0 \<and> pressure_target m = Some (max_bytes p, low_watermark_bytes p)
          \<and> inventory_bytes d v > low_watermark_bytes p)))"
  obtain r x' where c: "collect p v (select_roots d v p protected now pressure)
       \<lparr>dl_attempts = 0, dl_pending = sl_pending (select_roots d v p protected now pressure), dl_disk = d\<rparr> = (r, x')"
    by fastforce
  obtain cl where r: "r = Inr cl"
    using l c by (cases r) (simp_all add: maintain_locked_def Let_def v pressure_def)
  show ?thesis
    using l c r by (intro that [OF v pressure_def]) (auto simp: maintain_locked_def Let_def v pressure_def [symmetric])
qed

section \<open>Work that is left is reported\<close>

definition spared :: "entry_key list \<Rightarrow> root_entry \<Rightarrow> bool" where
  "spared protected e \<longleftrightarrow> ce_valid e \<and> ce_key e \<in> set protected"

text \<open>What became of a file: gone from the listing, or refused by the file system.\<close>

definition settled :: "disk \<Rightarrow> disk \<Rightarrow> listed \<Rightarrow> bool" where
  "settled d d' f \<longleftrightarrow> f \<notin> set (d_files d') \<or> d_unlink d f = Refused"

definition progress :: "listed list \<Rightarrow> deletions \<Rightarrow> deletions \<Rightarrow> bool" where
  "progress fs x y \<longleftrightarrow> (dl_pending x \<longrightarrow> dl_pending y) \<and> d_unlink (dl_disk y) = d_unlink (dl_disk x)
     \<and> sync_fails (d_store (dl_disk y)) = sync_fails (d_store (dl_disk x))
     \<and> set (d_files (dl_disk y)) \<subseteq> set (d_files (dl_disk x))
     \<and> (\<not> dl_pending y \<longrightarrow> (\<forall>f\<in>set fs. settled (dl_disk x) (dl_disk y) f))"

lemma progress_trans: "progress fs x y \<Longrightarrow> progress gs y z \<Longrightarrow> progress (fs @ gs) x z"
  unfolding progress_def settled_def by auto

lemma delete_files_progress: "progress fs x (snd (delete_files p counts fs x))"
proof (induction fs arbitrary: x)
  case (Cons f fs)
  obtain ok x1 where a: "admit_deletion p x = (ok, x1)" by fastforce
  show ?case
  proof (cases ok)
    case False
    then have "dl_pending x1" "dl_disk x1 = dl_disk x" using a by (auto simp: admit_deletion_def split: if_splits)
    moreover have "progress fs x1 (snd (delete_files p counts fs x1))" by (rule Cons.IH)
    moreover have "snd (delete_files p counts (f # fs) x) = snd (delete_files p counts fs x1)"
      using False a by (simp add: delete_files.simps(2))
    ultimately show ?thesis unfolding progress_def by simp
  next
    case True
    define y where "y = x1\<lparr>dl_disk := snd (unlink_file f (dl_disk x1))\<rparr>"
    have x1: "dl_pending x1 = dl_pending x" "dl_disk x1 = dl_disk x"
      using a True by (auto simp: admit_deletion_def split: if_splits)
    have "snd (delete_files p counts (f # fs) x) = snd (delete_files p counts fs y)"
      using True a by (simp add: delete_files.simps(2) unlink_file_def y_def split: prod.split)
    moreover have "progress [f] x y"
      by (auto simp: progress_def settled_def y_def x1 unlink_file_def remove_file_def drop_file_def split: listed.split)
    then have "progress ([f] @ fs) x (snd (delete_files p counts fs y))" using Cons.IH by (rule progress_trans)
    ultimately show ?thesis by simp
  qed
qed (simp add: progress_def)

text \<open>An object nobody refers to stays one when roots go.\<close>

lemma chunk_references_filter: "chunk_references (filter P es) c \<le> chunk_references es c"
  by (induction es) (simp_all add: chunk_references_def)

lemma segment_references_filter: "segment_references (filter P es) r \<le> segment_references es r"
  by (induction es) (simp_all add: segment_references_def)

lemma chunk_kept_filter: "chunk_kept (chunk_references (filter P es)) f \<Longrightarrow> chunk_kept (chunk_references es) f"
  by (elim chunk_kept.elims) (auto intro: order_less_le_trans [OF _ chunk_references_filter])

lemma segment_kept_filter:
  "segment_kept (segment_references (filter P es)) f \<Longrightarrow> segment_kept (segment_references es) f"
  by (elim segment_kept.elims) (auto intro: order_less_le_trans [OF _ segment_references_filter])

lemma collect_progress:
  assumes "collect p v s x0 = (Inr c, x')" "\<not> dl_pending x'"
  shows "f \<in> set (orphan_files v) \<or> (\<exists>e\<in>set (sl_roots s). f = Named (ce_path e))
      \<Longrightarrow> settled (dl_disk x0) (dl_disk x') f" "\<not> dl_pending x0"
proof -
  obtain debris x1 where d1: "delete_files p root_counts (iv_debris v) x0 = (debris, x1)" by fastforce
  let ?roots = "map (\<lambda>e. Named (ce_path e)) (sl_roots s)"
  obtain roots x2 where d2: "delete_files p root_counts ?roots x1 = (roots, x2)" by fastforce
  let ?segs = "filter (\<lambda>f. \<not> segment_kept (segment_references (remaining_entries v roots)) f) (iv_segments v)"
  obtain segments x3 where d3: "delete_files p object_counts ?segs x2 = (segments, x3)" by fastforce
  let ?chunks = "filter (\<lambda>f. \<not> chunk_kept (chunk_references (remaining_entries v roots)) f) (iv_chunks v)"
  obtain chunks x4 where d4: "delete_files p object_counts ?chunks x3 = (chunks, x4)" by fastforce
  have x': "x' = x4" using assms(1) by (auto simp: collect_def d1 d2 d3 d4 Let_def split: if_splits)
  have "progress (iv_debris v) x0 x1" "progress ?roots x1 x2" "progress ?segs x2 x3" "progress ?chunks x3 x4"
    using delete_files_progress [of "iv_debris v" x0 p root_counts] delete_files_progress [of ?roots x1 p root_counts]
      delete_files_progress [of ?segs x2 p object_counts] delete_files_progress [of ?chunks x3 p object_counts]
      d1 d2 d3 d4 by simp_all
  then have all: "progress (((iv_debris v @ ?roots) @ ?segs) @ ?chunks) x0 x'"
    unfolding x' by (meson progress_trans)
  then show "\<not> dl_pending x0" using assms(2) by (auto simp: progress_def)
  assume "f \<in> set (orphan_files v) \<or> (\<exists>e\<in>set (sl_roots s). f = Named (ce_path e))"
  then have "f \<in> set (((iv_debris v @ ?roots) @ ?segs) @ ?chunks)"
  proof (elim disjE bexE)
    assume "f \<in> set (orphan_files v)"
    then consider "f \<in> set (iv_debris v)"
      | "f \<in> set (iv_segments v)" "\<not> segment_kept (segment_references (iv_entries v)) f"
      | "f \<in> set (iv_chunks v)" "\<not> chunk_kept (chunk_references (iv_entries v)) f"
      unfolding orphan_files_def set_append Un_iff set_filter by blast
    then show ?thesis
    proof cases
      case 2
      then have "f \<in> set ?segs" using segment_kept_filter unfolding remaining_entries_def set_filter by blast
      then show ?thesis unfolding set_append by blast
    next
      case 3
      then have "f \<in> set ?chunks" using chunk_kept_filter unfolding remaining_entries_def set_filter by blast
      then show ?thesis unfolding set_append by blast
    qed (unfold set_append, blast)
  next
    fix e assume "e \<in> set (sl_roots s)" "f = Named (ce_path e)"
    then have "f \<in> set ?roots" by simp
    then show ?thesis unfolding set_append by blast
  qed
  then show "settled (dl_disk x0) (dl_disk x') f" using all assms(2) unfolding progress_def by blast
qed

text \<open>A selection that had to leave out a stale root says so.\<close>

definition selects :: "selection \<Rightarrow> selection \<Rightarrow> bool" where
  "selects s s' \<longleftrightarrow> (sl_pending s \<longrightarrow> sl_pending s') \<and> set (sl_roots s) \<subseteq> set (sl_roots s')"

lemma release_segments_fields [simp]:
  "sl_pending (fold (\<lambda>g. release_segment d v (k, g)) gs s) = sl_pending s
   \<and> sl_roots (fold (\<lambda>g. release_segment d v (k, g)) gs s) = sl_roots s"
  by (induction gs arbitrary: s) (simp_all add: release_segment_def Let_def)

lemma release_chunks_fields [simp]:
  "sl_pending (fold (\<lambda>(c, n). release_chunk d v c) cs s) = sl_pending s
   \<and> sl_roots (fold (\<lambda>(c, n). release_chunk d v c) cs s) = sl_roots s"
  by (induction cs arbitrary: s) (simp_all add: release_chunk_def Let_def split: prod.split)

lemma select_root_selects:
  "selects s (select_root d v p protected debt e s)
   \<and> (sl_pending (select_root d v p protected debt e s) \<or> spared protected e
      \<or> ce_path e \<in> set (map ce_path (sl_roots (select_root d v p protected debt e s))))"
  by (auto simp: select_root_def selects_def spared_def)

lemma selects_trans: "selects s t \<Longrightarrow> selects t u \<Longrightarrow> selects s u"
  by (auto simp: selects_def)

lemma select_stale_selects:
  fixes d v p protected debt
  defines "select \<equiv> select_root d v p protected debt"
  shows "selects s (select_stale select p now es s)
   \<and> (\<forall>e\<in>set es. \<not> ce_valid e \<or> root_expired p now e \<longrightarrow> sl_pending (select_stale select p now es s)
      \<or> spared protected e \<or> ce_path e \<in> ce_path ` set (sl_roots (select_stale select p now es s)))"
proof (induction es arbitrary: s)
  case (Cons e es)
  let ?s = "if \<not> ce_valid e \<or> root_expired p now e then select e s else s"
  have step: "selects s ?s" using select_root_selects by (simp add: select_def selects_def)
  note IH = Cons.IH [of ?s]
  have eq: "select_stale select p now (e # es) s = select_stale select p now es ?s" by simp
  have "sl_pending (select_stale select p now es ?s) \<or> spared protected e
      \<or> ce_path e \<in> ce_path ` set (sl_roots (select_stale select p now es ?s))"
    if "\<not> ce_valid e \<or> root_expired p now e"
    using that select_root_selects [of s d v p protected debt e] IH
    unfolding selects_def select_def by auto
  then show ?case unfolding eq using IH step selects_trans [OF step] by auto
qed (simp add: selects_def)

lemma select_pressure_selects:
  "selects s (select_pressure (select_root d v p protected debt) low es s)"
proof (induction es arbitrary: s)
  case (Cons e es)
  let ?s = "select_root d v p protected debt e s"
  have "selects s ?s" using select_root_selects by blast
  then show ?case using Cons.IH [of ?s] selects_trans by (auto simp: Let_def)
qed (simp add: selects_def)

lemma select_roots_stale:
  assumes "\<not> sl_pending (select_roots d v p protected now pressure)"
    "e \<in> set (iv_entries v)" "\<not> ce_valid e \<or> root_expired p now e" "\<not> spared protected e"
  shows "\<exists>x\<in>set (sl_roots (select_roots d v p protected now pressure)). ce_path x = ce_path e"
proof -
  define debt where "debt = (orphan_files v \<noteq> [])"
  define s0 where "s0 = \<lparr>sl_bytes = inventory_bytes d v - total_bytes d (orphan_files v),
     sl_chunks = chunk_references (iv_entries v), sl_segments = segment_references (iv_entries v),
     sl_roots = [], sl_pending = False\<rparr>"
  define s1 where "s1 = select_stale (select_root d v p protected debt) p now (by_age (iv_entries v)) s0"
  have all: "select_roots d v p protected now pressure = (if pressure \<and> sl_bytes s1 > low_watermark_bytes p
      then select_pressure (select_root d v p protected debt) (low_watermark_bytes p) (by_age (iv_entries v)) s1
      else s1)"
    by (simp only: select_roots_def debt_def s0_def s1_def Let_def)
  have later: "selects s1 (select_roots d v p protected now pressure)"
    using select_pressure_selects by (simp add: all selects_def)
  have "e \<in> set (by_age (iv_entries v))" using assms(2) by (simp add: by_age_def)
  then have "sl_pending s1 \<or> ce_path e \<in> ce_path ` set (sl_roots s1)"
    using select_stale_selects [of s0 d v p protected debt now "by_age (iv_entries v)"] assms(3,4)
    unfolding s1_def by blast
  then show ?thesis using later assms(1) unfolding selects_def by auto
qed

text \<open>C26: A pass with a deletion budget keeps it and says when it stopped short. It attempts at most that
  many unlinks, counting the refused ones, and no more files than attempts disappear, even when the
  pass is cut short by a failing directory barrier. A pass that was not skipped and completes either
  reports that work is pending, or every orphan and every invalid or expired root that is not
  protected is gone or was refused by the file system, and a store that was over its limit is at or
  below the low watermark.\<close>

theorem maintenance_budget:
  assumes "0 < maintenance_max_deletions p"
    and "maintain p now protected busy clock clock_end (m, d) = (res, (m', d'))"
  shows "int (card (set (d_files d) - set (d_files d'))) \<le> maintenance_max_deletions p
    \<and> (\<forall>rep. res = Inr rep \<longrightarrow> deletion_attempts rep \<le> maintenance_max_deletions p
         \<and> int (card (set (d_files d) - set (d_files d'))) \<le> deletion_attempts rep)
    \<and> (\<forall>rep v. res = Inr rep \<longrightarrow> policy_enabled p \<longrightarrow> \<not> busy \<longrightarrow> not_before m \<le> clock
         \<longrightarrow> take_inventory d = Inr v \<longrightarrow> work_pending rep
         \<or> (\<forall>f\<in>set (orphan_files v). settled d d' f)
           \<and> (\<forall>e\<in>set (iv_entries v). (\<not> ce_valid e \<or> root_expired p now e) \<longrightarrow> \<not> spared protected e
                \<longrightarrow> settled d d' (Named (ce_path e)))
           \<and> (0 < max_bytes p \<longrightarrow> max_bytes p < bytes_before rep \<longrightarrow> bytes_after rep \<le> low_watermark_bytes p))"
proof -
  have disk: "int (card (set (d_files d) - set (d_files d'))) \<le> maintenance_max_deletions p"
    using assms(2)
  proof (cases rule: maintain_cases)
    case (pass v pressure r x')
    then show ?thesis using collect_budget [OF pass(2)] assms(1) by (auto simp: within_budget_def)
  qed (use assms(1) in simp)
  have counted: "deletion_attempts rep \<le> maintenance_max_deletions p
      \<and> int (card (set (d_files d) - set (d_files d'))) \<le> deletion_attempts rep" if rep: "res = Inr rep" for rep
  proof (cases "policy_enabled p \<and> \<not> busy \<and> not_before m \<le> clock")
    case True
    then obtain v pressure c x' where x': "collect p v (select_roots d v p protected now pressure)
       \<lparr>dl_attempts = 0, dl_pending = sl_pending (select_roots d v p protected now pressure), dl_disk = d\<rparr> = (Inr c, x')"
      "d' = dl_disk x'" "deletion_attempts rep = dl_attempts x'"
      using maintain_report [OF assms(2) [unfolded rep]] by metis
    show ?thesis using collect_budget [OF x'(1)] x'(2,3) assms(1) by (auto simp: within_budget_def)
  next
    case False
    then show ?thesis using assms rep by (auto simp: maintain_def empty_report_def split: if_splits)
  qed
  have finished: "work_pending rep
      \<or> (\<forall>f\<in>set (orphan_files v). settled d d' f)
        \<and> (\<forall>e\<in>set (iv_entries v). (\<not> ce_valid e \<or> root_expired p now e) \<longrightarrow> \<not> spared protected e
             \<longrightarrow> settled d d' (Named (ce_path e)))
        \<and> (0 < max_bytes p \<longrightarrow> max_bytes p < bytes_before rep \<longrightarrow> bytes_after rep \<le> low_watermark_bytes p)"
    if run: "res = Inr rep" "policy_enabled p" "\<not> busy" "not_before m \<le> clock" "take_inventory d = Inr v" for rep v
  proof (cases "work_pending rep")
    case False
    from maintain_report [OF assms(2) [unfolded run(1)] run(2-4)] obtain u pressure c x' where x':
      "take_inventory d = Inr u"
      "pressure = (max_bytes p > 0 \<and> (inventory_bytes d u > max_bytes p
         \<or> (maintenance_max_deletions p > 0 \<and> pressure_target m = Some (max_bytes p, low_watermark_bytes p)
            \<and> inventory_bytes d u > low_watermark_bytes p)))"
      "collect p u (select_roots d u p protected now pressure)
         \<lparr>dl_attempts = 0, dl_pending = sl_pending (select_roots d u p protected now pressure), dl_disk = d\<rparr> = (Inr c, x')"
      "d' = dl_disk x'" "bytes_before rep = inventory_bytes d u"
      "work_pending rep = (dl_pending x' \<or> pressure \<and> maintenance_max_deletions p > 0 \<and> bytes_after rep > low_watermark_bytes p)"
      by metis
    have u: "u = v" using x'(1) run(5) by simp
    have np: "\<not> dl_pending x'" using False x'(6) by simp
    have orphans: "settled d d' f" if "f \<in> set (orphan_files v)" for f
      using collect_progress(1) [OF x'(3) np, of f] that x'(4) u by simp
    have sel: "\<not> sl_pending (select_roots d v p protected now pressure)"
      using collect_progress(2) [OF x'(3) np] u by simp
    have stale: "settled d d' (Named (ce_path e))"
      if st: "e \<in> set (iv_entries v)" "\<not> ce_valid e \<or> root_expired p now e" "\<not> spared protected e" for e
    proof -
      obtain x where "x \<in> set (sl_roots (select_roots d v p protected now pressure))" "ce_path x = ce_path e"
        using select_roots_stale [OF sel st] by blast
      then show ?thesis
        using collect_progress(1) [OF x'(3) np, of "Named (ce_path e)"] x'(4) u by force
    qed
    have low: "bytes_after rep \<le> low_watermark_bytes p"
      if "0 < max_bytes p" "max_bytes p < bytes_before rep"
      using False x'(2,5,6) assms(1) that by auto
    show ?thesis using orphans stale low by blast
  qed simp
  show ?thesis using disk counted finished by blast
qed

text \<open>Two orphans and a budget of one.\<close>

definition orphan_disk :: disk where
  "orphan_disk = \<lparr>d_store = empty_store, d_files = [Named (Chunk_file ''x''), Named (Chunk_file ''y'')],
     d_stat = (\<lambda>_. \<lparr>st_size = 1, st_blocks = 0, st_mtime = 0\<rparr>), d_unlink = (\<lambda>_. Unlinked)\<rparr>"

lemma orphan_inventory:
  "\<exists>cs. take_inventory orphan_disk = Inr \<lparr>iv_entries = [], iv_debris = [], iv_segments = [], iv_chunks = cs\<rparr>
     \<and> set cs = set (d_files orphan_disk) \<and> distinct cs"
  by (simp add: take_inventory_def listed_in_def orphan_disk_def)

lemma demo_policy_enabled: "policy_enabled demo_policy"
  by (simp add: policy_enabled_def demo_policy_def)

lemma orphan_pass:
  "\<exists>rep m' d'. maintain demo_policy 0 [] False 0 0 (\<lparr>not_before = 0, pressure_target = None\<rparr>, orphan_disk)
      = (Inr rep, (m', d'))"
proof -
  obtain cs where v: "take_inventory orphan_disk = Inr \<lparr>iv_entries = [], iv_debris = [], iv_segments = [], iv_chunks = cs\<rparr>"
    using orphan_inventory by blast
  have calm: "\<not> barrier_fails (dl_disk (snd (delete_files p counts fs x))) gs"
    if "sync_fails (d_store (dl_disk x)) = (\<lambda>_. False)" for p counts fs x gs
    using delete_files_progress [of fs x p counts] that by (simp add: barrier_fails_def progress_def)
  have sync: "sync_fails (d_store (dl_disk (snd (delete_files p counts fs x)))) = (\<lambda>_. False)"
    if "sync_fails (d_store (dl_disk x)) = (\<lambda>_. False)" for p counts fs x
    using delete_files_progress [of fs x p counts] that by (simp add: progress_def)
  have "\<exists>c x'. collect p v s x = (Inr c, x')" if "sync_fails (d_store (dl_disk x)) = (\<lambda>_. False)" for p v s x
    using that calm sync by (simp add: collect_def Let_def split: prod.split) (metis snd_conv)
  then have nofail: "collect p v s \<lparr>dl_attempts = 0, dl_pending = q, dl_disk = orphan_disk\<rparr> \<noteq> (Inl e, y)" for p v s q e y
    by (metis Inl_Inr_False deletions.select_convs(3) orphan_disk_def disk.select_convs(1) empty_store_def
        fst_conv store.select_convs(3))
  show ?thesis
    using nofail
    by (auto simp: maintain_def demo_policy_enabled maintain_locked_def v Let_def split: prod.split sum.split)
qed

theorem maintenance_budget_witness:
  "\<exists>rep m' d'. maintain demo_policy 0 [] False 0 0 (\<lparr>not_before = 0, pressure_target = None\<rparr>, orphan_disk)
      = (Inr rep, (m', d')) \<and> deletion_attempts rep \<le> 1 \<and> work_pending rep"
proof -
  obtain rep m' d' where r: "maintain demo_policy 0 [] False 0 0
      (\<lparr>not_before = 0, pressure_target = None\<rparr>, orphan_disk) = (Inr rep, (m', d'))" using orphan_pass by blast
  obtain cs where v: "take_inventory orphan_disk = Inr \<lparr>iv_entries = [], iv_debris = [], iv_segments = [], iv_chunks = cs\<rparr>"
      "set cs = set (d_files orphan_disk)" using orphan_inventory by blast
  let ?gone = "set (d_files orphan_disk) - set (d_files d')"
  have b: "deletion_attempts rep \<le> 1" "int (card ?gone) \<le> deletion_attempts rep"
    "work_pending rep \<or> (\<forall>f\<in>set (orphan_files \<lparr>iv_entries = [], iv_debris = [], iv_segments = [], iv_chunks = cs\<rparr>).
       settled orphan_disk d' f)"
    using maintenance_budget [OF _ r] demo_policy_enabled v(1) by (auto simp: demo_policy_def)
  have "work_pending rep"
  proof (rule ccontr)
    assume "\<not> work_pending rep"
    then have "settled orphan_disk d' (Named (Chunk_file ''x''))" "settled orphan_disk d' (Named (Chunk_file ''y''))"
      using b(3) v(2) by (auto simp: orphan_files_def orphan_disk_def is_sha256_def)
    then have "?gone = {Named (Chunk_file ''x''), Named (Chunk_file ''y'')}"
      by (auto simp: settled_def orphan_disk_def)
    then show False using b(1,2) by simp
  qed
  with r b(1) show ?thesis by blast
qed

section \<open>The projection\<close>

definition files_bytes :: "disk \<Rightarrow> listed set \<Rightarrow> int" where
  "files_bytes d F = sum (file_bytes d) F"

definition kept_segments :: "inventory \<Rightarrow> (string \<times> string \<Rightarrow> int) \<Rightarrow> listed set" where
  "kept_segments v refs = {f \<in> set (iv_segments v). segment_kept refs f}"

definition kept_chunks :: "inventory \<Rightarrow> (string \<Rightarrow> int) \<Rightarrow> listed set" where
  "kept_chunks v refs = {f \<in> set (iv_chunks v). chunk_kept refs f}"

definition entries_bytes :: "root_entry set \<Rightarrow> int" where
  "entries_bytes E = sum ce_bytes E"

text \<open>The roots not selected, and what the counters and the byte count of a selection should be.\<close>

definition unselected :: "inventory \<Rightarrow> selection \<Rightarrow> root_entry list" where
  "unselected v s = filter (\<lambda>e. e \<notin> set (sl_roots s)) (iv_entries v)"

definition projects :: "disk \<Rightarrow> inventory \<Rightarrow> selection \<Rightarrow> bool" where
  "projects d v s \<longleftrightarrow>
     sl_chunks s = chunk_references (unselected v s)
     \<and> sl_segments s = segment_references (unselected v s)
     \<and> sl_bytes s = entries_bytes (set (unselected v s))
         + files_bytes d (kept_segments v (sl_segments s)) + files_bytes d (kept_chunks v (sl_chunks s))"

text \<open>Releasing one reference, as an update of the three parts.\<close>

lemma release_chunk_eq:
  assumes "0 < sl_chunks s c"
  shows "sl_chunks (release_chunk d v c s) = (sl_chunks s)(c := sl_chunks s c - 1)"
    and "sl_segments (release_chunk d v c s) = sl_segments s"
    and "sl_bytes (release_chunk d v c s) - files_bytes d (kept_chunks v (sl_chunks (release_chunk d v c s)))
       = sl_bytes s - files_bytes d (kept_chunks v (sl_chunks s))"
proof -
  let ?f = "Named (Chunk_file c)" and ?new = "(sl_chunks s)(c := sl_chunks s c - 1)"
  show new: "sl_chunks (release_chunk d v c s) = ?new" "sl_segments (release_chunk d v c s) = sl_segments s"
    by (simp_all add: release_chunk_def Let_def)
  have same: "chunk_kept ?new f = chunk_kept (sl_chunks s) f" if "f \<noteq> ?f" for f
  proof (cases f)
    case (Named q)
    then show ?thesis using that by (cases q) auto
  qed simp
  have bytes: "sl_bytes (release_chunk d v c s) = sl_bytes s -
      (if sl_chunks s c = 1 \<and> is_sha256 c \<and> ?f \<in> set (iv_chunks v) then file_bytes d ?f else 0)"
    by (auto simp: release_chunk_def Let_def)
  show "sl_bytes (release_chunk d v c s) - files_bytes d (kept_chunks v (sl_chunks (release_chunk d v c s)))
       = sl_bytes s - files_bytes d (kept_chunks v (sl_chunks s))"
  proof (cases "sl_chunks s c = 1 \<and> is_sha256 c \<and> ?f \<in> set (iv_chunks v)")
    case True
    have "f \<in> kept_chunks v (sl_chunks s) \<longleftrightarrow> f = ?f \<or> f \<in> kept_chunks v ?new" for f
      using True same [of f] by (cases "f = ?f") (auto simp: kept_chunks_def)
    then have "kept_chunks v (sl_chunks s) = insert ?f (kept_chunks v ?new)" by blast
    moreover have "?f \<notin> kept_chunks v ?new" using True by (auto simp: kept_chunks_def)
    ultimately have "files_bytes d (kept_chunks v (sl_chunks s)) = file_bytes d ?f + files_bytes d (kept_chunks v ?new)"
      by (simp add: files_bytes_def kept_chunks_def)
    then show ?thesis using True bytes by (simp add: new)
  next
    case False
    have "f \<in> kept_chunks v (sl_chunks s) \<longleftrightarrow> f \<in> kept_chunks v ?new" for f
      using False same [of f] assms by (cases "f = ?f") (auto simp: kept_chunks_def)
    then have "kept_chunks v (sl_chunks s) = kept_chunks v ?new" by blast
    then show ?thesis using False bytes by (auto simp add: new)
  qed
qed

lemma release_segment_eq:
  assumes "0 < sl_segments s r"
  shows "sl_segments (release_segment d v r s) = (sl_segments s)(r := sl_segments s r - 1)"
    and "sl_chunks (release_segment d v r s) = sl_chunks s"
    and "sl_bytes (release_segment d v r s) - files_bytes d (kept_segments v (sl_segments (release_segment d v r s)))
       = sl_bytes s - files_bytes d (kept_segments v (sl_segments s))"
proof -
  let ?f = "Named (Segment_file (fst r) (snd r))" and ?new = "(sl_segments s)(r := sl_segments s r - 1)"
  show new: "sl_segments (release_segment d v r s) = ?new" "sl_chunks (release_segment d v r s) = sl_chunks s"
    by (simp_all add: release_segment_def Let_def)
  have same: "segment_kept ?new f = segment_kept (sl_segments s) f" if "f \<noteq> ?f" for f
  proof (cases f)
    case (Named q)
    then show ?thesis using that by (cases q; cases r) auto
  qed simp
  have bytes: "sl_bytes (release_segment d v r s) = sl_bytes s -
      (if sl_segments s r = 1 \<and> is_sha256 (fst r) \<and> is_sha256 (snd r) \<and> ?f \<in> set (iv_segments v)
       then file_bytes d ?f else 0)"
    by (auto simp: release_segment_def Let_def)
  show "sl_bytes (release_segment d v r s) - files_bytes d (kept_segments v (sl_segments (release_segment d v r s)))
       = sl_bytes s - files_bytes d (kept_segments v (sl_segments s))"
  proof (cases "sl_segments s r = 1 \<and> is_sha256 (fst r) \<and> is_sha256 (snd r) \<and> ?f \<in> set (iv_segments v)")
    case True
    have "f \<in> kept_segments v (sl_segments s) \<longleftrightarrow> f = ?f \<or> f \<in> kept_segments v ?new" for f
      using True same [of f] by (cases "f = ?f") (auto simp: kept_segments_def)
    then have "kept_segments v (sl_segments s) = insert ?f (kept_segments v ?new)" by blast
    moreover have "?f \<notin> kept_segments v ?new" using True by (auto simp: kept_segments_def)
    ultimately have "files_bytes d (kept_segments v (sl_segments s)) = file_bytes d ?f + files_bytes d (kept_segments v ?new)"
      by (simp add: files_bytes_def kept_segments_def)
    then show ?thesis using True bytes by (simp add: new)
  next
    case False
    have "f \<in> kept_segments v (sl_segments s) \<longleftrightarrow> f \<in> kept_segments v ?new" for f
      using False same [of f] assms by (cases "f = ?f") (auto simp: kept_segments_def)
    then have "kept_segments v (sl_segments s) = kept_segments v ?new" by blast
    then show ?thesis using False bytes by (auto simp add: new)
  qed
qed

text \<open>Releasing every reference of a root.\<close>

definition slack :: "disk \<Rightarrow> inventory \<Rightarrow> selection \<Rightarrow> int" where
  "slack d v s = sl_bytes s - files_bytes d (kept_segments v (sl_segments s)) - files_bytes d (kept_chunks v (sl_chunks s))"

lemma release_chunks_eq:
  assumes "\<forall>c. int (count_list (map fst cs) c) \<le> sl_chunks s c"
  shows "sl_chunks (fold (\<lambda>(c, n). release_chunk d v c) cs s) = (\<lambda>c. sl_chunks s c - int (count_list (map fst cs) c))
    \<and> sl_segments (fold (\<lambda>(c, n). release_chunk d v c) cs s) = sl_segments s
    \<and> slack d v (fold (\<lambda>(c, n). release_chunk d v c) cs s) = slack d v s"
  using assms
proof (induction cs arbitrary: s)
  case (Cons x cs)
  obtain c n where x: "x = (c, n)" by (cases x)
  have pos: "0 < sl_chunks s c" using Cons.prems [rule_format, of c] x by simp
  note r = release_chunk_eq [OF pos, of d v]
  have "\<forall>c'. int (count_list (map fst cs) c') \<le> sl_chunks (release_chunk d v c s) c'"
  proof
    fix c' show "int (count_list (map fst cs) c') \<le> sl_chunks (release_chunk d v c s) c'"
      using Cons.prems [rule_format, of c'] x by (auto simp: r split: if_splits)
  qed
  moreover have "slack d v (release_chunk d v c s) = slack d v s" using r by (simp add: slack_def)
  ultimately show ?case using Cons.IH [of "release_chunk d v c s"] by (auto simp: x r fun_eq_iff)
qed simp

lemma release_segments_eq:
  assumes "\<forall>g. int (count_list gs g) \<le> sl_segments s (k, g)"
  shows "sl_segments (fold (\<lambda>g. release_segment d v (k, g)) gs s)
      = (\<lambda>r. sl_segments s r - (if fst r = k then int (count_list gs (snd r)) else 0))
    \<and> sl_chunks (fold (\<lambda>g. release_segment d v (k, g)) gs s) = sl_chunks s
    \<and> slack d v (fold (\<lambda>g. release_segment d v (k, g)) gs s) = slack d v s"
  using assms
proof (induction gs arbitrary: s)
  case (Cons g gs)
  have pos: "0 < sl_segments s (k, g)" using Cons.prems [rule_format, of g] by simp
  note r = release_segment_eq [OF pos, of d v]
  have "\<forall>g'. int (count_list gs g') \<le> sl_segments (release_segment d v (k, g) s) (k, g')"
  proof
    fix g' show "int (count_list gs g') \<le> sl_segments (release_segment d v (k, g) s) (k, g')"
      using Cons.prems [rule_format, of g'] by (auto simp: r split: if_splits)
  qed
  moreover have "slack d v (release_segment d v (k, g) s) = slack d v s" using r by (simp add: slack_def)
  ultimately show ?case using Cons.IH [of "release_segment d v (k, g) s"] by (auto simp: r fun_eq_iff)
qed (simp add: fun_eq_iff)

lemma references_remove:
  assumes "distinct es" "e \<in> set es"
  shows "chunk_references es c = int (count_list (map fst (ce_chunks e)) c) + chunk_references (filter (\<lambda>x. x \<noteq> e) es) c"
    and "segment_references es r = (if ek_storage (ce_key e) = fst r then int (count_list (ce_segments e) (snd r)) else 0)
      + segment_references (filter (\<lambda>x. x \<noteq> e) es) r"
proof -
  have split: "sum_list (map f es) = f e + sum_list (map f (filter (\<lambda>x. x \<noteq> e) es))" for f :: "root_entry \<Rightarrow> int"
    using assms
  proof (induction es)
    case (Cons x es)
    show ?case
    proof (cases "x = e")
      case True
      then have "filter (\<lambda>y. y \<noteq> e) es = es" using Cons.prems(1) by (simp add: filter_id_conv) blast
      then show ?thesis using True by simp
    qed (use Cons in simp)
  qed simp
  show "chunk_references es c = int (count_list (map fst (ce_chunks e)) c) + chunk_references (filter (\<lambda>x. x \<noteq> e) es) c"
    "segment_references es r = (if ek_storage (ce_key e) = fst r then int (count_list (ce_segments e) (snd r)) else 0)
      + segment_references (filter (\<lambda>x. x \<noteq> e) es) r"
    unfolding chunk_references_def segment_references_def by (rule split)+
qed

lemma references_nonneg: "0 \<le> chunk_references es c" "0 \<le> segment_references es r"
  by (auto simp: chunk_references_def segment_references_def intro!: sum_list_nonneg)

lemma projects_iff:
  "projects d v s \<longleftrightarrow> sl_chunks s = chunk_references (unselected v s)
     \<and> sl_segments s = segment_references (unselected v s) \<and> slack d v s = entries_bytes (set (unselected v s))"
  by (auto simp: projects_def slack_def)

text \<open>Selecting a root keeps the projection right.\<close>

lemma projects_take:
  assumes "projects d v s" "distinct (iv_entries v)" "e \<in> set (iv_entries v)" "e \<notin> set (sl_roots s)"
  shows "projects d v (fold (\<lambda>g. release_segment d v (ek_storage (ce_key e), g)) (ce_segments e)
          (fold (\<lambda>(c, n). release_chunk d v c) (ce_chunks e)
             (s\<lparr>sl_roots := sl_roots s @ [e], sl_bytes := sl_bytes s - ce_bytes e\<rparr>)))"
proof -
  define s0 where "s0 = s\<lparr>sl_roots := sl_roots s @ [e], sl_bytes := sl_bytes s - ce_bytes e\<rparr>"
  define s1 where "s1 = fold (\<lambda>(c, n). release_chunk d v c) (ce_chunks e) s0"
  define s2 where "s2 = fold (\<lambda>g. release_segment d v (ek_storage (ce_key e), g)) (ce_segments e) s1"
  have p: "sl_chunks s0 = chunk_references (unselected v s)" "sl_segments s0 = segment_references (unselected v s)"
    "slack d v s0 = entries_bytes (set (unselected v s)) - ce_bytes e"
    using assms(1) by (auto simp: projects_iff s0_def slack_def)
  have u: "distinct (unselected v s)" "e \<in> set (unselected v s)" using assms by (simp_all add: unselected_def)
  note rm = references_remove [OF u]
  have c: "sl_chunks s1 = (\<lambda>c. sl_chunks s0 c - int (count_list (map fst (ce_chunks e)) c))"
    "sl_segments s1 = sl_segments s0" "slack d v s1 = slack d v s0"
    using release_chunks_eq [of "ce_chunks e" s0 d v] rm(1) references_nonneg(1) unfolding p(1) s1_def by simp_all
  have g: "sl_segments s2 = (\<lambda>r. sl_segments s1 r - (if fst r = ek_storage (ce_key e) then int (count_list (ce_segments e) (snd r)) else 0))"
    "sl_chunks s2 = sl_chunks s1" "slack d v s2 = slack d v s1"
    using release_segments_eq [of "ce_segments e" s1 "ek_storage (ce_key e)" d v] rm(2) [of "(ek_storage (ce_key e), _)"]
      references_nonneg(2) unfolding c(2) p(2) s2_def by simp_all
  have un: "unselected v s2 = filter (\<lambda>x. x \<noteq> e) (unselected v s)"
    by (auto simp: unselected_def s2_def s1_def s0_def intro: filter_cong)
  have "entries_bytes (set (unselected v s)) = ce_bytes e + entries_bytes (set (unselected v s2))"
    using u(2) by (simp add: entries_bytes_def un sum.remove [of _ e]) (rule sum.cong; auto)
  then have "projects d v s2"
    using c g p rm un by (auto simp: projects_iff fun_eq_iff)
  then show ?thesis by (simp add: s2_def s1_def s0_def)
qed

lemma fold_select_roots [simp]:
  "sl_roots (fold (\<lambda>g. release_segment d v (k, g)) gs (fold (\<lambda>(c, n). release_chunk d v c) cs s)) = sl_roots s"
  by simp

text \<open>Entries of the inventory have different paths.\<close>

definition entries_apart :: "inventory \<Rightarrow> bool" where
  "entries_apart v \<longleftrightarrow> distinct (iv_entries v)
     \<and> (\<forall>e\<in>set (iv_entries v). \<forall>e'\<in>set (iv_entries v). ce_path e = ce_path e' \<longrightarrow> e = e')"


definition selecting :: "disk \<Rightarrow> inventory \<Rightarrow> entry_key list \<Rightarrow> selection \<Rightarrow> bool" where
  "selecting d v protected s \<longleftrightarrow> projects d v s \<and> set (sl_roots s) \<subseteq> selectable v protected \<and> distinct (sl_roots s)"

lemma select_root_selecting:
  fixes debt :: bool
  assumes "maintenance_max_deletions p = 0" "entries_apart v" "selecting d v protected s" "e \<in> set (iv_entries v)"
  defines "s' \<equiv> select_root d v p protected debt e s"
  shows "selecting d v protected s'" "spared protected e \<or> e \<in> set (sl_roots s')" "set (sl_roots s) \<subseteq> set (sl_roots s')"
proof -
  have inv: "set (sl_roots s) \<subseteq> set (iv_entries v)" using assms(3) by (auto simp: selecting_def selectable_def)
  have path: "ce_path e \<in> set (map ce_path (sl_roots s)) \<longleftrightarrow> e \<in> set (sl_roots s)"
  proof
    assume "ce_path e \<in> set (map ce_path (sl_roots s))"
    then obtain x where x: "x \<in> set (sl_roots s)" "ce_path e = ce_path x" by auto
    then have "e = x" using assms(2,4) inv unfolding entries_apart_def by blast
    then show "e \<in> set (sl_roots s)" using x(1) by simp
  qed simp
  have "selecting d v protected s' \<and> (spared protected e \<or> e \<in> set (sl_roots s')) \<and> set (sl_roots s) \<subseteq> set (sl_roots s')"
  proof (cases "e \<in> set (sl_roots s) \<or> spared protected e")
    case True
    then have "s' = s" unfolding s'_def select_root_def using path by (simp add: spared_def)
    then show ?thesis using True assms(3) by blast
  next
    case False
    let ?t = "fold (\<lambda>g. release_segment d v (ek_storage (ce_key e), g)) (ce_segments e)
          (fold (\<lambda>(c, n). release_chunk d v c) (ce_chunks e)
             (s\<lparr>sl_roots := sl_roots s @ [e], sl_bytes := sl_bytes s - ce_bytes e\<rparr>))"
    have "s' = ?t" unfolding s'_def select_root_def using path False assms(1) by (auto simp add: spared_def)
    moreover have "projects d v ?t"
      using assms(2-4) False by (intro projects_take) (simp_all add: selecting_def entries_apart_def)
    moreover have "sl_roots ?t = sl_roots s @ [e]" by simp
    ultimately show ?thesis using assms(3,4) False by (auto simp: selecting_def selectable_def spared_def)
  qed
  then show "selecting d v protected s'" "spared protected e \<or> e \<in> set (sl_roots s')" "set (sl_roots s) \<subseteq> set (sl_roots s')"
    by blast+
qed

lemma select_stale_selecting:
  assumes "maintenance_max_deletions p = 0" "entries_apart v"
  shows "set es \<subseteq> set (iv_entries v) \<Longrightarrow> selecting d v protected s \<Longrightarrow>
    selecting d v protected (select_stale (select_root d v p protected debt) p now es s)
    \<and> set (sl_roots s) \<subseteq> set (sl_roots (select_stale (select_root d v p protected debt) p now es s))
    \<and> (\<forall>e\<in>set es. \<not> ce_valid e \<or> root_expired p now e \<longrightarrow>
         spared protected e \<or> e \<in> set (sl_roots (select_stale (select_root d v p protected debt) p now es s)))"
proof (induction es arbitrary: s)
  case (Cons e es)
  define s1 where "s1 = (if \<not> ce_valid e \<or> root_expired p now e then select_root d v p protected debt e s else s)"
  have e: "e \<in> set (iv_entries v)" using Cons.prems(1) by simp
  have s1: "selecting d v protected s1" "set (sl_roots s) \<subseteq> set (sl_roots s1)"
    "\<not> ce_valid e \<or> root_expired p now e \<Longrightarrow> spared protected e \<or> e \<in> set (sl_roots s1)"
    using select_root_selecting [OF assms Cons.prems(2) e] Cons.prems(2) by (auto simp: s1_def)
  have IH: "selecting d v protected (select_stale (select_root d v p protected debt) p now es s1)"
    "set (sl_roots s1) \<subseteq> set (sl_roots (select_stale (select_root d v p protected debt) p now es s1))"
    "\<forall>e\<in>set es. \<not> ce_valid e \<or> root_expired p now e \<longrightarrow>
         spared protected e \<or> e \<in> set (sl_roots (select_stale (select_root d v p protected debt) p now es s1))"
    using Cons.IH [OF _ s1(1)] Cons.prems(1) by simp_all
  have run: "select_stale (select_root d v p protected debt) p now (e # es) s
      = select_stale (select_root d v p protected debt) p now es s1" by (simp add: s1_def)
  show ?case unfolding run using IH s1(2,3) by (auto simp del: select_stale.simps)
qed simp

lemma select_pressure_selecting:
  assumes "maintenance_max_deletions p = 0" "entries_apart v"
  shows "set es \<subseteq> set (iv_entries v) \<Longrightarrow> selecting d v protected s \<Longrightarrow>
    selecting d v protected (select_pressure (select_root d v p protected debt) low es s)
    \<and> set (sl_roots s) \<subseteq> set (sl_roots (select_pressure (select_root d v p protected debt) low es s))
    \<and> (sl_bytes (select_pressure (select_root d v p protected debt) low es s) \<le> low
       \<or> (\<forall>e\<in>set es. spared protected e \<or> e \<in> set (sl_roots (select_pressure (select_root d v p protected debt) low es s))))"
proof (induction es arbitrary: s)
  case (Cons e es)
  define s1 where "s1 = select_root d v p protected debt e s"
  have e: "e \<in> set (iv_entries v)" using Cons.prems(1) by simp
  note s1 = select_root_selecting [OF assms Cons.prems(2) e, of debt, folded s1_def]
  show ?case
  proof (cases "sl_bytes s1 \<le> low")
    case True
    then show ?thesis using s1 by (simp add: Let_def s1_def [symmetric])
  next
    case False
    have run: "select_pressure (select_root d v p protected debt) low (e # es) s
        = select_pressure (select_root d v p protected debt) low es s1"
      using False by (simp add: Let_def s1_def [symmetric])
    have "selecting d v protected (select_pressure (select_root d v p protected debt) low es s1)"
      "set (sl_roots s1) \<subseteq> set (sl_roots (select_pressure (select_root d v p protected debt) low es s1))"
      "sl_bytes (select_pressure (select_root d v p protected debt) low es s1) \<le> low
       \<or> (\<forall>e\<in>set es. spared protected e \<or> e \<in> set (sl_roots (select_pressure (select_root d v p protected debt) low es s1)))"
      using Cons.IH [OF _ s1(1)] Cons.prems(1) by simp_all
    then show ?thesis unfolding run using s1(2,3) by (auto simp del: select_pressure.simps)
  qed
qed simp

lemma mapE_keys: "mapE f xs = Inr ys \<Longrightarrow> (\<And>x y. f x = Inr y \<Longrightarrow> g y = h x) \<Longrightarrow> map g ys = map h xs"
  by (induction xs arbitrary: ys) (auto simp: bindE_Inr)

lemma distinct_listed_in: "distinct (d_files d) \<Longrightarrow> distinct (listed_in P d)"
  by (simp add: listed_in_def)

lemma distinct_names:
  "distinct fs \<Longrightarrow> distinct (manifest_names fs)" "distinct fs \<Longrightarrow> distinct (alias_names fs)"
proof -
  show "distinct fs \<Longrightarrow> distinct (manifest_names fs)"
    by (induction fs rule: manifest_names.induct) (auto simp: manifest_names_mem)
  show "distinct fs \<Longrightarrow> distinct (alias_names fs)"
    by (induction fs rule: alias_names.induct) (auto simp: alias_names_mem)
qed

lemma entries_are_apart:
  assumes "take_inventory d = Inr v" "distinct (d_files d)" shows "entries_apart v"
proof -
  obtain roots aliases where parts:
    "mapE (\<lambda>(s, c). capacity_entry d s c) (manifest_names (listed_in is_manifest_file d)) = Inr roots"
    "mapE (\<lambda>(s, c). plain_alias_entry d s c) (alias_names (listed_in is_alias_file d)) = Inr aliases"
    "iv_entries v = roots @ aliases"
    using assms(1) by (auto simp: take_inventory_def bindE_Inr alias_entries_plain)
  have "map ce_path roots = map (\<lambda>(s, c). Manifest_file s c) (manifest_names (listed_in is_manifest_file d))"
    by (rule mapE_keys [OF parts(1)]) (auto dest: capacity_entry_sound(2))
  moreover have "map ce_path aliases = map (\<lambda>(s, c). Alias_file s c) (alias_names (listed_in is_alias_file d))"
    by (rule mapE_keys [OF parts(2)]) (auto dest: plain_alias_entry_sound(2))
  moreover have "distinct (manifest_names (listed_in is_manifest_file d))" "distinct (alias_names (listed_in is_alias_file d))"
    using distinct_names distinct_listed_in assms(2) by blast+
  ultimately have "distinct (map ce_path (iv_entries v))"
    by (auto simp: parts(3) distinct_map inj_on_def)
  then show ?thesis by (auto simp: entries_apart_def distinct_map inj_on_def)
qed

lemma entry_bytes:
  assumes "take_inventory d = Inr v" "e \<in> set (iv_entries v)"
  shows "ce_bytes e = file_bytes d (Named (ce_path e))"
  using assms(2) entry_of_Inr(1) unfolding inventory_parts(1) [OF assms(1)]
  by (fastforce simp: capacity_entry_def plain_alias_entry_def Let_def file_bytes_def)

text \<open>Sums over a list of files, split by what is kept.\<close>

lemma total_bytes_set: "distinct fs \<Longrightarrow> total_bytes d fs = files_bytes d (set fs)"
  by (simp add: total_bytes_def files_bytes_def sum_list_distinct_conv_sum_set)

lemma total_bytes_append [simp]: "total_bytes d (fs @ gs) = total_bytes d fs + total_bytes d gs"
  by (simp add: total_bytes_def)

lemma total_bytes_split:
  "total_bytes d fs = total_bytes d (filter P fs) + total_bytes d (filter (\<lambda>f. \<not> P f) fs)"
  by (induction fs) (auto simp: total_bytes_def)

lemma distinct_inventory:
  assumes "take_inventory d = Inr v" "distinct (d_files d)"
  shows "distinct (iv_segments v)" "distinct (iv_chunks v)" "distinct (iv_debris v)"
proof -
  have "iv_segments v = listed_in (\<lambda>f. in_index (file_directory f)) d" "iv_chunks v = listed_in (\<lambda>f. file_directory f = Chunks) d"
    "iv_debris v = listed_in (\<lambda>f. in_manifests (file_directory f) \<and> \<not> is_manifest_file f) d
            @ listed_in (\<lambda>f. in_aliases (file_directory f) \<and> \<not> is_alias_file f) d"
    using assms(1) by (auto simp: take_inventory_def bindE_Inr)
  moreover have "\<not> (in_manifests dir \<and> in_aliases dir)" for dir by (cases dir) auto
  ultimately show "distinct (iv_segments v)" "distinct (iv_chunks v)" "distinct (iv_debris v)"
    using assms(2) distinct_listed_in by auto
qed

text \<open>What the projection leaves of an inventory, for a set of roots that stay.\<close>

lemma projected_split:
  assumes "take_inventory d = Inr v" "distinct (d_files d)"
  shows "inventory_bytes d v - total_bytes d (iv_debris v)
      - total_bytes d (filter (\<lambda>f. \<not> segment_kept sr f) (iv_segments v))
      - total_bytes d (filter (\<lambda>f. \<not> chunk_kept cr f) (iv_chunks v))
    = sum_list (map ce_bytes (iv_entries v)) + files_bytes d (kept_segments v sr) + files_bytes d (kept_chunks v cr)"
proof -
  have "total_bytes d (filter (segment_kept sr) (iv_segments v)) = files_bytes d (kept_segments v sr)"
    "total_bytes d (filter (chunk_kept cr) (iv_chunks v)) = files_bytes d (kept_chunks v cr)"
    using distinct_inventory [OF assms] by (simp_all add: total_bytes_set kept_segments_def kept_chunks_def)
  then show ?thesis
    using total_bytes_split [of d "iv_segments v" "segment_kept sr"] total_bytes_split [of d "iv_chunks v" "chunk_kept cr"]
    by (simp add: inventory_bytes_def)
qed

lemma start_projects:
  assumes "take_inventory d = Inr v" "distinct (d_files d)"
  shows "projects d v \<lparr>sl_bytes = inventory_bytes d v - total_bytes d (orphan_files v),
    sl_chunks = chunk_references (iv_entries v), sl_segments = segment_references (iv_entries v),
    sl_roots = [], sl_pending = False\<rparr>"
proof -
  have "sum_list (map ce_bytes (iv_entries v)) = entries_bytes (set (iv_entries v))"
    using entries_are_apart [OF assms] by (simp add: entries_bytes_def entries_apart_def sum_list_distinct_conv_sum_set)
  then show ?thesis
    using projected_split [OF assms, of "segment_references (iv_entries v)" "chunk_references (iv_entries v)"]
    by (simp add: projects_def unselected_def orphan_files_def)
qed

lemma select_roots_selecting:
  fixes protected :: "entry_key list" and now :: int and pressure :: bool
  assumes "take_inventory d = Inr v" "distinct (d_files d)" "maintenance_max_deletions p = 0"
  defines "s \<equiv> select_roots d v p protected now pressure"
  shows "selecting d v protected s"
    and "\<forall>e\<in>set (iv_entries v). \<not> ce_valid e \<or> root_expired p now e \<longrightarrow> spared protected e \<or> e \<in> set (sl_roots s)"
    and "pressure \<Longrightarrow> sl_bytes s \<le> low_watermark_bytes p
      \<or> (\<forall>e\<in>set (iv_entries v). spared protected e \<or> e \<in> set (sl_roots s))"
proof -
  note apart = entries_are_apart [OF assms(1,2)]
  let ?select = "select_root d v p protected (orphan_files v \<noteq> [])"
  define s0 where "s0 = \<lparr>sl_bytes = inventory_bytes d v - total_bytes d (orphan_files v),
    sl_chunks = chunk_references (iv_entries v), sl_segments = segment_references (iv_entries v),
    sl_roots = [], sl_pending = False\<rparr>"
  define s1 where "s1 = select_stale ?select p now (by_age (iv_entries v)) s0"
  have s0: "selecting d v protected s0"
    using start_projects [OF assms(1,2)] by (simp add: selecting_def s0_def)
  note stale = select_stale_selecting [OF assms(3) apart, of "by_age (iv_entries v)" d protected s0
      "orphan_files v \<noteq> []" now, folded s1_def, unfolded set_by_age, OF subset_refl s0]
  have s1: "selecting d v protected s1" by (rule stale [THEN conjunct1])
  note press = select_pressure_selecting [OF assms(3) apart, of "by_age (iv_entries v)" d protected s1
      "orphan_files v \<noteq> []" "low_watermark_bytes p", unfolded set_by_age, OF subset_refl s1]
  define s2 where "s2 = select_pressure ?select (low_watermark_bytes p) (by_age (iv_entries v)) s1"
  have s: "s = (if pressure \<and> sl_bytes s1 > low_watermark_bytes p then s2 else s1)"
    by (simp add: s_def s2_def select_roots_def Let_def s1_def s0_def)
  have s2: "selecting d v protected s2" "set (sl_roots s1) \<subseteq> set (sl_roots s2)"
    "sl_bytes s2 \<le> low_watermark_bytes p \<or> (\<forall>e\<in>set (iv_entries v). spared protected e \<or> e \<in> set (sl_roots s2))"
    using press [folded s2_def] by blast+
  have stale1: "e \<in> set (iv_entries v) \<Longrightarrow> \<not> ce_valid e \<or> root_expired p now e \<Longrightarrow> spared protected e \<or> e \<in> set (sl_roots s1)" for e
    using stale by blast
  show "selecting d v protected s" using s1 s2(1) by (simp add: s)
  have "set (sl_roots s1) \<subseteq> set (sl_roots s)" using s2(2) by (simp add: s)
  then show "\<forall>e\<in>set (iv_entries v). \<not> ce_valid e \<or> root_expired p now e \<longrightarrow> spared protected e \<or> e \<in> set (sl_roots s)"
    using stale1 by blast
  show "pressure \<Longrightarrow> sl_bytes s \<le> low_watermark_bytes p
      \<or> (\<forall>e\<in>set (iv_entries v). spared protected e \<or> e \<in> set (sl_roots s))"
    using s2(3) by (simp add: s)
qed

section \<open>An unlimited pass\<close>

lemma delete_all:
  assumes "maintenance_max_deletions p = 0" "counts Unlinked"
  shows "\<forall>f. d_unlink (dl_disk x) f = Unlinked \<Longrightarrow>
    fst (delete_files p counts fs x) = fs
    \<and> d_files (dl_disk (snd (delete_files p counts fs x))) = filter (\<lambda>f. f \<notin> set fs) (d_files (dl_disk x))"
proof (induction fs arbitrary: x)
  case (Cons f fs)
  define y where "y = x\<lparr>dl_attempts := dl_attempts x + 1, dl_disk := remove_file f (dl_disk x)\<rparr>"
  have run: "delete_files p counts (f # fs) x = (f # fst (delete_files p counts fs y), snd (delete_files p counts fs y))"
    using assms Cons.prems
    by (simp add: delete_files.simps(2) admit_deletion_def unlink_file_def y_def split: prod.split)
  have "d_unlink (dl_disk y) g = Unlinked" for g using Cons.prems by (simp add: y_def remove_file_def)
  then have "fst (delete_files p counts fs y) = fs"
    "d_files (dl_disk (snd (delete_files p counts fs y))) = filter (\<lambda>f. f \<notin> set fs) (d_files (dl_disk y))"
    using Cons.IH [of y] by simp_all
  then show ?case
    by (auto simp: run y_def remove_file_def removeAll_filter_not_eq intro: filter_cong)
qed simp

lemma collect_all:
  assumes "maintenance_max_deletions p = 0" "\<forall>f. d_unlink (dl_disk x) f = Unlinked"
    and "\<forall>dir. \<not> sync_fails (d_store (dl_disk x)) dir"
    and "entries_apart v" "set (sl_roots s) \<subseteq> set (iv_entries v)"
  defines "left \<equiv> unselected v s"
  defines "segs \<equiv> filter (\<lambda>f. \<not> segment_kept (segment_references left) f) (iv_segments v)"
  defines "chunks \<equiv> filter (\<lambda>f. \<not> chunk_kept (chunk_references left) f) (iv_chunks v)"
  shows "\<exists>x'. collect p v s x = (Inr \<lparr>cl_debris = iv_debris v, cl_removed = sl_roots s, cl_segments = segs, cl_chunks = chunks\<rparr>, x')
    \<and> d_files (dl_disk x') = filter (\<lambda>f. f \<notin> set (iv_debris v) \<and> f \<notin> (\<lambda>e. Named (ce_path e)) ` set (sl_roots s)
        \<and> f \<notin> set segs \<and> f \<notin> set chunks) (d_files (dl_disk x))"
proof -
  let ?roots = "map (\<lambda>e. Named (ce_path e)) (sl_roots s)"
  obtain debris x1 where d1: "delete_files p root_counts (iv_debris v) x = (debris, x1)" by fastforce
  obtain roots x2 where d2: "delete_files p root_counts ?roots x1 = (roots, x2)" by fastforce
  obtain ss x3 where d3: "delete_files p object_counts segs x2 = (ss, x3)" by fastforce
  obtain cs x4 where d4: "delete_files p object_counts chunks x3 = (cs, x4)" by fastforce
  have counts: "root_counts Unlinked" "object_counts Unlinked" by (simp_all add: root_counts_def object_counts_def)
  have keep: "d_unlink (dl_disk x1) = d_unlink (dl_disk x)" "sync_fails (d_store (dl_disk x1)) = sync_fails (d_store (dl_disk x))"
    "d_unlink (dl_disk x2) = d_unlink (dl_disk x1)" "sync_fails (d_store (dl_disk x2)) = sync_fails (d_store (dl_disk x1))"
    "d_unlink (dl_disk x3) = d_unlink (dl_disk x2)" "sync_fails (d_store (dl_disk x3)) = sync_fails (d_store (dl_disk x2))"
    "sync_fails (d_store (dl_disk x4)) = sync_fails (d_store (dl_disk x3))"
    using delete_files_shrink [of p root_counts "iv_debris v" x] delete_files_shrink [of p root_counts ?roots x1]
      delete_files_shrink [of p object_counts segs x2] delete_files_shrink [of p object_counts chunks x3] d1 d2 d3 d4
    by simp_all
  have all: "debris = iv_debris v" "roots = ?roots" "ss = segs" "cs = chunks"
    "d_files (dl_disk x1) = filter (\<lambda>f. f \<notin> set (iv_debris v)) (d_files (dl_disk x))"
    "d_files (dl_disk x2) = filter (\<lambda>f. f \<notin> set ?roots) (d_files (dl_disk x1))"
    "d_files (dl_disk x3) = filter (\<lambda>f. f \<notin> set segs) (d_files (dl_disk x2))"
    "d_files (dl_disk x4) = filter (\<lambda>f. f \<notin> set chunks) (d_files (dl_disk x3))"
    using delete_all [of p root_counts x "iv_debris v"] delete_all [of p root_counts x1 ?roots]
      delete_all [of p object_counts x2 segs] delete_all [of p object_counts x3 chunks] d1 d2 d3 d4 counts assms(1,2)
    by (simp_all add: keep)
  have apart: "Named (ce_path e) \<in> set ?roots \<longleftrightarrow> e \<in> set (sl_roots s)" if "e \<in> set (iv_entries v)" for e
    using that assms(4,5) unfolding entries_apart_def by (auto simp: image_iff dest: subsetD)
  have left: "remaining_entries v roots = left"
    unfolding remaining_entries_def left_def unselected_def all(2) by (rule filter_cong) (use apart in auto)
  have removed: "filter (\<lambda>e. Named (ce_path e) \<in> set roots) (sl_roots s) = sl_roots s"
    unfolding all(2) by (rule filter_True) simp
  have "collect p v s x = (Inr \<lparr>cl_debris = iv_debris v, cl_removed = sl_roots s, cl_segments = segs, cl_chunks = chunks\<rparr>, x4)"
    using assms(3) keep removed d3 d4
    by (simp add: collect_def d1 d2 Let_def left barrier_fails_def segs_def [symmetric] chunks_def [symmetric] all(1,3,4))
  moreover have "d_files (dl_disk x4) = filter (\<lambda>f. f \<notin> set (iv_debris v) \<and> f \<notin> (\<lambda>e. Named (ce_path e)) ` set (sl_roots s)
        \<and> f \<notin> set segs \<and> f \<notin> set chunks) (d_files (dl_disk x))"
    unfolding all(5-8) by (auto intro: filter_cong)
  ultimately show ?thesis by blast
qed

lemma references_referrer:
  "0 < chunk_references es c \<Longrightarrow> \<exists>e\<in>set es. c \<in> set (map fst (ce_chunks e))"
  "0 < segment_references es r \<Longrightarrow> \<exists>e\<in>set es. ek_storage (ce_key e) = fst r \<and> snd r \<in> set (ce_segments e)"
proof -
  show "0 < chunk_references es c \<Longrightarrow> \<exists>e\<in>set es. c \<in> set (map fst (ce_chunks e))"
  proof (induction es)
    case (Cons x es)
    then show ?case
      by (cases "c \<in> set (map fst (ce_chunks x))") (auto simp: chunk_references_def count_notin simp del: set_map)
  qed (simp add: chunk_references_def)
  show "0 < segment_references es r \<Longrightarrow> \<exists>e\<in>set es. ek_storage (ce_key e) = fst r \<and> snd r \<in> set (ce_segments e)"
  proof (induction es)
    case (Cons x es)
    then show ?case
      by (cases "snd r \<in> set (ce_segments x)") (auto simp: segment_references_def count_notin split: if_splits)
  qed (simp add: segment_references_def)
qed

lemma mapE_all: "mapE f xs = Inr ys \<Longrightarrow> x \<in> set xs \<Longrightarrow> \<exists>y\<in>set ys. f x = Inr y"
  by (induction xs arbitrary: ys) (auto simp: bindE_Inr)

lemma root_has_entry:
  assumes "take_inventory d = Inr v" "f \<in> set (d_files d)" "is_manifest_file f \<or> is_alias_file f"
  shows "\<exists>e\<in>set (iv_entries v). f = Named (ce_path e)"
proof -
  obtain roots aliases where parts:
    "mapE (\<lambda>(s, c). capacity_entry d s c) (manifest_names (listed_in is_manifest_file d)) = Inr roots"
    "mapE (\<lambda>(s, c). plain_alias_entry d s c) (alias_names (listed_in is_alias_file d)) = Inr aliases"
    "iv_entries v = roots @ aliases"
    using assms(1) by (auto simp: take_inventory_def bindE_Inr alias_entries_plain)
  from assms(3) consider s c where "f = Named (Manifest_file s c)" | s c where "f = Named (Alias_file s c)"
    by (cases f rule: is_manifest_file.cases; auto)
  then show ?thesis
  proof cases
    case 1
    then have "(s, c) \<in> set (manifest_names (listed_in is_manifest_file d))"
      using assms(2) by (simp add: manifest_names_mem)
    from mapE_all [OF parts(1) this] show ?thesis using 1 capacity_entry_sound(2) by (force simp: parts(3))
  next
    case 2
    then have "(s, c) \<in> set (alias_names (listed_in is_alias_file d))"
      using assms(2) by (simp add: alias_names_mem)
    from mapE_all [OF parts(2) this] show ?thesis using 2 plain_alias_entry_sound(2) by (force simp: parts(3))
  qed
qed

text \<open>What is left of a file: a root that stays, or an object of one.\<close>

definition belongs_to :: "listed \<Rightarrow> root_entry \<Rightarrow> bool" where
  "belongs_to f e \<longleftrightarrow> f = Named (ce_path e)
     \<or> (\<exists>c\<in>set (map fst (ce_chunks e)). f = Named (Chunk_file c))
     \<or> (\<exists>g\<in>set (ce_segments e). f = Named (Segment_file (ek_storage (ce_key e)) g))"

lemma files_left:
  assumes "take_inventory d = Inr v" "entries_apart v" "set (sl_roots s) \<subseteq> set (iv_entries v)"
  defines "left \<equiv> unselected v s"
  shows "f \<in> set (d_files d) \<and> f \<notin> set (iv_debris v) \<and> f \<notin> (\<lambda>e. Named (ce_path e)) ` set (sl_roots s)
      \<and> f \<notin> set (filter (\<lambda>f. \<not> segment_kept (segment_references left) f) (iv_segments v))
      \<and> f \<notin> set (filter (\<lambda>f. \<not> chunk_kept (chunk_references left) f) (iv_chunks v))
    \<longleftrightarrow> f \<in> (\<lambda>e. Named (ce_path e)) ` set left
      \<or> f \<in> kept_segments v (segment_references left) \<or> f \<in> kept_chunks v (chunk_references left)"
    (is "?lhs \<longleftrightarrow> ?rhs")
proof -
  note parts = inventory_parts(2-4) [OF assms(1)]
  have root: "f \<in> (\<lambda>e. Named (ce_path e)) ` set left \<longleftrightarrow>
      f \<in> set (d_files d) \<and> (is_manifest_file f \<or> is_alias_file f) \<and> f \<notin> (\<lambda>e. Named (ce_path e)) ` set (sl_roots s)"
  proof
    assume "f \<in> (\<lambda>e. Named (ce_path e)) ` set left"
    then obtain e where e: "e \<in> set (iv_entries v)" "e \<notin> set (sl_roots s)" "f = Named (ce_path e)"
      by (auto simp: left_def unselected_def)
    have kind: "is_manifest_file f \<or> is_alias_file f" "f \<in> set (d_files d)"
      using e(1,3) capacity_entry_sound(2) plain_alias_entry_sound(2) inventory_entry(2) [OF assms(1) e(1)]
      unfolding inventory_parts(1) [OF assms(1)] by force+
    moreover have "f \<notin> (\<lambda>e. Named (ce_path e)) ` set (sl_roots s)"
    proof
      assume "f \<in> (\<lambda>e. Named (ce_path e)) ` set (sl_roots s)"
      then obtain x where x: "x \<in> set (sl_roots s)" "ce_path x = ce_path e" using e(3) by auto
      then have "x = e" using e(1) assms(2,3) unfolding entries_apart_def by blast
      then show False using x(1) e(2) by simp
    qed
    ultimately show "f \<in> set (d_files d) \<and> (is_manifest_file f \<or> is_alias_file f) \<and> f \<notin> (\<lambda>e. Named (ce_path e)) ` set (sl_roots s)"
      by blast
  next
    assume f: "f \<in> set (d_files d) \<and> (is_manifest_file f \<or> is_alias_file f) \<and> f \<notin> (\<lambda>e. Named (ce_path e)) ` set (sl_roots s)"
    then obtain e where "e \<in> set (iv_entries v)" "f = Named (ce_path e)"
      using root_has_entry [OF assms(1)] by blast
    then show "f \<in> (\<lambda>e. Named (ce_path e)) ` set left" using f by (auto simp: left_def unselected_def)
  qed
  have dirs: "in_manifests (file_directory f) \<or> in_aliases (file_directory f) \<or> in_index (file_directory f) \<or> file_directory f = Chunks"
    by (cases "file_directory f") auto
  have kinds: "is_manifest_file f \<Longrightarrow> in_manifests (file_directory f)" "is_alias_file f \<Longrightarrow> in_aliases (file_directory f)"
    by (cases f rule: is_manifest_file.cases; simp)+
  have roots: "f \<notin> (\<lambda>e. Named (ce_path e)) ` set (sl_roots s)" if "in_index (file_directory f) \<or> file_directory f = Chunks"
  proof
    assume "f \<in> (\<lambda>e. Named (ce_path e)) ` set (sl_roots s)"
    then obtain e where e: "e \<in> set (iv_entries v)" "f = Named (ce_path e)" using assms(3) by auto
    then show False using that inventory_entry(3) [OF assms(1) e(1)] by auto
  qed
  show ?thesis
    unfolding root kept_segments_def kept_chunks_def set_filter parts mem_Collect_eq
    using dirs kinds roots by (cases "file_directory f") auto
qed

text \<open>C27: Without a deletion budget, on a file system that refuses nothing, a pass does all it is for: no
  invalid or expired root is left but protected ones, every file left is a root that stays or an object
  of one, the report counts exactly the bytes left, and when the store was over its limit it ends at
  or below the low watermark unless only protected roots are left.\<close>

theorem full_pass_reclaims:
  assumes "policy_enabled p" "maintenance_max_deletions p = 0" "\<not> busy" "not_before m \<le> clock"
    and "take_inventory d = Inr v" "distinct (d_files d)" "\<forall>f. d_unlink d f = Unlinked"
    and "\<forall>dir. \<not> sync_fails (d_store d) dir" "\<forall>f. 0 \<le> file_bytes d f"
  shows "\<exists>rep m' d' left. maintain p now protected busy clock clock_end (m, d) = (Inr rep, (m', d'))
    \<and> set left \<subseteq> set (iv_entries v)
    \<and> (\<forall>e\<in>set left. (ce_valid e \<and> \<not> root_expired p now e) \<or> spared protected e)
    \<and> (\<forall>f\<in>set (d_files d'). \<exists>e\<in>set left. belongs_to f e)
    \<and> (\<forall>e\<in>set left. Named (ce_path e) \<in> set (d_files d'))
    \<and> bytes_after rep = total_bytes d (d_files d')
    \<and> (0 < max_bytes p \<longrightarrow> max_bytes p < bytes_before rep \<longrightarrow>
         bytes_after rep \<le> low_watermark_bytes p \<or> (\<forall>e\<in>set left. spared protected e))"
proof -
  let ?pressure = "max_bytes p > 0 \<and> inventory_bytes d v > max_bytes p"
  define s where "s = select_roots d v p protected now ?pressure"
  define left where "left = unselected v s"
  define sr where "sr = segment_references left"
  define cr where "cr = chunk_references left"
  note sel = select_roots_selecting [OF assms(5,6,2), where protected = protected and now = now and pressure = ?pressure, folded s_def]
  have roots: "set (sl_roots s) \<subseteq> set (iv_entries v)" "distinct (sl_roots s)"
    using sel(1) by (auto simp: selecting_def selectable_def)
  have apart: "entries_apart v" by (rule entries_are_apart [OF assms(5,6)])
  define x where "x = \<lparr>dl_attempts = 0, dl_pending = sl_pending s, dl_disk = d\<rparr>"
  define segs where "segs = filter (\<lambda>f. \<not> segment_kept sr f) (iv_segments v)"
  define chunks where "chunks = filter (\<lambda>f. \<not> chunk_kept cr f) (iv_chunks v)"
  obtain x' where c: "collect p v s x = (Inr \<lparr>cl_debris = iv_debris v, cl_removed = sl_roots s, cl_segments = segs, cl_chunks = chunks\<rparr>, x')"
    and files': "d_files (dl_disk x') = filter (\<lambda>f. f \<notin> set (iv_debris v) \<and> f \<notin> (\<lambda>e. Named (ce_path e)) ` set (sl_roots s)
        \<and> f \<notin> set segs \<and> f \<notin> set chunks) (d_files d)"
    using collect_all [of p x v s] assms(2,7,8) apart roots(1)
    by (auto simp: x_def segs_def chunks_def sr_def cr_def left_def)
  define d' where "d' = dl_disk x'"
  have disk: "f \<in> set (d_files d') \<longleftrightarrow> f \<in> (\<lambda>e. Named (ce_path e)) ` set left
      \<or> f \<in> kept_segments v sr \<or> f \<in> kept_chunks v cr" for f
    using files_left [OF assms(5) apart roots(1), of f]
    by (auto simp: d'_def files' segs_def chunks_def sr_def cr_def left_def)
  have proj: "sl_bytes s = entries_bytes (set left) + files_bytes d (kept_segments v sr) + files_bytes d (kept_chunks v cr)"
    using sel(1) by (auto simp: selecting_def projects_def sr_def cr_def left_def)
  have "sum_list (map ce_bytes (iv_entries v)) = sum_list (map ce_bytes (sl_roots s)) + entries_bytes (set left)"
  proof -
    have "set (iv_entries v) = set (sl_roots s) \<union> set left" "set (sl_roots s) \<inter> set left = {}"
      using roots(1) by (auto simp: left_def unselected_def)
    then have "sum ce_bytes (set (iv_entries v)) = sum ce_bytes (set (sl_roots s)) + sum ce_bytes (set left)"
      by (simp add: sum.union_disjoint)
    then show ?thesis using apart roots(2)
      by (simp add: entries_bytes_def entries_apart_def sum_list_distinct_conv_sum_set)
  qed
  then have after: "inventory_bytes d v - total_bytes d (iv_debris v) - sum_list (map ce_bytes (sl_roots s))
      - total_bytes d segs - total_bytes d chunks = sl_bytes s"
    using projected_split [OF assms(5,6), of sr cr] proj by (simp add: segs_def chunks_def)
  have inj: "inj_on (\<lambda>e. Named (ce_path e)) (set left)"
    using apart by (auto simp: entries_apart_def left_def unselected_def inj_on_def)
  have disjoint: "(\<lambda>e. Named (ce_path e)) ` set left \<inter> (kept_segments v sr \<union> kept_chunks v cr) = {}"
    "kept_segments v sr \<inter> kept_chunks v cr = {}"
    using inventory_entry(3) [OF assms(5)]
    by (fastforce simp: left_def unselected_def kept_segments_def kept_chunks_def inventory_parts(3,4) [OF assms(5)])+
  have "entries_bytes (set left) = files_bytes d ((\<lambda>e. Named (ce_path e)) ` set left)"
    unfolding entries_bytes_def files_bytes_def sum.reindex [OF inj] comp_def
    by (rule sum.cong) (use entry_bytes [OF assms(5)] in \<open>auto simp: left_def unselected_def\<close>)
  then have "sl_bytes s = files_bytes d ((\<lambda>e. Named (ce_path e)) ` set left \<union> (kept_segments v sr \<union> kept_chunks v cr))"
    using proj disjoint by (simp add: files_bytes_def sum.union_disjoint kept_segments_def kept_chunks_def)
  moreover have "set (d_files d') = (\<lambda>e. Named (ce_path e)) ` set left \<union> (kept_segments v sr \<union> kept_chunks v cr)"
    using disk by blast
  moreover have "distinct (d_files d')" using assms(6) by (simp add: d'_def files')
  ultimately have bytes: "sl_bytes s = total_bytes d (d_files d')" by (simp add: total_bytes_set)
  then have pos: "0 \<le> sl_bytes s" using assms(9) by (auto simp: total_bytes_def intro!: sum_list_nonneg)
  obtain rep m' where run: "maintain p now protected busy clock clock_end (m, d) = (Inr rep, (m', d'))"
    "bytes_after rep = max 0 (sl_bytes s)" "bytes_before rep = inventory_bytes d v"
    using assms(1-5) c after
    by (simp add: maintain_def maintain_locked_def Let_def s_def [symmetric] x_def [symmetric] d'_def)
  have referrer: "\<exists>e\<in>set left. belongs_to f e" if "f \<in> set (d_files d')" for f
  proof -
    have "\<exists>e\<in>set left. belongs_to f e" if f: "f \<in> kept_segments v sr"
    proof -
      obtain k g where "f = Named (Segment_file k g)" "0 < sr (k, g)"
        using f by (auto simp: kept_segments_def elim: segment_kept.elims)
      then show ?thesis using references_referrer(2) [of left "(k, g)"] by (auto simp: sr_def belongs_to_def)
    qed
    moreover have "\<exists>e\<in>set left. belongs_to f e" if f: "f \<in> kept_chunks v cr"
    proof -
      obtain k where "f = Named (Chunk_file k)" "0 < cr k"
        using f by (auto simp: kept_chunks_def elim: chunk_kept.elims)
      then show ?thesis using references_referrer(1) [of left k] by (auto simp: cr_def belongs_to_def)
    qed
    ultimately show ?thesis using that disk by (auto simp: belongs_to_def)
  qed
  have stays: "e \<in> set left \<Longrightarrow> (ce_valid e \<and> \<not> root_expired p now e) \<or> spared protected e" for e
    using sel(2) by (auto simp: left_def unselected_def)
  have low: "0 < max_bytes p \<Longrightarrow> max_bytes p < bytes_before rep \<Longrightarrow>
      bytes_after rep \<le> low_watermark_bytes p \<or> (\<forall>e\<in>set left. spared protected e)"
    using sel(3) run(2,3) pos by (auto simp: left_def unselected_def)
  show ?thesis
    by (rule exI [of _ rep], rule exI [of _ m'], rule exI [of _ d'], rule exI [of _ left])
       (use run bytes pos referrer stays low disk in \<open>auto simp: left_def unselected_def\<close>)
qed

theorem full_pass_reclaims_witness:
  "\<exists>s v rep m' d' left. take_inventory (demo_disk s) = Inr v
    \<and> maintain (demo_policy\<lparr>maintenance_max_deletions := 0\<rparr>) (10 ^ 20) [] False 0 0
        (\<lparr>not_before = 0, pressure_target = None\<rparr>, demo_disk s) = (Inr rep, (m', d'))
    \<and> set left \<subseteq> set (iv_entries v)
    \<and> (\<forall>f\<in>set (d_files d'). \<exists>e\<in>set left. belongs_to f e)
    \<and> bytes_after rep = total_bytes (demo_disk s) (d_files d')"
proof -
  obtain b s where "entry_on_disk demo_identity (sha256 ''context'') [demo_chunk 0 3] [b] 3 s"
    using demo_entry by blast
  then have e: "entry_on_disk demo_identity (sha256 ''context'') [demo_chunk 0 3] [b] 3 (s\<lparr>sync_fails := (\<lambda>_. False)\<rparr>)"
    by (simp add: entry_on_disk_def has_chunks_def)
  have sync: "\<forall>dir. \<not> sync_fails (d_store (demo_disk (s\<lparr>sync_fails := (\<lambda>_. False)\<rparr>))) dir"
    by (simp add: demo_disk_def)
  let ?s = "s\<lparr>sync_fails := (\<lambda>_. False)\<rparr>"
  obtain v' where v': "take_inventory (demo_disk ?s) = Inr v'" using demo_inventory [OF e] by blast
  have "policy_enabled (demo_policy\<lparr>maintenance_max_deletions := 0\<rparr>)"
    "maintenance_max_deletions (demo_policy\<lparr>maintenance_max_deletions := 0\<rparr>) = 0" "\<not> False"
    "not_before \<lparr>not_before = 0, pressure_target = None\<rparr> \<le> 0"
    "distinct (d_files (demo_disk ?s))" "\<forall>f. d_unlink (demo_disk ?s) f = Unlinked"
    "\<forall>f. 0 \<le> file_bytes (demo_disk ?s) f"
    by (simp_all add: policy_enabled_def demo_policy_def demo_disk_def file_bytes_def allocated_bytes_def)
  from full_pass_reclaims [OF this(1-4) v' this(5,6) sync this(7), of "10 ^ 20" "[]" 0] v'
  show ?thesis by blast
qed

end
