(* ===== verification/Codec.thy ===== *)
theory Codec
  imports Context_Chunk
begin

text \<open>
  The pure codec of the connector (\<open>spark_context_cache_codec.py\<close>): which token positions a rank owns and
  where they live, the content digest of a prompt prefix with its media, and the packing of layer rows
  into the records of a chunk. A Python string that is encoded as UTF-8 is represented by its bytes, so
  the rejection of lone surrogates has no counterpart here.
\<close>

section \<open>Positions\<close>

definition POSITION_SIZE :: nat where "POSITION_SIZE = 4"

definition u32_array :: "int list \<Rightarrow> string \<Rightarrow> exn + int list" where
  "u32_array values label =
     (if \<forall>v\<in>set values. 0 \<le> v \<and> v < 2 ^ 32 then Inr values
      else Inl (CodecError ''must contain unsigned 32-bit integers''))"

definition u32_bytes :: "int list \<Rightarrow> string" where
  "u32_bytes values = concat (map (\<lambda>v. little_endian POSITION_SIZE (nat v)) values)"

definition pack_u32 :: "int list \<Rightarrow> string \<Rightarrow> exn + string" where
  "pack_u32 values label = bindE (u32_array values label) (\<lambda>vs. Inr (u32_bytes vs))"

text \<open>\<open>range(a, b, step)\<close> for a positive step.\<close>

function py_range :: "int \<Rightarrow> int \<Rightarrow> int \<Rightarrow> int list" where
  "py_range a b step = (if step \<le> 0 \<or> b \<le> a then [] else a # py_range (a + step) b step)"
  by pat_completeness auto
termination by (relation "measure (\<lambda>(a, b, step). nat (b - a))") auto

declare py_range.simps [simp del]

definition owned_positions :: "int \<Rightarrow> int \<Rightarrow> int \<Rightarrow> exn + int list" where
  "owned_positions span_tokens degree rank =
     (if span_tokens \<le> 0 then Inl (CodecError ''span must be positive'')
      else if \<not> (0 \<le> rank \<and> rank < degree) then Inl (CodecError ''dcp_rank out of range'')
      else Inr (py_range rank span_tokens degree))"

fun local_slots :: "int \<Rightarrow> int list \<Rightarrow> int \<Rightarrow> int \<Rightarrow> int list \<Rightarrow> exn + int list" where
  "local_slots capacity block_ids block_size degree [] = Inr []"
| "local_slots capacity block_ids block_size degree (p # ps) =
     (if degree = 0 then Inl ZeroDivision
      else
        let ordinal = p div degree in
        if ordinal \<ge> capacity then Inl (CodecError ''exceeds allocated capacity'')
        else
          (case py_index block_ids (ordinal div block_size) of
             None \<Rightarrow> Inl IndexError
           | Some k \<Rightarrow>
               bindE (local_slots capacity block_ids block_size degree ps) (\<lambda>slots.
               Inr ((block_ids ! k * block_size + ordinal mod block_size) # slots))))"

definition local_slots_for_positions :: "int list \<Rightarrow> int list \<Rightarrow> int \<Rightarrow> int \<Rightarrow> exn + int list" where
  "local_slots_for_positions positions block_ids block_size degree =
     (if block_size \<le> 0 then Inl (CodecError ''block_size must be positive'')
      else local_slots (int (length block_ids) * block_size) block_ids block_size degree positions)"

definition codec_chunk_count :: "int \<Rightarrow> int \<Rightarrow> exn + int" where
  "codec_chunk_count span_tokens chunk =
     (if chunk \<le> 0 then Inl (CodecError ''chunk_tokens must be positive'')
      else if span_tokens \<le> 0 \<or> span_tokens mod chunk \<noteq> 0
      then Inl (CodecError ''span must be a positive multiple of chunk_tokens'')
      else Inr (span_tokens div chunk))"

definition pack_positions :: "int list \<Rightarrow> exn + string" where
  "pack_positions positions =
     (if positions = [] then Inl (CodecError ''a chunk shard must own at least one position'')
      else pack_u32 positions ''positions'')"

function u32_values :: "string \<Rightarrow> int list" where
  "u32_values s = (if s = [] then [] else int (of_little_endian (take POSITION_SIZE s)) # u32_values (drop POSITION_SIZE s))"
  by pat_completeness auto
termination by (relation "measure length") (auto simp: POSITION_SIZE_def)

declare u32_values.simps [simp del]

definition unpack_positions :: "string \<Rightarrow> exn + int list" where
  "unpack_positions payload =
     (if payload = [] \<or> length payload mod POSITION_SIZE \<noteq> 0 then Inl (CodecError ''malformed positions payload'')
      else Inr (u32_values payload))"

section \<open>Media features\<close>

record multimodal_feature =
  mf_modality :: string
  mf_identifier :: string
  mf_offset :: int
  mf_length :: int

definition mf_end :: "multimodal_feature \<Rightarrow> int" where
  "mf_end f = mf_offset f + mf_length f"

fun check_features :: "int \<Rightarrow> int \<Rightarrow> multimodal_feature list \<Rightarrow> exn + unit" where
  "check_features token_count previous_end [] = Inr ()"
| "check_features token_count previous_end (f # fs) =
     (if mf_modality f = [] then Inl (CodecError ''multimodal feature modality must be a non-empty string'')
      else if mf_identifier f = [] then Inl (CodecError ''multimodal feature identifier must be a non-empty string'')
      else if mf_offset f < 0 \<or> mf_length f \<le> 0
      then Inl (CodecError ''multimodal feature range must contain non-negative integer offsets and positive integer lengths'')
      else if mf_offset f < previous_end
      then Inl (CodecError ''multimodal feature ranges must be ordered and disjoint'')
      else if mf_end f > token_count
      then Inl (CodecError ''multimodal feature range exceeds the prompt tokens'')
      else if length (mf_modality f) > 2 ^ 32 - 1 \<or> length (mf_identifier f) > 2 ^ 32 - 1
      then Inl (CodecError ''multimodal feature identity is too large'')
      else if mf_end f > 2 ^ 64 - 1 then Inl (CodecError ''multimodal feature range is too large'')
      else check_features token_count (mf_end f) fs)"

definition validate_multimodal_features ::
    "multimodal_feature list \<Rightarrow> int \<Rightarrow> exn + multimodal_feature list" where
  "validate_multimodal_features features token_count =
     (if length features > 2 ^ 32 - 1 then Inl (CodecError ''too many multimodal features'')
      else bindE (check_features token_count 0 features) (\<lambda>_. Inr features))"

definition MULTIMODAL_DIGEST_DOMAIN :: string where
  "MULTIMODAL_DIGEST_DOMAIN = CHR 0x00 # ''sparkcache-multimodal-context-v1'' @ [CHR 0x00]"

definition feature_bytes :: "multimodal_feature \<Rightarrow> string" where
  "feature_bytes f =
     little_endian 8 (nat (mf_offset f)) @ little_endian 8 (nat (mf_length f))
     @ little_endian 4 (length (mf_modality f)) @ little_endian 4 (length (mf_identifier f))
     @ mf_modality f @ mf_identifier f"

text \<open>What the media that begin before the boundary add to the digest.\<close>

definition active_features :: "multimodal_feature list \<Rightarrow> int \<Rightarrow> multimodal_feature list" where
  "active_features features token_count = filter (\<lambda>f. mf_offset f < token_count) features"

definition multimodal_identity :: "multimodal_feature list \<Rightarrow> int \<Rightarrow> string" where
  "multimodal_identity features token_count =
     (let active = active_features features token_count in
      if active = [] then []
      else MULTIMODAL_DIGEST_DOMAIN @ little_endian 4 (length active) @ concat (map feature_bytes active))"

section \<open>Digests of prefixes\<close>

definition encode_ascii :: "string \<Rightarrow> exn + string" where
  "encode_ascii s =
     (if \<forall>c\<in>set s. of_char c < (128 :: nat) then Inr s else Inl (ValueError ''UnicodeEncodeError''))"

definition CODEC_CHUNK_TOKENS :: int where "CODEC_CHUNK_TOKENS = 256"

definition context_prefix_digest ::
    "int list \<Rightarrow> string \<Rightarrow> int option \<Rightarrow> multimodal_feature list \<Rightarrow> exn + string" where
  "context_prefix_digest token_ids identity_salt token_count features =
     bindE (u32_array token_ids ''token_ids'') (\<lambda>packed.
     let count = (case token_count of None \<Rightarrow> int (length packed) | Some n \<Rightarrow> n) in
     if \<not> (0 \<le> count \<and> count \<le> int (length packed))
     then Inl (CodecError ''token_count must identify a prefix of token_ids'')
     else
       bindE (validate_multimodal_features features (int (length packed))) (\<lambda>fs.
       bindE (encode_ascii identity_salt) (\<lambda>salt.
       Inr (sha256 (salt @ [CHR 0x00] @ py_slice (u32_bytes packed) 0 (count * int POSITION_SIZE)
              @ multimodal_identity fs count)))))"

definition context_digest :: "int list \<Rightarrow> string \<Rightarrow> multimodal_feature list \<Rightarrow> exn + string" where
  "context_digest token_ids identity_salt features =
     context_prefix_digest token_ids identity_salt None features"

fun check_boundaries :: "int \<Rightarrow> int \<Rightarrow> int \<Rightarrow> int list \<Rightarrow> exn + unit" where
  "check_boundaries chunk n previous [] = Inr ()"
| "check_boundaries chunk n previous (b # bs) =
     (if b \<le> 0 \<or> b mod chunk \<noteq> 0 then Inl (CodecError ''boundaries must be positive multiples of chunk tokens'')
      else if b \<le> previous then Inl (CodecError ''boundaries must be strictly increasing'')
      else if b > n then Inl (CodecError ''boundary must identify a prefix of token_ids'')
      else check_boundaries chunk n b bs)"

text \<open>The one pass over the token bytes; \<open>state\<close> is what the running hash has been given so far.\<close>

fun digest_pass ::
    "string \<Rightarrow> multimodal_feature list \<Rightarrow> string \<Rightarrow> int \<Rightarrow> int list \<Rightarrow> (int \<times> string) list" where
  "digest_pass raw features state previous [] = []"
| "digest_pass raw features state previous (b # bs) =
     (let state' = state @ py_slice raw (previous * int POSITION_SIZE) (b * int POSITION_SIZE)
      in (b, sha256 (state' @ multimodal_identity features b)) # digest_pass raw features state' b bs)"

definition chunk_prefix_digests ::
    "int list \<Rightarrow> string \<Rightarrow> int list \<Rightarrow> multimodal_feature list \<Rightarrow> int \<Rightarrow> exn + (int \<times> string) list" where
  "chunk_prefix_digests token_ids identity_salt boundaries features chunk =
     (if chunk \<le> 0 then Inl (CodecError ''chunk_tokens must be a positive integer'')
      else
        bindE (u32_array token_ids ''token_ids'') (\<lambda>packed.
        bindE (check_boundaries chunk (int (length packed)) 0 boundaries) (\<lambda>_.
        bindE (validate_multimodal_features features (int (length packed))) (\<lambda>fs.
        if boundaries = [] then Inr []
        else
          bindE (encode_ascii identity_salt) (\<lambda>salt.
          Inr (digest_pass (u32_bytes packed) fs (salt @ [CHR 0x00]) 0 boundaries))))))"

section \<open>Layers\<close>

record layer_plan =
  lp_name :: string
  lp_kind :: string
  lp_bytes :: int

definition LayerPlan :: "string \<Rightarrow> string \<Rightarrow> int \<Rightarrow> exn + layer_plan" where
  "LayerPlan name kind n =
     (if n \<le> 0 then Inl (CodecError ''layer has no per-token bytes'')
      else Inr \<lparr>lp_name = name, lp_kind = kind, lp_bytes = n\<rparr>)"

definition lower_char :: "char \<Rightarrow> char" where
  "lower_char c = (if 65 \<le> (of_char c :: nat) \<and> (of_char c :: nat) \<le> 90 then char_of ((of_char c :: nat) + 32) else c)"

text \<open>\<open>pattern in lowered\<close>.\<close>

fun contains :: "string \<Rightarrow> string \<Rightarrow> bool" where
  "contains pat [] = (pat = [])"
| "contains pat (c # s) = (take (length pat) (c # s) = pat \<or> contains pat s)"

fun classify :: "string \<Rightarrow> (string \<times> string) list \<Rightarrow> string \<Rightarrow> string" where
  "classify lowered [] default_family = default_family"
| "classify lowered ((pat, family) # rules) default_family =
     (if contains pat lowered then family else classify lowered rules default_family)"

definition classify_layer :: "string \<Rightarrow> (string \<times> string) list \<Rightarrow> string \<Rightarrow> string" where
  "classify_layer name rules default_family = classify (map lower_char name) rules default_family"

definition build_layer_plans ::
    "(string, int) dict \<Rightarrow> string list \<Rightarrow> string list \<Rightarrow> (string \<times> string) list \<Rightarrow> string \<Rightarrow> exn + layer_plan list" where
  "build_layer_plans layers allow_missing required rules default_family =
     bindE (mapE (\<lambda>(name, n). LayerPlan name (classify_layer name rules default_family) n) (sort_key fst layers)) (\<lambda>plans.
     if set required - set (map lp_kind plans) - set allow_missing \<noteq> {}
     then Inl (CodecError ''no registered cache layer for record kinds'')
     else Inr plans)"

fun record_parts :: "string \<Rightarrow> (string \<Rightarrow> string option) \<Rightarrow> int \<Rightarrow> layer_plan list \<Rightarrow> exn + string list" where
  "record_parts kind layer_rows rows [] = Inr []"
| "record_parts kind layer_rows rows (p # ps) =
     (if lp_kind p \<noteq> kind then record_parts kind layer_rows rows ps
      else
        (case layer_rows (lp_name p) of
           None \<Rightarrow> Inl (CodecError ''missing rows for layer'')
         | Some payload \<Rightarrow>
             if int (length payload) \<noteq> lp_bytes p * rows then Inl (CodecError ''layer rows differ in size'')
             else bindE (record_parts kind layer_rows rows ps) (\<lambda>parts. Inr (payload # parts))))"

definition pack_record ::
    "layer_plan list \<Rightarrow> string \<Rightarrow> (string \<Rightarrow> string option) \<Rightarrow> int \<Rightarrow> exn + string" where
  "pack_record plans kind layer_rows rows =
     bindE (record_parts kind layer_rows rows plans) (\<lambda>parts.
     if parts = [] then Inl (CodecError ''no layers contribute'') else Inr (concat parts))"

fun split_record ::
    "string \<Rightarrow> string \<Rightarrow> int \<Rightarrow> int \<Rightarrow> (string, string) dict \<Rightarrow> layer_plan list
      \<Rightarrow> exn + (string, string) dict \<times> int" where
  "split_record kind payload rows offset out [] = Inr (out, offset)"
| "split_record kind payload rows offset out (p # ps) =
     (if lp_kind p \<noteq> kind then split_record kind payload rows offset out ps
      else
        let n = lp_bytes p * rows in
        if offset + n > int (length payload) then Inl (CodecError ''record truncated'')
        else split_record kind payload rows (offset + n)
               (dput (lp_name p) (py_slice payload offset (offset + n)) out) ps)"

definition unpack_record ::
    "layer_plan list \<Rightarrow> string \<Rightarrow> string \<Rightarrow> int \<Rightarrow> exn + (string, string) dict" where
  "unpack_record plans kind payload rows =
     bindE (split_record kind payload rows 0 [] plans) (\<lambda>(out, offset).
     if out = [] then Inl (CodecError ''no layers contribute'')
     else if offset \<noteq> int (length payload) then Inl (CodecError ''record carries unclaimed trailing bytes'')
     else Inr out)"

section \<open>One pass or many\<close>

lemma length_u32_bytes [simp]: "length (u32_bytes vs) = POSITION_SIZE * length vs"
  by (induction vs) (simp_all add: u32_bytes_def)

lemma u32_array_Inr [simp]: "u32_array vs l = Inr ws \<longleftrightarrow> ws = vs \<and> (\<forall>v\<in>set vs. 0 \<le> v \<and> v < 2 ^ 32)"
  by (auto simp: u32_array_def)

text \<open>The bytes that are hashed for a prefix.\<close>

definition prefix_preimage :: "string \<Rightarrow> int list \<Rightarrow> int \<Rightarrow> multimodal_feature list \<Rightarrow> string" where
  "prefix_preimage salt tokens count features =
     salt @ [CHR 0x00] @ take (nat count * POSITION_SIZE) (u32_bytes tokens) @ multimodal_identity features count"

lemma slice_prefix:
  assumes "0 \<le> n" "n \<le> int (length vs)"
  shows "py_slice (u32_bytes vs) 0 (n * int POSITION_SIZE) = take (nat n * POSITION_SIZE) (u32_bytes vs)"
proof -
  have "n * int POSITION_SIZE \<le> int (length (u32_bytes vs))"
    using mult_right_mono [OF assms(2), of "int POSITION_SIZE"] by (simp add: mult.commute)
  then show ?thesis using assms by (subst py_slice_inside) (simp_all add: nat_mult_distrib)
qed

definition features_ok :: "multimodal_feature list \<Rightarrow> int \<Rightarrow> bool" where
  "features_ok fs n \<longleftrightarrow> length fs \<le> 2 ^ 32 - 1 \<and> check_features n 0 fs = Inr ()"

definition is_ascii :: "string \<Rightarrow> bool" where
  "is_ascii s \<longleftrightarrow> (\<forall>c\<in>set s. of_char c < (128 :: nat))"

lemma validate_features_Inr [simp]: "validate_multimodal_features fs n = Inr gs \<longleftrightarrow> gs = fs \<and> features_ok fs n"
  by (auto simp: validate_multimodal_features_def features_ok_def bindE_Inr)

lemma encode_ascii_Inr [simp]: "encode_ascii s = Inr t \<longleftrightarrow> t = s \<and> is_ascii s"
  by (auto simp: encode_ascii_def is_ascii_def)

lemma context_prefix_digest_Some:
  "context_prefix_digest tokens salt (Some n) features = Inr d \<longleftrightarrow>
     (\<forall>v\<in>set tokens. 0 \<le> v \<and> v < 2 ^ 32) \<and> 0 \<le> n \<and> n \<le> int (length tokens)
     \<and> features_ok features (int (length tokens)) \<and> is_ascii salt
     \<and> d = sha256 (prefix_preimage salt tokens n features)"
  by (auto simp: context_prefix_digest_def bindE_Inr Let_def prefix_preimage_def slice_prefix)

lemma slice_step:
  assumes "0 \<le> a" "a < b" "b \<le> int (length vs)"
  shows "take (nat a * POSITION_SIZE) (u32_bytes vs) @ py_slice (u32_bytes vs) (a * int POSITION_SIZE) (b * int POSITION_SIZE)
    = take (nat b * POSITION_SIZE) (u32_bytes vs)"
proof -
  have "b * int POSITION_SIZE \<le> int (length (u32_bytes vs))"
    using mult_right_mono [OF assms(3), of "int POSITION_SIZE"] by (simp add: mult.commute)
  moreover have "a * int POSITION_SIZE \<le> b * int POSITION_SIZE" using assms(2) by (simp add: mult_right_mono)
  moreover have "nat (b * int POSITION_SIZE - a * int POSITION_SIZE) = nat b * POSITION_SIZE - nat a * POSITION_SIZE"
    using assms by (simp add: nat_diff_distrib' nat_mult_distrib)
  moreover have "nat a * POSITION_SIZE \<le> nat b * POSITION_SIZE" using assms by (simp add: mult_right_mono nat_mono)
  ultimately show ?thesis
    using assms take_add [of "nat a * POSITION_SIZE" "nat b * POSITION_SIZE - nat a * POSITION_SIZE" "u32_bytes vs"]
    by (subst py_slice_inside) (simp_all add: nat_mult_distrib)
qed

lemma digest_pass_exact:
  assumes "check_boundaries chunk (int (length vs)) a bs = Inr ()" "0 \<le> a"
    and "state = pre @ take (nat a * POSITION_SIZE) (u32_bytes vs)"
  shows "digest_pass (u32_bytes vs) fs state a bs
    = map (\<lambda>b. (b, sha256 (pre @ take (nat b * POSITION_SIZE) (u32_bytes vs) @ multimodal_identity fs b))) bs"
  using assms
proof (induction bs arbitrary: a state)
  case (Cons b bs)
  then have b: "a < b" "b \<le> int (length vs)" "check_boundaries chunk (int (length vs)) b bs = Inr ()" "0 \<le> b"
    by (auto split: if_splits)
  define state' where "state' = state @ py_slice (u32_bytes vs) (a * int POSITION_SIZE) (b * int POSITION_SIZE)"
  have "state' = pre @ take (nat b * POSITION_SIZE) (u32_bytes vs)"
    using slice_step [OF Cons.prems(2) b(1,2)] Cons.prems(3) by (simp add: state'_def)
  then show ?case using Cons.IH [OF b(3,4)] by (simp add: Let_def state'_def [symmetric])
qed simp

lemma boundaries_inside:
  "check_boundaries chunk n a bs = Inr () \<Longrightarrow> b \<in> set bs \<Longrightarrow> 0 < b \<and> b \<le> n"
  by (induction bs arbitrary: a) (auto split: if_splits)

lemma pass_digests:
  assumes "chunk_prefix_digests tokens salt boundaries features chunk = Inr ds"
  shows "map fst ds = boundaries
    \<and> (\<forall>(b, d)\<in>set ds. context_prefix_digest tokens salt (Some b) features = Inr d)"
proof -
  have v: "\<forall>v\<in>set tokens. 0 \<le> v \<and> v < 2 ^ 32" "check_boundaries chunk (int (length tokens)) 0 boundaries = Inr ()"
    "features_ok features (int (length tokens))"
    "boundaries \<noteq> [] \<Longrightarrow> is_ascii salt \<and> ds = digest_pass (u32_bytes tokens) features (salt @ [CHR 0x00]) 0 boundaries"
    "boundaries = [] \<Longrightarrow> ds = []"
    using assms
    by (auto simp: chunk_prefix_digests_def bindE_Inr split: if_splits)
  show ?thesis
  proof (cases "boundaries = []")
    case False
    then have ds: "ds = map (\<lambda>b. (b, sha256 (prefix_preimage salt tokens b features))) boundaries"
      using v(4) digest_pass_exact [OF v(2), of "salt @ [CHR 0x00]" "salt @ [CHR 0x00]" features]
      by (simp add: prefix_preimage_def)
    have "context_prefix_digest tokens salt (Some b) features = Inr d" if "(b, d) \<in> set ds" for b d
      using that ds v(1,3,4) False boundaries_inside [OF v(2), of b] by (auto simp: context_prefix_digest_Some)
    moreover have "map fst ds = boundaries" by (simp add: ds comp_def)
    ultimately show ?thesis by blast
  qed (use v(5) in simp)
qed

text \<open>What the writers of aliases rely on: one call gives, for every boundary asked for, the digest that the
  prefix has on its own.\<close>

locale prefix_digester =
  fixes digests :: "'t \<Rightarrow> int list \<Rightarrow> exn + (int \<times> string) list"
    and digest :: "'t \<Rightarrow> int \<Rightarrow> exn + string"
  assumes covered: "digests t bs = Inr ds \<Longrightarrow> map fst ds = bs"
    and agreed: "digests t bs = Inr ds \<Longrightarrow> (b, d) \<in> set ds \<Longrightarrow> digest t b = Inr d"
begin

lemma digest_at: "digests t bs = Inr ds \<Longrightarrow> map_of ds b = Some d \<Longrightarrow> digest t b = Inr d"
  using agreed map_of_SomeD by fastforce

lemma digest_everywhere:
  assumes "digests t bs = Inr ds" "b \<in> set bs" shows "\<exists>d. map_of ds b = Some d \<and> digest t b = Inr d"
proof -
  have "b \<in> fst ` set ds" using covered [OF assms(1)] assms(2) by force
  then obtain d where "map_of ds b = Some d" by (metis map_of_eq_None_iff not_None_eq)
  then show ?thesis using digest_at [OF assms(1)] by blast
qed

end

interpretation codec_digests: prefix_digester
  "\<lambda>(tokens, salt, features, chunk) bs. chunk_prefix_digests tokens salt bs features chunk"
  "\<lambda>(tokens, salt, features, chunk) b. context_prefix_digest tokens salt (Some b) features"
  by unfold_locales (auto dest!: pass_digests split: prod.splits)

text \<open>C32: The one pass over the tokens gives exactly the digests of the requested prefixes, in order: each is
  what hashing that prefix and its media on their own would give.\<close>

theorem prefix_digests_exact:
  assumes "chunk_prefix_digests tokens salt boundaries features chunk = Inr ds"
  shows "map fst ds = boundaries
    \<and> (\<forall>(b, d)\<in>set ds. context_prefix_digest tokens salt (Some b) features = Inr d)"
  using codec_digests.covered [of "(tokens, salt, features, chunk)"]
    codec_digests.agreed [of "(tokens, salt, features, chunk)"] assms by auto

theorem prefix_digests_exact_witness:
  "\<exists>d. chunk_prefix_digests [7, 8, 9] ''salt'' [2] [] 2 = Inr [(2, d)]
    \<and> context_prefix_digest [7, 8, 9] ''salt'' (Some 2) [] = Inr d"
proof -
  obtain d where d: "chunk_prefix_digests [7, 8, 9] ''salt'' [2] [] 2 = Inr [(2, d)]"
    by (simp add: chunk_prefix_digests_def u32_array_def validate_multimodal_features_def encode_ascii_def Let_def)
  from prefix_digests_exact [OF d] d show ?thesis by auto
qed

end
