(* ===== verification/Codec_Laws.thy ===== *)
theory Codec_Laws
  imports Codec
begin

text \<open>
  What the codec guarantees: prefixes with different tokens or media are hashed from different bytes as
  long as token ids stay below \<open>2 ^ 24\<close> (and not in general), packed records and positions are read back,
  and the ranks of a shard group split the tokens among themselves without sharing a slot.
\<close>

section \<open>Which prefixes can share a digest\<close>

lemma little_endian_inject:
  "m < 256 ^ k \<Longrightarrow> n < 256 ^ k \<Longrightarrow> little_endian k m = little_endian k n \<Longrightarrow> m = n"
  by (metis of_little_endian)

lemma position_bytes:
  "little_endian POSITION_SIZE n = [char_of (n mod 256), char_of (n div 256 mod 256),
     char_of (n div 256 div 256 mod 256), char_of (n div 256 div 256 div 256 mod 256)]"
proof -
  have "POSITION_SIZE = Suc (Suc (Suc (Suc 0)))" by (simp add: POSITION_SIZE_def)
  then show ?thesis by (rule ssubst) (simp only: little_endian.simps)
qed

lemma u32_bytes_simps [simp]:
  "u32_bytes [] = []" "u32_bytes (v # vs) = little_endian POSITION_SIZE (nat v) @ u32_bytes vs"
  by (simp_all add: u32_bytes_def)

lemma take_u32_bytes: "take (n * POSITION_SIZE) (u32_bytes vs) = u32_bytes (take n vs)"
proof (induction vs arbitrary: n)
  case (Cons v vs)
  then show ?case by (cases n) simp_all
qed simp

lemma feature_bounds:
  "check_features n a fs = Inr () \<Longrightarrow> f \<in> set fs \<Longrightarrow> 0 \<le> a \<Longrightarrow>
     nat (mf_offset f) < 256 ^ 8 \<and> nat (mf_length f) < 256 ^ 8
     \<and> length (mf_modality f) < 256 ^ 4 \<and> length (mf_identifier f) < 256 ^ 4 \<and> 0 \<le> mf_offset f \<and> 0 \<le> mf_length f"
  by (induction fs arbitrary: a) (auto simp: mf_end_def split: if_splits)

definition bounded_feature :: "multimodal_feature \<Rightarrow> bool" where
  "bounded_feature f \<longleftrightarrow> nat (mf_offset f) < 256 ^ 8 \<and> nat (mf_length f) < 256 ^ 8
     \<and> length (mf_modality f) < 256 ^ 4 \<and> length (mf_identifier f) < 256 ^ 4 \<and> 0 \<le> mf_offset f \<and> 0 \<le> mf_length f"

lemma feature_bytes_inject:
  assumes "bounded_feature f" "bounded_feature g" "feature_bytes f @ x = feature_bytes g @ y"
  shows "f = g \<and> x = y"
proof -
  have len: "length (little_endian k n) = k" for k n by simp
  from assms(3) have p: "little_endian 8 (nat (mf_offset f)) = little_endian 8 (nat (mf_offset g))"
    "little_endian 8 (nat (mf_length f)) = little_endian 8 (nat (mf_length g))"
    "little_endian 4 (length (mf_modality f)) = little_endian 4 (length (mf_modality g))"
    "little_endian 4 (length (mf_identifier f)) = little_endian 4 (length (mf_identifier g))"
    "mf_modality f @ mf_identifier f @ x = mf_modality g @ mf_identifier g @ y"
    by (simp_all add: feature_bytes_def append_eq_append_conv)
  have "nat (mf_offset f) = nat (mf_offset g)" "nat (mf_length f) = nat (mf_length g)"
    "length (mf_modality f) = length (mf_modality g)" "length (mf_identifier f) = length (mf_identifier g)"
    using p(1-4) assms(1,2) little_endian_inject unfolding bounded_feature_def by blast+
  then show ?thesis using p(5) assms(1,2)
    by (auto simp: bounded_feature_def append_eq_append_conv intro!: multimodal_feature.equality)
qed

lemma features_inject:
  "length fs = length gs \<Longrightarrow> \<forall>f\<in>set fs. bounded_feature f \<Longrightarrow> \<forall>g\<in>set gs. bounded_feature g
    \<Longrightarrow> concat (map feature_bytes fs) = concat (map feature_bytes gs) \<Longrightarrow> fs = gs"
proof (induction fs gs rule: list_induct2)
  case (Cons f fs g gs)
  have eq: "feature_bytes f @ concat (map feature_bytes fs) = feature_bytes g @ concat (map feature_bytes gs)"
    using Cons.prems(3) by (simp only: list.map concat.simps)
  have "f = g \<and> concat (map feature_bytes fs) = concat (map feature_bytes gs)"
    by (rule feature_bytes_inject [OF _ _ eq]) (use Cons.prems(1,2) in simp_all)
  with Cons show ?case by simp
qed simp

lemma features_ok_bounded: "features_ok fs n \<Longrightarrow> f \<in> set fs \<Longrightarrow> bounded_feature f"
  using feature_bounds [of n 0 fs f] by (auto simp: features_ok_def bounded_feature_def)

lemma identity_inject:
  assumes "features_ok fs n" "features_ok gs m" "multimodal_identity fs a = multimodal_identity gs b"
  shows "active_features fs a = active_features gs b"
proof -
  have small: "length (active_features hs c) < 256 ^ 4" if "features_ok hs k" for hs c k
  proof -
    have "length (active_features hs c) \<le> length hs" by (simp add: active_features_def)
    moreover have "length hs \<le> 2 ^ 32 - 1" using that by (simp only: features_ok_def)
    ultimately have "length (active_features hs c) \<le> 2 ^ 32 - 1" by (rule le_trans)
    moreover have "(2 :: nat) ^ 32 - 1 < 256 ^ 4" by simp
    ultimately show ?thesis by (rule le_less_trans)
  qed
  show ?thesis
  proof (cases "active_features fs a = [] \<or> active_features gs b = []")
    case True
    then show ?thesis using assms(3)
      by (auto simp: multimodal_identity_def Let_def MULTIMODAL_DIGEST_DOMAIN_def split: if_splits)
  next
    case False
    then have "little_endian 4 (length (active_features fs a)) = little_endian 4 (length (active_features gs b))"
      "concat (map feature_bytes (active_features fs a)) = concat (map feature_bytes (active_features gs b))"
      using assms(3) by (simp_all add: multimodal_identity_def Let_def append_eq_append_conv)
    then show ?thesis
      using features_inject little_endian_inject [OF small [OF assms(1)] small [OF assms(2)]]
        features_ok_bounded [OF assms(1)] features_ok_bounded [OF assms(2)]
      by (metis active_features_def filter_is_subset subsetD)
  qed
qed

text \<open>The fourth byte of the media part is a letter, that of a token below \<open>2 ^ 24\<close> is zero.\<close>

lemma token_no_domain:
  assumes "0 \<le> v" "v < 2 ^ 24"
  shows "little_endian POSITION_SIZE (nat v) @ rest \<noteq> MULTIMODAL_DIGEST_DOMAIN @ x"
proof
  assume eq: "little_endian POSITION_SIZE (nat v) @ rest = MULTIMODAL_DIGEST_DOMAIN @ x"
  then have "char_of (nat v div 256 div 256 div 256 mod 256) = CHR ''a''"
    by (simp add: position_bytes MULTIMODAL_DIGEST_DOMAIN_def)
  moreover have "nat v div 256 div 256 div 256 = 0" using assms by (simp add: div_mult2_eq [symmetric])
  ultimately show False by (simp add: char_of_def)
qed

lemma token_not_empty: "little_endian POSITION_SIZE n @ rest \<noteq> []"
  by (simp add: position_bytes)

lemma identity_cases: "multimodal_identity fs a = [] \<or> (\<exists>x. multimodal_identity fs a = MULTIMODAL_DIGEST_DOMAIN @ x)"
  by (simp add: multimodal_identity_def Let_def)

lemma token_no_identity:
  "0 \<le> v \<Longrightarrow> v < 2 ^ 24 \<Longrightarrow> multimodal_identity fs a \<noteq> little_endian POSITION_SIZE (nat v) @ rest"
  using identity_cases [of fs a] token_no_domain [of v rest] token_not_empty [of "nat v" rest] by metis

lemma preimage_tokens:
  assumes "\<forall>v\<in>set us. 0 \<le> v \<and> v < 2 ^ 24" "\<forall>v\<in>set vs. 0 \<le> v \<and> v < 2 ^ 24"
    and "u32_bytes us @ multimodal_identity fs a = u32_bytes vs @ multimodal_identity gs b"
  shows "us = vs \<and> multimodal_identity fs a = multimodal_identity gs b"
  using assms
proof (induction us arbitrary: vs)
  case Nil
  show ?case
  proof (cases vs)
    case (Cons v ws)
    have "multimodal_identity fs a = little_endian POSITION_SIZE (nat v) @ u32_bytes ws @ multimodal_identity gs b"
      using Nil.prems(3) Cons by simp
    then show ?thesis using token_no_identity Nil.prems(2) Cons by simp
  qed (use Nil in simp)
next
  case (Cons u us)
  show ?case
  proof (cases vs)
    case Nil
    then have "multimodal_identity gs b = little_endian POSITION_SIZE (nat u) @ u32_bytes us @ multimodal_identity fs a"
      using Cons.prems(3) by simp
    then show ?thesis using token_no_identity Cons.prems(1) by simp
  next
    case (Cons v ws)
    have eq: "little_endian POSITION_SIZE (nat u) = little_endian POSITION_SIZE (nat v)"
      "u32_bytes us @ multimodal_identity fs a = u32_bytes ws @ multimodal_identity gs b"
      using Cons.prems(3) Cons by (simp_all add: append_eq_append_conv)
    have "nat u < 256 ^ POSITION_SIZE" "nat v < 256 ^ POSITION_SIZE"
      using Cons.prems(1,2) Cons by (simp_all add: POSITION_SIZE_def nat_less_iff)
    then have "nat u = nat v" using eq(1) by (rule little_endian_inject)
    then have "u = v" using Cons.prems(1,2) Cons by (simp add: nat_eq_iff)
    moreover have "us = ws \<and> multimodal_identity fs a = multimodal_identity gs b"
      using eq(2) Cons.prems(1,2) Cons by (intro Cons.IH) simp_all
    ultimately show ?thesis using Cons by simp
  qed
qed

text \<open>C33: A digest identifies what it stands for: two prefixes under the same salt, with token ids below
  \<open>2 ^ 24\<close>, that have the same digest are prefixes of the same length with the same tokens and the same
  media in them, or else their two hashed texts are a SHA-256 collision.\<close>

theorem prefix_digest_separates:
  assumes "context_prefix_digest us salt (Some m) fs = Inr d" "context_prefix_digest vs salt (Some n) gs = Inr d"
    and "\<forall>v\<in>set us \<union> set vs. v < 2 ^ 24"
  shows "(m = n \<and> take (nat m) us = take (nat n) vs \<and> active_features fs m = active_features gs n)
    \<or> (prefix_preimage salt us m fs \<noteq> prefix_preimage salt vs n gs
       \<and> sha256 (prefix_preimage salt us m fs) = sha256 (prefix_preimage salt vs n gs))"
proof (cases "prefix_preimage salt us m fs = prefix_preimage salt vs n gs")
  case same: True
  note u = assms(1) [unfolded context_prefix_digest_Some]
  note v = assms(2) [unfolded context_prefix_digest_Some]
  from same have eq: "u32_bytes (take (nat m) us) @ multimodal_identity fs m = u32_bytes (take (nat n) vs) @ multimodal_identity gs n"
    by (simp add: prefix_preimage_def take_u32_bytes)
  have "take (nat m) us = take (nat n) vs \<and> multimodal_identity fs m = multimodal_identity gs n"
    using u v assms(3) by (intro preimage_tokens [OF _ _ eq]) (auto dest!: in_set_takeD)
  moreover from this have "nat m = nat n" using u v by (metis length_take min.absorb2 nat_le_iff)
  ultimately have "m = n \<and> take (nat m) us = take (nat n) vs \<and> active_features fs m = active_features gs n"
    using identity_inject u v by (metis eq_nat_nat_iff)
  then show ?thesis ..
next
  case False
  then show ?thesis using assms(1,2) by (auto simp: context_prefix_digest_Some)
qed

theorem prefix_digest_separates_witness:
  "\<exists>d. context_prefix_digest [7, 8] ''salt'' (Some 1) [] = Inr d \<and> context_prefix_digest [7, 9] ''salt'' (Some 1) [] = Inr d
    \<and> take 1 [7, 8 :: int] = take 1 [7, 9]"
proof -
  obtain d where d: "context_prefix_digest [7, 8] ''salt'' (Some 1) [] = Inr d"
    "context_prefix_digest [7, 9] ''salt'' (Some 1) [] = Inr d"
    by (simp add: context_prefix_digest_Some features_ok_def is_ascii_def prefix_preimage_def POSITION_SIZE_def)
  from prefix_digest_separates [OF d] d show ?thesis
    by (auto simp: prefix_preimage_def POSITION_SIZE_def)
qed

text \<open>Without the bound on token ids the digest does not separate tokens from media: the bytes that a
  media feature adds can be spelt out as further token ids.\<close>

lemma whole_words:
  assumes "length s mod POSITION_SIZE = 0" "s \<noteq> []"
  shows "POSITION_SIZE \<le> length s" "length (drop POSITION_SIZE s) mod POSITION_SIZE = 0"
proof -
  show len: "POSITION_SIZE \<le> length s"
  proof (rule ccontr)
    assume "\<not> POSITION_SIZE \<le> length s"
    then have "length s mod POSITION_SIZE = length s" by simp
    then show False using assms by simp
  qed
  show "length (drop POSITION_SIZE s) mod POSITION_SIZE = 0" using assms(1) le_mod_geq [OF len] by simp
qed

lemma little_endian_of: "length t = k \<Longrightarrow> little_endian k (of_little_endian t) = t"
proof (induction k arbitrary: t)
  case (Suc k)
  then obtain c t' where t: "t = c # t'" "length t' = k" by (auto simp: length_Suc_conv)
  have c: "of_char c < (256 :: nat)" by (rule of_char_less)
  then have "(of_char c + 256 * of_little_endian t') mod 256 = (of_char c :: nat)"
    "(of_char c + 256 * of_little_endian t') div 256 = of_little_endian t'" by simp_all
  then show ?case using Suc.IH [OF t(2)] by (simp add: t)
qed simp

lemma u32_values_bytes: "length s mod POSITION_SIZE = 0 \<Longrightarrow> u32_bytes (u32_values s) = s"
proof (induction s rule: u32_values.induct)
  case (1 s)
  show ?case
  proof (cases "s = []")
    case False
    note w = whole_words [OF 1(2) False]
    have "u32_bytes (u32_values (drop POSITION_SIZE s)) = drop POSITION_SIZE s" using 1(1) [OF False w(2)] .
    moreover have "little_endian POSITION_SIZE (of_little_endian (take POSITION_SIZE s)) = take POSITION_SIZE s"
      using w(1) by (intro little_endian_of) simp
    moreover have "u32_values s = int (of_little_endian (take POSITION_SIZE s)) # u32_values (drop POSITION_SIZE s)"
      using False by (subst u32_values.simps) simp
    ultimately show ?thesis by simp
  qed (simp add: u32_values.simps)
qed

lemma of_little_endian_less: "of_little_endian t < 256 ^ length t"
proof (induction t)
  case (Cons c t)
  have c: "of_char c < (256 :: nat)" by (rule of_char_less)
  have "of_char c + 256 * of_little_endian t < 256 * (of_little_endian t + 1)" using c by simp
  also have "\<dots> \<le> 256 * 256 ^ length t" using Cons by (intro mult_left_mono) simp_all
  finally show ?case by simp
qed simp

lemma u32_values_range: "length s mod POSITION_SIZE = 0 \<Longrightarrow> v \<in> set (u32_values s) \<Longrightarrow> 0 \<le> v \<and> v < 2 ^ 32"
proof (induction s rule: u32_values.induct)
  case (1 s)
  show ?case
  proof (cases "s = []")
    case False
    note w = whole_words [OF 1(2) False]
    have "of_little_endian (take POSITION_SIZE s) < 256 ^ 4"
      using of_little_endian_less [of "take POSITION_SIZE s"] w(1) by (simp add: POSITION_SIZE_def)
    moreover have "u32_values s = int (of_little_endian (take POSITION_SIZE s)) # u32_values (drop POSITION_SIZE s)"
      using False by (subst u32_values.simps) simp
    ultimately show ?thesis using 1(1) [OF False w(2)] 1(3) by auto
  qed (use 1 in \<open>simp add: u32_values.simps\<close>)
qed

definition spoofed_feature :: multimodal_feature where
  "spoofed_feature = \<lparr>mf_modality = ''image'', mf_identifier = ''ident'', mf_offset = 0, mf_length = 1\<rparr>"

text \<open>C35: Without the bound on token ids the digest does not determine the context: one token with a media
  item and a longer sequence of bare 32-bit token ids have the same digest.\<close>

theorem digest_media_ambiguity:
  "\<exists>tokens d. context_digest [5] ''salt'' [spoofed_feature] = Inr d \<and> context_digest tokens ''salt'' [] = Inr d
     \<and> 1 < length tokens"
proof -
  define media where "media = multimodal_identity [spoofed_feature] 1"
  have len: "length media = 72"
    by (simp add: media_def multimodal_identity_def active_features_def spoofed_feature_def feature_bytes_def
        MULTIMODAL_DIGEST_DOMAIN_def Let_def)
  then have four: "length media mod POSITION_SIZE = 0" by (simp add: POSITION_SIZE_def)
  let ?tokens = "5 # u32_values media"
  have ok: "\<forall>v\<in>set ?tokens. 0 \<le> v \<and> v < 2 ^ 32" using u32_values_range [OF four] by auto
  have whole: "context_digest vs salt fs = context_prefix_digest vs salt (Some (int (length vs))) fs" for vs salt fs
    by (cases "u32_array vs ''token_ids''")
       (auto simp: context_digest_def context_prefix_digest_def u32_array_def Let_def split: if_splits)
  have pre: "prefix_preimage salt vs (int (length vs)) fs = salt @ [CHR 0x00] @ u32_bytes vs @ multimodal_identity fs (int (length vs))"
    for salt vs fs by (simp add: prefix_preimage_def take_u32_bytes)
  have none: "multimodal_identity [] n = []" for n by (simp add: multimodal_identity_def active_features_def)
  define d where "d = sha256 (''salt'' @ [CHR 0x00] @ u32_bytes [5] @ media)"
  have "context_digest [5] ''salt'' [spoofed_feature] = Inr d"
    unfolding whole context_prefix_digest_Some pre
    by (simp add: features_ok_def spoofed_feature_def is_ascii_def mf_end_def d_def media_def)
  moreover have "context_digest ?tokens ''salt'' [] = Inr d"
    unfolding whole context_prefix_digest_Some pre
    using ok u32_values_bytes [OF four] by (simp add: features_ok_def is_ascii_def none d_def)
  moreover have "u32_values media \<noteq> []" using len by (subst u32_values.simps) auto
  ultimately show ?thesis by (intro exI [of _ ?tokens]) auto
qed

section \<open>Packing and unpacking\<close>

lemma u32_bytes_values: "\<forall>v\<in>set vs. 0 \<le> v \<and> v < 2 ^ 32 \<Longrightarrow> u32_values (u32_bytes vs) = vs"
proof (induction vs)
  case (Cons v vs)
  have "of_little_endian (little_endian POSITION_SIZE (nat v)) = nat v"
    using Cons.prems by (intro of_little_endian) (simp add: POSITION_SIZE_def nat_less_iff)
  then show ?case using Cons token_not_empty by (subst u32_values.simps) simp
qed (simp add: u32_values.simps)

lemma concat_parts_length:
  "record_parts kind rows_of rows ps = Inr parts \<Longrightarrow>
     int (length (concat parts)) = (\<Sum>p\<leftarrow>filter (\<lambda>p. lp_kind p = kind) ps. lp_bytes p * rows)
     \<and> (\<forall>p\<in>set ps. lp_kind p = kind \<longrightarrow> 0 \<le> lp_bytes p * rows)"
proof (induction ps arbitrary: parts)
  case (Cons p ps)
  show ?case
  proof (cases "lp_kind p = kind")
    case True
    then obtain payload rest where r: "rows_of (lp_name p) = Some payload" "int (length payload) = lp_bytes p * rows"
      "record_parts kind rows_of rows ps = Inr rest" "parts = payload # rest"
      using Cons.prems by (auto simp: bindE_Inr split: option.splits if_splits)
    then have "0 \<le> lp_bytes p * rows" using of_nat_0_le_iff [of "length payload"] by simp
    then show ?thesis using Cons.IH [OF r(3)] r True by auto
  qed (use Cons in auto)
qed simp

lemma split_packed:
  "record_parts kind rows_of rows ps = Inr parts \<Longrightarrow> length pre = nat offset \<Longrightarrow> 0 \<le> offset \<Longrightarrow>
    \<exists>out'. split_record kind (pre @ concat parts) rows offset out ps = Inr (out', offset + int (length (concat parts)))
      \<and> (\<forall>n. dget out' n = (if \<exists>p\<in>set ps. lp_kind p = kind \<and> lp_name p = n then rows_of n else dget out n))
      \<and> (out' = [] \<longleftrightarrow> out = [] \<and> parts = [])"
proof (induction ps arbitrary: parts pre offset out)
  case (Cons p ps)
  show ?case
  proof (cases "lp_kind p = kind")
    case True
    then obtain payload rest where r: "rows_of (lp_name p) = Some payload" "int (length payload) = lp_bytes p * rows"
      "record_parts kind rows_of rows ps = Inr rest" "parts = payload # rest"
      using Cons.prems(1) by (auto simp: bindE_Inr split: option.splits if_splits)
    let ?all = "pre @ concat parts" and ?n = "lp_bytes p * rows"
    have all: "?all = (pre @ payload) @ concat rest" by (simp add: r(4))
    have slice: "py_slice ?all offset (offset + ?n) = payload"
      using Cons.prems(2,3) r(2,4) by (subst py_slice_inside) auto
    have "length (pre @ payload) = nat (offset + ?n)" "0 \<le> offset + ?n"
      using Cons.prems(2,3) r(2) of_nat_0_le_iff [of "length payload"] by simp_all
    from Cons.IH [OF r(3) this, of "dput (lp_name p) payload out"] obtain out' where
      o: "split_record kind ?all rows (offset + ?n) (dput (lp_name p) payload out) ps
          = Inr (out', offset + ?n + int (length (concat rest)))"
        "\<forall>n. dget out' n = (if \<exists>p\<in>set ps. lp_kind p = kind \<and> lp_name p = n then rows_of n
            else dget (dput (lp_name p) payload out) n)"
        "out' = [] \<longleftrightarrow> dput (lp_name p) payload out = [] \<and> rest = []"
      unfolding all by blast
    have "dput (lp_name p) payload out \<noteq> []" by (cases out) (auto split: if_splits)
    moreover have "offset + ?n \<le> int (length ?all)" using Cons.prems(2,3) r(2,4) by simp
    ultimately show ?thesis
      using o True r(1,2,4) slice by (intro exI [of _ out']) (auto simp: Let_def)
  next
    case False
    then have "record_parts kind rows_of rows ps = Inr parts" using Cons.prems(1) by simp
    from Cons.IH [OF this Cons.prems(2,3), of out] False show ?thesis by auto
  qed
qed simp

lemma record_roundtrip:
  assumes "pack_record plans kind layer_rows rows = Inr payload"
  shows "\<exists>out. unpack_record plans kind payload rows = Inr out
        \<and> (\<forall>n. dget out n = (if \<exists>p\<in>set plans. lp_kind p = kind \<and> lp_name p = n then layer_rows n else None))"
proof -
  obtain parts where p: "record_parts kind layer_rows rows plans = Inr parts" "parts \<noteq> []" "payload = concat parts"
    using assms by (auto simp: pack_record_def bindE_Inr split: if_splits)
  have nil: "length [] = nat 0" by simp
  from split_packed [OF p(1) nil, of "[]"] obtain out where
    "split_record kind payload rows 0 [] plans = Inr (out, int (length payload))"
    "\<forall>n. dget out n = (if \<exists>p\<in>set plans. lp_kind p = kind \<and> lp_name p = n then layer_rows n else dget [] n)"
    "out = [] \<longleftrightarrow> parts = []"
    unfolding p(3) append_Nil by auto
  then show ?thesis using p(2) unfolding map_of.simps(1) by (auto simp: unpack_record_def)
qed

lemma positions_roundtrip:
  assumes "pack_positions positions = Inr bytes"
  shows "unpack_positions bytes = Inr positions"
proof -
  have p: "positions \<noteq> []" "\<forall>v\<in>set positions. 0 \<le> v \<and> v < 2 ^ 32" "bytes = u32_bytes positions"
    using assms by (auto simp: pack_positions_def pack_u32_def bindE_Inr split: if_splits)
  have "u32_bytes positions \<noteq> []" using p(1) token_not_empty by (cases positions) simp_all
  then show ?thesis using p u32_bytes_values [OF p(2)] by (simp add: unpack_positions_def)
qed

text \<open>C34: What the codec packs it unpacks: a packed record gives back the rows of exactly the layers of its
  kind, with every byte claimed, and packed positions give back the positions.\<close>

theorem codec_roundtrip:
  assumes "pack_record plans kind layer_rows rows = Inr payload" "pack_positions positions = Inr bytes"
  shows "(\<exists>out. unpack_record plans kind payload rows = Inr out
        \<and> (\<forall>n. dget out n = (if \<exists>p\<in>set plans. lp_kind p = kind \<and> lp_name p = n then layer_rows n else None)))
    \<and> unpack_positions bytes = Inr positions"
  using record_roundtrip [OF assms(1)] positions_roundtrip [OF assms(2)] by blast

theorem codec_roundtrip_witness:
  "\<exists>out. unpack_record [\<lparr>lp_name = ''l0'', lp_kind = ''kv'', lp_bytes = 2\<rparr>] ''kv'' ''abcd'' 2 = Inr out
    \<and> dget out ''l0'' = Some ''abcd'' \<and> unpack_positions (u32_bytes [3, 5]) = Inr [3, 5]"
proof -
  have r: "pack_record [\<lparr>lp_name = ''l0'', lp_kind = ''kv'', lp_bytes = 2\<rparr>] ''kv'' [''l0'' \<mapsto> ''abcd''] 2 = Inr ''abcd''"
    by (simp add: pack_record_def)
  have p: "pack_positions [3, 5] = Inr (u32_bytes [3, 5])"
    by (simp add: pack_positions_def pack_u32_def u32_array_def)
  from codec_roundtrip [OF r p] show ?thesis by auto
qed

section \<open>Shards\<close>

lemma set_py_range:
  "0 < step \<Longrightarrow> x \<in> set (py_range a b step) \<longleftrightarrow> a \<le> x \<and> x < b \<and> x mod step = a mod step"
proof (induction a b step rule: py_range.induct)
  case (1 a b step)
  show ?case
  proof (cases "b \<le> a")
    case False
    have IH: "x \<in> set (py_range (a + step) b step) \<longleftrightarrow> a + step \<le> x \<and> x < b \<and> x mod step = a mod step"
      using 1 False by simp
    have "x = a \<or> a + step \<le> x" if "a \<le> x" "x mod step = a mod step"
    proof (rule ccontr)
      assume n: "\<not> (x = a \<or> a + step \<le> x)"
      have "(x - a) mod step = 0" using that(2) by (simp add: mod_eq_dvd_iff)
      then have "x - a = 0" using n that(1) by (simp add: mod_pos_pos_trivial)
      then show False using n by simp
    qed
    then show ?thesis using False 1(2) IH by (subst py_range.simps) auto
  qed (simp add: py_range.simps)
qed

lemma owned_positions_Inr:
  "owned_positions span degree rank = Inr ps \<Longrightarrow>
     0 < span \<and> 0 \<le> rank \<and> rank < degree \<and> (\<forall>x. x \<in> set ps \<longleftrightarrow> 0 \<le> x \<and> x < span \<and> x mod degree = rank)"
  by (auto simp: owned_positions_def set_py_range split: if_splits)
     (metis mod_pos_pos_trivial mod_mod_trivial zmod_le_nonneg_dividend)+

lemma py_range_sorted: "0 < step \<Longrightarrow> sorted_wrt (<) (py_range a b step)"
proof (induction a b step rule: py_range.induct)
  case (1 a b step)
  show ?case
  proof (cases "b \<le> a")
    case False
    then have "sorted_wrt (<) (py_range (a + step) b step)" using 1 by simp
    then show ?thesis using False 1(2) by (subst py_range.simps) (simp add: set_py_range)
  qed (simp add: py_range.simps)
qed

lemma owned_positions_distinct: "owned_positions span degree rank = Inr ps \<Longrightarrow> distinct ps"
  using py_range_sorted [of degree rank span]
  by (auto simp: owned_positions_def strict_sorted_iff split: if_splits)

definition slot_of :: "int list \<Rightarrow> int \<Rightarrow> int \<Rightarrow> int \<Rightarrow> int" where
  "slot_of blocks bs degree p = blocks ! nat (p div degree div bs) * bs + p div degree mod bs"

lemma local_slots_Inr:
  "local_slots capacity blocks bs degree ps = Inr slots \<Longrightarrow> 0 < bs \<Longrightarrow> capacity = int (length blocks) * bs
    \<Longrightarrow> \<forall>p\<in>set ps. 0 \<le> p \<Longrightarrow> 0 < degree \<Longrightarrow>
    slots = map (slot_of blocks bs degree) ps \<and> (\<forall>p\<in>set ps. p div degree div bs < int (length blocks))"
proof (induction ps arbitrary: slots)
  case (Cons p ps)
  let ?o = "p div degree"
  have o: "0 \<le> ?o" "0 \<le> ?o div bs" using Cons.prems by (simp_all add: pos_imp_zdiv_nonneg_iff)
  obtain k rest where r: "?o < capacity" "py_index blocks (?o div bs) = Some k"
    "local_slots capacity blocks bs degree ps = Inr rest" "slots = (blocks ! k * bs + ?o mod bs) # rest"
    using Cons.prems(1) by (auto simp: Let_def bindE_Inr split: if_splits option.splits)
  have "k = nat (?o div bs)" "?o div bs < int (length blocks)"
    using r(2) o(2) by (auto simp: py_index_def Let_def split: if_splits)
  then show ?case using Cons.IH [OF r(3)] Cons.prems(2-5) r(4) by (simp add: slot_of_def)
qed simp

lemma slot_of_inject:
  assumes "slot_of blocks bs degree p = slot_of blocks bs degree q" "distinct blocks" "0 < bs" "0 < degree"
    and "0 \<le> p" "0 \<le> q" "p div degree div bs < int (length blocks)" "q div degree div bs < int (length blocks)"
  shows "p div degree = q div degree"
proof -
  let ?b = "\<lambda>p. nat (p div degree div bs)"
  have low: "0 \<le> p div degree div bs" "0 \<le> q div degree div bs"
    using assms(3-6) by (simp_all add: pos_imp_zdiv_nonneg_iff)
  have "(slot_of blocks bs degree p) div bs = blocks ! ?b p" "(slot_of blocks bs degree q) div bs = blocks ! ?b q"
    using assms(3) by (simp_all add: slot_of_def)
  then have "blocks ! ?b p = blocks ! ?b q" using assms(1) by metis
  then have "?b p = ?b q" using assms(2,7,8) low by (simp add: nth_eq_iff_index_eq nat_less_iff)
  then have "p div degree div bs = q div degree div bs" using low by simp
  moreover have "p div degree mod bs = q div degree mod bs"
    using assms(1) \<open>?b p = ?b q\<close> by (simp add: slot_of_def)
  ultimately show ?thesis by (metis div_mult_mod_eq)
qed

lemma slots_in_blocks:
  assumes "local_slots_for_positions ps blocks bs degree = Inr slots" "distinct ps" "distinct blocks" "0 < degree"
    and own: "\<forall>p\<in>set ps. 0 \<le> p \<and> p mod degree = rank"
  shows "length slots = length ps" "distinct slots" "\<forall>x\<in>set slots. \<exists>b\<in>set blocks. b * bs \<le> x \<and> x < b * bs + bs"
proof -
  have l: "0 < bs" "local_slots (int (length blocks) * bs) blocks bs degree ps = Inr slots"
    using assms(1) by (auto simp: local_slots_for_positions_def split: if_splits)
  have s: "slots = map (slot_of blocks bs degree) ps" "\<forall>p\<in>set ps. p div degree div bs < int (length blocks)"
    using local_slots_Inr [OF l(2,1)] own assms(4) by simp_all
  show "length slots = length ps" using s(1) by simp
  have "inj_on (slot_of blocks bs degree) (set ps)"
    by (rule inj_onI) (metis slot_of_inject assms(3,4) l(1) own s(2) div_mult_mod_eq)
  then show "distinct slots" using s(1) assms(2) by (simp add: distinct_map)
  show "\<forall>x\<in>set slots. \<exists>b\<in>set blocks. b * bs \<le> x \<and> x < b * bs + bs"
  proof
    fix x assume "x \<in> set slots"
    then obtain p where p: "p \<in> set ps" "x = slot_of blocks bs degree p" using s(1) by auto
    then have "nat (p div degree div bs) < length blocks"
      using s(2) own assms(4) l(1) by (simp add: nat_less_iff pos_imp_zdiv_nonneg_iff)
    then show "\<exists>b\<in>set blocks. b * bs \<le> x \<and> x < b * bs + bs"
      using p(2) l(1) by (intro bexI [of _ "blocks ! nat (p div degree div bs)"]) (auto simp: slot_of_def)
  qed
qed

text \<open>The shards of a group split the tokens: every token position of the span belongs to exactly one
  rank, and on each rank distinct positions live in distinct slots, every one inside a block of the
  request.\<close>

theorem shards_split_tokens:
  assumes "0 < span" "0 < degree" "distinct blocks"
  shows "(\<forall>p. (\<exists>!rank. \<exists>ps. owned_positions span degree rank = Inr ps \<and> p \<in> set ps) = (0 \<le> p \<and> p < span))
    \<and> (\<forall>rank ps slots. owned_positions span degree rank = Inr ps \<longrightarrow>
        local_slots_for_positions ps blocks bs degree = Inr slots \<longrightarrow>
        length slots = length ps \<and> distinct slots
        \<and> (\<forall>x\<in>set slots. \<exists>b\<in>set blocks. b * bs \<le> x \<and> x < b * bs + bs))"
proof (intro conjI allI impI)
  fix p
  have owned: "(\<exists>ps. owned_positions span degree rank = Inr ps \<and> p \<in> set ps) \<longleftrightarrow>
      0 \<le> rank \<and> rank < degree \<and> 0 \<le> p \<and> p < span \<and> p mod degree = rank" for rank
    using owned_positions_Inr [of span degree rank] assms
    by (auto simp: owned_positions_def split: if_splits)
  show "(\<exists>!rank. \<exists>ps. owned_positions span degree rank = Inr ps \<and> p \<in> set ps) = (0 \<le> p \<and> p < span)"
    unfolding owned using assms by auto
next
  fix rank ps slots
  assume a: "owned_positions span degree rank = Inr ps" "local_slots_for_positions ps blocks bs degree = Inr slots"
  have own: "\<forall>p\<in>set ps. 0 \<le> p \<and> p mod degree = rank" using owned_positions_Inr [OF a(1)] by auto
  note slots = slots_in_blocks [OF a(2) owned_positions_distinct [OF a(1)] assms(3,2) own]
  show "length slots = length ps" "distinct slots" "\<forall>x\<in>set slots. \<exists>b\<in>set blocks. b * bs \<le> x \<and> x < b * bs + bs"
    using slots by blast+
qed

theorem shards_split_tokens_witness:
  "(\<exists>!rank. \<exists>ps. owned_positions 5 2 rank = Inr ps \<and> 3 \<in> set ps)
    \<and> owned_positions 5 2 1 = Inr [1, 3] \<and> local_slots_for_positions [1, 3] [7, 4] 1 2 = Inr [7, 4]
    \<and> (\<exists>b\<in>set [7, 4::int]. b * 1 \<le> 4 \<and> 4 < b * 1 + 1)"
proof -
  have o: "owned_positions 5 2 1 = Inr [1, 3]" by (simp add: owned_positions_def py_range.simps)
  have l: "local_slots_for_positions [1, 3] [7, 4] 1 2 = Inr [7, 4]"
    by (simp add: local_slots_for_positions_def py_index_def)
  have "0 < (5::int)" "0 < (2::int)" "distinct [7, 4::int]" by simp_all
  note t = shards_split_tokens [OF this, of 1]
  then have "\<exists>!rank. \<exists>ps. owned_positions 5 2 rank = Inr ps \<and> 3 \<in> set ps" by simp
  moreover from t o l have "\<forall>x\<in>set [7, 4]. \<exists>b\<in>set [7, 4::int]. b * 1 \<le> x \<and> x < b * 1 + 1" by blast
  then have "\<exists>b\<in>set [7, 4::int]. b * 1 \<le> 4 \<and> 4 < b * 1 + 1" by (rule bspec) simp
  ultimately show ?thesis using o l by blast
qed

end
