(* ===== verification/Store_Publish.thy ===== *)
theory Store_Publish
  imports Store_Isolation
begin

text \<open>
  Publication as an interface. What the writers of roots, segments and chunks rely on is not how
  \<open>_publish_immutable\<close> and \<open>_publish_immutable_batch\<close> of \<open>cache_manifest.py\<close> link files, but three
  laws: a publication that succeeds leaves every object readable, whatever its outcome it writes
  nothing else, and a single publication never changes a file that exists.
\<close>

section \<open>The laws\<close>

locale publisher =
  fixes publish :: "'o \<Rightarrow> store \<Rightarrow> (unit, store) outcome"
    and objects :: "'o \<Rightarrow> (path \<times> string) list"
  assumes published: "publish x s = (Inr (), t) \<Longrightarrow> (p, b) \<in> set (objects x) \<Longrightarrow> files t p = Content b"
    and writes: "only_writes (\<lambda>p b. (p, b) \<in> set (objects x)) s (snd (publish x s))"
begin

lemma one_content:
  "publish x s = (Inr (), t) \<Longrightarrow> (p, b) \<in> set (objects x) \<Longrightarrow> (p, b') \<in> set (objects x) \<Longrightarrow> b = b'"
  using published [of x s t p b] published [of x s t p b'] by simp

lemma elsewhere: "p \<notin> fst ` set (objects x) \<Longrightarrow> files (snd (publish x s)) p = files s p"
  using writes by (rule only_writes_keep) force

end

locale immutable_publisher = publisher +
  assumes kept: "files s p = Content b \<Longrightarrow> files (snd (publish x s)) p = Content b"
begin

lemma run_writes:
  "only_writes (\<lambda>p b. \<exists>x\<in>set xs. (p, b) \<in> set (objects x)) s (snd (run_all publish xs s))"
proof (induction xs arbitrary: s)
  case (Cons x xs)
  obtain r t where r: "publish x s = (r, t)" by fastforce
  have first: "only_writes (\<lambda>p b. \<exists>y\<in>set (x # xs). (p, b) \<in> set (objects y)) s t"
    using writes [of x s] unfolding r snd_conv by (rule only_writes_mono) auto
  have "only_writes (\<lambda>p b. \<exists>y\<in>set (x # xs). (p, b) \<in> set (objects y)) t (snd (run_all publish xs t))"
    using Cons.IH by (rule only_writes_mono) auto
  then show ?case using first by (auto simp: r split: sum.split intro: only_writes_trans)
qed simp

lemma run_kept: "files s p = Content b \<Longrightarrow> files (snd (run_all publish xs s)) p = Content b"
proof (induction xs arbitrary: s)
  case (Cons x xs)
  then show ?case using kept [OF Cons.prems, of x]
    by (cases "publish x s") (auto split: sum.split)
qed simp

lemma run_published:
  "run_all publish xs s = (Inr (), t) \<Longrightarrow> x \<in> set xs \<Longrightarrow> (p, b) \<in> set (objects x) \<Longrightarrow> files t p = Content b"
proof (induction xs arbitrary: s)
  case (Cons y ys)
  obtain u where u: "publish y s = (Inr (), u)" "run_all publish ys u = (Inr (), t)"
    using Cons.prems(1) by (auto split: sum.splits prod.splits)
  show ?case
  proof (cases "x = y")
    case True
    then have "files u p = Content b" using published u(1) Cons.prems(3) by blast
    then show ?thesis using run_kept [of u p b ys] u(2) by simp
  qed (use Cons u in auto)
qed simp

end

section \<open>The store's two publications\<close>

definition publish_file :: "path \<times> string \<Rightarrow> store \<Rightarrow> (unit, store) outcome" where
  "publish_file x s = publish_immutable (fst x) (snd x) s"

lemma publish_immutable_content:
  "publish_immutable p b s = (Inr (), t) \<Longrightarrow> files t p = Content b"
  by (auto simp: publish_immutable_def with_barrier_def durable_payload_matches_def put_file_def
      split: if_splits stored.splits bool.splits)

interpretation single: immutable_publisher publish_file "\<lambda>x. [x]"
proof
  fix x :: "path \<times> string" and s t :: store and p and b :: string
  show "publish_file x s = (Inr (), t) \<Longrightarrow> (p, b) \<in> set [x] \<Longrightarrow> files t p = Content b"
    using publish_immutable_content by (auto simp: publish_file_def)
  show "only_writes (\<lambda>p b. (p, b) \<in> set [x]) s (snd (publish_file x s))"
    unfolding publish_file_def using publish_only_writes by (rule only_writes_mono) auto
  show "files s p = Content b \<Longrightarrow> files (snd (publish_file x s)) p = Content b"
    using publish_only_writes [of "fst x" "snd x" s]
    by (auto simp: publish_file_def only_writes_def dest!: spec [of _ p])
qed

lemma linked:
  assumes "link_batch staged s = (Inr (), t)" "distinct (map fst staged)"
  shows "(p, b) \<in> set staged \<Longrightarrow> files t p = Content b"
  using assms
proof (induction staged arbitrary: s)
  case (Cons obj staged)
  obtain q x where o: "obj = (q, x)" by (cases obj)
  have rest: "(p, b) \<in> set staged \<Longrightarrow> link_batch staged u = (Inr (), t) \<Longrightarrow> files t p = Content b" for u
    using Cons.IH Cons.prems(3) by auto
  have same: "files t q = files u q" if "link_batch staged u = (Inr (), t)" for u
    using only_writes_keep [OF link_only_writes, of q staged u] that Cons.prems(3) by (force simp: o)
  obtain u where u: "link_batch staged u = (Inr (), t)" "files u q = Content x"
    using Cons.prems(2)
    by (auto simp: o put_file_def durable_payload_matches_def split: if_splits stored.splits bool.splits)
  then show ?case using rest [OF _ u(1)] same [OF u(1)] Cons.prems(1) by (auto simp: o)
qed simp

lemma staged_paths:
  "stage_batch objs seen s = Inr staged \<Longrightarrow>
    distinct (map fst staged) \<and> fst ` set staged \<inter> fst ` set seen = {}
    \<and> (\<forall>(p, b)\<in>set objs. case map_of seen p of Some x \<Rightarrow> x = b
         | None \<Rightarrow> (p, b) \<in> set staged \<or> (files s p = Content b \<and> p \<notin> fst ` set staged))"
proof (induction objs arbitrary: seen staged)
  case (Cons obj objs)
  obtain p b where o: "obj = (p, b)" by (cases obj)
  show ?case
  proof (cases "map_of seen p")
    case (Some x)
    then show ?thesis using Cons by (auto simp: o split: if_splits)
  next
    case None
    then obtain same staged' where r: "durable_payload_matches p b s = Inr same"
      "stage_batch objs ((p, b) # seen) s = Inr staged'" "staged = (if same then staged' else (p, b) # staged')"
      using Cons.prems by (auto simp: o bindE_Inr)
    have same: "same \<Longrightarrow> files s p = Content b"
      using r(1) by (auto simp: durable_payload_matches_def split: stored.splits)
    have IH: "distinct (map fst staged')" "fst ` set staged' \<inter> fst ` set ((p, b) # seen) = {}"
      "\<And>q c. (q, c) \<in> set objs \<Longrightarrow> case map_of ((p, b) # seen) q of Some x \<Rightarrow> x = c
         | None \<Rightarrow> (q, c) \<in> set staged' \<or> (files s q = Content c \<and> q \<notin> fst ` set staged')"
      using Cons.IH [OF r(2)] by blast+
    have p: "p \<notin> fst ` set seen" "p \<notin> fst ` set staged'" using None IH(2) by (auto simp: map_of_eq_None_iff)
    have "case map_of seen q of Some x \<Rightarrow> x = c
         | None \<Rightarrow> (q, c) \<in> set staged \<or> (files s q = Content c \<and> q \<notin> fst ` set staged)"
      if "(q, c) \<in> set (obj # objs)" for q c
    proof (cases "q = p")
      case True
      then have "c = b" using that IH(3) [of p c] by (auto simp: o)
      then show ?thesis using True None same p(2) by (simp add: r(3))
    next
      case False
      then show ?thesis using that IH(3) [of q c] by (auto simp: r(3) o split: option.splits)
    qed
    then show ?thesis using IH(1,2) p by (auto simp: r(3))
  qed
qed simp

lemma batch_published:
  assumes "publish_immutable_batch objs s = (Inr (), t)" "(p, b) \<in> set objs"
  shows "files t p = Content b"
proof -
  obtain p0 b0 rest where o: "objs = (p0, b0) # rest" using assms(2) by (cases objs) auto
  obtain staged where st: "stage_batch objs [] s = Inr staged" "link_batch staged s = (Inr (), t)"
    using assms(1) by (auto simp: publish_immutable_batch_def o with_barrier_def split: if_splits sum.splits)
  note paths = staged_paths [OF st(1)]
  have "(p, b) \<in> set staged \<or> (files s p = Content b \<and> p \<notin> fst ` set staged)"
    using paths assms(2) by simp blast
  then consider "(p, b) \<in> set staged" | "files s p = Content b" "p \<notin> fst ` set staged" by blast
  then show ?thesis
  proof cases
    case 1
    then show ?thesis using linked [OF st(2)] paths by blast
  next
    case 2
    have "files t p = files s p"
      using only_writes_keep [OF link_only_writes, of p staged s] st(2) 2(2) by force
    then show ?thesis using 2(1) by simp
  qed
qed

interpretation batch: publisher publish_immutable_batch "\<lambda>objs. objs"
  by unfold_locales (fact batch_published, fact batch_only_writes)

end
