(* ===== verification/Store_Extend.thy ===== *)
theory Store_Extend
  imports Store_Publish Codec
begin

text \<open>
  Publications that build on an entry of the store without rewriting its chunks (\<open>cache_manifest.py\<close>):
  prefix aliases, which name shorter prefixes of a row manifest (\<open>publish_prefix_aliases\<close>), and
  copy-on-write extensions (\<open>commit_extension\<close>). Both put the chunk descriptors they reuse into a
  content-addressed chain of segments of at most sixteen (\<open>_publish_descriptor_chain\<close>) and both
  compute the digests of contexts from the tokens the caller supplies. The shared root lock and the
  byte telemetry have no part in the result and are left out.
\<close>

section \<open>Descriptor segments\<close>

definition segment_value :: "cache_identity \<Rightarrow> json \<Rightarrow> nat \<Rightarrow> jdict list \<Rightarrow> json" where
  "segment_value i prev first ds = JObj
     [(''schema'', JStr PREFIX_SEGMENT_SCHEMA), (''storage_key'', JStr (storage_key i)),
      (''parent_sha256'', prev), (''first_chunk_index'', JInt (int first)),
      (''descriptors'', JList (map JObj ds))]"

definition SEGMENT_LENGTH :: nat where "SEGMENT_LENGTH = nat PREFIX_SEGMENT_DESCRIPTORS"

lemma SEGMENT_LENGTH_simps [simp]: "SEGMENT_LENGTH = 16" "PREFIX_SEGMENT_DESCRIPTORS = int SEGMENT_LENGTH"
  by (simp_all add: SEGMENT_LENGTH_def PREFIX_SEGMENT_DESCRIPTORS_def)

text \<open>The loop over the descriptors, sixteen at a time; each segment names the one before it. The result
  holds the digest and the bytes of every segment.\<close>

function segment_chain :: "cache_identity \<Rightarrow> json \<Rightarrow> nat \<Rightarrow> jdict list \<Rightarrow> (string \<times> string) list" where
  "segment_chain i prev first ds =
     (if ds = [] then []
      else
        (let b = canonical_json (segment_value i prev first (take SEGMENT_LENGTH ds))
         in (sha256 b, b) # segment_chain i (JStr (sha256 b)) (first + SEGMENT_LENGTH) (drop SEGMENT_LENGTH ds)))"
  by pat_completeness auto
termination by (relation "measure (\<lambda>(i, prev, first, ds). length ds)") auto

declare segment_chain.simps [simp del]

definition segment_objects :: "cache_identity \<Rightarrow> (string \<times> string) list \<Rightarrow> (path \<times> string) list" where
  "segment_objects i segs = map (\<lambda>(d, b). (prefix_segment_path i d, b)) segs"

definition publish_descriptor_chain ::
    "cache_identity \<Rightarrow> jdict list \<Rightarrow> store \<Rightarrow> (string option \<times> nat \<times> int, store) outcome" where
  "publish_descriptor_chain i ds s =
     (if ds = [] then returns (None, 0, 0) s
      else
        (let segs = segment_chain i JNull 0 ds in
         case publish_immutable_batch (segment_objects i segs) s of
           (Inl e, t) \<Rightarrow> raises e t
         | (Inr _, t) \<Rightarrow>
             returns (Some (fst (last segs)), length segs,
               sum_list (map (\<lambda>(d, b). page_rounded (int (length b))) segs)) t))"

section \<open>Prefix aliases\<close>

definition MAX_PREFIX_ALIASES :: nat where "MAX_PREFIX_ALIASES = 64"

text \<open>The source manifest must be a row manifest, possibly through a tail manifest; what makes it
  unreadable as one is reported as such, other exceptions propagate.\<close>

definition not_publishable :: "exn + 'a \<Rightarrow> exn + 'a" where
  "not_publishable r =
     (case r of
        Inl (CacheFormatError m) \<Rightarrow> Inl (CacheFormatError ''source manifest is not publishable'')
      | Inl (IncompatibleManifest m) \<Rightarrow> Inl (CacheFormatError ''source manifest is not publishable'')
      | Inl (ValueError m) \<Rightarrow>
          (if m = ''JSONDecodeError'' then Inl (CacheFormatError ''source manifest is not publishable'')
           else Inl (ValueError m))
      | _ \<Rightarrow> r)"

definition committed_of :: "json \<Rightarrow> int option" where
  "committed_of m = (case the_obj m of None \<Rightarrow> None | Some d \<Rightarrow> the_int (jget d ''committed_tokens''))"

definition source_descriptors :: "cache_identity \<Rightarrow> string \<Rightarrow> store \<Rightarrow> exn + string \<times> int \<times> jdict list" where
  "source_descriptors i c s =
     bindE (validate_digest (JStr c)) (\<lambda>_.
     bindE (read_bytes (manifest_path i c) s) (\<lambda>encoded.
     bindE (not_publishable
       (bindE (read_json encoded) (\<lambda>root.
        bindE (if has_schema root TAIL_MANIFEST_SCHEMA
               then bindE (resolve_tail_manifest s root i c) (\<lambda>(m, _). Inr m) else Inr root) (\<lambda>m.
        bindE (validate_manifest_metadata m (EntryKey (storage_key i) c) (Some i)) (\<lambda>ds. Inr (m, ds)))))) (\<lambda>(m, ds).
     case committed_of m of
       None \<Rightarrow> Inl KeyError
     | Some n \<Rightarrow> Inr (encoded, n, ds))))"

text \<open>Without a request every sixteenth chunk boundary and the end, the last 64 of them.\<close>

definition alias_boundaries :: "cache_identity \<Rightarrow> int \<Rightarrow> int list option \<Rightarrow> exn + int list" where
  "alias_boundaries i committed requested =
     (if committed mod chunk_tokens i \<noteq> 0
      then Inl (ValueError ''prefix alias source must end on chunk geometry'')
      else
        (case requested of
           None \<Rightarrow>
             (let stride = int SEGMENT_LENGTH * chunk_tokens i;
                  bs = py_range stride (committed + 1) stride;
                  bs' = (if bs = [] \<or> last bs \<noteq> committed then bs @ [committed] else bs)
              in Inr (drop (length bs' - MAX_PREFIX_ALIASES) bs'))
         | Some bs \<Rightarrow>
             if bs = [] then Inl (ValueError ''prefix_tokens must not be empty'')
             else if length bs > MAX_PREFIX_ALIASES
             then Inl (ValueError ''at most 64 prefix aliases may be published'')
             else if \<not> sorted_wrt (<) bs
             then Inl (ValueError ''prefix_tokens must be strictly increasing and unique'')
             else Inr bs))"

definition descriptor_end :: "jdict \<Rightarrow> int" where
  "descriptor_end d = (case the_int (jget d ''logical_end'') of None \<Rightarrow> 0 | Some e \<Rightarrow> e)"

text \<open>How many descriptors reach up to a boundary; the ends of validated descriptors are distinct.\<close>

fun descriptor_ends :: "nat \<Rightarrow> jdict list \<Rightarrow> (int \<times> nat) list" where
  "descriptor_ends k [] = []"
| "descriptor_ends k (d # ds) = (descriptor_end d, k + 1) # descriptor_ends (k + 1) ds"

definition with_metadata :: "jdict \<Rightarrow> jdict" where
  "with_metadata d = d @ [(''metadata_sha256'', JStr (sha256 (canonical_json (JObj d))))]"

definition alias_fields :: "cache_identity \<Rightarrow> string \<Rightarrow> int \<Rightarrow> nat \<Rightarrow> string \<Rightarrow> string \<Rightarrow> jdict" where
  "alias_fields i c boundary count tail source =
     [(''schema'', JStr PREFIX_ALIAS_SCHEMA), (''format_abi'', JInt FORMAT_ABI),
      (''storage_mode'', JStr ''per_token_rows''), (''identity'', to_wire i), (''context_digest'', JStr c),
      (''committed_tokens'', JInt boundary), (''chunk_count'', JInt (int count)),
      (''tail_segment_sha256'', JStr tail), (''source_manifest_digest'', JStr source)]"

record alias_plan =
  ap_context :: string
  ap_boundary :: int
  ap_count :: nat
  ap_tail :: string

definition alias_object :: "cache_identity \<Rightarrow> string \<Rightarrow> alias_plan \<Rightarrow> path \<times> string" where
  "alias_object i source a =
     (prefix_alias_path i (ap_context a),
      canonical_json (JObj (with_metadata
        (alias_fields i (ap_context a) (ap_boundary a) (ap_count a) (ap_tail a) source))))"

record alias_receipt =
  ar_source_digest :: string
  ar_aliases :: nat
  ar_segments :: nat
  ar_keys :: "entry_key list"

text \<open>The cut a boundary makes in the descriptors, and the alias it gets.\<close>

definition cut_at :: "jdict list \<Rightarrow> int \<Rightarrow> exn + int \<times> nat" where
  "cut_at ds b =
     (case map_of (descriptor_ends 0 ds) b of
        None \<Rightarrow> Inl (ValueError ''prefix token boundary is not a source chunk boundary'')
      | Some k \<Rightarrow> Inr (b, k))"

definition plan_alias :: "(int \<times> string) list \<Rightarrow> (string \<times> string) list \<Rightarrow> int \<times> nat \<Rightarrow> exn + alias_plan" where
  "plan_alias digests segs x =
     (case map_of digests (fst x) of
        None \<Rightarrow> Inl KeyError
      | Some c \<Rightarrow> Inr \<lparr>ap_context = c, ap_boundary = fst x, ap_count = snd x,
          ap_tail = fst (segs ! ((snd x - 1) div SEGMENT_LENGTH))\<rparr>)"

text \<open>The descriptors that go into segments: whole segments up to the longest alias.\<close>

definition covered_descriptors :: "(int \<times> nat) list \<Rightarrow> jdict list \<Rightarrow> jdict list" where
  "covered_descriptors cuts ds =
     take (SEGMENT_LENGTH * ((Max (set (map snd cuts)) + SEGMENT_LENGTH - 1) div SEGMENT_LENGTH)) ds"

text \<open>Everything up to the first write: the source, the boundaries, their digests, the segments.\<close>

definition plan_aliases ::
    "cache_identity \<Rightarrow> string \<Rightarrow> int list \<Rightarrow> string \<Rightarrow> int list option \<Rightarrow> store
      \<Rightarrow> exn + string \<times> (string \<times> string) list \<times> alias_plan list" where
  "plan_aliases i source token_ids salt requested s =
     bindE (source_descriptors i source s) (\<lambda>(encoded, committed, ds).
     bindE (alias_boundaries i committed requested) (\<lambda>bs.
     bindE (chunk_prefix_digests token_ids salt (sort (remdups (bs @ [committed]))) [] CODEC_CHUNK_TOKENS) (\<lambda>digests.
     if map_of digests committed \<noteq> Some source
     then Inl (CommitConflict ''source digest disagrees with supplied token sequence'')
     else
       bindE (mapE (cut_at ds) bs) (\<lambda>cuts.
       let segs = segment_chain i JNull 0 (covered_descriptors cuts ds)
       in bindE (mapE (plan_alias digests segs) cuts) (\<lambda>plans. Inr (sha256 encoded, segs, plans))))))"

definition publish_prefix_aliases ::
    "cache_identity \<Rightarrow> string \<Rightarrow> int list \<Rightarrow> string \<Rightarrow> int list option \<Rightarrow> string \<Rightarrow> store
      \<Rightarrow> (alias_receipt, store) outcome" where
  "publish_prefix_aliases i source token_ids salt requested storage_mode s =
     (if storage_mode \<noteq> ''per_token_rows''
      then raises (ValueError ''prefix aliases require per_token_rows storage'') s
      else
        (case plan_aliases i source token_ids salt requested s of
           Inl e \<Rightarrow> raises e s
         | Inr (source_digest, segs, plans) \<Rightarrow>
             (case publish_immutable_batch (segment_objects i segs) s of
                (Inl e, t) \<Rightarrow> raises e t
              | (Inr _, t) \<Rightarrow>
                  (case run_all publish_file (map (alias_object i source_digest) plans) t of
                     (Inl e, u) \<Rightarrow> raises e u
                   | (Inr _, u) \<Rightarrow>
                       returns \<lparr>ar_source_digest = source_digest, ar_aliases = length plans,
                         ar_segments = length segs,
                         ar_keys = map (\<lambda>a. \<lparr>ek_storage = storage_key i, ek_context = ap_context a,
                           ek_root_kind = ''prefix_alias''\<rparr>) plans\<rparr> u))))"

section \<open>Extensions\<close>

text \<open>The loop over the tail chunks: contiguous, all but the last of exactly the chunk size.\<close>

fun encode_tail :: "cache_identity \<Rightarrow> int \<Rightarrow> context_chunk list \<Rightarrow> exn + (jdict \<times> string) list" where
  "encode_tail i expected [] = Inr []"
| "encode_tail i expected (c # cs) =
     (if logical_start c \<noteq> expected then Inl (ValueError ''tail chunk ranges must be contiguous'')
      else if logical_end c - logical_start c > chunk_tokens i
        \<or> (cs \<noteq> [] \<and> logical_end c - logical_start c \<noteq> chunk_tokens i)
      then Inl (ValueError ''tail chunk range disagrees with identity geometry'')
      else
        bindE (require_complete_chunk c (required_records i)) (\<lambda>_.
        bindE (encode_chunk c) (\<lambda>b.
        bindE (encode_tail i (logical_end c) cs) (\<lambda>rest.
        Inr ((chunk_descriptor b c, b) # rest)))))"

definition extension_fields ::
    "cache_identity \<Rightarrow> string \<Rightarrow> int \<Rightarrow> string \<Rightarrow> string \<Rightarrow> int \<Rightarrow> int \<Rightarrow> nat \<Rightarrow> string option \<Rightarrow> jdict list \<Rightarrow> jdict" where
  "extension_fields i c n base base_digest base_committed reused count segment tail =
     [(''schema'', JStr TAIL_MANIFEST_SCHEMA), (''format_abi'', JInt FORMAT_ABI), (''identity'', to_wire i),
      (''context_digest'', JStr c), (''committed_tokens'', JInt n), (''base_context_digest'', JStr base),
      (''base_manifest_sha256'', JStr base_digest), (''base_committed_tokens'', JInt base_committed),
      (''reused_tokens'', JInt reused), (''base_chunk_count'', JInt (int count)),
      (''base_tail_segment_sha256'', case segment of None \<Rightarrow> JNull | Some d \<Rightarrow> JStr d),
      (''tail_chunks'', JList (map JObj tail))]"

record extension_plan =
  xp_context :: string
  xp_tokens :: int
  xp_base_digest :: string
  xp_base_committed :: int
  xp_reused :: int
  xp_base :: "jdict list"
  xp_tail :: "(jdict \<times> string) list"

text \<open>Everything up to the first write.\<close>

definition plan_extension ::
    "cache_identity \<Rightarrow> string \<Rightarrow> int list \<Rightarrow> string \<Rightarrow> context_chunk list \<Rightarrow> store \<Rightarrow> exn + extension_plan" where
  "plan_extension i base token_ids salt tail_chunks s =
     bindE (lookup i base True False (Some ''per_token_rows'') s) (\<lambda>h.
     case (is_hit h, lr_manifest h) of
       (True, Some m) \<Rightarrow>
         (case committed_of m of
            None \<Rightarrow> Inl KeyError
          | Some base_committed \<Rightarrow>
              let n = logical_end (last tail_chunks) in
              if n > int (length token_ids)
              then Inl (ValueError ''tail token span exceeds supplied token sequence'')
              else
                bindE (context_prefix_digest token_ids salt (Some base_committed) []) (\<lambda>commitment.
                if commitment \<noteq> base
                then Inl (CommitConflict ''base digest disagrees with supplied token sequence'')
                else
                  bindE (context_prefix_digest token_ids salt (Some n) []) (\<lambda>c.
                  if c = base then Inl (ValueError ''tail publication must extend the base context'')
                  else
                    (case the_list (jget (the (the_obj m)) ''chunks'') of
                       None \<Rightarrow> Inl KeyError
                     | Some vs \<Rightarrow>
                         let reused = base_committed div chunk_tokens i * chunk_tokens i;
                             ds = filter (\<lambda>d. descriptor_end d \<le> reused) (dicts vs)
                         in if int (length ds) \<noteq> reused div chunk_tokens i
                            then Inl (CacheFormatError ''base descriptor geometry is incomplete'')
                            else
                              bindE (encode_tail i reused tail_chunks) (\<lambda>tail.
                              if n \<le> base_committed
                              then Inl (ValueError ''tail chunks do not extend the base context'')
                              else Inr \<lparr>xp_context = c, xp_tokens = n, xp_base_digest = lr_digest h,
                                xp_base_committed = base_committed, xp_reused = reused,
                                xp_base = ds, xp_tail = tail\<rparr>)))))
     | _ \<Rightarrow> Inl (CacheFormatError ''base context is not reusable''))"

definition commit_extension ::
    "cache_identity \<Rightarrow> string \<Rightarrow> int list \<Rightarrow> string \<Rightarrow> context_chunk list \<Rightarrow> store \<Rightarrow> (commit_receipt, store) outcome" where
  "commit_extension i base token_ids salt tail_chunks s =
     (if publication_schema i \<noteq> ''tail-cow-v1''
      then raises (ValueError ''tail publication requires publication_schema tail-cow-v1'') s
      else if tail_chunks = []
      then raises (ValueError ''tail publication requires at least one tail chunk'') s
      else
        (case plan_extension i base token_ids salt tail_chunks s of
           Inl e \<Rightarrow> raises e s
         | Inr p \<Rightarrow>
             (case publish_descriptor_chain i (xp_base p) s of
                (Inl e, t) \<Rightarrow> raises e t
              | (Inr (segment, count, segment_bytes), t) \<Rightarrow>
                  (case publish_immutable_batch (chunk_objects (map snd (xp_tail p))) t of
                     (Inl e, u) \<Rightarrow> raises e u
                   | (Inr _, u) \<Rightarrow>
                       (let root = canonical_json (JObj (with_metadata (extension_fields i (xp_context p)
                              (xp_tokens p) base (xp_base_digest p) (xp_base_committed p) (xp_reused p)
                              (length (xp_base p)) segment (map fst (xp_tail p)))));
                            sizes = int (length root) # map (\<lambda>(d, b). int (length b)) (xp_tail p)
                        in case publish_immutable (manifest_path i (xp_context p)) root u of
                             (Inl e, w) \<Rightarrow> raises e w
                           | (Inr _, w) \<Rightarrow>
                               returns \<lparr>rc_manifest_digest = sha256 root, rc_committed_tokens = xp_tokens p,
                                 rc_encoded_bytes = sum_list sizes,
                                 rc_allocated_bytes = segment_bytes + sum_list (map page_rounded sizes)\<rparr> w)))))"

end
