(* ===== verification/Chain_Laws.thy ===== *)
theory Chain_Laws
  imports Store_Extend
begin

text \<open>
  The laws that alias publication and extensions share: what a written descriptor reads back as, that
  a published chain of segments reads back as the descriptors that were put into it, and that the
  manifest a root stands for is accepted and restored like the entry its descriptors came from.
\<close>

section \<open>Descriptors read back\<close>

text \<open>A chunk descriptor that can be written: its keys are distinct, and it is one.\<close>

definition stored_descriptor :: "jdict \<Rightarrow> bool" where
  "stored_descriptor d \<longleftrightarrow> distinct (dkeys d) \<and> (\<exists>a e. described a e d)"

lemma stored_fields:
  assumes "stored_descriptor d"
  obtains s n a e where "map_of d = [''sha256'' \<mapsto> JStr s, ''bytes'' \<mapsto> JInt n,
      ''logical_start'' \<mapsto> JInt a, ''logical_end'' \<mapsto> JInt e]"
proof -
  obtain a e where de: "described a e d" using assms by (auto simp: stored_descriptor_def)
  then obtain s n where f: "jget d ''sha256'' = JStr s" "jget d ''bytes'' = JInt n"
    "jget d ''logical_start'' = JInt a" "jget d ''logical_end'' = JInt e"
    by (auto simp: described_def is_digest_iff)
  have "map_of d = [''sha256'' \<mapsto> JStr s, ''bytes'' \<mapsto> JInt n, ''logical_start'' \<mapsto> JInt a, ''logical_end'' \<mapsto> JInt e]"
  proof
    fix k
    have keys: "set (dkeys d) = set CHUNK_KEYS" using de by (simp add: described_def)
    show "map_of d k = [''sha256'' \<mapsto> JStr s, ''bytes'' \<mapsto> JInt n,
      ''logical_start'' \<mapsto> JInt a, ''logical_end'' \<mapsto> JInt e] k"
    proof (cases "k \<in> set CHUNK_KEYS")
      case True
      then have "k = ''sha256'' \<or> k = ''bytes'' \<or> k = ''logical_start'' \<or> k = ''logical_end''"
        by (auto simp: CHUNK_KEYS_def)
      then show ?thesis using described_get [OF de True] f by auto
    next
      case False
      then have "map_of d k = None" using keys by (simp add: dget_None)
      with False show ?thesis by (auto simp: CHUNK_KEYS_def)
    qed
  qed
  then show ?thesis by (rule that)
qed

lemma read_stored [simp]: "stored_descriptor d \<Longrightarrow> map_of (read_dict d) = map_of d"
  by (rule ext) (auto simp: map_of_read_dict elim: stored_fields)

lemma jget_stored [simp]: "stored_descriptor d \<Longrightarrow> jget (read_dict d) = jget d"
  by (rule ext) (simp add: jget_def)

lemma described_read_dict [simp]: "stored_descriptor d \<Longrightarrow> described a e (read_dict d) = described a e d"
  by (simp add: described_def keys_read_dict del: set_map)

lemma stored_writable: "stored_descriptor d \<Longrightarrow> writable (JObj d)"
proof -
  assume d: "stored_descriptor d"
  obtain s n a e where m: "map_of d = [''sha256'' \<mapsto> JStr s, ''bytes'' \<mapsto> JInt n,
      ''logical_start'' \<mapsto> JInt a, ''logical_end'' \<mapsto> JInt e]" by (rule stored_fields [OF d])
  have dd: "distinct (dkeys d)" using d by (simp add: stored_descriptor_def)
  have "writable v" if "(k, v) \<in> set d" for k v
  proof -
    have "map_of d k = Some v" using that dd by simp
    then show ?thesis unfolding m by (auto split: if_splits)
  qed
  then show ?thesis using dd by (auto simp: writable_items_iff)
qed

lemma stored_chunk_file [simp]:
  assumes "stored_descriptor d"
  shows "check_chunk_file v m i s (read_dict d) = check_chunk_file v m i s d"
    and "restore_one R s (JObj (read_dict d)) = restore_one R s (JObj d)"
proof -
  have path: "chunk_path (read_dict d) = chunk_path d" by (simp add: chunk_path_def descriptor_name_def assms)
  have dec: "decoded_as_described R (read_dict d) = decoded_as_described R d" for R
    by (rule ext) (simp add: decoded_as_described_def assms)
  have "payload_matches_descriptor (read_dict d) = payload_matches_descriptor d"
    by (rule ext)
       (simp only: payload_matches_descriptor_def descriptor_integrity_def read_stored [OF assms] jget_stored [OF assms])
  then show "check_chunk_file v m i s (read_dict d) = check_chunk_file v m i s d"
    by (simp only: check_chunk_file_def path dec keys_read_dict jget_stored [OF assms])
  show "restore_one R s (JObj (read_dict d)) = restore_one R s (JObj d)"
    by (simp add: restore_one_def path dec assms strict_keys_def keys_read_dict del: set_map cong: if_cong)
qed

section \<open>Segments\<close>

definition segment_bytes :: "cache_identity \<Rightarrow> json \<Rightarrow> nat \<Rightarrow> jdict list \<Rightarrow> string" where
  "segment_bytes i prev first ds = canonical_json (segment_value i prev first ds)"

lemma segment_chain_Cons:
  "ds \<noteq> [] \<Longrightarrow> segment_chain i prev first ds =
     (sha256 (segment_bytes i prev first (take SEGMENT_LENGTH ds)), segment_bytes i prev first (take SEGMENT_LENGTH ds))
     # segment_chain i (JStr (sha256 (segment_bytes i prev first (take SEGMENT_LENGTH ds))))
         (first + SEGMENT_LENGTH) (drop SEGMENT_LENGTH ds)"
  by (subst segment_chain.simps) (simp add: Let_def segment_bytes_def)

lemma segment_chain_Nil [simp]: "segment_chain i prev first [] = []"
  by (subst segment_chain.simps) simp

lemma segment_chain_length:
  "length (segment_chain i prev first ds) = (length ds + SEGMENT_LENGTH - 1) div SEGMENT_LENGTH"
proof (induction i prev first ds rule: segment_chain.induct)
  case (1 i prev first ds)
  show ?case
  proof (cases "ds = []")
    case False
    then have "length (segment_chain i prev first ds) = Suc ((length ds - 16 + 15) div 16)"
      using 1 [OF False refl] by (simp add: segment_chain_Cons segment_bytes_def)
    also have "\<dots> = (length ds + 15) div 16" using False by (cases ds) (auto simp: div_nat_eqI le_div_geq)
    finally show ?thesis by simp
  qed simp
qed

text \<open>The segment at a position: its predecessor's digest, its first index, its descriptors.\<close>

definition chain_parent :: "json \<Rightarrow> (string \<times> string) list \<Rightarrow> nat \<Rightarrow> json" where
  "chain_parent prev segs j = (case j of 0 \<Rightarrow> prev | Suc k \<Rightarrow> JStr (fst (segs ! k)))"

lemma segment_chain_nth:
  "j < length (segment_chain i prev first ds) \<Longrightarrow>
    segment_chain i prev first ds ! j =
      (let b = segment_bytes i (chain_parent prev (segment_chain i prev first ds) j)
         (first + j * SEGMENT_LENGTH) (take SEGMENT_LENGTH (drop (j * SEGMENT_LENGTH) ds)) in (sha256 b, b))"
proof (induction i prev first ds arbitrary: j rule: segment_chain.induct)
  case (1 i prev first ds)
  have ne: "ds \<noteq> []" using "1.prems" by auto
  show ?case
  proof (cases j)
    case 0
    then show ?thesis using ne by (simp add: segment_chain_Cons chain_parent_def Let_def)
  next
    case (Suc k)
    define b where "b = segment_bytes i prev first (take SEGMENT_LENGTH ds)"
    define rest where "rest = segment_chain i (JStr (sha256 b)) (first + SEGMENT_LENGTH) (drop SEGMENT_LENGTH ds)"
    have chain: "segment_chain i prev first ds = (sha256 b, b) # rest"
      using segment_chain_Cons [OF ne, of i prev first] by (simp only: b_def rest_def)
    have k: "k < length rest" using "1.prems" Suc by (simp add: chain)
    have "rest ! k = (let c = segment_bytes i (chain_parent (JStr (sha256 b)) rest k)
         (first + SEGMENT_LENGTH + k * SEGMENT_LENGTH) (take SEGMENT_LENGTH (drop (k * SEGMENT_LENGTH) (drop SEGMENT_LENGTH ds)))
         in (sha256 c, c))"
      using "1.IH" [OF ne refl, of k] k by (simp only: rest_def b_def segment_bytes_def)
    moreover have "chain_parent (JStr (sha256 b)) rest k = chain_parent prev ((sha256 b, b) # rest) (Suc k)"
      by (cases k) (simp_all add: chain_parent_def)
    moreover have "first + SEGMENT_LENGTH + k * SEGMENT_LENGTH = first + Suc k * SEGMENT_LENGTH"
      "drop (k * SEGMENT_LENGTH) (drop SEGMENT_LENGTH ds) = drop (Suc k * SEGMENT_LENGTH) ds"
      by (simp_all add: add.commute)
    ultimately show ?thesis by (simp only: Suc chain nth_Cons_Suc)
  qed
qed


definition parent_value :: "json \<Rightarrow> bool" where
  "parent_value v \<longleftrightarrow> v = JNull \<or> (\<exists>d. v = JStr d \<and> is_sha256 d)"

lemma parent_sorted [simp]: "parent_value v \<Longrightarrow> sorted_json v = v" "parent_value v \<Longrightarrow> writable v"
  by (auto simp: parent_value_def)

lemma sorted_dicts: "sorted_list (map JObj ds) = map JObj (map read_dict ds)"
  by (simp add: sorted_list_map sorted_JObj del: sorted_json.simps)

lemma read_segment_bytes:
  assumes "\<forall>d\<in>set ds. stored_descriptor d" "parent_value prev"
  shows "read_json (segment_bytes i prev first ds) = Inr (JObj
    [(''descriptors'', JList (map JObj (map read_dict ds))), (''first_chunk_index'', JInt (int first)),
     (''parent_sha256'', prev), (''schema'', JStr PREFIX_SEGMENT_SCHEMA), (''storage_key'', JStr (storage_key i))])"
proof -
  have "writable (segment_value i prev first ds)"
    using assms stored_writable by (auto simp: segment_value_def writable_list_iff simp del: writable.simps(7))
      (simp add: writable_list_iff stored_writable)
  then show ?thesis using assms(2) sorted_dicts [of ds]
    by (simp add: segment_bytes_def read_json_def json_loads_canonical del: map_map) (simp add: segment_value_def del: map_map)
qed

lemma check_read_dicts:
  "\<forall>d\<in>set ds. stored_descriptor d \<Longrightarrow> check_descriptor_dicts (map JObj (map read_dict ds)) = Inr ()"
  by (induction ds)
     (auto simp: strict_keys_def keys_read_dict stored_descriptor_def described_def simp del: set_map)

lemma validate_read_segment:
  assumes "\<forall>d\<in>set ds. stored_descriptor d" "parent_value prev" "ds \<noteq> []" "length ds \<le> SEGMENT_LENGTH"
    and "read_json (segment_bytes i prev first ds) = Inr v"
  shows "validate_prefix_segment v (storage_key i) (int first) = Inr (map read_dict ds)"
    and "\<exists>g. the_obj v = Some g \<and> jget g ''parent_sha256'' = prev"
proof -
  have v: "v = JObj
    [(''descriptors'', JList (map JObj (map read_dict ds))), (''first_chunk_index'', JInt (int first)),
     (''parent_sha256'', prev), (''schema'', JStr PREFIX_SEGMENT_SCHEMA), (''storage_key'', JStr (storage_key i))]"
    using read_segment_bytes [OF assms(1,2), of i first] assms(5) by simp
  have "prev \<noteq> JNull \<Longrightarrow> format_digest prev = Inr ()"
    using assms(2) by (auto simp: parent_value_def)
  then show "validate_prefix_segment v (storage_key i) (int first) = Inr (map read_dict ds)"
    using assms(3,4) check_read_dicts [OF assms(1)]
    by (auto simp: v validate_prefix_segment_def strict_keys_def insert_commute simp del: map_map validators_Inr)
  show "\<exists>g. the_obj v = Some g \<and> jget g ''parent_sha256'' = prev" by (simp add: v)
qed

definition segments_in :: "cache_identity \<Rightarrow> store \<Rightarrow> (string \<times> string) list \<Rightarrow> bool" where
  "segments_in i s segs \<longleftrightarrow> (\<forall>(d, b)\<in>set segs. files s (prefix_segment_path i d) = Content b)"

lemma chain_parent_value: "parent_value (chain_parent JNull (segment_chain i JNull 0 ds) j)"
  if "j < length (segment_chain i JNull 0 ds)"
proof (cases j)
  case (Suc k)
  then show ?thesis using that segment_chain_nth [of k i JNull 0 ds]
    by (auto simp: chain_parent_def parent_value_def Let_def sha256_digest)
qed (simp add: chain_parent_def parent_value_def)

lemma chain_reads_back:
  assumes stored: "\<forall>d\<in>set ds. stored_descriptor d" and here: "segments_in i s segs"
    and segs: "segs = segment_chain i JNull 0 ds" and dist: "distinct (map fst segs)" and span: "span \<le> length segs"
  shows "0 < k \<Longrightarrow> k \<le> length segs \<Longrightarrow> set visited \<inter> fst ` set (take k segs) = {} \<Longrightarrow>
    \<exists>seen. read_chain i s span k (fst (segs ! (k - 1))) visited = Inr (map read_dict (take (k * SEGMENT_LENGTH) ds), seen)"
proof (induction k arbitrary: visited)
  case (Suc j)
  let ?ds = "take SEGMENT_LENGTH (drop (j * SEGMENT_LENGTH) ds)" and ?prev = "chain_parent JNull segs j"
  define b where "b = segment_bytes i ?prev (j * SEGMENT_LENGTH) ?ds"
  have j: "j < length segs" using Suc.prems(2) by simp
  have nth: "segs ! j = (sha256 b, b)"
    using segment_chain_nth [of j i JNull 0 ds] j by (simp add: segs b_def Let_def)
  have stored_file: "read_bytes (prefix_segment_path i (sha256 b)) s = Inr b"
    using here j nth nth_mem [OF j] by (force simp: segments_in_def read_bytes_def)
  have prev: "parent_value ?prev" using chain_parent_value j by (simp add: segs)
  have st: "\<forall>d\<in>set ?ds. stored_descriptor d" using stored by (meson in_set_dropD in_set_takeD)
  have len: "length segs = (length ds + 15) div 16" by (simp add: segs segment_chain_length)
  then have "j * 16 < length ds" using j by linarith
  then have ne: "?ds \<noteq> []" by simp
  obtain v where v: "read_json b = Inr v" using read_segment_bytes [OF st prev] by (simp add: b_def)
  note read = validate_read_segment [OF st prev ne _ v [unfolded b_def]]
  obtain g where g: "the_obj v = Some g" "jget g ''parent_sha256'' = ?prev" using read(2) by auto
  have full: "Suc j < span \<Longrightarrow> length (map read_dict ?ds) = SEGMENT_LENGTH"
    using span len by simp
  have fresh: "sha256 b \<notin> set visited" using Suc.prems(3) j nth by (auto simp: take_Suc_conv_app_nth)
  have sofar: "take (Suc j * SEGMENT_LENGTH) ds = take (j * SEGMENT_LENGTH) ds @ ?ds"
    by (simp only: mult_Suc add.commute [of SEGMENT_LENGTH] take_add)
  show ?case
  proof (cases j)
    case 0
    then show ?thesis using nth stored_file v read(1) g fresh full sofar
      by (simp add: chain_parent_def del: map_append map_map)
  next
    case (Suc m)
    have p: "?prev = JStr (fst (segs ! m))" by (simp add: chain_parent_def Suc)
    have "set (sha256 b # visited) \<inter> fst ` set (take j segs) = {}"
    proof -
      have "distinct (map fst (take j segs @ [segs ! j]))"
        using dist distinct_take [of "map fst segs" "Suc j"] j by (simp add: take_map [symmetric] take_Suc_conv_app_nth)
      then show ?thesis using Suc.prems(3) j nth by (auto simp: take_Suc_conv_app_nth)
    qed
    then obtain seen where "read_chain i s span j (fst (segs ! m)) (sha256 b # visited)
        = Inr (map read_dict (take (j * SEGMENT_LENGTH) ds), seen)"
      using Suc.IH [of "sha256 b # visited"] j Suc by auto
    moreover have "0 < j" "j \<noteq> 0" using Suc by simp_all
    ultimately show ?thesis using nth stored_file v read(1) g fresh full sofar p
      by (simp add: read_chain.simps(2) [of i s span j "sha256 b" visited]
          del: read_chain.simps(2) SEGMENT_LENGTH_simps(1) map_map)
  qed
qed simp


section \<open>Published segments\<close>

lemma segment_first_index:
  assumes "segment_bytes i prev first ds = segment_bytes i prev' first' ds'"
    and "\<forall>d\<in>set ds. stored_descriptor d" "\<forall>d\<in>set ds'. stored_descriptor d" "parent_value prev" "parent_value prev'"
  shows "first = first'"
  using read_segment_bytes [OF assms(2,4), of i first] read_segment_bytes [OF assms(3,5), of i first'] assms(1) by simp

lemma segments_distinct:
  assumes "\<forall>d\<in>set ds. stored_descriptor d" "segs = segment_chain i JNull 0 ds"
    and one: "\<forall>d b b'. (d, b) \<in> set segs \<longrightarrow> (d, b') \<in> set segs \<longrightarrow> b = b'"
  shows "distinct (map fst segs)"
proof -
  have "fst (segs ! j) \<noteq> fst (segs ! k)" if "j < k" "k < length segs" for j k
  proof
    assume eq: "fst (segs ! j) = fst (segs ! k)"
    have jk: "j < length segs" using that by simp
    let ?b = "\<lambda>j. segment_bytes i (chain_parent JNull segs j) (j * SEGMENT_LENGTH)
      (take SEGMENT_LENGTH (drop (j * SEGMENT_LENGTH) ds))"
    have nth: "segs ! n = (sha256 (?b n), ?b n)" if "n < length segs" for n
      using segment_chain_nth [of n i JNull 0 ds] that by (simp add: assms(2) Let_def)
    have "?b j = ?b k"
      using one eq nth [OF jk] nth [OF that(2)] nth_mem [OF jk] nth_mem [OF that(2)] by (metis fst_conv)
    moreover have "\<forall>d\<in>set (take SEGMENT_LENGTH (drop n ds)). stored_descriptor d" for n
      using assms(1) by (meson in_set_dropD in_set_takeD)
    moreover have "parent_value (chain_parent JNull segs n)" if "n < length segs" for n
      using chain_parent_value that by (simp add: assms(2))
    ultimately have "j * SEGMENT_LENGTH = k * SEGMENT_LENGTH"
      using segment_first_index jk that(2) by blast
    then show False using that(1) by simp
  qed
  then show ?thesis by (auto simp: distinct_conv_nth) (metis linorder_neqE_nat)
qed

lemma published_segments:
  assumes "publish_immutable_batch (segment_objects i segs) s = (Inr (), t)"
  shows "segments_in i t segs" "\<forall>d b b'. (d, b) \<in> set segs \<longrightarrow> (d, b') \<in> set segs \<longrightarrow> b = b'"
proof -
  have mem: "(prefix_segment_path i d, b) \<in> set (segment_objects i segs)" if "(d, b) \<in> set segs" for d b
    using that by (force simp: segment_objects_def)
  show "segments_in i t segs" using batch.published [OF assms] mem by (auto simp: segments_in_def)
  show "\<forall>d b b'. (d, b) \<in> set segs \<longrightarrow> (d, b') \<in> set segs \<longrightarrow> b = b'"
    using batch.one_content [OF assms] mem by blast
qed

text \<open>A chain that was published is read back from any of its segments.\<close>

lemma published_chain:
  assumes "publish_immutable_batch (segment_objects i segs) s = (Inr (), t)" "segs = segment_chain i JNull 0 ds"
    and "\<forall>d\<in>set ds. stored_descriptor d" "0 < k" "k \<le> length segs" "segments_in i u segs"
  shows "\<exists>seen. read_chain i u k k (fst (segs ! (k - 1))) []
    = Inr (map read_dict (take (k * SEGMENT_LENGTH) ds), seen)"
  using chain_reads_back [OF assms(3,6,2) segments_distinct [OF assms(3,2) published_segments(2) [OF assms(1)]] assms(5)]
    assms(4,5) by simp

section \<open>Manifests over descriptors\<close>

lemma wire_identity_written:
  assumes "valid_identity i" shows "wire_identity_ok (wire_items i)"
proof -
  note v = CacheIdentity_Inr [OF assms [unfolded valid_identity_def]]
  have keys: "set (dkeys (wire_items i)) = set BASE_FIELDS
      \<union> {k. k = ''record_schema'' \<and> record_schema i \<noteq> []}
      \<union> {k. k = ''publication_schema'' \<and> publication_schema i \<noteq> []}"
    unfolding wire_keys by auto
  have "''record_schema'' \<notin> set BASE_FIELDS" "''publication_schema'' \<notin> set BASE_FIELDS"
    by (simp_all add: BASE_FIELDS_def)
  then have "''record_schema'' \<in> set (dkeys (wire_items i)) \<longleftrightarrow> record_schema i \<noteq> []"
    "''publication_schema'' \<in> set (dkeys (wire_items i)) \<longleftrightarrow> publication_schema i \<noteq> []"
    unfolding keys by auto
  then show ?thesis
    unfolding wire_identity_ok_def keys
    using v schema_list_ok_wire [OF assms]
    by (auto simp: jget_wire int_where_def positive_number_def)
qed

lemma same_identity_self: "same_identity (to_wire i) i"
  using py_eq_refl(1) [OF writable_to_wire] by (simp add: same_identity_def)

lemma tiled_dicts_le: "tiled_dicts f a vs b \<Longrightarrow> vs \<noteq> [] \<Longrightarrow> a < b"
proof (induction vs arbitrary: a)
  case (Cons v vs)
  then obtain e where "a < e" "tiled_dicts f e vs b" by auto
  then show ?case using Cons.IH [of e] by (cases vs) auto
qed simp

lemma validate_synthetic:
  assumes "valid_identity i" "tiled_dicts (chunk_tokens i) 0 (map JObj ds) n" "ds \<noteq> []"
  shows "validate_manifest_metadata (synthetic_manifest i c (JInt n) (JList (map JObj ds)))
    (EntryKey (storage_key i) c) (Some i) = Inr ds"
proof -
  have "0 < n" using tiled_dicts_le [OF assms(2)] assms(3) by simp
  moreover have "check_chunks (chunk_tokens i) 0 (map JObj ds) = Inr n" using assms(2) by (simp add: check_chunks_iff)
  moreover have "jget (wire_items i) ''chunk_tokens'' = JInt (chunk_tokens i)" by (simp add: jget_wire)
  ultimately show ?thesis
    using assms(3) wire_identity_written [OF assms(1)] same_identity_self [of i]
    by (auto simp: validate_manifest_metadata_def synthetic_manifest_def strict_keys_def to_wire_items [symmetric]
        EntryKey_def storage_key_def int_where_def insert_commute)
       (simp_all add: to_wire_items int_where_def)
qed

text \<open>Descriptors that tile a span, can be written, pass every check and restore to given chunks.\<close>

definition backed :: "cache_identity \<Rightarrow> store \<Rightarrow> int \<Rightarrow> jdict list \<Rightarrow> context_chunk list \<Rightarrow> int \<Rightarrow> bool" where
  "backed i s a ds cs b \<longleftrightarrow>
     tiled_dicts (chunk_tokens i) a (map JObj ds) b \<and> (\<forall>d\<in>set ds. stored_descriptor d)
     \<and> (\<forall>v m. check_chunk_files v m i s ds = Inr ())
     \<and> mapE (restore_one (required_records i) s) (map JObj ds) = Inr cs"

lemma check_chunk_files_iff: "check_chunk_files v m i s ds = Inr () \<longleftrightarrow> (\<forall>d\<in>set ds. check_chunk_file v m i s d = Inr ())"
  by (induction ds) (auto simp: bindE_Inr)

lemma checked_any:
  assumes "check_chunk_file True meta i s d = Inr ()" "described a e d"
  shows "check_chunk_file v m i s d = Inr ()"
proof -
  obtain n where n: "jget d ''bytes'' = JInt n" using assms(2) by (auto simp: described_def)
  obtain b where b: "files s (chunk_path d) = Content b"
    using assms(1) by (cases "files s (chunk_path d)") (auto simp: check_chunk_file_def read_bytes_def)
  then have "int (length b) = n"
    using assms(1) by (auto simp: check_chunk_file_def read_bytes_def matches_described [OF assms(2) n] success_iff)
  then show ?thesis using assms(1) b n by (cases v) (simp_all add: check_chunk_file_def read_bytes_def)
qed

lemma backed_read:
  assumes "backed i s a ds cs b"
  shows "tiled_dicts (chunk_tokens i) a (map JObj (map read_dict ds)) b"
    "check_chunk_files v m i s (map read_dict ds) = Inr ()"
    "mapE (restore_one (required_records i) s) (map JObj (map read_dict ds)) = Inr cs"
proof -
  have tiled: "tiled_dicts f a (map JObj es) b \<Longrightarrow> \<forall>d\<in>set es. stored_descriptor d
    \<Longrightarrow> tiled_dicts f a (map JObj (map read_dict es)) b" for f es
  proof (induction es arbitrary: a)
    case (Cons d es)
    then show ?case by (fastforce simp: keys_read_dict simp del: set_map)
  qed simp
  have rest: "\<forall>d\<in>set es. stored_descriptor d \<Longrightarrow>
      mapE f (map JObj (map read_dict es)) = mapE f (map JObj es)" if "f = restore_one (required_records i) s" for f es
    using that by (induction es) simp_all
  note b = assms [unfolded backed_def]
  show "tiled_dicts (chunk_tokens i) a (map JObj (map read_dict ds)) b" using tiled b by blast
  show "check_chunk_files v m i s (map read_dict ds) = Inr ()"
    using b by (simp add: check_chunk_files_iff)
  show "mapE (restore_one (required_records i) s) (map JObj (map read_dict ds)) = Inr cs"
    using rest [OF refl, of ds] b by simp
qed


lemma tiled_dicts_described: "tiled_dicts f a (map JObj ds) b \<Longrightarrow> d \<in> set ds \<Longrightarrow> \<exists>a e. described a e d"
  by (induction ds arbitrary: a) (auto simp: described_def)

lemma backedI:
  assumes "tiled_dicts (chunk_tokens i) a (map JObj ds) b" "wf_list (map JObj ds)"
    "check_chunk_files True meta i s ds = Inr ()"
  shows "\<exists>cs. backed i s a ds cs b"
proof -
  have st: "\<forall>d\<in>set ds. stored_descriptor d"
    using tiled_dicts_described [OF assms(1)] assms(2) by (auto simp: stored_descriptor_def wf_list_iff)
  have "check_chunk_files v m i s ds = Inr ()" for v m
    using assms(3) checked_any tiled_dicts_described [OF assms(1)] by (fastforce simp: check_chunk_files_iff)
  with checked_chunks_restore [OF assms(1,3)] st assms(1) show ?thesis by (auto simp: backed_def)
qed

text \<open>What a verified row hit says.\<close>

lemma row_hit_backed:
  assumes "lookup i c True meta mode s = Inr h" "is_hit h" "lr_root_kind h \<in> {''manifest'', ''prefix_alias''}"
    and "valid_identity i"
  obtains enc d ds cs n where "h = hit enc (JObj d) (lr_root_kind h)"
    "validate_manifest_metadata (JObj d) (EntryKey (storage_key i) c) (Some i) = Inr ds" "ds \<noteq> []"
    "committed_of (JObj d) = Some n" "jget d ''chunks'' = JList (map JObj ds)"
    "backed i s 0 ds cs n" "restore h s = Inr (Some cs)"
proof -
  obtain enc m ds where h: "h = hit enc m (lr_root_kind h)"
    "validate_manifest_metadata m (EntryKey (storage_key i) c) (Some i) = Inr ds" "wf_json m"
    "check_chunk_files True meta i s ds = Inr ()"
    by (rule row_hit [OF assms(1-3)])
  obtain d w n full where m: "m = JObj d" "jget d ''identity'' = JObj w" "wire_identity_ok w"
    "same_identity (JObj w) i" "jget d ''committed_tokens'' = JInt n" "jget w ''chunk_tokens'' = JInt full"
    "jget d ''chunks'' = JList (map JObj ds)" "tiled_dicts full 0 (map JObj ds) n" "ds \<noteq> []"
    using validate_manifest_Inr [OF h(2)] by metis
  have w: "wf_json (JObj w)" using h(3) m(1,2) wf_field [of d "''identity''"] by simp
  note f = identity_fields [OF w m(3,4)]
  have full: "full = chunk_tokens i" using f(2) m(6) by simp
  have "wf_list (map JObj ds)" using h(3) m(1,7) wf_field [of d "''chunks''"] by simp
  with backedI m(8) full h(4) obtain cs where cs: "backed i s 0 ds cs n" by blast
  then have "restore (hit enc m (lr_root_kind h)) s = Inr (Some cs)"
    using assms(3) m(1,2,7) f(1) by (auto simp: restore_def hit_def backed_def)
  with h(1) have "restore h s = Inr (Some cs)" by simp
  then show ?thesis using that h(1,2) m(1,5,7,9) cs by (auto simp: committed_of_def)
qed

text \<open>Files that did not change keep descriptors backed.\<close>

definition same_chunks :: "jdict list \<Rightarrow> store \<Rightarrow> store \<Rightarrow> bool" where
  "same_chunks ds s t \<longleftrightarrow> (\<forall>d\<in>set ds. files t (chunk_path d) = files s (chunk_path d))"

lemma same_file:
  assumes "files t (chunk_path d) = files s (chunk_path d)"
  shows "check_chunk_file v m i t d = check_chunk_file v m i s d" "restore_one R t (JObj d) = restore_one R s (JObj d)"
proof -
  have eq: "read_bytes (chunk_path d) t = read_bytes (chunk_path d) s" using assms by (simp add: read_bytes_def)
  show "check_chunk_file v m i t d = check_chunk_file v m i s d" unfolding check_chunk_file_def eq ..
  show "restore_one R t (JObj d) = restore_one R s (JObj d)" unfolding restore_one_def the_obj.simps option.case eq ..
qed

lemma backed_same:
  assumes "backed i s a ds cs b" "same_chunks ds s t" shows "backed i t a ds cs b"
proof -
  have f: "files t (chunk_path d) = files s (chunk_path d)" if "d \<in> set ds" for d
    using assms(2) that by (simp add: same_chunks_def)
  have one: "restore_one R t (JObj d) = restore_one R s (JObj d)" if "d \<in> set ds" for d R
    by (rule same_file(2) [OF f [OF that]])
  have "mapE (restore_one R t) (map JObj es) = mapE (restore_one R s) (map JObj es)" if "set es \<subseteq> set ds" for R es
    using that by (induction es) (simp_all add: one)
  moreover have "check_chunk_file v m i t d = check_chunk_file v m i s d" if "d \<in> set ds" for v m d
    by (rule same_file(1) [OF f [OF that]])
  ultimately show ?thesis using assms(1) by (simp add: backed_def check_chunk_files_iff)
qed

lemma backed_append:
  assumes "backed i s a ds cs b" "backed i s b es xs c" "tiled_dicts (chunk_tokens i) a (map JObj (ds @ es)) c"
  shows "backed i s a (ds @ es) (cs @ xs) c"
proof -
  have "mapE f (us @ vs) = bindE (mapE f us) (\<lambda>x. bindE (mapE f vs) (\<lambda>y. Inr (x @ y)))" for f :: "json \<Rightarrow> exn + context_chunk" and us vs
  proof (induction us)
    case (Cons u us)
    then show ?case by (cases "f u"; cases "mapE f us"; cases "mapE f vs") simp_all
  qed (cases "mapE f vs"; simp)
  then show ?thesis using assms by (auto simp: backed_def check_chunk_files_iff)
qed

text \<open>The first descriptors of a tiling, and the boundary they reach.\<close>

lemma tiled_take:
  "tiled_dicts f a (map JObj ds) b \<Longrightarrow> 0 < k \<Longrightarrow> k \<le> length ds \<Longrightarrow>
    tiled_dicts f a (map JObj (take k ds)) (descriptor_end (ds ! (k - 1)))"
proof (induction ds arbitrary: a k)
  case (Cons d ds)
  then obtain e where e: "jget d ''logical_end'' = JInt e" "tiled_dicts f e (map JObj ds) b" by auto
  show ?case
  proof (cases "k = 1")
    case True
    then show ?thesis using Cons.prems e(1) by (auto simp: descriptor_end_def)
  next
    case False
    then obtain j where j: "k = Suc j" "0 < j" "j \<le> length ds" using Cons.prems(2,3) by (cases k) auto
    have "map JObj (take j ds) \<noteq> [] \<longrightarrow> map JObj ds \<noteq> []" by auto
    then show ?thesis using Cons.IH [OF e(2) j(2,3)] Cons.prems(1) e(1) j by auto
  qed
qed simp

lemma backed_take:
  assumes "backed i s a ds cs b" "0 < k" "k \<le> length ds"
  shows "backed i s a (take k ds) (take k cs) (descriptor_end (ds ! (k - 1)))"
proof -
  have "mapE f us = Inr xs \<Longrightarrow> mapE f (take k us) = Inr (take k xs)" for f :: "json \<Rightarrow> exn + context_chunk" and us xs
    by (simp add: mapE_Inr list_all2_takeI)
  then have "mapE (restore_one (required_records i) s) (map JObj (take k ds)) = Inr (take k cs)"
    using assms(1) by (simp add: backed_def take_map [symmetric])
  moreover have "\<forall>d\<in>set (take k ds). d \<in> set ds" by (meson in_set_takeD)
  ultimately show ?thesis using assms tiled_take [of "chunk_tokens i" a ds b k]
    by (auto simp: backed_def check_chunk_files_iff)
qed

lemma backed_chunks:
  assumes "backed i s a ds cs b"
  shows "length cs = length ds" "\<forall>k<length ds. logical_end (cs ! k) = descriptor_end (ds ! k)"
proof -
  have two: "list_all2 (\<lambda>v x. restore_one (required_records i) s v = Inr x) (map JObj ds) cs"
    using assms by (simp add: backed_def mapE_Inr)
  then show "length cs = length ds" using list_all2_lengthD by fastforce
  have ends: "logical_end x = descriptor_end d" if r: "restore_one (required_records i) s (JObj d) = Inr x" "stored_descriptor d" for d x
  proof -
    obtain a e where de: "described a e d" using r(2) by (auto simp: stored_descriptor_def)
    then have "jget d ''logical_start'' = JInt a" "jget d ''logical_end'' = JInt e" by (auto simp: described_def)
    moreover obtain y where "decoded_as_described (required_records i) d y = Inr x"
      using r(1) by (auto simp: restore_one_def bindE_Inr split: if_splits)
    ultimately show ?thesis using decoded_as_described_Inr by (simp add: descriptor_end_def)
  qed
  then show "\<forall>k<length ds. logical_end (cs ! k) = descriptor_end (ds ! k)"
    using two assms ends by (auto simp: list_all2_conv_all_nth backed_def)
qed

text \<open>A root that stands for backed descriptors is hit and restored.\<close>

lemma synthetic_hit_restores:
  assumes "valid_identity i" "backed i s 0 ds cs n" "kind \<notin> {''page_delta'', ''page_snapshot''}"
  shows "restore (hit raw (synthetic_manifest i c (JInt n) (JList (map JObj (map read_dict ds)))) kind) s = Inr (Some cs)"
proof -
  have "required_records_for_identity_wire (wire_items i) = Inr (required_records i)"
    using identity_fields(1) [of "wire_items i" i] wf_writable(1) [OF writable_to_wire [of i]]
      wire_identity_written [OF assms(1)] same_identity_self [of i] by (simp add: to_wire_items)
  then show ?thesis
    using assms(3) backed_read(3) [OF assms(2)]
    by (simp add: restore_def hit_def synthetic_manifest_def to_wire_items del: map_map)
qed

end
