(* ===== verification/Extend_Laws.thy ===== *)
theory Extend_Laws
  imports Chain_Laws
begin

text \<open>
  What aliases and extensions promise: a published alias is found under the digest of the prefix it
  names and restores exactly the chunks of that prefix, and a committed extension restores the reused
  chunks of its base followed by its tail.
\<close>

section \<open>Roots that carry their own digest\<close>

lemma authentic_read:
  assumes "''metadata_sha256'' \<notin> set (dkeys d)"
  shows "metadata_authentic (read_dict (with_metadata d))"
proof -
  let ?m = "''metadata_sha256''"
  have old: "filter (\<lambda>x. ?m \<noteq> fst x) (sorted_items d) = sorted_items d"
  proof (rule filter_True, rule ballI)
    fix x assume x: "x \<in> set (sorted_items d)"
    have "fst ` set (sorted_items d) = set (dkeys d)" by (metis keys_sorted_items set_map)
    then show "?m \<noteq> fst x" using assms imageI [OF x, of fst] by metis
  qed
  have items: "sorted_items (with_metadata d) = sorted_items d @ [(?m, JStr (sha256 (canonical_json (JObj d))))]"
    by (simp add: with_metadata_def sorted_items_map)
  have del: "ddel ?m (read_dict (with_metadata d)) = read_dict d"
  proof -
    have "ddel ?m e = filter (\<lambda>x. ?m \<noteq> fst x) e" for e :: jdict
      by (induction e) auto
    then have "ddel ?m (read_dict (with_metadata d)) = sort_key fst (filter (\<lambda>x. ?m \<noteq> fst x) (sorted_items (with_metadata d)))"
      by (simp only: read_dict_def filter_sort)
    also have "filter (\<lambda>x. ?m \<noteq> fst x) (sorted_items (with_metadata d)) = sorted_items d"
      unfolding items filter_append old by simp
    finally show ?thesis by (simp only: read_dict_def)
  qed
  have "canonical_json (JObj (read_dict d)) = canonical_json (JObj d)"
    by (simp only: canonical_json_def sorted_JObj [symmetric] enc_sorted(1))
  moreover have "jget (with_metadata d) ?m = JStr (sha256 (canonical_json (JObj d)))"
    using dget_None [of d ?m] assms by (simp add: jget_def with_metadata_def map_add_def)
  ultimately show ?thesis by (simp add: metadata_authentic_def jget_read_dict del)
qed

lemma keys_with_metadata: "dkeys (with_metadata d) = dkeys d @ [''metadata_sha256'']"
  by (simp add: with_metadata_def)

lemma jget_with_metadata: "k \<noteq> ''metadata_sha256'' \<Longrightarrow> jget (with_metadata d) k = jget d k"
  by (auto simp: with_metadata_def jget_def map_add_def split: option.split)

lemma writable_with_metadata:
  "writable (JObj d) \<Longrightarrow> ''metadata_sha256'' \<notin> set (dkeys d) \<Longrightarrow> writable (JObj (with_metadata d))"
  by (auto simp: with_metadata_def writable_items_iff)

section \<open>Prefix aliases\<close>

definition alias_value :: "cache_identity \<Rightarrow> string \<Rightarrow> alias_plan \<Rightarrow> jdict" where
  "alias_value i source a = alias_fields i (ap_context a) (ap_boundary a) (ap_count a) (ap_tail a) source"

lemma writable_alias: "writable (JObj (alias_value i source a))"
  by (simp add: alias_value_def alias_fields_def)

lemma read_alias:
  "read_json (snd (alias_object i source a)) = Inr (JObj (read_dict (with_metadata (alias_value i source a))))"
proof -
  have "''metadata_sha256'' \<notin> set (dkeys (alias_value i source a))" by (simp add: alias_value_def alias_fields_def)
  then show ?thesis
    using json_loads_canonical [OF writable_with_metadata [OF writable_alias]]
    by (simp add: alias_object_def read_json_def alias_value_def [symmetric] sorted_JObj del: sorted_json.simps writable.simps)
qed

lemma validate_written_alias:
  assumes "is_sha256 (ap_tail a)" "is_sha256 source" "0 < ap_boundary a" "0 < ap_count a"
  shows "validate_prefix_alias (JObj (read_dict (with_metadata (alias_value i source a)))) i (ap_context a)
    = Inr (ap_boundary a, int (ap_count a), ap_tail a)"
proof -
  let ?d = "read_dict (with_metadata (alias_value i source a))"
  have new: "''metadata_sha256'' \<notin> set (dkeys (alias_value i source a))" by (simp add: alias_value_def alias_fields_def)
  have get: "jget ?d k = sorted_json (jget (alias_value i source a) k)" if "k \<noteq> ''metadata_sha256''" for k
    by (simp add: jget_read_dict jget_with_metadata that)
  have meta: "is_digest (jget ?d ''metadata_sha256'')"
    using authentic_read [OF new] sha256_digest by (simp add: metadata_authentic_def)
  have keys: "set (dkeys ?d) = {''schema'', ''format_abi'', ''storage_mode'', ''identity'', ''context_digest'',
      ''committed_tokens'', ''chunk_count'', ''tail_segment_sha256'', ''source_manifest_digest'', ''metadata_sha256''}"
    unfolding keys_read_dict keys_with_metadata by (auto simp: alias_value_def alias_fields_def)
  have fields: "jget ?d ''schema'' = JStr PREFIX_ALIAS_SCHEMA" "jget ?d ''format_abi'' = JInt FORMAT_ABI"
    "jget ?d ''storage_mode'' = JStr ''per_token_rows''" "jget ?d ''identity'' = JObj (read_items i)"
    "jget ?d ''context_digest'' = JStr (ap_context a)" "jget ?d ''committed_tokens'' = JInt (ap_boundary a)"
    "jget ?d ''chunk_count'' = JInt (int (ap_count a))" "jget ?d ''tail_segment_sha256'' = JStr (ap_tail a)"
    "jget ?d ''source_manifest_digest'' = JStr source"
    by (subst get, simp, simp add: alias_value_def alias_fields_def sorted_to_wire)+
  have strict: "strict_keys ?d [''schema'', ''format_abi'', ''storage_mode'', ''identity'', ''context_digest'',
      ''committed_tokens'', ''chunk_count'', ''tail_segment_sha256'', ''source_manifest_digest'', ''metadata_sha256''] = Inr ()"
    unfolding strict_keys_def keys by simp
  have digests: "format_digest (JStr (ap_tail a)) = Inr ()" "format_digest (JStr source) = Inr ()"
    "format_digest (jget ?d ''metadata_sha256'') = Inr ()"
    using assms(1,2) meta by simp_all
  show ?thesis
    unfolding validate_prefix_alias_def the_obj.simps option.case strict bindE_simps fields digests
    using assms(3,4) authentic_read [OF new] wire_ok_read(1) [of i] by simp
qed

text \<open>What the plan says of every alias.\<close>

definition planned :: "jdict list \<Rightarrow> (string \<times> string) list \<Rightarrow> int list \<Rightarrow> string \<Rightarrow> alias_plan \<Rightarrow> bool" where
  "planned ds segs token_ids salt a \<longleftrightarrow>
     0 < ap_count a \<and> ap_count a \<le> length ds
     \<and> ap_boundary a = descriptor_end (ds ! (ap_count a - 1))
     \<and> (ap_count a + SEGMENT_LENGTH - 1) div SEGMENT_LENGTH \<le> length segs
     \<and> ap_tail a = fst (segs ! ((ap_count a - 1) div SEGMENT_LENGTH))
     \<and> context_prefix_digest token_ids salt (Some (ap_boundary a)) [] = Inr (ap_context a)"

lemma descriptor_ends_Some:
  "map_of (descriptor_ends j ds) b = Some k \<Longrightarrow>
    j < k \<and> k \<le> j + length ds \<and> descriptor_end (ds ! (k - j - 1)) = b"
proof (induction ds arbitrary: j)
  case (Cons d ds)
  show ?case
  proof (cases "descriptor_end d = b")
    case True
    then show ?thesis using Cons.prems by auto
  next
    case False
    then have "map_of (descriptor_ends (j + 1) ds) b = Some k" using Cons.prems by simp
    note IH = Cons.IH [OF this]
    then have "(d # ds) ! (k - j - 1) = ds ! (k - (j + 1) - 1)" by (cases "k - j - 1") auto
    then show ?thesis using IH by simp
  qed
qed simp

lemma mapE_source: "mapE f xs = Inr ys \<Longrightarrow> y \<in> set ys \<Longrightarrow> \<exists>x\<in>set xs. f x = Inr y"
  by (induction xs arbitrary: ys) (auto simp: bindE_Inr)

lemma plan_aliases_facts:
  assumes "plan_aliases i source token_ids salt requested s = Inr (sd, segs, plans)"
    "source_descriptors i source s = Inr (raw, n, ds)"
  shows "sd = sha256 raw" "\<exists>m. segs = segment_chain i JNull 0 (take m ds)
     \<and> (\<forall>a\<in>set plans. ap_count a \<le> m) \<and> m mod SEGMENT_LENGTH = 0"
    "\<forall>a\<in>set plans. planned ds segs token_ids salt a"
proof -
  obtain bs digests cuts where p: "chunk_prefix_digests token_ids salt (sort (remdups (bs @ [n]))) [] CODEC_CHUNK_TOKENS = Inr digests"
    "mapE (cut_at ds) bs = Inr cuts" "segs = segment_chain i JNull 0 (covered_descriptors cuts ds)"
    "mapE (plan_alias digests segs) cuts = Inr plans" "sd = sha256 raw"
    using assms(1) unfolding plan_aliases_def assms(2) by (auto simp: bindE_Inr Let_def split: if_splits)
  show "sd = sha256 raw" by (rule p(5))
  define most where "most = Max (set (map snd cuts))"
  define m where "m = SEGMENT_LENGTH * ((most + SEGMENT_LENGTH - 1) div SEGMENT_LENGTH)"
  have cut: "map_of (descriptor_ends 0 ds) b = Some k" if h: "(b, k) \<in> set cuts" for b k
  proof -
    obtain x where "cut_at ds x = Inr (b, k)" using mapE_source [OF p(2) h] by blast
    then show ?thesis by (auto simp: cut_at_def split: option.splits)
  qed
  have plan: "\<exists>b k. (b, k) \<in> set cuts \<and> map_of digests b = Some (ap_context a) \<and> ap_boundary a = b \<and> ap_count a = k
      \<and> ap_tail a = fst (segs ! ((k - 1) div SEGMENT_LENGTH))" if h: "a \<in> set plans" for a
  proof -
    obtain x where "x \<in> set cuts" "plan_alias digests segs x = Inr a" using mapE_source [OF p(4) h] by blast
    then show ?thesis by (cases x) (auto simp: plan_alias_def split: option.splits)
  qed
  have le: "k \<le> most" if "(b, k) \<in> set cuts" for b k
    unfolding most_def by (rule Max_ge) (use that in force)+
  have chain: "segs = segment_chain i JNull 0 (take m ds)" by (simp only: p(3) covered_descriptors_def m_def most_def)
  have whole: "k \<le> m" if "k \<le> most" for k using that by (simp add: m_def)
  show "\<exists>m. segs = segment_chain i JNull 0 (take m ds) \<and> (\<forall>a\<in>set plans. ap_count a \<le> m) \<and> m mod SEGMENT_LENGTH = 0"
  proof (intro exI conjI ballI)
    show "segs = segment_chain i JNull 0 (take m ds)" by (rule chain)
    show "m mod SEGMENT_LENGTH = 0" by (simp add: m_def)
    show "ap_count a \<le> m" if "a \<in> set plans" for a using plan [OF that] le whole by blast
  qed
  show "\<forall>a\<in>set plans. planned ds segs token_ids salt a"
  proof
    fix a assume a: "a \<in> set plans"
    obtain b where b: "(b, ap_count a) \<in> set cuts" "map_of digests b = Some (ap_context a)" "ap_boundary a = b"
      "ap_tail a = fst (segs ! ((ap_count a - 1) div SEGMENT_LENGTH))" using plan [OF a] by auto
    note e = descriptor_ends_Some [OF cut [OF b(1)]]
    have "(ap_count a + SEGMENT_LENGTH - 1) div SEGMENT_LENGTH \<le> length segs"
    proof -
      have "ap_count a \<le> min (length ds) m" using e whole [OF le [OF b(1)]] by simp
      then show ?thesis by (simp add: chain segment_chain_length div_le_mono)
    qed
    moreover have "context_prefix_digest token_ids salt (Some b) [] = Inr (ap_context a)"
      using codec_digests.digest_at [of "(token_ids, salt, [], CODEC_CHUNK_TOKENS)"] p(1) b(2) by simp
    ultimately show "planned ds segs token_ids salt a" using e b(3,4) by (simp add: planned_def)
  qed
qed


text \<open>An alias read back: its segments give the descriptors of its prefix.\<close>

lemma segment_count_nat: "0 < k \<Longrightarrow> segment_count (int k) = (k - 1) div SEGMENT_LENGTH + 1"
proof -
  assume "0 < k"
  have "segment_count (int k) = nat (int ((k + 15) div 16))" by (simp add: segment_count_def zdiv_int)
  also have "\<dots> = (k - 1) div 16 + 1" using \<open>0 < k\<close> by (cases k) auto
  finally show ?thesis by simp
qed

lemma planned_descriptors:
  assumes "planned ds segs token_ids salt a" "segs = segment_chain i JNull 0 (take m ds)" "ap_count a \<le> m"
    and "publish_immutable_batch (segment_objects i segs) s = (Inr (), t)" "segments_in i u segs"
    and "\<forall>d\<in>set ds. stored_descriptor d"
  shows "\<exists>es seen. read_chain i u (segment_count (int (ap_count a))) (segment_count (int (ap_count a))) (ap_tail a) [] = Inr (es, seen)
    \<and> take (ap_count a) es = map read_dict (take (ap_count a) ds)"
proof -
  let ?k = "(ap_count a - 1) div SEGMENT_LENGTH + 1"
  note p = assms(1) [unfolded planned_def]
  have k: "segment_count (int (ap_count a)) = ?k" using segment_count_nat p by simp
  have "(ap_count a + 15) div 16 = (ap_count a - 1) div 16 + 1" using p by (cases "ap_count a") auto
  then have le: "?k \<le> length segs" using p by (simp add: add.commute)
  have st: "\<forall>d\<in>set (take m ds). stored_descriptor d" using assms(6) by (meson in_set_takeD)
  obtain seen where "read_chain i u ?k ?k (fst (segs ! (?k - 1))) []
      = Inr (map read_dict (take (?k * SEGMENT_LENGTH) (take m ds)), seen)"
    using published_chain [OF assms(4,2) st _ le assms(5)] by auto
  moreover have "fst (segs ! (?k - 1)) = ap_tail a" using p by simp
  moreover have "ap_count a \<le> ?k * SEGMENT_LENGTH" by simp
  then have "take (ap_count a) (map read_dict (take (?k * SEGMENT_LENGTH) (take m ds))) = map read_dict (take (ap_count a) ds)"
    using assms(3) by (simp add: take_map min_absorb1)
  ultimately show ?thesis unfolding k by metis
qed

lemma alias_hit:
  assumes "planned ds segs token_ids salt a" "segs = segment_chain i JNull 0 (take m ds)" "ap_count a \<le> m"
    and "publish_immutable_batch (segment_objects i segs) s = (Inr (), t)" "segments_in i u segs"
    and "files u (prefix_alias_path i (ap_context a)) = Content (snd (alias_object i source a))"
    and "backed i u 0 ds cs n" "valid_identity i" "is_sha256 source"
  shows "\<exists>h. lookup_prefix_alias i (ap_context a) v me u = Inr h \<and> is_hit h \<and> lr_root_kind h = ''prefix_alias''
    \<and> restore h u = Inr (Some (take (ap_count a) cs))"
proof -
  let ?k = "ap_count a" and ?raw = "snd (alias_object i source a)"
  let ?es = "map read_dict (take ?k ds)"
  let ?m = "synthetic_manifest i (ap_context a) (JInt (ap_boundary a)) (JList (map JObj ?es))"
  note p = assms(1) [unfolded planned_def]
  have st: "\<forall>d\<in>set ds. stored_descriptor d" using assms(7) by (simp add: backed_def)
  obtain all seen where chain: "read_chain i u (segment_count (int ?k)) (segment_count (int ?k)) (ap_tail a) [] = Inr (all, seen)"
    "take ?k all = ?es"
    using planned_descriptors [OF assms(1-5) st] by blast
  have b: "backed i u 0 (take ?k ds) (take ?k cs) (ap_boundary a)"
    using backed_take [OF assms(7)] p by simp
  note br = backed_read [OF b]
  have ne: "?es \<noteq> []" using p by (auto simp: take_eq_Nil)
  have pos: "0 < ap_boundary a" using tiled_dicts_le [OF br(1)] ne by simp
  have tail: "is_sha256 (ap_tail a)"
  proof -
    have "(?k - 1) div SEGMENT_LENGTH < length segs" using p by (cases ?k) auto
    then show ?thesis using p segment_chain_nth [of "(?k - 1) div SEGMENT_LENGTH" i JNull 0 "take m ds"] assms(2)
      by (simp add: Let_def sha256_digest)
  qed
  have len: "int (length (take ?k all)) = int ?k" using p unfolding chain(2) by simp
  note val = validate_synthetic [OF assms(8) br(1) ne, of "ap_context a"]
  have "lookup_prefix_alias i (ap_context a) v me u = Inr (hit ?raw ?m ''prefix_alias'')"
    using assms(6) read_alias [of i source a] validate_written_alias [OF tail assms(9) pos, of i] p chain val br(2) [of v me] len
    by (simp add: lookup_prefix_alias_def read_bytes_def clean_miss_def Let_def del: map_map length_take)
  then show ?thesis using synthetic_hit_restores [OF assms(8) b, of "''prefix_alias''" ?raw "ap_context a"]
    by (auto simp: hit_def del: exI simp del: map_map)
qed

lemma publish_aliases_cases:
  assumes "publish_prefix_aliases i source token_ids salt requested mode s = (Inr rc, u)"
  obtains sd segs plans t where "plan_aliases i source token_ids salt requested s = Inr (sd, segs, plans)"
    "publish_immutable_batch (segment_objects i segs) s = (Inr (), t)"
    "run_all publish_file (map (alias_object i sd) plans) t = (Inr (), u)"
    "ar_keys rc = map (\<lambda>a. \<lparr>ek_storage = storage_key i, ek_context = ap_context a, ek_root_kind = ''prefix_alias''\<rparr>) plans"
  using assms by (auto simp: publish_prefix_aliases_def split: if_splits sum.splits prod.splits)

lemma plan_aliases_source:
  "plan_aliases i source token_ids salt requested s = Inr p \<Longrightarrow> \<exists>x. source_descriptors i source s = Inr x"
  by (auto simp: plan_aliases_def bindE_Inr)

text \<open>The two writes of an alias publication leave chunks and manifests alone.\<close>

lemma publish_aliases_writes:
  assumes "publish_immutable_batch (segment_objects i segs) s = (Inr (), t)"
    "run_all publish_file (map (alias_object i sd) plans) t = (Inr (), u)"
  shows "only_writes (\<lambda>p b. (\<exists>d. p = prefix_segment_path i d) \<or> (\<exists>c. p = prefix_alias_path i c)) s u"
    "segments_in i u segs"
    "\<forall>a\<in>set plans. files u (prefix_alias_path i (ap_context a)) = Content (snd (alias_object i sd a))"
proof -
  have one: "only_writes (\<lambda>p b. (\<exists>d. p = prefix_segment_path i d) \<or> (\<exists>c. p = prefix_alias_path i c)) s t"
    using batch.writes [of "segment_objects i segs" s] unfolding assms(1) snd_conv
    by (rule only_writes_mono) (auto simp: segment_objects_def)
  have "only_writes (\<lambda>p b. (\<exists>d. p = prefix_segment_path i d) \<or> (\<exists>c. p = prefix_alias_path i c)) t u"
    using single.run_writes [of "map (alias_object i sd) plans" t] unfolding assms(2) snd_conv
    by (rule only_writes_mono) (auto simp: alias_object_def)
  with one show "only_writes (\<lambda>p b. (\<exists>d. p = prefix_segment_path i d) \<or> (\<exists>c. p = prefix_alias_path i c)) s u"
    by (rule only_writes_trans)
  show "segments_in i u segs"
    using published_segments(1) [OF assms(1)] single.run_kept [of t _ _ "map (alias_object i sd) plans"] assms(2)
    by (auto simp: segments_in_def)
  show "\<forall>a\<in>set plans. files u (prefix_alias_path i (ap_context a)) = Content (snd (alias_object i sd a))"
    using single.run_published [OF assms(2)] by (auto simp: alias_object_def)
qed


lemma alias_kind: "lookup_prefix_alias i c v me s = Inr h \<Longrightarrow> is_hit h \<Longrightarrow> lr_root_kind h = ''prefix_alias''"
proof -
  assume h: "lookup_prefix_alias i c v me s = Inr h" "is_hit h"
  from clean_miss_hit [OF h(1) [unfolded lookup_prefix_alias_def] h(2)] show ?thesis
    by (auto simp: success_iff Let_def hit_def split: prod.splits if_splits)
qed

lemma manifest_hit_root:
  assumes "lookup i c v me mode s = Inr h" "is_hit h" "lr_root_kind h = ''manifest''"
  obtains raw root m ds where "read_bytes (manifest_path i c) s = Inr raw" "read_json raw = Inr root"
    "root_descriptors s root i c = Inr (m, ''manifest'', ds)" "lr_manifest h = Some m"
proof (cases "read_bytes (manifest_path i c) s")
  case (Inl e)
  then have "lookup_prefix_alias i c v me s = Inr h"
    using assms(1,2) by (cases e) (auto simp: lookup_def split: if_splits)
  then show ?thesis using alias_kind assms(2,3) by force
next
  case (Inr raw)
  have "clean_miss (\<lambda>_. False) (bindE (read_json raw) (\<lambda>root.
      bindE (root_descriptors s root i c) (\<lambda>(m, kind, chunks).
      bindE (check_chunk_files v me i s chunks) (\<lambda>_. Inr (hit raw m kind))))) = Inr h"
    using assms(1,2) Inr by (auto simp: lookup_def split: if_splits)
  from clean_miss_hit [OF this assms(2)]
  obtain root m kind ds where h: "read_json raw = Inr root" "root_descriptors s root i c = Inr (m, kind, ds)"
    "h = hit raw m kind"
    by (auto simp: bindE_Inr split: prod.splits)
  then show ?thesis using that [OF Inr h(1)] assms(3) by (auto simp: hit_def)
qed

lemma source_of_hit:
  assumes "lookup i c True meta mode s = Inr h" "is_hit h" "lr_root_kind h = ''manifest''" "valid_identity i"
    and "source_descriptors i c s = Inr (raw, n, ds)"
  shows "\<exists>cs n. backed i s 0 ds cs n \<and> restore h s = Inr (Some cs)"
proof -
  obtain raw0 root m ds0 where r: "read_bytes (manifest_path i c) s = Inr raw0" "read_json raw0 = Inr root"
    "root_descriptors s root i c = Inr (m, ''manifest'', ds0)" "lr_manifest h = Some m"
    by (rule manifest_hit_root [OF assms(1-3)])
  have kind: "lr_root_kind h \<in> {''manifest'', ''prefix_alias''}" using assms(3) by simp
  obtain enc1 d es cs n' where b: "h = hit enc1 (JObj d) (lr_root_kind h)"
    "validate_manifest_metadata (JObj d) (EntryKey (storage_key i) c) (Some i) = Inr es"
    "backed i s 0 es cs n'" "restore h s = Inr (Some cs)"
    by (rule row_hit_backed [OF assms(1,2) kind assms(4)])
  have m: "m = JObj d" using r(4) arg_cong [OF b(1), of lr_manifest] by (simp add: hit_def)
  obtain m' where m': "(if has_schema root TAIL_MANIFEST_SCHEMA
               then bindE (resolve_tail_manifest s root i c) (\<lambda>(m, _). Inr m) else Inr root) = Inr m'"
    "validate_manifest_metadata m' (EntryKey (storage_key i) c) (Some i) = Inr ds"
  proof -
    have q: "not_publishable x = Inr y \<Longrightarrow> x = Inr y" for x :: "exn + json \<times> jdict list" and y
      by (auto simp: not_publishable_def split: sum.splits exn.splits if_splits)
    show ?thesis using assms(5) r(1,2) that
      by (auto simp: source_descriptors_def bindE_Inr dest!: q split: option.splits)
  qed
  have "m' = m" using r(3) m'(1) by (auto simp: root_descriptors_def bindE_Inr split: prod.splits if_splits)
  then have "ds = es" using b(2) m m'(2) by simp
  then show ?thesis using b(3,4) by blast
qed

text \<open>C4: A published alias names its prefix truly: its key is the digest of the first tokens of the
  supplied sequence, computed on their own by the codec; a lookup that finds no exact manifest under that
  key hits the alias (an exact manifest shadows it, whatever the storage mode asked for), and restoring
  it returns the first chunks of the source entry, up to exactly that many tokens.\<close>

theorem published_alias_restores:
  assumes "valid_identity i" "lookup i source True meta mode s = Inr h" "is_hit h" "lr_root_kind h = ''manifest''"
    and "restore h s = Inr (Some cs)"
    and "publish_prefix_aliases i source token_ids salt requested storage_mode s = (Inr rc, u)"
    and "key \<in> set (ar_keys rc)"
  shows "\<exists>hit k. lookup_prefix_alias i (ek_context key) v me u = Inr hit
    \<and> lookup i (ek_context key) v me (Some ''per_token_rows'') u =
        (if files s (manifest_path i (ek_context key)) = Absent then Inr hit
         else lookup i (ek_context key) v me None u)
    \<and> is_hit hit \<and> lr_root_kind hit = ''prefix_alias'' \<and> restore hit u = Inr (Some (take k cs)) \<and> 0 < k \<and> k \<le> length cs
    \<and> context_prefix_digest token_ids salt (Some (logical_end (cs ! (k - 1)))) [] = Inr (ek_context key)"
proof -
  obtain sd segs plans t where p: "plan_aliases i source token_ids salt requested s = Inr (sd, segs, plans)"
    "publish_immutable_batch (segment_objects i segs) s = (Inr (), t)"
    "run_all publish_file (map (alias_object i sd) plans) t = (Inr (), u)"
    "ar_keys rc = map (\<lambda>a. \<lparr>ek_storage = storage_key i, ek_context = ap_context a, ek_root_kind = ''prefix_alias''\<rparr>) plans"
    by (rule publish_aliases_cases [OF assms(6)])
  obtain raw n ds where src: "source_descriptors i source s = Inr (raw, n, ds)"
    using plan_aliases_source [OF p(1)] by auto
  obtain xs b where b: "backed i s 0 ds xs b" "restore h s = Inr (Some xs)"
    using source_of_hit [OF assms(2-4,1) src] by auto
  then have xs: "xs = cs" using assms(5) by simp
  obtain m where m: "segs = segment_chain i JNull 0 (take m ds)" "\<forall>a\<in>set plans. ap_count a \<le> m"
    using plan_aliases_facts(2) [OF p(1) src] by auto
  obtain a where a: "a \<in> set plans" "ek_context key = ap_context a" using assms(7) p(4) by auto
  have pl: "planned ds segs token_ids salt a" using plan_aliases_facts(3) [OF p(1) src] a(1) by blast
  note w = publish_aliases_writes [OF p(2,3)]
  have "files u (chunk_path d) = files s (chunk_path d)" for d
    using w(1) by (rule only_writes_keep) (auto simp: chunk_path_def prefix_segment_path_def prefix_alias_path_def)
  then have bu: "backed i u 0 ds cs b" using backed_same [OF b(1), of u] xs by (simp add: same_chunks_def)
  have roots: "files u (manifest_path i (ap_context a)) = files s (manifest_path i (ap_context a))"
    using w(1) by (rule only_writes_keep) (auto simp: manifest_path_def prefix_segment_path_def prefix_alias_path_def)
  have sd: "is_sha256 sd" using plan_aliases_facts(1) [OF p(1) src] sha256_digest by simp
  have ctx: "context_prefix_digest token_ids salt (Some (ap_boundary a)) [] = Inr (ap_context a)"
    using pl unfolding planned_def by blast
  then have "is_sha256 (ap_context a)" by (auto simp: context_prefix_digest_Some sha256_digest)
  then have look: "files s (manifest_path i (ap_context a)) = Absent \<Longrightarrow>
      lookup i (ap_context a) v me (Some ''per_token_rows'') u = lookup_prefix_alias i (ap_context a) v me u"
    using roots by (simp add: lookup_def read_bytes_def)
  have shadow: "files s (manifest_path i (ap_context a)) \<noteq> Absent \<Longrightarrow>
      lookup i (ap_context a) v me (Some ''per_token_rows'') u = lookup i (ap_context a) v me None u"
    using roots by (simp add: lookup_def read_bytes_def split: stored.split)
  obtain hit where hit: "lookup_prefix_alias i (ap_context a) v me u = Inr hit" "is_hit hit"
    "lr_root_kind hit = ''prefix_alias''" "restore hit u = Inr (Some (take (ap_count a) cs))"
    using alias_hit [OF pl m(1) _ p(2) w(2) _ bu assms(1) sd] m(2) a(1) w(3) by blast
  note len = backed_chunks [OF bu]
  have k: "0 < ap_count a" "ap_count a \<le> length cs" "ap_boundary a = logical_end (cs ! (ap_count a - 1))"
    using pl len by (auto simp: planned_def)
  show ?thesis unfolding a(2) using hit k ctx look shadow by (cases "files s (manifest_path i (ap_context a)) = Absent") auto
qed


section \<open>Extensions\<close>

lemma filter_ends:
  "sorted_wrt (<) (map f ds) \<Longrightarrow> filter (\<lambda>d. f d \<le> (x :: int)) ds = take (length (filter (\<lambda>d. f d \<le> x) ds)) ds"
proof (induction ds)
  case (Cons d ds)
  show ?case
  proof (cases "f d \<le> x")
    case False
    have "filter (\<lambda>d. f d \<le> x) ds = []" using Cons.prems False by (auto simp: filter_empty_conv)
    then show ?thesis using False by simp
  qed (use Cons in simp)
qed simp

lemma tiled_ends:
  "tiled_dicts f a (map JObj ds) b \<Longrightarrow> sorted_wrt (<) (map descriptor_end ds) \<and> (\<forall>d\<in>set ds. a < descriptor_end d)"
proof (induction ds arbitrary: a)
  case (Cons d ds)
  then obtain e where e: "jget d ''logical_end'' = JInt e" "a < e" "tiled_dicts f e (map JObj ds) b" by auto
  then show ?case using Cons.IH [OF e(3)] by (auto simp: descriptor_end_def)
qed simp

lemma tiled_nth_end:
  "tiled_dicts f a (map JObj ds) b \<Longrightarrow> k < length ds \<Longrightarrow>
    descriptor_end (ds ! k) = (if Suc k < length ds then a + int (Suc k) * f else b)"
proof (induction ds arbitrary: a k)
  case (Cons d ds)
  then obtain e where e: "jget d ''logical_end'' = JInt e" "ds \<noteq> [] \<longrightarrow> e - a = f" "tiled_dicts f e (map JObj ds) b" by auto
  show ?case
  proof (cases k)
    case 0
    then show ?thesis using e by (cases ds) (auto simp: descriptor_end_def)
  next
    case (Suc j)
    then show ?thesis using Cons.IH [OF e(3), of j] Cons.prems(2) e(2) by (auto simp: algebra_simps)
  qed
qed simp

lemma tiled_full_append:
  "tiled_dicts f a (map JObj ds) (a + int (length ds) * f) \<Longrightarrow> tiled_dicts f (a + int (length ds) * f) vs c \<Longrightarrow>
    tiled_dicts f a (map JObj ds @ vs) c"
proof (induction ds arbitrary: a)
  case (Cons d ds)
  obtain n e where d: "set (dkeys d) = set CHUNK_KEYS" "is_digest (jget d ''sha256'')" "jget d ''bytes'' = JInt n"
    "0 < n" "jget d ''logical_start'' = JInt a" "jget d ''logical_end'' = JInt e" "a < e" "e - a \<le> f" "ds \<noteq> [] \<longrightarrow> e - a = f"
    "tiled_dicts f e (map JObj ds) (a + int (length (d # ds)) * f)"
    using Cons.prems(1) by auto
  have e: "e = a + f" using d(9,10) by (cases ds) (auto simp: algebra_simps)
  then have "a + int (length (d # ds)) * f = e + int (length ds) * f" by (simp add: algebra_simps)
  then have "tiled_dicts f e (map JObj ds @ vs) c" using Cons.IH [of e] d(10) Cons.prems(2) by simp
  then show ?case using d e by (auto simp del: set_map)
qed simp

lemma stored_chunk_descriptor [simp]: "stored_descriptor (chunk_descriptor b c)"
  by (auto simp: stored_descriptor_def described_def chunk_descriptor_def CHUNK_KEYS_def sha256_digest)

lemma read_chunk_descriptor: "read_dict (chunk_descriptor b c) = read_descriptor b c"
  using sorted_descriptor [of b c] by (simp only: sorted_JObj json.inject)

text \<open>What the loop over the tail accepts.\<close>

lemma encode_tail_Inr:
  "encode_tail i a cs = Inr ys \<Longrightarrow> \<forall>c\<in>set cs. valid_chunk c \<Longrightarrow> cs \<noteq> [] \<Longrightarrow>
    mapE encode_chunk cs = Inr (map snd ys) \<and> map fst ys = descriptors_of (map snd ys) cs
    \<and> tiled (chunk_tokens i) a cs (logical_end (last cs)) \<and> (\<forall>c\<in>set cs. complete_chunk i c)"
proof (induction cs arbitrary: a ys)
  case (Cons c cs)
  obtain b rest where r: "logical_start c = a" "logical_end c - logical_start c \<le> chunk_tokens i"
    "cs \<noteq> [] \<longrightarrow> logical_end c - logical_start c = chunk_tokens i"
    "require_complete_chunk c (required_records i) = Inr ()" "encode_chunk c = Inr b"
    "encode_tail i (logical_end c) cs = Inr rest" "ys = (chunk_descriptor b c, b) # rest"
    using Cons.prems(1) by (auto simp: bindE_Inr split: if_splits)
  have v: "valid_chunk c" "a < logical_end c" using Cons.prems(2) valid_chunk_facts [of c] r(1) by auto
  have c: "complete_chunk i c" using r(4) v(1) by (simp add: complete_chunk_def require_complete_chunk_def)
  show ?case
  proof (cases "cs = []")
    case True
    then show ?thesis using r v c by (simp add: descriptors_of_def)
  next
    case False
    have "\<forall>x\<in>set cs. valid_chunk x" using Cons.prems(2) by simp
    from Cons.IH [OF r(6) this False] show ?thesis using r v c False by (auto simp: descriptors_of_def)
  qed
qed simp

lemma tail_backed:
  assumes "tiled (chunk_tokens i) a cs n" "\<forall>c\<in>set cs. complete_chunk i c" "mapE encode_chunk cs = Inr bs" "has_chunks s bs"
  shows "backed i s a (descriptors_of bs cs) cs n"
proof -
  have tiled: "tiled_dicts f a (map JObj (descriptors_of bs cs)) n"
    if "tiled f a cs n" "mapE encode_chunk cs = Inr bs" for f a bs
    using that
  proof (induction cs arbitrary: a bs)
    case (Cons c cs)
    then obtain b bs' where b: "encode_chunk c = Inr b" "mapE encode_chunk cs = Inr bs'" "bs = b # bs'"
      by (auto simp: bindE_Inr)
    have "b \<noteq> []" using b(1) by (auto simp: encode_chunk_def CHUNK_MAGIC_def Let_def split: if_splits)
    moreover have "descriptors_of bs' cs \<noteq> [] \<longrightarrow> cs \<noteq> []" by (auto simp: descriptors_of_def)
    ultimately show ?case using Cons.prems(1) Cons.IH [OF _ b(2)] sha256_digest
      by (auto simp: b(3) descriptors_of_def chunk_descriptor_def CHUNK_KEYS_def)
  qed (simp add: descriptors_of_def)
  have st: "\<forall>d\<in>set (descriptors_of bs cs). stored_descriptor d" by (auto simp: descriptors_of_def)
  have read: "map read_dict (descriptors_of bs cs) = map2 read_descriptor bs cs"
    by (simp add: descriptors_of_def read_chunk_descriptor case_prod_beta')
  note w = written_chunks [OF assms(2-4), unfolded read [symmetric]]
  have "check_chunk_files v m i s (descriptors_of bs cs) = Inr ()" for v m
    using w(1) [of v m] st by (simp add: check_chunk_files_iff)
  moreover have "mapE f (map JObj (map read_dict es)) = mapE f (map JObj es)"
    if "f = restore_one (required_records i) s" "\<forall>d\<in>set es. stored_descriptor d" for f es
    using that by (induction es) simp_all
  then have "mapE (restore_one (required_records i) s) (map JObj (descriptors_of bs cs)) = Inr cs"
    using w(2) st by simp
  ultimately show ?thesis using tiled assms(1,3) st by (auto simp: backed_def)
qed


text \<open>What the plan of an extension says.\<close>

lemma plan_extension_facts:
  assumes "plan_extension i base token_ids salt tail s = Inr p"
    "lookup i base True False (Some ''per_token_rows'') s = Inr h" "h = hit raw (JObj d) kind"
    "committed_of (JObj d) = Some n" "jget d ''chunks'' = JList (map JObj ds)"
  shows "xp_tokens p = logical_end (last tail)" "xp_base_digest p = sha256 raw" "xp_base_committed p = n"
    "xp_reused p = n div chunk_tokens i * chunk_tokens i"
    "xp_base p = filter (\<lambda>d. descriptor_end d \<le> xp_reused p) ds"
    "int (length (xp_base p)) = n div chunk_tokens i * chunk_tokens i div chunk_tokens i"
    "encode_tail i (xp_reused p) tail = Inr (xp_tail p)" "n < xp_tokens p" "xp_context p \<noteq> base"
    "context_prefix_digest token_ids salt (Some n) [] = Inr base"
    "context_prefix_digest token_ids salt (Some (xp_tokens p)) [] = Inr (xp_context p)"
  using assms(1)
  by (auto simp: plan_extension_def assms(2-5) hit_def Let_def bindE_Inr split: if_splits)

lemma commit_extension_cases:
  assumes "commit_extension i base token_ids salt tail s = (Inr rc, w)"
  obtains p segment count bytes t u where "publication_schema i = ''tail-cow-v1''" "tail \<noteq> []"
    "plan_extension i base token_ids salt tail s = Inr p"
    "publish_descriptor_chain i (xp_base p) s = (Inr (segment, count, bytes), t)"
    "publish_immutable_batch (chunk_objects (map snd (xp_tail p))) t = (Inr (), u)"
    "publish_immutable (manifest_path i (xp_context p)) (canonical_json (JObj (with_metadata (extension_fields i (xp_context p)
      (xp_tokens p) base (xp_base_digest p) (xp_base_committed p) (xp_reused p) (length (xp_base p)) segment
      (map fst (xp_tail p)))))) u = (Inr (), w)"
    "rc_committed_tokens rc = xp_tokens p"
    "rc_manifest_digest rc = sha256 (canonical_json (JObj (with_metadata (extension_fields i (xp_context p)
      (xp_tokens p) base (xp_base_digest p) (xp_base_committed p) (xp_reused p) (length (xp_base p)) segment
      (map fst (xp_tail p))))))"
  using assms by (auto simp: commit_extension_def Let_def split: if_splits sum.splits prod.splits)

text \<open>The root of an extension read back.\<close>

lemma read_extension:
  assumes ext_def: "ext = extension_fields i c n base bd bc reused count segment ds"
    and "\<forall>d\<in>set ds. stored_descriptor d"
  shows "read_json (canonical_json (JObj (with_metadata ext))) = Inr (JObj (read_dict (with_metadata ext)))"
    "metadata_authentic (read_dict (with_metadata ext))"
    "set (dkeys (read_dict (with_metadata ext))) = set TAIL_KEYS"
    "k \<noteq> ''metadata_sha256'' \<Longrightarrow> jget (read_dict (with_metadata ext)) k = sorted_json (jget ext k)"
proof -
  have new: "''metadata_sha256'' \<notin> set (dkeys ext)" by (simp add: ext_def extension_fields_def)
  have "writable_list (map JObj ds)" using stored_writable assms(2) by (simp add: writable_list_iff)
  then have "writable (JObj ext)" by (auto simp: ext_def extension_fields_def split: option.split)
  then show "read_json (canonical_json (JObj (with_metadata ext))) = Inr (JObj (read_dict (with_metadata ext)))"
    using json_loads_canonical [OF writable_with_metadata [OF _ new]]
    by (simp add: read_json_def sorted_JObj del: sorted_json.simps writable.simps)
  show "metadata_authentic (read_dict (with_metadata ext))" by (rule authentic_read [OF new])
  show "set (dkeys (read_dict (with_metadata ext))) = set TAIL_KEYS"
    unfolding keys_read_dict keys_with_metadata by (auto simp: ext_def extension_fields_def TAIL_KEYS_def)
  show "k \<noteq> ''metadata_sha256'' \<Longrightarrow> jget (read_dict (with_metadata ext)) k = sorted_json (jget ext k)"
    by (simp add: jget_read_dict jget_with_metadata)
qed

lemma validate_extension:
  assumes ext_def: "ext = extension_fields i c n base bd bc reused count segment ds"
    and st: "\<forall>d\<in>set ds. stored_descriptor d" and "ds \<noteq> []"
    and "publication_schema i = ''tail-cow-v1''" "is_sha256 base" "is_sha256 bd"
    and "bc < n" "0 < bc" "0 \<le> reused" "reused \<le> bc" "reused mod chunk_tokens i = 0" "int count = reused div chunk_tokens i"
    and "segment = None \<longleftrightarrow> count = 0" "\<forall>t. segment = Some t \<longrightarrow> is_sha256 t"
  shows "validate_tail_manifest_root (JObj (read_dict (with_metadata ext))) i c
    = Inr \<lparr>tr_committed = n, tr_reused = reused, tr_chunk_count = int count, tr_segment = segment,
        tr_chunks = map JObj (map read_dict ds)\<rparr>"
proof -
  let ?d = "read_dict (with_metadata ext)"
  note r = read_extension [OF ext_def st]
  have f: "jget ?d ''schema'' = JStr TAIL_MANIFEST_SCHEMA" "jget ?d ''format_abi'' = JInt FORMAT_ABI"
    "jget ?d ''identity'' = JObj (read_items i)" "jget ?d ''context_digest'' = JStr c"
    "jget ?d ''committed_tokens'' = JInt n" "jget ?d ''base_context_digest'' = JStr base"
    "jget ?d ''base_manifest_sha256'' = JStr bd" "jget ?d ''base_committed_tokens'' = JInt bc"
    "jget ?d ''reused_tokens'' = JInt reused" "jget ?d ''base_chunk_count'' = JInt (int count)"
    "jget ?d ''base_tail_segment_sha256'' = (case segment of None \<Rightarrow> JNull | Some d \<Rightarrow> JStr d)"
    "jget ?d ''tail_chunks'' = JList (map JObj (map read_dict ds))"
    by (subst r(4), simp, simp add: ext_def extension_fields_def sorted_to_wire sorted_dicts del: map_map
        split: option.split)+
  have strict: "strict_keys ?d TAIL_KEYS = Inr ()" unfolding strict_keys_def r(3) by simp
  have meta: "format_digest (jget ?d ''metadata_sha256'') = Inr ()"
    using r(2) sha256_digest by (simp add: metadata_authentic_def)
  have digests: "format_digest (JStr base) = Inr ()" "format_digest (JStr bd) = Inr ()" using assms(5,6) by simp_all
  have seg: "\<And>t. segment = Some t \<Longrightarrow> format_digest (JStr t) = Inr ()" using assms(14) by simp
  show ?thesis
    unfolding validate_tail_manifest_root_def the_obj.simps option.case strict bindE_simps f digests meta
    using r(2) wire_ok_read(1) [of i] assms(3-4,7-13) check_read_dicts [OF st] seg
    by (cases segment) (simp_all del: map_map validators_Inr)
qed


text \<open>No tail chunk shares the digest of a different chunk that is already stored.\<close>

definition no_clash :: "context_chunk list \<Rightarrow> store \<Rightarrow> bool" where
  "no_clash cs s \<longleftrightarrow> (\<forall>c\<in>set cs. \<forall>b x. encode_chunk c = Inr b \<longrightarrow>
     files s (Chunk_file (sha256 b)) = Content x \<longrightarrow> sha256 x = sha256 b \<longrightarrow> x = b)"

text \<open>The full chunks of a base, which an extension reuses.\<close>

lemma reused_prefix:
  assumes "tiled_dicts f 0 (map JObj ds) n" "0 < f" "0 < n"
    and "int (length (filter (\<lambda>d. descriptor_end d \<le> n div f * f) ds)) = n div f * f div f"
  defines "r \<equiv> length (filter (\<lambda>d. descriptor_end d \<le> n div f * f) ds)"
  shows "filter (\<lambda>d. descriptor_end d \<le> n div f * f) ds = take r ds" "int r = n div f" "r \<le> length ds"
    "tiled_dicts f 0 (map JObj (take r ds)) (int r * f)"
proof -
  let ?x = "n div f * f"
  have sorted: "sorted_wrt (<) (map descriptor_end ds)" using tiled_ends [OF assms(1)] by blast
  show t: "filter (\<lambda>d. descriptor_end d \<le> ?x) ds = take r ds" unfolding r_def by (rule filter_ends [OF sorted])
  show r: "int r = n div f" using assms(2,4) by (simp add: r_def)
  show le: "r \<le> length ds" by (simp add: r_def)
  show "tiled_dicts f 0 (map JObj (take r ds)) (int r * f)"
  proof (cases "r = 0")
    case False
    have last: "descriptor_end (ds ! (r - 1)) \<le> ?x"
    proof -
      have "take r ds ! (r - 1) \<in> set (take r ds)" using False le by (intro nth_mem) simp
      then have "ds ! (r - 1) \<in> set (filter (\<lambda>d. descriptor_end d \<le> ?x) ds)"
        unfolding t using False by (simp only: nth_take diff_less zero_less_one neq0_conv)
      then show ?thesis by simp
    qed
    have "descriptor_end (ds ! (r - 1)) = int r * f"
    proof (cases "r < length ds")
      case True
      then show ?thesis using tiled_nth_end [OF assms(1), of "r - 1"] False by simp
    next
      case False
      then have "descriptor_end (ds ! (r - 1)) = n" using tiled_nth_end [OF assms(1), of "r - 1"] le \<open>r \<noteq> 0\<close> by simp
      moreover have "?x \<le> n" using pos_mod_sign [OF assms(2), of n] minus_mod_eq_div_mult [of n f] by linarith
      ultimately show ?thesis using last r by simp
    qed
    then show ?thesis using tiled_take [OF assms(1), of r] False le by simp
  qed simp
qed

lemma publish_chain_reads:
  assumes "publish_descriptor_chain i ds s = (Inr (segment, count, bytes), t)" "\<forall>d\<in>set ds. stored_descriptor d"
    and kept: "\<And>d b. files t (prefix_segment_path i d) = Content b \<Longrightarrow> files w (prefix_segment_path i d) = Content b"
  shows "\<exists>seen. read_descriptor_chain i w segment (int (length ds)) = Inr (map read_dict ds, seen)"
    "segment = None \<longleftrightarrow> ds = []" "\<forall>d. segment = Some d \<longrightarrow> is_sha256 d"
    "only_writes (\<lambda>p b. \<exists>d. p = prefix_segment_path i d) s t"
proof -
  have "(\<exists>seen. read_descriptor_chain i w segment (int (length ds)) = Inr (map read_dict ds, seen))
    \<and> (segment = None \<longleftrightarrow> ds = []) \<and> (\<forall>d. segment = Some d \<longrightarrow> is_sha256 d)
    \<and> only_writes (\<lambda>p b. \<exists>d. p = prefix_segment_path i d) s t"
  proof (cases "ds = []")
    case True
    then show ?thesis using assms(1) by (simp add: publish_descriptor_chain_def read_descriptor_chain_def)
  next
    case False
    define segs where "segs = segment_chain i JNull 0 ds"
    have p: "publish_immutable_batch (segment_objects i segs) s = (Inr (), t)" "segment = Some (fst (last segs))"
      using assms(1) False by (auto simp: publish_descriptor_chain_def segs_def Let_def split: sum.splits prod.splits)
    have len: "length segs = (length ds - 1) div SEGMENT_LENGTH + 1"
      using False by (cases ds) (auto simp: segs_def segment_chain_length)
    then have ne: "segs \<noteq> []" by auto
    have here: "segments_in i w segs" using published_segments(1) [OF p(1)] kept by (auto simp: segments_in_def)
    obtain seen where "read_chain i w (length segs) (length segs) (fst (segs ! (length segs - 1))) []
        = Inr (map read_dict (take (length segs * SEGMENT_LENGTH) ds), seen)"
      using published_chain [OF p(1) segs_def assms(2) _ _ here, of "length segs"] ne by auto
    moreover have "length ds \<le> length segs * SEGMENT_LENGTH" using len by simp
    moreover have "segment_count (int (length ds)) = length segs"
      using segment_count_nat [of "length ds"] False len by simp
    ultimately have "\<exists>seen. read_descriptor_chain i w segment (int (length ds)) = Inr (map read_dict ds, seen)"
      using False ne p(2) by (simp add: read_descriptor_chain_def last_conv_nth)
    moreover have "is_sha256 (fst (last segs))"
      using ne segment_chain_nth [of "length segs - 1" i JNull 0 ds]
      by (simp add: last_conv_nth segs_def [symmetric] Let_def sha256_digest)
    moreover have "only_writes (\<lambda>p b. \<exists>d. p = prefix_segment_path i d) s t"
      using batch.writes [of "segment_objects i segs" s] unfolding p(1) snd_conv
      by (rule only_writes_mono) (auto simp: segment_objects_def)
    ultimately show ?thesis using False p(2) by simp
  qed
  then show "\<exists>seen. read_descriptor_chain i w segment (int (length ds)) = Inr (map read_dict ds, seen)"
    "segment = None \<longleftrightarrow> ds = []" "\<forall>d. segment = Some d \<longrightarrow> is_sha256 d"
    "only_writes (\<lambda>p b. \<exists>d. p = prefix_segment_path i d) s t" by blast+
qed

lemma tiled_last: "tiled f a cs n \<Longrightarrow> cs \<noteq> [] \<Longrightarrow> logical_end (last cs) = n"
  by (induction cs arbitrary: a) auto

text \<open>Looking up and restoring a tail root whose chain and chunks are on disk.\<close>

lemma tail_root_hit:
  assumes "read_json raw = Inr (JObj d)" "jget d ''schema'' = JStr TAIL_MANIFEST_SCHEMA"
    "validate_tail_manifest_root (JObj d) i c = Inr \<lparr>tr_committed = n, tr_reused = reused, tr_chunk_count = int (length ds),
        tr_segment = segment, tr_chunks = map JObj (map read_dict es)\<rparr>"
    "read_descriptor_chain i w segment (int (length ds)) = Inr (map read_dict ds, seen)"
    "files w (manifest_path i c) = Content raw" "backed i w 0 (ds @ es) cs n" "ds @ es \<noteq> []" "valid_identity i" "is_sha256 c"
  shows "\<exists>h. lookup i c v me mode w = Inr h \<and> is_hit h \<and> lr_root_kind h = ''manifest'' \<and> lr_digest h = sha256 raw
    \<and> restore h w = Inr (Some cs)"
proof -
  let ?es = "map read_dict (ds @ es)"
  let ?m = "synthetic_manifest i c (JInt n) (JList (map JObj ?es))"
  note b = backed_read [OF assms(6)]
  have ne: "?es \<noteq> []" using assms(7) by simp
  have val: "validate_manifest_metadata ?m (EntryKey (storage_key i) c) (Some i) = Inr ?es"
    by (rule validate_synthetic [OF assms(8) b(1) ne])
  have res: "resolve_tail_manifest w (JObj d) i c = Inr (?m, seen)"
    using val by (simp add: resolve_tail_manifest_def assms(3,4) Let_def del: map_map)
  have kinds: "is_page_delta_root ?m = Inr False" "\<not> is_page_snapshot_root ?m"
    by (auto simp: is_page_delta_root_def is_page_snapshot_root_def synthetic_manifest_def)
  have "root_descriptors w (JObj d) i c = Inr (?m, ''manifest'', ?es)"
    using res val kinds assms(2) by (simp add: root_descriptors_def has_schema_def del: map_append map_map)
  then have "lookup i c v me mode w = Inr (hit raw ?m ''manifest'')"
    using assms(1,5,9) b(2) [of v me] by (simp add: lookup_def read_bytes_def clean_miss_def del: map_append map_map)
  then show ?thesis using synthetic_hit_restores [OF assms(8,6), of "''manifest''" raw c]
    by (auto simp: hit_def simp del: map_append map_map)
qed


text \<open>An extension is the base with a new tail: when it commits, the digest of the extended token
  sequence names an entry that every lookup hits, and restoring it returns the full chunks of the base,
  untouched, followed by the tail chunks.\<close>

lemma extension_restores:
  assumes "valid_identity i" "lookup i base True False (Some ''per_token_rows'') s = Inr h" "is_hit h"
    and "lr_root_kind h \<in> {''manifest'', ''prefix_alias''}" "restore h s = Inr (Some cs)"
    and "commit_extension i base token_ids salt tail s = (Inr rc, w)"
    and "\<forall>c\<in>set tail. valid_chunk c" "no_clash tail s"
  shows "\<exists>c h'. context_prefix_digest token_ids salt (Some (rc_committed_tokens rc)) [] = Inr c
    \<and> lookup i c v me mode w = Inr h' \<and> is_hit h' \<and> lr_digest h' = rc_manifest_digest rc
    \<and> restore h' w = Inr (Some (take (nat (logical_end (last cs) div chunk_tokens i)) cs @ tail))"
proof -
  obtain p segment count bytes t u where c: "publication_schema i = ''tail-cow-v1''" "tail \<noteq> []"
    "plan_extension i base token_ids salt tail s = Inr p"
    "publish_descriptor_chain i (xp_base p) s = (Inr (segment, count, bytes), t)"
    "publish_immutable_batch (chunk_objects (map snd (xp_tail p))) t = (Inr (), u)"
    "publish_immutable (manifest_path i (xp_context p)) (canonical_json (JObj (with_metadata (extension_fields i (xp_context p)
      (xp_tokens p) base (xp_base_digest p) (xp_base_committed p) (xp_reused p) (length (xp_base p)) segment
      (map fst (xp_tail p)))))) u = (Inr (), w)" "rc_committed_tokens rc = xp_tokens p"
    "rc_manifest_digest rc = sha256 (canonical_json (JObj (with_metadata (extension_fields i (xp_context p)
      (xp_tokens p) base (xp_base_digest p) (xp_base_committed p) (xp_reused p) (length (xp_base p)) segment
      (map fst (xp_tail p))))))"
    by (rule commit_extension_cases [OF assms(6)])
  obtain raw d ds xs n where h: "h = hit raw (JObj d) (lr_root_kind h)" "ds \<noteq> []" "committed_of (JObj d) = Some n"
    "jget d ''chunks'' = JList (map JObj ds)" "backed i s 0 ds xs n" "restore h s = Inr (Some xs)"
    by (rule row_hit_backed [OF assms(2,3,4,1)])
  have xs: "xs = cs" using h(6) assms(5) by simp
  note f = plan_extension_facts [OF c(3) assms(2) h(1,3,4)]
  let ?f = "chunk_tokens i" and ?bs = "map snd (xp_tail p)"
  have tiled: "tiled_dicts ?f 0 (map JObj ds) n" and st: "\<forall>d\<in>set ds. stored_descriptor d"
    using h(5) by (auto simp: backed_def)
  have pos: "0 < n" "0 < ?f"
    using tiled_dicts_le [OF tiled] h(2) CacheIdentity_Inr [OF assms(1) [unfolded valid_identity_def]] by simp_all
  have len: "int (length (filter (\<lambda>d. descriptor_end d \<le> n div ?f * ?f) ds)) = n div ?f * ?f div ?f"
    using f(5,6) unfolding f(4) by simp
  define r where "r = length (filter (\<lambda>d. descriptor_end d \<le> n div ?f * ?f) ds)"
  note rp = reused_prefix [OF tiled pos(2,1) len, folded r_def]
  have base: "xp_base p = take r ds" using f(5) rp(1) by (simp add: f(4))
  have reused: "xp_reused p = int r * ?f" using f(4) rp(2) by simp
  note e = encode_tail_Inr [OF f(7) assms(7) c(2)]
  let ?ds = "take r ds" and ?es = "descriptors_of ?bs tail"
  have stb: "\<forall>d\<in>set ?ds. stored_descriptor d" using st by (meson in_set_takeD)
  have tl: "map fst (xp_tail p) = ?es" using e by blast
  have ste: "\<forall>d\<in>set ?es. stored_descriptor d" by (auto simp: descriptors_of_def)

  have wu: "only_writes (\<lambda>q x. q \<in> set (map fst (chunk_objects ?bs)) \<and> (q, x) \<in> set (chunk_objects ?bs)) t u"
    using batch.writes [of "chunk_objects ?bs" t] unfolding c(5) snd_conv by (rule only_writes_mono) force
  have ww: "only_writes (\<lambda>q x. q = manifest_path i (xp_context p)) u w"
    using publish_only_writes [of _ _ u] c(6) by (metis (no_types, lifting) only_writes_mono snd_conv)
  have seg_kept: "files w (prefix_segment_path i g) = files t (prefix_segment_path i g)" for g
    using only_writes_keep [OF wu, of "prefix_segment_path i g"] only_writes_keep [OF ww, of "prefix_segment_path i g"]
    by (auto simp: chunk_objects_def prefix_segment_path_def manifest_path_def)
  have kept: "files t (prefix_segment_path i g) = Content b \<Longrightarrow> files w (prefix_segment_path i g) = Content b" for g b
    by (simp add: seg_kept)
  note chain = publish_chain_reads [OF c(4) [unfolded base] stb kept]
  have here: "has_chunks w ?bs"
  proof -
    have "files u (Chunk_file (sha256 b)) = Content b" if "b \<in> set ?bs" for b
      by (rule batch.published [OF c(5)]) (use that in \<open>auto simp: chunk_objects_def\<close>)
    moreover have "files w (Chunk_file x) = files u (Chunk_file x)" for x
      using ww by (rule only_writes_keep) (simp add: manifest_path_def)
    ultimately show ?thesis by (simp add: has_chunks_def)
  qed
  have same: "files w (chunk_path g) = files s (chunk_path g)" if g: "g \<in> set ds" for g
  proof -
    have "check_chunk_file True False i s g = Inr ()" using h(5) g by (simp add: backed_def check_chunk_files_iff)
    moreover obtain a b where "described a b g" using tiled_dicts_described [OF tiled g] by blast
    ultimately obtain x where x: "files s (chunk_path g) = Content x" "jget g ''sha256'' = JStr (sha256 x)"
      using checked_chunk by metis
    have path: "chunk_path g = Chunk_file (sha256 x)" using x(2) by (simp add: chunk_path_def descriptor_name_def)
    have "files t (chunk_path g) = files s (chunk_path g)"
    proof (rule only_writes_keep [OF chain(4)])
      show "\<nexists>d. chunk_path g = prefix_segment_path i d" for b unfolding path prefix_segment_path_def by simp
    qed
    moreover have "files u (chunk_path g) = files t (chunk_path g) \<or>
        (\<exists>b\<in>set ?bs. sha256 b = sha256 x \<and> files u (chunk_path g) = Content b)"
      using wu unfolding only_writes_def path by (force simp: chunk_objects_def)
    moreover have "b = x" if b: "b \<in> set ?bs" "sha256 b = sha256 x" for b
    proof -
      have enc: "mapE encode_chunk tail = Inr ?bs" using e by blast
      obtain y where "y \<in> set tail" "encode_chunk y = Inr b" using mapE_source [OF enc b(1)] by blast
      then show ?thesis using assms(8) x(1) b(2) unfolding no_clash_def path by metis
    qed
    moreover have "files w (chunk_path g) = files u (chunk_path g)"
      using ww by (rule only_writes_keep) (simp add: path manifest_path_def)
    ultimately show ?thesis using x(1) by auto
  qed
  have "backed i s 0 ?ds (take r cs) (int r * ?f)"
  proof (cases "r = 0")
    case False
    then show ?thesis using backed_take [OF h(5), of r] rp(3,4) by (simp add: backed_def xs)
  qed (simp add: backed_def)
  then have bb: "backed i w 0 ?ds (take r cs) (int r * ?f)"
    by (rule backed_same) (use same in \<open>auto simp: same_chunks_def dest: in_set_takeD\<close>)
  have te: "tiled ?f (int r * ?f) tail (xp_tokens p)" "\<forall>c\<in>set tail. complete_chunk i c" "mapE encode_chunk tail = Inr ?bs"
    using e f(1) by (simp_all add: reused)
  note be = tail_backed [OF te here]
  have len_ds: "length ?ds = r" using rp(3) by simp
  have all: "backed i w 0 (?ds @ ?es) (take r cs @ tail) (xp_tokens p)"
    using tiled_full_append [of ?f 0 ?ds "map JObj ?es" "xp_tokens p"] rp(4) be
    by (intro backed_append [OF bb be]) (simp add: len_ds backed_def min_absorb2 rp(3))
  have ne: "?es \<noteq> []" using c(2) mapE_length [OF te(3)] by (intro descriptors_not_Nil) simp_all
  have ctx: "is_sha256 base" "is_sha256 (xp_context p)"
    using f(10,11) by (auto simp: context_prefix_digest_Some sha256_digest)
  let ?ext = "extension_fields i (xp_context p) (xp_tokens p) base (xp_base_digest p) (xp_base_committed p) (xp_reused p)
      (length (xp_base p)) segment (map fst (xp_tail p))"
  let ?raw = "canonical_json (JObj (with_metadata ?ext))"
  have le: "n div ?f * ?f \<le> n" using pos_mod_sign [OF pos(2), of n] minus_mod_eq_div_mult [of n ?f] by linarith
  have val: "validate_tail_manifest_root (JObj (read_dict (with_metadata ?ext))) i (xp_context p)
    = Inr \<lparr>tr_committed = xp_tokens p, tr_reused = xp_reused p, tr_chunk_count = int (length ?ds), tr_segment = segment,
        tr_chunks = map JObj (map read_dict ?es)\<rparr>"
    unfolding base tl
  proof (rule validate_extension [OF HOL.refl ste ne c(1) ctx(1)])
    show "is_sha256 (xp_base_digest p)" by (simp add: f(2) sha256_digest)
    show "xp_base_committed p < xp_tokens p" "0 < xp_base_committed p" using f(3,8) pos(1) by simp_all
    show "0 \<le> xp_reused p" "xp_reused p \<le> xp_base_committed p" using pos le by (simp_all add: f(3,4) pos_imp_zdiv_nonneg_iff)
    show "xp_reused p mod ?f = 0" by (simp add: f(4))
    show "int (length ?ds) = xp_reused p div ?f" unfolding len_ds reused using pos(2) by simp
    show "(segment = None) = (length ?ds = 0)" using chain(2) by (simp only: length_0_conv)
    show "\<forall>t. segment = Some t \<longrightarrow> is_sha256 t" by (rule chain(3))
  qed
  have fst_es: "\<forall>d\<in>set (map fst (xp_tail p)). stored_descriptor d" unfolding tl by (rule ste)
  note rd = read_extension [OF HOL.refl fst_es]
  have schema: "jget (read_dict (with_metadata ?ext)) ''schema'' = JStr TAIL_MANIFEST_SCHEMA"
    by (simp add: jget_read_dict jget_with_metadata extension_fields_def)
  obtain seen where seen: "read_descriptor_chain i w segment (int (length ?ds)) = Inr (map read_dict ?ds, seen)"
    using chain(1) by blast
  have file_w: "files w (manifest_path i (xp_context p)) = Content ?raw"
    by (rule publish_immutable_content [OF c(6)])
  obtain h' where h': "lookup i (xp_context p) v me mode w = Inr h'" "is_hit h'" "lr_digest h' = sha256 ?raw"
    "restore h' w = Inr (Some (take r cs @ tail))"
    using tail_root_hit [OF rd(1) schema val seen file_w all _ assms(1) ctx(2)] ne by blast
  have "tiled ?f 0 cs n"
    using checked_chunks_restore [OF tiled, of False i s] h(5) xs by (auto simp: backed_def)
  moreover have "cs \<noteq> []" using backed_chunks(1) [OF h(5)] h(2) xs by auto
  ultimately have "logical_end (last cs) = n" by (rule tiled_last)
  then have "r = nat (logical_end (last cs) div ?f)" using rp(2) by simp
  with h' f(11) c(7,8) show ?thesis by metis
qed


text \<open>The concrete entry of the witness: one chunk of 256 tokens.\<close>

definition alias_identity :: cache_identity where
  "alias_identity = demo_identity\<lparr>chunk_tokens := 256\<rparr>"

definition alias_tokens :: "int list" where "alias_tokens = replicate 256 7"

lemma alias_valid: "valid_identity alias_identity"
  using sha256_digest
  by (simp add: valid_identity_def CacheIdentity_def alias_identity_def demo_identity_def StateRecord_def
      all_records_def PUBLICATION_SCHEMAS_def)

lemma alias_required: "required_records alias_identity = required_records demo_identity"
  by (simp add: alias_identity_def required_records_def policy_records_def)

lemma encode_alias_chunk: "\<exists>x. encode_chunk (demo_chunk 0 256) = Inr x"
proof -
  have dec: "length (dec n) \<le> 3" if "n < 1000" for n
    using that by (subst dec.simps, subst dec.simps, subst dec.simps) simp
  let ?h = "chunk_header (demo_chunk 0 256)"
  have "length (enc_int 256) \<le> 3" using dec [of 256] by (simp add: enc_int_def)
  then have "length (canonical_json ?h) < 2 ^ 32"
    using length_enc_str [of "sha256 ''pos''"] length_enc_str [of "sha256 ''kv''"]
    by (simp add: canonical_json_def chunk_header_def demo_chunk_def sorted_records_def FORMAT_ABI_def
        length_enc_int_small enc_str_def [of "''kind''"])
       (simp add: enc_str_def escape_def)
  then show ?thesis by (simp add: encode_chunk_def Let_def)
qed

lemma alias_entry:
  "\<exists>c b s. context_prefix_digest alias_tokens ''salt'' (Some 256) [] = Inr c
    \<and> entry_on_disk alias_identity c [demo_chunk 0 256] [b] 256 s \<and> healthy s
    \<and> (\<forall>k d. files s (Segment_file k d) = Absent) \<and> (\<forall>k d. files s (Alias_file k d) = Absent)"
proof -
  obtain b where b: "encode_chunk (demo_chunk 0 256) = Inr b" using encode_alias_chunk by blast
  define c where "c = sha256 (prefix_preimage ''salt'' alias_tokens 256 [])"
  have c: "context_prefix_digest alias_tokens ''salt'' (Some 256) [] = Inr c"
    by (simp add: context_prefix_digest_Some c_def alias_tokens_def features_ok_def is_ascii_def)
  have tok: "chunk_tokens alias_identity = 256" by (simp add: alias_identity_def)
  have "committable alias_identity c [demo_chunk 0 256] None [b] 256 empty_store"
    using alias_valid demo_chunk_complete [of 0 256] sha256_digest b tok
    by (simp add: committable_def empty_store_def healthy_def no_collision_def chunks_readable_def demo_chunk_def
        complete_chunk_def alias_required c_def)
  from commit_entry_ok [OF this] committed_on_disk [OF this] obtain s where
    "entry_on_disk alias_identity c [demo_chunk 0 256] [b] 256 s"
    "s = put_file (manifest_path alias_identity c) (canonical_json (row_manifest alias_identity c [b] [demo_chunk 0 256] 256))
      (put_all (chunk_objects [b]) empty_store)" by blast
  then show ?thesis using c
    by (auto simp: healthy_def empty_store_def put_file_def manifest_path_def chunk_objects_def
        intro!: exI [of _ c] exI [of _ b] exI [of _ s])
qed


lemma alias_publishes:
  assumes "context_prefix_digest alias_tokens ''salt'' (Some 256) [] = Inr c"
    "entry_on_disk alias_identity c [demo_chunk 0 256] [b] 256 s" "healthy s"
    "\<forall>k d. files s (Segment_file k d) = Absent" "\<forall>k d. files s (Alias_file k d) = Absent"
  shows "\<exists>rc u. publish_prefix_aliases alias_identity c alias_tokens ''salt'' (Some [256]) ''per_token_rows'' s = (Inr rc, u)
    \<and> (\<exists>x. ar_keys rc = [x])"
proof -
  let ?i = alias_identity and ?ch = "demo_chunk 0 256"
  let ?d = "read_descriptor b ?ch"
  note e = assms(2) [unfolded entry_on_disk_def]
  let ?enc = "canonical_json (row_manifest ?i c [b] [?ch] 256)"
  obtain m where m: "read_json ?enc = Inr m" using read_row_manifest by blast
  have val: "validate_manifest_metadata m (EntryKey (storage_key ?i) c) (Some ?i) = Inr [?d]"
    using validate_read_manifest [of ?i "[?ch]" 256 "[b]" c m] e m by simp
  have schema: "\<not> has_schema m TAIL_MANIFEST_SCHEMA" "committed_of m = Some 256"
    using m [unfolded read_row_manifest] by (auto simp: has_schema_def committed_of_def)
  have src: "source_descriptors ?i c s = Inr (?enc, 256, [?d])"
    using e m val schema by (simp add: source_descriptors_def validate_digest_def read_bytes_def not_publishable_def)
  have tok: "chunk_tokens ?i = 256" by (simp add: alias_identity_def)
  have bs: "alias_boundaries ?i 256 (Some [256]) = Inr [256]"
    by (simp add: alias_boundaries_def tok MAX_PREFIX_ALIASES_def)
  have ctx: "c = sha256 (prefix_preimage ''salt'' alias_tokens 256 [])" using assms(1) by (simp add: context_prefix_digest_Some)
  have len: "length alias_tokens = 256" by (simp add: alias_tokens_def)
  have small: "\<forall>v\<in>set alias_tokens. 0 \<le> v \<and> v < 2 ^ 32" by (simp add: alias_tokens_def)
  have dig: "chunk_prefix_digests alias_tokens ''salt'' (sort (remdups ([256] @ [256]))) [] CODEC_CHUNK_TOKENS = Inr [(256, c)]"
  proof -
    obtain ds where ds: "chunk_prefix_digests alias_tokens ''salt'' [256] [] CODEC_CHUNK_TOKENS = Inr ds"
      using small len
      by (auto simp: chunk_prefix_digests_def CODEC_CHUNK_TOKENS_def u32_array_def validate_multimodal_features_def
          encode_ascii_def Let_def)
    from pass_digests [OF this] assms(1) have "ds = [(256, c)]" by (cases ds) auto
    then show ?thesis using ds by simp
  qed
  have cut: "cut_at [?d] 256 = Inr (256, 1)"
    by (simp add: cut_at_def descriptor_end_def read_descriptor_def demo_chunk_def)
  let ?sb = "canonical_json (segment_value ?i JNull 0 [?d])"
  have segs: "segment_chain ?i JNull 0 (covered_descriptors [(256, 1)] [?d]) = [(sha256 ?sb, ?sb)]"
    by (simp add: covered_descriptors_def segment_chain.simps [of _ _ _ "[_]"] Let_def)
  let ?a = "\<lparr>ap_context = c, ap_boundary = 256, ap_count = 1, ap_tail = sha256 ?sb\<rparr>"
  have plan: "plan_aliases ?i c alias_tokens ''salt'' (Some [256]) s = Inr (sha256 ?enc, [(sha256 ?sb, ?sb)], [?a])"
    by (simp add: plan_aliases_def src bs dig cut segs [unfolded One_nat_def] plan_alias_def Let_def del: append.simps)
  have objs: "segment_objects ?i [(sha256 ?sb, ?sb)] = [(prefix_segment_path ?i (sha256 ?sb), ?sb)]"
    by (simp add: segment_objects_def)
  have pub: "publish_immutable_batch (segment_objects ?i [(sha256 ?sb, ?sb)]) s
      = (Inr (), put_all [(prefix_segment_path ?i (sha256 ?sb), ?sb)] s)"
    unfolding objs by (rule publish_batch_ok [OF assms(3), of _ "Segments (storage_key ?i)"])
      (use assms(4) in \<open>auto simp: consistent_def prefix_segment_path_def\<close>)
  let ?t = "put_all [(prefix_segment_path ?i (sha256 ?sb), ?sb)] s"
  have "files ?t (prefix_alias_path ?i c) = Absent"
    using assms(5) by (simp add: prefix_alias_path_def prefix_segment_path_def)
  then have "publish_file (alias_object ?i (sha256 ?enc) ?a) ?t
      = (Inr (), put_file (prefix_alias_path ?i c) (snd (alias_object ?i (sha256 ?enc) ?a)) ?t)"
    using publish_fresh [of ?t "prefix_alias_path ?i c"] assms(3)
    by (simp add: publish_file_def alias_object_def)
  then show ?thesis by (simp add: publish_prefix_aliases_def plan pub)
qed

theorem published_alias_restores_witness:
  "\<exists>c s rc u hit. publish_prefix_aliases alias_identity c alias_tokens ''salt'' (Some [256]) ''per_token_rows'' s = (Inr rc, u)
    \<and> (\<exists>x. ar_keys rc = [x] \<and> lookup_prefix_alias alias_identity (ek_context x) True False u = Inr hit)
    \<and> is_hit hit \<and> restore hit u = Inr (Some [demo_chunk 0 256])"
proof -
  obtain c b s where e: "context_prefix_digest alias_tokens ''salt'' (Some 256) [] = Inr c"
    "entry_on_disk alias_identity c [demo_chunk 0 256] [b] 256 s" "healthy s"
    "\<forall>k d. files s (Segment_file k d) = Absent" "\<forall>k d. files s (Alias_file k d) = Absent"
    using alias_entry by blast
  obtain rc u x where p: "publish_prefix_aliases alias_identity c alias_tokens ''salt'' (Some [256]) ''per_token_rows'' s = (Inr rc, u)"
    "ar_keys rc = [x]"
    using alias_publishes [OF e] by blast
  obtain h where h: "lookup alias_identity c True False None s = Inr h" "is_hit h" "lr_root_kind h = ''manifest''"
    "restore h s = Inr (Some [demo_chunk 0 256])"
    using lookup_on_disk [OF e(2)] by blast
  have "x \<in> set (ar_keys rc)" by (simp add: p(2))
  from published_alias_restores [OF alias_valid h p(1) this, of True False]
  obtain hit k where hit: "lookup_prefix_alias alias_identity (ek_context x) True False u = Inr hit" "is_hit hit"
    "restore hit u = Inr (Some (take k [demo_chunk 0 256]))" "0 < k" "k \<le> length [demo_chunk 0 256]"
    by blast
  then have "take k [demo_chunk 0 256] = [demo_chunk 0 256]" by simp
  with hit(3) have res: "restore hit u = Inr (Some [demo_chunk 0 256])" by simp
  show ?thesis using p hit(1,2) res by (intro exI conjI) assumption+
qed

end
