(* ===== verification/Extend_Commit.thy ===== *)
theory Extend_Commit
  imports Extend_Laws Store_Invalidate
begin

text \<open>
  An extension commits whenever its hypotheses hold: the plan is accepted, both batches and the root can
  be published, and the entry that results is the base with a new tail.
\<close>

section \<open>The plan is accepted\<close>

lemma reused_count:
  assumes "tiled_dicts f (k * f) (map JObj ds) n" "0 < f"
  shows "int (length (filter (\<lambda>d. descriptor_end d \<le> n div f * f) ds)) = n div f - k"
  using assms(1)
proof (induction ds arbitrary: k)
  case Nil
  then show ?case using assms(2) by auto
next
  case (Cons d ds)
  obtain e where e: "descriptor_end d = e" "k * f < e" "e \<le> k * f + f" "ds \<noteq> [] \<longrightarrow> e = (k + 1) * f"
    "tiled_dicts f e (map JObj ds) n"
    using Cons.prems by (auto simp: descriptor_end_def algebra_simps)
  show ?case
  proof (cases "ds = []")
    case True
    then have n: "n = e" using e(5) by simp
    have "n div f = (if e = k * f + f then k + 1 else k)"
    proof (cases "e = k * f + f")
      case True
      then have "n = (k + 1) * f" using n by (simp add: algebra_simps)
      then have "n div f = k + 1" using assms(2) by simp
      then show ?thesis using True by simp
    next
      case False
      have "n = (e - k * f) + k * f" "0 \<le> e - k * f" "e - k * f < f" using e False n by auto
      then have "n div f = (e - k * f) div f + k" using assms(2) by (metis div_mult_self3 less_irrefl add.commute)
      then show ?thesis using False \<open>0 \<le> e - k * f\<close> \<open>e - k * f < f\<close> by simp
    qed
    then show ?thesis using True e n by (auto simp: algebra_simps)
  next
    case False
    then have ef: "e = (k + 1) * f" using e by simp
    have "e < n" using tiled_dicts_le [OF e(5)] False by simp
    then have "k + 1 \<le> n div f" using assms(2) ef by (metis less_imp_le nonzero_mult_div_cancel_right order_less_irrefl zdiv_mono1)
    then have "e \<le> n div f * f" using ef assms(2) by simp
    then show ?thesis using Cons.IH [of "k + 1"] e(1,5) ef by simp
  qed
qed

lemma encode_tail_ok:
  "tiled (chunk_tokens i) a cs n \<Longrightarrow> \<forall>c\<in>set cs. complete_chunk i c \<Longrightarrow> mapE encode_chunk cs = Inr bs \<Longrightarrow>
    encode_tail i a cs = Inr (zip (descriptors_of bs cs) bs)"
proof (induction cs arbitrary: a bs)
  case (Cons c cs)
  then obtain b bs' where b: "encode_chunk c = Inr b" "mapE encode_chunk cs = Inr bs'" "bs = b # bs'"
    by (auto simp: bindE_Inr)
  then show ?case using Cons by (auto simp: complete_chunk_def descriptors_of_def require_complete_chunk_def)
qed simp

text \<open>What a caller that wants to extend an entry has to bring.\<close>

definition extendable ::
    "cache_identity \<Rightarrow> string \<Rightarrow> int \<Rightarrow> int list \<Rightarrow> string \<Rightarrow> context_chunk list \<Rightarrow> string list \<Rightarrow> int \<Rightarrow> store \<Rightarrow> bool" where
  "extendable i base n token_ids salt tail bs n' s \<longleftrightarrow>
     publication_schema i = ''tail-cow-v1'' \<and> tail \<noteq> [] \<and> n < n'
     \<and> context_prefix_digest token_ids salt (Some n) [] = Inr base \<and> n' \<le> int (length token_ids)
     \<and> tiled (chunk_tokens i) (n div chunk_tokens i * chunk_tokens i) tail n'
     \<and> (\<forall>c\<in>set tail. complete_chunk i c) \<and> mapE encode_chunk tail = Inr bs
     \<and> healthy s \<and> no_collision (set bs) \<and> (\<forall>p. files s p \<noteq> Unreadable)"

text \<open>The descriptor segments an extension of a hit writes.\<close>

definition base_descriptors :: "cache_identity \<Rightarrow> lookup_result \<Rightarrow> int \<Rightarrow> jdict list" where
  "base_descriptors i h n =
     (case lr_manifest h of
        Some m \<Rightarrow> take (nat (n div chunk_tokens i)) (dicts (the (the_list (jget (the (the_obj m)) ''chunks''))))
      | None \<Rightarrow> [])"

definition base_segments :: "cache_identity \<Rightarrow> lookup_result \<Rightarrow> int \<Rightarrow> (string \<times> string) list" where
  "base_segments i h n = segment_chain i JNull 0 (base_descriptors i h n)"

lemma plan_extension_ok:
  assumes "extendable i base n token_ids salt tail bs n' s" "valid_identity i"
    "lookup i base True False (Some ''per_token_rows'') s = Inr h" "is_hit h"
    "lr_root_kind h \<in> {''manifest'', ''prefix_alias''}" "restore h s = Inr (Some cs)" "logical_end (last cs) = n"
    "context_prefix_digest token_ids salt (Some n') [] = Inr c"
  shows "plan_extension i base token_ids salt tail s =
    (if c = base then Inl (ValueError ''tail publication must extend the base context'')
     else Inr \<lparr>xp_context = c, xp_tokens = n', xp_base_digest = lr_digest h,
      xp_base_committed = n, xp_reused = n div chunk_tokens i * chunk_tokens i, xp_base = base_descriptors i h n,
      xp_tail = zip (descriptors_of bs tail) bs\<rparr>)"
proof -
  obtain raw d ds xs n0 where h: "h = hit raw (JObj d) (lr_root_kind h)" "ds \<noteq> []" "committed_of (JObj d) = Some n0"
    "jget d ''chunks'' = JList (map JObj ds)" "backed i s 0 ds xs n0" "restore h s = Inr (Some xs)"
    by (rule row_hit_backed [OF assms(3,4,5,2)])
  let ?f = "chunk_tokens i"
  have xs: "xs = cs" using h(6) assms(6) by simp
  have tiled: "tiled_dicts ?f 0 (map JObj ds) n0" using h(5) by (simp add: backed_def)
  have "tiled ?f 0 cs n0"
    using checked_chunks_restore [OF tiled, of False i s] h(5) xs by (auto simp: backed_def)
  moreover have "cs \<noteq> []" using backed_chunks(1) [OF h(5)] h(2) xs by auto
  ultimately have n: "n0 = n" using tiled_last assms(7) by simp
  have pos: "0 < n" "0 < ?f"
    using tiled_dicts_le [OF tiled] h(2) n CacheIdentity_Inr [OF assms(2) [unfolded valid_identity_def]] by simp_all
  note x = assms(1) [unfolded extendable_def]
  have count: "int (length (filter (\<lambda>d. descriptor_end d \<le> n div ?f * ?f) ds)) = n div ?f"
    using reused_count [of ?f 0 ds n] tiled pos n by simp
  then have len: "int (length (filter (\<lambda>d. descriptor_end d \<le> n div ?f * ?f) ds)) = n div ?f * ?f div ?f"
    using pos by simp
  note rp = reused_prefix [OF tiled [unfolded n] pos(2,1) len]
  have fil: "filter (\<lambda>d. descriptor_end d \<le> n div ?f * ?f) ds = base_descriptors i h n"
  proof -
    have "length (filter (\<lambda>d. descriptor_end d \<le> n div ?f * ?f) ds) = nat (n div ?f)" using count by linarith
    moreover have "base_descriptors i h n = take (nat (n div ?f)) ds"
      unfolding base_descriptors_def by (subst h(1)) (simp add: hit_def h(4))
    ultimately show ?thesis using rp(1) by metis
  qed
  have last: "logical_end (last tail) = n'" using tiled_last x by blast
  have enc: "encode_tail i (n div ?f * ?f) tail = Inr (zip (descriptors_of bs tail) bs)" using encode_tail_ok x by blast
  have lens: "length bs = length tail" using mapE_length x by blast
  have ne: "\<not> n' \<le> n" "\<not> int (length token_ids) < n'" using x by simp_all
  have count': "\<not> int (length (base_descriptors i h n)) \<noteq> n div ?f * ?f div ?f" using len fil by simp
  have m: "lr_manifest h = Some (JObj d)" by (subst h(1)) (simp add: hit_def)
  show ?thesis
    using x assms(3,4,8) h(3,4) n last enc ne count' fil
    by (simp add: plan_extension_def m Let_def)
qed

text \<open>The writes go through: the descriptor chain, the tail chunks, the root.\<close>

lemma publish_chain_ok:
  assumes "healthy s" "\<forall>p. files s p \<noteq> Unreadable" "no_collision (snd ` set (segment_chain i JNull 0 ds))"
  shows "\<exists>segment count bytes. publish_descriptor_chain i ds s
    = (Inr (segment, count, bytes), put_all (segment_objects i (segment_chain i JNull 0 ds)) s)"
proof (cases "ds = []")
  case False
  let ?segs = "segment_chain i JNull 0 ds"
  have digest: "fst x = sha256 (snd x)" if "x \<in> set ?segs" for x
    using that segment_chain_nth [of _ i JNull 0 ds] by (auto simp: in_set_conv_nth Let_def)
  have "consistent (segment_objects i ?segs)"
    using assms(3) digest by (fastforce simp: consistent_def segment_objects_def no_collision_def prefix_segment_path_def)
  then have "publish_immutable_batch (segment_objects i ?segs) s = (Inr (), put_all (segment_objects i ?segs) s)"
    by (rule publish_batch_ok [OF assms(1), of _ "Segments (storage_key i)"])
      (use assms(2) digest in \<open>fastforce simp: segment_objects_def prefix_segment_path_def\<close>)
  then show ?thesis using False by (simp add: publish_descriptor_chain_def Let_def)
qed (simp add: publish_descriptor_chain_def segment_objects_def)

lemma commit_extension_ok:
  assumes "plan_extension i base token_ids salt tail s = Inr p" "publication_schema i = ''tail-cow-v1''" "tail \<noteq> []"
    "healthy s" "\<forall>p. files s p \<noteq> Unreadable" "no_collision (snd ` set (segment_chain i JNull 0 (xp_base p)))"
    "no_collision (set (map snd (xp_tail p)))" "files s (manifest_path i (xp_context p)) = Absent"
  shows "\<exists>rc w. commit_extension i base token_ids salt tail s = (Inr rc, w) \<and> rc_committed_tokens rc = xp_tokens p"
proof -
  let ?segs = "segment_objects i (segment_chain i JNull 0 (xp_base p))" and ?bs = "map snd (xp_tail p)"
  obtain segment count bytes where c: "publish_descriptor_chain i (xp_base p) s = (Inr (segment, count, bytes), put_all ?segs s)"
    using publish_chain_ok [OF assms(4,5,6)] by blast
  let ?t = "put_all ?segs s"
  have rd: "files ?t q \<noteq> Unreadable" for q using assms(5) by (auto split: option.split)
  have b: "publish_immutable_batch (chunk_objects ?bs) ?t = (Inr (), put_all (chunk_objects ?bs) ?t)"
    by (rule publish_batch_ok [OF _ consistent_objects [OF assms(7)], of _ Chunks])
       (use assms(4) rd in \<open>auto simp: chunk_objects_def\<close>)
  let ?u = "put_all (chunk_objects ?bs) ?t"
  have "map_of (chunk_objects ?bs) (manifest_path i (xp_context p)) = None"
    "map_of ?segs (manifest_path i (xp_context p)) = None"
    by (auto simp: map_of_eq_None_iff chunk_objects_def segment_objects_def manifest_path_def prefix_segment_path_def)
  then have "files ?u (manifest_path i (xp_context p)) = Absent" using assms(8) by simp
  then have "publish_immutable (manifest_path i (xp_context p)) r ?u = (Inr (), put_file (manifest_path i (xp_context p)) r ?u)" for r
    using assms(4) by (intro publish_fresh) simp_all
  then show ?thesis using assms(1-3) c b by (simp add: commit_extension_def Let_def)
qed

text \<open>Another chunk under the digest of a tail chunk: a collision of the hash.\<close>

definition chunk_clash :: "context_chunk list \<Rightarrow> store \<Rightarrow> bool" where
  "chunk_clash cs s \<longleftrightarrow> \<not> no_clash cs s"

text \<open>C5: Extending a stored entry succeeds and keeps the base: given tail chunks that continue the last full
  chunk of the base, the digest of the longer token sequence, and a healthy disk, the commit writes an
  entry that every lookup hits under that digest, with the digest the receipt names, and that restores
  the full chunks of the base followed by the tail. A digest equal to that of the base is refused before
  anything is written; a manifest already under the digest, or other bytes already under the digest of a
  tail chunk, are left to the publication rules.\<close>

theorem extension_commits:
  assumes "extendable i base n token_ids salt tail bs n' s" "valid_identity i"
    "lookup i base True False (Some ''per_token_rows'') s = Inr h" "is_hit h"
    "lr_root_kind h \<in> {''manifest'', ''prefix_alias''}" "restore h s = Inr (Some cs)" "logical_end (last cs) = n"
    and "no_collision (snd ` set (base_segments i h n))"
  shows "\<exists>c. context_prefix_digest token_ids salt (Some n') [] = Inr c
    \<and> (c = base \<and> commit_extension i base token_ids salt tail s
          = (Inl (ValueError ''tail publication must extend the base context''), s)
       \<or> (\<exists>b. files s (manifest_path i c) = Content b) \<or> chunk_clash tail s
       \<or> (\<exists>rc w h'. commit_extension i base token_ids salt tail s = (Inr rc, w) \<and> rc_committed_tokens rc = n'
           \<and> lookup i c v me mode w = Inr h' \<and> is_hit h' \<and> lr_digest h' = rc_manifest_digest rc
           \<and> restore h' w = Inr (Some (take (nat (n div chunk_tokens i)) cs @ tail))))"
proof -
  note x = assms(1) [unfolded extendable_def]
  have n: "0 \<le> n'" using x context_prefix_digest_Some [of token_ids salt n "[]" base] by auto
  then obtain c where c: "context_prefix_digest token_ids salt (Some n') [] = Inr c"
    using x by (auto simp: context_prefix_digest_Some)
  note plan = plan_extension_ok [OF assms(1-7) c]
  consider "c = base" | b where "files s (manifest_path i c) = Content b" | "chunk_clash tail s"
    | "c \<noteq> base" "files s (manifest_path i c) = Absent" "no_clash tail s"
    using x unfolding chunk_clash_def by (cases "files s (manifest_path i c)") auto
  then show ?thesis
  proof cases
    case 1
    then show ?thesis using x plan c by (simp add: commit_extension_def)
  next
    case 4
    define p where "p = \<lparr>xp_context = c, xp_tokens = n', xp_base_digest = lr_digest h,
      xp_base_committed = n, xp_reused = n div chunk_tokens i * chunk_tokens i, xp_base = base_descriptors i h n,
      xp_tail = zip (descriptors_of bs tail) bs\<rparr>"
    have p: "plan_extension i base token_ids salt tail s = Inr p" using plan 4(1) by (simp add: p_def)
    have lens: "length bs = length tail" using mapE_length x by blast
    then have bs: "map snd (xp_tail p) = bs" by (simp add: p_def descriptors_of_def)
    obtain rc w where rc: "commit_extension i base token_ids salt tail s = (Inr rc, w)" "rc_committed_tokens rc = n'"
    proof -
      have "xp_base p = base_descriptors i h n" "xp_context p = c" "xp_tokens p = n'" by (simp_all add: p_def)
      then show ?thesis
        using commit_extension_ok [OF p, unfolded bs] x assms(8) 4(2) that by (simp add: base_segments_def) blast
    qed
    have valid: "\<forall>c\<in>set tail. valid_chunk c" using x by (auto simp: complete_chunk_def)
    from extension_restores [OF assms(2-6) rc(1) valid 4(3), of v me mode] show ?thesis
      using rc c assms(7) by auto
  qed (use c in auto)
qed

text \<open>One chunk of four tokens, extended by two more tokens.\<close>

definition six_tokens :: "int list" where "six_tokens = [7, 7, 7, 7, 7, 7]"

lemma tail_entry:
  "\<exists>base b s. context_prefix_digest six_tokens ''salt'' (Some 4) [] = Inr base
    \<and> entry_on_disk tail_identity base [demo_chunk 0 4] [b] 4 s \<and> healthy s \<and> (\<forall>p. files s p \<noteq> Unreadable)"
proof -
  obtain b where b: "encode_chunk (demo_chunk 0 4) = Inr b" using encode_demo [of 0 4] by auto
  define c where "c = sha256 (prefix_preimage ''salt'' six_tokens 4 [])"
  have c: "context_prefix_digest six_tokens ''salt'' (Some 4) [] = Inr c"
    by (simp add: context_prefix_digest_Some c_def six_tokens_def features_ok_def is_ascii_def)
  have req: "required_records tail_identity = required_records demo_identity"
    by (simp add: tail_identity_def required_records_def policy_records_def)
  have tok: "chunk_tokens tail_identity = 4" by (simp add: tail_identity_def demo_identity_def)
  have "committable tail_identity c [demo_chunk 0 4] None [b] 4 empty_store"
    using tail_valid demo_chunk_complete [of 0 4] sha256_digest b tok
    by (simp add: committable_def empty_store_def healthy_def no_collision_def chunks_readable_def demo_chunk_def
        complete_chunk_def req c_def)
  from commit_entry_ok [OF this] committed_on_disk [OF this] obtain s where
    "entry_on_disk tail_identity c [demo_chunk 0 4] [b] 4 s"
    "s = put_file (manifest_path tail_identity c) (canonical_json (row_manifest tail_identity c [b] [demo_chunk 0 4] 4))
      (put_all (chunk_objects [b]) empty_store)" by blast
  then show ?thesis using c
    by (auto simp: healthy_def empty_store_def put_file_def manifest_path_def chunk_objects_def
        intro!: exI [of _ c] exI [of _ b] exI [of _ s] split: if_splits option.splits)
qed

theorem extension_commits_witness:
  "\<exists>base s c. context_prefix_digest six_tokens ''salt'' (Some 4) [] = Inr base
    \<and> context_prefix_digest six_tokens ''salt'' (Some 6) [] = Inr c
    \<and> (c = base \<and> commit_extension tail_identity base six_tokens ''salt'' [demo_chunk 4 6] s
          = (Inl (ValueError ''tail publication must extend the base context''), s)
       \<or> (\<exists>b. files s (manifest_path tail_identity c) = Content b) \<or> chunk_clash [demo_chunk 4 6] s
       \<or> (\<exists>rc w h. commit_extension tail_identity base six_tokens ''salt'' [demo_chunk 4 6] s = (Inr rc, w)
           \<and> lookup tail_identity c True False None w = Inr h \<and> is_hit h
           \<and> restore h w = Inr (Some [demo_chunk 0 4, demo_chunk 4 6])))"
proof -
  obtain base b s where e: "context_prefix_digest six_tokens ''salt'' (Some 4) [] = Inr base"
    "entry_on_disk tail_identity base [demo_chunk 0 4] [b] 4 s" "healthy s" "\<forall>p. files s p \<noteq> Unreadable"
    using tail_entry by blast
  obtain h where h: "lookup tail_identity base True False (Some ''per_token_rows'') s = Inr h" "is_hit h"
    "lr_root_kind h = ''manifest''" "restore h s = Inr (Some [demo_chunk 0 4])"
    using lookup_on_disk [OF e(2)] by blast
  obtain x where x: "encode_chunk (demo_chunk 4 6) = Inr x" using encode_demo [of 4 6] by auto
  have req: "required_records tail_identity = required_records demo_identity"
    by (simp add: tail_identity_def required_records_def policy_records_def)
  have tok: "chunk_tokens tail_identity = 4" "publication_schema tail_identity = ''tail-cow-v1''"
    by (simp_all add: tail_identity_def demo_identity_def)
  have ext: "extendable tail_identity base 4 six_tokens ''salt'' [demo_chunk 4 6] [x] 6 s"
    using e x tok demo_chunk_complete [of 4 6] req
    by (simp add: extendable_def complete_chunk_def no_collision_def six_tokens_def demo_chunk_def)
  have "length (base_segments tail_identity h 4) \<le> 1"
  proof -
    have "length (base_descriptors tail_identity h 4) \<le> 1"
      by (simp add: base_descriptors_def tok split: option.split)
    then show ?thesis by (simp add: base_segments_def segment_chain_length)
  qed
  then have coll: "no_collision (snd ` set (base_segments tail_identity h 4))"
    by (cases "base_segments tail_identity h 4") (auto simp: no_collision_def)
  have kind: "lr_root_kind h \<in> {''manifest'', ''prefix_alias''}" using h(3) by simp
  have last: "logical_end (last [demo_chunk 0 4]) = 4" by (simp add: demo_chunk_def)
  have "take (nat (4 div chunk_tokens tail_identity)) [demo_chunk 0 4] @ [demo_chunk 4 6] = [demo_chunk 0 4, demo_chunk 4 6]"
    by (simp add: tok)
  with extension_commits [OF ext tail_valid h(1,2) kind h(4) last coll, of True False None] e(1)
  show ?thesis by metis
qed

end
