(* ===== verification/Page_Codec.thy ===== *)
theory Page_Codec
  imports Page_Roots
begin

text \<open>
  The block-page codec (\<open>spark_context_cache_hybrid.py\<close>): page layouts, the \<open>SPHP1\<close> form of a complete
  snapshot (a JSON header and the pages of every layer) and the \<open>SPHD1\<close> form of a delta against an
  earlier snapshot (a header and, for every layer, the pages from the first changed one on). Byte
  strings are texts; a memory view is the text it shows. A captured payload may be bytes or an object
  with a length and a reader of ranges.
\<close>

section \<open>Layouts\<close>

record page_layer =
  pl_name :: string
  pl_dtype :: string
  pl_shape :: "int list"
  pl_page :: int

definition PageLayer :: "string \<Rightarrow> string \<Rightarrow> int list \<Rightarrow> int \<Rightarrow> exn + page_layer" where
  "PageLayer name dtype shape n =
     (if name = [] \<or> dtype = [] \<or> shape = [] then Inl (HybridCodecError ''page layer metadata is incomplete'')
      else if n \<le> 0 \<or> (\<exists>x\<in>set shape. x \<le> 0) then Inl (HybridCodecError ''page layer geometry must be positive'')
      else Inr \<lparr>pl_name = name, pl_dtype = dtype, pl_shape = shape, pl_page = n\<rparr>)"

record page_group =
  pg_block_size :: int
  pg_layers :: "page_layer list"
  pg_policy :: string
  pg_window :: "int option"

definition PageGroup :: "int \<Rightarrow> page_layer list \<Rightarrow> string \<Rightarrow> int option \<Rightarrow> exn + page_group" where
  "PageGroup block_size layers policy window =
     (let names = map pl_name layers in
      if block_size \<le> 0 \<or> layers = [] then Inl (HybridCodecError ''page group geometry is incomplete'')
      else if policy \<notin> {''full'', ''sliding'', ''recurrent_align''}
      then Inl (HybridCodecError ''page group reuse policy is unsupported'')
      else if policy \<in> {''full'', ''recurrent_align''} \<and> window \<noteq> None
      then Inl (HybridCodecError ''page group cannot declare a reuse window'')
      else if policy = ''sliding'' \<and> (case window of None \<Rightarrow> True | Some w \<Rightarrow> w \<le> 1)
      then Inl (HybridCodecError ''sliding page group reuse window is invalid'')
      else if names \<noteq> sort names \<or> \<not> distinct names
      then Inl (HybridCodecError ''page group layers must be sorted and unique'')
      else Inr \<lparr>pg_block_size = block_size, pg_layers = layers, pg_policy = policy, pg_window = window\<rparr>)"

record page_layout =
  lay_groups :: "page_group list"

definition layout_layers :: "page_layout \<Rightarrow> page_layer list" where
  "layout_layers lay = concat (map pg_layers (lay_groups lay))"

definition PageLayout :: "page_group list \<Rightarrow> exn + page_layout" where
  "PageLayout groups =
     (let lay = \<lparr>lay_groups = groups\<rparr> in
      if groups = [] then Inl (HybridCodecError ''page layout has no groups'')
      else if \<not> distinct (map pl_name (layout_layers lay))
      then Inl (HybridCodecError ''a layer belongs to multiple page groups'')
      else Inr lay)"

text \<open>\<open>asdict\<close> and the digest of its JSON text.\<close>

definition layer_json :: "page_layer \<Rightarrow> json" where
  "layer_json l = JObj [(''name'', JStr (pl_name l)), (''dtype'', JStr (pl_dtype l)),
     (''page_shape'', JList (map JInt (pl_shape l))), (''bytes_per_page'', JInt (pl_page l))]"

definition group_json :: "page_group \<Rightarrow> json" where
  "group_json g = JObj [(''block_size'', JInt (pg_block_size g)), (''layers'', JList (map layer_json (pg_layers g))),
     (''reuse_policy'', JStr (pg_policy g)),
     (''reuse_window_tokens'', case pg_window g of None \<Rightarrow> JNull | Some w \<Rightarrow> JInt w)]"

definition layout_digest :: "page_layout \<Rightarrow> string" where
  "layout_digest lay = sha256 (canonical_json (JObj [(''groups'', JList (map group_json (lay_groups lay)))]))"

text \<open>The nested loops over groups and their layers: a layer with the index of its group and the number
  of pages the group contributes.\<close>

definition layer_counts :: "page_layout \<Rightarrow> int list \<Rightarrow> (nat \<times> page_layer \<times> int) list" where
  "layer_counts lay counts =
     concat (map (\<lambda>(gi, g, c). map (\<lambda>l. (gi, l, c)) (pg_layers g))
       (zip [0..<length (lay_groups lay)] (zip (lay_groups lay) counts)))"

definition slot_bytes :: "nat \<times> page_layer \<times> int \<Rightarrow> int" where
  "slot_bytes = (\<lambda>(gi, l, c). c * pl_page l)"

section \<open>Integrity of payloads\<close>

definition PAYLOAD_INTEGRITY_MODES :: "string list" where
  "PAYLOAD_INTEGRITY_MODES = [''sha256'', ''fast'', ''none'']"

definition payload_matches :: "string \<Rightarrow> string \<Rightarrow> string option \<Rightarrow> int option \<Rightarrow> exn + bool" where
  "payload_matches integrity data sha crc =
     (if integrity = ''sha256'' then Inr (Some (sha256 data) = sha)
      else if integrity = ''fast'' then Inr (Some (crc32 data) = crc)
      else if integrity = ''none'' then Inr True
      else Inl (HybridCodecError ''payload integrity mode is unsupported''))"

record verified_snapshot =
  vs_payload :: string
  vs_sha256 :: string

datatype snapshot_bytes = Plain string | Verified verified_snapshot

fun verify_page_snapshot_bytes :: "snapshot_bytes \<Rightarrow> verified_snapshot" where
  "verify_page_snapshot_bytes (Verified v) = v"
| "verify_page_snapshot_bytes (Plain b) = \<lparr>vs_payload = b, vs_sha256 = sha256 b\<rparr>"

section \<open>Complete snapshots\<close>

definition PAGE_MAGIC :: string where "PAGE_MAGIC = ''SPHP1'' @ [CHR 0x00]"
definition DELTA_MAGIC :: string where "DELTA_MAGIC = ''SPHD1'' @ [CHR 0x00]"
definition HEADER_PREFIX :: nat where "HEADER_PREFIX = 10"

text \<open>Magic, length and JSON text of a header; a length that does not fit four bytes raises.\<close>

definition framed :: "string \<Rightarrow> json \<Rightarrow> exn + string" where
  "framed magic v =
     (let h = canonical_json v in
      if 2 ^ 32 \<le> length h then Inl StructError else Inr (magic @ little_endian 4 (length h) @ h))"

definition encode_page_snapshot_header :: "page_layout \<Rightarrow> int list \<Rightarrow> exn + string" where
  "encode_page_snapshot_header lay counts =
     (if length counts \<noteq> length (lay_groups lay)
      then Inl (HybridCodecError ''block-count vector disagrees with page groups'')
      else if \<exists>c\<in>set counts. c \<le> 0
      then Inl (HybridCodecError ''every page group must contribute at least one block'')
      else framed PAGE_MAGIC (JObj [(''schema'', JStr ''sparkcache-hybrid-pages/v1''),
             (''layout_sha256'', JStr (layout_digest lay)), (''block_counts'', JList (map JInt counts))]))"

definition page_snapshot_encoded_size :: "page_layout \<Rightarrow> int list \<Rightarrow> exn + int" where
  "page_snapshot_encoded_size lay counts =
     bindE (encode_page_snapshot_header lay counts) (\<lambda>h.
     Inr (int (length h) + sum_list (map slot_bytes (layer_counts lay counts))))"

record page_span =
  sp_layer :: string
  sp_group :: nat
  sp_start :: int
  sp_end :: int
  sp_pages :: int
  sp_page :: int

record snapshot_plan =
  sn_header :: int
  sn_total :: int
  sn_counts :: "int list"
  sn_spans :: "page_span list"

text \<open>\<open>tuple(v)\<close> of a JSON value.\<close>

fun tuple_of :: "json \<Rightarrow> exn + json list" where
  "tuple_of (JList vs) = Inr vs"
| "tuple_of (JStr s) = Inr (map (\<lambda>c. JStr [c]) s)"
| "tuple_of (JObj d) = Inr (map JStr (dkeys d))"
| "tuple_of v = Inl (TypeError ''object is not iterable'')"

definition same_counts :: "json list \<Rightarrow> int list \<Rightarrow> bool" where
  "same_counts vs counts \<longleftrightarrow> list_all2 (\<lambda>v n. py_eq v (JInt n)) vs counts"

fun page_spans :: "int \<Rightarrow> int \<Rightarrow> (nat \<times> page_layer \<times> int) list \<Rightarrow> exn + page_span list \<times> int" where
  "page_spans limit offset [] = Inr ([], offset)"
| "page_spans limit offset ((gi, l, c) # slots) =
     (let e = offset + c * pl_page l in
      if e > limit then Inl (HybridCodecError ''hybrid page snapshot is truncated'')
      else bindE (page_spans limit e slots) (\<lambda>(spans, stop).
        Inr (\<lparr>sp_layer = pl_name l, sp_group = gi, sp_start = offset, sp_end = e,
              sp_pages = c, sp_page = pl_page l\<rparr> # spans, stop)))"

text \<open>Where the header ends, once the prefix shows it in full.\<close>

definition header_end :: "string \<Rightarrow> string \<Rightarrow> string \<Rightarrow> exn + nat" where
  "header_end what magic view =
     (if length view < HEADER_PREFIX \<or> take 6 view \<noteq> magic
      then Inl (HybridCodecError (what @ '' has an invalid prefix''))
      else
        (let n = of_little_endian (take 4 (drop 6 view)) in
         if n = 0 \<or> HEADER_PREFIX + n > length view
         then Inl (HybridCodecError (what @ '' header is truncated''))
         else Inr (HEADER_PREFIX + n)))"

definition plan_page_snapshot ::
    "page_layout \<Rightarrow> string \<Rightarrow> int list \<Rightarrow> int option \<Rightarrow> exn + snapshot_plan" where
  "plan_page_snapshot lay view counts total_bytes =
     bindE (header_end ''hybrid page snapshot'' PAGE_MAGIC view) (\<lambda>hend.
     case json_loads (drop HEADER_PREFIX (take hend view)) of
       None \<Rightarrow> Inl (HybridCodecError ''hybrid page snapshot header is invalid'')
     | Some header \<Rightarrow>
         if \<exists>c\<in>set counts. c \<le> 0 then Inl (HybridCodecError ''hybrid page block counts must be positive'')
         else
           (case the_obj header of
              None \<Rightarrow> Inl (HybridCodecError ''hybrid page snapshot identity or block counts differ'')
            | Some h \<Rightarrow>
                if jget h ''schema'' \<noteq> JStr ''sparkcache-hybrid-pages/v1''
                  \<or> jget h ''layout_sha256'' \<noteq> JStr (layout_digest lay)
                then Inl (HybridCodecError ''hybrid page snapshot identity or block counts differ'')
                else
                  bindE (tuple_of (case map_of h ''block_counts'' of None \<Rightarrow> JList [] | Some v \<Rightarrow> v)) (\<lambda>vs.
                  if \<not> same_counts vs counts \<or> length counts \<noteq> length (lay_groups lay)
                  then Inl (HybridCodecError ''hybrid page snapshot identity or block counts differ'')
                  else
                    (let limit = (case total_bytes of None \<Rightarrow> int (length view) | Some n \<Rightarrow> n) in
                     if limit < int hend \<or> int (length view) > limit
                     then Inl (HybridCodecError ''hybrid page snapshot total length is invalid'')
                     else
                       bindE (page_spans limit (int hend) (layer_counts lay counts)) (\<lambda>(spans, stop).
                       if stop \<noteq> limit then Inl (HybridCodecError ''hybrid page snapshot has trailing bytes'')
                       else Inr \<lparr>sn_header = int hend, sn_total = limit, sn_counts = counts, sn_spans = spans\<rparr>)))))"

type_synonym payloads = "(string \<times> string) list"

definition payload_of :: "payloads \<Rightarrow> string \<Rightarrow> string" where
  "payload_of ps name = (case map_of ps name of None \<Rightarrow> [] | Some b \<Rightarrow> b)"

definition encode_page_snapshot :: "page_layout \<Rightarrow> int list \<Rightarrow> payloads \<Rightarrow> exn + string" where
  "encode_page_snapshot lay counts ps =
     (if length counts \<noteq> length (lay_groups lay)
      then Inl (HybridCodecError ''block-count vector disagrees with page groups'')
      else if \<exists>c\<in>set counts. c \<le> 0
      then Inl (HybridCodecError ''every page group must contribute at least one block'')
      else if set (dkeys ps) \<noteq> pl_name ` set (layout_layers lay)
      then Inl (HybridCodecError ''page payload names disagree with layout'')
      else if \<exists>x\<in>set (layer_counts lay counts). int (length (payload_of ps (pl_name (fst (snd x))))) \<noteq> slot_bytes x
      then Inl (HybridCodecError ''layer carries other bytes than expected'')
      else bindE (encode_page_snapshot_header lay counts) (\<lambda>h.
        Inr (h @ concat (map (\<lambda>(gi, l, c). payload_of ps (pl_name l)) (layer_counts lay counts)))))"

text \<open>The payloads by layer name; the names of a layout are distinct.\<close>

definition decode_page_snapshot :: "page_layout \<Rightarrow> string \<Rightarrow> int list \<Rightarrow> exn + payloads" where
  "decode_page_snapshot lay encoded counts =
     bindE (plan_page_snapshot lay encoded counts None) (\<lambda>p.
     Inr (map (\<lambda>sp. (sp_layer sp, py_slice encoded (sp_start sp) (sp_end sp))) (sn_spans p)))"

section \<open>Plans of deltas\<close>

record delta_tail =
  dt_layer :: string
  dt_group :: nat
  dt_start :: int
  dt_end :: int
  dt_offset :: int
  dt_sha256 :: "string option"
  dt_crc32 :: "int option"

record delta_plan =
  dl_header :: int
  dl_total :: int
  dl_base_counts :: "int list"
  dl_result_counts :: "int list"
  dl_base_tokens :: int
  dl_result_tokens :: int
  dl_base_sha256 :: string
  dl_result_sha256 :: string
  dl_reused :: "int list"
  dl_tails :: "delta_tail list"
  dl_integrity :: string

definition validate_delta_boundaries :: "int \<Rightarrow> int \<Rightarrow> exn + unit" where
  "validate_delta_boundaries base result =
     require (0 < base \<and> base < result) (HybridCodecError ''page delta boundaries are invalid'')"

definition DELTA_SCHEMA_V1 :: string where "DELTA_SCHEMA_V1 = ''sparkcache-hybrid-page-delta/v1''"
definition DELTA_SCHEMA_V2 :: string where "DELTA_SCHEMA_V2 = ''sparkcache-hybrid-page-delta/v2''"

definition DELTA_HEADER_KEYS :: "string list" where
  "DELTA_HEADER_KEYS = [''schema'', ''layout_sha256'', ''base_snapshot_sha256'', ''result_snapshot_sha256'',
     ''base_block_counts'', ''result_block_counts'', ''base_boundary_tokens'', ''result_boundary_tokens'',
     ''reused_pages_by_group'', ''layer_tails'']"

text \<open>The descriptor of one layer tail, with the digest or checksum it carries.\<close>

definition checked_tail ::
    "string \<Rightarrow> page_layer \<Rightarrow> int \<Rightarrow> json \<Rightarrow> (string option \<times> int option) option" where
  "checked_tail integrity l expected v =
     (case the_obj v of
        None \<Rightarrow> None
      | Some d \<Rightarrow>
          if jget d ''name'' \<noteq> JStr (pl_name l) \<or> the_int (jget d ''bytes'') \<noteq> Some expected then None
          else if integrity = ''sha256''
          then (if set (dkeys d) = {''name'', ''bytes'', ''sha256''} \<and> is_digest (jget d ''sha256'')
                then Some (the_str (jget d ''sha256''), None) else None)
          else if set (dkeys d) \<noteq> {''name'', ''bytes'', ''crc32''} then None
          else if integrity = ''none''
          then (if jget d ''crc32'' = JNull then Some (None, None) else None)
          else if int_where (\<lambda>n. 0 \<le> n \<and> n \<le> 0xFFFFFFFF) (jget d ''crc32'')
          then Some (None, the_int (jget d ''crc32'')) else None)"

text \<open>The loop over the layers of one group, from the descriptors that are left.\<close>

fun layer_tails ::
    "string \<Rightarrow> int \<Rightarrow> nat \<Rightarrow> int \<Rightarrow> int \<Rightarrow> page_layer list \<Rightarrow> json list \<Rightarrow> int \<Rightarrow> exn + delta_tail list \<times> json list \<times> int" where
  "layer_tails integrity limit gi pages reused [] vs offset = Inr ([], vs, offset)"
| "layer_tails integrity limit gi pages reused (l # ls) [] offset = Inl IndexError"
| "layer_tails integrity limit gi pages reused (l # ls) (v # vs) offset =
     (let expected = (pages - reused) * pl_page l in
      case checked_tail integrity l expected v of
        None \<Rightarrow> Inl (HybridCodecError ''hybrid page delta layer descriptor differs'')
      | Some (sha, crc) \<Rightarrow>
          if offset + expected > limit then Inl (HybridCodecError ''hybrid page delta payload is truncated'')
          else
            bindE (layer_tails integrity limit gi pages reused ls vs (offset + expected)) (\<lambda>(ts, rest, stop).
            Inr (\<lparr>dt_layer = pl_name l, dt_group = gi, dt_start = offset, dt_end = offset + expected,
                  dt_offset = reused * pl_page l, dt_sha256 = sha, dt_crc32 = crc\<rparr> # ts, rest, stop)))"

fun group_tails ::
    "string \<Rightarrow> int \<Rightarrow> nat \<Rightarrow> (page_group \<times> int \<times> int \<times> json) list \<Rightarrow> json list \<Rightarrow> int \<Rightarrow> exn + delta_tail list \<times> int" where
  "group_tails integrity limit gi [] vs offset = Inr ([], offset)"
| "group_tails integrity limit gi ((g, base, result, r) # gs) vs offset =
     (case the_int r of
        None \<Rightarrow> Inl (HybridCodecError ''hybrid page delta reuse count is invalid'')
      | Some reused \<Rightarrow>
          if \<not> (0 \<le> reused \<and> reused \<le> base) then Inl (HybridCodecError ''hybrid page delta reuse count is invalid'')
          else
            bindE (layer_tails integrity limit gi result reused (pg_layers g) vs offset) (\<lambda>(ts, rest, stop).
            bindE (group_tails integrity limit (gi + 1) gs rest stop) (\<lambda>(us, stop').
            Inr (ts @ us, stop'))))"

definition exact_ints :: "json \<Rightarrow> int list option" where
  "exact_ints v =
     (case the_list v of
        None \<Rightarrow> None
      | Some vs \<Rightarrow> if \<forall>x\<in>set vs. the_int x \<noteq> None then Some (map (the \<circ> the_int) vs) else None)"

definition extends_counts :: "page_layout \<Rightarrow> int list \<Rightarrow> int list \<Rightarrow> bool" where
  "extends_counts lay base result \<longleftrightarrow> length base = length (lay_groups lay) \<and> length result = length (lay_groups lay)
     \<and> (\<forall>(b, r)\<in>set (zip base result). 0 < b \<and> b \<le> r)"

definition plan_page_delta ::
    "page_layout \<Rightarrow> string \<Rightarrow> int list \<Rightarrow> int list \<Rightarrow> int \<Rightarrow> int \<Rightarrow> int option \<Rightarrow> exn + delta_plan" where
  "plan_page_delta lay view base_counts result_counts base_tokens result_tokens total_bytes =
     bindE (validate_delta_boundaries base_tokens result_tokens) (\<lambda>_.
     bindE (header_end ''hybrid page delta'' DELTA_MAGIC view) (\<lambda>hend.
     case json_loads (drop HEADER_PREFIX (take hend view)) of
       None \<Rightarrow> Inl (HybridCodecError ''hybrid page delta header is invalid'')
     | Some header \<Rightarrow>
         (case the_obj header of
            None \<Rightarrow> Inl (HybridCodecError ''hybrid page delta header fields differ'')
          | Some h \<Rightarrow>
              (let v2 = (jget h ''schema'' = JStr DELTA_SCHEMA_V2);
                   integrity = (if v2 then the_str (jget h ''integrity'') else Some ''sha256'') in
               if v2 \<and> integrity \<noteq> Some ''fast'' \<and> integrity \<noteq> Some ''none''
               then Inl (HybridCodecError ''hybrid page delta integrity mode is invalid'')
               else if set (dkeys h) \<noteq> set (DELTA_HEADER_KEYS @ (if v2 then [''integrity''] else []))
               then Inl (HybridCodecError ''hybrid page delta header fields differ'')
               else
                 (case (exact_ints (jget h ''base_block_counts''), exact_ints (jget h ''result_block_counts''),
                        the_int (jget h ''base_boundary_tokens''), the_int (jget h ''result_boundary_tokens'')) of
                    (Some raw_base, Some raw_result, Some bt, Some rt) \<Rightarrow>
                      if \<not> extends_counts lay base_counts result_counts
                      then Inl (HybridCodecError ''page delta block counts do not extend the base'')
                      else if jget h ''schema'' \<notin> {JStr DELTA_SCHEMA_V1, JStr DELTA_SCHEMA_V2}
                        \<or> jget h ''layout_sha256'' \<noteq> JStr (layout_digest lay)
                        \<or> raw_base \<noteq> base_counts \<or> raw_result \<noteq> result_counts
                        \<or> bt \<noteq> base_tokens \<or> rt \<noteq> result_tokens
                        \<or> \<not> is_digest (jget h ''base_snapshot_sha256'')
                        \<or> \<not> is_digest (jget h ''result_snapshot_sha256'')
                      then Inl (HybridCodecError ''hybrid page delta identity or base differs'')
                      else
                        (case (the_list (jget h ''reused_pages_by_group''), the_list (jget h ''layer_tails'')) of
                           (Some reused, Some raw_tails) \<Rightarrow>
                             if length reused \<noteq> length (lay_groups lay)
                               \<or> length raw_tails \<noteq> length (layout_layers lay)
                             then Inl (HybridCodecError ''hybrid page delta descriptor count differs'')
                             else
                               (let limit = (case total_bytes of None \<Rightarrow> int (length view) | Some n \<Rightarrow> n) in
                                if limit < int hend \<or> int (length view) > limit
                                then Inl (HybridCodecError ''hybrid page delta total length is invalid'')
                                else
                                  bindE (group_tails (the integrity) limit 0
                                    (zip (lay_groups lay) (zip base_counts (zip result_counts reused)))
                                    raw_tails (int hend)) (\<lambda>(tails, stop).
                                  if stop \<noteq> limit
                                  then Inl (HybridCodecError ''hybrid page delta has trailing bytes'')
                                  else Inr \<lparr>dl_header = int hend, dl_total = limit,
                                    dl_base_counts = base_counts, dl_result_counts = result_counts,
                                    dl_base_tokens = base_tokens, dl_result_tokens = result_tokens,
                                    dl_base_sha256 = the (the_str (jget h ''base_snapshot_sha256'')),
                                    dl_result_sha256 = the (the_str (jget h ''result_snapshot_sha256'')),
                                    dl_reused = map (the \<circ> the_int) reused, dl_tails = tails,
                                    dl_integrity = the integrity\<rparr>))
                         | _ \<Rightarrow> Inl (HybridCodecError ''hybrid page delta descriptor count differs''))
                  | _ \<Rightarrow> Inl (HybridCodecError ''hybrid page delta header geometry is invalid''))))))"

end
