(* ===== verification/Page_Delta.thy ===== *)
theory Page_Delta
  imports Page_Codec
begin

text \<open>
  Encoding and applying page deltas (\<open>spark_context_cache_hybrid.py\<close>): the comparison of two snapshots
  page by page, the delta from a capture of the pages that were not reused, the application of one
  delta, the reconstruction of a history stage by stage, and the composition of a history that reads
  every surviving tail once.
\<close>

section \<open>Encoding a delta between two snapshots\<close>

definition page_at :: "string \<Rightarrow> int \<Rightarrow> nat \<Rightarrow> string" where
  "page_at b n j = py_slice b (int j * n) ((int j + 1) * n)"

text \<open>The pages of a group that every layer carries unchanged, counted from the first.\<close>

definition reusable_pages :: "page_layer list \<Rightarrow> payloads \<Rightarrow> payloads \<Rightarrow> int \<Rightarrow> nat" where
  "reusable_pages layers base result count =
     length (takeWhile (\<lambda>j. \<forall>l\<in>set layers.
       page_at (payload_of base (pl_name l)) (pl_page l) j = page_at (payload_of result (pl_name l)) (pl_page l) j)
       [0..<nat count])"

definition tail_descriptor :: "string \<Rightarrow> string \<times> string \<Rightarrow> json" where
  "tail_descriptor integrity = (\<lambda>(name, tail). JObj
     ([(''name'', JStr name), (''bytes'', JInt (int (length tail)))]
      @ (if integrity = ''sha256'' then [(''sha256'', JStr (sha256 tail))]
         else [(''crc32'', if integrity = ''fast'' then JInt (crc32 tail) else JNull)])))"

definition delta_header ::
    "string \<Rightarrow> page_layout \<Rightarrow> string \<Rightarrow> string \<Rightarrow> int list \<Rightarrow> int list \<Rightarrow> int \<Rightarrow> int \<Rightarrow> int list
      \<Rightarrow> (string \<times> string) list \<Rightarrow> json" where
  "delta_header integrity lay base_sha result_sha base_counts result_counts base_tokens result_tokens reused tails = JObj
     ((if integrity = ''sha256'' then [(''schema'', JStr DELTA_SCHEMA_V1)]
       else [(''schema'', JStr DELTA_SCHEMA_V2), (''integrity'', JStr integrity)])
      @ [(''layout_sha256'', JStr (layout_digest lay)), (''base_snapshot_sha256'', JStr base_sha),
         (''result_snapshot_sha256'', JStr result_sha), (''base_block_counts'', JList (map JInt base_counts)),
         (''result_block_counts'', JList (map JInt result_counts)), (''base_boundary_tokens'', JInt base_tokens),
         (''result_boundary_tokens'', JInt result_tokens), (''reused_pages_by_group'', JList (map JInt reused)),
         (''layer_tails'', JList (map (tail_descriptor integrity) tails))])"

definition is_sha256_option :: "string option \<Rightarrow> bool" where
  "is_sha256_option v \<longleftrightarrow> (case v of None \<Rightarrow> False | Some s \<Rightarrow> is_sha256 s)"

text \<open>The checks of the integrity mode that both encoders start with.\<close>

definition check_integrity :: "string \<Rightarrow> string option \<Rightarrow> string option \<Rightarrow> exn + unit" where
  "check_integrity integrity base_sha result_sha =
     (if integrity \<notin> set PAYLOAD_INTEGRITY_MODES
      then Inl (HybridCodecError ''payload integrity mode is unsupported'')
      else if integrity \<noteq> ''sha256'' \<and> \<not> (is_sha256_option base_sha \<and> is_sha256_option result_sha)
      then Inl (HybridCodecError ''boundary tokens are required without payload digests'')
      else Inr ())"

text \<open>The digest of the base: as given, or computed.\<close>

definition base_digest :: "string option \<Rightarrow> string \<Rightarrow> exn + string" where
  "base_digest given computed =
     (case given of
        None \<Rightarrow> Inr computed
      | Some s \<Rightarrow> if is_sha256 s then Inr s else Inl (HybridCodecError ''base snapshot digest is invalid''))"

text \<open>What each group keeps, and the tail of every layer.\<close>

definition group_reuse :: "page_layout \<Rightarrow> payloads \<Rightarrow> payloads \<Rightarrow> int list \<Rightarrow> int list" where
  "group_reuse lay base result base_counts =
     map (\<lambda>(g, c). int (reusable_pages (pg_layers g) base result c)) (zip (lay_groups lay) base_counts)"

definition result_tails :: "page_layout \<Rightarrow> payloads \<Rightarrow> int list \<Rightarrow> (string \<times> string) list" where
  "result_tails lay result reused =
     map (\<lambda>(gi, l, r). (pl_name l, drop (nat (r * pl_page l)) (payload_of result (pl_name l)))) (layer_counts lay reused)"

definition encode_page_delta ::
    "page_layout \<Rightarrow> string \<Rightarrow> string \<Rightarrow> int list \<Rightarrow> int list \<Rightarrow> int \<Rightarrow> int \<Rightarrow> string option \<Rightarrow> string \<Rightarrow> string option
      \<Rightarrow> exn + string" where
  "encode_page_delta lay base result base_counts result_counts base_tokens result_tokens base_sha integrity result_sha =
     bindE (validate_delta_boundaries base_tokens result_tokens) (\<lambda>_.
     bindE (check_integrity integrity base_sha result_sha) (\<lambda>_.
     bindE (base_digest base_sha (sha256 base)) (\<lambda>base_sha.
     if length base_counts \<noteq> length (lay_groups lay) \<or> length result_counts \<noteq> length (lay_groups lay)
     then Inl (HybridCodecError ''page delta block counts disagree with layout'')
     else if \<not> extends_counts lay base_counts result_counts
     then Inl (HybridCodecError ''page delta block counts do not extend the base'')
     else
       bindE (decode_page_snapshot lay base base_counts) (\<lambda>base_payloads.
       bindE (decode_page_snapshot lay result result_counts) (\<lambda>result_payloads.
       let reused = group_reuse lay base_payloads result_payloads base_counts;
           tails = result_tails lay result_payloads reused;
           result_sha = (if integrity = ''sha256'' then sha256 result else the result_sha)
       in bindE (framed DELTA_MAGIC (delta_header integrity lay base_sha result_sha base_counts result_counts
            base_tokens result_tokens reused tails)) (\<lambda>h.
          Inr (h @ concat (map snd tails))))))))"

section \<open>Encoding a delta from a capture\<close>

datatype captured = Buffer string | Scatter int "int \<Rightarrow> int \<Rightarrow> exn + string"

fun captured_bytes :: "captured \<Rightarrow> int" where
  "captured_bytes (Buffer b) = int (length b)"
| "captured_bytes (Scatter n read) = n"

fun captured_range :: "captured \<Rightarrow> int \<Rightarrow> int \<Rightarrow> exn + string" where
  "captured_range (Buffer b) s e = Inr (py_slice b s e)"
| "captured_range (Scatter n read) s e = read s e"

definition captured_counts :: "page_layout \<Rightarrow> int list \<Rightarrow> int list \<Rightarrow> int list \<Rightarrow> exn + unit" where
  "captured_counts lay base_counts result_counts reused =
     (if \<not> (length base_counts = length result_counts \<and> length result_counts = length reused
        \<and> length reused = length (lay_groups lay))
      then Inl (HybridCodecError ''captured page extension geometry differs'')
      else if \<exists>(b, r, k)\<in>set (zip base_counts (zip result_counts reused)). b \<le> 0 \<or> r < b \<or> \<not> (0 \<le> k \<and> k \<le> b)
      then Inl (HybridCodecError ''captured page extension counts are invalid'')
      else Inr ())"

text \<open>The layers in order, each with the pages its group reuses and the pages it was captured with.\<close>

definition capture_slots :: "page_layout \<Rightarrow> int list \<Rightarrow> int list \<Rightarrow> (page_layer \<times> int \<times> int) list" where
  "capture_slots lay reused result_counts =
     concat (map (\<lambda>(g, k, r). map (\<lambda>l. (l, k, r - k)) (pg_layers g)) (zip (lay_groups lay) (zip reused result_counts)))"

text \<open>The loop over the layers; each takes its captured tail from where the one before stopped.\<close>

fun capture_tails :: "captured \<Rightarrow> (page_layer \<times> int \<times> int) list \<Rightarrow> int \<Rightarrow> exn + (string \<times> string) list \<times> int" where
  "capture_tails cap [] cursor = Inr ([], cursor)"
| "capture_tails cap ((l, k, pages) # slots) cursor =
     (let n = pages * pl_page l; e = cursor + n in
      if e > captured_bytes cap then Inl (HybridCodecError ''captured page extension payload is truncated'')
      else
        bindE (captured_range cap cursor e) (\<lambda>tail.
        if int (length tail) \<noteq> n then Inl (HybridCodecError ''captured page extension range differs'')
        else
          bindE (capture_tails cap slots e) (\<lambda>(ts, stop). Inr ((pl_name l, tail) # ts, stop))))"

fun base_sha_of :: "snapshot_bytes \<Rightarrow> string option \<Rightarrow> string option" where
  "base_sha_of (Verified v) None = Some (vs_sha256 v)"
| "base_sha_of b given = given"

fun bytes_of :: "snapshot_bytes \<Rightarrow> string" where
  "bytes_of (Verified v) = vs_payload v"
| "bytes_of (Plain b) = b"

text \<open>The delta and the complete result, whose digest is taken from the buffer that is kept or from the
  parts as they pass.\<close>

definition encode_page_delta_from_capture_shared ::
    "page_layout \<Rightarrow> snapshot_bytes \<Rightarrow> captured \<Rightarrow> int list \<Rightarrow> int list \<Rightarrow> int list \<Rightarrow> int \<Rightarrow> int
      \<Rightarrow> string option \<Rightarrow> bool \<Rightarrow> string \<Rightarrow> string option \<Rightarrow> exn + string \<times> string option" where
  "encode_page_delta_from_capture_shared lay base cap base_counts result_counts reused base_tokens result_tokens
     base_sha materialize integrity result_sha =
     bindE (validate_delta_boundaries base_tokens result_tokens) (\<lambda>_.
     bindE (check_integrity integrity base_sha result_sha) (\<lambda>_.
     bindE (captured_counts lay base_counts result_counts reused) (\<lambda>_.
     let view = bytes_of base in
     bindE (plan_page_snapshot lay view base_counts (Some (int (length view)))) (\<lambda>plan.
     if captured_bytes cap \<le> 0 then Inl (HybridCodecError ''captured page extension payload is invalid'')
     else
       bindE (encode_page_snapshot_header lay result_counts) (\<lambda>result_header.
       bindE (page_snapshot_encoded_size lay result_counts) (\<lambda>result_size.
       let slots = capture_slots lay reused result_counts in
       bindE (capture_tails cap slots 0) (\<lambda>(tails, cursor).
       if cursor \<noteq> captured_bytes cap then Inl (HybridCodecError ''captured page extension has trailing bytes'')
       else
         (let prefixes = map (\<lambda>((l, k, pages), sp). py_slice view (sp_start sp) (sp_start sp + k * pl_page l))
                           (zip slots (sn_spans plan));
              result = result_header @ concat (map2 (\<lambda>p t. p @ snd t) prefixes tails)
          in if materialize \<and> int (length result) \<noteq> result_size
             then Inl (HybridCodecError ''captured page extension result is incomplete'')
             else
               bindE (base_digest (base_sha_of base base_sha) (sha256 view)) (\<lambda>base_sha.
               bindE (framed DELTA_MAGIC (delta_header integrity lay base_sha
                 (if integrity = ''sha256'' then sha256 result else the result_sha)
                 base_counts result_counts base_tokens result_tokens reused tails)) (\<lambda>h.
               Inr (h @ concat (map snd tails), if materialize then Some result else None)))))))))))"

definition encode_page_delta_from_capture ::
    "page_layout \<Rightarrow> snapshot_bytes \<Rightarrow> captured \<Rightarrow> int list \<Rightarrow> int list \<Rightarrow> int list \<Rightarrow> int \<Rightarrow> int
      \<Rightarrow> string option \<Rightarrow> string \<Rightarrow> string option \<Rightarrow> exn + string" where
  "encode_page_delta_from_capture lay base cap base_counts result_counts reused base_tokens result_tokens
     base_sha integrity result_sha =
     bindE (encode_page_delta_from_capture_shared lay base cap base_counts result_counts reused base_tokens
       result_tokens base_sha False integrity result_sha) (\<lambda>(delta, _). Inr delta)"

definition encode_page_delta_from_capture_with_result ::
    "page_layout \<Rightarrow> snapshot_bytes \<Rightarrow> captured \<Rightarrow> int list \<Rightarrow> int list \<Rightarrow> int list \<Rightarrow> int \<Rightarrow> int
      \<Rightarrow> string option \<Rightarrow> string \<Rightarrow> string option \<Rightarrow> exn + string \<times> string" where
  "encode_page_delta_from_capture_with_result lay base cap base_counts result_counts reused base_tokens result_tokens
     base_sha integrity result_sha =
     bindE (encode_page_delta_from_capture_shared lay base cap base_counts result_counts reused base_tokens
       result_tokens base_sha True integrity result_sha) (\<lambda>(delta, result).
     case result of None \<Rightarrow> Inl (AssertionError ''result'') | Some r \<Rightarrow> Inr (delta, r))"

definition page_delta_header_prefix :: "string \<Rightarrow> exn + string" where
  "page_delta_header_prefix encoded =
     bindE (header_end ''hybrid page delta'' DELTA_MAGIC encoded) (\<lambda>hend. Inr (take hend encoded))"

definition materialize_page_extension_capture ::
    "page_layout \<Rightarrow> string \<Rightarrow> captured \<Rightarrow> int list \<Rightarrow> int list \<Rightarrow> int list \<Rightarrow> exn + string" where
  "materialize_page_extension_capture lay base cap base_counts result_counts reused =
     bindE (captured_counts lay base_counts result_counts reused) (\<lambda>_.
     if captured_bytes cap \<le> 0 then Inl (HybridCodecError ''captured page extension payload is invalid'')
     else
       bindE (decode_page_snapshot lay base base_counts) (\<lambda>base_payloads.
       let slots = capture_slots lay reused result_counts in
       bindE (capture_tails cap slots 0) (\<lambda>(tails, cursor).
       if cursor \<noteq> captured_bytes cap then Inl (HybridCodecError ''captured page extension has trailing bytes'')
       else
         encode_page_snapshot lay result_counts
           (map2 (\<lambda>(l, k, pages) t.
              (pl_name l, take (nat (k * pl_page l)) (payload_of base_payloads (pl_name l)) @ snd t)) slots tails))))"

section \<open>Applying a delta\<close>

text \<open>The parts of the result: for every layer the kept prefix of the base and the tail, each tail checked
  before it is used.\<close>

fun delta_parts :: "string \<Rightarrow> string \<Rightarrow> (delta_tail \<times> page_span) list \<Rightarrow> exn + string list" where
  "delta_parts base encoded [] = Inr []"
| "delta_parts base encoded ((t, sp) # rest) =
     (let tail = py_slice encoded (dt_start t) (dt_end t) in
      if Some (sha256 tail) \<noteq> dt_sha256 t then Inl (HybridCodecError ''hybrid page delta payload checksum mismatch'')
      else
        bindE (delta_parts base encoded rest) (\<lambda>parts.
        Inr (py_slice base (sp_start sp) (sp_start sp + dt_offset t) # tail # parts)))"

definition apply_verified_page_delta ::
    "page_layout \<Rightarrow> verified_snapshot \<Rightarrow> string \<Rightarrow> int list \<Rightarrow> int list \<Rightarrow> int \<Rightarrow> int \<Rightarrow> exn + verified_snapshot" where
  "apply_verified_page_delta lay base encoded base_counts result_counts base_tokens result_tokens =
     bindE (plan_page_delta lay encoded base_counts result_counts base_tokens result_tokens
       (Some (int (length encoded)))) (\<lambda>plan.
     if dl_base_sha256 plan \<noteq> vs_sha256 base
     then Inl (HybridCodecError ''hybrid page delta identity or base differs'')
     else
       bindE (plan_page_snapshot lay (vs_payload base) (dl_base_counts plan) None) (\<lambda>base_plan.
       bindE (encode_page_snapshot_header lay (dl_result_counts plan)) (\<lambda>header.
       if length (dl_tails plan) \<noteq> length (sn_spans base_plan) then Inl (ValueError ''zip'')
       else
         bindE (delta_parts (vs_payload base) encoded (zip (dl_tails plan) (sn_spans base_plan))) (\<lambda>parts.
         let result = header @ concat parts in
         bindE (page_snapshot_encoded_size lay (dl_result_counts plan)) (\<lambda>n.
         if int (length result) \<noteq> n then Inl (HybridCodecError ''hybrid page delta result size differs'')
         else if sha256 result \<noteq> dl_result_sha256 plan
         then Inl (HybridCodecError ''hybrid page delta result checksum mismatch'')
         else Inr \<lparr>vs_payload = result, vs_sha256 = sha256 result\<rparr>)))))"

definition apply_page_delta ::
    "page_layout \<Rightarrow> string \<Rightarrow> string \<Rightarrow> int list \<Rightarrow> int list \<Rightarrow> int \<Rightarrow> int \<Rightarrow> exn + string" where
  "apply_page_delta lay base encoded base_counts result_counts base_tokens result_tokens =
     bindE (apply_verified_page_delta lay (verify_page_snapshot_bytes (Plain base)) encoded base_counts result_counts
       base_tokens result_tokens) (\<lambda>v. Inr (vs_payload v))"

section \<open>Reconstructing a history stage by stage\<close>

record page_history =
  ph_layout :: page_layout
  ph_counts :: "int list"
  ph_boundary :: int
  ph_sha256 :: string
  ph_valid :: bool
  ph_header :: string
  ph_layers :: "string list"

definition new_page_history :: "page_layout \<Rightarrow> string \<Rightarrow> int list \<Rightarrow> int \<Rightarrow> exn + page_history" where
  "new_page_history lay snapshot counts boundary =
     bindE (plan_page_snapshot lay snapshot counts None) (\<lambda>plan.
     Inr \<lparr>ph_layout = lay, ph_counts = sn_counts plan, ph_boundary = boundary, ph_sha256 = sha256 snapshot,
       ph_valid = True, ph_header = py_slice snapshot 0 (sn_header plan),
       ph_layers = map (\<lambda>sp. py_slice snapshot (sp_start sp) (sp_end sp)) (sn_spans plan)\<rparr>)"

text \<open>Overwriting a layer buffer from an offset on, and growing it: the tail of a plan is at least as long
  as what it overwrites.\<close>

definition overwrite :: "string \<Rightarrow> string \<Rightarrow> delta_tail \<Rightarrow> string" where
  "overwrite encoded buffer t =
     (let existing = int (length buffer) - dt_offset t in
      take (nat (dt_offset t)) buffer @ py_slice encoded (dt_start t) (dt_start t + existing)
      @ py_slice encoded (dt_start t + existing) (dt_end t))"

text \<open>One stage. The history is invalid while it is being changed and stays so when a check fails.\<close>

definition history_apply ::
    "string \<Rightarrow> int list \<Rightarrow> int list \<Rightarrow> int \<Rightarrow> int \<Rightarrow> page_history \<Rightarrow> (unit, page_history) outcome" where
  "history_apply encoded base_counts result_counts base_tokens result_tokens h =
     (if \<not> ph_valid h then raises (HybridCodecError ''hybrid page history has an unverified stage'') h
      else
        (let h = h\<lparr>ph_valid := False\<rparr> in
         if base_counts \<noteq> ph_counts h \<or> base_tokens \<noteq> ph_boundary h
         then raises (HybridCodecError ''hybrid page history boundary differs'') h
         else
           (case plan_page_delta (ph_layout h) encoded base_counts result_counts base_tokens result_tokens None of
              Inl e \<Rightarrow> raises e h
            | Inr plan \<Rightarrow>
                if dl_base_sha256 plan \<noteq> ph_sha256 h
                then raises (HybridCodecError ''hybrid page delta identity or base differs'') h
                else if \<exists>t\<in>set (dl_tails plan). Some (sha256 (py_slice encoded (dt_start t) (dt_end t))) \<noteq> dt_sha256 t
                then raises (HybridCodecError ''hybrid page delta payload checksum mismatch'') h
                else if length (ph_layers h) \<noteq> length (dl_tails plan) then raises (ValueError ''zip'') h
                else
                  (let h = h\<lparr>ph_layers := map2 (overwrite encoded) (ph_layers h) (dl_tails plan)\<rparr> in
                   case bindE (encode_page_snapshot_header (ph_layout h) (dl_result_counts plan)) (\<lambda>header.
                     bindE (page_snapshot_encoded_size (ph_layout h) (dl_result_counts plan)) (\<lambda>n. Inr (header, n))) of
                     Inl e \<Rightarrow> raises e h
                   | Inr (header, n) \<Rightarrow>
                       (let result_sha = sha256 (header @ concat (ph_layers h)) in
                        if int (length header) + sum_list (map (int \<circ> length) (ph_layers h)) \<noteq> n
                        then raises (HybridCodecError ''hybrid page delta result size differs'') h
                        else if result_sha \<noteq> dl_result_sha256 plan
                        then raises (HybridCodecError ''hybrid page delta result checksum mismatch'') h
                        else returns () (h\<lparr>ph_header := header, ph_counts := dl_result_counts plan,
                          ph_boundary := result_tokens, ph_sha256 := result_sha, ph_valid := True\<rparr>))))))"

definition history_finish :: "page_history \<Rightarrow> exn + string" where
  "history_finish h =
     (if \<not> ph_valid h then Inl (HybridCodecError ''hybrid page history has an unverified stage'')
      else Inr (ph_header h @ concat (ph_layers h)))"

section \<open>Composing a history\<close>

text \<open>The bytes of a layer by who wrote them last: from, to, the stage (none: the base snapshot) and where
  the bytes start in their source.\<close>

type_synonym owned_range = "int \<times> int \<times> nat option \<times> int"

fun kept_ranges :: "int \<Rightarrow> owned_range list \<Rightarrow> owned_range list" where
  "kept_ranges cutoff [] = []"
| "kept_ranges cutoff ((a, e, owner, source) # rs) =
     (if a \<ge> cutoff then [] else (a, min e cutoff, owner, source) # kept_ranges cutoff rs)"

definition covered_to :: "owned_range list \<Rightarrow> int" where
  "covered_to rs = (if rs = [] then 0 else fst (snd (last rs)))"

definition stack_tail :: "nat \<Rightarrow> delta_tail \<times> owned_range list \<Rightarrow> exn + owned_range list" where
  "stack_tail stage = (\<lambda>(t, rs).
     let cutoff = dt_offset t; kept = kept_ranges cutoff rs; n = dt_end t - dt_start t in
     if covered_to kept \<noteq> cutoff then Inl (HybridCodecError ''hybrid page delta prefix coverage differs'')
     else Inr (kept @ (if n \<noteq> 0 then [(cutoff, cutoff + n, Some stage, 0)] else [])))"

text \<open>The loop over the stages: counts and digest reached so far, and the ranges of every layer.\<close>

fun stack_stages ::
    "nat \<Rightarrow> delta_plan list \<Rightarrow> int list \<times> string \<times> owned_range list list
      \<Rightarrow> exn + int list \<times> string \<times> owned_range list list" where
  "stack_stages stage [] state = Inr state"
| "stack_stages stage (p # ps) (counts, sha, ranges) =
     (if dl_base_counts p \<noteq> counts \<or> dl_base_sha256 p \<noteq> sha \<or> length (dl_tails p) \<noteq> length ranges
      then Inl (HybridCodecError ''hybrid page delta identity or base differs'')
      else
        bindE (mapE (stack_tail stage) (zip (dl_tails p) ranges)) (\<lambda>ranges.
        stack_stages (stage + 1) ps (dl_result_counts p, dl_result_sha256 p, ranges)))"

text \<open>Filling one layer of the result from its ranges.\<close>

fun fill_ranges ::
    "string \<Rightarrow> delta_plan list \<Rightarrow> (nat \<Rightarrow> delta_tail \<Rightarrow> exn + string) \<Rightarrow> nat \<Rightarrow> int \<Rightarrow> owned_range list \<Rightarrow> exn + string \<times> int" where
  "fill_ranges base plans read_tail layer covered [] = Inr ([], covered)"
| "fill_ranges base plans read_tail layer covered ((a, e, owner, source) # rs) =
     (if a \<noteq> covered then Inl (HybridCodecError ''hybrid page history coverage has a gap'')
      else
        bindE
          (case owner of
             None \<Rightarrow> Inr (py_slice base source (source + e - a))
           | Some stage \<Rightarrow>
               (let p = plans ! stage; t = dl_tails p ! layer in
                bindE (read_tail stage t) (\<lambda>payload.
                bindE (if int (length payload) \<noteq> dt_end t - dt_start t then Inr False
                       else payload_matches (dl_integrity p) payload (dt_sha256 t) (dt_crc32 t)) (\<lambda>good.
                if \<not> good then Inl (PageDeltaPayloadChecksum ''hybrid page delta payload checksum mismatch'')
                else Inr (take (nat (e - a)) payload))))) (\<lambda>piece.
        bindE (fill_ranges base plans read_tail layer e rs) (\<lambda>(rest, stop). Inr (piece @ rest, stop))))"

definition fill_layer ::
    "string \<Rightarrow> delta_plan list \<Rightarrow> (nat \<Rightarrow> delta_tail \<Rightarrow> exn + string) \<Rightarrow> nat \<times> page_span \<times> owned_range list \<Rightarrow> exn + string" where
  "fill_layer base plans read_tail = (\<lambda>(layer, sp, rs).
     bindE (fill_ranges base plans read_tail layer 0 rs) (\<lambda>(bytes, covered).
     if covered \<noteq> sp_end sp - sp_start sp then Inl (HybridCodecError ''hybrid page history coverage differs'')
     else Inr bytes))"

definition compose_page_history ::
    "page_layout \<Rightarrow> snapshot_bytes \<Rightarrow> int list \<Rightarrow> delta_plan list \<Rightarrow> (nat \<Rightarrow> delta_tail \<Rightarrow> exn + string)
      \<Rightarrow> exn + verified_snapshot" where
  "compose_page_history lay base_snapshot base_counts plans read_tail =
     (if plans = [] then Inl (HybridCodecError ''page history contains no delta'')
      else
        (let base = verify_page_snapshot_bytes base_snapshot in
         bindE (plan_page_snapshot lay (vs_payload base) base_counts None) (\<lambda>base_plan.
         bindE (stack_stages 0 plans (sn_counts base_plan, vs_sha256 base,
           map (\<lambda>sp. [(0, sp_end sp - sp_start sp, None, sp_start sp)]) (sn_spans base_plan))) (\<lambda>(counts, sha, ranges).
         bindE (encode_page_snapshot_header lay counts) (\<lambda>header.
         bindE (page_snapshot_encoded_size lay counts) (\<lambda>n.
         bindE (plan_page_snapshot lay header counts (Some n)) (\<lambda>result_plan.
         if length (sn_spans result_plan) \<noteq> length ranges then Inl (ValueError ''zip'')
         else
           bindE (mapE (fill_layer (vs_payload base) plans read_tail)
             (zip [0..<length ranges] (zip (sn_spans result_plan) ranges))) (\<lambda>layers.
           let result = header @ concat layers in
           if dl_integrity (last plans) = ''sha256'' \<and> sha256 result \<noteq> sha
           then Inl (HybridCodecError ''hybrid page delta result checksum mismatch'')
           else Inr \<lparr>vs_payload = result, vs_sha256 = sha\<rparr>))))))))"

section \<open>Parts\<close>

fun parts_from :: "string \<Rightarrow> int \<Rightarrow> int list \<Rightarrow> string list" where
  "parts_from encoded offset [] = []"
| "parts_from encoded offset (n # ns) = py_slice encoded offset (offset + n) # parts_from encoded (offset + n) ns"

definition split_snapshot :: "string \<Rightarrow> int \<Rightarrow> exn + string list" where
  "split_snapshot encoded part_count =
     (if part_count \<le> 0 \<or> int (length encoded) < part_count
      then Inl (HybridCodecError ''hybrid snapshot cannot cover the declared span'')
      else
        (let width = int (length encoded) div part_count; remainder = int (length encoded) mod part_count in
         Inr (parts_from encoded 0
           (map (\<lambda>j. width + (if int j < remainder then 1 else 0)) [0..<nat part_count]))))"

end
