(* ===== verification/Page_Codec_Laws.thy ===== *)
theory Page_Codec_Laws
  imports Page_Delta
begin

text \<open>
  What the page codec guarantees for one file: a snapshot decodes to the payloads it was encoded from,
  and the plan of a written snapshot or delta gives exactly the extents of its layers.
\<close>

section \<open>Layouts\<close>

definition good_layout :: "page_layout \<Rightarrow> bool" where
  "good_layout lay \<longleftrightarrow> PageLayout (lay_groups lay) = Inr lay
     \<and> (\<forall>g\<in>set (lay_groups lay). PageGroup (pg_block_size g) (pg_layers g) (pg_policy g) (pg_window g) = Inr g)
     \<and> (\<forall>l\<in>set (layout_layers lay). PageLayer (pl_name l) (pl_dtype l) (pl_shape l) (pl_page l) = Inr l)"

lemma PageLayer_page: "PageLayer name dtype shape n = Inr l \<Longrightarrow> 0 < n"
  by (simp add: PageLayer_def split: if_splits)

lemma good_layout_facts:
  assumes "good_layout lay"
  shows "lay_groups lay \<noteq> []" "distinct (map pl_name (layout_layers lay))" "\<forall>l\<in>set (layout_layers lay). 0 < pl_page l"
proof -
  show "lay_groups lay \<noteq> []" "distinct (map pl_name (layout_layers lay))"
    using assms by (auto simp: good_layout_def PageLayout_def Let_def layout_layers_def split: if_splits)
  show "\<forall>l\<in>set (layout_layers lay). 0 < pl_page l" using assms PageLayer_page unfolding good_layout_def by blast
qed

text \<open>The nested loop as a recursion.\<close>

fun slots_from :: "nat \<Rightarrow> page_group list \<Rightarrow> int list \<Rightarrow> (nat \<times> page_layer \<times> int) list" where
  "slots_from gi (g # gs) (c # cs) = map (\<lambda>l. (gi, l, c)) (pg_layers g) @ slots_from (gi + 1) gs cs"
| "slots_from gi gs cs = []"

lemma slots_from_zip:
  "concat (map (\<lambda>(gi, g, c). map (\<lambda>l. (gi, l, c)) (pg_layers g)) (zip [gi..<gi + length gs] (zip gs cs))) = slots_from gi gs cs"
proof (induction gi gs cs rule: slots_from.induct)
  case (1 gi g gs c cs)
  have "[gi..<gi + length (g # gs)] = gi # [gi + 1..<gi + 1 + length gs]"
    by (subst upt_conv_Cons) simp_all
  then show ?case using 1 by simp
qed auto

lemma layer_counts_slots: "layer_counts lay counts = slots_from 0 (lay_groups lay) counts"
  using slots_from_zip [of 0 "lay_groups lay" counts] by (simp add: layer_counts_def)

lemma slots_layers: "length cs = length gs \<Longrightarrow> map (fst \<circ> snd) (slots_from gi gs cs) = concat (map pg_layers gs)"
  by (induction gi gs cs rule: slots_from.induct) (auto simp: comp_def)

lemma slots_set: "(gj, l, c) \<in> set (slots_from gi gs cs) \<Longrightarrow> c \<in> set cs \<and> l \<in> set (concat (map pg_layers gs))"
  by (induction gi gs cs rule: slots_from.induct) auto

lemma layer_counts_layers:
  "length counts = length (lay_groups lay) \<Longrightarrow> map (\<lambda>(gi, l, c). pl_name l) (layer_counts lay counts) = map pl_name (layout_layers lay)"
  "length counts = length (lay_groups lay) \<Longrightarrow> map (fst \<circ> snd) (layer_counts lay counts) = layout_layers lay"
proof -
  assume h: "length counts = length (lay_groups lay)"
  show l: "map (fst \<circ> snd) (layer_counts lay counts) = layout_layers lay"
    using slots_layers [OF h, of 0] by (simp add: layer_counts_slots layout_layers_def)
  show "map (\<lambda>(gi, l, c). pl_name l) (layer_counts lay counts) = map pl_name (layout_layers lay)"
    unfolding l [symmetric] by (auto simp: comp_def)
qed

lemma length_layer_counts [simp]:
  "length counts = length (lay_groups lay) \<Longrightarrow> length (layer_counts lay counts) = length (layout_layers lay)"
  using layer_counts_layers(2) by (metis length_map)

lemma slot_bytes_simp [simp]: "slot_bytes (gi, l, c) = c * pl_page l"
  by (simp add: slot_bytes_def)

definition payload_bytes :: "page_layout \<Rightarrow> int list \<Rightarrow> int" where
  "payload_bytes lay counts = sum_list (map slot_bytes (layer_counts lay counts))"

lemma slot_bytes_nonneg:
  assumes "good_layout lay" "\<forall>c\<in>set counts. 0 \<le> c" "x \<in> set (layer_counts lay counts)"
  shows "0 \<le> slot_bytes x"
proof -
  obtain gi l c where x: "x = (gi, l, c)" by (cases x)
  then have "c \<in> set counts" "l \<in> set (layout_layers lay)"
    using slots_set assms(3) by (auto simp: layer_counts_slots layout_layers_def)
  then show ?thesis using assms(1,2) good_layout_facts(3) by (auto simp: x less_imp_le)
qed

section \<open>Headers\<close>

lemma length_framed: "framed magic v = Inr h \<Longrightarrow> length h = length magic + 4 + length (canonical_json v)"
  by (auto simp: framed_def Let_def split: if_splits)

lemma header_framed:
  assumes "framed magic v = Inr h" "length magic = 6" "writable v"
  shows "header_end what magic (h @ rest) = Inr (length h)"
    "json_loads (drop HEADER_PREFIX h) = Some (sorted_json v)"
proof -
  have h: "h = magic @ little_endian 4 (length (canonical_json v)) @ canonical_json v" "length (canonical_json v) < 2 ^ 32"
    using assms(1) by (auto simp: framed_def Let_def split: if_splits)
  have ne: "canonical_json v \<noteq> []"
  proof
    assume "canonical_json v = []"
    then show False using json_loads_canonical [OF assms(3)] by (simp add: json_loads_def skip_def)
  qed
  have n: "of_little_endian (take 4 (drop 6 (h @ rest))) = length (canonical_json v)"
    using h assms(2) of_little_endian [of "length (canonical_json v)" 4] by simp
  have "take 6 (h @ rest) = magic" using h assms(2) by simp
  then show "header_end what magic (h @ rest) = Inr (length h)"
    using h n ne assms(2) by (simp add: header_end_def HEADER_PREFIX_def Let_def)
  have "drop HEADER_PREFIX h = canonical_json v" using h assms(2) by (simp add: HEADER_PREFIX_def)
  then show "json_loads (drop HEADER_PREFIX h) = Some (sorted_json v)" using json_loads_canonical [OF assms(3)] by simp
qed

lemma magic_length [simp]: "length PAGE_MAGIC = 6" "length DELTA_MAGIC = 6"
  by (simp_all add: PAGE_MAGIC_def DELTA_MAGIC_def)

lemma writable_ints [simp]: "writable_list (map JInt ns)"
  by (induction ns) auto

lemma sorted_ints [simp]: "sorted_list (map JInt ns) = map JInt ns"
  by (induction ns) auto

lemma snapshot_header_Inr:
  assumes "encode_page_snapshot_header lay counts = Inr h"
  shows "length counts = length (lay_groups lay)" "\<forall>c\<in>set counts. 0 < c"
    "header_end what PAGE_MAGIC (h @ rest) = Inr (length h)"
    "json_loads (drop HEADER_PREFIX h) = Some (JObj [(''block_counts'', JList (map JInt counts)),
       (''layout_sha256'', JStr (layout_digest lay)), (''schema'', JStr ''sparkcache-hybrid-pages/v1'')])"
    "HEADER_PREFIX \<le> length h"
proof -
  let ?v = "JObj [(''schema'', JStr ''sparkcache-hybrid-pages/v1''),
             (''layout_sha256'', JStr (layout_digest lay)), (''block_counts'', JList (map JInt counts))]"
  have f: "framed PAGE_MAGIC ?v = Inr h" "length counts = length (lay_groups lay)" "\<forall>c\<in>set counts. 0 < c"
    using assms by (auto simp: encode_page_snapshot_header_def split: if_splits)
  have w: "writable ?v" by simp
  show "length counts = length (lay_groups lay)" "\<forall>c\<in>set counts. 0 < c" by fact+
  show "header_end what PAGE_MAGIC (h @ rest) = Inr (length h)" by (rule header_framed(1) [OF f(1) _ w]) simp
  show "json_loads (drop HEADER_PREFIX h) = Some (JObj [(''block_counts'', JList (map JInt counts)),
       (''layout_sha256'', JStr (layout_digest lay)), (''schema'', JStr ''sparkcache-hybrid-pages/v1'')])"
    using header_framed(2) [OF f(1) _ w] by simp
  show "HEADER_PREFIX \<le> length h" using length_framed [OF f(1)] by (simp add: HEADER_PREFIX_def)
qed

section \<open>Extents\<close>

fun spans_from :: "int \<Rightarrow> (nat \<times> page_layer \<times> int) list \<Rightarrow> page_span list" where
  "spans_from offset [] = []"
| "spans_from offset ((gi, l, c) # slots) =
     \<lparr>sp_layer = pl_name l, sp_group = gi, sp_start = offset, sp_end = offset + c * pl_page l, sp_pages = c, sp_page = pl_page l\<rparr>
     # spans_from (offset + c * pl_page l) slots"

lemma page_spans_sound:
  "page_spans limit offset slots = Inr (spans, stop) \<Longrightarrow>
    spans = spans_from offset slots \<and> stop = offset + sum_list (map slot_bytes slots)"
  by (induction limit offset slots arbitrary: spans stop rule: page_spans.induct)
     (auto simp: Let_def bindE_Inr split: if_splits)

lemma page_spans_ok:
  "\<forall>x\<in>set slots. 0 \<le> slot_bytes x \<Longrightarrow> offset + sum_list (map slot_bytes slots) \<le> limit \<Longrightarrow>
    page_spans limit offset slots = Inr (spans_from offset slots, offset + sum_list (map slot_bytes slots))"
proof (induction limit offset slots rule: page_spans.induct)
  case (2 limit offset gi l c slots)
  have "0 \<le> sum_list (map slot_bytes slots)" using "2.prems"(1) by (intro sum_list_nonneg) auto
  then have "\<not> offset + c * pl_page l > limit" using "2.prems"(2) by simp
  then show ?case using 2 by (simp add: Let_def add.assoc)
qed simp

lemma length_spans_from [simp]: "length (spans_from offset slots) = length slots"
  by (induction offset slots rule: spans_from.induct) auto

lemma span_names: "map sp_layer (spans_from offset slots) = map (\<lambda>(gi, l, c). pl_name l) slots"
  by (induction offset slots rule: spans_from.induct) auto

text \<open>What a successful plan says, and the plan of a written snapshot.\<close>

lemma plan_sound:
  assumes "plan_page_snapshot lay view counts limit = Inr p"
  shows "sn_counts p = counts" "length counts = length (lay_groups lay)" "\<forall>c\<in>set counts. 0 < c"
    "sn_spans p = spans_from (sn_header p) (layer_counts lay counts)"
    "sn_total p = sn_header p + payload_bytes lay counts" "0 \<le> sn_header p" "sn_header p \<le> int (length view)"
    "sn_total p = (case limit of None \<Rightarrow> int (length view) | Some n \<Rightarrow> n)"
proof -
  define n where "n = (case limit of None \<Rightarrow> int (length view) | Some n \<Rightarrow> n)"
  obtain hend spans stop where p: "header_end ''hybrid page snapshot'' PAGE_MAGIC view = Inr hend"
    "\<not> (\<exists>c\<in>set counts. c \<le> 0)" "length counts = length (lay_groups lay)"
    "page_spans n (int hend) (layer_counts lay counts) = Inr (spans, stop)" "stop = n"
    "p = \<lparr>sn_header = int hend, sn_total = n, sn_counts = counts, sn_spans = spans\<rparr>"
    using assms unfolding plan_page_snapshot_def Let_def n_def [symmetric] success_iff the_Some
    by (elim exE conjE) (auto split: prod.splits if_splits)
  have "hend \<le> length view" using p(1) by (auto simp: header_end_def Let_def split: if_splits)
  then show "sn_header p \<le> int (length view)" by (simp add: p(6))
  show "sn_counts p = counts" "length counts = length (lay_groups lay)" "0 \<le> sn_header p"
    "sn_total p = (case limit of None \<Rightarrow> int (length view) | Some n \<Rightarrow> n)" using p by (simp_all add: n_def)
  show "\<forall>c\<in>set counts. 0 < c" using p(2) by auto
  show "sn_spans p = spans_from (sn_header p) (layer_counts lay counts)"
    "sn_total p = sn_header p + payload_bytes lay counts"
    using page_spans_sound [OF p(4)] by (simp_all add: p(5,6) payload_bytes_def)
qed

lemma plan_written:
  assumes "good_layout lay" "encode_page_snapshot_header lay counts = Inr h"
    "(case limit of None \<Rightarrow> int (length (h @ rest)) | Some n \<Rightarrow> n) = int (length h) + payload_bytes lay counts"
    "int (length (h @ rest)) \<le> int (length h) + payload_bytes lay counts"
  shows "plan_page_snapshot lay (h @ rest) counts limit = Inr \<lparr>sn_header = int (length h),
    sn_total = int (length h) + payload_bytes lay counts, sn_counts = counts,
    sn_spans = spans_from (int (length h)) (layer_counts lay counts)\<rparr>"
proof -
  note h = snapshot_header_Inr [OF assms(2)]
  have same: "same_counts (map JInt counts) counts" by (simp add: same_counts_def list_all2_conv_all_nth)
  have pos: "\<not> (\<exists>c\<in>set counts. c \<le> 0)" "\<forall>c\<in>set counts. 0 \<le> c" using h(2) by auto
  have nn: "\<forall>x\<in>set (layer_counts lay counts). 0 \<le> slot_bytes x" using slot_bytes_nonneg [OF assms(1) pos(2)] by blast
  have "0 \<le> payload_bytes lay counts" unfolding payload_bytes_def using nn by (intro sum_list_nonneg) auto
  then show ?thesis
    using assms(3,4) h(1,3,4) pos(1) same page_spans_ok [OF nn order_refl, of "int (length h)"]
    by (simp add: plan_page_snapshot_def payload_bytes_def [symmetric])
qed

lemma cut_concat:
  assumes "map (\<lambda>b. int (length b)) bs = map slot_bytes slots" "offset = int (length pre)"
  shows "map (\<lambda>sp. py_slice (pre @ concat bs) (sp_start sp) (sp_end sp)) (spans_from offset slots) = bs"
  using assms
proof (induction offset slots arbitrary: pre bs rule: spans_from.induct)
  case (2 offset gi l c slots)
  obtain b bs' where b: "bs = b # bs'" "int (length b) = c * pl_page l" "map (\<lambda>b. int (length b)) bs' = map slot_bytes slots"
    using "2.prems"(1) by (cases bs) auto
  have "map (\<lambda>sp. py_slice ((pre @ b) @ concat bs') (sp_start sp) (sp_end sp)) (spans_from (offset + c * pl_page l) slots) = bs'"
    by (rule "2.IH" [OF b(3)]) (simp add: "2.prems"(2) b(2))
  moreover have "py_slice (pre @ b @ concat bs') offset (offset + c * pl_page l) = b"
    using b(2) by (subst py_slice_inside) (auto simp: "2.prems"(2) b(2) [symmetric])
  ultimately show ?case by (simp add: b(1))
qed simp

text \<open>A snapshot in the form the encoder gives it: header and layers.\<close>

definition snapshot_of :: "page_layout \<Rightarrow> int list \<Rightarrow> string list \<Rightarrow> string \<Rightarrow> bool" where
  "snapshot_of lay counts bs s \<longleftrightarrow> map (\<lambda>b. int (length b)) bs = map slot_bytes (layer_counts lay counts)
     \<and> (\<exists>h. encode_page_snapshot_header lay counts = Inr h \<and> s = h @ concat bs)"

lemma sum_lengths: "map (\<lambda>b. int (length b)) bs = map f slots \<Longrightarrow> int (length (concat bs)) = sum_list (map f slots)"
proof (induction bs arbitrary: slots)
  case (Cons b bs)
  then obtain x slots' where "slots = x # slots'" "int (length b) = f x" "map (\<lambda>b. int (length b)) bs = map f slots'"
    by (cases slots) auto
  then show ?case using Cons.IH by simp
qed simp

lemma plan_snapshot_of:
  assumes "good_layout lay" "snapshot_of lay counts bs s"
  shows "\<exists>p. plan_page_snapshot lay s counts None = Inr p
    \<and> map (\<lambda>sp. py_slice s (sp_start sp) (sp_end sp)) (sn_spans p) = bs
    \<and> map sp_layer (sn_spans p) = map pl_name (layout_layers lay) \<and> length (sn_spans p) = length (layout_layers lay)"
proof -
  obtain h where h: "encode_page_snapshot_header lay counts = Inr h" "s = h @ concat bs"
    "map (\<lambda>b. int (length b)) bs = map slot_bytes (layer_counts lay counts)"
    using assms(2) by (auto simp: snapshot_of_def)
  have len: "int (length (concat bs)) = payload_bytes lay counts" using sum_lengths [OF h(3)] by (simp add: payload_bytes_def)
  note n = snapshot_header_Inr(1) [OF h(1)]
  show ?thesis
    using plan_written [OF assms(1) h(1), where limit = None and rest = "concat bs"] len cut_concat [OF h(3), of "int (length h)" h] n
    by (simp add: h(2) span_names layer_counts_layers)
qed

lemma decode_snapshot_of:
  assumes "good_layout lay" "snapshot_of lay counts bs s"
  shows "decode_page_snapshot lay s counts = Inr (zip (map pl_name (layout_layers lay)) bs)"
proof -
  obtain p where p: "plan_page_snapshot lay s counts None = Inr p"
    "map (\<lambda>sp. py_slice s (sp_start sp) (sp_end sp)) (sn_spans p) = bs"
    "map sp_layer (sn_spans p) = map pl_name (layout_layers lay)"
    using plan_snapshot_of [OF assms] by blast
  have "map (\<lambda>sp. (sp_layer sp, py_slice s (sp_start sp) (sp_end sp))) (sn_spans p)
      = zip (map sp_layer (sn_spans p)) (map (\<lambda>sp. py_slice s (sp_start sp) (sp_end sp)) (sn_spans p))"
    by (simp add: zip_map_map zip_same_conv_map)
  then show ?thesis using p by (simp add: decode_page_snapshot_def)
qed

lemma encode_snapshot_of:
  assumes "encode_page_snapshot lay counts ps = Inr s"
  shows "snapshot_of lay counts (map (payload_of ps \<circ> pl_name) (layout_layers lay)) s" "set (dkeys ps) = pl_name ` set (layout_layers lay)"
proof -
  obtain h where h: "length counts = length (lay_groups lay)" "set (dkeys ps) = pl_name ` set (layout_layers lay)"
    "\<forall>x\<in>set (layer_counts lay counts). int (length (payload_of ps (pl_name (fst (snd x))))) = slot_bytes x"
    "encode_page_snapshot_header lay counts = Inr h"
    "s = h @ concat (map (\<lambda>(gi, l, c). payload_of ps (pl_name l)) (layer_counts lay counts))"
    using assms by (auto simp: encode_page_snapshot_def bindE_Inr split: if_splits)
  have eq: "map (\<lambda>(gi, l, c). payload_of ps (pl_name l)) (layer_counts lay counts) = map (payload_of ps \<circ> pl_name) (layout_layers lay)"
    by (simp add: layer_counts_layers(2) [OF h(1), symmetric] comp_def case_prod_beta)
  have "map (\<lambda>b. int (length b)) (map (\<lambda>(gi, l, c). payload_of ps (pl_name l)) (layer_counts lay counts))
      = map slot_bytes (layer_counts lay counts)"
    using h(3) by (auto simp: case_prod_beta)
  then show "snapshot_of lay counts (map (payload_of ps \<circ> pl_name) (layout_layers lay)) s"
    using h(4,5) by (simp add: snapshot_of_def eq)
  show "set (dkeys ps) = pl_name ` set (layout_layers lay)" by (rule h(2))
qed

lemma payload_of_zip:
  "distinct names \<Longrightarrow> length bs = length names \<Longrightarrow> map (payload_of (zip names bs)) names = bs"
proof (induction names arbitrary: bs)
  case (Cons n names)
  obtain b bs' where b: "bs = b # bs'" "length bs' = length names" using Cons.prems(2) by (cases bs) auto
  have "map (payload_of (zip names bs')) names = bs'" using Cons b by simp
  moreover have "payload_of ((n, b) # zip names bs') m = payload_of (zip names bs') m" if "m \<in> set names" for m
    using that Cons.prems(1) by (auto simp: payload_of_def)
  ultimately show ?case by (simp add: b(1) payload_of_def cong: map_cong)
qed simp


section \<open>Plans of written deltas\<close>

text \<open>The extents of the tails, from the slots with the reused pages and the bytes of each tail.\<close>

fun tails_from :: "string \<Rightarrow> int \<Rightarrow> ((nat \<times> page_layer \<times> int) \<times> string) list \<Rightarrow> delta_tail list" where
  "tails_from integrity offset [] = []"
| "tails_from integrity offset (((gi, l, k), b) # slots) =
     \<lparr>dt_layer = pl_name l, dt_group = gi, dt_start = offset, dt_end = offset + int (length b), dt_offset = k * pl_page l,
      dt_sha256 = (if integrity = ''sha256'' then Some (sha256 b) else None),
      dt_crc32 = (if integrity = ''fast'' then Some (crc32 b) else None)\<rparr>
     # tails_from integrity (offset + int (length b)) slots"

lemma tails_from_append:
  "tails_from integrity offset (xs @ ys)
    = tails_from integrity offset xs @ tails_from integrity (offset + int (length (concat (map snd xs)))) ys"
  by (induction integrity offset xs rule: tails_from.induct) (simp_all add: add.assoc)

lemma length_tails_from [simp]: "length (tails_from integrity offset xs) = length xs"
  by (induction integrity offset xs rule: tails_from.induct) auto

lemma checked_tail_written:
  assumes "integrity \<in> set PAYLOAD_INTEGRITY_MODES" "int (length b) = n"
  shows "checked_tail integrity l n (sorted_json (tail_descriptor integrity (pl_name l, b)))
    = Some (if integrity = ''sha256'' then Some (sha256 b) else None, if integrity = ''fast'' then Some (crc32 b) else None)"
proof -
  have crc: "int_where (\<lambda>n. 0 \<le> n \<and> n \<le> 0xFFFFFFFF) (JInt (crc32 b))"
    using crc32_range [of b] by (simp add: int_where_def)
  consider "integrity = ''sha256''" | "integrity = ''fast''" | "integrity = ''none''"
    using assms(1) by (auto simp: PAYLOAD_INTEGRITY_MODES_def)
  then show ?thesis
    by cases (simp_all add: checked_tail_def tail_descriptor_def assms(2) crc sha256_digest insert_commute)
qed

text \<open>The tails of one group, then of all: \<open>bs\<close> holds the bytes of the tails in order.\<close>

lemma layer_tails_written:
  assumes "integrity \<in> set PAYLOAD_INTEGRITY_MODES"
  shows "list_all2 (\<lambda>l b. int (length b) = (pages - k) * pl_page l) ls bs \<Longrightarrow> \<forall>l\<in>set ls. 0 \<le> (pages - k) * pl_page l \<Longrightarrow>
    offset + int (length (concat bs)) \<le> limit \<Longrightarrow>
    layer_tails integrity limit gi pages k ls
      (map (\<lambda>(l, b). sorted_json (tail_descriptor integrity (pl_name l, b))) (zip ls bs) @ rest) offset
    = Inr (tails_from integrity offset (zip (map (\<lambda>l. (gi, l, k)) ls) bs), rest, offset + int (length (concat bs)))"
proof (induction ls arbitrary: bs offset)
  case (Cons l ls)
  then obtain b bs' where b: "bs = b # bs'" "int (length b) = (pages - k) * pl_page l"
    "list_all2 (\<lambda>l b. int (length b) = (pages - k) * pl_page l) ls bs'"
    by (auto simp: list_all2_Cons1)
  have le: "(offset + int (length b)) + int (length (concat bs')) \<le> limit" using Cons.prems(3) by (simp add: b(1))
  have nn: "\<forall>l\<in>set ls. 0 \<le> (pages - k) * pl_page l" using Cons.prems(2) by simp
  note IH = Cons.IH [OF b(3) nn le]
  have "\<not> offset + (pages - k) * pl_page l > limit" using le b(2) by simp
  then show ?case
    using IH checked_tail_written [OF assms b(2), of l] b(2) by (simp add: b(1) Let_def add.assoc)
qed simp

fun group_slots :: "nat \<Rightarrow> page_group list \<Rightarrow> int list \<Rightarrow> int list \<Rightarrow> (nat \<times> page_layer \<times> int \<times> int) list" where
  "group_slots gi (g # gs) (k # ks) (r # rs) = map (\<lambda>l. (gi, l, k, r)) (pg_layers g) @ group_slots (gi + 1) gs ks rs"
| "group_slots gi gs ks rs = []"

lemma group_slots_layers:
  "length ks = length gs \<Longrightarrow> length rs = length gs \<Longrightarrow>
    map (\<lambda>(gi, l, k, r). (gi, l, k)) (group_slots gi gs ks rs) = slots_from gi gs ks
    \<and> map (\<lambda>(gi, l, k, r). (gi, l, r)) (group_slots gi gs ks rs) = slots_from gi gs rs"
  by (induction gi gs ks rs rule: group_slots.induct) (auto simp: comp_def)

definition tail_bytes :: "nat \<times> page_layer \<times> int \<times> int \<Rightarrow> int" where
  "tail_bytes = (\<lambda>(gi, l, k, r). (r - k) * pl_page l)"

lemma group_tails_written:
  assumes mode: "integrity \<in> set PAYLOAD_INTEGRITY_MODES"
  shows "length bcs = length gs \<Longrightarrow> length ks = length gs \<Longrightarrow> length rs = length gs \<Longrightarrow>
    \<forall>(b, k)\<in>set (zip bcs ks). 0 \<le> k \<and> k \<le> b \<Longrightarrow>
    map (\<lambda>b. int (length b)) bs = map tail_bytes (group_slots gi gs ks rs) \<Longrightarrow>
    offset + int (length (concat bs)) \<le> limit \<Longrightarrow>
    group_tails integrity limit gi (zip gs (zip bcs (zip rs (map JInt ks))))
      (map (\<lambda>(l, b). sorted_json (tail_descriptor integrity (pl_name l, b))) (zip (concat (map pg_layers gs)) bs)) offset
    = Inr (tails_from integrity offset (zip (slots_from gi gs ks) bs), offset + int (length (concat bs)))"
proof (induction gs arbitrary: gi bcs ks rs bs offset)
  case (Cons g gs)
  obtain c bcs' k ks' r rs' where l: "bcs = c # bcs'" "ks = k # ks'" "rs = r # rs'"
    using Cons.prems(1-3) by (cases bcs; cases ks; cases rs) auto
  let ?n = "length (pg_layers g)"
  define b1 where "b1 = take ?n bs"
  define b2 where "b2 = drop ?n bs"
  have bs: "bs = b1 @ b2" by (simp add: b1_def b2_def)
  have m: "map (\<lambda>b. int (length b)) b1 = map (\<lambda>l. (r - k) * pl_page l) (pg_layers g)"
    "map (\<lambda>b. int (length b)) b2 = map tail_bytes (group_slots (gi + 1) gs ks' rs')"
  proof -
    have "map (\<lambda>b. int (length b)) bs = map (\<lambda>l. (r - k) * pl_page l) (pg_layers g) @ map tail_bytes (group_slots (gi + 1) gs ks' rs')"
      using Cons.prems(5) by (simp add: l tail_bytes_def comp_def)
    then show "map (\<lambda>b. int (length b)) b1 = map (\<lambda>l. (r - k) * pl_page l) (pg_layers g)"
      "map (\<lambda>b. int (length b)) b2 = map tail_bytes (group_slots (gi + 1) gs ks' rs')"
      by (simp_all add: b1_def b2_def take_map [symmetric] drop_map [symmetric])
  qed
  have len: "length b1 = ?n" using arg_cong [OF m(1), of length] by simp
  have two: "list_all2 (\<lambda>l b. int (length b) = (r - k) * pl_page l) (pg_layers g) b1"
    using m(1) len by (auto simp: list_all2_conv_all_nth list_eq_iff_nth_eq)
  have nn: "\<forall>l\<in>set (pg_layers g). 0 \<le> (r - k) * pl_page l"
  proof
    fix l assume "l \<in> set (pg_layers g)"
    then have "(r - k) * pl_page l \<in> set (map (\<lambda>b. int (length b)) b1)" unfolding m(1) by (auto intro: imageI)
    then show "0 \<le> (r - k) * pl_page l" by auto
  qed
  have le: "offset + int (length (concat b1)) \<le> limit" "(offset + int (length (concat b1))) + int (length (concat b2)) \<le> limit"
    using Cons.prems(6) by (simp_all add: bs)
  have k: "0 \<le> k" "k \<le> c" "\<forall>(b, k)\<in>set (zip bcs' ks'). 0 \<le> k \<and> k \<le> b" using Cons.prems(4) by (auto simp: l)
  have lens: "length bcs' = length gs" "length ks' = length gs" "length rs' = length gs" using Cons.prems(1-3) by (auto simp: l)
  note IH = Cons.IH [OF lens k(3) m(2) le(2)]
  note one = layer_tails_written [OF mode two nn le(1), of gi]
  have "zip (pg_layers g @ concat (map pg_layers gs)) (b1 @ b2) = zip (pg_layers g) b1 @ zip (concat (map pg_layers gs)) b2"
    by (rule zip_append) (simp add: len)
  then show ?case
    using IH one k(1,2) by (simp add: l bs len tails_from_append add.assoc)
qed simp


lemma exact_ints_written [simp]: "exact_ints (JList (map JInt ns)) = Some ns"
  by (auto simp: exact_ints_def comp_def)

lemma writable_delta_header: "writable (delta_header integrity lay bs rs bc rc bt rt reused tails)"
proof -
  have "writable (tail_descriptor integrity t)" for t by (cases t) (simp add: tail_descriptor_def)
  then show ?thesis by (auto simp: delta_header_def writable_list_iff)
qed

text \<open>Everything the plan of a written delta rests on.\<close>

definition delta_written ::
    "string \<Rightarrow> page_layout \<Rightarrow> string \<Rightarrow> string \<Rightarrow> int list \<Rightarrow> int list \<Rightarrow> int \<Rightarrow> int \<Rightarrow> int list \<Rightarrow> (string \<times> string) list \<Rightarrow> string \<Rightarrow> bool" where
  "delta_written integrity lay base_sha result_sha bc rc bt rt reused tails h \<longleftrightarrow>
     integrity \<in> set PAYLOAD_INTEGRITY_MODES
     \<and> framed DELTA_MAGIC (delta_header integrity lay base_sha result_sha bc rc bt rt reused tails) = Inr h
     \<and> 0 < bt \<and> bt < rt \<and> extends_counts lay bc rc \<and> length reused = length (lay_groups lay)
     \<and> (\<forall>(b, k)\<in>set (zip bc reused). 0 \<le> k \<and> k \<le> b)
     \<and> map fst tails = map pl_name (layout_layers lay)
     \<and> map (\<lambda>t. int (length (snd t))) tails = map tail_bytes (group_slots 0 (lay_groups lay) reused rc)
     \<and> is_sha256 base_sha \<and> is_sha256 result_sha"

lemma delta_header_fields:
  fixes integrity lay bs rs bc rc bt rt reused tails
  defines "d \<equiv> the (the_obj (delta_header integrity lay bs rs bc rc bt rt reused tails))"
  shows "delta_header integrity lay bs rs bc rc bt rt reused tails = JObj d"
    "jget d ''layout_sha256'' = JStr (layout_digest lay)" "jget d ''base_snapshot_sha256'' = JStr bs"
    "jget d ''result_snapshot_sha256'' = JStr rs" "jget d ''base_block_counts'' = JList (map JInt bc)"
    "jget d ''result_block_counts'' = JList (map JInt rc)" "jget d ''base_boundary_tokens'' = JInt bt"
    "jget d ''result_boundary_tokens'' = JInt rt" "jget d ''reused_pages_by_group'' = JList (map JInt reused)"
    "jget d ''layer_tails'' = JList (map (tail_descriptor integrity) tails)"
    "jget d ''schema'' = JStr (if integrity = ''sha256'' then DELTA_SCHEMA_V1 else DELTA_SCHEMA_V2)"
    "integrity \<noteq> ''sha256'' \<Longrightarrow> jget d ''integrity'' = JStr integrity"
    "set (dkeys d) = set (DELTA_HEADER_KEYS @ (if integrity = ''sha256'' then [] else [''integrity'']))"
proof -
  show "delta_header integrity lay bs rs bc rc bt rt reused tails = JObj d"
    by (simp add: d_def delta_header_def)
  have d: "d = (if integrity = ''sha256'' then [(''schema'', JStr DELTA_SCHEMA_V1)]
       else [(''schema'', JStr DELTA_SCHEMA_V2), (''integrity'', JStr integrity)])
      @ [(''layout_sha256'', JStr (layout_digest lay)), (''base_snapshot_sha256'', JStr bs),
         (''result_snapshot_sha256'', JStr rs), (''base_block_counts'', JList (map JInt bc)),
         (''result_block_counts'', JList (map JInt rc)), (''base_boundary_tokens'', JInt bt),
         (''result_boundary_tokens'', JInt rt), (''reused_pages_by_group'', JList (map JInt reused)),
         (''layer_tails'', JList (map (tail_descriptor integrity) tails))]"
    by (simp only: d_def delta_header_def the_obj.simps option.sel)
  show "jget d ''layout_sha256'' = JStr (layout_digest lay)" "jget d ''base_snapshot_sha256'' = JStr bs"
    "jget d ''result_snapshot_sha256'' = JStr rs" "jget d ''base_block_counts'' = JList (map JInt bc)"
    "jget d ''result_block_counts'' = JList (map JInt rc)" "jget d ''base_boundary_tokens'' = JInt bt"
    "jget d ''result_boundary_tokens'' = JInt rt" "jget d ''reused_pages_by_group'' = JList (map JInt reused)"
    "jget d ''layer_tails'' = JList (map (tail_descriptor integrity) tails)"
    "jget d ''schema'' = JStr (if integrity = ''sha256'' then DELTA_SCHEMA_V1 else DELTA_SCHEMA_V2)"
    unfolding d by (cases "integrity = ''sha256''"; simp)+
  show "integrity \<noteq> ''sha256'' \<Longrightarrow> jget d ''integrity'' = JStr integrity" unfolding d by simp
  show "set (dkeys d) = set (DELTA_HEADER_KEYS @ (if integrity = ''sha256'' then [] else [''integrity'']))"
    unfolding d by (cases "integrity = ''sha256''") (auto simp: DELTA_HEADER_KEYS_def)
qed

lemma plan_delta_written:
  assumes "delta_written integrity lay base_sha result_sha bc rc bt rt reused tails h"
    and "(case limit of None \<Rightarrow> int (length (h @ rest)) | Some n \<Rightarrow> n) = int (length h) + int (length (concat (map snd tails)))"
    and "int (length rest) \<le> int (length (concat (map snd tails)))"
  shows "plan_page_delta lay (h @ rest) bc rc bt rt limit = Inr \<lparr>dl_header = int (length h),
    dl_total = int (length h) + int (length (concat (map snd tails))), dl_base_counts = bc, dl_result_counts = rc,
    dl_base_tokens = bt, dl_result_tokens = rt, dl_base_sha256 = base_sha, dl_result_sha256 = result_sha, dl_reused = reused,
    dl_tails = tails_from integrity (int (length h)) (zip (layer_counts lay reused) (map snd tails)), dl_integrity = integrity\<rparr>"
proof -
  note w = assms(1) [unfolded delta_written_def]
  let ?D = "delta_header integrity lay base_sha result_sha bc rc bt rt reused tails"
  define d where "d = the (the_obj ?D)"
  note f0 = delta_header_fields [of integrity lay base_sha result_sha bc rc bt rt reused tails, folded d_def]
  note d = f0(1) and f = f0(2-12) and ks = f0(13)
  have fr: "framed DELTA_MAGIC (JObj d) = Inr h" using w d by simp
  have wr: "writable (JObj d)" using writable_delta_header d by metis
  note hd = header_framed [OF fr magic_length(2) wr]
  have load: "json_loads (drop HEADER_PREFIX h) = Some (JObj (read_dict d))" using hd(2) by (simp only: sorted_JObj)
  note get = jget_read_dict [of d]
  have v2: "(jget (read_dict d) ''schema'' = JStr DELTA_SCHEMA_V2) \<longleftrightarrow> integrity \<noteq> ''sha256''"
    by (simp add: get f(10) DELTA_SCHEMA_V1_def DELTA_SCHEMA_V2_def)
  have mode: "integrity = ''sha256'' \<or> integrity = ''fast'' \<or> integrity = ''none''"
    using w by (auto simp: PAYLOAD_INTEGRITY_MODES_def)
  have tails: "the_list (jget (read_dict d) ''layer_tails'')
      = Some (map (\<lambda>(l, b). sorted_json (tail_descriptor integrity (pl_name l, b))) (zip (layout_layers lay) (map snd tails)))"
  proof -
    have "map (\<lambda>t. sorted_json (tail_descriptor integrity t)) tails
        = map (\<lambda>(l, b). sorted_json (tail_descriptor integrity (pl_name l, b))) (zip (layout_layers lay) (map snd tails))"
    proof -
      have "tails = zip (map pl_name (layout_layers lay)) (map snd tails)" using w by (metis zip_map_fst_snd)
      then have "map (\<lambda>t. sorted_json (tail_descriptor integrity t)) tails
          = map (\<lambda>t. sorted_json (tail_descriptor integrity t)) (zip (map pl_name (layout_layers lay)) (map snd tails))" by simp
      then show ?thesis by (simp add: zip_map1 case_prod_beta comp_def)
    qed
    then show ?thesis by (simp add: get f(9) sorted_list_map comp_def)
  qed
  have lt: "length tails = length (layout_layers lay)" using w by (metis length_map)
  have gt: "group_tails integrity (int (length h) + int (length (concat (map snd tails)))) 0
      (zip (lay_groups lay) (zip bc (zip rc (map JInt reused))))
      (map (\<lambda>(l, b). sorted_json (tail_descriptor integrity (pl_name l, b))) (zip (layout_layers lay) (map snd tails))) (int (length h))
    = Inr (tails_from integrity (int (length h)) (zip (layer_counts lay reused) (map snd tails)),
        int (length h) + int (length (concat (map snd tails))))"
    unfolding layout_layers_def layer_counts_slots
    by (rule group_tails_written) (use w in \<open>simp_all add: extends_counts_def comp_def\<close>)
  have keys: "set (dkeys (read_dict d)) = set (DELTA_HEADER_KEYS @ (if integrity \<noteq> ''sha256'' then [''integrity''] else []))"
    unfolding keys_read_dict ks by simp
  define n where "n = int (length h) + int (length (concat (map snd tails)))"
  have lim: "(case limit of None \<Rightarrow> int (length (h @ rest)) | Some n \<Rightarrow> n) = n" "int (length h) \<le> n" "int (length (h @ rest)) \<le> n"
    using assms(2,3) by (simp_all add: n_def)
  have int1: "the (if integrity \<noteq> ''sha256'' then the_str (jget (read_dict d) ''integrity'') else Some ''sha256'') = integrity"
    by (simp add: get f(11))
  have g: "jget (read_dict d) ''layout_sha256'' = JStr (layout_digest lay)" "jget (read_dict d) ''base_snapshot_sha256'' = JStr base_sha"
    "jget (read_dict d) ''result_snapshot_sha256'' = JStr result_sha" "jget (read_dict d) ''base_block_counts'' = JList (map JInt bc)"
    "jget (read_dict d) ''result_block_counts'' = JList (map JInt rc)" "jget (read_dict d) ''base_boundary_tokens'' = JInt bt"
    "jget (read_dict d) ''result_boundary_tokens'' = JInt rt" "jget (read_dict d) ''reused_pages_by_group'' = JList (map JInt reused)"
    "jget (read_dict d) ''schema'' \<in> {JStr DELTA_SCHEMA_V1, JStr DELTA_SCHEMA_V2}"
    "integrity \<noteq> ''sha256'' \<Longrightarrow> jget (read_dict d) ''integrity'' = JStr integrity"
    by (simp_all add: get f)
  have ok: "extends_counts lay bc rc" "is_sha256 base_sha" "is_sha256 result_sha" "0 < bt" "bt < rt" "length reused = length (lay_groups lay)"
    using w by simp_all
  have load': "json_loads (drop HEADER_PREFIX (take (length h) (h @ rest))) = Some (JObj (read_dict d))" using load by simp
  have lens: "length (zip (layout_layers lay) (map snd tails)) = length (layout_layers lay)" using lt by simp
  have vi: "(if integrity \<noteq> ''sha256'' then the_str (jget (read_dict d) ''integrity'') else Some ''sha256'') = Some integrity"
    using g(10) by simp
  have v1: "(jget (read_dict d) ''schema'' = JStr DELTA_SCHEMA_V1) \<longleftrightarrow> integrity = ''sha256''"
    by (simp add: get f(10) DELTA_SCHEMA_V1_def DELTA_SCHEMA_V2_def)
  have c: "(integrity \<noteq> ''sha256'' \<and> Some integrity \<noteq> Some ''fast'' \<and> Some integrity \<noteq> Some ''none'') = False"
    "(0 < bt \<and> bt < rt) = True" using mode ok by auto
  show ?thesis
    by (simp only: plan_page_delta_def validate_delta_boundaries_def hd(1) Let_def load' c require_simps bindE_simps option.case
      the_obj.simps v2 vi if_False if_True keys g(1-8) exact_ints_written the_int.simps prod.case simp_thms ok tails the_list.simps
      length_map lens lim gt [folded n_def] option.sel int1 is_digest.simps the_str.simps)
      (use g(9) lim in \<open>simp add: n_def comp_def\<close>)
qed

end
