(* ===== verification/Page_Delta_Laws.thy ===== *)
theory Page_Delta_Laws
  imports Page_Codec_Laws
begin

text \<open>
  What page deltas guarantee: applying the delta between two snapshots to the first gives the second,
  byte for byte, and the delta made from a capture of the changed pages is the delta between the
  snapshots.
\<close>

section \<open>Applying what was encoded\<close>

lemma delta_parts_ok:
  assumes "length ts = length sps" "\<forall>t\<in>set ts. dt_sha256 t = Some (sha256 (py_slice encoded (dt_start t) (dt_end t)))"
  shows "delta_parts base encoded (zip ts sps) = Inr (concat (map2 (\<lambda>t sp.
    [py_slice base (sp_start sp) (sp_start sp + dt_offset t), py_slice encoded (dt_start t) (dt_end t)]) ts sps))"
  using assms by (induction ts sps rule: list_induct2) (auto simp: Let_def)

text \<open>The bytes the tails of a written delta stand for.\<close>

lemma tails_slices:
  assumes "offset = int (length pre)"
  shows "map (\<lambda>t. py_slice (pre @ concat (map snd slots)) (dt_start t) (dt_end t)) (tails_from integrity offset slots) = map snd slots"
  using assms
proof (induction integrity offset slots arbitrary: pre rule: tails_from.induct)
  case (2 integrity offset gi l k b slots)
  have "map (\<lambda>t. py_slice ((pre @ b) @ concat (map snd slots)) (dt_start t) (dt_end t)) (tails_from integrity (offset + int (length b)) slots)
      = map snd slots" by (rule "2.IH") (simp add: "2.prems")
  moreover have "py_slice (pre @ b @ concat (map snd slots)) offset (offset + int (length b)) = b"
    by (subst py_slice_inside) (auto simp: "2.prems")
  ultimately show ?case by simp
qed simp

lemma tails_digests:
  assumes "t \<in> set (tails_from integrity offset slots)" "integrity = ''sha256''" "offset = int (length pre)"
  shows "dt_sha256 t = Some (sha256 (py_slice (pre @ concat (map snd slots)) (dt_start t) (dt_end t)))"
  using assms
proof (induction integrity offset slots arbitrary: pre rule: tails_from.induct)
  case (2 integrity offset gi l k b slots)
  have "py_slice (pre @ b @ concat (map snd slots)) offset (offset + int (length b)) = b"
    by (subst py_slice_inside) (auto simp: "2.prems")
  then show ?case using "2.prems" "2.IH" [of "pre @ b"] by auto
qed simp

text \<open>Patching one layer, and a list of layers, by the tails of a delta.\<close>

definition patched :: "string \<Rightarrow> (nat \<times> page_layer \<times> int) \<times> string \<Rightarrow> string" where
  "patched base = (\<lambda>((gi, l, k), tail). take (nat (k * pl_page l)) base @ tail)"

definition slot_fits :: "nat \<times> page_layer \<times> int \<Rightarrow> nat \<times> page_layer \<times> int \<Rightarrow> bool" where
  "slot_fits = (\<lambda>(gi, l, c) (gj, l', k). gj = gi \<and> l' = l \<and> 0 < pl_page l \<and> 0 \<le> k \<and> k \<le> c)"

lemma slots_fit:
  "length cs = length gs \<Longrightarrow> length ks = length gs \<Longrightarrow> \<forall>(c, k)\<in>set (zip cs ks). 0 \<le> k \<and> k \<le> c \<Longrightarrow>
    \<forall>l\<in>set (concat (map pg_layers gs)). 0 < pl_page l \<Longrightarrow> list_all2 slot_fits (slots_from gi gs cs) (slots_from gi gs ks)"
proof (induction gs arbitrary: gi cs ks)
  case (Cons g gs)
  then obtain c cs' k ks' where l: "cs = c # cs'" "ks = k # ks'" by (cases cs; cases ks) auto
  have "list_all2 slot_fits (map (\<lambda>l. (gi, l, c)) (pg_layers g)) (map (\<lambda>l. (gi, l, k)) (pg_layers g))"
    using Cons.prems(3,4) by (auto simp: l list_all2_conv_all_nth slot_fits_def)
  then show ?case using Cons.IH [of cs' ks' "gi + 1"] Cons.prems by (simp add: l list_all2_appendI)
qed simp

lemma kept_prefixes:
  assumes "list_all2 slot_fits slots reused" "map (\<lambda>b. int (length b)) bs = map slot_bytes slots" "offset = int (length pre)"
  shows "map2 (\<lambda>(gi, l, k) sp. py_slice (pre @ concat bs) (sp_start sp) (sp_start sp + k * pl_page l)) reused (spans_from offset slots)
    = map2 (\<lambda>b (gi, l, k). take (nat (k * pl_page l)) b) bs reused"
  using assms
proof (induction slots reused arbitrary: bs offset pre rule: list_all2_induct)
  case (Cons x slots y reused)
  obtain gi l c k where xy: "x = (gi, l, c)" "y = (gi, l, k)" "0 < pl_page l" "0 \<le> k" "k \<le> c"
    using Cons.hyps(1) by (auto simp: slot_fits_def)
  obtain b bs' where b: "bs = b # bs'" "int (length b) = c * pl_page l" "map (\<lambda>b. int (length b)) bs' = map slot_bytes slots"
    using Cons.prems(1) xy by (cases bs) auto
  have "offset + c * pl_page l = int (length (pre @ b))" using Cons.prems(2) b(2) by simp
  note IH = Cons.IH [OF b(3) this]
  have "k * pl_page l \<le> int (length b)" using xy b(2) by (simp add: mult_right_mono)
  then have "py_slice (pre @ b @ concat bs') offset (offset + k * pl_page l) = take (nat (k * pl_page l)) b"
    using xy by (subst py_slice_inside) (auto simp: Cons.prems(2))
  then show ?case using IH by (simp add: xy b(1))
qed simp

lemma tail_offsets:
  "length tails = length reused \<Longrightarrow>
    map2 (\<lambda>t sp. f sp (dt_offset t)) (tails_from integrity toff (zip reused tails)) sps = map2 (\<lambda>(gi, l, k) sp. f sp (k * pl_page l)) reused sps"
proof (induction reused arbitrary: tails toff sps)
  case (Cons y reused)
  obtain t tails' where t: "tails = t # tails'" "length tails' = length reused" using Cons.prems by (cases tails) auto
  show ?case using Cons.IH [OF t(2)] by (cases y; cases sps) (auto simp: t(1))
qed simp

lemma prefix_slices:
  assumes "list_all2 slot_fits slots reused" "map (\<lambda>b. int (length b)) bs = map slot_bytes slots"
    "length tails = length reused" "offset = int (length pre)"
  shows "map2 (\<lambda>t sp. py_slice (pre @ concat bs) (sp_start sp) (sp_start sp + dt_offset t))
      (tails_from integrity toff (zip reused tails)) (spans_from offset slots)
    = map2 (\<lambda>b (gi, l, k). take (nat (k * pl_page l)) b) bs reused"
  by (rule trans [OF tail_offsets [OF assms(3), of "\<lambda>sp n. py_slice (pre @ concat bs) (sp_start sp) (sp_start sp + n)"] kept_prefixes [OF assms(1,2,4)]])

text \<open>A snapshot that its plan accepts, however its header is written: a header and the layers.\<close>

definition laid_out :: "page_layout \<Rightarrow> int list \<Rightarrow> string \<Rightarrow> string list \<Rightarrow> string \<Rightarrow> bool" where
  "laid_out lay counts pre bs s \<longleftrightarrow> map (\<lambda>b. int (length b)) bs = map slot_bytes (layer_counts lay counts)
     \<and> length counts = length (lay_groups lay) \<and> s = pre @ concat bs
     \<and> plan_page_snapshot lay s counts None = Inr \<lparr>sn_header = int (length pre), sn_total = int (length s),
         sn_counts = counts, sn_spans = spans_from (int (length pre)) (layer_counts lay counts)\<rparr>"

lemma plan_whole: "plan_page_snapshot lay s counts (Some (int (length s))) = plan_page_snapshot lay s counts None"
  by (simp only: plan_page_snapshot_def option.case)

lemma laid_out_plan:
  "laid_out lay counts pre bs s \<Longrightarrow> plan_page_snapshot lay s counts None = Inr \<lparr>sn_header = int (length pre), sn_total = int (length s),
    sn_counts = counts, sn_spans = spans_from (int (length pre)) (layer_counts lay counts)\<rparr>"
  unfolding laid_out_def by blast

lemma cut_exists:
  "\<forall>n\<in>set ns. 0 \<le> n \<Longrightarrow> int (length s) = sum_list ns \<Longrightarrow> \<exists>bs. map (\<lambda>b. int (length b)) bs = ns \<and> concat bs = s"
proof (induction ns arbitrary: s)
  case (Cons n ns)
  have nn: "0 \<le> sum_list ns" using Cons.prems(1) by (intro sum_list_nonneg) auto
  have n: "0 \<le> n" "n \<le> int (length s)" using Cons.prems nn by auto
  then have "int (length (drop (nat n) s)) = sum_list ns" using Cons.prems(2) by simp
  moreover have "\<forall>n\<in>set ns. 0 \<le> n" using Cons.prems(1) by simp
  ultimately obtain bs where "map (\<lambda>b. int (length b)) bs = ns" "concat bs = drop (nat n) s" using Cons.IH by blast
  then show ?case using n by (intro exI [of _ "take (nat n) s # bs"]) simp
qed simp

lemma plan_laid_out:
  assumes "good_layout lay" "plan_page_snapshot lay s counts None = Inr p"
  shows "\<exists>pre bs. laid_out lay counts pre bs s \<and> int (length pre) = sn_header p"
proof -
  note p = plan_sound [OF assms(2)]
  have pos: "\<forall>c\<in>set counts. 0 \<le> c" using p(3) by auto
  let ?pre = "take (nat (sn_header p)) s"
  have len: "int (length ?pre) = sn_header p" using p(6,7) by simp
  have "int (length (drop (nat (sn_header p)) s)) = payload_bytes lay counts" using p(5-8) by simp
  then have "\<exists>bs. map (\<lambda>b. int (length b)) bs = map slot_bytes (layer_counts lay counts) \<and> concat bs = drop (nat (sn_header p)) s"
    using slot_bytes_nonneg [OF assms(1) pos] by (intro cut_exists) (auto simp: payload_bytes_def)
  then obtain bs where bs: "map (\<lambda>b. int (length b)) bs = map slot_bytes (layer_counts lay counts)" "concat bs = drop (nat (sn_header p)) s"
    by blast
  have "s = ?pre @ concat bs" by (simp add: bs(2))
  moreover have "p = \<lparr>sn_header = int (length ?pre), sn_total = int (length s), sn_counts = counts,
      sn_spans = spans_from (int (length ?pre)) (layer_counts lay counts)\<rparr>"
    using p(1,4,8) unfolding len by (cases p) simp
  ultimately have "laid_out lay counts ?pre bs s" using bs(1) p(2) assms(2) unfolding laid_out_def by metis
  then show ?thesis using len by blast
qed

lemma decode_laid_out:
  assumes "laid_out lay counts pre bs s"
  shows "decode_page_snapshot lay s counts = Inr (zip (map pl_name (layout_layers lay)) bs)" "length bs = length (layout_layers lay)"
proof -
  have l: "map (\<lambda>b. int (length b)) bs = map slot_bytes (layer_counts lay counts)" "length counts = length (lay_groups lay)"
    "s = pre @ concat bs" using assms by (simp_all add: laid_out_def)
  have plan: "plan_page_snapshot lay s counts None = Inr \<lparr>sn_header = int (length pre), sn_total = int (length s),
      sn_counts = counts, sn_spans = spans_from (int (length pre)) (layer_counts lay counts)\<rparr>"
    using assms unfolding laid_out_def by blast
  let ?sps = "spans_from (int (length pre)) (layer_counts lay counts)"
  have cuts: "map (\<lambda>sp. py_slice s (sp_start sp) (sp_end sp)) ?sps = bs" using cut_concat [OF l(1) refl, of pre] l(3) by simp
  have "map (\<lambda>sp. (sp_layer sp, py_slice s (sp_start sp) (sp_end sp))) ?sps
      = zip (map sp_layer ?sps) (map (\<lambda>sp. py_slice s (sp_start sp) (sp_end sp)) ?sps)"
    by (simp add: zip_map_map zip_same_conv_map)
  then show "decode_page_snapshot lay s counts = Inr (zip (map pl_name (layout_layers lay)) bs)"
    by (simp add: decode_page_snapshot_def plan cuts span_names layer_counts_layers l(2))
  have "length bs = length (layer_counts lay counts)" using arg_cong [OF l(1), of length] by simp
  then show "length bs = length (layout_layers lay)" using l by simp
qed

text \<open>Applying the delta whose tails were written puts, layer by layer, the tail after the kept prefix.\<close>

lemma apply_written:
  assumes "good_layout lay" "delta_written ''sha256'' lay base_sha result_sha bc rc bt rt reused tails h"
    and "laid_out lay bc hb bs base" "snapshot_of lay rc (map2 (\<lambda>(gi, l, k) (b, t). take (nat (k * pl_page l)) b @ t)
      (layer_counts lay reused) (zip bs (map snd tails))) result"
    and "result_sha = sha256 result"
  shows "apply_verified_page_delta lay \<lparr>vs_payload = base, vs_sha256 = base_sha\<rparr> (h @ concat (map snd tails)) bc rc bt rt
    = Inr \<lparr>vs_payload = result, vs_sha256 = sha256 result\<rparr>"
proof -
  note w = assms(2) [unfolded delta_written_def]
  let ?enc = "h @ concat (map snd tails)" and ?slots = "layer_counts lay reused"
  let ?ts = "tails_from ''sha256'' (int (length h)) (zip ?slots (map snd tails))"
  have hb: "base = hb @ concat bs" "map (\<lambda>b. int (length b)) bs = map slot_bytes (layer_counts lay bc)"
    using assms(3) by (auto simp: laid_out_def)
  let ?parts = "map2 (\<lambda>(gi, l, k) (b, t). take (nat (k * pl_page l)) b @ t) ?slots (zip bs (map snd tails))"
  obtain hr where hr: "encode_page_snapshot_header lay rc = Inr hr" "result = hr @ concat ?parts"
    "map (\<lambda>b. int (length b)) ?parts = map slot_bytes (layer_counts lay rc)"
    using assms(4) by (auto simp: snapshot_of_def)
  have plan: "plan_page_delta lay ?enc bc rc bt rt (Some (int (length ?enc))) = Inr \<lparr>dl_header = int (length h),
    dl_total = int (length h) + int (length (concat (map snd tails))), dl_base_counts = bc, dl_result_counts = rc,
    dl_base_tokens = bt, dl_result_tokens = rt, dl_base_sha256 = base_sha, dl_result_sha256 = result_sha, dl_reused = reused,
    dl_tails = ?ts, dl_integrity = ''sha256''\<rparr>"
    by (rule plan_delta_written [OF assms(2)]) simp_all
  have len: "length bc = length (lay_groups lay)" "length reused = length (lay_groups lay)" using w by (auto simp: extends_counts_def)
  have lt: "length tails = length (layout_layers lay)" using w by (metis length_map)
  have lb: "length bs = length (layout_layers lay)" using arg_cong [OF hb(2), of length] len by simp
  have bplan: "plan_page_snapshot lay base bc None = Inr \<lparr>sn_header = int (length hb), sn_total = int (length base),
    sn_counts = bc, sn_spans = spans_from (int (length hb)) (layer_counts lay bc)\<rparr>"
    using assms(3) unfolding laid_out_def by blast
  let ?sps = "spans_from (int (length hb)) (layer_counts lay bc)"
  have lts: "length ?ts = length ?sps" using len lt by simp
  have slices: "map (\<lambda>t. py_slice ?enc (dt_start t) (dt_end t)) ?ts = map snd tails"
    using tails_slices [of "int (length h)" h "zip ?slots (map snd tails)" "''sha256''"] len lt by simp
  have digests: "\<forall>t\<in>set ?ts. dt_sha256 t = Some (sha256 (py_slice ?enc (dt_start t) (dt_end t)))"
    using tails_digests [of _ "''sha256''" "int (length h)" "zip ?slots (map snd tails)" h] len lt by simp
  have fit: "list_all2 slot_fits (layer_counts lay bc) ?slots"
    unfolding layer_counts_slots
    by (rule slots_fit) (use w len good_layout_facts(3) [OF assms(1)] in \<open>auto simp: layout_layers_def\<close>)
  have pre: "map2 (\<lambda>t sp. py_slice base (sp_start sp) (sp_start sp + dt_offset t)) ?ts ?sps
      = map2 (\<lambda>b (gi, l, k). take (nat (k * pl_page l)) b) bs ?slots"
    unfolding hb(1) by (rule prefix_slices [OF fit hb(2)]) (use len lt in simp_all)
  have zipped: "concat (concat (map2 (\<lambda>t sp. [f t sp, g t]) ts sps)) = concat (map2 (\<lambda>p b. p @ b) (map2 f ts sps) (map g ts))"
    if "length ts = length sps" for f g and ts :: "delta_tail list" and sps :: "page_span list"
    using that by (induction ts sps rule: list_induct2) auto
  have body: "concat (concat (map2 (\<lambda>t sp. [py_slice base (sp_start sp) (sp_start sp + dt_offset t), py_slice ?enc (dt_start t) (dt_end t)]) ?ts ?sps))
      = concat ?parts"
  proof -
    have "map2 (\<lambda>p b. p @ b) (map2 (\<lambda>b (gi, l, k). take (nat (k * pl_page l)) b) xs zs) ys
        = map2 (\<lambda>(gi, l, k) (b, t). take (nat (k * pl_page l)) b @ t) zs (zip xs ys)"
      if "length xs = length zs" "length ys = length zs" for xs :: "string list" and ys and zs :: "(nat \<times> page_layer \<times> int) list"
      using that by (auto simp: list_eq_iff_nth_eq case_prod_beta)
    then show ?thesis unfolding zipped [OF lts] slices pre using lb lt len by simp
  qed
  have psize: "page_snapshot_encoded_size lay rc = Inr (int (length result))"
    using hr(1) sum_lengths [OF hr(3)] by (simp add: page_snapshot_encoded_size_def hr(2))
  have result: "hr @ concat (concat (map2 (\<lambda>t sp. [py_slice base (sp_start sp) (sp_start sp + dt_offset t),
      py_slice ?enc (dt_start t) (dt_end t)]) ?ts ?sps)) = result" unfolding body hr(2) ..
  show ?thesis
    by (simp only: apply_verified_page_delta_def plan bindE_simps delta_plan.simps verified_snapshot.simps bplan snapshot_plan.simps
        hr(1) lts simp_thms if_False if_True delta_parts_ok [OF lts digests] Let_def result psize assms(5))
qed


section \<open>A delta between two snapshots\<close>

lemma slots_nth:
  "j < length (concat (map pg_layers gs)) \<Longrightarrow> \<exists>g<length gs. concat (map pg_layers gs) ! j \<in> set (pg_layers (gs ! g))
    \<and> (\<forall>gi ks. length ks = length gs \<longrightarrow> slots_from gi gs ks ! j = (gi + g, concat (map pg_layers gs) ! j, ks ! g))"
proof (induction gs arbitrary: j)
  case (Cons g gs)
  show ?case
  proof (cases "j < length (pg_layers g)")
    case True
    have "slots_from gi (g # gs) ks ! j = (gi + 0, (pg_layers g) ! j, ks ! 0)" if "length ks = length (g # gs)" for gi ks
      using that True by (cases ks) (auto simp: nth_append)
    then show ?thesis using True by (intro exI [of _ 0]) (auto simp: nth_append)
  next
    case False
    then have "j - length (pg_layers g) < length (concat (map pg_layers gs))" using Cons.prems by simp
    from Cons.IH [OF this] obtain x where x: "x < length gs"
      "concat (map pg_layers gs) ! (j - length (pg_layers g)) \<in> set (pg_layers (gs ! x))"
      "\<And>gi ks. length ks = length gs \<Longrightarrow> slots_from gi gs ks ! (j - length (pg_layers g))
        = (gi + x, concat (map pg_layers gs) ! (j - length (pg_layers g)), ks ! x)"
      by blast
    have "slots_from gi (g # gs) ks ! j = (gi + Suc x, concat (map pg_layers (g # gs)) ! j, ks ! Suc x)"
      if h: "length ks = length (g # gs)" for gi ks
    proof -
      obtain k ks' where ks: "ks = k # ks'" "length ks' = length gs" using h by (cases ks) auto
      show ?thesis using False x(3) [OF ks(2), of "gi + 1"] by (simp add: ks(1) nth_append)
    qed
    then show ?thesis using x(1,2) False by (intro exI [of _ "Suc x"]) (auto simp: nth_append)
  qed
qed simp

lemma group_slots_map2:
  "length ks = length gs \<Longrightarrow> length rs = length gs \<Longrightarrow>
    group_slots gi gs ks rs = map (\<lambda>(x, y). (fst x, fst (snd x), snd (snd x), snd (snd y))) (zip (slots_from gi gs ks) (slots_from gi gs rs))"
proof (induction gs arbitrary: gi ks rs)
  case (Cons g gs)
  then obtain k ks' r rs' where l: "ks = k # ks'" "rs = r # rs'" by (cases ks; cases rs) auto
  have one: "map (\<lambda>(x, y). (fst x, fst (snd x), snd (snd x), snd (snd y))) (zip (map (\<lambda>l. (gi, l, k)) ls) (map (\<lambda>l. (gi, l, r)) ls))
      = map (\<lambda>l. (gi, l, k, r)) ls" for ls :: "page_layer list"
    by (induction ls) auto
  show ?case using Cons by (simp add: l one)
qed simp

lemma take_pages:
  assumes "\<forall>j<k. page_at b n j = page_at r n j" "0 \<le> n" "int k * n \<le> int (length b)" "int k * n \<le> int (length r)"
  shows "take (nat (int k * n)) b = take (nat (int k * n)) r"
  using assms
proof (induction k)
  case (Suc k)
  have le: "int k * n \<le> int (Suc k) * n" using assms(2) by (simp add: algebra_simps)
  have IH: "take (nat (int k * n)) b = take (nat (int k * n)) r" using Suc le by force
  have page: "page_at x n k = take (nat n) (drop (nat (int k * n)) x)" if "int (Suc k) * n \<le> int (length x)" for x
    unfolding page_at_def using that assms(2) le by (subst py_slice_inside) (auto simp: algebra_simps)
  have nat: "nat (int (Suc k) * n) = nat (int k * n) + nat n"
    using assms(2) by (simp add: nat_add_distrib [symmetric] algebra_simps)
  have "page_at b n k = page_at r n k" using Suc.prems(1) by simp
  then show ?case
    unfolding nat take_add using IH page [OF Suc.prems(3)] page [OF Suc.prems(4)] by simp
qed simp

lemma reusable_pages_same:
  assumes "j < reusable_pages layers base result c" "l \<in> set layers"
  shows "page_at (payload_of base (pl_name l)) (pl_page l) j = page_at (payload_of result (pl_name l)) (pl_page l) j"
proof -
  let ?P = "\<lambda>j. \<forall>l\<in>set layers. page_at (payload_of base (pl_name l)) (pl_page l) j = page_at (payload_of result (pl_name l)) (pl_page l) j"
  let ?xs = "takeWhile ?P [0..<nat c]"
  have j: "j < length ?xs" using assms(1) by (simp add: reusable_pages_def)
  then have "?xs ! j \<in> set ?xs" by simp
  then have "?P (?xs ! j)" by (rule set_takeWhileD [THEN conjunct2])
  moreover have "?xs ! j = j"
  proof -
    have "length ?xs \<le> nat c" using length_takeWhile_le [of ?P "[0..<nat c]"] by simp
    then show ?thesis using j by (simp add: takeWhile_nth)
  qed
  ultimately show ?thesis using assms(2) by auto
qed

lemma reusable_pages_le:
  assumes "0 \<le> c" shows "int (reusable_pages layers base result c) \<le> c"
proof -
  have "reusable_pages layers base result c \<le> length [0..<nat c]" unfolding reusable_pages_def by (rule length_takeWhile_le)
  then show ?thesis using assms by simp
qed

text \<open>The slots of all count vectors, at one position: the same group and layer.\<close>

lemma slot_at:
  assumes "j < length (layout_layers lay)"
  shows "\<exists>g<length (lay_groups lay). layout_layers lay ! j \<in> set (pg_layers (lay_groups lay ! g))
    \<and> (\<forall>ks. length ks = length (lay_groups lay) \<longrightarrow> layer_counts lay ks ! j = (g, layout_layers lay ! j, ks ! g))"
  using slots_nth [of j "lay_groups lay"] assms unfolding layer_counts_slots layout_layers_def by (metis add_0)

text \<open>Two snapshots agree on the pages the groups reuse.\<close>

definition shares :: "page_layout \<Rightarrow> int list \<Rightarrow> string list \<Rightarrow> string list \<Rightarrow> bool" where
  "shares lay reused bs rb \<longleftrightarrow> list_all2 (\<lambda>(gi, l, k) (b, r). take (nat (k * pl_page l)) b = take (nat (k * pl_page l)) r)
     (layer_counts lay reused) (zip bs rb)"

lemma payload_at:
  assumes "good_layout lay" "length bs = length (layout_layers lay)" "j < length (layout_layers lay)"
  shows "payload_of (zip (map pl_name (layout_layers lay)) bs) (pl_name (layout_layers lay ! j)) = bs ! j"
  using arg_cong [OF payload_of_zip [of "map pl_name (layout_layers lay)" bs], of "\<lambda>xs. xs ! j"]
    good_layout_facts(2) [OF assms(1)] assms(2,3) by simp

lemma result_tails_at:
  assumes "good_layout lay" "length rb = length (layout_layers lay)" "length ks = length (lay_groups lay)"
    and "\<And>name. payload_of ps name = payload_of (zip (map pl_name (layout_layers lay)) rb) name"
  shows "result_tails lay ps ks
    = map2 (\<lambda>(gi, l, k) r. (pl_name l, drop (nat (k * pl_page l)) r)) (layer_counts lay ks) rb"
proof (rule nth_equalityI)
  fix j assume "j < length (result_tails lay ps ks)"
  then have j: "j < length (layout_layers lay)" using assms(3) by (simp add: result_tails_def)
  then obtain g where g: "layer_counts lay ks ! j = (g, layout_layers lay ! j, ks ! g)" using slot_at [OF j] assms(3) by blast
  show "result_tails lay ps ks ! j = map2 (\<lambda>(gi, l, k) r. (pl_name l, drop (nat (k * pl_page l)) r)) (layer_counts lay ks) rb ! j"
    using j assms(2,3) by (simp add: result_tails_def g assms(4) payload_at [OF assms(1,2) j])
qed (simp add: result_tails_def assms(2,3))

lemma laid_lengths:
  assumes "map (\<lambda>b. int (length b)) bs = map slot_bytes (layer_counts lay counts)" "length counts = length (lay_groups lay)"
  shows "length bs = length (layout_layers lay)"
    "j < length (layout_layers lay) \<Longrightarrow> int (length (bs ! j)) = slot_bytes (layer_counts lay counts ! j)"
proof -
  show l: "length bs = length (layout_layers lay)" using arg_cong [OF assms(1), of length] assms(2) by simp
  show "int (length (bs ! j)) = slot_bytes (layer_counts lay counts ! j)" if "j < length (layout_layers lay)"
    using arg_cong [OF assms(1), of "\<lambda>xs. xs ! j"] that l assms(2) by simp
qed

text \<open>The tails a delta carries have the lengths its header states, and put the result together.\<close>

lemma tails_complete:
  assumes lay: "good_layout lay"
    and bl: "map (\<lambda>b. int (length b)) bs = map slot_bytes (layer_counts lay bc)"
    and rl: "map (\<lambda>b. int (length b)) rb = map slot_bytes (layer_counts lay rc)"
    and ext: "extends_counts lay bc rc" and lk: "length reused = length (lay_groups lay)"
    and k: "\<forall>(b, k)\<in>set (zip bc reused). 0 \<le> k \<and> k \<le> b"
    and tails: "tails = map2 (\<lambda>(gi, l, k) r. (pl_name l, drop (nat (k * pl_page l)) r)) (layer_counts lay reused) rb"
  shows "map fst tails = map pl_name (layout_layers lay)"
    "map (\<lambda>t. int (length (snd t))) tails = map tail_bytes (group_slots 0 (lay_groups lay) reused rc)"
    "shares lay reused bs rb \<Longrightarrow>
      map2 (\<lambda>(gi, l, k) (b, t). take (nat (k * pl_page l)) b @ t) (layer_counts lay reused) (zip bs (map snd tails)) = rb"
proof -
  have len: "length bc = length (lay_groups lay)" "length rc = length (lay_groups lay)" using ext by (auto simp: extends_counts_def)
  note B = laid_lengths [OF bl len(1)] and R = laid_lengths [OF rl len(2)]
  have lt: "length tails = length (layout_layers lay)" using lk R(1) by (simp add: tails)
  have at: "\<exists>g<length (lay_groups lay). layer_counts lay reused ! j = (g, layout_layers lay ! j, reused ! g)
      \<and> layer_counts lay rc ! j = (g, layout_layers lay ! j, rc ! g)
      \<and> 0 \<le> reused ! g \<and> reused ! g \<le> rc ! g \<and> 0 < pl_page (layout_layers lay ! j)"
    if j: "j < length (layout_layers lay)" for j
  proof -
    obtain g where g: "g < length (lay_groups lay)"
      "\<And>ks. length ks = length (lay_groups lay) \<Longrightarrow> layer_counts lay ks ! j = (g, layout_layers lay ! j, ks ! g)"
      using slot_at [OF j] by blast
    have "(bc ! g, reused ! g) \<in> set (zip bc reused)" "(bc ! g, rc ! g) \<in> set (zip bc rc)"
      using g(1) len lk by (auto simp: in_set_zip)
    then have "0 \<le> reused ! g \<and> reused ! g \<le> bc ! g" "bc ! g \<le> rc ! g" using k ext unfolding extends_counts_def by fast+
    then show ?thesis using g(1) g(2) [OF lk] g(2) [OF len(2)] good_layout_facts(3) [OF lay] j by auto
  qed
  show "map fst tails = map pl_name (layout_layers lay)"
  proof (rule nth_equalityI)
    fix j assume "j < length (map fst tails)"
    then have j: "j < length (layout_layers lay)" using lt by simp
    then show "map fst tails ! j = map pl_name (layout_layers lay) ! j" using at [OF j] lk R(1) by (auto simp: tails)
  qed (simp add: lt)
  show "map (\<lambda>t. int (length (snd t))) tails = map tail_bytes (group_slots 0 (lay_groups lay) reused rc)"
  proof (rule nth_equalityI)
    have gl: "length (group_slots 0 (lay_groups lay) reused rc) = length (layout_layers lay)"
      using lk len by (simp add: group_slots_map2 layer_counts_slots [symmetric])
    show "length (map (\<lambda>t. int (length (snd t))) tails) = length (map tail_bytes (group_slots 0 (lay_groups lay) reused rc))"
      by (simp add: lt gl)
    fix j assume "j < length (map (\<lambda>t. int (length (snd t))) tails)"
    then have j: "j < length (layout_layers lay)" using lt by simp
    obtain g where g: "layer_counts lay reused ! j = (g, layout_layers lay ! j, reused ! g)"
      "layer_counts lay rc ! j = (g, layout_layers lay ! j, rc ! g)"
      "0 \<le> reused ! g" "reused ! g \<le> rc ! g" "0 < pl_page (layout_layers lay ! j)" using at [OF j] by blast
    let ?n = "pl_page (layout_layers lay ! j)"
    have rj: "int (length (rb ! j)) = rc ! g * ?n" using R(2) [OF j] by (simp add: g(2))
    have le: "reused ! g * ?n \<le> rc ! g * ?n" "0 \<le> reused ! g * ?n" using g by (simp_all add: mult_right_mono)
    have "int (length (drop (nat (reused ! g * ?n)) (rb ! j))) = rc ! g * ?n - reused ! g * ?n"
      using rj le by simp
    moreover have "tail_bytes (group_slots 0 (lay_groups lay) reused rc ! j) = (rc ! g - reused ! g) * ?n"
      using j lk len gl by (simp add: group_slots_map2 layer_counts_slots [symmetric] g tail_bytes_def)
    ultimately show "map (\<lambda>t. int (length (snd t))) tails ! j = map tail_bytes (group_slots 0 (lay_groups lay) reused rc) ! j"
      using j lt gl lk R(1) by (simp add: tails g left_diff_distrib)
  qed
  assume sh: "shares lay reused bs rb"
  show "map2 (\<lambda>(gi, l, k) (b, t). take (nat (k * pl_page l)) b @ t) (layer_counts lay reused) (zip bs (map snd tails)) = rb" (is "?xs = _")
  proof (rule nth_equalityI)
    show "length ?xs = length rb" using lt lk B(1) R(1) by simp
    fix j assume "j < length ?xs"
    then have j: "j < length (layout_layers lay)" using lt lk B(1) by simp
    obtain g where g: "layer_counts lay reused ! j = (g, layout_layers lay ! j, reused ! g)" using at [OF j] by blast
    have "take (nat (reused ! g * pl_page (layout_layers lay ! j))) (bs ! j) = take (nat (reused ! g * pl_page (layout_layers lay ! j))) (rb ! j)"
      using list_all2_nthD [OF sh [unfolded shares_def], of j] j lk B(1) R(1) g by simp
    then show "?xs ! j = rb ! j" using j lt lk B(1) R(1) by (simp add: g tails)
  qed
qed

lemma is_sha256_digest [simp]: "is_sha256 (sha256 b)"
  using sha256_digest [of b] by simp

text \<open>The pages a comparison finds equal are shared.\<close>

lemma group_reuse_shares:
  assumes lay: "good_layout lay"
    and bl: "map (\<lambda>b. int (length b)) bs = map slot_bytes (layer_counts lay bc)"
    and rl: "map (\<lambda>b. int (length b)) rb = map slot_bytes (layer_counts lay rc)"
    and ext: "extends_counts lay bc rc"
    and reused: "reused = group_reuse lay (zip (map pl_name (layout_layers lay)) bs) (zip (map pl_name (layout_layers lay)) rb) bc"
  shows "length reused = length (lay_groups lay)" "\<forall>(b, k)\<in>set (zip bc reused). 0 \<le> k \<and> k \<le> b" "shares lay reused bs rb"
proof -
  have len: "length bc = length (lay_groups lay)" "length rc = length (lay_groups lay)" using ext by (auto simp: extends_counts_def)
  note B = laid_lengths [OF bl len(1)] and R = laid_lengths [OF rl len(2)]
  let ?zb = "zip (map pl_name (layout_layers lay)) bs" and ?zr = "zip (map pl_name (layout_layers lay)) rb"
  show lk: "length reused = length (lay_groups lay)" using len by (simp add: reused group_reuse_def)
  have pages: "reused ! g = int (reusable_pages (pg_layers (lay_groups lay ! g)) ?zb ?zr (bc ! g))" "0 < bc ! g" "bc ! g \<le> rc ! g"
    if g: "g < length (lay_groups lay)" for g
  proof -
    show "reused ! g = int (reusable_pages (pg_layers (lay_groups lay ! g)) ?zb ?zr (bc ! g))"
      using g len by (simp add: reused group_reuse_def)
    have "(bc ! g, rc ! g) \<in> set (zip bc rc)" using g len by (auto simp: in_set_zip)
    then show "0 < bc ! g" "bc ! g \<le> rc ! g" using ext by (auto simp: extends_counts_def)
  qed
  have bound: "0 \<le> reused ! g" "reused ! g \<le> bc ! g" if g: "g < length (lay_groups lay)" for g
    using pages [OF g] reusable_pages_le [of "bc ! g"] by simp_all
  show "\<forall>(b, k)\<in>set (zip bc reused). 0 \<le> k \<and> k \<le> b" using bound len lk by (auto simp: in_set_zip)
  show "shares lay reused bs rb"
    unfolding shares_def
  proof (rule list_all2_all_nthI)
    show "length (layer_counts lay reused) = length (zip bs rb)" using lk B(1) R(1) by simp
    fix j assume "j < length (layer_counts lay reused)"
    then have j: "j < length (layout_layers lay)" using lk by simp
    obtain g where g: "g < length (lay_groups lay)" "layout_layers lay ! j \<in> set (pg_layers (lay_groups lay ! g))"
      "\<And>ks. length ks = length (lay_groups lay) \<Longrightarrow> layer_counts lay ks ! j = (g, layout_layers lay ! j, ks ! g)"
      using slot_at [OF j] by blast
    let ?l = "layout_layers lay ! j" and ?k = "reusable_pages (pg_layers (lay_groups lay ! g)) ?zb ?zr (bc ! g)"
    have pos: "0 < pl_page ?l" using good_layout_facts(3) [OF lay] j by simp
    have same: "\<forall>i<?k. page_at (bs ! j) (pl_page ?l) i = page_at (rb ! j) (pl_page ?l) i"
      using reusable_pages_same [OF _ g(2), of _ ?zb ?zr "bc ! g"] payload_at [OF lay B(1) j] payload_at [OF lay R(1) j] by auto
    have bj: "int (length (bs ! j)) = bc ! g * pl_page ?l" "int (length (rb ! j)) = rc ! g * pl_page ?l"
      using B(2) [OF j] R(2) [OF j] g(3) [OF len(1)] g(3) [OF len(2)] by simp_all
    have kb: "int ?k \<le> bc ! g" "int ?k \<le> rc ! g" using bound(2) [OF g(1)] pages [OF g(1)] by simp_all
    have "take (nat (int ?k * pl_page ?l)) (bs ! j) = take (nat (int ?k * pl_page ?l)) (rb ! j)"
      by (rule take_pages [OF same]) (use pos kb bj in \<open>auto intro: mult_right_mono\<close>)
    then show "(case layer_counts lay reused ! j of (gi, l, k) \<Rightarrow> \<lambda>(b, r). take (nat (k * pl_page l)) b = take (nat (k * pl_page l)) r)
        (zip bs rb ! j)"
      using j B(1) R(1) g(3) [OF lk] pages(1) [OF g(1)] by simp
  qed
qed

text \<open>A delta made of the shared pages applies, whoever computed the reuse.\<close>

lemma shared_delta_applies:
  assumes lay: "good_layout lay" and base: "laid_out lay bc pre bs base" and result: "snapshot_of lay rc rb result"
    and bounds: "0 < bt" "bt < rt" and ext: "extends_counts lay bc rc"
    and k: "length reused = length (lay_groups lay)" "\<forall>(b, k)\<in>set (zip bc reused). 0 \<le> k \<and> k \<le> b" "shares lay reused bs rb"
    and tails: "tails = map2 (\<lambda>(gi, l, k) r. (pl_name l, drop (nat (k * pl_page l)) r)) (layer_counts lay reused) rb"
    and h: "framed DELTA_MAGIC (delta_header ''sha256'' lay (sha256 base) (sha256 result) bc rc bt rt reused tails) = Inr h"
  shows "apply_verified_page_delta lay \<lparr>vs_payload = base, vs_sha256 = sha256 base\<rparr> (h @ concat (map snd tails)) bc rc bt rt
    = Inr \<lparr>vs_payload = result, vs_sha256 = sha256 result\<rparr>"
proof -
  have bl: "map (\<lambda>b. int (length b)) bs = map slot_bytes (layer_counts lay bc)" using base by (simp add: laid_out_def)
  have rl: "map (\<lambda>b. int (length b)) rb = map slot_bytes (layer_counts lay rc)" using result by (simp add: snapshot_of_def)
  note c = tails_complete [OF lay bl rl ext k(1,2) tails]
  have "delta_written ''sha256'' lay (sha256 base) (sha256 result) bc rc bt rt reused tails h"
    using h bounds ext k(1,2) c(1,2) by (simp add: delta_written_def PAYLOAD_INTEGRITY_MODES_def)
  then show ?thesis
    by (rule apply_written [OF lay _ base]) (use result in \<open>simp_all only: c(3) [OF k(3)]\<close>)
qed

text \<open>What a successful encoding consists of.\<close>

lemma encode_delta_Inr:
  assumes lay: "good_layout lay" and base: "laid_out lay bc pre bs base" and result: "snapshot_of lay rc rb result"
    and reused: "reused = group_reuse lay (zip (map pl_name (layout_layers lay)) bs) (zip (map pl_name (layout_layers lay)) rb) bc"
    and tails: "tails = map2 (\<lambda>(gi, l, k) r. (pl_name l, drop (nat (k * pl_page l)) r)) (layer_counts lay reused) rb"
  shows "encode_page_delta lay base result bc rc bt rt None ''sha256'' None = Inr delta \<longleftrightarrow>
    0 < bt \<and> bt < rt \<and> extends_counts lay bc rc \<and>
    (\<exists>h. framed DELTA_MAGIC (delta_header ''sha256'' lay (sha256 base) (sha256 result) bc rc bt rt reused tails) = Inr h
      \<and> delta = h @ concat (map snd tails))"
proof (cases "0 < bt \<and> bt < rt \<and> extends_counts lay bc rc")
  case True
  then have len: "length bc = length (lay_groups lay)" "length rc = length (lay_groups lay)" by (auto simp: extends_counts_def)
  have bl: "map (\<lambda>b. int (length b)) bs = map slot_bytes (layer_counts lay bc)" using base by (simp add: laid_out_def)
  have rl: "map (\<lambda>b. int (length b)) rb = map slot_bytes (layer_counts lay rc)" using result by (simp add: snapshot_of_def)
  note g = group_reuse_shares [OF lay bl rl conjunct2 [OF conjunct2 [OF True]] reused]
  have t: "result_tails lay (zip (map pl_name (layout_layers lay)) rb) reused = tails"
    unfolding tails by (rule result_tails_at [OF lay laid_lengths(1) [OF rl len(2)] g(1) refl])
  show ?thesis
    using True decode_laid_out(1) [OF base] decode_snapshot_of [OF lay result] len
    by (auto simp: encode_page_delta_def validate_delta_boundaries_def check_integrity_def PAYLOAD_INTEGRITY_MODES_def
        base_digest_def reused [symmetric] t bindE_Inr)
next
  case False
  then show ?thesis by (auto simp: encode_page_delta_def validate_delta_boundaries_def check_integrity_def PAYLOAD_INTEGRITY_MODES_def
        base_digest_def bindE_Inr split: if_splits)
qed

lemma encoded_delta_applies:
  assumes "good_layout lay" "plan_page_snapshot lay base bc None = Inr p" "encode_page_snapshot lay rc ps = Inr result"
    and "encode_page_delta lay base result bc rc bt rt None ''sha256'' None = Inr delta"
  shows "apply_verified_page_delta lay \<lparr>vs_payload = base, vs_sha256 = sha256 base\<rparr> delta bc rc bt rt
    = Inr \<lparr>vs_payload = result, vs_sha256 = sha256 result\<rparr>"
proof -
  obtain pre bs where base: "laid_out lay bc pre bs base" using plan_laid_out [OF assms(1,2)] by blast
  note result = encode_snapshot_of(1) [OF assms(3)]
  let ?rb = "map (payload_of ps \<circ> pl_name) (layout_layers lay)"
  let ?reused = "group_reuse lay (zip (map pl_name (layout_layers lay)) bs) (zip (map pl_name (layout_layers lay)) ?rb) bc"
  from assms(4) [unfolded encode_delta_Inr [OF assms(1) base result refl refl]]
  obtain h where e: "0 < bt" "bt < rt" "extends_counts lay bc rc"
    "framed DELTA_MAGIC (delta_header ''sha256'' lay (sha256 base) (sha256 result) bc rc bt rt ?reused
      (map2 (\<lambda>(gi, l, k) r. (pl_name l, drop (nat (k * pl_page l)) r)) (layer_counts lay ?reused) ?rb)) = Inr h"
    "delta = h @ concat (map snd (map2 (\<lambda>(gi, l, k) r. (pl_name l, drop (nat (k * pl_page l)) r)) (layer_counts lay ?reused) ?rb))"
    by blast
  have bl: "map (\<lambda>b. int (length b)) bs = map slot_bytes (layer_counts lay bc)" using base by (simp add: laid_out_def)
  have rl: "map (\<lambda>b. int (length b)) ?rb = map slot_bytes (layer_counts lay rc)" using result by (simp add: snapshot_of_def)
  note k = group_reuse_shares [OF assms(1) bl rl e(3) refl]
  show ?thesis
    using shared_delta_applies [OF assms(1) base result e(1-3) k refl e(4)] by (simp add: e(5))
qed

text \<open>C8: applying the delta that was encoded between an accepted snapshot and a later one to the earlier
  snapshot gives the later one, byte for byte: the pages the comparison dropped are exactly those the
  base supplies, every tail passes its digest, and the rebuilt file has the promised digest.\<close>

theorem page_delta_roundtrip:
  assumes "good_layout lay" "plan_page_snapshot lay base bc None = Inr p" "encode_page_snapshot lay rc ps = Inr result"
    and "encode_page_delta lay base result bc rc bt rt None ''sha256'' None = Inr delta"
  shows "apply_page_delta lay base delta bc rc bt rt = Inr result"
  using encoded_delta_applies [OF assms] by (simp add: apply_page_delta_def)

text \<open>decoding an encoded snapshot gives back the payload of every layer.\<close>

theorem page_snapshot_roundtrip:
  assumes "good_layout lay" "encode_page_snapshot lay counts ps = Inr s"
  shows "bindE (decode_page_snapshot lay s counts) (\<lambda>qs. Inr (map_of qs)) = Inr (map_of ps)"
proof -
  let ?names = "map pl_name (layout_layers lay)" and ?bs = "map (payload_of ps \<circ> pl_name) (layout_layers lay)"
  note e = encode_snapshot_of [OF assms(2)]
  have z: "map_of (zip ?names ?bs) = (\<lambda>n. if n \<in> set ?names then Some (payload_of ps n) else None)"
    using map_of_zip_map [of ?names "payload_of ps"] by (simp only: map_map)
  have names: "set ?names = dom (map_of ps)" using e(2) by (simp add: dom_map_of_conv_image_fst)
  have "map_of (zip ?names ?bs) n = map_of ps n" for n
    unfolding z names by (cases "map_of ps n") (auto simp: payload_of_def domIff)
  then show ?thesis using decode_snapshot_of [OF assms(1) e(1)] by (simp add: fun_eq_iff)
qed

section \<open>Deltas from a capture\<close>

text \<open>A capture that shows the bytes \<open>b\<close>, as one buffer or range by range.\<close>

definition cap_shows :: "captured \<Rightarrow> string \<Rightarrow> bool" where
  "cap_shows cap b \<longleftrightarrow> captured_bytes cap = int (length b)
     \<and> (\<forall>s e. 0 \<le> s \<and> s \<le> e \<and> e \<le> int (length b) \<longrightarrow> captured_range cap s e = Inr (py_slice b s e))"

lemma buffer_shows: "cap_shows (Buffer b) b"
  by (simp add: cap_shows_def)

lemma capture_slots_from:
  "length reused = length gs \<Longrightarrow> length rc = length gs \<Longrightarrow>
    concat (map (\<lambda>(g, k, r). map (\<lambda>l. (l, k, r - k)) (pg_layers g)) (zip gs (zip reused rc)))
    = map (\<lambda>(gi, l, k, r). (l, k, r - k)) (group_slots gi gs reused rc)"
proof (induction gs arbitrary: gi reused rc)
  case (Cons g gs)
  then obtain k ks r rs where l: "reused = k # ks" "rc = r # rs" by (cases reused; cases rc) auto
  then show ?case using Cons.IH [of ks rs "gi + 1"] Cons.prems by (simp add: comp_def)
qed simp

lemma capture_tails_written:
  assumes "cap_shows cap b" "b = pre @ concat ts @ post"
    "map (\<lambda>t. int (length t)) ts = map (\<lambda>(l, k, pages). pages * pl_page l) slots"
  shows "capture_tails cap slots (int (length pre)) = Inr (zip (map (\<lambda>(l, k, pages). pl_name l) slots) ts, int (length pre) + int (length (concat ts)))"
  using assms(2,3)
proof (induction slots arbitrary: pre ts)
  case (Cons x slots)
  obtain l k pages where x: "x = (l, k, pages)" by (cases x)
  obtain t ts' where t: "ts = t # ts'" "int (length t) = pages * pl_page l"
    "map (\<lambda>t. int (length t)) ts' = map (\<lambda>(l, k, pages). pages * pl_page l) slots"
    using Cons.prems(2) by (cases ts) (auto simp: x)
  have "b = (pre @ t) @ concat ts' @ post" using Cons.prems(1) by (simp add: t(1))
  note IH = Cons.IH [OF this t(3)]
  have "captured_range cap (int (length pre)) (int (length pre) + int (length t)) = Inr (py_slice b (int (length pre)) (int (length pre) + int (length t)))"
    using assms(1) Cons.prems(1) by (simp add: cap_shows_def t(1))
  also have "py_slice b (int (length pre)) (int (length pre) + int (length t)) = t"
    unfolding Cons.prems(1) t(1) by (subst py_slice_inside) auto
  finally have r: "captured_range cap (int (length pre)) (int (length pre) + pages * pl_page l) = Inr t" by (simp add: t(2))
  have "\<not> int (length pre) + pages * pl_page l > captured_bytes cap"
    using assms(1) Cons.prems(1) by (simp add: cap_shows_def t(1) t(2) [symmetric])
  then show ?case using IH r t(2) by (simp add: x t(1) Let_def add.assoc)
qed simp

text \<open>An encoding depends on its payloads by name only.\<close>

lemma encode_by_name:
  assumes "set (dkeys qs) = set (dkeys ps)" "\<forall>l\<in>set (layout_layers lay). payload_of qs (pl_name l) = payload_of ps (pl_name l)"
  shows "encode_page_snapshot lay counts qs = encode_page_snapshot lay counts ps"
proof -
  have at: "payload_of qs (pl_name l) = payload_of ps (pl_name l)" if "(gi, l, c) \<in> set (layer_counts lay counts)" for gi l c
    using slots_set [of gi l c 0] that assms(2) by (auto simp: layer_counts_slots layout_layers_def)
  have a: "(\<exists>x\<in>set (layer_counts lay counts). int (length (payload_of qs (pl_name (fst (snd x))))) \<noteq> slot_bytes x)
      \<longleftrightarrow> (\<exists>x\<in>set (layer_counts lay counts). int (length (payload_of ps (pl_name (fst (snd x))))) \<noteq> slot_bytes x)"
    using at by (fastforce simp: Bex_def)
  have b: "map (\<lambda>(gi, l, c). payload_of qs (pl_name l)) (layer_counts lay counts) = map (\<lambda>(gi, l, c). payload_of ps (pl_name l)) (layer_counts lay counts)"
    using at by auto
  show ?thesis by (simp only: encode_page_snapshot_def assms(1) a b)
qed

text \<open>The tails a capture must show, and the pages it may leave out.\<close>

definition unchanged :: "page_layout \<Rightarrow> int list \<Rightarrow> payloads \<Rightarrow> payloads \<Rightarrow> bool" where
  "unchanged lay reused bps rps \<longleftrightarrow> list_all (\<lambda>(gi, l, k). take (nat (k * pl_page l)) (payload_of bps (pl_name l))
     = take (nat (k * pl_page l)) (payload_of rps (pl_name l))) (layer_counts lay reused)"

lemma payload_by_name:
  assumes "good_layout lay" "length bs = length (layout_layers lay)"
  shows "map (payload_of (zip (map pl_name (layout_layers lay)) bs) \<circ> pl_name) (layout_layers lay) = bs"
  using payload_of_zip [OF good_layout_facts(2) [OF assms(1)], of bs] assms(2) by simp

lemma unchanged_shares:
  assumes "good_layout lay" "length bs = length (layout_layers lay)" "length reused = length (lay_groups lay)"
    and "unchanged lay reused (zip (map pl_name (layout_layers lay)) bs) ps"
  shows "shares lay reused bs (map (payload_of ps \<circ> pl_name) (layout_layers lay))"
  unfolding shares_def
proof (rule list_all2_all_nthI)
  show "length (layer_counts lay reused) = length (zip bs (map (payload_of ps \<circ> pl_name) (layout_layers lay)))" using assms(2,3) by simp
  fix j assume "j < length (layer_counts lay reused)"
  then have j: "j < length (layout_layers lay)" using assms(3) by simp
  obtain g where g: "layer_counts lay reused ! j = (g, layout_layers lay ! j, reused ! g)" using slot_at [OF j] assms(3) by blast
  have "case layer_counts lay reused ! j of (gi, l, k) \<Rightarrow> take (nat (k * pl_page l)) (payload_of (zip (map pl_name (layout_layers lay)) bs) (pl_name l))
     = take (nat (k * pl_page l)) (payload_of ps (pl_name l))"
    using assms(3,4) j by (simp add: unchanged_def list_all_length)
  then show "(case layer_counts lay reused ! j of (gi, l, k) \<Rightarrow> \<lambda>(b, r). take (nat (k * pl_page l)) b = take (nat (k * pl_page l)) r)
      (zip bs (map (payload_of ps \<circ> pl_name) (layout_layers lay)) ! j)"
    using j assms(2) payload_at [OF assms(1,2) j] by (simp add: g)
qed

lemma captured_counts_Inr:
  "captured_counts lay bc rc reused = Inr () \<longleftrightarrow> length reused = length (lay_groups lay)
    \<and> extends_counts lay bc rc \<and> (\<forall>(b, k)\<in>set (zip bc reused). 0 \<le> k \<and> k \<le> b)"
proof (cases "length bc = length rc \<and> length rc = length reused \<and> length reused = length (lay_groups lay)")
  case True
  have "(\<exists>(b, r, k)\<in>set (zip bc (zip rc reused)). b \<le> 0 \<or> r < b \<or> \<not> (0 \<le> k \<and> k \<le> b))
      \<longleftrightarrow> \<not> ((\<forall>(b, r)\<in>set (zip bc rc). 0 < b \<and> b \<le> r) \<and> (\<forall>(b, k)\<in>set (zip bc reused). 0 \<le> k \<and> k \<le> b))"
    if "length bc = length rc" "length rc = length reused" for bc rc reused :: "int list"
    using that by (induction bc rc reused rule: list_induct3) auto
  from this [of bc rc reused] True show ?thesis by (simp add: captured_counts_def extends_counts_def)
qed (auto simp: captured_counts_def extends_counts_def)

text \<open>Encoding from a capture: the delta, and the result when it is kept.\<close>

lemma capture_encoded:
  assumes lay: "good_layout lay" and base: "laid_out lay bc pre bs base" and result: "snapshot_of lay rc rb result"
    and ext: "extends_counts lay bc rc"
    and k: "length reused = length (lay_groups lay)" "\<forall>(b, k)\<in>set (zip bc reused). 0 \<le> k \<and> k \<le> b" "shares lay reused bs rb"
    and tails: "tails = map2 (\<lambda>(gi, l, k) r. (pl_name l, drop (nat (k * pl_page l)) r)) (layer_counts lay reused) rb"
    and cap: "cap_shows cap (concat (map snd tails))"
  shows "capture_tails cap (capture_slots lay reused rc) 0 = Inr (tails, captured_bytes cap)"
    "map (\<lambda>((l, k, pages), sp). py_slice base (sp_start sp) (sp_start sp + k * pl_page l))
       (zip (capture_slots lay reused rc) (spans_from (int (length pre)) (layer_counts lay bc)))
     = map2 (\<lambda>(gi, l, k) b. take (nat (k * pl_page l)) b) (layer_counts lay reused) bs"
    "map2 (\<lambda>p t. p @ snd t) (map2 (\<lambda>(gi, l, k) b. take (nat (k * pl_page l)) b) (layer_counts lay reused) bs) tails = rb"
    "map2 (\<lambda>(l, k, pages) t. (pl_name l, take (nat (k * pl_page l)) (payload_of (zip (map pl_name (layout_layers lay)) bs) (pl_name l)) @ snd t))
       (capture_slots lay reused rc) tails = zip (map pl_name (layout_layers lay)) rb"
proof -
  have bl: "map (\<lambda>b. int (length b)) bs = map slot_bytes (layer_counts lay bc)" and base_eq: "base = pre @ concat bs"
    using base by (simp_all add: laid_out_def)
  have rl: "map (\<lambda>b. int (length b)) rb = map slot_bytes (layer_counts lay rc)" using result by (simp add: snapshot_of_def)
  have len: "length bc = length (lay_groups lay)" "length rc = length (lay_groups lay)" using ext by (auto simp: extends_counts_def)
  note c = tails_complete [OF lay bl rl ext k(1,2) tails]
  note B = laid_lengths(1) [OF bl len(1)] and R = laid_lengths(1) [OF rl len(2)]
  let ?gs = "group_slots 0 (lay_groups lay) reused rc"
  have slots: "capture_slots lay reused rc = map (\<lambda>(gi, l, k, r). (l, k, r - k)) ?gs"
    unfolding capture_slots_def by (rule capture_slots_from) (use k(1) len in simp_all)
  have keeps: "map (\<lambda>(gi, l, k, r). (gi, l, k)) ?gs = layer_counts lay reused"
    using group_slots_layers [of reused "lay_groups lay" rc 0] k(1) len by (simp add: layer_counts_slots)
  have gl: "length ?gs = length (layout_layers lay)" using arg_cong [OF keeps, of length] k(1) by simp
  have names: "map (\<lambda>(l, k, pages). pl_name l) (capture_slots lay reused rc) = map pl_name (layout_layers lay)"
    using arg_cong [OF keeps, of "map (\<lambda>(gi, l, k). pl_name l)"] layer_counts_layers(1) [OF k(1)]
    by (simp add: slots comp_def case_prod_beta)
  have "map (\<lambda>t. int (length t)) (map snd tails) = map (\<lambda>(l, k, pages). pages * pl_page l) (capture_slots lay reused rc)"
    using c(2) by (simp add: slots comp_def tail_bytes_def case_prod_beta)
  from capture_tails_written [OF cap _ this, of "[]" "[]"]
  have "capture_tails cap (capture_slots lay reused rc) 0 = Inr (zip (map pl_name (layout_layers lay)) (map snd tails), int (length (concat (map snd tails))))"
    by (simp add: names)
  also have "zip (map pl_name (layout_layers lay)) (map snd tails) = tails" unfolding c(1) [symmetric] by (rule zip_map_fst_snd)
  also have "int (length (concat (map snd tails))) = captured_bytes cap" using cap by (simp add: cap_shows_def)
  finally show "capture_tails cap (capture_slots lay reused rc) 0 = Inr (tails, captured_bytes cap)" .
  have fit: "list_all2 slot_fits (layer_counts lay bc) (layer_counts lay reused)"
    unfolding layer_counts_slots
    by (rule slots_fit) (use k len good_layout_facts(3) [OF lay] in \<open>auto simp: layout_layers_def\<close>)
  have "map (\<lambda>((l, k, pages), sp). py_slice base (sp_start sp) (sp_start sp + k * pl_page l))
       (zip (capture_slots lay reused rc) (spans_from (int (length pre)) (layer_counts lay bc)))
     = map2 (\<lambda>(gi, l, k) sp. py_slice base (sp_start sp) (sp_start sp + k * pl_page l)) (layer_counts lay reused)
         (spans_from (int (length pre)) (layer_counts lay bc))"
    unfolding slots keeps [symmetric] by (simp add: zip_map1 comp_def case_prod_beta)
  also have "\<dots> = map2 (\<lambda>b (gi, l, k). take (nat (k * pl_page l)) b) bs (layer_counts lay reused)"
    unfolding base_eq by (rule kept_prefixes [OF fit bl refl])
  also have "\<dots> = map2 (\<lambda>(gi, l, k) b. take (nat (k * pl_page l)) b) (layer_counts lay reused) bs"
    by (subst zip_commute) (simp add: comp_def case_prod_beta)
  finally show "map (\<lambda>((l, k, pages), sp). py_slice base (sp_start sp) (sp_start sp + k * pl_page l))
       (zip (capture_slots lay reused rc) (spans_from (int (length pre)) (layer_counts lay bc)))
     = map2 (\<lambda>(gi, l, k) b. take (nat (k * pl_page l)) b) (layer_counts lay reused) bs" .
  have lt: "length tails = length (layout_layers lay)" using k(1) R by (simp add: tails)
  show whole: "map2 (\<lambda>p t. p @ snd t) (map2 (\<lambda>(gi, l, k) b. take (nat (k * pl_page l)) b) (layer_counts lay reused) bs) tails = rb"
    unfolding c(3) [OF k(3), symmetric] by (rule nth_equalityI) (use lt k(1) B in \<open>auto simp: case_prod_beta\<close>)
  show "map2 (\<lambda>(l, k, pages) t. (pl_name l, take (nat (k * pl_page l)) (payload_of (zip (map pl_name (layout_layers lay)) bs) (pl_name l)) @ snd t))
       (capture_slots lay reused rc) tails = zip (map pl_name (layout_layers lay)) rb" (is "?xs = _")
  proof (rule nth_equalityI)
    show "length ?xs = length (zip (map pl_name (layout_layers lay)) rb)" by (simp add: slots gl lt R)
    fix j assume "j < length ?xs"
    then have j: "j < length (layout_layers lay)" by (simp add: slots gl lt)
    obtain g where g: "layer_counts lay reused ! j = (g, layout_layers lay ! j, reused ! g)" using slot_at [OF j] k(1) by blast
    have "fst (capture_slots lay reused rc ! j) = layout_layers lay ! j \<and> fst (snd (capture_slots lay reused rc ! j)) = reused ! g"
      using arg_cong [OF keeps, of "\<lambda>xs. xs ! j"] j gl g by (auto simp: slots case_prod_beta)
    then obtain pages where s: "capture_slots lay reused rc ! j = (layout_layers lay ! j, reused ! g, pages)"
      by (cases "capture_slots lay reused rc ! j") auto
    have "take (nat (reused ! g * pl_page (layout_layers lay ! j))) (bs ! j) @ snd (tails ! j) = rb ! j"
      using arg_cong [OF whole, of "\<lambda>xs. xs ! j"] j lt k(1) B by (simp add: g)
    then show "?xs ! j = zip (map pl_name (layout_layers lay)) rb ! j"
      using j lt R payload_at [OF lay B j] s by (simp add: gl slots)
  qed
qed

lemma captured_delta_applies:
  assumes "good_layout lay" "plan_page_snapshot lay base bc None = Inr p" "encode_page_snapshot lay rc ps = Inr result"
    and "captured_counts lay bc rc reused = Inr ()" "decode_page_snapshot lay base bc = Inr bps" "unchanged lay reused bps ps"
    and "cap_shows cap (concat (map snd (result_tails lay ps reused)))"
    and "encode_page_delta_from_capture_with_result lay (Plain base) cap bc rc reused bt rt None ''sha256'' None = Inr (delta, r)"
  shows "r = result
    \<and> apply_verified_page_delta lay \<lparr>vs_payload = base, vs_sha256 = sha256 base\<rparr> delta bc rc bt rt
        = Inr \<lparr>vs_payload = result, vs_sha256 = sha256 result\<rparr>
    \<and> materialize_page_extension_capture lay base cap bc rc reused = Inr result"
proof -
  obtain pre bs where base: "laid_out lay bc pre bs base" using plan_laid_out [OF assms(1,2)] by blast
  note result = encode_snapshot_of [OF assms(3)]
  let ?names = "map pl_name (layout_layers lay)" and ?rb = "map (payload_of ps \<circ> pl_name) (layout_layers lay)"
  have bps: "bps = zip ?names bs" using decode_laid_out(1) [OF base] assms(5) by simp
  have k: "length reused = length (lay_groups lay)" "extends_counts lay bc rc" "\<forall>(b, k)\<in>set (zip bc reused). 0 \<le> k \<and> k \<le> b"
    using assms(4) by (auto simp: captured_counts_Inr)
  have sh: "shares lay reused bs ?rb"
    by (rule unchanged_shares [OF assms(1) decode_laid_out(2) [OF base] k(1)]) (use assms(6) bps in simp)
  define tails where "tails = map2 (\<lambda>(gi, l, k) r. (pl_name l, drop (nat (k * pl_page l)) r)) (layer_counts lay reused) ?rb"
  have rt: "result_tails lay ps reused = tails"
  proof -
    have "result_tails lay ps reused = map (\<lambda>(gi, l, k). (pl_name l, drop (nat (k * pl_page l)) (payload_of ps (pl_name l)))) (layer_counts lay reused)"
      by (simp add: result_tails_def)
    also have "\<dots> = tails"
      unfolding tails_def layer_counts_layers(2) [OF k(1), symmetric] by (simp add: zip_map2 zip_same_conv_map comp_def case_prod_beta)
    finally show ?thesis .
  qed
  note e = capture_encoded [OF assms(1) base result(1) k(2,1,3) sh tails_def assms(7) [unfolded rt]]
  have plan: "plan_page_snapshot lay base bc None = Inr \<lparr>sn_header = int (length pre), sn_total = int (length base),
      sn_counts = bc, sn_spans = spans_from (int (length pre)) (layer_counts lay bc)\<rparr>"
    by (rule laid_out_plan [OF base])
  obtain h where h: "encode_page_snapshot_header lay rc = Inr h" "result = h @ concat ?rb"
    using result(1) by (auto simp: snapshot_of_def)
  have w: "0 < bt" "bt < rt" "r = result" "\<not> captured_bytes cap \<le> 0"
    "\<exists>hd. framed DELTA_MAGIC (delta_header ''sha256'' lay (sha256 base) (sha256 result) bc rc bt rt reused tails) = Inr hd
      \<and> delta = hd @ concat (map snd tails)"
    using assms(8) assms(4) plan plan_whole [of lay base bc] h e(1-3)
    by (auto simp: encode_page_delta_from_capture_with_result_def encode_page_delta_from_capture_shared_def bindE_Inr Let_def
        validate_delta_boundaries_def check_integrity_def base_digest_def split: if_splits)
  obtain hd where hd: "framed DELTA_MAGIC (delta_header ''sha256'' lay (sha256 base) (sha256 result) bc rc bt rt reused tails) = Inr hd"
    "delta = hd @ concat (map snd tails)" using w(5) by blast
  have "apply_verified_page_delta lay \<lparr>vs_payload = base, vs_sha256 = sha256 base\<rparr> delta bc rc bt rt
      = Inr \<lparr>vs_payload = result, vs_sha256 = sha256 result\<rparr>"
    using shared_delta_applies [OF assms(1) base result(1) w(1,2) k(2,1,3) sh tails_def hd(1)] by (simp add: hd(2))
  moreover have "materialize_page_extension_capture lay base cap bc rc reused = Inr result"
  proof -
    have "encode_page_snapshot lay rc (zip ?names ?rb) = encode_page_snapshot lay rc ps"
    proof (rule encode_by_name)
      show "set (dkeys (zip ?names ?rb)) = set (dkeys ps)" using result(2) by simp
      show "\<forall>l\<in>set (layout_layers lay). payload_of (zip ?names ?rb) (pl_name l) = payload_of ps (pl_name l)"
        using payload_by_name [OF assms(1), of ?rb] by (simp add: map_eq_conv)
    qed
    then show ?thesis
      using w(4) assms(3,4) decode_laid_out(1) [OF base] e(1,4) by (simp add: materialize_page_extension_capture_def Let_def)
  qed
  ultimately show ?thesis using w(3) by simp
qed

text \<open>C11: a capture that shows, for every layer, the pages after those its group reuses is enough: when the
  reused pages are those of the base, the encoder returns the complete later snapshot together with a
  delta that restores it, and the extension can be put together from the same capture.\<close>

theorem capture_delta_restores:
  assumes "good_layout lay" "plan_page_snapshot lay base bc None = Inr p" "encode_page_snapshot lay rc ps = Inr result"
    and "captured_counts lay bc rc reused = Inr ()" "decode_page_snapshot lay base bc = Inr bps" "unchanged lay reused bps ps"
    and "cap_shows cap (concat (map snd (result_tails lay ps reused)))"
    and "encode_page_delta_from_capture_with_result lay (Plain base) cap bc rc reused bt rt None ''sha256'' None = Inr (delta, r)"
  shows "r = result \<and> apply_page_delta lay base delta bc rc bt rt = Inr result
    \<and> materialize_page_extension_capture lay base cap bc rc reused = Inr result"
  using captured_delta_applies [OF assms] by (simp add: apply_page_delta_def)

section \<open>A layout with two groups\<close>

definition demo_group :: "string \<Rightarrow> string \<Rightarrow> int \<Rightarrow> page_group" where
  "demo_group name policy n = \<lparr>pg_block_size = 4,
     pg_layers = [\<lparr>pl_name = name, pl_dtype = ''u8'', pl_shape = [n], pl_page = n\<rparr>],
     pg_policy = policy, pg_window = None\<rparr>"

definition demo_layout :: page_layout where
  "demo_layout = \<lparr>lay_groups = [demo_group ''a'' ''full'' 2, demo_group ''b'' ''recurrent_align'' 1]\<rparr>"

lemma demo_layout_good: "good_layout demo_layout"
  by (simp add: good_layout_def demo_layout_def demo_group_def layout_layers_def PageLayout_def PageGroup_def PageLayer_def)

lemma framed_small: "json_bound v < 2 ^ 32 \<Longrightarrow> \<exists>h. framed magic v = Inr h \<and> length h \<le> length magic + 4 + json_bound v"
  using length_enc(1) [of v] by (simp add: framed_def canonical_json_def Let_def)

lemma length_layout_digest [simp]: "length (layout_digest lay) = 64"
  by (simp add: layout_digest_def)

lemma demo_slots: "layer_counts demo_layout [a, b] = [(0, \<lparr>pl_name = ''a'', pl_dtype = ''u8'', pl_shape = [2], pl_page = 2\<rparr>, a),
  (1, \<lparr>pl_name = ''b'', pl_dtype = ''u8'', pl_shape = [1], pl_page = 1\<rparr>, b)]"
  by (simp add: layer_counts_slots demo_layout_def demo_group_def)

lemma demo_names: "length (lay_groups demo_layout) = 2" "pl_name ` set (layout_layers demo_layout) = {''a'', ''b''}"
  by (simp_all add: demo_layout_def demo_group_def layout_layers_def)

lemma demo_snapshot:
  assumes "0 < a" "a < 100" "0 < b" "b < 100" "int (length p) = 2 * a" "int (length q) = b"
  shows "\<exists>s. encode_page_snapshot demo_layout [a, b] [(''a'', p), (''b'', q)] = Inr s \<and> length s < 2 ^ 20"
proof -
  let ?v = "JObj [(''schema'', JStr ''sparkcache-hybrid-pages/v1''),
             (''layout_sha256'', JStr (layout_digest demo_layout)), (''block_counts'', JList (map JInt [a, b]))]"
  have bound: "json_bound ?v < 2 ^ 16" using assms(1-4) by simp
  then have "json_bound ?v < 2 ^ 32" by simp
  from framed_small [OF this] obtain h where h: "framed PAGE_MAGIC ?v = Inr h" "length h \<le> length PAGE_MAGIC + 4 + json_bound ?v"
    by blast
  have "encode_page_snapshot_header demo_layout [a, b] = Inr h"
    using h(1) assms(1,3) by (simp add: encode_page_snapshot_header_def demo_names)
  moreover have "length (h @ p @ q) < 2 ^ 20" using h(2) bound assms by simp
  ultimately show ?thesis
    using assms by (simp add: encode_page_snapshot_def demo_slots demo_names payload_of_def insert_commute)
qed

lemma demo_delta_ingredients:
  "\<exists>base result p. encode_page_snapshot demo_layout [2, 1] [(''a'', ''ppqq''), (''b'', ''x'')] = Inr base
    \<and> encode_page_snapshot demo_layout [3, 2] [(''a'', ''ppqqrr''), (''b'', ''yz'')] = Inr result
    \<and> plan_page_snapshot demo_layout base [2, 1] None = Inr p
    \<and> decode_page_snapshot demo_layout base [2, 1] = Inr [(''a'', ''ppqq''), (''b'', ''x'')]
    \<and> decode_page_snapshot demo_layout result [3, 2] = Inr [(''a'', ''ppqqrr''), (''b'', ''yz'')]
    \<and> length base < 2 ^ 20"
proof -
  obtain base result where e: "encode_page_snapshot demo_layout [2, 1] [(''a'', ''ppqq''), (''b'', ''x'')] = Inr base"
    "encode_page_snapshot demo_layout [3, 2] [(''a'', ''ppqqrr''), (''b'', ''yz'')] = Inr result" "length base < 2 ^ 20"
    using demo_snapshot [of 2 1 "''ppqq''" "''x''"] demo_snapshot [of 3 2 "''ppqqrr''" "''yz''"] by auto
  have "\<exists>p. plan_page_snapshot demo_layout base [2, 1] None = Inr p"
    using plan_snapshot_of [OF demo_layout_good encode_snapshot_of(1) [OF e(1)]] by blast
  moreover have "decode_page_snapshot demo_layout base [2, 1] = Inr [(''a'', ''ppqq''), (''b'', ''x'')]"
    "decode_page_snapshot demo_layout result [3, 2] = Inr [(''a'', ''ppqqrr''), (''b'', ''yz'')]"
    using decode_snapshot_of [OF demo_layout_good encode_snapshot_of(1) [OF e(1)]]
      decode_snapshot_of [OF demo_layout_good encode_snapshot_of(1) [OF e(2)]]
    by (simp_all add: demo_layout_def demo_group_def layout_layers_def payload_of_def)
  ultimately show ?thesis using e by blast
qed

theorem page_snapshot_roundtrip_witness:
  "\<exists>s. encode_page_snapshot demo_layout [2, 1] [(''a'', ''ppqq''), (''b'', ''x'')] = Inr s
    \<and> bindE (decode_page_snapshot demo_layout s [2, 1]) (\<lambda>qs. Inr (map_of qs)) = Inr (map_of [(''a'', ''ppqq''), (''b'', ''x'')])"
proof -
  obtain s where s: "encode_page_snapshot demo_layout [2, 1] [(''a'', ''ppqq''), (''b'', ''x'')] = Inr s"
    using demo_snapshot [of 2 1 "''ppqq''" "''x''"] by auto
  then show ?thesis using page_snapshot_roundtrip [OF demo_layout_good s] by blast
qed

text \<open>The first group keeps its two pages, the second none.\<close>

lemma demo_reuse: "group_reuse demo_layout [(''a'', ''ppqq''), (''b'', ''x'')] [(''a'', ''ppqqrr''), (''b'', ''yz'')] [2, 1] = [2, 0]"
proof -
  have "[0..<2::nat] = [0, 1]" "[0..<Suc 0] = [0]" by (simp_all add: upt_rec)
  then show ?thesis
    by (simp add: group_reuse_def demo_layout_def demo_group_def reusable_pages_def page_at_def payload_of_def py_slice_inside)
qed

lemma demo_tails: "result_tails demo_layout [(''a'', ''ppqqrr''), (''b'', ''yz'')] [2, 0] = [(''a'', ''rr''), (''b'', ''yz'')]"
  by (simp add: result_tails_def demo_slots payload_of_def)

lemma demo_delta:
  "\<exists>base result p delta. encode_page_snapshot demo_layout [3, 2] [(''a'', ''ppqqrr''), (''b'', ''yz'')] = Inr result
    \<and> plan_page_snapshot demo_layout base [2, 1] None = Inr p
    \<and> encode_page_delta demo_layout base result [2, 1] [3, 2] 4 8 None ''sha256'' None = Inr delta
    \<and> length base < 2 ^ 20 \<and> length delta < 2 ^ 20"
proof -
  obtain base result p where e: "encode_page_snapshot demo_layout [3, 2] [(''a'', ''ppqqrr''), (''b'', ''yz'')] = Inr result"
    "plan_page_snapshot demo_layout base [2, 1] None = Inr p"
    "decode_page_snapshot demo_layout base [2, 1] = Inr [(''a'', ''ppqq''), (''b'', ''x'')]"
    "decode_page_snapshot demo_layout result [3, 2] = Inr [(''a'', ''ppqqrr''), (''b'', ''yz'')]" "length base < 2 ^ 20"
    using demo_delta_ingredients by blast
  let ?v = "delta_header ''sha256'' demo_layout (sha256 base) (sha256 result) [2, 1] [3, 2] 4 8 [2, 0] [(''a'', ''rr''), (''b'', ''yz'')]"
  have bound: "json_bound ?v < 2 ^ 16" by (simp add: delta_header_def tail_descriptor_def DELTA_SCHEMA_V1_def)
  then have "json_bound ?v < 2 ^ 32" by simp
  from framed_small [OF this] obtain h where h: "framed DELTA_MAGIC ?v = Inr h" "length h \<le> length DELTA_MAGIC + 4 + json_bound ?v"
    by blast
  have "length (h @ ''rryz'') < 2 ^ 20" using h(2) bound by simp
  moreover have "encode_page_delta demo_layout base result [2, 1] [3, 2] 4 8 None ''sha256'' None = Inr (h @ ''rryz'')"
    using e(3,4) h(1)
    by (simp add: encode_page_delta_def validate_delta_boundaries_def check_integrity_def PAYLOAD_INTEGRITY_MODES_def base_digest_def
        extends_counts_def demo_names demo_reuse demo_tails Let_def)
  ultimately show ?thesis using e(1,2,5) by blast
qed

theorem page_delta_roundtrip_witness:
  "\<exists>base result delta. encode_page_delta demo_layout base result [2, 1] [3, 2] 4 8 None ''sha256'' None = Inr delta
    \<and> apply_page_delta demo_layout base delta [2, 1] [3, 2] 4 8 = Inr result"
  using demo_delta page_delta_roundtrip [OF demo_layout_good] by blast

text \<open>A capture of \<open>rr\<close> and \<open>yz\<close> over the same base.\<close>

lemma demo_capture_encodes:
  assumes "plan_page_snapshot demo_layout base [2, 1] None = Inr p" "encode_page_snapshot demo_layout [3, 2] ps = Inr s"
  shows "\<exists>delta r. encode_page_delta_from_capture_with_result demo_layout (Plain base) (Buffer ''rryz'') [2, 1] [3, 2] [2, 0] 4 8
    None ''sha256'' None = Inr (delta, r)"
proof -
  obtain pre bs where l: "laid_out demo_layout [2, 1] pre bs base" using plan_laid_out [OF demo_layout_good assms(1)] by blast
  then obtain x y where bs: "bs = [x, y]" "length x = 4" "length y = 1"
    by (auto simp: laid_out_def demo_slots slot_bytes_def)
  have b: "base = pre @ x @ y" "plan_page_snapshot demo_layout base [2, 1] (Some (int (length base))) = Inr \<lparr>sn_header = int (length pre),
      sn_total = int (length base), sn_counts = [2, 1], sn_spans = spans_from (int (length pre)) (layer_counts demo_layout [2, 1])\<rparr>"
    using l bs(1) laid_out_plan [OF l] by (simp_all add: plan_whole) (simp add: laid_out_def)
  obtain h where h: "encode_page_snapshot_header demo_layout [3, 2] = Inr h"
    using assms(2) by (auto simp: encode_page_snapshot_def bindE_Inr split: if_splits)
  have slots: "capture_slots demo_layout [2, 0] [3, 2] = [(\<lparr>pl_name = ''a'', pl_dtype = ''u8'', pl_shape = [2], pl_page = 2\<rparr>, 2, 1),
      (\<lparr>pl_name = ''b'', pl_dtype = ''u8'', pl_shape = [1], pl_page = 1\<rparr>, 0, 2)]"
    by (simp add: capture_slots_def demo_layout_def demo_group_def)
  have tails: "capture_tails (Buffer ''rryz'') (capture_slots demo_layout [2, 0] [3, 2]) 0 = Inr ([(''a'', ''rr''), (''b'', ''yz'')], 4)"
    by (simp add: slots py_slice_inside Let_def)
  have prefixes: "map (\<lambda>((l, k, pages), sp). py_slice base (sp_start sp) (sp_start sp + k * pl_page l))
      (zip (capture_slots demo_layout [2, 0] [3, 2]) (spans_from (int (length pre)) (layer_counts demo_layout [2, 1]))) = [x, []]"
    using bs(2,3) by (simp add: slots demo_slots py_slice_inside b(1))
  let ?r = "h @ (x @ ''rr'') @ ''yz''"
  have size: "page_snapshot_encoded_size demo_layout [3, 2] = Inr (int (length ?r))"
    using bs(2) by (simp add: page_snapshot_encoded_size_def h demo_slots)
  let ?v = "delta_header ''sha256'' demo_layout (sha256 base) (sha256 ?r) [2, 1] [3, 2] 4 8 [2, 0] [(''a'', ''rr''), (''b'', ''yz'')]"
  have "json_bound ?v < 2 ^ 32" by (simp add: delta_header_def tail_descriptor_def DELTA_SCHEMA_V1_def)
  from framed_small [OF this] obtain hd where hd: "framed DELTA_MAGIC ?v = Inr hd" by blast
  have checks: "validate_delta_boundaries 4 8 = Inr ()" "check_integrity ''sha256'' None None = Inr ()"
    "captured_counts demo_layout [2, 1] [3, 2] [2, 0] = Inr ()" "base_digest (base_sha_of (Plain base) None) (sha256 base) = Inr (sha256 base)"
    by (simp_all add: validate_delta_boundaries_def check_integrity_def PAYLOAD_INTEGRITY_MODES_def captured_counts_def demo_names base_digest_def)
  have parts: "h @ concat (map2 (\<lambda>p t. p @ snd t) [x, []] [(''a'', ''rr''), (''b'', ''yz'')]) = ?r" by simp
  have "encode_page_delta_from_capture_shared demo_layout (Plain base) (Buffer ''rryz'') [2, 1] [3, 2] [2, 0] 4 8 None True ''sha256'' None
      = Inr (hd @ concat (map snd [(''a'', ''rr''), (''b'', ''yz'')]), Some ?r)"
    by (simp only: encode_page_delta_from_capture_shared_def checks bindE_simps Let_def bytes_of.simps b(2) h size tails prod.case
        snapshot_plan.simps prefixes parts hd simp_thms if_True) (simp add: prefixes parts hd)
  then show ?thesis by (simp add: encode_page_delta_from_capture_with_result_def)
qed

theorem capture_delta_restores_witness:
  "\<exists>base result delta r. encode_page_delta_from_capture_with_result demo_layout (Plain base) (Buffer ''rryz'') [2, 1] [3, 2] [2, 0] 4 8
      None ''sha256'' None = Inr (delta, r)
    \<and> r = result \<and> apply_page_delta demo_layout base delta [2, 1] [3, 2] 4 8 = Inr result
    \<and> materialize_page_extension_capture demo_layout base (Buffer ''rryz'') [2, 1] [3, 2] [2, 0] = Inr result"
proof -
  obtain base result p where e: "encode_page_snapshot demo_layout [3, 2] [(''a'', ''ppqqrr''), (''b'', ''yz'')] = Inr result"
    "plan_page_snapshot demo_layout base [2, 1] None = Inr p"
    "decode_page_snapshot demo_layout base [2, 1] = Inr [(''a'', ''ppqq''), (''b'', ''x'')]"
    using demo_delta_ingredients by blast
  obtain delta r where d: "encode_page_delta_from_capture_with_result demo_layout (Plain base) (Buffer ''rryz'') [2, 1] [3, 2] [2, 0] 4 8
      None ''sha256'' None = Inr (delta, r)"
    using demo_capture_encodes [OF e(2,1)] by blast
  have c: "captured_counts demo_layout [2, 1] [3, 2] [2, 0] = Inr ()"
    by (simp add: captured_counts_def demo_names)
  have u: "unchanged demo_layout [2, 0] [(''a'', ''ppqq''), (''b'', ''x'')] [(''a'', ''ppqqrr''), (''b'', ''yz'')]"
    by (simp add: unchanged_def demo_slots payload_of_def)
  have s: "cap_shows (Buffer ''rryz'') (concat (map snd (result_tails demo_layout [(''a'', ''ppqqrr''), (''b'', ''yz'')] [2, 0])))"
    unfolding demo_tails by (simp add: cap_shows_def)
  show ?thesis using capture_delta_restores [OF demo_layout_good e(2,1) c e(3) u s d] d by blast
qed

end
