(* ===== verification/Page_History_Laws.thy ===== *)
theory Page_History_Laws
  imports Page_Delta_Laws
begin

text \<open>
  What a history of deltas composes to: the fold of the deltas over the base, with every surviving tail
  read once and only the headers of the deltas planned.
\<close>

section \<open>What an accepted plan of a delta says\<close>

text \<open>The extents of the tails, slot by slot.\<close>

definition tail_fits :: "int \<Rightarrow> delta_tail \<Rightarrow> nat \<times> page_layer \<times> int \<times> int \<Rightarrow> bool" where
  "tail_fits limit t = (\<lambda>(gi, l, k, r). dt_offset t = k * pl_page l \<and> dt_end t = dt_start t + (r - k) * pl_page l
     \<and> dt_end t \<le> limit \<and> dt_layer t = pl_name l)"

lemma layer_tails_sound:
  "layer_tails integrity limit gi pages k ls vs offset = Inr (ts, rest, stop) \<Longrightarrow>
    list_all2 (tail_fits limit) ts (map (\<lambda>l. (gi, l, k, pages)) ls)
    \<and> ((\<forall>l\<in>set ls. 0 \<le> (pages - k) * pl_page l) \<longrightarrow> offset \<le> stop \<and> (\<forall>t\<in>set ts. offset \<le> dt_start t))
    \<and> (integrity \<noteq> ''sha256'' \<longrightarrow> (\<forall>t\<in>set ts. dt_sha256 t = None))"
proof (induction integrity limit gi pages k ls vs offset arbitrary: ts rest stop rule: layer_tails.induct)
  case (3 integrity limit gi pages k l ls v vs offset)
  obtain sha crc where c: "checked_tail integrity l ((pages - k) * pl_page l) v = Some (sha, crc)" "offset + (pages - k) * pl_page l \<le> limit"
    using "3.prems" by (auto simp: Let_def split: option.splits if_splits)
  obtain ts' where t: "layer_tails integrity limit gi pages k ls vs (offset + (pages - k) * pl_page l) = Inr (ts', rest, stop)"
    "ts = \<lparr>dt_layer = pl_name l, dt_group = gi, dt_start = offset, dt_end = offset + (pages - k) * pl_page l,
                  dt_offset = k * pl_page l, dt_sha256 = sha, dt_crc32 = crc\<rparr> # ts'"
    using "3.prems" c by (auto simp: Let_def bindE_Inr)
  have sha: "integrity \<noteq> ''sha256'' \<Longrightarrow> sha = None"
    using c(1) by (auto simp: checked_tail_def split: option.splits if_splits)
  have "\<not> limit < offset + (pages - k) * pl_page l" using c(2) by simp
  note IH = "3.IH" [OF refl c(1) refl this t(1)]
  show ?case using IH sha c(2) by (auto simp: t(2) tail_fits_def)
qed auto

lemma group_tails_sound:
  "group_tails integrity limit gi gs vs offset = Inr (ts, stop) \<Longrightarrow>
    \<exists>ks. map (\<lambda>(g, b, r, v). the_int v) gs = map Some ks \<and> list_all2 (\<lambda>x k. 0 \<le> k \<and> k \<le> fst (snd x)) gs ks
    \<and> list_all2 (tail_fits limit) ts (group_slots gi (map fst gs) ks (map (\<lambda>(g, b, r, v). r) gs))
    \<and> ((\<forall>(g, b, r, v)\<in>set gs. b \<le> r \<and> (\<forall>l\<in>set (pg_layers g). 0 \<le> pl_page l)) \<longrightarrow> offset \<le> stop \<and> (\<forall>t\<in>set ts. offset \<le> dt_start t))
    \<and> (integrity \<noteq> ''sha256'' \<longrightarrow> (\<forall>t\<in>set ts. dt_sha256 t = None))"
proof (induction integrity limit gi gs vs offset arbitrary: ts stop rule: group_tails.induct)
  case (2 integrity limit gi g b r v gs vs offset)
  obtain k where k: "the_int v = Some k" "0 \<le> k" "k \<le> b"
    using "2.prems" by (auto split: option.splits if_splits)
  obtain t1 rest mid t2 where t: "layer_tails integrity limit gi r k (pg_layers g) vs offset = Inr (t1, rest, mid)"
    "group_tails integrity limit (gi + 1) gs rest mid = Inr (t2, stop)" "ts = t1 @ t2"
    using "2.prems" k by (auto simp: bindE_Inr split: prod.splits)
  note one = layer_tails_sound [OF t(1)]
  have "\<not> \<not> (0 \<le> k \<and> k \<le> b)" using k by simp
  note IH = "2.IH" [OF k(1) this t(2)]
  then obtain ks where ks: "map (\<lambda>(g, b, r, v). the_int v) gs = map Some ks" "list_all2 (\<lambda>x k. 0 \<le> k \<and> k \<le> fst (snd x)) gs ks"
    "list_all2 (tail_fits limit) t2 (group_slots (gi + 1) (map fst gs) ks (map (\<lambda>(g, b, r, v). r) gs))"
    "(\<forall>(g, b, r, v)\<in>set gs. b \<le> r \<and> (\<forall>l\<in>set (pg_layers g). 0 \<le> pl_page l)) \<Longrightarrow> mid \<le> stop \<and> (\<forall>t\<in>set t2. mid \<le> dt_start t)"
    "integrity \<noteq> ''sha256'' \<Longrightarrow> \<forall>t\<in>set t2. dt_sha256 t = None"
    by blast
  have "offset \<le> stop \<and> (\<forall>t\<in>set ts. offset \<le> dt_start t)"
    if h: "\<forall>(g, b, r, v)\<in>set ((g, b, r, v) # gs). b \<le> r \<and> (\<forall>l\<in>set (pg_layers g). 0 \<le> pl_page l)"
  proof -
    have "\<forall>l\<in>set (pg_layers g). 0 \<le> (r - k) * pl_page l" using h k by auto
    moreover have "\<forall>(g, b, r, v)\<in>set gs. b \<le> r \<and> (\<forall>l\<in>set (pg_layers g). 0 \<le> pl_page l)" using h by simp
    ultimately show ?thesis using one ks(4) t(3) by force
  qed
  moreover have "list_all2 (tail_fits limit) ts (group_slots gi (map fst ((g, b, r, v) # gs)) (k # ks) (map (\<lambda>(g, b, r, v). r) ((g, b, r, v) # gs)))"
    using one ks(3) t(3) by (auto intro: list_all2_appendI)
  moreover have "integrity \<noteq> ''sha256'' \<longrightarrow> (\<forall>t\<in>set ts. dt_sha256 t = None)" using one ks(5) t(3) by auto
  ultimately show ?case using k ks(1,2) by (intro exI [of _ "k # ks"]) auto
qed simp

lemma plan_delta_sound:
  assumes "plan_page_delta lay view bc rc bt rt limit = Inr p"
  shows "dl_base_counts p = bc" "dl_result_counts p = rc" "extends_counts lay bc rc"
    "dl_integrity p \<noteq> ''sha256'' \<longrightarrow> (\<forall>t\<in>set (dl_tails p). dt_sha256 t = None)" (is ?mode)
    "\<exists>ks. length ks = length (lay_groups lay) \<and> (\<forall>(b, k)\<in>set (zip bc ks). 0 \<le> k \<and> k \<le> b)
      \<and> list_all2 (tail_fits (case limit of None \<Rightarrow> int (length view) | Some n \<Rightarrow> n)) (dl_tails p) (group_slots 0 (lay_groups lay) ks rc)
      \<and> ((\<forall>l\<in>set (layout_layers lay). 0 \<le> pl_page l) \<longrightarrow> (\<forall>t\<in>set (dl_tails p). 0 \<le> dt_start t))" (is ?ks)
proof -
  define n where "n = (case limit of None \<Rightarrow> int (length view) | Some n \<Rightarrow> n)"
  obtain hend integrity reused tails stop vs where p: "dl_base_counts p = bc" "dl_result_counts p = rc" "extends_counts lay bc rc"
    "length reused = length (lay_groups lay)" "dl_tails p = tails" "dl_integrity p = integrity" 
    "group_tails integrity n 0 (zip (lay_groups lay) (zip bc (zip rc reused))) vs (int hend) = Inr (tails, stop)"
    using assms unfolding plan_page_delta_def Let_def n_def [symmetric] success_iff the_Some
    by (elim exE conjE) (auto split: prod.splits if_splits option.splits)
  show "dl_base_counts p = bc" "dl_result_counts p = rc" "extends_counts lay bc rc" by fact+
  have len: "length bc = length (lay_groups lay)" "length rc = length (lay_groups lay)" using p(3) by (auto simp: extends_counts_def)
  from group_tails_sound [OF p(7)] obtain ks where ks:
    "map (\<lambda>(g, b, r, v). the_int v) (zip (lay_groups lay) (zip bc (zip rc reused))) = map Some ks"
    "list_all2 (\<lambda>x k. 0 \<le> k \<and> k \<le> fst (snd x)) (zip (lay_groups lay) (zip bc (zip rc reused))) ks"
    "list_all2 (tail_fits n) tails (group_slots 0 (map fst (zip (lay_groups lay) (zip bc (zip rc reused)))) ks
       (map (\<lambda>(g, b, r, v). r) (zip (lay_groups lay) (zip bc (zip rc reused)))))"
    "(\<forall>(g, b, r, v)\<in>set (zip (lay_groups lay) (zip bc (zip rc reused))). b \<le> r \<and> (\<forall>l\<in>set (pg_layers g). 0 \<le> pl_page l)) \<Longrightarrow>
       \<forall>t\<in>set tails. int hend \<le> dt_start t"
    "integrity \<noteq> ''sha256'' \<longrightarrow> (\<forall>t\<in>set tails. dt_sha256 t = None)"
    by blast
  show ?mode using ks(5) p(5,6) by simp
  have lk: "length ks = length (lay_groups lay)" using arg_cong [OF ks(1), of length] len p(4) by simp
  have b: "\<forall>(b, k)\<in>set (zip bc ks). 0 \<le> k \<and> k \<le> b"
    using ks(2) len lk p(4) by (auto simp: list_all2_conv_all_nth in_set_zip)
  have gs: "map fst (zip (lay_groups lay) (zip bc (zip rc reused))) = lay_groups lay"
    "map (\<lambda>(g, b, r, v). r) (zip (lay_groups lay) (zip bc (zip rc reused))) = rc"
    using len p(4) by (auto simp: list_eq_iff_nth_eq)
  have "\<forall>t\<in>set tails. 0 \<le> dt_start t" if l: "\<forall>l\<in>set (layout_layers lay). 0 \<le> pl_page l"
  proof -
    have "b \<le> r" if "(g, b, r, v) \<in> set (zip (lay_groups lay) (zip bc (zip rc reused)))" for g b r v
    proof -
      have "(b, r) \<in> set (zip bc rc)" using that by (auto simp: in_set_zip)
      then show ?thesis using p(3) unfolding extends_counts_def by fast
    qed
    moreover have "0 \<le> pl_page l'" if "(g, x) \<in> set (zip (lay_groups lay) (zip bc (zip rc reused)))" "l' \<in> set (pg_layers g)" for g x l'
      using set_zip_leftD [OF that(1)] that(2) l by (auto simp: layout_layers_def)
    ultimately have "\<forall>(g, b, r, v)\<in>set (zip (lay_groups lay) (zip bc (zip rc reused))). b \<le> r \<and> (\<forall>l\<in>set (pg_layers g). 0 \<le> pl_page l)"
      by fast
    then show ?thesis using ks(4) by force
  qed
  then show ?ks using lk b ks(3) unfolding gs n_def [symmetric] p(5) by blast
qed

text \<open>The header alone, with the length of the file, gives the same plan.\<close>

lemma plan_delta_prefix:
  assumes "page_delta_header_prefix encoded = Inr prefix"
  shows "plan_page_delta lay prefix bc rc bt rt (Some (int (length encoded))) = plan_page_delta lay encoded bc rc bt rt None"
proof -
  obtain hend where h: "header_end ''hybrid page delta'' DELTA_MAGIC encoded = Inr hend" "prefix = take hend encoded"
    using assms by (auto simp: page_delta_header_prefix_def bindE_Inr)
  have e: "HEADER_PREFIX + of_little_endian (take 4 (drop 6 encoded)) = hend" "of_little_endian (take 4 (drop 6 encoded)) \<noteq> 0"
    "hend \<le> length encoded" "take 6 encoded = DELTA_MAGIC" "HEADER_PREFIX \<le> hend"
    using h(1) by (auto simp: header_end_def Let_def split: if_splits)
  have "take 6 (take hend encoded) = DELTA_MAGIC" "take 4 (drop 6 (take hend encoded)) = take 4 (drop 6 encoded)"
    using e(4,5) by (simp_all add: HEADER_PREFIX_def drop_take min_def)
  then have end1: "header_end ''hybrid page delta'' DELTA_MAGIC prefix = Inr hend"
    unfolding h(2) header_end_def Let_def using e by simp
  have t: "take hend prefix = take hend encoded" by (simp add: h(2))
  have c: "(int (length encoded) < int hend) = False" "(int (length encoded) < int (length prefix)) = False"
    "(int (length encoded) < int (length encoded)) = False"
    using e(3) by (simp_all add: h(2))
  show ?thesis
    by (simp only: plan_page_delta_def Let_def end1 h(1) bindE_simps t option.case c simp_thms if_False)
qed

lemma plan_delta_whole: "plan_page_delta lay s bc rc bt rt (Some (int (length s))) = plan_page_delta lay s bc rc bt rt None"
  by (simp only: plan_page_delta_def option.case)

section \<open>One application\<close>

definition tail_of :: "string \<Rightarrow> delta_tail \<Rightarrow> string" where
  "tail_of encoded t = py_slice encoded (dt_start t) (dt_end t)"

lemma delta_parts_Inr:
  "length ts = length sps \<Longrightarrow> delta_parts base encoded (zip ts sps) = Inr parts \<Longrightarrow>
    (\<forall>t\<in>set ts. dt_sha256 t = Some (sha256 (tail_of encoded t)))
    \<and> parts = concat (map2 (\<lambda>t sp. [py_slice base (sp_start sp) (sp_start sp + dt_offset t), tail_of encoded t]) ts sps)"
  by (induction ts sps arbitrary: parts rule: list_induct2) (auto simp: Let_def bindE_Inr tail_of_def split: if_splits)

text \<open>A successful application, layer by layer.\<close>

lemma apply_Inr:
  assumes lay: "good_layout lay" and base: "laid_out lay bc pre bs (vs_payload v)"
    and ap: "apply_verified_page_delta lay v encoded bc rc bt rt = Inr v'"
  shows "\<exists>p h rb. plan_page_delta lay encoded bc rc bt rt None = Inr p
    \<and> dl_base_counts p = bc \<and> dl_base_sha256 p = vs_sha256 v \<and> dl_result_counts p = rc \<and> dl_result_sha256 p = vs_sha256 v'
    \<and> dl_integrity p = ''sha256'' \<and> extends_counts lay bc rc
    \<and> encode_page_snapshot_header lay rc = Inr h \<and> laid_out lay rc h rb (vs_payload v') \<and> vs_sha256 v' = sha256 (vs_payload v')
    \<and> length (dl_tails p) = length (layout_layers lay)
    \<and> (\<forall>j<length (layout_layers lay). let t = dl_tails p ! j in
        0 \<le> dt_offset t \<and> dt_offset t \<le> int (length (bs ! j)) \<and> int (length (tail_of encoded t)) = dt_end t - dt_start t
        \<and> 0 \<le> dt_start t \<and> dt_end t \<le> int (length encoded)
        \<and> dt_sha256 t = Some (sha256 (tail_of encoded t)) \<and> rb ! j = take (nat (dt_offset t)) (bs ! j) @ tail_of encoded t)"
proof -
  note whole = plan_delta_whole
  let ?sps = "spans_from (int (length pre)) (layer_counts lay bc)"
  obtain p h parts where p: "plan_page_delta lay encoded bc rc bt rt None = Inr p" "dl_base_sha256 p = vs_sha256 v"
    "encode_page_snapshot_header lay rc = Inr h" "length (dl_tails p) = length ?sps"
    "delta_parts (vs_payload v) encoded (zip (dl_tails p) ?sps) = Inr parts"
    "sha256 (h @ concat parts) = dl_result_sha256 p" "v' = \<lparr>vs_payload = h @ concat parts, vs_sha256 = sha256 (h @ concat parts)\<rparr>"
    using ap plan_delta_sound(1,2) laid_out_plan [OF base]
    by (auto simp: apply_verified_page_delta_def whole bindE_Inr Let_def split: if_splits)
  note d = plan_delta_sound [OF p(1)] and q = delta_parts_Inr [OF p(4,5)]
  have bl: "map (\<lambda>b. int (length b)) bs = map slot_bytes (layer_counts lay bc)" and lb: "length bc = length (lay_groups lay)"
    and base_eq: "vs_payload v = pre @ concat bs" using base by (simp_all add: laid_out_def)
  obtain ks where ks: "length ks = length (lay_groups lay)" "\<forall>(b, k)\<in>set (zip bc ks). 0 \<le> k \<and> k \<le> b"
    "list_all2 (tail_fits (int (length encoded))) (dl_tails p) (group_slots 0 (lay_groups lay) ks rc)"
    "\<forall>t\<in>set (dl_tails p). 0 \<le> dt_start t"
    using d(5) good_layout_facts(3) [OF lay] by (auto simp: less_imp_le)
  have lr: "length rc = length (lay_groups lay)" using d(3) by (auto simp: extends_counts_def)
  let ?n = "length (layout_layers lay)"
  have lt: "length (dl_tails p) = ?n" using p(4) lb by simp
  note B = laid_lengths [OF bl lb]
  have at: "\<exists>g. layer_counts lay ks ! j = (g, layout_layers lay ! j, ks ! g)
      \<and> layer_counts lay rc ! j = (g, layout_layers lay ! j, rc ! g)
      \<and> dt_offset (dl_tails p ! j) = ks ! g * pl_page (layout_layers lay ! j) \<and> 0 \<le> dt_offset (dl_tails p ! j)
      \<and> dt_offset (dl_tails p ! j) \<le> int (length (bs ! j))
      \<and> int (length (tail_of encoded (dl_tails p ! j))) = dt_end (dl_tails p ! j) - dt_start (dl_tails p ! j)
      \<and> 0 \<le> dt_start (dl_tails p ! j) \<and> dt_end (dl_tails p ! j) \<le> int (length encoded)
      \<and> dt_end (dl_tails p ! j) - dt_start (dl_tails p ! j) = (rc ! g - ks ! g) * pl_page (layout_layers lay ! j)"
    if j: "j < ?n" for j
  proof -
    obtain g where g: "g < length (lay_groups lay)"
      "\<And>ks. length ks = length (lay_groups lay) \<Longrightarrow> layer_counts lay ks ! j = (g, layout_layers lay ! j, ks ! g)"
      using slot_at [OF j] by blast
    let ?t = "dl_tails p ! j" and ?l = "layout_layers lay ! j"
    have pos: "0 < pl_page ?l" using good_layout_facts(3) [OF lay] j by simp
    have "(bc ! g, ks ! g) \<in> set (zip bc ks)" "(bc ! g, rc ! g) \<in> set (zip bc rc)"
      using g(1) lb lr ks(1) by (auto simp: in_set_zip)
    then have k: "0 \<le> ks ! g \<and> ks ! g \<le> bc ! g" "bc ! g \<le> rc ! g"
      using ks(2) d(3) unfolding extends_counts_def by fast+
    have "tail_fits (int (length encoded)) ?t (group_slots 0 (lay_groups lay) ks rc ! j)"
      using list_all2_nthD [OF ks(3), of j] j lt by simp
    moreover have "group_slots 0 (lay_groups lay) ks rc ! j = (g, ?l, ks ! g, rc ! g)"
      using j ks(1) lr g(2) [OF ks(1)] g(2) [OF lr] by (simp add: group_slots_map2 layer_counts_slots [symmetric])
    ultimately have f: "dt_offset ?t = ks ! g * pl_page ?l" "dt_end ?t = dt_start ?t + (rc ! g - ks ! g) * pl_page ?l"
      "dt_end ?t \<le> int (length encoded)" by (simp_all add: tail_fits_def)
    have st: "0 \<le> dt_start ?t" using ks(4) j lt by simp
    have nn: "0 \<le> (rc ! g - ks ! g) * pl_page ?l" using k pos by simp
    have "int (length (tail_of encoded ?t)) = dt_end ?t - dt_start ?t"
      unfolding tail_of_def using st nn f(2,3) by (subst py_slice_inside) auto
    moreover have "dt_offset ?t \<le> int (length (bs ! j))" using B(2) [OF j] g(2) [OF lb] k pos by (simp add: f(1) mult_right_mono)
    ultimately show ?thesis using f st k(1) pos g(2) [OF ks(1)] g(2) [OF lr] by (intro exI [of _ g]) simp
  qed
  define rb where "rb = map2 (\<lambda>b t. take (nat (dt_offset t)) b @ tail_of encoded t) bs (dl_tails p)"
  have lrb: "length rb = ?n" using B(1) lt by (simp add: rb_def)
  have rj: "rb ! j = take (nat (dt_offset (dl_tails p ! j))) (bs ! j) @ tail_of encoded (dl_tails p ! j)" if "j < ?n" for j
    using that B(1) lt by (simp add: rb_def)
  have rl: "map (\<lambda>b. int (length b)) rb = map slot_bytes (layer_counts lay rc)"
  proof (rule nth_equalityI)
    fix j assume "j < length (map (\<lambda>b. int (length b)) rb)"
    then have j: "j < ?n" using lrb by simp
    then show "map (\<lambda>b. int (length b)) rb ! j = map slot_bytes (layer_counts lay rc) ! j"
      using at [OF j] lrb lr by (auto simp: rj [OF j] left_diff_distrib min_def)
  qed (simp add: lrb lr)
  have fit: "list_all2 slot_fits (layer_counts lay bc) (layer_counts lay ks)"
    unfolding layer_counts_slots
    by (rule slots_fit) (use ks(1,2) lb good_layout_facts(3) [OF lay] in \<open>auto simp: layout_layers_def\<close>)
  have prefixes: "map2 (\<lambda>t sp. py_slice (vs_payload v) (sp_start sp) (sp_start sp + dt_offset t)) (dl_tails p) ?sps
      = map2 (\<lambda>b t. take (nat (dt_offset t)) b) bs (dl_tails p)"
  proof -
    have "map2 (\<lambda>t sp. py_slice (vs_payload v) (sp_start sp) (sp_start sp + dt_offset t)) (dl_tails p) ?sps
        = map2 (\<lambda>(gi, l, k) sp. py_slice (vs_payload v) (sp_start sp) (sp_start sp + k * pl_page l)) (layer_counts lay ks) ?sps"
      by (rule nth_equalityI) (use at lt lb ks(1) in fastforce)+
    also have "\<dots> = map2 (\<lambda>b (gi, l, k). take (nat (k * pl_page l)) b) bs (layer_counts lay ks)"
      unfolding base_eq by (rule kept_prefixes [OF fit bl refl])
    also have "\<dots> = map2 (\<lambda>b t. take (nat (dt_offset t)) b) bs (dl_tails p)"
      by (rule nth_equalityI) (use at lt B(1) ks(1) in fastforce)+
    finally show ?thesis .
  qed
  have zipped: "concat (concat (map2 (\<lambda>t sp. [f t sp, g t]) ts sps)) = concat (map2 (\<lambda>p b. p @ b) (map2 f ts sps) (map g ts))"
    if "length ts = length sps" for f g and ts :: "delta_tail list" and sps :: "page_span list"
    using that by (induction ts sps rule: list_induct2) auto
  have rb: "map2 (\<lambda>p b. p @ b) (map2 (\<lambda>b t. take (nat (dt_offset t)) b) bs (dl_tails p)) (map (tail_of encoded) (dl_tails p)) = rb"
    by (rule nth_equalityI) (use B(1) lt in \<open>auto simp: rb_def\<close>)
  have body: "concat parts = concat rb" unfolding conjunct2 [OF q] zipped [OF p(4)] prefixes rb ..
  have plen: "int (length (concat rb)) = payload_bytes lay rc" using sum_lengths [OF rl] by (simp add: payload_bytes_def)
  have laid: "laid_out lay rc h rb (vs_payload v')"
    using plan_written [OF lay p(3), where limit = None and rest = "concat rb"] plen rl lr body by (simp add: laid_out_def p(7))
  have "0 < ?n" using lay by (cases "lay_groups lay") (auto simp: good_layout_def PageLayout_def PageGroup_def layout_layers_def Let_def split: if_splits)
  then have mode: "dl_integrity p = ''sha256''" using d(4) q lt by (metis length_greater_0_conv nth_mem option.distinct(1))
  show ?thesis
    using p(1-3) d(1-3) p(6,7) mode laid lt at q rj
    by (intro exI [of _ p] exI [of _ h] exI [of _ rb]) (auto simp: Let_def)
qed

section \<open>Owned ranges\<close>

text \<open>The ranges \<open>rs\<close> cover the text \<open>b\<close> from position \<open>c\<close> on: each is a piece of the base or the start of
  the tail its stage wrote.\<close>

fun covers :: "string \<Rightarrow> (nat \<Rightarrow> string) \<Rightarrow> int \<Rightarrow> owned_range list \<Rightarrow> string \<Rightarrow> bool" where
  "covers base ts c [] b \<longleftrightarrow> b = []"
| "covers base ts c ((a, e, owner, source) # rs) b \<longleftrightarrow> a = c \<and> a \<le> e \<and> e - a \<le> int (length b)
     \<and> take (nat (e - a)) b = (case owner of None \<Rightarrow> py_slice base source (source + e - a) | Some s \<Rightarrow> take (nat (e - a)) (ts s))
     \<and> (case owner of None \<Rightarrow> 0 \<le> source \<and> source + e - a \<le> int (length base) | Some s \<Rightarrow> e - a \<le> int (length (ts s)))
     \<and> covers base ts e rs (drop (nat (e - a)) b)"

lemma covers_kept:
  "covers base ts c rs b \<Longrightarrow> c \<le> cutoff \<Longrightarrow> cutoff \<le> c + int (length b) \<Longrightarrow>
    covers base ts c (kept_ranges cutoff rs) (take (nat (cutoff - c)) b)
    \<and> (if kept_ranges cutoff rs = [] then cutoff = c else fst (snd (last (kept_ranges cutoff rs))) = cutoff)"
proof (induction cutoff rs arbitrary: b c rule: kept_ranges.induct)
  case (2 cutoff a e owner source rs)
  have c: "a = c" "a \<le> e" "e - a \<le> int (length b)" "covers base ts e rs (drop (nat (e - a)) b)"
    "take (nat (e - a)) b = (case owner of None \<Rightarrow> py_slice base source (source + e - a) | Some s \<Rightarrow> take (nat (e - a)) (ts s))"
    "case owner of None \<Rightarrow> 0 \<le> source \<and> source + e - a \<le> int (length base) | Some s \<Rightarrow> e - a \<le> int (length (ts s))"
    using "2.prems"(1) unfolding covers.simps by blast+
  show ?case
  proof (cases "a \<ge> cutoff")
    case True
    then show ?thesis using "2.prems"(2) c(1) by simp
  next
    case False
    show ?thesis
    proof (cases "e \<le> cutoff")
      case True
      have len: "cutoff \<le> e + int (length (drop (nat (e - a)) b))" using "2.prems"(3) c by simp
      have split: "drop (nat (e - a)) (take (nat (cutoff - a)) b) = take (nat (cutoff - e)) (drop (nat (e - a)) b)"
      proof -
        have "nat (cutoff - a) - nat (e - a) = nat (cutoff - e)" using True c(2) by linarith
        then show ?thesis by (simp add: drop_take)
      qed
      show ?thesis using "2.IH" [OF False c(4) True len] False True c by (auto simp: split [unfolded c(1)] min_def nat_le_eq_zle)
    next
      case short: False
      have "kept_ranges cutoff rs = []" using c(4) short by (cases rs) auto
      moreover have "take (nat (cutoff - a)) b = (case owner of None \<Rightarrow> py_slice base source (source + cutoff - a) | Some s \<Rightarrow> take (nat (cutoff - a)) (ts s))"
      proof -
        have "take (nat (cutoff - a)) b = take (nat (cutoff - a)) (take (nat (e - a)) b)" using False short by (simp add: min_def)
        then show ?thesis using c(2,5,6) False short by (auto simp: py_slice_inside min_def split: option.splits)
      qed
      moreover obtain t where "take (nat (cutoff - a)) b = t" "int (length t) = cutoff - a"
        using False short c(3) by simp
      ultimately show ?thesis using False short c(1,6) by (auto simp: min_def split: option.splits)
    qed
  qed
qed simp

lemma covers_append:
  "covers base ts c rs b \<Longrightarrow> t = ts s \<Longrightarrow>
    covers base ts c (rs @ (if int (length t) \<noteq> 0 then [(c + int (length b), c + int (length b) + int (length t), Some s, 0)] else [])) (b @ t)"
proof (induction rs arbitrary: b c)
  case (Cons x rs)
  obtain a e owner source where x: "x = (a, e, owner, source)" by (cases x)
  have c: "a = c" "a \<le> e" "e - a \<le> int (length b)" "covers base ts e rs (drop (nat (e - a)) b)"
    using Cons.prems(1) unfolding x covers.simps by blast+
  have len: "e + int (length (drop (nat (e - a)) b)) = c + int (length b)" using c(1-3) by simp
  show ?case
    using Cons.IH [OF c(4) Cons.prems(2), unfolded len] Cons.prems(1) c(3) by (cases "t = []") (auto simp: x)
qed simp

definition owners :: "owned_range list \<Rightarrow> nat set" where
  "owners rs = {s. \<exists>a e source. (a, e, Some s, source) \<in> set rs}"

lemma owners_simps [simp]: "owners [] = {}"
  "owners ((a, e, owner, source) # rs) = (case owner of None \<Rightarrow> owners rs | Some s \<Rightarrow> insert s (owners rs))"
  by (auto simp: owners_def split: option.splits)

lemma owners_append [simp]: "owners (xs @ ys) = owners xs \<union> owners ys"
  by (auto simp: owners_def)

lemma owners_kept: "owners (kept_ranges cutoff rs) \<subseteq> owners rs"
  by (induction cutoff rs rule: kept_ranges.induct) (auto split: option.splits)

lemma stack_tail_covers:
  assumes "covers base ts 0 rs b" "0 \<le> dt_offset t" "dt_offset t \<le> int (length b)" "int (length (ts s)) = dt_end t - dt_start t"
  shows "\<exists>rs'. stack_tail s (t, rs) = Inr rs' \<and> covers base ts 0 rs' (take (nat (dt_offset t)) b @ ts s) \<and> owners rs' \<subseteq> insert s (owners rs)"
proof -
  have k: "covers base ts 0 (kept_ranges (dt_offset t) rs) (take (nat (dt_offset t)) b)"
    "covered_to (kept_ranges (dt_offset t) rs) = dt_offset t"
    using covers_kept [OF assms(1,2)] assms(3) by (auto simp: covered_to_def split: if_splits)
  have len: "int (length (take (nat (dt_offset t)) b)) = dt_offset t" using assms(2,3) by simp
  show ?thesis
    using covers_append [OF k(1) refl, of s] k(2) owners_kept [of "dt_offset t" rs] unfolding len assms(4)
    by (cases "dt_end t = dt_start t") (auto simp: stack_tail_def Let_def)
qed

text \<open>What the reader must return for the tails that own a range.\<close>

definition tail_read :: "delta_plan list \<Rightarrow> (nat \<Rightarrow> delta_tail \<Rightarrow> exn + string) \<Rightarrow> nat \<Rightarrow> (nat \<Rightarrow> string) \<Rightarrow> nat \<Rightarrow> bool" where
  "tail_read plans read_tail j ts s \<longleftrightarrow> (let t = dl_tails (plans ! s) ! j in read_tail s t = Inr (ts s)
     \<and> int (length (ts s)) = dt_end t - dt_start t \<and> dl_integrity (plans ! s) = ''sha256'' \<and> dt_sha256 t = Some (sha256 (ts s)))"

lemma fill_covers:
  "covers base ts c rs b \<Longrightarrow> \<forall>s\<in>owners rs. tail_read plans read_tail j ts s \<Longrightarrow>
    fill_ranges base plans read_tail j c rs = Inr (b, c + int (length b))"
proof (induction base plans read_tail j c rs arbitrary: b rule: fill_ranges.induct)
  case (2 base plans read_tail j c a e owner source rs)
  have c: "a = c" "a \<le> e" "e - a \<le> int (length b)" "covers base ts e rs (drop (nat (e - a)) b)"
    "take (nat (e - a)) b = (case owner of None \<Rightarrow> py_slice base source (source + e - a) | Some s \<Rightarrow> take (nat (e - a)) (ts s))"
    using "2.prems"(1) unfolding covers.simps by blast+
  have len: "e + int (length (drop (nat (e - a)) b)) = c + int (length b)" using c(1-3) by simp
  have "\<forall>s\<in>owners rs. tail_read plans read_tail j ts s" using "2.prems"(2) by (simp split: option.splits)
  then have rest: "fill_ranges base plans read_tail j e rs = Inr (drop (nat (e - a)) b, c + int (length b))"
    unfolding len [symmetric] by (intro "2.IH" c(4)) (use c(1) in auto)
  have join: "(case owner of None \<Rightarrow> py_slice base source (source + e - a) | Some s \<Rightarrow> take (nat (e - a)) (ts s)) @ drop (nat (e - a)) b = b"
    using c(5) by (metis append_take_drop_id)
  show ?case
  proof (cases owner)
    case None
    then show ?thesis using rest c(1) join by simp
  next
    case (Some s)
    then have "tail_read plans read_tail j ts s" using "2.prems"(2) by simp
    then show ?thesis using rest c(1) join Some by (simp add: tail_read_def Let_def payload_matches_def)
  qed
qed simp

section \<open>Stages\<close>

lemma mapE_nth:
  "(\<And>j. j < length xs \<Longrightarrow> \<exists>y. f (xs ! j) = Inr y \<and> P j y) \<Longrightarrow>
    \<exists>ys. mapE f xs = Inr ys \<and> length ys = length xs \<and> (\<forall>j<length xs. P j (ys ! j))"
proof (induction xs arbitrary: P)
  case (Cons x xs)
  obtain y where y: "f x = Inr y" "P 0 y" using Cons.prems [of 0] by auto
  have "\<exists>y. f (xs ! j) = Inr y \<and> P (Suc j) y" if "j < length xs" for j
    using Cons.prems [of "Suc j"] that by simp
  from Cons.IH [of "\<lambda>j. P (Suc j)", OF this] obtain ys where
    ys: "mapE f xs = Inr ys" "length ys = length xs" "\<forall>j<length xs. P (Suc j) (ys ! j)" by blast
  show ?case using y ys by (intro exI [of _ "y # ys"]) (auto simp: nth_Cons split: nat.splits)
qed simp

text \<open>A stage is the file of a delta with the block counts and the boundary of its result. The reference
  applies the deltas one after the other; the store plans each from its header alone.\<close>

type_synonym page_stage = "string \<times> int list \<times> int"

fun apply_history :: "page_layout \<Rightarrow> verified_snapshot \<Rightarrow> int list \<Rightarrow> int \<Rightarrow> page_stage list \<Rightarrow> exn + verified_snapshot" where
  "apply_history lay v bc bt [] = Inr v"
| "apply_history lay v bc bt ((encoded, rc, rt) # stages) =
     bindE (apply_verified_page_delta lay v encoded bc rc bt rt) (\<lambda>v. apply_history lay v rc rt stages)"

fun history_plans :: "page_layout \<Rightarrow> int list \<Rightarrow> int \<Rightarrow> page_stage list \<Rightarrow> exn + delta_plan list" where
  "history_plans lay bc bt [] = Inr []"
| "history_plans lay bc bt ((encoded, rc, rt) # stages) =
     bindE (page_delta_header_prefix encoded) (\<lambda>prefix.
     bindE (plan_page_delta lay prefix bc rc bt rt (Some (int (length encoded)))) (\<lambda>p.
     bindE (history_plans lay rc rt stages) (\<lambda>ps. Inr (p # ps))))"

definition read_stage :: "page_stage list \<Rightarrow> nat \<Rightarrow> delta_tail \<Rightarrow> exn + string" where
  "read_stage stages s t = Inr (tail_of (fst (stages ! s)) t)"

definition canonical_at :: "page_layout \<Rightarrow> int list \<Rightarrow> string \<Rightarrow> verified_snapshot \<Rightarrow> bool" where
  "canonical_at lay counts pre v \<longleftrightarrow> encode_page_snapshot_header lay counts = Inr pre \<and> vs_sha256 v = sha256 (vs_payload v)"

definition stage_tail :: "page_stage list \<Rightarrow> delta_plan list \<Rightarrow> nat \<Rightarrow> nat \<Rightarrow> string" where
  "stage_tail stages plans j s = tail_of (fst (stages ! s)) (dl_tails (plans ! s) ! j)"

text \<open>Every layer is covered by ranges whose stages can be read.\<close>

definition owned ::
    "(nat \<Rightarrow> delta_tail \<Rightarrow> exn + string) \<Rightarrow> string \<Rightarrow> page_stage list \<Rightarrow> delta_plan list \<Rightarrow> page_layout \<Rightarrow> string list
      \<Rightarrow> owned_range list list \<Rightarrow> bool" where
  "owned read base stages plans lay bs ranges \<longleftrightarrow> length ranges = length (layout_layers lay) \<and> (\<forall>j<length (layout_layers lay).
     covers base (stage_tail stages plans j) 0 (ranges ! j) (bs ! j)
     \<and> (\<forall>s\<in>owners (ranges ! j). tail_read plans read j (stage_tail stages plans j) s))"

text \<open>A reader that gives the tails of the stages.\<close>

definition reads_tails ::
    "(nat \<Rightarrow> delta_tail \<Rightarrow> exn + string) \<Rightarrow> page_stage list \<Rightarrow> delta_plan list \<Rightarrow> bool" where
  "reads_tails read stages plans \<longleftrightarrow>
     (\<forall>k<length stages. \<forall>t\<in>set (dl_tails (plans ! k)). read k t = read_stage stages k t)"

lemma drop_step: "drop n xs = y # ys \<Longrightarrow> xs ! n = y \<and> drop (n + 1) xs = ys"
  by (simp add: nth_via_drop) (metis drop_Suc list.sel(3) tl_drop)

lemma stack_history:
  assumes "good_layout lay" "apply_history lay v bc bt stages = Inr v'" "history_plans lay bc bt stages = Inr ps"
    "laid_out lay bc pre bs (vs_payload v)" "reads_tails read all plans" "owned read base all plans lay bs ranges"
    "drop n plans = ps" "drop n all = stages"
  shows "\<exists>rc pre' bs' ranges'. stack_stages n ps (bc, vs_sha256 v, ranges) = Inr (rc, vs_sha256 v', ranges')
      \<and> laid_out lay rc pre' bs' (vs_payload v') \<and> owned read base all plans lay bs' ranges'
      \<and> (canonical_at lay bc pre v \<or> stages \<noteq> [] \<longrightarrow> canonical_at lay rc pre' v')"
  using assms
proof (induction lay v bc bt stages arbitrary: ps pre bs ranges n rule: apply_history.induct)
  case (1 lay v bc bt)
  then show ?case by auto
next
  case (2 lay v bc bt encoded rc rt stages)
  note lay = "2.prems"(1) and laid = "2.prems"(4) and reads = "2.prems"(5) and own = "2.prems"(6)
  let ?L = "length (layout_layers lay)"
  obtain v1 where v1: "apply_verified_page_delta lay v encoded bc rc bt rt = Inr v1" "apply_history lay v1 rc rt stages = Inr v'"
    using "2.prems"(2) by (auto simp: bindE_Inr)
  obtain prefix p ps' where ps: "page_delta_header_prefix encoded = Inr prefix"
    "plan_page_delta lay prefix bc rc bt rt (Some (int (length encoded))) = Inr p" "history_plans lay rc rt stages = Inr ps'" "ps = p # ps'"
    using "2.prems"(3) by (auto simp: bindE_Inr)
  obtain h rb where a: "dl_base_counts p = bc" "dl_base_sha256 p = vs_sha256 v" "dl_result_counts p = rc" "dl_result_sha256 p = vs_sha256 v1"
    "dl_integrity p = ''sha256''" "encode_page_snapshot_header lay rc = Inr h" "laid_out lay rc h rb (vs_payload v1)"
    "vs_sha256 v1 = sha256 (vs_payload v1)" "length (dl_tails p) = ?L"
    "\<And>j. j < ?L \<Longrightarrow> let t = dl_tails p ! j in
        0 \<le> dt_offset t \<and> dt_offset t \<le> int (length (bs ! j)) \<and> int (length (tail_of encoded t)) = dt_end t - dt_start t
        \<and> 0 \<le> dt_start t \<and> dt_end t \<le> int (length encoded)
        \<and> dt_sha256 t = Some (sha256 (tail_of encoded t)) \<and> rb ! j = take (nat (dt_offset t)) (bs ! j) @ tail_of encoded t"
    using apply_Inr [OF lay laid v1(1)] ps(2) plan_delta_prefix [OF ps(1)] by auto
  have at: "plans ! n = p" "drop (n + 1) plans = ps'" "fst (all ! n) = encoded" "drop (n + 1) all = stages"
    using drop_step [of n plans p ps'] drop_step [of n all "(encoded, rc, rt)" stages] "2.prems"(7,8) ps(4) by simp_all
  have tail: "stage_tail all plans j n = tail_of encoded (dl_tails p ! j)" for j by (simp add: stage_tail_def at)
  have lr: "length ranges = ?L" using own by (simp add: owned_def)
  have "\<exists>rs'. stack_tail n (zip (dl_tails p) ranges ! j) = Inr rs'
      \<and> (covers base (stage_tail all plans j) 0 rs' (rb ! j) \<and> owners rs' \<subseteq> insert n (owners (ranges ! j)))"
    if "j < length (zip (dl_tails p) ranges)" for j
  proof -
    have j: "j < ?L" using that a(9) lr by simp
    have c: "covers base (stage_tail all plans j) 0 (ranges ! j) (bs ! j)" using own j by (simp add: owned_def)
    show ?thesis
      using stack_tail_covers [OF c, of "dl_tails p ! j" n] a(10) [OF j] j a(9) lr by (auto simp: Let_def tail)
  qed
  from mapE_nth [of "zip (dl_tails p) ranges" "stack_tail n"
      "\<lambda>j rs'. covers base (stage_tail all plans j) 0 rs' (rb ! j) \<and> owners rs' \<subseteq> insert n (owners (ranges ! j))", OF this]
  obtain ranges1 where r: "mapE (stack_tail n) (zip (dl_tails p) ranges) = Inr ranges1" "length ranges1 = ?L"
    "\<And>j. j < ?L \<Longrightarrow> covers base (stage_tail all plans j) 0 (ranges1 ! j) (rb ! j)"
    "\<And>j. j < ?L \<Longrightarrow> owners (ranges1 ! j) \<subseteq> insert n (owners (ranges ! j))"
    using a(9) lr by auto
  have "n < length all" using "2.prems"(8) by (cases "n < length all") auto
  then have "read n (dl_tails p ! j) = Inr (tail_of encoded (dl_tails p ! j))" if "j < ?L" for j
    using reads that a(9) by (auto simp: reads_tails_def read_stage_def at)
  then have "tail_read plans read j (stage_tail all plans j) n" if "j < ?L" for j
    using a(10) [OF that] a(5) that by (simp add: tail_read_def at tail Let_def)
  then have own1: "owned read base all plans lay rb ranges1"
    using r own by (fastforce simp: owned_def)
  obtain rc' pre' bs' ranges' where IH: "stack_stages (n + 1) ps' (rc, vs_sha256 v1, ranges1) = Inr (rc', vs_sha256 v', ranges')"
    "laid_out lay rc' pre' bs' (vs_payload v')" "owned read base all plans lay bs' ranges'"
    "canonical_at lay rc h v1 \<or> stages \<noteq> [] \<longrightarrow> canonical_at lay rc' pre' v'"
    using "2.IH" [OF lay v1(2) ps(3) a(7) reads own1 at(2,4)] by blast
  have "canonical_at lay rc h v1" using a(6,8) by (simp add: canonical_at_def)
  moreover have "stack_stages n ps (bc, vs_sha256 v, ranges) = Inr (rc', vs_sha256 v', ranges')"
    using IH(1) r(1) a(1-4,9) lr by (simp add: ps(4))
  ultimately show ?case using IH(2-4) by blast
qed

lemma history_plans_length: "history_plans lay bc bt stages = Inr ps \<Longrightarrow> length ps = length stages"
  by (induction lay bc bt stages arbitrary: ps rule: history_plans.induct) (auto simp: bindE_Inr)

text \<open>A history that applies can be planned from the headers.\<close>

lemma history_planned: "apply_history lay v bc bt stages = Inr v' \<Longrightarrow> \<exists>plans. history_plans lay bc bt stages = Inr plans"
proof (induction lay v bc bt stages rule: apply_history.induct)
  case (2 lay v bc bt encoded rc rt stages)
  obtain v1 where v1: "apply_verified_page_delta lay v encoded bc rc bt rt = Inr v1" "apply_history lay v1 rc rt stages = Inr v'"
    using "2.prems" by (auto simp: bindE_Inr)
  obtain p where p: "plan_page_delta lay encoded bc rc bt rt None = Inr p"
    using v1(1) by (auto simp: apply_verified_page_delta_def bindE_Inr plan_delta_whole)
  then obtain prefix where "page_delta_header_prefix encoded = Inr prefix"
    by (auto simp: plan_page_delta_def page_delta_header_prefix_def bindE_Inr)
  then show ?case using p plan_delta_prefix "2.IH" [OF v1(2)] by auto
qed simp

lemma span_lengths: "map (\<lambda>sp. sp_end sp - sp_start sp) (spans_from offset slots) = map slot_bytes slots"
  by (induction offset slots rule: spans_from.induct) auto

lemma span_bounds:
  "\<forall>x\<in>set slots. 0 \<le> slot_bytes x \<Longrightarrow> sp \<in> set (spans_from offset slots) \<Longrightarrow>
    offset \<le> sp_start sp \<and> sp_start sp \<le> sp_end sp \<and> sp_end sp \<le> offset + sum_list (map slot_bytes slots)"
proof (induction offset slots rule: spans_from.induct)
  case (2 offset gi l c slots)
  have "0 \<le> sum_list (map slot_bytes slots)" using "2.prems"(1) by (intro sum_list_nonneg) auto
  then show ?case using "2.prems" "2.IH" by (auto split: if_splits)
qed simp

text \<open>Composing with any reader of the tails.\<close>

lemma compose_history:
  assumes "good_layout lay" "plan_page_snapshot lay (vs_payload v) bc None = Inr p" "stages \<noteq> []"
    and "apply_history lay v bc bt stages = Inr v'" and planned: "history_plans lay bc bt stages = Inr plans"
    and reads: "reads_tails read stages plans"
  shows "compose_page_history lay (Verified v) bc plans read = Inr v'"
proof -
  obtain pre bs where l: "laid_out lay bc pre bs (vs_payload v)" using plan_laid_out [OF assms(1,2)] by blast
  note plan = laid_out_plan [OF l]
  have bl: "map (\<lambda>b. int (length b)) bs = map slot_bytes (layer_counts lay bc)" "length bc = length (lay_groups lay)" "vs_payload v = pre @ concat bs"
    using l by (simp_all add: laid_out_def)
  let ?L = "length (layout_layers lay)"
  let ?sps = "spans_from (int (length pre)) (layer_counts lay bc)"
  let ?ranges = "map (\<lambda>sp. [(0, sp_end sp - sp_start sp, None, sp_start sp)]) ?sps"
  have "owned read (vs_payload v) stages plans lay bs ?ranges"
    unfolding owned_def
  proof (intro conjI allI impI ballI)
    show "length ?ranges = ?L" using bl(2) by simp
    fix j assume j: "j < ?L"
    let ?sp = "?sps ! j"
    have pos: "\<forall>c\<in>set bc. 0 \<le> c" using plan_sound(3) [OF assms(2)] by auto
    have "?sp \<in> set ?sps" using j bl(2) by simp
    then have sp: "int (length pre) \<le> sp_start ?sp" "sp_start ?sp \<le> sp_end ?sp" "sp_end ?sp \<le> int (length (vs_payload v))"
      using span_bounds [of "layer_counts lay bc" ?sp "int (length pre)"] slot_bytes_nonneg [OF assms(1) pos] sum_lengths [OF bl(1)]
      by (auto simp: bl(3))
    have cut: "py_slice (vs_payload v) (sp_start ?sp) (sp_end ?sp) = bs ! j"
      using arg_cong [OF cut_concat [OF bl(1) refl, of pre], of "\<lambda>xs. xs ! j"] j bl(2) by (simp add: bl(3))
    then have "int (length (bs ! j)) = sp_end ?sp - sp_start ?sp"
      using sp by (subst cut [symmetric], subst py_slice_inside) auto
    then show "covers (vs_payload v) (stage_tail stages plans j) 0 (?ranges ! j) (bs ! j)"
      using j bl(2) sp cut by simp
    fix s assume "s \<in> owners (?ranges ! j)"
    then show "tail_read plans read j (stage_tail stages plans j) s" using j bl(2) by simp
  qed
  from stack_history [OF assms(1,4) planned l reads this, of 0] obtain rc pre' bs' ranges where
    s: "stack_stages 0 plans (bc, vs_sha256 v, ?ranges) = Inr (rc, vs_sha256 v', ranges)"
    "laid_out lay rc pre' bs' (vs_payload v')" "owned read (vs_payload v) stages plans lay bs' ranges" "canonical_at lay rc pre' v'"
    using assms(3) by auto
  have r: "map (\<lambda>b. int (length b)) bs' = map slot_bytes (layer_counts lay rc)" "length rc = length (lay_groups lay)" "vs_payload v' = pre' @ concat bs'"
    using s(2) by (simp_all add: laid_out_def)
  have c: "encode_page_snapshot_header lay rc = Inr pre'" "vs_sha256 v' = sha256 (vs_payload v')"
    using s(4) by (simp_all add: canonical_at_def)
  let ?rs = "spans_from (int (length pre')) (layer_counts lay rc)"
  have header: "plan_page_snapshot lay pre' rc (Some (int (length pre') + payload_bytes lay rc)) = Inr \<lparr>sn_header = int (length pre'),
      sn_total = int (length pre') + payload_bytes lay rc, sn_counts = rc, sn_spans = ?rs\<rparr>"
    using plan_written [OF assms(1) c(1), where limit = "Some (int (length pre') + payload_bytes lay rc)" and rest = "[]"]
      sum_lengths [OF r(1)] by (simp add: payload_bytes_def [symmetric])
  have size: "page_snapshot_encoded_size lay rc = Inr (int (length pre') + payload_bytes lay rc)"
    using c(1) by (simp add: page_snapshot_encoded_size_def payload_bytes_def)
  have lr: "length ranges = ?L" using s(3) by (simp add: owned_def)
  let ?xs = "zip [0..<length ranges] (zip ?rs ranges)"
  have "\<exists>y. fill_layer (vs_payload v) plans read (?xs ! j) = Inr y \<and> y = bs' ! j" if "j < length ?xs" for j
  proof -
    have j: "j < ?L" using that lr by simp
    have "fill_ranges (vs_payload v) plans read j 0 (ranges ! j) = Inr (bs' ! j, 0 + int (length (bs' ! j)))"
      by (rule fill_covers [where ts = "stage_tail stages plans j"]) (use s(3) j in \<open>simp_all add: owned_def\<close>)
    moreover have "sp_end (?rs ! j) - sp_start (?rs ! j) = int (length (bs' ! j))"
      using arg_cong [OF span_lengths [of "int (length pre')" "layer_counts lay rc"], of "\<lambda>xs. xs ! j"] laid_lengths(2) [OF r(1,2) j] j r(2) by simp
    ultimately show ?thesis using j lr r(2) by (simp add: fill_layer_def)
  qed
  from mapE_nth [of ?xs _ "\<lambda>j y. y = bs' ! j", OF this] obtain ys where
    ys: "mapE (fill_layer (vs_payload v) plans read) ?xs = Inr ys" "length ys = ?L" "\<forall>j<?L. ys ! j = bs' ! j"
    using lr r(2) by auto
  have "ys = bs'" using ys(2,3) laid_lengths(1) [OF r(1,2)] by (simp add: list_eq_iff_nth_eq)
  moreover have "plans \<noteq> []" using history_plans_length [OF planned] assms(3) by auto
  ultimately show ?thesis
    using planned plan s(1) c header size lr r(2,3) ys(1) by (simp add: compose_page_history_def Let_def)
qed

text \<open>C9: composing a history from the headers of its deltas and the tails that survive gives what applying
  the deltas one after the other gives: the same bytes under the same digest.\<close>

theorem compose_is_apply:
  assumes "good_layout lay" "plan_page_snapshot lay (vs_payload v) bc None = Inr p" "stages \<noteq> []"
    and "apply_history lay v bc bt stages = Inr v'"
  shows "\<exists>plans. history_plans lay bc bt stages = Inr plans
    \<and> compose_page_history lay (Verified v) bc plans (read_stage stages) = Inr v'"
proof -
  obtain plans where planned: "history_plans lay bc bt stages = Inr plans" using history_planned [OF assms(4)] by blast
  then show ?thesis using compose_history [OF assms planned] by (auto simp: reads_tails_def)
qed

section \<open>Stage by stage\<close>

definition run_page_history :: "page_stage list \<Rightarrow> page_history \<Rightarrow> (unit, page_history) outcome" where
  "run_page_history = run_all (\<lambda>(encoded, rc, rt) h. history_apply encoded (ph_counts h) rc (ph_boundary h) rt h)"

definition history_at :: "page_layout \<Rightarrow> verified_snapshot \<Rightarrow> int list \<Rightarrow> int \<Rightarrow> string \<Rightarrow> string list \<Rightarrow> page_history" where
  "history_at lay v bc bt pre bs = \<lparr>ph_layout = lay, ph_counts = bc, ph_boundary = bt, ph_sha256 = vs_sha256 v,
     ph_valid = True, ph_header = pre, ph_layers = bs\<rparr>"

lemma py_slice_join:
  assumes "0 \<le> a" "a \<le> m" "m \<le> b" "b \<le> int (length xs)" shows "py_slice xs a m @ py_slice xs m b = py_slice xs a b"
proof -
  define i where "i = nat a"
  define j where "j = nat (m - a)"
  define k where "k = nat (b - m)"
  have n: "nat a = i" "nat m = j + i" "nat (b - a) = j + k" "nat (m - a) = j" "nat (b - m) = k"
    using assms by (simp_all add: i_def j_def k_def)
  show ?thesis using assms by (simp add: py_slice_inside n take_add)
qed

lemma overwrite_tail:
  assumes "0 \<le> dt_offset t" "dt_offset t \<le> int (length b)" "int (length (tail_of encoded t)) = dt_end t - dt_start t"
    "int (length b) \<le> int (length (take (nat (dt_offset t)) b @ tail_of encoded t))" "0 \<le> dt_start t" "dt_end t \<le> int (length encoded)"
  shows "overwrite encoded b t = take (nat (dt_offset t)) b @ tail_of encoded t"
proof -
  let ?m = "dt_start t + (int (length b) - dt_offset t)"
  have m: "dt_start t \<le> ?m" "?m \<le> dt_end t" using assms(1-4) by auto
  have "py_slice encoded (dt_start t) ?m @ py_slice encoded ?m (dt_end t) = tail_of encoded t"
    unfolding tail_of_def by (rule py_slice_join [OF assms(5) m assms(6)])
  then show ?thesis by (simp add: overwrite_def Let_def)
qed

lemma slots_grow:
  assumes "good_layout lay" "extends_counts lay bc rc" "j < length (layout_layers lay)"
  shows "slot_bytes (layer_counts lay bc ! j) \<le> slot_bytes (layer_counts lay rc ! j)"
proof -
  have len: "length bc = length (lay_groups lay)" "length rc = length (lay_groups lay)" using assms(2) by (auto simp: extends_counts_def)
  obtain g where g: "g < length (lay_groups lay)"
    "\<And>ks. length ks = length (lay_groups lay) \<Longrightarrow> layer_counts lay ks ! j = (g, layout_layers lay ! j, ks ! g)"
    using slot_at [OF assms(3)] by blast
  have "(bc ! g, rc ! g) \<in> set (zip bc rc)" using g(1) len by (auto simp: in_set_zip)
  then have "bc ! g \<le> rc ! g" using assms(2) unfolding extends_counts_def by fast
  then show ?thesis using good_layout_facts(3) [OF assms(1)] assms(3) by (simp add: g(2) len mult_right_mono less_imp_le)
qed

lemma run_history:
  assumes "good_layout lay" "apply_history lay v bc bt stages = Inr v'" "laid_out lay bc pre bs (vs_payload v)"
  shows "\<exists>rc rt pre' bs'. run_page_history stages (history_at lay v bc bt pre bs) = (Inr (), history_at lay v' rc rt pre' bs')
    \<and> vs_payload v' = pre' @ concat bs'"
  using assms
proof (induction lay v bc bt stages arbitrary: pre bs rule: apply_history.induct)
  case (1 lay v bc bt)
  then show ?case by (auto simp: run_page_history_def laid_out_def)
next
  case (2 lay v bc bt encoded rc rt stages)
  note lay = "2.prems"(1) and laid = "2.prems"(3)
  let ?L = "length (layout_layers lay)"
  obtain v1 where v1: "apply_verified_page_delta lay v encoded bc rc bt rt = Inr v1" "apply_history lay v1 rc rt stages = Inr v'"
    using "2.prems"(2) by (auto simp: bindE_Inr)
  obtain p h rb where a: "plan_page_delta lay encoded bc rc bt rt None = Inr p" "dl_base_sha256 p = vs_sha256 v"
    "dl_result_counts p = rc" "dl_result_sha256 p = vs_sha256 v1" "extends_counts lay bc rc"
    "encode_page_snapshot_header lay rc = Inr h" "laid_out lay rc h rb (vs_payload v1)"
    "vs_sha256 v1 = sha256 (vs_payload v1)" "length (dl_tails p) = ?L"
    "\<And>j. j < ?L \<Longrightarrow> let t = dl_tails p ! j in
        0 \<le> dt_offset t \<and> dt_offset t \<le> int (length (bs ! j)) \<and> int (length (tail_of encoded t)) = dt_end t - dt_start t
        \<and> 0 \<le> dt_start t \<and> dt_end t \<le> int (length encoded)
        \<and> dt_sha256 t = Some (sha256 (tail_of encoded t)) \<and> rb ! j = take (nat (dt_offset t)) (bs ! j) @ tail_of encoded t"
    using apply_Inr [OF lay laid v1(1)] by blast
  have bl: "map (\<lambda>b. int (length b)) bs = map slot_bytes (layer_counts lay bc)" "length bc = length (lay_groups lay)"
    using laid by (simp_all add: laid_out_def)
  have rl: "map (\<lambda>b. int (length b)) rb = map slot_bytes (layer_counts lay rc)" "length rc = length (lay_groups lay)" "vs_payload v1 = h @ concat rb"
    using a(7) by (simp_all add: laid_out_def)
  have "map2 (overwrite encoded) bs (dl_tails p) = rb"
  proof (rule nth_equalityI)
    show "length (map2 (overwrite encoded) bs (dl_tails p)) = length rb"
      using laid_lengths(1) [OF bl] laid_lengths(1) [OF rl(1,2)] a(9) by simp
    fix j assume "j < length (map2 (overwrite encoded) bs (dl_tails p))"
    then have j: "j < ?L" using laid_lengths(1) [OF bl] a(9) by simp
    note f = a(10) [OF j, unfolded Let_def]
    have "int (length (bs ! j)) \<le> int (length (rb ! j))"
      using laid_lengths(2) [OF bl j] laid_lengths(2) [OF rl(1,2) j] slots_grow [OF lay a(5) j] by simp
    then have "overwrite encoded (bs ! j) (dl_tails p ! j) = rb ! j"
      using f by (subst overwrite_tail) auto
    then show "map2 (overwrite encoded) bs (dl_tails p) ! j = rb ! j" using j laid_lengths(1) [OF bl] a(9) by simp
  qed
  moreover have "\<not> (\<exists>t\<in>set (dl_tails p). Some (sha256 (py_slice encoded (dt_start t) (dt_end t))) \<noteq> dt_sha256 t)"
    using a(9,10) by (auto simp: in_set_conv_nth Let_def tail_of_def)
  moreover have "page_snapshot_encoded_size lay rc = Inr (int (length h) + sum_list (map (int \<circ> length) rb))"
    using rl(1) a(6) by (simp add: page_snapshot_encoded_size_def comp_def)
  ultimately have "history_apply encoded bc rc bt rt (history_at lay v bc bt pre bs) = (Inr (), history_at lay v1 rc rt h rb)"
    using a(1-4,6,8,9) rl(3) laid_lengths(1) [OF bl] by (simp add: history_apply_def history_at_def Let_def)
  then show ?case using "2.IH" [OF lay v1(2) a(7)] by (simp add: run_page_history_def history_at_def)
qed

text \<open>C10: reconstructing a history in place, growing each layer's buffer stage by stage, ends with the bytes
  that applying the deltas one after the other gives.\<close>

theorem page_history_is_apply:
  assumes "good_layout lay" "new_page_history lay s bc bt = Inr h"
    and "apply_history lay \<lparr>vs_payload = s, vs_sha256 = sha256 s\<rparr> bc bt stages = Inr v'"
  shows "\<exists>h'. run_page_history stages h = (Inr (), h') \<and> history_finish h' = Inr (vs_payload v')"
proof -
  obtain p where p: "plan_page_snapshot lay s bc None = Inr p" using assms(2) by (auto simp: new_page_history_def bindE_Inr)
  obtain pre bs where l: "laid_out lay bc pre bs s" using plan_laid_out [OF assms(1) p] by blast
  have bl: "map (\<lambda>b. int (length b)) bs = map slot_bytes (layer_counts lay bc)" "s = pre @ concat bs"
    using l by (simp_all add: laid_out_def)
  have cuts: "map (\<lambda>sp. py_slice s (sp_start sp) (sp_end sp)) (spans_from (int (length pre)) (layer_counts lay bc)) = bs"
    using cut_concat [OF bl(1) refl, of pre] bl(2) by simp
  have "h = history_at lay \<lparr>vs_payload = s, vs_sha256 = sha256 s\<rparr> bc bt pre bs"
    using assms(2) laid_out_plan [OF l] cuts by (auto simp: new_page_history_def history_at_def bl(2) py_slice_inside)
  then show ?thesis
    using run_history [OF assms(1,3), of pre bs] l by (force simp: history_finish_def history_at_def)
qed

section \<open>A history of one stage\<close>

lemma demo_history:
  "\<exists>base p h stages v. plan_page_snapshot demo_layout base [2, 1] None = Inr p \<and> new_page_history demo_layout base [2, 1] 4 = Inr h
    \<and> stages \<noteq> [] \<and> apply_history demo_layout \<lparr>vs_payload = base, vs_sha256 = sha256 base\<rparr> [2, 1] 4 stages = Inr v"
proof -
  obtain base result p delta where d: "encode_page_snapshot demo_layout [3, 2] [(''a'', ''ppqqrr''), (''b'', ''yz'')] = Inr result"
    "plan_page_snapshot demo_layout base [2, 1] None = Inr p"
    "encode_page_delta demo_layout base result [2, 1] [3, 2] 4 8 None ''sha256'' None = Inr delta"
    using demo_delta by blast
  have "apply_history demo_layout \<lparr>vs_payload = base, vs_sha256 = sha256 base\<rparr> [2, 1] 4 [(delta, [3, 2], 8)]
      = Inr \<lparr>vs_payload = result, vs_sha256 = sha256 result\<rparr>"
    using encoded_delta_applies [OF demo_layout_good d(2,1,3)] by simp
  moreover have "\<exists>h. new_page_history demo_layout base [2, 1] 4 = Inr h" using d(2) by (simp add: new_page_history_def)
  ultimately show ?thesis using d(2) by blast
qed

theorem compose_is_apply_witness:
  "\<exists>base stages v plans. stages \<noteq> []
    \<and> apply_history demo_layout \<lparr>vs_payload = base, vs_sha256 = sha256 base\<rparr> [2, 1] 4 stages = Inr v
    \<and> history_plans demo_layout [2, 1] 4 stages = Inr plans
    \<and> compose_page_history demo_layout (Verified \<lparr>vs_payload = base, vs_sha256 = sha256 base\<rparr>) [2, 1] plans (read_stage stages) = Inr v"
proof -
  obtain base p stages v where d: "plan_page_snapshot demo_layout base [2, 1] None = Inr p" "stages \<noteq> []"
    "apply_history demo_layout \<lparr>vs_payload = base, vs_sha256 = sha256 base\<rparr> [2, 1] 4 stages = Inr v"
    using demo_history by blast
  then show ?thesis
    using compose_is_apply [OF demo_layout_good, of "\<lparr>vs_payload = base, vs_sha256 = sha256 base\<rparr>" "[2, 1]" p stages 4 v] by auto
qed

theorem page_history_is_apply_witness:
  "\<exists>base h stages v h'. stages \<noteq> [] \<and> new_page_history demo_layout base [2, 1] 4 = Inr h
    \<and> apply_history demo_layout \<lparr>vs_payload = base, vs_sha256 = sha256 base\<rparr> [2, 1] 4 stages = Inr v
    \<and> run_page_history stages h = (Inr (), h') \<and> history_finish h' = Inr (vs_payload v)"
  using demo_history page_history_is_apply [OF demo_layout_good] by blast

end
