(* ===== verification/Page_Cache.thy ===== *)
theory Page_Cache
  imports Manifest_Lookup Page_Delta
begin

text \<open>
  The two process-local caches of page storage (\<open>cache_manifest.py\<close>): complete snapshots this process has
  hashed, bounded by a byte budget that is zero until a store sets it, and the headers of deltas whose
  first object was authenticated. Both are ordered dictionaries used in least-recently-used order; the
  lock makes every operation one step.
\<close>

section \<open>Ordered dictionaries\<close>

type_synonym content_key = "string \<times> int"

definition without :: "'k \<Rightarrow> ('k \<times> 'v) list \<Rightarrow> ('k \<times> 'v) list" where
  "without k d = filter (\<lambda>x. fst x \<noteq> k) d"

text \<open>\<open>move_to_end\<close>, and assignment after \<open>pop\<close>.\<close>

definition at_end :: "'k \<Rightarrow> 'v \<Rightarrow> ('k \<times> 'v) list \<Rightarrow> ('k \<times> 'v) list" where
  "at_end k v d = without k d @ [(k, v)]"

text \<open>The bytes held, and the loop that drops the oldest entry while the count exceeds the limit.\<close>

definition held_bytes :: "('k \<times> string) list \<Rightarrow> int" where
  "held_bytes d = sum_list (map (\<lambda>x. int (length (snd x))) d)"

fun evict :: "int \<Rightarrow> ('k \<times> string) list \<times> int \<Rightarrow> ('k \<times> string) list \<times> int" where
  "evict limit ([], resident) = ([], resident)"
| "evict limit ((k, v) # d, resident) =
     (if resident > limit then evict limit (d, resident - int (length v)) else ((k, v) # d, resident))"

section \<open>Hot snapshots\<close>

record page_cache =
  hot_limit :: int
  hot_entries :: "(content_key \<times> string) list"
  hot_bytes :: int
  hot_hits :: nat
  hot_misses :: nat
  delta_headers :: "(content_key \<times> string) list"
  delta_header_bytes :: int

definition new_page_cache :: page_cache where
  "new_page_cache = \<lparr>hot_limit = 0, hot_entries = [], hot_bytes = 0, hot_hits = 0, hot_misses = 0,
     delta_headers = [], delta_header_bytes = 0\<rparr>"

definition evict_hot :: "page_cache \<Rightarrow> page_cache" where
  "evict_hot c =
     (case evict (hot_limit c) (hot_entries c, hot_bytes c) of
        (d, n) \<Rightarrow> c\<lparr>hot_entries := d, hot_bytes := n\<rparr>)"

definition set_hot_page_snapshot_limit :: "int \<Rightarrow> page_cache \<Rightarrow> (unit, page_cache) outcome" where
  "set_hot_page_snapshot_limit n c =
     (if n < 0 then raises (ValueError ''hot page snapshot limit must be a non-negative integer'') c
      else returns () (evict_hot (c\<lparr>hot_limit := n\<rparr>)))"

definition hot_page_snapshots_enabled :: "page_cache \<Rightarrow> bool" where
  "hot_page_snapshots_enabled c \<longleftrightarrow> hot_limit c > 0"

definition hot_page_snapshot_fits :: "page_cache \<Rightarrow> int \<Rightarrow> bool" where
  "hot_page_snapshot_fits c n \<longleftrightarrow> 0 < n \<and> n \<le> hot_limit c"

definition hot_page_snapshot :: "string \<Rightarrow> int \<Rightarrow> page_cache \<Rightarrow> string option \<times> page_cache" where
  "hot_page_snapshot sha n c =
     (if \<not> hot_page_snapshots_enabled c then (None, c)
      else
        (case map_of (hot_entries c) (sha, n) of
           None \<Rightarrow> (None, c\<lparr>hot_misses := hot_misses c + 1\<rparr>)
         | Some b \<Rightarrow> (Some b, c\<lparr>hot_entries := at_end (sha, n) b (hot_entries c), hot_hits := hot_hits c + 1\<rparr>)))"

definition remember_hot_page_snapshot :: "string \<Rightarrow> string \<Rightarrow> page_cache \<Rightarrow> bool \<times> page_cache" where
  "remember_hot_page_snapshot sha b c =
     (let n = int (length b) in
      if \<not> hot_page_snapshot_fits c n then (False, c)
      else
        (let previous = (case map_of (hot_entries c) (sha, n) of None \<Rightarrow> 0 | Some x \<Rightarrow> int (length x)) in
         (True, evict_hot (c\<lparr>hot_entries := at_end (sha, n) b (hot_entries c),
            hot_bytes := hot_bytes c - previous + n\<rparr>))))"

definition clear_hot_page_snapshots :: "page_cache \<Rightarrow> page_cache" where
  "clear_hot_page_snapshots c = c\<lparr>hot_entries := [], hot_bytes := 0, hot_hits := 0, hot_misses := 0\<rparr>"

definition hot_page_snapshot_stats :: "page_cache \<Rightarrow> int \<times> int \<times> nat \<times> nat \<times> nat" where
  "hot_page_snapshot_stats c = (hot_limit c, hot_bytes c, length (hot_entries c), hot_hits c, hot_misses c)"

section \<open>Authenticated delta headers\<close>

definition DELTA_HEADER_BYTES :: int where "DELTA_HEADER_BYTES = 16 * 1024 * 1024"
definition MAX_DELTA_HEADER_PREFIX :: int where "MAX_DELTA_HEADER_PREFIX = 16 * 1024 * 1024"

definition authenticated_delta_header :: "string \<Rightarrow> int \<Rightarrow> page_cache \<Rightarrow> string option \<times> page_cache" where
  "authenticated_delta_header sha n c =
     (case map_of (delta_headers c) (sha, n) of
        None \<Rightarrow> (None, c)
      | Some h \<Rightarrow> (Some h, c\<lparr>delta_headers := at_end (sha, n) h (delta_headers c)\<rparr>))"

definition remember_authenticated_delta_header :: "string \<Rightarrow> int \<Rightarrow> string \<Rightarrow> page_cache \<Rightarrow> page_cache" where
  "remember_authenticated_delta_header sha n h c =
     (if int (length h) > min n DELTA_HEADER_BYTES then c
      else
        (let previous = (case map_of (delta_headers c) (sha, n) of None \<Rightarrow> 0 | Some x \<Rightarrow> int (length x)) in
         (case evict DELTA_HEADER_BYTES (at_end (sha, n) h (delta_headers c),
                 delta_header_bytes c - previous + int (length h)) of
            (d, k) \<Rightarrow> c\<lparr>delta_headers := d, delta_header_bytes := k\<rparr>)))"

definition clear_authenticated_delta_headers :: "page_cache \<Rightarrow> page_cache" where
  "clear_authenticated_delta_headers c = c\<lparr>delta_headers := [], delta_header_bytes := 0\<rparr>"

text \<open>Reading a header from the store: the prefix alone against the digest the manifest binds, or the whole
  first object against its content address.\<close>

definition open_file :: "path \<Rightarrow> store \<Rightarrow> exn + string" where
  "open_file p s =
     (case read_bytes p s of
        Inl e \<Rightarrow> Inl (CacheFormatError ''page object is unavailable'') | Inr b \<Rightarrow> Inr b)"

definition read_header_prefix :: "path \<Rightarrow> json \<Rightarrow> store \<Rightarrow> exn + string" where
  "read_header_prefix p sha s =
     bindE (open_file p s) (\<lambda>b.
     if length b < 10 then Inl (CacheFormatError ''page delta header prefix is truncated'')
     else
       (let n = of_little_endian (take 4 (drop 6 b)) in
        if n = 0 \<or> int n > MAX_DELTA_HEADER_PREFIX
        then Inl (CacheFormatError ''page delta header length is invalid'')
        else
          bindE (page_delta_header_prefix (take (10 + n) b)) (\<lambda>h.
          if JStr (sha256 h) \<noteq> sha then Inl (CacheFormatError ''page delta header digest mismatch'') else Inr h)))"

definition read_object :: "string \<Rightarrow> store \<Rightarrow> jdict \<Rightarrow> exn + string" where
  "read_object what s d =
     bindE (read_bytes (chunk_path d) s) (\<lambda>b.
     bindE (payload_matches_descriptor d b) (\<lambda>same.
     if \<not> same then Inl (CacheFormatError (what @ '' object checksum mismatch'')) else Inr b))"

definition authenticated_page_delta_header ::
    "store \<Rightarrow> jdict \<Rightarrow> json \<Rightarrow> page_cache \<Rightarrow> (string, page_cache) outcome" where
  "authenticated_page_delta_header s d header_sha c =
     (case py_int (jget d ''bytes'') of
        Inl e \<Rightarrow> raises e c
      | Inr n \<Rightarrow>
          (case authenticated_delta_header (descriptor_name d) n c of
             (Some h, c) \<Rightarrow> returns h c
           | (None, c) \<Rightarrow>
               (case (if header_sha \<noteq> JNull then read_header_prefix (chunk_path d) header_sha s
                      else bindE (read_object ''page delta'' s d) page_delta_header_prefix) of
                  Inl e \<Rightarrow> raises e c
                | Inr h \<Rightarrow> returns h (remember_authenticated_delta_header (descriptor_name d) n h c))))"

end
