(* ===== verification/Page_Store.thy ===== *)
theory Page_Store
  imports Page_Cache Codec
begin

text \<open>
  Page snapshots and page deltas in the store (\<open>cache_manifest.py\<close>): reading the objects of a root, the
  restore of a root through its base, and the publication of snapshots and extensions. A restore reads
  the store and changes only the caches; a publication changes both.
\<close>

section \<open>Objects\<close>

definition READ_BATCH :: nat where "READ_BATCH = 4"
definition WRITE_BATCH :: nat where "WRITE_BATCH = 2"

text \<open>The objects of one root in batches: a batch is read and checked against its descriptors before its
  extents are compared. The result is the end of the last extent, the bytes, and the bytes whose
  descriptors carry no checksum of their own.\<close>

fun place_objects :: "string \<Rightarrow> int \<Rightarrow> (jdict \<times> string) list \<Rightarrow> exn + int \<times> string \<times> string" where
  "place_objects what expected [] = Inr (expected, [], [])"
| "place_objects what expected ((d, b) # rest) =
     bindE (py_int (jget d ''encoded_start'')) (\<lambda>a.
     bindE (py_int (jget d ''encoded_end'')) (\<lambda>e.
     if a \<noteq> expected \<or> e \<noteq> a + int (length b)
     then Inl (CacheFormatError (what @ '' object coverage differs''))
     else
       bindE (place_objects what e rest) (\<lambda>(stop, bytes, hashed).
       Inr (stop, b @ bytes, (if ''crc32'' \<in> set (dkeys d) then hashed else b @ hashed)))))"

function read_object_batches :: "string \<Rightarrow> store \<Rightarrow> int \<Rightarrow> jdict list \<Rightarrow> exn + int \<times> string \<times> string" where
  "read_object_batches what s expected ds =
     (if ds = [] then Inr (expected, [], [])
      else
        bindE (mapE (read_object what s) (take READ_BATCH ds)) (\<lambda>bs.
        bindE (place_objects what expected (zip (take READ_BATCH ds) bs)) (\<lambda>(e, bytes, hashed).
        bindE (read_object_batches what s e (drop READ_BATCH ds)) (\<lambda>(stop, bytes', hashed').
        Inr (stop, bytes @ bytes', hashed @ hashed')))))"
  by pat_completeness auto
termination by (relation "measure (\<lambda>(what, s, e, ds). length ds)") (auto simp: READ_BATCH_def)

declare read_object_batches.simps [simp del]

definition read_page_objects :: "string \<Rightarrow> store \<Rightarrow> jdict list \<Rightarrow> int \<Rightarrow> string \<Rightarrow> exn + string" where
  "read_page_objects what s ds encoded_bytes encoded_sha =
     (if encoded_bytes \<le> 0 \<or> ds = []
      then Inl (CacheFormatError (what @ '' object coverage is empty''))
      else
        bindE (read_object_batches what s 0 ds) (\<lambda>(stop, bytes, hashed).
        if stop \<noteq> encoded_bytes \<or> (descriptor_integrity (hd ds) = ''sha256'' \<and> sha256 hashed \<noteq> encoded_sha)
        then Inl (CacheFormatError (what @ '' payload checksum mismatch''))
        else Inr bytes))"

text \<open>Reading ranges of objects; a range is checked by the caller.\<close>

definition extent_of :: "jdict \<Rightarrow> exn + string \<times> int \<times> int \<times> int" where
  "extent_of d =
     bindE (py_int (jget d ''bytes'')) (\<lambda>n.
     bindE (py_int (jget d ''encoded_start'')) (\<lambda>a.
     bindE (py_int (jget d ''encoded_end'')) (\<lambda>e. Inr (descriptor_name d, n, a, e))))"

definition read_piece :: "store \<Rightarrow> string \<times> int \<times> int \<times> int \<Rightarrow> exn + string" where
  "read_piece s = (\<lambda>(name, n, offset, k).
     bindE (open_file (Chunk_file name) s) (\<lambda>b.
     if int (length b) \<noteq> n then Inl (CacheFormatError ''page object length differs'')
     else if int (length (py_slice b offset (offset + k))) \<noteq> k
     then Inl (CacheFormatError ''page object read was truncated'')
     else Inr (py_slice b offset (offset + k))))"

definition read_object_extent :: "store \<Rightarrow> (string \<times> int \<times> int \<times> int) list \<Rightarrow> exn + string" where
  "read_object_extent s pieces = bindE (mapE (read_piece s) pieces) (\<lambda>bs. Inr (concat bs))"

section \<open>Identities of roots\<close>

text \<open>\<open>CacheIdentity(**wire)\<close> of the identity in a root. A value outside the declared type of its field is
  refused here; no root that a lookup accepts has one.\<close>

definition field_or :: "jdict \<Rightarrow> string \<Rightarrow> (json \<Rightarrow> 'a option) \<Rightarrow> 'a option \<Rightarrow> exn + 'a" where
  "field_or d k read fallback =
     (case map_of d k of
        None \<Rightarrow> (case fallback of None \<Rightarrow> Inl (TypeError ''missing argument'') | Some x \<Rightarrow> Inr x)
      | Some v \<Rightarrow> (case read v of None \<Rightarrow> Inl (TypeError k) | Some x \<Rightarrow> Inr x))"

definition the_strs :: "json \<Rightarrow> string list option" where
  "the_strs v =
     (case the_list v of
        None \<Rightarrow> None
      | Some vs \<Rightarrow> if \<forall>x\<in>set vs. the_str x \<noteq> None then Some (map (the \<circ> the_str) vs) else None)"

definition identity_of_root :: "jdict \<Rightarrow> exn + cache_identity" where
  "identity_of_root m =
     (case the_obj (jget m ''identity'') of
        None \<Rightarrow> Inl (TypeError ''identity'')
      | Some w \<Rightarrow>
          if \<not> set (dkeys w) \<subseteq> set BASE_FIELDS \<union> {''record_schema'', ''publication_schema''}
          then Inl (TypeError ''unexpected keyword argument'')
          else
            bindE (field_or w ''target_checkpoint'' the_str None) (\<lambda>target.
            bindE (field_or w ''draft_checkpoint'' the_str None) (\<lambda>draft.
            bindE (field_or w ''quantization_layout'' the_str None) (\<lambda>quantization.
            bindE (field_or w ''rope_layout'' the_str None) (\<lambda>rope.
            bindE (field_or w ''tp_degree'' the_int None) (\<lambda>tp.
            bindE (field_or w ''dcp_degree'' the_int None) (\<lambda>dcp.
            bindE (field_or w ''cp_kv_cache_interleave_size'' the_int (Some 1)) (\<lambda>interleave.
            bindE (field_or w ''chunk_tokens'' the_int (Some 256)) (\<lambda>chunk.
            bindE (field_or w ''dcp_shard_rank'' the_int (Some (- 1))) (\<lambda>dcp_rank.
            bindE (field_or w ''tp_shard_rank'' the_int (Some (- 1))) (\<lambda>tp_rank.
            bindE (field_or w ''boundary_hidden_policy'' the_str (Some ''persisted'')) (\<lambda>boundary.
            bindE (field_or w ''draft_kv_policy'' the_str (Some ''separate'')) (\<lambda>draft_policy.
            bindE (field_or w ''record_schema'' the_strs (Some [])) (\<lambda>records.
            bindE (field_or w ''publication_schema'' the_str (Some [])) (\<lambda>schema.
            CacheIdentity \<lparr>target_checkpoint = target, draft_checkpoint = draft, quantization_layout = quantization,
              rope_layout = rope, tp_degree = tp, dcp_degree = dcp, cp_kv_cache_interleave_size = interleave,
              chunk_tokens = chunk, dcp_shard_rank = dcp_rank, tp_shard_rank = tp_rank,
              boundary_hidden_policy = boundary, draft_kv_policy = draft_policy,
              record_schema = records, publication_schema = schema\<rparr>)))))))))))))))"

section \<open>Restore\<close>

text \<open>Block counts and boundaries come from the caller or from a root, so they are values of JSON.\<close>

definition the_counts :: "json list \<Rightarrow> exn + int list" where
  "the_counts vs = mapE py_int vs"

definition counts_field :: "jdict \<Rightarrow> string \<Rightarrow> exn + json list" where
  "counts_field d k = tuple_of (jget d k)"

definition same_values :: "json list \<Rightarrow> json list \<Rightarrow> bool" where
  "same_values vs ws \<longleftrightarrow> list_all2 py_eq vs ws"

definition the_bytes :: "json \<Rightarrow> exn + int" where
  "the_bytes v = (case the_int v of None \<Rightarrow> Inl (TypeError ''bytes'') | Some n \<Rightarrow> Inr n)"

definition plan_stored_delta ::
    "page_layout \<Rightarrow> string \<Rightarrow> json list \<Rightarrow> json list \<Rightarrow> json \<Rightarrow> json \<Rightarrow> int option \<Rightarrow> exn + delta_plan" where
  "plan_stored_delta lay view base_counts result_counts base_tokens result_tokens total_bytes =
     (case (the_int base_tokens, the_int result_tokens) of
        (Some bt, Some rt) \<Rightarrow>
          bindE (the_counts base_counts) (\<lambda>bc.
          bindE (the_counts result_counts) (\<lambda>rc.
          plan_page_delta lay view bc rc bt rt total_bytes))
      | _ \<Rightarrow> Inl (HybridCodecError ''page delta boundaries are invalid''))"

record page_evidence =
  ev_storage_key :: string
  ev_context_digest :: json
  ev_root_sha256 :: json
  ev_root_kind :: string
  ev_layout_sha256 :: json
  ev_counts :: "int list"
  ev_boundary :: json
  ev_bytes :: int

definition page_delta_base_read_evidence ::
    "page_layout \<Rightarrow> json \<Rightarrow> string \<Rightarrow> json list \<Rightarrow> json \<Rightarrow> exn + page_evidence" where
  "page_delta_base_read_evidence lay manifest kind counts boundary =
     (if kind \<noteq> ''page_delta'' then Inl (ValueError ''page-base evidence requires a page-delta cache hit'')
      else
        (case the_obj manifest of
           None \<Rightarrow> Inl (TypeError ''manifest'')
         | Some m \<Rightarrow>
             bindE (identity_of_root m) (\<lambda>i.
             case the_str (jget m ''context_digest'') of
               None \<Rightarrow> Inl (CacheFormatError ''context_digest'')
             | Some digest \<Rightarrow>
                 bindE (validate_page_delta_root manifest i digest) (\<lambda>(base_root, _).
                 bindE (the_counts counts) (\<lambda>result_counts.
                 bindE (counts_field m ''base_block_counts'') (\<lambda>raw_base.
                 bindE (the_counts raw_base) (\<lambda>base_counts.
                 bindE (counts_field m ''result_block_counts'') (\<lambda>raw_result.
                 case (the_obj base_root, the_str (jget m ''base_context_digest'')) of
                   (Some b, Some base_context) \<Rightarrow>
                     if jget m ''layout_sha256'' \<noteq> JStr (layout_digest lay) \<or> \<not> same_counts raw_result result_counts
                       \<or> \<not> py_eq (jget m ''committed_tokens'') boundary
                       \<or> \<not> py_eq (jget b ''committed_tokens'') (jget m ''base_committed_tokens'')
                     then Inl (CacheFormatError ''page delta restore geometry differs'')
                     else
                       bindE (page_snapshot_encoded_size lay base_counts) (\<lambda>n.
                       bindE (is_page_delta_root base_root) (\<lambda>is_delta.
                       bindE
                         (if is_delta
                          then
                            bindE (page_graph_descriptors (MAX_PAGE_DELTA_DEPTH - 1) base_root i base_context) (\<lambda>_.
                            bindE (counts_field b ''result_block_counts'') (\<lambda>raw.
                            if jget b ''layout_sha256'' \<noteq> JStr (layout_digest lay) \<or> \<not> same_counts raw base_counts
                            then Inl (CacheFormatError ''page delta base geometry differs'')
                            else Inr ''page_delta''))
                          else if is_page_snapshot_root base_root
                          then
                            bindE (validate_page_snapshot_root base_root i base_context) (\<lambda>_.
                            if \<not> py_eq (jget b ''snapshot_encoded_bytes'') (JInt n)
                            then Inl (CacheFormatError ''page snapshot base geometry differs'')
                            else Inr ''page_snapshot'')
                          else
                            bindE (validate_manifest_metadata base_root (EntryKey (storage_key i) base_context) (Some i)) (\<lambda>_.
                            Inr ''manifest'')) (\<lambda>base_kind.
                       Inr \<lparr>ev_storage_key = storage_key i, ev_context_digest = jget m ''base_context_digest'',
                            ev_root_sha256 = jget m ''base_root_sha256'', ev_root_kind = base_kind,
                            ev_layout_sha256 = jget m ''layout_sha256'', ev_counts = base_counts,
                            ev_boundary = jget m ''base_committed_tokens'', ev_bytes = n\<rparr>)))
                 | _ \<Rightarrow> Inl (CacheFormatError ''page delta base'')))))))))"

text \<open>A page snapshot root: the hot copy, or its objects.\<close>

definition kept_copy :: "bool \<Rightarrow> string \<Rightarrow> string \<Rightarrow> snapshot_bytes" where
  "kept_copy verified b sha = (if verified then Verified \<lparr>vs_payload = b, vs_sha256 = sha\<rparr> else Plain b)"

definition restore_snapshot_root ::
    "store \<Rightarrow> json \<Rightarrow> json \<Rightarrow> bool \<Rightarrow> page_cache \<Rightarrow> (snapshot_bytes, page_cache) outcome" where
  "restore_snapshot_root s manifest boundary verified c =
     (case the_obj manifest of
        None \<Rightarrow> raises (TypeError ''manifest'') c
      | Some m \<Rightarrow>
          (case bindE (identity_of_root m) (\<lambda>i.
             case the_str (jget m ''context_digest'') of
               None \<Rightarrow> Inl (CacheFormatError ''context_digest'')
             | Some digest \<Rightarrow>
                 bindE (validate_page_snapshot_root manifest i digest) (\<lambda>ds.
                 if \<not> py_eq (jget m ''committed_tokens'') boundary
                 then Inl (CacheFormatError ''page snapshot restore boundary differs'')
                 else
                   (case (the_str (jget m ''snapshot_sha256''), the_int (jget m ''snapshot_encoded_bytes'')) of
                      (Some sha, Some n) \<Rightarrow> Inr (ds, sha, n)
                    | _ \<Rightarrow> Inl (CacheFormatError ''page snapshot object geometry differs'')))) of
             Inl e \<Rightarrow> raises e c
           | Inr (ds, sha, n) \<Rightarrow>
               (case hot_page_snapshot sha n c of
                  (Some b, c) \<Rightarrow> returns (kept_copy verified b sha) c
                | (None, c) \<Rightarrow>
                    (case read_page_objects ''page snapshot'' s ds n sha of
                       Inl e \<Rightarrow> raises e c
                     | Inr b \<Rightarrow> returns (kept_copy verified b sha) (snd (remember_hot_page_snapshot sha b c))))))"

text \<open>A row manifest as a base: its chunks' target records.\<close>

definition restore_row_root :: "store \<Rightarrow> json \<Rightarrow> string \<Rightarrow> bool \<Rightarrow> exn + snapshot_bytes" where
  "restore_row_root s manifest kind verified =
     bindE (restore \<lparr>is_hit = True, reason = ''hit'', lr_digest = [], lr_manifest = Some manifest, lr_root_kind = kind\<rparr> s) (\<lambda>cs.
     case cs of
       None \<Rightarrow> Inl (CacheFormatError ''page snapshot restore failed'')
     | Some chunks \<Rightarrow>
         bindE (mapE (\<lambda>x. case records x TARGET_CKV of None \<Rightarrow> Inl KeyError | Some b \<Rightarrow> Inr b) chunks) (\<lambda>bs.
         Inr (if verified then Verified (verify_page_snapshot_bytes (Plain (concat bs))) else Plain (concat bs))))"

text \<open>The stages of a flat delta: the plan of each from its header.\<close>

definition stage_header :: "store \<Rightarrow> jdict \<Rightarrow> page_cache \<Rightarrow> (string, page_cache) outcome" where
  "stage_header s g c =
     (case the_list (jget g ''delta_objects'') of
        Some (v # vs) \<Rightarrow>
          (case the_obj v of
             None \<Rightarrow> raises (TypeError ''descriptor'') c
           | Some d \<Rightarrow> authenticated_page_delta_header s d (jget g ''header_sha256'') c)
      | _ \<Rightarrow> raises IndexError c)"

definition plan_stage :: "page_layout \<Rightarrow> jdict \<Rightarrow> string \<Rightarrow> exn + delta_plan" where
  "plan_stage lay g header =
     bindE (counts_field g ''base_block_counts'') (\<lambda>bc.
     bindE (counts_field g ''result_block_counts'') (\<lambda>rc.
     bindE (the_bytes (jget g ''delta_encoded_bytes'')) (\<lambda>n.
     plan_stored_delta lay header bc rc (jget g ''base_committed_tokens'') (jget g ''committed_tokens'') (Some n))))"

fun plan_stages :: "page_layout \<Rightarrow> store \<Rightarrow> json list \<Rightarrow> page_cache \<Rightarrow> (delta_plan list, page_cache) outcome" where
  "plan_stages lay s [] c = returns [] c"
| "plan_stages lay s (v # vs) c =
     (case the_obj v of
        None \<Rightarrow> raises (TypeError ''stage'') c
      | Some g \<Rightarrow>
          (case stage_header s g c of
             (Inl e, c) \<Rightarrow> raises e c
           | (Inr header, c) \<Rightarrow>
               (case plan_stage lay g header of
                  Inl e \<Rightarrow> raises e c
                | Inr p \<Rightarrow>
                    (case plan_stages lay s vs c of
                       (Inl e, c) \<Rightarrow> raises e c
                     | (Inr ps, c) \<Rightarrow> returns (p # ps) c))))"

definition stage_objects :: "json list \<Rightarrow> nat \<Rightarrow> jdict list" where
  "stage_objects stages k =
     (case the_obj (stages ! k) of
        None \<Rightarrow> []
      | Some g \<Rightarrow> (case the_list (jget g ''delta_objects'') of None \<Rightarrow> [] | Some vs \<Rightarrow> dicts vs))"

definition read_stage_tail :: "store \<Rightarrow> json list \<Rightarrow> nat \<Rightarrow> delta_tail \<Rightarrow> exn + string" where
  "read_stage_tail s stages k t =
     bindE (mapE extent_of (stage_objects stages k)) (\<lambda>extents.
     bindE (object_extent_pieces extents (dt_start t) (dt_end t)) (read_object_extent s))"

text \<open>What a flat delta needs before its base is read: the checks of its geometry, the plans, and the
  result itself when this process still holds it.\<close>

definition root_geometry ::
    "page_layout \<Rightarrow> string \<Rightarrow> json \<Rightarrow> json list \<Rightarrow> json \<Rightarrow> exn + jdict list" where
  "root_geometry lay what manifest counts boundary =
     (case the_obj manifest of
        None \<Rightarrow> Inl (TypeError ''manifest'')
      | Some m \<Rightarrow>
          bindE (identity_of_root m) (\<lambda>i.
          case the_str (jget m ''context_digest'') of
            None \<Rightarrow> Inl (CacheFormatError ''context_digest'')
          | Some digest \<Rightarrow>
              bindE (validate_page_delta_root manifest i digest) (\<lambda>(_, ds).
              bindE (counts_field m ''result_block_counts'') (\<lambda>rc.
              if jget m ''layout_sha256'' \<noteq> JStr (layout_digest lay) \<or> \<not> same_values rc counts
                \<or> \<not> py_eq (jget m ''committed_tokens'') boundary
              then Inl (CacheFormatError (what @ '' restore geometry differs''))
              else Inr ds))))"

definition open_flat_delta ::
    "page_layout \<Rightarrow> store \<Rightarrow> json \<Rightarrow> json list \<Rightarrow> json \<Rightarrow> page_cache
      \<Rightarrow> (delta_plan list \<times> string \<times> string option, page_cache) outcome" where
  "open_flat_delta lay s manifest counts boundary c =
     (case bindE (root_geometry lay ''flat page delta'' manifest counts boundary) (\<lambda>_.
        case the_obj manifest of
          None \<Rightarrow> Inl (TypeError ''manifest'')
        | Some m \<Rightarrow> (case the_list (jget m ''delta_stages'') of None \<Rightarrow> Inl (TypeError ''stages'') | Some vs \<Rightarrow> Inr vs)) of
        Inl e \<Rightarrow> raises e c
      | Inr stages \<Rightarrow>
          (case plan_stages lay s stages c of
             (Inl e, c) \<Rightarrow> raises e c
           | (Inr plans, c) \<Rightarrow>
               if plans = [] then raises IndexError c
               else
                 (let sha = dl_result_sha256 (last plans) in
                  case bindE (the_counts counts) (page_snapshot_encoded_size lay) of
                    Inl e \<Rightarrow> raises e c
                  | Inr n \<Rightarrow> (case hot_page_snapshot sha n c of (hot, c) \<Rightarrow> returns (plans, sha, hot) c))))"

text \<open>A payload that differs from its header is corruption of the store.\<close>

definition stored_corruption :: "exn + 'a \<Rightarrow> exn + 'a" where
  "stored_corruption r =
     (case r of Inl (PageDeltaPayloadChecksum why) \<Rightarrow> Inl (CacheFormatError why) | _ \<Rightarrow> r)"

definition compose_flat_delta ::
    "page_layout \<Rightarrow> store \<Rightarrow> jdict \<Rightarrow> delta_plan list \<Rightarrow> string \<Rightarrow> snapshot_bytes \<Rightarrow> bool \<Rightarrow> page_cache
      \<Rightarrow> (snapshot_bytes, page_cache) outcome" where
  "compose_flat_delta lay s m plans sha base verified c =
     (case bindE (counts_field m ''base_block_counts'') (\<lambda>raw.
        bindE (the_counts raw) (\<lambda>bc.
        case the_list (jget m ''delta_stages'') of
          None \<Rightarrow> Inl (TypeError ''stages'')
        | Some stages \<Rightarrow>
            stored_corruption (compose_page_history lay base bc plans (read_stage_tail s stages)))) of
        Inl e \<Rightarrow> raises e c
      | Inr v \<Rightarrow>
          returns (if verified then Verified v else Plain (vs_payload v))
            (snd (remember_hot_page_snapshot sha (vs_payload v) c)))"

text \<open>The delta of a stacked root, from its objects or from the target records of its chunks.\<close>

definition read_stacked_delta :: "store \<Rightarrow> jdict \<Rightarrow> cache_identity \<Rightarrow> jdict list \<Rightarrow> exn + string" where
  "read_stacked_delta s m i ds =
     (if jget m ''schema'' = JStr PAGE_DELTA_SCHEMA_V2
      then
        (case (the_int (jget m ''delta_encoded_bytes''), the_str (jget m ''delta_sha256'')) of
           (Some n, Some sha) \<Rightarrow> read_page_objects ''page delta'' s ds n sha
         | _ \<Rightarrow> Inl (CacheFormatError ''page delta object geometry differs''))
      else
        bindE (mapE (\<lambda>d.
          bindE (read_bytes (chunk_path d) s) (\<lambda>b.
          if \<not> py_eq (jget d ''bytes'') (JInt (int (length b))) \<or> JStr (sha256 b) \<noteq> jget d ''sha256''
          then Inl (CacheFormatError ''chunk checksum mismatch'')
          else decoded_as_described (required_records i) d b)) ds) (\<lambda>chunks.
        bindE (mapE (\<lambda>x. case records x TARGET_CKV of None \<Rightarrow> Inl KeyError | Some b \<Rightarrow> Inr b) chunks) (\<lambda>bs.
        Inr (concat bs))))"

definition apply_stacked_delta ::
    "page_layout \<Rightarrow> store \<Rightarrow> jdict \<Rightarrow> cache_identity \<Rightarrow> jdict list \<Rightarrow> snapshot_bytes \<Rightarrow> bool \<Rightarrow> exn + snapshot_bytes" where
  "apply_stacked_delta lay s m i ds base verified =
     bindE (read_stacked_delta s m i ds) (\<lambda>encoded.
     bindE (counts_field m ''base_block_counts'') (\<lambda>raw_base.
     bindE (counts_field m ''result_block_counts'') (\<lambda>raw_result.
     bindE (the_counts raw_base) (\<lambda>bc.
     bindE (the_counts raw_result) (\<lambda>rc.
     case (the_int (jget m ''base_committed_tokens''), the_int (jget m ''committed_tokens'')) of
       (Some bt, Some rt) \<Rightarrow>
         bindE (apply_page_delta lay (bytes_of base) encoded bc rc bt rt) (\<lambda>b.
         Inr (if verified then Verified (verify_page_snapshot_bytes (Plain b)) else Plain b))
     | _ \<Rightarrow> Inl (HybridCodecError ''page delta boundaries are invalid''))))))"

text \<open>The walk down the bases. The reader of a shared base is consulted for the outermost delta only; it gets
  the evidence and the read it may replace.\<close>

type_synonym base_read = "page_cache \<Rightarrow> (snapshot_bytes, page_cache) outcome"
type_synonym base_reader = "page_evidence \<Rightarrow> base_read \<Rightarrow> base_read"

definition base_kind :: "json \<Rightarrow> exn + string" where
  "base_kind root =
     bindE (is_page_delta_root root) (\<lambda>is_delta.
     Inr (if is_delta then ''page_delta'' else if is_page_snapshot_root root then ''page_snapshot'' else ''manifest''))"

definition is_flat_delta :: "jdict \<Rightarrow> bool" where
  "is_flat_delta m \<longleftrightarrow> jget m ''schema'' = JStr PAGE_DELTA_SCHEMA_V3"

definition open_stacked_delta ::
    "page_layout \<Rightarrow> json \<Rightarrow> string \<Rightarrow> json list \<Rightarrow> json \<Rightarrow> nat
      \<Rightarrow> exn + page_evidence \<times> cache_identity \<times> jdict list \<times> string" where
  "open_stacked_delta lay manifest kind counts boundary depth =
     (if depth \<ge> MAX_PAGE_DELTA_DEPTH
      then Inl (CacheFormatError ''page delta graph exceeds the depth limit'')
      else
        bindE (page_delta_base_read_evidence lay manifest kind counts boundary) (\<lambda>ev.
        case the_obj manifest of
          None \<Rightarrow> Inl (TypeError ''manifest'')
        | Some m \<Rightarrow>
            bindE (identity_of_root m) (\<lambda>i.
            bindE (root_geometry lay ''page delta'' manifest counts boundary) (\<lambda>ds.
            bindE (base_kind (jget m ''base_root'')) (\<lambda>base.
            Inr (ev, i, ds, base))))))"

function restore_root ::
    "page_layout \<Rightarrow> store \<Rightarrow> base_reader option \<Rightarrow> json \<Rightarrow> string \<Rightarrow> json list \<Rightarrow> json \<Rightarrow> nat \<Rightarrow> bool \<Rightarrow> base_read" where
  "restore_root lay s reader manifest kind counts boundary depth verified c =
     (if is_page_snapshot_root manifest then restore_snapshot_root s manifest boundary verified c
      else
        (case is_page_delta_root manifest of
           Inl e \<Rightarrow> raises e c
         | Inr False \<Rightarrow> (restore_row_root s manifest kind verified, c)
         | Inr True \<Rightarrow>
             (case the_obj manifest of
                None \<Rightarrow> raises (TypeError ''manifest'') c
              | Some m \<Rightarrow>
                  if is_flat_delta m
                  then
                    (case open_flat_delta lay s manifest counts boundary c of
                       (Inl e, c) \<Rightarrow> raises e c
                     | (Inr (plans, sha, hot), c) \<Rightarrow>
                         (case hot of
                            Some b \<Rightarrow> returns (kept_copy verified b sha) c
                          | None \<Rightarrow>
                              (case bindE (base_kind (jget m ''base_root'')) (\<lambda>base.
                                 bindE (counts_field m ''base_block_counts'') (\<lambda>raw. Inr (base, raw))) of
                                 Inl e \<Rightarrow> raises e c
                               | Inr (base, raw) \<Rightarrow>
                                   (case restore_root lay s None (jget m ''base_root'') base raw
                                           (jget m ''base_committed_tokens'') 0 True c of
                                      (Inl e, c) \<Rightarrow> raises e c
                                    | (Inr b, c) \<Rightarrow> compose_flat_delta lay s m plans sha b verified c))))
                  else
                    (case bindE (open_stacked_delta lay manifest kind counts boundary depth) (\<lambda>(ev, i, ds, base).
                       bindE (counts_field m ''base_block_counts'') (\<lambda>raw. Inr (ev, i, ds, base, raw))) of
                       Inl e \<Rightarrow> raises e c
                     | Inr (ev, i, ds, base, raw) \<Rightarrow>
                         (let read_base = (\<lambda>c. restore_root lay s None (jget m ''base_root'') base raw
                                (jget m ''base_committed_tokens'') (depth + 1) False c)
                          in case (case (reader, depth) of (Some r, 0) \<Rightarrow> r ev read_base c | _ \<Rightarrow> read_base c) of
                               (Inl e, c) \<Rightarrow> raises e c
                             | (Inr b, c) \<Rightarrow> (apply_stacked_delta lay s m i ds b verified, c))))))"
  by pat_completeness auto
termination
proof (relation "measure (\<lambda>(lay, s, reader, manifest, kind, counts, boundary, depth, verified, c). size manifest)", goal_cases)
  case 1
  then show ?case by simp
qed (use size_jget in \<open>auto simp del: json.size elim!: the_obj.elims\<close>)

declare restore_root.simps [simp del]

definition restore_page_snapshot ::
    "page_layout \<Rightarrow> store \<Rightarrow> lookup_result \<Rightarrow> int list \<Rightarrow> int \<Rightarrow> base_reader option \<Rightarrow> bool \<Rightarrow> base_read" where
  "restore_page_snapshot lay s r counts boundary reader verified c =
     (case (is_hit r, lr_manifest r) of
        (True, Some manifest) \<Rightarrow>
          restore_root lay s reader manifest (lr_root_kind r) (map JInt counts) (JInt boundary) 0 verified c
      | _ \<Rightarrow> raises (ValueError ''cannot restore a cache miss'') c)"

end
