(* ===== verification/Page_Commit.thy ===== *)
theory Page_Commit
  imports Page_Store Store_Extend
begin

text \<open>
  Publication of page storage (\<open>commit_page_snapshot\<close>, \<open>commit_page_extension\<close> and
  \<open>_publication_snapshot_digest\<close> of \<open>cache_manifest.py\<close>): the encoded stream is cut into objects that are
  published in small batches, then the root that names them becomes visible. The random name part of
  objects that are not content addressed is an argument.
\<close>

section \<open>Objects of a stream\<close>

type_synonym page_world = "store \<times> page_cache"

definition object_ranges :: "int \<Rightarrow> (nat \<times> int \<times> int) list" where
  "object_ranges n =
     map (\<lambda>j. (j, int j * OBJECT_BYTES, min n (int j * OBJECT_BYTES + OBJECT_BYTES)))
       [0..<nat ((n + OBJECT_BYTES - 1) div OBJECT_BYTES)]"

definition object_name :: "string \<Rightarrow> cache_identity \<Rightarrow> string \<Rightarrow> string \<Rightarrow> string \<Rightarrow> nat \<Rightarrow> string \<Rightarrow> string" where
  "object_name integrity i ctx kind nonce index b =
     (if integrity = ''sha256'' then sha256 b else derived_object_name i ctx kind (int index) nonce)"

text \<open>The loop: cut, name, describe, and publish whenever a batch is full. The result has the descriptors and
  the bytes of the objects.\<close>

fun publish_objects ::
    "(int \<Rightarrow> int \<Rightarrow> exn + string) \<Rightarrow> string \<Rightarrow> (nat \<Rightarrow> string \<Rightarrow> string) \<Rightarrow> (path \<times> string) list \<Rightarrow> (nat \<times> int \<times> int) list
      \<Rightarrow> store \<Rightarrow> ((jdict \<times> string) list, store) outcome" where
  "publish_objects read_range integrity name pending [] s =
     (if pending = [] then returns [] s
      else (case publish_immutable_batch pending s of (Inl e, s) \<Rightarrow> raises e s | (Inr _, s) \<Rightarrow> returns [] s))"
| "publish_objects read_range integrity name pending ((j, a, e) # ranges) s =
     (case bindE (read_range a e) (\<lambda>b.
        if int (length b) \<noteq> e - a then Inl (ValueError ''page snapshot scatter range differs'') else Inr b) of
        Inl x \<Rightarrow> raises x s
      | Inr b \<Rightarrow>
          (let d = object_descriptor integrity (name j b) b a e;
               objs = pending @ [(Chunk_file (name j b), b)] in
           case (if length objs = WRITE_BATCH then publish_immutable_batch objs s else returns () s) of
             (Inl x, s) \<Rightarrow> raises x s
           | (Inr _, s) \<Rightarrow>
               (case publish_objects read_range integrity name (if length objs = WRITE_BATCH then [] else objs) ranges s of
                  (Inl x, s) \<Rightarrow> raises x s
                | (Inr ds, s) \<Rightarrow> returns ((d, b) # ds) s)))"

definition page_receipt :: "string \<Rightarrow> int \<Rightarrow> jdict list \<Rightarrow> commit_receipt" where
  "page_receipt encoded_root tokens ds =
     \<lparr>rc_manifest_digest = sha256 encoded_root, rc_committed_tokens = tokens,
      rc_encoded_bytes = int (length encoded_root) + sum_list (map descriptor_bytes ds),
      rc_allocated_bytes = page_rounded (int (length encoded_root)) + sum_list (map (page_rounded \<circ> descriptor_bytes) ds)\<rparr>"

text \<open>A root is sealed with the digest of its canonical form and published under its context.\<close>

definition publish_root ::
    "cache_identity \<Rightarrow> string \<Rightarrow> int \<Rightarrow> jdict \<Rightarrow> jdict list \<Rightarrow> store \<Rightarrow> (commit_receipt, store) outcome" where
  "publish_root i ctx tokens root ds s =
     (let encoded = canonical_json (JObj (with_metadata root)) in
      case publish_immutable (manifest_path i ctx) encoded s of
        (Inl e, s) \<Rightarrow> raises e s
      | (Inr _, s) \<Rightarrow> returns (page_receipt encoded tokens ds) s)"

section \<open>Snapshots\<close>

definition snapshot_root ::
    "cache_identity \<Rightarrow> string \<Rightarrow> int \<Rightarrow> int \<Rightarrow> jdict list \<Rightarrow> string \<Rightarrow> jdict" where
  "snapshot_root i ctx span n ds sha =
     [(''schema'', JStr PAGE_SNAPSHOT_SCHEMA), (''format_abi'', JInt FORMAT_ABI),
      (''storage_mode'', JStr ''block_pages_v1''), (''identity'', to_wire i),
      (''context_digest'', JStr ctx), (''committed_tokens'', JInt span),
      (''snapshot_encoded_bytes'', JInt n), (''snapshot_object_bytes'', JInt OBJECT_BYTES),
      (''snapshot_objects'', JList (map JObj ds)), (''snapshot_sha256'', JStr sha),
      (''logical_chunk_tokens'', JInt (chunk_tokens i)), (''logical_chunk_count'', JInt (span div chunk_tokens i))]"

definition check_snapshot_publication :: "cache_identity \<Rightarrow> string \<Rightarrow> int \<Rightarrow> captured \<Rightarrow> exn + unit" where
  "check_snapshot_publication i ctx span snapshot =
     (if \<not> is_sha256 ctx
      then Inl (ValueError ''context_digest must be a lowercase SHA-256 digest'')
      else if publication_schema i \<notin> set ('''' # PAGE_TAIL_SCHEMAS)
      then Inl (ValueError ''page snapshot publication requires the flat or page-tail publication schema'')
      else if required_records i \<noteq> {TARGET_CKV, LOGICAL_POSITIONS}
      then Inl (ValueError ''page snapshot publication requires target and logical-position records'')
      else if span \<le> 0 \<or> span mod chunk_tokens i \<noteq> 0
      then Inl (ValueError ''page snapshot span must cover complete logical chunks'')
      else (case snapshot of
              Buffer b \<Rightarrow> Inr ()
            | Scatter n read \<Rightarrow>
                require (0 < n) (ValueError ''page snapshot payload must be bytes or a bounded scatter view'')))"

definition commit_page_snapshot ::
    "cache_identity \<Rightarrow> string \<Rightarrow> int \<Rightarrow> captured \<Rightarrow> string \<Rightarrow> page_world \<Rightarrow> (commit_receipt, page_world) outcome" where
  "commit_page_snapshot i ctx span snapshot nonce w =
     (let (s, c) = w in
      case check_snapshot_publication i ctx span snapshot of
        Inl e \<Rightarrow> raises e w
      | Inr _ \<Rightarrow>
          (let integrity = payload_integrity (publication_schema i); n = captured_bytes snapshot in
           case publish_objects (captured_range snapshot) integrity
                  (object_name integrity i ctx ''snapshot'' nonce) [] (object_ranges n) s of
             (Inl e, s) \<Rightarrow> raises e (s, c)
           | (Inr objs, s) \<Rightarrow>
               (let sha = (if integrity = ''sha256'' then sha256 (concat (map snd objs))
                           else boundary_token ctx span) in
                case publish_root i ctx span (snapshot_root i ctx span n (map fst objs) sha)
                       (map fst objs) s of
                  (Inl e, s) \<Rightarrow> raises e (s, c)
                | (Inr r, s) \<Rightarrow>
                    returns r (s, case snapshot of Buffer b \<Rightarrow> snd (remember_hot_page_snapshot sha b c)
                                  | Scatter _ _ \<Rightarrow> c))))"

section \<open>Extensions\<close>

text \<open>The result of a turn: its bytes, or a captured part with the pages each group keeps of the base.\<close>

type_synonym page_result = "captured \<times> int list option"

text \<open>The digest a publication base is bound to: that of a snapshot, the result of the last stage of a delta, or
  what a restore gives.\<close>

definition last_stage :: "jdict \<Rightarrow> jdict option" where
  "last_stage m =
     (if is_flat_delta m
      then (case the_list (jget m ''delta_stages'') of Some (v # vs) \<Rightarrow> the_obj (last (v # vs)) | _ \<Rightarrow> None)
      else Some m)"

definition stage_digest ::
    "page_layout \<Rightarrow> store \<Rightarrow> jdict \<Rightarrow> json list \<Rightarrow> json \<Rightarrow> page_cache \<Rightarrow> (string, page_cache) outcome" where
  "stage_digest lay s g counts boundary c =
     (case stage_header s g c of
        (Inl e, c) \<Rightarrow> raises e c
      | (Inr header, c) \<Rightarrow>
          (case bindE (counts_field g ''base_block_counts'') (\<lambda>bc.
             bindE (the_bytes (jget g ''delta_encoded_bytes'')) (\<lambda>n.
             plan_stored_delta lay header bc counts (jget g ''base_committed_tokens'') boundary (Some n))) of
             Inl e \<Rightarrow> raises e c
           | Inr p \<Rightarrow> returns (dl_result_sha256 p) c))"

definition restored_digest ::
    "page_layout \<Rightarrow> store \<Rightarrow> json \<Rightarrow> string \<Rightarrow> json list \<Rightarrow> json \<Rightarrow> page_cache \<Rightarrow> (string, page_cache) outcome" where
  "restored_digest lay s manifest kind counts boundary c =
     (case restore_root lay s None manifest kind counts boundary 0 True c of
        (Inl e, c) \<Rightarrow> raises e c
      | (Inr b, c) \<Rightarrow> returns (vs_sha256 (verify_page_snapshot_bytes b)) c)"

definition publication_snapshot_digest ::
    "page_layout \<Rightarrow> store \<Rightarrow> lookup_result \<Rightarrow> json list \<Rightarrow> json \<Rightarrow> page_cache \<Rightarrow> (string, page_cache) outcome" where
  "publication_snapshot_digest lay s r counts boundary c =
     (case lr_manifest r of
        None \<Rightarrow> raises (TypeError ''manifest'') c
      | Some manifest \<Rightarrow>
          (case (is_page_delta_root manifest, the_obj manifest) of
             (Inl e, _) \<Rightarrow> raises e c
           | (Inr is_delta, Some m) \<Rightarrow>
               if is_page_snapshot_root manifest
               then (case the_str (jget m ''snapshot_sha256'') of
                       None \<Rightarrow> raises (TypeError ''snapshot_sha256'') c | Some sha \<Rightarrow> returns sha c)
               else if is_delta \<and> jget m ''schema'' \<in> {JStr PAGE_DELTA_SCHEMA_V2, JStr PAGE_DELTA_SCHEMA_V3}
               then (case last_stage m of
                       None \<Rightarrow> raises IndexError c | Some g \<Rightarrow> stage_digest lay s g counts boundary c)
               else restored_digest lay s manifest (lr_root_kind r) counts boundary c
           | _ \<Rightarrow> raises (TypeError ''manifest'') c))"

text \<open>The innermost delta of a stack.\<close>

function terminal_delta :: "json \<Rightarrow> exn + json" where
  "terminal_delta root =
     (case the_obj root of
        None \<Rightarrow> Inl (TypeError ''root'')
      | Some d \<Rightarrow>
          bindE (is_page_delta_root (jget d ''base_root'')) (\<lambda>is_delta.
          if is_delta then terminal_delta (jget d ''base_root'') else Inr root))"
  by pat_completeness auto
termination
  using size_jget by (relation "measure size") (auto simp del: json.size)

declare terminal_delta.simps [simp del]

record publication_base =
  pb_lookup :: lookup_result
  pb_digest :: string
  pb_boundary :: int
  pb_counts :: "json list"
  pb_own :: bool

text \<open>The base of a publication: the entry itself, or below a full stack what the stack rests on.\<close>

definition choose_base ::
    "cache_identity \<Rightarrow> lookup_result \<Rightarrow> string \<Rightarrow> int list \<Rightarrow> string \<Rightarrow> int list \<Rightarrow> int \<Rightarrow> exn + publication_base" where
  "choose_base i base token_digest token_ids salt base_counts base_tokens =
     (case lr_manifest base of
        None \<Rightarrow> Inl (CacheFormatError ''base context is not reusable'')
      | Some manifest \<Rightarrow>
          bindE (if publication_schema i = ''page-tail-cow-v1'' then delta_root_count manifest else Inr 0) (\<lambda>depth.
          if depth < MAX_PAGE_DELTA_DEPTH
          then Inr \<lparr>pb_lookup = base, pb_digest = token_digest, pb_boundary = base_tokens,
                    pb_counts = map JInt base_counts, pb_own = True\<rparr>
          else
            bindE (terminal_delta manifest) (\<lambda>terminal.
            case the_obj terminal of
              None \<Rightarrow> Inl (TypeError ''root'')
            | Some t \<Rightarrow>
                (case (the_str (jget t ''base_context_digest''), the_int (jget t ''base_committed_tokens''),
                       the_str (jget t ''base_root_sha256'')) of
                   (Some digest, Some tokens, Some sha) \<Rightarrow>
                     bindE (counts_field t ''base_block_counts'') (\<lambda>counts.
                     bindE (context_prefix_digest token_ids salt (Some tokens) []) (\<lambda>own.
                     if own \<noteq> digest
                     then Inl (CommitConflict ''flattened base digest disagrees with supplied token sequence'')
                     else Inr \<lparr>pb_lookup = \<lparr>is_hit = True, reason = ''hit'', lr_digest = sha,
                            lr_manifest = Some (jget t ''base_root''),
                            lr_root_kind = (if is_page_snapshot_root (jget t ''base_root'') then ''page_snapshot'' else ''manifest'')\<rparr>,
                          pb_digest = digest, pb_boundary = tokens, pb_counts = counts, pb_own = False\<rparr>))
                 | _ \<Rightarrow> Inl (TypeError ''base'')))))"

text \<open>The bytes of the base: those the caller has restored, if they are what the root is bound to, or a restore.\<close>

definition supplied_base ::
    "page_layout \<Rightarrow> store \<Rightarrow> cache_identity \<Rightarrow> publication_base \<Rightarrow> string \<Rightarrow> page_cache
      \<Rightarrow> (verified_snapshot, page_cache) outcome" where
  "supplied_base lay s i pb b c =
     (case bindE (the_counts (pb_counts pb)) (\<lambda>counts. plan_page_snapshot lay b counts None) of
        Inl e \<Rightarrow> raises e c
      | Inr _ \<Rightarrow>
          (case publication_snapshot_digest lay s (pb_lookup pb) (pb_counts pb) (JInt (pb_boundary pb)) c of
             (Inl e, c) \<Rightarrow> raises e c
           | (Inr expected, c) \<Rightarrow>
               if payload_integrity (publication_schema i) \<noteq> ''sha256''
               then returns \<lparr>vs_payload = b, vs_sha256 = expected\<rparr> c
               else if vs_sha256 (verify_page_snapshot_bytes (Plain b)) \<noteq> expected
               then raises (CacheFormatError ''publication base snapshot digest differs'') c
               else returns (verify_page_snapshot_bytes (Plain b)) c))"

definition base_proof ::
    "page_layout \<Rightarrow> store \<Rightarrow> cache_identity \<Rightarrow> publication_base \<Rightarrow> string option \<Rightarrow> page_cache
      \<Rightarrow> (verified_snapshot, page_cache) outcome" where
  "base_proof lay s i pb verified_base c =
     (case (verified_base, pb_own pb) of
        (Some b, True) \<Rightarrow> supplied_base lay s i pb b c
      | _ \<Rightarrow>
          (case lr_manifest (pb_lookup pb) of
             None \<Rightarrow> raises (ValueError ''cannot restore a cache miss'') c
           | Some manifest \<Rightarrow>
               (case restore_root lay s None manifest (lr_root_kind (pb_lookup pb)) (pb_counts pb)
                       (JInt (pb_boundary pb)) 0 True c of
                  (Inl e, c) \<Rightarrow> raises e c
                | (Inr b, c) \<Rightarrow> returns (verify_page_snapshot_bytes b) c)))"

text \<open>A flat delta has as many stages as its history; at the limit the complete result is stored instead.\<close>

definition stage_count :: "json \<Rightarrow> nat" where
  "stage_count manifest =
     (case the_obj manifest of
        None \<Rightarrow> 0
      | Some m \<Rightarrow> (case the_list (jget m ''delta_stages'') of None \<Rightarrow> 0 | Some vs \<Rightarrow> length vs))"

definition at_stage_limit :: "cache_identity \<Rightarrow> nat \<Rightarrow> json \<Rightarrow> bool" where
  "at_stage_limit i limit manifest \<longleftrightarrow>
     publication_schema i \<in> set FLAT_PAGE_SCHEMAS \<and> limit \<noteq> 0 \<and> limit \<le> stage_count manifest"

definition complete_result ::
    "page_layout \<Rightarrow> string \<Rightarrow> page_result \<Rightarrow> json list \<Rightarrow> int list \<Rightarrow> exn + captured" where
  "complete_result lay base r base_counts result_counts =
     bindE (case snd r of
              Some reused \<Rightarrow>
                bindE (the_counts base_counts) (\<lambda>bc.
                bindE (materialize_page_extension_capture lay base (fst r) bc result_counts reused) (\<lambda>b. Inr (Buffer b)))
            | None \<Rightarrow> Inr (fst r)) (\<lambda>complete.
     case complete of
       Scatter n read \<Rightarrow> Inl (TypeError ''memoryview'')
     | Buffer b \<Rightarrow> bindE (plan_page_snapshot lay b result_counts None) (\<lambda>_. Inr complete))"

text \<open>The delta, with the complete result when the process may keep it: of a result given whole only an immutable
  buffer (\<open>is_bytes\<close>: a \<open>bytes\<close>, not a \<open>bytearray\<close>) becomes the hot result.\<close>

definition extension_payload ::
    "page_layout \<Rightarrow> cache_identity \<Rightarrow> verified_snapshot \<Rightarrow> bool \<Rightarrow> page_result \<Rightarrow> int list \<Rightarrow> int list \<Rightarrow> int \<Rightarrow> int
      \<Rightarrow> string \<Rightarrow> page_cache \<Rightarrow> exn + string \<times> string option" where
  "extension_payload lay i base is_bytes r base_counts result_counts base_tokens result_tokens ctx c =
     (let integrity = payload_integrity (publication_schema i);
          token = (if integrity = ''sha256'' then None else Some (boundary_token ctx result_tokens)) in
      case snd r of
        Some reused \<Rightarrow>
          if publication_schema i \<notin> set FLAT_PAGE_SCHEMAS
          then Inl (ValueError ''direct sparse page deltas require a flat page schema'')
          else
            bindE (page_snapshot_encoded_size lay result_counts) (\<lambda>n.
            if hot_page_snapshot_fits c n
            then
              bindE (encode_page_delta_from_capture_with_result lay (Verified base) (fst r) base_counts result_counts
                reused base_tokens result_tokens (Some (vs_sha256 base)) integrity token) (\<lambda>(delta, b).
              Inr (delta, Some b))
            else
              bindE (encode_page_delta_from_capture lay (Verified base) (fst r) base_counts result_counts
                reused base_tokens result_tokens (Some (vs_sha256 base)) integrity token) (\<lambda>delta. Inr (delta, None)))
      | None \<Rightarrow>
          (case fst r of
             Scatter n read \<Rightarrow> Inl (ValueError ''page delta result snapshot is invalid'')
           | Buffer b \<Rightarrow>
               bindE (encode_page_delta lay (vs_payload base) b base_counts result_counts base_tokens result_tokens
                 (Some (vs_sha256 base)) integrity token) (\<lambda>delta. Inr (delta, if is_bytes then Some b else None))))"

section \<open>The root of an extension\<close>

definition stage_entry ::
    "string \<Rightarrow> string \<Rightarrow> int \<Rightarrow> string \<Rightarrow> int \<Rightarrow> int list \<Rightarrow> int list \<Rightarrow> string \<Rightarrow> jdict list \<Rightarrow> string \<Rightarrow> json" where
  "stage_entry integrity ctx tokens base_ctx base_tokens base_counts result_counts delta ds header =
     JObj ([(''context_digest'', JStr ctx), (''committed_tokens'', JInt tokens),
        (''base_context_digest'', JStr base_ctx), (''base_committed_tokens'', JInt base_tokens),
        (''base_block_counts'', JList (map JInt base_counts)), (''result_block_counts'', JList (map JInt result_counts)),
        (''delta_encoded_bytes'', JInt (int (length delta))), (''delta_object_bytes'', JInt OBJECT_BYTES),
        (''delta_objects'', JList (map JObj ds)),
        (''delta_sha256'', JStr (if integrity = ''sha256'' then sha256 delta else boundary_token ctx (- int (length delta))))]
      @ (if integrity \<noteq> ''sha256'' then [(''header_sha256'', JStr (sha256 header))] else []))"

text \<open>A flat root keeps the base of the history and all its stages.\<close>

record flat_history =
  fh_root :: json
  fh_digest :: json
  fh_tokens :: json
  fh_counts :: "json list"
  fh_stages :: "json list"

definition flat_history_of ::
    "cache_identity \<Rightarrow> json \<Rightarrow> string \<Rightarrow> int \<Rightarrow> int list \<Rightarrow> exn + flat_history" where
  "flat_history_of i base base_ctx base_tokens base_counts =
     (case the_obj base of
        None \<Rightarrow> Inl (TypeError ''manifest'')
      | Some m \<Rightarrow>
          if is_flat_delta m
          then
            bindE (validate_page_delta_root base i base_ctx) (\<lambda>_.
            bindE (counts_field m ''base_block_counts'') (\<lambda>counts.
            case the_list (jget m ''delta_stages'') of
              None \<Rightarrow> Inl (TypeError ''stages'')
            | Some stages \<Rightarrow>
                Inr \<lparr>fh_root = jget m ''base_root'', fh_digest = jget m ''base_context_digest'',
                     fh_tokens = jget m ''base_committed_tokens'', fh_counts = counts, fh_stages = stages\<rparr>))
          else Inr \<lparr>fh_root = base, fh_digest = JStr base_ctx, fh_tokens = JInt base_tokens,
                    fh_counts = map JInt base_counts, fh_stages = []\<rparr>)"

definition flat_root ::
    "page_layout \<Rightarrow> cache_identity \<Rightarrow> string \<Rightarrow> int \<Rightarrow> int list \<Rightarrow> flat_history \<Rightarrow> json \<Rightarrow> jdict" where
  "flat_root lay i ctx tokens result_counts h stage =
     [(''schema'', JStr PAGE_DELTA_SCHEMA_V3), (''format_abi'', JInt FORMAT_ABI), (''identity'', to_wire i),
      (''context_digest'', JStr ctx), (''committed_tokens'', JInt tokens),
      (''base_context_digest'', fh_digest h), (''base_committed_tokens'', fh_tokens h),
      (''base_root'', fh_root h), (''base_root_sha256'', JStr (sha256 (canonical_json (fh_root h)))),
      (''layout_sha256'', JStr (layout_digest lay)), (''base_block_counts'', JList (fh_counts h)),
      (''result_block_counts'', JList (map JInt result_counts)), (''delta_stages'', JList (fh_stages h @ [stage])),
      (''logical_chunk_tokens'', JInt (chunk_tokens i))]"

definition stacked_root ::
    "page_layout \<Rightarrow> cache_identity \<Rightarrow> string \<Rightarrow> int \<Rightarrow> int list \<Rightarrow> publication_base \<Rightarrow> json \<Rightarrow> string \<Rightarrow> jdict list
      \<Rightarrow> jdict" where
  "stacked_root lay i ctx tokens result_counts pb base_root delta ds =
     [(''schema'', JStr PAGE_DELTA_SCHEMA_V2), (''format_abi'', JInt FORMAT_ABI), (''identity'', to_wire i),
      (''context_digest'', JStr ctx), (''committed_tokens'', JInt tokens),
      (''base_context_digest'', JStr (pb_digest pb)), (''base_committed_tokens'', JInt (pb_boundary pb)),
      (''base_root'', base_root), (''base_root_sha256'', JStr (sha256 (canonical_json base_root))),
      (''layout_sha256'', JStr (layout_digest lay)), (''base_block_counts'', JList (pb_counts pb)),
      (''result_block_counts'', JList (map JInt result_counts)), (''delta_encoded_bytes'', JInt (int (length delta))),
      (''delta_object_bytes'', JInt OBJECT_BYTES), (''delta_objects'', JList (map JObj ds)),
      (''delta_sha256'', JStr (sha256 delta)), (''logical_chunk_tokens'', JInt (chunk_tokens i))]"

definition extension_root ::
    "page_layout \<Rightarrow> cache_identity \<Rightarrow> json \<Rightarrow> string \<Rightarrow> int \<Rightarrow> int list \<Rightarrow> publication_base \<Rightarrow> string \<Rightarrow> int \<Rightarrow> int list
      \<Rightarrow> string \<Rightarrow> jdict list \<Rightarrow> string \<Rightarrow> exn + jdict" where
  "extension_root lay i base base_ctx base_tokens base_counts pb ctx tokens result_counts delta ds header =
     (if publication_schema i \<in> set FLAT_PAGE_SCHEMAS
      then
        bindE (flat_history_of i base base_ctx base_tokens base_counts) (\<lambda>h.
        Inr (flat_root lay i ctx tokens result_counts h
          (stage_entry (payload_integrity (publication_schema i)) ctx tokens base_ctx base_tokens base_counts
            result_counts delta ds header)))
      else
        (case lr_manifest (pb_lookup pb) of
           None \<Rightarrow> Inl (TypeError ''manifest'')
         | Some base_root \<Rightarrow> Inr (stacked_root lay i ctx tokens result_counts pb base_root delta ds)))"

text \<open>Once the objects are durable the process keeps the header it has written and the result it has hashed.\<close>

definition remember_extension ::
    "page_layout \<Rightarrow> publication_base \<Rightarrow> int list \<Rightarrow> int list \<Rightarrow> int \<Rightarrow> string \<Rightarrow> string \<Rightarrow> jdict list \<Rightarrow> string option
      \<Rightarrow> page_cache \<Rightarrow> (unit, page_cache) outcome" where
  "remember_extension lay pb base_counts result_counts tokens delta header ds hot c =
     (case ds of
        [] \<Rightarrow> raises IndexError c
      | d # _ \<Rightarrow>
          (case py_int (jget d ''bytes'') of
             Inl e \<Rightarrow> raises e c
           | Inr n \<Rightarrow>
               (let c = remember_authenticated_delta_header (descriptor_name d) n header c in
                case hot of
                  None \<Rightarrow> returns () c
                | Some b \<Rightarrow>
                    (case plan_page_delta lay header base_counts result_counts (pb_boundary pb) tokens
                            (Some (int (length delta))) of
                       Inl e \<Rightarrow> raises e c
                     | Inr p \<Rightarrow> returns () (snd (remember_hot_page_snapshot (dl_result_sha256 p) b c))))))"

definition publish_extension ::
    "page_layout \<Rightarrow> cache_identity \<Rightarrow> json \<Rightarrow> string \<Rightarrow> int \<Rightarrow> int list \<Rightarrow> publication_base \<Rightarrow> string \<Rightarrow> int \<Rightarrow> int list
      \<Rightarrow> string \<Rightarrow> string option \<Rightarrow> string \<Rightarrow> page_world \<Rightarrow> (commit_receipt, page_world) outcome" where
  "publish_extension lay i base base_ctx base_tokens base_counts pb ctx tokens result_counts delta hot nonce w =
     (let (s, c) = w; integrity = payload_integrity (publication_schema i) in
      case publish_objects (captured_range (Buffer delta)) integrity
             (object_name integrity i ctx ''delta'' nonce) [] (object_ranges (int (length delta))) s of
        (Inl e, s) \<Rightarrow> raises e (s, c)
      | (Inr objs, s) \<Rightarrow>
          (let ds = map fst objs in
           case bindE (page_delta_header_prefix delta) (\<lambda>header.
             bindE (the_counts (pb_counts pb)) (\<lambda>counts. Inr (header, counts))) of
             Inl e \<Rightarrow> raises e (s, c)
           | Inr (header, counts) \<Rightarrow>
               (case remember_extension lay pb counts result_counts tokens delta header ds hot c of
                  (Inl e, c) \<Rightarrow> raises e (s, c)
                | (Inr _, c) \<Rightarrow>
                    (case extension_root lay i base base_ctx base_tokens base_counts pb ctx tokens result_counts
                            delta ds header of
                       Inl e \<Rightarrow> raises e (s, c)
                     | Inr root \<Rightarrow>
                         (case publish_root i ctx tokens root ds s of
                            (Inl e, s) \<Rightarrow> raises e (s, c)
                          | (Inr r, s) \<Rightarrow> returns r (s, c))))))"

text \<open>What is decided before any byte is read: the base entry, the digest of the result and the base of the
  delta.\<close>

definition prepare_extension ::
    "cache_identity \<Rightarrow> string \<Rightarrow> int list \<Rightarrow> string \<Rightarrow> int list \<Rightarrow> int \<Rightarrow> int \<Rightarrow> store
      \<Rightarrow> exn + json \<times> publication_base \<times> string" where
  "prepare_extension i base_ctx token_ids salt base_counts base_tokens tokens s =
     (if publication_schema i \<notin> set PAGE_TAIL_SCHEMAS
      then Inl (ValueError ''page tail publication requires a page-tail-cow schema'')
      else
        bindE (lookup i base_ctx False True None s) (\<lambda>base.
        case (is_hit base, lr_manifest base) of
          (True, Some manifest) \<Rightarrow>
            (case the_obj manifest of
               None \<Rightarrow> Inl (TypeError ''manifest'')
             | Some m \<Rightarrow>
                 bindE (py_int (jget m ''committed_tokens'')) (\<lambda>n.
                 if n \<noteq> base_tokens then Inl (CacheFormatError ''base context boundary differs'')
                 else
                   bindE (context_prefix_digest token_ids salt (Some base_tokens) []) (\<lambda>own.
                   if own \<noteq> base_ctx
                   then Inl (CommitConflict ''base digest disagrees with supplied token sequence'')
                   else
                     bindE (choose_base i base base_ctx token_ids salt base_counts base_tokens) (\<lambda>pb.
                     bindE (context_prefix_digest token_ids salt (Some tokens) []) (\<lambda>ctx.
                     Inr (manifest, pb, ctx))))))
        | _ \<Rightarrow> Inl (CacheFormatError (''base context is not reusable: '' @ reason base))))"

definition commit_page_extension ::
    "nat \<Rightarrow> cache_identity \<Rightarrow> string \<Rightarrow> int list \<Rightarrow> string \<Rightarrow> page_layout \<Rightarrow> int list \<Rightarrow> int list \<Rightarrow> int \<Rightarrow> int
      \<Rightarrow> bool \<Rightarrow> page_result \<Rightarrow> string option \<Rightarrow> string \<Rightarrow> page_world \<Rightarrow> (commit_receipt, page_world) outcome" where
  "commit_page_extension limit i base_ctx token_ids salt lay base_counts result_counts base_tokens tokens
     is_bytes r verified_base nonce w =
     (let (s, c) = w in
      case prepare_extension i base_ctx token_ids salt base_counts base_tokens tokens s of
        Inl e \<Rightarrow> raises e w
      | Inr (base, pb, ctx) \<Rightarrow>
          (case base_proof lay s i pb verified_base c of
             (Inl e, c) \<Rightarrow> raises e (s, c)
           | (Inr proof, c) \<Rightarrow>
               if at_stage_limit i limit base
               then
                 (case complete_result lay (vs_payload proof) r (pb_counts pb) result_counts of
                    Inl e \<Rightarrow> raises e (s, c)
                  | Inr complete \<Rightarrow> commit_page_snapshot i ctx tokens complete nonce (s, c))
               else
                 (case bindE (the_counts (pb_counts pb)) (\<lambda>counts.
                    extension_payload lay i proof is_bytes r counts result_counts (pb_boundary pb) tokens ctx c) of
                    Inl e \<Rightarrow> raises e (s, c)
                  | Inr (delta, hot) \<Rightarrow>
                      publish_extension lay i base base_ctx base_tokens base_counts pb ctx tokens result_counts
                        delta hot nonce (s, c))))"

end
