(* ===== verification/Page_Cache_Laws.thy ===== *)
theory Page_Cache_Laws
  imports Page_Commit
begin

text \<open>
  What the two caches of page storage keep: whatever the store does with them, they hold no more than their
  limits, count what they hold exactly, and drop the least recently used entries first and no more of them
  than needed.
\<close>

section \<open>Ordered dictionaries\<close>

lemma held_bytes_simps [simp]:
  "held_bytes [] = 0" "held_bytes ((k, v) # d) = int (length v) + held_bytes d"
  "held_bytes (d @ d') = held_bytes d + held_bytes d'"
  by (simp_all add: held_bytes_def)

lemma held_bytes_nonneg [simp]: "0 \<le> held_bytes d"
  by (induction d) auto

lemma without_set [simp]: "set (without k d) = {x \<in> set d. fst x \<noteq> k}"
  by (auto simp: without_def)

lemma without_distinct: "distinct (map fst d) \<Longrightarrow> distinct (map fst (without k d))"
  by (simp add: without_def distinct_map_filter)

lemma at_end_distinct: "distinct (map fst d) \<Longrightarrow> distinct (map fst (at_end k v d))"
  by (auto simp: at_end_def without_distinct)

lemma without_fresh: "k \<notin> fst ` set d \<Longrightarrow> without k d = d"
  unfolding without_def by (rule filter_True) force

lemma held_bytes_without:
  "distinct (map fst d) \<Longrightarrow>
    held_bytes (without k d) = held_bytes d - (case map_of d k of None \<Rightarrow> 0 | Some v \<Rightarrow> int (length v))"
proof (induction d)
  case (Cons x d)
  obtain j v where x: "x = (j, v)" by (cases x)
  show ?case
  proof (cases "j = k")
    case True
    then have "without k d = d" using Cons.prems x by (intro without_fresh) auto
    then show ?thesis using x True by (simp add: without_def)
  qed (use Cons x in \<open>simp add: without_def\<close>)
qed (simp add: without_def)

lemma held_bytes_at_end:
  "distinct (map fst d) \<Longrightarrow>
    held_bytes (at_end k v d)
      = held_bytes d - (case map_of d k of None \<Rightarrow> 0 | Some x \<Rightarrow> int (length x)) + int (length v)"
  by (simp add: at_end_def held_bytes_without)

lemma at_end_set: "set (at_end k v d) = insert (k, v) {x \<in> set d. fst x \<noteq> k}"
  by (auto simp: at_end_def)

lemma at_end_map_of: "distinct (map fst d) \<Longrightarrow> map_of (at_end k v d) = (map_of d)(k \<mapsto> v)"
proof
  fix j
  assume "distinct (map fst d)"
  have "map_of (without k d) j = (if j = k then None else map_of d j)"
    by (induction d) (auto simp: without_def)
  then show "map_of (at_end k v d) j = ((map_of d)(k \<mapsto> v)) j"
    by (auto simp: at_end_def map_add_def split: option.split)
qed

lemma touch_set: "distinct (map fst d) \<Longrightarrow> map_of d k = Some v \<Longrightarrow> set (at_end k v d) = set d"
  by (auto simp: at_end_set dest: map_of_SomeD intro: rev_image_eqI)
    (metis fst_conv map_of_is_SomeI option.inject)

section \<open>Eviction\<close>

text \<open>The loop drops the shortest prefix whose removal is enough.\<close>

lemma evict_suffix:
  "\<exists>j\<le>length d. evict limit (d, held_bytes d) = (drop j d, held_bytes (drop j d))
    \<and> (\<forall>k<j. limit < held_bytes (drop k d)) \<and> (drop j d = [] \<or> held_bytes (drop j d) \<le> limit)"
proof (induction d)
  case (Cons x d)
  obtain k v where x: "x = (k, v)" by (cases x)
  show ?case
  proof (cases "limit < held_bytes (x # d)")
    case True
    from Cons.IH obtain j where j: "j \<le> length d" "evict limit (d, held_bytes d) = (drop j d, held_bytes (drop j d))"
      "\<forall>k<j. limit < held_bytes (drop k d)" "drop j d = [] \<or> held_bytes (drop j d) \<le> limit"
      by blast
    have "\<forall>i<Suc j. limit < held_bytes (drop i (x # d))"
      using True j(3) by (auto simp: less_Suc_eq_0_disj)
    then show ?thesis using True j x by (intro exI [of _ "Suc j"]) auto
  qed (use x in \<open>intro exI [of _ 0]; auto\<close>)
qed simp

definition lru_ok :: "int \<Rightarrow> (content_key \<times> string) list \<Rightarrow> int \<Rightarrow> bool" where
  "lru_ok limit d n \<longleftrightarrow> distinct (map fst d) \<and> n = held_bytes d \<and> n \<le> limit"

lemma evict_ok:
  assumes "evict limit (d, held_bytes d) = (e, n)" "distinct (map fst d)" "0 \<le> limit"
  shows "lru_ok limit e n" "set e \<subseteq> set d"
proof -
  obtain j where j: "e = drop j d" "n = held_bytes e" "e = [] \<or> held_bytes e \<le> limit"
    using evict_suffix [of d limit] assms(1) by auto
  then show "lru_ok limit e n" "set e \<subseteq> set d"
    using assms(2,3) by (auto simp: lru_ok_def drop_map [symmetric] dest: in_set_dropD intro: distinct_drop)
qed

text \<open>An entry at the end that fits alone stays.\<close>

lemma evict_keeps_last:
  assumes "evict limit (d @ [(k, v)], held_bytes (d @ [(k, v)])) = (e, n)" "int (length v) \<le> limit"
  shows "(k, v) \<in> set e"
proof -
  let ?d = "d @ [(k, v)]"
  obtain j where j: "j \<le> length ?d" "e = drop j ?d" "\<forall>i<j. limit < held_bytes (drop i ?d)"
    using evict_suffix [of ?d limit] assms(1) by auto
  have "held_bytes (drop (length d) ?d) \<le> limit" using assms(2) by simp
  then have "\<not> length d < j" using j(3) by (meson linorder_not_less)
  then show ?thesis using j(2) by auto
qed

section \<open>The caches\<close>

definition entry_sized :: "content_key \<times> string \<Rightarrow> bool" where
  "entry_sized x \<longleftrightarrow> 0 < snd (fst x) \<and> int (length (snd x)) = snd (fst x)"

definition header_sized :: "content_key \<times> string \<Rightarrow> bool" where
  "header_sized x \<longleftrightarrow> int (length (snd x)) \<le> snd (fst x)"

text \<open>The counts are exact, the entries have the length of their key, and the header cache is bounded.\<close>

definition cache_counted :: "page_cache \<Rightarrow> bool" where
  "cache_counted c \<longleftrightarrow> 0 \<le> hot_limit c \<and> distinct (map fst (hot_entries c))
     \<and> hot_bytes c = held_bytes (hot_entries c) \<and> (\<forall>x\<in>set (hot_entries c). entry_sized x)
     \<and> lru_ok DELTA_HEADER_BYTES (delta_headers c) (delta_header_bytes c)
     \<and> (\<forall>x\<in>set (delta_headers c). header_sized x)"

definition cache_ok :: "page_cache \<Rightarrow> bool" where
  "cache_ok c \<longleftrightarrow> cache_counted c \<and> hot_bytes c \<le> hot_limit c"

lemma new_cache_ok [simp]: "cache_ok new_page_cache"
  by (simp add: cache_ok_def cache_counted_def new_page_cache_def lru_ok_def DELTA_HEADER_BYTES_def)

lemma evict_hot_ok:
  assumes "cache_counted c" shows "cache_ok (evict_hot c)"
proof -
  obtain e n where e: "evict (hot_limit c) (hot_entries c, held_bytes (hot_entries c)) = (e, n)" by fastforce
  show ?thesis using evict_ok [OF e] assms e by (auto simp: cache_ok_def cache_counted_def evict_hot_def lru_ok_def)
qed

lemma set_limit_ok:
  assumes "cache_ok c" shows "cache_ok (snd (set_hot_page_snapshot_limit n c))"
proof (cases "n < 0")
  case False
  then have "cache_counted (c\<lparr>hot_limit := n\<rparr>)" using assms by (simp add: cache_ok_def cache_counted_def)
  then show ?thesis using False by (simp add: set_hot_page_snapshot_limit_def evict_hot_ok)
qed (use assms in \<open>simp add: set_hot_page_snapshot_limit_def\<close>)

lemma lookup_hot_ok:
  assumes "cache_ok c" shows "cache_ok (snd (hot_page_snapshot sha n c))"
proof (cases "map_of (hot_entries c) (sha, n)")
  case (Some b)
  then show ?thesis
    using assms touch_set [OF _ Some] held_bytes_at_end [of "hot_entries c" "(sha, n)" b]
    by (auto simp: hot_page_snapshot_def cache_ok_def cache_counted_def at_end_distinct)
qed (use assms in \<open>simp add: hot_page_snapshot_def cache_ok_def cache_counted_def\<close>)

lemma remember_hot_ok:
  assumes "cache_ok c" shows "cache_ok (snd (remember_hot_page_snapshot sha b c))"
proof (cases "hot_page_snapshot_fits c (int (length b))")
  case True
  let ?c = "c\<lparr>hot_entries := at_end (sha, int (length b)) b (hot_entries c),
     hot_bytes := held_bytes (at_end (sha, int (length b)) b (hot_entries c))\<rparr>"
  have "cache_counted ?c" using assms True
    by (auto simp: cache_ok_def cache_counted_def at_end_distinct at_end_set entry_sized_def hot_page_snapshot_fits_def)
  moreover have "snd (remember_hot_page_snapshot sha b c) = evict_hot ?c"
    using assms True by (simp add: remember_hot_page_snapshot_def cache_ok_def cache_counted_def held_bytes_at_end Let_def)
  ultimately show ?thesis by (simp add: evict_hot_ok)
qed (use assms in \<open>simp add: remember_hot_page_snapshot_def\<close>)

lemma clear_hot_ok: "cache_ok c \<Longrightarrow> cache_ok (clear_hot_page_snapshots c)"
  by (simp add: clear_hot_page_snapshots_def cache_ok_def cache_counted_def)

lemma find_header_ok:
  assumes "cache_ok c" shows "cache_ok (snd (authenticated_delta_header sha n c))"
proof (cases "map_of (delta_headers c) (sha, n)")
  case (Some h)
  then show ?thesis
    using assms touch_set [OF _ Some] held_bytes_at_end [of "delta_headers c" "(sha, n)" h]
    by (auto simp: authenticated_delta_header_def cache_ok_def cache_counted_def lru_ok_def at_end_distinct)
qed (use assms in \<open>simp add: authenticated_delta_header_def\<close>)

lemma remember_header_ok:
  assumes "cache_ok c" shows "cache_ok (remember_authenticated_delta_header sha n h c)"
proof (cases "int (length h) > min n DELTA_HEADER_BYTES")
  case False
  let ?d = "at_end (sha, n) h (delta_headers c)"
  have d: "distinct (map fst ?d)" using assms by (simp add: cache_ok_def cache_counted_def lru_ok_def at_end_distinct)
  have sum: "delta_header_bytes c - (case map_of (delta_headers c) (sha, n) of None \<Rightarrow> 0 | Some x \<Rightarrow> int (length x))
      + int (length h) = held_bytes ?d"
    using assms by (simp add: cache_ok_def cache_counted_def lru_ok_def held_bytes_at_end)
  obtain e k where e: "evict DELTA_HEADER_BYTES (?d, held_bytes ?d) = (e, k)" by fastforce
  have "lru_ok DELTA_HEADER_BYTES e k" "set e \<subseteq> set ?d"
    using evict_ok [OF e d] by (simp_all add: DELTA_HEADER_BYTES_def)
  then show ?thesis
    using assms False sum e unfolding remember_authenticated_delta_header_def
    by (auto simp: cache_ok_def cache_counted_def at_end_set header_sized_def Let_def)
qed (use assms in \<open>simp add: remember_authenticated_delta_header_def\<close>)

lemma clear_headers_ok: "cache_ok c \<Longrightarrow> cache_ok (clear_authenticated_delta_headers c)"
  by (simp add: clear_authenticated_delta_headers_def cache_ok_def cache_counted_def lru_ok_def DELTA_HEADER_BYTES_def)

lemmas cache_steps_ok [intro] = set_limit_ok lookup_hot_ok remember_hot_ok clear_hot_ok find_header_ok
  remember_header_ok clear_headers_ok

section \<open>What the store does with them\<close>

lemma size_member: "the_obj v = Some m \<Longrightarrow> size (jget m k) < size v"
  using size_jget [of m k] by (cases v) auto

text \<open>A shared reader may run the read it was given, any number of times.\<close>

definition reader_keeps :: "(page_cache \<Rightarrow> bool) \<Rightarrow> base_reader option \<Rightarrow> bool" where
  "reader_keeps good reader \<longleftrightarrow>
     (\<forall>r ev read c. reader = Some r \<longrightarrow> (\<forall>c. good c \<longrightarrow> good (snd (read c))) \<longrightarrow> good c \<longrightarrow> good (snd (r ev read c)))"

lemma no_reader_keeps [simp]: "reader_keeps good None"
  by (simp add: reader_keeps_def)

locale page_cache_invariant =
  fixes good :: "page_cache \<Rightarrow> bool"
  assumes find_hot: "good c \<Longrightarrow> good (snd (hot_page_snapshot sha n c))"
    and keep_hot: "good c \<Longrightarrow> good (snd (remember_hot_page_snapshot sha b c))"
    and find_header: "good c \<Longrightarrow> good (snd (authenticated_delta_header sha n c))"
    and keep_header: "good c \<Longrightarrow> good (remember_authenticated_delta_header sha n h c)"
begin

lemma header_inv: "good c \<Longrightarrow> good (snd (authenticated_page_delta_header s d sha c))"
  using find_header [of c "descriptor_name d"]
  by (auto simp: authenticated_page_delta_header_def keep_header split: sum.split prod.split option.split)
    (metis keep_header snd_conv)+

lemma stage_header_inv: "good c \<Longrightarrow> good (snd (stage_header s g c))"
  by (auto simp: stage_header_def header_inv split: option.split list.split)

lemma plan_stages_inv: "good c \<Longrightarrow> good (snd (plan_stages lay s vs c))"
proof (induction vs arbitrary: c)
  case (Cons v vs)
  show ?case
  proof (cases "the_obj v")
    case (Some g)
    obtain r d where d: "stage_header s g c = (r, d)" by fastforce
    have "good d" using stage_header_inv [OF Cons.prems, of s g] d by simp
    then show ?thesis using Cons.IH [of d] Some d
      by (cases "plan_stages lay s vs d") (auto split: sum.split)
  qed (use Cons.prems in simp)
qed simp

lemma open_flat_inv: "good c \<Longrightarrow> good (snd (open_flat_delta lay s manifest counts boundary c))"
  using plan_stages_inv [of c lay s] find_hot
  by (auto simp: open_flat_delta_def Let_def split: sum.split prod.split) (metis snd_conv)+

lemma compose_flat_inv: "good c \<Longrightarrow> good (snd (compose_flat_delta lay s m plans sha b verified c))"
  by (auto simp: compose_flat_delta_def keep_hot split: sum.split)

lemma snapshot_root_inv: "good c \<Longrightarrow> good (snd (restore_snapshot_root s manifest boundary verified c))"
  using find_hot [of c] keep_hot
  by (auto simp: restore_snapshot_root_def split: option.split sum.split prod.split) (metis snd_conv)+

lemma restore_root_inv:
  "good c \<Longrightarrow> reader_keeps good reader \<Longrightarrow>
    good (snd (restore_root lay s reader manifest kind counts boundary depth verified c))"
proof (induction "size manifest" arbitrary: manifest reader kind counts boundary depth verified c rule: less_induct)
  case less
  show ?case
  proof (cases "is_page_snapshot_root manifest")
    case True
    then show ?thesis using snapshot_root_inv [OF less.prems(1)] by (subst restore_root.simps) simp
  next
    case root: False
    show ?thesis
    proof (cases "\<exists>m. is_page_delta_root manifest = Inr True \<and> the_obj manifest = Some m")
      case False
      then show ?thesis using root less.prems(1)
        by (subst restore_root.simps) (auto split: sum.split bool.split option.split)
    next
      case True
      then obtain m where m: "is_page_delta_root manifest = Inr True" "the_obj manifest = Some m" by blast
      have IH: "good d \<Longrightarrow> good (snd (restore_root lay s None (jget m ''base_root'') k n b e v d))" for k n b e v d
        using less.hyps [OF size_member [OF m(2)]] by simp
      show ?thesis
      proof (cases "is_flat_delta m")
        case True
        obtain r d where d: "open_flat_delta lay s manifest counts boundary c = (r, d)" by fastforce
        have "good d" using open_flat_inv [OF less.prems(1), of lay s manifest counts boundary] d by simp
        moreover have "good f"
          if "restore_root lay s None (jget m ''base_root'') k n b e v d = (x, f)" for k n b e v x f
          using IH [OF calculation, of k n b e v] that by simp
        ultimately show ?thesis
          using compose_flat_inv root m True d
          by (subst restore_root.simps) (auto split: sum.split option.split prod.split)
      next
        case False
        have step: "good f"
          if "(case (reader, depth) of (Some r, 0) \<Rightarrow> r ev read c | _ \<Rightarrow> read c) = (x, f)"
            "\<And>c. good c \<Longrightarrow> good (snd (read c))" for ev read x f
        proof -
          have "good (snd (case (reader, depth) of (Some r, 0) \<Rightarrow> r ev read c | _ \<Rightarrow> read c))"
            using less.prems that(2) by (auto simp: reader_keeps_def split: option.split nat.split)
          then show ?thesis using that(1) by simp
        qed
        have "good f"
          if "(case (reader, depth) of
                (Some r, 0) \<Rightarrow> r ev (\<lambda>c. restore_root lay s None (jget m ''base_root'') k n b e v c) c
              | _ \<Rightarrow> restore_root lay s None (jget m ''base_root'') k n b e v c) = (x, f)" for ev k n b e v x f
          using that by (rule step) (rule IH)
        then show ?thesis
          using root m False less.prems(1)
          by (subst restore_root.simps) (auto simp: Let_def split: sum.split prod.split)
      qed
    qed
  qed
qed

lemma restored_inv:
  "restore_root lay s None manifest kind counts boundary depth verified c = (x, d) \<Longrightarrow> good c \<Longrightarrow> good d"
  using restore_root_inv [of c None lay s manifest kind counts boundary depth verified] by simp

lemma stage_header_keeps: "stage_header s g c = (x, d) \<Longrightarrow> good c \<Longrightarrow> good d"
  using stage_header_inv [of c s g] by simp

lemma snapshot_digest_inv:
  assumes "good c" shows "good (snd (publication_snapshot_digest lay s r counts boundary c))"
proof -
  have stage: "good (snd (stage_digest lay s g counts boundary c))" for g
    using stage_header_inv [OF assms, of s g] by (auto simp: stage_digest_def split: prod.split sum.split)
  have rows: "good (snd (restored_digest lay s manifest k counts boundary c))" for manifest k
    using restored_inv [OF _ assms] by (auto simp: restored_digest_def split: prod.split sum.split)
  show ?thesis
    using assms stage rows by (simp add: publication_snapshot_digest_def split: option.split sum.split)
qed

lemma supplied_base_inv: "good c \<Longrightarrow> good (snd (supplied_base lay s i pb b c))"
  using snapshot_digest_inv [of c lay s "pb_lookup pb" "pb_counts pb" "JInt (pb_boundary pb)"]
  by (auto simp: supplied_base_def split: sum.split prod.split)

lemma base_proof_inv: "good c \<Longrightarrow> good (snd (base_proof lay s i pb b c))"
  using supplied_base_inv [of c lay s i pb] restored_inv
  by (auto simp: base_proof_def split: option.split bool.split sum.split prod.split)

lemma commit_snapshot_inv:
  "good (snd w) \<Longrightarrow> good (snd (snd (commit_page_snapshot i ctx span snapshot nonce w)))"
  by (auto simp: commit_page_snapshot_def Let_def keep_hot split: prod.split sum.split captured.split)

lemma remember_extension_inv:
  "good c \<Longrightarrow> good (snd (remember_extension lay pb bc rc n delta header ds hot c))"
  by (auto simp: remember_extension_def Let_def keep_hot keep_header split: list.split sum.split option.split)

lemma publish_extension_inv:
  assumes "good (snd w)"
  shows "good (snd (snd (publish_extension lay i base bctx bn bc pb ctx n rc delta hot nonce w)))"
proof -
  have "good d" if "remember_extension lay pb counts rc n delta header ds hot (snd w) = (x, d)" for counts header ds x d
    using remember_extension_inv [OF assms, of lay pb counts rc n delta header ds hot] that by simp
  then show ?thesis using assms
    by (cases w) (auto simp: publish_extension_def Let_def split: prod.split sum.split)
qed

lemma commit_extension_inv:
  assumes "good (snd w)"
  shows "good (snd (snd (commit_page_extension limit i bctx ts salt lay bc rc bn n is_bytes r vb nonce w)))"
proof (cases "prepare_extension i bctx ts salt bc bn n (fst w)")
  case (Inr x)
  obtain base pb ctx where x: "x = (base, pb, ctx)" by (cases x)
  obtain p d where p: "base_proof lay (fst w) i pb vb (snd w) = (p, d)" by fastforce
  have d: "good d" using base_proof_inv [OF assms, of lay "fst w" i pb vb] p by simp
  have snapshot: "good (snd (snd (commit_page_snapshot i ctx n snap nonce (fst w, d))))" for snap
    using commit_snapshot_inv [of "(fst w, d)"] d by simp
  have publish: "good (snd (snd (publish_extension lay i base bctx bn bc pb ctx n rc delta hot nonce (fst w, d))))" for delta hot
    using publish_extension_inv [of "(fst w, d)"] d by simp
  show ?thesis using Inr x p d snapshot publish
    by (cases w) (auto simp: commit_page_extension_def split: sum.split)
qed (use assms in \<open>cases w; simp add: commit_page_extension_def\<close>)

end

interpretation cache_bound: page_cache_invariant cache_ok
  by unfold_locales auto

section \<open>The page storage of a process\<close>

text \<open>One step: an operation of the store, a change of the limit, a clearing of a cache, or another process
  that changes the disk.\<close>

inductive page_step :: "page_world \<Rightarrow> page_world \<Rightarrow> bool" where
  limit: "set_hot_page_snapshot_limit n c = (x, d) \<Longrightarrow> page_step (s, c) (s, d)"
| cleared: "page_step (s, c) (s, clear_hot_page_snapshots c)"
| forgotten: "page_step (s, c) (s, clear_authenticated_delta_headers c)"
| restored: "reader_keeps cache_ok reader \<Longrightarrow>
    restore_page_snapshot lay s r counts boundary reader verified c = (x, d) \<Longrightarrow> page_step (s, c) (s, d)"
| snapshot: "commit_page_snapshot i ctx span b nonce (s, c) = (x, w) \<Longrightarrow> page_step (s, c) w"
| extension: "commit_page_extension limit i ctx ts salt lay bc rc bn n is_bytes result given nonce (s, c) = (x, w) \<Longrightarrow>
    page_step (s, c) w"
| disk: "page_step (s, c) (t, c)"

inductive_cases page_step_cases: "page_step w v"

definition new_process :: "page_world \<Rightarrow> bool" where
  "new_process w \<longleftrightarrow> snd w = new_page_cache"

definition page_world_ok :: "page_world \<Rightarrow> bool" where
  "page_world_ok w \<longleftrightarrow> cache_ok (snd w)"

lemma restore_snapshot_ok:
  "cache_ok c \<Longrightarrow> reader_keeps cache_ok reader \<Longrightarrow>
    cache_ok (snd (restore_page_snapshot lay s r counts boundary reader verified c))"
  by (auto simp: restore_page_snapshot_def intro: cache_bound.restore_root_inv split: option.split bool.split)

interpretation page_storage: invariant_system new_process page_step page_world_ok
proof
  show "page_world_ok w" if "new_process w" for w
    using that by (simp add: new_process_def page_world_ok_def)
  show "page_world_ok v" if "page_step w v" "page_world_ok w" for w v
    using that
  proof (cases rule: page_step.cases)
    case (limit n c x d s)
    then show ?thesis using that(2) set_limit_ok [of c n] by (simp add: page_world_ok_def)
  next
    case (restored reader lay s r counts boundary verified c x d)
    then show ?thesis
      using that(2) restore_snapshot_ok [of c reader lay s r counts boundary verified] by (simp add: page_world_ok_def)
  next
    case (snapshot i ctx span b nonce s c x)
    then show ?thesis
      using that(2) cache_bound.commit_snapshot_inv [of "(s, c)" i ctx span b nonce] by (simp add: page_world_ok_def)
  next
    case (extension limit i ctx ts salt lay bc rc bn n is_bytes result given nonce s c x)
    then show ?thesis
      using that(2) cache_bound.commit_extension_inv [of "(s, c)" limit i ctx ts salt lay bc rc bn n is_bytes result given nonce]
      by (simp add: page_world_ok_def)
  qed (auto simp: page_world_ok_def)
qed

text \<open>C29: Whatever a process does with its page storage, and whatever happens on the disk, the memory its two
  caches hold is counted exactly and stays within the limits: the budget of the hot snapshots, which is zero
  until it is set, and sixteen mebibytes of delta headers.\<close>

theorem page_caches_bounded:
  assumes "new_process w" "page_step\<^sup>*\<^sup>* w v"
  shows "hot_bytes (snd v) = held_bytes (hot_entries (snd v)) \<and> hot_bytes (snd v) \<le> hot_limit (snd v)
    \<and> delta_header_bytes (snd v) = held_bytes (delta_headers (snd v))
    \<and> delta_header_bytes (snd v) \<le> DELTA_HEADER_BYTES
    \<and> distinct (map fst (hot_entries (snd v))) \<and> distinct (map fst (delta_headers (snd v)))"
  using page_storage.reachable_inv [OF assms]
  by (simp_all add: page_world_ok_def cache_ok_def cache_counted_def lru_ok_def)

text \<open>A process that sets a limit of eight bytes, restores nothing and commits nothing.\<close>

theorem page_caches_bounded_witness:
  "page_step\<^sup>*\<^sup>* (empty_store, new_page_cache) (empty_store, new_page_cache\<lparr>hot_limit := 8\<rparr>)
    \<and> hot_bytes (new_page_cache\<lparr>hot_limit := 8\<rparr>) \<le> 8"
proof -
  have "page_step (empty_store, new_page_cache) (empty_store, new_page_cache\<lparr>hot_limit := 8\<rparr>)"
    by (rule page_step.limit [of 8 _ "Inr ()"])
       (simp add: set_hot_page_snapshot_limit_def evict_hot_def new_page_cache_def)
  then have run: "page_step\<^sup>*\<^sup>* (empty_store, new_page_cache) (empty_store, new_page_cache\<lparr>hot_limit := 8\<rparr>)" by blast
  have "new_process (empty_store, new_page_cache)" by (simp add: new_process_def)
  from page_caches_bounded [OF this run] run show ?thesis by simp
qed

section \<open>Least recently used\<close>

text \<open>\<open>hot_used us c\<close>: \<open>c\<close> is a cache some run of cache operations leads to, and \<open>us\<close> are the keys it used, in
  order of time, one for each snapshot found and each one remembered.\<close>

inductive hot_used :: "content_key list \<Rightarrow> page_cache \<Rightarrow> bool" where
  new: "hot_used [] new_page_cache"
| found: "hot_used us c \<Longrightarrow> hot_page_snapshot sha n c = (Some b, d) \<Longrightarrow> hot_used (us @ [(sha, n)]) d"
| missed: "hot_used us c \<Longrightarrow> hot_page_snapshot sha n c = (None, d) \<Longrightarrow> hot_used us d"
| remembered: "hot_used us c \<Longrightarrow> remember_hot_page_snapshot sha b c = (True, d) \<Longrightarrow>
    hot_used (us @ [(sha, int (length b))]) d"
| refused: "hot_used us c \<Longrightarrow> remember_hot_page_snapshot sha b c = (False, d) \<Longrightarrow> hot_used us d"
| limit: "hot_used us c \<Longrightarrow> set_hot_page_snapshot_limit n c = (r, d) \<Longrightarrow> hot_used us d"
| cleared: "hot_used us c \<Longrightarrow> hot_used us (clear_hot_page_snapshots c)"
| header: "hot_used us c \<Longrightarrow> authenticated_delta_header sha n c = (r, d) \<Longrightarrow> hot_used us d"
| kept_header: "hot_used us c \<Longrightarrow> hot_used us (remember_authenticated_delta_header sha n h c)"
| cleared_headers: "hot_used us c \<Longrightarrow> hot_used us (clear_authenticated_delta_headers c)"

text \<open>Every restore and every commit of page storage is such a run.\<close>

interpretation cache_used: page_cache_invariant "\<lambda>c. \<exists>us. hot_used us c"
proof
  fix c sha n b h
  assume "\<exists>us. hot_used us c"
  then obtain us where u: "hot_used us c" by blast
  show "\<exists>us. hot_used us (snd (hot_page_snapshot sha n c))"
  proof (cases "hot_page_snapshot sha n c")
    case (Pair x d)
    then show ?thesis by (cases x) (use u in \<open>auto intro: hot_used.missed hot_used.found\<close>)
  qed
  show "\<exists>us. hot_used us (snd (remember_hot_page_snapshot sha b c))"
  proof (cases "remember_hot_page_snapshot sha b c")
    case (Pair x d)
    then show ?thesis by (cases x) (use u in \<open>auto intro: hot_used.remembered hot_used.refused\<close>)
  qed
  show "\<exists>us. hot_used us (snd (authenticated_delta_header sha n c))"
    by (cases "authenticated_delta_header sha n c") (use u in \<open>auto intro: hot_used.header\<close>)
  show "\<exists>us. hot_used us (remember_authenticated_delta_header sha n h c)"
    using u by (blast intro: hot_used.kept_header)
qed

lemma hot_used_ok: "hot_used us c \<Longrightarrow> cache_ok c"
proof (induction rule: hot_used.induct)
  case (found us c sha n b d)
  then show ?case using lookup_hot_ok [of c sha n] by simp
next
  case (missed us c sha n d)
  then show ?case using lookup_hot_ok [of c sha n] by simp
next
  case (remembered us c sha b d)
  then show ?case using remember_hot_ok [of c sha b] by simp
next
  case (refused us c sha b d)
  then show ?case using remember_hot_ok [of c sha b] by simp
next
  case (limit us c n r d)
  then show ?case using set_limit_ok [of c n] by simp
next
  case (header us c sha n r d)
  then show ?case using find_header_ok [of c sha n] by simp
qed auto

text \<open>The keys held are the ones used last; \<open>remdups\<close> keeps the last use of each.\<close>

definition by_recency :: "content_key list \<Rightarrow> (content_key \<times> string) list \<Rightarrow> bool" where
  "by_recency us d \<longleftrightarrow> (\<exists>i. map fst d = drop i (remdups us))"

lemma remdups_snoc: "remdups (us @ [k]) = removeAll k (remdups us) @ [k]"
  by (induction us) auto

lemma map_fst_without: "map fst (without k d) = removeAll k (map fst d)"
  by (induction d) (auto simp: without_def)

lemma removeAll_drop: "\<exists>j. removeAll k (drop i xs) = drop j (removeAll k xs)"
proof (induction xs arbitrary: i)
  case (Cons x xs)
  show ?case
  proof (cases i)
    case 0
    then show ?thesis by (intro exI [of _ 0]) simp
  next
    case (Suc m)
    obtain j where j: "removeAll k (drop m xs) = drop j (removeAll k xs)" using Cons.IH by blast
    then have "removeAll k (drop i (x # xs)) = drop (if x = k then j else Suc j) (removeAll k (x # xs))"
      using Suc by simp
    then show ?thesis by blast
  qed
qed simp

lemma by_recency_use: "by_recency us d \<Longrightarrow> by_recency (us @ [k]) (at_end k v d)"
proof -
  assume "by_recency us d"
  then obtain i where "map fst d = drop i (remdups us)" by (auto simp: by_recency_def)
  then obtain j where j: "map fst (without k d) = drop j (removeAll k (remdups us))"
    using removeAll_drop [of k i "remdups us"] by (auto simp: map_fst_without)
  have "map fst (at_end k v d) = drop (min j (length (removeAll k (remdups us)))) (remdups (us @ [k]))"
    by (simp add: at_end_def j remdups_snoc min_def)
  then show ?thesis unfolding by_recency_def by blast
qed

lemma by_recency_drop: "by_recency us d \<Longrightarrow> by_recency us (drop j d)"
  by (auto simp: by_recency_def drop_map [symmetric])

lemma evict_drops: "\<exists>j. fst (evict limit (d, n)) = drop j d"
proof (induction d arbitrary: n)
  case (Cons x d)
  obtain k v where x: "x = (k, v)" by (cases x)
  show ?case
  proof (cases "n > limit")
    case True
    from Cons.IH [of "n - int (length v)"] obtain j where "fst (evict limit (d, n - int (length v))) = drop j d" by blast
    then show ?thesis using True x by (intro exI [of _ "Suc j"]) simp
  qed (use x in \<open>intro exI [of _ 0]; simp\<close>)
qed simp

lemma by_recency_evict: "by_recency us (hot_entries c) \<Longrightarrow> by_recency us (hot_entries (evict_hot c))"
  using evict_drops [of "hot_limit c" "hot_entries c" "hot_bytes c"] by_recency_drop
  by (auto simp: evict_hot_def split: prod.split)

lemma hot_used_recency: "hot_used us c \<Longrightarrow> by_recency us (hot_entries c)"
proof (induction rule: hot_used.induct)
  case (found us c sha n b d)
  then show ?case
    using by_recency_use [of us "hot_entries c" "(sha, n)"]
    by (auto simp: hot_page_snapshot_def split: if_splits option.splits)
next
  case (remembered us c sha b d)
  then show ?case
    using by_recency_evict [of "us @ [(sha, int (length b))]"] by_recency_use [of us "hot_entries c" "(sha, int (length b))" b]
    by (auto simp: remember_hot_page_snapshot_def Let_def split: if_splits)
next
  case (limit us c n r d)
  then show ?case
    using by_recency_evict [of us "c\<lparr>hot_limit := n\<rparr>"]
    by (auto simp: set_hot_page_snapshot_limit_def split: if_splits)
next
  case (kept_header us c sha n h)
  then show ?case by (auto simp: remember_authenticated_delta_header_def Let_def split: prod.split)
qed (auto simp: by_recency_def new_page_cache_def hot_page_snapshot_def remember_hot_page_snapshot_def
    clear_hot_page_snapshots_def authenticated_delta_header_def clear_authenticated_delta_headers_def Let_def
    split: if_splits option.splits)

text \<open>C30: The cache of complete snapshots is least recently used. Whatever operations led to it, the keys
  it holds are the ones used last, in the order of their last use, whether that was a snapshot found or one
  remembered. A snapshot that fits is found right after it is remembered, what it pushes out are the
  entries used longest ago, and no more of them than its bytes need.\<close>

theorem remembered_is_found:
  assumes "hot_used us c" "hot_page_snapshot_fits c (int (length b))"
    "remember_hot_page_snapshot sha b c = (kept, d)"
  shows "kept \<and> fst (hot_page_snapshot sha (int (length b)) d) = Some b
    \<and> (\<exists>i. map fst (hot_entries c) = drop i (remdups us))
    \<and> (\<exists>i. map fst (hot_entries d) = drop i (remdups (us @ [(sha, int (length b))])))
    \<and> (\<exists>j. hot_entries d = drop j (at_end (sha, int (length b)) b (hot_entries c))
         \<and> (\<forall>k<j. hot_limit c < held_bytes (drop k (at_end (sha, int (length b)) b (hot_entries c)))))"
proof -
  let ?k = "(sha, int (length b))"
  let ?e = "at_end ?k b (hot_entries c)"
  have ok: "cache_ok c" using assms(1) by (rule hot_used_ok)
  then have n: "hot_bytes c = held_bytes (hot_entries c)" "distinct (map fst (hot_entries c))"
    by (simp_all add: cache_ok_def cache_counted_def)
  obtain e m where e: "evict (hot_limit c) (?e, held_bytes ?e) = (e, m)" by fastforce
  have d: "kept" "d = c\<lparr>hot_entries := e, hot_bytes := m\<rparr>"
    using assms(2,3) n e by (auto simp: remember_hot_page_snapshot_def evict_hot_def held_bytes_at_end Let_def)
  have fits: "int (length b) \<le> hot_limit c" "0 < hot_limit c"
    using assms(2) by (simp_all add: hot_page_snapshot_fits_def del: of_nat_0_less_iff)
  have "(?k, b) \<in> set e" using evict_keeps_last [of "hot_limit c" "without ?k (hot_entries c)" ?k b] e fits
    by (simp add: at_end_def)
  moreover have "distinct (map fst e)"
    using evict_ok(1) [OF e] n(2) fits by (simp add: at_end_distinct lru_ok_def)
  ultimately have "map_of e ?k = Some b" by simp
  moreover obtain j where "e = drop j ?e" "\<forall>k<j. hot_limit c < held_bytes (drop k ?e)"
    using evict_suffix [of ?e "hot_limit c"] e by auto
  moreover have "by_recency us (hot_entries c)" "by_recency (us @ [?k]) (hot_entries d)"
    using hot_used_recency [OF assms(1)] hot_used_recency [OF hot_used.remembered [OF assms(1), of sha b d]]
      assms(3) d(1) by simp_all
  ultimately show ?thesis
    using d fits by (auto simp: hot_page_snapshot_def hot_page_snapshots_enabled_def by_recency_def)
qed

text \<open>A budget of four bytes and two entries, the older of which has been found since: the next snapshot
  pushes out the other one.\<close>

definition small_cache :: page_cache where
  "small_cache = new_page_cache\<lparr>hot_limit := 4, hot_bytes := 3, hot_hits := 1,
     hot_entries := [((''new'', 1), ''c''), ((''old'', 2), ''ab'')]\<rparr>"

lemma small_cache_used: "hot_used [(''old'', 2), (''new'', 1), (''old'', 2)] small_cache"
proof -
  let ?c0 = "new_page_cache\<lparr>hot_limit := 4\<rparr>"
  let ?c1 = "?c0\<lparr>hot_bytes := 2, hot_entries := [((''old'', 2), ''ab'')]\<rparr>"
  let ?c2 = "?c0\<lparr>hot_bytes := 3, hot_entries := [((''old'', 2), ''ab''), ((''new'', 1), ''c'')]\<rparr>"
  have "hot_used [] ?c0"
    by (rule hot_used.limit [OF hot_used.new, of 4 "Inr ()"])
       (simp add: set_hot_page_snapshot_limit_def evict_hot_def new_page_cache_def)
  then have "hot_used ([] @ [(''old'', int (length ''ab''))]) ?c1"
    by (rule hot_used.remembered)
       (simp add: remember_hot_page_snapshot_def hot_page_snapshot_fits_def new_page_cache_def evict_hot_def
          at_end_def without_def)
  then have "hot_used (([] @ [(''old'', int (length ''ab''))]) @ [(''new'', int (length ''c''))]) ?c2"
    by (rule hot_used.remembered)
       (simp add: remember_hot_page_snapshot_def hot_page_snapshot_fits_def new_page_cache_def evict_hot_def
          at_end_def without_def)
  then have "hot_used ((([] @ [(''old'', int (length ''ab''))]) @ [(''new'', int (length ''c''))]) @ [(''old'', 2)]) small_cache"
    by (rule hot_used.found [where b = "''ab''"])
       (simp add: hot_page_snapshot_def hot_page_snapshots_enabled_def small_cache_def new_page_cache_def
          at_end_def without_def)
  then show ?thesis by simp
qed

theorem remembered_is_found_witness:
  "hot_used [(''old'', 2), (''new'', 1), (''old'', 2)] small_cache
   \<and> fst (hot_page_snapshot ''third'' 2 (snd (remember_hot_page_snapshot ''third'' ''xy'' small_cache))) = Some ''xy''
   \<and> map fst (hot_entries (snd (remember_hot_page_snapshot ''third'' ''xy'' small_cache)))
     = [(''old'', 2), (''third'', 2)]"
proof -
  let ?d = "snd (remember_hot_page_snapshot ''third'' ''xy'' small_cache)"
  have fit: "hot_page_snapshot_fits small_cache (int (length ''xy''))"
    by (simp add: hot_page_snapshot_fits_def small_cache_def)
  have r: "remember_hot_page_snapshot ''third'' ''xy'' small_cache = (True, ?d)"
    using fit by (simp add: remember_hot_page_snapshot_def Let_def)
  have "fst (hot_page_snapshot ''third'' 2 ?d) = Some ''xy''"
    using remembered_is_found [OF small_cache_used fit r] by simp
  moreover have "map fst (hot_entries ?d) = [(''old'', 2), (''third'', 2)]"
    by (simp add: remember_hot_page_snapshot_def hot_page_snapshot_fits_def small_cache_def new_page_cache_def
        evict_hot_def at_end_def without_def)
  ultimately show ?thesis using small_cache_used by blast
qed

end
