(* ===== verification/Page_Object_Laws.thy ===== *)
theory Page_Object_Laws
  imports Page_Cache_Laws Extend_Laws
begin

text \<open>
  The objects of an encoded stream: cutting it covers it, publishing the pieces leaves every one of them in
  its file, and what the descriptors written into a root say is what a later read of those files checks.
\<close>

section \<open>Cutting a stream\<close>

fun ranges_tile :: "int \<Rightarrow> int \<Rightarrow> (nat \<times> int \<times> int) list \<Rightarrow> bool" where
  "ranges_tile a n [] \<longleftrightarrow> a = n"
| "ranges_tile a n ((j, x, e) # ranges) \<longleftrightarrow>
     x = a \<and> a < e \<and> e \<le> a + OBJECT_BYTES \<and> (ranges \<noteq> [] \<longrightarrow> e = a + OBJECT_BYTES) \<and> ranges_tile e n ranges"

lemma ranges_tile_le: "ranges_tile a n ranges \<Longrightarrow> a \<le> n"
  by (induction a n ranges rule: ranges_tile.induct) force+

lemma OBJECT_BYTES_pos: "0 < OBJECT_BYTES"
  by (simp add: OBJECT_BYTES_def)

lemma ranges_from_tile:
  assumes "j < m" "(int m - 1) * OBJECT_BYTES < n" "n \<le> int m * OBJECT_BYTES"
  shows "ranges_tile (int j * OBJECT_BYTES) n
    (map (\<lambda>j. (j, int j * OBJECT_BYTES, min n (int j * OBJECT_BYTES + OBJECT_BYTES))) [j..<m])"
  using assms(1)
proof (induction "m - j" arbitrary: j)
  case (Suc k)
  have upt: "[j..<m] = j # [Suc j..<m]" using Suc.prems by (simp add: upt_conv_Cons)
  show ?case
  proof (cases "Suc j = m")
    case True
    then show ?thesis using assms(2,3) OBJECT_BYTES_pos by (auto simp: upt algebra_simps)
  next
    case False
    then have "int (Suc j) \<le> int m - 1" using Suc.prems by simp
    then have "int (Suc j) * OBJECT_BYTES \<le> (int m - 1) * OBJECT_BYTES"
      using OBJECT_BYTES_pos by (intro mult_right_mono) auto
    then have full: "int j * OBJECT_BYTES + OBJECT_BYTES < n" using assms(2) by (simp add: algebra_simps)
    moreover have "ranges_tile (int (Suc j) * OBJECT_BYTES) n
        (map (\<lambda>j. (j, int j * OBJECT_BYTES, min n (int j * OBJECT_BYTES + OBJECT_BYTES))) [Suc j..<m])"
      using Suc(1) [of "Suc j"] Suc(2) Suc.prems False by simp
    moreover have "int (Suc j) * OBJECT_BYTES = int j * OBJECT_BYTES + OBJECT_BYTES" by (simp add: algebra_simps)
    ultimately show ?thesis using OBJECT_BYTES_pos by (auto simp: upt min_absorb2)
  qed
qed simp

lemma object_ranges_tile:
  assumes "0 < n" shows "ranges_tile 0 n (object_ranges n)" "object_ranges n \<noteq> []"
proof -
  let ?m = "(n + OBJECT_BYTES - 1) div OBJECT_BYTES"
  have pos: "0 < ?m" using assms OBJECT_BYTES_pos by (simp add: pos_imp_zdiv_pos_iff)
  let ?r = "(n + OBJECT_BYTES - 1) mod OBJECT_BYTES"
  have "?m * OBJECT_BYTES + ?r = n + OBJECT_BYTES - 1" "0 \<le> ?r" "?r < OBJECT_BYTES"
    using OBJECT_BYTES_pos by simp_all
  moreover have "(?m - 1) * OBJECT_BYTES = ?m * OBJECT_BYTES - OBJECT_BYTES" by (simp add: left_diff_distrib)
  ultimately have "(?m - 1) * OBJECT_BYTES < n" "n \<le> ?m * OBJECT_BYTES" by linarith+
  then have "(int (nat ?m) - 1) * OBJECT_BYTES < n" "n \<le> int (nat ?m) * OBJECT_BYTES"
    using pos by simp_all
  from ranges_from_tile [OF _ this, of 0] pos show "ranges_tile 0 n (object_ranges n)" "object_ranges n \<noteq> []"
    by (auto simp: object_ranges_def)
qed

definition pieces :: "string \<Rightarrow> (nat \<times> int \<times> int) list \<Rightarrow> string list" where
  "pieces b ranges = map (\<lambda>(j, a, e). py_slice b a e) ranges"

lemma py_slice_length: "0 \<le> a \<Longrightarrow> a \<le> e \<Longrightarrow> e \<le> int (length b) \<Longrightarrow> int (length (py_slice b a e)) = e - a"
  by (simp add: py_slice_inside)

lemma pieces_cover:
  "ranges_tile a (int (length b)) ranges \<Longrightarrow> 0 \<le> a \<Longrightarrow> concat (pieces b ranges) = drop (nat a) b"
proof (induction ranges arbitrary: a)
  case (Cons r ranges)
  obtain j x e where r: "r = (j, x, e)" by (cases r)
  have e: "0 \<le> e" "x = a" "a < e" "ranges_tile e (int (length b)) ranges" "e \<le> int (length b)"
    using Cons.prems r ranges_tile_le [of e "int (length b)" ranges] by auto
  have "py_slice b a e @ drop (nat e) b = drop (nat a) b"
    using e Cons.prems(2)
    by (simp add: py_slice_inside nat_diff_distrib) (metis append_take_drop_id drop_drop le_add_diff_inverse2 less_imp_le nat_mono)
  then show ?case using Cons.IH [OF e(4,1)] e by (simp add: pieces_def r)
qed (simp add: pieces_def)

section \<open>Publishing the pieces\<close>

text \<open>The objects of a stream under their names, and the descriptors that go into the root.\<close>

definition named_objects :: "(nat \<Rightarrow> string \<Rightarrow> string) \<Rightarrow> string \<Rightarrow> (nat \<times> int \<times> int) list \<Rightarrow> (path \<times> string) list" where
  "named_objects name b ranges = map (\<lambda>(j, a, e). (Chunk_file (name j (py_slice b a e)), py_slice b a e)) ranges"

definition described_objects ::
    "string \<Rightarrow> (nat \<Rightarrow> string \<Rightarrow> string) \<Rightarrow> string \<Rightarrow> (nat \<times> int \<times> int) list \<Rightarrow> (jdict \<times> string) list" where
  "described_objects integrity name b ranges =
     map (\<lambda>(j, a, e). (object_descriptor integrity (name j (py_slice b a e)) (py_slice b a e) a e, py_slice b a e)) ranges"

definition objects_free :: "store \<Rightarrow> (path \<times> string) list \<Rightarrow> bool" where
  "objects_free s objs \<longleftrightarrow> consistent objs \<and> (\<forall>(p, b)\<in>set objs. object_free s p b \<and> parent p = Chunks)"

lemma objects_free_rest:
  assumes "objects_free s (xs @ ys)" shows "objects_free (put_all xs s) ys"
proof -
  have "object_free (put_all xs s) p b" if "(p, b) \<in> set ys" for p b
  proof (cases "map_of xs p")
    case None
    then show ?thesis using assms that by (auto simp: objects_free_def object_free_def)
  next
    case (Some x)
    then have "x = b" using assms that by (auto simp: objects_free_def consistent_def dest!: map_of_SomeD)
    then show ?thesis using Some by (simp add: object_free_def)
  qed
  moreover have "consistent ys" using assms by (auto simp: objects_free_def consistent_def)
  moreover have "parent p = Chunks" if "(p, b) \<in> set ys" for p b
    using assms that by (auto simp: objects_free_def)
  ultimately show ?thesis by (auto simp: objects_free_def)
qed

lemma objects_free_sub: "objects_free s xs \<Longrightarrow> set ys \<subseteq> set xs \<Longrightarrow> objects_free s ys"
  unfolding objects_free_def using consistent_sub by blast

lemma publish_objects_ok:
  assumes "healthy s" "length pending < WRITE_BATCH"
    "\<forall>(j, a, e)\<in>set ranges. read a e = Inr (py_slice b a e) \<and> 0 \<le> a \<and> a \<le> e \<and> e \<le> int (length b)"
    "objects_free s (pending @ named_objects name b ranges)"
  shows "publish_objects read integrity name pending ranges s
    = (Inr (described_objects integrity name b ranges), put_all (pending @ named_objects name b ranges) s)"
  using assms
proof (induction ranges arbitrary: pending s)
  case Nil
  have "publish_immutable_batch pending s = (Inr (), put_all pending s)"
    by (rule publish_batch_free [OF Nil.prems(1)]) (use Nil.prems(4) in \<open>auto simp: objects_free_def named_objects_def\<close>)
  then show ?case by (simp add: described_objects_def named_objects_def)
next
  case (Cons r ranges)
  obtain j a e where r: "r = (j, a, e)" by (cases r)
  let ?b = "py_slice b a e"
  let ?o = "(Chunk_file (name j ?b), ?b)"
  let ?objs = "pending @ [?o]"
  have piece: "read a e = Inr ?b" "int (length ?b) = e - a"
    using Cons.prems(3) by (auto simp: r py_slice_length)
  have rest: "\<forall>(j, a, e)\<in>set ranges. read a e = Inr (py_slice b a e) \<and> 0 \<le> a \<and> a \<le> e \<and> e \<le> int (length b)"
    using Cons.prems(3) by simp
  have named: "pending @ named_objects name b (r # ranges) = ?objs @ named_objects name b ranges"
    by (simp add: named_objects_def r)
  have desc: "described_objects integrity name b (r # ranges)
      = (object_descriptor integrity (name j ?b) ?b a e, ?b) # described_objects integrity name b ranges"
    by (simp add: described_objects_def r)
  note free = Cons.prems(4) [unfolded named]
  show ?case
  proof (cases "length ?objs = WRITE_BATCH")
    case True
    have "objects_free s ?objs" by (rule objects_free_sub [OF free]) auto
    then have "publish_immutable_batch ?objs s = (Inr (), put_all ?objs s)"
      by (intro publish_batch_free [OF Cons.prems(1)]) (auto simp: objects_free_def)
    moreover have "publish_objects read integrity name [] ranges (put_all ?objs s)
        = (Inr (described_objects integrity name b ranges), put_all ([] @ named_objects name b ranges) (put_all ?objs s))"
      by (rule Cons.IH [OF _ _ rest])
         (use Cons.prems(1) objects_free_rest [OF free] in \<open>simp_all add: WRITE_BATCH_def\<close>)
    moreover have "put_all (named_objects name b ranges) (put_all ?objs s) = put_all (?objs @ named_objects name b ranges) s"
      by (rule put_all_append) (use free in \<open>simp add: objects_free_def\<close>)
    ultimately show ?thesis using piece True unfolding named desc
      by (simp add: r Let_def del: put_all_simps)
  next
    case False
    then have "publish_objects read integrity name ?objs ranges s
        = (Inr (described_objects integrity name b ranges), put_all (?objs @ named_objects name b ranges) s)"
      using Cons.prems(1,2) free by (intro Cons.IH [OF _ _ rest]) simp_all
    then show ?thesis using piece False unfolding named desc
      by (simp add: r Let_def del: put_all_simps)
  qed
qed

section \<open>What a root says of its objects\<close>

lemma object_descriptor_get [simp]:
  "jget (object_descriptor integrity name b a e) ''sha256'' = JStr name"
  "jget (object_descriptor integrity name b a e) ''bytes'' = JInt (int (length b))"
  "jget (object_descriptor integrity name b a e) ''encoded_start'' = JInt a"
  "jget (object_descriptor integrity name b a e) ''encoded_end'' = JInt e"
  "jget (object_descriptor integrity name b a e) ''crc32''
     = (if integrity = ''fast'' then JInt (crc32 b) else JNull)"
  by (simp_all add: object_descriptor_def)

lemma object_descriptor_keys:
  "set (dkeys (object_descriptor integrity name b a e))
     = {''sha256'', ''bytes'', ''encoded_start'', ''encoded_end''} \<union> (if integrity \<in> {''fast'', ''none''} then {''crc32''} else {})"
  by (auto simp: object_descriptor_def)

text \<open>A descriptor as it is read back: the same fields, in another order.\<close>

lemma read_descriptor_get [simp]:
  "jget (read_dict (object_descriptor integrity name b a e)) ''sha256'' = JStr name"
  "jget (read_dict (object_descriptor integrity name b a e)) ''bytes'' = JInt (int (length b))"
  "jget (read_dict (object_descriptor integrity name b a e)) ''encoded_start'' = JInt a"
  "jget (read_dict (object_descriptor integrity name b a e)) ''encoded_end'' = JInt e"
  "jget (read_dict (object_descriptor integrity name b a e)) ''crc32''
     = (if integrity = ''fast'' then JInt (crc32 b) else JNull)"
  by (simp_all add: jget_read_dict)

lemma read_descriptor_map [simp]:
  "map_of (read_dict (object_descriptor integrity name b a e)) ''bytes'' = Some (JInt (int (length b)))"
  "map_of (read_dict (object_descriptor integrity name b a e)) ''sha256'' = Some (JStr name)"
  "map_of (read_dict (object_descriptor integrity name b a e)) ''crc32''
     = (if integrity = ''fast'' then Some (JInt (crc32 b)) else if integrity = ''none'' then Some JNull else None)"
  by (simp_all add: map_of_read_dict object_descriptor_def)

lemma crc_width: "int_where (\<lambda>n. 0 \<le> n \<and> n \<le> 0xFFFFFFFF) (JInt (crc32 b))"
  using crc32_range [of b] by (simp add: int_where_def)

lemma read_descriptor_valid: "validate_object_descriptor_keys (read_dict (object_descriptor integrity name b a e)) = Inr ()"
proof -
  have k: "set (dkeys (read_dict (object_descriptor integrity name b a e))) = {''sha256'', ''bytes'', ''encoded_start'', ''encoded_end''}
      \<union> (if integrity \<in> {''fast'', ''none''} then {''crc32''} else {})"
    unfolding keys_read_dict by (rule object_descriptor_keys)
  then show ?thesis
    using crc_width [of b] by (auto simp: validate_object_descriptor_keys_def strict_keys_def k)
qed

text \<open>The pieces with their descriptors as a reader has them.\<close>

definition stored_pieces ::
    "string \<Rightarrow> (nat \<Rightarrow> string \<Rightarrow> string) \<Rightarrow> string \<Rightarrow> (nat \<times> int \<times> int) list \<Rightarrow> (jdict \<times> string) list" where
  "stored_pieces integrity name b ranges =
     map (\<lambda>(d, x). (read_dict d, x)) (described_objects integrity name b ranges)"

definition named_well :: "(nat \<Rightarrow> string \<Rightarrow> string) \<Rightarrow> bool" where
  "named_well name \<longleftrightarrow> (\<forall>j b. is_sha256 (name j b))"

lemma object_names: "named_well (object_name integrity i ctx kind nonce)"
  by (simp add: named_well_def object_name_def derived_object_name_def sha256_digest)

lemma digest_ok: "is_sha256 t \<Longrightarrow> format_digest (JStr t) = Inr ()"
  by simp

lemma stored_pieces_checked:
  assumes "named_well name" "ranges_tile a (int (length b)) ranges" "0 \<le> a"
    "\<And>d. d \<in> fst ` set (stored_pieces integrity name b ranges) \<Longrightarrow> keys d = Inr ()"
  shows "check_objects keys OBJECT_BYTES a (map JObj (map fst (stored_pieces integrity name b ranges))) = Inr (int (length b))"
  using assms
proof (induction ranges arbitrary: a)
  case (Cons r ranges)
  obtain j x e where r: "r = (j, x, e)" by (cases r)
  have e: "x = a" "a < e" "e \<le> a + OBJECT_BYTES" "ranges \<noteq> [] \<Longrightarrow> e = a + OBJECT_BYTES"
    "ranges_tile e (int (length b)) ranges" "e \<le> int (length b)"
    using Cons.prems(2) r ranges_tile_le [of e "int (length b)" ranges] by auto
  have "int (length (py_slice b a e)) = e - a" using e Cons.prems(3) by (simp add: py_slice_length)
  moreover have "check_objects keys OBJECT_BYTES e (map JObj (map fst (stored_pieces integrity name b ranges))) = Inr (int (length b))"
    using Cons.prems e by (intro Cons.IH) (auto simp: stored_pieces_def described_objects_def)
  moreover have "is_sha256 (name j x)" for x using Cons.prems(1) by (simp add: named_well_def)
  ultimately show ?case
    using Cons.prems(4) e
    by (cases "ranges = []") (auto simp: r stored_pieces_def described_objects_def digest_ok)
qed (simp add: stored_pieces_def described_objects_def)

section \<open>Reading the pieces back\<close>

definition pieces_stored :: "store \<Rightarrow> (nat \<Rightarrow> string \<Rightarrow> string) \<Rightarrow> string \<Rightarrow> (nat \<times> int \<times> int) list \<Rightarrow> bool" where
  "pieces_stored s name b ranges \<longleftrightarrow> (\<forall>(p, x)\<in>set (named_objects name b ranges). files s p = Content x)"

lemma published_stored:
  "consistent (named_objects name b ranges) \<Longrightarrow> pieces_stored (put_all (named_objects name b ranges) s) name b ranges"
  by (auto simp: pieces_stored_def consistent_map_of)

text \<open>A mode of integrity, and names that are digests where the mode checks them.\<close>

definition mode_names :: "string \<Rightarrow> (nat \<Rightarrow> string \<Rightarrow> string) \<Rightarrow> bool" where
  "mode_names integrity name \<longleftrightarrow> integrity \<in> {''sha256'', ''fast'', ''none''} \<and> named_well name
     \<and> (integrity = ''sha256'' \<longrightarrow> (\<forall>j b. name j b = sha256 b))"

lemma object_mode_names: "mode_names (payload_integrity p) (object_name (payload_integrity p) i ctx kind nonce)"
  using object_names by (auto simp: mode_names_def payload_integrity_def object_name_def)

lemma descriptor_integrity_read:
  "integrity \<in> {''sha256'', ''fast'', ''none''} \<Longrightarrow>
    descriptor_integrity (read_dict (object_descriptor integrity name b a e)) = integrity"
  by (auto simp: descriptor_integrity_def)

lemma read_stored_object:
  assumes "mode_names integrity name" "files s (Chunk_file (name j x)) = Content x"
  shows "read_object what s (read_dict (object_descriptor integrity (name j x) x a e)) = Inr x"
proof -
  have "read_bytes (chunk_path (read_dict (object_descriptor integrity (name j x) x a e))) s = Inr x"
    using assms(2) by (simp add: chunk_path_def descriptor_name_def read_bytes_def)
  moreover have "payload_matches_descriptor (read_dict (object_descriptor integrity (name j x) x a e)) x = Inr True"
    using assms(1) by (auto simp: payload_matches_descriptor_def descriptor_integrity_read mode_names_def)
  ultimately show ?thesis by (simp add: read_object_def)
qed

lemma read_stored_pieces:
  assumes "mode_names integrity name" "pieces_stored s name b ranges"
  shows "mapE (read_object what s) (map fst (stored_pieces integrity name b ranges)) = Inr (pieces b ranges)"
  using assms(2)
proof (induction ranges)
  case (Cons r ranges)
  then show ?case using read_stored_object [OF assms(1)]
    by (cases r) (auto simp: stored_pieces_def described_objects_def pieces_stored_def named_objects_def pieces_def)
qed (simp add: stored_pieces_def described_objects_def pieces_def)

lemma snd_stored_pieces: "map snd (stored_pieces integrity name b ranges) = pieces b ranges"
  by (auto simp: stored_pieces_def described_objects_def pieces_def)

lemma place_stored_pieces:
  assumes "ranges_tile a (int (length b)) ranges" "0 \<le> a" "mode_names integrity name"
  shows "place_objects what a (stored_pieces integrity name b ranges)
    = Inr (int (length b), drop (nat a) b, if integrity = ''sha256'' then drop (nat a) b else [])"
  using assms(1,2)
proof (induction ranges arbitrary: a)
  case (Cons r ranges)
  obtain j x e where r: "r = (j, x, e)" by (cases r)
  have e: "0 \<le> e" "x = a" "a < e" "ranges_tile e (int (length b)) ranges" "e \<le> int (length b)"
    using Cons.prems r ranges_tile_le [of e "int (length b)" ranges] by auto
  have "py_slice b a e @ drop (nat e) b = drop (nat a) b"
    using pieces_cover [of a b "(j, a, e) # ranges"] pieces_cover [OF e(4,1)] Cons.prems e r by (simp add: pieces_def)
  moreover have "a + int (length (py_slice b a e)) = e" using e Cons.prems(2) by (simp add: py_slice_length)
  moreover have "''crc32'' \<in> set (dkeys (read_dict (object_descriptor integrity (name j x) y a e))) \<longleftrightarrow> integrity \<noteq> ''sha256''" for x y
    using assms(3) unfolding keys_read_dict object_descriptor_keys by (auto simp: mode_names_def)
  ultimately show ?case using Cons.IH [OF e(4,1)] e(2)
    by (simp add: r stored_pieces_def described_objects_def)
qed (simp add: stored_pieces_def described_objects_def)

lemma place_objects_append:
  "place_objects what a (xs @ ys) =
     bindE (place_objects what a xs) (\<lambda>(e, b, h).
     bindE (place_objects what e ys) (\<lambda>(stop, b', h'). Inr (stop, b @ b', h @ h')))"
proof (induction what a xs rule: place_objects.induct)
  case (2 what a d b rest)
  show ?case
  proof (cases "\<exists>x y. py_int (jget d ''encoded_start'') = Inr x \<and> py_int (jget d ''encoded_end'') = Inr y")
    case True
    then obtain x y where xy: "py_int (jget d ''encoded_start'') = Inr x" "py_int (jget d ''encoded_end'') = Inr y" by blast
    show ?thesis
    proof (cases "x \<noteq> a \<or> y \<noteq> x + int (length b)")
      case False
      show ?thesis
      proof (cases "place_objects what y rest")
        case (Inr r)
        then show ?thesis using 2 [OF False] xy False
          by (cases r; cases "place_objects what (fst r) ys") (auto split: prod.split)
      qed (use 2 [OF False] xy False in simp)
    qed (use xy in auto)
  next
    case False
    then show ?thesis
      by (cases "py_int (jget d ''encoded_start'')"; cases "py_int (jget d ''encoded_end'')") auto
  qed
next
  case (1 what a)
  then show ?case by (cases "place_objects what a ys") auto
qed

lemma read_batches_placed:
  assumes "mapE (read_object what s) ds = Inr bs" "place_objects what a (zip ds bs) = Inr r"
  shows "read_object_batches what s a ds = Inr r"
  using assms
proof (induction "length ds" arbitrary: ds bs a r rule: less_induct)
  case less
  show ?case
  proof (cases "ds = []")
    case True
    then show ?thesis using less.prems by (simp add: read_object_batches.simps)
  next
    case False
    let ?k = READ_BATCH
    have reads: "mapE (read_object what s) (take ?k ds) = Inr (take ?k bs)"
      "mapE (read_object what s) (drop ?k ds) = Inr (drop ?k bs)"
      using mapE_take_drop [OF less.prems(1)] by simp_all
    have len: "length (take ?k ds) = length (take ?k bs)" using mapE_length [OF reads(1)] by simp
    have "zip ds bs = zip (take ?k ds) (take ?k bs) @ zip (drop ?k ds) (drop ?k bs)"
      using zip_append [OF len, of "drop ?k ds" "drop ?k bs"] by simp
    then obtain e b h stop b' h' where p: "place_objects what a (zip (take ?k ds) (take ?k bs)) = Inr (e, b, h)"
      "place_objects what e (zip (drop ?k ds) (drop ?k bs)) = Inr (stop, b', h')" "r = (stop, b @ b', h @ h')"
      using less.prems(2) by (auto simp: place_objects_append bindE_Inr)
    have "read_object_batches what s e (drop ?k ds) = Inr (stop, b', h')"
      by (rule less.hyps [OF _ reads(2) p(2)]) (use False in \<open>simp add: READ_BATCH_def\<close>)
    then show ?thesis using False reads(1) p(1,3) by (subst read_object_batches.simps) simp
  qed
qed

text \<open>The stream comes back whole.\<close>

lemma read_back:
  assumes "b \<noteq> []" "mode_names integrity name" "pieces_stored s name b (object_ranges (int (length b)))"
    "integrity = ''sha256'' \<Longrightarrow> sha = sha256 b"
  shows "read_page_objects what s (map fst (stored_pieces integrity name b (object_ranges (int (length b)))))
    (int (length b)) sha = Inr b"
proof -
  let ?r = "object_ranges (int (length b))"
  let ?ds = "map fst (stored_pieces integrity name b ?r)"
  have tile: "ranges_tile 0 (int (length b)) ?r" and ne: "?r \<noteq> []"
    using object_ranges_tile [of "int (length b)"] assms(1) by simp_all
  have "zip ?ds (pieces b ?r) = stored_pieces integrity name b ?r"
    by (simp only: snd_stored_pieces [symmetric, of b ?r integrity name] zip_map_fst_snd)
  then have read: "read_object_batches what s 0 ?ds
      = Inr (int (length b), b, if integrity = ''sha256'' then b else [])"
    using read_batches_placed [OF read_stored_pieces [OF assms(2,3)]] place_stored_pieces [OF tile _ assms(2)] by simp
  have ds: "?ds \<noteq> []" "descriptor_integrity (hd ?ds) = integrity"
    using ne assms(2) descriptor_integrity_read
    by (auto simp: stored_pieces_def described_objects_def hd_map mode_names_def split: prod.split)
  then show ?thesis using read assms(1,4) by (auto simp: read_page_objects_def)
qed

end
