(* ===== verification/Page_Snapshot_Laws.thy ===== *)
theory Page_Snapshot_Laws
  imports Page_Object_Laws
begin

text \<open>
  Committing a page snapshot against looking it up and restoring it: on a disk that works, under each of the
  three modes of integrity, the entry is found and every restore of it gives the snapshot.
\<close>

section \<open>Roots read back\<close>

lemma read_sealed:
  assumes "writable (JObj d)" "''metadata_sha256'' \<notin> set (dkeys d)"
  shows "read_json (canonical_json (JObj (with_metadata d))) = Inr (JObj (read_dict (with_metadata d)))"
  using json_loads_canonical [OF writable_with_metadata [OF assms]]
  by (simp add: read_json_def sorted_JObj del: sorted_json.simps writable.simps)

lemma sealed_get:
  "k \<noteq> ''metadata_sha256'' \<Longrightarrow> jget (read_dict (with_metadata d)) k = sorted_json (jget d k)"
  by (simp add: jget_read_dict jget_with_metadata)

lemma sealed_digest:
  assumes "''metadata_sha256'' \<notin> set (dkeys d)"
  shows "is_digest (jget (read_dict (with_metadata d)) ''metadata_sha256'')"
  using authentic_read [OF assms] sha256_digest by (simp add: metadata_authentic_def)

lemma sealed_keys: "set (dkeys (read_dict (with_metadata d))) = insert ''metadata_sha256'' (set (dkeys d))"
  unfolding keys_read_dict keys_with_metadata by simp

lemma sorted_dict_list: "sorted_json (JList (map JObj ds)) = JList (map JObj (map read_dict ds))"
  by (simp add: sorted_list_map read_dict_def comp_def)

lemma read_field: "map_of (read_items i) k = map_option sorted_json (map_of (wire_items i) k)"
  by (simp add: read_items_def map_of_sort_key_any map_of_sorted_items)

lemma the_strs_strs [simp]: "the_strs (JList (map JStr ss)) = Some ss"
  by (auto simp: the_strs_def comp_def)

lemma identity_read_back:
  assumes "valid_identity i" "jget m ''identity'' = JObj (read_items i)"
  shows "identity_of_root m = Inr i"
proof -
  have keys: "set (dkeys (read_items i)) \<subseteq> set BASE_FIELDS \<union> {''record_schema'', ''publication_schema''} \<longleftrightarrow> True"
    unfolding read_keys wire_keys by auto
  have fields: "field_or (read_items i) ''target_checkpoint'' the_str d1 = Inr (target_checkpoint i)"
    "field_or (read_items i) ''draft_checkpoint'' the_str d1 = Inr (draft_checkpoint i)"
    "field_or (read_items i) ''quantization_layout'' the_str d1 = Inr (quantization_layout i)"
    "field_or (read_items i) ''rope_layout'' the_str d1 = Inr (rope_layout i)"
    "field_or (read_items i) ''tp_degree'' the_int d2 = Inr (tp_degree i)"
    "field_or (read_items i) ''dcp_degree'' the_int d2 = Inr (dcp_degree i)"
    "field_or (read_items i) ''cp_kv_cache_interleave_size'' the_int d2 = Inr (cp_kv_cache_interleave_size i)"
    "field_or (read_items i) ''chunk_tokens'' the_int d2 = Inr (chunk_tokens i)"
    "field_or (read_items i) ''dcp_shard_rank'' the_int d2 = Inr (dcp_shard_rank i)"
    "field_or (read_items i) ''tp_shard_rank'' the_int d2 = Inr (tp_shard_rank i)"
    "field_or (read_items i) ''boundary_hidden_policy'' the_str d1 = Inr (boundary_hidden_policy i)"
    "field_or (read_items i) ''draft_kv_policy'' the_str d1 = Inr (draft_kv_policy i)" for d1 d2
    by (simp_all add: field_or_def read_field wire_items_def to_wire_def)
  have records: "field_or (read_items i) ''record_schema'' the_strs (Some []) = Inr (record_schema i)"
    "field_or (read_items i) ''publication_schema'' the_str (Some []) = Inr (publication_schema i)"
    by (auto simp: field_or_def read_field wire_items_def to_wire_def)
  have valid: "CacheIdentity i = Inr i" using assms(1) by (simp add: valid_identity_def)
  have rebuilt: "\<lparr>target_checkpoint = target_checkpoint i, draft_checkpoint = draft_checkpoint i,
      quantization_layout = quantization_layout i, rope_layout = rope_layout i, tp_degree = tp_degree i,
      dcp_degree = dcp_degree i, cp_kv_cache_interleave_size = cp_kv_cache_interleave_size i,
      chunk_tokens = chunk_tokens i, dcp_shard_rank = dcp_shard_rank i, tp_shard_rank = tp_shard_rank i,
      boundary_hidden_policy = boundary_hidden_policy i, draft_kv_policy = draft_kv_policy i,
      record_schema = record_schema i, publication_schema = publication_schema i\<rparr> = i"
    by (cases i) simp
  show ?thesis
    unfolding identity_of_root_def assms(2) the_obj.simps option.case keys not_True_eq_False if_False
      fields records bindE_simps rebuilt by (rule valid)
qed

section \<open>The root of a snapshot\<close>

definition snapshot_binding :: "cache_identity \<Rightarrow> string \<Rightarrow> int \<Rightarrow> string \<Rightarrow> string" where
  "snapshot_binding i ctx span b =
     (if payload_integrity (publication_schema i) = ''sha256'' then sha256 b else boundary_token ctx span)"

definition snapshot_pieces :: "cache_identity \<Rightarrow> string \<Rightarrow> string \<Rightarrow> string \<Rightarrow> (jdict \<times> string) list" where
  "snapshot_pieces i ctx nonce b =
     (let integrity = payload_integrity (publication_schema i) in
      described_objects integrity (object_name integrity i ctx ''snapshot'' nonce) b (object_ranges (int (length b))))"

definition snapshot_value :: "cache_identity \<Rightarrow> string \<Rightarrow> int \<Rightarrow> string \<Rightarrow> string \<Rightarrow> jdict" where
  "snapshot_value i ctx span nonce b =
     snapshot_root i ctx span (int (length b)) (map fst (snapshot_pieces i ctx nonce b)) (snapshot_binding i ctx span b)"

definition snapshot_read :: "cache_identity \<Rightarrow> string \<Rightarrow> int \<Rightarrow> string \<Rightarrow> string \<Rightarrow> json" where
  "snapshot_read i ctx span nonce b = JObj (read_dict (with_metadata (snapshot_value i ctx span nonce b)))"

lemma snapshot_value_fresh: "''metadata_sha256'' \<notin> set (dkeys (snapshot_value i ctx span nonce b))"
  by (simp add: snapshot_value_def snapshot_root_def)

lemma writable_descriptor: "writable (JObj (object_descriptor integrity name b a e))"
  by (auto simp: object_descriptor_def)

lemma writable_described: "writable_list (map JObj (map fst (described_objects integrity name b ranges)))"
  using writable_descriptor by (auto simp: writable_list_iff described_objects_def simp del: writable.simps)

lemma read_snapshot_root:
  "read_json (canonical_json (JObj (with_metadata (snapshot_value i ctx span nonce b)))) = Inr (snapshot_read i ctx span nonce b)"
proof -
  have "writable (JObj (snapshot_value i ctx span nonce b))"
    using writable_described by (simp add: snapshot_value_def snapshot_root_def snapshot_pieces_def Let_def del: map_map)
  then show ?thesis using read_sealed [OF _ snapshot_value_fresh] by (simp add: snapshot_read_def)
qed

text \<open>What a publication needs of its arguments.\<close>

definition snapshot_arguments :: "cache_identity \<Rightarrow> string \<Rightarrow> int \<Rightarrow> string \<Rightarrow> bool" where
  "snapshot_arguments i ctx span b \<longleftrightarrow>
     valid_identity i \<and> is_sha256 ctx \<and> publication_schema i \<in> set ('''' # PAGE_TAIL_SCHEMAS)
     \<and> required_records i = {TARGET_CKV, LOGICAL_POSITIONS} \<and> 0 < span \<and> span mod chunk_tokens i = 0 \<and> b \<noteq> []"

definition snapshot_stored :: "cache_identity \<Rightarrow> string \<Rightarrow> string \<Rightarrow> string \<Rightarrow> jdict list" where
  "snapshot_stored i ctx nonce b = map read_dict (map fst (snapshot_pieces i ctx nonce b))"

lemma snapshot_stored_pieces:
  "snapshot_stored i ctx nonce b = map fst (stored_pieces (payload_integrity (publication_schema i))
     (object_name (payload_integrity (publication_schema i)) i ctx ''snapshot'' nonce) b (object_ranges (int (length b))))"
  by (simp add: snapshot_stored_def snapshot_pieces_def stored_pieces_def Let_def comp_def case_prod_unfold)

lemma snapshot_fields:
  "jget (read_dict (with_metadata (snapshot_value i ctx span nonce b))) ''schema'' = JStr PAGE_SNAPSHOT_SCHEMA"
  "jget (read_dict (with_metadata (snapshot_value i ctx span nonce b))) ''format_abi'' = JInt FORMAT_ABI"
  "jget (read_dict (with_metadata (snapshot_value i ctx span nonce b))) ''storage_mode'' = JStr ''block_pages_v1''"
  "jget (read_dict (with_metadata (snapshot_value i ctx span nonce b))) ''identity'' = JObj (read_items i)"
  "jget (read_dict (with_metadata (snapshot_value i ctx span nonce b))) ''context_digest'' = JStr ctx"
  "jget (read_dict (with_metadata (snapshot_value i ctx span nonce b))) ''committed_tokens'' = JInt span"
  "jget (read_dict (with_metadata (snapshot_value i ctx span nonce b))) ''snapshot_encoded_bytes'' = JInt (int (length b))"
  "jget (read_dict (with_metadata (snapshot_value i ctx span nonce b))) ''snapshot_object_bytes'' = JInt OBJECT_BYTES"
  "jget (read_dict (with_metadata (snapshot_value i ctx span nonce b))) ''snapshot_objects''
     = JList (map JObj (snapshot_stored i ctx nonce b))"
  "jget (read_dict (with_metadata (snapshot_value i ctx span nonce b))) ''snapshot_sha256'' = JStr (snapshot_binding i ctx span b)"
  "jget (read_dict (with_metadata (snapshot_value i ctx span nonce b))) ''logical_chunk_tokens'' = JInt (chunk_tokens i)"
  "jget (read_dict (with_metadata (snapshot_value i ctx span nonce b))) ''logical_chunk_count'' = JInt (span div chunk_tokens i)"
  by (subst sealed_get, simp,
      simp add: snapshot_value_def snapshot_root_def sorted_to_wire sorted_dict_list snapshot_stored_def
        del: map_map sorted_json.simps(6))+

lemma binding_digest: "is_sha256 (snapshot_binding i ctx span b)"
  by (simp add: snapshot_binding_def boundary_token_def sha256_digest)

lemma snapshot_root_valid:
  assumes "snapshot_arguments i ctx span b"
  shows "validate_page_snapshot_root (snapshot_read i ctx span nonce b) i ctx = Inr (snapshot_stored i ctx nonce b)"
proof -
  let ?d = "read_dict (with_metadata (snapshot_value i ctx span nonce b))"
  note a = assms [unfolded snapshot_arguments_def]
  have "dkeys (with_metadata (snapshot_value i ctx span nonce b)) = SNAPSHOT_KEYS"
    by (simp add: keys_with_metadata snapshot_value_def snapshot_root_def SNAPSHOT_KEYS_def)
  then have strict: "strict_keys ?d SNAPSHOT_KEYS = Inr ()" by (simp add: strict_keys_def keys_read_dict del: set_map)
  have digests: "format_digest (jget ?d ''metadata_sha256'') = Inr ()"
    "format_digest (JStr (snapshot_binding i ctx span b)) = Inr ()"
    using sealed_digest [OF snapshot_value_fresh] binding_digest by simp_all
  have tile: "ranges_tile 0 (int (length b)) (object_ranges (int (length b)))" "object_ranges (int (length b)) \<noteq> []"
    using object_ranges_tile [of "int (length b)"] a by simp_all
  have objects: "check_objects validate_object_descriptor_keys OBJECT_BYTES 0 (map JObj (snapshot_stored i ctx nonce b))
      = Inr (int (length b))"
    unfolding snapshot_stored_pieces
    by (rule stored_pieces_checked [OF object_names tile(1)])
       (auto simp: stored_pieces_def described_objects_def read_descriptor_valid)
  have ne: "snapshot_stored i ctx nonce b \<noteq> []"
    using tile(2) by (simp add: snapshot_stored_pieces stored_pieces_def described_objects_def)
  show ?thesis
    unfolding validate_page_snapshot_root_def snapshot_read_def the_obj.simps option.case strict bindE_simps
      snapshot_fields digests
    using a authentic_read [OF snapshot_value_fresh] wire_ok_read(1) [of i] objects ne
    by (simp add: OBJECT_BYTES_def)
qed

section \<open>Finding and restoring a snapshot\<close>

lemma checked_stored_pieces:
  assumes "mode_names integrity name" "pieces_stored s name b ranges"
  shows "check_chunk_files verify meta i s (map fst (stored_pieces integrity name b ranges)) = Inr ()"
  using assms(2)
proof (induction ranges)
  case (Cons r ranges)
  obtain j a e where r: "r = (j, a, e)" by (cases r)
  let ?x = "py_slice b a e"
  let ?d = "read_dict (object_descriptor integrity (name j ?x) ?x a e)"
  have there: "files s (Chunk_file (name j ?x)) = Content ?x"
    using Cons.prems by (auto simp: pieces_stored_def named_objects_def r)
  have "read_bytes (chunk_path ?d) s = Inr ?x" using there by (simp add: chunk_path_def descriptor_name_def read_bytes_def)
  moreover have "payload_matches_descriptor ?d ?x = Inr True"
    using assms(1) by (auto simp: payload_matches_descriptor_def descriptor_integrity_read mode_names_def)
  moreover have "''encoded_start'' \<in> set (dkeys ?d)" unfolding keys_read_dict object_descriptor_keys by simp
  ultimately have "check_chunk_file verify meta i s ?d = Inr ()" by (simp add: check_chunk_file_def)
  moreover have "pieces_stored s name b ranges" using Cons.prems by (auto simp: pieces_stored_def named_objects_def)
  ultimately show ?case using Cons.IH by (simp add: stored_pieces_def described_objects_def r)
qed (simp add: stored_pieces_def described_objects_def)

text \<open>A store that holds a snapshot: its root and all its objects.\<close>

definition snapshot_names :: "cache_identity \<Rightarrow> string \<Rightarrow> string \<Rightarrow> nat \<Rightarrow> string \<Rightarrow> string" where
  "snapshot_names i ctx nonce = object_name (payload_integrity (publication_schema i)) i ctx ''snapshot'' nonce"

definition snapshot_text :: "cache_identity \<Rightarrow> string \<Rightarrow> int \<Rightarrow> string \<Rightarrow> string \<Rightarrow> string" where
  "snapshot_text i ctx span nonce b = canonical_json (JObj (with_metadata (snapshot_value i ctx span nonce b)))"

definition holds_snapshot :: "store \<Rightarrow> cache_identity \<Rightarrow> string \<Rightarrow> int \<Rightarrow> string \<Rightarrow> string \<Rightarrow> bool" where
  "holds_snapshot s i ctx span nonce b \<longleftrightarrow>
     snapshot_arguments i ctx span b
     \<and> files s (manifest_path i ctx) = Content (snapshot_text i ctx span nonce b)
     \<and> pieces_stored s (snapshot_names i ctx nonce) b (object_ranges (int (length b)))"

lemma snapshot_kind:
  "\<not> has_schema (snapshot_read i ctx span nonce b) TAIL_MANIFEST_SCHEMA"
  "is_page_delta_root (snapshot_read i ctx span nonce b) = Inr False"
  "is_page_snapshot_root (snapshot_read i ctx span nonce b)"
  by (simp_all add: snapshot_read_def has_schema_def is_page_delta_root_def is_page_snapshot_root_def snapshot_fields
      TAIL_MANIFEST_SCHEMA_def PAGE_SNAPSHOT_SCHEMA_def PAGE_DELTA_SCHEMA_def PAGE_DELTA_SCHEMA_V2_def PAGE_DELTA_SCHEMA_V3_def)

lemma snapshot_found:
  assumes "holds_snapshot s i ctx span nonce b"
  shows "lookup i ctx verify meta mode s
    = Inr (hit (snapshot_text i ctx span nonce b) (snapshot_read i ctx span nonce b) ''page_snapshot'')"
proof -
  note h = assms [unfolded holds_snapshot_def]
  have "check_chunk_files verify meta i s (snapshot_stored i ctx nonce b) = Inr ()"
    unfolding snapshot_stored_pieces
    by (rule checked_stored_pieces [OF object_mode_names]) (use h in \<open>simp add: snapshot_names_def\<close>)
  moreover have "root_descriptors s (snapshot_read i ctx span nonce b) i ctx
      = Inr (snapshot_read i ctx span nonce b, ''page_snapshot'', snapshot_stored i ctx nonce b)"
    using snapshot_kind snapshot_root_valid h by (simp add: root_descriptors_def)
  moreover have "read_json (snapshot_text i ctx span nonce b) = Inr (snapshot_read i ctx span nonce b)"
    unfolding snapshot_text_def by (rule read_snapshot_root)
  moreover have "is_sha256 ctx" using h by (simp add: snapshot_arguments_def)
  ultimately show ?thesis using h by (simp add: lookup_def read_bytes_def clean_miss_def)
qed

lemma hot_or_read:
  assumes "map_of (hot_entries c) (sha, n) \<in> {None, Some b}"
  shows "fst (hot_page_snapshot sha n c) \<in> {None, Some b}"
  using assms by (auto simp: hot_page_snapshot_def)

lemma pieces_restored:
  assumes "snapshot_arguments i ctx span b"
    "pieces_stored s (snapshot_names i ctx nonce) b (object_ranges (int (length b)))"
    "map_of (hot_entries c) (snapshot_binding i ctx span b, int (length b)) \<in> {None, Some b}"
  shows "fst (restore_root lay s reader (snapshot_read i ctx span nonce b) kind counts (JInt span) depth verified c)
    = Inr (kept_copy verified b (snapshot_binding i ctx span b))"
proof -
  note h = assms(1,2)
  let ?sha = "snapshot_binding i ctx span b"
  have identity: "identity_of_root (read_dict (with_metadata (snapshot_value i ctx span nonce b))) = Inr i"
    by (rule identity_read_back) (use h snapshot_fields in \<open>simp_all add: snapshot_arguments_def\<close>)
  have read: "read_page_objects ''page snapshot'' s (snapshot_stored i ctx nonce b) (int (length b)) ?sha = Inr b"
    unfolding snapshot_stored_pieces
    by (rule read_back [OF _ object_mode_names])
       (use h in \<open>auto simp: snapshot_names_def snapshot_arguments_def snapshot_binding_def\<close>)
  have valid: "validate_page_snapshot_root (JObj (read_dict (with_metadata (snapshot_value i ctx span nonce b)))) i ctx
      = Inr (snapshot_stored i ctx nonce b)"
    using snapshot_root_valid h by (simp add: snapshot_read_def)
  have "fst (restore_snapshot_root s (snapshot_read i ctx span nonce b) (JInt span) verified c)
      = Inr (kept_copy verified b ?sha)"
    using identity valid read hot_or_read [OF assms(3)]
    by (cases "hot_page_snapshot ?sha (int (length b)) c")
       (auto simp: restore_snapshot_root_def snapshot_read_def snapshot_fields)
  then show ?thesis using snapshot_kind by (subst restore_root.simps) simp
qed

lemma snapshot_restored:
  assumes "holds_snapshot s i ctx span nonce b"
    "map_of (hot_entries c) (snapshot_binding i ctx span b, int (length b)) \<in> {None, Some b}"
  shows "fst (restore_root lay s reader (snapshot_read i ctx span nonce b) kind counts (JInt span) depth verified c)
    = Inr (kept_copy verified b (snapshot_binding i ctx span b))"
  using pieces_restored [OF _ _ assms(2)] assms(1) by (simp add: holds_snapshot_def)

section \<open>Committing a snapshot\<close>

text \<open>What a capture holds: a buffer, or a view that gives every range of it.\<close>

definition captures :: "captured \<Rightarrow> string \<Rightarrow> bool" where
  "captures cap b \<longleftrightarrow>
     (case cap of
        Buffer x \<Rightarrow> x = b
      | Scatter n read \<Rightarrow> n = int (length b)
          \<and> (\<forall>a e. 0 \<le> a \<and> a \<le> e \<and> e \<le> int (length b) \<longrightarrow> read a e = Inr (py_slice b a e)))"

lemma captures_range:
  assumes "captures cap b"
  shows "captured_bytes cap = int (length b)"
    "0 \<le> a \<Longrightarrow> a \<le> e \<Longrightarrow> e \<le> int (length b) \<Longrightarrow> captured_range cap a e = Inr (py_slice b a e)"
  using assms by (auto simp: captures_def split: captured.splits)

definition snapshot_publishable :: "store \<Rightarrow> cache_identity \<Rightarrow> string \<Rightarrow> int \<Rightarrow> string \<Rightarrow> string \<Rightarrow> bool" where
  "snapshot_publishable s i ctx span nonce b \<longleftrightarrow>
     snapshot_arguments i ctx span b \<and> healthy s \<and> files s (manifest_path i ctx) = Absent
     \<and> objects_free s (named_objects (snapshot_names i ctx nonce) b (object_ranges (int (length b))))"

lemma tile_ranges:
  "ranges_tile a n ranges \<Longrightarrow> 0 \<le> a \<Longrightarrow> (j, x, e) \<in> set ranges \<Longrightarrow> 0 \<le> x \<and> x \<le> e \<and> e \<le> n"
proof (induction a n ranges rule: ranges_tile.induct)
  case (2 a n j' x' e' ranges)
  then show ?case using ranges_tile_le [of e' n ranges] by (cases "(j, x, e) \<in> set ranges") auto
qed simp

definition published_store :: "store \<Rightarrow> cache_identity \<Rightarrow> string \<Rightarrow> int \<Rightarrow> string \<Rightarrow> string \<Rightarrow> store" where
  "published_store s i ctx span nonce b =
     put_file (manifest_path i ctx) (snapshot_text i ctx span nonce b)
       (put_all (named_objects (snapshot_names i ctx nonce) b (object_ranges (int (length b)))) s)"

lemma published_snapshot:
  assumes "snapshot_publishable s i ctx span nonce b"
  shows "holds_snapshot (published_store s i ctx span nonce b) i ctx span nonce b"
proof -
  have "pieces_stored (put_all (named_objects (snapshot_names i ctx nonce) b (object_ranges (int (length b)))) s)
      (snapshot_names i ctx nonce) b (object_ranges (int (length b)))"
    using assms by (intro published_stored) (simp add: snapshot_publishable_def objects_free_def)
  then show ?thesis using assms
    by (auto simp: holds_snapshot_def published_store_def snapshot_publishable_def pieces_stored_def named_objects_def
        put_file_def manifest_path_def)
qed

lemma commit_snapshot_ok:
  assumes "snapshot_publishable s i ctx span nonce b" "captures cap b"
  shows "commit_page_snapshot i ctx span cap nonce (s, c) =
    (Inr (page_receipt (snapshot_text i ctx span nonce b) span (map fst (snapshot_pieces i ctx nonce b))),
     (published_store s i ctx span nonce b,
      case cap of Buffer x \<Rightarrow> snd (remember_hot_page_snapshot (snapshot_binding i ctx span b) x c) | Scatter n read \<Rightarrow> c))"
proof -
  note a = assms(1) [unfolded snapshot_publishable_def snapshot_arguments_def]
  let ?r = "object_ranges (int (length b))" and ?i = "payload_integrity (publication_schema i)"
  let ?objs = "named_objects (snapshot_names i ctx nonce) b ?r"
  have pos: "0 < int (length b)" using a by simp
  have check: "check_snapshot_publication i ctx span cap = Inr ()"
    using a pos captures_range(1) [OF assms(2)] by (cases cap) (auto simp: check_snapshot_publication_def)
  have tile: "ranges_tile 0 (int (length b)) ?r" using object_ranges_tile pos by blast
  have pieces: "publish_objects (captured_range cap) ?i (snapshot_names i ctx nonce) [] ?r s
      = (Inr (snapshot_pieces i ctx nonce b), put_all ?objs s)"
  proof -
    have "publish_objects (captured_range cap) ?i (snapshot_names i ctx nonce) [] ?r s
        = (Inr (described_objects ?i (snapshot_names i ctx nonce) b ?r), put_all ([] @ ?objs) s)"
      by (rule publish_objects_ok)
         (use a tile_ranges [OF tile] captures_range(2) [OF assms(2)] in \<open>auto simp: WRITE_BATCH_def\<close>)
    then show ?thesis by (simp add: snapshot_pieces_def snapshot_names_def Let_def del: put_all_simps)
  qed
  have whole: "concat (map snd (snapshot_pieces i ctx nonce b)) = b"
    using pieces_cover [OF tile] snd_stored_pieces [of ?i "snapshot_names i ctx nonce" b ?r]
    by (simp add: snapshot_pieces_def snapshot_names_def stored_pieces_def Let_def comp_def case_prod_unfold)
  have absent: "files (put_all ?objs s) (manifest_path i ctx) = Absent"
  proof -
    have "map_of ?objs (manifest_path i ctx) = None"
      by (auto simp: map_of_eq_None_iff named_objects_def manifest_path_def)
    then show ?thesis using a by simp
  qed
  have "publish_immutable (manifest_path i ctx) (snapshot_text i ctx span nonce b) (put_all ?objs s)
      = (Inr (), published_store s i ctx span nonce b)"
    unfolding published_store_def by (rule publish_fresh) (use a absent in simp_all)
  then have root: "publish_root i ctx span (snapshot_value i ctx span nonce b) (map fst (snapshot_pieces i ctx nonce b)) (put_all ?objs s)
      = (Inr (page_receipt (snapshot_text i ctx span nonce b) span (map fst (snapshot_pieces i ctx nonce b))),
         published_store s i ctx span nonce b)"
    by (simp add: publish_root_def snapshot_text_def [symmetric])
  show ?thesis
    unfolding commit_page_snapshot_def Let_def prod.case check sum.case captures_range(1) [OF assms(2)]
      snapshot_names_def [symmetric] pieces whole snapshot_binding_def [symmetric] snapshot_value_def [symmetric] root ..
qed

lemma remembered_own:
  assumes "map_of (hot_entries c) (sha, int (length b)) \<in> {None, Some b}"
  shows "map_of (hot_entries (snd (remember_hot_page_snapshot sha b c))) (sha, int (length b)) \<in> {None, Some b}"
proof (cases "hot_page_snapshot_fits c (int (length b))")
  case True
  let ?e = "at_end (sha, int (length b)) b (hot_entries c)"
  define m where "m = hot_bytes c
    - (case map_of (hot_entries c) (sha, int (length b)) of None \<Rightarrow> 0 | Some x \<Rightarrow> int (length x)) + int (length b)"
  have "hot_entries (snd (remember_hot_page_snapshot sha b c)) = fst (evict (hot_limit c) (?e, m))"
    using True by (cases "evict (hot_limit c) (?e, m)")
      (simp add: remember_hot_page_snapshot_def evict_hot_def Let_def m_def)
  moreover obtain j where "fst (evict (hot_limit c) (?e, m)) = drop j ?e" using evict_drops by blast
  moreover have "x = b" if "map_of (drop j ?e) (sha, int (length b)) = Some x" for x
    using map_of_SomeD [OF that] in_set_dropD [of _ j ?e] by (force simp: at_end_set)
  ultimately show ?thesis by (cases "map_of (drop j ?e) (sha, int (length b))") auto
qed (use assms in \<open>simp add: remember_hot_page_snapshot_def\<close>)

text \<open>C7: A page snapshot, taken from a buffer or read range by range from a view, is committed, found by every
  lookup of its entry, and restored as it was, by the process that committed it and by any other one, under
  each of the three modes of integrity. The hot cache may hold nothing or the snapshot itself under the
  binding of the snapshot.\<close>

theorem snapshot_commit_restores:
  assumes "snapshot_publishable s i ctx span nonce b" "captures cap b"
    "map_of (hot_entries c) (snapshot_binding i ctx span b, int (length b)) \<in> {None, Some b}"
  shows "\<exists>r t d h. commit_page_snapshot i ctx span cap nonce (s, c) = (Inr r, (t, d))
    \<and> rc_committed_tokens r = span
    \<and> lookup i ctx verify meta mode t = Inr h \<and> is_hit h \<and> lr_root_kind h = ''page_snapshot''
    \<and> rc_manifest_digest r = lr_digest h
    \<and> fst (restore_page_snapshot lay t h counts span reader verified d)
        = Inr (kept_copy verified b (snapshot_binding i ctx span b))
    \<and> fst (restore_page_snapshot lay t h counts span reader verified new_page_cache)
        = Inr (kept_copy verified b (snapshot_binding i ctx span b))"
proof -
  let ?d = "case cap of Buffer x \<Rightarrow> snd (remember_hot_page_snapshot (snapshot_binding i ctx span b) x c) | Scatter n read \<Rightarrow> c"
  note holds = published_snapshot [OF assms(1)]
  have hot: "map_of (hot_entries ?d) (snapshot_binding i ctx span b, int (length b)) \<in> {None, Some b}"
    using assms(2,3) remembered_own [of c "snapshot_binding i ctx span b" b] by (auto simp: captures_def split: captured.splits)
  have restored: "fst (restore_page_snapshot lay (published_store s i ctx span nonce b)
      (hit (snapshot_text i ctx span nonce b) (snapshot_read i ctx span nonce b) ''page_snapshot'') counts span reader verified e)
      = Inr (kept_copy verified b (snapshot_binding i ctx span b))"
    if "map_of (hot_entries e) (snapshot_binding i ctx span b, int (length b)) \<in> {None, Some b}" for e
    using snapshot_restored [OF holds that] by (simp add: restore_page_snapshot_def hit_def)
  show ?thesis
    using commit_snapshot_ok [OF assms(1,2), of c] snapshot_found [OF holds, of verify meta mode] restored [OF hot]
      restored [of new_page_cache]
    by (intro exI conjI) (assumption | simp add: page_receipt_def hit_def snapshot_text_def new_page_cache_def)+
qed

section \<open>A page store that exists\<close>

definition page_identity :: cache_identity where
  "page_identity = demo_identity\<lparr>publication_schema := ''page-tail-cow-v2''\<rparr>"

lemma page_valid: "valid_identity page_identity"
  using demo_valid
  by (simp add: valid_identity_def CacheIdentity_def page_identity_def demo_identity_def StateRecord_def all_records_def
      PUBLICATION_SCHEMAS_def split: if_splits)

lemma page_records: "required_records page_identity = {TARGET_CKV, LOGICAL_POSITIONS}"
  by (auto simp: required_records_def page_identity_def demo_identity_def StateRecord_def all_records_def map_filter_simps)

lemma small_ranges:
  assumes n: "0 < n" "n \<le> OBJECT_BYTES" shows "object_ranges n = [(0, 0, n)]"
proof -
  have "(n + OBJECT_BYTES - 1) div OBJECT_BYTES = 1"
    using n by (intro int_div_pos_eq [of _ OBJECT_BYTES 1 "n - 1"]) simp_all
  then show ?thesis using n by (simp add: object_ranges_def)
qed

lemma page_publishable:
  assumes "b \<noteq> []" "int (length b) \<le> OBJECT_BYTES" "0 < span" "span mod 4 = 0"
  shows "snapshot_publishable empty_store page_identity (sha256 ctx) span nonce b"
  using assms page_valid page_records sha256_digest
  by (simp add: snapshot_publishable_def snapshot_arguments_def small_ranges named_objects_def objects_free_def
      consistent_def object_free_def empty_store_def healthy_def)
     (simp add: page_identity_def demo_identity_def PAGE_TAIL_SCHEMAS_def FLAT_PAGE_SCHEMAS_def)

theorem snapshot_commit_restores_witness:
  "\<exists>r t d h. commit_page_snapshot page_identity (sha256 ''context'') 4 (Buffer ''pages'') ''nonce''
      (empty_store, new_page_cache) = (Inr r, (t, d))
    \<and> lookup page_identity (sha256 ''context'') True True None t = Inr h
    \<and> fst (restore_page_snapshot \<lparr>lay_groups = []\<rparr> t h [] 4 None False new_page_cache) = Inr (Plain ''pages'')"
proof -
  have "snapshot_publishable empty_store page_identity (sha256 ''context'') 4 ''nonce'' ''pages''"
    by (rule page_publishable) (simp_all add: OBJECT_BYTES_def)
  moreover have "captures (Buffer ''pages'') ''pages''" by (simp add: captures_def)
  moreover have "map_of (hot_entries new_page_cache) (snapshot_binding page_identity (sha256 ''context'') 4 ''pages'',
      int (length ''pages'')) \<in> {None, Some ''pages''}" by (simp add: new_page_cache_def)
  ultimately show ?thesis
    using snapshot_commit_restores [of empty_store page_identity "sha256 ''context''" 4 "''nonce''" "''pages''"
        "Buffer ''pages''" new_page_cache True True None "\<lparr>lay_groups = []\<rparr>" "[]" None False]
    by (force simp: kept_copy_def)
qed

end
