(* ===== verification/Page_History_Store.thy ===== *)
theory Page_History_Store
  imports Page_Snapshot_Laws Page_History_Laws
begin

text \<open>
  Stored histories of the content-addressed mode: a snapshot with the deltas of its turns in one flat root.
  A lookup accepts such a root, and a restore gives the snapshot with the deltas applied one after the other,
  although it reads headers first and then only the tails that survive.
\<close>

section \<open>Writing what was read\<close>

lemma sorted_idem:
  "sorted_json (sorted_json v) = sorted_json v"
  "sorted_list (sorted_list vs) = sorted_list vs"
  "sorted_items (sorted_items d) = sorted_items d"
proof (induction v and vs and d rule: sorted_json_sorted_list_sorted_items.induct)
  case (7 d)
  have "sorted_items (sort_key fst e) = sort_key fst (sorted_items e)" for e
    unfolding sorted_items_map by (rule sort_key_map_keys [symmetric]) (simp add: case_prod_beta)
  then show ?case using 7 by (simp add: sort_key_id_if_sorted)
qed simp_all

lemma canonical_sorted: "canonical_json (sorted_json v) = canonical_json v"
  by (simp add: canonical_json_def enc_sorted)

lemma sealed_same:
  assumes "sorted_items d = sorted_items e"
  shows "canonical_json (JObj (with_metadata d)) = canonical_json (JObj (with_metadata e))"
proof -
  have same: "canonical_json (JObj x) = canonical_json (JObj y)" if "sorted_items x = sorted_items y" for x y
    using canonical_sorted [of "JObj x"] canonical_sorted [of "JObj y"] that by simp
  have "sorted_items (with_metadata d) = sorted_items (with_metadata e)"
    using assms same [OF assms] by (simp add: with_metadata_def sorted_items_map)
  then show ?thesis by (rule same)
qed

lemma read_dict_idem: "read_dict (read_dict d) = read_dict d"
  using sorted_idem(1) [of "JObj d"] by (simp add: read_dict_def)

section \<open>Histories\<close>

text \<open>The base of a history, and its turns: the context, the boundary and the block counts of the result with
  the delta that leads to it.\<close>

record page_base =
  hb_ctx :: string
  hb_tokens :: int
  hb_counts :: "int list"
  hb_nonce :: string
  hb_bytes :: string

record page_turn =
  tn_ctx :: string
  tn_tokens :: int
  tn_counts :: "int list"
  tn_delta :: string

definition turn_stage :: "page_turn \<Rightarrow> page_stage" where
  "turn_stage t = (tn_delta t, tn_counts t, tn_tokens t)"

definition end_ctx :: "page_base \<Rightarrow> page_turn list \<Rightarrow> string" where
  "end_ctx h ts = (if ts = [] then hb_ctx h else tn_ctx (last ts))"

definition end_tokens :: "page_base \<Rightarrow> page_turn list \<Rightarrow> int" where
  "end_tokens h ts = (if ts = [] then hb_tokens h else tn_tokens (last ts))"

definition end_counts :: "page_base \<Rightarrow> page_turn list \<Rightarrow> int list" where
  "end_counts h ts = (if ts = [] then hb_counts h else tn_counts (last ts))"

text \<open>What the root says of the turns.\<close>

abbreviation digest_name :: "nat \<Rightarrow> string \<Rightarrow> string" where
  "digest_name \<equiv> (\<lambda>j b. sha256 b)"

definition delta_descriptors :: "string \<Rightarrow> jdict list" where
  "delta_descriptors delta =
     map fst (described_objects ''sha256'' digest_name delta (object_ranges (int (length delta))))"

definition turn_entry :: "string \<Rightarrow> int \<Rightarrow> int list \<Rightarrow> page_turn \<Rightarrow> json" where
  "turn_entry ctx n counts t = stage_entry ''sha256'' (tn_ctx t) (tn_tokens t) ctx n counts (tn_counts t)
     (tn_delta t) (delta_descriptors (tn_delta t)) []"

fun turn_entries :: "string \<Rightarrow> int \<Rightarrow> int list \<Rightarrow> page_turn list \<Rightarrow> json list" where
  "turn_entries ctx n counts [] = []"
| "turn_entries ctx n counts (t # ts) =
     turn_entry ctx n counts t # turn_entries (tn_ctx t) (tn_tokens t) (tn_counts t) ts"

definition base_read_root :: "cache_identity \<Rightarrow> page_base \<Rightarrow> json" where
  "base_read_root i h = snapshot_read i (hb_ctx h) (hb_tokens h) (hb_nonce h) (hb_bytes h)"

definition flat_value :: "cache_identity \<Rightarrow> page_layout \<Rightarrow> page_base \<Rightarrow> page_turn list \<Rightarrow> jdict" where
  "flat_value i lay h ts =
     (let gs = turn_entries (hb_ctx h) (hb_tokens h) (hb_counts h) ts in
      flat_root lay i (end_ctx h ts) (end_tokens h ts) (end_counts h ts)
        \<lparr>fh_root = base_read_root i h, fh_digest = JStr (hb_ctx h), fh_tokens = JInt (hb_tokens h),
         fh_counts = map JInt (hb_counts h), fh_stages = butlast gs\<rparr> (last gs))"

definition flat_text :: "cache_identity \<Rightarrow> page_layout \<Rightarrow> page_base \<Rightarrow> page_turn list \<Rightarrow> string" where
  "flat_text i lay h ts = canonical_json (JObj (with_metadata (flat_value i lay h ts)))"

definition flat_dict :: "cache_identity \<Rightarrow> page_layout \<Rightarrow> page_base \<Rightarrow> page_turn list \<Rightarrow> jdict" where
  "flat_dict i lay h ts = read_dict (with_metadata (flat_value i lay h ts))"

lemma turn_entries_append:
  "turn_entries ctx n counts (ts @ [t]) = turn_entries ctx n counts ts
     @ [turn_entry (if ts = [] then ctx else tn_ctx (last ts)) (if ts = [] then n else tn_tokens (last ts))
          (if ts = [] then counts else tn_counts (last ts)) t]"
  by (induction ctx n counts ts rule: turn_entries.induct) auto

lemma turn_entries_Nil [simp]: "turn_entries ctx n counts ts = [] \<longleftrightarrow> ts = []"
  by (cases ts) auto

lemma writable_entry: "writable (turn_entry ctx n counts t)"
  using writable_described
  by (simp add: turn_entry_def stage_entry_def delta_descriptors_def del: map_map)

lemma writable_entries: "writable_list (turn_entries ctx n counts ts)"
  using writable_entry by (induction ctx n counts ts rule: turn_entries.induct) auto

lemma writable_sorted:
  "writable v \<Longrightarrow> writable (sorted_json v)"
  "writable_list vs \<Longrightarrow> writable_list (sorted_list vs)"
  "writable_items d \<Longrightarrow> writable_items (sorted_items d)"
proof (induction v and vs and d rule: sorted_json_sorted_list_sorted_items.induct)
  case (7 d)
  have "distinct (dkeys (sorted_items d))" using "7.prems" by simp
  then have "distinct (dkeys (sort_key fst (sorted_items d)))"
    by (simp only: distinct_map distinct_sort set_sort)
  then show ?case using 7 by (simp add: writable_items_iff)
qed simp_all

lemma flat_value_fresh: "''metadata_sha256'' \<notin> set (dkeys (flat_value i lay h ts))"
  by (simp add: flat_value_def flat_root_def Let_def)

lemma flat_keys: "dkeys (flat_value i lay h ts) @ [''metadata_sha256''] = FLAT_DELTA_KEYS"
  by (simp add: flat_value_def flat_root_def Let_def FLAT_DELTA_KEYS_def)

lemma writable_snapshot_value: "writable (JObj (snapshot_value i ctx span nonce b))"
  using writable_described by (simp add: snapshot_value_def snapshot_root_def snapshot_pieces_def Let_def del: map_map)

lemma base_root_sorted:
  "base_read_root i h = sorted_json (JObj (with_metadata (snapshot_value i (hb_ctx h) (hb_tokens h) (hb_nonce h) (hb_bytes h))))"
  by (simp add: base_read_root_def snapshot_read_def sorted_JObj del: sorted_json.simps)

lemma writable_base: "writable (base_read_root i h)"
  unfolding base_root_sorted
  by (rule writable_sorted(1) [OF writable_with_metadata [OF writable_snapshot_value snapshot_value_fresh]])

lemma sorted_base: "sorted_json (base_read_root i h) = base_read_root i h"
  unfolding base_root_sorted by (rule sorted_idem)

lemma flat_stages: "ts \<noteq> [] \<Longrightarrow> jget (flat_value i lay h ts) ''delta_stages''
    = JList (turn_entries (hb_ctx h) (hb_tokens h) (hb_counts h) ts)"
  by (simp add: flat_value_def flat_root_def Let_def)

lemma writable_flat: "ts \<noteq> [] \<Longrightarrow> writable (JObj (flat_value i lay h ts))"
  using writable_base [of i h] writable_entries [of "hb_ctx h" "hb_tokens h" "hb_counts h" ts]
  by (simp add: flat_value_def flat_root_def Let_def)

lemma read_flat: "ts \<noteq> [] \<Longrightarrow> read_json (flat_text i lay h ts) = Inr (JObj (flat_dict i lay h ts))"
  unfolding flat_text_def flat_dict_def by (rule read_sealed [OF writable_flat flat_value_fresh])

lemma sorted_strings: "sorted_json (JList (map JInt ns)) = JList (map JInt ns)"
  by simp

lemma flat_fields:
  "jget (flat_dict i lay h ts) ''schema'' = JStr PAGE_DELTA_SCHEMA_V3"
  "jget (flat_dict i lay h ts) ''format_abi'' = JInt FORMAT_ABI"
  "jget (flat_dict i lay h ts) ''identity'' = JObj (read_items i)"
  "jget (flat_dict i lay h ts) ''context_digest'' = JStr (end_ctx h ts)"
  "jget (flat_dict i lay h ts) ''committed_tokens'' = JInt (end_tokens h ts)"
  "jget (flat_dict i lay h ts) ''base_context_digest'' = JStr (hb_ctx h)"
  "jget (flat_dict i lay h ts) ''base_committed_tokens'' = JInt (hb_tokens h)"
  "jget (flat_dict i lay h ts) ''base_root'' = base_read_root i h"
  "jget (flat_dict i lay h ts) ''base_root_sha256'' = JStr (sha256 (canonical_json (base_read_root i h)))"
  "jget (flat_dict i lay h ts) ''layout_sha256'' = JStr (layout_digest lay)"
  "jget (flat_dict i lay h ts) ''base_block_counts'' = JList (map JInt (hb_counts h))"
  "jget (flat_dict i lay h ts) ''result_block_counts'' = JList (map JInt (end_counts h ts))"
  "jget (flat_dict i lay h ts) ''logical_chunk_tokens'' = JInt (chunk_tokens i)"
  unfolding flat_dict_def
  by (subst sealed_get, simp,
      simp add: flat_value_def flat_root_def Let_def sorted_to_wire sorted_base
        del: sorted_json.simps(7))+

definition entry_dict :: "string \<Rightarrow> int \<Rightarrow> int list \<Rightarrow> page_turn \<Rightarrow> jdict" where
  "entry_dict ctx n counts t = (case turn_entry ctx n counts t of JObj d \<Rightarrow> read_dict d | _ \<Rightarrow> [])"

lemma sorted_entry: "sorted_json (turn_entry ctx n counts t) = JObj (entry_dict ctx n counts t)"
  by (simp add: entry_dict_def turn_entry_def stage_entry_def sorted_JObj del: sorted_json.simps)

fun entry_dicts :: "string \<Rightarrow> int \<Rightarrow> int list \<Rightarrow> page_turn list \<Rightarrow> jdict list" where
  "entry_dicts ctx n counts [] = []"
| "entry_dicts ctx n counts (t # ts) =
     entry_dict ctx n counts t # entry_dicts (tn_ctx t) (tn_tokens t) (tn_counts t) ts"

lemma sorted_entries: "map sorted_json (turn_entries ctx n counts ts) = map JObj (entry_dicts ctx n counts ts)"
  by (induction ctx n counts ts rule: turn_entries.induct) (simp_all add: sorted_entry)

lemma flat_stage_field: "ts \<noteq> [] \<Longrightarrow> jget (flat_dict i lay h ts) ''delta_stages''
    = JList (map JObj (entry_dicts (hb_ctx h) (hb_tokens h) (hb_counts h) ts))"
  unfolding flat_dict_def by (subst sealed_get) (simp_all add: flat_stages sorted_list_map sorted_entries)

definition delta_stored :: "string \<Rightarrow> jdict list" where
  "delta_stored delta = map fst (stored_pieces ''sha256'' digest_name delta (object_ranges (int (length delta))))"

lemma delta_stored_read: "delta_stored delta = map read_dict (delta_descriptors delta)"
  by (simp add: delta_stored_def delta_descriptors_def stored_pieces_def comp_def case_prod_unfold)

lemma entry_fields:
  "jget (entry_dict ctx n counts t) ''context_digest'' = JStr (tn_ctx t)"
  "jget (entry_dict ctx n counts t) ''committed_tokens'' = JInt (tn_tokens t)"
  "jget (entry_dict ctx n counts t) ''base_context_digest'' = JStr ctx"
  "jget (entry_dict ctx n counts t) ''base_committed_tokens'' = JInt n"
  "jget (entry_dict ctx n counts t) ''base_block_counts'' = JList (map JInt counts)"
  "jget (entry_dict ctx n counts t) ''result_block_counts'' = JList (map JInt (tn_counts t))"
  "jget (entry_dict ctx n counts t) ''delta_encoded_bytes'' = JInt (int (length (tn_delta t)))"
  "jget (entry_dict ctx n counts t) ''delta_object_bytes'' = JInt OBJECT_BYTES"
  "jget (entry_dict ctx n counts t) ''delta_objects'' = JList (map JObj (delta_stored (tn_delta t)))"
  "jget (entry_dict ctx n counts t) ''delta_sha256'' = JStr (sha256 (tn_delta t))"
  "jget (entry_dict ctx n counts t) ''header_sha256'' = JNull"
  by (simp_all add: entry_dict_def turn_entry_def stage_entry_def jget_read_dict sorted_dict_list sorted_strings delta_stored_read
      del: map_map sorted_json.simps(6))

lemma entry_keys: "set (dkeys (entry_dict ctx n counts t)) = set STAGE_KEYS"
  unfolding entry_dict_def turn_entry_def stage_entry_def json.case keys_read_dict
  by (simp add: STAGE_KEYS_def)

section \<open>The root of a history is accepted\<close>

fun turns_ok :: "int \<Rightarrow> nat \<Rightarrow> page_turn list \<Rightarrow> bool" where
  "turns_ok n width [] \<longleftrightarrow> True"
| "turns_ok n width (t # ts) \<longleftrightarrow>
     is_sha256 (tn_ctx t) \<and> n < tn_tokens t \<and> length (tn_counts t) = width \<and> tn_delta t \<noteq> [] \<and> turns_ok (tn_tokens t) width ts"

lemma turns_ok_append: "turns_ok n width (ts @ us) \<longleftrightarrow>
    turns_ok n width ts \<and> turns_ok (if ts = [] then n else tn_tokens (last ts)) width us"
  by (induction n width ts rule: turns_ok.induct) auto

lemma digest_mode: "mode_names ''sha256'' digest_name"
  by (simp add: mode_names_def named_well_def)

lemma delta_objects_checked:
  assumes "delta \<noteq> []"
  shows "check_objects validate_object_descriptor_keys OBJECT_BYTES 0 (map JObj (delta_stored delta)) = Inr (int (length delta))"
    "delta_stored delta \<noteq> []"
proof -
  have tile: "ranges_tile 0 (int (length delta)) (object_ranges (int (length delta)))" "object_ranges (int (length delta)) \<noteq> []"
    using object_ranges_tile [of "int (length delta)"] assms by simp_all
  show "check_objects validate_object_descriptor_keys OBJECT_BYTES 0 (map JObj (delta_stored delta)) = Inr (int (length delta))"
    unfolding delta_stored_def
    by (rule stored_pieces_checked [OF _ tile(1)])
       (auto simp: stored_pieces_def described_objects_def read_descriptor_valid named_well_def)
  show "delta_stored delta \<noteq> []" using tile(2) by (simp add: delta_stored_def stored_pieces_def described_objects_def)
qed

definition point :: "string \<Rightarrow> int \<Rightarrow> int list \<Rightarrow> delta_point" where
  "point ctx n counts = \<lparr>dp_digest = JStr ctx, dp_tokens = n, dp_counts = JList (map JInt counts)\<rparr>"

lemma py_eq_ints_list [simp]: "py_eq_list (map JInt ns) (map JInt ns)"
  by (induction ns) auto

lemma stage_checked:
  assumes "publication_schema i = ''page-tail-cow-v2''" "is_sha256 (tn_ctx t)" "n < tn_tokens t"
    "length (tn_counts t) = width" "tn_delta t \<noteq> []"
  shows "check_stage i width (point ctx n counts) (JObj (entry_dict ctx n counts t))
    = Inr (point (tn_ctx t) (tn_tokens t) (tn_counts t), map JObj (delta_stored (tn_delta t)))"
proof -
  have keys: "strict_keys (entry_dict ctx n counts t) (STAGE_KEYS @ (if publication_schema i \<noteq> ''page-tail-cow-v2'' then [''header_sha256''] else [])) = Inr ()"
    unfolding strict_keys_def entry_keys using assms(1) by simp
  have none: "(''header_sha256'' \<in> set (dkeys (entry_dict ctx n counts t))) = False"
    unfolding entry_keys by (simp add: STAGE_KEYS_def)
  have digests: "format_digest (JStr (tn_ctx t)) = Inr ()" "format_digest (JStr (sha256 (tn_delta t))) = Inr ()"
    using assms(2) by simp_all
  show ?thesis
    unfolding check_stage_def the_obj.simps option.case keys none bindE_simps entry_fields digests if_False
    using assms delta_objects_checked [OF assms(5)] by (simp add: point_def)
qed

lemma stages_checked:
  "publication_schema i = ''page-tail-cow-v2'' \<Longrightarrow> turns_ok n width ts \<Longrightarrow>
    \<exists>objects. check_stages i width (point ctx n counts) (map JObj (entry_dicts ctx n counts ts))
      = Inr (if ts = [] then point ctx n counts else point (tn_ctx (last ts)) (tn_tokens (last ts)) (tn_counts (last ts)),
             map JObj objects)
      \<and> objects = concat (map (delta_stored \<circ> tn_delta) ts)"
proof (induction ctx n counts ts rule: turn_entries.induct)
  case (2 ctx n counts t ts)
  then show ?case using stage_checked [of i t n width ctx counts] by auto
qed simp

lemma end_point: "(if ts = [] then point (hb_ctx h) (hb_tokens h) (hb_counts h)
    else point (tn_ctx (last ts)) (tn_tokens (last ts)) (tn_counts (last ts)))
  = point (end_ctx h ts) (end_tokens h ts) (end_counts h ts)"
  by (simp add: end_ctx_def end_tokens_def end_counts_def)

lemma turns_ok_last: "turns_ok n width ts \<Longrightarrow> ts \<noteq> [] \<Longrightarrow>
    is_sha256 (tn_ctx (last ts)) \<and> n < tn_tokens (last ts) \<and> length (tn_counts (last ts)) = width"
  by (induction n width ts rule: turns_ok.induct) (auto split: if_splits)

definition base_ok :: "cache_identity \<Rightarrow> page_layout \<Rightarrow> page_base \<Rightarrow> bool" where
  "base_ok i lay h \<longleftrightarrow> publication_schema i = ''page-tail-cow-v2'' \<and> good_layout lay
     \<and> snapshot_arguments i (hb_ctx h) (hb_tokens h) (hb_bytes h) \<and> hb_counts h \<noteq> []
     \<and> (\<exists>p. plan_page_snapshot lay (hb_bytes h) (hb_counts h) None = Inr p)"

lemma flat_root_valid:
  assumes "base_ok i lay h" "turns_ok (hb_tokens h) (length (hb_counts h)) ts" "ts \<noteq> []"
  shows "validate_page_delta_root (JObj (flat_dict i lay h ts)) i (end_ctx h ts)
    = Inr (base_read_root i h, concat (map (delta_stored \<circ> tn_delta) ts))"
proof -
  let ?m = "flat_dict i lay h ts"
  have a: "publication_schema i = ''page-tail-cow-v2''" "is_sha256 (hb_ctx h)" "0 < hb_tokens h" "hb_counts h \<noteq> []"
    using assms(1) by (simp_all add: base_ok_def snapshot_arguments_def)
  have e: "is_sha256 (end_ctx h ts)" "hb_tokens h < end_tokens h ts" "length (end_counts h ts) = length (hb_counts h)"
    using turns_ok_last [OF assms(2,3)] assms(3) by (simp_all add: end_ctx_def end_tokens_def end_counts_def)
  have strict: "strict_keys ?m FLAT_DELTA_KEYS = Inr ()"
    unfolding strict_keys_def flat_dict_def keys_read_dict keys_with_metadata flat_keys by simp
  have digests: "format_digest (jget ?m ''metadata_sha256'') = Inr ()" "format_digest (JStr (end_ctx h ts)) = Inr ()"
    "format_digest (JStr (hb_ctx h)) = Inr ()" "format_digest (JStr (layout_digest lay)) = Inr ()"
    "format_digest (JStr (sha256 (canonical_json (base_read_root i h)))) = Inr ()"
    using a(2) e(1) sealed_digest [OF flat_value_fresh] by (simp_all add: flat_dict_def layout_digest_def)
  have auth: "metadata_authentic ?m" unfolding flat_dict_def by (rule authentic_read [OF flat_value_fresh])
  have bound: "base_root_bound ?m" by (simp add: base_root_bound_def flat_fields base_read_root_def snapshot_read_def)
  obtain objects where stages: "check_stages i (length (hb_counts h)) (point (hb_ctx h) (hb_tokens h) (hb_counts h))
        (map JObj (entry_dicts (hb_ctx h) (hb_tokens h) (hb_counts h) ts))
      = Inr (point (end_ctx h ts) (end_tokens h ts) (end_counts h ts), map JObj objects)"
    "objects = concat (map (delta_stored \<circ> tn_delta) ts)"
    using stages_checked [OF a(1) assms(2), of "hb_ctx h" "hb_counts h"] unfolding end_point by blast
  have ne: "entry_dicts (hb_ctx h) (hb_tokens h) (hb_counts h) ts \<noteq> []" using assms(3) by (cases ts) auto
  have flat: "validate_flat_delta_root ?m i (end_ctx h ts) = Inr (base_read_root i h, objects)"
    unfolding validate_flat_delta_root_def strict bindE_simps flat_fields digests flat_stage_field [OF assms(3)]
    using a e auth bound stages(1) wire_ok_read(1) [of i] ne
    by (simp add: FLAT_PAGE_SCHEMAS_def point_def)
  show ?thesis
    unfolding validate_page_delta_root_def the_obj.simps option.case flat_fields using flat stages(2) by simp
qed

section \<open>Stored histories\<close>

definition turn_stored :: "store \<Rightarrow> page_turn \<Rightarrow> bool" where
  "turn_stored s t \<longleftrightarrow> pieces_stored s digest_name (tn_delta t) (object_ranges (int (length (tn_delta t))))
     \<and> (\<exists>header. page_delta_header_prefix (tn_delta t) = Inr header \<and> int (length header) \<le> OBJECT_BYTES)"

definition base_stored :: "store \<Rightarrow> cache_identity \<Rightarrow> page_base \<Rightarrow> bool" where
  "base_stored s i h \<longleftrightarrow> pieces_stored s (snapshot_names i (hb_ctx h) (hb_nonce h)) (hb_bytes h)
     (object_ranges (int (length (hb_bytes h))))"

definition history_text :: "cache_identity \<Rightarrow> page_layout \<Rightarrow> page_base \<Rightarrow> page_turn list \<Rightarrow> string" where
  "history_text i lay h ts =
     (if ts = [] then snapshot_text i (hb_ctx h) (hb_tokens h) (hb_nonce h) (hb_bytes h) else flat_text i lay h ts)"

definition history_read :: "cache_identity \<Rightarrow> page_layout \<Rightarrow> page_base \<Rightarrow> page_turn list \<Rightarrow> json" where
  "history_read i lay h ts = (if ts = [] then base_read_root i h else JObj (flat_dict i lay h ts))"

definition history_kind :: "page_turn list \<Rightarrow> string" where
  "history_kind ts = (if ts = [] then ''page_snapshot'' else ''page_delta'')"

definition verified :: "string \<Rightarrow> verified_snapshot" where
  "verified b = \<lparr>vs_payload = b, vs_sha256 = sha256 b\<rparr>"

text \<open>The snapshot, the deltas and the root are on disk, and the deltas applied to the snapshot give \<open>b\<close>.\<close>

definition holds_history :: "store \<Rightarrow> cache_identity \<Rightarrow> page_layout \<Rightarrow> page_base \<Rightarrow> page_turn list \<Rightarrow> string \<Rightarrow> bool" where
  "holds_history s i lay h ts b \<longleftrightarrow>
     base_ok i lay h \<and> turns_ok (hb_tokens h) (length (hb_counts h)) ts \<and> base_stored s i h
     \<and> (\<forall>t\<in>set ts. turn_stored s t)
     \<and> files s (manifest_path i (end_ctx h ts)) = Content (history_text i lay h ts)
     \<and> apply_history lay (verified (hb_bytes h)) (hb_counts h) (hb_tokens h) (map turn_stage ts) = Inr (verified b)"

lemma holds_base:
  assumes "holds_history s i lay h [] b"
  shows "b = hb_bytes h" "holds_snapshot s i (hb_ctx h) (hb_tokens h) (hb_nonce h) (hb_bytes h)"
  using assms by (auto simp: holds_history_def holds_snapshot_def base_ok_def base_stored_def history_text_def end_ctx_def
      verified_def)

lemma flat_is_delta:
  "is_page_delta_root (JObj (flat_dict i lay h ts)) = Inr True"
  "\<not> is_page_snapshot_root (JObj (flat_dict i lay h ts))"
  "\<not> has_schema (JObj (flat_dict i lay h ts)) TAIL_MANIFEST_SCHEMA" "is_flat_delta (flat_dict i lay h ts)"
  by (simp_all add: is_page_delta_root_def is_page_snapshot_root_def has_schema_def is_flat_delta_def flat_fields
      PAGE_DELTA_SCHEMA_V3_def PAGE_SNAPSHOT_SCHEMA_def TAIL_MANIFEST_SCHEMA_def)

lemma base_is_snapshot:
  "is_page_delta_root (base_read_root i h) = Inr False" "is_page_snapshot_root (base_read_root i h)"
  by (simp_all add: base_read_root_def snapshot_kind)

lemma check_files_append:
  "check_chunk_files verify meta i s (ds @ es) =
     bindE (check_chunk_files verify meta i s ds) (\<lambda>_. check_chunk_files verify meta i s es)"
proof (induction ds)
  case (Cons d ds)
  then show ?case by (cases "check_chunk_file verify meta i s d") auto
qed simp

lemma base_tokens_field: "the_obj (base_read_root i h) = Some b \<Longrightarrow> jget b ''committed_tokens'' = JInt (hb_tokens h)"
  using snapshot_fields(6) by (auto simp: base_read_root_def snapshot_read_def)

lemma base_stored_checked:
  assumes "base_stored s i h"
  shows "check_chunk_files verify meta i s (snapshot_stored i (hb_ctx h) (hb_nonce h) (hb_bytes h)) = Inr ()"
  unfolding snapshot_stored_pieces
  by (rule checked_stored_pieces [OF object_mode_names]) (use assms in \<open>simp add: base_stored_def snapshot_names_def\<close>)

lemma turns_stored_checked:
  "\<forall>t\<in>set ts. turn_stored s t \<Longrightarrow> check_chunk_files verify meta i s (concat (map (delta_stored \<circ> tn_delta) ts)) = Inr ()"
proof (induction ts)
  case (Cons t ts)
  have "check_chunk_files verify meta i s (delta_stored (tn_delta t)) = Inr ()"
    unfolding delta_stored_def
    by (rule checked_stored_pieces [OF digest_mode]) (use Cons.prems in \<open>simp add: turn_stored_def\<close>)
  then show ?case using Cons by (simp add: check_files_append)
qed simp

lemma history_found:
  assumes "holds_history s i lay h ts b"
  shows "lookup i (end_ctx h ts) verify meta mode s
    = Inr (hit (history_text i lay h ts) (history_read i lay h ts) (history_kind ts))"
proof (cases "ts = []")
  case True
  then show ?thesis using snapshot_found [OF holds_base(2)] assms
    by (simp add: end_ctx_def history_text_def history_read_def history_kind_def base_read_root_def)
next
  case False
  note a = assms [unfolded holds_history_def]
  have args: "snapshot_arguments i (hb_ctx h) (hb_tokens h) (hb_bytes h)" using a by (simp add: base_ok_def)
  let ?m = "flat_dict i lay h ts" and ?delta = "concat (map (delta_stored \<circ> tn_delta) ts)"
    and ?base = "snapshot_stored i (hb_ctx h) (hb_nonce h) (hb_bytes h)"
  have valid: "validate_page_delta_root (JObj ?m) i (end_ctx h ts) = Inr (base_read_root i h, ?delta)"
    using flat_root_valid a False by blast
  have base: "validate_page_snapshot_root (base_read_root i h) i (hb_ctx h) = Inr ?base"
    unfolding base_read_root_def by (rule snapshot_root_valid [OF args])
  obtain bd where bd: "the_obj (base_read_root i h) = Some bd" "jget bd ''committed_tokens'' = JInt (hb_tokens h)"
    using base_tokens_field by (auto simp: base_read_root_def snapshot_read_def)
  have "page_graph_descriptors MAX_PAGE_DELTA_DEPTH (JObj ?m) i (end_ctx h ts) = Inr (?base @ ?delta)"
    using valid base bd base_is_snapshot [of i h]
    by (simp add: MAX_PAGE_DELTA_DEPTH_def numeral_2_eq_2 flat_fields)
  then have "root_descriptors s (JObj ?m) i (end_ctx h ts) = Inr (JObj ?m, ''page_delta'', ?base @ ?delta)"
    using flat_is_delta by (simp add: root_descriptors_def)
  moreover have "check_chunk_files verify meta i s (?base @ ?delta) = Inr ()"
    using base_stored_checked turns_stored_checked a by (simp add: check_files_append)
  moreover have "is_sha256 (end_ctx h ts)"
    using turns_ok_last [of "hb_tokens h" "length (hb_counts h)" ts] a False by (simp add: end_ctx_def)
  ultimately show ?thesis
    using read_flat [OF False] a False
    by (simp add: lookup_def read_bytes_def clean_miss_def history_text_def history_read_def history_kind_def)
qed

section \<open>Headers\<close>

text \<open>A header cache that agrees with the disk.\<close>

definition headers_true :: "store \<Rightarrow> page_cache \<Rightarrow> bool" where
  "headers_true s c \<longleftrightarrow> (\<forall>sha n h b. ((sha, n), h) \<in> set (delta_headers c) \<longrightarrow> files s (Chunk_file sha) = Content b \<longrightarrow>
     page_delta_header_prefix b = Inr h)"

lemma headers_true_new [simp]: "headers_true s new_page_cache"
  by (simp add: headers_true_def new_page_cache_def)

lemma headers_true_sub: "headers_true s c \<Longrightarrow> set (delta_headers d) \<subseteq> set (delta_headers c) \<Longrightarrow> headers_true s d"
  unfolding headers_true_def by blast

lemma header_of_take:
  assumes "page_delta_header_prefix delta = Inr h" "length h \<le> k"
  shows "page_delta_header_prefix (take k delta) = Inr h"
proof -
  obtain hend where h: "header_end ''hybrid page delta'' DELTA_MAGIC delta = Inr hend" "h = take hend delta"
    using assms(1) by (auto simp: page_delta_header_prefix_def bindE_Inr)
  have e: "HEADER_PREFIX \<le> length delta" "take 6 delta = DELTA_MAGIC"
    "hend = HEADER_PREFIX + of_little_endian (take 4 (drop 6 delta))" "hend \<le> length delta"
    "of_little_endian (take 4 (drop 6 delta)) \<noteq> 0"
    using h(1) by (auto simp: header_end_def Let_def split: if_splits)
  have k: "hend \<le> k" using assms(2) h(2) e(4) by simp
  have "10 \<le> k" using k e(3) by (simp add: HEADER_PREFIX_def)
  then have "take 6 (take k delta) = DELTA_MAGIC" "take 4 (drop 6 (take k delta)) = take 4 (drop 6 delta)"
    using e(2) by (simp_all add: drop_take min_def)
  then have "header_end ''hybrid page delta'' DELTA_MAGIC (take k delta) = Inr hend"
    unfolding header_end_def Let_def using e k by simp
  then show ?thesis using k h(2) by (simp add: page_delta_header_prefix_def min_def)
qed

lemma remember_header_entries:
  "set (delta_headers (remember_authenticated_delta_header sha n h c)) \<subseteq> insert ((sha, n), h) (set (delta_headers c))"
proof (cases "int (length h) > min n DELTA_HEADER_BYTES")
  case False
  let ?d = "at_end (sha, n) h (delta_headers c)"
  define m where "m = delta_header_bytes c
    - (case map_of (delta_headers c) (sha, n) of None \<Rightarrow> 0 | Some x \<Rightarrow> int (length x)) + int (length h)"
  obtain j where "fst (evict DELTA_HEADER_BYTES (?d, m)) = drop j ?d" using evict_drops by blast
  then have "delta_headers (remember_authenticated_delta_header sha n h c) = drop j ?d"
    using False by (cases "evict DELTA_HEADER_BYTES (?d, m)")
      (simp add: remember_authenticated_delta_header_def Let_def m_def)
  then show ?thesis using in_set_dropD [of _ j ?d] by (auto simp: at_end_set)
qed (auto simp: remember_authenticated_delta_header_def)

lemma remember_header_hot [simp]:
  "hot_entries (remember_authenticated_delta_header sha n h c) = hot_entries c"
  by (simp add: remember_authenticated_delta_header_def Let_def split: prod.split)

lemma find_header_hot [simp]: "hot_entries (snd (authenticated_delta_header sha n c)) = hot_entries c"
  by (auto simp: authenticated_delta_header_def split: option.split)

lemma first_piece:
  assumes "delta \<noteq> []"
  shows "\<exists>k rest. object_ranges (int (length delta)) = (0, 0, int k) # rest \<and> k \<le> length delta
    \<and> py_slice delta 0 (int k) = take k delta \<and> (k = length delta \<or> int k = OBJECT_BYTES)"
proof -
  have tile: "ranges_tile 0 (int (length delta)) (object_ranges (int (length delta)))" "object_ranges (int (length delta)) \<noteq> []"
    using object_ranges_tile [of "int (length delta)"] assms by simp_all
  obtain j x e rest where r: "object_ranges (int (length delta)) = (j, x, e) # rest"
    using tile(2) by (cases "object_ranges (int (length delta))") auto
  have "j = 0" using r by (auto simp: object_ranges_def upt_conv_Cons map_eq_Cons_conv upt_eq_Cons_conv)
  have e: "x = 0" "0 < e" "rest \<noteq> [] \<longrightarrow> e = OBJECT_BYTES" "ranges_tile e (int (length delta)) rest" "e \<le> int (length delta)"
    using tile(1) ranges_tile_le [of e "int (length delta)" rest] by (auto simp: r)
  have "rest = [] \<Longrightarrow> e = int (length delta)" using e(4) by simp
  then show ?thesis using e r \<open>j = 0\<close>
    by (intro exI [of _ "nat e"] exI [of _ rest]) (auto simp: py_slice_inside)
qed

lemma stage_header_stored:
  assumes "turn_stored s t" "tn_delta t \<noteq> []" "headers_true s c" "page_delta_header_prefix (tn_delta t) = Inr header"
  shows "\<exists>d. stage_header s (entry_dict ctx n counts t) c = (Inr header, d) \<and> headers_true s d \<and> hot_entries d = hot_entries c"
proof -
  obtain k rest where k: "object_ranges (int (length (tn_delta t))) = (0, 0, int k) # rest" "k \<le> length (tn_delta t)"
    "py_slice (tn_delta t) 0 (int k) = take k (tn_delta t)" "k = length (tn_delta t) \<or> int k = OBJECT_BYTES"
    using first_piece [OF assms(2)] by blast
  let ?x = "take k (tn_delta t)"
  let ?d = "read_dict (object_descriptor ''sha256'' (sha256 ?x) ?x 0 (int k))"
  obtain ds where ds: "delta_stored (tn_delta t) = ?d # ds"
    by (simp add: delta_stored_def stored_pieces_def described_objects_def k(1,3))
  have there: "files s (Chunk_file (sha256 ?x)) = Content ?x"
    using assms(1) k(1,3) by (auto simp: turn_stored_def pieces_stored_def named_objects_def)
  have "length header \<le> k"
  proof -
    have "length header \<le> length (tn_delta t)" using assms(4) by (auto simp: page_delta_header_prefix_def bindE_Inr)
    then show ?thesis using assms(1,4) k(4) by (auto simp: turn_stored_def)
  qed
  then have header: "page_delta_header_prefix ?x = Inr header" by (rule header_of_take [OF assms(4)])
  have read: "read_object ''page delta'' s ?d = Inr ?x"
    by (rule read_stored_object [OF digest_mode there])
  have name: "descriptor_name ?d = sha256 ?x" by (simp add: descriptor_name_def)
  have start: "stage_header s (entry_dict ctx n counts t) c = authenticated_page_delta_header s ?d JNull c"
    by (simp add: stage_header_def entry_fields ds)
  let ?n = "int (length ?x)"
  show ?thesis
  proof (cases "map_of (delta_headers c) (sha256 ?x, ?n)")
    case (Some h)
    then have "((sha256 ?x, ?n), h) \<in> set (delta_headers c)" by (rule map_of_SomeD)
    then have "h = header" using assms(3) there header by (fastforce simp: headers_true_def)
    moreover have "set (delta_headers (c\<lparr>delta_headers := at_end (sha256 ?x, ?n) h (delta_headers c)\<rparr>)) \<subseteq> set (delta_headers c)"
      using map_of_SomeD [OF Some] by (auto simp: at_end_set)
    then have "headers_true s (c\<lparr>delta_headers := at_end (sha256 ?x, ?n) h (delta_headers c)\<rparr>)"
      by (rule headers_true_sub [OF assms(3)])
    ultimately show ?thesis unfolding start
      using Some by (simp add: authenticated_page_delta_header_def authenticated_delta_header_def name)
  next
    case None
    have "headers_true s (remember_authenticated_delta_header (sha256 ?x) ?n header c)"
      using remember_header_entries [of "sha256 ?x" ?n header c] assms(3) there header
      by (fastforce simp: headers_true_def)
    then show ?thesis unfolding start
      using None read header by (simp add: authenticated_page_delta_header_def authenticated_delta_header_def name)
  qed
qed

lemma plan_stage_stored:
  "plan_stage lay (entry_dict ctx n counts t) header
    = plan_page_delta lay header counts (tn_counts t) n (tn_tokens t) (Some (int (length (tn_delta t))))"
proof -
  have ints: "the_counts (map JInt ns) = Inr ns" for ns
    by (induction ns) (simp_all add: the_counts_def)
  show ?thesis
    by (simp add: plan_stage_def plan_stored_delta_def counts_field_def entry_fields the_bytes_def ints)
qed

lemma plan_stages_stored:
  assumes "history_plans lay counts n (map turn_stage ts) = Inr plans" "turns_ok n width ts"
    "\<forall>t\<in>set ts. turn_stored s t" "headers_true s c"
  shows "\<exists>d. plan_stages lay s (map JObj (entry_dicts ctx n counts ts)) c = (Inr plans, d) \<and> headers_true s d
    \<and> hot_entries d = hot_entries c"
  using assms
proof (induction ctx n counts ts arbitrary: plans c rule: turn_entries.induct)
  case (2 ctx n counts t ts)
  obtain header p ps where h: "page_delta_header_prefix (tn_delta t) = Inr header"
    "plan_page_delta lay header counts (tn_counts t) n (tn_tokens t) (Some (int (length (tn_delta t)))) = Inr p"
    "history_plans lay (tn_counts t) (tn_tokens t) (map turn_stage ts) = Inr ps" "plans = p # ps"
    using "2.prems"(1) by (auto simp: turn_stage_def [of t] bindE_Inr)
  obtain e where e: "stage_header s (entry_dict ctx n counts t) c = (Inr header, e)" "headers_true s e" "hot_entries e = hot_entries c"
    using stage_header_stored [of s t c header ctx n counts] "2.prems" h(1) by auto
  obtain d where "plan_stages lay s (map JObj (entry_dicts (tn_ctx t) (tn_tokens t) (tn_counts t) ts)) e = (Inr ps, d)"
    "headers_true s d" "hot_entries d = hot_entries e"
    using "2.IH" [OF h(3) _ _ e(2)] "2.prems" by auto
  then show ?case using e h(2,4) by (simp add: plan_stage_stored)
qed simp

section \<open>Tails\<close>

lemma extents_of_stored:
  "mapE extent_of (map fst (stored_pieces integrity name b ranges))
    = Inr (map (\<lambda>(j, a, e). (name j (py_slice b a e), int (length (py_slice b a e)), a, e)) ranges)"
proof (induction ranges)
  case (Cons r ranges)
  then show ?case
    by (cases r) (simp add: stored_pieces_def described_objects_def extent_of_def descriptor_name_def)
qed (simp add: stored_pieces_def described_objects_def)

text \<open>The pieces of a range of the stream, read one by one, are that range.\<close>

lemma extent_read:
  assumes "ranges_tile a (int (length b)) ranges" "0 \<le> a" "pieces_stored s name b ranges"
    "a \<le> cursor \<or> ranges = []" "cursor < stop" "stop \<le> int (length b)" "a \<le> cursor"
  shows "\<exists>ps. extent_pieces cursor stop (map (\<lambda>(j, a, e). (name j (py_slice b a e), int (length (py_slice b a e)), a, e)) ranges) = Inr (ps, stop)
    \<and> read_object_extent s ps = Inr (py_slice b cursor stop)"
  using assms
proof (induction ranges arbitrary: a cursor)
  case (Cons r ranges)
  obtain j x e where r: "r = (j, x, e)" by (cases r)
  have e: "0 \<le> e" "x = a" "a < e" "ranges_tile e (int (length b)) ranges" "e \<le> int (length b)"
    using Cons.prems(1,2) r ranges_tile_le [of e "int (length b)" ranges] by auto
  let ?x = "py_slice b a e"
  have stored: "pieces_stored s name b ranges" and there: "files s (Chunk_file (name j ?x)) = Content ?x"
    using Cons.prems(3) e(2) by (auto simp: r pieces_stored_def named_objects_def)
  have len: "int (length ?x) = e - a" using e Cons.prems(2) by (simp add: py_slice_length)
  have piece: "read_piece s (name j ?x, int (length ?x), from - a, to - from) = Inr (py_slice b from to)"
    if "a \<le> from" "from \<le> to" "to \<le> e" for "from" to
  proof -
    have "py_slice ?x (from - a) (from - a + (to - from)) = py_slice b from to"
      using that e Cons.prems(2) by (simp add: py_slice_inside len nat_diff_distrib drop_take min_def)
    moreover have "int (length (py_slice b from to)) = to - from" using that e Cons.prems(2) by (simp add: py_slice_length)
    ultimately show ?thesis using there by (simp add: read_piece_def open_file_def read_bytes_def)
  qed
  show ?case
  proof (cases "e \<le> cursor")
    case True
    then have "ranges \<noteq> []" using Cons.prems(5,6) e(4) by (cases ranges) auto
    then show ?thesis using Cons.IH [OF e(4,1) stored, of cursor] Cons.prems(5,6) True e(2)
      by (simp add: r Let_def max_def)
  next
    case False
    show ?thesis
    proof (cases "stop \<le> e")
      case True
      then show ?thesis using False Cons.prems(5,7) e(2) piece [of cursor stop]
        by (auto simp: r Let_def read_object_extent_def)
    next
      case more: False
      then have "ranges \<noteq> []" using Cons.prems(6) e(4) by (cases ranges) auto
      then obtain ps where ps: "extent_pieces e stop (map (\<lambda>(j, a, e). (name j (py_slice b a e), int (length (py_slice b a e)), a, e)) ranges) = Inr (ps, stop)"
        "read_object_extent s ps = Inr (py_slice b e stop)"
        using Cons.IH [OF e(4,1) stored, of e] Cons.prems(6) more by auto
      have "py_slice b cursor e @ py_slice b e stop = py_slice b cursor stop"
        using False more Cons.prems(2,6,7) by (intro py_slice_join) auto
      then show ?thesis using False more Cons.prems(7) e(2) ps piece [of cursor e]
        by (auto simp: r Let_def read_object_extent_def bindE_Inr)
    qed
  qed
qed simp

lemma empty_extent: "extent_pieces a a ds = Inr ([], a)"
  by (induction ds) (auto simp: Let_def)

lemma read_extent_stored:
  assumes "b \<noteq> []" "pieces_stored s name b (object_ranges (int (length b)))" "0 \<le> a" "a \<le> e" "e \<le> int (length b)"
  shows "bindE (object_extent_pieces (map (\<lambda>(j, a, e). (name j (py_slice b a e), int (length (py_slice b a e)), a, e))
      (object_ranges (int (length b)))) a e) (read_object_extent s) = Inr (py_slice b a e)"
proof (cases "a = e")
  case True
  then show ?thesis using assms by (simp add: object_extent_pieces_def empty_extent read_object_extent_def py_slice_inside)
next
  case False
  have tile: "ranges_tile 0 (int (length b)) (object_ranges (int (length b)))"
    using object_ranges_tile [of "int (length b)"] assms(1) by simp
  show ?thesis using extent_read [OF tile _ assms(2), of a e] False assms(3-5) by (auto simp: object_extent_pieces_def)
qed

section \<open>Restoring a history\<close>

lemma history_facts:
  assumes "good_layout lay" "laid_out lay bc pre bs (vs_payload v)" "apply_history lay v bc bt stages = Inr v'"
    "history_plans lay bc bt stages = Inr plans"
  shows "(\<forall>k<length stages. \<forall>t\<in>set (dl_tails (plans ! k)).
      0 \<le> dt_start t \<and> dt_start t \<le> dt_end t \<and> dt_end t \<le> int (length (fst (stages ! k))))
    \<and> (stages \<noteq> [] \<longrightarrow> dl_result_sha256 (last plans) = vs_sha256 v'
        \<and> (\<exists>pre' bs'. encode_page_snapshot_header lay (fst (snd (last stages))) = Inr pre'
             \<and> laid_out lay (fst (snd (last stages))) pre' bs' (vs_payload v') \<and> vs_sha256 v' = sha256 (vs_payload v')))"
  using assms
proof (induction lay v bc bt stages arbitrary: plans pre bs rule: apply_history.induct)
  case (2 lay v bc bt encoded rc rt stages)
  obtain v1 where v1: "apply_verified_page_delta lay v encoded bc rc bt rt = Inr v1" "apply_history lay v1 rc rt stages = Inr v'"
    using "2.prems"(3) by (auto simp: bindE_Inr)
  obtain prefix p ps where ps: "page_delta_header_prefix encoded = Inr prefix"
    "plan_page_delta lay prefix bc rc bt rt (Some (int (length encoded))) = Inr p" "history_plans lay rc rt stages = Inr ps" "plans = p # ps"
    using "2.prems"(4) by (auto simp: bindE_Inr)
  obtain h rb where a: "dl_result_sha256 p = vs_sha256 v1" "encode_page_snapshot_header lay rc = Inr h"
    "laid_out lay rc h rb (vs_payload v1)" "vs_sha256 v1 = sha256 (vs_payload v1)"
    "length (dl_tails p) = length (layout_layers lay)"
    "\<And>j. j < length (layout_layers lay) \<Longrightarrow> let t = dl_tails p ! j in
        int (length (tail_of encoded t)) = dt_end t - dt_start t \<and> 0 \<le> dt_start t \<and> dt_end t \<le> int (length encoded)"
    using apply_Inr [OF "2.prems"(1,2) v1(1)] ps(2) plan_delta_prefix [OF ps(1)] by (auto simp: Let_def)
  have here: "0 \<le> dt_start t \<and> dt_start t \<le> dt_end t \<and> dt_end t \<le> int (length encoded)" if t: "t \<in> set (dl_tails p)" for t
  proof -
    obtain j where "j < length (layout_layers lay)" "t = dl_tails p ! j" using t a(5) by (auto simp: in_set_conv_nth)
    then show ?thesis using a(6) [of j] by (auto simp: Let_def)
  qed
  note IH = "2.IH" [OF "2.prems"(1) a(3) v1(2) ps(3)]
  show ?case
  proof (cases "stages = []")
    case True
    then show ?thesis using here a(1-4) v1(2) ps(3,4) by auto
  next
    case False
    then have "ps \<noteq> []" using history_plans_length [OF ps(3)] by auto
    then show ?thesis using here IH False by (auto simp: ps(4) nth_Cons split: nat.split)
  qed
qed simp

lemma last_entry_counts: "ts \<noteq> [] \<Longrightarrow> fst (snd (last (map turn_stage ts))) = end_counts h ts"
  by (simp add: last_map turn_stage_def end_counts_def)

lemma the_counts_ints [simp]: "the_counts (map JInt ns) = Inr ns"
  by (induction ns) (simp_all add: the_counts_def)

lemma tails_read:
  assumes "\<forall>t\<in>set ts. turn_stored s t" "turns_ok n width ts"
    "\<forall>k<length ts. \<forall>t\<in>set (dl_tails (plans ! k)).
       0 \<le> dt_start t \<and> dt_start t \<le> dt_end t \<and> dt_end t \<le> int (length (tn_delta (ts ! k)))"
  shows "reads_tails (read_stage_tail s (map JObj (entry_dicts ctx n counts ts))) (map turn_stage ts) plans"
  unfolding reads_tails_def
proof (intro allI impI ballI)
  fix k t assume k: "k < length (map turn_stage ts)" and t: "t \<in> set (dl_tails (plans ! k))"
  have entries: "\<exists>c m b. map JObj (entry_dicts ctx n counts ts) ! k = JObj (entry_dict c m b (ts ! k))"
    using k
  proof (induction ctx n counts ts arbitrary: k rule: turn_entries.induct)
    case (2 ctx n counts t ts)
    then show ?case by (cases k) auto
  qed simp
  have delta: "tn_delta (ts ! k) \<noteq> []"
    using assms(2) k
  proof (induction n width ts arbitrary: k rule: turns_ok.induct)
    case (2 n width t ts)
    then show ?case by (cases k) auto
  qed simp
  let ?b = "tn_delta (ts ! k)"
  have objects: "stage_objects (map JObj (entry_dicts ctx n counts ts)) k = delta_stored ?b"
    using entries by (auto simp: stage_objects_def entry_fields)
  have stored: "pieces_stored s digest_name ?b (object_ranges (int (length ?b)))"
    using assms(1) k by (simp add: turn_stored_def)
  have bounds: "0 \<le> dt_start t" "dt_start t \<le> dt_end t" "dt_end t \<le> int (length ?b)" using assms(3) k t by auto
  show "read_stage_tail s (map JObj (entry_dicts ctx n counts ts)) k t = read_stage (map turn_stage ts) k t"
    using read_extent_stored [OF delta stored bounds] k
    by (simp add: read_stage_tail_def objects delta_stored_def extents_of_stored read_stage_def tail_of_def turn_stage_def)
qed

text \<open>A hot cache that holds nothing or the right bytes under a digest.\<close>

definition hot_true :: "page_cache \<Rightarrow> string \<Rightarrow> bool" where
  "hot_true c b \<longleftrightarrow> map_of (hot_entries c) (sha256 b, int (length b)) \<in> {None, Some b}"

lemma at_end_lookup: "map_of (at_end k v d) j = (if j = k then Some v else map_of d j)"
proof -
  have "map_of (without k d) j = (if j = k then None else map_of d j)"
    by (induction d) (auto simp: without_def)
  then show ?thesis by (auto simp: at_end_def map_add_def split: option.split)
qed

lemma hot_lookup:
  assumes "hot_true c b"
  shows "fst (hot_page_snapshot (sha256 b) (int (length b)) c) \<in> {None, Some b}"
    "hot_true c x \<Longrightarrow> hot_true (snd (hot_page_snapshot (sha256 b) (int (length b)) c)) x"
    "headers_true s c \<Longrightarrow> headers_true s (snd (hot_page_snapshot (sha256 b) (int (length b)) c))"
proof -
  show "fst (hot_page_snapshot (sha256 b) (int (length b)) c) \<in> {None, Some b}"
    using assms by (auto simp: hot_true_def hot_page_snapshot_def)
  show "hot_true c x \<Longrightarrow> hot_true (snd (hot_page_snapshot (sha256 b) (int (length b)) c)) x"
    by (auto simp: hot_true_def hot_page_snapshot_def at_end_lookup split: option.split)
  show "headers_true s c \<Longrightarrow> headers_true s (snd (hot_page_snapshot (sha256 b) (int (length b)) c))"
    by (auto simp: headers_true_def hot_page_snapshot_def split: option.split)
qed

lemma history_restored:
  assumes "holds_history s i lay h ts b" "headers_true s c" "hot_true c b" "hot_true c (hb_bytes h)"
  shows "fst (restore_root lay s reader (history_read i lay h ts) kind (map JInt (end_counts h ts)) (JInt (end_tokens h ts)) depth
      keep c) = Inr (kept_copy keep b (sha256 b))"
proof (cases "ts = []")
  case True
  note hb = holds_base [OF assms(1) [unfolded True]]
  have "payload_integrity (publication_schema i) = ''sha256''"
    using assms(1) by (simp add: holds_history_def base_ok_def payload_integrity_def)
  then have binding: "snapshot_binding i (hb_ctx h) (hb_tokens h) (hb_bytes h) = sha256 (hb_bytes h)" by (simp add: snapshot_binding_def)
  have "map_of (hot_entries c) (snapshot_binding i (hb_ctx h) (hb_tokens h) (hb_bytes h), int (length (hb_bytes h))) \<in> {None, Some (hb_bytes h)}"
    unfolding binding using assms(4) by (simp add: hot_true_def)
  from snapshot_restored [OF hb(2) this] True hb(1) show ?thesis
    by (simp add: history_read_def base_read_root_def end_tokens_def binding)
next
  case False
  note a = assms(1) [unfolded holds_history_def]
  have lay: "good_layout lay" and schema: "publication_schema i = ''page-tail-cow-v2''" using a by (simp_all add: base_ok_def)
  obtain p where p: "plan_page_snapshot lay (hb_bytes h) (hb_counts h) None = Inr p" using a by (auto simp: base_ok_def)
  obtain pre bs where laid: "laid_out lay (hb_counts h) pre bs (hb_bytes h)" using plan_laid_out [OF lay p] by blast
  have app: "apply_history lay (verified (hb_bytes h)) (hb_counts h) (hb_tokens h) (map turn_stage ts) = Inr (verified b)" using a by blast
  obtain plans where plans: "history_plans lay (hb_counts h) (hb_tokens h) (map turn_stage ts) = Inr plans"
    using history_planned [OF app] by blast
  have laid': "laid_out lay (hb_counts h) pre bs (vs_payload (verified (hb_bytes h)))" using laid by (simp add: verified_def)
  note facts = history_facts [OF lay laid' app plans]
  let ?m = "flat_dict i lay h ts"
  let ?stages = "map JObj (entry_dicts (hb_ctx h) (hb_tokens h) (hb_counts h) ts)"
  have identity: "identity_of_root ?m = Inr i"
    by (rule identity_read_back) (use a flat_fields(3) in \<open>simp_all add: base_ok_def snapshot_arguments_def\<close>)
  have valid: "validate_page_delta_root (JObj ?m) i (end_ctx h ts) = Inr (base_read_root i h, concat (map (delta_stored \<circ> tn_delta) ts))"
    using flat_root_valid a False by blast
  have geometry: "root_geometry lay ''flat page delta'' (JObj ?m) (map JInt (end_counts h ts)) (JInt (end_tokens h ts))
      = Inr (concat (map (delta_stored \<circ> tn_delta) ts))"
    using identity valid by (simp add: root_geometry_def flat_fields counts_field_def same_values_def list_all2_same)
  obtain d where d: "plan_stages lay s ?stages c = (Inr plans, d)" "headers_true s d" "hot_entries d = hot_entries c"
    using plan_stages_stored [OF plans _ _ assms(2)] a by blast
  have ne: "plans \<noteq> []" using history_plans_length [OF plans] False by auto
  have sha: "dl_result_sha256 (last plans) = sha256 b" using facts False by (simp add: verified_def)
  obtain pre' bs' where fin: "encode_page_snapshot_header lay (end_counts h ts) = Inr pre'"
    "laid_out lay (end_counts h ts) pre' bs' b"
    using facts False unfolding last_entry_counts [OF False, of h] by (auto simp: verified_def)
  have size: "page_snapshot_encoded_size lay (end_counts h ts) = Inr (int (length b))"
    using fin sum_lengths [of bs' slot_bytes "layer_counts lay (end_counts h ts)"]
    by (simp add: page_snapshot_encoded_size_def laid_out_def)
  have hot: "hot_true d b" "hot_true d (hb_bytes h)" using assms(3,4) d(3) by (simp_all add: hot_true_def)
  obtain hit e where e: "hot_page_snapshot (sha256 b) (int (length b)) d = (hit, e)" by fastforce
  have hit: "hit \<in> {None, Some b}" "hot_true e (hb_bytes h)" "headers_true s e"
    using hot_lookup(1) [OF hot(1)] hot_lookup(2) [OF hot(1,2)] hot_lookup(3) [OF hot(1) d(2)] e by simp_all
  have opened: "open_flat_delta lay s (JObj ?m) (map JInt (end_counts h ts)) (JInt (end_tokens h ts)) c
      = (Inr (plans, sha256 b, hit), e)"
    unfolding open_flat_delta_def geometry
    using d(1) ne sha size e flat_stage_field [OF False] by simp
  show ?thesis
  proof (cases hit)
    case (Some x)
    then show ?thesis using hit(1) opened False flat_is_delta
      by (subst restore_root.simps) (simp add: history_read_def)
  next
    case None
    have "payload_integrity (publication_schema i) = ''sha256''" using schema by (simp add: payload_integrity_def)
    then have binding: "snapshot_binding i (hb_ctx h) (hb_tokens h) (hb_bytes h) = sha256 (hb_bytes h)"
      by (simp add: snapshot_binding_def)
    have "fst (restore_root lay s None (base_read_root i h) k cs (JInt (hb_tokens h)) 0 True e) = Inr (Verified (verified (hb_bytes h)))" for k cs
    proof -
      have "fst (restore_root lay s None (base_read_root i h) k cs (JInt (hb_tokens h)) 0 True e)
          = Inr (kept_copy True (hb_bytes h) (snapshot_binding i (hb_ctx h) (hb_tokens h) (hb_bytes h)))"
        unfolding base_read_root_def
        by (rule pieces_restored)
           (use a hit(2) in \<open>simp_all add: base_ok_def base_stored_def hot_true_def binding\<close>)
      then show ?thesis by (simp add: binding kept_copy_def verified_def)
    qed
    then obtain f where base: "restore_root lay s None (base_read_root i h) ''page_snapshot'' (map JInt (hb_counts h))
        (JInt (hb_tokens h)) 0 True e = (Inr (Verified (verified (hb_bytes h))), f)"
      by (metis prod.collapse)
    have reads: "reads_tails (read_stage_tail s ?stages) (map turn_stage ts) plans"
      by (rule tails_read [where n = "hb_tokens h" and width = "length (hb_counts h)"]) (use a facts in \<open>auto simp: turn_stage_def\<close>)
    have "compose_page_history lay (Verified (verified (hb_bytes h))) (hb_counts h) plans (read_stage_tail s ?stages) = Inr (verified b)"
      by (rule compose_history [OF lay _ _ app plans reads, of p]) (use p False in \<open>simp_all add: verified_def\<close>)
    then have "fst (compose_flat_delta lay s ?m plans (sha256 b) (Verified (verified (hb_bytes h))) keep f) = Inr (kept_copy keep b (sha256 b))"
      by (simp add: compose_flat_delta_def counts_field_def flat_fields flat_stage_field [OF False] stored_corruption_def
          verified_def kept_copy_def)
    then show ?thesis using opened None base False flat_is_delta base_is_snapshot [of i h]
      by (subst restore_root.simps) (simp add: history_read_def base_kind_def flat_fields counts_field_def)
  qed
qed

end
