(* ===== verification/Page_Extend_Laws.thy ===== *)
theory Page_Extend_Laws
  imports Page_History_Store
begin

text \<open>
  Committing page extensions: one more turn on a stored history gives a stored history again, whether the
  result is given whole or as a capture of the pages that changed.
\<close>

section \<open>Committing a turn\<close>

text \<open>Objects that are new, or on disk already with the same content.\<close>

definition objects_new :: "store \<Rightarrow> (path \<times> string) list \<Rightarrow> bool" where
  "objects_new s objs \<longleftrightarrow> consistent objs \<and> (\<forall>(p, b)\<in>set objs. files s p \<in> {Absent, Content b} \<and> parent p = Chunks)"

lemma objects_new_free: "objects_new s objs \<Longrightarrow> objects_free s objs"
  by (auto simp: objects_new_def objects_free_def object_free_def)

lemma objects_new_keep: "objects_new s objs \<Longrightarrow> files s p = Content b \<Longrightarrow> files (put_all objs s) p = Content b"
  by (auto simp: objects_new_def split: option.split dest!: map_of_SomeD)

lemma pieces_kept: "objects_new s objs \<Longrightarrow> pieces_stored s name b ranges \<Longrightarrow> pieces_stored (put_all objs s) name b ranges"
  using objects_new_keep by (force simp: pieces_stored_def simp del: put_all_simps)

lemma apply_history_append:
  "apply_history lay v bc bt (map turn_stage ts @ [turn_stage t]) =
     bindE (apply_history lay v bc bt (map turn_stage ts)) (\<lambda>v.
     apply_verified_page_delta lay v (tn_delta t) (if ts = [] then bc else tn_counts (last ts)) (tn_counts t)
       (if ts = [] then bt else tn_tokens (last ts)) (tn_tokens t))"
proof (induction ts arbitrary: v bc bt)
  case Nil
  show ?case by (cases "apply_verified_page_delta lay v (tn_delta t) bc (tn_counts t) bt (tn_tokens t)") (auto simp: turn_stage_def)
next
  case (Cons u ts)
  then show ?case
    by (cases "apply_verified_page_delta lay v (tn_delta u) bc (tn_counts u) bt (tn_tokens u)") (simp_all add: turn_stage_def [of u])
qed

text \<open>The result of a turn as an encoder gives it: a delta that leads from \<open>b\<close> to the result.\<close>

definition turn_encodes ::
    "page_layout \<Rightarrow> cache_identity \<Rightarrow> string \<Rightarrow> page_result \<Rightarrow> int list \<Rightarrow> int \<Rightarrow> page_turn \<Rightarrow> string \<Rightarrow> bool" where
  "turn_encodes lay i b r bc bt t result \<longleftrightarrow>
     (\<forall>c is_bytes. \<exists>hot. extension_payload lay i (verified b) is_bytes r bc (tn_counts t) bt (tn_tokens t) (tn_ctx t) c = Inr (tn_delta t, hot))
     \<and> apply_verified_page_delta lay (verified b) (tn_delta t) bc (tn_counts t) bt (tn_tokens t) = Inr (verified result)"

text \<open>The base of the publication, as the lookup of a stored history gives it.\<close>

definition history_base :: "cache_identity \<Rightarrow> page_layout \<Rightarrow> page_base \<Rightarrow> page_turn list \<Rightarrow> publication_base" where
  "history_base i lay h ts = \<lparr>pb_lookup = hit (history_text i lay h ts) (history_read i lay h ts) (history_kind ts),
     pb_digest = end_ctx h ts, pb_boundary = end_tokens h ts, pb_counts = map JInt (end_counts h ts), pb_own = True\<rparr>"

lemma history_object:
  "\<exists>m. history_read i lay h ts = JObj m \<and> jget m ''committed_tokens'' = JInt (end_tokens h ts)
     \<and> (is_flat_delta m \<longleftrightarrow> ts \<noteq> [])"
  by (auto simp: history_read_def base_read_root_def snapshot_read_def flat_fields end_tokens_def snapshot_fields(1,6)
      is_flat_delta_def PAGE_DELTA_SCHEMA_V3_def PAGE_SNAPSHOT_SCHEMA_def)

lemma prepare_ok:
  assumes "holds_history s i lay h ts b"
    "context_prefix_digest token_ids salt (Some (end_tokens h ts)) [] = Inr (end_ctx h ts)"
    "context_prefix_digest token_ids salt (Some n) [] = Inr ctx"
  shows "prepare_extension i (end_ctx h ts) token_ids salt (end_counts h ts) (end_tokens h ts) n s
    = Inr (history_read i lay h ts, history_base i lay h ts, ctx)"
proof -
  have schema: "publication_schema i = ''page-tail-cow-v2''" using assms(1) by (simp add: holds_history_def base_ok_def)
  obtain m where m: "history_read i lay h ts = JObj m" "jget m ''committed_tokens'' = JInt (end_tokens h ts)"
    using history_object by blast
  show ?thesis
    using history_found [OF assms(1), of False True None] assms(2,3) m schema
    by (simp add: prepare_extension_def hit_def choose_base_def history_base_def PAGE_TAIL_SCHEMAS_def FLAT_PAGE_SCHEMAS_def
        MAX_PAGE_DELTA_DEPTH_def)
qed

lemma base_proof_ok:
  assumes "holds_history s i lay h ts b" "headers_true s c" "hot_true c b" "hot_true c (hb_bytes h)"
  shows "\<exists>d. base_proof lay s i (history_base i lay h ts) None c = (Inr (verified b), d)"
proof -
  obtain d where "restore_root lay s None (history_read i lay h ts) (history_kind ts) (map JInt (end_counts h ts))
      (JInt (end_tokens h ts)) 0 True c = (Inr (kept_copy True b (sha256 b)), d)"
    using history_restored [OF assms] by (metis prod.collapse)
  then show ?thesis by (simp add: base_proof_def history_base_def hit_def kept_copy_def verified_def)
qed

lemma stage_count_history: "stage_count (history_read i lay h ts) = length ts"
proof (cases "ts = []")
  case True
  have "jget (read_dict (with_metadata (snapshot_value i ctx n nonce b))) ''delta_stages'' = JNull" for ctx n nonce b
    by (subst sealed_get) (simp_all add: snapshot_value_def snapshot_root_def)
  then show ?thesis using True by (simp add: stage_count_def history_read_def base_read_root_def snapshot_read_def)
next
  case False
  have "length (entry_dicts ctx n counts ts) = length ts" for ctx n counts
    by (induction ctx n counts ts rule: entry_dicts.induct) auto
  then show ?thesis using False by (simp add: stage_count_def history_read_def flat_stage_field)
qed

lemma extension_root_ok:
  assumes "holds_history s i lay h ts b"
  shows "\<exists>root. extension_root lay i (history_read i lay h ts) (end_ctx h ts) (end_tokens h ts) (end_counts h ts)
        (history_base i lay h ts) (tn_ctx t) (tn_tokens t) (tn_counts t) (tn_delta t) (delta_descriptors (tn_delta t)) header
      = Inr root
    \<and> sorted_items root = sorted_items (flat_value i lay h (ts @ [t]))"
proof -
  note a = assms [unfolded holds_history_def]
  have schema: "publication_schema i = ''page-tail-cow-v2''" using a by (simp add: base_ok_def)
  have entry: "stage_entry (payload_integrity (publication_schema i)) (tn_ctx t) (tn_tokens t) (end_ctx h ts) (end_tokens h ts)
      (end_counts h ts) (tn_counts t) (tn_delta t) (delta_descriptors (tn_delta t)) header
    = turn_entry (end_ctx h ts) (end_tokens h ts) (end_counts h ts) t"
    by (simp add: turn_entry_def stage_entry_def schema payload_integrity_def)
  let ?E = "turn_entry (end_ctx h ts) (end_tokens h ts) (end_counts h ts) t"
  let ?es = "turn_entries (hb_ctx h) (hb_tokens h) (hb_counts h) ts"
  have entries: "turn_entries (hb_ctx h) (hb_tokens h) (hb_counts h) (ts @ [t]) = ?es @ [?E]"
    by (simp add: turn_entries_append end_ctx_def end_tokens_def end_counts_def)
  have root: "flat_value i lay h (ts @ [t]) = flat_root lay i (tn_ctx t) (tn_tokens t) (tn_counts t)
      \<lparr>fh_root = base_read_root i h, fh_digest = JStr (hb_ctx h), fh_tokens = JInt (hb_tokens h),
       fh_counts = map JInt (hb_counts h), fh_stages = ?es\<rparr> ?E"
    by (simp add: flat_value_def Let_def entries end_ctx_def end_tokens_def end_counts_def)
  let ?read = "map JObj (entry_dicts (hb_ctx h) (hb_tokens h) (hb_counts h) ts)"
  have history: "flat_history_of i (history_read i lay h ts) (end_ctx h ts) (end_tokens h ts) (end_counts h ts)
      = Inr \<lparr>fh_root = base_read_root i h, fh_digest = JStr (hb_ctx h), fh_tokens = JInt (hb_tokens h),
             fh_counts = map JInt (hb_counts h), fh_stages = ?read\<rparr>"
  proof (cases "ts = []")
    case True
    then show ?thesis using history_object [of i lay h ts]
      by (auto simp: flat_history_of_def history_read_def end_ctx_def end_tokens_def end_counts_def)
  next
    case False
    have "validate_page_delta_root (JObj (flat_dict i lay h ts)) i (end_ctx h ts)
        = Inr (base_read_root i h, concat (map (delta_stored \<circ> tn_delta) ts))"
      using flat_root_valid a False by blast
    then show ?thesis using False flat_is_delta(4) [of i lay h ts] flat_stage_field [OF False, of i lay h]
      by (simp add: flat_history_of_def history_read_def counts_field_def flat_fields)
  qed
  have "sorted_list ?read = map (sorted_json \<circ> sorted_json) ?es"
    using sorted_entries [of "hb_ctx h" "hb_tokens h" "hb_counts h" ts]
    by (simp add: sorted_list_map flip: map_map)
  then have "sorted_list (?read @ [?E]) = sorted_list (?es @ [?E])"
    by (simp add: sorted_list_map comp_def sorted_idem)
  then have "sorted_items (flat_root lay i (tn_ctx t) (tn_tokens t) (tn_counts t)
      \<lparr>fh_root = base_read_root i h, fh_digest = JStr (hb_ctx h), fh_tokens = JInt (hb_tokens h),
       fh_counts = map JInt (hb_counts h), fh_stages = ?read\<rparr> ?E) = sorted_items (flat_value i lay h (ts @ [t]))"
    unfolding root by (simp add: flat_root_def del: map_append)
  then show ?thesis
    using history schema entry by (simp add: extension_root_def FLAT_PAGE_SCHEMAS_def)
qed

definition delta_objects_named :: "string \<Rightarrow> (path \<times> string) list" where
  "delta_objects_named delta = named_objects digest_name delta (object_ranges (int (length delta)))"

definition extended_store :: "store \<Rightarrow> cache_identity \<Rightarrow> page_layout \<Rightarrow> page_base \<Rightarrow> page_turn list \<Rightarrow> page_turn \<Rightarrow> store" where
  "extended_store s i lay h ts t =
     put_file (manifest_path i (tn_ctx t)) (flat_text i lay h (ts @ [t])) (put_all (delta_objects_named (tn_delta t)) s)"

text \<open>What a turn needs: a boundary past the last, a header that fits the first object, and files that can be
  written.\<close>

definition turn_publishable :: "store \<Rightarrow> cache_identity \<Rightarrow> page_turn \<Rightarrow> bool" where
  "turn_publishable s i t \<longleftrightarrow> is_sha256 (tn_ctx t) \<and> healthy s \<and> files s (manifest_path i (tn_ctx t)) = Absent
     \<and> objects_new s (delta_objects_named (tn_delta t))
     \<and> (\<exists>header. page_delta_header_prefix (tn_delta t) = Inr header \<and> int (length header) \<le> OBJECT_BYTES)"

lemma applied_geometry:
  assumes "apply_verified_page_delta lay v delta bc rc bt rt = Inr v'"
  shows "bt < rt" "length rc = length bc" "delta \<noteq> []"
proof -
  obtain p where p: "plan_page_delta lay delta bc rc bt rt None = Inr p"
    using assms by (auto simp: apply_verified_page_delta_def bindE_Inr plan_delta_whole)
  show "length rc = length bc" using plan_delta_sound(3) [OF p] by (simp add: extends_counts_def)
  show "bt < rt"
    using p by (cases "validate_delta_boundaries bt rt") (auto simp: plan_page_delta_def validate_delta_boundaries_def split: if_splits)
  show "delta \<noteq> []"
  proof
    assume "delta = []"
    then have "header_end ''hybrid page delta'' DELTA_MAGIC delta = Inl (HybridCodecError (''hybrid page delta'' @ '' has an invalid prefix''))"
      by (simp add: header_end_def HEADER_PREFIX_def)
    then show False using p by (cases "validate_delta_boundaries bt rt") (auto simp: plan_page_delta_def)
  qed
qed

lemma extended_history:
  assumes "holds_history s i lay h ts b" "turn_publishable s i t"
    "apply_verified_page_delta lay (verified b) (tn_delta t) (end_counts h ts) (tn_counts t) (end_tokens h ts) (tn_tokens t)
      = Inr (verified result)"
  shows "holds_history (extended_store s i lay h ts t) i lay h (ts @ [t]) result"
proof -
  note a = assms(1) [unfolded holds_history_def] and t = assms(2) [unfolded turn_publishable_def]
  let ?u = "put_all (delta_objects_named (tn_delta t)) s"
  let ?v = "extended_store s i lay h ts t"
  have new: "objects_new s (delta_objects_named (tn_delta t))" using t by blast
  have chunks: "pieces_stored ?v name x ranges" if "pieces_stored ?u name x ranges" for name x ranges
    using that by (auto simp: pieces_stored_def named_objects_def extended_store_def put_file_def manifest_path_def)
  have delta: "pieces_stored ?v digest_name (tn_delta t) (object_ranges (int (length (tn_delta t))))"
    by (rule chunks) (use new in \<open>simp add: delta_objects_named_def published_stored objects_new_def\<close>)
  have keep: "pieces_stored ?v name x ranges" if "pieces_stored s name x ranges" for name x ranges
    by (rule chunks [OF pieces_kept [OF new that]])
  note g = applied_geometry [OF assms(3)]
  have width: "length (end_counts h ts) = length (hb_counts h)"
    using turns_ok_last [of "hb_tokens h" "length (hb_counts h)" ts] a by (cases "ts = []") (auto simp: end_counts_def)
  have "turns_ok (hb_tokens h) (length (hb_counts h)) (ts @ [t])"
    using a t g width by (simp add: turns_ok_append end_tokens_def)
  moreover have "turn_stored ?v u" if "u \<in> set (ts @ [t])" for u
    using that a t delta keep by (auto simp: turn_stored_def)
  moreover have "base_stored ?v i h" using a keep by (simp add: base_stored_def)
  moreover have "apply_history lay (verified (hb_bytes h)) (hb_counts h) (hb_tokens h) (map turn_stage (ts @ [t])) = Inr (verified result)"
    using a assms(3) by (simp add: apply_history_append end_counts_def end_tokens_def)
  moreover have "files ?v (manifest_path i (end_ctx h (ts @ [t]))) = Content (history_text i lay h (ts @ [t]))"
    by (simp add: extended_store_def put_file_def end_ctx_def history_text_def)
  ultimately show ?thesis using a by (simp add: holds_history_def)
qed

lemma publish_extension_ok:
  assumes "holds_history s i lay h ts b" "turn_publishable s i t"
    "apply_verified_page_delta lay (verified b) (tn_delta t) (end_counts h ts) (tn_counts t) (end_tokens h ts) (tn_tokens t)
      = Inr (verified result)"
  shows "\<exists>r d. publish_extension lay i (history_read i lay h ts) (end_ctx h ts) (end_tokens h ts) (end_counts h ts)
      (history_base i lay h ts) (tn_ctx t) (tn_tokens t) (tn_counts t) (tn_delta t) hot nonce (s, c)
      = (Inr r, (extended_store s i lay h ts t, d)) \<and> rc_committed_tokens r = tn_tokens t"
proof -
  note t = assms(2) [unfolded turn_publishable_def]
  note g = applied_geometry [OF assms(3)]
  have schema: "payload_integrity (publication_schema i) = ''sha256''"
    using assms(1) by (simp add: holds_history_def base_ok_def payload_integrity_def)
  let ?r = "object_ranges (int (length (tn_delta t)))"
  have tile: "ranges_tile 0 (int (length (tn_delta t))) ?r" using object_ranges_tile g(3) by simp
  have new: "objects_new s (delta_objects_named (tn_delta t))" using t by blast
  have name: "object_name ''sha256'' i ctx k nonce = digest_name" for ctx k by (simp add: object_name_def fun_eq_iff)
  have "publish_objects (captured_range (Buffer (tn_delta t))) ''sha256'' digest_name [] ?r s
      = (Inr (described_objects ''sha256'' digest_name (tn_delta t) ?r), put_all ([] @ named_objects digest_name (tn_delta t) ?r) s)"
    by (rule publish_objects_ok)
       (use t tile_ranges [OF tile] objects_new_free [OF new] in \<open>auto simp: WRITE_BATCH_def delta_objects_named_def\<close>)
  then have objects: "publish_objects (captured_range (Buffer (tn_delta t))) ''sha256'' digest_name [] ?r s
      = (Inr (described_objects ''sha256'' digest_name (tn_delta t) ?r), put_all (delta_objects_named (tn_delta t)) s)"
    by (simp add: delta_objects_named_def del: put_all_simps)
  obtain header where header: "page_delta_header_prefix (tn_delta t) = Inr header" using t by blast
  have "\<exists>p. plan_page_delta lay header (end_counts h ts) (tn_counts t) (end_tokens h ts) (tn_tokens t)
      (Some (int (length (tn_delta t)))) = Inr p"
    using assms(3) plan_delta_prefix [OF header]
    by (auto simp: apply_verified_page_delta_def bindE_Inr plan_delta_whole)
  moreover have "delta_descriptors (tn_delta t) \<noteq> []"
    using object_ranges_tile(2) g(3) by (simp add: delta_descriptors_def described_objects_def)
  moreover have "py_int (jget (hd (delta_descriptors (tn_delta t))) ''bytes'') \<noteq> Inl e" for e
    using object_ranges_tile(2) g(3) by (auto simp: delta_descriptors_def described_objects_def hd_map split: prod.split)
  ultimately have "\<exists>d. remember_extension lay (history_base i lay h ts) (end_counts h ts) (tn_counts t) (tn_tokens t) (tn_delta t)
      header (delta_descriptors (tn_delta t)) hot c = (Inr (), d)"
    by (cases "delta_descriptors (tn_delta t)")
       (auto simp: remember_extension_def history_base_def Let_def split: sum.split option.split)
  then obtain d where remembered: "remember_extension lay (history_base i lay h ts) (end_counts h ts) (tn_counts t) (tn_tokens t)
      (tn_delta t) header (delta_descriptors (tn_delta t)) hot c = (Inr (), d)" by blast
  obtain root where root: "extension_root lay i (history_read i lay h ts) (end_ctx h ts) (end_tokens h ts) (end_counts h ts)
        (history_base i lay h ts) (tn_ctx t) (tn_tokens t) (tn_counts t) (tn_delta t) (delta_descriptors (tn_delta t)) header = Inr root"
    "sorted_items root = sorted_items (flat_value i lay h (ts @ [t]))"
    using extension_root_ok [OF assms(1)] by blast
  have written: "canonical_json (JObj (with_metadata root)) = flat_text i lay h (ts @ [t])"
    unfolding flat_text_def by (rule sealed_same [OF root(2)])
  have "map_of (delta_objects_named (tn_delta t)) (manifest_path i (tn_ctx t)) = None"
    by (auto simp: map_of_eq_None_iff delta_objects_named_def named_objects_def manifest_path_def)
  then have "files (put_all (delta_objects_named (tn_delta t)) s) (manifest_path i (tn_ctx t)) = Absent" using t by simp
  then have "publish_immutable (manifest_path i (tn_ctx t)) (flat_text i lay h (ts @ [t])) (put_all (delta_objects_named (tn_delta t)) s)
      = (Inr (), extended_store s i lay h ts t)"
    unfolding extended_store_def by (intro publish_fresh) (use t in simp_all)
  then have published: "publish_root i (tn_ctx t) (tn_tokens t) root (delta_descriptors (tn_delta t)) (put_all (delta_objects_named (tn_delta t)) s)
      = (Inr (page_receipt (flat_text i lay h (ts @ [t])) (tn_tokens t) (delta_descriptors (tn_delta t))), extended_store s i lay h ts t)"
    by (simp add: publish_root_def written)
  have counts: "the_counts (pb_counts (history_base i lay h ts)) = Inr (end_counts h ts)" by (simp add: history_base_def)
  show ?thesis
    unfolding publish_extension_def Let_def prod.case schema name objects sum.case delta_descriptors_def [symmetric]
      header bindE_simps counts remembered root(1) published
    by (simp add: page_receipt_def)
qed

lemma extension_payload_bound: "at_stage_limit i limit (history_read i lay h ts) \<longleftrightarrow>
    publication_schema i \<in> set FLAT_PAGE_SCHEMAS \<and> limit \<noteq> 0 \<and> limit \<le> length ts"
  by (simp add: at_stage_limit_def stage_count_history)

lemma commit_turn_ok:
  assumes "holds_history s i lay h ts b" "turn_publishable s i t" "turn_encodes lay i b r (end_counts h ts) (end_tokens h ts) t result"
    "limit = 0 \<or> length ts < limit"
    "context_prefix_digest token_ids salt (Some (end_tokens h ts)) [] = Inr (end_ctx h ts)"
    "context_prefix_digest token_ids salt (Some (tn_tokens t)) [] = Inr (tn_ctx t)"
    "headers_true s c" "hot_true c b" "hot_true c (hb_bytes h)"
  shows "\<exists>x d. commit_page_extension limit i (end_ctx h ts) token_ids salt lay (end_counts h ts) (tn_counts t) (end_tokens h ts)
      (tn_tokens t) is_bytes r None nonce (s, c) = (Inr x, (extended_store s i lay h ts t, d)) \<and> rc_committed_tokens x = tn_tokens t"
proof -
  obtain e where proof_ok: "base_proof lay s i (history_base i lay h ts) None c = (Inr (verified b), e)"
    using base_proof_ok [OF assms(1,7-9)] by blast
  obtain hot where hot: "extension_payload lay i (verified b) is_bytes r (end_counts h ts) (tn_counts t) (end_tokens h ts) (tn_tokens t)
      (tn_ctx t) e = Inr (tn_delta t, hot)"
    using assms(3) by (auto simp: turn_encodes_def)
  have app: "apply_verified_page_delta lay (verified b) (tn_delta t) (end_counts h ts) (tn_counts t) (end_tokens h ts) (tn_tokens t)
      = Inr (verified result)"
    using assms(3) by (simp add: turn_encodes_def)
  have free: "at_stage_limit i limit (history_read i lay h ts) = False"
    using assms(4) by (auto simp: extension_payload_bound)
  have pb: "pb_counts (history_base i lay h ts) = map JInt (end_counts h ts)" "pb_boundary (history_base i lay h ts) = end_tokens h ts"
    by (simp_all add: history_base_def)
  show ?thesis
    using publish_extension_ok [OF assms(1,2) app, of hot nonce e]
    by (simp add: commit_page_extension_def prepare_ok [OF assms(1,5,6)] proof_ok free pb hot)
qed

section \<open>The results of a turn\<close>

lemma history_laid_out:
  assumes "holds_history s i lay h ts b"
  shows "\<exists>pre bs. laid_out lay (end_counts h ts) pre bs b"
proof -
  note a = assms [unfolded holds_history_def]
  have lay: "good_layout lay" using a by (simp add: base_ok_def)
  obtain p where p: "plan_page_snapshot lay (hb_bytes h) (hb_counts h) None = Inr p" using a by (auto simp: base_ok_def)
  obtain pre bs where laid: "laid_out lay (hb_counts h) pre bs (vs_payload (verified (hb_bytes h)))"
    using plan_laid_out [OF lay p] by (auto simp: verified_def)
  have app: "apply_history lay (verified (hb_bytes h)) (hb_counts h) (hb_tokens h) (map turn_stage ts) = Inr (verified b)" using a by blast
  obtain plans where plans: "history_plans lay (hb_counts h) (hb_tokens h) (map turn_stage ts) = Inr plans"
    using history_planned [OF app] by blast
  show ?thesis
  proof (cases "ts = []")
    case True
    then show ?thesis using laid holds_base(1) assms by (auto simp: end_counts_def verified_def)
  next
    case False
    then show ?thesis using history_facts [OF lay laid app plans] last_entry_counts [OF False, of h] by (auto simp: verified_def)
  qed
qed

text \<open>The digest of the base may be given or computed.\<close>

lemma encode_given_digest:
  "encode_page_delta lay base result bc rc bt rt (Some (sha256 base)) ''sha256'' None
    = encode_page_delta lay base result bc rc bt rt None ''sha256'' None"
  by (simp add: encode_page_delta_def check_integrity_def base_digest_def)

lemma capture_given_digest:
  "encode_page_delta_from_capture_shared lay (Verified (verified base)) cap bc rc reused bt rt (Some (sha256 base)) keep ''sha256'' None
    = encode_page_delta_from_capture_shared lay (Plain base) cap bc rc reused bt rt None keep ''sha256'' None"
proof -
  have "base_digest (base_sha_of (Verified (verified base)) (Some (sha256 base))) (sha256 base)
      = base_digest (base_sha_of (Plain base) None) (sha256 base)"
    by (simp add: base_digest_def)
  moreover have "bytes_of (Verified (verified base)) = base" by (simp add: verified_def)
  moreover have "check_integrity ''sha256'' (Some (sha256 base)) None = check_integrity ''sha256'' None None"
    by (simp add: check_integrity_def)
  ultimately show ?thesis by (simp only: encode_page_delta_from_capture_shared_def bytes_of.simps Let_def)
qed

lemma capture_without_result:
  assumes "encode_page_delta_from_capture_shared lay b cap bc rc reused bt rt sha True integrity token = Inr (delta, r)"
  shows "encode_page_delta_from_capture_shared lay b cap bc rc reused bt rt sha False integrity token = Inr (delta, None)"
  using assms
  by (auto simp: encode_page_delta_from_capture_shared_def bindE_Inr Let_def split: if_splits)

text \<open>A result as the caller gives it: the whole snapshot, or a capture of the pages that are not reused.\<close>

definition result_given ::
    "page_layout \<Rightarrow> string \<Rightarrow> page_result \<Rightarrow> int list \<Rightarrow> int \<Rightarrow> int list \<Rightarrow> int \<Rightarrow> string \<Rightarrow> string \<Rightarrow> bool" where
  "result_given lay b r bc bt rc rt delta result \<longleftrightarrow>
     (\<exists>ps. encode_page_snapshot lay rc ps = Inr result
        \<and> ((r = (Buffer result, None) \<and> encode_page_delta lay b result bc rc bt rt None ''sha256'' None = Inr delta)
           \<or> (\<exists>cap reused bps. r = (cap, Some reused) \<and> captured_counts lay bc rc reused = Inr ()
                \<and> decode_page_snapshot lay b bc = Inr bps \<and> unchanged lay reused bps ps
                \<and> cap_shows cap (concat (map snd (result_tails lay ps reused)))
                \<and> encode_page_delta_from_capture_with_result lay (Plain b) cap bc rc reused bt rt None ''sha256'' None
                    = Inr (delta, result))))"

lemma given_encodes:
  assumes "good_layout lay" "plan_page_snapshot lay b bc None = Inr p" "publication_schema i = ''page-tail-cow-v2''"
    "result_given lay b r bc bt (tn_counts t) (tn_tokens t) (tn_delta t) result"
  shows "turn_encodes lay i b r bc bt t result"
proof -
  have mode: "payload_integrity (publication_schema i) = ''sha256''" "publication_schema i \<in> set FLAT_PAGE_SCHEMAS"
    using assms(3) by (simp_all add: payload_integrity_def FLAT_PAGE_SCHEMAS_def)
  have v: "vs_payload (verified b) = b" "vs_sha256 (verified b) = sha256 b" by (simp_all add: verified_def)
  obtain ps where ps: "encode_page_snapshot lay (tn_counts t) ps = Inr result" and
    cases: "(r = (Buffer result, None) \<and> encode_page_delta lay b result bc (tn_counts t) bt (tn_tokens t) None ''sha256'' None = Inr (tn_delta t))
      \<or> (\<exists>cap reused bps. r = (cap, Some reused) \<and> captured_counts lay bc (tn_counts t) reused = Inr ()
                \<and> decode_page_snapshot lay b bc = Inr bps \<and> unchanged lay reused bps ps
                \<and> cap_shows cap (concat (map snd (result_tails lay ps reused)))
                \<and> encode_page_delta_from_capture_with_result lay (Plain b) cap bc (tn_counts t) reused bt (tn_tokens t) None ''sha256'' None
                    = Inr (tn_delta t, result))"
    using assms(4) by (auto simp: result_given_def)
  from cases show ?thesis
  proof (elim disjE exE conjE)
    assume r: "r = (Buffer result, None)"
      "encode_page_delta lay b result bc (tn_counts t) bt (tn_tokens t) None ''sha256'' None = Inr (tn_delta t)"
    then show ?thesis
      using encoded_delta_applies [OF assms(1,2) ps r(2)]
      by (simp add: turn_encodes_def extension_payload_def mode v encode_given_digest) (simp add: verified_def)
  next
    fix cap reused bps
    assume c: "r = (cap, Some reused)" "captured_counts lay bc (tn_counts t) reused = Inr ()"
      "decode_page_snapshot lay b bc = Inr bps" "unchanged lay reused bps ps"
      "cap_shows cap (concat (map snd (result_tails lay ps reused)))"
      "encode_page_delta_from_capture_with_result lay (Plain b) cap bc (tn_counts t) reused bt (tn_tokens t) None ''sha256'' None
        = Inr (tn_delta t, result)"
    obtain header where "encode_page_snapshot_header lay (tn_counts t) = Inr header"
      using encode_snapshot_of(1) [OF ps] by (auto simp: snapshot_of_def)
    then obtain n where size: "page_snapshot_encoded_size lay (tn_counts t) = Inr n"
      by (simp add: page_snapshot_encoded_size_def)
    have kept: "encode_page_delta_from_capture_shared lay (Plain b) cap bc (tn_counts t) reused bt (tn_tokens t) None True ''sha256'' None
        = Inr (tn_delta t, Some result)"
      using c(6) by (auto simp: encode_page_delta_from_capture_with_result_def bindE_Inr split: option.splits)
    have "extension_payload lay i (verified b) is_bytes r bc (tn_counts t) bt (tn_tokens t) (tn_ctx t) c
        = Inr (tn_delta t, if hot_page_snapshot_fits c n then Some result else None)" for c is_bytes
      using mode size capture_without_result [OF kept] kept
      by (simp add: extension_payload_def c(1) v capture_given_digest encode_page_delta_from_capture_with_result_def
          encode_page_delta_from_capture_def)
    moreover have "apply_verified_page_delta lay (verified b) (tn_delta t) bc (tn_counts t) bt (tn_tokens t) = Inr (verified result)"
      using captured_delta_applies [OF assms(1,2) ps c(2-6)] by (simp add: verified_def)
    ultimately show ?thesis by (simp add: turn_encodes_def)
  qed
qed

section \<open>A turn on a stored history\<close>

text \<open>What keeps a turn from being written: another root under its context, or an object under the digest of
  a piece of its delta that holds other bytes.\<close>

definition turn_blocked :: "store \<Rightarrow> cache_identity \<Rightarrow> page_turn \<Rightarrow> bool" where
  "turn_blocked s i t \<longleftrightarrow> (\<exists>x. files s (manifest_path i (tn_ctx t)) = Content x)
     \<or> \<not> objects_new s (delta_objects_named (tn_delta t))"

text \<open>The geometry of a base that a published snapshot gives.\<close>

lemma plan_not_empty: "plan_page_snapshot lay b counts total_bytes = Inr p \<Longrightarrow> b \<noteq> []"
proof
  assume "plan_page_snapshot lay b counts total_bytes = Inr p" "b = []"
  then show False by (simp add: plan_page_snapshot_def header_end_def HEADER_PREFIX_def)
qed

lemma published_history:
  assumes "snapshot_publishable s i ctx span nonce b" "publication_schema i = ''page-tail-cow-v2''" "good_layout lay"
    "plan_page_snapshot lay b counts None = Inr p" "counts \<noteq> []"
  shows "holds_history (published_store s i ctx span nonce b) i lay
    \<lparr>hb_ctx = ctx, hb_tokens = span, hb_counts = counts, hb_nonce = nonce, hb_bytes = b\<rparr> [] b"
  using published_snapshot [OF assms(1)] assms(2-5)
  by (auto simp: holds_history_def holds_snapshot_def base_ok_def base_stored_def history_text_def end_ctx_def verified_def)

lemma published_healthy:
  "healthy s \<Longrightarrow> healthy (published_store s i ctx span nonce b)"
  "\<forall>p. files s p \<noteq> Unreadable \<Longrightarrow> files (published_store s i ctx span nonce b) p \<noteq> Unreadable"
  by (auto simp: published_store_def healthy_def put_file_def put_all_def split: option.split)

text \<open>C6: One more turn on a stored page history: given the tokens, the block counts and the result of the turn,
  whole, in a mutable or an immutable buffer, or as a capture of the pages that changed, committing the extension writes a flat root that every
  lookup of the longer context finds, and restoring it gives the result bit for bit in a fresh process, however
  many turns the history has below the limit. The store then holds the history with the turn added, so the next
  turn can follow. What can keep the turn from being written is a root that is there already, or another
  object under the digest of one of its pieces.\<close>

theorem page_extension_restores:
  assumes "holds_history s i lay h ts b" "healthy s" "\<forall>p. files s p \<noteq> Unreadable"
    "result_given lay b r (end_counts h ts) (end_tokens h ts) (tn_counts t) (tn_tokens t) (tn_delta t) result"
    "page_delta_header_prefix (tn_delta t) = Inr header" "int (length header) \<le> OBJECT_BYTES"
    "limit = 0 \<or> length ts < limit"
    "context_prefix_digest token_ids salt (Some (end_tokens h ts)) [] = Inr (end_ctx h ts)"
    "context_prefix_digest token_ids salt (Some (tn_tokens t)) [] = Inr (tn_ctx t)"
    "headers_true s c" "hot_true c b" "hot_true c (hb_bytes h)"
  shows "turn_blocked s i t \<or>
    (\<exists>x u d g. commit_page_extension limit i (end_ctx h ts) token_ids salt lay (end_counts h ts) (tn_counts t)
        (end_tokens h ts) (tn_tokens t) is_bytes r None nonce (s, c) = (Inr x, (u, d))
      \<and> rc_committed_tokens x = tn_tokens t
      \<and> lookup i (tn_ctx t) verify meta mode u = Inr g \<and> is_hit g \<and> lr_root_kind g = ''page_delta''
      \<and> fst (restore_page_snapshot lay u g (tn_counts t) (tn_tokens t) reader keep new_page_cache)
          = Inr (kept_copy keep result (sha256 result))
      \<and> holds_history u i lay h (ts @ [t]) result)"
proof (cases "turn_blocked s i t")
  case False
  have base: "base_ok i lay h" using assms(1) by (simp add: holds_history_def)
  obtain pre bs where laid: "laid_out lay (end_counts h ts) pre bs b" using history_laid_out [OF assms(1)] by blast
  have enc: "turn_encodes lay i b r (end_counts h ts) (end_tokens h ts) t result"
    by (rule given_encodes [OF _ laid_out_plan [OF laid] _ assms(4)]) (use base in \<open>simp_all add: base_ok_def\<close>)
  have ctx: "is_sha256 (tn_ctx t)" using assms(9) sha256_digest by (auto simp: context_prefix_digest_Some)
  have ok: "turn_publishable s i t"
    using False assms(2,3,5,6) ctx by (auto simp: turn_blocked_def turn_publishable_def intro: stored.exhaust [of "files s (manifest_path i (tn_ctx t))"])
  let ?u = "extended_store s i lay h ts t"
  obtain x d where x: "commit_page_extension limit i (end_ctx h ts) token_ids salt lay (end_counts h ts) (tn_counts t) (end_tokens h ts)
      (tn_tokens t) is_bytes r None nonce (s, c) = (Inr x, (?u, d))" "rc_committed_tokens x = tn_tokens t"
    using commit_turn_ok [OF assms(1) ok enc assms(7-12)] by blast
  have holds: "holds_history ?u i lay h (ts @ [t]) result"
    using extended_history [OF assms(1) ok] enc by (simp add: turn_encodes_def)
  have last: "end_ctx h (ts @ [t]) = tn_ctx t" "end_counts h (ts @ [t]) = tn_counts t" "end_tokens h (ts @ [t]) = tn_tokens t"
    by (simp_all add: end_ctx_def end_counts_def end_tokens_def)
  have fresh: "hot_true new_page_cache y" for y by (simp add: hot_true_def new_page_cache_def)
  have found: "lookup i (tn_ctx t) verify meta mode ?u
      = Inr (hit (history_text i lay h (ts @ [t])) (history_read i lay h (ts @ [t])) ''page_delta'')"
    using history_found [OF holds, of verify meta mode] by (simp add: last history_kind_def)
  have restored: "fst (restore_page_snapshot lay ?u (hit (history_text i lay h (ts @ [t])) (history_read i lay h (ts @ [t])) ''page_delta'')
      (tn_counts t) (tn_tokens t) reader keep new_page_cache) = Inr (kept_copy keep result (sha256 result))"
    using history_restored [OF holds headers_true_new fresh fresh] by (simp add: restore_page_snapshot_def hit_def last)
  from x found restored holds show ?thesis by (intro disjI2 exI conjI) (assumption | simp add: hit_def)+
qed simp

definition eight_tokens :: "int list" where "eight_tokens = [11, 12, 13, 14, 15, 16, 17, 18]"

lemma eight_prefix: "0 \<le> n \<Longrightarrow> n \<le> 8 \<Longrightarrow> \<exists>m. context_prefix_digest eight_tokens ''salt'' (Some n) [] = Inr (sha256 m)"
  by (rule exI [of _ "prefix_preimage ''salt'' eight_tokens n []"])
     (simp add: context_prefix_digest_Some eight_tokens_def features_ok_def is_ascii_def)

theorem page_extension_restores_witness:
  "\<exists>base result delta c4 c8. context_prefix_digest eight_tokens ''salt'' (Some 4) [] = Inr c4
    \<and> context_prefix_digest eight_tokens ''salt'' (Some 8) [] = Inr c8
    \<and> (turn_blocked (published_store empty_store page_identity c4 4 ''nonce'' base) page_identity
          \<lparr>tn_ctx = c8, tn_tokens = 8, tn_counts = [3, 2], tn_delta = delta\<rparr>
       \<or> (\<exists>x u d g. commit_page_extension 0 page_identity c4 eight_tokens ''salt'' demo_layout [2, 1] [3, 2] 4 8 True (Buffer result, None)
             None ''nonce'' (published_store empty_store page_identity c4 4 ''nonce'' base, new_page_cache) = (Inr x, (u, d))
           \<and> lookup page_identity c8 True False None u = Inr g \<and> is_hit g
           \<and> fst (restore_page_snapshot demo_layout u g [3, 2] 8 None False new_page_cache) = Inr (Plain result)))"
proof -
  obtain base result p delta where e: "encode_page_snapshot demo_layout [3, 2] [(''a'', ''ppqqrr''), (''b'', ''yz'')] = Inr result"
    "plan_page_snapshot demo_layout base [2, 1] None = Inr p"
    "encode_page_delta demo_layout base result [2, 1] [3, 2] 4 8 None ''sha256'' None = Inr delta"
    "length base < 2 ^ 20" "length delta < 2 ^ 20"
    using demo_delta by blast
  obtain m4 m8 where ctx: "context_prefix_digest eight_tokens ''salt'' (Some 4) [] = Inr (sha256 m4)"
    "context_prefix_digest eight_tokens ''salt'' (Some 8) [] = Inr (sha256 m8)"
    using eight_prefix [of 4] eight_prefix [of 8] by auto
  let ?s = "published_store empty_store page_identity (sha256 m4) 4 ''nonce'' base"
  let ?h = "\<lparr>hb_ctx = sha256 m4, hb_tokens = 4, hb_counts = [2, 1], hb_nonce = ''nonce'', hb_bytes = base\<rparr>"
  let ?t = "\<lparr>tn_ctx = sha256 m8, tn_tokens = 8, tn_counts = [3, 2], tn_delta = delta\<rparr>"
  have ends: "end_ctx ?h [] = sha256 m4" "end_tokens ?h [] = 4" "end_counts ?h [] = [2, 1]"
    by (simp_all add: end_ctx_def end_tokens_def end_counts_def)
  have pub: "snapshot_publishable empty_store page_identity (sha256 m4) 4 ''nonce'' base"
    using page_publishable [of base 4 m4 "''nonce''"] plan_not_empty [OF e(2)] e(4) by (simp add: OBJECT_BYTES_def)
  have holds: "holds_history ?s page_identity demo_layout ?h [] base"
    by (rule published_history [OF pub _ demo_layout_good e(2)]) (simp_all add: page_identity_def)
  have disk: "healthy ?s" "\<forall>p. files ?s p \<noteq> Unreadable"
    using published_healthy [of empty_store page_identity "sha256 m4" 4 "''nonce''" base] by (auto simp: healthy_def empty_store_def)
  have given: "result_given demo_layout base (Buffer result, None) (end_counts ?h []) (end_tokens ?h []) (tn_counts ?t) (tn_tokens ?t)
      (tn_delta ?t) result"
    using e(1,3) by (auto simp: result_given_def ends)
  have "apply_verified_page_delta demo_layout (verified base) delta [2, 1] [3, 2] 4 8 = Inr (verified result)"
    using encoded_delta_applies [OF demo_layout_good e(2,1,3)] by (simp add: verified_def)
  then obtain q where "plan_page_delta demo_layout delta [2, 1] [3, 2] 4 8 None = Inr q"
    by (auto simp: apply_verified_page_delta_def bindE_Inr plan_delta_whole)
  then obtain header where header: "page_delta_header_prefix delta = Inr header"
    by (auto simp: plan_page_delta_def page_delta_header_prefix_def bindE_Inr)
  then have "length header \<le> length delta" by (auto simp: page_delta_header_prefix_def bindE_Inr)
  then have small: "page_delta_header_prefix (tn_delta ?t) = Inr header" "int (length header) \<le> OBJECT_BYTES"
    using header e(5) by (simp_all add: OBJECT_BYTES_def)
  have fresh: "hot_true new_page_cache y" for y by (simp add: hot_true_def new_page_cache_def)
  note claim = page_extension_restores [OF holds disk given small, of 0 eight_tokens "''salt''" new_page_cache True "''nonce''" True False None
      None False, unfolded ends, simplified, OF ctx fresh]
  have "turn_blocked ?s page_identity ?t
       \<or> (\<exists>x u d g. commit_page_extension 0 page_identity (sha256 m4) eight_tokens ''salt'' demo_layout [2, 1] [3, 2] 4 8
             True (Buffer result, None) None ''nonce'' (?s, new_page_cache) = (Inr x, (u, d))
           \<and> lookup page_identity (sha256 m8) True False None u = Inr g \<and> is_hit g
           \<and> fst (restore_page_snapshot demo_layout u g [3, 2] 8 None False new_page_cache) = Inr (Plain result))"
    using claim by (force simp: kept_copy_def)
  with ctx show ?thesis by blast
qed

end
