(* ===== verification/Page_Graph_Laws.thy ===== *)
theory Page_Graph_Laws
  imports Page_History_Store
begin

text \<open>
  The walk down a stack of deltas ends on its own: the bound on its depth, with which the code protects itself
  from long stacks, changes the result for no stack that it admits.
\<close>

lemma validated_base:
  assumes "validate_page_delta_root v i c = Inr (b, ds)" "the_obj v = Some m"
  shows "b = jget m ''base_root''"
  using assms(1)
  unfolding validate_page_delta_root_def assms(2) option.case
  by (auto simp: validate_flat_delta_root_def bindE_Inr split: if_splits option.splits)

lemma count_step:
  "delta_root_count v = Inr (Suc k) \<longleftrightarrow>
     (\<exists>d. the_obj v = Some d \<and> is_page_delta_root v = Inr True \<and> delta_root_count (jget d ''base_root'') = Inr k)"
  by (subst delta_root_count.simps) (auto simp: bindE_Inr split: option.split if_splits)

lemma count_zero:
  "delta_root_count v = Inr 0 \<longleftrightarrow> the_obj v = None \<or> is_page_delta_root v = Inr False"
  by (subst delta_root_count.simps) (auto simp: bindE_Inr is_page_delta_root_def split: option.split if_splits)

text \<open>C31: Walking a stack of page deltas ends after as many steps as it has deltas. A bound that admits them all
  gives what the exact number of steps gives; with a smaller one the walk is refused, never cut short to a partial
  list of objects.\<close>

theorem page_graph_ends:
  assumes "delta_root_count v = Inr k" "0 < k"
  shows "if k \<le> n then page_graph_descriptors n v i c = page_graph_descriptors k v i c
    else (\<exists>e. page_graph_descriptors n v i c = Inl e)"
  using assms
proof (induction k arbitrary: v n c)
  case (Suc k)
  obtain d where d: "the_obj v = Some d" "is_page_delta_root v = Inr True" "delta_root_count (jget d ''base_root'') = Inr k"
    using Suc.prems(1) by (auto simp: count_step)
  show ?case
  proof (cases n)
    case (Suc n')
    show ?thesis
    proof (cases "validate_page_delta_root v i c")
      case (Inr r)
      obtain b ds where r: "r = (b, ds)" by (cases r)
      have b: "b = jget d ''base_root''" using validated_base [OF Inr [unfolded r] d(1)] .
      show ?thesis
      proof (cases "k = 0")
        case True
        then have "the_obj b = None \<or> is_page_delta_root b = Inr False" using d(3) b by (simp add: count_zero)
        then show ?thesis using Suc True Inr r d(1) by (auto split: option.split)
      next
        case False
        then obtain j where j: "k = Suc j" by (cases k) auto
        have delta: "is_page_delta_root b = Inr True" using d(3) b j by (auto simp: count_step)
        have IH: "if k \<le> n' then page_graph_descriptors n' b i x = page_graph_descriptors k b i x
            else (\<exists>e. page_graph_descriptors n' b i x = Inl e)" for x
          by (rule Suc.IH) (use d(3) b False in simp_all)
        define rest where "rest bd = (\<lambda>base. if \<not> py_eq (jget bd ''committed_tokens'') (jget d ''base_committed_tokens'')
            then Inl (CacheFormatError ''page delta base boundary differs'') else Inr (base @ ds))" for bd
        have walk: "page_graph_descriptors (Suc q) v i c = (case the_obj b of
              None \<Rightarrow> Inl (CacheFormatError ''page delta manifest is not an object'')
            | Some bd \<Rightarrow> (case the_str (jget d ''base_context_digest'') of None \<Rightarrow> Inl (CacheFormatError ''base_context_digest'')
                | Some x \<Rightarrow> bindE (page_graph_descriptors q b i x) (rest bd)))" for q
          unfolding page_graph_descriptors.simps Inr r d(1) delta rest_def
          by (cases "the_obj b"; cases "the_str (jget d ''base_context_digest'')")
             (simp_all only: delta option.case prod.case bindE_simps if_True)
        show ?thesis
        proof (cases "k \<le> n'")
          case True
          then have "page_graph_descriptors n' b i x = page_graph_descriptors k b i x" for x using IH [of x] by simp
          then have same: "page_graph_descriptors n' b i = page_graph_descriptors k b i" by (rule ext)
          show ?thesis unfolding Suc walk same using True by simp
        next
          case False
          then have "\<exists>e. page_graph_descriptors n' b i x = Inl e" for x using IH [of x] by (simp only: if_False)
          then have "\<exists>e. bindE (page_graph_descriptors n' b i x) (rest bd) = Inl e" for x bd
            using exE [of "\<lambda>e. page_graph_descriptors n' b i x = Inl e"] by fastforce
          then have "\<exists>e. page_graph_descriptors (Suc n') v i c = Inl e" unfolding walk
            by (cases "the_obj b"; cases "the_str (jget d ''base_context_digest'')") (simp_all only: option.case, auto)
          then show ?thesis unfolding Suc using False by simp
        qed
      qed
    qed (use Suc in auto)
  qed simp
qed simp

text \<open>A history of one turn: six steps more change nothing.\<close>

theorem page_graph_ends_witness:
  "\<exists>v. delta_root_count v = Inr 1
    \<and> page_graph_descriptors 7 v page_identity (sha256 ''later'') = page_graph_descriptors 1 v page_identity (sha256 ''later'')"
proof -
  let ?h = "\<lparr>hb_ctx = sha256 ''earlier'', hb_tokens = 4, hb_counts = [2, 1], hb_nonce = ''nonce'', hb_bytes = ''pages''\<rparr>"
  let ?t = "\<lparr>tn_ctx = sha256 ''later'', tn_tokens = 8, tn_counts = [3, 2], tn_delta = ''delta''\<rparr>"
  let ?v = "JObj (flat_dict page_identity demo_layout ?h [?t])"
  have "delta_root_count (base_read_root page_identity ?h) = Inr 0"
    by (simp add: count_zero base_is_snapshot)
  then have "delta_root_count ?v = Inr 1"
    by (simp add: count_step flat_is_delta flat_fields)
  then show ?thesis using page_graph_ends [of ?v 1 7 page_identity "sha256 ''later''"] by auto
qed

end
