(* ===== verification/Spec2Isabelle.thy ===== *)
theory Spec2Isabelle
  imports Prelude Py_Value Block_Lease Held_Inventory Quorum Quorum_Channel
    Snapshot_Planner Capture_Leases Snapshot_Ring Sha256 Json
    Json_Values Cache_Identity Context_Chunk Manifest_Format Page_Roots Manifest_Store Manifest_Lookup
    Store_Laws Store_Commit Store_Invalidate Store_Isolation Store_Capacity Capacity_Laws Capacity_Reclaim
    Codec Codec_Laws Store_Publish Store_Extend Chain_Laws Extend_Laws Extend_Commit Page_Codec Page_Delta
    Page_Codec_Laws Page_Delta_Laws Page_History_Laws Page_Cache Page_Store Page_Commit Page_Cache_Laws
    Page_Object_Laws Page_Snapshot_Laws Page_History_Store Page_Extend_Laws Page_Graph_Laws
begin

text \<open>
  SparkCache keeps the key-value blocks of a language model server on persistent storage and restores
  them for later requests that share a prefix. This development models the Python code that decides
  whether stored or borrowed state may be used, and proves what makes those decisions safe. Paths are
  below \<open>src/sparkcache\<close>.

  \<^bold>\<open>The program and the theories\<close>

  A worker process captures the blocks of a finished prefill, cuts them into chunks and commits them to a
  store on disk; it reports which contexts it can offer; a scheduler admits a restore only when every
  worker offers the context; the restore reads the chunks back. The parts are:

  \<^item> Borrowed blocks. \<open>Block_Lease\<close> is \<open>streaming/block_lease.py\<close>: reservations of physical blocks, their
    submission with a completion fence, polling, abort. Threads interleave at the lock: a method is one step
    on the registry record, and \<open>poll\<close> and \<open>abort_request\<close>, which release the lock while they ask the fences,
    are both whole steps and calls that stop between their locked sections. \<open>Capture_Leases\<close> is \<open>capture_read_leases.py\<close> with the messages of the
    connector that carry the acknowledgements of the ranks.
  \<^item> Capture. \<open>Snapshot_Planner\<close> is \<open>streaming/planner.py\<close>: sessions, batches in flight, back pressure,
    commit and abort, with the block mapper as an argument, as in the code. \<open>Snapshot_Ring\<close> is the slot
    machine of \<open>native/python/snapshot_ring_state_model.py\<close>.
  \<^item> Admission. \<open>Held_Inventory\<close> is \<open>held_inventory.py\<close>; \<open>Quorum\<close> is the scheduler half of the report
    protocol in \<open>spark_context_cache_connector.py\<close> (full sets, numbered deltas, checkpoints,
    generations, the announcements of the startup handshake), \<open>Quorum_Channel\<close> its worker half and a channel
    that loses, repeats and reorders reports and lets workers restart. Reports are the dynamically typed values of \<open>Py_Value\<close>.
  \<^item> Names. \<open>Codec\<close> is \<open>spark_context_cache_codec.py\<close>: token packing, shard ownership, digests of token
    prefixes, layer plans and records. \<open>Sha256\<close> and \<open>Json\<close> define the two library functions all names and
    roots rest on, SHA-256 and the canonical form of \<open>json.dumps\<close> with \<open>json.loads\<close>; \<open>Json_Values\<close> is
    Python's comparison and field access on parsed values.
  \<^item> Stored forms. \<open>Cache_Identity\<close>, \<open>Context_Chunk\<close>, \<open>Manifest_Format\<close> and \<open>Page_Roots\<close> are the records
    of \<open>persistent_context_cache/cache_manifest.py\<close>, their encoders and validators.
  \<^item> Pages. \<open>Page_Codec\<close> and \<open>Page_Delta\<close> are \<open>spark_context_cache_hybrid.py\<close>: layouts, complete snapshots
    of the pages of all layers, deltas against an earlier snapshot, their application and the composition
    of a history of deltas; \<open>Page_Codec_Laws\<close>, \<open>Page_Delta_Laws\<close> and \<open>Page_History_Laws\<close> hold what is
    proved of them.
  \<^item> Pages in the store. \<open>Page_Cache\<close>, \<open>Page_Store\<close> and \<open>Page_Commit\<close> are the page half of
    \<open>persistent_context_cache/cache_manifest.py\<close>: the caches of a process, the restore of snapshots and of
    stacked and flat deltas through their bases, the publication of snapshots and of one more turn.
    \<open>Page_Cache_Laws\<close> is about the caches, \<open>Page_Object_Laws\<close> about streams cut into objects,
    \<open>Page_Snapshot_Laws\<close> about snapshots, \<open>Page_History_Store\<close> and \<open>Page_Extend_Laws\<close> about stored
    histories, \<open>Page_Graph_Laws\<close> about the depth of stacks.
  \<^item> The store. \<open>Manifest_Store\<close> has files, durable publication, transactions and commit;
    \<open>Manifest_Lookup\<close> lookup, descriptor chains and restore; \<open>Store_Invalidate\<close> invalidation, with the unlinks
    a disk refuses; \<open>Store_Capacity\<close> the maintenance pass; \<open>Store_Extend\<close> prefix aliases and copy-on-write extensions. A store is a map from
    paths to absent, unreadable or a content, with the operations the file system refuses.

  \<^bold>\<open>Conventions\<close>

  A method that may raise is a function into \<open>exn + 'a\<close>; one that may raise after it has changed its object
  returns an \<open>outcome\<close>, the result with the state it leaves. Every \<open>raise\<close>, \<open>except\<close> and early return of the
  modelled code is a branch. Python integers are \<open>int\<close>, dictionaries are association lists in insertion
  order, and JSON objects keep the order of their keys. The names are those of the code.

  \<^bold>\<open>Interfaces\<close>

  \<open>invariant_system\<close> (Prelude) is what every state machine offers: an initial state, a step relation and an
  invariant kept by every step; the reachable states then satisfy it. It is interpreted on the lease registry,
  the capture leases, the quorum and its channel, the planner, the ring and the inventory. \<open>publisher\<close> and
  \<open>immutable_publisher\<close> (Store_Publish) are what the writers of roots, segments and chunks rely on: after
  success the objects are there, nothing else has changed, nothing published is overwritten; they are
  interpreted on \<open>_publish_immutable\<close> and \<open>_publish_immutable_batch\<close>. \<open>prefix_digester\<close> (Codec) is what the
  writers of aliases rely on: one pass over the tokens gives the digests the prefixes have on their own.
  \<open>page_cache_invariant\<close> (Page_Cache_Laws) is what restore and publication rely on in the caches: a property
  that looking up, remembering and reading headers keep is kept by every page operation.

  \<^bold>\<open>What is shown\<close>

  \<^item> Leases and captures: no block has two owners, blocks stay leased until the fence completes and stay
    referenced until every rank has read them, admission grants exactly what capacity and disjointness allow.
  \<^item> Capture: a snapshot is ready only when its batches tile the target and all have completed; a slot in use
    is never handed on.
  \<^item> Admission: whatever the channel does, a full quorum means every worker process held the context at the
    sequence number the scheduler has accepted from it, for workers that number their reports and but for
    one case that is spelt out: a digest announced in the startup handshake under a number that the first
    statistics report then uses for another inventory.
  \<^item> The store: what is committed is found and restored as it was; a verified hit restores; two restores of
    one lookup never differ; commits never change what is committed; nothing uncommitted is visible; damaged
    entries are recovered; maintenance never deletes what a remaining root refers to, keeps protected
    entries and its budget, reports the work it leaves, and reclaims what it can; aliases and extensions restore what their names say.
  \<^item> Stored forms and names: encoders and decoders are inverse, digests separate token prefixes up to a
    collision of SHA-256.

  \<^item> Pages: snapshots and deltas are read back as written; the delta between two snapshots restores the
    later one; a capture of the changed pages is as good as the later snapshot; composing a history, and
    reconstructing it in place, give what applying its deltas one by one gives.
  \<^item> Pages in the store: a committed snapshot is found and restored as it was under each mode of integrity; a
    turn committed on a history of any length below the limit is found and restored bit for bit, and leaves a
    history again; the caches never hold more than their limits, count exactly what they hold and drop
    the least recently used snapshots first; the walk
    down a stack of deltas ends, and its depth bound never shortens a result.

  SHA-256 is concrete, so nothing can be assumed of it for all arguments: where a law needs that two
  particular texts do not collide, it says so of these texts, or a collision is a case of its conclusion.

  \<^bold>\<open>Bounds\<close>

  The chain of descriptor segments is read with as many steps as the manifest announces segments, which is
  what the loop of the code does; every other recursion is structural or has a measure. Nothing is cut off
  by fuel.

  \<^bold>\<open>Not modelled\<close>

  The lock of the store root (every operation is one critical section), byte telemetry and timing, which no
  decision reads; the wall clock is an argument. CUDA, ctypes, torch tensors and threads that only move
  bytes; the scheduler and worker hooks of the connector that call vLLM; configuration, profiles,
  deployment, qualification and tools.
\<close>

end
